(* ===== verification/Prelude.thy ===== *)
theory Prelude
  imports Main "HOL-Library.Word"
begin

text \<open>
  Shared vocabulary of the development: the machine types of the Rust sources, the result
  type with its early-return operator, Rust strings as UTF-8 byte sequences, big-endian
  integer bytes, and the generic facts the components rely on.

  A Rust \<open>String\<close> or \<open>&str\<close> is modelled by the HOL type \<open>string\<close>, one HOL character per
  byte: \<open>length\<close> is \<open>str::len\<close>, \<open>as_bytes\<close> is \<open>str::as_bytes\<close>, and \<open>chars\<close> decodes the
  scalar values as \<open>str::chars\<close> does. That the bytes are UTF-8 is an invariant of the Rust
  type, written \<open>is_str\<close>.
\<close>

unbundle bit_operations_syntax

type_synonym u8 = "8 word"
type_synonym u16 = "16 word"
type_synonym u32 = "32 word"
type_synonym u64 = "64 word"
type_synonym bytes = "u8 list"

named_theorems codec "rewrite rules that run a reader over bytes a writer produced"
named_theorems strict "what a successful read says about the bytes it consumed"
named_theorems sized "lengths of encoded items"

subsection \<open>Results and early return\<close>

text \<open>\<open>Result<T, E>\<close> is \<open>'e + 'a\<close>, the error on the left. \<open>then_ok\<close> is the \<open>?\<close> operator
  for an unchanged error type.\<close>

definition then_ok :: "'e + 'a \<Rightarrow> ('a \<Rightarrow> 'e + 'b) \<Rightarrow> 'e + 'b" where
  "then_ok m k = (case m of Inl e \<Rightarrow> Inl e | Inr x \<Rightarrow> k x)"

lemma then_ok_simps [simp]:
  "then_ok (Inl e) k = Inl e"
  "then_ok (Inr x) k = k x"
  by (simp_all add: then_ok_def)

lemma then_ok_eq_Inr:
  "then_ok m k = Inr y \<longleftrightarrow> (\<exists>x. m = Inr x \<and> k x = Inr y)"
  by (cases m) auto

lemma then_ok_eq_Inl:
  "then_ok m k = Inl e \<longleftrightarrow> m = Inl e \<or> (\<exists>x. m = Inr x \<and> k x = Inl e)"
  by (cases m) auto

text \<open>\<open>ok_or c e\<close> is \<open>if !c { return Err(e) }\<close> as a step of a chain.\<close>

definition require :: "bool \<Rightarrow> 'e \<Rightarrow> 'e + unit" where
  "require c e = (if c then Inr () else Inl e)"

lemma require_eq_Inr [simp]: "require c e = Inr u \<longleftrightarrow> c"
  by (simp add: require_def)

lemma require_eq_Inl [simp]: "require c e = Inl e' \<longleftrightarrow> \<not> c \<and> e' = e"
  by (auto simp: require_def)

lemma require_True [simp]: "c \<Longrightarrow> require c e = Inr ()"
  by (simp add: require_def)

text \<open>A \<open>for\<close> loop whose body may return early with an error.\<close>

fun for_each_ok :: "('a \<Rightarrow> 'e + unit) \<Rightarrow> 'a list \<Rightarrow> 'e + unit" where
  "for_each_ok f [] = Inr ()"
| "for_each_ok f (x # xs) = then_ok (f x) (\<lambda>_. for_each_ok f xs)"

lemma for_each_ok_Inr [simp]:
  "for_each_ok f xs = Inr u \<longleftrightarrow> (\<forall>x \<in> set xs. f x = Inr ())"
  by (induction xs) (auto simp: then_ok_eq_Inr)

subsection \<open>Machine integers\<close>

text \<open>\<open>i64\<close> values are integers in range; the checked and saturating operations of the
  standard library are written out.\<close>

definition is_i64 :: "int \<Rightarrow> bool" where
  "is_i64 x \<longleftrightarrow> - (2 ^ 63) \<le> x \<and> x < 2 ^ 63"

definition checked_sub_i64 :: "int \<Rightarrow> int \<Rightarrow> int option" where
  "checked_sub_i64 a b = (if is_i64 (a - b) then Some (a - b) else None)"

definition saturating_add_i64 :: "int \<Rightarrow> int \<Rightarrow> int" where
  "saturating_add_i64 a b = max (- (2 ^ 63)) (min (2 ^ 63 - 1) (a + b))"

definition clamp_i64 :: "int \<Rightarrow> int \<Rightarrow> int \<Rightarrow> int" where
  "clamp_i64 lo hi x = max lo (min hi x)"

text \<open>A \<open>usize\<close> is 64 bits wide; a slice is never as long as the whole address space.\<close>

definition slice_ok :: "'a list \<Rightarrow> bool" where
  "slice_ok xs \<longleftrightarrow> length xs < 2 ^ 63"

lemma slice_okI: "length xs \<le> n \<Longrightarrow> n < 2 ^ 63 \<Longrightarrow> slice_ok xs"
  by (simp add: slice_ok_def)

subsection \<open>Big-endian bytes\<close>

text \<open>\<open>uN::to_be_bytes\<close> of the low \<open>8 * k\<close> bits, and \<open>uN::from_be_bytes\<close> into a \<open>u64\<close>.\<close>

fun to_be_bytes :: "nat \<Rightarrow> u64 \<Rightarrow> bytes" where
  "to_be_bytes 0 w = []"
| "to_be_bytes (Suc k) w = to_be_bytes k (drop_bit 8 w) @ [ucast w]"

definition from_be_bytes :: "bytes \<Rightarrow> u64" where
  "from_be_bytes bs = foldl (\<lambda>acc b. push_bit 8 acc OR ucast b) 0 bs"

lemma length_to_be_bytes [simp]: "length (to_be_bytes k w) = k"
  by (induction k arbitrary: w) auto

lemma from_be_bytes_snoc:
  "from_be_bytes (bs @ [b]) = push_bit 8 (from_be_bytes bs) OR ucast b"
  by (simp add: from_be_bytes_def)

lemma be_step: "push_bit 8 (take_bit n (drop_bit 8 w)) OR ucast (ucast w :: u8)
  = take_bit (n + 8) (w :: u64)"
  by (rule bit_word_eqI)
    (auto simp: bit_simps not_le dest: bit_imp_le_length)

lemma from_to_be_bytes: "from_be_bytes (to_be_bytes k w) = take_bit (8 * k) w"
  by (induction k arbitrary: w)
    (simp_all add: from_be_bytes_snoc be_step add.commute, simp add: from_be_bytes_def)

lemma from_be_bytes_to_be_bytes [simp]:
  "from_be_bytes (to_be_bytes 1 w) = take_bit 8 w"
  "from_be_bytes (to_be_bytes 2 w) = take_bit 16 w"
  "from_be_bytes (to_be_bytes 4 w) = take_bit 32 w"
  "from_be_bytes (to_be_bytes 8 w) = w"
  by (simp_all only: from_to_be_bytes) (simp_all add: take_bit_word_eq_self)

lemma ucast_be_step: "ucast (push_bit 8 w OR ucast (b :: u8)) = b" for w :: u64
  by (rule bit_word_eqI) (auto simp: bit_simps)

lemma drop_be_step: "drop_bit 8 (push_bit 8 w OR ucast (b :: u8)) = take_bit 56 w" for w :: u64
  by (rule bit_word_eqI) (auto simp: bit_simps dest: bit_imp_le_length)

lemma from_be_bytes_bits: "take_bit (8 * length bs) (from_be_bytes bs) = from_be_bytes bs"
proof (induction bs rule: rev_induct)
  case Nil
  then show ?case by (simp add: from_be_bytes_def)
next
  case (snoc b bs)
  show ?case
  proof (rule bit_word_eqI)
    fix n assume "n < LENGTH(64)"
    have "m < 8 * length bs" if "bit (from_be_bytes bs) m" for m
      using that by (subst (asm) snoc.IH [symmetric]) (simp add: bit_take_bit_iff)
    then show "bit (take_bit (8 * length (bs @ [b])) (from_be_bytes (bs @ [b]))) n
      = bit (from_be_bytes (bs @ [b])) n"
      by (fastforce simp: from_be_bytes_snoc bit_simps dest: bit_imp_le_length)
  qed
qed

lemma to_be_bytes_take_bit: "8 * k \<le> n \<Longrightarrow> to_be_bytes k (take_bit n w) = to_be_bytes k w"
proof (induction k arbitrary: n w)
  case 0
  then show ?case by simp
next
  case (Suc k)
  have "drop_bit 8 (take_bit n w) = take_bit (n - 8) (drop_bit 8 w)"
    by (rule bit_word_eqI) (auto simp: bit_simps)
  moreover have "(ucast (take_bit n w) :: u8) = ucast w"
    using Suc.prems by (intro bit_word_eqI) (auto simp: bit_simps)
  ultimately show ?case using Suc by simp
qed

lemma to_from_be_bytes: "length bs \<le> 8 \<Longrightarrow> to_be_bytes (length bs) (from_be_bytes bs) = bs"
proof (induction bs rule: rev_induct)
  case Nil
  then show ?case by simp
next
  case (snoc b bs)
  then show ?case
    by (simp add: from_be_bytes_snoc ucast_be_step drop_be_step to_be_bytes_take_bit del: drop_bit_or)
qed

lemma unat_from_be_bytes: "length bs < 8 \<Longrightarrow> unat (from_be_bytes bs) < 2 ^ (8 * length bs)"
  by (subst from_be_bytes_bits [symmetric])
    (simp only: unsigned_take_bit_eq, simp)

subsection \<open>Rust strings\<close>

definition as_bytes :: "string \<Rightarrow> bytes" where
  "as_bytes s = map (\<lambda>c. word_of_nat (of_char c)) s"

definition bytes_string :: "bytes \<Rightarrow> string" where
  "bytes_string bs = map (\<lambda>b. char_of (unat b)) bs"

lemma length_as_bytes [simp]: "length (as_bytes s) = length s"
  by (simp add: as_bytes_def)

lemma as_bytes_Nil [simp]: "as_bytes [] = []"
  by (simp add: as_bytes_def)

lemma as_bytes_Cons [simp]: "as_bytes (c # s) = word_of_nat (of_char c) # as_bytes s"
  by (simp add: as_bytes_def)

lemma as_bytes_append [simp]: "as_bytes (s @ t) = as_bytes s @ as_bytes t"
  by (simp add: as_bytes_def)

lemma of_char_less_256 [simp]: "(of_char c :: nat) < 256"
  by (metis of_char_mod_256 mod_less_divisor zero_less_numeral)

lemma bytes_string_as_bytes [simp]: "bytes_string (as_bytes s) = s"
  by (induction s) (simp_all add: bytes_string_def unat_of_nat)

lemma unat_u8_mod [simp]: "unat (b :: u8) mod 256 = unat b"
  using unsigned_less [of b, where ?'a = nat] by simp

lemma as_bytes_bytes_string [simp]: "as_bytes (bytes_string bs) = bs"
  by (induction bs)
    (simp_all add: bytes_string_def of_char_of)

lemma as_bytes_eq_iff [simp]: "as_bytes s = as_bytes t \<longleftrightarrow> s = t"
  by (metis bytes_string_as_bytes)

text \<open>
  UTF-8 as \<open>core::str::from_utf8\<close> checks it: shortest forms only, no surrogates, nothing above
  \<open>U+10FFFF\<close>. \<open>utf8_next\<close> decodes one scalar value and returns the bytes after it.
\<close>

definition continuation :: "u8 \<Rightarrow> bool" where
  "continuation b \<longleftrightarrow> 0x80 \<le> unat b \<and> unat b \<le> 0xBF"

fun utf8_next :: "bytes \<Rightarrow> (nat \<times> bytes) option" where
  "utf8_next [] = None"
| "utf8_next (b0 # bs) =
    (let a = unat b0 in
     if a < 0x80 then Some (a, bs)
     else if a < 0xC2 then None
     else if a \<le> 0xDF then
       (case bs of
          b1 # r \<Rightarrow> if continuation b1 then Some ((a - 0xC0) * 64 + (unat b1 - 0x80), r) else None
        | _ \<Rightarrow> None)
     else if a \<le> 0xEF then
       (case bs of
          b1 # b2 # r \<Rightarrow>
            if continuation b1 \<and> continuation b2
              \<and> (a = 0xE0 \<longrightarrow> 0xA0 \<le> unat b1) \<and> (a = 0xED \<longrightarrow> unat b1 \<le> 0x9F)
            then Some ((a - 0xE0) * 4096 + (unat b1 - 0x80) * 64 + (unat b2 - 0x80), r) else None
        | _ \<Rightarrow> None)
     else if a \<le> 0xF4 then
       (case bs of
          b1 # b2 # b3 # r \<Rightarrow>
            if continuation b1 \<and> continuation b2 \<and> continuation b3
              \<and> (a = 0xF0 \<longrightarrow> 0x90 \<le> unat b1) \<and> (a = 0xF4 \<longrightarrow> unat b1 \<le> 0x8F)
            then Some ((a - 0xF0) * 262144 + (unat b1 - 0x80) * 4096
                        + (unat b2 - 0x80) * 64 + (unat b3 - 0x80), r) else None
        | _ \<Rightarrow> None)
     else None)"

text \<open>One scalar value takes at least one byte, and at most three per UTF-16 code unit.\<close>

definition len_utf16 :: "nat \<Rightarrow> nat" where
  "len_utf16 c = (if c < 0x10000 then 1 else 2)"

lemma utf8_next_size:
  assumes "utf8_next bs = Some (c, r)"
  shows "length r < length bs" and "length bs \<le> length r + 3 * len_utf16 c"
    and "len_utf16 c \<le> length bs - length r"
  using assms
  by (cases bs; auto simp: Let_def len_utf16_def continuation_def
      split: if_splits list.splits)+

function utf8_chars :: "bytes \<Rightarrow> nat list option" where
  "utf8_chars [] = Some []"
| "utf8_chars (b # bs) =
    (case utf8_next (b # bs) of
       None \<Rightarrow> None
     | Some (c, r) \<Rightarrow> (case utf8_chars r of None \<Rightarrow> None | Some cs \<Rightarrow> Some (c # cs)))"
  by pat_completeness auto
termination
  by (relation "measure length") (auto dest: utf8_next_size(1) simp del: utf8_next.simps)

definition is_str :: "string \<Rightarrow> bool" where
  "is_str s \<longleftrightarrow> utf8_chars (as_bytes s) \<noteq> None"

definition from_utf8 :: "bytes \<Rightarrow> string option" where
  "from_utf8 bs = (if utf8_chars bs = None then None else Some (bytes_string bs))"

definition chars :: "string \<Rightarrow> nat list" where
  "chars s = (case utf8_chars (as_bytes s) of None \<Rightarrow> [] | Some cs \<Rightarrow> cs)"

lemma from_utf8_as_bytes [simp]: "is_str s \<Longrightarrow> from_utf8 (as_bytes s) = Some s"
  by (simp add: from_utf8_def is_str_def)

lemma from_utf8_Some: "from_utf8 bs = Some s \<Longrightarrow> as_bytes s = bs \<and> is_str s"
  by (auto simp: from_utf8_def is_str_def split: if_splits)

text \<open>The Unicode \<open>White_Space\<close> characters, which \<open>str::trim\<close> removes at both ends.\<close>

definition is_whitespace :: "nat \<Rightarrow> bool" where
  "is_whitespace c \<longleftrightarrow> 0x09 \<le> c \<and> c \<le> 0x0D \<or> c = 0x20 \<or> c = 0x85 \<or> c = 0xA0 \<or> c = 0x1680
     \<or> 0x2000 \<le> c \<and> c \<le> 0x200A \<or> c = 0x2028 \<or> c = 0x2029 \<or> c = 0x202F \<or> c = 0x205F
     \<or> c = 0x3000"

definition trim :: "nat list \<Rightarrow> nat list" where
  "trim cs = rev (dropWhile is_whitespace (rev (dropWhile is_whitespace cs)))"

lemma trim_eq_Nil: "trim cs = [] \<longleftrightarrow> (\<forall>c \<in> set cs. is_whitespace c)"
proof -
  have "trim cs = [] \<longleftrightarrow> (\<forall>c \<in> set (dropWhile is_whitespace cs). is_whitespace c)"
    by (simp add: trim_def)
  also have "\<dots> \<longleftrightarrow> dropWhile is_whitespace cs = []"
  proof
    assume "\<forall>c \<in> set (dropWhile is_whitespace cs). is_whitespace c"
    then show "dropWhile is_whitespace cs = []"
      by (metis hd_dropWhile hd_in_set)
  qed (auto dest: set_dropWhileD)
  also have "\<dots> \<longleftrightarrow> (\<forall>c \<in> set cs. is_whitespace c)" by simp
  finally show ?thesis .
qed

text \<open>ASCII strings decode to their own bytes.\<close>

definition ascii :: "string \<Rightarrow> bool" where
  "ascii s \<longleftrightarrow> (\<forall>c \<in> set s. (of_char c :: nat) < 128)"

lemma utf8_chars_ascii: "ascii s \<Longrightarrow> utf8_chars (as_bytes s) = Some (map of_char s)"
  by (induction s) (auto simp: ascii_def unat_of_nat)

lemma chars_ascii: "ascii s \<Longrightarrow> chars s = map of_char s"
  by (simp add: chars_def utf8_chars_ascii)

lemma is_str_ascii: "ascii s \<Longrightarrow> is_str s"
  by (simp add: is_str_def utf8_chars_ascii)

lemma utf8_chars_utf16_bound:
  "utf8_chars bs = Some cs \<Longrightarrow> length bs \<le> 3 * sum_list (map len_utf16 cs)"
proof (induction bs arbitrary: cs rule: utf8_chars.induct)
  case 1
  then show ?case by simp
next
  case (2 b bs)
  then obtain c r cs' where n: "utf8_next (b # bs) = Some (c, r)"
    and r: "utf8_chars r = Some cs'" and cs: "cs = c # cs'"
    by (auto split: option.splits simp del: utf8_next.simps)
  have "length r \<le> 3 * sum_list (map len_utf16 cs')"
    using "2.IH" [OF n] r by simp
  then show ?case using utf8_next_size(2) [OF n] cs by simp
qed

subsection \<open>Taking strings apart\<close>

definition strip_prefix :: "string \<Rightarrow> string \<Rightarrow> string option" where
  "strip_prefix value prefix =
    (if take (length prefix) value = prefix then Some (drop (length prefix) value) else None)"

lemma strip_prefix_append [simp]: "strip_prefix (p @ s) p = Some s"
  by (simp add: strip_prefix_def)

text \<open>\<open>str::split\<close> and \<open>str::split_once\<close> on one character.\<close>

fun split_on :: "char \<Rightarrow> string \<Rightarrow> string list" where
  "split_on c [] = [[]]"
| "split_on c (x # xs) =
    (if x = c then [] # split_on c xs
     else case split_on c xs of [] \<Rightarrow> [[x]] | w # ws \<Rightarrow> (x # w) # ws)"

definition split_once :: "char \<Rightarrow> string \<Rightarrow> (string \<times> string) option" where
  "split_once c s =
    (if c \<in> set s then Some (takeWhile (\<lambda>x. x \<noteq> c) s, tl (dropWhile (\<lambda>x. x \<noteq> c) s)) else None)"

lemma split_on_absent: "c \<notin> set w \<Longrightarrow> split_on c w = [w]"
  by (induction w) auto

lemma split_on_append: "c \<notin> set w \<Longrightarrow> split_on c (w @ c # s) = w # split_on c s"
  by (induction w) auto

lemma split_once_append: "c \<notin> set k \<Longrightarrow> split_once c (k @ c # v) = Some (k, v)"
  by (induction k) (auto simp: split_once_def)

subsection \<open>Decimal numbers\<close>

fun decimal :: "nat \<Rightarrow> string" where
  "decimal n = (if n < 10 then [char_of (48 + n)] else decimal (n div 10) @ [char_of (48 + n mod 10)])"

declare decimal.simps [simp del]

definition format_i64 :: "int \<Rightarrow> string" where
  "format_i64 x = (if x < 0 then CHR ''-'' # decimal (nat (- x)) else decimal (nat x))"

definition is_digit :: "char \<Rightarrow> bool" where
  "is_digit c \<longleftrightarrow> 48 \<le> (of_char c :: nat) \<and> (of_char c :: nat) \<le> 57"

definition parse_digits :: "string \<Rightarrow> nat option" where
  "parse_digits s =
    (if s = [] \<or> \<not> list_all is_digit s then None
     else Some (foldl (\<lambda>n c. 10 * n + (of_char c - 48)) 0 s))"

text \<open>\<open>str::parse::<i64>\<close>: an optional sign and at least one digit, in range.\<close>

definition parse_i64 :: "string \<Rightarrow> int option" where
  "parse_i64 s =
    (let (negative, digits) = (case s of
        [] \<Rightarrow> (False, [])
      | c # cs \<Rightarrow> if c = CHR ''-'' then (True, cs) else if c = CHR ''+'' then (False, cs) else (False, s))
     in case parse_digits digits of
          None \<Rightarrow> None
        | Some n \<Rightarrow> (let v = (if negative then - int n else int n) in if is_i64 v then Some v else None))"

lemma decimal_length: "n < 10 ^ k \<Longrightarrow> 0 < k \<Longrightarrow> length (decimal n) \<le> k"
proof (induction k arbitrary: n)
  case 0
  then show ?case by simp
next
  case (Suc k)
  show ?case
  proof (cases "n < 10")
    case True
    then show ?thesis by (simp add: decimal.simps [of n])
  next
    case False
    with Suc.prems have "0 < k" by (cases k) auto
    moreover from Suc.prems have "n div 10 < 10 ^ k" by (simp add: less_mult_imp_div_less mult.commute)
    ultimately show ?thesis using Suc.IH False by (simp add: decimal.simps [of n])
  qed
qed

lemma decimal_digits: "c \<in> set (decimal n) \<Longrightarrow> is_digit c"
proof (induction n rule: decimal.induct)
  case (1 n)
  have "n mod 10 \<le> 9" by simp
  with 1 show ?case
    by (auto simp: is_digit_def decimal.simps [of n] of_char_of split: if_splits)
qed

lemma decimal_not_Nil [simp]: "decimal n \<noteq> []"
  by (simp add: decimal.simps [of n])

lemma parse_digits_decimal [simp]: "parse_digits (decimal n) = Some n"
proof -
  have "foldl (\<lambda>n c. 10 * n + (of_char c - 48)) 0 (decimal n) = n"
  proof (induction n rule: decimal.induct)
    case (1 n)
    have "n mod 10 < 10" by simp
    then have "(of_char (char_of (48 + n mod 10) :: char) :: nat) = 48 + n mod 10" by (simp add: of_char_of)
    with 1 show ?case by (auto simp: decimal.simps [of n] of_char_of)
  qed
  then show ?thesis by (auto simp: parse_digits_def list_all_iff decimal_digits)
qed

lemma parse_format_i64: "is_i64 x \<Longrightarrow> parse_i64 (format_i64 x) = Some x"
proof -
  assume x: "is_i64 x"
  obtain c cs where d: "decimal (nat x) = c # cs" by (cases "decimal (nat x)") auto
  then have "is_digit c" using decimal_digits [of c "nat x"] by simp
  then have c: "c \<noteq> CHR ''-''" "c \<noteq> CHR ''+''" by (auto simp: is_digit_def)
  from d have p: "parse_digits (c # cs) = Some (nat x)" by (metis parse_digits_decimal)
  show ?thesis
    using x c p by (auto simp: parse_i64_def format_i64_def Let_def d)
qed

text \<open>A guard with no else branch.\<close>

lemma if_True_eq: "(if a then b else True) \<longleftrightarrow> (a \<longrightarrow> b)"
  by simp

subsection \<open>Lines\<close>

definition LF :: u8 where "LF = 10"
definition CR :: u8 where "CR = 13"

text \<open>
  The pieces that \<open>BufRead::lines\<close> and \<open>str::lines\<close> split a text into, and whether each was ended by
  a line feed; a carriage return before the line feed is not part of the line.
\<close>

fun raw_lines :: "bytes \<Rightarrow> (bytes \<times> bool) list" where
  "raw_lines [] = []"
| "raw_lines (x # xs) =
    (if x = LF then ([], True) # raw_lines xs
     else case raw_lines xs of [] \<Rightarrow> [([x], False)] | (l, ended) # ls \<Rightarrow> (x # l, ended) # ls)"

definition strip_return :: "bytes \<times> bool \<Rightarrow> bytes" where
  "strip_return l = (if snd l \<and> fst l \<noteq> [] \<and> last (fst l) = CR then butlast (fst l) else fst l)"

definition str_lines :: "string \<Rightarrow> string list" where
  "str_lines s = map (\<lambda>l. bytes_string (strip_return l)) (raw_lines (as_bytes s))"

lemma raw_lines_absent: "LF \<notin> set t \<Longrightarrow> raw_lines t = (if t = [] then [] else [(t, False)])"
  by (induction t) auto

lemma raw_lines_ended: "LF \<notin> set t \<Longrightarrow> raw_lines (t @ LF # rest) = (t, True) # raw_lines rest"
  by (induction t) auto

subsection \<open>Trimming\<close>

text \<open>The characters of a text with the bytes of each.\<close>

function utf8_pieces :: "bytes \<Rightarrow> (nat \<times> bytes) list" where
  "utf8_pieces bs =
    (case utf8_next bs of
       None \<Rightarrow> []
     | Some (c, r) \<Rightarrow> (c, take (length bs - length r) bs) # utf8_pieces r)"
  by pat_completeness auto
termination
  by (relation "measure length") (auto dest: utf8_next_size(1) simp del: utf8_next.simps)

declare utf8_pieces.simps [simp del]

text \<open>\<open>str::trim\<close>, as a text.\<close>

definition str_trim :: "string \<Rightarrow> string" where
  "str_trim s =
    (let ws = \<lambda>piece. is_whitespace (fst piece)
     in bytes_string (concat (map snd (rev (dropWhile ws (rev (dropWhile ws (utf8_pieces (as_bytes s)))))))))"

lemma utf8_pieces_ascii:
  "ascii s \<Longrightarrow> utf8_pieces (as_bytes s) = map (\<lambda>c. (of_char c, as_bytes [c])) s"
  by (induction s) (subst utf8_pieces.simps, auto simp: ascii_def unat_of_nat)+

end
