(* ===== verification/Cbor.thy ===== *)
theory Cbor
  imports Prelude
begin

text \<open>
  Canonical CBOR primitives: \<open>phone-auth-protocol/src/cbor.rs\<close>. The writer is its buffer; the
  reader is the buffer and a position, as in the source, and every operation returns the
  reader it leaves behind. Heads are written in the shortest form and the reader refuses any
  other, which the locale \<open>wire_item\<close> turns into unambiguous decoding for every item kind.
\<close>

subsection \<open>Errors, writer and reader\<close>

datatype cbor_error =
    Truncated
  | TrailingBytes
  | NonCanonicalInteger
  | UnsupportedItem
  | UnexpectedType
  | OutOfRange
  | InvalidUtf8

definition MAJOR_UINT :: u8 where "MAJOR_UINT = 0"
definition MAJOR_NEGINT :: u8 where "MAJOR_NEGINT = 1"
definition MAJOR_BYTES :: u8 where "MAJOR_BYTES = 2"
definition MAJOR_TEXT :: u8 where "MAJOR_TEXT = 3"
definition MAJOR_ARRAY :: u8 where "MAJOR_ARRAY = 4"

lemmas major_defs = MAJOR_UINT_def MAJOR_NEGINT_def MAJOR_BYTES_def MAJOR_TEXT_def MAJOR_ARRAY_def

type_synonym writer = bytes

definition writer_new :: writer where
  "writer_new = []"

definition w_head :: "u8 \<Rightarrow> u64 \<Rightarrow> writer \<Rightarrow> writer" where
  "w_head major argument buf =
    (let major = push_bit 5 major in
     if argument \<le> 23 then buf @ [major OR ucast argument]
     else if argument \<le> 0xff then buf @ [major OR 24] @ to_be_bytes 1 argument
     else if argument \<le> 0xffff then buf @ [major OR 25] @ to_be_bytes 2 argument
     else if argument \<le> 0xffffffff then buf @ [major OR 26] @ to_be_bytes 4 argument
     else buf @ [major OR 27] @ to_be_bytes 8 argument)"

definition w_array :: "u64 \<Rightarrow> writer \<Rightarrow> writer" where
  "w_array len w = w_head MAJOR_ARRAY len w"

definition w_uint :: "u64 \<Rightarrow> writer \<Rightarrow> writer" where
  "w_uint value w = w_head MAJOR_UINT value w"

definition w_int :: "int \<Rightarrow> writer \<Rightarrow> writer" where
  "w_int value w =
    (if value < 0 then w_head MAJOR_NEGINT (word_of_int (- 1 - value)) w
     else w_head MAJOR_UINT (word_of_int value) w)"

definition w_text :: "string \<Rightarrow> writer \<Rightarrow> writer" where
  "w_text value w = w_head MAJOR_TEXT (word_of_nat (length value)) w @ as_bytes value"

definition w_bytes :: "bytes \<Rightarrow> writer \<Rightarrow> writer" where
  "w_bytes value w = w_head MAJOR_BYTES (word_of_nat (length value)) w @ value"

record reader =
  buf :: bytes
  pos :: nat

definition reader_new :: "bytes \<Rightarrow> reader" where
  "reader_new b = \<lparr>buf = b, pos = 0\<rparr>"

text \<open>\<open>Reader::take\<close>: \<open>checked_add\<close> on a 64-bit \<open>usize\<close>, then the slice.\<close>

definition r_take :: "nat \<Rightarrow> reader \<Rightarrow> cbor_error + (bytes \<times> reader)" where
  "r_take len r =
    (if pos r + len \<ge> 2 ^ 64 then Inl OutOfRange
     else if pos r + len > length (buf r) then Inl Truncated
     else Inr (take len (drop (pos r) (buf r)), r\<lparr>pos := pos r + len\<rparr>))"

definition r_argument :: "nat \<Rightarrow> u64 \<Rightarrow> u8 \<Rightarrow> reader \<Rightarrow> cbor_error + ((u8 \<times> u64) \<times> reader)" where
  "r_argument k least major r =
    then_ok (r_take k r) (\<lambda>(bs, r).
      let value = from_be_bytes bs in
      if value \<le> least then Inl NonCanonicalInteger else Inr ((major, value), r))"

definition r_head :: "reader \<Rightarrow> cbor_error + ((u8 \<times> u64) \<times> reader)" where
  "r_head r =
    then_ok (r_take 1 r) (\<lambda>(bs, r).
      case bs of
        [] \<Rightarrow> Inl Truncated
      | initial # _ \<Rightarrow>
        (let major = drop_bit 5 initial; additional = initial AND 0x1f in
         if additional \<le> 23 then Inr ((major, ucast additional), r)
         else if additional = 24 then r_argument 1 23 major r
         else if additional = 25 then r_argument 2 0xff major r
         else if additional = 26 then r_argument 4 0xffff major r
         else if additional = 27 then r_argument 8 0xffffffff major r
         else Inl UnsupportedItem))"

definition r_expect :: "u8 \<Rightarrow> reader \<Rightarrow> cbor_error + (u64 \<times> reader)" where
  "r_expect major r =
    then_ok (r_head r) (\<lambda>((actual, argument), r).
      if actual \<noteq> major then Inl UnexpectedType else Inr (argument, r))"

definition r_array :: "reader \<Rightarrow> cbor_error + (u64 \<times> reader)" where
  "r_array r = r_expect MAJOR_ARRAY r"

definition r_uint :: "reader \<Rightarrow> cbor_error + (u64 \<times> reader)" where
  "r_uint r = r_expect MAJOR_UINT r"

definition i64_try_from :: "u64 \<Rightarrow> int option" where
  "i64_try_from w = (if uint w < 2 ^ 63 then Some (uint w) else None)"

definition r_int :: "reader \<Rightarrow> cbor_error + (int \<times> reader)" where
  "r_int r =
    then_ok (r_head r) (\<lambda>((major, argument), r).
      if major = MAJOR_UINT then
        (case i64_try_from argument of None \<Rightarrow> Inl OutOfRange | Some v \<Rightarrow> Inr (v, r))
      else if major = MAJOR_NEGINT then
        (case i64_try_from argument of None \<Rightarrow> Inl OutOfRange | Some v \<Rightarrow> Inr (- 1 - v, r))
      else Inl UnexpectedType)"

definition r_text :: "reader \<Rightarrow> cbor_error + (string \<times> reader)" where
  "r_text r =
    then_ok (r_expect MAJOR_TEXT r) (\<lambda>(len, r).
    then_ok (r_take (unat len) r) (\<lambda>(bs, r).
      case from_utf8 bs of None \<Rightarrow> Inl InvalidUtf8 | Some s \<Rightarrow> Inr (s, r)))"

definition r_bytes :: "reader \<Rightarrow> cbor_error + (bytes \<times> reader)" where
  "r_bytes r =
    then_ok (r_expect MAJOR_BYTES r) (\<lambda>(len, r). r_take (unat len) r)"

definition r_finish :: "reader \<Rightarrow> cbor_error + unit" where
  "r_finish r = (if pos r = length (buf r) then Inr () else Inl TrailingBytes)"

subsection \<open>Reading what was written\<close>

text \<open>\<open>reader_at pre rest\<close> is the reader of \<open>pre @ rest\<close> that has consumed \<open>pre\<close>.\<close>

definition reader_at :: "bytes \<Rightarrow> bytes \<Rightarrow> reader" where
  "reader_at pre rest = \<lparr>buf = pre @ rest, pos = length pre\<rparr>"

lemma reader_new_at: "reader_new b = reader_at [] b"
  by (simp add: reader_new_def reader_at_def)

lemma r_finish_at [simp]:
  "r_finish (reader_at pre rest) = Inr u \<longleftrightarrow> rest = []"
  "r_finish (reader_at pre []) = Inr ()"
  by (simp_all add: r_finish_def reader_at_def)

lemma r_take_at:
  assumes "slice_ok (pre @ xs @ rest)" and "n = length xs"
  shows "r_take n (reader_at pre (xs @ rest)) = Inr (xs, reader_at (pre @ xs) rest)"
  using assms by (simp add: r_take_def reader_at_def slice_ok_def)

lemma r_take_strict:
  assumes "r_take n (reader_at pre bs) = Inr (xs, r)"
  shows "length xs = n \<and> (\<exists>rest. bs = xs @ rest \<and> r = reader_at (pre @ xs) rest)"
proof -
  have "n \<le> length bs" and xs: "xs = take n bs" and r: "r = \<lparr>buf = pre @ bs, pos = length pre + n\<rparr>"
    using assms by (auto simp: r_take_def reader_at_def split: if_splits)
  then have "bs = xs @ drop n bs" and "r = reader_at (pre @ xs) (drop n bs)"
    by (auto simp: reader_at_def)
  with \<open>n \<le> length bs\<close> xs show ?thesis by (intro conjI exI) auto
qed

lemma take_bit_lt_eq: "unat w < 2 ^ n \<Longrightarrow> take_bit n w = w" for w :: "'a::len word"
  by (simp only: word_unat_eq_iff unsigned_take_bit_eq) (simp add: take_bit_eq_mod)

lemma and_31: "w AND 31 = take_bit 5 w" for w :: u8
  by (simp add: take_bit_eq_mask mask_eq_exp_minus_1)

lemma head_byte:
  fixes m x :: u8
  assumes "unat m < 8" and "unat x < 32"
  shows "drop_bit 5 (push_bit 5 m OR x) = m" and "(push_bit 5 m OR x) AND 31 = x"
proof -
  have m: "take_bit 3 m = m" and x: "take_bit 5 x = x"
    using assms by (simp_all add: take_bit_lt_eq)
  have "drop_bit 5 (push_bit 5 (take_bit 3 m) OR take_bit 5 x) = take_bit 3 m"
    by (rule bit_word_eqI) (auto simp: bit_simps)
  then show "drop_bit 5 (push_bit 5 m OR x) = m" by (simp only: m x)
  have "take_bit 5 (push_bit 5 m OR take_bit 5 x) = take_bit 5 x"
    by (rule bit_word_eqI) (auto simp: bit_simps)
  then show "(push_bit 5 m OR x) AND 31 = x" by (simp only: x and_31)
qed

lemma head_byte_split:
  fixes i :: u8
  shows "push_bit 5 (drop_bit 5 i) OR (i AND 31) = i" and "unat (drop_bit 5 i) < 8"
    and "unat (i AND 31) < 32"
proof -
  show "push_bit 5 (drop_bit 5 i) OR (i AND 31) = i"
    unfolding and_31 by (rule bit_word_eqI) (auto simp: bit_simps)
  show "unat (drop_bit 5 i) < 8"
    using unsigned_less [of i, where ?'a = nat]
    by (simp only: unsigned_drop_bit_eq) (simp add: drop_bit_eq_div take_bit_eq_mod)
  show "unat (i AND 31) < 32"
    unfolding and_31 by (simp only: unsigned_take_bit_eq) (simp add: take_bit_eq_mod)
qed

lemma ucast_small:
  fixes a :: u64
  assumes "a \<le> 23"
  shows "unat (ucast a :: u8) = unat a" and "unat (ucast a :: u8) \<le> 23"
    and "ucast (ucast a :: u8) = a"
proof -
  have "unat a \<le> 23" using assms by (simp add: word_le_nat_alt)
  then show u: "unat (ucast a :: u8) = unat a" and "unat (ucast a :: u8) \<le> 23"
    by (simp_all add: unsigned_ucast_eq take_bit_eq_mod)
  show "ucast (ucast a :: u8) = a"
  proof -
    have "ucast (ucast a :: u8) = take_bit 8 a"
      by (rule bit_word_eqI) (auto simp: bit_simps)
    also have "\<dots> = a" using \<open>unat a \<le> 23\<close> by (intro take_bit_lt_eq) simp
    finally show ?thesis .
  qed
qed

lemma unat_ucast_u8: "unat (ucast (x :: u8) :: u64) = unat x"
  using unsigned_less [of x, where ?'a = nat] by (simp add: unsigned_ucast_eq take_bit_eq_mod)

lemma w_head_append: "w_head m a w = w @ w_head m a []"
  by (simp add: w_head_def Let_def)

lemma r_argument_at:
  assumes "slice_ok (pre @ to_be_bytes k a @ rest)" and "from_be_bytes (to_be_bytes k a) = a" and "\<not> a \<le> l"
  shows "r_argument k l m (reader_at pre (to_be_bytes k a @ rest))
    = Inr ((m, a), reader_at (pre @ to_be_bytes k a) rest)"
  using assms by (simp add: r_argument_def r_take_at Let_def)

lemma r_head_at:
  assumes s: "slice_ok (pre @ w_head m a [] @ rest)" and m: "unat m < 8"
  shows "r_head (reader_at pre (w_head m a [] @ rest)) = Inr ((m, a), reader_at (pre @ w_head m a []) rest)"
proof -
  have take1: "r_take (Suc 0) (reader_at pre (b # xs)) = Inr ([b], reader_at (pre @ [b]) xs)"
    if "slice_ok (pre @ b # xs)" for b xs
    using r_take_at [of pre "[b]" xs 1] that by simp
  have arg: "r_argument k l m (reader_at (pre @ [b]) (to_be_bytes k a @ rest))
      = Inr ((m, a), reader_at (pre @ b # to_be_bytes k a) rest)"
    if "slice_ok (pre @ b # to_be_bytes k a @ rest)" and "unat a < 2 ^ (8 * k)" and "\<not> a \<le> l" for k l b
    using r_argument_at [of "pre @ [b]" k a rest l m] that by (simp add: from_to_be_bytes take_bit_lt_eq)
  have u: "unat a < 2 ^ 64" using unsigned_less [of a, where ?'a = nat] by simp
  note hb = head_byte [OF m]
  show ?thesis
    using s u
    by (auto simp: w_head_def r_head_def Let_def take1 hb ucast_small word_le_nat_alt arg
        arg [where k = 1, simplified] simp del: drop_bit_or)
qed

lemma r_take_one:
  assumes "r_take 1 (reader_at pre bs) = Inr (xs, r)"
  obtains b rest where "xs = [b]" and "bs = b # rest" and "r = reader_at (pre @ [b]) rest"
  using r_take_strict [OF assms] by (cases xs) auto

lemma r_argument_strict:
  assumes "r_argument k l m (reader_at pre bs) = Inr ((m', a), r)" and "k \<le> 8"
  shows "m' = m \<and> \<not> a \<le> l \<and> take_bit (8 * k) a = a
    \<and> (\<exists>rest. bs = to_be_bytes k a @ rest \<and> r = reader_at (pre @ to_be_bytes k a) rest)"
proof -
  obtain xs r' where t: "r_take k (reader_at pre bs) = Inr (xs, r')"
    and v: "m' = m" "a = from_be_bytes xs" "\<not> a \<le> l" "r = r'"
    using assms(1) by (auto simp: r_argument_def then_ok_eq_Inr Let_def split: if_splits)
  from r_take_strict [OF t] obtain rest where len: "length xs = k"
    and bs: "bs = xs @ rest" and r': "r' = reader_at (pre @ xs) rest" by auto
  have "to_be_bytes k a = xs" and "take_bit (8 * k) a = a"
    using len assms(2) to_from_be_bytes [of xs] from_be_bytes_bits [of xs] v(2) by auto
  with v bs r' show ?thesis by auto
qed

lemma w_head_of_argument:
  assumes "take_bit (8 * k) a = a"
  shows "k = 1 \<Longrightarrow> \<not> a \<le> 23 \<Longrightarrow> w_head m a [] = (push_bit 5 m OR 24) # to_be_bytes k a"
    and "k = 2 \<Longrightarrow> \<not> a \<le> 0xff \<Longrightarrow> w_head m a [] = (push_bit 5 m OR 25) # to_be_bytes k a"
    and "k = 4 \<Longrightarrow> \<not> a \<le> 0xffff \<Longrightarrow> w_head m a [] = (push_bit 5 m OR 26) # to_be_bytes k a"
    and "k = 8 \<Longrightarrow> \<not> a \<le> 0xffffffff \<Longrightarrow> w_head m a [] = (push_bit 5 m OR 27) # to_be_bytes k a"
proof -
  have "unat a < 2 ^ (8 * k)"
    by (subst assms [symmetric]) (simp only: unsigned_take_bit_eq, simp add: take_bit_eq_mod)
  then show "k = 1 \<Longrightarrow> \<not> a \<le> 23 \<Longrightarrow> w_head m a [] = (push_bit 5 m OR 24) # to_be_bytes k a"
    and "k = 2 \<Longrightarrow> \<not> a \<le> 0xff \<Longrightarrow> w_head m a [] = (push_bit 5 m OR 25) # to_be_bytes k a"
    and "k = 4 \<Longrightarrow> \<not> a \<le> 0xffff \<Longrightarrow> w_head m a [] = (push_bit 5 m OR 26) # to_be_bytes k a"
    and "k = 8 \<Longrightarrow> \<not> a \<le> 0xffffffff \<Longrightarrow> w_head m a [] = (push_bit 5 m OR 27) # to_be_bytes k a"
    by (auto simp: w_head_def Let_def word_le_nat_alt)
qed

lemma r_head_strict:
  assumes "r_head (reader_at pre bs) = Inr ((m, a), r)"
  shows "unat m < 8 \<and> (\<exists>rest. bs = w_head m a [] @ rest \<and> r = reader_at (pre @ w_head m a []) rest)"
proof -
  obtain xs r' where t: "r_take 1 (reader_at pre bs) = Inr (xs, r')"
    using assms by (auto simp: r_head_def then_ok_eq_Inr)
  from r_take_one [OF t] obtain b rest where xs: "xs = [b]" and bs: "bs = b # rest"
    and r': "r' = reader_at (pre @ [b]) rest" by auto
  define mj where "mj = drop_bit 5 b"
  have b: "b = push_bit 5 mj OR (b AND 31)" and lt: "unat mj < 8"
    using head_byte_split [of b] by (simp_all add: mj_def)
  have long: ?thesis
    if arg: "r_argument k l mj (reader_at (pre @ [b]) rest) = Inr ((m, a), r)" and k: "k \<le> 8"
      and w: "take_bit (8 * k) a = a \<Longrightarrow> \<not> a \<le> l \<Longrightarrow> w_head mj a [] = b # to_be_bytes k a" for k l
    using r_argument_strict [OF arg k] w bs lt by auto
  have "r_head (reader_at pre bs) = (if b AND 31 \<le> 23 then Inr ((mj, ucast (b AND 31)), r')
         else if b AND 31 = 24 then r_argument 1 23 mj r'
         else if b AND 31 = 25 then r_argument 2 0xff mj r'
         else if b AND 31 = 26 then r_argument 4 0xffff mj r'
         else if b AND 31 = 27 then r_argument 8 0xffffffff mj r'
         else Inl UnsupportedItem)"
    using t xs by (simp add: r_head_def Let_def mj_def)
  note eq = this [symmetric, unfolded assms]
  show ?thesis
  proof (cases "b AND 31 \<le> 23")
    case True
    then have m: "m = mj" and a: "a = ucast (b AND 31)" and r: "r = r'" using eq by auto
    have "unat a = unat (b AND 31)" by (simp only: a unat_ucast_u8)
    moreover have "unat (b AND 31) \<le> 23" using True by (simp add: word_le_nat_alt)
    ultimately have "a \<le> 23" by (simp add: word_le_nat_alt)
    moreover have "ucast a = b AND 31" unfolding a by (rule bit_word_eqI) (auto simp: bit_simps)
    ultimately have "w_head mj a [] = [b]" using b by (simp add: w_head_def Let_def)
    with m r r' bs lt show ?thesis by auto
  next
    case False
    with eq consider
        "b AND 31 = 24" "r_argument 1 23 mj r' = Inr ((m, a), r)"
      | "b AND 31 = 25" "r_argument 2 0xff mj r' = Inr ((m, a), r)"
      | "b AND 31 = 26" "r_argument 4 0xffff mj r' = Inr ((m, a), r)"
      | "b AND 31 = 27" "r_argument 8 0xffffffff mj r' = Inr ((m, a), r)"
      by (auto split: if_splits)
    then show ?thesis
    proof cases
      case 1
      show ?thesis
        by (rule long [OF 1(2) [unfolded r']], simp, subst b, subst 1(1), rule w_head_of_argument(1)) auto
    next
      case 2
      show ?thesis
        by (rule long [OF 2(2) [unfolded r']], simp, subst b, subst 2(1), rule w_head_of_argument(2)) auto
    next
      case 3
      show ?thesis
        by (rule long [OF 3(2) [unfolded r']], simp, subst b, subst 3(1), rule w_head_of_argument(3)) auto
    next
      case 4
      show ?thesis
        by (rule long [OF 4(2) [unfolded r']], simp, subst b, subst 4(1), rule w_head_of_argument(4)) auto
    qed
  qed
qed


subsection \<open>The interface of a wire item\<close>

text \<open>
  One kind of item: \<open>put\<close> appends it to the buffer, \<open>get\<close> reads it back and \<open>ok\<close> is the
  range of values a Rust caller can hand over. \<open>get_put\<close>: what was written is read back.
  \<open>get_strict\<close>: whatever is read consumed exactly the bytes \<open>put\<close> would have written, so
  no second spelling of a value is accepted.
\<close>

locale wire_item =
  fixes put :: "'a \<Rightarrow> writer \<Rightarrow> writer"
    and enc :: "'a \<Rightarrow> bytes"
    and get :: "reader \<Rightarrow> 'e + ('a \<times> reader)"
    and ok :: "'a \<Rightarrow> bool"
  assumes put_append: "put a w = w @ enc a"
    and get_put: "ok a \<Longrightarrow> slice_ok (pre @ enc a @ rest) \<Longrightarrow>
      get (reader_at pre (enc a @ rest)) = Inr (a, reader_at (pre @ enc a) rest)"
    and get_strict: "get (reader_at pre bs) = Inr (a, r) \<Longrightarrow>
      ok a \<and> (\<exists>rest. bs = enc a @ rest \<and> r = reader_at (pre @ enc a) rest)"
begin

lemma get_put_end:
  "ok a \<Longrightarrow> slice_ok (pre @ enc a) \<Longrightarrow>
    get (reader_at pre (enc a)) = Inr (a, reader_at (pre @ enc a) [])"
  using get_put [of a pre "[]"] by simp

lemma put_prefix_free:
  assumes "ok a" and "ok b" and "slice_ok (enc a @ x)" and eq: "enc a @ x = enc b @ y"
  shows "a = b \<and> x = y"
proof -
  have "get (reader_at [] (enc a @ x)) = Inr (a, reader_at (enc a) x)"
    using get_put [of a "[]" x] assms by simp
  moreover have "get (reader_at [] (enc b @ y)) = Inr (b, reader_at (enc b) y)"
    using get_put [of b "[]" y] assms by simp
  ultimately show ?thesis using eq by (simp add: reader_at_def)
qed

end

definition enc_array :: "u64 \<Rightarrow> bytes" where "enc_array n = w_array n []"
definition enc_uint :: "u64 \<Rightarrow> bytes" where "enc_uint n = w_uint n []"
definition enc_int :: "int \<Rightarrow> bytes" where "enc_int i = w_int i []"
definition enc_text :: "string \<Rightarrow> bytes" where "enc_text s = w_text s []"
definition enc_bytes :: "bytes \<Rightarrow> bytes" where "enc_bytes b = w_bytes b []"

lemmas enc_defs = enc_array_def enc_uint_def enc_int_def enc_text_def enc_bytes_def
lemmas w_defs = w_array_def w_uint_def w_int_def w_text_def w_bytes_def

lemma w_append_aux:
  "w_array n w = w @ w_array n []"
  "w_uint n w = w @ w_uint n []"
  "w_int i w = w @ w_int i []"
  "w_text s w = w @ w_text s []"
  "w_bytes b w = w @ w_bytes b []"
  by (auto simp: w_defs w_head_append [of _ _ w])

lemma unat_major:
  "unat MAJOR_UINT < 8" "unat MAJOR_NEGINT < 8" "unat MAJOR_BYTES < 8" "unat MAJOR_TEXT < 8"
  "unat MAJOR_ARRAY < 8"
  by (simp_all add: major_defs)

lemma r_expect_at:
  assumes "slice_ok (pre @ w_head m a [] @ rest)" and "unat m < 8"
  shows "r_expect m (reader_at pre (w_head m a [] @ rest)) = Inr (a, reader_at (pre @ w_head m a []) rest)"
  using r_head_at [OF assms] by (simp add: r_expect_def)

lemma r_expect_strict:
  assumes "r_expect m (reader_at pre bs) = Inr (a, r)"
  shows "\<exists>rest. bs = w_head m a [] @ rest \<and> r = reader_at (pre @ w_head m a []) rest"
proof -
  from assms have "r_head (reader_at pre bs) = Inr ((m, a), r)"
    by (auto simp: r_expect_def then_ok_eq_Inr split: if_splits)
  from r_head_strict [OF this] show ?thesis by simp
qed

interpretation array_item: wire_item w_array enc_array r_array "\<lambda>_. True"
  by (unfold_locales, unfold enc_defs)
    (rule w_append_aux, simp add: w_array_def r_array_def r_expect_at unat_major,
     simp add: w_array_def r_array_def r_expect_strict)

interpretation uint_item: wire_item w_uint enc_uint r_uint "\<lambda>_. True"
  by (unfold_locales, unfold enc_defs)
    (rule w_append_aux, simp add: w_uint_def r_uint_def r_expect_at unat_major,
     simp add: w_uint_def r_uint_def r_expect_strict)

lemma i64_try_from_small: "0 \<le> v \<Longrightarrow> v < 2 ^ 63 \<Longrightarrow> i64_try_from (word_of_int v) = Some v"
  by (simp add: i64_try_from_def uint_word_of_int)

lemma i64_try_from_Some: "i64_try_from a = Some v \<Longrightarrow> 0 \<le> v \<and> v < 2 ^ 63 \<and> word_of_int v = a"
  by (auto simp: i64_try_from_def split: if_splits)

interpretation int_item: wire_item w_int enc_int r_int is_i64
proof (unfold_locales, unfold enc_defs)
  fix a :: int and w
  show "w_int a w = w @ w_int a []" by (rule w_append_aux)
next
  fix a :: int and pre rest
  assume "is_i64 a" and s: "slice_ok (pre @ w_int a [] @ rest)"
  then have "a < 0 \<Longrightarrow> i64_try_from (word_of_int (- 1 - a)) = Some (- 1 - a)"
    and "\<not> a < 0 \<Longrightarrow> i64_try_from (word_of_int a) = Some a"
    by (auto simp: is_i64_def intro!: i64_try_from_small simp del: of_int_diff)
  then show "r_int (reader_at pre (w_int a [] @ rest)) = Inr (a, reader_at (pre @ w_int a []) rest)"
    using s by (cases "a < 0") (simp_all add: w_int_def r_int_def r_head_at unat_major major_defs)
next
  fix pre bs :: bytes and a r
  assume "r_int (reader_at pre bs) = Inr (a, r)"
  then obtain m arg v where h: "r_head (reader_at pre bs) = Inr ((m, arg), r)"
    and v: "i64_try_from arg = Some v" and m: "m = MAJOR_UINT \<and> a = v \<or> m = MAJOR_NEGINT \<and> a = - 1 - v"
    by (auto simp: r_int_def then_ok_eq_Inr split: if_splits option.splits)
  have "w_int a [] = w_head m arg []" and "is_i64 a"
    using m i64_try_from_Some [OF v] by (auto simp: w_int_def is_i64_def)
  then show "is_i64 a \<and> (\<exists>rest. bs = w_int a [] @ rest \<and> r = reader_at (pre @ w_int a []) rest)"
    using r_head_strict [OF h] by simp
qed

lemma body_at:
  assumes "slice_ok (pre @ (w_head m (word_of_nat (length b)) [] @ b) @ rest)" and "unat m < 8"
  shows "r_expect m (reader_at pre ((w_head m (word_of_nat (length b)) [] @ b) @ rest))
      = Inr (word_of_nat (length b), reader_at (pre @ w_head m (word_of_nat (length b)) []) (b @ rest))"
    and "r_take (unat (word_of_nat (length b) :: u64)) (reader_at (pre @ w_head m (word_of_nat (length b)) []) (b @ rest))
      = Inr (b, reader_at (pre @ w_head m (word_of_nat (length b)) [] @ b) rest)"
  using assms r_expect_at [of pre m "word_of_nat (length b)" "b @ rest"]
    r_take_at [of "pre @ w_head m (word_of_nat (length b)) []" b rest "length b"]
  by (simp_all add: slice_ok_def unsigned_of_nat take_bit_nat_eq_self)

lemma body_strict:
  assumes "r_expect m (reader_at pre bs) = Inr (len, r')" and "r_take (unat len) r' = Inr (b, r)"
  shows "\<exists>rest. bs = (w_head m (word_of_nat (length b)) [] @ b) @ rest
    \<and> r = reader_at (pre @ w_head m (word_of_nat (length b)) [] @ b) rest"
proof -
  from r_expect_strict [OF assms(1)] obtain rest where bs: "bs = w_head m len [] @ rest"
    and r': "r' = reader_at (pre @ w_head m len []) rest" by auto
  from r_take_strict [OF assms(2) [unfolded r']] obtain rest' where "length b = unat len"
    and "rest = b @ rest'" and "r = reader_at ((pre @ w_head m len []) @ b) rest'" by auto
  with bs show ?thesis by auto
qed

interpretation bytes_item: wire_item w_bytes enc_bytes r_bytes "\<lambda>_. True"
proof (unfold_locales, unfold enc_defs)
  fix a :: bytes and w
  show "w_bytes a w = w @ w_bytes a []" by (rule w_append_aux)
next
  fix a pre rest :: bytes
  assume s: "slice_ok (pre @ w_bytes a [] @ rest)"
  show "r_bytes (reader_at pre (w_bytes a [] @ rest)) = Inr (a, reader_at (pre @ w_bytes a []) rest)"
    using body_at [OF s [unfolded w_bytes_def] unat_major(3)] by (simp add: r_bytes_def w_bytes_def)
next
  fix pre bs a :: bytes and r
  assume "r_bytes (reader_at pre bs) = Inr (a, r)"
  then obtain len r' where "r_expect MAJOR_BYTES (reader_at pre bs) = Inr (len, r')"
    and "r_take (unat len) r' = Inr (a, r)"
    by (auto simp: r_bytes_def then_ok_eq_Inr)
  from body_strict [OF this] show "True \<and> (\<exists>rest. bs = w_bytes a [] @ rest \<and> r = reader_at (pre @ w_bytes a []) rest)"
    by (auto simp: w_bytes_def)
qed

interpretation text_item: wire_item w_text enc_text r_text is_str
proof (unfold_locales, unfold enc_defs)
  fix a :: string and w
  show "w_text a w = w @ w_text a []" by (rule w_append_aux)
next
  fix a :: string and pre rest :: bytes
  assume "is_str a" and s: "slice_ok (pre @ w_text a [] @ rest)"
  moreover from s have "slice_ok (pre @ (w_head MAJOR_TEXT (word_of_nat (length (as_bytes a))) [] @ as_bytes a) @ rest)"
    by (simp add: w_text_def)
  ultimately show "r_text (reader_at pre (w_text a [] @ rest)) = Inr (a, reader_at (pre @ w_text a []) rest)"
    using body_at [of pre MAJOR_TEXT "as_bytes a" rest, OF _ unat_major(4)]
    by (simp add: r_text_def w_text_def)
next
  fix pre bs :: bytes and a r
  assume "r_text (reader_at pre bs) = Inr (a, r)"
  then obtain len r' b where h: "r_expect MAJOR_TEXT (reader_at pre bs) = Inr (len, r')"
    and t: "r_take (unat len) r' = Inr (b, r)" and u: "from_utf8 b = Some a"
    by (auto simp: r_text_def then_ok_eq_Inr split: option.splits)
  from from_utf8_Some [OF u] have b: "b = as_bytes a" and "is_str a" by auto
  with body_strict [OF h t] show "is_str a \<and> (\<exists>rest. bs = w_text a [] @ rest \<and> r = reader_at (pre @ w_text a []) rest)"
    by (auto simp: w_text_def )
qed

text \<open>The facts every frame's proof uses: appending, running a reader over an encoding, and
  what a read says about its input.\<close>

lemmas w_append [codec] =
  array_item.put_append uint_item.put_append int_item.put_append text_item.put_append
  bytes_item.put_append

lemmas r_at [codec] =
  array_item.get_put uint_item.get_put int_item.get_put text_item.get_put bytes_item.get_put
  array_item.get_put_end uint_item.get_put_end int_item.get_put_end text_item.get_put_end
  bytes_item.get_put_end

lemmas r_strict [strict] =
  array_item.get_strict uint_item.get_strict int_item.get_strict text_item.get_strict
  bytes_item.get_strict

lemma length_w_head: "length (w_head m a []) \<le> 9" "0 < length (w_head m a [])"
  by (auto simp: w_head_def Let_def)

lemma length_enc [sized]:
  "length (enc_array n) \<le> 9"
  "length (enc_uint n) \<le> 9"
  "length (enc_int i) \<le> 9"
  "length (enc_text s) \<le> 9 + length s"
  "length (enc_bytes b) \<le> 9 + length b"
  by (simp_all add: enc_defs w_defs length_w_head)

lemma enc_array_not_Nil [simp]: "enc_array n \<noteq> []"
  using length_w_head(2) by (simp add: enc_array_def w_array_def)

end
