(* ===== verification/Protocol_Base.thy ===== *)
theory Protocol_Base
  imports Cbor
begin

text \<open>
  What every frame shares: \<open>phone-auth-protocol/src/lib.rs\<close>. The protocol constants, the error
  type, the text and size checks, and the contract of a frame codec as the locales
  \<open>frame_codec\<close> and \<open>bounded_frame_codec\<close>, which every message type of the protocol is
  shown to meet.
\<close>

subsection \<open>Constants and errors\<close>

definition PROTOCOL_VERSION :: u64 where "PROTOCOL_VERSION = 1"
definition MAX_FRAME_BYTES :: nat where "MAX_FRAME_BYTES = 8192"
definition CHALLENGE_LEN :: nat where "CHALLENGE_LEN = 32"
definition SESSION_BINDING_LEN :: nat where "SESSION_BINDING_LEN = 32"
definition MAX_VALIDITY_MS :: int where "MAX_VALIDITY_MS = 120000"
definition ALGORITHM_ECDSA_P256_SHA256 :: string where "ALGORITHM_ECDSA_P256_SHA256 = ''SHA256withECDSA''"
definition PUBLIC_KEY_EC_P256_SPKI :: string where "PUBLIC_KEY_EC_P256_SPKI = ''EC_P256_SPKI''"

definition MESSAGE_TYPE_REQUEST :: u64 where "MESSAGE_TYPE_REQUEST = 1"
definition MESSAGE_TYPE_RESPONSE :: u64 where "MESSAGE_TYPE_RESPONSE = 2"
definition MESSAGE_TYPE_ENROLMENT :: u64 where "MESSAGE_TYPE_ENROLMENT = 3"
definition MESSAGE_TYPE_APPLICATION :: u64 where "MESSAGE_TYPE_APPLICATION = 4"
definition MESSAGE_TYPE_ATTACH :: u64 where "MESSAGE_TYPE_ATTACH = 5"

lemmas protocol_consts =
  PROTOCOL_VERSION_def MAX_FRAME_BYTES_def CHALLENGE_LEN_def SESSION_BINDING_LEN_def
  MAX_VALIDITY_MS_def ALGORITHM_ECDSA_P256_SHA256_def PUBLIC_KEY_EC_P256_SPKI_def
  MESSAGE_TYPE_REQUEST_def MESSAGE_TYPE_RESPONSE_def MESSAGE_TYPE_ENROLMENT_def
  MESSAGE_TYPE_APPLICATION_def MESSAGE_TYPE_ATTACH_def

datatype protocol_error =
    Cbor cbor_error
  | FrameSize nat
  | FrameShape u64 u64
  | UnsupportedVersion u64
  | UnexpectedMessageType u64
  | FieldEmpty string
  | FieldTooLong string nat nat
  | FieldLength string nat nat
  | ValidityWindow
  | NotCanonical
  | InvalidDecision int
  | MissingProof
  | InvalidKeyKind int
  | InvalidPurpose int
  | InvalidApplicationKind u64
  | InvalidApplicationError u64
  | InvalidOperation
  | PayloadSize nat
  | InvalidItemKind u64
  | InvalidRevision
  | InvalidReservedField u64
  | UnexpectedEnd
  | InvalidText string

text \<open>The \<open>?\<close> operator on a CBOR result inside a protocol function: the error goes through
  \<open>impl From<CborError> for ProtocolError\<close>.\<close>

definition then_cbor :: "cbor_error + 'a \<Rightarrow> ('a \<Rightarrow> protocol_error + 'b) \<Rightarrow> protocol_error + 'b" where
  "then_cbor m k = (case m of Inl e \<Rightarrow> Inl (Cbor e) | Inr x \<Rightarrow> k x)"

lemma then_cbor_simps [simp]:
  "then_cbor (Inl e) k = Inl (Cbor e)"
  "then_cbor (Inr x) k = k x"
  by (simp_all add: then_cbor_def)

lemma then_cbor_eq_Inr:
  "then_cbor m k = Inr y \<longleftrightarrow> (\<exists>x. m = Inr x \<and> k x = Inr y)"
  by (cases m) auto

lemma then_cbor_eq_Inl:
  "then_cbor m k = Inl e \<longleftrightarrow> (\<exists>c. m = Inl c \<and> e = Cbor c) \<or> (\<exists>x. m = Inr x \<and> k x = Inl e)"
  by (cases m) auto

subsection \<open>Shared checks\<close>

definition utf16_len :: "string \<Rightarrow> nat" where
  "utf16_len value = sum_list (map len_utf16 (chars value))"

definition check_text :: "string \<Rightarrow> string \<Rightarrow> nat \<Rightarrow> protocol_error + unit" where
  "check_text field value max_len =
    (if trim (chars value) = [] then Inl (FieldEmpty field)
     else let actual = utf16_len value in
       if actual > max_len then Inl (FieldTooLong field max_len actual) else Inr ())"

definition check_frame_size :: "bytes \<Rightarrow> protocol_error + unit" where
  "check_frame_size frame =
    (if frame = [] \<or> length frame > MAX_FRAME_BYTES then Inl (FrameSize (length frame)) else Inr ())"

definition bytes_equal :: "bytes \<Rightarrow> bytes \<Rightarrow> bool" where
  "bytes_equal left right \<longleftrightarrow>
    length left = length right \<and> list_all (\<lambda>(a, b). a = b) (zip left right)"

text \<open>\<open>value.try_into()\<close> to a fixed-size array; every decoder of the crate has the same helper.\<close>

definition fixed_bytes :: "nat \<Rightarrow> string \<Rightarrow> bytes \<Rightarrow> protocol_error + bytes" where
  "fixed_bytes n field value =
    (if length value = n then Inr value else Inl (FieldLength field n (length value)))"

text \<open>The validity window of a request or an application frame, as both \<open>validate\<close>s compute it.\<close>

definition check_window :: "int \<Rightarrow> int \<Rightarrow> protocol_error + unit" where
  "check_window issued expires =
    (case checked_sub_i64 expires issued of
       None \<Rightarrow> Inl ValidityWindow
     | Some window \<Rightarrow>
         if window \<le> 0 \<or> window > MAX_VALIDITY_MS then Inl ValidityWindow else Inr ())"

lemma zip_all_eq: "length a = length b \<Longrightarrow> list_all (\<lambda>(x, y). x = y) (zip a b) \<longleftrightarrow> a = b"
  by (induction rule: list_induct2) auto

lemma bytes_equal_iff [simp]: "bytes_equal a b \<longleftrightarrow> a = b"
  by (auto simp: bytes_equal_def zip_all_eq)

lemma check_frame_size_eq [simp]:
  "check_frame_size f = Inr u \<longleftrightarrow> f \<noteq> [] \<and> length f \<le> MAX_FRAME_BYTES"
  by (auto simp: check_frame_size_def)

lemma check_frame_size_ok [codec]:
  "f \<noteq> [] \<Longrightarrow> length f \<le> MAX_FRAME_BYTES \<Longrightarrow> check_frame_size f = Inr ()"
  by simp

lemma fixed_bytes_eq [simp]: "fixed_bytes n f v = Inr w \<longleftrightarrow> length v = n \<and> w = v"
  by (auto simp: fixed_bytes_def)

lemma fixed_bytes_ok [codec]: "length v = n \<Longrightarrow> fixed_bytes n f v = Inr v"
  by simp

lemma check_text_Inr:
  "check_text f v n = Inr u \<longleftrightarrow> (\<exists>c \<in> set (chars v). \<not> is_whitespace c) \<and> utf16_len v \<le> n"
  by (auto simp: check_text_def Let_def trim_eq_Nil)

lemma check_window_iff: "check_window a b = Inr u \<longleftrightarrow> a < b \<and> b - a \<le> MAX_VALIDITY_MS"
  by (auto simp: check_window_def checked_sub_i64_def is_i64_def protocol_consts)

lemma check_not_canonical [simp]:
  "check_window x y \<noteq> Inl NotCanonical"
  "check_text f v n \<noteq> Inl NotCanonical"
  "check_frame_size b \<noteq> Inl NotCanonical"
  "fixed_bytes k f b \<noteq> Inl NotCanonical"
  by (auto simp: check_text_def check_frame_size_def fixed_bytes_def check_window_def Let_def
      split: option.splits)

text \<open>A text field within its UTF-16 bound takes at most three bytes per unit.\<close>

lemma utf16_len_bound: "is_str v \<Longrightarrow> length v \<le> 3 * utf16_len v"
  using utf8_chars_utf16_bound [of "as_bytes v"]
  by (auto simp: is_str_def utf16_len_def chars_def)

lemma utf16_len_le: "utf16_len v \<le> n \<Longrightarrow> is_str v \<Longrightarrow> length v \<le> 3 * n"
  using utf16_len_bound [of v] by simp

lemma check_text_bound [sized]: "check_text f v n = Inr u \<Longrightarrow> is_str v \<Longrightarrow> length v \<le> 3 * n"
  using utf16_len_bound [of v] by (simp add: check_text_Inr)

lemma frame_slice_ok: "length f \<le> MAX_FRAME_BYTES \<Longrightarrow> slice_ok f"
  by (rule slice_okI [of _ MAX_FRAME_BYTES]) (simp_all add: protocol_consts)

text \<open>A small unsigned integer is read the same way by \<open>Reader::int\<close>, which is how enum
  fields written with \<open>uint\<close> come back.\<close>

lemma enc_int_uint: "uint n \<le> 23 \<Longrightarrow> enc_int (uint n) = enc_uint n"
  by (simp add: enc_int_def enc_uint_def w_int_def w_uint_def)

lemma r_int_at_uint [codec]:
  assumes "uint n \<le> 23"
  shows "slice_ok (pre @ enc_uint n @ rest) \<Longrightarrow>
      r_int (reader_at pre (enc_uint n @ rest)) = Inr (uint n, reader_at (pre @ enc_uint n) rest)"
    and "slice_ok (pre @ enc_uint n) \<Longrightarrow>
      r_int (reader_at pre (enc_uint n)) = Inr (uint n, reader_at (pre @ enc_uint n) [])"
proof -
  have "0 \<le> uint n" by simp
  with assms have "is_i64 (uint n)"
    unfolding is_i64_def by (intro conjI) (rule order_trans [of _ 0], simp_all)
  then show "slice_ok (pre @ enc_uint n @ rest) \<Longrightarrow>
      r_int (reader_at pre (enc_uint n @ rest)) = Inr (uint n, reader_at (pre @ enc_uint n) rest)"
    and "slice_ok (pre @ enc_uint n) \<Longrightarrow>
      r_int (reader_at pre (enc_uint n)) = Inr (uint n, reader_at (pre @ enc_uint n) [])"
    using int_item.get_put [of "uint n" pre rest] int_item.get_put_end [of "uint n" pre]
    by (simp_all add: enc_int_uint assms)
qed

subsection \<open>Payloads of an application frame\<close>

text \<open>
  \<open>open\<close> and \<open>finish\<close> of the payload modules. Each module of the crate has its own copy that
  differs only in the schema number; the modules' theories instantiate these.
\<close>

definition MAX_APPLICATION_PAYLOAD_BYTES :: nat where "MAX_APPLICATION_PAYLOAD_BYTES = 6 * 1024"

definition open_payload :: "u64 \<Rightarrow> bytes \<Rightarrow> u64 \<Rightarrow> protocol_error + reader" where
  "open_payload schema payload count =
    (if payload = [] \<or> length payload > MAX_APPLICATION_PAYLOAD_BYTES
     then Inl (PayloadSize (length payload)) else
     then_cbor (r_array (reader_new payload)) (\<lambda>(len, r).
     if len \<noteq> count then Inl (FrameShape count len) else
     then_cbor (r_uint r) (\<lambda>(sch, r).
     if sch \<noteq> schema then Inl (UnsupportedVersion sch) else Inr r)))"

definition finish_payload :: "reader \<Rightarrow> bytes \<Rightarrow> bytes \<Rightarrow> protocol_error + unit" where
  "finish_payload r reencoded payload =
    then_cbor (r_finish r) (\<lambda>_. if \<not> bytes_equal reencoded payload then Inl NotCanonical else Inr ())"

lemma payload_slice_ok: "length f \<le> MAX_APPLICATION_PAYLOAD_BYTES \<Longrightarrow> slice_ok f"
  by (rule slice_okI [of _ MAX_APPLICATION_PAYLOAD_BYTES]) (simp_all add: MAX_APPLICATION_PAYLOAD_BYTES_def)

lemma open_payload_at [codec]:
  assumes "length (enc_array n @ enc_uint s @ rest) \<le> MAX_APPLICATION_PAYLOAD_BYTES"
  shows "open_payload s (enc_array n @ enc_uint s @ rest) n = Inr (reader_at (enc_array n @ enc_uint s) rest)"
  using assms payload_slice_ok [OF assms] by (simp add: open_payload_def reader_new_at codec)

lemma open_payload_strict [strict]:
  "open_payload s p n = Inr r \<Longrightarrow> \<exists>rest. p = enc_array n @ enc_uint s @ rest
    \<and> r = reader_at (enc_array n @ enc_uint s) rest
    \<and> length (enc_array n @ enc_uint s @ rest) \<le> MAX_APPLICATION_PAYLOAD_BYTES"
  by (auto simp: open_payload_def reader_new_at then_cbor_eq_Inr split: if_splits dest!: r_strict)

lemma open_payload_not_canonical [simp]: "open_payload s p n \<noteq> Inl NotCanonical"
  by (auto simp: open_payload_def then_cbor_eq_Inl split: if_splits)

lemma finish_payload_at [simp]:
  "finish_payload (reader_at pre rest) a b = Inr u \<longleftrightarrow> rest = [] \<and> a = b"
  "finish_payload (reader_at pre rest) a b = Inl NotCanonical \<longleftrightarrow> rest = [] \<and> a \<noteq> b"
  by (auto simp: finish_payload_def then_cbor_eq_Inr then_cbor_eq_Inl)

lemma finish_payload_ok [codec]: "finish_payload (reader_at pre []) a a = Inr ()"
  by (simp add: finish_payload_def)

subsection \<open>Sequences of items\<close>

text \<open>\<open>for _ in 0..count { items.push(read(reader)?) }\<close> and the matching writer loop.\<close>

fun read_many :: "(reader \<Rightarrow> 'e + ('a \<times> reader)) \<Rightarrow> nat \<Rightarrow> reader \<Rightarrow> 'e + ('a list \<times> reader)" where
  "read_many get 0 r = Inr ([], r)"
| "read_many get (Suc n) r =
    then_ok (get r) (\<lambda>(x, r). then_ok (read_many get n r) (\<lambda>(xs, r). Inr (x # xs, r)))"

definition write_many :: "('a \<Rightarrow> writer \<Rightarrow> writer) \<Rightarrow> 'a list \<Rightarrow> writer \<Rightarrow> writer" where
  "write_many put xs w = fold put xs w"

lemma read_many_not_canonical:
  "(\<And>r. get r \<noteq> Inl NotCanonical) \<Longrightarrow> read_many get n r \<noteq> Inl NotCanonical"
  by (induction n arbitrary: r) (auto simp: then_ok_eq_Inl)

lemma for_each_ok_not: "(\<And>x. f x \<noteq> Inl e) \<Longrightarrow> for_each_ok f xs \<noteq> Inl e"
  by (induction xs) (auto simp: then_ok_eq_Inl)

context wire_item
begin

lemma write_many_append: "write_many put xs w = w @ concat (map enc xs)"
proof (induction xs arbitrary: w)
  case Nil
  then show ?case by (simp add: write_many_def)
next
  case (Cons x xs)
  then show ?case
    using put_append [of x w] by (simp add: write_many_def)
qed

lemma read_many_at:
  assumes "\<forall>x \<in> set xs. ok x" and "slice_ok (pre @ concat (map enc xs) @ rest)"
  shows "read_many get (length xs) (reader_at pre (concat (map enc xs) @ rest))
    = Inr (xs, reader_at (pre @ concat (map enc xs)) rest)"
  using assms
proof (induction xs arbitrary: pre)
  case Nil
  then show ?case by simp
next
  case (Cons x xs)
  then show ?case
    using get_put [of x pre "concat (map enc xs) @ rest"] Cons.IH [of "pre @ enc x"] by simp
qed

lemma read_many_strict:
  assumes "read_many get n (reader_at pre bs) = Inr (xs, r)"
  shows "length xs = n \<and> (\<forall>x \<in> set xs. ok x)
    \<and> (\<exists>rest. bs = concat (map enc xs) @ rest \<and> r = reader_at (pre @ concat (map enc xs)) rest)"
  using assms
proof (induction n arbitrary: pre bs xs)
  case 0
  then show ?case by simp
next
  case (Suc n)
  then obtain x xs' r' where g: "get (reader_at pre bs) = Inr (x, r')"
    and m: "read_many get n r' = Inr (xs', r)" and xs: "xs = x # xs'"
    by (auto simp: then_ok_eq_Inr)
  from get_strict [OF g] obtain rest where "ok x" and bs: "bs = enc x @ rest"
    and r': "r' = reader_at (pre @ enc x) rest" by auto
  with Suc.IH [OF m [unfolded r']] xs show ?case by auto
qed

end

text \<open>An ASCII text field, for evaluating the check on literals.\<close>

lemma utf16_len_ascii: "ascii v \<Longrightarrow> utf16_len v = length v"
proof -
  assume a: "ascii v"
  then have "map len_utf16 (chars v) = map (\<lambda>_. 1) v"
    by (auto simp: chars_ascii len_utf16_def ascii_def)
  then show ?thesis by (simp add: utf16_len_def sum_list_triv)
qed

lemma check_text_ascii:
  "ascii v \<Longrightarrow> \<exists>c \<in> set v. \<not> is_whitespace (of_char c) \<Longrightarrow> length v \<le> n \<Longrightarrow> check_text f v n = Inr ()"
  by (auto simp: check_text_Inr utf16_len_ascii chars_ascii)

lemmas payload_consts = protocol_consts MAX_APPLICATION_PAYLOAD_BYTES_def

subsection \<open>The contract of a frame codec\<close>

text \<open>
  \<open>typed\<close> is what the Rust type guarantees of a value (strings are UTF-8, arrays have their
  length, integers are in range); \<open>validate\<close> is the code's own check. Decoding succeeds on
  exactly the encodings of valid values, so a frame that decodes is the one spelling of its
  value, and the comparison with the re-encoded bytes never fails.
\<close>

locale frame_codec =
  fixes encode :: "'a \<Rightarrow> bytes"
    and decode :: "bytes \<Rightarrow> protocol_error + 'a"
    and validate :: "'a \<Rightarrow> protocol_error + unit"
    and typed :: "'a \<Rightarrow> bool"
    and limit :: nat
  assumes decode_sound: "decode f = Inr x \<Longrightarrow>
      typed x \<and> validate x = Inr () \<and> encode x = f \<and> length f \<le> limit"
    and decode_complete: "typed x \<Longrightarrow> validate x = Inr () \<Longrightarrow> length (encode x) \<le> limit \<Longrightarrow>
      decode (encode x) = Inr x"
    and decode_not_canonical: "decode f \<noteq> Inl NotCanonical"
begin

lemma decode_iff:
  "decode f = Inr x \<longleftrightarrow>
    f = encode x \<and> typed x \<and> validate x = Inr () \<and> length (encode x) \<le> limit"
  using decode_sound [of f x] decode_complete [of x] by auto

lemma decode_unique: "decode f = Inr x \<Longrightarrow> decode g = Inr x \<Longrightarrow> f = g"
  by (simp add: decode_iff)

lemma encode_injective:
  assumes "typed x" "validate x = Inr ()" "typed y" "validate y = Inr ()"
    and "length (encode x) \<le> limit" and "encode x = encode y"
  shows "x = y"
  using decode_complete [of x] decode_complete [of y] assms by simp

end

locale bounded_frame_codec = frame_codec +
  assumes encode_bound: "typed x \<Longrightarrow> validate x = Inr () \<Longrightarrow> length (encode x) \<le> limit"
begin

lemma decode_encode: "typed x \<Longrightarrow> validate x = Inr () \<Longrightarrow> decode (encode x) = Inr x"
  by (simp add: decode_complete encode_bound)

lemma decode_exactly: "decode f = Inr x \<longleftrightarrow> f = encode x \<and> typed x \<and> validate x = Inr ()"
  by (auto simp: decode_iff encode_bound)

end

end
