(* ===== verification/Application.thy ===== *)
theory Application
  imports Protocol_Base
begin

text \<open>
  The envelope of every vault, locker, LUKS, SSH and permissions operation:
  \<open>phone-auth-protocol/src/application.rs\<close>.
\<close>

definition APPLICATION_FRAME_LEN :: u64 where "APPLICATION_FRAME_LEN = 9"
definition APPLICATION_ERROR_LEN :: u64 where "APPLICATION_ERROR_LEN = 2"

datatype frame_kind = Request | Response | Cancel | Error

datatype application_error_code = Rejected | InvalidRequest | Unavailable

fun error_code_wire :: "application_error_code \<Rightarrow> u64" where
  "error_code_wire Rejected = 0"
| "error_code_wire InvalidRequest = 1"
| "error_code_wire Unavailable = 2"

definition encode_error_code :: "application_error_code \<Rightarrow> bytes" where
  "encode_error_code c =
    (let w = writer_new;
         w = w_array APPLICATION_ERROR_LEN w;
         w = w_uint PROTOCOL_VERSION w;
         w = w_uint (error_code_wire c) w
     in w)"

definition error_code_from_wire :: "u64 \<Rightarrow> protocol_error + application_error_code" where
  "error_code_from_wire value =
    (if value = 0 then Inr Rejected
     else if value = 1 then Inr InvalidRequest
     else if value = 2 then Inr Unavailable
     else Inl (InvalidApplicationError value))"

definition decode_error_code :: "bytes \<Rightarrow> protocol_error + application_error_code" where
  "decode_error_code payload =
    then_cbor (r_array (reader_new payload)) (\<lambda>(len, r).
    if len \<noteq> APPLICATION_ERROR_LEN then Inl (FrameShape APPLICATION_ERROR_LEN len) else
    then_cbor (r_uint r) (\<lambda>(version, r).
    if version \<noteq> PROTOCOL_VERSION then Inl (UnsupportedVersion version) else
    then_cbor (r_uint r) (\<lambda>(value, r).
    then_ok (error_code_from_wire value) (\<lambda>code.
    then_cbor (r_finish r) (\<lambda>_.
    if \<not> bytes_equal payload (encode_error_code code) then Inl NotCanonical else Inr code)))))"

fun frame_kind_wire :: "frame_kind \<Rightarrow> u64" where
  "frame_kind_wire Request = 0"
| "frame_kind_wire Response = 1"
| "frame_kind_wire Cancel = 2"
| "frame_kind_wire Error = 3"

definition frame_kind_from_wire :: "u64 \<Rightarrow> protocol_error + frame_kind" where
  "frame_kind_from_wire value =
    (if value = 0 then Inr Request
     else if value = 1 then Inr Response
     else if value = 2 then Inr Cancel
     else if value = 3 then Inr Error
     else Inl (InvalidApplicationKind value))"

lemma frame_kind_strict [strict]:
  "frame_kind_from_wire v = Inr k \<Longrightarrow> v = frame_kind_wire k"
  "error_code_from_wire v = Inr c \<Longrightarrow> v = error_code_wire c"
  by (auto simp: frame_kind_from_wire_def error_code_from_wire_def split: if_splits)

lemma frame_kind_at [codec]:
  "frame_kind_from_wire (frame_kind_wire k) = Inr k"
  "error_code_from_wire (error_code_wire c) = Inr c"
  by (cases k; simp add: frame_kind_from_wire_def) (cases c; simp add: error_code_from_wire_def)

lemma frame_kind_not_canonical [simp]:
  "frame_kind_from_wire v \<noteq> Inl NotCanonical"
  "error_code_from_wire v \<noteq> Inl NotCanonical"
  by (simp_all add: frame_kind_from_wire_def error_code_from_wire_def)

subsection \<open>Operation names\<close>

definition or_else :: "'a option \<Rightarrow> 'a option \<Rightarrow> 'a option" where
  "or_else a b = (case a of None \<Rightarrow> b | Some x \<Rightarrow> Some x)"

fun contains_dotdot :: "string \<Rightarrow> bool" where
  "contains_dotdot (a # b # s) = (a = CHR ''.'' \<and> b = CHR ''.'' \<or> contains_dotdot (b # s))"
| "contains_dotdot _ = False"

definition is_ascii_lowercase :: "u8 \<Rightarrow> bool" where
  "is_ascii_lowercase b \<longleftrightarrow> 97 \<le> unat b \<and> unat b \<le> 122"

definition is_ascii_digit :: "u8 \<Rightarrow> bool" where
  "is_ascii_digit b \<longleftrightarrow> 48 \<le> unat b \<and> unat b \<le> 57"

definition valid_operation :: "string \<Rightarrow> bool" where
  "valid_operation value =
    (case or_else (or_else (or_else (or_else
        (strip_prefix value ''vault.'')
        (strip_prefix value ''locker.''))
        (strip_prefix value ''luks.''))
        (strip_prefix value ''ssh.''))
        (strip_prefix value ''permissions.'') of
       None \<Rightarrow> False
     | Some suffix \<Rightarrow>
         suffix \<noteq> [] \<and> length value \<le> 64 \<and> \<not> contains_dotdot suffix
         \<and> list_all (\<lambda>b. is_ascii_lowercase b \<or> is_ascii_digit b \<or> b = 46 \<or> b = 45) (as_bytes suffix))"

lemma valid_operation_length: "valid_operation v \<Longrightarrow> length v \<le> 64"
  by (auto simp: valid_operation_def split: option.splits)

subsection \<open>The envelope\<close>

record application_frame =
  ap_protocol_version :: u64
  ap_kind :: frame_kind
  ap_request_id :: string
  ap_session_binding :: bytes
  ap_operation :: string
  ap_issued_at_ms :: int
  ap_expires_at_ms :: int
  ap_payload :: bytes

definition validate_application :: "application_frame \<Rightarrow> protocol_error + unit" where
  "validate_application m =
    (if ap_protocol_version m \<noteq> PROTOCOL_VERSION
     then Inl (UnsupportedVersion (ap_protocol_version m)) else
     then_ok (check_text ''requestId'' (ap_request_id m) 64) (\<lambda>_.
     if \<not> valid_operation (ap_operation m) then Inl InvalidOperation
     else if length (ap_payload m) > MAX_APPLICATION_PAYLOAD_BYTES
     then Inl (PayloadSize (length (ap_payload m)))
     else check_window (ap_issued_at_ms m) (ap_expires_at_ms m)))"

definition encode_application :: "application_frame \<Rightarrow> bytes" where
  "encode_application m =
    (let w = writer_new;
         w = w_array APPLICATION_FRAME_LEN w;
         w = w_uint MESSAGE_TYPE_APPLICATION w;
         w = w_uint (ap_protocol_version m) w;
         w = w_uint (frame_kind_wire (ap_kind m)) w;
         w = w_text (ap_request_id m) w;
         w = w_bytes (ap_session_binding m) w;
         w = w_text (ap_operation m) w;
         w = w_int (ap_issued_at_ms m) w;
         w = w_int (ap_expires_at_ms m) w;
         w = w_bytes (ap_payload m) w
     in w)"

definition decode_application :: "bytes \<Rightarrow> protocol_error + application_frame" where
  "decode_application frame =
    then_ok (check_frame_size frame) (\<lambda>_.
    let r = reader_new frame in
    then_cbor (r_array r) (\<lambda>(len, r).
    if len \<noteq> APPLICATION_FRAME_LEN then Inl (FrameShape APPLICATION_FRAME_LEN len) else
    then_cbor (r_uint r) (\<lambda>(message_type, r).
    if message_type \<noteq> MESSAGE_TYPE_APPLICATION then Inl (UnexpectedMessageType message_type) else
    then_cbor (r_uint r) (\<lambda>(protocol_version', r).
    then_cbor (r_uint r) (\<lambda>(kind', r).
    then_ok (frame_kind_from_wire kind') (\<lambda>kind'.
    then_cbor (r_text r) (\<lambda>(request_id', r).
    then_cbor (r_bytes r) (\<lambda>(session_binding', r).
    then_ok (fixed_bytes SESSION_BINDING_LEN ''sessionBinding'' session_binding') (\<lambda>session_binding'.
    then_cbor (r_text r) (\<lambda>(operation', r).
    then_cbor (r_int r) (\<lambda>(issued_at_ms', r).
    then_cbor (r_int r) (\<lambda>(expires_at_ms', r).
    then_cbor (r_bytes r) (\<lambda>(payload', r).
    let decoded = \<lparr>ap_protocol_version = protocol_version', ap_kind = kind', ap_request_id =
          request_id', ap_session_binding = session_binding', ap_operation = operation',
          ap_issued_at_ms = issued_at_ms', ap_expires_at_ms = expires_at_ms', ap_payload =
          payload'\<rparr> in
    then_cbor (r_finish r) (\<lambda>_.
    then_ok (validate_application decoded) (\<lambda>_.
    if \<not> bytes_equal frame (encode_application decoded) then Inl NotCanonical else Inr decoded)))))))))))))))"

definition application_typed :: "application_frame \<Rightarrow> bool" where
  "application_typed m \<longleftrightarrow>
    is_str (ap_request_id m) \<and> length (ap_session_binding m) = SESSION_BINDING_LEN \<and>
    is_str (ap_operation m) \<and> is_i64 (ap_issued_at_ms m) \<and> is_i64 (ap_expires_at_ms m)"

lemma encode_application_eq: "encode_application m =
    enc_array APPLICATION_FRAME_LEN @ enc_uint MESSAGE_TYPE_APPLICATION @
    enc_uint (ap_protocol_version m) @ enc_uint (frame_kind_wire (ap_kind m)) @
    enc_text (ap_request_id m) @ enc_bytes (ap_session_binding m) @ enc_text (ap_operation m)
    @ enc_int (ap_issued_at_ms m) @ enc_int (ap_expires_at_ms m) @ enc_bytes (ap_payload m)"
  by (simp add: encode_application_def Let_def writer_new_def w_append)

lemma validate_application_not_canonical [simp]: "validate_application m \<noteq> Inl NotCanonical"
  by (auto simp: validate_application_def then_ok_eq_Inl Let_def check_window_def split: option.splits if_splits)

lemma decode_application_encode:
  assumes "application_typed m" and "validate_application m = Inr ()" and "length (encode_application m) \<le> MAX_FRAME_BYTES"
  shows "decode_application (encode_application m) = Inr m"
  using assms frame_slice_ok [OF assms(3)]
  by (cases m) (simp add: decode_application_def Let_def reader_new_at application_typed_def encode_application_eq codec)

lemma decode_application_sound:
  assumes "decode_application p = Inr m"
  shows "application_typed m \<and> validate_application m = Inr () \<and> encode_application m = p \<and> length p \<le> MAX_FRAME_BYTES"
  using assms
  by (auto simp: decode_application_def Let_def reader_new_at application_typed_def then_ok_eq_Inr
      then_cbor_eq_Inr split: if_splits dest!: strict)

lemma decode_application_not_canonical: "decode_application p \<noteq> Inl NotCanonical"
  by (auto simp: decode_application_def Let_def reader_new_at encode_application_eq then_ok_eq_Inl
      then_cbor_eq_Inl split: if_splits dest!: strict)

lemma application_encode_bound:
  assumes "application_typed m" and "validate_application m = Inr ()"
  shows "length (encode_application m) \<le> MAX_FRAME_BYTES"
  using assms
    length_enc(1) [of "APPLICATION_FRAME_LEN"] length_enc(2) [of "MESSAGE_TYPE_APPLICATION"]
    length_enc(2) [of "(ap_protocol_version m)"]
    length_enc(2) [of "(frame_kind_wire (ap_kind m))"] length_enc(4) [of "(ap_request_id m)"]
    length_enc(5) [of "(ap_session_binding m)"] length_enc(4) [of "(ap_operation m)"]
    length_enc(3) [of "(ap_issued_at_ms m)"] length_enc(3) [of "(ap_expires_at_ms m)"]
    length_enc(5) [of "(ap_payload m)"]
  by (auto simp: encode_application_eq application_typed_def validate_application_def then_ok_eq_Inr payload_consts 
      split: if_splits dest!: check_text_bound valid_operation_length)

interpretation application_codec:
  bounded_frame_codec encode_application decode_application validate_application application_typed MAX_FRAME_BYTES
  by unfold_locales
    (auto dest: decode_application_sound simp: decode_application_encode decode_application_not_canonical
      intro: application_encode_bound)

definition application_expired_at :: "application_frame \<Rightarrow> int \<Rightarrow> bool" where
  "application_expired_at m now_ms \<longleftrightarrow> now_ms \<ge> ap_expires_at_ms m"

definition is_reply_to :: "application_frame \<Rightarrow> application_frame \<Rightarrow> int \<Rightarrow> bool" where
  "is_reply_to m request now_ms \<longleftrightarrow>
    ap_kind request = Request
    \<and> (ap_kind m = Response \<or> ap_kind m = Error)
    \<and> ap_request_id m = ap_request_id request
    \<and> ap_session_binding m = ap_session_binding request
    \<and> ap_operation m = ap_operation request
    \<and> ap_issued_at_ms m = ap_issued_at_ms request
    \<and> ap_expires_at_ms m = ap_expires_at_ms request
    \<and> \<not> application_expired_at m now_ms"

end
