(* ===== verification/Auth_Request.thy ===== *)
theory Auth_Request
  imports Protocol_Base
begin

text \<open>
  The authorization request, the object a phone displays and signs:
  \<open>phone-auth-protocol/src/request.rs\<close>.
\<close>

definition REQUEST_FRAME_LEN :: u64 where "REQUEST_FRAME_LEN = 14"

record auth_request =
  protocol_version :: u64
  request_id :: string
  verifier_id :: string
  verifier_name :: string
  credential_id :: string
  challenge :: bytes
  service :: string
  action :: string
  resource :: string
  user :: string
  issued_at_ms :: int
  expires_at_ms :: int
  session_binding :: bytes

definition validate_request :: "auth_request \<Rightarrow> protocol_error + unit" where
  "validate_request q =
    (if protocol_version q \<noteq> PROTOCOL_VERSION then Inl (UnsupportedVersion (protocol_version q)) else
     then_ok (check_text ''requestId'' (request_id q) 64) (\<lambda>_.
     then_ok (check_text ''verifierId'' (verifier_id q) 64) (\<lambda>_.
     then_ok (check_text ''verifierName'' (verifier_name q) 128) (\<lambda>_.
     then_ok (check_text ''credentialId'' (credential_id q) 64) (\<lambda>_.
     then_ok (check_text ''service'' (service q) 64) (\<lambda>_.
     then_ok (check_text ''action'' (action q) 128) (\<lambda>_.
     then_ok (check_text ''resource'' (resource q) 256) (\<lambda>_.
     then_ok (check_text ''user'' (user q) 128) (\<lambda>_.
     check_window (issued_at_ms q) (expires_at_ms q))))))))))"

definition is_expired_at :: "auth_request \<Rightarrow> int \<Rightarrow> bool" where
  "is_expired_at q now_ms \<longleftrightarrow> now_ms \<ge> expires_at_ms q"

text \<open>\<open>[...].join("\0")\<close>.\<close>

fun join_nul :: "string list \<Rightarrow> string" where
  "join_nul [] = []"
| "join_nul [s] = s"
| "join_nul (s # t # ts) = s @ CHR 0x00 # join_nul (t # ts)"

definition fingerprint :: "auth_request \<Rightarrow> string" where
  "fingerprint q =
    join_nul [verifier_id q, credential_id q, service q, action q, resource q, user q]"

definition encode_request :: "auth_request \<Rightarrow> bytes" where
  "encode_request q =
    (let w = writer_new;
         w = w_array REQUEST_FRAME_LEN w;
         w = w_uint MESSAGE_TYPE_REQUEST w;
         w = w_uint (protocol_version q) w;
         w = w_text (request_id q) w;
         w = w_text (verifier_id q) w;
         w = w_text (verifier_name q) w;
         w = w_text (credential_id q) w;
         w = w_bytes (challenge q) w;
         w = w_text (service q) w;
         w = w_text (action q) w;
         w = w_text (resource q) w;
         w = w_text (user q) w;
         w = w_int (issued_at_ms q) w;
         w = w_int (expires_at_ms q) w;
         w = w_bytes (session_binding q) w
     in w)"

definition signing_payload :: "auth_request \<Rightarrow> bytes" where
  "signing_payload q = encode_request q"

definition decode_request :: "bytes \<Rightarrow> protocol_error + auth_request" where
  "decode_request frame =
    then_ok (check_frame_size frame) (\<lambda>_.
    let r = reader_new frame in
    then_cbor (r_array r) (\<lambda>(len, r).
    if len \<noteq> REQUEST_FRAME_LEN then Inl (FrameShape REQUEST_FRAME_LEN len) else
    then_cbor (r_uint r) (\<lambda>(message_type, r).
    if message_type \<noteq> MESSAGE_TYPE_REQUEST then Inl (UnexpectedMessageType message_type) else
    then_cbor (r_uint r) (\<lambda>(version, r).
    then_cbor (r_text r) (\<lambda>(rid, r).
    then_cbor (r_text r) (\<lambda>(vid, r).
    then_cbor (r_text r) (\<lambda>(vname, r).
    then_cbor (r_text r) (\<lambda>(cid, r).
    then_cbor (r_bytes r) (\<lambda>(ch, r).
    then_ok (fixed_bytes CHALLENGE_LEN ''challenge'' ch) (\<lambda>ch.
    then_cbor (r_text r) (\<lambda>(svc, r).
    then_cbor (r_text r) (\<lambda>(act, r).
    then_cbor (r_text r) (\<lambda>(res, r).
    then_cbor (r_text r) (\<lambda>(usr, r).
    then_cbor (r_int r) (\<lambda>(issued, r).
    then_cbor (r_int r) (\<lambda>(expires, r).
    then_cbor (r_bytes r) (\<lambda>(sb, r).
    then_ok (fixed_bytes SESSION_BINDING_LEN ''sessionBinding'' sb) (\<lambda>sb.
    let request = \<lparr>protocol_version = version, request_id = rid, verifier_id = vid,
          verifier_name = vname, credential_id = cid, challenge = ch, service = svc,
          action = act, resource = res, user = usr, issued_at_ms = issued,
          expires_at_ms = expires, session_binding = sb\<rparr> in
    then_cbor (r_finish r) (\<lambda>_.
    then_ok (validate_request request) (\<lambda>_.
    if \<not> bytes_equal frame (encode_request request) then Inl NotCanonical else Inr request))))))))))))))))))))"

text \<open>What the Rust type says of a request: UTF-8 strings, 32-byte arrays, \<open>i64\<close> instants.\<close>

definition request_typed :: "auth_request \<Rightarrow> bool" where
  "request_typed q \<longleftrightarrow>
    is_str (request_id q) \<and> is_str (verifier_id q) \<and> is_str (verifier_name q)
    \<and> is_str (credential_id q) \<and> is_str (service q) \<and> is_str (action q) \<and> is_str (resource q)
    \<and> is_str (user q) \<and> length (challenge q) = CHALLENGE_LEN
    \<and> length (session_binding q) = SESSION_BINDING_LEN
    \<and> is_i64 (issued_at_ms q) \<and> is_i64 (expires_at_ms q)"

lemma encode_request_eq: "encode_request q =
  enc_array REQUEST_FRAME_LEN @ enc_uint MESSAGE_TYPE_REQUEST @ enc_uint (protocol_version q)
  @ enc_text (request_id q) @ enc_text (verifier_id q) @ enc_text (verifier_name q)
  @ enc_text (credential_id q) @ enc_bytes (challenge q) @ enc_text (service q)
  @ enc_text (action q) @ enc_text (resource q) @ enc_text (user q) @ enc_int (issued_at_ms q)
  @ enc_int (expires_at_ms q) @ enc_bytes (session_binding q)"
  by (simp add: encode_request_def Let_def writer_new_def w_append)

lemma validate_request_iff: "validate_request q = Inr u \<longleftrightarrow>
  protocol_version q = PROTOCOL_VERSION
  \<and> check_text ''requestId'' (request_id q) 64 = Inr ()
  \<and> check_text ''verifierId'' (verifier_id q) 64 = Inr ()
  \<and> check_text ''verifierName'' (verifier_name q) 128 = Inr ()
  \<and> check_text ''credentialId'' (credential_id q) 64 = Inr ()
  \<and> check_text ''service'' (service q) 64 = Inr ()
  \<and> check_text ''action'' (action q) 128 = Inr ()
  \<and> check_text ''resource'' (resource q) 256 = Inr ()
  \<and> check_text ''user'' (user q) 128 = Inr ()
  \<and> check_window (issued_at_ms q) (expires_at_ms q) = Inr ()"
  by (auto simp: validate_request_def then_ok_eq_Inr)

lemma request_encode_bound:
  assumes "request_typed q" and "validate_request q = Inr ()"
  shows "length (encode_request q) \<le> MAX_FRAME_BYTES"
  using assms
    length_enc(1) [of REQUEST_FRAME_LEN] length_enc(2) [of MESSAGE_TYPE_REQUEST]
    length_enc(2) [of "protocol_version q"] length_enc(3) [of "issued_at_ms q"]
    length_enc(3) [of "expires_at_ms q"] length_enc(4) [of "request_id q"]
    length_enc(4) [of "verifier_id q"] length_enc(4) [of "verifier_name q"]
    length_enc(4) [of "credential_id q"] length_enc(4) [of "service q"]
    length_enc(4) [of "action q"] length_enc(4) [of "resource q"] length_enc(4) [of "user q"]
    length_enc(5) [of "challenge q"] length_enc(5) [of "session_binding q"]
  by (auto simp: encode_request_eq request_typed_def validate_request_iff protocol_consts
      dest!: check_text_bound)

lemma decode_request_encode:
  assumes "request_typed q" and "validate_request q = Inr ()" and "length (encode_request q) \<le> MAX_FRAME_BYTES"
  shows "decode_request (encode_request q) = Inr q"
  using assms frame_slice_ok [OF assms(3)]
  by (cases q) (simp add: decode_request_def Let_def reader_new_at request_typed_def encode_request_eq codec)

lemma decode_request_sound:
  assumes "decode_request f = Inr q"
  shows "request_typed q \<and> validate_request q = Inr () \<and> encode_request q = f \<and> length f \<le> MAX_FRAME_BYTES"
  using assms
  by (auto simp: decode_request_def Let_def reader_new_at request_typed_def then_ok_eq_Inr
      then_cbor_eq_Inr split: if_splits dest!: r_strict)

lemma validate_request_not_canonical [simp]: "validate_request q \<noteq> Inl NotCanonical"
  by (auto simp: validate_request_def check_window_def then_ok_eq_Inl split: option.splits)

lemma decode_request_not_canonical: "decode_request f \<noteq> Inl NotCanonical"
  by (auto simp: decode_request_def Let_def reader_new_at encode_request_eq then_ok_eq_Inl
      then_cbor_eq_Inl split: if_splits dest!: r_strict)

interpretation request_codec:
  bounded_frame_codec encode_request decode_request validate_request request_typed MAX_FRAME_BYTES
  by unfold_locales
    (auto dest: decode_request_sound simp: decode_request_encode decode_request_not_canonical
      intro: request_encode_bound)

end
