(* ===== verification/Auth_Response.thy ===== *)
theory Auth_Response
  imports Protocol_Base
begin

text \<open>
  The phone's answer and its proof: \<open>phone-auth-protocol/src/response.rs\<close>. The algorithm and
  the signature have no length bound of their own, so a valid answer may exceed a frame.
\<close>

definition RESPONSE_FRAME_LEN :: u64 where "RESPONSE_FRAME_LEN = 8"

datatype decision = Authorized | Denied

fun decision_wire :: "decision \<Rightarrow> u64" where
  "decision_wire Authorized = 0"
| "decision_wire Denied = 1"

definition decision_from_wire :: "int \<Rightarrow> protocol_error + decision" where
  "decision_from_wire value =
    (if value = 0 then Inr Authorized
     else if value = 1 then Inr Denied
     else Inl (InvalidDecision value))"

lemma decision_from_wire_strict [strict]:
  "decision_from_wire v = Inr d \<Longrightarrow> v = uint (decision_wire d)"
  by (auto simp: decision_from_wire_def split: if_splits)

lemma decision_from_wire_at [codec]: "decision_from_wire (uint (decision_wire d)) = Inr d"
  by (cases d) (auto simp: decision_from_wire_def)

lemma decision_from_wire_not_canonical [simp]: "decision_from_wire v \<noteq> Inl NotCanonical"
  by (simp add: decision_from_wire_def)

lemma decision_wire_small [codec]: "uint (decision_wire d) \<le> 23"
  by (cases d) auto

lemmas decision_wire_simps = enc_int_uint [OF decision_wire_small]

record auth_response =
  rs_protocol_version :: u64
  rs_request_id :: string
  rs_verifier_id :: string
  rs_credential_id :: string
  rs_decision :: decision
  rs_algorithm :: string
  rs_signature :: bytes

definition validate_response :: "auth_response \<Rightarrow> protocol_error + unit" where
  "validate_response m =
    (if rs_protocol_version m \<noteq> PROTOCOL_VERSION
     then Inl (UnsupportedVersion (rs_protocol_version m)) else
     then_ok (check_text ''requestId'' (rs_request_id m) 64) (\<lambda>_.
     then_ok (check_text ''verifierId'' (rs_verifier_id m) 64) (\<lambda>_.
     then_ok (check_text ''credentialId'' (rs_credential_id m) 64) (\<lambda>_.
     if rs_decision m = Authorized \<and> (rs_algorithm m = [] \<or> rs_signature m = [])
     then Inl MissingProof else Inr ()))))"

definition encode_response :: "auth_response \<Rightarrow> bytes" where
  "encode_response m =
    (let w = writer_new;
         w = w_array RESPONSE_FRAME_LEN w;
         w = w_uint MESSAGE_TYPE_RESPONSE w;
         w = w_uint (rs_protocol_version m) w;
         w = w_text (rs_request_id m) w;
         w = w_text (rs_verifier_id m) w;
         w = w_text (rs_credential_id m) w;
         w = w_uint (decision_wire (rs_decision m)) w;
         w = w_text (rs_algorithm m) w;
         w = w_bytes (rs_signature m) w
     in w)"

definition decode_response :: "bytes \<Rightarrow> protocol_error + auth_response" where
  "decode_response frame =
    then_ok (check_frame_size frame) (\<lambda>_.
    let r = reader_new frame in
    then_cbor (r_array r) (\<lambda>(len, r).
    if len \<noteq> RESPONSE_FRAME_LEN then Inl (FrameShape RESPONSE_FRAME_LEN len) else
    then_cbor (r_uint r) (\<lambda>(message_type, r).
    if message_type \<noteq> MESSAGE_TYPE_RESPONSE then Inl (UnexpectedMessageType message_type) else
    then_cbor (r_uint r) (\<lambda>(protocol_version', r).
    then_cbor (r_text r) (\<lambda>(request_id', r).
    then_cbor (r_text r) (\<lambda>(verifier_id', r).
    then_cbor (r_text r) (\<lambda>(credential_id', r).
    then_cbor (r_int r) (\<lambda>(decision', r).
    then_ok (decision_from_wire decision') (\<lambda>decision'.
    then_cbor (r_text r) (\<lambda>(algorithm', r).
    then_cbor (r_bytes r) (\<lambda>(signature', r).
    let decoded = \<lparr>rs_protocol_version = protocol_version', rs_request_id = request_id',
          rs_verifier_id = verifier_id', rs_credential_id = credential_id', rs_decision =
          decision', rs_algorithm = algorithm', rs_signature = signature'\<rparr> in
    then_cbor (r_finish r) (\<lambda>_.
    then_ok (validate_response decoded) (\<lambda>_.
    if \<not> bytes_equal frame (encode_response decoded) then Inl NotCanonical else Inr decoded)))))))))))))"

definition response_typed :: "auth_response \<Rightarrow> bool" where
  "response_typed m \<longleftrightarrow>
    is_str (rs_request_id m) \<and> is_str (rs_verifier_id m) \<and> is_str (rs_credential_id m)
    \<and> is_str (rs_algorithm m)"

lemma encode_response_eq: "encode_response m =
    enc_array RESPONSE_FRAME_LEN @ enc_uint MESSAGE_TYPE_RESPONSE @
    enc_uint (rs_protocol_version m) @ enc_text (rs_request_id m) @
    enc_text (rs_verifier_id m) @ enc_text (rs_credential_id m) @
    enc_uint (decision_wire (rs_decision m)) @ enc_text (rs_algorithm m) @
    enc_bytes (rs_signature m)"
  by (simp add: encode_response_def Let_def writer_new_def w_append)

lemma validate_response_not_canonical [simp]: "validate_response m \<noteq> Inl NotCanonical"
  by (auto simp: validate_response_def then_ok_eq_Inl Let_def split: option.splits if_splits)

lemma decode_response_encode:
  assumes "response_typed m" and "validate_response m = Inr ()" and "length (encode_response m) \<le> MAX_FRAME_BYTES"
  shows "decode_response (encode_response m) = Inr m"
  using assms frame_slice_ok [OF assms(3)]
  by (cases m) (simp add: decode_response_def Let_def reader_new_at response_typed_def encode_response_eq codec decision_wire_simps)

lemma decode_response_sound:
  assumes "decode_response p = Inr m"
  shows "response_typed m \<and> validate_response m = Inr () \<and> encode_response m = p \<and> length p \<le> MAX_FRAME_BYTES"
  using assms
  by (auto simp: decode_response_def Let_def reader_new_at response_typed_def then_ok_eq_Inr
      then_cbor_eq_Inr decision_wire_simps split: if_splits dest!: strict)

lemma decode_response_not_canonical: "decode_response p \<noteq> Inl NotCanonical"
  by (auto simp: decode_response_def Let_def reader_new_at encode_response_eq then_ok_eq_Inl
      then_cbor_eq_Inl decision_wire_simps split: if_splits dest!: strict)

interpretation response_codec:
  frame_codec encode_response decode_response validate_response response_typed MAX_FRAME_BYTES
  by unfold_locales
    (auto dest: decode_response_sound simp: decode_response_encode decode_response_not_canonical)

end
