(* ===== verification/Session_Attach.thy ===== *)
theory Session_Attach
  imports Protocol_Base
begin

text \<open>
  Session attach, the routing hint a phone sends first on a session:
  \<open>phone-auth-protocol/src/attach.rs\<close>.
\<close>

definition ATTACH_FRAME_LEN :: u64 where "ATTACH_FRAME_LEN = 4"

record session_attach =
  at_protocol_version :: u64
  at_credential_id :: string

definition validate_attach :: "session_attach \<Rightarrow> protocol_error + unit" where
  "validate_attach m =
    (if at_protocol_version m \<noteq> PROTOCOL_VERSION
     then Inl (UnsupportedVersion (at_protocol_version m))
     else check_text ''credentialId'' (at_credential_id m) 64)"

definition encode_attach :: "session_attach \<Rightarrow> bytes" where
  "encode_attach m =
    (let w = writer_new;
         w = w_array ATTACH_FRAME_LEN w;
         w = w_uint MESSAGE_TYPE_ATTACH w;
         w = w_uint (at_protocol_version m) w;
         w = w_text (at_credential_id m) w;
         w = w_uint 0 w
     in w)"

definition decode_attach :: "bytes \<Rightarrow> protocol_error + session_attach" where
  "decode_attach frame =
    then_ok (check_frame_size frame) (\<lambda>_.
    let r = reader_new frame in
    then_cbor (r_array r) (\<lambda>(len, r).
    if len \<noteq> ATTACH_FRAME_LEN then Inl (FrameShape ATTACH_FRAME_LEN len) else
    then_cbor (r_uint r) (\<lambda>(message_type, r).
    if message_type \<noteq> MESSAGE_TYPE_ATTACH then Inl (UnexpectedMessageType message_type) else
    then_cbor (r_uint r) (\<lambda>(protocol_version', r).
    then_cbor (r_text r) (\<lambda>(credential_id', r).
    then_cbor (r_uint r) (\<lambda>(reserved, r).
    if reserved \<noteq> 0 then Inl (InvalidReservedField reserved) else
    let decoded = \<lparr>at_protocol_version = protocol_version', at_credential_id =
          credential_id'\<rparr> in
    then_cbor (r_finish r) (\<lambda>_.
    then_ok (validate_attach decoded) (\<lambda>_.
    if \<not> bytes_equal frame (encode_attach decoded) then Inl NotCanonical else Inr decoded))))))))"

definition attach_typed :: "session_attach \<Rightarrow> bool" where
  "attach_typed m \<longleftrightarrow>
    is_str (at_credential_id m)"

lemma encode_attach_eq: "encode_attach m =
    enc_array ATTACH_FRAME_LEN @ enc_uint MESSAGE_TYPE_ATTACH @
    enc_uint (at_protocol_version m) @ enc_text (at_credential_id m) @ enc_uint 0"
  by (simp add: encode_attach_def Let_def writer_new_def w_append)

lemma validate_attach_not_canonical [simp]: "validate_attach m \<noteq> Inl NotCanonical"
  by (auto simp: validate_attach_def then_ok_eq_Inl Let_def split: option.splits if_splits)

lemma decode_attach_encode:
  assumes "attach_typed m" and "validate_attach m = Inr ()" and "length (encode_attach m) \<le> MAX_FRAME_BYTES"
  shows "decode_attach (encode_attach m) = Inr m"
  using assms frame_slice_ok [OF assms(3)]
  by (cases m) (simp add: decode_attach_def Let_def reader_new_at attach_typed_def encode_attach_eq codec)

lemma decode_attach_sound:
  assumes "decode_attach p = Inr m"
  shows "attach_typed m \<and> validate_attach m = Inr () \<and> encode_attach m = p \<and> length p \<le> MAX_FRAME_BYTES"
  using assms
  by (auto simp: decode_attach_def Let_def reader_new_at attach_typed_def then_ok_eq_Inr
      then_cbor_eq_Inr split: if_splits dest!: strict)

lemma decode_attach_not_canonical: "decode_attach p \<noteq> Inl NotCanonical"
  by (auto simp: decode_attach_def Let_def reader_new_at encode_attach_eq then_ok_eq_Inl
      then_cbor_eq_Inl split: if_splits dest!: strict)

lemma attach_encode_bound:
  assumes "attach_typed m" and "validate_attach m = Inr ()"
  shows "length (encode_attach m) \<le> MAX_FRAME_BYTES"
  using assms
    length_enc(1) [of "ATTACH_FRAME_LEN"] length_enc(2) [of "MESSAGE_TYPE_ATTACH"]
    length_enc(2) [of "(at_protocol_version m)"] length_enc(4) [of "(at_credential_id m)"]
    length_enc(2) [of "0"]
  by (auto simp: encode_attach_eq attach_typed_def validate_attach_def then_ok_eq_Inr payload_consts 
      split: if_splits dest!: check_text_bound)

interpretation attach_codec:
  bounded_frame_codec encode_attach decode_attach validate_attach attach_typed MAX_FRAME_BYTES
  by unfold_locales
    (auto dest: decode_attach_sound simp: decode_attach_encode decode_attach_not_canonical
      intro: attach_encode_bound)

definition attach_new :: "string \<Rightarrow> session_attach" where
  "attach_new credential_id = \<lparr>at_protocol_version = PROTOCOL_VERSION, at_credential_id = credential_id\<rparr>"

definition attach_recognizes :: "bytes \<Rightarrow> bool" where
  "attach_recognizes frame =
    (case r_array (reader_new frame) of
       Inl _ \<Rightarrow> False
     | Inr (_, r) \<Rightarrow>
        (case r_uint r of Inl _ \<Rightarrow> False | Inr (t, _) \<Rightarrow> t = MESSAGE_TYPE_ATTACH))"

end
