(* ===== verification/Enrolment.thy ===== *)
theory Enrolment
  imports Protocol_Base
begin

text \<open>
  Credential enrolment, what a phone sends after a pairing handshake:
  \<open>phone-auth-protocol/src/enrolment.rs\<close>. The enums carry the wire numbers of the source.
\<close>

definition ENROLMENT_FRAME_LEN :: u64 where "ENROLMENT_FRAME_LEN = 9"

datatype key_kind = StrongBox | Hardware | Software

datatype credential_purpose = Authorization | DiskUnlock | WebAuthn | Vault | FileLocker | Ssh

fun key_kind_wire :: "key_kind \<Rightarrow> u64" where
  "key_kind_wire StrongBox = 0"
| "key_kind_wire Hardware = 1"
| "key_kind_wire Software = 2"

definition key_kind_from_wire :: "int \<Rightarrow> protocol_error + key_kind" where
  "key_kind_from_wire value =
    (if value = 0 then Inr StrongBox
     else if value = 1 then Inr Hardware
     else if value = 2 then Inr Software
     else Inl (InvalidKeyKind value))"

fun purpose_wire :: "credential_purpose \<Rightarrow> u64" where
  "purpose_wire Authorization = 0"
| "purpose_wire DiskUnlock = 1"
| "purpose_wire WebAuthn = 2"
| "purpose_wire Vault = 3"
| "purpose_wire FileLocker = 4"
| "purpose_wire Ssh = 5"

definition purpose_from_wire :: "int \<Rightarrow> protocol_error + credential_purpose" where
  "purpose_from_wire value =
    (if value = 0 then Inr Authorization
     else if value = 1 then Inr DiskUnlock
     else if value = 2 then Inr WebAuthn
     else if value = 3 then Inr Vault
     else if value = 4 then Inr FileLocker
     else if value = 5 then Inr Ssh
     else Inl (InvalidPurpose value))"

lemma wire_strict [strict]:
  "key_kind_from_wire v = Inr k \<Longrightarrow> v = uint (key_kind_wire k)"
  "purpose_from_wire v = Inr p \<Longrightarrow> v = uint (purpose_wire p)"
  by (auto simp: key_kind_from_wire_def purpose_from_wire_def split: if_splits)

lemma wire_at [codec]:
  "key_kind_from_wire (uint (key_kind_wire k)) = Inr k"
  "purpose_from_wire (uint (purpose_wire p)) = Inr p"
  by (cases k; simp add: key_kind_from_wire_def) (cases p; simp add: purpose_from_wire_def)

lemma from_wire_not_canonical [simp]:
  "key_kind_from_wire v \<noteq> Inl NotCanonical"
  "purpose_from_wire v \<noteq> Inl NotCanonical"
  by (simp_all add: key_kind_from_wire_def purpose_from_wire_def)

lemma wire_small [codec]: "uint (key_kind_wire k) \<le> 23" "uint (purpose_wire p) \<le> 23"
  by (cases k; simp) (cases p; simp)

lemmas wire_simps = wire_small [THEN enc_int_uint]

record enrolment =
  en_protocol_version :: u64
  en_device_name :: string
  en_credential_id :: string
  en_algorithm :: string
  en_public_key :: bytes
  en_key_kind :: key_kind
  en_purpose :: credential_purpose

definition validate_enrolment :: "enrolment \<Rightarrow> protocol_error + unit" where
  "validate_enrolment m =
    (if en_protocol_version m \<noteq> PROTOCOL_VERSION
     then Inl (UnsupportedVersion (en_protocol_version m)) else
     then_ok (check_text ''deviceName'' (en_device_name m) 128) (\<lambda>_.
     then_ok (check_text ''credentialId'' (en_credential_id m) 64) (\<lambda>_.
     then_ok (check_text ''algorithm'' (en_algorithm m) 64) (\<lambda>_.
     if en_public_key m = [] \<or> length (en_public_key m) > 512
     then Inl (FieldLength ''publicKey'' 91 (length (en_public_key m))) else Inr ()))))"

definition encode_enrolment :: "enrolment \<Rightarrow> bytes" where
  "encode_enrolment m =
    (let w = writer_new;
         w = w_array ENROLMENT_FRAME_LEN w;
         w = w_uint MESSAGE_TYPE_ENROLMENT w;
         w = w_uint (en_protocol_version m) w;
         w = w_text (en_device_name m) w;
         w = w_text (en_credential_id m) w;
         w = w_text (en_algorithm m) w;
         w = w_bytes (en_public_key m) w;
         w = w_uint (key_kind_wire (en_key_kind m)) w;
         w = w_uint (purpose_wire (en_purpose m)) w;
         w = w_uint 0 w
     in w)"

definition decode_enrolment :: "bytes \<Rightarrow> protocol_error + enrolment" where
  "decode_enrolment frame =
    then_ok (check_frame_size frame) (\<lambda>_.
    let r = reader_new frame in
    then_cbor (r_array r) (\<lambda>(len, r).
    if len \<noteq> ENROLMENT_FRAME_LEN then Inl (FrameShape ENROLMENT_FRAME_LEN len) else
    then_cbor (r_uint r) (\<lambda>(message_type, r).
    if message_type \<noteq> MESSAGE_TYPE_ENROLMENT then Inl (UnexpectedMessageType message_type) else
    then_cbor (r_uint r) (\<lambda>(protocol_version', r).
    then_cbor (r_text r) (\<lambda>(device_name', r).
    then_cbor (r_text r) (\<lambda>(credential_id', r).
    then_cbor (r_text r) (\<lambda>(algorithm', r).
    then_cbor (r_bytes r) (\<lambda>(public_key', r).
    then_cbor (r_int r) (\<lambda>(key_kind', r).
    then_ok (key_kind_from_wire key_kind') (\<lambda>key_kind'.
    then_cbor (r_int r) (\<lambda>(purpose', r).
    then_ok (purpose_from_wire purpose') (\<lambda>purpose'.
    then_cbor (r_uint r) (\<lambda>(reserved, r).
    if reserved \<noteq> 0 then Inl (InvalidReservedField reserved) else
    let decoded = \<lparr>en_protocol_version = protocol_version', en_device_name = device_name',
          en_credential_id = credential_id', en_algorithm = algorithm', en_public_key =
          public_key', en_key_kind = key_kind', en_purpose = purpose'\<rparr> in
    then_cbor (r_finish r) (\<lambda>_.
    then_ok (validate_enrolment decoded) (\<lambda>_.
    if \<not> bytes_equal frame (encode_enrolment decoded) then Inl NotCanonical else Inr decoded)))))))))))))))"

definition enrolment_typed :: "enrolment \<Rightarrow> bool" where
  "enrolment_typed m \<longleftrightarrow>
    is_str (en_device_name m) \<and> is_str (en_credential_id m) \<and> is_str (en_algorithm m)"

lemma encode_enrolment_eq: "encode_enrolment m =
    enc_array ENROLMENT_FRAME_LEN @ enc_uint MESSAGE_TYPE_ENROLMENT @
    enc_uint (en_protocol_version m) @ enc_text (en_device_name m) @
    enc_text (en_credential_id m) @ enc_text (en_algorithm m) @ enc_bytes (en_public_key m) @
    enc_uint (key_kind_wire (en_key_kind m)) @ enc_uint (purpose_wire (en_purpose m)) @
    enc_uint 0"
  by (simp add: encode_enrolment_def Let_def writer_new_def w_append)

lemma validate_enrolment_not_canonical [simp]: "validate_enrolment m \<noteq> Inl NotCanonical"
  by (auto simp: validate_enrolment_def then_ok_eq_Inl Let_def split: option.splits if_splits)

lemma decode_enrolment_encode:
  assumes "enrolment_typed m" and "validate_enrolment m = Inr ()" and "length (encode_enrolment m) \<le> MAX_FRAME_BYTES"
  shows "decode_enrolment (encode_enrolment m) = Inr m"
  using assms frame_slice_ok [OF assms(3)]
  by (cases m) (simp add: decode_enrolment_def Let_def reader_new_at enrolment_typed_def encode_enrolment_eq codec wire_simps)

lemma decode_enrolment_sound:
  assumes "decode_enrolment p = Inr m"
  shows "enrolment_typed m \<and> validate_enrolment m = Inr () \<and> encode_enrolment m = p \<and> length p \<le> MAX_FRAME_BYTES"
  using assms
  by (auto simp: decode_enrolment_def Let_def reader_new_at enrolment_typed_def then_ok_eq_Inr
      then_cbor_eq_Inr wire_simps split: if_splits dest!: strict)

lemma decode_enrolment_not_canonical: "decode_enrolment p \<noteq> Inl NotCanonical"
  by (auto simp: decode_enrolment_def Let_def reader_new_at encode_enrolment_eq then_ok_eq_Inl
      then_cbor_eq_Inl wire_simps split: if_splits dest!: strict)

lemma enrolment_encode_bound:
  assumes "enrolment_typed m" and "validate_enrolment m = Inr ()"
  shows "length (encode_enrolment m) \<le> MAX_FRAME_BYTES"
  using assms
    length_enc(1) [of "ENROLMENT_FRAME_LEN"] length_enc(2) [of "MESSAGE_TYPE_ENROLMENT"]
    length_enc(2) [of "(en_protocol_version m)"] length_enc(4) [of "(en_device_name m)"]
    length_enc(4) [of "(en_credential_id m)"] length_enc(4) [of "(en_algorithm m)"]
    length_enc(5) [of "(en_public_key m)"] length_enc(2) [of "(key_kind_wire (en_key_kind m))"]
    length_enc(2) [of "(purpose_wire (en_purpose m))"] length_enc(2) [of "0"]
  by (auto simp: encode_enrolment_eq enrolment_typed_def validate_enrolment_def then_ok_eq_Inr payload_consts 
      split: if_splits dest!: check_text_bound)

interpretation enrolment_codec:
  bounded_frame_codec encode_enrolment decode_enrolment validate_enrolment enrolment_typed MAX_FRAME_BYTES
  by unfold_locales
    (auto dest: decode_enrolment_sound simp: decode_enrolment_encode decode_enrolment_not_canonical
      intro: enrolment_encode_bound)

end
