(* ===== verification/Locker_Payloads.thy ===== *)
theory Locker_Payloads
  imports Protocol_Base
begin

text \<open>
  Payloads of the File Locker operations: \<open>phone-auth-protocol/src/locker.rs\<close>. Wiping on drop
  has no observable value and is not modelled.
\<close>

definition OPERATION_CREATE :: string where "OPERATION_CREATE = ''locker.create''"
definition OPERATION_UNLOCK :: string where "OPERATION_UNLOCK = ''locker.unlock''"
definition OPERATION_REKEY :: string where "OPERATION_REKEY = ''locker.rekey''"
definition LOCKER_SCHEMA :: u64 where "LOCKER_SCHEMA = 1"
definition DATA_KEY_LEN :: nat where "DATA_KEY_LEN = 32"
definition MAX_WRAPPER_BYTES :: nat where "MAX_WRAPPER_BYTES = 512"
definition WRAP_REQUEST_FIELDS :: u64 where "WRAP_REQUEST_FIELDS = 6"
definition WRAP_RESPONSE_FIELDS :: u64 where "WRAP_RESPONSE_FIELDS = 3"
definition UNWRAP_REQUEST_FIELDS :: u64 where "UNWRAP_REQUEST_FIELDS = 7"
definition UNWRAP_RESPONSE_FIELDS :: u64 where "UNWRAP_RESPONSE_FIELDS = 2"
definition MAX_NAME_UNITS :: nat where "MAX_NAME_UNITS = 255"
definition MAX_ID_UNITS :: nat where "MAX_ID_UNITS = 64"

lemmas locker_consts = DATA_KEY_LEN_def MAX_WRAPPER_BYTES_def MAX_NAME_UNITS_def MAX_ID_UNITS_def

definition check_wrapper :: "bytes \<Rightarrow> protocol_error + unit" where
  "check_wrapper wrapper =
    (if wrapper = [] \<or> length wrapper > MAX_WRAPPER_BYTES
     then Inl (PayloadSize (length wrapper)) else Inr ())"

definition check_data_key :: "bytes \<Rightarrow> protocol_error + unit" where
  "check_data_key key =
    (if length key \<noteq> DATA_KEY_LEN
     then Inl (FieldLength ''dataKey'' DATA_KEY_LEN (length key)) else Inr ())"

definition locker_open :: "bytes \<Rightarrow> u64 \<Rightarrow> protocol_error + reader" where
  "locker_open payload count = open_payload LOCKER_SCHEMA payload count"

definition locker_finish :: "reader \<Rightarrow> bytes \<Rightarrow> bytes \<Rightarrow> protocol_error + unit" where
  "locker_finish r reencoded payload = finish_payload r reencoded payload"

lemma locker_checks [simp]:
  "check_wrapper w = Inr u \<longleftrightarrow> w \<noteq> [] \<and> length w \<le> MAX_WRAPPER_BYTES"
  "check_data_key k = Inr u \<longleftrightarrow> length k = DATA_KEY_LEN"
  "check_wrapper w \<noteq> Inl NotCanonical"
  "check_data_key k \<noteq> Inl NotCanonical"
  by (auto simp: check_wrapper_def check_data_key_def)

subsection \<open>\<open>locker.create\<close>\<close>

record wrap_request =
  wq_verifier_name :: string
  wq_file_name :: string
  wq_plaintext_len :: u64
  wq_container_binding :: bytes
  wq_data_key :: bytes

definition validate_wrap_request :: "wrap_request \<Rightarrow> protocol_error + unit" where
  "validate_wrap_request m =
    then_ok (check_text ''verifierName'' (wq_verifier_name m) MAX_NAME_UNITS) (\<lambda>_.
    then_ok (check_text ''fileName'' (wq_file_name m) MAX_NAME_UNITS) (\<lambda>_.
    check_data_key (wq_data_key m)))"

definition encode_wrap_request :: "wrap_request \<Rightarrow> bytes" where
  "encode_wrap_request m =
    (let w = writer_new;
         w = w_array WRAP_REQUEST_FIELDS w;
         w = w_uint LOCKER_SCHEMA w;
         w = w_text (wq_verifier_name m) w;
         w = w_text (wq_file_name m) w;
         w = w_uint (wq_plaintext_len m) w;
         w = w_bytes (wq_container_binding m) w;
         w = w_bytes (wq_data_key m) w
     in w)"

definition decode_wrap_request :: "bytes \<Rightarrow> protocol_error + wrap_request" where
  "decode_wrap_request payload =
    then_ok (locker_open payload WRAP_REQUEST_FIELDS) (\<lambda>r.
    then_cbor (r_text r) (\<lambda>(verifier_name', r).
    then_cbor (r_text r) (\<lambda>(file_name', r).
    then_cbor (r_uint r) (\<lambda>(plaintext_len', r).
    then_cbor (r_bytes r) (\<lambda>(container_binding', r).
    then_ok (fixed_bytes SESSION_BINDING_LEN ''containerBinding'' container_binding') (\<lambda>container_binding'.
    then_cbor (r_bytes r) (\<lambda>(data_key', r).
    let decoded = \<lparr>wq_verifier_name = verifier_name', wq_file_name = file_name', wq_plaintext_len =
          plaintext_len', wq_container_binding = container_binding', wq_data_key =
          data_key'\<rparr> in
    then_ok (locker_finish r (encode_wrap_request decoded) payload) (\<lambda>_.
    then_ok (validate_wrap_request decoded) (\<lambda>_.
    Inr decoded)))))))))"

definition wrap_request_typed :: "wrap_request \<Rightarrow> bool" where
  "wrap_request_typed m \<longleftrightarrow>
    is_str (wq_verifier_name m) \<and> is_str (wq_file_name m) \<and> length
    (wq_container_binding m) = SESSION_BINDING_LEN"

lemma encode_wrap_request_eq: "encode_wrap_request m =
    enc_array WRAP_REQUEST_FIELDS @ enc_uint LOCKER_SCHEMA @ enc_text (wq_verifier_name m) @
    enc_text (wq_file_name m) @ enc_uint (wq_plaintext_len m) @
    enc_bytes (wq_container_binding m) @ enc_bytes (wq_data_key m)"
  by (simp add: encode_wrap_request_def Let_def writer_new_def w_append)

lemma validate_wrap_request_not_canonical [simp]: "validate_wrap_request m \<noteq> Inl NotCanonical"
  by (auto simp: validate_wrap_request_def then_ok_eq_Inl Let_def split: option.splits if_splits)

lemma decode_wrap_request_encode:
  assumes "wrap_request_typed m" and "validate_wrap_request m = Inr ()" and "length (encode_wrap_request m) \<le> MAX_APPLICATION_PAYLOAD_BYTES"
  shows "decode_wrap_request (encode_wrap_request m) = Inr m"
  using assms payload_slice_ok [OF assms(3)]
  by (cases m) (simp add: decode_wrap_request_def Let_def reader_new_at wrap_request_typed_def encode_wrap_request_eq codec locker_open_def locker_finish_def)

lemma decode_wrap_request_sound:
  assumes "decode_wrap_request p = Inr m"
  shows "wrap_request_typed m \<and> validate_wrap_request m = Inr () \<and> encode_wrap_request m = p \<and> length p \<le> MAX_APPLICATION_PAYLOAD_BYTES"
  using assms
  by (auto simp: decode_wrap_request_def Let_def reader_new_at wrap_request_typed_def then_ok_eq_Inr
      then_cbor_eq_Inr locker_open_def locker_finish_def split: if_splits dest!: strict)

lemma decode_wrap_request_not_canonical: "decode_wrap_request p \<noteq> Inl NotCanonical"
  by (auto simp: decode_wrap_request_def Let_def reader_new_at encode_wrap_request_eq then_ok_eq_Inl
      then_cbor_eq_Inl locker_open_def locker_finish_def split: if_splits dest!: strict)

lemma wrap_request_encode_bound:
  assumes "wrap_request_typed m" and "validate_wrap_request m = Inr ()"
  shows "length (encode_wrap_request m) \<le> MAX_APPLICATION_PAYLOAD_BYTES"
  using assms
    length_enc(1) [of "WRAP_REQUEST_FIELDS"] length_enc(2) [of "LOCKER_SCHEMA"]
    length_enc(4) [of "(wq_verifier_name m)"] length_enc(4) [of "(wq_file_name m)"]
    length_enc(2) [of "(wq_plaintext_len m)"] length_enc(5) [of "(wq_container_binding m)"]
    length_enc(5) [of "(wq_data_key m)"]
  by (auto simp: encode_wrap_request_eq wrap_request_typed_def validate_wrap_request_def then_ok_eq_Inr Let_def payload_consts locker_consts
      split: if_splits dest!: check_text_bound)

interpretation wrap_request_codec:
  bounded_frame_codec encode_wrap_request decode_wrap_request validate_wrap_request wrap_request_typed MAX_APPLICATION_PAYLOAD_BYTES
  by unfold_locales
    (auto dest: decode_wrap_request_sound simp: decode_wrap_request_encode decode_wrap_request_not_canonical
      intro: wrap_request_encode_bound)

record wrap_response =
  wr_credential_id :: string
  wr_wrapper :: bytes

definition validate_wrap_response :: "wrap_response \<Rightarrow> protocol_error + unit" where
  "validate_wrap_response m =
    then_ok (check_text ''credentialId'' (wr_credential_id m) MAX_ID_UNITS) (\<lambda>_.
    check_wrapper (wr_wrapper m))"

definition encode_wrap_response :: "wrap_response \<Rightarrow> bytes" where
  "encode_wrap_response m =
    (let w = writer_new;
         w = w_array WRAP_RESPONSE_FIELDS w;
         w = w_uint LOCKER_SCHEMA w;
         w = w_text (wr_credential_id m) w;
         w = w_bytes (wr_wrapper m) w
     in w)"

definition decode_wrap_response :: "bytes \<Rightarrow> protocol_error + wrap_response" where
  "decode_wrap_response payload =
    then_ok (locker_open payload WRAP_RESPONSE_FIELDS) (\<lambda>r.
    then_cbor (r_text r) (\<lambda>(credential_id', r).
    then_cbor (r_bytes r) (\<lambda>(wrapper', r).
    let decoded = \<lparr>wr_credential_id = credential_id', wr_wrapper = wrapper'\<rparr> in
    then_ok (locker_finish r (encode_wrap_response decoded) payload) (\<lambda>_.
    then_ok (validate_wrap_response decoded) (\<lambda>_.
    Inr decoded)))))"

definition wrap_response_typed :: "wrap_response \<Rightarrow> bool" where
  "wrap_response_typed m \<longleftrightarrow>
    is_str (wr_credential_id m)"

lemma encode_wrap_response_eq: "encode_wrap_response m =
    enc_array WRAP_RESPONSE_FIELDS @ enc_uint LOCKER_SCHEMA @ enc_text (wr_credential_id m) @
    enc_bytes (wr_wrapper m)"
  by (simp add: encode_wrap_response_def Let_def writer_new_def w_append)

lemma validate_wrap_response_not_canonical [simp]: "validate_wrap_response m \<noteq> Inl NotCanonical"
  by (auto simp: validate_wrap_response_def then_ok_eq_Inl Let_def split: option.splits if_splits)

lemma decode_wrap_response_encode:
  assumes "wrap_response_typed m" and "validate_wrap_response m = Inr ()" and "length (encode_wrap_response m) \<le> MAX_APPLICATION_PAYLOAD_BYTES"
  shows "decode_wrap_response (encode_wrap_response m) = Inr m"
  using assms payload_slice_ok [OF assms(3)]
  by (cases m) (simp add: decode_wrap_response_def Let_def reader_new_at wrap_response_typed_def encode_wrap_response_eq codec locker_open_def locker_finish_def)

lemma decode_wrap_response_sound:
  assumes "decode_wrap_response p = Inr m"
  shows "wrap_response_typed m \<and> validate_wrap_response m = Inr () \<and> encode_wrap_response m = p \<and> length p \<le> MAX_APPLICATION_PAYLOAD_BYTES"
  using assms
  by (auto simp: decode_wrap_response_def Let_def reader_new_at wrap_response_typed_def then_ok_eq_Inr
      then_cbor_eq_Inr locker_open_def locker_finish_def split: if_splits dest!: strict)

lemma decode_wrap_response_not_canonical: "decode_wrap_response p \<noteq> Inl NotCanonical"
  by (auto simp: decode_wrap_response_def Let_def reader_new_at encode_wrap_response_eq then_ok_eq_Inl
      then_cbor_eq_Inl locker_open_def locker_finish_def split: if_splits dest!: strict)

lemma wrap_response_encode_bound:
  assumes "wrap_response_typed m" and "validate_wrap_response m = Inr ()"
  shows "length (encode_wrap_response m) \<le> MAX_APPLICATION_PAYLOAD_BYTES"
  using assms
    length_enc(1) [of "WRAP_RESPONSE_FIELDS"] length_enc(2) [of "LOCKER_SCHEMA"]
    length_enc(4) [of "(wr_credential_id m)"] length_enc(5) [of "(wr_wrapper m)"]
  by (auto simp: encode_wrap_response_eq wrap_response_typed_def validate_wrap_response_def then_ok_eq_Inr Let_def payload_consts locker_consts
      split: if_splits dest!: check_text_bound)

interpretation wrap_response_codec:
  bounded_frame_codec encode_wrap_response decode_wrap_response validate_wrap_response wrap_response_typed MAX_APPLICATION_PAYLOAD_BYTES
  by unfold_locales
    (auto dest: decode_wrap_response_sound simp: decode_wrap_response_encode decode_wrap_response_not_canonical
      intro: wrap_response_encode_bound)

subsection \<open>\<open>locker.unlock\<close> and \<open>locker.rekey\<close>\<close>

record unwrap_request =
  uq_verifier_name :: string
  uq_file_name :: string
  uq_plaintext_len :: u64
  uq_container_binding :: bytes
  uq_credential_id :: string
  uq_wrapper :: bytes

definition validate_unwrap_request :: "unwrap_request \<Rightarrow> protocol_error + unit" where
  "validate_unwrap_request m =
    then_ok (check_text ''verifierName'' (uq_verifier_name m) MAX_NAME_UNITS) (\<lambda>_.
    then_ok (check_text ''fileName'' (uq_file_name m) MAX_NAME_UNITS) (\<lambda>_.
    then_ok (check_text ''credentialId'' (uq_credential_id m) MAX_ID_UNITS) (\<lambda>_.
    check_wrapper (uq_wrapper m))))"

definition encode_unwrap_request :: "unwrap_request \<Rightarrow> bytes" where
  "encode_unwrap_request m =
    (let w = writer_new;
         w = w_array UNWRAP_REQUEST_FIELDS w;
         w = w_uint LOCKER_SCHEMA w;
         w = w_text (uq_verifier_name m) w;
         w = w_text (uq_file_name m) w;
         w = w_uint (uq_plaintext_len m) w;
         w = w_bytes (uq_container_binding m) w;
         w = w_text (uq_credential_id m) w;
         w = w_bytes (uq_wrapper m) w
     in w)"

definition decode_unwrap_request :: "bytes \<Rightarrow> protocol_error + unwrap_request" where
  "decode_unwrap_request payload =
    then_ok (locker_open payload UNWRAP_REQUEST_FIELDS) (\<lambda>r.
    then_cbor (r_text r) (\<lambda>(verifier_name', r).
    then_cbor (r_text r) (\<lambda>(file_name', r).
    then_cbor (r_uint r) (\<lambda>(plaintext_len', r).
    then_cbor (r_bytes r) (\<lambda>(container_binding', r).
    then_ok (fixed_bytes SESSION_BINDING_LEN ''containerBinding'' container_binding') (\<lambda>container_binding'.
    then_cbor (r_text r) (\<lambda>(credential_id', r).
    then_cbor (r_bytes r) (\<lambda>(wrapper', r).
    let decoded = \<lparr>uq_verifier_name = verifier_name', uq_file_name = file_name', uq_plaintext_len =
          plaintext_len', uq_container_binding = container_binding', uq_credential_id =
          credential_id', uq_wrapper = wrapper'\<rparr> in
    then_ok (locker_finish r (encode_unwrap_request decoded) payload) (\<lambda>_.
    then_ok (validate_unwrap_request decoded) (\<lambda>_.
    Inr decoded))))))))))"

definition unwrap_request_typed :: "unwrap_request \<Rightarrow> bool" where
  "unwrap_request_typed m \<longleftrightarrow>
    is_str (uq_verifier_name m) \<and> is_str (uq_file_name m) \<and> length
    (uq_container_binding m) = SESSION_BINDING_LEN \<and> is_str (uq_credential_id m)"

lemma encode_unwrap_request_eq: "encode_unwrap_request m =
    enc_array UNWRAP_REQUEST_FIELDS @ enc_uint LOCKER_SCHEMA @ enc_text (uq_verifier_name m) @
    enc_text (uq_file_name m) @ enc_uint (uq_plaintext_len m) @
    enc_bytes (uq_container_binding m) @ enc_text (uq_credential_id m) @
    enc_bytes (uq_wrapper m)"
  by (simp add: encode_unwrap_request_def Let_def writer_new_def w_append)

lemma validate_unwrap_request_not_canonical [simp]: "validate_unwrap_request m \<noteq> Inl NotCanonical"
  by (auto simp: validate_unwrap_request_def then_ok_eq_Inl Let_def split: option.splits if_splits)

lemma decode_unwrap_request_encode:
  assumes "unwrap_request_typed m" and "validate_unwrap_request m = Inr ()" and "length (encode_unwrap_request m) \<le> MAX_APPLICATION_PAYLOAD_BYTES"
  shows "decode_unwrap_request (encode_unwrap_request m) = Inr m"
  using assms payload_slice_ok [OF assms(3)]
  by (cases m) (simp add: decode_unwrap_request_def Let_def reader_new_at unwrap_request_typed_def encode_unwrap_request_eq codec locker_open_def locker_finish_def)

lemma decode_unwrap_request_sound:
  assumes "decode_unwrap_request p = Inr m"
  shows "unwrap_request_typed m \<and> validate_unwrap_request m = Inr () \<and> encode_unwrap_request m = p \<and> length p \<le> MAX_APPLICATION_PAYLOAD_BYTES"
  using assms
  by (auto simp: decode_unwrap_request_def Let_def reader_new_at unwrap_request_typed_def then_ok_eq_Inr
      then_cbor_eq_Inr locker_open_def locker_finish_def split: if_splits dest!: strict)

lemma decode_unwrap_request_not_canonical: "decode_unwrap_request p \<noteq> Inl NotCanonical"
  by (auto simp: decode_unwrap_request_def Let_def reader_new_at encode_unwrap_request_eq then_ok_eq_Inl
      then_cbor_eq_Inl locker_open_def locker_finish_def split: if_splits dest!: strict)

lemma unwrap_request_encode_bound:
  assumes "unwrap_request_typed m" and "validate_unwrap_request m = Inr ()"
  shows "length (encode_unwrap_request m) \<le> MAX_APPLICATION_PAYLOAD_BYTES"
  using assms
    length_enc(1) [of "UNWRAP_REQUEST_FIELDS"] length_enc(2) [of "LOCKER_SCHEMA"]
    length_enc(4) [of "(uq_verifier_name m)"] length_enc(4) [of "(uq_file_name m)"]
    length_enc(2) [of "(uq_plaintext_len m)"] length_enc(5) [of "(uq_container_binding m)"]
    length_enc(4) [of "(uq_credential_id m)"] length_enc(5) [of "(uq_wrapper m)"]
  by (auto simp: encode_unwrap_request_eq unwrap_request_typed_def validate_unwrap_request_def then_ok_eq_Inr Let_def payload_consts locker_consts
      split: if_splits dest!: check_text_bound)

interpretation unwrap_request_codec:
  bounded_frame_codec encode_unwrap_request decode_unwrap_request validate_unwrap_request unwrap_request_typed MAX_APPLICATION_PAYLOAD_BYTES
  by unfold_locales
    (auto dest: decode_unwrap_request_sound simp: decode_unwrap_request_encode decode_unwrap_request_not_canonical
      intro: unwrap_request_encode_bound)

record unwrap_response =
  ur_data_key :: bytes

definition validate_unwrap_response :: "unwrap_response \<Rightarrow> protocol_error + unit" where
  "validate_unwrap_response m =
    check_data_key (ur_data_key m)"

definition encode_unwrap_response :: "unwrap_response \<Rightarrow> bytes" where
  "encode_unwrap_response m =
    (let w = writer_new;
         w = w_array UNWRAP_RESPONSE_FIELDS w;
         w = w_uint LOCKER_SCHEMA w;
         w = w_bytes (ur_data_key m) w
     in w)"

definition decode_unwrap_response :: "bytes \<Rightarrow> protocol_error + unwrap_response" where
  "decode_unwrap_response payload =
    then_ok (locker_open payload UNWRAP_RESPONSE_FIELDS) (\<lambda>r.
    then_cbor (r_bytes r) (\<lambda>(data_key', r).
    let decoded = \<lparr>ur_data_key = data_key'\<rparr> in
    then_ok (locker_finish r (encode_unwrap_response decoded) payload) (\<lambda>_.
    then_ok (validate_unwrap_response decoded) (\<lambda>_.
    Inr decoded))))"

definition unwrap_response_typed :: "unwrap_response \<Rightarrow> bool" where
  "unwrap_response_typed m \<longleftrightarrow>
    True"

lemma encode_unwrap_response_eq: "encode_unwrap_response m =
    enc_array UNWRAP_RESPONSE_FIELDS @ enc_uint LOCKER_SCHEMA @ enc_bytes (ur_data_key m)"
  by (simp add: encode_unwrap_response_def Let_def writer_new_def w_append)

lemma validate_unwrap_response_not_canonical [simp]: "validate_unwrap_response m \<noteq> Inl NotCanonical"
  by (auto simp: validate_unwrap_response_def then_ok_eq_Inl Let_def split: option.splits if_splits)

lemma decode_unwrap_response_encode:
  assumes "unwrap_response_typed m" and "validate_unwrap_response m = Inr ()" and "length (encode_unwrap_response m) \<le> MAX_APPLICATION_PAYLOAD_BYTES"
  shows "decode_unwrap_response (encode_unwrap_response m) = Inr m"
  using assms payload_slice_ok [OF assms(3)]
  by (cases m) (simp add: decode_unwrap_response_def Let_def reader_new_at unwrap_response_typed_def encode_unwrap_response_eq codec locker_open_def locker_finish_def)

lemma decode_unwrap_response_sound:
  assumes "decode_unwrap_response p = Inr m"
  shows "unwrap_response_typed m \<and> validate_unwrap_response m = Inr () \<and> encode_unwrap_response m = p \<and> length p \<le> MAX_APPLICATION_PAYLOAD_BYTES"
  using assms
  by (auto simp: decode_unwrap_response_def Let_def reader_new_at unwrap_response_typed_def then_ok_eq_Inr
      then_cbor_eq_Inr locker_open_def locker_finish_def split: if_splits dest!: strict)

lemma decode_unwrap_response_not_canonical: "decode_unwrap_response p \<noteq> Inl NotCanonical"
  by (auto simp: decode_unwrap_response_def Let_def reader_new_at encode_unwrap_response_eq then_ok_eq_Inl
      then_cbor_eq_Inl locker_open_def locker_finish_def split: if_splits dest!: strict)

lemma unwrap_response_encode_bound:
  assumes "unwrap_response_typed m" and "validate_unwrap_response m = Inr ()"
  shows "length (encode_unwrap_response m) \<le> MAX_APPLICATION_PAYLOAD_BYTES"
  using assms
    length_enc(1) [of "UNWRAP_RESPONSE_FIELDS"] length_enc(2) [of "LOCKER_SCHEMA"]
    length_enc(5) [of "(ur_data_key m)"]
  by (auto simp: encode_unwrap_response_eq unwrap_response_typed_def validate_unwrap_response_def then_ok_eq_Inr Let_def payload_consts locker_consts
      split: if_splits dest!: check_text_bound)

interpretation unwrap_response_codec:
  bounded_frame_codec encode_unwrap_response decode_unwrap_response validate_unwrap_response unwrap_response_typed MAX_APPLICATION_PAYLOAD_BYTES
  by unfold_locales
    (auto dest: decode_unwrap_response_sound simp: decode_unwrap_response_encode decode_unwrap_response_not_canonical
      intro: unwrap_response_encode_bound)

end
