(* ===== verification/Luks_Payloads.thy ===== *)
theory Luks_Payloads
  imports Protocol_Base
begin

text \<open>
  Disk-key wrapping payloads: \<open>phone-auth-protocol/src/luks.rs\<close>.
\<close>

definition LUKS_OPERATION_ENROLL :: string where "LUKS_OPERATION_ENROLL = ''luks.enroll''"
definition LUKS_OPERATION_UNLOCK :: string where "LUKS_OPERATION_UNLOCK = ''luks.unlock''"
definition LUKS_SCHEMA :: u64 where "LUKS_SCHEMA = 1"
definition DISK_KEY_LEN :: nat where "DISK_KEY_LEN = 32"
definition VOLUME_BINDING_LEN :: nat where "VOLUME_BINDING_LEN = 32"
definition LUKS_MAX_WRAPPER_BYTES :: nat where "LUKS_MAX_WRAPPER_BYTES = 512"
definition ENROLL_REQUEST_FIELDS :: u64 where "ENROLL_REQUEST_FIELDS = 5"
definition ENROLL_RESPONSE_FIELDS :: u64 where "ENROLL_RESPONSE_FIELDS = 3"
definition UNLOCK_REQUEST_FIELDS :: u64 where "UNLOCK_REQUEST_FIELDS = 6"
definition UNLOCK_RESPONSE_FIELDS :: u64 where "UNLOCK_RESPONSE_FIELDS = 2"
definition WRAPPED_KEY_FIELDS :: u64 where "WRAPPED_KEY_FIELDS = 4"
definition LUKS_MAX_NAME_UNITS :: nat where "LUKS_MAX_NAME_UNITS = 255"
definition LUKS_MAX_ID_UNITS :: nat where "LUKS_MAX_ID_UNITS = 64"

lemmas luks_consts = DISK_KEY_LEN_def VOLUME_BINDING_LEN_def LUKS_MAX_WRAPPER_BYTES_def
  LUKS_MAX_NAME_UNITS_def LUKS_MAX_ID_UNITS_def

definition luks_names :: "string \<Rightarrow> string \<Rightarrow> protocol_error + unit" where
  "luks_names verifier volume =
    then_ok (check_text ''verifierName'' verifier LUKS_MAX_NAME_UNITS) (\<lambda>_.
    check_text ''volumeName'' volume LUKS_MAX_NAME_UNITS)"

definition luks_key :: "bytes \<Rightarrow> protocol_error + unit" where
  "luks_key value =
    (if length value \<noteq> DISK_KEY_LEN
     then Inl (FieldLength ''diskKey'' DISK_KEY_LEN (length value)) else Inr ())"

definition luks_wrapper :: "bytes \<Rightarrow> protocol_error + unit" where
  "luks_wrapper value =
    (if value = [] \<or> length value > LUKS_MAX_WRAPPER_BYTES
     then Inl (PayloadSize (length value)) else Inr ())"

definition luks_open :: "bytes \<Rightarrow> u64 \<Rightarrow> protocol_error + reader" where
  "luks_open payload count = open_payload LUKS_SCHEMA payload count"

definition luks_finish :: "reader \<Rightarrow> bytes \<Rightarrow> bytes \<Rightarrow> protocol_error + unit" where
  "luks_finish r encoded input = finish_payload r encoded input"

lemma luks_checks [simp]:
  "luks_wrapper w = Inr u \<longleftrightarrow> w \<noteq> [] \<and> length w \<le> LUKS_MAX_WRAPPER_BYTES"
  "luks_key k = Inr u \<longleftrightarrow> length k = DISK_KEY_LEN"
  "luks_names a b = Inr u \<longleftrightarrow> check_text ''verifierName'' a LUKS_MAX_NAME_UNITS = Inr ()
    \<and> check_text ''volumeName'' b LUKS_MAX_NAME_UNITS = Inr ()"
  "luks_wrapper w \<noteq> Inl NotCanonical"
  "luks_key k \<noteq> Inl NotCanonical"
  "luks_names a b \<noteq> Inl NotCanonical"
  by (auto simp: luks_wrapper_def luks_key_def luks_names_def then_ok_eq_Inr then_ok_eq_Inl)


record enroll_request =
  eq_verifier_name :: string
  eq_volume_name :: string
  eq_volume_binding :: bytes
  eq_disk_key :: bytes

definition validate_enroll_request :: "enroll_request \<Rightarrow> protocol_error + unit" where
  "validate_enroll_request m =
    then_ok (luks_names (eq_verifier_name m) (eq_volume_name m)) (\<lambda>_.
    luks_key (eq_disk_key m))"

definition encode_enroll_request :: "enroll_request \<Rightarrow> bytes" where
  "encode_enroll_request m =
    (let w = writer_new;
         w = w_array ENROLL_REQUEST_FIELDS w;
         w = w_uint LUKS_SCHEMA w;
         w = w_text (eq_verifier_name m) w;
         w = w_text (eq_volume_name m) w;
         w = w_bytes (eq_volume_binding m) w;
         w = w_bytes (eq_disk_key m) w
     in w)"

definition decode_enroll_request :: "bytes \<Rightarrow> protocol_error + enroll_request" where
  "decode_enroll_request payload =
    then_ok (luks_open payload ENROLL_REQUEST_FIELDS) (\<lambda>r.
    then_cbor (r_text r) (\<lambda>(verifier_name', r).
    then_cbor (r_text r) (\<lambda>(volume_name', r).
    then_cbor (r_bytes r) (\<lambda>(volume_binding', r).
    then_ok (fixed_bytes VOLUME_BINDING_LEN ''volumeBinding'' volume_binding') (\<lambda>volume_binding'.
    then_cbor (r_bytes r) (\<lambda>(disk_key', r).
    let decoded = \<lparr>eq_verifier_name = verifier_name', eq_volume_name = volume_name',
          eq_volume_binding = volume_binding', eq_disk_key = disk_key'\<rparr> in
    then_ok (luks_finish r (encode_enroll_request decoded) payload) (\<lambda>_.
    then_ok (validate_enroll_request decoded) (\<lambda>_.
    Inr decoded))))))))"

definition enroll_request_typed :: "enroll_request \<Rightarrow> bool" where
  "enroll_request_typed m \<longleftrightarrow>
    is_str (eq_verifier_name m) \<and> is_str (eq_volume_name m) \<and> length
    (eq_volume_binding m) = VOLUME_BINDING_LEN"

lemma encode_enroll_request_eq: "encode_enroll_request m =
    enc_array ENROLL_REQUEST_FIELDS @ enc_uint LUKS_SCHEMA @ enc_text (eq_verifier_name m) @
    enc_text (eq_volume_name m) @ enc_bytes (eq_volume_binding m) @ enc_bytes (eq_disk_key m)"
  by (simp add: encode_enroll_request_def Let_def writer_new_def w_append)

lemma validate_enroll_request_not_canonical [simp]: "validate_enroll_request m \<noteq> Inl NotCanonical"
  by (auto simp: validate_enroll_request_def then_ok_eq_Inl Let_def split: option.splits if_splits)

lemma decode_enroll_request_encode:
  assumes "enroll_request_typed m" and "validate_enroll_request m = Inr ()" and "length (encode_enroll_request m) \<le> MAX_APPLICATION_PAYLOAD_BYTES"
  shows "decode_enroll_request (encode_enroll_request m) = Inr m"
  using assms payload_slice_ok [OF assms(3)]
  by (cases m) (simp add: decode_enroll_request_def Let_def reader_new_at enroll_request_typed_def encode_enroll_request_eq codec luks_open_def luks_finish_def)

lemma decode_enroll_request_sound:
  assumes "decode_enroll_request p = Inr m"
  shows "enroll_request_typed m \<and> validate_enroll_request m = Inr () \<and> encode_enroll_request m = p \<and> length p \<le> MAX_APPLICATION_PAYLOAD_BYTES"
  using assms
  by (auto simp: decode_enroll_request_def Let_def reader_new_at enroll_request_typed_def then_ok_eq_Inr
      then_cbor_eq_Inr luks_open_def luks_finish_def split: if_splits dest!: strict)

lemma decode_enroll_request_not_canonical: "decode_enroll_request p \<noteq> Inl NotCanonical"
  by (auto simp: decode_enroll_request_def Let_def reader_new_at encode_enroll_request_eq then_ok_eq_Inl
      then_cbor_eq_Inl luks_open_def luks_finish_def split: if_splits dest!: strict)

lemma enroll_request_encode_bound:
  assumes "enroll_request_typed m" and "validate_enroll_request m = Inr ()"
  shows "length (encode_enroll_request m) \<le> MAX_APPLICATION_PAYLOAD_BYTES"
  using assms
    length_enc(1) [of "ENROLL_REQUEST_FIELDS"] length_enc(2) [of "LUKS_SCHEMA"]
    length_enc(4) [of "(eq_verifier_name m)"] length_enc(4) [of "(eq_volume_name m)"]
    length_enc(5) [of "(eq_volume_binding m)"] length_enc(5) [of "(eq_disk_key m)"]
  by (auto simp: encode_enroll_request_eq enroll_request_typed_def validate_enroll_request_def then_ok_eq_Inr Let_def payload_consts luks_consts
      split: if_splits dest!: check_text_bound)

interpretation enroll_request_codec:
  bounded_frame_codec encode_enroll_request decode_enroll_request validate_enroll_request enroll_request_typed MAX_APPLICATION_PAYLOAD_BYTES
  by unfold_locales
    (auto dest: decode_enroll_request_sound simp: decode_enroll_request_encode decode_enroll_request_not_canonical
      intro: enroll_request_encode_bound)

record enroll_response =
  er_credential_id :: string
  er_wrapper :: bytes

definition validate_enroll_response :: "enroll_response \<Rightarrow> protocol_error + unit" where
  "validate_enroll_response m =
    then_ok (check_text ''credentialId'' (er_credential_id m) LUKS_MAX_ID_UNITS) (\<lambda>_.
    luks_wrapper (er_wrapper m))"

definition encode_enroll_response :: "enroll_response \<Rightarrow> bytes" where
  "encode_enroll_response m =
    (let w = writer_new;
         w = w_array ENROLL_RESPONSE_FIELDS w;
         w = w_uint LUKS_SCHEMA w;
         w = w_text (er_credential_id m) w;
         w = w_bytes (er_wrapper m) w
     in w)"

definition decode_enroll_response :: "bytes \<Rightarrow> protocol_error + enroll_response" where
  "decode_enroll_response payload =
    then_ok (luks_open payload ENROLL_RESPONSE_FIELDS) (\<lambda>r.
    then_cbor (r_text r) (\<lambda>(credential_id', r).
    then_cbor (r_bytes r) (\<lambda>(wrapper', r).
    let decoded = \<lparr>er_credential_id = credential_id', er_wrapper = wrapper'\<rparr> in
    then_ok (luks_finish r (encode_enroll_response decoded) payload) (\<lambda>_.
    then_ok (validate_enroll_response decoded) (\<lambda>_.
    Inr decoded)))))"

definition enroll_response_typed :: "enroll_response \<Rightarrow> bool" where
  "enroll_response_typed m \<longleftrightarrow>
    is_str (er_credential_id m)"

lemma encode_enroll_response_eq: "encode_enroll_response m =
    enc_array ENROLL_RESPONSE_FIELDS @ enc_uint LUKS_SCHEMA @ enc_text (er_credential_id m) @
    enc_bytes (er_wrapper m)"
  by (simp add: encode_enroll_response_def Let_def writer_new_def w_append)

lemma validate_enroll_response_not_canonical [simp]: "validate_enroll_response m \<noteq> Inl NotCanonical"
  by (auto simp: validate_enroll_response_def then_ok_eq_Inl Let_def split: option.splits if_splits)

lemma decode_enroll_response_encode:
  assumes "enroll_response_typed m" and "validate_enroll_response m = Inr ()" and "length (encode_enroll_response m) \<le> MAX_APPLICATION_PAYLOAD_BYTES"
  shows "decode_enroll_response (encode_enroll_response m) = Inr m"
  using assms payload_slice_ok [OF assms(3)]
  by (cases m) (simp add: decode_enroll_response_def Let_def reader_new_at enroll_response_typed_def encode_enroll_response_eq codec luks_open_def luks_finish_def)

lemma decode_enroll_response_sound:
  assumes "decode_enroll_response p = Inr m"
  shows "enroll_response_typed m \<and> validate_enroll_response m = Inr () \<and> encode_enroll_response m = p \<and> length p \<le> MAX_APPLICATION_PAYLOAD_BYTES"
  using assms
  by (auto simp: decode_enroll_response_def Let_def reader_new_at enroll_response_typed_def then_ok_eq_Inr
      then_cbor_eq_Inr luks_open_def luks_finish_def split: if_splits dest!: strict)

lemma decode_enroll_response_not_canonical: "decode_enroll_response p \<noteq> Inl NotCanonical"
  by (auto simp: decode_enroll_response_def Let_def reader_new_at encode_enroll_response_eq then_ok_eq_Inl
      then_cbor_eq_Inl luks_open_def luks_finish_def split: if_splits dest!: strict)

lemma enroll_response_encode_bound:
  assumes "enroll_response_typed m" and "validate_enroll_response m = Inr ()"
  shows "length (encode_enroll_response m) \<le> MAX_APPLICATION_PAYLOAD_BYTES"
  using assms
    length_enc(1) [of "ENROLL_RESPONSE_FIELDS"] length_enc(2) [of "LUKS_SCHEMA"]
    length_enc(4) [of "(er_credential_id m)"] length_enc(5) [of "(er_wrapper m)"]
  by (auto simp: encode_enroll_response_eq enroll_response_typed_def validate_enroll_response_def then_ok_eq_Inr Let_def payload_consts luks_consts
      split: if_splits dest!: check_text_bound)

interpretation enroll_response_codec:
  bounded_frame_codec encode_enroll_response decode_enroll_response validate_enroll_response enroll_response_typed MAX_APPLICATION_PAYLOAD_BYTES
  by unfold_locales
    (auto dest: decode_enroll_response_sound simp: decode_enroll_response_encode decode_enroll_response_not_canonical
      intro: enroll_response_encode_bound)

record unlock_request =
  lq_verifier_name :: string
  lq_volume_name :: string
  lq_volume_binding :: bytes
  lq_credential_id :: string
  lq_wrapper :: bytes

definition validate_unlock_request :: "unlock_request \<Rightarrow> protocol_error + unit" where
  "validate_unlock_request m =
    then_ok (luks_names (lq_verifier_name m) (lq_volume_name m)) (\<lambda>_.
    then_ok (check_text ''credentialId'' (lq_credential_id m) LUKS_MAX_ID_UNITS) (\<lambda>_.
    luks_wrapper (lq_wrapper m)))"

definition encode_unlock_request :: "unlock_request \<Rightarrow> bytes" where
  "encode_unlock_request m =
    (let w = writer_new;
         w = w_array UNLOCK_REQUEST_FIELDS w;
         w = w_uint LUKS_SCHEMA w;
         w = w_text (lq_verifier_name m) w;
         w = w_text (lq_volume_name m) w;
         w = w_bytes (lq_volume_binding m) w;
         w = w_text (lq_credential_id m) w;
         w = w_bytes (lq_wrapper m) w
     in w)"

definition decode_unlock_request :: "bytes \<Rightarrow> protocol_error + unlock_request" where
  "decode_unlock_request payload =
    then_ok (luks_open payload UNLOCK_REQUEST_FIELDS) (\<lambda>r.
    then_cbor (r_text r) (\<lambda>(verifier_name', r).
    then_cbor (r_text r) (\<lambda>(volume_name', r).
    then_cbor (r_bytes r) (\<lambda>(volume_binding', r).
    then_ok (fixed_bytes VOLUME_BINDING_LEN ''volumeBinding'' volume_binding') (\<lambda>volume_binding'.
    then_cbor (r_text r) (\<lambda>(credential_id', r).
    then_cbor (r_bytes r) (\<lambda>(wrapper', r).
    let decoded = \<lparr>lq_verifier_name = verifier_name', lq_volume_name = volume_name',
          lq_volume_binding = volume_binding', lq_credential_id = credential_id', lq_wrapper =
          wrapper'\<rparr> in
    then_ok (luks_finish r (encode_unlock_request decoded) payload) (\<lambda>_.
    then_ok (validate_unlock_request decoded) (\<lambda>_.
    Inr decoded)))))))))"

definition unlock_request_typed :: "unlock_request \<Rightarrow> bool" where
  "unlock_request_typed m \<longleftrightarrow>
    is_str (lq_verifier_name m) \<and> is_str (lq_volume_name m) \<and> length
    (lq_volume_binding m) = VOLUME_BINDING_LEN \<and> is_str (lq_credential_id m)"

lemma encode_unlock_request_eq: "encode_unlock_request m =
    enc_array UNLOCK_REQUEST_FIELDS @ enc_uint LUKS_SCHEMA @ enc_text (lq_verifier_name m) @
    enc_text (lq_volume_name m) @ enc_bytes (lq_volume_binding m) @
    enc_text (lq_credential_id m) @ enc_bytes (lq_wrapper m)"
  by (simp add: encode_unlock_request_def Let_def writer_new_def w_append)

lemma validate_unlock_request_not_canonical [simp]: "validate_unlock_request m \<noteq> Inl NotCanonical"
  by (auto simp: validate_unlock_request_def then_ok_eq_Inl Let_def split: option.splits if_splits)

lemma decode_unlock_request_encode:
  assumes "unlock_request_typed m" and "validate_unlock_request m = Inr ()" and "length (encode_unlock_request m) \<le> MAX_APPLICATION_PAYLOAD_BYTES"
  shows "decode_unlock_request (encode_unlock_request m) = Inr m"
  using assms payload_slice_ok [OF assms(3)]
  by (cases m) (simp add: decode_unlock_request_def Let_def reader_new_at unlock_request_typed_def encode_unlock_request_eq codec luks_open_def luks_finish_def)

lemma decode_unlock_request_sound:
  assumes "decode_unlock_request p = Inr m"
  shows "unlock_request_typed m \<and> validate_unlock_request m = Inr () \<and> encode_unlock_request m = p \<and> length p \<le> MAX_APPLICATION_PAYLOAD_BYTES"
  using assms
  by (auto simp: decode_unlock_request_def Let_def reader_new_at unlock_request_typed_def then_ok_eq_Inr
      then_cbor_eq_Inr luks_open_def luks_finish_def split: if_splits dest!: strict)

lemma decode_unlock_request_not_canonical: "decode_unlock_request p \<noteq> Inl NotCanonical"
  by (auto simp: decode_unlock_request_def Let_def reader_new_at encode_unlock_request_eq then_ok_eq_Inl
      then_cbor_eq_Inl luks_open_def luks_finish_def split: if_splits dest!: strict)

lemma unlock_request_encode_bound:
  assumes "unlock_request_typed m" and "validate_unlock_request m = Inr ()"
  shows "length (encode_unlock_request m) \<le> MAX_APPLICATION_PAYLOAD_BYTES"
  using assms
    length_enc(1) [of "UNLOCK_REQUEST_FIELDS"] length_enc(2) [of "LUKS_SCHEMA"]
    length_enc(4) [of "(lq_verifier_name m)"] length_enc(4) [of "(lq_volume_name m)"]
    length_enc(5) [of "(lq_volume_binding m)"] length_enc(4) [of "(lq_credential_id m)"]
    length_enc(5) [of "(lq_wrapper m)"]
  by (auto simp: encode_unlock_request_eq unlock_request_typed_def validate_unlock_request_def then_ok_eq_Inr Let_def payload_consts luks_consts
      split: if_splits dest!: check_text_bound)

interpretation unlock_request_codec:
  bounded_frame_codec encode_unlock_request decode_unlock_request validate_unlock_request unlock_request_typed MAX_APPLICATION_PAYLOAD_BYTES
  by unfold_locales
    (auto dest: decode_unlock_request_sound simp: decode_unlock_request_encode decode_unlock_request_not_canonical
      intro: unlock_request_encode_bound)

record unlock_response =
  lr_disk_key :: bytes

definition validate_unlock_response :: "unlock_response \<Rightarrow> protocol_error + unit" where
  "validate_unlock_response m =
    luks_key (lr_disk_key m)"

definition encode_unlock_response :: "unlock_response \<Rightarrow> bytes" where
  "encode_unlock_response m =
    (let w = writer_new;
         w = w_array UNLOCK_RESPONSE_FIELDS w;
         w = w_uint LUKS_SCHEMA w;
         w = w_bytes (lr_disk_key m) w
     in w)"

definition decode_unlock_response :: "bytes \<Rightarrow> protocol_error + unlock_response" where
  "decode_unlock_response payload =
    then_ok (luks_open payload UNLOCK_RESPONSE_FIELDS) (\<lambda>r.
    then_cbor (r_bytes r) (\<lambda>(disk_key', r).
    let decoded = \<lparr>lr_disk_key = disk_key'\<rparr> in
    then_ok (luks_finish r (encode_unlock_response decoded) payload) (\<lambda>_.
    then_ok (validate_unlock_response decoded) (\<lambda>_.
    Inr decoded))))"

definition unlock_response_typed :: "unlock_response \<Rightarrow> bool" where
  "unlock_response_typed m \<longleftrightarrow>
    True"

lemma encode_unlock_response_eq: "encode_unlock_response m =
    enc_array UNLOCK_RESPONSE_FIELDS @ enc_uint LUKS_SCHEMA @ enc_bytes (lr_disk_key m)"
  by (simp add: encode_unlock_response_def Let_def writer_new_def w_append)

lemma validate_unlock_response_not_canonical [simp]: "validate_unlock_response m \<noteq> Inl NotCanonical"
  by (auto simp: validate_unlock_response_def then_ok_eq_Inl Let_def split: option.splits if_splits)

lemma decode_unlock_response_encode:
  assumes "unlock_response_typed m" and "validate_unlock_response m = Inr ()" and "length (encode_unlock_response m) \<le> MAX_APPLICATION_PAYLOAD_BYTES"
  shows "decode_unlock_response (encode_unlock_response m) = Inr m"
  using assms payload_slice_ok [OF assms(3)]
  by (cases m) (simp add: decode_unlock_response_def Let_def reader_new_at unlock_response_typed_def encode_unlock_response_eq codec luks_open_def luks_finish_def)

lemma decode_unlock_response_sound:
  assumes "decode_unlock_response p = Inr m"
  shows "unlock_response_typed m \<and> validate_unlock_response m = Inr () \<and> encode_unlock_response m = p \<and> length p \<le> MAX_APPLICATION_PAYLOAD_BYTES"
  using assms
  by (auto simp: decode_unlock_response_def Let_def reader_new_at unlock_response_typed_def then_ok_eq_Inr
      then_cbor_eq_Inr luks_open_def luks_finish_def split: if_splits dest!: strict)

lemma decode_unlock_response_not_canonical: "decode_unlock_response p \<noteq> Inl NotCanonical"
  by (auto simp: decode_unlock_response_def Let_def reader_new_at encode_unlock_response_eq then_ok_eq_Inl
      then_cbor_eq_Inl luks_open_def luks_finish_def split: if_splits dest!: strict)

lemma unlock_response_encode_bound:
  assumes "unlock_response_typed m" and "validate_unlock_response m = Inr ()"
  shows "length (encode_unlock_response m) \<le> MAX_APPLICATION_PAYLOAD_BYTES"
  using assms
    length_enc(1) [of "UNLOCK_RESPONSE_FIELDS"] length_enc(2) [of "LUKS_SCHEMA"]
    length_enc(5) [of "(lr_disk_key m)"]
  by (auto simp: encode_unlock_response_eq unlock_response_typed_def validate_unlock_response_def then_ok_eq_Inr Let_def payload_consts luks_consts
      split: if_splits dest!: check_text_bound)

interpretation unlock_response_codec:
  bounded_frame_codec encode_unlock_response decode_unlock_response validate_unlock_response unlock_response_typed MAX_APPLICATION_PAYLOAD_BYTES
  by unfold_locales
    (auto dest: decode_unlock_response_sound simp: decode_unlock_response_encode decode_unlock_response_not_canonical
      intro: unlock_response_encode_bound)

record wrapped_volume_key =
  wk_volume_binding :: bytes
  wk_credential_id :: string
  wk_wrapper :: bytes

definition validate_wrapped_key :: "wrapped_volume_key \<Rightarrow> protocol_error + unit" where
  "validate_wrapped_key m =
    then_ok (check_text ''credentialId'' (wk_credential_id m) LUKS_MAX_ID_UNITS) (\<lambda>_.
    luks_wrapper (wk_wrapper m))"

definition encode_wrapped_key :: "wrapped_volume_key \<Rightarrow> bytes" where
  "encode_wrapped_key m =
    (let w = writer_new;
         w = w_array WRAPPED_KEY_FIELDS w;
         w = w_uint LUKS_SCHEMA w;
         w = w_bytes (wk_volume_binding m) w;
         w = w_text (wk_credential_id m) w;
         w = w_bytes (wk_wrapper m) w
     in w)"

definition decode_wrapped_key :: "bytes \<Rightarrow> protocol_error + wrapped_volume_key" where
  "decode_wrapped_key payload =
    then_ok (luks_open payload WRAPPED_KEY_FIELDS) (\<lambda>r.
    then_cbor (r_bytes r) (\<lambda>(volume_binding', r).
    then_ok (fixed_bytes VOLUME_BINDING_LEN ''volumeBinding'' volume_binding') (\<lambda>volume_binding'.
    then_cbor (r_text r) (\<lambda>(credential_id', r).
    then_cbor (r_bytes r) (\<lambda>(wrapper', r).
    let decoded = \<lparr>wk_volume_binding = volume_binding', wk_credential_id = credential_id',
          wk_wrapper = wrapper'\<rparr> in
    then_ok (luks_finish r (encode_wrapped_key decoded) payload) (\<lambda>_.
    then_ok (validate_wrapped_key decoded) (\<lambda>_.
    Inr decoded)))))))"

definition wrapped_key_typed :: "wrapped_volume_key \<Rightarrow> bool" where
  "wrapped_key_typed m \<longleftrightarrow>
    length (wk_volume_binding m) = VOLUME_BINDING_LEN \<and> is_str (wk_credential_id m)"

lemma encode_wrapped_key_eq: "encode_wrapped_key m =
    enc_array WRAPPED_KEY_FIELDS @ enc_uint LUKS_SCHEMA @ enc_bytes (wk_volume_binding m) @
    enc_text (wk_credential_id m) @ enc_bytes (wk_wrapper m)"
  by (simp add: encode_wrapped_key_def Let_def writer_new_def w_append)

lemma validate_wrapped_key_not_canonical [simp]: "validate_wrapped_key m \<noteq> Inl NotCanonical"
  by (auto simp: validate_wrapped_key_def then_ok_eq_Inl Let_def split: option.splits if_splits)

lemma decode_wrapped_key_encode:
  assumes "wrapped_key_typed m" and "validate_wrapped_key m = Inr ()" and "length (encode_wrapped_key m) \<le> MAX_APPLICATION_PAYLOAD_BYTES"
  shows "decode_wrapped_key (encode_wrapped_key m) = Inr m"
  using assms payload_slice_ok [OF assms(3)]
  by (cases m) (simp add: decode_wrapped_key_def Let_def reader_new_at wrapped_key_typed_def encode_wrapped_key_eq codec luks_open_def luks_finish_def)

lemma decode_wrapped_key_sound:
  assumes "decode_wrapped_key p = Inr m"
  shows "wrapped_key_typed m \<and> validate_wrapped_key m = Inr () \<and> encode_wrapped_key m = p \<and> length p \<le> MAX_APPLICATION_PAYLOAD_BYTES"
  using assms
  by (auto simp: decode_wrapped_key_def Let_def reader_new_at wrapped_key_typed_def then_ok_eq_Inr
      then_cbor_eq_Inr luks_open_def luks_finish_def split: if_splits dest!: strict)

lemma decode_wrapped_key_not_canonical: "decode_wrapped_key p \<noteq> Inl NotCanonical"
  by (auto simp: decode_wrapped_key_def Let_def reader_new_at encode_wrapped_key_eq then_ok_eq_Inl
      then_cbor_eq_Inl luks_open_def luks_finish_def split: if_splits dest!: strict)

lemma wrapped_key_encode_bound:
  assumes "wrapped_key_typed m" and "validate_wrapped_key m = Inr ()"
  shows "length (encode_wrapped_key m) \<le> MAX_APPLICATION_PAYLOAD_BYTES"
  using assms
    length_enc(1) [of "WRAPPED_KEY_FIELDS"] length_enc(2) [of "LUKS_SCHEMA"]
    length_enc(5) [of "(wk_volume_binding m)"] length_enc(4) [of "(wk_credential_id m)"]
    length_enc(5) [of "(wk_wrapper m)"]
  by (auto simp: encode_wrapped_key_eq wrapped_key_typed_def validate_wrapped_key_def then_ok_eq_Inr Let_def payload_consts luks_consts
      split: if_splits dest!: check_text_bound)

interpretation wrapped_key_codec:
  bounded_frame_codec encode_wrapped_key decode_wrapped_key validate_wrapped_key wrapped_key_typed MAX_APPLICATION_PAYLOAD_BYTES
  by unfold_locales
    (auto dest: decode_wrapped_key_sound simp: decode_wrapped_key_encode decode_wrapped_key_not_canonical
      intro: wrapped_key_encode_bound)

end
