(* ===== verification/Vault_Payloads.thy ===== *)
theory Vault_Payloads
  imports Protocol_Base
begin

text \<open>
  Payloads of the personal vault: \<open>phone-auth-protocol/src/vault.rs\<close>. Wiping on drop has
  no observable value and is not modelled.
\<close>

definition OPERATION_LIST :: string where "OPERATION_LIST = ''vault.list''"
definition OPERATION_FETCH :: string where "OPERATION_FETCH = ''vault.fetch''"
definition VAULT_OPERATION_CREATE :: string where "VAULT_OPERATION_CREATE = ''vault.create''"
definition OPERATION_UPDATE :: string where "OPERATION_UPDATE = ''vault.update''"
definition OPERATION_DELETE :: string where "OPERATION_DELETE = ''vault.delete''"
definition VAULT_SCHEMA :: u64 where "VAULT_SCHEMA = 1"
definition SUMMARY_FIELDS :: u64 where "SUMMARY_FIELDS = 7"
definition LIST_REQUEST_FIELDS :: u64 where "LIST_REQUEST_FIELDS = 3"
definition LIST_RESPONSE_FIELDS :: u64 where "LIST_RESPONSE_FIELDS = 3"
definition FETCH_REQUEST_FIELDS :: u64 where "FETCH_REQUEST_FIELDS = 3"
definition FETCH_RESPONSE_FIELDS :: u64 where "FETCH_RESPONSE_FIELDS = 4"
definition CREATE_REQUEST_FIELDS :: u64 where "CREATE_REQUEST_FIELDS = 7"
definition UPDATE_REQUEST_FIELDS :: u64 where "UPDATE_REQUEST_FIELDS = 9"
definition DELETE_REQUEST_FIELDS :: u64 where "DELETE_REQUEST_FIELDS = 4"
definition WRITE_RESPONSE_FIELDS :: u64 where "WRITE_RESPONSE_FIELDS = 3"
definition DELETE_RESPONSE_FIELDS :: u64 where "DELETE_RESPONSE_FIELDS = 2"
definition MAX_PAGE_ITEMS :: nat where "MAX_PAGE_ITEMS = 32"
definition VAULT_MAX_ID_UNITS :: nat where "VAULT_MAX_ID_UNITS = 64"
definition VAULT_MAX_NAME_UNITS :: nat where "VAULT_MAX_NAME_UNITS = 255"
definition MAX_USERNAME_UNITS :: nat where "MAX_USERNAME_UNITS = 255"
definition MAX_URI_UNITS :: nat where "MAX_URI_UNITS = 1024"
definition MAX_CURSOR_UNITS :: nat where "MAX_CURSOR_UNITS = 128"
definition MAX_SECRET_UNITS :: nat where "MAX_SECRET_UNITS = 4096"

lemmas vault_consts =
  MAX_PAGE_ITEMS_def VAULT_MAX_ID_UNITS_def VAULT_MAX_NAME_UNITS_def MAX_USERNAME_UNITS_def MAX_URI_UNITS_def MAX_CURSOR_UNITS_def MAX_SECRET_UNITS_def

subsection \<open>Checks\<close>

definition check_optional_text :: "string \<Rightarrow> string \<Rightarrow> nat \<Rightarrow> protocol_error + unit" where
  "check_optional_text field value max_len =
    (let actual = utf16_len value in
     if actual > max_len then Inl (FieldTooLong field max_len actual) else Inr ())"

definition check_secret :: "string \<Rightarrow> protocol_error + unit" where
  "check_secret value =
    (if value = [] then Inl (FieldEmpty ''secret'')
     else let actual = utf16_len value in
       if actual > MAX_SECRET_UNITS then Inl (FieldTooLong ''secret'' MAX_SECRET_UNITS actual)
       else Inr ())"

definition check_revision :: "u64 \<Rightarrow> protocol_error + unit" where
  "check_revision revision = (if revision = 0 then Inl InvalidRevision else Inr ())"

definition vault_open :: "bytes \<Rightarrow> u64 \<Rightarrow> protocol_error + reader" where
  "vault_open payload count = open_payload VAULT_SCHEMA payload count"

definition vault_finish :: "reader \<Rightarrow> bytes \<Rightarrow> bytes \<Rightarrow> protocol_error + unit" where
  "vault_finish r reencoded payload = finish_payload r reencoded payload"

lemma vault_checks [simp]:
  "check_optional_text f v n = Inr u \<longleftrightarrow> utf16_len v \<le> n"
  "check_revision k = Inr u \<longleftrightarrow> k \<noteq> 0"
  "check_secret v = Inr u \<longleftrightarrow> v \<noteq> [] \<and> utf16_len v \<le> MAX_SECRET_UNITS"
  "check_optional_text f v n \<noteq> Inl NotCanonical"
  "check_revision k \<noteq> Inl NotCanonical"
  "check_secret v \<noteq> Inl NotCanonical"
  by (auto simp: check_optional_text_def check_revision_def check_secret_def Let_def)

subsection \<open>Item summaries\<close>

datatype item_kind = Login | Note | Totp

fun item_kind_wire :: "item_kind \<Rightarrow> u64" where
  "item_kind_wire Login = 0"
| "item_kind_wire Note = 1"
| "item_kind_wire Totp = 2"

definition item_kind_from_wire :: "u64 \<Rightarrow> protocol_error + item_kind" where
  "item_kind_from_wire value =
    (if value = 0 then Inr Login
     else if value = 1 then Inr Note
     else if value = 2 then Inr Totp
     else Inl (InvalidItemKind value))"

lemma item_kind_strict [strict]: "item_kind_from_wire v = Inr k \<Longrightarrow> v = item_kind_wire k"
  by (auto simp: item_kind_from_wire_def split: if_splits)

lemma item_kind_at [codec]: "item_kind_from_wire (item_kind_wire k) = Inr k"
  by (cases k) (simp_all add: item_kind_from_wire_def)

lemma item_kind_not_canonical [simp]: "item_kind_from_wire v \<noteq> Inl NotCanonical"
  by (simp add: item_kind_from_wire_def)

record item_summary =
  su_id :: string
  su_revision :: u64
  su_kind :: item_kind
  su_name :: string
  su_username :: string
  su_uri :: string
  su_updated_at_ms :: int

definition validate_summary :: "item_summary \<Rightarrow> protocol_error + unit" where
  "validate_summary m =
    then_ok (check_text ''itemId'' (su_id m) VAULT_MAX_ID_UNITS) (\<lambda>_.
    then_ok (check_text ''name'' (su_name m) VAULT_MAX_NAME_UNITS) (\<lambda>_.
    then_ok (check_optional_text ''username'' (su_username m) MAX_USERNAME_UNITS) (\<lambda>_.
    then_ok (check_optional_text ''uri'' (su_uri m) MAX_URI_UNITS) (\<lambda>_.
    check_revision (su_revision m)))))"

definition write_summary :: "item_summary \<Rightarrow> writer \<Rightarrow> writer" where
  "write_summary m w =
    (let w = w_array SUMMARY_FIELDS w;
         w = w_text (su_id m) w;
         w = w_uint (su_revision m) w;
         w = w_uint (item_kind_wire (su_kind m)) w;
         w = w_text (su_name m) w;
         w = w_text (su_username m) w;
         w = w_text (su_uri m) w;
         w = w_int (su_updated_at_ms m) w
     in w)"

definition read_summary :: "reader \<Rightarrow> protocol_error + (item_summary \<times> reader)" where
  "read_summary r =
    then_cbor (r_array r) (\<lambda>(len, r).
    if len \<noteq> SUMMARY_FIELDS then Inl (FrameShape SUMMARY_FIELDS len) else
    then_cbor (r_text r) (\<lambda>(id', r).
    then_cbor (r_uint r) (\<lambda>(revision', r).
    then_cbor (r_uint r) (\<lambda>(kind', r).
    then_ok (item_kind_from_wire kind') (\<lambda>kind'.
    then_cbor (r_text r) (\<lambda>(name', r).
    then_cbor (r_text r) (\<lambda>(username', r).
    then_cbor (r_text r) (\<lambda>(uri', r).
    then_cbor (r_int r) (\<lambda>(updated_at_ms', r).
    Inr (\<lparr>su_id = id', su_revision = revision', su_kind = kind', su_name = name',
          su_username = username', su_uri = uri', su_updated_at_ms = updated_at_ms'\<rparr>, r))))))))))"

definition summary_typed :: "item_summary \<Rightarrow> bool" where
  "summary_typed m \<longleftrightarrow>
    is_str (su_id m) \<and> is_str (su_name m) \<and> is_str (su_username m) \<and> is_str (su_uri m)
    \<and> is_i64 (su_updated_at_ms m)"

definition enc_summary :: "item_summary \<Rightarrow> bytes" where
  "enc_summary m = enc_array SUMMARY_FIELDS @ enc_text (su_id m) @ enc_uint (su_revision m)
    @ enc_uint (item_kind_wire (su_kind m)) @ enc_text (su_name m) @ enc_text (su_username m)
    @ enc_text (su_uri m) @ enc_int (su_updated_at_ms m)"

interpretation summary_item: wire_item write_summary enc_summary read_summary summary_typed
proof unfold_locales
  fix a w
  show "write_summary a w = w @ enc_summary a"
    by (simp add: write_summary_def enc_summary_def Let_def w_append)
next
  fix a pre rest
  assume "summary_typed a" and "slice_ok (pre @ enc_summary a @ rest)"
  then show "read_summary (reader_at pre (enc_summary a @ rest)) = Inr (a, reader_at (pre @ enc_summary a) rest)"
    by (cases a) (simp add: read_summary_def enc_summary_def summary_typed_def codec)
next
  fix pre bs a r
  assume "read_summary (reader_at pre bs) = Inr (a, r)"
  then show "summary_typed a \<and> (\<exists>rest. bs = enc_summary a @ rest \<and> r = reader_at (pre @ enc_summary a) rest)"
    by (auto simp: read_summary_def enc_summary_def summary_typed_def then_cbor_eq_Inr then_ok_eq_Inr
        split: if_splits dest!: strict)
qed

lemma summary_not_canonical [simp]:
  "read_summary r \<noteq> Inl NotCanonical"
  "validate_summary m \<noteq> Inl NotCanonical"
  by (auto simp: read_summary_def validate_summary_def then_cbor_eq_Inl then_ok_eq_Inl split: if_splits)

definition write_items :: "item_summary list \<Rightarrow> writer \<Rightarrow> writer" where
  "write_items items w = write_many write_summary items (w_array (word_of_nat (length items)) w)"

definition read_items :: "reader \<Rightarrow> protocol_error + (item_summary list \<times> reader)" where
  "read_items r =
    then_cbor (r_array r) (\<lambda>(count, r).
    if count > word_of_nat MAX_PAGE_ITEMS then Inl (PayloadSize (unat count))
    else read_many read_summary (unat count) r)"

definition enc_items :: "item_summary list \<Rightarrow> bytes" where
  "enc_items ps = enc_array (word_of_nat (length ps)) @ concat (map enc_summary ps)"

definition items_typed :: "item_summary list \<Rightarrow> bool" where
  "items_typed ps \<longleftrightarrow> (\<forall>p \<in> set ps. summary_typed p) \<and> length ps \<le> MAX_PAGE_ITEMS"

lemma write_items_append: "write_items ps w = w @ enc_items ps"
  by (simp add: write_items_def enc_items_def summary_item.write_many_append w_append)

lemma read_items_at [codec]:
  assumes "items_typed ps"
  shows "slice_ok (pre @ enc_items ps @ rest) \<Longrightarrow>
      read_items (reader_at pre (enc_items ps @ rest)) = Inr (ps, reader_at (pre @ enc_items ps) rest)"
    and "slice_ok (pre @ enc_items ps) \<Longrightarrow>
      read_items (reader_at pre (enc_items ps)) = Inr (ps, reader_at (pre @ enc_items ps) [])"
proof -
  have n: "unat (word_of_nat (length ps) :: u64) = length ps"
    using assms by (simp add: items_typed_def MAX_PAGE_ITEMS_def unsigned_of_nat take_bit_nat_eq_self)
  then have le: "\<not> word_of_nat MAX_PAGE_ITEMS < (word_of_nat (length ps) :: u64)"
    using assms by (simp add: items_typed_def MAX_PAGE_ITEMS_def word_less_nat_alt)
  have at: "read_items (reader_at pre (enc_items ps @ rest)) = Inr (ps, reader_at (pre @ enc_items ps) rest)"
    if "slice_ok (pre @ enc_items ps @ rest)" for rest
    using that assms summary_item.read_many_at
      [of ps "pre @ enc_array (word_of_nat (length ps))" rest]
    by (simp add: read_items_def enc_items_def items_typed_def codec n le)
  then show "slice_ok (pre @ enc_items ps @ rest) \<Longrightarrow>
      read_items (reader_at pre (enc_items ps @ rest)) = Inr (ps, reader_at (pre @ enc_items ps) rest)" .
  show "slice_ok (pre @ enc_items ps) \<Longrightarrow>
      read_items (reader_at pre (enc_items ps)) = Inr (ps, reader_at (pre @ enc_items ps) [])"
    using at [of "[]"] by simp
qed

lemma read_items_strict [strict]:
  assumes "read_items (reader_at pre bs) = Inr (ps, r)"
  shows "items_typed ps \<and> (\<exists>rest. bs = enc_items ps @ rest \<and> r = reader_at (pre @ enc_items ps) rest)"
proof -
  from assms obtain n rest where bs: "bs = enc_array n @ rest" and n: "n \<le> word_of_nat MAX_PAGE_ITEMS"
    and m: "read_many read_summary (unat n) (reader_at (pre @ enc_array n) rest) = Inr (ps, r)"
    by (auto simp: read_items_def then_cbor_eq_Inr not_less split: if_splits dest!: r_strict)
  have "unat n \<le> MAX_PAGE_ITEMS"
    using n by (simp add: word_le_nat_alt MAX_PAGE_ITEMS_def)
  with summary_item.read_many_strict [OF m] bs show ?thesis
    by (auto simp: enc_items_def items_typed_def)
qed

lemma read_items_not_canonical [simp]: "read_items r \<noteq> Inl NotCanonical"
  by (auto simp: read_items_def then_cbor_eq_Inl read_many_not_canonical split: if_splits)

subsection \<open>\<open>vault.list\<close>\<close>

record list_request =
  vl_verifier_name :: string
  vl_cursor :: string

definition validate_list_request :: "list_request \<Rightarrow> protocol_error + unit" where
  "validate_list_request m =
    then_ok (check_text ''verifierName'' (vl_verifier_name m) VAULT_MAX_NAME_UNITS) (\<lambda>_.
    check_optional_text ''cursor'' (vl_cursor m) MAX_CURSOR_UNITS)"

definition encode_list_request :: "list_request \<Rightarrow> bytes" where
  "encode_list_request m =
    (let w = writer_new;
         w = w_array LIST_REQUEST_FIELDS w;
         w = w_uint VAULT_SCHEMA w;
         w = w_text (vl_verifier_name m) w;
         w = w_text (vl_cursor m) w
     in w)"

definition decode_list_request :: "bytes \<Rightarrow> protocol_error + list_request" where
  "decode_list_request payload =
    then_ok (vault_open payload LIST_REQUEST_FIELDS) (\<lambda>r.
    then_cbor (r_text r) (\<lambda>(verifier_name', r).
    then_cbor (r_text r) (\<lambda>(cursor', r).
    let decoded = \<lparr>vl_verifier_name = verifier_name', vl_cursor = cursor'\<rparr> in
    then_ok (vault_finish r (encode_list_request decoded) payload) (\<lambda>_.
    then_ok (validate_list_request decoded) (\<lambda>_.
    Inr decoded)))))"

definition list_request_typed :: "list_request \<Rightarrow> bool" where
  "list_request_typed m \<longleftrightarrow>
    is_str (vl_verifier_name m) \<and> is_str (vl_cursor m)"

lemma encode_list_request_eq: "encode_list_request m =
    enc_array LIST_REQUEST_FIELDS @ enc_uint VAULT_SCHEMA @ enc_text (vl_verifier_name m) @
    enc_text (vl_cursor m)"
  by (simp add: encode_list_request_def Let_def writer_new_def w_append)

lemma validate_list_request_not_canonical [simp]: "validate_list_request m \<noteq> Inl NotCanonical"
  by (auto simp: validate_list_request_def then_ok_eq_Inl Let_def split: option.splits if_splits)

lemma decode_list_request_encode:
  assumes "list_request_typed m" and "validate_list_request m = Inr ()" and "length (encode_list_request m) \<le> MAX_APPLICATION_PAYLOAD_BYTES"
  shows "decode_list_request (encode_list_request m) = Inr m"
  using assms payload_slice_ok [OF assms(3)]
  by (cases m) (simp add: decode_list_request_def Let_def reader_new_at list_request_typed_def encode_list_request_eq codec vault_open_def vault_finish_def)

lemma decode_list_request_sound:
  assumes "decode_list_request p = Inr m"
  shows "list_request_typed m \<and> validate_list_request m = Inr () \<and> encode_list_request m = p \<and> length p \<le> MAX_APPLICATION_PAYLOAD_BYTES"
  using assms
  by (auto simp: decode_list_request_def Let_def reader_new_at list_request_typed_def then_ok_eq_Inr
      then_cbor_eq_Inr vault_open_def vault_finish_def split: if_splits dest!: strict)

lemma decode_list_request_not_canonical: "decode_list_request p \<noteq> Inl NotCanonical"
  by (auto simp: decode_list_request_def Let_def reader_new_at encode_list_request_eq then_ok_eq_Inl
      then_cbor_eq_Inl vault_open_def vault_finish_def split: if_splits dest!: strict)

lemma list_request_encode_bound:
  assumes "list_request_typed m" and "validate_list_request m = Inr ()"
  shows "length (encode_list_request m) \<le> MAX_APPLICATION_PAYLOAD_BYTES"
  using assms
    length_enc(1) [of "LIST_REQUEST_FIELDS"] length_enc(2) [of "VAULT_SCHEMA"]
    length_enc(4) [of "(vl_verifier_name m)"] length_enc(4) [of "(vl_cursor m)"]
  by (auto simp: encode_list_request_eq list_request_typed_def validate_list_request_def then_ok_eq_Inr Let_def payload_consts vault_consts
      split: if_splits dest!: check_text_bound utf16_len_le)

interpretation list_request_codec:
  bounded_frame_codec encode_list_request decode_list_request validate_list_request list_request_typed MAX_APPLICATION_PAYLOAD_BYTES
  by unfold_locales
    (auto dest: decode_list_request_sound simp: decode_list_request_encode decode_list_request_not_canonical
      intro: list_request_encode_bound)

record list_response =
  vp_items :: "item_summary list"
  vp_next_cursor :: string

definition encode_list_response :: "list_response \<Rightarrow> bytes" where
  "encode_list_response m =
    (let w = writer_new;
         w = w_array LIST_RESPONSE_FIELDS w;
         w = w_uint VAULT_SCHEMA w;
         w = write_items (vp_items m) w;
         w = w_text (vp_next_cursor m) w
     in w)"

definition validate_list_response :: "list_response \<Rightarrow> protocol_error + unit" where
  "validate_list_response m =
    (if length (vp_items m) > MAX_PAGE_ITEMS then Inl (PayloadSize (length (vp_items m))) else
     then_ok (for_each_ok validate_summary (vp_items m)) (\<lambda>_.
     then_ok (check_optional_text ''nextCursor'' (vp_next_cursor m) MAX_CURSOR_UNITS) (\<lambda>_.
     let encoded = length (encode_list_response m) in
     if encoded > MAX_APPLICATION_PAYLOAD_BYTES then Inl (PayloadSize encoded) else Inr ())))"

definition decode_list_response :: "bytes \<Rightarrow> protocol_error + list_response" where
  "decode_list_response payload =
    then_ok (vault_open payload LIST_RESPONSE_FIELDS) (\<lambda>r.
    then_ok (read_items r) (\<lambda>(items', r).
    then_cbor (r_text r) (\<lambda>(next_cursor', r).
    let decoded = \<lparr>vp_items = items', vp_next_cursor = next_cursor'\<rparr> in
    then_ok (vault_finish r (encode_list_response decoded) payload) (\<lambda>_.
    then_ok (validate_list_response decoded) (\<lambda>_.
    Inr decoded)))))"

definition list_response_typed :: "list_response \<Rightarrow> bool" where
  "list_response_typed m \<longleftrightarrow>
    items_typed (vp_items m) \<and> is_str (vp_next_cursor m)"

lemma encode_list_response_eq: "encode_list_response m =
    enc_array LIST_RESPONSE_FIELDS @ enc_uint VAULT_SCHEMA @ enc_items (vp_items m) @
    enc_text (vp_next_cursor m)"
  by (simp add: encode_list_response_def Let_def writer_new_def w_append write_items_append)

lemma validate_list_response_not_canonical [simp]: "validate_list_response m \<noteq> Inl NotCanonical"
  by (auto simp: validate_list_response_def then_ok_eq_Inl Let_def for_each_ok_not split: option.splits if_splits)

lemma decode_list_response_encode:
  assumes "list_response_typed m" and "validate_list_response m = Inr ()" and "length (encode_list_response m) \<le> MAX_APPLICATION_PAYLOAD_BYTES"
  shows "decode_list_response (encode_list_response m) = Inr m"
  using assms payload_slice_ok [OF assms(3)]
  by (cases m) (simp add: decode_list_response_def Let_def reader_new_at list_response_typed_def encode_list_response_eq codec vault_open_def vault_finish_def)

lemma decode_list_response_sound:
  assumes "decode_list_response p = Inr m"
  shows "list_response_typed m \<and> validate_list_response m = Inr () \<and> encode_list_response m = p \<and> length p \<le> MAX_APPLICATION_PAYLOAD_BYTES"
  using assms
  by (auto simp: decode_list_response_def Let_def reader_new_at list_response_typed_def then_ok_eq_Inr
      then_cbor_eq_Inr vault_open_def vault_finish_def split: if_splits dest!: strict)

lemma decode_list_response_not_canonical: "decode_list_response p \<noteq> Inl NotCanonical"
  by (auto simp: decode_list_response_def Let_def reader_new_at encode_list_response_eq then_ok_eq_Inl
      then_cbor_eq_Inl vault_open_def vault_finish_def split: if_splits dest!: strict)

lemma list_response_encode_bound:
  assumes "list_response_typed m" and "validate_list_response m = Inr ()"
  shows "length (encode_list_response m) \<le> MAX_APPLICATION_PAYLOAD_BYTES"
  using assms
    length_enc(1) [of "LIST_RESPONSE_FIELDS"] length_enc(2) [of "VAULT_SCHEMA"]
    length_enc(4) [of "(vp_next_cursor m)"]
  by (auto simp: encode_list_response_eq list_response_typed_def validate_list_response_def then_ok_eq_Inr Let_def payload_consts 
      split: if_splits dest!: check_text_bound)

interpretation list_response_codec:
  bounded_frame_codec encode_list_response decode_list_response validate_list_response list_response_typed MAX_APPLICATION_PAYLOAD_BYTES
  by unfold_locales
    (auto dest: decode_list_response_sound simp: decode_list_response_encode decode_list_response_not_canonical
      intro: list_response_encode_bound)

subsection \<open>\<open>vault.fetch\<close>\<close>

record fetch_request =
  vf_verifier_name :: string
  vf_item_id :: string

definition validate_fetch_request :: "fetch_request \<Rightarrow> protocol_error + unit" where
  "validate_fetch_request m =
    then_ok (check_text ''verifierName'' (vf_verifier_name m) VAULT_MAX_NAME_UNITS) (\<lambda>_.
    check_text ''itemId'' (vf_item_id m) VAULT_MAX_ID_UNITS)"

definition encode_fetch_request :: "fetch_request \<Rightarrow> bytes" where
  "encode_fetch_request m =
    (let w = writer_new;
         w = w_array FETCH_REQUEST_FIELDS w;
         w = w_uint VAULT_SCHEMA w;
         w = w_text (vf_verifier_name m) w;
         w = w_text (vf_item_id m) w
     in w)"

definition decode_fetch_request :: "bytes \<Rightarrow> protocol_error + fetch_request" where
  "decode_fetch_request payload =
    then_ok (vault_open payload FETCH_REQUEST_FIELDS) (\<lambda>r.
    then_cbor (r_text r) (\<lambda>(verifier_name', r).
    then_cbor (r_text r) (\<lambda>(item_id', r).
    let decoded = \<lparr>vf_verifier_name = verifier_name', vf_item_id = item_id'\<rparr> in
    then_ok (vault_finish r (encode_fetch_request decoded) payload) (\<lambda>_.
    then_ok (validate_fetch_request decoded) (\<lambda>_.
    Inr decoded)))))"

definition fetch_request_typed :: "fetch_request \<Rightarrow> bool" where
  "fetch_request_typed m \<longleftrightarrow>
    is_str (vf_verifier_name m) \<and> is_str (vf_item_id m)"

lemma encode_fetch_request_eq: "encode_fetch_request m =
    enc_array FETCH_REQUEST_FIELDS @ enc_uint VAULT_SCHEMA @ enc_text (vf_verifier_name m) @
    enc_text (vf_item_id m)"
  by (simp add: encode_fetch_request_def Let_def writer_new_def w_append)

lemma validate_fetch_request_not_canonical [simp]: "validate_fetch_request m \<noteq> Inl NotCanonical"
  by (auto simp: validate_fetch_request_def then_ok_eq_Inl Let_def split: option.splits if_splits)

lemma decode_fetch_request_encode:
  assumes "fetch_request_typed m" and "validate_fetch_request m = Inr ()" and "length (encode_fetch_request m) \<le> MAX_APPLICATION_PAYLOAD_BYTES"
  shows "decode_fetch_request (encode_fetch_request m) = Inr m"
  using assms payload_slice_ok [OF assms(3)]
  by (cases m) (simp add: decode_fetch_request_def Let_def reader_new_at fetch_request_typed_def encode_fetch_request_eq codec vault_open_def vault_finish_def)

lemma decode_fetch_request_sound:
  assumes "decode_fetch_request p = Inr m"
  shows "fetch_request_typed m \<and> validate_fetch_request m = Inr () \<and> encode_fetch_request m = p \<and> length p \<le> MAX_APPLICATION_PAYLOAD_BYTES"
  using assms
  by (auto simp: decode_fetch_request_def Let_def reader_new_at fetch_request_typed_def then_ok_eq_Inr
      then_cbor_eq_Inr vault_open_def vault_finish_def split: if_splits dest!: strict)

lemma decode_fetch_request_not_canonical: "decode_fetch_request p \<noteq> Inl NotCanonical"
  by (auto simp: decode_fetch_request_def Let_def reader_new_at encode_fetch_request_eq then_ok_eq_Inl
      then_cbor_eq_Inl vault_open_def vault_finish_def split: if_splits dest!: strict)

lemma fetch_request_encode_bound:
  assumes "fetch_request_typed m" and "validate_fetch_request m = Inr ()"
  shows "length (encode_fetch_request m) \<le> MAX_APPLICATION_PAYLOAD_BYTES"
  using assms
    length_enc(1) [of "FETCH_REQUEST_FIELDS"] length_enc(2) [of "VAULT_SCHEMA"]
    length_enc(4) [of "(vf_verifier_name m)"] length_enc(4) [of "(vf_item_id m)"]
  by (auto simp: encode_fetch_request_eq fetch_request_typed_def validate_fetch_request_def then_ok_eq_Inr Let_def payload_consts vault_consts
      split: if_splits dest!: check_text_bound)

interpretation fetch_request_codec:
  bounded_frame_codec encode_fetch_request decode_fetch_request validate_fetch_request fetch_request_typed MAX_APPLICATION_PAYLOAD_BYTES
  by unfold_locales
    (auto dest: decode_fetch_request_sound simp: decode_fetch_request_encode decode_fetch_request_not_canonical
      intro: fetch_request_encode_bound)

record fetch_response =
  vs_item_id :: string
  vs_revision :: u64
  vs_secret :: string

definition validate_fetch_response :: "fetch_response \<Rightarrow> protocol_error + unit" where
  "validate_fetch_response m =
    then_ok (check_text ''itemId'' (vs_item_id m) VAULT_MAX_ID_UNITS) (\<lambda>_.
    then_ok (check_revision (vs_revision m)) (\<lambda>_.
    check_secret (vs_secret m)))"

definition encode_fetch_response :: "fetch_response \<Rightarrow> bytes" where
  "encode_fetch_response m =
    (let w = writer_new;
         w = w_array FETCH_RESPONSE_FIELDS w;
         w = w_uint VAULT_SCHEMA w;
         w = w_text (vs_item_id m) w;
         w = w_uint (vs_revision m) w;
         w = w_text (vs_secret m) w
     in w)"

definition decode_fetch_response :: "bytes \<Rightarrow> protocol_error + fetch_response" where
  "decode_fetch_response payload =
    then_ok (vault_open payload FETCH_RESPONSE_FIELDS) (\<lambda>r.
    then_cbor (r_text r) (\<lambda>(item_id', r).
    then_cbor (r_uint r) (\<lambda>(revision', r).
    then_cbor (r_text r) (\<lambda>(secret', r).
    let decoded = \<lparr>vs_item_id = item_id', vs_revision = revision', vs_secret = secret'\<rparr> in
    then_ok (vault_finish r (encode_fetch_response decoded) payload) (\<lambda>_.
    then_ok (validate_fetch_response decoded) (\<lambda>_.
    Inr decoded))))))"

definition fetch_response_typed :: "fetch_response \<Rightarrow> bool" where
  "fetch_response_typed m \<longleftrightarrow>
    is_str (vs_item_id m) \<and> is_str (vs_secret m)"

lemma encode_fetch_response_eq: "encode_fetch_response m =
    enc_array FETCH_RESPONSE_FIELDS @ enc_uint VAULT_SCHEMA @ enc_text (vs_item_id m) @
    enc_uint (vs_revision m) @ enc_text (vs_secret m)"
  by (simp add: encode_fetch_response_def Let_def writer_new_def w_append)

lemma validate_fetch_response_not_canonical [simp]: "validate_fetch_response m \<noteq> Inl NotCanonical"
  by (auto simp: validate_fetch_response_def then_ok_eq_Inl Let_def split: option.splits if_splits)

lemma decode_fetch_response_encode:
  assumes "fetch_response_typed m" and "validate_fetch_response m = Inr ()" and "length (encode_fetch_response m) \<le> MAX_APPLICATION_PAYLOAD_BYTES"
  shows "decode_fetch_response (encode_fetch_response m) = Inr m"
  using assms payload_slice_ok [OF assms(3)]
  by (cases m) (simp add: decode_fetch_response_def Let_def reader_new_at fetch_response_typed_def encode_fetch_response_eq codec vault_open_def vault_finish_def)

lemma decode_fetch_response_sound:
  assumes "decode_fetch_response p = Inr m"
  shows "fetch_response_typed m \<and> validate_fetch_response m = Inr () \<and> encode_fetch_response m = p \<and> length p \<le> MAX_APPLICATION_PAYLOAD_BYTES"
  using assms
  by (auto simp: decode_fetch_response_def Let_def reader_new_at fetch_response_typed_def then_ok_eq_Inr
      then_cbor_eq_Inr vault_open_def vault_finish_def split: if_splits dest!: strict)

lemma decode_fetch_response_not_canonical: "decode_fetch_response p \<noteq> Inl NotCanonical"
  by (auto simp: decode_fetch_response_def Let_def reader_new_at encode_fetch_response_eq then_ok_eq_Inl
      then_cbor_eq_Inl vault_open_def vault_finish_def split: if_splits dest!: strict)

interpretation fetch_response_codec:
  frame_codec encode_fetch_response decode_fetch_response validate_fetch_response fetch_response_typed MAX_APPLICATION_PAYLOAD_BYTES
  by unfold_locales
    (auto dest: decode_fetch_response_sound simp: decode_fetch_response_encode decode_fetch_response_not_canonical)

subsection \<open>\<open>vault.create\<close> and \<open>vault.update\<close>\<close>

record create_request =
  vc_verifier_name :: string
  vc_kind :: item_kind
  vc_name :: string
  vc_username :: string
  vc_uri :: string
  vc_secret :: string

definition validate_create_request :: "create_request \<Rightarrow> protocol_error + unit" where
  "validate_create_request m =
    then_ok (check_text ''verifierName'' (vc_verifier_name m) VAULT_MAX_NAME_UNITS) (\<lambda>_.
    then_ok (check_text ''name'' (vc_name m) VAULT_MAX_NAME_UNITS) (\<lambda>_.
    then_ok (check_optional_text ''username'' (vc_username m) MAX_USERNAME_UNITS) (\<lambda>_.
    then_ok (check_optional_text ''uri'' (vc_uri m) MAX_URI_UNITS) (\<lambda>_.
    check_secret (vc_secret m)))))"

definition encode_create_request :: "create_request \<Rightarrow> bytes" where
  "encode_create_request m =
    (let w = writer_new;
         w = w_array CREATE_REQUEST_FIELDS w;
         w = w_uint VAULT_SCHEMA w;
         w = w_text (vc_verifier_name m) w;
         w = w_uint (item_kind_wire (vc_kind m)) w;
         w = w_text (vc_name m) w;
         w = w_text (vc_username m) w;
         w = w_text (vc_uri m) w;
         w = w_text (vc_secret m) w
     in w)"

definition decode_create_request :: "bytes \<Rightarrow> protocol_error + create_request" where
  "decode_create_request payload =
    then_ok (vault_open payload CREATE_REQUEST_FIELDS) (\<lambda>r.
    then_cbor (r_text r) (\<lambda>(verifier_name', r).
    then_cbor (r_uint r) (\<lambda>(kind', r).
    then_ok (item_kind_from_wire kind') (\<lambda>kind'.
    then_cbor (r_text r) (\<lambda>(name', r).
    then_cbor (r_text r) (\<lambda>(username', r).
    then_cbor (r_text r) (\<lambda>(uri', r).
    then_cbor (r_text r) (\<lambda>(secret', r).
    let decoded = \<lparr>vc_verifier_name = verifier_name', vc_kind = kind', vc_name = name', vc_username
          = username', vc_uri = uri', vc_secret = secret'\<rparr> in
    then_ok (vault_finish r (encode_create_request decoded) payload) (\<lambda>_.
    then_ok (validate_create_request decoded) (\<lambda>_.
    Inr decoded))))))))))"

definition create_request_typed :: "create_request \<Rightarrow> bool" where
  "create_request_typed m \<longleftrightarrow>
    is_str (vc_verifier_name m) \<and> is_str (vc_name m) \<and> is_str (vc_username m) \<and>
    is_str (vc_uri m) \<and> is_str (vc_secret m)"

lemma encode_create_request_eq: "encode_create_request m =
    enc_array CREATE_REQUEST_FIELDS @ enc_uint VAULT_SCHEMA @ enc_text (vc_verifier_name m) @
    enc_uint (item_kind_wire (vc_kind m)) @ enc_text (vc_name m) @ enc_text (vc_username m) @
    enc_text (vc_uri m) @ enc_text (vc_secret m)"
  by (simp add: encode_create_request_def Let_def writer_new_def w_append)

lemma validate_create_request_not_canonical [simp]: "validate_create_request m \<noteq> Inl NotCanonical"
  by (auto simp: validate_create_request_def then_ok_eq_Inl Let_def split: option.splits if_splits)

lemma decode_create_request_encode:
  assumes "create_request_typed m" and "validate_create_request m = Inr ()" and "length (encode_create_request m) \<le> MAX_APPLICATION_PAYLOAD_BYTES"
  shows "decode_create_request (encode_create_request m) = Inr m"
  using assms payload_slice_ok [OF assms(3)]
  by (cases m) (simp add: decode_create_request_def Let_def reader_new_at create_request_typed_def encode_create_request_eq codec vault_open_def vault_finish_def)

lemma decode_create_request_sound:
  assumes "decode_create_request p = Inr m"
  shows "create_request_typed m \<and> validate_create_request m = Inr () \<and> encode_create_request m = p \<and> length p \<le> MAX_APPLICATION_PAYLOAD_BYTES"
  using assms
  by (auto simp: decode_create_request_def Let_def reader_new_at create_request_typed_def then_ok_eq_Inr
      then_cbor_eq_Inr vault_open_def vault_finish_def split: if_splits dest!: strict)

lemma decode_create_request_not_canonical: "decode_create_request p \<noteq> Inl NotCanonical"
  by (auto simp: decode_create_request_def Let_def reader_new_at encode_create_request_eq then_ok_eq_Inl
      then_cbor_eq_Inl vault_open_def vault_finish_def split: if_splits dest!: strict)

interpretation create_request_codec:
  frame_codec encode_create_request decode_create_request validate_create_request create_request_typed MAX_APPLICATION_PAYLOAD_BYTES
  by unfold_locales
    (auto dest: decode_create_request_sound simp: decode_create_request_encode decode_create_request_not_canonical)

record update_request =
  vu_verifier_name :: string
  vu_item_id :: string
  vu_expected_revision :: u64
  vu_kind :: item_kind
  vu_name :: string
  vu_username :: string
  vu_uri :: string
  vu_secret :: string

definition validate_update_request :: "update_request \<Rightarrow> protocol_error + unit" where
  "validate_update_request m =
    then_ok (check_text ''verifierName'' (vu_verifier_name m) VAULT_MAX_NAME_UNITS) (\<lambda>_.
    then_ok (check_text ''itemId'' (vu_item_id m) VAULT_MAX_ID_UNITS) (\<lambda>_.
    then_ok (check_revision (vu_expected_revision m)) (\<lambda>_.
    then_ok (check_text ''name'' (vu_name m) VAULT_MAX_NAME_UNITS) (\<lambda>_.
    then_ok (check_optional_text ''username'' (vu_username m) MAX_USERNAME_UNITS) (\<lambda>_.
    then_ok (check_optional_text ''uri'' (vu_uri m) MAX_URI_UNITS) (\<lambda>_.
    check_secret (vu_secret m)))))))"

definition encode_update_request :: "update_request \<Rightarrow> bytes" where
  "encode_update_request m =
    (let w = writer_new;
         w = w_array UPDATE_REQUEST_FIELDS w;
         w = w_uint VAULT_SCHEMA w;
         w = w_text (vu_verifier_name m) w;
         w = w_text (vu_item_id m) w;
         w = w_uint (vu_expected_revision m) w;
         w = w_uint (item_kind_wire (vu_kind m)) w;
         w = w_text (vu_name m) w;
         w = w_text (vu_username m) w;
         w = w_text (vu_uri m) w;
         w = w_text (vu_secret m) w
     in w)"

definition decode_update_request :: "bytes \<Rightarrow> protocol_error + update_request" where
  "decode_update_request payload =
    then_ok (vault_open payload UPDATE_REQUEST_FIELDS) (\<lambda>r.
    then_cbor (r_text r) (\<lambda>(verifier_name', r).
    then_cbor (r_text r) (\<lambda>(item_id', r).
    then_cbor (r_uint r) (\<lambda>(expected_revision', r).
    then_cbor (r_uint r) (\<lambda>(kind', r).
    then_ok (item_kind_from_wire kind') (\<lambda>kind'.
    then_cbor (r_text r) (\<lambda>(name', r).
    then_cbor (r_text r) (\<lambda>(username', r).
    then_cbor (r_text r) (\<lambda>(uri', r).
    then_cbor (r_text r) (\<lambda>(secret', r).
    let decoded = \<lparr>vu_verifier_name = verifier_name', vu_item_id = item_id', vu_expected_revision =
          expected_revision', vu_kind = kind', vu_name = name', vu_username = username', vu_uri =
          uri', vu_secret = secret'\<rparr> in
    then_ok (vault_finish r (encode_update_request decoded) payload) (\<lambda>_.
    then_ok (validate_update_request decoded) (\<lambda>_.
    Inr decoded))))))))))))"

definition update_request_typed :: "update_request \<Rightarrow> bool" where
  "update_request_typed m \<longleftrightarrow>
    is_str (vu_verifier_name m) \<and> is_str (vu_item_id m) \<and> is_str (vu_name m) \<and>
    is_str (vu_username m) \<and> is_str (vu_uri m) \<and> is_str (vu_secret m)"

lemma encode_update_request_eq: "encode_update_request m =
    enc_array UPDATE_REQUEST_FIELDS @ enc_uint VAULT_SCHEMA @ enc_text (vu_verifier_name m) @
    enc_text (vu_item_id m) @ enc_uint (vu_expected_revision m) @
    enc_uint (item_kind_wire (vu_kind m)) @ enc_text (vu_name m) @ enc_text (vu_username m) @
    enc_text (vu_uri m) @ enc_text (vu_secret m)"
  by (simp add: encode_update_request_def Let_def writer_new_def w_append)

lemma validate_update_request_not_canonical [simp]: "validate_update_request m \<noteq> Inl NotCanonical"
  by (auto simp: validate_update_request_def then_ok_eq_Inl Let_def split: option.splits if_splits)

lemma decode_update_request_encode:
  assumes "update_request_typed m" and "validate_update_request m = Inr ()" and "length (encode_update_request m) \<le> MAX_APPLICATION_PAYLOAD_BYTES"
  shows "decode_update_request (encode_update_request m) = Inr m"
  using assms payload_slice_ok [OF assms(3)]
  by (cases m) (simp add: decode_update_request_def Let_def reader_new_at update_request_typed_def encode_update_request_eq codec vault_open_def vault_finish_def)

lemma decode_update_request_sound:
  assumes "decode_update_request p = Inr m"
  shows "update_request_typed m \<and> validate_update_request m = Inr () \<and> encode_update_request m = p \<and> length p \<le> MAX_APPLICATION_PAYLOAD_BYTES"
  using assms
  by (auto simp: decode_update_request_def Let_def reader_new_at update_request_typed_def then_ok_eq_Inr
      then_cbor_eq_Inr vault_open_def vault_finish_def split: if_splits dest!: strict)

lemma decode_update_request_not_canonical: "decode_update_request p \<noteq> Inl NotCanonical"
  by (auto simp: decode_update_request_def Let_def reader_new_at encode_update_request_eq then_ok_eq_Inl
      then_cbor_eq_Inl vault_open_def vault_finish_def split: if_splits dest!: strict)

interpretation update_request_codec:
  frame_codec encode_update_request decode_update_request validate_update_request update_request_typed MAX_APPLICATION_PAYLOAD_BYTES
  by unfold_locales
    (auto dest: decode_update_request_sound simp: decode_update_request_encode decode_update_request_not_canonical)

record write_response =
  vw_item_id :: string
  vw_revision :: u64

definition validate_write_response :: "write_response \<Rightarrow> protocol_error + unit" where
  "validate_write_response m =
    then_ok (check_text ''itemId'' (vw_item_id m) VAULT_MAX_ID_UNITS) (\<lambda>_.
    check_revision (vw_revision m))"

definition encode_write_response :: "write_response \<Rightarrow> bytes" where
  "encode_write_response m =
    (let w = writer_new;
         w = w_array WRITE_RESPONSE_FIELDS w;
         w = w_uint VAULT_SCHEMA w;
         w = w_text (vw_item_id m) w;
         w = w_uint (vw_revision m) w
     in w)"

definition decode_write_response :: "bytes \<Rightarrow> protocol_error + write_response" where
  "decode_write_response payload =
    then_ok (vault_open payload WRITE_RESPONSE_FIELDS) (\<lambda>r.
    then_cbor (r_text r) (\<lambda>(item_id', r).
    then_cbor (r_uint r) (\<lambda>(revision', r).
    let decoded = \<lparr>vw_item_id = item_id', vw_revision = revision'\<rparr> in
    then_ok (vault_finish r (encode_write_response decoded) payload) (\<lambda>_.
    then_ok (validate_write_response decoded) (\<lambda>_.
    Inr decoded)))))"

definition write_response_typed :: "write_response \<Rightarrow> bool" where
  "write_response_typed m \<longleftrightarrow>
    is_str (vw_item_id m)"

lemma encode_write_response_eq: "encode_write_response m =
    enc_array WRITE_RESPONSE_FIELDS @ enc_uint VAULT_SCHEMA @ enc_text (vw_item_id m) @
    enc_uint (vw_revision m)"
  by (simp add: encode_write_response_def Let_def writer_new_def w_append)

lemma validate_write_response_not_canonical [simp]: "validate_write_response m \<noteq> Inl NotCanonical"
  by (auto simp: validate_write_response_def then_ok_eq_Inl Let_def split: option.splits if_splits)

lemma decode_write_response_encode:
  assumes "write_response_typed m" and "validate_write_response m = Inr ()" and "length (encode_write_response m) \<le> MAX_APPLICATION_PAYLOAD_BYTES"
  shows "decode_write_response (encode_write_response m) = Inr m"
  using assms payload_slice_ok [OF assms(3)]
  by (cases m) (simp add: decode_write_response_def Let_def reader_new_at write_response_typed_def encode_write_response_eq codec vault_open_def vault_finish_def)

lemma decode_write_response_sound:
  assumes "decode_write_response p = Inr m"
  shows "write_response_typed m \<and> validate_write_response m = Inr () \<and> encode_write_response m = p \<and> length p \<le> MAX_APPLICATION_PAYLOAD_BYTES"
  using assms
  by (auto simp: decode_write_response_def Let_def reader_new_at write_response_typed_def then_ok_eq_Inr
      then_cbor_eq_Inr vault_open_def vault_finish_def split: if_splits dest!: strict)

lemma decode_write_response_not_canonical: "decode_write_response p \<noteq> Inl NotCanonical"
  by (auto simp: decode_write_response_def Let_def reader_new_at encode_write_response_eq then_ok_eq_Inl
      then_cbor_eq_Inl vault_open_def vault_finish_def split: if_splits dest!: strict)

lemma write_response_encode_bound:
  assumes "write_response_typed m" and "validate_write_response m = Inr ()"
  shows "length (encode_write_response m) \<le> MAX_APPLICATION_PAYLOAD_BYTES"
  using assms
    length_enc(1) [of "WRITE_RESPONSE_FIELDS"] length_enc(2) [of "VAULT_SCHEMA"]
    length_enc(4) [of "(vw_item_id m)"] length_enc(2) [of "(vw_revision m)"]
  by (auto simp: encode_write_response_eq write_response_typed_def validate_write_response_def then_ok_eq_Inr Let_def payload_consts vault_consts
      split: if_splits dest!: check_text_bound)

interpretation write_response_codec:
  bounded_frame_codec encode_write_response decode_write_response validate_write_response write_response_typed MAX_APPLICATION_PAYLOAD_BYTES
  by unfold_locales
    (auto dest: decode_write_response_sound simp: decode_write_response_encode decode_write_response_not_canonical
      intro: write_response_encode_bound)

subsection \<open>\<open>vault.delete\<close>\<close>

record delete_request =
  vd_verifier_name :: string
  vd_item_id :: string
  vd_expected_revision :: u64

definition validate_delete_request :: "delete_request \<Rightarrow> protocol_error + unit" where
  "validate_delete_request m =
    then_ok (check_text ''verifierName'' (vd_verifier_name m) VAULT_MAX_NAME_UNITS) (\<lambda>_.
    then_ok (check_text ''itemId'' (vd_item_id m) VAULT_MAX_ID_UNITS) (\<lambda>_.
    check_revision (vd_expected_revision m)))"

definition encode_delete_request :: "delete_request \<Rightarrow> bytes" where
  "encode_delete_request m =
    (let w = writer_new;
         w = w_array DELETE_REQUEST_FIELDS w;
         w = w_uint VAULT_SCHEMA w;
         w = w_text (vd_verifier_name m) w;
         w = w_text (vd_item_id m) w;
         w = w_uint (vd_expected_revision m) w
     in w)"

definition decode_delete_request :: "bytes \<Rightarrow> protocol_error + delete_request" where
  "decode_delete_request payload =
    then_ok (vault_open payload DELETE_REQUEST_FIELDS) (\<lambda>r.
    then_cbor (r_text r) (\<lambda>(verifier_name', r).
    then_cbor (r_text r) (\<lambda>(item_id', r).
    then_cbor (r_uint r) (\<lambda>(expected_revision', r).
    let decoded = \<lparr>vd_verifier_name = verifier_name', vd_item_id = item_id', vd_expected_revision =
          expected_revision'\<rparr> in
    then_ok (vault_finish r (encode_delete_request decoded) payload) (\<lambda>_.
    then_ok (validate_delete_request decoded) (\<lambda>_.
    Inr decoded))))))"

definition delete_request_typed :: "delete_request \<Rightarrow> bool" where
  "delete_request_typed m \<longleftrightarrow>
    is_str (vd_verifier_name m) \<and> is_str (vd_item_id m)"

lemma encode_delete_request_eq: "encode_delete_request m =
    enc_array DELETE_REQUEST_FIELDS @ enc_uint VAULT_SCHEMA @ enc_text (vd_verifier_name m) @
    enc_text (vd_item_id m) @ enc_uint (vd_expected_revision m)"
  by (simp add: encode_delete_request_def Let_def writer_new_def w_append)

lemma validate_delete_request_not_canonical [simp]: "validate_delete_request m \<noteq> Inl NotCanonical"
  by (auto simp: validate_delete_request_def then_ok_eq_Inl Let_def split: option.splits if_splits)

lemma decode_delete_request_encode:
  assumes "delete_request_typed m" and "validate_delete_request m = Inr ()" and "length (encode_delete_request m) \<le> MAX_APPLICATION_PAYLOAD_BYTES"
  shows "decode_delete_request (encode_delete_request m) = Inr m"
  using assms payload_slice_ok [OF assms(3)]
  by (cases m) (simp add: decode_delete_request_def Let_def reader_new_at delete_request_typed_def encode_delete_request_eq codec vault_open_def vault_finish_def)

lemma decode_delete_request_sound:
  assumes "decode_delete_request p = Inr m"
  shows "delete_request_typed m \<and> validate_delete_request m = Inr () \<and> encode_delete_request m = p \<and> length p \<le> MAX_APPLICATION_PAYLOAD_BYTES"
  using assms
  by (auto simp: decode_delete_request_def Let_def reader_new_at delete_request_typed_def then_ok_eq_Inr
      then_cbor_eq_Inr vault_open_def vault_finish_def split: if_splits dest!: strict)

lemma decode_delete_request_not_canonical: "decode_delete_request p \<noteq> Inl NotCanonical"
  by (auto simp: decode_delete_request_def Let_def reader_new_at encode_delete_request_eq then_ok_eq_Inl
      then_cbor_eq_Inl vault_open_def vault_finish_def split: if_splits dest!: strict)

lemma delete_request_encode_bound:
  assumes "delete_request_typed m" and "validate_delete_request m = Inr ()"
  shows "length (encode_delete_request m) \<le> MAX_APPLICATION_PAYLOAD_BYTES"
  using assms
    length_enc(1) [of "DELETE_REQUEST_FIELDS"] length_enc(2) [of "VAULT_SCHEMA"]
    length_enc(4) [of "(vd_verifier_name m)"] length_enc(4) [of "(vd_item_id m)"]
    length_enc(2) [of "(vd_expected_revision m)"]
  by (auto simp: encode_delete_request_eq delete_request_typed_def validate_delete_request_def then_ok_eq_Inr Let_def payload_consts vault_consts
      split: if_splits dest!: check_text_bound)

interpretation delete_request_codec:
  bounded_frame_codec encode_delete_request decode_delete_request validate_delete_request delete_request_typed MAX_APPLICATION_PAYLOAD_BYTES
  by unfold_locales
    (auto dest: decode_delete_request_sound simp: decode_delete_request_encode decode_delete_request_not_canonical
      intro: delete_request_encode_bound)

record delete_response =
  ve_item_id :: string

definition validate_delete_response :: "delete_response \<Rightarrow> protocol_error + unit" where
  "validate_delete_response m =
    check_text ''itemId'' (ve_item_id m) VAULT_MAX_ID_UNITS"

definition encode_delete_response :: "delete_response \<Rightarrow> bytes" where
  "encode_delete_response m =
    (let w = writer_new;
         w = w_array DELETE_RESPONSE_FIELDS w;
         w = w_uint VAULT_SCHEMA w;
         w = w_text (ve_item_id m) w
     in w)"

definition decode_delete_response :: "bytes \<Rightarrow> protocol_error + delete_response" where
  "decode_delete_response payload =
    then_ok (vault_open payload DELETE_RESPONSE_FIELDS) (\<lambda>r.
    then_cbor (r_text r) (\<lambda>(item_id', r).
    let decoded = \<lparr>ve_item_id = item_id'\<rparr> in
    then_ok (vault_finish r (encode_delete_response decoded) payload) (\<lambda>_.
    then_ok (validate_delete_response decoded) (\<lambda>_.
    Inr decoded))))"

definition delete_response_typed :: "delete_response \<Rightarrow> bool" where
  "delete_response_typed m \<longleftrightarrow>
    is_str (ve_item_id m)"

lemma encode_delete_response_eq: "encode_delete_response m =
    enc_array DELETE_RESPONSE_FIELDS @ enc_uint VAULT_SCHEMA @ enc_text (ve_item_id m)"
  by (simp add: encode_delete_response_def Let_def writer_new_def w_append)

lemma validate_delete_response_not_canonical [simp]: "validate_delete_response m \<noteq> Inl NotCanonical"
  by (auto simp: validate_delete_response_def then_ok_eq_Inl Let_def split: option.splits if_splits)

lemma decode_delete_response_encode:
  assumes "delete_response_typed m" and "validate_delete_response m = Inr ()" and "length (encode_delete_response m) \<le> MAX_APPLICATION_PAYLOAD_BYTES"
  shows "decode_delete_response (encode_delete_response m) = Inr m"
  using assms payload_slice_ok [OF assms(3)]
  by (cases m) (simp add: decode_delete_response_def Let_def reader_new_at delete_response_typed_def encode_delete_response_eq codec vault_open_def vault_finish_def)

lemma decode_delete_response_sound:
  assumes "decode_delete_response p = Inr m"
  shows "delete_response_typed m \<and> validate_delete_response m = Inr () \<and> encode_delete_response m = p \<and> length p \<le> MAX_APPLICATION_PAYLOAD_BYTES"
  using assms
  by (auto simp: decode_delete_response_def Let_def reader_new_at delete_response_typed_def then_ok_eq_Inr
      then_cbor_eq_Inr vault_open_def vault_finish_def split: if_splits dest!: strict)

lemma decode_delete_response_not_canonical: "decode_delete_response p \<noteq> Inl NotCanonical"
  by (auto simp: decode_delete_response_def Let_def reader_new_at encode_delete_response_eq then_ok_eq_Inl
      then_cbor_eq_Inl vault_open_def vault_finish_def split: if_splits dest!: strict)

lemma delete_response_encode_bound:
  assumes "delete_response_typed m" and "validate_delete_response m = Inr ()"
  shows "length (encode_delete_response m) \<le> MAX_APPLICATION_PAYLOAD_BYTES"
  using assms
    length_enc(1) [of "DELETE_RESPONSE_FIELDS"] length_enc(2) [of "VAULT_SCHEMA"]
    length_enc(4) [of "(ve_item_id m)"]
  by (auto simp: encode_delete_response_eq delete_response_typed_def validate_delete_response_def then_ok_eq_Inr Let_def payload_consts vault_consts
      split: if_splits dest!: check_text_bound)

interpretation delete_response_codec:
  bounded_frame_codec encode_delete_response decode_delete_response validate_delete_response delete_response_typed MAX_APPLICATION_PAYLOAD_BYTES
  by unfold_locales
    (auto dest: decode_delete_response_sound simp: decode_delete_response_encode decode_delete_response_not_canonical
      intro: delete_response_encode_bound)

subsection \<open>A secret can be valid and still not come back\<close>

text \<open>
  The bound on a secret counts UTF-16 code units, the bound on a payload counts bytes: 4096
  euro signs are 12288 bytes. A secret is refused when it is empty, but not when it is blank.
\<close>

definition euros :: "nat \<Rightarrow> string" where
  "euros n = concat (replicate n (bytes_string [0xE2, 0x82, 0xAC]))"

lemma utf8_chars_euros: "utf8_chars (as_bytes (euros n)) = Some (replicate n 0x20AC)"
proof (induction n)
  case 0
  then show ?case by (simp add: euros_def)
next
  case (Suc n)
  have "as_bytes (euros (Suc n)) = 0xE2 # 0x82 # 0xAC # as_bytes (euros n)"
    by (simp add: euros_def)
  with Suc show ?case by (simp add: continuation_def)
qed

lemma length_euros: "length (euros n) = 3 * n"
  by (induction n) (simp_all add: euros_def bytes_string_def)

lemma utf16_len_euros: "utf16_len (euros n) = n"
  by (simp add: utf16_len_def chars_def utf8_chars_euros len_utf16_def sum_list_replicate)

lemma check_secret_euros: "check_secret (euros 4096) = Inr ()"
proof -
  have "euros 4096 \<noteq> []" using length_euros [of 4096] by auto
  then show ?thesis by (simp add: check_secret_def utf16_len_euros MAX_SECRET_UNITS_def)
qed

lemma check_secret_blank: "check_secret '' '' = Inr ()"
proof -
  have "utf16_len '' '' = 1" by (simp add: utf16_len_ascii ascii_def)
  then show ?thesis by (simp add: check_secret_def MAX_SECRET_UNITS_def)
qed

lemma fetch_response_too_long:
  "\<exists>m. fetch_response_typed m \<and> validate_fetch_response m = Inr ()
    \<and> decode_fetch_response (encode_fetch_response m) = Inl (PayloadSize (length (encode_fetch_response m)))"
proof (intro exI conjI)
  let ?m = "\<lparr>vs_item_id = ''id'', vs_revision = 1, vs_secret = euros 4096\<rparr>"
  show "fetch_response_typed ?m"
    by (simp add: fetch_response_typed_def is_str_ascii ascii_def) (simp add: is_str_def utf8_chars_euros)
  show "validate_fetch_response ?m = Inr ()"
    by (simp add: validate_fetch_response_def check_secret_euros check_revision_def check_text_ascii ascii_def
        is_whitespace_def VAULT_MAX_ID_UNITS_def)
  have "length (encode_fetch_response ?m) \<ge> length (enc_text (euros 4096))"
    by (simp add: encode_fetch_response_eq)
  moreover have "length (enc_text (euros 4096)) \<ge> length (euros 4096)"
    by (simp add: enc_defs w_defs)
  ultimately have "length (encode_fetch_response ?m) > MAX_APPLICATION_PAYLOAD_BYTES"
    by (simp add: length_euros MAX_APPLICATION_PAYLOAD_BYTES_def)
  then show "decode_fetch_response (encode_fetch_response ?m) = Inl (PayloadSize (length (encode_fetch_response ?m)))"
    by (simp add: decode_fetch_response_def vault_open_def open_payload_def)
qed

end
