(* ===== verification/Permission_Sync.thy ===== *)
theory Permission_Sync
  imports Protocol_Base
begin

text \<open>
  Keeping a pairing's permissions the same on both sides:
  \<open>phone-auth-protocol/src/permissions.rs\<close>. The payloads of \<open>permissions.sync\<close> and the
  reconciliation rule both sides run.
\<close>

definition OPERATION_SYNC :: string where "OPERATION_SYNC = ''permissions.sync''"
definition SYNC_WILDCARD :: string where "SYNC_WILDCARD = ''*''"
definition PERMISSIONS_SCHEMA :: u64 where "PERMISSIONS_SCHEMA = 1"
definition SYNC_REQUEST_FIELDS :: u64 where "SYNC_REQUEST_FIELDS = 4"
definition SYNC_RESPONSE_FIELDS :: u64 where "SYNC_RESPONSE_FIELDS = 3"
definition MAX_PERMISSIONS :: nat where "MAX_PERMISSIONS = 64"
definition SYNC_MAX_NAME_UNITS :: nat where "SYNC_MAX_NAME_UNITS = 255"
definition SYNC_MAX_FIELD_UNITS :: nat where "SYNC_MAX_FIELD_UNITS = 255"

subsection \<open>One grant on the wire\<close>

record sync_permission =
  sp_service :: string
  sp_action :: string
  sp_resource :: string
  sp_user :: string

definition validate_sync_permission :: "sync_permission \<Rightarrow> protocol_error + unit" where
  "validate_sync_permission p =
    then_ok (check_text ''service'' (sp_service p) SYNC_MAX_FIELD_UNITS) (\<lambda>_.
    then_ok (check_text ''action'' (sp_action p) SYNC_MAX_FIELD_UNITS) (\<lambda>_.
    then_ok (check_text ''resource'' (sp_resource p) SYNC_MAX_FIELD_UNITS) (\<lambda>_.
    check_text ''user'' (sp_user p) SYNC_MAX_FIELD_UNITS)))"

definition write_permission :: "sync_permission \<Rightarrow> writer \<Rightarrow> writer" where
  "write_permission p w =
    (let w = w_array 4 w;
         w = w_text (sp_service p) w;
         w = w_text (sp_action p) w;
         w = w_text (sp_resource p) w;
         w = w_text (sp_user p) w
     in w)"

definition read_permission :: "reader \<Rightarrow> protocol_error + (sync_permission \<times> reader)" where
  "read_permission r =
    then_cbor (r_array r) (\<lambda>(len, r).
    if len \<noteq> 4 then Inl (FrameShape 4 len) else
    then_cbor (r_text r) (\<lambda>(service', r).
    then_cbor (r_text r) (\<lambda>(action', r).
    then_cbor (r_text r) (\<lambda>(resource', r).
    then_cbor (r_text r) (\<lambda>(user', r).
    Inr (\<lparr>sp_service = service', sp_action = action', sp_resource = resource', sp_user = user'\<rparr>, r))))))"

definition sync_permission_typed :: "sync_permission \<Rightarrow> bool" where
  "sync_permission_typed p \<longleftrightarrow>
    is_str (sp_service p) \<and> is_str (sp_action p) \<and> is_str (sp_resource p) \<and> is_str (sp_user p)"

definition enc_permission :: "sync_permission \<Rightarrow> bytes" where
  "enc_permission p = enc_array 4 @ enc_text (sp_service p) @ enc_text (sp_action p)
    @ enc_text (sp_resource p) @ enc_text (sp_user p)"

interpretation permission_item: wire_item write_permission enc_permission read_permission sync_permission_typed
proof unfold_locales
  fix a w
  show "write_permission a w = w @ enc_permission a"
    by (simp add: write_permission_def enc_permission_def Let_def w_append)
next
  fix a pre rest
  assume "sync_permission_typed a" and "slice_ok (pre @ enc_permission a @ rest)"
  then show "read_permission (reader_at pre (enc_permission a @ rest)) = Inr (a, reader_at (pre @ enc_permission a) rest)"
    by (cases a) (simp add: read_permission_def enc_permission_def sync_permission_typed_def codec)
next
  fix pre bs a r
  assume "read_permission (reader_at pre bs) = Inr (a, r)"
  then show "sync_permission_typed a \<and> (\<exists>rest. bs = enc_permission a @ rest \<and> r = reader_at (pre @ enc_permission a) rest)"
    by (auto simp: read_permission_def enc_permission_def sync_permission_typed_def then_cbor_eq_Inr
        split: if_splits dest!: strict)
qed

subsection \<open>The reconciliation rule\<close>

datatype winner = Mine | Theirs

definition reconcile :: "u64 \<Rightarrow> u64 \<Rightarrow> bool \<Rightarrow> winner" where
  "reconcile mine theirs phone_wins_ties =
    (if mine = 0 \<and> theirs = 0 then (if phone_wins_ties then Theirs else Mine)
     else if mine > theirs then Mine
     else if theirs > mine then Theirs
     else if phone_wins_ties then Mine else Theirs)"

subsection \<open>Sets of grants\<close>

definition write_set :: "sync_permission list \<Rightarrow> writer \<Rightarrow> writer" where
  "write_set permissions w =
    write_many write_permission permissions (w_array (word_of_nat (length permissions)) w)"

definition read_set :: "reader \<Rightarrow> protocol_error + (sync_permission list \<times> reader)" where
  "read_set r =
    then_cbor (r_array r) (\<lambda>(count, r).
    if count > word_of_nat MAX_PERMISSIONS then Inl (PayloadSize (unat count))
    else read_many read_permission (unat count) r)"

definition check_set :: "sync_permission list \<Rightarrow> protocol_error + unit" where
  "check_set permissions =
    (if length permissions > MAX_PERMISSIONS then Inl (PayloadSize (length permissions))
     else for_each_ok validate_sync_permission permissions)"

definition check_size :: "nat \<Rightarrow> protocol_error + unit" where
  "check_size encoded =
    (if encoded > MAX_APPLICATION_PAYLOAD_BYTES then Inl (PayloadSize encoded) else Inr ())"

definition sync_open :: "bytes \<Rightarrow> u64 \<Rightarrow> protocol_error + reader" where
  "sync_open payload count = open_payload PERMISSIONS_SCHEMA payload count"

definition sync_finish :: "reader \<Rightarrow> bytes \<Rightarrow> bytes \<Rightarrow> protocol_error + unit" where
  "sync_finish r reencoded payload = finish_payload r reencoded payload"

definition enc_set :: "sync_permission list \<Rightarrow> bytes" where
  "enc_set ps = enc_array (word_of_nat (length ps)) @ concat (map enc_permission ps)"

definition set_typed :: "sync_permission list \<Rightarrow> bool" where
  "set_typed ps \<longleftrightarrow> (\<forall>p \<in> set ps. sync_permission_typed p) \<and> length ps \<le> MAX_PERMISSIONS"

lemma write_set_append: "write_set ps w = w @ enc_set ps"
  by (simp add: write_set_def enc_set_def permission_item.write_many_append w_append)

lemma read_set_at [codec]:
  assumes "set_typed ps"
  shows "slice_ok (pre @ enc_set ps @ rest) \<Longrightarrow>
      read_set (reader_at pre (enc_set ps @ rest)) = Inr (ps, reader_at (pre @ enc_set ps) rest)"
    and "slice_ok (pre @ enc_set ps) \<Longrightarrow>
      read_set (reader_at pre (enc_set ps)) = Inr (ps, reader_at (pre @ enc_set ps) [])"
proof -
  have n: "unat (word_of_nat (length ps) :: u64) = length ps"
    using assms by (simp add: set_typed_def MAX_PERMISSIONS_def unsigned_of_nat take_bit_nat_eq_self)
  then have le: "\<not> word_of_nat MAX_PERMISSIONS < (word_of_nat (length ps) :: u64)"
    using assms by (simp add: set_typed_def MAX_PERMISSIONS_def word_less_nat_alt)
  have at: "read_set (reader_at pre (enc_set ps @ rest)) = Inr (ps, reader_at (pre @ enc_set ps) rest)"
    if "slice_ok (pre @ enc_set ps @ rest)" for rest
    using that assms permission_item.read_many_at
      [of ps "pre @ enc_array (word_of_nat (length ps))" rest]
    by (simp add: read_set_def enc_set_def set_typed_def codec n le)
  then show "slice_ok (pre @ enc_set ps @ rest) \<Longrightarrow>
      read_set (reader_at pre (enc_set ps @ rest)) = Inr (ps, reader_at (pre @ enc_set ps) rest)" .
  show "slice_ok (pre @ enc_set ps) \<Longrightarrow>
      read_set (reader_at pre (enc_set ps)) = Inr (ps, reader_at (pre @ enc_set ps) [])"
    using at [of "[]"] by simp
qed

lemma read_set_strict [strict]:
  assumes "read_set (reader_at pre bs) = Inr (ps, r)"
  shows "set_typed ps \<and> (\<exists>rest. bs = enc_set ps @ rest \<and> r = reader_at (pre @ enc_set ps) rest)"
proof -
  from assms obtain n rest where bs: "bs = enc_array n @ rest" and n: "n \<le> word_of_nat MAX_PERMISSIONS"
    and m: "read_many read_permission (unat n) (reader_at (pre @ enc_array n) rest) = Inr (ps, r)"
    by (auto simp: read_set_def then_cbor_eq_Inr not_less split: if_splits dest!: r_strict)
  have "unat n \<le> MAX_PERMISSIONS"
    using n by (simp add: word_le_nat_alt MAX_PERMISSIONS_def)
  with permission_item.read_many_strict [OF m] bs show ?thesis
    by (auto simp: enc_set_def set_typed_def)
qed

lemma read_permission_not_canonical [simp]: "read_permission r \<noteq> Inl NotCanonical"
  by (auto simp: read_permission_def then_cbor_eq_Inl split: if_splits)

lemma read_set_not_canonical [simp]: "read_set r \<noteq> Inl NotCanonical"
  by (auto simp: read_set_def then_cbor_eq_Inl read_many_not_canonical split: if_splits)

lemma sync_checks [simp]:
  "validate_sync_permission p \<noteq> Inl NotCanonical"
  "check_set ps \<noteq> Inl NotCanonical"
  "check_size n \<noteq> Inl NotCanonical"
  "check_size n = Inr u \<longleftrightarrow> n \<le> MAX_APPLICATION_PAYLOAD_BYTES"
proof -
  show v: "validate_sync_permission p \<noteq> Inl NotCanonical" for p
    by (auto simp: validate_sync_permission_def then_ok_eq_Inl)
  show "check_set ps \<noteq> Inl NotCanonical"
    using v by (auto simp: check_set_def for_each_ok_not)
qed (auto simp: check_size_def)

subsection \<open>The two payloads\<close>

record sync_request =
  sq_verifier_name :: string
  sq_revision :: u64
  sq_permissions :: "sync_permission list"

definition encode_sync_request :: "sync_request \<Rightarrow> bytes" where
  "encode_sync_request m =
    (let w = writer_new;
         w = w_array SYNC_REQUEST_FIELDS w;
         w = w_uint PERMISSIONS_SCHEMA w;
         w = w_text (sq_verifier_name m) w;
         w = w_uint (sq_revision m) w;
         w = write_set (sq_permissions m) w
     in w)"

definition validate_sync_request :: "sync_request \<Rightarrow> protocol_error + unit" where
  "validate_sync_request m =
    then_ok (check_text ''verifierName'' (sq_verifier_name m) SYNC_MAX_NAME_UNITS) (\<lambda>_.
    then_ok (check_set (sq_permissions m)) (\<lambda>_.
    check_size (length (encode_sync_request m))))"

definition decode_sync_request :: "bytes \<Rightarrow> protocol_error + sync_request" where
  "decode_sync_request payload =
    then_ok (sync_open payload SYNC_REQUEST_FIELDS) (\<lambda>r.
    then_cbor (r_text r) (\<lambda>(verifier_name', r).
    then_cbor (r_uint r) (\<lambda>(revision', r).
    then_ok (read_set r) (\<lambda>(permissions', r).
    let decoded = \<lparr>sq_verifier_name = verifier_name', sq_revision = revision', sq_permissions =
          permissions'\<rparr> in
    then_ok (sync_finish r (encode_sync_request decoded) payload) (\<lambda>_.
    then_ok (validate_sync_request decoded) (\<lambda>_.
    Inr decoded))))))"

definition sync_request_typed :: "sync_request \<Rightarrow> bool" where
  "sync_request_typed m \<longleftrightarrow>
    is_str (sq_verifier_name m) \<and> set_typed (sq_permissions m)"

lemma encode_sync_request_eq: "encode_sync_request m =
    enc_array SYNC_REQUEST_FIELDS @ enc_uint PERMISSIONS_SCHEMA @
    enc_text (sq_verifier_name m) @ enc_uint (sq_revision m) @ enc_set (sq_permissions m)"
  by (simp add: encode_sync_request_def Let_def writer_new_def w_append write_set_append)

lemma validate_sync_request_not_canonical [simp]: "validate_sync_request m \<noteq> Inl NotCanonical"
  by (auto simp: validate_sync_request_def then_ok_eq_Inl Let_def split: option.splits if_splits)

lemma decode_sync_request_encode:
  assumes "sync_request_typed m" and "validate_sync_request m = Inr ()" and "length (encode_sync_request m) \<le> MAX_APPLICATION_PAYLOAD_BYTES"
  shows "decode_sync_request (encode_sync_request m) = Inr m"
  using assms payload_slice_ok [OF assms(3)]
  by (cases m) (simp add: decode_sync_request_def Let_def reader_new_at sync_request_typed_def encode_sync_request_eq codec sync_open_def sync_finish_def)

lemma decode_sync_request_sound:
  assumes "decode_sync_request p = Inr m"
  shows "sync_request_typed m \<and> validate_sync_request m = Inr () \<and> encode_sync_request m = p \<and> length p \<le> MAX_APPLICATION_PAYLOAD_BYTES"
  using assms
  by (auto simp: decode_sync_request_def Let_def reader_new_at sync_request_typed_def then_ok_eq_Inr
      then_cbor_eq_Inr sync_open_def sync_finish_def split: if_splits dest!: strict)

lemma decode_sync_request_not_canonical: "decode_sync_request p \<noteq> Inl NotCanonical"
  by (auto simp: decode_sync_request_def Let_def reader_new_at encode_sync_request_eq then_ok_eq_Inl
      then_cbor_eq_Inl sync_open_def sync_finish_def split: if_splits dest!: strict)

lemma sync_request_encode_bound:
  assumes "sync_request_typed m" and "validate_sync_request m = Inr ()"
  shows "length (encode_sync_request m) \<le> MAX_APPLICATION_PAYLOAD_BYTES"
  using assms
    length_enc(1) [of "SYNC_REQUEST_FIELDS"] length_enc(2) [of "PERMISSIONS_SCHEMA"]
    length_enc(4) [of "(sq_verifier_name m)"] length_enc(2) [of "(sq_revision m)"]
  by (auto simp: encode_sync_request_eq sync_request_typed_def validate_sync_request_def then_ok_eq_Inr Let_def payload_consts 
      split: if_splits dest!: check_text_bound)

interpretation sync_request_codec:
  bounded_frame_codec encode_sync_request decode_sync_request validate_sync_request sync_request_typed MAX_APPLICATION_PAYLOAD_BYTES
  by unfold_locales
    (auto dest: decode_sync_request_sound simp: decode_sync_request_encode decode_sync_request_not_canonical
      intro: sync_request_encode_bound)

record sync_response =
  ss_revision :: u64
  ss_permissions :: "sync_permission list"

definition encode_sync_response :: "sync_response \<Rightarrow> bytes" where
  "encode_sync_response m =
    (let w = writer_new;
         w = w_array SYNC_RESPONSE_FIELDS w;
         w = w_uint PERMISSIONS_SCHEMA w;
         w = w_uint (ss_revision m) w;
         w = write_set (ss_permissions m) w
     in w)"

definition validate_sync_response :: "sync_response \<Rightarrow> protocol_error + unit" where
  "validate_sync_response m =
    then_ok (check_set (ss_permissions m)) (\<lambda>_.
    check_size (length (encode_sync_response m)))"

definition decode_sync_response :: "bytes \<Rightarrow> protocol_error + sync_response" where
  "decode_sync_response payload =
    then_ok (sync_open payload SYNC_RESPONSE_FIELDS) (\<lambda>r.
    then_cbor (r_uint r) (\<lambda>(revision', r).
    then_ok (read_set r) (\<lambda>(permissions', r).
    let decoded = \<lparr>ss_revision = revision', ss_permissions = permissions'\<rparr> in
    then_ok (sync_finish r (encode_sync_response decoded) payload) (\<lambda>_.
    then_ok (validate_sync_response decoded) (\<lambda>_.
    Inr decoded)))))"

definition sync_response_typed :: "sync_response \<Rightarrow> bool" where
  "sync_response_typed m \<longleftrightarrow>
    set_typed (ss_permissions m)"

lemma encode_sync_response_eq: "encode_sync_response m =
    enc_array SYNC_RESPONSE_FIELDS @ enc_uint PERMISSIONS_SCHEMA @ enc_uint (ss_revision m) @
    enc_set (ss_permissions m)"
  by (simp add: encode_sync_response_def Let_def writer_new_def w_append write_set_append)

lemma validate_sync_response_not_canonical [simp]: "validate_sync_response m \<noteq> Inl NotCanonical"
  by (auto simp: validate_sync_response_def then_ok_eq_Inl Let_def split: option.splits if_splits)

lemma decode_sync_response_encode:
  assumes "sync_response_typed m" and "validate_sync_response m = Inr ()" and "length (encode_sync_response m) \<le> MAX_APPLICATION_PAYLOAD_BYTES"
  shows "decode_sync_response (encode_sync_response m) = Inr m"
  using assms payload_slice_ok [OF assms(3)]
  by (cases m) (simp add: decode_sync_response_def Let_def reader_new_at sync_response_typed_def encode_sync_response_eq codec sync_open_def sync_finish_def)

lemma decode_sync_response_sound:
  assumes "decode_sync_response p = Inr m"
  shows "sync_response_typed m \<and> validate_sync_response m = Inr () \<and> encode_sync_response m = p \<and> length p \<le> MAX_APPLICATION_PAYLOAD_BYTES"
  using assms
  by (auto simp: decode_sync_response_def Let_def reader_new_at sync_response_typed_def then_ok_eq_Inr
      then_cbor_eq_Inr sync_open_def sync_finish_def split: if_splits dest!: strict)

lemma decode_sync_response_not_canonical: "decode_sync_response p \<noteq> Inl NotCanonical"
  by (auto simp: decode_sync_response_def Let_def reader_new_at encode_sync_response_eq then_ok_eq_Inl
      then_cbor_eq_Inl sync_open_def sync_finish_def split: if_splits dest!: strict)

lemma sync_response_encode_bound:
  assumes "sync_response_typed m" and "validate_sync_response m = Inr ()"
  shows "length (encode_sync_response m) \<le> MAX_APPLICATION_PAYLOAD_BYTES"
  using assms
    length_enc(1) [of "SYNC_RESPONSE_FIELDS"] length_enc(2) [of "PERMISSIONS_SCHEMA"]
    length_enc(2) [of "(ss_revision m)"]
  by (auto simp: encode_sync_response_eq sync_response_typed_def validate_sync_response_def then_ok_eq_Inr Let_def payload_consts 
      split: if_splits dest!: check_text_bound)

interpretation sync_response_codec:
  bounded_frame_codec encode_sync_response decode_sync_response validate_sync_response sync_response_typed MAX_APPLICATION_PAYLOAD_BYTES
  by unfold_locales
    (auto dest: decode_sync_response_sound simp: decode_sync_response_encode decode_sync_response_not_canonical
      intro: sync_response_encode_bound)

end
