(* ===== verification/Ssh_Wire.thy ===== *)
theory Ssh_Wire
  imports Protocol_Base
begin

text \<open>
  The SSH wire encodings and the \<open>ssh.sign\<close> payloads: \<open>phone-auth-protocol/src/ssh.rs\<close>. The
  writer is its buffer; the reader is the input and a position, as in the source.
\<close>

definition ECDSA_P256_NAME :: string where "ECDSA_P256_NAME = ''ecdsa-sha2-nistp256''"
definition ECDSA_P256_CURVE :: string where "ECDSA_P256_CURVE = ''nistp256''"
definition UNCOMPRESSED_POINT_LEN :: nat where "UNCOMPRESSED_POINT_LEN = 65"
definition SCALAR_LEN :: nat where "SCALAR_LEN = 32"
definition MAX_FIELD_BYTES :: nat where "MAX_FIELD_BYTES = 64 * 1024"

lemmas ssh_consts = ECDSA_P256_NAME_def ECDSA_P256_CURVE_def UNCOMPRESSED_POINT_LEN_def
  SCALAR_LEN_def MAX_FIELD_BYTES_def

subsection \<open>Writer\<close>

type_synonym ssh_writer = bytes

definition sw_u32 :: "u32 \<Rightarrow> ssh_writer \<Rightarrow> ssh_writer" where
  "sw_u32 value w = w @ to_be_bytes 4 (ucast value)"

definition sw_u8 :: "u8 \<Rightarrow> ssh_writer \<Rightarrow> ssh_writer" where
  "sw_u8 value w = w @ [value]"

definition sw_string :: "bytes \<Rightarrow> ssh_writer \<Rightarrow> ssh_writer" where
  "sw_string value w = sw_u32 (word_of_nat (length value)) w @ value"

definition sw_text :: "string \<Rightarrow> ssh_writer \<Rightarrow> ssh_writer" where
  "sw_text value w = sw_string (as_bytes value) w"

text \<open>\<open>value.iter().position(|byte| *byte != 0)\<close> and the slice from there.\<close>

definition trim_zeros :: "bytes \<Rightarrow> bytes" where
  "trim_zeros value = dropWhile (\<lambda>b. b = 0) value"

definition sw_mpint :: "bytes \<Rightarrow> ssh_writer \<Rightarrow> ssh_writer" where
  "sw_mpint value w =
    (let trimmed = trim_zeros value in
     case trimmed of
       [] \<Rightarrow> sw_u32 0 w
     | b # _ \<Rightarrow>
         if b AND 0x80 \<noteq> 0 then sw_u32 (word_of_nat (length trimmed) + 1) w @ [0] @ trimmed
         else sw_string trimmed w)"

subsection \<open>Reader\<close>

record ssh_reader =
  sr_bytes :: bytes
  sr_position :: nat

definition ssh_reader_new :: "bytes \<Rightarrow> ssh_reader" where
  "ssh_reader_new b = \<lparr>sr_bytes = b, sr_position = 0\<rparr>"

text \<open>\<open>position.checked_add(n)\<close> and \<open>bytes.get(position..end)\<close>.\<close>

definition sr_slice :: "nat \<Rightarrow> ssh_reader \<Rightarrow> protocol_error + (bytes \<times> ssh_reader)" where
  "sr_slice n r =
    (if sr_position r + n \<ge> 2 ^ 64 then Inl UnexpectedEnd
     else if sr_position r + n > length (sr_bytes r) then Inl UnexpectedEnd
     else Inr (take n (drop (sr_position r) (sr_bytes r)), r\<lparr>sr_position := sr_position r + n\<rparr>))"

definition sr_u32 :: "ssh_reader \<Rightarrow> protocol_error + (u32 \<times> ssh_reader)" where
  "sr_u32 r = then_ok (sr_slice 4 r) (\<lambda>(slice, r). Inr (ucast (from_be_bytes slice), r))"

definition sr_u8 :: "ssh_reader \<Rightarrow> protocol_error + (u8 \<times> ssh_reader)" where
  "sr_u8 r =
    (if sr_position r < length (sr_bytes r)
     then Inr (sr_bytes r ! sr_position r, r\<lparr>sr_position := sr_position r + 1\<rparr>)
     else Inl UnexpectedEnd)"

definition sr_string :: "ssh_reader \<Rightarrow> protocol_error + (bytes \<times> ssh_reader)" where
  "sr_string r =
    then_ok (sr_u32 r) (\<lambda>(n, r).
    let len = unat n in
    if len > MAX_FIELD_BYTES then Inl (PayloadSize len) else sr_slice len r)"

definition sr_text :: "ssh_reader \<Rightarrow> protocol_error + (string \<times> ssh_reader)" where
  "sr_text r =
    then_ok (sr_string r) (\<lambda>(bs, r).
      case from_utf8 bs of None \<Rightarrow> Inl (InvalidText ''sshText'') | Some s \<Rightarrow> Inr (s, r))"

definition sr_remaining :: "ssh_reader \<Rightarrow> bytes" where
  "sr_remaining r = drop (sr_position r) (sr_bytes r)"

definition sr_finish :: "ssh_reader \<Rightarrow> protocol_error + unit" where
  "sr_finish r = (if sr_position r = length (sr_bytes r) then Inr () else Inl NotCanonical)"

subsection \<open>Public keys and signatures\<close>

definition encode_public_key :: "bytes \<Rightarrow> protocol_error + bytes" where
  "encode_public_key point =
    (if length point \<noteq> UNCOMPRESSED_POINT_LEN \<or> hd point \<noteq> 0x04
     then Inl (FieldLength ''sshPublicKeyPoint'' UNCOMPRESSED_POINT_LEN (length point))
     else let w = [];
              w = sw_text ECDSA_P256_NAME w;
              w = sw_text ECDSA_P256_CURVE w;
              w = sw_string point w
          in Inr w)"

definition decode_public_key :: "bytes \<Rightarrow> protocol_error + bytes" where
  "decode_public_key blob =
    then_ok (sr_text (ssh_reader_new blob)) (\<lambda>(name, r).
    if name \<noteq> ECDSA_P256_NAME then Inl InvalidOperation else
    then_ok (sr_text r) (\<lambda>(curve, r).
    if curve \<noteq> ECDSA_P256_CURVE then Inl InvalidOperation else
    then_ok (sr_string r) (\<lambda>(point, r).
    then_ok (sr_finish r) (\<lambda>_.
    if length point \<noteq> UNCOMPRESSED_POINT_LEN \<or> hd point \<noteq> 0x04
    then Inl (FieldLength ''sshPublicKeyPoint'' UNCOMPRESSED_POINT_LEN (length point))
    else Inr point))))"

definition encode_signature :: "bytes \<Rightarrow> protocol_error + bytes" where
  "encode_signature raw =
    (if length raw \<noteq> SCALAR_LEN * 2
     then Inl (FieldLength ''sshSignature'' (SCALAR_LEN * 2) (length raw))
     else let inner = sw_mpint (drop SCALAR_LEN raw) (sw_mpint (take SCALAR_LEN raw) []);
              w = [];
              w = sw_text ECDSA_P256_NAME w;
              w = sw_string inner w
          in Inr w)"

definition pad_scalar :: "bytes \<Rightarrow> protocol_error + bytes" where
  "pad_scalar scalar =
    (let trimmed = trim_zeros scalar in
     if length trimmed > SCALAR_LEN
     then Inl (FieldLength ''sshSignatureScalar'' SCALAR_LEN (length trimmed))
     else Inr (replicate (SCALAR_LEN - length trimmed) 0 @ trimmed))"

definition decode_signature :: "bytes \<Rightarrow> protocol_error + bytes" where
  "decode_signature blob =
    then_ok (sr_text (ssh_reader_new blob)) (\<lambda>(name, reader).
    if name \<noteq> ECDSA_P256_NAME then Inl InvalidOperation else
    then_ok (sr_string reader) (\<lambda>(inner, reader).
    then_ok (sr_finish reader) (\<lambda>_.
    then_ok (sr_string (ssh_reader_new inner)) (\<lambda>(r, parts).
    then_ok (sr_string parts) (\<lambda>(s, parts).
    then_ok (sr_finish parts) (\<lambda>_.
    then_ok (pad_scalar r) (\<lambda>r'.
    then_ok (pad_scalar s) (\<lambda>s'.
    Inr (r' @ s')))))))))"

subsection \<open>\<open>authorized_keys\<close>\<close>

definition BASE64_ALPHABET :: string where
  "BASE64_ALPHABET = ''ABCDEFGHIJKLMNOPQRSTUVWXYZabcdefghijklmnopqrstuvwxyz0123456789+/''"

definition base64_digit :: "u32 \<Rightarrow> nat \<Rightarrow> char" where
  "base64_digit triple shift = BASE64_ALPHABET ! unat (drop_bit shift triple AND 63)"

definition base64_triple :: "u8 \<Rightarrow> u8 \<Rightarrow> u8 \<Rightarrow> u32" where
  "base64_triple b0 b1 b2 = push_bit 16 (ucast b0) OR push_bit 8 (ucast b1) OR ucast b2"

fun base64 :: "bytes \<Rightarrow> string" where
  "base64 [] = []"
| "base64 [b0] = (let t = base64_triple b0 0 0 in
     [base64_digit t 18, base64_digit t 12, CHR ''='', CHR ''=''])"
| "base64 [b0, b1] = (let t = base64_triple b0 b1 0 in
     [base64_digit t 18, base64_digit t 12, base64_digit t 6, CHR ''=''])"
| "base64 (b0 # b1 # b2 # rest) = (let t = base64_triple b0 b1 b2 in
     [base64_digit t 18, base64_digit t 12, base64_digit t 6, base64_digit t 0] @ base64 rest)"

definition authorized_keys_line :: "bytes \<Rightarrow> string \<Rightarrow> string" where
  "authorized_keys_line blob comment =
    (let comment = map (\<lambda>c. if c = CHR 0x0A \<or> c = CHR 0x0D then CHR '' '' else c) comment in
     ECDSA_P256_NAME @ '' '' @ base64 blob @ '' '' @ comment)"

definition point_from_spki :: "bytes \<Rightarrow> protocol_error + bytes" where
  "point_from_spki spki =
    (if length spki < UNCOMPRESSED_POINT_LEN
     then Inl (FieldLength ''spki'' UNCOMPRESSED_POINT_LEN (length spki))
     else let point = drop (length spki - UNCOMPRESSED_POINT_LEN) spki in
       if hd point \<noteq> 0x04 then Inl InvalidOperation else Inr point)"

subsection \<open>The account of a userauth request\<close>

definition account_in_request :: "bytes \<Rightarrow> (string \<times> string) option" where
  "account_in_request data =
    (case then_ok (sr_string (ssh_reader_new data)) (\<lambda>(_, r).
          then_ok (sr_u8 r) (\<lambda>(tag, r).
          if tag \<noteq> 50 then Inl InvalidOperation else
          then_ok (sr_text r) (\<lambda>(user, r).
          then_ok (sr_text r) (\<lambda>(service, r).
          then_ok (sr_text r) (\<lambda>(method, r).
          if method \<noteq> ''publickey'' then Inl InvalidOperation else Inr (user, service)))))) of
       Inl _ \<Rightarrow> None
     | Inr account \<Rightarrow> Some account)"

subsection \<open>\<open>ssh.sign\<close>\<close>

definition OPERATION_SIGN :: string where "OPERATION_SIGN = ''ssh.sign''"
definition SSH_SCHEMA :: u64 where "SSH_SCHEMA = 1"
definition SIGN_REQUEST_FIELDS :: u64 where "SIGN_REQUEST_FIELDS = 4"
definition SIGN_RESPONSE_FIELDS :: u64 where "SIGN_RESPONSE_FIELDS = 2"
definition SIGNATURE_LEN :: nat where "SIGNATURE_LEN = 64"
definition MAX_SIGN_DATA_BYTES :: nat where "MAX_SIGN_DATA_BYTES = 2048"

definition check_name :: "string \<Rightarrow> protocol_error + unit" where
  "check_name value =
    (if value = [] then Inl (FieldEmpty ''verifierName'')
     else if length (chars value) > 64
     then Inl (FieldTooLong ''verifierName'' 64 (length (chars value))) else Inr ())"

definition open_ssh :: "bytes \<Rightarrow> u64 \<Rightarrow> protocol_error + reader" where
  "open_ssh payload count = open_payload SSH_SCHEMA payload count"

definition finish_ssh :: "reader \<Rightarrow> bytes \<Rightarrow> bytes \<Rightarrow> protocol_error + unit" where
  "finish_ssh r reencoded payload = finish_payload r reencoded payload"

lemma length_chars_bound: "is_str v \<Longrightarrow> length v \<le> 6 * length (chars v)"
proof -
  assume "is_str v"
  moreover have "sum_list (map len_utf16 cs) \<le> 2 * length cs" for cs
    by (induction cs) (auto simp: len_utf16_def)
  then have "utf16_len v \<le> 2 * length (chars v)" by (simp add: utf16_len_def)
  ultimately show ?thesis using utf16_len_bound [of v] by simp
qed

lemma check_name_iff [simp]:
  "check_name v = Inr u \<longleftrightarrow> v \<noteq> [] \<and> length (chars v) \<le> 64"
  "check_name v \<noteq> Inl NotCanonical"
  by (auto simp: check_name_def)

record sign_request =
  sg_verifier_name :: string
  sg_destination :: string
  sg_data :: bytes

definition validate_sign_request :: "sign_request \<Rightarrow> protocol_error + unit" where
  "validate_sign_request m =
    then_ok (check_name (sg_verifier_name m)) (\<lambda>_.
    if length (sg_destination m) > 128
    then Inl (FieldTooLong ''destination'' 128 (length (sg_destination m)))
    else if sg_data m = [] \<or> length (sg_data m) > MAX_SIGN_DATA_BYTES
    then Inl (PayloadSize (length (sg_data m))) else Inr ())"

definition encode_sign_request :: "sign_request \<Rightarrow> bytes" where
  "encode_sign_request m =
    (let w = writer_new;
         w = w_array SIGN_REQUEST_FIELDS w;
         w = w_uint SSH_SCHEMA w;
         w = w_text (sg_verifier_name m) w;
         w = w_text (sg_destination m) w;
         w = w_bytes (sg_data m) w
     in w)"

definition decode_sign_request :: "bytes \<Rightarrow> protocol_error + sign_request" where
  "decode_sign_request payload =
    then_ok (open_ssh payload SIGN_REQUEST_FIELDS) (\<lambda>r.
    then_cbor (r_text r) (\<lambda>(verifier_name', r).
    then_cbor (r_text r) (\<lambda>(destination', r).
    then_cbor (r_bytes r) (\<lambda>(data', r).
    let decoded = \<lparr>sg_verifier_name = verifier_name', sg_destination = destination', sg_data =
          data'\<rparr> in
    then_ok (finish_ssh r (encode_sign_request decoded) payload) (\<lambda>_.
    then_ok (validate_sign_request decoded) (\<lambda>_.
    Inr decoded))))))"

definition sign_request_typed :: "sign_request \<Rightarrow> bool" where
  "sign_request_typed m \<longleftrightarrow>
    is_str (sg_verifier_name m) \<and> is_str (sg_destination m)"

lemma encode_sign_request_eq: "encode_sign_request m =
    enc_array SIGN_REQUEST_FIELDS @ enc_uint SSH_SCHEMA @ enc_text (sg_verifier_name m) @
    enc_text (sg_destination m) @ enc_bytes (sg_data m)"
  by (simp add: encode_sign_request_def Let_def writer_new_def w_append)

lemma validate_sign_request_not_canonical [simp]: "validate_sign_request m \<noteq> Inl NotCanonical"
  by (auto simp: validate_sign_request_def then_ok_eq_Inl Let_def split: option.splits if_splits)

lemma decode_sign_request_encode:
  assumes "sign_request_typed m" and "validate_sign_request m = Inr ()" and "length (encode_sign_request m) \<le> MAX_APPLICATION_PAYLOAD_BYTES"
  shows "decode_sign_request (encode_sign_request m) = Inr m"
  using assms payload_slice_ok [OF assms(3)]
  by (cases m) (simp add: decode_sign_request_def Let_def reader_new_at sign_request_typed_def encode_sign_request_eq codec open_ssh_def finish_ssh_def)

lemma decode_sign_request_sound:
  assumes "decode_sign_request p = Inr m"
  shows "sign_request_typed m \<and> validate_sign_request m = Inr () \<and> encode_sign_request m = p \<and> length p \<le> MAX_APPLICATION_PAYLOAD_BYTES"
  using assms
  by (auto simp: decode_sign_request_def Let_def reader_new_at sign_request_typed_def then_ok_eq_Inr
      then_cbor_eq_Inr open_ssh_def finish_ssh_def split: if_splits dest!: strict)

lemma decode_sign_request_not_canonical: "decode_sign_request p \<noteq> Inl NotCanonical"
  by (auto simp: decode_sign_request_def Let_def reader_new_at encode_sign_request_eq then_ok_eq_Inl
      then_cbor_eq_Inl open_ssh_def finish_ssh_def split: if_splits dest!: strict)

lemma sign_request_encode_bound:
  assumes "sign_request_typed m" and "validate_sign_request m = Inr ()"
  shows "length (encode_sign_request m) \<le> MAX_APPLICATION_PAYLOAD_BYTES"
  using assms
    length_enc(1) [of "SIGN_REQUEST_FIELDS"] length_enc(2) [of "SSH_SCHEMA"]
    length_enc(4) [of "(sg_verifier_name m)"] length_enc(4) [of "(sg_destination m)"]
    length_enc(5) [of "(sg_data m)"]
  by (auto simp: encode_sign_request_eq sign_request_typed_def validate_sign_request_def then_ok_eq_Inr Let_def payload_consts MAX_SIGN_DATA_BYTES_def
      split: if_splits dest!: check_text_bound length_chars_bound)

interpretation sign_request_codec:
  bounded_frame_codec encode_sign_request decode_sign_request validate_sign_request sign_request_typed MAX_APPLICATION_PAYLOAD_BYTES
  by unfold_locales
    (auto dest: decode_sign_request_sound simp: decode_sign_request_encode decode_sign_request_not_canonical
      intro: sign_request_encode_bound)

record sign_response =
  sn_signature :: bytes

definition validate_sign_response :: "sign_response \<Rightarrow> protocol_error + unit" where
  "validate_sign_response m =
    (if length (sn_signature m) \<noteq> SIGNATURE_LEN
     then Inl (FieldLength ''signature'' SIGNATURE_LEN (length (sn_signature m))) else Inr ())"

definition encode_sign_response :: "sign_response \<Rightarrow> bytes" where
  "encode_sign_response m =
    (let w = writer_new;
         w = w_array SIGN_RESPONSE_FIELDS w;
         w = w_uint SSH_SCHEMA w;
         w = w_bytes (sn_signature m) w
     in w)"

definition decode_sign_response :: "bytes \<Rightarrow> protocol_error + sign_response" where
  "decode_sign_response payload =
    then_ok (open_ssh payload SIGN_RESPONSE_FIELDS) (\<lambda>r.
    then_cbor (r_bytes r) (\<lambda>(signature', r).
    let decoded = \<lparr>sn_signature = signature'\<rparr> in
    then_ok (finish_ssh r (encode_sign_response decoded) payload) (\<lambda>_.
    then_ok (validate_sign_response decoded) (\<lambda>_.
    Inr decoded))))"

definition sign_response_typed :: "sign_response \<Rightarrow> bool" where
  "sign_response_typed m \<longleftrightarrow>
    True"

lemma encode_sign_response_eq: "encode_sign_response m =
    enc_array SIGN_RESPONSE_FIELDS @ enc_uint SSH_SCHEMA @ enc_bytes (sn_signature m)"
  by (simp add: encode_sign_response_def Let_def writer_new_def w_append)

lemma validate_sign_response_not_canonical [simp]: "validate_sign_response m \<noteq> Inl NotCanonical"
  by (auto simp: validate_sign_response_def then_ok_eq_Inl Let_def split: option.splits if_splits)

lemma decode_sign_response_encode:
  assumes "sign_response_typed m" and "validate_sign_response m = Inr ()" and "length (encode_sign_response m) \<le> MAX_APPLICATION_PAYLOAD_BYTES"
  shows "decode_sign_response (encode_sign_response m) = Inr m"
  using assms payload_slice_ok [OF assms(3)]
  by (cases m) (simp add: decode_sign_response_def Let_def reader_new_at sign_response_typed_def encode_sign_response_eq codec open_ssh_def finish_ssh_def)

lemma decode_sign_response_sound:
  assumes "decode_sign_response p = Inr m"
  shows "sign_response_typed m \<and> validate_sign_response m = Inr () \<and> encode_sign_response m = p \<and> length p \<le> MAX_APPLICATION_PAYLOAD_BYTES"
  using assms
  by (auto simp: decode_sign_response_def Let_def reader_new_at sign_response_typed_def then_ok_eq_Inr
      then_cbor_eq_Inr open_ssh_def finish_ssh_def split: if_splits dest!: strict)

lemma decode_sign_response_not_canonical: "decode_sign_response p \<noteq> Inl NotCanonical"
  by (auto simp: decode_sign_response_def Let_def reader_new_at encode_sign_response_eq then_ok_eq_Inl
      then_cbor_eq_Inl open_ssh_def finish_ssh_def split: if_splits dest!: strict)

lemma sign_response_encode_bound:
  assumes "sign_response_typed m" and "validate_sign_response m = Inr ()"
  shows "length (encode_sign_response m) \<le> MAX_APPLICATION_PAYLOAD_BYTES"
  using assms
    length_enc(1) [of "SIGN_RESPONSE_FIELDS"] length_enc(2) [of "SSH_SCHEMA"]
    length_enc(5) [of "(sn_signature m)"]
  by (auto simp: encode_sign_response_eq sign_response_typed_def validate_sign_response_def then_ok_eq_Inr Let_def payload_consts SIGNATURE_LEN_def
      split: if_splits dest!: check_text_bound)

interpretation sign_response_codec:
  bounded_frame_codec encode_sign_response decode_sign_response validate_sign_response sign_response_typed MAX_APPLICATION_PAYLOAD_BYTES
  by unfold_locales
    (auto dest: decode_sign_response_sound simp: decode_sign_response_encode decode_sign_response_not_canonical
      intro: sign_response_encode_bound)

end
