(* ===== verification/Ssh_Keys.thy ===== *)
theory Ssh_Keys
  imports Ssh_Wire
begin

text \<open>
  What the SSH encodings of \<open>Ssh_Wire\<close> guarantee: the reader undoes the writer, a public key
  blob and a signature blob give back the bytes they were made from, an \<open>mpint\<close> is always
  positive and minimal, and the account read from a \<open>userauth\<close> request is the one it names.
\<close>

subsection \<open>The reader undoes the writer\<close>

definition ssh_at :: "bytes \<Rightarrow> bytes \<Rightarrow> ssh_reader" where
  "ssh_at pre rest = \<lparr>sr_bytes = pre @ rest, sr_position = length pre\<rparr>"

definition ssh_enc :: "bytes \<Rightarrow> bytes" where
  "ssh_enc v = to_be_bytes 4 (ucast (word_of_nat (length v) :: u32)) @ v"

lemma ssh_reader_new_at: "ssh_reader_new b = ssh_at [] b"
  by (simp add: ssh_reader_new_def ssh_at_def)

lemma sw_string_append: "sw_string v w = w @ ssh_enc v"
  by (simp add: sw_string_def sw_u32_def ssh_enc_def)

lemma sw_text_append: "sw_text v w = w @ ssh_enc (as_bytes v)"
  by (simp add: sw_text_def sw_string_append)

lemma length_ssh_enc [simp]: "length (ssh_enc v) = length v + 4"
  by (simp add: ssh_enc_def)

lemma ssh_enc_not_Nil [simp]: "ssh_enc v \<noteq> []"
  by (metis length_ssh_enc list.size(3) add_is_0 zero_neq_numeral)

lemma sr_slice_at:
  assumes "slice_ok (pre @ xs @ rest)" and "length xs = n"
  shows "sr_slice n (ssh_at pre (xs @ rest)) = Inr (xs, ssh_at (pre @ xs) rest)"
  using assms by (simp add: sr_slice_def ssh_at_def slice_ok_def)

lemma sr_u32_at:
  assumes "slice_ok (pre @ to_be_bytes 4 (ucast v) @ rest)"
  shows "sr_u32 (ssh_at pre (to_be_bytes 4 (ucast (v :: u32)) @ rest))
    = Inr (v, ssh_at (pre @ to_be_bytes 4 (ucast v)) rest)"
proof -
  have "ucast (take_bit 32 (ucast v :: u64)) = v"
    by (rule bit_word_eqI) (auto simp: bit_simps)
  then show ?thesis
    using sr_slice_at [OF assms] by (simp add: sr_u32_def)
qed

lemma sr_string_at [codec]:
  assumes "length v \<le> MAX_FIELD_BYTES" and "slice_ok (pre @ ssh_enc v @ rest)"
  shows "sr_string (ssh_at pre (ssh_enc v @ rest)) = Inr (v, ssh_at (pre @ ssh_enc v) rest)"
proof -
  have n: "unat (word_of_nat (length v) :: u32) = length v"
    using assms(1) by (simp add: unat_of_nat ssh_consts)
  have h: "sr_u32 (ssh_at pre (ssh_enc v @ rest)) = Inr (word_of_nat (length v),
      ssh_at (pre @ to_be_bytes 4 (ucast (word_of_nat (length v) :: u32))) (v @ rest))"
    using sr_u32_at [of pre "word_of_nat (length v)" "v @ rest"] assms(2) by (simp add: ssh_enc_def)
  show ?thesis
    using sr_slice_at [of "pre @ to_be_bytes 4 (ucast (word_of_nat (length v) :: u32))" v rest]
      assms
    unfolding sr_string_def h by (simp add: n ssh_enc_def)
qed

lemma sr_text_at [codec]:
  assumes "is_str v" and "length v \<le> MAX_FIELD_BYTES" and "slice_ok (pre @ ssh_enc (as_bytes v) @ rest)"
  shows "sr_text (ssh_at pre (ssh_enc (as_bytes v) @ rest)) = Inr (v, ssh_at (pre @ ssh_enc (as_bytes v)) rest)"
  using assms by (simp add: sr_text_def sr_string_at)

lemma sr_u8_at [codec]: "sr_u8 (ssh_at pre (b # rest)) = Inr (b, ssh_at (pre @ [b]) rest)"
  by (simp add: sr_u8_def ssh_at_def)

lemma sr_finish_at [simp]: "sr_finish (ssh_at pre rest) = Inr u \<longleftrightarrow> rest = []"
  by (simp add: sr_finish_def ssh_at_def)

lemma sr_finish_done [codec]: "sr_finish (ssh_at pre []) = Inr ()"
  by simp

lemmas sr_at_end =
  sr_string_at [where rest = "[]", simplified] sr_text_at [where rest = "[]", simplified]

subsection \<open>Public keys\<close>

lemma ssh_names [simp]:
  "is_str ECDSA_P256_NAME" "is_str ECDSA_P256_CURVE"
  "length ECDSA_P256_NAME = 19" "length ECDSA_P256_CURVE = 8"
  by (simp_all add: ssh_consts is_str_ascii ascii_def)

definition is_point :: "bytes \<Rightarrow> bool" where
  "is_point p \<longleftrightarrow> length p = UNCOMPRESSED_POINT_LEN \<and> hd p = 0x04"

lemma encode_public_key_iff: "encode_public_key p = Inr b \<longleftrightarrow> is_point p
    \<and> b = ssh_enc (as_bytes ECDSA_P256_NAME) @ ssh_enc (as_bytes ECDSA_P256_CURVE) @ ssh_enc p"
  by (auto simp: encode_public_key_def is_point_def sw_text_append sw_string_append Let_def)

lemma decode_encode_public_key:
  assumes "encode_public_key p = Inr b"
  shows "decode_public_key b = Inr p"
proof -
  from assms have p: "is_point p"
    and b: "b = ssh_enc (as_bytes ECDSA_P256_NAME) @ ssh_enc (as_bytes ECDSA_P256_CURVE) @ ssh_enc p"
    by (simp_all add: encode_public_key_iff)
  from p have l: "length p = 65" by (simp add: is_point_def ssh_consts)
  show ?thesis
    unfolding b decode_public_key_def ssh_reader_new_at
    using p l by (simp add: codec sr_at_end slice_ok_def MAX_FIELD_BYTES_def is_point_def)
qed

subsection \<open>Multi-precision integers\<close>

text \<open>The body of an \<open>mpint\<close> as written: empty for zero, a zero byte in front when the high bit
  of the first byte is set.\<close>

definition mpint_body :: "bytes \<Rightarrow> bytes" where
  "mpint_body v = (case trim_zeros v of [] \<Rightarrow> [] | b # bs \<Rightarrow> if b AND 0x80 \<noteq> 0 then 0 # b # bs else b # bs)"

lemma length_trim_zeros: "length (trim_zeros v) \<le> length v"
  by (simp add: trim_zeros_def length_dropWhile_le)

lemma sw_mpint_append:
  assumes "length v < 2 ^ 32 - 1"
  shows "sw_mpint v w = w @ ssh_enc (mpint_body v)"
  by (cases "trim_zeros v")
    (auto simp: sw_mpint_def mpint_body_def Let_def sw_string_append ssh_enc_def sw_u32_def add.commute)

lemma trim_zeros_hd: "trim_zeros v = b # bs \<Longrightarrow> b \<noteq> 0"
  by (induction v) (auto simp: trim_zeros_def split: if_splits)

lemma trim_zeros_body [simp]: "trim_zeros (mpint_body v) = trim_zeros v"
proof (cases "trim_zeros v")
  case Nil
  then show ?thesis by (simp add: mpint_body_def) (simp add: trim_zeros_def)
next
  case (Cons b bs)
  from trim_zeros_hd [OF this] have "b \<noteq> 0" .
  with Cons show ?thesis by (auto simp: mpint_body_def trim_zeros_def)
qed

lemma length_mpint_body: "length (mpint_body v) \<le> length v + 1"
  using length_trim_zeros [of v] by (auto simp: mpint_body_def split: list.splits)

lemma pad_trim_zeros: "replicate (length v - length (trim_zeros v)) 0 @ trim_zeros v = v"
proof (induction v)
  case Nil
  then show ?case by (simp add: trim_zeros_def)
next
  case (Cons b v)
  then show ?case
    using length_trim_zeros [of v] by (auto simp: trim_zeros_def Suc_diff_le)
qed

lemma pad_scalar_body:
  "length v = SCALAR_LEN \<Longrightarrow> pad_scalar (mpint_body v) = Inr v"
  using pad_trim_zeros [of v] length_trim_zeros [of v] by (simp add: pad_scalar_def)

lemma mpint_body_positive: "mpint_body v = [] \<or> hd (mpint_body v) AND 0x80 = 0"
  by (auto simp: mpint_body_def split: list.splits)

lemma mpint_body_minimal:
  assumes "mpint_body v = 0 # bs"
  shows "bs \<noteq> [] \<and> hd bs AND 0x80 \<noteq> 0"
proof (cases "trim_zeros v")
  case Nil
  with assms show ?thesis by (simp add: mpint_body_def)
next
  case (Cons c cs)
  from trim_zeros_hd [OF this] have "c \<noteq> 0" .
  with assms Cons have "bs = c # cs \<and> c AND 0x80 \<noteq> 0" by (simp add: mpint_body_def split: if_splits)
  then show ?thesis by simp
qed

subsection \<open>Signatures\<close>

lemma encode_signature_eq:
  assumes "length raw = SCALAR_LEN * 2"
  shows "encode_signature raw = Inr (ssh_enc (as_bytes ECDSA_P256_NAME)
    @ ssh_enc (ssh_enc (mpint_body (take SCALAR_LEN raw)) @ ssh_enc (mpint_body (drop SCALAR_LEN raw))))"
  using assms
  by (simp add: encode_signature_def Let_def sw_mpint_append sw_text_append sw_string_append ssh_consts)

lemma decode_encode_signature:
  assumes "encode_signature raw = Inr blob"
  shows "decode_signature blob = Inr raw"
proof -
  define r s where "r = mpint_body (take SCALAR_LEN raw)" and "s = mpint_body (drop SCALAR_LEN raw)"
  from assms have l: "length raw = SCALAR_LEN * 2"
    by (simp add: encode_signature_def split: if_splits)
  with assms have blob: "blob = ssh_enc (as_bytes ECDSA_P256_NAME) @ ssh_enc (ssh_enc r @ ssh_enc s)"
    by (simp add: encode_signature_eq r_def s_def)
  have rs: "length r \<le> 33" "length s \<le> 33"
    using length_mpint_body [of "take SCALAR_LEN raw"] length_mpint_body [of "drop SCALAR_LEN raw"] l
    by (simp_all add: r_def s_def ssh_consts)
  have pad: "pad_scalar r = Inr (take SCALAR_LEN raw)" "pad_scalar s = Inr (drop SCALAR_LEN raw)"
    using l by (simp_all add: r_def s_def pad_scalar_body)
  show ?thesis
    unfolding blob decode_signature_def ssh_reader_new_at
    using rs pad by (simp add: codec sr_at_end slice_ok_def MAX_FIELD_BYTES_def)
qed

lemma encode_signature_iff: "(\<exists>b. encode_signature raw = Inr b) \<longleftrightarrow> length raw = 64"
  by (auto simp: encode_signature_def Let_def ssh_consts)

subsection \<open>What a successful read says of the bytes\<close>

lemma sr_slice_strict:
  assumes "sr_slice n (ssh_at pre bs) = Inr (v, r)"
  shows "\<exists>rest. bs = v @ rest \<and> length v = n \<and> r = ssh_at (pre @ v) rest"
proof (intro exI conjI)
  from assms have n: "n \<le> length bs" and v: "v = take n bs"
    and r: "r = (ssh_at pre bs)\<lparr>sr_position := length pre + n\<rparr>"
    by (auto simp: sr_slice_def ssh_at_def split: if_splits)
  from v show "bs = v @ drop n bs" by simp
  from n v show "length v = n" by simp
  from n v r show "r = ssh_at (pre @ v) (drop n bs)" by (simp add: ssh_at_def)
qed

lemma to_be_bytes_length:
  assumes "length h = 4" and "unat (ucast (from_be_bytes h) :: u32) = n"
  shows "to_be_bytes 4 (ucast (word_of_nat n :: u32)) = h"
proof -
  have "word_of_nat n = (ucast (from_be_bytes h) :: u32)" unfolding assms(2) [symmetric] by simp
  then have "ucast (word_of_nat n :: u32) = take_bit 32 (from_be_bytes h)"
    by (simp add: unsigned_ucast_eq)
  then show ?thesis
    using to_be_bytes_take_bit [of 4 32 "from_be_bytes h"] to_from_be_bytes [of h] assms(1) by simp
qed

lemma sr_string_strict [strict]:
  assumes "sr_string (ssh_at pre bs) = Inr (v, r)"
  shows "\<exists>rest. bs = ssh_enc v @ rest \<and> r = ssh_at (pre @ ssh_enc v) rest \<and> length v \<le> MAX_FIELD_BYTES"
proof -
  from assms obtain h r' where h: "sr_slice 4 (ssh_at pre bs) = Inr (h, r')"
    and n: "unat (ucast (from_be_bytes h) :: u32) \<le> MAX_FIELD_BYTES"
    and v: "sr_slice (unat (ucast (from_be_bytes h) :: u32)) r' = Inr (v, r)"
    by (auto simp: sr_string_def sr_u32_def then_ok_eq_Inr Let_def split: if_splits)
  from sr_slice_strict [OF h] obtain rest where bs: "bs = h @ rest" and l: "length h = 4"
    and r': "r' = ssh_at (pre @ h) rest" by auto
  from sr_slice_strict [OF v [unfolded r']] obtain rest' where "rest = v @ rest'"
    and lv: "length v = unat (ucast (from_be_bytes h) :: u32)" and "r = ssh_at ((pre @ h) @ v) rest'" by auto
  moreover have "ssh_enc v = h @ v"
    using to_be_bytes_length [OF l lv [symmetric]] by (simp add: ssh_enc_def)
  ultimately show ?thesis using bs n by auto
qed

lemma sr_text_strict [strict]:
  assumes "sr_text (ssh_at pre bs) = Inr (v, r)"
  shows "\<exists>rest. bs = ssh_enc (as_bytes v) @ rest \<and> r = ssh_at (pre @ ssh_enc (as_bytes v)) rest
    \<and> length v \<le> MAX_FIELD_BYTES \<and> is_str v"
  using assms
  by (auto simp: sr_text_def then_ok_eq_Inr split: option.splits dest!: sr_string_strict from_utf8_Some)

lemma sr_u8_strict [strict]:
  "sr_u8 (ssh_at pre bs) = Inr (v, r) \<Longrightarrow> \<exists>rest. bs = v # rest \<and> r = ssh_at (pre @ [v]) rest"
  by (cases bs) (auto simp: sr_u8_def ssh_at_def)

lemma decode_public_key_sound:
  assumes "decode_public_key b = Inr p"
  shows "encode_public_key p = Inr b"
  using assms
  by (auto simp: decode_public_key_def ssh_reader_new_at encode_public_key_iff is_point_def then_ok_eq_Inr
      split: if_splits dest!: sr_text_strict sr_string_strict)

subsection \<open>The account named by a \<open>userauth\<close> request\<close>

definition publickey :: string where "publickey = ''publickey''"

lemma publickey_facts [simp]: "is_str publickey" "length publickey = 9"
  by (simp_all add: publickey_def is_str_ascii ascii_def)

lemma account_in_request_alt: "account_in_request data = Some (user, service) \<longleftrightarrow>
  (\<exists>session r1 r2 r3 r4 r5. sr_string (ssh_reader_new data) = Inr (session, r1) \<and> sr_u8 r1 = Inr (50, r2)
    \<and> sr_text r2 = Inr (user, r3) \<and> sr_text r3 = Inr (service, r4) \<and> sr_text r4 = Inr (publickey, r5))"
  by (auto simp: account_in_request_def publickey_def then_ok_eq_Inr split: sum.splits if_splits)

definition userauth_request :: "bytes \<Rightarrow> string \<Rightarrow> string \<Rightarrow> bytes \<Rightarrow> bytes" where
  "userauth_request session user service rest =
    ssh_enc session @ [50] @ ssh_enc (as_bytes user) @ ssh_enc (as_bytes service)
      @ ssh_enc (as_bytes publickey) @ rest"

lemma account_in_request_iff:
  "slice_ok data \<and> account_in_request data = Some (user, service) \<longleftrightarrow>
    slice_ok data \<and> is_str user \<and> is_str service
    \<and> length user \<le> MAX_FIELD_BYTES \<and> length service \<le> MAX_FIELD_BYTES
    \<and> (\<exists>session rest. length session \<le> MAX_FIELD_BYTES \<and> data = userauth_request session user service rest)"
proof (intro iffI conjI; (elim conjE exE)?)
  assume s: "slice_ok data" and a: "account_in_request data = Some (user, service)"
  from a obtain session r1 r2 r3 r4 r5 where "sr_string (ssh_at [] data) = Inr (session, r1)"
    "sr_u8 r1 = Inr (50, r2)" "sr_text r2 = Inr (user, r3)" "sr_text r3 = Inr (service, r4)"
    "sr_text r4 = Inr (publickey, r5)"
    unfolding account_in_request_alt ssh_reader_new_at by auto
  then have "is_str user \<and> is_str service \<and> length user \<le> MAX_FIELD_BYTES \<and> length service \<le> MAX_FIELD_BYTES
    \<and> length session \<le> MAX_FIELD_BYTES \<and> (\<exists>rest. data = userauth_request session user service rest)"
    by (auto simp: userauth_request_def dest!: sr_string_strict sr_text_strict sr_u8_strict)
  then show "is_str user" "is_str service" "length user \<le> MAX_FIELD_BYTES" "length service \<le> MAX_FIELD_BYTES"
    "\<exists>session rest. length session \<le> MAX_FIELD_BYTES \<and> data = userauth_request session user service rest"
    by blast+
next
  fix session rest
  assume "slice_ok data" "is_str user" "is_str service" "length user \<le> MAX_FIELD_BYTES"
    "length service \<le> MAX_FIELD_BYTES" "length session \<le> MAX_FIELD_BYTES"
    "data = userauth_request session user service rest"
  then show "account_in_request data = Some (user, service)"
    unfolding account_in_request_alt ssh_reader_new_at userauth_request_def
    by (simp add: codec sr_at_end MAX_FIELD_BYTES_def)
qed

end
