(* ===== verification/Encoding.thy ===== *)
theory Encoding
  imports Prelude
begin

text \<open>
  Hex and unpadded base64url: \<open>phone-auth-protocol/src/encoding.rs\<close>. The decoding loop of
  base64url keeps the source's state: the output, a 32-bit accumulator whose high bits fall
  off, and the number of bits not yet emitted.
\<close>

datatype decode_error = DecodeError string

subsection \<open>Hex\<close>

definition HEX_DIGITS :: string where "HEX_DIGITS = ''0123456789abcdef''"

fun to_hex :: "bytes \<Rightarrow> string" where
  "to_hex [] = []"
| "to_hex (b # bs) =
    HEX_DIGITS ! unat (drop_bit 4 b) # HEX_DIGITS ! unat (b AND 0x0f) # to_hex bs"

definition hex_digit :: "u8 \<Rightarrow> decode_error + u8" where
  "hex_digit b =
    (if 48 \<le> unat b \<and> unat b \<le> 57 then Inr (b - 48)
     else if 97 \<le> unat b \<and> unat b \<le> 102 then Inr (b - 97 + 10)
     else if 65 \<le> unat b \<and> unat b \<le> 70 then Inr (b - 65 + 10)
     else Inl (DecodeError ''invalid hex digit''))"

text \<open>The iterator over even offsets; the odd case cannot be reached from \<open>from_hex\<close>.\<close>

fun hex_pairs :: "bytes \<Rightarrow> decode_error + bytes" where
  "hex_pairs [] = Inr []"
| "hex_pairs [b] = Inl (DecodeError ''hex string has an odd length'')"
| "hex_pairs (a # b # rest) =
    then_ok (hex_digit a) (\<lambda>hi.
    then_ok (hex_digit b) (\<lambda>lo.
    then_ok (hex_pairs rest) (\<lambda>out. Inr ((push_bit 4 hi OR lo) # out))))"

definition from_hex :: "string \<Rightarrow> decode_error + bytes" where
  "from_hex value =
    (if length value mod 2 \<noteq> 0 then Inl (DecodeError ''hex string has an odd length'')
     else hex_pairs (as_bytes value))"

lemma all_less_16: "(\<forall>i < 16. P i) \<longleftrightarrow> list_all P [0 ..< 16]" for P :: "nat \<Rightarrow> bool"
  by (auto simp: list_all_iff)

lemma hex_digit_of_nibble: "i < 16 \<Longrightarrow> hex_digit (word_of_nat (of_char (HEX_DIGITS ! i))) = Inr (word_of_nat i)"
proof -
  have "\<forall>i < 16. hex_digit (word_of_nat (of_char (HEX_DIGITS ! i))) = Inr (word_of_nat i)"
    unfolding all_less_16 by (simp add: HEX_DIGITS_def hex_digit_def upt_rec nth_Cons')
  then show "i < 16 \<Longrightarrow> ?thesis" by simp
qed

lemma nibbles:
  fixes b :: u8
  shows "unat (drop_bit 4 b) < 16" and "unat (b AND 15) < 16"
    and "push_bit 4 (drop_bit 4 b) OR (b AND 15) = b"
proof -
  have a: "b AND 15 = take_bit 4 b" by (simp add: take_bit_eq_mask mask_eq_exp_minus_1)
  show "unat (drop_bit 4 b) < 16"
    using unsigned_less [of b, where ?'a = nat]
    by (simp only: unsigned_drop_bit_eq) (simp add: drop_bit_eq_div take_bit_eq_mod)
  show "unat (b AND 15) < 16"
    unfolding a by (simp only: unsigned_take_bit_eq) (simp add: take_bit_eq_mod)
  show "push_bit 4 (drop_bit 4 b) OR (b AND 15) = b"
    unfolding a by (rule bit_word_eqI) (auto simp: bit_simps)
qed

lemma length_to_hex [simp]: "length (to_hex bs) = 2 * length bs"
  by (induction bs) simp_all

lemma hex_pairs_to_hex: "hex_pairs (as_bytes (to_hex bs)) = Inr bs"
  by (induction bs) (simp_all add: hex_digit_of_nibble nibbles)

lemma from_hex_to_hex: "from_hex (to_hex bs) = Inr bs"
  by (simp add: from_hex_def hex_pairs_to_hex)

subsection \<open>Base64url\<close>

definition BASE64URL :: string where
  "BASE64URL = ''ABCDEFGHIJKLMNOPQRSTUVWXYZabcdefghijklmnopqrstuvwxyz0123456789-_''"

definition b64_digit :: "u32 \<Rightarrow> nat \<Rightarrow> char" where
  "b64_digit n shift = BASE64URL ! unat (drop_bit shift n AND 0x3f)"

definition b64_group :: "u8 \<Rightarrow> u8 \<Rightarrow> u8 \<Rightarrow> u32" where
  "b64_group b0 b1 b2 = push_bit 16 (ucast b0) OR push_bit 8 (ucast b1) OR ucast b2"

fun to_base64url :: "bytes \<Rightarrow> string" where
  "to_base64url [] = []"
| "to_base64url [b0] = (let n = b64_group b0 0 0 in [b64_digit n 18, b64_digit n 12])"
| "to_base64url [b0, b1] = (let n = b64_group b0 b1 0 in
     [b64_digit n 18, b64_digit n 12, b64_digit n 6])"
| "to_base64url (b0 # b1 # b2 # rest) = (let n = b64_group b0 b1 b2 in
     [b64_digit n 18, b64_digit n 12, b64_digit n 6, b64_digit n 0] @ to_base64url rest)"

text \<open>\<open>BASE64URL.iter().position(|&c| c as char == ch)\<close>.\<close>

fun position :: "nat \<Rightarrow> string \<Rightarrow> nat option" where
  "position ch [] = None"
| "position ch (c # cs) = (if of_char c = ch then Some 0 else map_option Suc (position ch cs))"

fun b64_loop :: "nat list \<Rightarrow> bytes \<Rightarrow> u32 \<Rightarrow> nat \<Rightarrow> decode_error + (bytes \<times> u32 \<times> nat)" where
  "b64_loop [] out acc bits = Inr (out, acc, bits)"
| "b64_loop (ch # rest) out acc bits =
    (if ch = of_char (CHR ''='') then Inr (out, acc, bits)
     else case position ch BASE64URL of
       None \<Rightarrow> Inl (DecodeError ''invalid base64url character'')
     | Some index \<Rightarrow>
        (let acc = push_bit 6 acc OR word_of_nat index; bits = bits + 6 in
         if bits \<ge> 8
         then let bits = bits - 8 in b64_loop rest (out @ [ucast (drop_bit bits acc)]) acc bits
         else b64_loop rest out acc bits))"

definition from_base64url :: "string \<Rightarrow> decode_error + bytes" where
  "from_base64url value =
    then_ok (b64_loop (chars value) [] 0 0) (\<lambda>(out, acc, bits).
      if bits > 0 \<and> (acc AND (push_bit bits 1 - 1)) \<noteq> 0
      then Inl (DecodeError ''base64url has non-zero trailing bits'')
      else Inr out)"

lemma position_nth: "distinct cs \<Longrightarrow> i < length cs \<Longrightarrow> position (of_char (cs ! i)) cs = Some i"
proof (induction cs arbitrary: i)
  case Nil
  then show ?case by simp
next
  case (Cons c cs)
  show ?case
  proof (cases i)
    case 0
    then show ?thesis by simp
  next
    case (Suc j)
    with Cons.prems have "cs ! j \<noteq> c" by auto
    then have "of_char c \<noteq> (of_char (cs ! j) :: nat)" by (metis of_char_eq_iff)
    with Suc Cons show ?thesis by simp
  qed
qed

lemma length_BASE64URL: "length BASE64URL = 64"
  by (simp add: BASE64URL_def)

lemma distinct_BASE64URL: "distinct BASE64URL"
  by (simp add: BASE64URL_def)

lemma set_BASE64URL: "\<forall>c \<in> set BASE64URL. of_char c \<noteq> (61 :: nat) \<and> (of_char c :: nat) < 128"
  by (simp add: BASE64URL_def)

lemma position_BASE64URL:
  assumes "i < 64"
  shows "position (of_char (BASE64URL ! i)) BASE64URL = Some i"
    and "of_char (BASE64URL ! i) \<noteq> (61 :: nat)" and "(of_char (BASE64URL ! i) :: nat) < 128"
  using assms set_BASE64URL position_nth [OF distinct_BASE64URL, of i]
  by (simp_all add: length_BASE64URL)

lemma sextet: "unat (w AND 63) < 64" for w :: u32
proof -
  have "w AND 63 = take_bit 6 w" by (simp add: take_bit_eq_mask mask_eq_exp_minus_1)
  then show ?thesis by (simp only: unsigned_take_bit_eq) (simp add: take_bit_eq_mod)
qed

text \<open>One digit of a group shifts its six bits in.\<close>

lemma b64_loop_digit:
  "b64_loop (of_char (b64_digit n s) # rest) out acc bits =
    (let acc = push_bit 6 acc OR (drop_bit s n AND 63) in
     if bits + 6 \<ge> 8
     then b64_loop rest (out @ [ucast (drop_bit (bits + 6 - 8) acc)]) acc (bits + 6 - 8)
     else b64_loop rest out acc (bits + 6))"
  using position_BASE64URL [OF sextet [of "drop_bit s n"]]
  by (simp add: b64_digit_def Let_def)

lemma b64_digit_ascii: "(of_char (b64_digit n s) :: nat) < 128"
  using position_BASE64URL(3) [OF sextet] by (simp add: b64_digit_def)

lemma to_base64url_ascii: "ascii (to_base64url bs)"
  by (induction bs rule: to_base64url.induct) (auto simp: ascii_def Let_def b64_digit_ascii)

lemma and_63: "w AND 63 = take_bit 6 w" for w :: u32
  by (simp add: take_bit_eq_mask mask_eq_exp_minus_1)

lemma bit_u8_ge: "i \<ge> 8 \<Longrightarrow> \<not> bit (b :: u8) i"
  using bit_imp_le_length [of b i] by auto

lemma bit_group:
  assumes "i < 8"
  shows "bit (b64_group b0 b1 b2) (i + 16) = bit b0 i"
    and "bit (b64_group b0 b1 b2) (i + 8) = bit b1 i"
    and "bit (b64_group b0 b1 b2) i = bit b2 i"
  using assms by (auto simp: b64_group_def bit_simps bit_u8_ge)

lemma two_digits:
  "push_bit 6 (push_bit 6 acc OR (drop_bit (k + 6) n AND 63)) OR (drop_bit k n AND 63)
    = push_bit 12 acc OR take_bit 12 (drop_bit k n)" for acc n :: u32
proof (rule bit_word_eqI)
  fix i
  assume "i < LENGTH(32)"
  consider "i < 6" | "6 \<le> i" "i < 12" | "12 \<le> i" by linarith
  then show "bit (push_bit 6 (push_bit 6 acc OR (drop_bit (k + 6) n AND 63)) OR (drop_bit k n AND 63)) i
      = bit (push_bit 12 acc OR take_bit 12 (drop_bit k n)) i"
    unfolding and_63 using \<open>i < LENGTH(32)\<close>
    by cases (auto simp: bit_simps ac_simps less_diff_conv2)
qed

lemma window:
  fixes acc n :: u32 and b :: u8
  assumes "\<And>i. i < 8 \<Longrightarrow> bit n (i + (j + k)) = bit b i" and "j \<le> 4" and "j + k < 24"
  shows "ucast (drop_bit j (push_bit 12 acc OR take_bit 12 (drop_bit k n))) = b"
proof (rule bit_word_eqI)
  fix i
  assume "i < LENGTH(8)"
  then have "i < 8" by simp
  with assms show "bit (ucast (drop_bit j (push_bit 12 acc OR take_bit 12 (drop_bit k n))) :: u8) i = bit b i"
    by (simp add: bit_simps ac_simps)
qed

definition shift_in :: "u32 \<Rightarrow> u32 \<Rightarrow> nat \<Rightarrow> u32" where
  "shift_in acc n s = push_bit 6 acc OR (drop_bit s n AND 63)"

lemma b64_loop_shift:
  "b64_loop (of_char (b64_digit n s) # rest) out acc bits =
    (if bits + 6 \<ge> 8
     then b64_loop rest (out @ [ucast (drop_bit (bits + 6 - 8) (shift_in acc n s))]) (shift_in acc n s) (bits + 6 - 8)
     else b64_loop rest out (shift_in acc n s) (bits + 6))"
  unfolding b64_loop_digit Let_def shift_in_def ..

lemma group_first:
  "ucast (drop_bit 4 (shift_in (shift_in acc (b64_group b0 b1 b2) 18) (b64_group b0 b1 b2) 12)) = b0"
  unfolding shift_in_def
  using window [of "b64_group b0 b1 b2" 4 12 b0 acc] two_digits [of acc 12 "b64_group b0 b1 b2"] bit_group
  by simp

lemma group_second:
  "ucast (drop_bit 2 (shift_in (shift_in acc (b64_group b0 b1 b2) 12) (b64_group b0 b1 b2) 6)) = b1"
  unfolding shift_in_def
  using window [of "b64_group b0 b1 b2" 2 6 b1 acc] two_digits [of acc 6 "b64_group b0 b1 b2"] bit_group
  by simp

lemma group_third:
  "ucast (shift_in (shift_in acc (b64_group b0 b1 b2) 6) (b64_group b0 b1 b2) 0) = b2"
  unfolding shift_in_def
  using window [of "b64_group b0 b1 b2" 0 0 b2 acc] two_digits [of acc 0 "b64_group b0 b1 b2"] bit_group
  by simp

lemma tail_mask: "w AND (push_bit 4 1 - 1) = take_bit 4 w" "w AND (push_bit 2 1 - 1) = take_bit 2 w" for w :: u32
  by (simp_all add: take_bit_eq_mask mask_eq_exp_minus_1)

lemma tail_zero:
  "shift_in acc (b64_group b0 0 0) 12 AND (push_bit 4 1 - 1) = 0"
  "shift_in acc (b64_group b0 b1 0) 6 AND (push_bit 2 1 - 1) = 0"
  unfolding tail_mask shift_in_def and_63 b64_group_def
  by (rule bit_word_eqI; auto simp: bit_simps)+

lemma b64_loop_to_base64url:
  "\<exists>acc' bits. b64_loop (map of_char (to_base64url bs)) out acc 0 = Inr (out @ bs, acc', bits)
     \<and> (bits > 0 \<longrightarrow> acc' AND (push_bit bits 1 - 1) = 0)"
proof (induction bs arbitrary: out acc rule: to_base64url.induct)
  case 1
  then show ?case by simp
next
  case (2 b0)
  show ?case
    by (simp del: b64_loop.simps(2) add: Let_def b64_loop_shift group_first tail_zero del: push_bit_of_1)
next
  case (3 b0 b1)
  show ?case
    by (simp del: b64_loop.simps(2) add: Let_def b64_loop_shift group_first group_second tail_zero del: push_bit_of_1)
next
  case (4 b0 b1 b2 rest)
  show ?case
    using "4.IH" [OF refl, of "out @ [b0, b1, b2]"]
    by (simp del: b64_loop.simps(2) add: Let_def b64_loop_shift group_first group_second group_third)
qed

lemma from_to_base64url: "from_base64url (to_base64url bs) = Inr bs"
proof -
  obtain acc bits where l: "b64_loop (map of_char (to_base64url bs)) [] 0 0 = Inr (bs, acc, bits)"
    and z: "bits > 0 \<longrightarrow> acc AND (push_bit bits 1 - 1) = 0"
    using b64_loop_to_base64url [of bs "[]" 0] by auto
  have "chars (to_base64url bs) = map of_char (to_base64url bs)"
    by (rule chars_ascii [OF to_base64url_ascii])
  with l z show ?thesis by (cases "bits = 0") (simp_all add: from_base64url_def del: push_bit_of_1)
qed

lemma b64_loop_padding: "b64_loop (xs @ of_char (CHR ''='') # junk) out acc bits = b64_loop xs out acc bits"
  by (induction xs arbitrary: out acc bits) (auto simp: Let_def split: option.splits)

lemma ascii_append [simp]: "ascii (xs @ ys) \<longleftrightarrow> ascii xs \<and> ascii ys"
  by (auto simp: ascii_def)

text \<open>Whatever follows a padding character is dropped, data included.\<close>

lemma from_base64url_after_padding:
  "from_base64url (to_base64url bs @ ''='' @ to_base64url cs) = from_base64url (to_base64url bs)"
proof -
  have "ascii (to_base64url bs @ ''='' @ to_base64url cs)"
    using to_base64url_ascii [of bs] to_base64url_ascii [of cs] by (auto simp: ascii_def)
  from chars_ascii [OF this] chars_ascii [OF to_base64url_ascii [of bs]]
  show ?thesis
    using b64_loop_padding by (simp add: from_base64url_def)
qed
end
