(* ===== verification/Policy.thy ===== *)
theory Policy
  imports Auth_Request
begin

text \<open>
  Local authorization policy: \<open>phone-auth-verifier/src/policy.rs\<close>. A permission names one
  service exactly and, for action, resource and user, an exact value or the wildcard.
\<close>

definition WILDCARD :: string where "WILDCARD = ''*''"

record permission =
  pm_service :: string
  pm_action :: string
  pm_resource :: string
  pm_user :: string

definition permission_service :: "string \<Rightarrow> permission" where
  "permission_service s =
    \<lparr>pm_service = s, pm_action = WILDCARD, pm_resource = WILDCARD, pm_user = WILDCARD\<rparr>"

definition with_action :: "string \<Rightarrow> permission \<Rightarrow> permission" where
  "with_action a p = p\<lparr>pm_action := a\<rparr>"

definition with_resource :: "string \<Rightarrow> permission \<Rightarrow> permission" where
  "with_resource r p = p\<lparr>pm_resource := r\<rparr>"

definition with_user :: "string \<Rightarrow> permission \<Rightarrow> permission" where
  "with_user u p = p\<lparr>pm_user := u\<rparr>"

definition matches :: "string \<Rightarrow> string \<Rightarrow> bool" where
  "matches pattern value \<longleftrightarrow> pattern = WILDCARD \<or> pattern = value"

definition allows_fields :: "permission \<Rightarrow> string \<Rightarrow> string \<Rightarrow> string \<Rightarrow> string \<Rightarrow> bool" where
  "allows_fields p svc act res usr \<longleftrightarrow>
    pm_service p \<noteq> WILDCARD \<and> pm_service p = svc \<and> matches (pm_action p) act
      \<and> matches (pm_resource p) res \<and> matches (pm_user p) usr"

definition allows :: "permission \<Rightarrow> auth_request \<Rightarrow> bool" where
  "allows p q = allows_fields p (service q) (action q) (resource q) (user q)"

definition permits_fields :: "permission list \<Rightarrow> string \<Rightarrow> string \<Rightarrow> string \<Rightarrow> string \<Rightarrow> bool" where
  "permits_fields ps svc act res usr = list_ex (\<lambda>p. allows_fields p svc act res usr) ps"

definition permits :: "permission list \<Rightarrow> auth_request \<Rightarrow> bool" where
  "permits ps q = list_ex (\<lambda>p. allows p q) ps"

subsection \<open>What a set of permissions covers\<close>

lemma permits_fields_iff: "permits_fields ps svc act res usr \<longleftrightarrow>
    svc \<noteq> WILDCARD \<and> (\<exists>p \<in> set ps. pm_service p = svc \<and> pm_action p \<in> {WILDCARD, act}
      \<and> pm_resource p \<in> {WILDCARD, res} \<and> pm_user p \<in> {WILDCARD, usr})"
  by (auto simp: permits_fields_def list_ex_iff allows_fields_def matches_def)

lemma permits_eq: "permits ps q = permits_fields ps (service q) (action q) (resource q) (user q)"
  by (simp add: permits_def permits_fields_def allows_def)

lemma permits_iff: "permits ps q \<longleftrightarrow>
    service q \<noteq> WILDCARD \<and> (\<exists>p \<in> set ps. pm_service p = service q \<and> pm_action p \<in> {WILDCARD, action q}
      \<and> pm_resource p \<in> {WILDCARD, resource q} \<and> pm_user p \<in> {WILDCARD, user q})"
  by (simp add: permits_eq permits_fields_iff)

lemma permits_Nil [simp]: "\<not> permits [] q"
  by (simp add: permits_def)

lemma permits_mono: "permits ps q \<Longrightarrow> set ps \<subseteq> set qs \<Longrightarrow> permits qs q"
  by (auto simp: permits_iff)

end
