(* ===== verification/Replay.thy ===== *)
theory Replay
  imports Prelude
begin

text \<open>
  Single-use request identifiers: \<open>phone-auth-verifier/src/replay.rs\<close>. The guard keeps the set
  of remembered ids and their order of arrival, and forgets the oldest once there are more
  than its capacity.
\<close>

definition DEFAULT_CAPACITY :: nat where "DEFAULT_CAPACITY = 1024"

record replay_guard =
  rg_capacity :: nat
  rg_seen :: "string set"
  rg_order :: "string list"

definition with_capacity :: "nat \<Rightarrow> replay_guard" where
  "with_capacity capacity = \<lparr>rg_capacity = max capacity 1, rg_seen = {}, rg_order = []\<rparr>"

definition replay_default :: replay_guard where
  "replay_default = with_capacity DEFAULT_CAPACITY"

definition consume :: "string \<Rightarrow> replay_guard \<Rightarrow> bool \<times> replay_guard" where
  "consume request_id g =
    (if request_id \<in> rg_seen g then (False, g)
     else
       let g = g\<lparr>rg_seen := insert request_id (rg_seen g)\<rparr>;
           g = g\<lparr>rg_order := rg_order g @ [request_id]\<rparr>
       in if length (rg_order g) > rg_capacity g
          then (case rg_order g of
                  [] \<Rightarrow> (True, g)
                | evicted # rest \<Rightarrow> (True, g\<lparr>rg_order := rest, rg_seen := rg_seen g - {evicted}\<rparr>))
          else (True, g))"

definition replay_contains :: "string \<Rightarrow> replay_guard \<Rightarrow> bool" where
  "replay_contains request_id g \<longleftrightarrow> request_id \<in> rg_seen g"

definition replay_len :: "replay_guard \<Rightarrow> nat" where "replay_len g = length (rg_order g)"

definition replay_is_empty :: "replay_guard \<Rightarrow> bool" where "replay_is_empty g \<longleftrightarrow> rg_order g = []"

subsection \<open>The contract: the last ids accepted, up to the capacity\<close>

definition last_n :: "nat \<Rightarrow> 'a list \<Rightarrow> 'a list" where
  "last_n n xs = drop (length xs - n) xs"

lemma length_last_n [simp]: "length (last_n n xs) = min n (length xs)"
  by (simp add: last_n_def)

lemma last_n_all: "length xs \<le> n \<Longrightarrow> last_n n xs = xs"
  by (simp add: last_n_def)

lemma last_n_append_last_n: "last_n n (last_n n xs @ ys) = last_n n (xs @ ys)"
  by (cases "length xs \<le> n") (auto simp: last_n_def add.commute)

lemma last_n_recent:
  assumes "length ys < n"
  shows "k \<in> set (last_n n (xs @ k # ys))"
proof (cases "length xs + Suc (length ys) \<le> n")
  case True
  then show ?thesis by (simp add: last_n_all)
next
  case False
  with assms have "last_n n (xs @ k # ys) = drop (Suc (length xs + length ys) - n) xs @ k # ys"
    by (simp add: last_n_def)
  then show ?thesis by simp
qed

lemma last_n_old: "n \<le> length ys \<Longrightarrow> last_n n (xs @ ys) = last_n n ys"
  by (simp add: last_n_def)

text \<open>A run of any single-use guard: the keys it accepts, and the state it ends in.\<close>

fun accepted_keys :: "('k \<Rightarrow> 's \<Rightarrow> bool \<times> 's) \<Rightarrow> 'k list \<Rightarrow> 's \<Rightarrow> 'k list" where
  "accepted_keys step [] s = []"
| "accepted_keys step (k # ks) s =
    (if fst (step k s) then k # accepted_keys step ks (snd (step k s))
     else accepted_keys step ks (snd (step k s)))"

fun after_keys :: "('k \<Rightarrow> 's \<Rightarrow> bool \<times> 's) \<Rightarrow> 'k list \<Rightarrow> 's \<Rightarrow> 's" where
  "after_keys step [] s = s"
| "after_keys step (k # ks) s = after_keys step ks (snd (step k s))"

text \<open>
  \<open>memory s\<close> is what a guard remembers, oldest first. A client that only knows these laws can
  already count how long an accepted id stays refused.
\<close>

locale single_use =
  fixes step :: "'k \<Rightarrow> 's \<Rightarrow> bool \<times> 's"
    and memory :: "'s \<Rightarrow> 'k list"
    and bound :: "'s \<Rightarrow> nat"
    and ok :: "'s \<Rightarrow> bool"
  assumes step_ok: "ok s \<Longrightarrow> ok (snd (step k s))"
    and step_bound: "bound (snd (step k s)) = bound s"
    and step_accepts: "ok s \<Longrightarrow> fst (step k s) \<longleftrightarrow> k \<notin> set (memory s)"
    and step_memory: "ok s \<Longrightarrow> memory (snd (step k s)) =
      (if k \<in> set (memory s) then memory s else last_n (bound s) (memory s @ [k]))"
    and memory_bound: "ok s \<Longrightarrow> length (memory s) \<le> bound s \<and> 0 < bound s"
begin

lemma after_ok: "ok s \<Longrightarrow> ok (after_keys step ks s)"
  by (induction ks arbitrary: s) (simp_all add: step_ok)

lemma after_bound: "bound (after_keys step ks s) = bound s"
  by (induction ks arbitrary: s) (simp_all add: step_bound)

text \<open>After any run the guard remembers exactly the last ids it accepted.\<close>

lemma memory_after:
  "ok s \<Longrightarrow> memory (after_keys step ks s) = last_n (bound s) (memory s @ accepted_keys step ks s)"
proof (induction ks arbitrary: s)
  case Nil
  then show ?case by (simp add: memory_bound last_n_all)
next
  case (Cons k ks)
  from Cons.prems have "ok (snd (step k s))" by (rule step_ok)
  from Cons.IH [OF this] Cons.prems show ?case
    by (auto simp: step_bound step_accepts step_memory last_n_append_last_n)
qed

lemma memory_after_accept:
  assumes "ok s" and "fst (step k s)"
  shows "memory (after_keys step ks (snd (step k s))) = last_n (bound s) (memory s @ k # accepted_keys step ks (snd (step k s)))"
proof -
  have "memory (after_keys step (k # ks) s) = last_n (bound s) (memory s @ accepted_keys step (k # ks) s)"
    using assms(1) by (rule memory_after)
  with assms(2) show ?thesis by simp
qed

text \<open>An accepted id is refused until as many others as the bound have been accepted\<dots>\<close>

lemma refused_within_bound:
  assumes "ok s" and "fst (step k s)" and "length (accepted_keys step ks (snd (step k s))) < bound s"
  shows "\<not> fst (step k (after_keys step ks (snd (step k s))))"
proof -
  have "k \<in> set (memory (after_keys step ks (snd (step k s))))"
    unfolding memory_after_accept [OF assms(1,2)] using assms(3) by (rule last_n_recent)
  then show ?thesis
    using step_accepts [OF after_ok [OF step_ok [OF assms(1)]]] by simp
qed

text \<open>\<dots> and no longer.\<close>

lemma accepted_again_past_bound:
  assumes "ok s" and "fst (step k s)" and "bound s \<le> length (accepted_keys step ks (snd (step k s)))"
    and "k \<notin> set ks"
  shows "fst (step k (after_keys step ks (snd (step k s))))"
proof -
  have "set (accepted_keys step ks t) \<subseteq> set ks" for t by (induction ks arbitrary: t) auto
  with assms(4) have "k \<notin> set (accepted_keys step ks (snd (step k s)))" by blast
  moreover have "set (last_n n xs) \<subseteq> set xs" for n and xs :: "'k list"
    unfolding last_n_def by (rule set_drop_subset)
  ultimately have "k \<notin> set (memory (after_keys step ks (snd (step k s))))"
    unfolding memory_after_accept [OF assms(1,2)]
    using last_n_old [of "bound s" "accepted_keys step ks (snd (step k s))" "memory s @ [k]"] assms(3) by auto
  then show ?thesis
    using step_accepts [OF after_ok [OF step_ok [OF assms(1)]]] by simp
qed

end

subsection \<open>The guard of the source meets it\<close>

definition replay_ok :: "replay_guard \<Rightarrow> bool" where
  "replay_ok g \<longleftrightarrow> rg_seen g = set (rg_order g) \<and> distinct (rg_order g)
    \<and> length (rg_order g) \<le> rg_capacity g \<and> 0 < rg_capacity g"

lemma with_capacity_ok: "replay_ok (with_capacity c)"
  by (simp add: replay_ok_def with_capacity_def)

lemma consume_seen: "request_id \<in> rg_seen g \<Longrightarrow> consume request_id g = (False, g)"
  by (simp add: consume_def)

lemma consume_fresh:
  assumes "replay_ok g" and "request_id \<notin> rg_seen g"
  shows "consume request_id g = (True, g\<lparr>rg_seen := set (last_n (rg_capacity g) (rg_order g @ [request_id])),
    rg_order := last_n (rg_capacity g) (rg_order g @ [request_id])\<rparr>)"
proof (cases "length (rg_order g) = rg_capacity g")
  case True
  with assms obtain x xs where o: "rg_order g = x # xs" by (cases "rg_order g") (auto simp: replay_ok_def)
  with True have l: "last_n (rg_capacity g) (rg_order g @ [request_id]) = xs @ [request_id]"
    by (simp add: last_n_def flip: True)
  from assms o have "insert request_id (rg_seen g) - {x} = insert request_id (set xs)"
    by (auto simp: replay_ok_def)
  with assms True o show ?thesis unfolding l by (simp add: consume_def flip: True)
next
  case False
  with assms have "length (rg_order g) < rg_capacity g" by (simp add: replay_ok_def)
  with assms show ?thesis by (simp add: consume_def last_n_all replay_ok_def)
qed

lemma replay_ok_consume: "replay_ok g \<Longrightarrow> replay_ok (snd (consume request_id g))"
proof (cases "request_id \<in> rg_seen g")
  case False
  moreover assume "replay_ok g"
  moreover from this False have "distinct (last_n (rg_capacity g) (rg_order g @ [request_id]))"
    unfolding last_n_def by (intro distinct_drop) (simp add: replay_ok_def)
  ultimately show ?thesis by (simp add: consume_fresh) (simp add: replay_ok_def)
qed (simp add: consume_seen)

interpretation guard: single_use consume rg_order rg_capacity replay_ok
proof
  fix g k
  show "rg_capacity (snd (consume k g)) = rg_capacity g"
    by (simp add: consume_def Let_def split: list.split)
  assume g: "replay_ok g"
  then show "replay_ok (snd (consume k g))" by (rule replay_ok_consume)
  show "fst (consume k g) \<longleftrightarrow> k \<notin> set (rg_order g)"
    using g consume_fresh [OF g, of k] by (cases "k \<in> rg_seen g") (auto simp: consume_seen replay_ok_def)
  show "rg_order (snd (consume k g)) =
      (if k \<in> set (rg_order g) then rg_order g else last_n (rg_capacity g) (rg_order g @ [k]))"
    using g consume_fresh [OF g, of k] by (cases "k \<in> rg_seen g") (auto simp: consume_seen replay_ok_def)
  show "length (rg_order g) \<le> rg_capacity g \<and> 0 < rg_capacity g" using g by (simp add: replay_ok_def)
qed

end
