(* ===== verification/BTree_Map.thy ===== *)
theory BTree_Map
  imports Prelude "HOL-Library.Char_ord" "HOL-Library.List_Lexorder"
begin

text \<open>
  \<open>BTreeMap\<close> of the Rust standard library: an association list kept in strictly increasing key
  order, which is the order its iterators run in. Strings compare byte by byte.
\<close>

type_synonym ('k, 'v) btree_map = "('k \<times> 'v) list"

definition bt_empty :: "('k, 'v) btree_map" where "bt_empty = []"

definition bt_get :: "'k \<Rightarrow> ('k, 'v) btree_map \<Rightarrow> 'v option" where
  "bt_get k m = map_of m k"

fun bt_insert :: "'k :: linorder \<Rightarrow> 'v \<Rightarrow> ('k, 'v) btree_map \<Rightarrow> ('k, 'v) btree_map" where
  "bt_insert k v [] = [(k, v)]"
| "bt_insert k v ((k', v') # m) =
    (if k < k' then (k, v) # (k', v') # m
     else if k = k' then (k, v) # m
     else (k', v') # bt_insert k v m)"

definition bt_remove :: "'k \<Rightarrow> ('k, 'v) btree_map \<Rightarrow> ('k, 'v) btree_map" where
  "bt_remove k m = filter (\<lambda>e. fst e \<noteq> k) m"

definition bt_values :: "('k, 'v) btree_map \<Rightarrow> 'v list" where
  "bt_values m = map snd m"

definition bt_collect :: "('k :: linorder \<times> 'v) list \<Rightarrow> ('k, 'v) btree_map" where
  "bt_collect es = fold (\<lambda>(k, v). bt_insert k v) es bt_empty"

definition bt_ok :: "('k :: linorder, 'v) btree_map \<Rightarrow> bool" where
  "bt_ok m \<longleftrightarrow> sorted_wrt (<) (map fst m)"

subsection \<open>The contract of a keyed map\<close>

locale keyed_map =
  fixes get :: "'k \<Rightarrow> 'm \<Rightarrow> 'v option"
    and ins :: "'k \<Rightarrow> 'v \<Rightarrow> 'm \<Rightarrow> 'm"
    and del :: "'k \<Rightarrow> 'm \<Rightarrow> 'm"
    and vals :: "'m \<Rightarrow> 'v list"
    and ok :: "'m \<Rightarrow> bool"
  assumes ok_ins: "ok m \<Longrightarrow> ok (ins k v m)"
    and ok_del: "ok m \<Longrightarrow> ok (del k m)"
    and get_ins: "ok m \<Longrightarrow> get j (ins k v m) = (if j = k then Some v else get j m)"
    and get_del: "ok m \<Longrightarrow> get j (del k m) = (if j = k then None else get j m)"
    and set_vals: "ok m \<Longrightarrow> v \<in> set (vals m) \<longleftrightarrow> (\<exists>k. get k m = Some v)"
begin

text \<open>A property of all entries survives an insertion that has it, and any removal.\<close>

lemma all_ins: "ok m \<Longrightarrow> \<forall>k v. get k m = Some v \<longrightarrow> P k v \<Longrightarrow> P k v \<Longrightarrow>
    \<forall>j w. get j (ins k v m) = Some w \<longrightarrow> P j w"
  by (simp add: get_ins)

lemma all_del: "ok m \<Longrightarrow> \<forall>k v. get k m = Some v \<longrightarrow> P k v \<Longrightarrow>
    \<forall>j w. get j (del k m) = Some w \<longrightarrow> P j w"
  by (simp add: get_del)

lemma vals_ins: "ok m \<Longrightarrow> set (vals (ins k v m)) = insert v {w. \<exists>j. j \<noteq> k \<and> get j m = Some w}"
  using set_vals [OF ok_ins] by (fastforce simp: get_ins split: if_splits)

text \<open>The first hit of a search over the values is the only one when at most one entry hits.\<close>

lemma find_unique:
  assumes "ok m" and "get k m = Some v" and "f v = Some x"
    and "\<And>j w. get j m = Some w \<Longrightarrow> f w \<noteq> None \<Longrightarrow> w = v"
  shows "List.find (\<lambda>w. f w \<noteq> None) (vals m) = Some v"
proof -
  have "v \<in> set (vals m)" using assms(1,2) set_vals by blast
  with assms(3) have "List.find (\<lambda>w. f w \<noteq> None) (vals m) \<noteq> None"
    by (auto simp: find_None_iff)
  then obtain w where w: "List.find (\<lambda>w. f w \<noteq> None) (vals m) = Some w" by auto
  then have "w \<in> set (vals m)" "f w \<noteq> None" by (auto simp: find_Some_iff)
  with assms(1,4) set_vals have "w = v" by blast
  with w show ?thesis by simp
qed

end

subsection \<open>The map meets it\<close>

lemma bt_get_insert:
  "bt_ok m \<Longrightarrow> bt_get j (bt_insert k v m) = (if j = k then Some v else bt_get j m)"
  by (induction m) (auto simp: bt_get_def bt_ok_def)

lemma bt_keys_insert: "set (map fst (bt_insert k v m)) = insert k (set (map fst m))"
  by (induction k v m rule: bt_insert.induct) (simp_all add: insert_commute)

lemma bt_ok_insert: "bt_ok m \<Longrightarrow> bt_ok (bt_insert k v m)"
proof (induction m)
  case Nil
  then show ?case by (simp add: bt_ok_def)
next
  case (Cons e m)
  then show ?case
    using bt_keys_insert [of k v m] by (cases e) (auto simp: bt_ok_def)
qed

lemma bt_get_remove: "bt_get j (bt_remove k m) = (if j = k then None else bt_get j m)"
  by (induction m) (auto simp: bt_get_def bt_remove_def)

lemma bt_ok_remove: "bt_ok m \<Longrightarrow> bt_ok (bt_remove k m)"
  by (induction m) (auto simp: bt_ok_def bt_remove_def)

lemma bt_ok_distinct: "bt_ok m \<Longrightarrow> distinct (map fst m)"
  by (simp add: bt_ok_def strict_sorted_iff)

interpretation btree: keyed_map bt_get bt_insert bt_remove bt_values bt_ok
proof
  fix m :: "('k :: linorder, 'v) btree_map" and j k v
  assume ok: "bt_ok m"
  show "bt_ok (bt_insert k v m)" using ok by (rule bt_ok_insert)
  show "bt_ok (bt_remove k m)" using ok by (rule bt_ok_remove)
  show "bt_get j (bt_insert k v m) = (if j = k then Some v else bt_get j m)"
    using ok by (rule bt_get_insert)
  show "bt_get j (bt_remove k m) = (if j = k then None else bt_get j m)"
    by (rule bt_get_remove)
  show "v \<in> set (bt_values m) \<longleftrightarrow> (\<exists>k. bt_get k m = Some v)"
    using bt_ok_distinct [OF ok] by (force simp: bt_values_def bt_get_def)
qed

lemma bt_ok_empty [simp]: "bt_ok bt_empty"
  by (simp add: bt_ok_def bt_empty_def)

lemma bt_ok_collect [simp]: "bt_ok (bt_collect es)"
proof -
  have "bt_ok m \<Longrightarrow> bt_ok (fold (\<lambda>(k, v). bt_insert k v) es m)" for m
    by (induction es arbitrary: m) (auto simp: bt_ok_insert)
  then show ?thesis by (simp add: bt_collect_def)
qed

text \<open>Collecting the entries of a map gives the map back.\<close>

lemma bt_insert_above:
  "\<forall>e \<in> set m. fst e < k \<Longrightarrow> bt_insert k v m = m @ [(k, v)]"
  by (induction m) auto

lemma bt_collect_entries:
  assumes "bt_ok m"
  shows "bt_collect m = m"
  using assms
proof (induction m rule: rev_induct)
  case Nil
  then show ?case by (simp add: bt_collect_def bt_empty_def)
next
  case (snoc e m)
  then have "bt_ok m" and "\<forall>e' \<in> set m. fst e' < fst e"
    by (auto simp: bt_ok_def sorted_wrt_append)
  with snoc.IH show ?case by (cases e) (simp add: bt_collect_def bt_insert_above)
qed

end
