(* ===== verification/File_System.thy ===== *)
theory File_System
  imports Prelude
begin

text \<open>
  The part of \<open>std::fs\<close> the program uses, one operation per call: files have contents and
  permission bits, every call may fail, a failing write may leave a prefix behind, a rename
  is atomic. A run that stops at a failing call is also the run of a process killed there.
\<close>

type_synonym path = string

datatype io_error = NotFound | AlreadyExists | UnexpectedEof | OtherIo nat

text \<open>\<open>ErrorKind::InvalidData\<close>, for contents that do not parse.\<close>

definition invalid_data :: io_error where "invalid_data = OtherIo 0"

record fs_file =
  fl_content :: bytes
  fl_mode :: nat

text \<open>
  \<open>w_faults\<close> decides the outcome of the coming calls: \<open>None\<close> lets a call run, \<open>Some (e, n)\<close>
  makes it fail with \<open>e\<close>, after \<open>n\<close> bytes if it is a write. Past its end every call runs.
\<close>

record world =
  w_files :: "path \<Rightarrow> fs_file option"
  w_new_mode :: nat
  w_faults :: "(io_error \<times> nat) option list"

text \<open>Computations over any world \<open>'w\<close>; the calls of this theory run over \<open>world\<close>.\<close>

type_synonym ('w, 'e, 'a) io_on = "'w \<Rightarrow> ('e + 'a) \<times> 'w"
type_synonym ('e, 'a) io = "(world, 'e, 'a) io_on"

definition io_return :: "'a \<Rightarrow> ('w, 'e, 'a) io_on" where
  "io_return x w = (Inr x, w)"

definition io_fail :: "'e \<Rightarrow> ('w, 'e, 'a) io_on" where
  "io_fail e w = (Inl e, w)"

definition io_bind :: "('w, 'e, 'a) io_on \<Rightarrow> ('a \<Rightarrow> ('w, 'e, 'b) io_on) \<Rightarrow> ('w, 'e, 'b) io_on" where
  "io_bind m k w = (case m w of (Inl e, w') \<Rightarrow> (Inl e, w') | (Inr x, w') \<Rightarrow> k x w')"

text \<open>\<open>match call { Ok(v) => ..., Err(e) => ... }\<close>.\<close>

definition io_match ::
  "('w, 'e, 'a) io_on \<Rightarrow> ('a \<Rightarrow> ('w, 'f, 'b) io_on) \<Rightarrow> ('e \<Rightarrow> ('w, 'f, 'b) io_on) \<Rightarrow> ('w, 'f, 'b) io_on" where
  "io_match m k h w = (case m w of (Inl e, w') \<Rightarrow> h e w' | (Inr x, w') \<Rightarrow> k x w')"

definition io_map_err :: "('e \<Rightarrow> 'f) \<Rightarrow> ('w, 'e, 'a) io_on \<Rightarrow> ('w, 'f, 'a) io_on" where
  "io_map_err f m w = (case m w of (Inl e, w') \<Rightarrow> (Inl (f e), w') | (Inr x, w') \<Rightarrow> (Inr x, w'))"

text \<open>A call that cannot fail, and a result that needs no call.\<close>

definition io_get :: "('w \<Rightarrow> 'a \<times> 'w) \<Rightarrow> ('w, 'e, 'a) io_on" where
  "io_get f w = (case f w of (x, w') \<Rightarrow> (Inr x, w'))"

definition io_of :: "'e + 'a \<Rightarrow> ('w, 'e, 'a) io_on" where
  "io_of r w = (r, w)"

subsection \<open>The calls\<close>

definition w_call :: "(io_error \<times> nat \<Rightarrow> world \<Rightarrow> world) \<Rightarrow> (io_error, 'a) io \<Rightarrow> (io_error, 'a) io" where
  "w_call on_fault act w =
    (case w_faults w of
       [] \<Rightarrow> act w
     | None # fs \<Rightarrow> act (w\<lparr>w_faults := fs\<rparr>)
     | Some f # fs \<Rightarrow> (Inl (fst f), on_fault f (w\<lparr>w_faults := fs\<rparr>)))"

definition w_put :: "path \<Rightarrow> fs_file \<Rightarrow> world \<Rightarrow> world" where
  "w_put p f w = w\<lparr>w_files := (w_files w)(p \<mapsto> f)\<rparr>"

definition fs_read :: "path \<Rightarrow> (io_error, bytes) io" where
  "fs_read p = w_call (\<lambda>_ w. w) (\<lambda>w.
    (case w_files w p of None \<Rightarrow> (Inl NotFound, w) | Some f \<Rightarrow> (Inr (fl_content f), w)))"

definition fs_create_dir_all :: "path \<Rightarrow> (io_error, unit) io" where
  "fs_create_dir_all p = w_call (\<lambda>_ w. w) (\<lambda>w. (Inr (), w))"

definition fs_create_new :: "path \<Rightarrow> (io_error, unit) io" where
  "fs_create_new p = w_call (\<lambda>_ w. w) (\<lambda>w.
    (case w_files w p of
       Some f \<Rightarrow> (Inl AlreadyExists, w)
     | None \<Rightarrow> (Inr (), w_put p \<lparr>fl_content = [], fl_mode = w_new_mode w\<rparr> w)))"

definition fs_remove_file :: "path \<Rightarrow> (io_error, unit) io" where
  "fs_remove_file p = w_call (\<lambda>_ w. w) (\<lambda>w.
    (case w_files w p of
       None \<Rightarrow> (Inl NotFound, w)
     | Some f \<Rightarrow> (Inr (), w\<lparr>w_files := (w_files w)(p := None)\<rparr>)))"

definition fs_set_permissions :: "path \<Rightarrow> nat \<Rightarrow> (io_error, unit) io" where
  "fs_set_permissions p mode = w_call (\<lambda>_ w. w) (\<lambda>w.
    (case w_files w p of
       None \<Rightarrow> (Inl NotFound, w)
     | Some f \<Rightarrow> (Inr (), w_put p (f\<lparr>fl_mode := mode\<rparr>) w)))"

definition fs_append :: "path \<Rightarrow> bytes \<Rightarrow> world \<Rightarrow> world" where
  "fs_append p bs w = (case w_files w p of
       None \<Rightarrow> w
     | Some f \<Rightarrow> w_put p (f\<lparr>fl_content := fl_content f @ bs\<rparr>) w)"

definition fs_write_all :: "path \<Rightarrow> bytes \<Rightarrow> (io_error, unit) io" where
  "fs_write_all p bs = w_call (\<lambda>f w. fs_append p (take (snd f) bs) w)
    (\<lambda>w. (Inr (), fs_append p bs w))"

text \<open>
  \<open>OpenOptions\<close> with \<open>create\<close> and \<open>mode\<close>: the bits of a new file are those asked for that the umask
  leaves, and \<open>w_new_mode\<close> is what it leaves of \<open>0o666\<close>. A file that exists keeps its bits.
\<close>

definition fs_open_append :: "path \<Rightarrow> nat \<Rightarrow> (io_error, unit) io" where
  "fs_open_append p mode = w_call (\<lambda>_ w. w) (\<lambda>w.
    (case w_files w p of
       Some f \<Rightarrow> (Inr (), w)
     | None \<Rightarrow> (Inr (), w_put p \<lparr>fl_content = [], fl_mode = mode AND w_new_mode w\<rparr> w)))"

definition fs_open_truncate :: "path \<Rightarrow> nat \<Rightarrow> (io_error, unit) io" where
  "fs_open_truncate p mode = w_call (\<lambda>_ w. w) (\<lambda>w.
    (case w_files w p of
       Some f \<Rightarrow> (Inr (), w_put p (f\<lparr>fl_content := []\<rparr>) w)
     | None \<Rightarrow> (Inr (), w_put p \<lparr>fl_content = [], fl_mode = mode AND w_new_mode w\<rparr> w)))"

text \<open>\<open>std::fs::write\<close>: \<open>0o666\<close> is what \<open>File::create\<close> asks for.\<close>

definition fs_write :: "path \<Rightarrow> bytes \<Rightarrow> (io_error, unit) io" where
  "fs_write p bs w = io_bind (fs_open_truncate p 0x1B6) (\<lambda>_. fs_write_all p bs) w"

definition fs_metadata_len :: "path \<Rightarrow> (io_error, nat) io" where
  "fs_metadata_len p = w_call (\<lambda>_ w. w) (\<lambda>w.
    (case w_files w p of None \<Rightarrow> (Inl NotFound, w) | Some f \<Rightarrow> (Inr (length (fl_content f)), w)))"

definition fs_open_read :: "path \<Rightarrow> (io_error, unit) io" where
  "fs_open_read p = w_call (\<lambda>_ w. w) (\<lambda>w.
    (case w_files w p of None \<Rightarrow> (Inl NotFound, w) | Some f \<Rightarrow> (Inr (), w)))"

text \<open>What a reader gets of an open file, and whether an error ended it, after some bytes.\<close>

definition fs_read_stream :: "path \<Rightarrow> world \<Rightarrow> (bytes \<times> bool) \<times> world" where
  "fs_read_stream p w =
    (let content = (case w_files w p of None \<Rightarrow> [] | Some f \<Rightarrow> fl_content f) in
     case w_faults w of
       [] \<Rightarrow> ((content, False), w)
     | None # fs \<Rightarrow> ((content, False), w\<lparr>w_faults := fs\<rparr>)
     | Some f # fs \<Rightarrow> ((take (snd f) content, True), w\<lparr>w_faults := fs\<rparr>))"

definition fs_sync_all :: "path \<Rightarrow> (io_error, unit) io" where
  "fs_sync_all p = w_call (\<lambda>_ w. w) (\<lambda>w. (Inr (), w))"

definition fs_rename :: "path \<Rightarrow> path \<Rightarrow> (io_error, unit) io" where
  "fs_rename a b = w_call (\<lambda>_ w. w) (\<lambda>w.
    (case w_files w a of
       None \<Rightarrow> (Inl NotFound, w)
     | Some f \<Rightarrow> (Inr (), w\<lparr>w_files := (w_files w)(a := None, b \<mapsto> f)\<rparr>)))"

subsection \<open>Paths\<close>

text \<open>\<open>Path::parent\<close> and \<open>Path::with_extension\<close>, for paths without a trailing slash.\<close>

definition file_name :: "path \<Rightarrow> string" where
  "file_name p = rev (takeWhile (\<lambda>c. c \<noteq> CHR ''/'') (rev p))"

definition parent_of :: "path \<Rightarrow> path option" where
  "parent_of p = (if p = [] \<or> p = ''/'' then None
    else case dropWhile (\<lambda>c. c \<noteq> CHR ''/'') (rev p) of
        [] \<Rightarrow> Some []
      | [c] \<Rightarrow> Some ''/''
      | c # d \<Rightarrow> Some (rev d))"

text \<open>The stem is the name up to its last dot, unless that dot begins the name.\<close>

definition file_stem :: "string \<Rightarrow> string" where
  "file_stem n = (let s = dropWhile (\<lambda>c. c \<noteq> CHR ''.'') (rev n) in
     if length s \<le> 1 then n else rev (tl s))"

definition with_extension :: "path \<Rightarrow> string \<Rightarrow> path" where
  "with_extension p ext =
    take (length p - length (file_name p)) p @ file_stem (file_name p) @ ''.'' @ ext"

text \<open>\<open>join\<close> with a relative name.\<close>

definition path_join :: "path \<Rightarrow> string \<Rightarrow> path" where
  "path_join p n = (if p = [] then n else if last p = CHR ''/'' then p @ n else p @ ''/'' @ n)"

lemma file_name_suffix: "take (length p - length (file_name p)) p @ file_name p = p"
proof -
  have "rev p = takeWhile (\<lambda>c. c \<noteq> CHR ''/'') (rev p) @ dropWhile (\<lambda>c. c \<noteq> CHR ''/'') (rev p)" by simp
  then have "p = rev (dropWhile (\<lambda>c. c \<noteq> CHR ''/'') (rev p)) @ file_name p"
    unfolding file_name_def by (metis rev_append rev_rev_ident)
  then show ?thesis by (metis append_eq_conv_conj append_take_drop_id diff_add_inverse2 length_append)
qed

lemma file_stem_dot:
  "file_stem n = n \<or> (\<exists>e. n = file_stem n @ ''.'' @ e \<and> CHR ''.'' \<notin> set e)"
proof -
  let ?d = "\<lambda>c. c \<noteq> CHR ''.''"
  have n: "n = rev (dropWhile ?d (rev n)) @ rev (takeWhile ?d (rev n))"
    by (metis rev_append rev_rev_ident takeWhile_dropWhile_id)
  show ?thesis
  proof (cases "dropWhile ?d (rev n)")
    case Nil
    then show ?thesis by (simp only: file_stem_def Let_def Nil) simp
  next
    case (Cons c t)
    then have c: "c = CHR ''.''" using hd_dropWhile [of ?d "rev n"] by simp
    have n': "n = rev t @ ''.'' @ rev (takeWhile ?d (rev n))" using n unfolding Cons c by simp
    have e: "CHR ''.'' \<notin> set (rev (takeWhile ?d (rev n)))" by (auto dest: set_takeWhileD)
    have "file_stem n = (if t = [] then n else rev t)"
      unfolding file_stem_def Let_def Cons by (cases t) simp_all
    with n' e show ?thesis by (metis (no_types, lifting))
  qed
qed

text \<open>An extension with a dot in it never gives back the path it was put on.\<close>

lemma with_extension_neq:
  assumes "CHR ''.'' \<in> set ext"
  shows "with_extension p ext \<noteq> p"
proof
  assume "with_extension p ext = p"
  then have "file_stem (file_name p) @ ''.'' @ ext = file_name p"
    using file_name_suffix [of p] unfolding with_extension_def by (metis append_same_eq same_append_eq)
  with file_stem_dot [of "file_name p"] assms show False
    by (metis append_Cons append_Nil append_self_conv list.distinct(1) list.inject same_append_eq)
qed

subsection \<open>What a call can change\<close>

lemma io_bind_simps:
  "m w = (Inl e, w') \<Longrightarrow> io_bind m k w = (Inl e, w')"
  "m w = (Inr x, w') \<Longrightarrow> io_bind m k w = k x w'"
  by (simp_all add: io_bind_def)

text \<open>When a computation returns, in terms of its parts.\<close>

lemmas io_defs = io_bind_def io_map_err_def io_of_def io_get_def io_return_def io_fail_def

lemma io_bind_iff: "io_bind m k w = (Inr x, w') \<longleftrightarrow> (\<exists>y w1. m w = (Inr y, w1) \<and> k y w1 = (Inr x, w'))"
  by (auto simp: io_defs split: sum.splits prod.splits)

lemma io_map_err_io_iff: "io_map_err f m w = (Inr x, w') \<longleftrightarrow> m w = (Inr x, w')"
  by (auto simp: io_defs split: sum.splits prod.splits)

lemma io_of_iff: "io_of r w = (Inr x, w') \<longleftrightarrow> r = Inr x \<and> w' = w"
  by (auto simp: io_defs split: sum.splits prod.splits)

lemma io_get_iff: "io_get g w = (Inr x, w') \<longleftrightarrow> g w = (x, w')"
  by (auto simp: io_defs split: sum.splits prod.splits)

lemma io_return_iff: "io_return y w = (Inr x, w') \<longleftrightarrow> y = x \<and> w' = w"
  by (auto simp: io_defs split: sum.splits prod.splits)

lemma io_fail_iff: "\<not> io_fail e w = (Inr x, w')"
  by (auto simp: io_defs split: sum.splits prod.splits)

lemmas io_runs = io_bind_iff io_map_err_io_iff io_of_iff io_get_iff io_return_iff io_fail_iff

text \<open>
  A Hoare triple with one postcondition for each way out: from a world satisfying \<open>P\<close>, \<open>m\<close>
  ends in one satisfying \<open>E\<close> when it fails and \<open>Q x\<close> when it returns \<open>x\<close>.
\<close>

definition io_triple ::
  "('w \<Rightarrow> bool) \<Rightarrow> ('w, 'e, 'a) io_on \<Rightarrow> ('a \<Rightarrow> 'w \<Rightarrow> bool) \<Rightarrow> ('w \<Rightarrow> bool) \<Rightarrow> bool" where
  "io_triple P m Q E \<longleftrightarrow> (\<forall>w. P w \<longrightarrow> (case m w of (Inl e, w') \<Rightarrow> E w' | (Inr x, w') \<Rightarrow> Q x w'))"

lemma io_tripleI:
  assumes "\<And>w e w'. P w \<Longrightarrow> m w = (Inl e, w') \<Longrightarrow> E w'"
    and "\<And>w x w'. P w \<Longrightarrow> m w = (Inr x, w') \<Longrightarrow> Q x w'"
  shows "io_triple P m Q E"
  unfolding io_triple_def
proof (intro allI impI)
  fix w assume "P w"
  with assms show "case m w of (Inl e, w') \<Rightarrow> E w' | (Inr x, w') \<Rightarrow> Q x w'"
    by (cases "m w"; cases "fst (m w)") auto
qed

lemma io_tripleD:
  assumes "io_triple P m Q E" and "P w"
  shows "m w = (Inl e, w') \<Longrightarrow> E w'" and "m w = (Inr x, w') \<Longrightarrow> Q x w'"
  using assms by (auto simp: io_triple_def)

lemma io_triple_bind:
  assumes m: "io_triple P m Q E" and k: "\<And>x. io_triple (Q x) (k x) R E"
  shows "io_triple P (io_bind m k) R E"
proof (rule io_tripleI)
  fix w e w' assume "P w" and r: "io_bind m k w = (Inl e, w')"
  obtain a u where mw: "m w = (a, u)" by fastforce
  show "E w'"
  proof (cases a)
    case (Inl d)
    with mw r have "w' = u" by (simp add: io_bind_def)
    with io_tripleD(1) [OF m \<open>P w\<close>] mw Inl show ?thesis by simp
  next
    case (Inr x)
    with mw r have "k x u = (Inl e, w')" by (simp add: io_bind_def)
    with io_tripleD(1) [OF k] io_tripleD(2) [OF m \<open>P w\<close>] mw Inr show ?thesis by blast
  qed
next
  fix w x w' assume "P w" and r: "io_bind m k w = (Inr x, w')"
  obtain a u where mw: "m w = (a, u)" by fastforce
  show "R x w'"
  proof (cases a)
    case (Inl d)
    with mw r show ?thesis by (simp add: io_bind_def)
  next
    case (Inr y)
    with mw r have "k y u = (Inr x, w')" by (simp add: io_bind_def)
    with io_tripleD(2) [OF k] io_tripleD(2) [OF m \<open>P w\<close>] mw Inr show ?thesis by blast
  qed
qed

named_theorems io_rules "how each file-system call changes the world"

text \<open>Everything but the scratch file \<open>t\<close> is as \<open>F\<close> says.\<close>

definition only_changes :: "path \<Rightarrow> (path \<Rightarrow> fs_file option) \<Rightarrow> world \<Rightarrow> bool" where
  "only_changes t F w \<longleftrightarrow> (\<forall>q. q \<noteq> t \<longrightarrow> w_files w q = F q)"

definition scratch_holds :: "path \<Rightarrow> (path \<Rightarrow> fs_file option) \<Rightarrow> (fs_file \<Rightarrow> bool) \<Rightarrow> world \<Rightarrow> bool" where
  "scratch_holds t F R w \<longleftrightarrow> only_changes t F w \<and> (\<exists>f. w_files w t = Some f \<and> R f)"

lemmas fs_call_defs = w_call_def w_put_def fs_append_def only_changes_def scratch_holds_def

lemma create_dir_all_triple [io_rules]:
  "io_triple (only_changes t F) (fs_create_dir_all p) (\<lambda>_. only_changes t F) (only_changes t F)"
  by (rule io_tripleI) (auto simp: fs_create_dir_all_def fs_call_defs split: list.splits option.splits)

lemma create_new_triple [io_rules]:
  "io_triple (only_changes t F) (fs_create_new t)
    (\<lambda>_. scratch_holds t F (\<lambda>f. fl_content f = [])) (only_changes t F)"
  by (rule io_tripleI) (auto simp: fs_create_new_def fs_call_defs split: list.splits option.splits)

lemma remove_file_triple [io_rules]:
  "io_triple (only_changes t F) (fs_remove_file t) (\<lambda>_. only_changes t F) (only_changes t F)"
  by (rule io_tripleI) (auto simp: fs_remove_file_def fs_call_defs split: list.splits option.splits)

lemma set_permissions_triple [io_rules]:
  "io_triple (scratch_holds t F (\<lambda>f. fl_content f = c)) (fs_set_permissions t m)
    (\<lambda>_. scratch_holds t F (\<lambda>f. fl_content f = c \<and> fl_mode f = m)) (only_changes t F)"
  by (rule io_tripleI) (auto simp: fs_set_permissions_def fs_call_defs split: list.splits option.splits)

lemma write_all_triple [io_rules]:
  "io_triple (scratch_holds t F (\<lambda>f. fl_content f = c \<and> fl_mode f = m)) (fs_write_all t bs)
    (\<lambda>_. scratch_holds t F (\<lambda>f. f = \<lparr>fl_content = c @ bs, fl_mode = m\<rparr>)) (only_changes t F)"
  by (rule io_tripleI) (auto simp: fs_write_all_def fs_call_defs split: list.splits option.splits)

lemma sync_all_triple [io_rules]:
  "io_triple (scratch_holds t F R) (fs_sync_all t) (\<lambda>_. scratch_holds t F R) (only_changes t F)"
  by (rule io_tripleI) (auto simp: fs_sync_all_def fs_call_defs split: list.splits option.splits)

definition replaced :: "path \<Rightarrow> path \<Rightarrow> (path \<Rightarrow> fs_file option) \<Rightarrow> fs_file \<Rightarrow> world \<Rightarrow> bool" where
  "replaced t p F f w \<longleftrightarrow> w_files w = (F(t := None))(p \<mapsto> f)"

lemma rename_triple [io_rules]:
  "io_triple (scratch_holds t F (\<lambda>f. f = g)) (fs_rename t p) (\<lambda>_. replaced t p F g) (only_changes t F)"
  by (rule io_tripleI)
    (auto simp: fs_rename_def fs_call_defs replaced_def fun_eq_iff split: list.splits option.splits)

lemma io_return_triple [io_rules]: "io_triple (Q x) (io_return x) Q E"
  by (rule io_tripleI) (auto simp: io_return_def)

lemma io_fail_triple [io_rules]: "io_triple E (io_fail e) Q E"
  by (rule io_tripleI) (auto simp: io_fail_def)

lemma io_map_err_triple:
  assumes "io_triple P m Q E"
  shows "io_triple P (io_map_err f m) Q E"
  by (rule io_tripleI)
    (auto simp: io_map_err_def split: prod.splits sum.splits intro: io_tripleD [OF assms])

lemma io_match_triple:
  assumes m: "io_triple P m Q E" and k: "\<And>x. io_triple (Q x) (k x) R D"
    and h: "\<And>e. io_triple E (h e) R D"
  shows "io_triple P (io_match m k h) R D"
  by (rule io_tripleI)
    (auto simp: io_match_def split: prod.splits sum.splits
      intro: io_tripleD [OF k io_tripleD(2) [OF m]] io_tripleD [OF h io_tripleD(1) [OF m]])

lemma io_triple_weaken:
  assumes "io_triple P m Q E" and "\<And>x w. Q x w \<Longrightarrow> Q' x w" and "\<And>w. E w \<Longrightarrow> E' w"
  shows "io_triple P m Q' E'"
  using assms unfolding io_triple_def by (fastforce split: prod.splits sum.splits)

lemma io_return_weak: "(\<And>w. P w \<Longrightarrow> Q x w) \<Longrightarrow> io_triple P (io_return x) Q E"
  by (rule io_tripleI) (auto simp: io_return_def)

end
