(* ===== verification/Pairing.thy ===== *)
theory Pairing
  imports Encoding Policy BTree_Map File_System
begin

text \<open>
  Paired devices and their credentials: \<open>phone-auth-verifier/src/pairing.rs\<close>. The store is a
  map from device ids, saved as JSON after every change. The JSON text itself is written and
  read by a library; \<open>serde\<close> stands for it.
\<close>

datatype pairing_key_kind = KeyStrongBox | KeyHardware | KeySoftware

fun allowed_at_boot :: "pairing_key_kind \<Rightarrow> bool" where
  "allowed_at_boot KeyStrongBox = True"
| "allowed_at_boot KeyHardware = True"
| "allowed_at_boot KeySoftware = False"

datatype purpose = ForAuthorization | ForDiskUnlock | ForWebAuthn | ForVault | ForFileLocker | ForSsh

definition purpose_for_service :: "string \<Rightarrow> purpose" where
  "purpose_for_service s =
    (if s = ''luks'' then ForDiskUnlock
     else if s = ''webauthn'' then ForWebAuthn
     else if s = ''vault'' then ForVault
     else if s = ''locker'' then ForFileLocker
     else if s = ''ssh'' then ForSsh
     else ForAuthorization)"

record paired_credential =
  pc_credential_id :: string
  pc_algorithm :: string
  pc_public_key :: bytes
  pc_key_kind :: pairing_key_kind
  pc_purpose :: purpose
  pc_permissions :: "permission list"
  pc_permissions_revision :: u64

record paired_device =
  pd_device_id :: string
  pd_display_name :: string
  pd_paired_at_ms :: int
  pd_session_identity_public_key :: bytes
  pd_credentials :: "paired_credential list"

definition device_credential :: "string \<Rightarrow> paired_device \<Rightarrow> paired_credential option" where
  "device_credential cid d = List.find (\<lambda>c. pc_credential_id c = cid) (pd_credentials d)"

datatype pairing_error =
  PairingIo io_error | PairingCorrupt | CredentialConflict string | UnknownDevice string

subsection \<open>The file\<close>

text \<open>
  What goes into the JSON: the same records, with key bytes as base64url text (the adapter
  \<open>base64url_bytes\<close>).
\<close>

record json_credential =
  jc_credential :: paired_credential
  jc_public_key :: string

record json_device =
  jd_device :: paired_device
  jd_session_identity_public_key :: string
  jd_credentials :: "json_credential list"

record store_file =
  sf_version :: u32
  sf_devices :: "json_device list"

record serde =
  to_vec_pretty :: "store_file \<Rightarrow> bytes option"
  from_slice :: "bytes \<Rightarrow> store_file option"

definition serialize_bytes :: "bytes \<Rightarrow> string" where
  "serialize_bytes bs = to_base64url bs"

definition deserialize_bytes :: "string \<Rightarrow> pairing_error + bytes" where
  "deserialize_bytes text = (case from_base64url text of Inl e \<Rightarrow> Inl PairingCorrupt | Inr bs \<Rightarrow> Inr bs)"

definition serialize_credential :: "paired_credential \<Rightarrow> json_credential" where
  "serialize_credential c =
    \<lparr>jc_credential = c\<lparr>pc_public_key := []\<rparr>, jc_public_key = serialize_bytes (pc_public_key c)\<rparr>"

definition deserialize_credential :: "json_credential \<Rightarrow> pairing_error + paired_credential" where
  "deserialize_credential j =
    then_ok (deserialize_bytes (jc_public_key j)) (\<lambda>key. Inr ((jc_credential j)\<lparr>pc_public_key := key\<rparr>))"

fun map_ok :: "('a \<Rightarrow> 'e + 'b) \<Rightarrow> 'a list \<Rightarrow> 'e + 'b list" where
  "map_ok f [] = Inr []"
| "map_ok f (x # xs) = then_ok (f x) (\<lambda>y. then_ok (map_ok f xs) (\<lambda>ys. Inr (y # ys)))"

definition serialize_device :: "paired_device \<Rightarrow> json_device" where
  "serialize_device d =
    \<lparr>jd_device = d\<lparr>pd_session_identity_public_key := [], pd_credentials := []\<rparr>,
     jd_session_identity_public_key = serialize_bytes (pd_session_identity_public_key d),
     jd_credentials = map serialize_credential (pd_credentials d)\<rparr>"

definition deserialize_device :: "json_device \<Rightarrow> pairing_error + paired_device" where
  "deserialize_device j =
    then_ok (deserialize_bytes (jd_session_identity_public_key j)) (\<lambda>key.
    then_ok (map_ok deserialize_credential (jd_credentials j)) (\<lambda>cs.
    Inr ((jd_device j)\<lparr>pd_session_identity_public_key := key, pd_credentials := cs\<rparr>)))"

subsection \<open>The store\<close>

record pairing_store =
  ps_path :: path
  ps_devices :: "(string, paired_device) btree_map"

definition load_store :: "serde \<Rightarrow> path \<Rightarrow> (pairing_error, pairing_store) io" where
  "load_store sd p =
    io_match (fs_read p)
      (\<lambda>bs. case from_slice sd bs of
          None \<Rightarrow> io_fail PairingCorrupt
        | Some f \<Rightarrow> (case map_ok deserialize_device (sf_devices f) of
              Inl e \<Rightarrow> io_fail e
            | Inr ds \<Rightarrow> io_return \<lparr>ps_path = p, ps_devices = bt_collect (map (\<lambda>d. (pd_device_id d, d)) ds)\<rparr>))
      (\<lambda>e. if e = NotFound then io_return \<lparr>ps_path = p, ps_devices = bt_empty\<rparr> else io_fail (PairingIo e))"

definition in_memory :: pairing_store where
  "in_memory = \<lparr>ps_path = [], ps_devices = bt_empty\<rparr>"

definition store_device :: "string \<Rightarrow> pairing_store \<Rightarrow> paired_device option" where
  "store_device did s = bt_get did (ps_devices s)"

definition store_is_empty :: "pairing_store \<Rightarrow> bool" where
  "store_is_empty s \<longleftrightarrow> ps_devices s = []"

text \<open>\<open>values().find_map(...)\<close>: the first device, in key order, that has the credential.\<close>

fun find_in_devices :: "string \<Rightarrow> paired_device list \<Rightarrow> (paired_device \<times> paired_credential) option" where
  "find_in_devices cid [] = None"
| "find_in_devices cid (d # ds) =
    (case device_credential cid d of Some c \<Rightarrow> Some (d, c) | None \<Rightarrow> find_in_devices cid ds)"

definition find_credential :: "string \<Rightarrow> pairing_store \<Rightarrow> (paired_device \<times> paired_credential) option" where
  "find_credential cid s = find_in_devices cid (bt_values (ps_devices s))"

text \<open>\<open>0o600\<close>.\<close>

definition PRIVATE_MODE :: nat where "PRIVATE_MODE = 6 * 8 * 8"

definition persist :: "serde \<Rightarrow> pairing_store \<Rightarrow> (pairing_error, unit) io" where
  "persist sd s =
    (if ps_path s = [] then io_return ()
     else
       io_bind (case parent_of (ps_path s) of
           None \<Rightarrow> io_return ()
         | Some parent \<Rightarrow> io_map_err PairingIo (fs_create_dir_all parent)) (\<lambda>_.
       let file = \<lparr>sf_version = 1, sf_devices = map serialize_device (bt_values (ps_devices s))\<rparr> in
       case to_vec_pretty sd file of
         None \<Rightarrow> io_fail PairingCorrupt
       | Some json \<Rightarrow>
         let temp = with_extension (ps_path s) ''json.tmp'' in
         io_bind (io_match (fs_create_new temp)
             (\<lambda>_. io_return ())
             (\<lambda>e. if e = AlreadyExists
                  then io_map_err PairingIo (io_bind (fs_remove_file temp) (\<lambda>_. fs_create_new temp))
                  else io_fail (PairingIo e))) (\<lambda>_.
         io_map_err PairingIo
           (io_bind (fs_set_permissions temp PRIVATE_MODE) (\<lambda>_.
            io_bind (fs_write_all temp json) (\<lambda>_.
            io_bind (fs_sync_all temp) (\<lambda>_.
            fs_rename temp (ps_path s))))))))"

definition check_conflict :: "paired_device \<Rightarrow> pairing_store \<Rightarrow> paired_credential \<Rightarrow> pairing_error + unit" where
  "check_conflict device s credential =
    (case find_credential (pc_credential_id credential) s of
       Some (owner, existing) \<Rightarrow>
         if pd_device_id owner \<noteq> pd_device_id device \<or> pc_public_key existing \<noteq> pc_public_key credential
         then Inl (CredentialConflict (pc_credential_id credential)) else Inr ()
     | None \<Rightarrow> Inr ())"

definition merge_credentials :: "paired_device \<Rightarrow> pairing_store \<Rightarrow> paired_device" where
  "merge_credentials device s =
    (case bt_get (pd_device_id device) (ps_devices s) of
       Some existing \<Rightarrow>
         let incoming = map pc_credential_id (pd_credentials device);
             kept = filter (\<lambda>c. pc_credential_id c \<notin> set incoming) (pd_credentials existing)
         in device\<lparr>pd_credentials := pd_credentials device @ kept\<rparr>
     | None \<Rightarrow> device)"

text \<open>The store is returned whatever the outcome: a failed save leaves it changed.\<close>

definition insert_device ::
  "serde \<Rightarrow> paired_device \<Rightarrow> pairing_store \<Rightarrow> world \<Rightarrow> (pairing_error + unit) \<times> pairing_store \<times> world" where
  "insert_device sd device s w =
    (case for_each_ok (check_conflict device s) (pd_credentials device) of
       Inl e \<Rightarrow> (Inl e, s, w)
     | Inr _ \<Rightarrow>
         let device = merge_credentials device s;
             s = s\<lparr>ps_devices := bt_insert (pd_device_id device) device (ps_devices s)\<rparr>;
             (r, w) = persist sd s w
         in (r, s, w))"

definition remove_device ::
  "serde \<Rightarrow> string \<Rightarrow> pairing_store \<Rightarrow> world \<Rightarrow> (pairing_error + paired_device) \<times> pairing_store \<times> world" where
  "remove_device sd did s w =
    (case bt_get did (ps_devices s) of
       None \<Rightarrow> (Inl (UnknownDevice did), s, w)
     | Some device \<Rightarrow>
         let s = s\<lparr>ps_devices := bt_remove did (ps_devices s)\<rparr>;
             (r, w) = persist sd s w
         in (case r of Inl e \<Rightarrow> (Inl e, s, w) | Inr _ \<Rightarrow> (Inr device, s, w)))"

subsection \<open>Searching the store\<close>

definition store_ok :: "pairing_store \<Rightarrow> bool" where
  "store_ok s \<longleftrightarrow> bt_ok (ps_devices s)
    \<and> (\<forall>k d. bt_get k (ps_devices s) = Some d \<longrightarrow> pd_device_id d = k)
    \<and> (\<forall>k d k' d' cid. bt_get k (ps_devices s) = Some d \<longrightarrow> bt_get k' (ps_devices s) = Some d'
        \<longrightarrow> device_credential cid d \<noteq> None \<longrightarrow> device_credential cid d' \<noteq> None \<longrightarrow> k = k')"

lemma device_credential_iff:
  "device_credential cid d \<noteq> None \<longleftrightarrow> cid \<in> pc_credential_id ` set (pd_credentials d)"
  by (auto simp: device_credential_def find_None_iff)

lemma device_credential_id: "device_credential cid d = Some c \<Longrightarrow> pc_credential_id c = cid"
  by (auto simp: device_credential_def find_Some_iff)

lemma find_in_devices_Some:
  "find_in_devices cid ds = Some (d, c) \<Longrightarrow> d \<in> set ds \<and> device_credential cid d = Some c"
  by (induction ds) (auto split: option.splits)

lemma find_in_devices_None:
  "find_in_devices cid ds = None \<longleftrightarrow> (\<forall>d \<in> set ds. device_credential cid d = None)"
  by (induction ds) (auto split: option.splits)

lemma find_credential_sound:
  assumes "store_ok s" and "find_credential cid s = Some (d, c)"
  shows "bt_get (pd_device_id d) (ps_devices s) = Some d \<and> device_credential cid d = Some c"
  using assms find_in_devices_Some [of cid "bt_values (ps_devices s)" d c]
    btree.set_vals [of "ps_devices s" d]
  by (auto simp: store_ok_def find_credential_def)

lemma find_credential_complete:
  assumes s: "store_ok s" and d: "bt_get k (ps_devices s) = Some d" and c: "device_credential cid d = Some c"
  shows "find_credential cid s = Some (d, c)"
proof -
  have "d \<in> set (bt_values (ps_devices s))"
    using s d btree.set_vals [of "ps_devices s" d] by (auto simp: store_ok_def)
  with c have "find_credential cid s \<noteq> None"
    by (auto simp: find_credential_def find_in_devices_None)
  then obtain d' c' where f: "find_credential cid s = Some (d', c')" by auto
  from find_credential_sound [OF s this]
  have d': "bt_get (pd_device_id d') (ps_devices s) = Some d'" "device_credential cid d' = Some c'" by auto
  with s d c have "pd_device_id d' = k" unfolding store_ok_def by blast
  with d d' have "d' = d" by simp
  with d'(2) c f show ?thesis by simp
qed

text \<open>In a well-formed store a credential id names one device, whatever the order of the search.\<close>

lemma find_credential_eq:
  "store_ok s \<Longrightarrow> find_credential cid s = Some (d, c) \<longleftrightarrow>
    bt_get (pd_device_id d) (ps_devices s) = Some d \<and> device_credential cid d = Some c"
  using find_credential_sound [of s cid d c] find_credential_complete [of s _ d cid c] by blast

lemma find_credential_None:
  assumes "store_ok s"
  shows "find_credential cid s = None \<longleftrightarrow> (\<forall>k d. bt_get k (ps_devices s) = Some d \<longrightarrow> device_credential cid d = None)"
  using assms btree.set_vals [of "ps_devices s"]
  by (auto simp: store_ok_def find_credential_def find_in_devices_None)

lemma in_memory_ok [simp]: "store_ok in_memory"
  by (simp add: store_ok_def in_memory_def) (simp add: bt_get_def bt_empty_def)

subsection \<open>Inserting and removing\<close>

lemma merge_device_id [simp]: "pd_device_id (merge_credentials d s) = pd_device_id d"
  by (simp add: merge_credentials_def Let_def split: option.split)

lemma find_filter_other: "cid \<notin> S \<Longrightarrow>
    List.find (\<lambda>c. pc_credential_id c = cid) (filter (\<lambda>c. pc_credential_id c \<notin> S) cs)
      = List.find (\<lambda>c. pc_credential_id c = cid) cs"
  by (induction cs) auto

lemma find_append: "List.find P (xs @ ys) = (case List.find P xs of None \<Rightarrow> List.find P ys | Some x \<Rightarrow> Some x)"
  by (induction xs) auto

lemma merge_credential:
  "device_credential cid (merge_credentials d s) =
    (case device_credential cid d of
       Some c \<Rightarrow> Some c
     | None \<Rightarrow> (case bt_get (pd_device_id d) (ps_devices s) of
           None \<Rightarrow> None | Some existing \<Rightarrow> device_credential cid existing))"
proof (cases "bt_get (pd_device_id d) (ps_devices s)")
  case None
  then show ?thesis by (simp add: merge_credentials_def split: option.split)
next
  case (Some existing)
  have "device_credential cid d = None \<Longrightarrow> cid \<notin> pc_credential_id ` set (pd_credentials d)"
    using device_credential_iff [of cid d] by simp
  then show ?thesis
    unfolding merge_credentials_def Some Let_def option.case device_credential_def
    by (cases "List.find (\<lambda>c. pc_credential_id c = cid) (pd_credentials d)")
      (simp_all add: find_append find_filter_other)
qed

definition no_conflict :: "paired_device \<Rightarrow> pairing_store \<Rightarrow> bool" where
  "no_conflict d s \<longleftrightarrow> (\<forall>c \<in> set (pd_credentials d). \<forall>owner existing.
    find_credential (pc_credential_id c) s = Some (owner, existing) \<longrightarrow>
      pd_device_id owner = pd_device_id d \<and> pc_public_key existing = pc_public_key c)"

lemma no_conflict_iff:
  "for_each_ok (check_conflict d s) (pd_credentials d) = Inr u \<longleftrightarrow> no_conflict d s"
proof -
  have "check_conflict d s c = Inr () \<longleftrightarrow> (\<forall>owner existing.
      find_credential (pc_credential_id c) s = Some (owner, existing) \<longrightarrow>
        pd_device_id owner = pd_device_id d \<and> pc_public_key existing = pc_public_key c)" for c
    by (cases "find_credential (pc_credential_id c) s") (auto simp: check_conflict_def split: if_splits)
  then show ?thesis by (simp add: no_conflict_def)
qed

definition put_device :: "paired_device \<Rightarrow> pairing_store \<Rightarrow> pairing_store" where
  "put_device d s = s\<lparr>ps_devices := bt_insert (pd_device_id d) (merge_credentials d s) (ps_devices s)\<rparr>"

lemma insert_device_store:
  "fst (snd (insert_device sd d s w)) = (if no_conflict d s then put_device d s else s)"
proof (cases "for_each_ok (check_conflict d s) (pd_credentials d)")
  case (Inl e)
  then have "\<not> no_conflict d s" using no_conflict_iff [of d s "()"] by simp
  with Inl show ?thesis by (simp add: insert_device_def)
next
  case (Inr u)
  then have "no_conflict d s" using no_conflict_iff [of d s u] by simp
  then show ?thesis
    unfolding insert_device_def Inr by (simp add: put_device_def Let_def split: prod.split)
qed

lemma put_device_ok:
  assumes s: "store_ok s" and n: "no_conflict d s"
  shows "store_ok (put_device d s)"
proof -
  let ?m = "merge_credentials d s" and ?b = "ps_devices s"
  have ok: "bt_ok ?b" and ids: "\<And>k e. bt_get k ?b = Some e \<Longrightarrow> pd_device_id e = k"
    and uniq: "\<And>k e k' e' cid. bt_get k ?b = Some e \<Longrightarrow> bt_get k' ?b = Some e' \<Longrightarrow>
      device_credential cid e \<noteq> None \<Longrightarrow> device_credential cid e' \<noteq> None \<Longrightarrow> k = k'"
    using s by (auto simp: store_ok_def)
  have other: "k = pd_device_id d"
    if e: "bt_get k ?b = Some e" and ce: "device_credential cid e = Some ce"
      and m: "device_credential cid ?m = Some cm" for k e cid ce cm
  proof (rule ccontr)
    assume k: "k \<noteq> pd_device_id d"
    show False
    proof (cases "device_credential cid d")
      case None
      with m obtain x where "bt_get (pd_device_id d) ?b = Some x" "device_credential cid x \<noteq> None"
        by (auto simp: merge_credential split: option.splits)
      with uniq [OF e] ce k show False by blast
    next
      case (Some cd)
      then have "cd \<in> set (pd_credentials d)" and "pc_credential_id cd = cid"
        by (auto simp: device_credential_def find_Some_iff)
      with n find_credential_complete [OF s e ce] have "pd_device_id e = pd_device_id d"
        unfolding no_conflict_def by metis
      with ids [OF e] k show False by simp
    qed
  qed
  have get: "bt_get k (ps_devices (put_device d s)) = (if k = pd_device_id d then Some ?m else bt_get k ?b)" for k
    using btree.get_ins [OF ok] by (simp add: put_device_def)
  have "k = k'" if "(if k = pd_device_id d then Some ?m else bt_get k ?b) = Some e"
    and "(if k' = pd_device_id d then Some ?m else bt_get k' ?b) = Some e'"
    and c: "device_credential cid e = Some c" and c': "device_credential cid e' = Some c'" for k e k' e' cid c c'
    using that(1,2) other [OF _ c] other [OF _ c'] uniq [of k e k' e' cid] c c' by (auto split: if_splits)
  then have "\<forall>k e k' e' cid. bt_get k (ps_devices (put_device d s)) = Some e \<longrightarrow>
      bt_get k' (ps_devices (put_device d s)) = Some e' \<longrightarrow>
      device_credential cid e \<noteq> None \<longrightarrow> device_credential cid e' \<noteq> None \<longrightarrow> k = k'"
    unfolding get by blast
  moreover have "\<forall>k e. bt_get k (ps_devices (put_device d s)) = Some e \<longrightarrow> pd_device_id e = k"
    unfolding get using ids by simp
  moreover have "bt_ok (ps_devices (put_device d s))"
    using ok by (simp add: put_device_def bt_ok_insert)
  ultimately show ?thesis unfolding store_ok_def by blast
qed

lemma put_device_find:
  assumes s: "store_ok s" and n: "no_conflict d s"
  shows "find_credential cid (put_device d s) =
    (case device_credential cid (merge_credentials d s) of
       Some c \<Rightarrow> Some (merge_credentials d s, c) | None \<Rightarrow> find_credential cid s)"
proof -
  let ?m = "merge_credentials d s"
  have ok: "bt_ok (ps_devices s)" using s by (simp add: store_ok_def)
  have get: "bt_get k (ps_devices (put_device d s)) = (if k = pd_device_id d then Some ?m else bt_get k (ps_devices s))" for k
    using btree.get_ins [OF ok] by (simp add: put_device_def)
  note s' = put_device_ok [OF s n]
  show ?thesis
  proof (cases "device_credential cid ?m")
    case (Some c)
    then show ?thesis using find_credential_complete [OF s', of "pd_device_id d" ?m cid c] get by simp
  next
    case None
    show ?thesis
    proof (cases "find_credential cid s")
      case None
      then have "find_credential cid (put_device d s) = None"
        using \<open>device_credential cid ?m = None\<close>
        unfolding find_credential_None [OF s'] find_credential_None [OF s] get by auto
      with None \<open>device_credential cid ?m = None\<close> show ?thesis by simp
    next
      case (Some ec)
      then obtain e c where f: "find_credential cid s = Some (e, c)" by (cases ec) auto
      from find_credential_sound [OF s f] have e: "bt_get (pd_device_id e) (ps_devices s) = Some e"
        and c: "device_credential cid e = Some c" by auto
      have "pd_device_id e \<noteq> pd_device_id d"
        using None e c by (auto simp: merge_credential split: option.splits)
      with e have "bt_get (pd_device_id e) (ps_devices (put_device d s)) = Some e" by (simp add: get)
      from find_credential_complete [OF s' this c] f None show ?thesis by simp
    qed
  qed
qed

text \<open>Pairing again keeps every key that was known, with its owner.\<close>

lemma put_device_keeps_keys:
  assumes s: "store_ok s" and n: "no_conflict d s" and f: "find_credential cid s = Some (e, c)"
  shows "\<exists>e' c'. find_credential cid (put_device d s) = Some (e', c') \<and> pd_device_id e' = pd_device_id e
    \<and> pc_public_key c' = pc_public_key c \<and> (c' = c \<or> c' \<in> set (pd_credentials d))"
proof -
  from find_credential_sound [OF s f] have e: "bt_get (pd_device_id e) (ps_devices s) = Some e"
    and c: "device_credential cid e = Some c" by auto
  show ?thesis
  proof (cases "device_credential cid (merge_credentials d s)")
    case None
    then show ?thesis using f by (simp add: put_device_find [OF s n])
  next
    case (Some m)
    have "pd_device_id d = pd_device_id e \<and> pc_public_key m = pc_public_key c
      \<and> (m = c \<or> m \<in> set (pd_credentials d))"
    proof (cases "device_credential cid d")
      case None
      with Some obtain x where x: "bt_get (pd_device_id d) (ps_devices s) = Some x" "device_credential cid x = Some m"
        by (auto simp: merge_credential split: option.splits)
      with e c s have "pd_device_id d = pd_device_id e" unfolding store_ok_def by blast
      with x e c show ?thesis by simp
    next
      case (Some k)
      with \<open>device_credential cid (merge_credentials d s) = Some m\<close> have "k = m"
        by (simp add: merge_credential)
      with Some have "m \<in> set (pd_credentials d)" "pc_credential_id m = cid"
        by (auto simp: device_credential_def find_Some_iff)
      with n f show ?thesis unfolding no_conflict_def by metis
    qed
    with Some show ?thesis by (simp add: put_device_find [OF s n])
  qed
qed

definition drop_device :: "string \<Rightarrow> pairing_store \<Rightarrow> pairing_store" where
  "drop_device did s = s\<lparr>ps_devices := bt_remove did (ps_devices s)\<rparr>"

lemma drop_device_ok: "store_ok s \<Longrightarrow> store_ok (drop_device did s)"
  unfolding store_ok_def drop_device_def
  by (simp add: bt_get_remove bt_ok_remove)

lemma bt_remove_absent: "bt_get did m = None \<Longrightarrow> bt_remove did m = m"
  unfolding bt_get_def bt_remove_def by (auto simp: map_of_eq_None_iff intro!: filter_True)

lemma remove_device_store: "fst (snd (remove_device sd did s w)) = drop_device did s"
  by (cases "bt_get did (ps_devices s)")
    (simp_all add: remove_device_def drop_device_def Let_def bt_remove_absent split: prod.split sum.split)

lemma drop_device_find:
  assumes s: "store_ok s"
  shows "find_credential cid (drop_device did s) =
    (case find_credential cid s of None \<Rightarrow> None
     | Some (e, c) \<Rightarrow> if pd_device_id e = did then None else Some (e, c))"
proof (cases "find_credential cid s")
  case None
  then have "find_credential cid (drop_device did s) = None"
    unfolding find_credential_None [OF s] find_credential_None [OF drop_device_ok [OF s]]
    by (simp add: drop_device_def bt_get_remove)
  with None show ?thesis by simp
next
  case (Some ec)
  then obtain e c where f: "find_credential cid s = Some (e, c)" by (cases ec) auto
  from find_credential_sound [OF s f] have e: "bt_get (pd_device_id e) (ps_devices s) = Some e"
    and c: "device_credential cid e = Some c" by auto
  show ?thesis
  proof (cases "pd_device_id e = did")
    case True
    have "device_credential cid d = None" if "k \<noteq> did" "bt_get k (ps_devices s) = Some d" for k d
      using s e c that True unfolding store_ok_def by (metis option.discI)
    then have "find_credential cid (drop_device did s) = None"
      unfolding find_credential_None [OF drop_device_ok [OF s]] by (simp add: drop_device_def bt_get_remove)
    with f True show ?thesis by simp
  next
    case False
    with e have "bt_get (pd_device_id e) (ps_devices (drop_device did s)) = Some e"
      by (simp add: drop_device_def bt_get_remove)
    from find_credential_complete [OF drop_device_ok [OF s] this c] f False show ?thesis by simp
  qed
qed

subsection \<open>Saving and loading\<close>

definition json_of :: "serde \<Rightarrow> pairing_store \<Rightarrow> bytes option" where
  "json_of sd s = to_vec_pretty sd \<lparr>sf_version = 1, sf_devices = map serialize_device (bt_values (ps_devices s))\<rparr>"

text \<open>Whatever call fails, the saved file is untouched; on success it is complete and private.\<close>

lemma persist_triple:
  assumes "ps_path s \<noteq> []"
  shows "io_triple (\<lambda>w. w_files w = F) (persist sd s)
    (\<lambda>_ w. \<exists>json. json_of sd s = Some json \<and>
       replaced (with_extension (ps_path s) ''json.tmp'') (ps_path s) F \<lparr>fl_content = json, fl_mode = PRIVATE_MODE\<rparr> w)
    (only_changes (with_extension (ps_path s) ''json.tmp'') F)"
proof -
  let ?t = "with_extension (ps_path s) ''json.tmp''"
  have pre: "io_triple (only_changes ?t F) m Q E \<Longrightarrow> io_triple (\<lambda>w. w_files w = F) m Q E" for m Q E
    by (auto simp: io_triple_def only_changes_def)
  have dir: "io_triple (only_changes ?t F)
      (case parent_of (ps_path s) of None \<Rightarrow> io_return () | Some parent \<Rightarrow> io_map_err PairingIo (fs_create_dir_all parent))
      (\<lambda>_. only_changes ?t F) (only_changes ?t F)"
    by (auto intro: io_rules io_map_err_triple split: option.split)
  have new: "io_triple (only_changes ?t F)
      (io_match (fs_create_new ?t) (\<lambda>_. io_return ())
        (\<lambda>e. if e = AlreadyExists then io_map_err PairingIo (io_bind (fs_remove_file ?t) (\<lambda>_. fs_create_new ?t))
             else io_fail (PairingIo e)))
      (\<lambda>_. scratch_holds ?t F (\<lambda>f. fl_content f = [])) (only_changes ?t F)"
    by (rule io_match_triple) (auto intro!: io_rules io_map_err_triple io_triple_bind)
  have fill: "io_triple (scratch_holds ?t F (\<lambda>f. fl_content f = []))
      (io_map_err PairingIo (io_bind (fs_set_permissions ?t PRIVATE_MODE) (\<lambda>_.
        io_bind (fs_write_all ?t json) (\<lambda>_. io_bind (fs_sync_all ?t) (\<lambda>_. fs_rename ?t (ps_path s))))))
      (\<lambda>_. replaced ?t (ps_path s) F \<lparr>fl_content = json, fl_mode = PRIVATE_MODE\<rparr>) (only_changes ?t F)" for json
    by (intro io_map_err_triple io_triple_bind, rule io_rules, rule io_rules, rule io_rules)
      (simp, rule io_rules)
  have json: "io_triple (only_changes ?t F)
      (case json_of sd s of None \<Rightarrow> io_fail PairingCorrupt
       | Some json \<Rightarrow> io_bind (io_match (fs_create_new ?t) (\<lambda>_. io_return ())
            (\<lambda>e. if e = AlreadyExists then io_map_err PairingIo (io_bind (fs_remove_file ?t) (\<lambda>_. fs_create_new ?t))
                 else io_fail (PairingIo e)))
          (\<lambda>_. io_map_err PairingIo (io_bind (fs_set_permissions ?t PRIVATE_MODE) (\<lambda>_.
            io_bind (fs_write_all ?t json) (\<lambda>_. io_bind (fs_sync_all ?t) (\<lambda>_. fs_rename ?t (ps_path s)))))))
      (\<lambda>_ w. \<exists>json. json_of sd s = Some json \<and>
         replaced ?t (ps_path s) F \<lparr>fl_content = json, fl_mode = PRIVATE_MODE\<rparr> w) (only_changes ?t F)"
  proof (cases "json_of sd s")
    case None
    then show ?thesis by (simp add: io_fail_triple)
  next
    case (Some json)
    then have "(\<lambda>_ w. \<exists>j. json_of sd s = Some j \<and>
        replaced ?t (ps_path s) F \<lparr>fl_content = j, fl_mode = PRIVATE_MODE\<rparr> w)
      = (\<lambda>_ :: unit. replaced ?t (ps_path s) F \<lparr>fl_content = json, fl_mode = PRIVATE_MODE\<rparr>)" by simp
    then show ?thesis unfolding Some option.case by (simp only:) (rule io_triple_bind [OF new fill])
  qed
  show ?thesis
    unfolding persist_def Let_def json_of_def [symmetric] using assms
    by (simp only: if_False) (rule pre, rule io_triple_bind [OF dir json])
qed

lemma persist_saved:
  assumes "ps_path s \<noteq> []" and "persist sd s w = (Inr u, w')"
  shows "\<exists>json. json_of sd s = Some json \<and> w_files w' (ps_path s) = Some \<lparr>fl_content = json, fl_mode = PRIVATE_MODE\<rparr>
    \<and> (\<forall>q. q \<noteq> ps_path s \<and> q \<noteq> with_extension (ps_path s) ''json.tmp'' \<longrightarrow> w_files w' q = w_files w q)"
  using io_tripleD(2) [OF persist_triple [OF assms(1)] refl assms(2)] by (auto simp: replaced_def)

lemma persist_failed:
  assumes "persist sd s w = (Inl e, w')"
  shows "\<forall>q. q \<noteq> with_extension (ps_path s) ''json.tmp'' \<longrightarrow> w_files w' q = w_files w q"
proof (cases "ps_path s = []")
  case True
  with assms show ?thesis by (simp add: persist_def io_return_def)
next
  case False
  from io_tripleD(1) [OF persist_triple [OF False] refl assms] show ?thesis by (simp add: only_changes_def)
qed

lemma temp_is_not_the_store: "with_extension p ''json.tmp'' \<noteq> p"
  by (rule with_extension_neq) simp

text \<open>Every key survives the file: the adapter's text gives the bytes back.\<close>

lemma deserialize_serialize_credential: "deserialize_credential (serialize_credential c) = Inr c"
  by (simp add: deserialize_credential_def serialize_credential_def serialize_bytes_def
      deserialize_bytes_def from_to_base64url)

lemma map_ok_inverse: "(\<And>x. f (g x) = Inr x) \<Longrightarrow> map_ok f (map g xs) = Inr xs"
  by (induction xs) simp_all

lemma deserialize_serialize_device: "deserialize_device (serialize_device d) = Inr d"
  by (simp add: deserialize_device_def serialize_device_def serialize_bytes_def
      deserialize_bytes_def from_to_base64url map_ok_inverse deserialize_serialize_credential)

lemma store_entries:
  assumes "store_ok s"
  shows "map (\<lambda>d. (pd_device_id d, d)) (bt_values (ps_devices s)) = ps_devices s"
proof -
  have "pd_device_id d = k" if "(k, d) \<in> set (ps_devices s)" for k d
  proof -
    have "bt_get k (ps_devices s) = Some d"
      unfolding bt_get_def using assms that bt_ok_distinct [of "ps_devices s"]
      by (auto simp: store_ok_def intro: map_of_is_SomeI)
    with assms show ?thesis by (auto simp: store_ok_def)
  qed
  then have "map (\<lambda>e. (pd_device_id (snd e), snd e)) (ps_devices s) = map (\<lambda>e. e) (ps_devices s)"
    by (intro map_cong) auto
  then show ?thesis by (simp add: bt_values_def comp_def)
qed

lemma load_persisted:
  assumes rt: "\<And>f bs. to_vec_pretty sd f = Some bs \<Longrightarrow> from_slice sd bs = Some f"
    and s: "store_ok s" and p: "ps_path s \<noteq> []" and w: "persist sd s w = (Inr u, w')"
    and q: "w_faults w' = []"
  shows "load_store sd (ps_path s) w' = (Inr s, w')"
proof -
  from persist_saved [OF p w] obtain json where j: "json_of sd s = Some json"
    and f: "w_files w' (ps_path s) = Some \<lparr>fl_content = json, fl_mode = PRIVATE_MODE\<rparr>" by auto
  from rt j have "from_slice sd json = Some \<lparr>sf_version = 1, sf_devices = map serialize_device (bt_values (ps_devices s))\<rparr>"
    by (simp add: json_of_def)
  moreover have "bt_collect (ps_devices s) = ps_devices s"
    using s by (intro bt_collect_entries) (simp add: store_ok_def)
  moreover have "fs_read (ps_path s) w' = (Inr json, w')"
    using f q by (simp add: fs_read_def w_call_def)
  ultimately show ?thesis
    by (simp add: load_store_def io_match_def map_ok_inverse deserialize_serialize_device
        store_entries [OF s] io_return_def)
qed

text \<open>With no failing call a save succeeds, a temporary file left by a crash included.\<close>

lemma persist_succeeds:
  assumes "w_faults w = []" and "json_of sd s = Some json"
  shows "\<exists>w'. persist sd s w = (Inr (), w') \<and> w_faults w' = []"
proof -
  have f: "w_faults w = [] \<Longrightarrow> w_call h act w = act w" for h act and w :: world by (simp add: w_call_def)
  show ?thesis
    using assms
    by (cases "w_files w (with_extension (ps_path s) ''json.tmp'')"; cases "parent_of (ps_path s)")
      (simp_all add: persist_def json_of_def Let_def io_bind_def io_match_def io_map_err_def io_return_def
        fs_create_dir_all_def fs_create_new_def fs_remove_file_def fs_set_permissions_def
        fs_write_all_def fs_sync_all_def fs_rename_def fs_append_def w_put_def f)
qed

lemma insert_device_conflict:
  "\<not> no_conflict d s \<Longrightarrow> \<exists>c \<in> set (pd_credentials d).
    insert_device sd d s w = (Inl (CredentialConflict (pc_credential_id c)), s, w)"
proof -
  have e: "for_each_ok (check_conflict d s) cs = Inl x \<Longrightarrow>
      \<exists>c \<in> set cs. x = CredentialConflict (pc_credential_id c)" for cs x
    by (induction cs) (auto simp: then_ok_eq_Inl check_conflict_def split: option.splits if_splits)
  assume "\<not> no_conflict d s"
  then obtain x where x: "for_each_ok (check_conflict d s) (pd_credentials d) = Inl x"
    using no_conflict_iff [of d s "()"] by (metis old.unit.exhaust sum.exhaust)
  from e [OF this] x show ?thesis by (auto simp: insert_device_def)
qed

lemma insert_device_saved:
  assumes "no_conflict d s"
  shows "insert_device sd d s w =
    (fst (persist sd (put_device d s) w), put_device d s, snd (persist sd (put_device d s) w))"
proof -
  from assms have c: "for_each_ok (check_conflict d s) (pd_credentials d) = Inr ()"
    unfolding no_conflict_iff .
  show ?thesis
    unfolding insert_device_def c by (simp add: put_device_def Let_def split: prod.split)
qed

subsection \<open>Any history of insertions and removals\<close>

inductive store_history :: "serde \<Rightarrow> path \<Rightarrow> pairing_store \<Rightarrow> bool" for sd p where
  fresh_store: "store_history sd p \<lparr>ps_path = p, ps_devices = bt_empty\<rparr>"
| inserted: "store_history sd p s \<Longrightarrow> insert_device sd d s w = (r, s', w') \<Longrightarrow> store_history sd p s'"
| removed: "store_history sd p s \<Longrightarrow> remove_device sd did s w = (r, s', w') \<Longrightarrow> store_history sd p s'"

lemma insert_device_ok: "store_ok s \<Longrightarrow> store_ok (fst (snd (insert_device sd d s w)))"
  by (simp add: insert_device_store put_device_ok)

lemma store_history_ok: "store_history sd p s \<Longrightarrow> store_ok s"
proof (induction rule: store_history.induct)
  case fresh_store
  then show ?case by (simp add: store_ok_def) (simp add: bt_get_def bt_empty_def)
next
  case (inserted s d w r s' w')
  then show ?case using insert_device_ok [of s sd d w] by simp
next
  case (removed s did w r s' w')
  then show ?case using remove_device_store [of sd did s w] drop_device_ok [of s did] by simp
qed

end
