(* ===== verification/Signature.thy ===== *)
theory Signature
  imports Protocol_Base
begin

text \<open>
  Checking the phone's signature: \<open>phone-auth-verifier/src/signature.rs\<close>. Parsing keys and
  signatures and the ECDSA equation itself belong to the \<open>p256\<close> crate, which is a parameter.
\<close>

record ('key, 'sig) p256 =
  from_public_key_der :: "bytes \<Rightarrow> 'key option"
  der_signature :: "bytes \<Rightarrow> 'sig option"
  ecdsa_verify :: "'key \<Rightarrow> bytes \<Rightarrow> 'sig \<Rightarrow> bool"

datatype signature_error =
  UnsupportedAlgorithm string | UnsupportedKeyEncoding string
  | MalformedPublicKey | MalformedSignature | InvalidSignature

definition verify_authorization ::
  "('key, 'sig) p256 \<Rightarrow> string \<Rightarrow> bytes \<Rightarrow> string \<Rightarrow> bytes \<Rightarrow> bytes \<Rightarrow> signature_error + unit" where
  "verify_authorization p key_encoding public_key_der algorithm payload signature_der =
    (if algorithm \<noteq> ALGORITHM_ECDSA_P256_SHA256 then Inl (UnsupportedAlgorithm algorithm)
     else if key_encoding \<noteq> PUBLIC_KEY_EC_P256_SPKI then Inl (UnsupportedKeyEncoding key_encoding)
     else case from_public_key_der p public_key_der of
       None \<Rightarrow> Inl MalformedPublicKey
     | Some key \<Rightarrow>
         (case der_signature p signature_der of
            None \<Rightarrow> Inl MalformedSignature
          | Some signature \<Rightarrow>
              if ecdsa_verify p key payload signature then Inr () else Inl InvalidSignature))"

definition signed_by :: "('key, 'sig) p256 \<Rightarrow> bytes \<Rightarrow> bytes \<Rightarrow> bytes \<Rightarrow> bool" where
  "signed_by p public_key payload sig \<longleftrightarrow> (\<exists>k s. from_public_key_der p public_key = Some k
    \<and> der_signature p sig = Some s \<and> ecdsa_verify p k payload s)"

lemma verify_authorization_iff:
  "verify_authorization p enc key alg payload sig = Inr u \<longleftrightarrow>
    alg = ALGORITHM_ECDSA_P256_SHA256 \<and> enc = PUBLIC_KEY_EC_P256_SPKI \<and> signed_by p key payload sig"
  by (auto simp: verify_authorization_def signed_by_def split: option.splits)

end
