(* ===== verification/Verifier.thy ===== *)
theory Verifier
  imports Auth_Request Auth_Response Encoding Policy Replay
    Pairing Signature
begin

text \<open>
  The verifier, which issues authorization requests and decides whether an answer grants one:
  \<open>phone-auth-verifier/src/verifier.rs\<close>, with the session it talks over (\<open>session.rs\<close>).
\<close>

subsection \<open>Sessions\<close>

record transport_security =
  ts_transport_name :: string
  ts_confidential :: bool
  ts_peer_authenticated :: bool
  ts_requires_network :: bool
  ts_proximity_signal :: bool
  ts_is_development :: bool

definition suitable_for_authorization :: "transport_security \<Rightarrow> bool" where
  "suitable_for_authorization t \<longleftrightarrow> ts_confidential t \<and> ts_peer_authenticated t"

record secure_session =
  se_origin_label :: string
  se_session_binding :: bytes
  se_security :: transport_security

subsection \<open>Requests, answers, grants\<close>

record verifier_identity =
  vi_verifier_id :: string
  vi_verifier_name :: string

record request_spec =
  sp_credential_id :: string
  spec_service :: string
  spec_action :: string
  spec_resource :: string
  spec_user :: string
  sp_validity_ms :: int

definition request_spec_new :: "string \<Rightarrow> string \<Rightarrow> string \<Rightarrow> string \<Rightarrow> string \<Rightarrow> request_spec" where
  "request_spec_new cid svc act res usr =
    \<lparr>sp_credential_id = cid, spec_service = svc, spec_action = act, spec_resource = res,
     spec_user = usr, sp_validity_ms = 60000\<rparr>"

definition with_validity_ms :: "int \<Rightarrow> request_spec \<Rightarrow> request_spec" where
  "with_validity_ms v s = s\<lparr>sp_validity_ms := v\<rparr>"

record pending_authorization =
  pa_request :: auth_request
  pa_origin :: string
  pa_session_binding :: bytes

definition pending_frame :: "pending_authorization \<Rightarrow> bytes" where
  "pending_frame p = encode_request (pa_request p)"

record grant =
  gr_request_id :: string
  gr_device_id :: string
  gr_device_name :: string
  gr_credential_id :: string
  gr_service :: string
  gr_action :: string
  gr_resource :: string
  gr_user :: string
  gr_origin :: string
  gr_granted_at_ms :: int

datatype authorization_error =
  ChannelUnsuitable string
  | UnknownCredential string
  | PurposeMismatch string purpose purpose
  | KeyKindUnsuitableForBoot string
  | DevelopmentTransportRefused string
  | PolicyDenied
  | ResponseMismatch string
  | SessionBindingMismatch
  | Declined
  | Expired
  | Replayed
  | ProtocolFailed protocol_error
  | SignatureFailed signature_error
  | Malformed protocol_error

subsection \<open>The verifier\<close>

record verifier =
  vf_identity :: verifier_identity
  vf_store :: pairing_store
  vf_replay :: replay_guard

definition verifier_new :: "verifier_identity \<Rightarrow> pairing_store \<Rightarrow> verifier" where
  "verifier_new identity store = \<lparr>vf_identity = identity, vf_store = store, vf_replay = replay_default\<rparr>"

text \<open>\<open>random::request_id\<close>: sixteen random bytes in hex.\<close>

definition random_request_id :: "bytes \<Rightarrow> string" where
  "random_request_id bs = to_hex bs"

definition map_err :: "('e \<Rightarrow> 'f) \<Rightarrow> 'e + 'a \<Rightarrow> 'f + 'a" where
  "map_err f r = (case r of Inl e \<Rightarrow> Inl (f e) | Inr x \<Rightarrow> Inr x)"

lemma map_err_iff: "map_err f r = Inr x \<longleftrightarrow> r = Inr x"
  by (cases r) (simp_all add: map_err_def)

definition ok_or :: "'a option \<Rightarrow> 'e \<Rightarrow> 'e + 'a" where
  "ok_or x e = (case x of None \<Rightarrow> Inl e | Some y \<Rightarrow> Inr y)"

definition check_boot :: "request_spec \<Rightarrow> transport_security \<Rightarrow> paired_credential \<Rightarrow> purpose \<Rightarrow> authorization_error + unit" where
  "check_boot spec security credential purpose =
    (if purpose = ForDiskUnlock then
       (if \<not> allowed_at_boot (pc_key_kind credential)
        then Inl (KeyKindUnsuitableForBoot (sp_credential_id spec))
        else if ts_is_development security
        then Inl (DevelopmentTransportRefused (ts_transport_name security)) else Inr ())
     else Inr ())"

lemma check_boot_iff [simp]: "check_boot spec security c p = Inr u \<longleftrightarrow>
    (p = ForDiskUnlock \<longrightarrow> allowed_at_boot (pc_key_kind c) \<and> \<not> ts_is_development security)"
  by (simp add: check_boot_def)

text \<open>The request literal of \<open>issue\<close>; the two draws of random bytes are arguments.\<close>

definition issued_request :: "request_spec \<Rightarrow> secure_session \<Rightarrow> int \<Rightarrow> bytes \<Rightarrow> bytes \<Rightarrow> verifier \<Rightarrow> auth_request" where
  "issued_request spec session now_ms id_bytes challenge_bytes v =
    \<lparr>protocol_version = PROTOCOL_VERSION, request_id = random_request_id id_bytes,
     verifier_id = vi_verifier_id (vf_identity v), verifier_name = vi_verifier_name (vf_identity v),
     credential_id = sp_credential_id spec, challenge = challenge_bytes,
     service = spec_service spec, action = spec_action spec, resource = spec_resource spec,
     user = spec_user spec, issued_at_ms = now_ms,
     expires_at_ms = saturating_add_i64 now_ms (clamp_i64 1 MAX_VALIDITY_MS (sp_validity_ms spec)),
     session_binding = se_session_binding session\<rparr>"

definition issue ::
  "request_spec \<Rightarrow> secure_session \<Rightarrow> int \<Rightarrow> bytes \<Rightarrow> bytes \<Rightarrow> verifier
    \<Rightarrow> authorization_error + pending_authorization" where
  "issue spec session now_ms id_bytes challenge_bytes v =
    (let security = se_security session in
     if \<not> suitable_for_authorization security
     then Inl (ChannelUnsuitable (ts_transport_name security)) else
     then_ok (ok_or (find_credential (sp_credential_id spec) (vf_store v))
       (UnknownCredential (sp_credential_id spec))) (\<lambda>(_, credential).
     let purpose = purpose_for_service (spec_service spec) in
     if pc_purpose credential \<noteq> purpose
     then Inl (PurposeMismatch (sp_credential_id spec) (pc_purpose credential) purpose) else
     then_ok (check_boot spec security credential purpose) (\<lambda>_.
     let request = issued_request spec session now_ms id_bytes challenge_bytes v in
     then_ok (map_err Malformed (validate_request request)) (\<lambda>_.
     if \<not> permits (pc_permissions credential) request then Inl PolicyDenied
     else Inr \<lparr>pa_request = request, pa_origin = se_origin_label session,
                pa_session_binding = se_session_binding session\<rparr>))))"

text \<open>
  \<open>accept\<close> in two parts, at the point where it changes state: the checks that leave the
  verifier alone, and what happens once the request id has been consumed.
\<close>

definition check_answer ::
  "pending_authorization \<Rightarrow> bytes \<Rightarrow> secure_session \<Rightarrow> authorization_error + auth_response" where
  "check_answer pending response_frame session =
    (let security = se_security session in
     if \<not> suitable_for_authorization security
     then Inl (ChannelUnsuitable (ts_transport_name security))
     else if se_session_binding session \<noteq> pa_session_binding pending then Inl SessionBindingMismatch
     else let request = pa_request pending in
     then_ok (map_err ProtocolFailed (decode_response response_frame)) (\<lambda>response.
     if rs_request_id response \<noteq> request_id request then Inl (ResponseMismatch ''requestId'')
     else if rs_verifier_id response \<noteq> verifier_id request then Inl (ResponseMismatch ''verifierId'')
     else if rs_credential_id response \<noteq> credential_id request
     then Inl (ResponseMismatch ''credentialId'')
     else if rs_protocol_version response \<noteq> protocol_version request
     then Inl (ResponseMismatch ''protocolVersion'')
     else Inr response))"

definition decide ::
  "('key, 'sig) p256 \<Rightarrow> pending_authorization \<Rightarrow> auth_response \<Rightarrow> int \<Rightarrow> pairing_store
    \<Rightarrow> authorization_error + grant" where
  "decide p pending response now_ms store =
    (let request = pa_request pending in
     if is_expired_at request now_ms then Inl Expired
     else if rs_decision response = Denied then Inl Declined
     else
     then_ok (ok_or (find_credential (credential_id request) store)
       (UnknownCredential (credential_id request))) (\<lambda>(device, credential).
     if \<not> permits (pc_permissions credential) request then Inl PolicyDenied else
     then_ok (map_err SignatureFailed (verify_authorization p (pc_algorithm credential)
         (pc_public_key credential) (rs_algorithm response) (signing_payload request)
         (rs_signature response))) (\<lambda>_.
     Inr \<lparr>gr_request_id = request_id request, gr_device_id = pd_device_id device,
          gr_device_name = pd_display_name device, gr_credential_id = credential_id request,
          gr_service = service request, gr_action = action request, gr_resource = resource request,
          gr_user = user request, gr_origin = pa_origin pending, gr_granted_at_ms = now_ms\<rparr>)))"

definition accept ::
  "('key, 'sig) p256 \<Rightarrow> pending_authorization \<Rightarrow> bytes \<Rightarrow> secure_session \<Rightarrow> int \<Rightarrow> verifier
    \<Rightarrow> (authorization_error + grant) \<times> verifier" where
  "accept p pending response_frame session now_ms v =
    (case check_answer pending response_frame session of
       Inl e \<Rightarrow> (Inl e, v)
     | Inr response \<Rightarrow>
         (case consume (request_id (pa_request pending)) (vf_replay v) of
            (fresh, replay) \<Rightarrow>
              let v = v\<lparr>vf_replay := replay\<rparr> in
              if \<not> fresh then (Inl Replayed, v)
              else (decide p pending response now_ms (vf_store v), v)))"

lemma map_err_simps [simp]:
  "map_err f r = Inr x \<longleftrightarrow> r = Inr x"
  "map_err f (Inl e) = Inl (f e)"
  by (cases r) (auto simp: map_err_def)

lemma ok_or_simps [simp]:
  "ok_or x e = Inr y \<longleftrightarrow> x = Some y"
  "ok_or None e = Inl e"
  by (cases x) (auto simp: ok_or_def)

lemmas then_ok_iffs = then_ok_eq_Inr then_ok_eq_Inl

subsection \<open>What an issued request is\<close>

lemma issue_iff:
  "issue spec session now_ms id_bytes challenge_bytes v = Inr pend \<longleftrightarrow>
    suitable_for_authorization (se_security session)
    \<and> (\<exists>d c. find_credential (sp_credential_id spec) (vf_store v) = Some (d, c)
        \<and> pc_purpose c = purpose_for_service (spec_service spec)
        \<and> (pc_purpose c = ForDiskUnlock \<longrightarrow>
             allowed_at_boot (pc_key_kind c) \<and> \<not> ts_is_development (se_security session))
        \<and> permits (pc_permissions c) (issued_request spec session now_ms id_bytes challenge_bytes v))
    \<and> validate_request (issued_request spec session now_ms id_bytes challenge_bytes v) = Inr ()
    \<and> pend = \<lparr>pa_request = issued_request spec session now_ms id_bytes challenge_bytes v,
        pa_origin = se_origin_label session, pa_session_binding = se_session_binding session\<rparr>"
  by (cases "find_credential (sp_credential_id spec) (vf_store v)")
    (auto simp: issue_def Let_def then_ok_eq_Inr ok_or_def split: if_splits)

lemma issued_validity:
  assumes "issue spec session now_ms id_bytes challenge_bytes v = Inr pend"
  shows "issued_at_ms (pa_request pend) < expires_at_ms (pa_request pend)
    \<and> expires_at_ms (pa_request pend) - issued_at_ms (pa_request pend) \<le> MAX_VALIDITY_MS"
  using assms by (auto simp: issue_iff validate_request_iff check_window_iff)

subsection \<open>What a grant means\<close>

definition answers :: "auth_response \<Rightarrow> auth_request \<Rightarrow> bool" where
  "answers r q \<longleftrightarrow> rs_request_id r = request_id q \<and> rs_verifier_id r = verifier_id q
    \<and> rs_credential_id r = credential_id q \<and> rs_protocol_version r = protocol_version q"

lemma check_answer_iff:
  "check_answer pend frame session = Inr r \<longleftrightarrow>
    suitable_for_authorization (se_security session)
    \<and> se_session_binding session = pa_session_binding pend
    \<and> decode_response frame = Inr r \<and> answers r (pa_request pend)"
  by (auto simp: check_answer_def answers_def Let_def then_ok_iffs split: if_splits)

definition grant_for :: "auth_request \<Rightarrow> paired_device \<Rightarrow> string \<Rightarrow> int \<Rightarrow> grant" where
  "grant_for q d origin now_ms =
    \<lparr>gr_request_id = request_id q, gr_device_id = pd_device_id d, gr_device_name = pd_display_name d,
     gr_credential_id = credential_id q, gr_service = service q, gr_action = action q,
     gr_resource = resource q, gr_user = user q, gr_origin = origin, gr_granted_at_ms = now_ms\<rparr>"

lemma decide_iff:
  "decide p pend r now_ms store = Inr g \<longleftrightarrow>
    now_ms < expires_at_ms (pa_request pend) \<and> rs_decision r = Authorized
    \<and> rs_algorithm r = ALGORITHM_ECDSA_P256_SHA256
    \<and> (\<exists>d c. find_credential (credential_id (pa_request pend)) store = Some (d, c)
        \<and> permits (pc_permissions c) (pa_request pend)
        \<and> pc_algorithm c = PUBLIC_KEY_EC_P256_SPKI
        \<and> signed_by p (pc_public_key c) (encode_request (pa_request pend)) (rs_signature r)
        \<and> g = grant_for (pa_request pend) d (pa_origin pend) now_ms)"
  by (cases "rs_decision r")
    (auto simp: decide_def Let_def is_expired_at_def then_ok_iffs verify_authorization_iff
      signing_payload_def grant_for_def split: if_splits)

lemma consume_fst: "fst (consume k g) \<longleftrightarrow> k \<notin> rg_seen g"
  by (simp add: consume_def Let_def split: list.split)

lemma accept_eq:
  "accept p pend frame session now_ms v =
    (case check_answer pend frame session of
       Inl e \<Rightarrow> (Inl e, v)
     | Inr r \<Rightarrow>
         (if request_id (pa_request pend) \<in> rg_seen (vf_replay v) then Inl Replayed
          else decide p pend r now_ms (vf_store v),
          v\<lparr>vf_replay := snd (consume (request_id (pa_request pend)) (vf_replay v))\<rparr>))"
  using consume_fst [of "request_id (pa_request pend)" "vf_replay v"]
  by (cases "consume (request_id (pa_request pend)) (vf_replay v)")
    (auto simp: accept_def Let_def split: sum.split)

lemma accept_grant_iff:
  "fst (accept p pend frame session now_ms v) = Inr g \<longleftrightarrow>
    (\<exists>r d c. suitable_for_authorization (se_security session)
      \<and> se_session_binding session = pa_session_binding pend
      \<and> decode_response frame = Inr r \<and> answers r (pa_request pend)
      \<and> request_id (pa_request pend) \<notin> rg_seen (vf_replay v)
      \<and> now_ms < expires_at_ms (pa_request pend) \<and> rs_decision r = Authorized
      \<and> find_credential (credential_id (pa_request pend)) (vf_store v) = Some (d, c)
      \<and> permits (pc_permissions c) (pa_request pend)
      \<and> rs_algorithm r = ALGORITHM_ECDSA_P256_SHA256 \<and> pc_algorithm c = PUBLIC_KEY_EC_P256_SPKI
      \<and> signed_by p (pc_public_key c) (encode_request (pa_request pend)) (rs_signature r)
      \<and> g = grant_for (pa_request pend) d (pa_origin pend) now_ms)"
proof (cases "check_answer pend frame session")
  case (Inl e)
  have "\<not> (suitable_for_authorization (se_security session) \<and> se_session_binding session = pa_session_binding pend
      \<and> decode_response frame = Inr r \<and> answers r (pa_request pend))" for r
    unfolding check_answer_iff [symmetric] Inl by simp
  then show ?thesis by (simp add: accept_eq Inl) blast
next
  case (Inr r)
  then show ?thesis using Inr [unfolded check_answer_iff]
    by (auto simp: accept_eq decide_iff)
qed

subsection \<open>Histories of a verifier\<close>

text \<open>The operations that change a verifier: an answer, a pairing, an unpairing.\<close>

datatype ('key, 'sig) verifier_event =
  AnswerArrives "pending_authorization" "bytes" "secure_session" "int"
  | PairDevice "paired_device" "world"
  | UnpairDevice "string" "world"

fun verifier_step :: "('key, 'sig) p256 \<Rightarrow> serde \<Rightarrow> ('key, 'sig) verifier_event \<Rightarrow> verifier \<Rightarrow> verifier" where
  "verifier_step p sd (AnswerArrives pend frame session now_ms) v = snd (accept p pend frame session now_ms v)"
| "verifier_step p sd (PairDevice d w) v = v\<lparr>vf_store := fst (snd (insert_device sd d (vf_store v) w))\<rparr>"
| "verifier_step p sd (UnpairDevice did w) v = v\<lparr>vf_store := fst (snd (remove_device sd did (vf_store v) w))\<rparr>"

definition verifier_run ::
  "('key, 'sig) p256 \<Rightarrow> serde \<Rightarrow> ('key, 'sig) verifier_event list \<Rightarrow> verifier \<Rightarrow> verifier" where
  "verifier_run p sd evs v = fold (verifier_step p sd) evs v"

text \<open>The request ids a history hands to the replay guard.\<close>

fun burned :: "('key, 'sig) verifier_event list \<Rightarrow> string list" where
  "burned [] = []"
| "burned (AnswerArrives pend frame session now_ms # evs) =
    (case check_answer pend frame session of
       Inl e \<Rightarrow> burned evs | Inr r \<Rightarrow> request_id (pa_request pend) # burned evs)"
| "burned (PairDevice d w # evs) = burned evs"
| "burned (UnpairDevice did w # evs) = burned evs"

lemma length_burned: "length (burned evs) \<le> length evs"
  by (induction evs rule: burned.induct) (auto split: sum.split)

lemma verifier_run_replay: "vf_replay (verifier_run p sd evs v) = after_keys consume (burned evs) (vf_replay v)"
  by (induction evs arbitrary: v rule: burned.induct)
    (auto simp: verifier_run_def accept_eq split: sum.split)

definition verifier_ok :: "verifier \<Rightarrow> bool" where
  "verifier_ok v \<longleftrightarrow> store_ok (vf_store v) \<and> replay_ok (vf_replay v)"

lemma verifier_step_ok: "verifier_ok v \<Longrightarrow> verifier_ok (verifier_step p sd ev v)"
  by (cases ev)
    (auto simp: verifier_ok_def accept_eq replay_ok_consume insert_device_ok remove_device_store
      drop_device_ok split: sum.split)

lemma verifier_run_ok: "verifier_ok v \<Longrightarrow> verifier_ok (verifier_run p sd evs v)"
  by (induction evs arbitrary: v) (simp_all add: verifier_run_def verifier_step_ok)

lemma verifier_new_ok: "store_ok s \<Longrightarrow> verifier_ok (verifier_new i s)"
  by (simp add: verifier_ok_def verifier_new_def replay_default_def with_capacity_ok)

text \<open>Once an answer has reached the replay guard, its request is refused for the next
  \<open>rg_capacity\<close> answers, whatever they are.\<close>

lemma accepted_length: "length (accepted_keys consume ks g) \<le> length ks"
  by (induction ks arbitrary: g) (auto intro: le_SucI)

lemma no_second_grant:
  assumes v: "verifier_ok v" and g: "fst (accept p pend frame session now_ms v) = Inr g"
    and n: "length evs < rg_capacity (vf_replay v)" and q: "request_id (pa_request pend') = request_id (pa_request pend)"
  shows "fst (accept p pend' frame' session' now' (verifier_run p sd evs (snd (accept p pend frame session now_ms v)))) \<noteq> Inr g'"
proof -
  let ?k = "request_id (pa_request pend)" and ?r = "vf_replay v"
  let ?v' = "snd (accept p pend frame session now_ms v)"
  from g obtain r where c: "check_answer pend frame session = Inr r" and fresh: "?k \<notin> rg_seen ?r"
    unfolding accept_grant_iff check_answer_iff by blast
  have r': "vf_replay ?v' = snd (consume ?k ?r)" by (simp add: accept_eq c)
  have "length (accepted_keys consume (burned evs) (snd (consume ?k ?r))) < rg_capacity ?r"
    using accepted_length [of "burned evs" "snd (consume ?k ?r)"] length_burned [of evs] n by linarith
  then have "\<not> fst (consume ?k (after_keys consume (burned evs) (snd (consume ?k ?r))))"
    using guard.refused_within_bound v fresh by (simp add: verifier_ok_def consume_fst)
  then have "?k \<in> rg_seen (vf_replay (verifier_run p sd evs ?v'))"
    by (simp add: verifier_run_replay r' consume_fst)
  with q show ?thesis unfolding accept_grant_iff by auto
qed

text \<open>An answer that got as far as the guard uses the id up, granted or not.\<close>

lemma accept_burns:
  assumes v: "verifier_ok v" and c: "check_answer pend frame session = Inr r"
    and q: "request_id (pa_request pend') = request_id (pa_request pend)"
  shows "fst (accept p pend' frame' session' now' (snd (accept p pend frame session now_ms v))) \<noteq> Inr g"
proof -
  let ?k = "request_id (pa_request pend)" and ?r = "vf_replay v"
  from v have g: "replay_ok ?r" by (simp add: verifier_ok_def)
  have "?k \<in> rg_seen (snd (consume ?k ?r))"
  proof (cases "?k \<in> rg_seen ?r")
    case True
    then show ?thesis by (simp add: consume_seen)
  next
    case False
    with g have "fst (consume ?k ?r)" by (simp add: consume_fst)
    with g have "\<not> fst (consume ?k (snd (consume ?k ?r)))"
      using guard.refused_within_bound [of ?r ?k "[]"] by (simp add: replay_ok_def)
    then show ?thesis by (simp add: consume_fst)
  qed
  with q c show ?thesis unfolding accept_grant_iff by (simp add: accept_eq)
qed

lemma accept_rejected_early:
  "check_answer pend frame session = Inl e \<Longrightarrow> accept p pend frame session now_ms v = (Inl e, v)"
  by (simp add: accept_eq)

text \<open>Past the window of the replay guard the same pending value is granted again.\<close>

lemma second_grant_past_window:
  assumes v: "verifier_ok v" and g: "fst (accept p pend frame session now_ms v) = Inr g"
    and st: "vf_store (verifier_run p sd evs (snd (accept p pend frame session now_ms v))) = vf_store v"
    and n: "rg_capacity (vf_replay v)
      \<le> length (accepted_keys consume (burned evs) (vf_replay (snd (accept p pend frame session now_ms v))))"
    and k: "request_id (pa_request pend) \<notin> set (burned evs)"
  shows "fst (accept p pend frame session now_ms (verifier_run p sd evs (snd (accept p pend frame session now_ms v)))) = Inr g"
proof -
  let ?k = "request_id (pa_request pend)" and ?r = "vf_replay v"
  let ?v' = "snd (accept p pend frame session now_ms v)"
  from g obtain r where c: "check_answer pend frame session = Inr r" and fresh: "?k \<notin> rg_seen ?r"
    unfolding accept_grant_iff check_answer_iff by blast
  have r': "vf_replay ?v' = snd (consume ?k ?r)" by (simp add: accept_eq c)
  have "fst (consume ?k (after_keys consume (burned evs) (snd (consume ?k ?r))))"
    using guard.accepted_again_past_bound [of ?r ?k "burned evs"] v fresh n k r'
    by (simp add: verifier_ok_def consume_fst)
  then have "?k \<notin> rg_seen (vf_replay (verifier_run p sd evs ?v'))"
    by (simp add: verifier_run_replay r' consume_fst)
  with g show ?thesis unfolding accept_grant_iff st by blast
qed

subsection \<open>From request to grant\<close>

definition spec_typed :: "request_spec \<Rightarrow> bool" where
  "spec_typed s \<longleftrightarrow> is_str (sp_credential_id s) \<and> is_str (spec_service s) \<and> is_str (spec_action s)
    \<and> is_str (spec_resource s) \<and> is_str (spec_user s)"

definition identity_typed :: "verifier_identity \<Rightarrow> bool" where
  "identity_typed i \<longleftrightarrow> is_str (vi_verifier_id i) \<and> is_str (vi_verifier_name i)"

lemma to_hex_ascii: "ascii (to_hex bs)"
proof (induction bs)
  case Nil
  then show ?case by (simp add: ascii_def)
next
  case (Cons b bs)
  have "(of_char (HEX_DIGITS ! i) :: nat) < 128" if "i < 16" for i
  proof -
    have "\<forall>i < 16. (of_char (HEX_DIGITS ! i) :: nat) < 128"
      unfolding all_less_16 by (simp add: HEX_DIGITS_def upt_rec nth_Cons')
    with that show ?thesis by blast
  qed
  with Cons nibbles(1,2) [of b] show ?case by (simp add: ascii_def)
qed

lemma is_i64_saturating: "is_i64 (saturating_add_i64 a b)"
  by (auto simp: is_i64_def saturating_add_i64_def)

lemma issued_request_typed:
  assumes "spec_typed spec" and "identity_typed (vf_identity v)" and "length challenge_bytes = CHALLENGE_LEN"
    and "length (se_session_binding session) = SESSION_BINDING_LEN" and "is_i64 now_ms"
  shows "request_typed (issued_request spec session now_ms id_bytes challenge_bytes v)"
  using assms is_str_ascii [OF to_hex_ascii [of id_bytes]]
  by (simp add: request_typed_def issued_request_def spec_typed_def identity_typed_def
      random_request_id_def is_i64_saturating)

text \<open>The phone reads back exactly the request that was issued, bound to this session.\<close>

lemma issued_frame_decodes:
  assumes i: "issue spec session now_ms id_bytes challenge_bytes v = Inr pend"
    and t: "spec_typed spec" "identity_typed (vf_identity v)" "length challenge_bytes = CHALLENGE_LEN"
      "length (se_session_binding session) = SESSION_BINDING_LEN" "is_i64 now_ms"
  shows "decode_request (pending_frame pend) = Inr (pa_request pend)
    \<and> session_binding (pa_request pend) = se_session_binding session"
proof -
  from i have p: "pa_request pend = issued_request spec session now_ms id_bytes challenge_bytes v"
    and val: "validate_request (pa_request pend) = Inr ()" by (auto simp: issue_iff)
  have "request_typed (pa_request pend)" unfolding p by (rule issued_request_typed [OF t])
  with val show ?thesis
    using request_codec.decode_encode by (simp add: pending_frame_def p issued_request_def)
qed

text \<open>A fresh request, answered in time over the same session with a proof by the paired key,
  is granted, and the grant says what was asked.\<close>

definition authorizes :: "auth_request \<Rightarrow> bytes \<Rightarrow> auth_response" where
  "authorizes q sig = \<lparr>rs_protocol_version = protocol_version q, rs_request_id = request_id q,
    rs_verifier_id = verifier_id q, rs_credential_id = credential_id q, rs_decision = Authorized,
    rs_algorithm = ALGORITHM_ECDSA_P256_SHA256, rs_signature = sig\<rparr>"

lemma answered_request_granted:
  assumes i: "issue spec session now_ms id_bytes challenge_bytes v = Inr pend"
    and f: "find_credential (sp_credential_id spec) (vf_store v) = Some (d, c)"
    and a: "pc_algorithm c = PUBLIC_KEY_EC_P256_SPKI"
    and s: "signed_by p (pc_public_key c) (pending_frame pend) sig"
    and r: "decode_response frame = Inr (authorizes (pa_request pend) sig)"
    and fresh: "random_request_id id_bytes \<notin> rg_seen (vf_replay v)"
    and t: "later < expires_at_ms (pa_request pend)"
  shows "fst (accept p pend frame session later v) = Inr (grant_for (pa_request pend) d (se_origin_label session) later)"
  unfolding accept_grant_iff
proof (intro exI conjI)
  from i show "suitable_for_authorization (se_security session)"
    and "se_session_binding session = pa_session_binding pend" by (auto simp: issue_iff)
  from i f show "permits (pc_permissions c) (pa_request pend)" by (auto simp: issue_iff)
  from i have q: "pa_request pend = issued_request spec session now_ms id_bytes challenge_bytes v"
    and o: "pa_origin pend = se_origin_label session" by (auto simp: issue_iff)
  from f q show "find_credential (credential_id (pa_request pend)) (vf_store v) = Some (d, c)"
    by (simp add: issued_request_def)
  from fresh q show "request_id (pa_request pend) \<notin> rg_seen (vf_replay v)"
    by (simp add: issued_request_def)
  from o show "grant_for (pa_request pend) d (se_origin_label session) later
    = grant_for (pa_request pend) d (pa_origin pend) later" by simp
  show "answers (authorizes (pa_request pend) sig) (pa_request pend)"
    by (simp add: answers_def authorizes_def)
  show "decode_response frame = Inr (authorizes (pa_request pend) sig)" by (rule r)
  show "later < expires_at_ms (pa_request pend)" by (rule t)
  show "pc_algorithm c = PUBLIC_KEY_EC_P256_SPKI" by (rule a)
  show "rs_decision (authorizes (pa_request pend) sig) = Authorized"
    and "rs_algorithm (authorizes (pa_request pend) sig) = ALGORITHM_ECDSA_P256_SHA256"
    by (simp_all add: authorizes_def)
  from s show "signed_by p (pc_public_key c) (encode_request (pa_request pend))
      (rs_signature (authorizes (pa_request pend) sig))"
    by (simp add: authorizes_def pending_frame_def)
qed

end
