(* ===== verification/Session_Keys.thy ===== *)
theory Session_Keys
  imports Cbor Signature
begin

text \<open>
  Errors, identities and the key schedule of a secure session: \<open>phone-auth-session/src/lib.rs\<close>,
  \<open>identity.rs\<close> and \<open>keys.rs\<close>. The primitives of the cryptographic crates are parameters, in
  one record; what is proved of them is only that the two ends call them alike.
\<close>

datatype session_error =
  InvalidBootstrap string | BootstrapExpired | InvalidFrame string | SessionCbor cbor_error
  | IdentityKey | BadSignature | PeerMismatch | VerifierIdentityMismatch | Kdf | Encrypt | Decrypt
  | Replay | CounterExhausted

definition KEY_LEN :: nat where "KEY_LEN = 32"
definition KDF_DOMAIN :: bytes where "KDF_DOMAIN = as_bytes ''PhoneAuth/secure-session/v1''"
definition BINDING_DOMAIN :: bytes where "BINDING_DOMAIN = as_bytes ''PhoneAuth/session-binding/v1''"
definition VERIFICATION_DOMAIN :: bytes where
  "VERIFICATION_DOMAIN = as_bytes ''PhoneAuth/pairing-verification/v1''"
definition IDENTITY_DOMAIN :: bytes where "IDENTITY_DOMAIN = as_bytes ''PhoneAuth/identity/v1''"
definition VERIFICATION_CODE_DIGITS :: nat where "VERIFICATION_CODE_DIGITS = 6"

record ('key, 'sig, 'secret) crypto =
  cr_sha256 :: "bytes \<Rightarrow> bytes"
  cr_hkdf :: "bytes \<Rightarrow> bytes \<Rightarrow> bytes \<Rightarrow> nat \<Rightarrow> bytes option"
  cr_x25519_public :: "bytes \<Rightarrow> bytes"
  cr_x25519 :: "bytes \<Rightarrow> bytes \<Rightarrow> bytes"
  cr_encrypt :: "bytes \<Rightarrow> bytes \<Rightarrow> bytes \<Rightarrow> bytes \<Rightarrow> bytes option"
  cr_decrypt :: "bytes \<Rightarrow> bytes \<Rightarrow> bytes \<Rightarrow> bytes \<Rightarrow> bytes option"
  cr_spki :: "'secret \<Rightarrow> bytes option"
  cr_sign :: "'secret \<Rightarrow> bytes \<Rightarrow> bytes"
  cr_p256 :: "('key, 'sig) p256"

text \<open>What the two ends rely on: shared secrets agree, signatures verify under the matching key,
  opening undoes sealing and nothing else opens, hashes and keys have their lengths.\<close>

definition crypto_ok :: "('key, 'sig, 'secret) crypto \<Rightarrow> bool" where
  "crypto_ok cr \<longleftrightarrow>
    (\<forall>m. length (cr_sha256 cr m) = 32)
    \<and> (\<forall>s i d n out. cr_hkdf cr s i d n = Some out \<longrightarrow> length out = n)
    \<and> (\<forall>s i d n. n \<le> 255 * 32 \<longrightarrow> cr_hkdf cr s i d n \<noteq> None)
    \<and> (\<forall>a. length (cr_x25519_public cr a) = 32)
    \<and> (\<forall>a b. cr_x25519 cr a (cr_x25519_public cr b) = cr_x25519 cr b (cr_x25519_public cr a))
    \<and> (\<forall>k n a m c. cr_encrypt cr k n a m = Some c \<longleftrightarrow> cr_decrypt cr k n a c = Some m)
    \<and> (\<forall>k n a m c. cr_encrypt cr k n a m = Some c \<longrightarrow> length c = length m + 16)
    \<and> (\<forall>s pk m. cr_spki cr s = Some pk \<longrightarrow> signed_by (cr_p256 cr) pk m (cr_sign cr s m))"

subsection \<open>Identities\<close>

definition public_key_spki :: "('key, 'sig, 'secret) crypto \<Rightarrow> 'secret \<Rightarrow> session_error + bytes" where
  "public_key_spki cr s = (case cr_spki cr s of None \<Rightarrow> Inl IdentityKey | Some pk \<Rightarrow> Inr pk)"

definition hash_identity :: "('key, 'sig, 'secret) crypto \<Rightarrow> bytes \<Rightarrow> bytes" where
  "hash_identity cr spki = cr_sha256 cr (IDENTITY_DOMAIN @ spki)"

definition public_key_hash :: "('key, 'sig, 'secret) crypto \<Rightarrow> 'secret \<Rightarrow> session_error + bytes" where
  "public_key_hash cr s = then_ok (public_key_spki cr s) (\<lambda>spki. Inr (hash_identity cr spki))"

definition verify_identity ::
  "('key, 'sig, 'secret) crypto \<Rightarrow> bytes \<Rightarrow> bytes \<Rightarrow> bytes \<Rightarrow> session_error + unit" where
  "verify_identity cr spki message signature =
    (case from_public_key_der (cr_p256 cr) spki of
       None \<Rightarrow> Inl IdentityKey
     | Some key \<Rightarrow>
         (case der_signature (cr_p256 cr) signature of
            None \<Rightarrow> Inl BadSignature
          | Some sig \<Rightarrow> if ecdsa_verify (cr_p256 cr) key message sig then Inr () else Inl BadSignature))"

lemma verify_identity_iff [simp]:
  "verify_identity cr spki m sig = Inr u \<longleftrightarrow> signed_by (cr_p256 cr) spki m sig"
  by (auto simp: verify_identity_def signed_by_def split: option.splits)

subsection \<open>Keys\<close>

record key_schedule =
  ks_client_to_server :: bytes
  ks_server_to_client :: bytes
  ks_exporter :: bytes

definition split_key :: "bytes \<Rightarrow> nat \<Rightarrow> bytes" where
  "split_key material index = take KEY_LEN (drop (index * KEY_LEN) material)"

definition derive ::
  "('key, 'sig, 'secret) crypto \<Rightarrow> bytes \<Rightarrow> bytes \<Rightarrow> session_error + key_schedule" where
  "derive cr shared_secret transcript_hash =
    (case cr_hkdf cr transcript_hash shared_secret KDF_DOMAIN (KEY_LEN * 3) of
       None \<Rightarrow> Inl Kdf
     | Some material \<Rightarrow> Inr \<lparr>ks_client_to_server = split_key material 0,
         ks_server_to_client = split_key material 1, ks_exporter = split_key material 2\<rparr>)"

record binding_inputs =
  bi_transport_name :: string
  bi_session_id :: string
  bi_server_ephemeral :: bytes
  bi_client_ephemeral :: bytes
  bi_exporter :: bytes

text \<open>\<open>hasher.update((field.len() as u64).to_be_bytes()); hasher.update(field)\<close> for each field.\<close>

definition hash_field :: "bytes \<Rightarrow> bytes" where
  "hash_field f = to_be_bytes 8 (word_of_nat (length f)) @ f"

definition binding_preimage :: "binding_inputs \<Rightarrow> bytes" where
  "binding_preimage i = BINDING_DOMAIN @ concat (map hash_field
    [as_bytes (bi_transport_name i), as_bytes (bi_session_id i), bi_server_ephemeral i,
     bi_client_ephemeral i, bi_exporter i])"

definition derive_binding :: "('key, 'sig, 'secret) crypto \<Rightarrow> binding_inputs \<Rightarrow> bytes" where
  "derive_binding cr i = cr_sha256 cr (binding_preimage i)"

text \<open>\<open>{:0width$}\<close>.\<close>

definition zero_padded :: "nat \<Rightarrow> nat \<Rightarrow> string" where
  "zero_padded width n = replicate (width - length (decimal n)) CHR ''0'' @ decimal n"

definition verification_code :: "('key, 'sig, 'secret) crypto \<Rightarrow> bytes \<Rightarrow> string" where
  "verification_code cr exporter =
    (let digest = cr_sha256 cr (VERIFICATION_DOMAIN @ exporter);
         value = unat (ucast (from_be_bytes (take 4 digest)) :: u32);
         modulus = 10 ^ VERIFICATION_CODE_DIGITS
     in zero_padded VERIFICATION_CODE_DIGITS (value mod modulus))"

subsection \<open>The binding says what it was made from\<close>

lemma hash_field_inject:
  assumes e: "hash_field f @ r = hash_field g @ t" and "slice_ok f" and "slice_ok g"
  shows "f = g \<and> r = t"
proof -
  have l: "to_be_bytes 8 (word_of_nat (length f)) = to_be_bytes 8 (word_of_nat (length g))"
    using e by (simp add: hash_field_def)
  have "from_be_bytes (to_be_bytes 8 w) = w" for w :: u64
    using take_bit_length_eq [of w] by (simp add: from_to_be_bytes)
  with l have "unat (word_of_nat (length f) :: u64) = unat (word_of_nat (length g) :: u64)" by metis
  then have "length f = length g"
    using assms(2,3) by (simp add: unat_of_nat slice_ok_def)
  with l e show ?thesis by (simp add: hash_field_def)
qed

lemma hash_fields_inject:
  "concat (map hash_field fs) = concat (map hash_field gs) \<Longrightarrow> length fs = length gs \<Longrightarrow>
    \<forall>f \<in> set fs \<union> set gs. slice_ok f \<Longrightarrow> fs = gs"
proof (induction fs arbitrary: gs)
  case Nil
  then show ?case by simp
next
  case (Cons f fs)
  then obtain g hs where gs: "gs = g # hs" by (cases gs) auto
  with Cons.prems hash_field_inject [of f "concat (map hash_field fs)" g "concat (map hash_field hs)"]
  have "f = g" "concat (map hash_field fs) = concat (map hash_field hs)" by auto
  with Cons gs show ?case by simp
qed

definition binding_fields :: "binding_inputs \<Rightarrow> bytes list" where
  "binding_fields i = [as_bytes (bi_transport_name i), as_bytes (bi_session_id i),
    bi_server_ephemeral i, bi_client_ephemeral i, bi_exporter i]"

text \<open>No two sets of inputs are hashed from the same bytes.\<close>

lemma binding_preimage_inject:
  assumes "binding_preimage i = binding_preimage j"
    and "\<forall>f \<in> set (binding_fields i) \<union> set (binding_fields j). slice_ok f"
  shows "i = j"
proof -
  have "binding_fields i = binding_fields j"
    using hash_fields_inject [of "binding_fields i" "binding_fields j"] assms
    unfolding binding_preimage_def binding_fields_def by simp
  then show ?thesis by (cases i; cases j) (simp add: binding_fields_def)
qed

lemma verification_code_digits:
  "length (verification_code cr e) = 6
    \<and> (\<forall>c \<in> set (verification_code cr e). is_digit c)"
proof -
  let ?n = "unat (ucast (from_be_bytes (take 4 (cr_sha256 cr (VERIFICATION_DOMAIN @ e)))) :: u32) mod 10 ^ 6"
  have c: "verification_code cr e = zero_padded 6 ?n"
    by (simp add: verification_code_def VERIFICATION_CODE_DIGITS_def)
  have "length (decimal ?n) \<le> 6" by (rule decimal_length) simp_all
  then have "length (zero_padded 6 ?n) = 6" by (simp only: zero_padded_def) simp
  moreover have "is_digit ch" if "ch \<in> set (zero_padded 6 ?n)" for ch
    using that decimal_digits [of ch ?n] by (simp only: zero_padded_def) (auto simp: is_digit_def split: if_splits)
  ultimately show ?thesis unfolding c by blast
qed

end
