(* ===== verification/Framing.thy ===== *)
theory Framing
  imports Prelude
begin

text \<open>
  Length-prefixed frames over a byte stream: \<open>phone-auth-session/src/framing.rs\<close>. A stream is
  what will arrive: pieces of data in whatever sizes, and stalls at which a read times out.
\<close>

definition MAX_FRAME :: nat where "MAX_FRAME = 8192"
definition PREFIX :: nat where "PREFIX = 4"

datatype stream_error = InvalidInput | InvalidData | UnexpectedEof | TimedOut | WriteFailed

datatype arrival = Data bytes | Stall

text \<open>\<open>Read::read\<close> into a buffer of \<open>n\<close> bytes; nothing is left to read at the end of the stream.\<close>

fun sock_read :: "nat \<Rightarrow> arrival list \<Rightarrow> (stream_error + bytes) \<times> arrival list" where
  "sock_read n [] = (Inr [], [])"
| "sock_read n (Stall # s) = (Inl TimedOut, s)"
| "sock_read n (Data bs # s) =
    (Inr (take n bs), if length bs > n then Data (drop n bs) # s else s)"

text \<open>\<open>Read::read_exact\<close>: what was read before a failure is gone with the buffer.\<close>

function read_exact_into :: "nat \<Rightarrow> bytes \<Rightarrow> arrival list \<Rightarrow> (stream_error + bytes) \<times> arrival list" where
  "read_exact_into n got s =
    (if length got < n then
       (case sock_read (n - length got) s of
          (Inl e, s) \<Rightarrow> (Inl e, s)
        | (Inr [], s) \<Rightarrow> (Inl UnexpectedEof, s)
        | (Inr (b # bs), s) \<Rightarrow> read_exact_into n (got @ b # bs) s)
     else (Inr got, s))"
  by pat_completeness auto
termination
  by (relation "measure (\<lambda>(n, got, s). n - length got)") auto

declare read_exact_into.simps [simp del]

definition read_exact :: "nat \<Rightarrow> arrival list \<Rightarrow> (stream_error + bytes) \<times> arrival list" where
  "read_exact n s = read_exact_into n [] s"

definition be_u32 :: "bytes \<Rightarrow> nat" where
  "be_u32 bs = unat (ucast (from_be_bytes bs) :: u32)"

definition frame_bytes :: "bytes \<Rightarrow> bytes" where
  "frame_bytes frame = to_be_bytes 4 (ucast (word_of_nat (length frame) :: u32)) @ frame"

text \<open>The sink takes everything or fails; \<open>sent\<close> is what it has taken.\<close>

definition write_frame :: "bool \<Rightarrow> bytes \<Rightarrow> bytes \<Rightarrow> stream_error + bytes" where
  "write_frame sink_works frame sent =
    (if frame = [] \<or> length frame > MAX_FRAME then Inl InvalidInput
     else if sink_works then Inr (sent @ frame_bytes frame) else Inl WriteFailed)"

definition read_frame :: "arrival list \<Rightarrow> (stream_error + bytes) \<times> arrival list" where
  "read_frame s =
    (case read_exact PREFIX s of
       (Inl e, s) \<Rightarrow> (Inl e, s)
     | (Inr prefix, s) \<Rightarrow>
         let len = be_u32 prefix in
         if len = 0 \<or> len > MAX_FRAME then (Inl InvalidData, s) else read_exact len s)"

function fill_to :: "nat \<Rightarrow> bytes \<Rightarrow> arrival list \<Rightarrow> (stream_error + unit) \<times> bytes \<times> arrival list" where
  "fill_to target pending s =
    (if length pending < target then
       let wanted = min (target - length pending) 1024 in
       (case sock_read wanted s of
          (Inl e, s) \<Rightarrow> (Inl e, pending, s)
        | (Inr [], s) \<Rightarrow> (Inl UnexpectedEof, pending, s)
        | (Inr (b # bs), s) \<Rightarrow> fill_to target (pending @ b # bs) s)
     else (Inr (), pending, s))"
  by pat_completeness auto
termination
  by (relation "measure (\<lambda>(target, pending, s). target - length pending)") auto

declare fill_to.simps [simp del]

definition read_frame_resumable ::
  "bytes \<Rightarrow> arrival list \<Rightarrow> (stream_error + bytes) \<times> bytes \<times> arrival list" where
  "read_frame_resumable pending s =
    (case fill_to PREFIX pending s of
       (Inl e, pending, s) \<Rightarrow> (Inl e, pending, s)
     | (Inr _, pending, s) \<Rightarrow>
         let len = be_u32 (take PREFIX pending) in
         if len = 0 \<or> len > MAX_FRAME then (Inl InvalidData, [], s)
         else (case fill_to (PREFIX + len) pending s of
             (Inl e, pending, s) \<Rightarrow> (Inl e, pending, s)
           | (Inr _, pending, s) \<Rightarrow>
               (Inr (take len (drop PREFIX pending)), drop (PREFIX + len) pending, s)))"

subsection \<open>Nothing is lost across a timeout\<close>

fun content :: "arrival list \<Rightarrow> bytes" where
  "content [] = []"
| "content (Data bs # s) = bs @ content s"
| "content (Stall # s) = content s"

definition stalls :: "arrival list \<Rightarrow> nat" where
  "stalls s = length (filter (\<lambda>a. a = Stall) s)"

text \<open>No read of a live connection returns zero bytes.\<close>

definition live :: "arrival list \<Rightarrow> bool" where
  "live s \<longleftrightarrow> Data [] \<notin> set s"

lemma sock_read_Inr:
  assumes "sock_read n s = (Inr bs, s')"
  shows "content s = bs @ content s'" and "length bs \<le> n" and "stalls s' = stalls s"
    and "live s \<Longrightarrow> 0 < n \<Longrightarrow> live s' \<and> (bs = [] \<longrightarrow> s = [])"
  using assms
  by (induction n s rule: sock_read.induct) (auto simp: stalls_def live_def split: if_splits)

lemma sock_read_Inl:
  assumes "sock_read n s = (Inl e, s')"
  shows "e = TimedOut \<and> content s' = content s \<and> stalls s = Suc (stalls s') \<and> (live s \<longrightarrow> live s')"
  using assms
  by (induction n s rule: sock_read.induct) (auto simp: stalls_def live_def)

lemma fill_to_step:
  assumes "length p < t"
  obtains e s' where "sock_read (min (t - length p) 1024) s = (Inl e, s')" "fill_to t p s = (Inl e, p, s')"
  | s' where "sock_read (min (t - length p) 1024) s = (Inr [], s')" "fill_to t p s = (Inl UnexpectedEof, p, s')"
  | b bs s' where "sock_read (min (t - length p) 1024) s = (Inr (b # bs), s')"
      "fill_to t p s = fill_to t (p @ b # bs) s'"
proof -
  obtain r s' where r: "sock_read (min (t - length p) 1024) s = (r, s')" by fastforce
  show thesis
  proof (cases r)
    case (Inl e)
    with r assms that(1) show thesis by (simp add: fill_to.simps [of t p s] Let_def)
  next
    case (Inr bs)
    with r assms that(2,3) show thesis by (cases bs) (simp_all add: fill_to.simps [of t p s] Let_def)
  qed
qed

lemma fill_to_conserves:
  "fill_to t p s = (r, p', s') \<Longrightarrow> p' @ content s' = p @ content s \<and> (\<exists>ys. p' = p @ ys)
    \<and> (live s \<longrightarrow> live s')"
proof (induction t p s arbitrary: r p' s' rule: fill_to.induct)
  case (1 t p s)
  show ?case
  proof (cases "length p < t")
    case False
    with "1.prems" show ?thesis by (simp add: fill_to.simps)
  next
    case True
    then show ?thesis
    proof (cases rule: fill_to_step [of p t s])
      case (1 e u)
      with "1.prems" sock_read_Inl [OF 1(1)] show ?thesis by auto
    next
      case (2 u)
      with "1.prems" sock_read_Inr [OF 2(1)] True show ?thesis by auto
    next
      case (3 b bs u)
      with "1.prems" sock_read_Inr [OF 3(1)] True "1.IH" [OF True refl 3(1) [symmetric] refl refl, of r p' s']
      show ?thesis by auto
    qed
  qed
qed

lemma fill_to_ok:
  "fill_to t p s = (Inr u, p', s') \<Longrightarrow> length p' = max t (length p) \<and> stalls s' = stalls s"
proof (induction t p s arbitrary: p' s' rule: fill_to.induct)
  case (1 t p s)
  show ?case
  proof (cases "length p < t")
    case False
    with "1.prems" show ?thesis by (simp add: fill_to.simps)
  next
    case True
    then show ?thesis
    proof (cases rule: fill_to_step [of p t s])
      case (3 b bs v)
      with "1.prems" sock_read_Inr(2,3) [OF 3(1)] True
        "1.IH" [OF True refl 3(1) [symmetric] refl refl, of p' s']
      show ?thesis by auto
    qed (use "1.prems" in auto)
  qed
qed

lemma fill_to_error:
  "fill_to t p s = (Inl e, p', s') \<Longrightarrow>
    (e = TimedOut \<and> stalls s' < stalls s \<or> e = UnexpectedEof \<and> (live s \<longrightarrow> s' = [])) \<and> length p' < t"
proof (induction t p s arbitrary: p' s' rule: fill_to.induct)
  case (1 t p s)
  show ?case
  proof (cases "length p < t")
    case False
    with "1.prems" show ?thesis by (simp add: fill_to.simps)
  next
    case True
    then show ?thesis
    proof (cases rule: fill_to_step [of p t s])
      case (1 e' v)
      with "1.prems" sock_read_Inl [OF 1(1)] True show ?thesis by auto
    next
      case (2 v)
      have "live s \<longrightarrow> v = []" using sock_read_Inr(1,4) [OF 2(1)] True 2(1) by auto
      with 2 "1.prems" True show ?thesis by auto
    next
      case (3 b bs v)
      with "1.prems" sock_read_Inr(3,4) [OF 3(1)] True
        "1.IH" [OF True refl 3(1) [symmetric] refl refl, of p' s']
      show ?thesis by auto
    qed
  qed
qed

lemma fill_to_no_timeout:
  "stalls s = 0 \<Longrightarrow> live s \<Longrightarrow> length (p @ content s) \<ge> t \<Longrightarrow> \<exists>p' s'. fill_to t p s = (Inr (), p', s')"
proof -
  assume s: "stalls s = 0" and l: "live s" and n: "length (p @ content s) \<ge> t"
  obtain r p' s' where f: "fill_to t p s = (r, p', s')" by (metis prod.exhaust)
  show "\<exists>p' s'. fill_to t p s = (Inr (), p', s')"
  proof (cases r)
    case (Inl e)
    with fill_to_error [of t p s e p' s'] f s l have "s' = []" and p: "length p' < t" by auto
    with fill_to_conserves [OF f] have "p' = p @ content s" by simp
    with n p show ?thesis by simp
  next
    case (Inr u)
    with f show ?thesis by auto
  qed
qed

lemma be_u32_length:
  assumes "length f \<le> MAX_FRAME"
  shows "be_u32 (to_be_bytes 4 (ucast (word_of_nat (length f) :: u32))) = length f"
proof -
  have "ucast (take_bit 32 (ucast (w :: u32) :: u64)) = w" for w :: u32
    by (rule bit_word_eqI) (auto simp: bit_simps)
  moreover have "unat (word_of_nat (length f) :: u32) = length f"
    using assms by (simp add: unat_of_nat MAX_FRAME_def)
  ultimately show ?thesis by (simp add: be_u32_def)
qed

lemma prefix_of_length:
  assumes "length h = 4" and "be_u32 h = n"
  shows "to_be_bytes 4 (ucast (word_of_nat n :: u32)) = h"
proof -
  have "word_of_nat n = (ucast (from_be_bytes h) :: u32)" unfolding assms(2) [symmetric] be_u32_def by simp
  then have "ucast (word_of_nat n :: u32) = take_bit 32 (from_be_bytes h)"
    by (simp add: unsigned_ucast_eq)
  then show ?thesis
    using to_be_bytes_take_bit [of 4 32 "from_be_bytes h"] to_from_be_bytes [of h] assms(1) by simp
qed

text \<open>A frame that is read is the next frame of the stream.\<close>

lemma resumable_frame:
  assumes "read_frame_resumable p s = (Inr f, p', s')"
  shows "p @ content s = frame_bytes f @ p' @ content s' \<and> f \<noteq> [] \<and> length f \<le> MAX_FRAME
    \<and> (live s \<longrightarrow> live s')"
proof -
  obtain r q v where h: "fill_to PREFIX p s = (r, q, v)" by (metis prod.exhaust)
  with assms obtain u where r: "r = Inr u"
    by (cases r) (auto simp: read_frame_resumable_def)
  let ?n = "be_u32 (take PREFIX q)"
  from h r assms have n: "?n \<noteq> 0" "?n \<le> MAX_FRAME"
    by (auto simp: read_frame_resumable_def Let_def split: if_splits)
  obtain r' q' v' where b: "fill_to (PREFIX + ?n) q v = (r', q', v')" by (metis prod.exhaust)
  with h r n assms obtain u' where r': "r' = Inr u'" and f: "f = take ?n (drop PREFIX q')"
    and p': "p' = drop (PREFIX + ?n) q'" and s': "s' = v'"
    by (cases r') (auto simp: read_frame_resumable_def Let_def)
  have lq: "PREFIX \<le> length q" using fill_to_ok [of PREFIX p s u q v] h r by simp
  have lq': "PREFIX + ?n \<le> length q'" using fill_to_ok [of "PREFIX + ?n" q v u' q' v'] b r' by simp
  from fill_to_conserves [OF b] obtain ys where ys: "q' = q @ ys" and c: "q' @ content v' = q @ content v"
    and l': "live v \<longrightarrow> live v'" by auto
  from fill_to_conserves [OF h] have c0: "q @ content v = p @ content s" and l: "live s \<longrightarrow> live v" by auto
  from lq ys have t: "take PREFIX q' = take PREFIX q" by simp
  have lf: "length f = ?n" using f lq' by simp
  have "frame_bytes f = take PREFIX q' @ f"
    unfolding t using prefix_of_length [of "take PREFIX q" ?n] lq
    by (simp add: frame_bytes_def lf PREFIX_def)
  moreover have "take PREFIX q' @ f @ p' = q'"
  proof -
    have "f @ p' = take ?n (drop PREFIX q') @ drop ?n (drop PREFIX q')"
      unfolding f p' by (simp add: add.commute)
    then have "f @ p' = drop PREFIX q'" by (simp only: append_take_drop_id)
    then show ?thesis by simp
  qed
  ultimately have "frame_bytes f @ p' @ content s' = p @ content s"
    using c c0 s' by (metis append_assoc)
  with n lf l l' s' show ?thesis by auto
qed

text \<open>A timeout keeps every byte that has arrived.\<close>

lemma resumable_timeout:
  assumes "read_frame_resumable p s = (Inl TimedOut, p', s')"
  shows "p' @ content s' = p @ content s \<and> stalls s' < stalls s \<and> (live s \<longrightarrow> live s')"
proof -
  obtain r q v where h: "fill_to PREFIX p s = (r, q, v)" by (metis prod.exhaust)
  show ?thesis
  proof (cases r)
    case (Inl e)
    with h assms have "p' = q" "s' = v" "e = TimedOut" by (auto simp: read_frame_resumable_def)
    with fill_to_conserves [OF h] fill_to_error [of PREFIX p s e q v] h Inl show ?thesis by auto
  next
    case (Inr u)
    let ?n = "be_u32 (take PREFIX q)"
    obtain r' q' v' where b: "fill_to (PREFIX + ?n) q v = (r', q', v')" by (metis prod.exhaust)
    with h Inr assms have "r' = Inl TimedOut" "p' = q'" "s' = v'"
      by (cases r'; auto simp: read_frame_resumable_def Let_def split: if_splits)+
    with fill_to_conserves [OF h] fill_to_conserves [OF b] fill_to_error [of "PREFIX + ?n" q v TimedOut q' v']
      fill_to_ok [of PREFIX p s u q v] h b Inr show ?thesis by auto
  qed
qed

lemma resumable_stalls:
  assumes "read_frame_resumable p s = (Inr f, p', s')"
  shows "stalls s' = stalls s"
proof -
  obtain r q v where h: "fill_to PREFIX p s = (r, q, v)" by (metis prod.exhaust)
  with assms obtain u where r: "r = Inr u" by (cases r) (auto simp: read_frame_resumable_def)
  let ?n = "be_u32 (take PREFIX q)"
  obtain r' q' v' where b: "fill_to (PREFIX + ?n) q v = (r', q', v')" by (metis prod.exhaust)
  with h r assms obtain u' where "r' = Inr u'" "s' = v'"
    by (cases r') (auto simp: read_frame_resumable_def Let_def split: if_splits)
  with fill_to_ok [of PREFIX p s u q v] fill_to_ok [of "PREFIX + ?n" q v u' q' v'] h b r show ?thesis by simp
qed

text \<open>With nothing to come, nothing is read.\<close>

lemma resumable_empty:
  assumes "content s = []" and "live s" and "read_frame_resumable [] s = (r, p', s')"
  shows "(\<exists>e. r = Inl e) \<and> p' = [] \<and> content s' = [] \<and> live s'"
proof -
  obtain h q v where h: "fill_to PREFIX [] s = (h, q, v)" by (metis prod.exhaust)
  from fill_to_conserves [OF h] assms have q: "q = []" "content v = []" "live v" by auto
  with fill_to_ok [of PREFIX "[]" s _ q v] h have "\<exists>e. h = Inl e" by (cases h) (auto simp: PREFIX_def)
  with h q assms(3) show ?thesis by (auto simp: read_frame_resumable_def)
qed

lemma frame_bytes_take: "take 4 (frame_bytes f @ rest) = to_be_bytes 4 (ucast (word_of_nat (length f) :: u32))"
  by (simp add: frame_bytes_def)

lemma frame_bytes_inject:
  assumes "frame_bytes f @ r = frame_bytes g @ t" and "length f \<le> MAX_FRAME" and "length g \<le> MAX_FRAME"
  shows "f = g \<and> r = t"
proof -
  from assms(1) have h: "to_be_bytes 4 (ucast (word_of_nat (length f) :: u32)) = to_be_bytes 4 (ucast (word_of_nat (length g) :: u32))"
    using frame_bytes_take [of f r] frame_bytes_take [of g t] by simp
  then have "length f = length g" using be_u32_length assms(2,3) by metis
  with assms(1) h show ?thesis by (simp add: frame_bytes_def)
qed

lemma resumable_progress:
  assumes l: "live s" and c: "p @ content s = frame_bytes f @ rest"
    and f: "f \<noteq> []" "length f \<le> MAX_FRAME"
  shows "(\<exists>p' s'. read_frame_resumable p s = (Inl TimedOut, p', s'))
    \<or> (\<exists>p' s'. read_frame_resumable p s = (Inr f, p', s') \<and> p' @ content s' = rest)"
proof -
  have "\<exists>p' s'. read_frame_resumable p s = (Inl TimedOut, p', s') \<or> (\<exists>g. read_frame_resumable p s = (Inr g, p', s'))"
  proof -
    obtain r q v where h: "fill_to PREFIX p s = (r, q, v)" by (metis prod.exhaust)
    from fill_to_conserves [OF h] l c have cq: "q @ content v = frame_bytes f @ rest" and lv: "live v" by auto
    show ?thesis
    proof (cases r)
      case (Inl e)
      have "e = TimedOut"
      proof (rule ccontr)
        assume "e \<noteq> TimedOut"
        with fill_to_error [of PREFIX p s e q v] h Inl l have "v = []" "length q < PREFIX" by auto
        with cq have "length (frame_bytes f @ rest) < 4" by (simp add: PREFIX_def flip: cq)
        then show False by (simp add: frame_bytes_def)
      qed
      with h Inl show ?thesis by (simp add: read_frame_resumable_def)
    next
      case (Inr u)
      with fill_to_ok [of PREFIX p s u q v] h have lq: "4 \<le> length q" by (simp add: PREFIX_def)
      then have "take 4 q = take 4 (q @ content v)" by simp
      then have n: "be_u32 (take PREFIX q) = length f"
        unfolding cq frame_bytes_take using be_u32_length [OF f(2)] by (simp add: PREFIX_def)
      obtain r' q' v' where b: "fill_to (PREFIX + length f) q v = (r', q', v')" by (metis prod.exhaust)
      from fill_to_conserves [OF b] cq have cq': "q' @ content v' = frame_bytes f @ rest" by simp
      show ?thesis
      proof (cases r')
        case (Inl e)
        have "e = TimedOut"
        proof (rule ccontr)
          assume "e \<noteq> TimedOut"
          with fill_to_error [of "PREFIX + length f" q v e q' v'] b Inl lv
          have "v' = []" "length q' < 4 + length f" by (auto simp: PREFIX_def)
          with cq' have "length (frame_bytes f @ rest) < 4 + length f" by (simp flip: cq')
          then show False by (simp add: frame_bytes_def)
        qed
        with h Inr b Inl n f show ?thesis by (simp add: read_frame_resumable_def)
      next
        case Inr': (Inr u')
        with h Inr b n f show ?thesis by (simp add: read_frame_resumable_def Let_def)
      qed
    qed
  qed
  then show ?thesis
  proof (elim exE disjE)
    fix p' s' g assume g: "read_frame_resumable p s = (Inr g, p', s')"
    from resumable_frame [OF g] c have "frame_bytes g @ p' @ content s' = frame_bytes f @ rest" and "length g \<le> MAX_FRAME"
      by simp_all
    from frame_bytes_inject [OF this f(2)] g show ?thesis by auto
  qed blast
qed

text \<open>Calling again after each timeout, as the transports do.\<close>

fun read_retry :: "nat \<Rightarrow> bytes \<Rightarrow> arrival list \<Rightarrow> (stream_error + bytes) \<times> bytes \<times> arrival list" where
  "read_retry 0 p s = (Inl TimedOut, p, s)"
| "read_retry (Suc n) p s =
    (case read_frame_resumable p s of
       (Inl TimedOut, p, s) \<Rightarrow> read_retry n p s
     | other \<Rightarrow> other)"

lemma read_retry_delivers:
  assumes "live s" and "p @ content s = frame_bytes f @ rest" and "f \<noteq> []" and "length f \<le> MAX_FRAME"
    and "stalls s < n"
  shows "\<exists>p' s'. read_retry n p s = (Inr f, p', s') \<and> p' @ content s' = rest"
  using assms
proof (induction n arbitrary: p s)
  case 0
  then show ?case by simp
next
  case (Suc n)
  from resumable_progress [OF Suc.prems(1-4)] show ?case
  proof (elim disjE exE conjE)
    fix p' s' assume t: "read_frame_resumable p s = (Inl TimedOut, p', s')"
    from resumable_timeout [OF t] Suc.prems Suc.IH [of s' p'] t show ?thesis by simp
  qed auto
qed

lemma write_then_read:
  assumes "write_frame True f [] = Inr sent" and "live s" and "content s = sent @ rest" and "stalls s < n"
  shows "\<exists>p' s'. read_retry n [] s = (Inr f, p', s') \<and> p' @ content s' = rest"
proof -
  from assms(1) have "f \<noteq> []" "length f \<le> MAX_FRAME" "sent = frame_bytes f"
    by (auto simp: write_frame_def split: if_splits)
  with read_retry_delivers [of s "[]" f rest n] assms show ?thesis by simp
qed

end
