(* ===== verification/Secure_Channel.thy ===== *)
theory Secure_Channel
  imports Session_Keys Framing
begin

text \<open>
  The record layer over an established handshake: \<open>phone-auth-session/src/channel.rs\<close>. One key
  and one counter for each direction; a record is its counter and the sealed frame.
\<close>

definition RECORD_OVERHEAD :: nat where "RECORD_OVERHEAD = 8 + 16"

datatype role = Server | Client

record secure_channel =
  ch_send :: bytes
  ch_receive :: bytes
  ch_binding :: bytes
  ch_send_counter :: u64
  ch_receive_counter :: u64

definition channel_new :: "role \<Rightarrow> key_schedule \<Rightarrow> bytes \<Rightarrow> secure_channel" where
  "channel_new role schedule binding =
    (let (send, receive) = (case role of
        Server \<Rightarrow> (ks_server_to_client schedule, ks_client_to_server schedule)
      | Client \<Rightarrow> (ks_client_to_server schedule, ks_server_to_client schedule))
     in \<lparr>ch_send = send, ch_receive = receive, ch_binding = binding,
         ch_send_counter = 0, ch_receive_counter = 0\<rparr>)"

definition nonce :: "u64 \<Rightarrow> bytes" where
  "nonce counter = replicate 4 0 @ to_be_bytes 8 counter"

definition checked_add_1 :: "u64 \<Rightarrow> u64 option" where
  "checked_add_1 n = (if unat n + 1 < 2 ^ 64 then Some (n + 1) else None)"

definition seal ::
  "('key, 'sig, 'secret) crypto \<Rightarrow> bytes \<Rightarrow> secure_channel \<Rightarrow> (session_error + bytes) \<times> secure_channel" where
  "seal cr cleartext ch =
    (if cleartext = [] \<or> length cleartext > MAX_FRAME
     then (Inl (InvalidFrame ''invalid cleartext frame size''), ch)
     else
       let counter = ch_send_counter ch in
       (case cr_encrypt cr (ch_send ch) (nonce counter) (ch_binding ch) cleartext of
          None \<Rightarrow> (Inl Encrypt, ch)
        | Some cipher \<Rightarrow>
            (case checked_add_1 (ch_send_counter ch) of
               None \<Rightarrow> (Inl CounterExhausted, ch)
             | Some next \<Rightarrow> (Inr (to_be_bytes 8 counter @ cipher), ch\<lparr>ch_send_counter := next\<rparr>))))"

definition open_record ::
  "('key, 'sig, 'secret) crypto \<Rightarrow> bytes \<Rightarrow> secure_channel \<Rightarrow> (session_error + bytes) \<times> secure_channel" where
  "open_record cr rec ch =
    (if length rec \<le> RECORD_OVERHEAD \<or> length rec > MAX_FRAME + RECORD_OVERHEAD
     then (Inl (InvalidFrame ''invalid encrypted record size''), ch)
     else
       let counter = from_be_bytes (take 8 rec) in
       if counter \<noteq> ch_receive_counter ch then (Inl Replay, ch)
       else
         (case cr_decrypt cr (ch_receive ch) (nonce counter) (ch_binding ch) (drop 8 rec) of
            None \<Rightarrow> (Inl Decrypt, ch)
          | Some clear \<Rightarrow>
              (case checked_add_1 (ch_receive_counter ch) of
                 None \<Rightarrow> (Inl CounterExhausted, ch)
               | Some next \<Rightarrow> (Inr clear, ch\<lparr>ch_receive_counter := next\<rparr>))))"

subsection \<open>Two ends in step\<close>

text \<open>What one end sends, the other is about to receive.\<close>

definition in_step :: "secure_channel \<Rightarrow> secure_channel \<Rightarrow> bool" where
  "in_step a b \<longleftrightarrow> ch_send a = ch_receive b \<and> ch_binding a = ch_binding b
    \<and> ch_send_counter a = ch_receive_counter b"

lemma new_channels_in_step:
  "in_step (channel_new Server ks b) (channel_new Client ks b)"
  "in_step (channel_new Client ks b) (channel_new Server ks b)"
  by (simp_all add: in_step_def channel_new_def)

lemma checked_add_1_Some: "checked_add_1 n = Some m \<Longrightarrow> unat m = unat n + 1"
  by (auto simp: checked_add_1_def unat_word_ariths split: if_splits)

lemma counter_bytes [simp]: "from_be_bytes (to_be_bytes 8 (w :: u64)) = w"
  using take_bit_length_eq [of w] by (simp add: from_to_be_bytes)

lemma seal_Inr:
  assumes "seal cr m ch = (Inr rec, ch')"
  obtains c n where "cr_encrypt cr (ch_send ch) (nonce (ch_send_counter ch)) (ch_binding ch) m = Some c"
    and "checked_add_1 (ch_send_counter ch) = Some n" and "rec = to_be_bytes 8 (ch_send_counter ch) @ c"
    and "ch' = ch\<lparr>ch_send_counter := n\<rparr>" and "m \<noteq> []" and "length m \<le> MAX_FRAME"
  using assms by (auto simp: seal_def Let_def split: if_splits option.splits)

lemma open_Inr:
  assumes "open_record cr rec ch = (Inr m, ch')"
  obtains n where "cr_decrypt cr (ch_receive ch) (nonce (ch_receive_counter ch)) (ch_binding ch) (drop 8 rec) = Some m"
    and "checked_add_1 (ch_receive_counter ch) = Some n" and "take 8 rec = to_be_bytes 8 (ch_receive_counter ch)"
    and "ch' = ch\<lparr>ch_receive_counter := n\<rparr>" and "RECORD_OVERHEAD < length rec" and "length rec \<le> MAX_FRAME + RECORD_OVERHEAD"
proof -
  have "to_be_bytes 8 (from_be_bytes (take 8 rec)) = take 8 rec" if "8 \<le> length rec"
    using to_from_be_bytes [of "take 8 rec"] that by simp
  with assms that show thesis
    by (auto simp: open_record_def RECORD_OVERHEAD_def Let_def split: if_splits option.splits)
qed

lemma open_sealed:
  assumes cr: "crypto_ok cr" and s: "in_step a b" and m: "seal cr m a = (Inr rec, a')"
  shows "\<exists>b'. open_record cr rec b = (Inr m, b') \<and> in_step a' b'
    \<and> b' = b\<lparr>ch_receive_counter := ch_send_counter a'\<rparr>"
  using m
proof (rule seal_Inr)
  fix c n
  assume c: "cr_encrypt cr (ch_send a) (nonce (ch_send_counter a)) (ch_binding a) m = Some c"
    and n: "checked_add_1 (ch_send_counter a) = Some n" and r: "rec = to_be_bytes 8 (ch_send_counter a) @ c"
    and a': "a' = a\<lparr>ch_send_counter := n\<rparr>" and m: "m \<noteq> []" "length m \<le> MAX_FRAME"
  have "length c = length m + 16" using cr c unfolding crypto_ok_def by blast
  then have l: "RECORD_OVERHEAD < length rec" "length rec \<le> MAX_FRAME + RECORD_OVERHEAD"
    using m r by (simp_all add: RECORD_OVERHEAD_def)
  have "cr_decrypt cr (ch_receive b) (nonce (ch_receive_counter b)) (ch_binding b) c = Some m"
    using cr c s unfolding crypto_ok_def in_step_def by metis
  with s l n r a' show ?thesis by (simp add: open_record_def in_step_def Let_def)
qed

text \<open>Only the record that is due opens, and it holds what the other end sealed.\<close>

lemma opened_was_sealed:
  assumes cr: "crypto_ok cr" and s: "in_step a b" and o: "open_record cr rec b = (Inr m, b')"
  shows "\<exists>a'. seal cr m a = (Inr rec, a')"
  using o
proof (rule open_Inr)
  fix n
  assume d: "cr_decrypt cr (ch_receive b) (nonce (ch_receive_counter b)) (ch_binding b) (drop 8 rec) = Some m"
    and n: "checked_add_1 (ch_receive_counter b) = Some n" and t: "take 8 rec = to_be_bytes 8 (ch_receive_counter b)"
    and l: "RECORD_OVERHEAD < length rec" "length rec \<le> MAX_FRAME + RECORD_OVERHEAD"
  have e: "cr_encrypt cr (ch_send a) (nonce (ch_send_counter a)) (ch_binding a) m = Some (drop 8 rec)"
    using cr d s unfolding crypto_ok_def in_step_def by metis
  then have "length (drop 8 rec) = length m + 16" using cr unfolding crypto_ok_def by blast
  with l have "m \<noteq> []" "length m \<le> MAX_FRAME" by (auto simp: RECORD_OVERHEAD_def)
  moreover have "to_be_bytes 8 (ch_send_counter a) @ drop 8 rec = rec"
    using t s append_take_drop_id [of 8 rec] by (simp add: in_step_def)
  ultimately show ?thesis using e n s by (simp add: seal_def Let_def in_step_def)
qed

subsection \<open>Whole conversations\<close>

fun seal_all :: "('key, 'sig, 'secret) crypto \<Rightarrow> bytes list \<Rightarrow> secure_channel \<Rightarrow> session_error + bytes list" where
  "seal_all cr [] ch = Inr []"
| "seal_all cr (m # ms) ch =
    (case seal cr m ch of
       (Inl e, ch) \<Rightarrow> Inl e
     | (Inr r, ch) \<Rightarrow> then_ok (seal_all cr ms ch) (\<lambda>rs. Inr (r # rs)))"

fun open_all :: "('key, 'sig, 'secret) crypto \<Rightarrow> bytes list \<Rightarrow> secure_channel \<Rightarrow> session_error + bytes list" where
  "open_all cr [] ch = Inr []"
| "open_all cr (r # rs) ch =
    (case open_record cr r ch of
       (Inl e, ch) \<Rightarrow> Inl e
     | (Inr m, ch) \<Rightarrow> then_ok (open_all cr rs ch) (\<lambda>ms. Inr (m # ms)))"

lemma open_seal_all:
  assumes "crypto_ok cr"
  shows "in_step a b \<Longrightarrow> seal_all cr ms a = Inr rs \<Longrightarrow> open_all cr rs b = Inr ms"
proof (induction ms arbitrary: a b rs)
  case Nil
  then show ?case by simp
next
  case (Cons m ms)
  then obtain r a' rs' where r: "seal cr m a = (Inr r, a')" and rs: "seal_all cr ms a' = Inr rs'" "rs = r # rs'"
    by (auto simp: then_ok_eq_Inr split: prod.splits sum.splits)
  from open_sealed [OF assms Cons.prems(1) r] obtain b' where "open_record cr r b = (Inr m, b')" "in_step a' b'"
    by auto
  with Cons.IH rs show ?case by simp
qed

text \<open>A record already opened, skipped or reordered is a replay, and costs nothing.\<close>

lemma open_wrong_counter:
  assumes "from_be_bytes (take 8 rec) \<noteq> ch_receive_counter ch"
  shows "\<exists>e. open_record cr rec ch = (Inl e, ch)"
  using assms by (auto simp: open_record_def Let_def)

lemma open_twice:
  assumes "open_record cr rec ch = (Inr m, ch')"
  shows "open_record cr rec ch' = (Inl Replay, ch')"
  using assms
proof (rule open_Inr)
  fix n
  assume "checked_add_1 (ch_receive_counter ch) = Some n" and t: "take 8 rec = to_be_bytes 8 (ch_receive_counter ch)"
    and "ch' = ch\<lparr>ch_receive_counter := n\<rparr>" and "RECORD_OVERHEAD < length rec" and "length rec \<le> MAX_FRAME + RECORD_OVERHEAD"
  moreover from this have "n \<noteq> ch_receive_counter ch" using checked_add_1_Some by fastforce
  ultimately show ?thesis by (simp add: open_record_def Let_def t)
qed

lemma open_failure_keeps_channel: "open_record cr rec ch = (Inl e, ch') \<Longrightarrow> ch' = ch"
  by (auto simp: open_record_def Let_def split: if_splits option.splits)

text \<open>No nonce is used for two records of one channel.\<close>

lemma seal_all_nonces:
  "seal_all cr ms ch = Inr rs \<Longrightarrow>
    map (\<lambda>r. from_be_bytes (take 8 r)) rs = map (\<lambda>i. word_of_nat (unat (ch_send_counter ch) + i)) [0 ..< length ms]
    \<and> unat (ch_send_counter ch) + length ms < 2 ^ 64"
proof (induction ms arbitrary: ch rs)
  case Nil
  then show ?case using unsigned_less [of "ch_send_counter ch", where ?'a = nat] by simp
next
  case (Cons m ms)
  then obtain r ch' rs' where r: "seal cr m ch = (Inr r, ch')" and rs: "seal_all cr ms ch' = Inr rs'" "rs = r # rs'"
    by (auto simp: then_ok_eq_Inr split: prod.splits sum.splits)
  from r obtain n c where n: "checked_add_1 (ch_send_counter ch) = Some n" and "ch' = ch\<lparr>ch_send_counter := n\<rparr>"
    and c: "r = to_be_bytes 8 (ch_send_counter ch) @ c" by (rule seal_Inr)
  with Cons.IH [OF rs(1)] rs(2) checked_add_1_Some [OF n]
  show ?case by (simp add: upt_conv_Cons map_Suc_upt [symmetric] del: upt_Suc)
qed

lemma seal_all_distinct:
  assumes "seal_all cr ms ch = Inr rs"
  shows "distinct (map (\<lambda>r. from_be_bytes (take 8 r)) rs)"
proof -
  from seal_all_nonces [OF assms] have b: "unat (ch_send_counter ch) + length ms < 2 ^ 64"
    and m: "map (\<lambda>r. from_be_bytes (take 8 r)) rs
      = map (\<lambda>i. word_of_nat (unat (ch_send_counter ch) + i)) [0 ..< length ms]" by auto
  have word_nat: "unat (word_of_nat n :: u64) = n" if "n < 2 ^ 64" for n
    using that by (simp add: unat_of_nat)
  have "inj_on (\<lambda>i. word_of_nat (unat (ch_send_counter ch) + i) :: u64) {0 ..< length ms}"
  proof (rule inj_onI)
    fix i j
    assume "i \<in> {0 ..< length ms}" "j \<in> {0 ..< length ms}"
      and "(word_of_nat (unat (ch_send_counter ch) + i) :: u64) = word_of_nat (unat (ch_send_counter ch) + j)"
    then have "unat (word_of_nat (unat (ch_send_counter ch) + i) :: u64) = unat (word_of_nat (unat (ch_send_counter ch) + j) :: u64)"
      and "unat (ch_send_counter ch) + i < 2 ^ 64" "unat (ch_send_counter ch) + j < 2 ^ 64" using b by auto
    with word_nat have "unat (ch_send_counter ch) + i = unat (ch_send_counter ch) + j" by metis
    then show "i = j" by simp
  qed
  then show ?thesis unfolding m by (simp add: distinct_map)
qed

end
