(* ===== verification/Bootstrap.thy ===== *)
theory Bootstrap
  imports Session_Keys Encoding Enrolment
begin

text \<open>
  What a pairing QR code carries: \<open>phone-auth-session/src/bootstrap.rs\<close>. A query string of
  fields separated by ampersands; its parser fails on anything it does not know.
\<close>

definition BOOTSTRAP_PREFIX :: string where "BOOTSTRAP_PREFIX = ''phoneauth://pair/v1?''"
definition DEFAULT_LIFETIME_MS :: int where "DEFAULT_LIFETIME_MS = 120000"

record server_bootstrap =
  sb_session_id :: string
  sb_nonce :: bytes
  sb_verifier_id :: string
  sb_verifier_identity_hash :: bytes
  sb_endpoint :: string
  sb_expires_at_ms :: int
  sb_purpose :: credential_purpose

definition check_separators :: "string \<Rightarrow> session_error + unit" where
  "check_separators field =
    (if CHR ''&'' \<in> set field \<or> CHR ''='' \<in> set field
     then Inl (InvalidBootstrap ''bootstrap fields may not contain `&` or `=`'') else Inr ())"

definition validate_bootstrap :: "server_bootstrap \<Rightarrow> session_error + unit" where
  "validate_bootstrap b =
    (if sb_session_id b = [] \<or> length (sb_session_id b) > 64
     then Inl (InvalidBootstrap ''invalid session identifier'')
     else if sb_verifier_id b = [] \<or> length (sb_verifier_id b) > 64
     then Inl (InvalidBootstrap ''invalid verifier identifier'')
     else if length (sb_endpoint b) > 128 then Inl (InvalidBootstrap ''endpoint is too long'')
     else for_each_ok check_separators [sb_session_id b, sb_verifier_id b, sb_endpoint b])"

text \<open>The 32 random bytes of the nonce are an argument.\<close>

definition bootstrap_for_purpose ::
  "('key, 'sig, 'secret) crypto \<Rightarrow> bytes \<Rightarrow> string \<Rightarrow> string \<Rightarrow> string \<Rightarrow> 'secret \<Rightarrow> int \<Rightarrow> int
    \<Rightarrow> credential_purpose \<Rightarrow> session_error + server_bootstrap" where
  "bootstrap_for_purpose cr random session_id verifier_id endpoint identity now_ms lifetime_ms purpose =
    then_ok (public_key_hash cr identity) (\<lambda>hash.
    let bootstrap = \<lparr>sb_session_id = session_id, sb_nonce = random, sb_verifier_id = verifier_id,
          sb_verifier_identity_hash = hash, sb_endpoint = endpoint,
          sb_expires_at_ms = saturating_add_i64 now_ms (max lifetime_ms 1), sb_purpose = purpose\<rparr> in
    then_ok (validate_bootstrap bootstrap) (\<lambda>_. Inr bootstrap))"

definition bootstrap_new ::
  "('key, 'sig, 'secret) crypto \<Rightarrow> bytes \<Rightarrow> string \<Rightarrow> string \<Rightarrow> string \<Rightarrow> 'secret \<Rightarrow> int \<Rightarrow> int
    \<Rightarrow> session_error + server_bootstrap" where
  "bootstrap_new cr random session_id verifier_id endpoint identity now_ms lifetime_ms =
    bootstrap_for_purpose cr random session_id verifier_id endpoint identity now_ms lifetime_ms Authorization"

definition bootstrap_expired_at :: "server_bootstrap \<Rightarrow> int \<Rightarrow> bool" where
  "bootstrap_expired_at b now_ms \<longleftrightarrow> now_ms \<ge> sb_expires_at_ms b"

definition to_uri :: "server_bootstrap \<Rightarrow> string" where
  "to_uri b =
    (let uri = BOOTSTRAP_PREFIX @ ''vid='' @ sb_verifier_id b @ ''&sid='' @ sb_session_id b
          @ ''&n='' @ to_base64url (sb_nonce b) @ ''&k='' @ to_base64url (sb_verifier_identity_hash b)
          @ ''&ep='' @ sb_endpoint b @ ''&exp='' @ format_i64 (sb_expires_at_ms b)
     in case sb_purpose b of
          Authorization \<Rightarrow> uri
        | other \<Rightarrow> uri @ ''&p='' @ decimal (unat (purpose_wire other)))"

definition fixed_b64 :: "string \<Rightarrow> string \<Rightarrow> session_error + bytes" where
  "fixed_b64 value message =
    (case from_base64url value of
       Inl _ \<Rightarrow> Inl (InvalidBootstrap message)
     | Inr bs \<Rightarrow> if length bs = 32 then Inr bs else Inl (InvalidBootstrap message))"

text \<open>The local variables of the parser's loop.\<close>

record partial_bootstrap =
  pb_verifier_id :: "string option"
  pb_session_id :: "string option"
  pb_nonce :: "bytes option"
  pb_hash :: "bytes option"
  pb_endpoint :: "string option"
  pb_expires_at_ms :: "int option"
  pb_purpose :: credential_purpose

definition partial_empty :: partial_bootstrap where
  "partial_empty = \<lparr>pb_verifier_id = None, pb_session_id = None, pb_nonce = None, pb_hash = None,
    pb_endpoint = None, pb_expires_at_ms = None, pb_purpose = Authorization\<rparr>"

definition parse_purpose :: "string \<Rightarrow> session_error + credential_purpose" where
  "parse_purpose value =
    (case parse_i64 value of
       None \<Rightarrow> Inl (InvalidBootstrap ''invalid bootstrap credential purpose'')
     | Some v \<Rightarrow> (case purpose_from_wire v of
           Inl _ \<Rightarrow> Inl (InvalidBootstrap ''invalid bootstrap credential purpose'')
         | Inr p \<Rightarrow> Inr p))"

definition parse_field :: "string \<Rightarrow> partial_bootstrap \<Rightarrow> session_error + partial_bootstrap" where
  "parse_field pair b =
    (case split_once CHR ''='' pair of
       None \<Rightarrow> Inl (InvalidBootstrap ''malformed bootstrap field'')
     | Some (key, value) \<Rightarrow>
         if key = ''vid'' then Inr (b\<lparr>pb_verifier_id := Some value\<rparr>)
         else if key = ''sid'' then Inr (b\<lparr>pb_session_id := Some value\<rparr>)
         else if key = ''n'' then
           then_ok (fixed_b64 value ''invalid bootstrap nonce'') (\<lambda>n. Inr (b\<lparr>pb_nonce := Some n\<rparr>))
         else if key = ''k'' then
           then_ok (fixed_b64 value ''invalid verifier identity hash'') (\<lambda>h. Inr (b\<lparr>pb_hash := Some h\<rparr>))
         else if key = ''ep'' then Inr (b\<lparr>pb_endpoint := Some value\<rparr>)
         else if key = ''exp'' then
           (case parse_i64 value of
              None \<Rightarrow> Inl (InvalidBootstrap ''invalid bootstrap expiry'')
            | Some t \<Rightarrow> Inr (b\<lparr>pb_expires_at_ms := Some t\<rparr>))
         else if key = ''p'' then then_ok (parse_purpose value) (\<lambda>p. Inr (b\<lparr>pb_purpose := p\<rparr>))
         else Inl (InvalidBootstrap ''unknown bootstrap field''))"

fun parse_fields :: "string list \<Rightarrow> partial_bootstrap \<Rightarrow> session_error + partial_bootstrap" where
  "parse_fields [] b = Inr b"
| "parse_fields (p # ps) b = then_ok (parse_field p b) (parse_fields ps)"

definition required :: "'a option \<Rightarrow> session_error + 'a" where
  "required x = (case x of
     None \<Rightarrow> Inl (InvalidBootstrap ''bootstrap is missing a required field'') | Some y \<Rightarrow> Inr y)"

definition from_uri :: "string \<Rightarrow> session_error + server_bootstrap" where
  "from_uri uri =
    (case strip_prefix uri BOOTSTRAP_PREFIX of
       None \<Rightarrow> Inl (InvalidBootstrap ''not a PhoneAuth v1 pairing bootstrap'')
     | Some query \<Rightarrow>
         then_ok (parse_fields (split_on CHR ''&'' query) partial_empty) (\<lambda>b.
         then_ok (required (pb_session_id b)) (\<lambda>session_id.
         then_ok (required (pb_nonce b)) (\<lambda>nonce.
         then_ok (required (pb_verifier_id b)) (\<lambda>verifier_id.
         then_ok (required (pb_hash b)) (\<lambda>hash.
         then_ok (required (pb_endpoint b)) (\<lambda>endpoint.
         then_ok (required (pb_expires_at_ms b)) (\<lambda>expires.
         let bootstrap = \<lparr>sb_session_id = session_id, sb_nonce = nonce, sb_verifier_id = verifier_id,
               sb_verifier_identity_hash = hash, sb_endpoint = endpoint, sb_expires_at_ms = expires,
               sb_purpose = pb_purpose b\<rparr> in
         then_ok (validate_bootstrap bootstrap) (\<lambda>_. Inr bootstrap)))))))))"

subsection \<open>The code a phone scans holds what the desktop put in it\<close>

definition bootstrap_typed :: "server_bootstrap \<Rightarrow> bool" where
  "bootstrap_typed b \<longleftrightarrow> length (sb_nonce b) = 32 \<and> length (sb_verifier_identity_hash b) = 32
    \<and> is_i64 (sb_expires_at_ms b)"

lemma validate_bootstrap_iff: "validate_bootstrap b = Inr u \<longleftrightarrow>
    sb_session_id b \<noteq> [] \<and> length (sb_session_id b) \<le> 64
    \<and> sb_verifier_id b \<noteq> [] \<and> length (sb_verifier_id b) \<le> 64 \<and> length (sb_endpoint b) \<le> 128
    \<and> (\<forall>f \<in> {sb_session_id b, sb_verifier_id b, sb_endpoint b}. CHR ''&'' \<notin> set f \<and> CHR ''='' \<notin> set f)"
  by (auto simp: validate_bootstrap_def check_separators_def then_ok_eq_Inr)

lemma BASE64URL_no_separator: "c \<in> set BASE64URL \<Longrightarrow> c \<noteq> CHR ''&'' \<and> c \<noteq> CHR ''=''"
  by (auto simp: BASE64URL_def)

lemma b64_digit_in: "b64_digit n s \<in> set BASE64URL"
  using sextet [of "drop_bit s n"] by (simp add: b64_digit_def length_BASE64URL)

lemma to_base64url_chars: "set (to_base64url bs) \<subseteq> set BASE64URL"
  by (induction bs rule: to_base64url.induct) (auto simp: Let_def b64_digit_in)

lemma base64url_no_separator: "CHR ''&'' \<notin> set (to_base64url bs)"
  using to_base64url_chars [of bs] BASE64URL_no_separator by blast

lemma decimal_no_separator: "CHR ''&'' \<notin> set (decimal n)"
  using decimal_digits [of "CHR ''&''" n] by (auto simp: is_digit_def)

lemma format_no_separator: "CHR ''&'' \<notin> set (format_i64 x)"
  using decimal_no_separator by (simp add: format_i64_def)

lemma fixed_b64_to: "length bs = 32 \<Longrightarrow> fixed_b64 (to_base64url bs) m = Inr bs"
  by (simp add: fixed_b64_def from_to_base64url)

lemma parse_purpose_wire: "parse_purpose (decimal (unat (purpose_wire p))) = Inr p"
proof -
  have "parse_i64 (decimal (unat (purpose_wire p))) = Some (uint (purpose_wire p))"
    using parse_format_i64 [of "uint (purpose_wire p)"]
    by (cases p) (simp_all add: format_i64_def is_i64_def)
  then show ?thesis by (simp add: parse_purpose_def wire_at)
qed

definition uri_fields :: "server_bootstrap \<Rightarrow> string list" where
  "uri_fields b = [''vid='' @ sb_verifier_id b, ''sid='' @ sb_session_id b, ''n='' @ to_base64url (sb_nonce b),
    ''k='' @ to_base64url (sb_verifier_identity_hash b), ''ep='' @ sb_endpoint b,
    ''exp='' @ format_i64 (sb_expires_at_ms b)]
    @ (if sb_purpose b = Authorization then [] else [''p='' @ decimal (unat (purpose_wire (sb_purpose b)))])"

lemma field_split:
  "CHR ''='' \<notin> set k \<Longrightarrow> split_once CHR ''='' (k @ CHR ''='' # v) = Some (k, v)"
  by (rule split_once_append)

lemma parse_field_known:
  "parse_field (CHR ''v'' # CHR ''i'' # CHR ''d'' # CHR ''='' # v) b = Inr (b\<lparr>pb_verifier_id := Some v\<rparr>)"
  "parse_field (CHR ''s'' # CHR ''i'' # CHR ''d'' # CHR ''='' # v) b = Inr (b\<lparr>pb_session_id := Some v\<rparr>)"
  "parse_field (CHR ''n'' # CHR ''='' # v) b =
    then_ok (fixed_b64 v ''invalid bootstrap nonce'') (\<lambda>n. Inr (b\<lparr>pb_nonce := Some n\<rparr>))"
  "parse_field (CHR ''k'' # CHR ''='' # v) b =
    then_ok (fixed_b64 v ''invalid verifier identity hash'') (\<lambda>h. Inr (b\<lparr>pb_hash := Some h\<rparr>))"
  "parse_field (CHR ''e'' # CHR ''p'' # CHR ''='' # v) b = Inr (b\<lparr>pb_endpoint := Some v\<rparr>)"
  "parse_field (CHR ''e'' # CHR ''x'' # CHR ''p'' # CHR ''='' # v) b =
    (case parse_i64 v of
       None \<Rightarrow> Inl (InvalidBootstrap ''invalid bootstrap expiry'')
     | Some t \<Rightarrow> Inr (b\<lparr>pb_expires_at_ms := Some t\<rparr>))"
  "parse_field (CHR ''p'' # CHR ''='' # v) b = then_ok (parse_purpose v) (\<lambda>p. Inr (b\<lparr>pb_purpose := p\<rparr>))"
  by (simp_all add: parse_field_def split_once_def)

lemma from_to_uri:
  assumes t: "bootstrap_typed b" and v: "validate_bootstrap b = Inr ()"
  shows "from_uri (to_uri b) = Inr b"
proof -
  let ?a = "CHR ''&''"
  note sep = base64url_no_separator format_no_separator decimal_no_separator
  have ids: "?a \<notin> set (sb_verifier_id b)" "?a \<notin> set (sb_session_id b)" "?a \<notin> set (sb_endpoint b)"
    using v by (auto simp: validate_bootstrap_iff)
  have "\<exists>q. to_uri b = BOOTSTRAP_PREFIX @ q \<and> split_on ?a q = uri_fields b"
  proof (intro exI conjI)
    let ?q = "''vid='' @ sb_verifier_id b @ ?a # ''sid='' @ sb_session_id b @ ?a # ''n='' @ to_base64url (sb_nonce b)
      @ ?a # ''k='' @ to_base64url (sb_verifier_identity_hash b) @ ?a # ''ep='' @ sb_endpoint b @ ?a # ''exp=''
      @ format_i64 (sb_expires_at_ms b)
      @ (if sb_purpose b = Authorization then [] else ?a # ''p='' @ decimal (unat (purpose_wire (sb_purpose b))))"
    show "to_uri b = BOOTSTRAP_PREFIX @ ?q"
      by (cases "sb_purpose b") (simp_all add: to_uri_def Let_def)
    show "split_on ?a ?q = uri_fields b"
      using ids sep by (simp add: uri_fields_def split_on_append split_on_absent)
  qed
  then obtain q where q: "to_uri b = BOOTSTRAP_PREFIX @ q" and s: "split_on ?a q = uri_fields b" by blast
  have "parse_fields (uri_fields b) partial_empty = Inr \<lparr>pb_verifier_id = Some (sb_verifier_id b),
      pb_session_id = Some (sb_session_id b), pb_nonce = Some (sb_nonce b),
      pb_hash = Some (sb_verifier_identity_hash b), pb_endpoint = Some (sb_endpoint b),
      pb_expires_at_ms = Some (sb_expires_at_ms b), pb_purpose = sb_purpose b\<rparr>"
    using t by (simp add: uri_fields_def parse_field_known partial_empty_def fixed_b64_to
        parse_format_i64 parse_purpose_wire bootstrap_typed_def)
  then have "from_uri (to_uri b) = (let c = \<lparr>sb_session_id = sb_session_id b, sb_nonce = sb_nonce b, sb_verifier_id = sb_verifier_id b,
      sb_verifier_identity_hash = sb_verifier_identity_hash b, sb_endpoint = sb_endpoint b,
      sb_expires_at_ms = sb_expires_at_ms b, sb_purpose = sb_purpose b\<rparr>
      in then_ok (validate_bootstrap c) (\<lambda>_. Inr c))"
    by (simp add: from_uri_def q s required_def Let_def)
  also have "\<lparr>sb_session_id = sb_session_id b, sb_nonce = sb_nonce b, sb_verifier_id = sb_verifier_id b,
      sb_verifier_identity_hash = sb_verifier_identity_hash b, sb_endpoint = sb_endpoint b,
      sb_expires_at_ms = sb_expires_at_ms b, sb_purpose = sb_purpose b\<rparr> = b" by (cases b) simp
  finally show ?thesis using v by (simp add: Let_def)
qed

text \<open>Whatever is scanned, a code that parses is well formed and complete.\<close>

definition partial_ok :: "partial_bootstrap \<Rightarrow> bool" where
  "partial_ok b \<longleftrightarrow> (\<forall>n. pb_nonce b = Some n \<longrightarrow> length n = 32) \<and> (\<forall>h. pb_hash b = Some h \<longrightarrow> length h = 32)
    \<and> (\<forall>t. pb_expires_at_ms b = Some t \<longrightarrow> is_i64 t)"

lemma fixed_b64_length: "fixed_b64 v m = Inr bs \<Longrightarrow> length bs = 32"
  by (auto simp: fixed_b64_def split: sum.splits if_splits)

lemma parse_i64_range: "parse_i64 s = Some t \<Longrightarrow> is_i64 t"
  by (auto simp: parse_i64_def Let_def split: prod.splits option.splits if_splits)

lemma parse_field_ok:
  assumes "partial_ok b" and "parse_field p b = Inr b'"
  shows "partial_ok b'"
  using assms
  by (auto simp: parse_field_def partial_ok_def then_ok_eq_Inr fixed_b64_length parse_i64_range
      split: option.splits if_splits)

lemma parse_fields_ok: "partial_ok b \<Longrightarrow> parse_fields ps b = Inr b' \<Longrightarrow> partial_ok b'"
  by (induction ps arbitrary: b) (auto simp: then_ok_eq_Inr dest: parse_field_ok)

lemma required_Some [simp]: "required x = Inr y \<longleftrightarrow> x = Some y"
  by (simp add: required_def split: option.split)

lemma from_uri_sound:
  assumes "from_uri uri = Inr b"
  shows "bootstrap_typed b \<and> validate_bootstrap b = Inr ()"
proof -
  have e: "partial_ok partial_empty" by (simp add: partial_ok_def partial_empty_def)
  from assms obtain q d where "parse_fields (split_on CHR ''&'' q) partial_empty = Inr d"
    and b: "pb_nonce d = Some (sb_nonce b)" "pb_hash d = Some (sb_verifier_identity_hash b)"
      "pb_expires_at_ms d = Some (sb_expires_at_ms b)" "validate_bootstrap b = Inr ()"
    by (auto simp: from_uri_def then_ok_eq_Inr Let_def split: option.splits)
  from parse_fields_ok [OF e this(1)] b show ?thesis by (auto simp: partial_ok_def bootstrap_typed_def)
qed

lemma parse_fields_unknown:
  assumes "split_once CHR ''='' p = Some (k, v)"
    and "k \<notin> {''vid'', ''sid'', ''n'', ''k'', ''ep'', ''exp'', ''p''}" and "p \<in> set ps"
  shows "\<exists>e. parse_fields ps b = Inl e"
  using assms(3)
proof (induction ps arbitrary: b)
  case Nil
  then show ?case by simp
next
  case (Cons q ps)
  show ?case
  proof (cases "parse_field q b")
    case (Inl e)
    then show ?thesis by simp
  next
    case (Inr b')
    have "p \<noteq> q" using Inr assms(1,2) by (auto simp: parse_field_def)
    with Cons Inr show ?thesis by simp
  qed
qed

end
