(* ===== verification/Handshake.thy ===== *)
theory Handshake
  imports Secure_Channel Bootstrap
begin

text \<open>
  The two-message handshake: \<open>phone-auth-session/src/handshake.rs\<close>. The server half is two calls
  with a pending state between them, the client half one call; each hello is a signed body in
  an envelope.
\<close>

definition SERVER_HELLO :: u64 where "SERVER_HELLO = 16"
definition CLIENT_HELLO :: u64 where "CLIENT_HELLO = 17"
definition VERSION :: u64 where "VERSION = 1"
definition VERSION_WITH_INTENT :: u64 where "VERSION_WITH_INTENT = 2"
definition MAX_HANDSHAKE_FRAME :: nat where "MAX_HANDSHAKE_FRAME = 8192"

lemmas hello_consts = SERVER_HELLO_def CLIENT_HELLO_def VERSION_def VERSION_WITH_INTENT_def

text \<open>The \<open>?\<close> that turns a CBOR error into a session error.\<close>

definition then_session :: "cbor_error + 'a \<Rightarrow> ('a \<Rightarrow> session_error + 'b) \<Rightarrow> session_error + 'b" where
  "then_session m k = (case m of Inl e \<Rightarrow> Inl (SessionCbor e) | Inr x \<Rightarrow> k x)"

lemma then_session_simps [simp]:
  "then_session (Inl e) k = Inl (SessionCbor e)"
  "then_session (Inr x) k = k x"
  by (simp_all add: then_session_def)

lemma then_session_eq_Inr: "then_session m k = Inr y \<longleftrightarrow> (\<exists>x. m = Inr x \<and> k x = Inr y)"
  by (cases m) auto

datatype pairing_intent = ResumeIntent | PairIntent

fun intent_wire :: "pairing_intent \<Rightarrow> u64" where
  "intent_wire ResumeIntent = 0"
| "intent_wire PairIntent = 1"

definition intent_from_wire :: "u64 \<Rightarrow> session_error + pairing_intent" where
  "intent_from_wire value =
    (if value = 0 then Inr ResumeIntent else if value = 1 then Inr PairIntent
     else Inl (InvalidFrame ''unknown pairing intent''))"

datatype peer_expectation = PairedPeer string bytes | PairingPeer

datatype verifier_expectation = PairedVerifier bytes | Scanned server_bootstrap

record handshake_outcome =
  ho_channel :: secure_channel
  ho_peer_identity_spki :: bytes
  ho_peer_device_id :: string
  ho_verification_code :: string
  ho_was_pairing :: bool
  ho_intent :: "pairing_intent option"

record pending_server_handshake =
  ph_bootstrap :: server_bootstrap
  ph_secret :: bytes
  ph_public :: bytes
  ph_server_unsigned :: bytes

record server_hello =
  sh_session_id :: string
  sh_nonce :: bytes
  sh_verifier_id :: string
  sh_expires_at_ms :: int
  sh_identity_spki :: bytes
  sh_ephemeral :: bytes

record client_hello =
  cl_session_id :: string
  cl_nonce :: bytes
  cl_verifier_id :: string
  cl_expires_at_ms :: int
  cl_device_id :: string
  cl_server_ephemeral :: bytes
  cl_ephemeral :: bytes
  cl_identity_spki :: bytes
  cl_intent :: "pairing_intent option"

definition fixed_32 :: "bytes \<Rightarrow> string \<Rightarrow> session_error + bytes" where
  "fixed_32 bs message = (if length bs = 32 then Inr bs else Inl (InvalidFrame message))"

subsection \<open>The hellos on the wire\<close>

definition encode_server_hello :: "server_bootstrap \<Rightarrow> bytes \<Rightarrow> bytes \<Rightarrow> bytes" where
  "encode_server_hello bootstrap identity_spki ephemeral =
    (let w = writer_new;
         w = w_array 8 w;
         w = w_uint SERVER_HELLO w;
         w = w_uint VERSION w;
         w = w_text (sb_session_id bootstrap) w;
         w = w_bytes (sb_nonce bootstrap) w;
         w = w_text (sb_verifier_id bootstrap) w;
         w = w_int (sb_expires_at_ms bootstrap) w;
         w = w_bytes identity_spki w;
         w = w_bytes ephemeral w
     in w)"

definition decode_server_hello :: "bytes \<Rightarrow> session_error + server_hello" where
  "decode_server_hello frame =
    (let r = reader_new frame; invalid = Inl (InvalidFrame ''invalid server hello'') in
    then_session (r_array r) (\<lambda>(fields, r).
    if fields \<noteq> 8 then invalid else
    then_session (r_uint r) (\<lambda>(message_type, r).
    if message_type \<noteq> SERVER_HELLO then invalid else
    then_session (r_uint r) (\<lambda>(version, r).
    if version \<noteq> VERSION then invalid else
    then_session (r_text r) (\<lambda>(sid, r).
    then_session (r_bytes r) (\<lambda>(n, r).
    then_ok (fixed_32 n ''invalid nonce'') (\<lambda>n.
    then_session (r_text r) (\<lambda>(vid, r).
    then_session (r_int r) (\<lambda>(expires, r).
    then_session (r_bytes r) (\<lambda>(spki, r).
    then_session (r_bytes r) (\<lambda>(e, r).
    then_ok (fixed_32 e ''invalid verifier ephemeral key'') (\<lambda>e.
    then_session (r_finish r) (\<lambda>_.
    Inr \<lparr>sh_session_id = sid, sh_nonce = n, sh_verifier_id = vid, sh_expires_at_ms = expires,
         sh_identity_spki = spki, sh_ephemeral = e\<rparr>)))))))))))))"

definition encode_client_hello ::
  "string \<Rightarrow> bytes \<Rightarrow> string \<Rightarrow> int \<Rightarrow> string \<Rightarrow> bytes \<Rightarrow> bytes \<Rightarrow> bytes \<Rightarrow> pairing_intent \<Rightarrow> bytes" where
  "encode_client_hello session_id session_nonce verifier_id expires_at_ms device_id server_ephemeral ephemeral
      identity_spki intent =
    (let w = writer_new;
         w = w_array 11 w;
         w = w_uint CLIENT_HELLO w;
         w = w_uint VERSION_WITH_INTENT w;
         w = w_text session_id w;
         w = w_bytes session_nonce w;
         w = w_text verifier_id w;
         w = w_int expires_at_ms w;
         w = w_text device_id w;
         w = w_bytes server_ephemeral w;
         w = w_bytes ephemeral w;
         w = w_bytes identity_spki w;
         w = w_uint (intent_wire intent) w
     in w)"

definition decode_client_hello :: "bytes \<Rightarrow> session_error + client_hello" where
  "decode_client_hello frame =
    (let r = reader_new frame in
    then_session (r_array r) (\<lambda>(fields, r).
    then_session (r_uint r) (\<lambda>(message_type, r).
    if message_type \<noteq> CLIENT_HELLO then Inl (InvalidFrame ''invalid client hello'') else
    then_session (r_uint r) (\<lambda>(version, r).
    then_ok (if fields = 11 \<and> version = VERSION_WITH_INTENT then Inr True
       else if fields = 10 \<and> version = VERSION then Inr False 
       else Inl (InvalidFrame ''invalid client hello'')) (\<lambda>carries_intent.
    then_session (r_text r) (\<lambda>(sid, r).
    then_session (r_bytes r) (\<lambda>(n, r).
    then_ok (fixed_32 n ''invalid nonce'') (\<lambda>n.
    then_session (r_text r) (\<lambda>(vid, r).
    then_session (r_int r) (\<lambda>(expires, r).
    then_session (r_text r) (\<lambda>(dev, r).
    then_session (r_bytes r) (\<lambda>(se, r).
    then_ok (fixed_32 se ''invalid verifier ephemeral key'') (\<lambda>se.
    then_session (r_bytes r) (\<lambda>(e, r).
    then_ok (fixed_32 e ''invalid client ephemeral key'') (\<lambda>e.
    then_session (r_bytes r) (\<lambda>(spki, r).
    then_ok (if carries_intent
       then then_session (r_uint r) (\<lambda>(i, r). then_ok (intent_from_wire i) (\<lambda>i. Inr (Some i, r)))
       else Inr (None, r)) (\<lambda>(intent, r).
    then_session (r_finish r) (\<lambda>_.
    Inr \<lparr>cl_session_id = sid, cl_nonce = n, cl_verifier_id = vid, cl_expires_at_ms = expires,
         cl_device_id = dev, cl_server_ephemeral = se, cl_ephemeral = e, cl_identity_spki = spki,
         cl_intent = intent\<rparr>))))))))))))))))))"

definition envelope :: "bytes \<Rightarrow> bytes \<Rightarrow> bytes" where
  "envelope body signature =
    (let w = writer_new;
         w = w_array 2 w;
         w = w_bytes body w;
         w = w_bytes signature w
     in w)"

definition decode_envelope :: "bytes \<Rightarrow> session_error + bytes \<times> bytes" where
  "decode_envelope frame =
    (if frame = [] \<or> length frame > MAX_HANDSHAKE_FRAME
     then Inl (InvalidFrame ''invalid handshake frame size'')
     else
       then_session (r_array (reader_new frame)) (\<lambda>(fields, r).
       if fields \<noteq> 2 then Inl (InvalidFrame ''invalid handshake envelope'') else
       then_session (r_bytes r) (\<lambda>(unsigned, r).
       then_session (r_bytes r) (\<lambda>(signature, r).
       then_session (r_finish r) (\<lambda>_. Inr (unsigned, signature))))))"

definition transcript_hash :: "('key, 'sig, 'secret) crypto \<Rightarrow> bytes \<Rightarrow> bytes \<Rightarrow> bytes" where
  "transcript_hash cr server client =
    cr_sha256 cr (as_bytes ''PhoneAuth/handshake-transcript/v1'' @ concat (map hash_field [server, client]))"

subsection \<open>The verifier's half\<close>

text \<open>The 32 random bytes of each ephemeral secret are an argument.\<close>

definition begin_handshake ::
  "('key, 'sig, 'secret) crypto \<Rightarrow> bytes \<Rightarrow> server_bootstrap \<Rightarrow> 'secret
    \<Rightarrow> session_error + pending_server_handshake \<times> bytes" where
  "begin_handshake cr secret bootstrap identity =
    then_ok (validate_bootstrap bootstrap) (\<lambda>_.
    then_ok (public_key_spki cr identity) (\<lambda>identity_spki.
    if sb_verifier_identity_hash bootstrap \<noteq> hash_identity cr identity_spki
    then Inl (InvalidBootstrap ''bootstrap does not commit to this identity key'')
    else
      let public = cr_x25519_public cr secret;
          server_unsigned = encode_server_hello bootstrap identity_spki public;
          hello = envelope server_unsigned (cr_sign cr identity server_unsigned)
      in Inr (\<lparr>ph_bootstrap = bootstrap, ph_secret = secret, ph_public = public,
               ph_server_unsigned = server_unsigned\<rparr>, hello)))"

definition check_peer :: "peer_expectation \<Rightarrow> client_hello \<Rightarrow> session_error + bool" where
  "check_peer expectation client =
    (case expectation of
       PairedPeer device_id identity_spki \<Rightarrow>
         if cl_device_id client \<noteq> device_id \<or> cl_identity_spki client \<noteq> identity_spki
         then Inl PeerMismatch else Inr False
     | PairingPeer \<Rightarrow> Inr True)"

definition finish_handshake ::
  "('key, 'sig, 'secret) crypto \<Rightarrow> pending_server_handshake \<Rightarrow> bytes \<Rightarrow> peer_expectation \<Rightarrow> string
    \<Rightarrow> session_error + handshake_outcome" where
  "finish_handshake cr self client_frame expectation transport_name =
    then_ok (decode_envelope client_frame) (\<lambda>(client_unsigned, signature).
    then_ok (decode_client_hello client_unsigned) (\<lambda>client.
    if cl_session_id client \<noteq> sb_session_id (ph_bootstrap self)
      \<or> cl_verifier_id client \<noteq> sb_verifier_id (ph_bootstrap self)
      \<or> cl_nonce client \<noteq> sb_nonce (ph_bootstrap self)
      \<or> cl_expires_at_ms client \<noteq> sb_expires_at_ms (ph_bootstrap self)
      \<or> cl_server_ephemeral client \<noteq> ph_public self
    then Inl PeerMismatch else
    then_ok (check_peer expectation client) (\<lambda>was_pairing.
    then_ok (verify_identity cr (cl_identity_spki client) client_unsigned signature) (\<lambda>_.
    let shared = cr_x25519 cr (ph_secret self) (cl_ephemeral client);
        transcript = transcript_hash cr (ph_server_unsigned self) client_unsigned in
    then_ok (derive cr shared transcript) (\<lambda>schedule.
    let binding = derive_binding cr \<lparr>bi_transport_name = transport_name,
          bi_session_id = sb_session_id (ph_bootstrap self), bi_server_ephemeral = ph_public self,
          bi_client_ephemeral = cl_ephemeral client, bi_exporter = ks_exporter schedule\<rparr> in
    Inr \<lparr>ho_channel = channel_new Server schedule binding,
         ho_peer_identity_spki = cl_identity_spki client, ho_peer_device_id = cl_device_id client,
         ho_verification_code = verification_code cr (ks_exporter schedule),
         ho_was_pairing = was_pairing, ho_intent = cl_intent client\<rparr>)))))"

subsection \<open>The authenticator's half\<close>

definition check_verifier ::
  "('key, 'sig, 'secret) crypto \<Rightarrow> verifier_expectation \<Rightarrow> server_hello \<Rightarrow> session_error + bool" where
  "check_verifier cr expectation server =
    (case expectation of
       PairedVerifier identity_spki \<Rightarrow>
         if sh_identity_spki server \<noteq> identity_spki then Inl PeerMismatch else Inr False
     | Scanned bootstrap \<Rightarrow>
         then_ok (validate_bootstrap bootstrap) (\<lambda>_.
         if sh_session_id server \<noteq> sb_session_id bootstrap
           \<or> sh_verifier_id server \<noteq> sb_verifier_id bootstrap
           \<or> sh_nonce server \<noteq> sb_nonce bootstrap
           \<or> sh_expires_at_ms server \<noteq> sb_expires_at_ms bootstrap
         then Inl PeerMismatch
         else if hash_identity cr (sh_identity_spki server) \<noteq> sb_verifier_identity_hash bootstrap
         then Inl VerifierIdentityMismatch else Inr True))"

definition respond ::
  "('key, 'sig, 'secret) crypto \<Rightarrow> bytes \<Rightarrow> bytes \<Rightarrow> verifier_expectation \<Rightarrow> string \<Rightarrow> 'secret \<Rightarrow> string
    \<Rightarrow> int \<Rightarrow> session_error + bytes \<times> handshake_outcome" where
  "respond cr secret server_frame expectation device_id identity transport_name now_ms =
    (if device_id = [] \<or> length device_id > 64
     then Inl (InvalidFrame ''invalid device identifier'') else
    then_ok (decode_envelope server_frame) (\<lambda>(server_unsigned, signature).
    then_ok (decode_server_hello server_unsigned) (\<lambda>server.
    then_ok (check_verifier cr expectation server) (\<lambda>was_pairing.
    if now_ms \<ge> sh_expires_at_ms server then Inl BootstrapExpired else
    then_ok (verify_identity cr (sh_identity_spki server) server_unsigned signature) (\<lambda>_.
    let public = cr_x25519_public cr secret in
    then_ok (public_key_spki cr identity) (\<lambda>identity_spki.
    let intent = (if was_pairing then PairIntent else ResumeIntent);
        client_unsigned = encode_client_hello (sh_session_id server) (sh_nonce server)
          (sh_verifier_id server) (sh_expires_at_ms server) device_id (sh_ephemeral server) public
          identity_spki intent;
        client_frame = envelope client_unsigned (cr_sign cr identity client_unsigned);
        shared = cr_x25519 cr secret (sh_ephemeral server);
        transcript = transcript_hash cr server_unsigned client_unsigned in
    then_ok (derive cr shared transcript) (\<lambda>schedule.
    let binding = derive_binding cr \<lparr>bi_transport_name = transport_name,
          bi_session_id = sh_session_id server, bi_server_ephemeral = sh_ephemeral server,
          bi_client_ephemeral = public, bi_exporter = ks_exporter schedule\<rparr> in
    Inr (client_frame,
      \<lparr>ho_channel = channel_new Client schedule binding,
       ho_peer_identity_spki = sh_identity_spki server, ho_peer_device_id = sh_verifier_id server,
       ho_verification_code = verification_code cr (ks_exporter schedule),
       ho_was_pairing = was_pairing, ho_intent = Some intent\<rparr>))))))))"

subsection \<open>Reading back the hellos\<close>

lemma fixed_32_eq [simp]: "fixed_32 b m = Inr c \<longleftrightarrow> length b = 32 \<and> c = b"
  by (auto simp: fixed_32_def)

lemma fixed_32_ok [codec]: "length b = 32 \<Longrightarrow> fixed_32 b m = Inr b"
  by simp

lemma intent_from_wire_at [codec]: "intent_from_wire (intent_wire i) = Inr i"
  by (cases i) (simp_all add: intent_from_wire_def)

lemma handshake_slice_ok: "length f \<le> MAX_HANDSHAKE_FRAME \<Longrightarrow> slice_ok f"
  by (rule slice_okI [of _ MAX_HANDSHAKE_FRAME]) (simp_all add: MAX_HANDSHAKE_FRAME_def)

lemma envelope_eq: "envelope u s = enc_array 2 @ enc_bytes u @ enc_bytes s"
  by (simp add: envelope_def Let_def writer_new_def w_append)

lemma decode_envelope_envelope:
  assumes "length (envelope u s) \<le> MAX_HANDSHAKE_FRAME"
  shows "decode_envelope (envelope u s) = Inr (u, s)"
  using assms handshake_slice_ok [OF assms]
  by (auto simp: decode_envelope_def reader_new_at envelope_eq codec)

lemma decode_envelope_sound:
  "decode_envelope f = Inr (u, s) \<Longrightarrow> f = envelope u s \<and> length f \<le> MAX_HANDSHAKE_FRAME"
  by (auto simp: decode_envelope_def reader_new_at envelope_eq then_session_eq_Inr
      split: if_splits dest!: r_strict)

lemma encode_server_hello_eq: "encode_server_hello b spki e =
    enc_array 8 @ enc_uint SERVER_HELLO @ enc_uint VERSION @ enc_text (sb_session_id b)
    @ enc_bytes (sb_nonce b) @ enc_text (sb_verifier_id b) @ enc_int (sb_expires_at_ms b)
    @ enc_bytes spki @ enc_bytes e"
  by (simp add: encode_server_hello_def Let_def writer_new_def w_append)

definition hello_of :: "server_bootstrap \<Rightarrow> bytes \<Rightarrow> bytes \<Rightarrow> server_hello" where
  "hello_of b spki e = \<lparr>sh_session_id = sb_session_id b, sh_nonce = sb_nonce b,
    sh_verifier_id = sb_verifier_id b, sh_expires_at_ms = sb_expires_at_ms b, sh_identity_spki = spki,
    sh_ephemeral = e\<rparr>"

lemma decode_server_hello_encode:
  assumes "is_str (sb_session_id b)" and "is_str (sb_verifier_id b)" and "bootstrap_typed b"
    and "length e = 32" and "slice_ok (encode_server_hello b spki e)"
  shows "decode_server_hello (encode_server_hello b spki e) = Inr (hello_of b spki e)"
  using assms
  by (simp add: decode_server_hello_def Let_def reader_new_at encode_server_hello_eq bootstrap_typed_def
      hello_of_def codec)

lemma encode_client_hello_eq: "encode_client_hello sid n vid t dev se e spki i =
    enc_array 11 @ enc_uint CLIENT_HELLO @ enc_uint VERSION_WITH_INTENT @ enc_text sid @ enc_bytes n
    @ enc_text vid @ enc_int t @ enc_text dev @ enc_bytes se @ enc_bytes e @ enc_bytes spki
    @ enc_uint (intent_wire i)"
  by (simp add: encode_client_hello_def Let_def writer_new_def w_append)

lemma decode_client_hello_encode:
  assumes "is_str sid" and "is_str vid" and "is_str dev" and "is_i64 t"
    and "length n = 32" and "length se = 32" and "length e = 32"
    and "slice_ok (encode_client_hello sid n vid t dev se e spki i)"
  shows "decode_client_hello (encode_client_hello sid n vid t dev se e spki i) = Inr
    \<lparr>cl_session_id = sid, cl_nonce = n, cl_verifier_id = vid, cl_expires_at_ms = t, cl_device_id = dev,
     cl_server_ephemeral = se, cl_ephemeral = e, cl_identity_spki = spki, cl_intent = Some i\<rparr>"
  using assms
  by (simp add: decode_client_hello_def Let_def reader_new_at encode_client_hello_eq codec)

text \<open>A hello has one spelling: what decodes as one is its encoding.\<close>

lemma decode_server_hello_sound:
  "decode_server_hello f = Inr h \<Longrightarrow> f = enc_array 8 @ enc_uint SERVER_HELLO @ enc_uint VERSION
    @ enc_text (sh_session_id h) @ enc_bytes (sh_nonce h) @ enc_text (sh_verifier_id h)
    @ enc_int (sh_expires_at_ms h) @ enc_bytes (sh_identity_spki h) @ enc_bytes (sh_ephemeral h)
    \<and> length (sh_ephemeral h) = 32 \<and> length (sh_nonce h) = 32"
  by (auto simp: decode_server_hello_def Let_def reader_new_at then_session_eq_Inr then_ok_eq_Inr
      split: if_splits dest!: r_strict)

subsection \<open>What each side has checked\<close>

definition echoes :: "client_hello \<Rightarrow> pending_server_handshake \<Rightarrow> bool" where
  "echoes c p \<longleftrightarrow> cl_session_id c = sb_session_id (ph_bootstrap p) \<and> cl_verifier_id c = sb_verifier_id (ph_bootstrap p)
    \<and> cl_nonce c = sb_nonce (ph_bootstrap p) \<and> cl_expires_at_ms c = sb_expires_at_ms (ph_bootstrap p)
    \<and> cl_server_ephemeral c = ph_public p"

lemma check_peer_iff: "check_peer e c = Inr w \<longleftrightarrow>
    e = PairingPeer \<and> w \<or> e = PairedPeer (cl_device_id c) (cl_identity_spki c) \<and> \<not> w"
  by (cases e) (auto simp: check_peer_def)

definition server_outcome ::
  "('key, 'sig, 'secret) crypto \<Rightarrow> pending_server_handshake \<Rightarrow> client_hello \<Rightarrow> key_schedule \<Rightarrow> string \<Rightarrow> bool
    \<Rightarrow> handshake_outcome" where
  "server_outcome cr p c ks tn w =
    \<lparr>ho_channel = channel_new Server ks (derive_binding cr \<lparr>bi_transport_name = tn,
        bi_session_id = sb_session_id (ph_bootstrap p), bi_server_ephemeral = ph_public p,
        bi_client_ephemeral = cl_ephemeral c, bi_exporter = ks_exporter ks\<rparr>),
     ho_peer_identity_spki = cl_identity_spki c, ho_peer_device_id = cl_device_id c,
     ho_verification_code = verification_code cr (ks_exporter ks), ho_was_pairing = w,
     ho_intent = cl_intent c\<rparr>"

lemma finish_handshake_iff:
  "finish_handshake cr p frame e tn = Inr out \<longleftrightarrow>
    (\<exists>u s c w ks. decode_envelope frame = Inr (u, s) \<and> decode_client_hello u = Inr c \<and> echoes c p
      \<and> check_peer e c = Inr w \<and> signed_by (cr_p256 cr) (cl_identity_spki c) u s
      \<and> derive cr (cr_x25519 cr (ph_secret p) (cl_ephemeral c)) (transcript_hash cr (ph_server_unsigned p) u) = Inr ks
      \<and> out = server_outcome cr p c ks tn w)"
proof (cases "decode_envelope frame")
  case (Inl x)
  then show ?thesis by (simp add: finish_handshake_def)
next
  case (Inr us)
  then obtain u s where d: "decode_envelope frame = Inr (u, s)" by (cases us) auto
  show ?thesis
  proof (cases "decode_client_hello u")
    case (Inl x)
    with d show ?thesis by (simp add: finish_handshake_def)
  next
    case (Inr c)
    with d show ?thesis
      by (cases "echoes c p")
        (auto simp: finish_handshake_def Let_def then_ok_eq_Inr server_outcome_def echoes_def)
  qed
qed

text \<open>What the phone knows of the verifier it is about to answer: its stored key, or the code it
  has scanned and the key that code commits to.\<close>

definition announces :: "server_hello \<Rightarrow> server_bootstrap \<Rightarrow> bool" where
  "announces h b \<longleftrightarrow> sh_session_id h = sb_session_id b \<and> sh_verifier_id h = sb_verifier_id b
    \<and> sh_nonce h = sb_nonce b \<and> sh_expires_at_ms h = sb_expires_at_ms b"

lemma check_verifier_iff: "check_verifier cr e h = Inr w \<longleftrightarrow>
    e = PairedVerifier (sh_identity_spki h) \<and> w = False
    \<or> (\<exists>b. e = Scanned b \<and> w \<and> validate_bootstrap b = Inr () \<and> announces h b
        \<and> hash_identity cr (sh_identity_spki h) = sb_verifier_identity_hash b)"
  by (cases e) (auto simp: check_verifier_def announces_def then_ok_eq_Inr)

definition client_outcome ::
  "('key, 'sig, 'secret) crypto \<Rightarrow> server_hello \<Rightarrow> bytes \<Rightarrow> key_schedule \<Rightarrow> string \<Rightarrow> bool \<Rightarrow> handshake_outcome" where
  "client_outcome cr h public ks tn w =
    \<lparr>ho_channel = channel_new Client ks (derive_binding cr \<lparr>bi_transport_name = tn,
        bi_session_id = sh_session_id h, bi_server_ephemeral = sh_ephemeral h,
        bi_client_ephemeral = public, bi_exporter = ks_exporter ks\<rparr>),
     ho_peer_identity_spki = sh_identity_spki h, ho_peer_device_id = sh_verifier_id h,
     ho_verification_code = verification_code cr (ks_exporter ks), ho_was_pairing = w,
     ho_intent = Some (if w then PairIntent else ResumeIntent)\<rparr>"

definition client_body :: "server_hello \<Rightarrow> string \<Rightarrow> bytes \<Rightarrow> bytes \<Rightarrow> bool \<Rightarrow> bytes" where
  "client_body h dev public spki w = encode_client_hello (sh_session_id h) (sh_nonce h) (sh_verifier_id h)
    (sh_expires_at_ms h) dev (sh_ephemeral h) public spki (if w then PairIntent else ResumeIntent)"

lemma respond_iff:
  "respond cr secret frame e dev identity tn now_ms = Inr (cframe, out) \<longleftrightarrow>
    dev \<noteq> [] \<and> length dev \<le> 64 \<and>
    (\<exists>u s h w spki ks. decode_envelope frame = Inr (u, s) \<and> decode_server_hello u = Inr h
      \<and> check_verifier cr e h = Inr w \<and> now_ms < sh_expires_at_ms h
      \<and> signed_by (cr_p256 cr) (sh_identity_spki h) u s \<and> public_key_spki cr identity = Inr spki
      \<and> derive cr (cr_x25519 cr secret (sh_ephemeral h))
           (transcript_hash cr u (client_body h dev (cr_x25519_public cr secret) spki w)) = Inr ks
      \<and> cframe = envelope (client_body h dev (cr_x25519_public cr secret) spki w)
           (cr_sign cr identity (client_body h dev (cr_x25519_public cr secret) spki w))
      \<and> out = client_outcome cr h (cr_x25519_public cr secret) ks tn w)"
proof (cases "decode_envelope frame")
  case (Inl x)
  then show ?thesis by (simp add: respond_def)
next
  case (Inr us)
  then obtain u s where d: "decode_envelope frame = Inr (u, s)" by (cases us) auto
  show ?thesis
  proof (cases "decode_server_hello u")
    case (Inl x)
    with d show ?thesis by (simp add: respond_def)
  next
    case (Inr h)
    with d show ?thesis
      by (cases "check_verifier cr e h"; cases "now_ms < sh_expires_at_ms h")
        (auto simp: respond_def Let_def then_ok_eq_Inr client_outcome_def client_body_def)
  qed
qed

subsection \<open>A handshake between honest ends\<close>

text \<open>What the verifier has when it starts: a typed bootstrap that names its key.\<close>

definition server_ready ::
  "('key, 'sig, 'secret) crypto \<Rightarrow> server_bootstrap \<Rightarrow> 'secret \<Rightarrow> bytes \<Rightarrow> bool" where
  "server_ready cr b identity spki \<longleftrightarrow>
    bootstrap_typed b \<and> is_str (sb_session_id b) \<and> is_str (sb_verifier_id b)
    \<and> validate_bootstrap b = Inr () \<and> cr_spki cr identity = Some spki
    \<and> sb_verifier_identity_hash b = hash_identity cr spki \<and> length spki \<le> 1024
    \<and> (\<forall>m. length (cr_sign cr identity m) \<le> 1024)"

definition client_ready :: "('key, 'sig, 'secret) crypto \<Rightarrow> string \<Rightarrow> 'secret \<Rightarrow> bytes \<Rightarrow> bool" where
  "client_ready cr dev identity spki \<longleftrightarrow>
    is_str dev \<and> dev \<noteq> [] \<and> length dev \<le> 64 \<and> cr_spki cr identity = Some spki \<and> length spki \<le> 1024
    \<and> (\<forall>m. length (cr_sign cr identity m) \<le> 1024)"

text \<open>Either both meet for the first time, or both hold the other's key.\<close>

definition expectations_match ::
  "verifier_expectation \<Rightarrow> peer_expectation \<Rightarrow> server_bootstrap \<Rightarrow> bytes \<Rightarrow> string \<Rightarrow> bytes \<Rightarrow> bool" where
  "expectations_match ve pe b server_spki dev client_spki \<longleftrightarrow>
    (ve = Scanned b \<and> pe = PairingPeer)
    \<or> (ve = PairedVerifier server_spki \<and> pe = PairedPeer dev client_spki)"

lemma length_server_hello: "length (encode_server_hello b spki e) \<le>
    81 + length (sb_session_id b) + length (sb_nonce b) + length (sb_verifier_id b) + length spki + length e"
  using length_enc(1) [of 8] length_enc(2) [of SERVER_HELLO] length_enc(2) [of VERSION]
    length_enc(4) [of "sb_session_id b"] length_enc(5) [of "sb_nonce b"] length_enc(4) [of "sb_verifier_id b"]
    length_enc(3) [of "sb_expires_at_ms b"] length_enc(5) [of spki] length_enc(5) [of e]
  by (simp add: encode_server_hello_eq)

lemma length_client_hello: "length (encode_client_hello sid n vid t dev se e spki i) \<le>
    108 + length sid + length n + length vid + length dev + length se + length e + length spki"
  using length_enc(1) [of 11] length_enc(2) [of CLIENT_HELLO] length_enc(2) [of VERSION_WITH_INTENT]
    length_enc(4) [of sid] length_enc(5) [of n] length_enc(4) [of vid] length_enc(3) [of t]
    length_enc(4) [of dev] length_enc(5) [of se] length_enc(5) [of e] length_enc(5) [of spki]
    length_enc(2) [of "intent_wire i"]
  by (simp add: encode_client_hello_eq)

lemma length_envelope: "length (envelope u s) \<le> 27 + length u + length s"
  using length_enc(1) [of 2] length_enc(5) [of u] length_enc(5) [of s] by (simp add: envelope_eq)

lemma derive_total:
  assumes "crypto_ok cr"
  obtains ks where "derive cr shared transcript = Inr ks"
proof -
  have "cr_hkdf cr transcript shared KDF_DOMAIN (KEY_LEN * 3) \<noteq> None"
    using assms unfolding crypto_ok_def by (simp add: KEY_LEN_def)
  then show thesis using that by (auto simp: derive_def)
qed

lemma begin_hello:
  assumes "crypto_ok cr" and s: "server_ready cr b identity spki"
  shows "\<exists>p hello. begin_handshake cr secret b identity = Inr (p, hello)
    \<and> p = \<lparr>ph_bootstrap = b, ph_secret = secret, ph_public = cr_x25519_public cr secret,
        ph_server_unsigned = encode_server_hello b spki (cr_x25519_public cr secret)\<rparr>
    \<and> decode_envelope hello = Inr (ph_server_unsigned p, cr_sign cr identity (ph_server_unsigned p))
    \<and> decode_server_hello (ph_server_unsigned p) = Inr (hello_of b spki (cr_x25519_public cr secret))"
proof -
  let ?e = "cr_x25519_public cr secret"
  let ?u = "encode_server_hello b spki ?e"
  have e: "length ?e = 32" using assms(1) by (simp add: crypto_ok_def)
  have v: "length (sb_session_id b) \<le> 64" "length (sb_verifier_id b) \<le> 64" "length (sb_nonce b) = 32"
    "length spki \<le> 1024" and g: "length (cr_sign cr identity ?u) \<le> 1024"
    using s by (auto simp: server_ready_def validate_bootstrap_iff bootstrap_typed_def)
  have u: "length ?u \<le> 1400" using length_server_hello [of b spki ?e] v e by simp
  have "length (envelope ?u (cr_sign cr identity ?u)) \<le> MAX_HANDSHAKE_FRAME"
    using length_envelope [of ?u "cr_sign cr identity ?u"] u g by (simp add: MAX_HANDSHAKE_FRAME_def)
  moreover have "slice_ok ?u" using u by (simp add: slice_ok_def)
  ultimately show ?thesis
    using s e by (simp add: begin_handshake_def server_ready_def public_key_spki_def Let_def
        decode_envelope_envelope decode_server_hello_encode)
qed

theorem handshake_completes:
  assumes cr: "crypto_ok cr" and s: "server_ready cr b sid server_spki" and c: "client_ready cr dev cid client_spki"
    and x: "expectations_match ve pe b server_spki dev client_spki" and t: "now_ms < sb_expires_at_ms b"
  shows "\<exists>p hello answer oc os.
    begin_handshake cr server_secret b sid = Inr (p, hello)
    \<and> respond cr client_secret hello ve dev cid tn now_ms = Inr (answer, oc)
    \<and> finish_handshake cr p answer pe tn = Inr os
    \<and> in_step (ho_channel os) (ho_channel oc) \<and> in_step (ho_channel oc) (ho_channel os)
    \<and> ho_verification_code os = ho_verification_code oc
    \<and> ho_peer_identity_spki os = client_spki \<and> ho_peer_device_id os = dev
    \<and> ho_peer_identity_spki oc = server_spki \<and> ho_peer_device_id oc = sb_verifier_id b
    \<and> ho_was_pairing os = (pe = PairingPeer) \<and> ho_was_pairing oc = (pe = PairingPeer)
    \<and> ho_intent os = ho_intent oc"
proof -
  define se ce where "se = cr_x25519_public cr server_secret" and "ce = cr_x25519_public cr client_secret"
  define h where "h = hello_of b server_spki se"
  define w where "w = (pe = PairingPeer)"
  define u where "u = client_body h dev ce client_spki w"
  obtain p hello where b: "begin_handshake cr server_secret b sid = Inr (p, hello)"
    and p: "p = \<lparr>ph_bootstrap = b, ph_secret = server_secret, ph_public = se,
      ph_server_unsigned = encode_server_hello b server_spki se\<rparr>"
    and dh: "decode_envelope hello = Inr (ph_server_unsigned p, cr_sign cr sid (ph_server_unsigned p))"
    and ds: "decode_server_hello (ph_server_unsigned p) = Inr h"
    using begin_hello [OF cr s, of server_secret] unfolding h_def se_def by blast
  have e: "length se = 32" "length ce = 32" using cr by (simp_all add: se_def ce_def crypto_ok_def)
  have dhe: "cr_x25519 cr server_secret ce = cr_x25519 cr client_secret se"
    using cr by (simp add: se_def ce_def crypto_ok_def)
  have sigs: "signed_by (cr_p256 cr) server_spki m (cr_sign cr sid m)"
    "signed_by (cr_p256 cr) client_spki m (cr_sign cr cid m)" for m
    using cr s c unfolding crypto_ok_def server_ready_def client_ready_def by blast+
  obtain ks where ks: "derive cr (cr_x25519 cr client_secret se) (transcript_hash cr (ph_server_unsigned p) u) = Inr ks"
    using derive_total [OF cr] by blast
  have cv: "check_verifier cr ve h = Inr w"
    using x s by (auto simp: expectations_match_def check_verifier_def w_def h_def hello_of_def server_ready_def)
  have respond: "respond cr client_secret hello ve dev cid tn now_ms
      = Inr (envelope u (cr_sign cr cid u), client_outcome cr h ce ks tn w)"
    unfolding respond_iff using c dh ds cv t sigs ks
    by (auto simp: client_ready_def public_key_spki_def h_def hello_of_def u_def ce_def)
  have uc: "u = encode_client_hello (sb_session_id b) (sb_nonce b) (sb_verifier_id b) (sb_expires_at_ms b) dev se ce
      client_spki (if w then PairIntent else ResumeIntent)"
    by (simp add: u_def client_body_def h_def hello_of_def)
  have lens: "length (sb_session_id b) \<le> 64" "length (sb_nonce b) = 32" "length (sb_verifier_id b) \<le> 64"
    "length dev \<le> 64" "length client_spki \<le> 1024" "length (cr_sign cr cid u) \<le> 1024"
    using s c by (auto simp: server_ready_def client_ready_def validate_bootstrap_iff bootstrap_typed_def)
  have len: "length u \<le> 1500"
    using length_client_hello [of "sb_session_id b" "sb_nonce b" "sb_verifier_id b" "sb_expires_at_ms b" dev se ce
        client_spki "if w then PairIntent else ResumeIntent"] lens e
    unfolding uc by linarith
  define c' where "c' = \<lparr>cl_session_id = sb_session_id b,
      cl_nonce = sb_nonce b, cl_verifier_id = sb_verifier_id b, cl_expires_at_ms = sb_expires_at_ms b,
      cl_device_id = dev, cl_server_ephemeral = se, cl_ephemeral = ce, cl_identity_spki = client_spki,
      cl_intent = Some (if w then PairIntent else ResumeIntent)\<rparr>"
  have "slice_ok u" using len by (simp add: slice_ok_def)
  then have dc: "decode_client_hello u = Inr c'"
    using s c e unfolding uc c'_def
    by (intro decode_client_hello_encode) (auto simp: server_ready_def client_ready_def bootstrap_typed_def)
  have "length (envelope u (cr_sign cr cid u)) \<le> MAX_HANDSHAKE_FRAME"
    using length_envelope [of u "cr_sign cr cid u"] len lens(6) unfolding MAX_HANDSHAKE_FRAME_def by linarith
  then have de: "decode_envelope (envelope u (cr_sign cr cid u)) = Inr (u, cr_sign cr cid u)"
    by (rule decode_envelope_envelope)
  have "check_peer pe c' = Inr w" using x by (auto simp: check_peer_iff expectations_match_def w_def c'_def)
  then have finish: "finish_handshake cr p (envelope u (cr_sign cr cid u)) pe tn = Inr (server_outcome cr p c' ks tn w)"
    unfolding finish_handshake_iff using de dc sigs ks dhe by (auto simp: echoes_def p c'_def)
  show ?thesis
    using b respond finish
    by (simp add: server_outcome_def client_outcome_def p c'_def h_def hello_of_def new_channels_in_step w_def)
qed

end
