(* ===== verification/Examples.thy ===== *)
theory Examples
  imports Verifier Handshake
begin

text \<open>
  One small deployment, written out: toy primitives that satisfy the laws the development asks
  of the cryptographic crates, a paired phone, a session, a request and its answer. The
  witnesses of the properties run on it.
\<close>

subsection \<open>Primitives\<close>

text \<open>Keys and signatures are their own bytes; a signature is the key and a mark.\<close>

definition toy_p256 :: "(bytes, bytes) p256" where
  "toy_p256 = \<lparr>from_public_key_der = Some, der_signature = Some,
    ecdsa_verify = (\<lambda>k m s. s = k @ [7])\<rparr>"

definition toy_crypto :: "(bytes, bytes, bytes) crypto" where
  "toy_crypto = \<lparr>cr_sha256 = (\<lambda>m. take 32 (m @ replicate 32 0)),
    cr_hkdf = (\<lambda>s i d n. Some (replicate n 5)),
    cr_x25519_public = (\<lambda>a. take 32 (a @ replicate 32 0)),
    cr_x25519 = (\<lambda>a p. replicate 32 1),
    cr_encrypt = (\<lambda>k n a m. Some (m @ replicate 16 9)),
    cr_decrypt = (\<lambda>k n a c. if 16 \<le> length c \<and> drop (length c - 16) c = replicate 16 9
      then Some (take (length c - 16) c) else None),
    cr_spki = Some, cr_sign = (\<lambda>s m. take 32 s @ [7]), cr_p256 = \<lparr>from_public_key_der = Some,
      der_signature = Some, ecdsa_verify = (\<lambda>k m s. s = take 32 k @ [7])\<rparr>\<rparr>"

lemma suffix_iff:
  assumes "length t = n"
  shows "c = m @ t \<longleftrightarrow> n \<le> length c \<and> drop (length c - n) c = t \<and> take (length c - n) c = m"
proof
  assume "n \<le> length c \<and> drop (length c - n) c = t \<and> take (length c - n) c = m"
  then show "c = m @ t" using append_take_drop_id [of "length c - n" c] by simp
qed (use assms in auto)

lemma toy_crypto_ok: "crypto_ok toy_crypto"
proof -
  have e: "cr_encrypt toy_crypto k n a m = Some c \<longleftrightarrow> c = m @ replicate 16 9" for k n a m c
    by (auto simp: toy_crypto_def)
  have d: "cr_decrypt toy_crypto k n a c = Some m \<longleftrightarrow>
      16 \<le> length c \<and> drop (length c - 16) c = replicate 16 9 \<and> take (length c - 16) c = m" for k n a m c
    by (auto simp: toy_crypto_def)
  have "cr_encrypt toy_crypto k n a m = Some c \<longleftrightarrow> cr_decrypt toy_crypto k n a c = Some m" for k n a m c
    unfolding e d by (rule suffix_iff) simp
  moreover have "cr_encrypt toy_crypto k n a m = Some c \<Longrightarrow> length c = length m + 16" for k n a m c
    unfolding e by simp
  moreover have "length (cr_sha256 toy_crypto m) = 32" "length (cr_x25519_public toy_crypto m) = 32"
    "cr_x25519 toy_crypto m (cr_x25519_public toy_crypto n) = cr_x25519 toy_crypto n (cr_x25519_public toy_crypto m)"
    "cr_hkdf toy_crypto m n p i \<noteq> None" "cr_hkdf toy_crypto m n p i = Some out \<Longrightarrow> length out = i"
    "cr_spki toy_crypto m = Some n \<Longrightarrow> signed_by (cr_p256 toy_crypto) n p (cr_sign toy_crypto m p)"
    for m n p out i
    by (auto simp: toy_crypto_def signed_by_def)
  ultimately show ?thesis unfolding crypto_ok_def by blast
qed

subsection \<open>A paired phone\<close>

definition demo_credential :: paired_credential where
  "demo_credential = \<lparr>pc_credential_id = ''cred'', pc_algorithm = PUBLIC_KEY_EC_P256_SPKI,
    pc_public_key = [1, 2, 3], pc_key_kind = KeyHardware, pc_purpose = ForAuthorization,
    pc_permissions = [permission_service ''sudo''], pc_permissions_revision = 1\<rparr>"

definition demo_device :: paired_device where
  "demo_device = \<lparr>pd_device_id = ''phone'', pd_display_name = ''Phone'', pd_paired_at_ms = 0,
    pd_session_identity_public_key = [4, 5], pd_credentials = [demo_credential]\<rparr>"

definition demo_store :: pairing_store where
  "demo_store = \<lparr>ps_path = ''pairings.json'', ps_devices = [(''phone'', demo_device)]\<rparr>"

lemma demo_store_find: "find_credential ''cred'' demo_store = Some (demo_device, demo_credential)"
  by (simp add: find_credential_def demo_store_def bt_values_def device_credential_def demo_device_def
      demo_credential_def)

lemma demo_store_get: "bt_get k (ps_devices demo_store) = (if k = ''phone'' then Some demo_device else None)"
  by (simp add: demo_store_def bt_get_def)

lemma demo_store_ok: "store_ok demo_store"
  unfolding store_ok_def demo_store_get
  by (auto simp: demo_store_def bt_ok_def demo_device_def split: if_splits)

definition demo_serde :: serde where
  "demo_serde = \<lparr>to_vec_pretty = (\<lambda>f. Some [1]), from_slice = (\<lambda>b. None)\<rparr>"

subsection \<open>A request and its answer\<close>

definition demo_verifier :: "nat \<Rightarrow> verifier" where
  "demo_verifier capacity = \<lparr>vf_identity = \<lparr>vi_verifier_id = ''desk'', vi_verifier_name = ''Desk''\<rparr>,
    vf_store = demo_store, vf_replay = with_capacity capacity\<rparr>"

lemma demo_verifier_ok: "verifier_ok (demo_verifier c)"
  by (simp add: verifier_ok_def demo_verifier_def demo_store_ok with_capacity_ok)

definition demo_session :: secure_session where
  "demo_session = \<lparr>se_origin_label = ''ble'', se_session_binding = replicate 32 3,
    se_security = \<lparr>ts_transport_name = ''ble'', ts_confidential = True, ts_peer_authenticated = True,
      ts_requires_network = False, ts_proximity_signal = True, ts_is_development = False\<rparr>\<rparr>"

definition demo_spec :: request_spec where
  "demo_spec = request_spec_new ''cred'' ''sudo'' ''run'' ''host'' ''ana''"

text \<open>The pending request with these random bytes; two differ in their first byte.\<close>

definition demo_request :: "u8 \<Rightarrow> auth_request" where
  "demo_request b = issued_request demo_spec demo_session 1000 [b] (replicate 32 6) (demo_verifier 1)"

definition demo_id :: "u8 \<Rightarrow> string" where "demo_id b = to_hex [b]"

definition demo_pending :: "u8 \<Rightarrow> pending_authorization" where
  "demo_pending b = \<lparr>pa_request = demo_request b, pa_origin = ''ble'', pa_session_binding = replicate 32 3\<rparr>"

definition demo_answer :: "u8 \<Rightarrow> auth_response" where
  "demo_answer b = authorizes (demo_request b) [1, 2, 3, 7]"

definition demo_frame :: "u8 \<Rightarrow> bytes" where
  "demo_frame b = encode_response (demo_answer b)"

lemma demo_request_simps:
  "protocol_version (demo_request b) = PROTOCOL_VERSION" "request_id (demo_request b) = demo_id b"
  "verifier_id (demo_request b) = ''desk''" "verifier_name (demo_request b) = ''Desk''"
  "credential_id (demo_request b) = ''cred''" "service (demo_request b) = ''sudo''"
  "action (demo_request b) = ''run''" "resource (demo_request b) = ''host''" "user (demo_request b) = ''ana''"
  "issued_at_ms (demo_request b) = 1000" "expires_at_ms (demo_request b) = 61000"
  "session_binding (demo_request b) = replicate 32 3"
  by (simp_all add: demo_request_def issued_request_def demo_spec_def request_spec_new_def demo_verifier_def
      demo_session_def random_request_id_def demo_id_def clamp_i64_def saturating_add_i64_def MAX_VALIDITY_MS_def)

lemma demo_id_ascii: "ascii (demo_id b)"
  unfolding demo_id_def by (rule to_hex_ascii)

lemma length_demo_id [simp]: "length (demo_id b) = 2"
  unfolding demo_id_def length_to_hex by simp

lemma check_text_demo_id: "check_text f (demo_id b) 64 = Inr ()"
proof (rule check_text_ascii [OF demo_id_ascii])
  have "\<forall>i < 16. \<not> is_whitespace (of_char (HEX_DIGITS ! i))"
    unfolding all_less_16 by (simp add: HEX_DIGITS_def upt_rec nth_Cons' is_whitespace_def)
  with nibbles(1) [of b] show "\<exists>c \<in> set (demo_id b). \<not> is_whitespace (of_char c)" by (simp add: demo_id_def)
qed simp

lemma demo_request_valid: "validate_request (demo_request b) = Inr ()"
  unfolding validate_request_iff demo_request_simps
  by (simp add: check_text_demo_id check_text_ascii check_window_iff MAX_VALIDITY_MS_def ascii_def is_whitespace_def)

lemma demo_request_permitted: "permits (pc_permissions demo_credential) (demo_request b)"
  by (simp add: permits_iff demo_request_simps demo_credential_def permission_service_def WILDCARD_def)

lemma demo_issue:
  "issue demo_spec demo_session 1000 [b] (replicate 32 6) (demo_verifier 1) = Inr (demo_pending b)"
  unfolding issue_iff
  using demo_request_valid [of b] demo_request_permitted [of b]
  by (auto simp: demo_session_def suitable_for_authorization_def demo_verifier_def demo_spec_def
      request_spec_new_def demo_store_find demo_pending_def demo_request_def [symmetric]
      purpose_for_service_def demo_credential_def demo_request_def)

lemma demo_frame_decodes: "decode_response (demo_frame b) = Inr (demo_answer b)"
proof -
  have a: "ascii ''desk''" "ascii ''cred''" "ascii ALGORITHM_ECDSA_P256_SHA256"
    by (simp_all add: ascii_def ALGORITHM_ECDSA_P256_SHA256_def)
  have r: "rs_protocol_version (demo_answer b) = PROTOCOL_VERSION" "rs_request_id (demo_answer b) = demo_id b"
    "rs_verifier_id (demo_answer b) = ''desk''" "rs_credential_id (demo_answer b) = ''cred''"
    "rs_decision (demo_answer b) = Authorized" "rs_algorithm (demo_answer b) = ALGORITHM_ECDSA_P256_SHA256"
    "rs_signature (demo_answer b) = [1, 2, 3, 7]"
    by (simp_all add: demo_answer_def authorizes_def demo_request_simps)
  have t: "response_typed (demo_answer b)"
    unfolding response_typed_def r using is_str_ascii a demo_id_ascii [of b] by blast
  have v: "validate_response (demo_answer b) = Inr ()"
    unfolding validate_response_def r
    by (simp add: check_text_demo_id check_text_ascii a is_whitespace_def ALGORITHM_ECDSA_P256_SHA256_def)
  have "length (encode_response (demo_answer b)) \<le> MAX_FRAME_BYTES"
    using length_enc(1) [of RESPONSE_FRAME_LEN] length_enc(2) [of MESSAGE_TYPE_RESPONSE]
      length_enc(2) [of PROTOCOL_VERSION] length_enc(4) [of "demo_id b"] length_enc(4) [of "''desk''"]
      length_enc(4) [of "''cred''"] length_enc(2) [of "decision_wire Authorized"]
      length_enc(4) [of ALGORITHM_ECDSA_P256_SHA256] length_enc(5) [of "[1, 2, 3, 7]"]
    unfolding encode_response_eq r
    by (simp add: MAX_FRAME_BYTES_def ALGORITHM_ECDSA_P256_SHA256_def)
  with t v show ?thesis unfolding demo_frame_def by (rule decode_response_encode)
qed

lemma demo_grant:
  assumes "demo_id b \<notin> rg_seen (vf_replay v)" and "vf_store v = demo_store" and "t < 61000"
  shows "fst (accept toy_p256 (demo_pending b) (demo_frame b) demo_session t v)
    = Inr (grant_for (demo_request b) demo_device ''ble'' t)"
  unfolding accept_grant_iff
  using assms demo_frame_decodes [of b] demo_request_permitted [of b]
  by (simp add: demo_pending_def demo_request_simps demo_store_find demo_session_def
      suitable_for_authorization_def demo_answer_def authorizes_def answers_def demo_credential_def
      signed_by_def toy_p256_def)

subsection \<open>A pairing code and two ends ready to meet\<close>

definition demo_bootstrap :: server_bootstrap where
  "demo_bootstrap = \<lparr>sb_session_id = ''s1'', sb_nonce = replicate 32 1, sb_verifier_id = ''desk'',
    sb_verifier_identity_hash = hash_identity toy_crypto [2], sb_endpoint = ''ble'',
    sb_expires_at_ms = 120000, sb_purpose = Vault\<rparr>"

lemma demo_bootstrap_typed: "bootstrap_typed demo_bootstrap"
  by (simp add: bootstrap_typed_def demo_bootstrap_def hash_identity_def toy_crypto_def is_i64_def)

lemma demo_bootstrap_valid: "validate_bootstrap demo_bootstrap = Inr ()"
  by (simp add: validate_bootstrap_iff demo_bootstrap_def)

lemma demo_bootstrap_scans: "from_uri (to_uri demo_bootstrap) = Inr demo_bootstrap"
  by (rule from_to_uri [OF demo_bootstrap_typed demo_bootstrap_valid])

lemma demo_server_ready: "server_ready toy_crypto demo_bootstrap [2] [2]"
  unfolding server_ready_def using demo_bootstrap_typed demo_bootstrap_valid
  by (simp add: is_str_ascii ascii_def demo_bootstrap_def) (simp add: toy_crypto_def)

lemma demo_client_ready: "client_ready toy_crypto ''phone'' [4] [4]"
  by (simp add: client_ready_def is_str_ascii ascii_def) (simp add: toy_crypto_def)

definition demo_inputs :: "string \<Rightarrow> string \<Rightarrow> binding_inputs" where
  "demo_inputs transport session = \<lparr>bi_transport_name = transport, bi_session_id = session,
    bi_server_ephemeral = [1], bi_client_ephemeral = [2], bi_exporter = [3]\<rparr>"

subsection \<open>Records in order\<close>

definition demo_schedule :: key_schedule where
  "demo_schedule = \<lparr>ks_client_to_server = [1], ks_server_to_client = [2], ks_exporter = [3]\<rparr>"

definition demo_records :: "bytes list" where
  "demo_records = [to_be_bytes 8 (0 :: u64) @ 1 # replicate 16 9, to_be_bytes 8 (1 :: u64) @ 2 # 3 # replicate 16 9]"

lemma demo_records_sealed:
  "seal_all toy_crypto [[1], [2, 3]] (channel_new Server demo_schedule [8]) = Inr demo_records"
  by (simp add: demo_records_def seal_def channel_new_def toy_crypto_def checked_add_1_def MAX_FRAME_def)

subsection \<open>The demo request as issued\<close>

lemma demo_typed:
  "spec_typed demo_spec" "identity_typed (vf_identity (demo_verifier c))"
  "length (replicate 32 6 :: bytes) = CHALLENGE_LEN"
  "length (se_session_binding demo_session) = SESSION_BINDING_LEN" "is_i64 1000"
  by (simp_all add: spec_typed_def demo_spec_def request_spec_new_def identity_typed_def demo_verifier_def
      is_str_ascii ascii_def CHALLENGE_LEN_def SESSION_BINDING_LEN_def demo_session_def is_i64_def)

lemma demo_ids_differ: "demo_id 7 \<noteq> demo_id 8"
  by (simp add: demo_id_def HEX_DIGITS_def)

lemma demo_check_answer: "check_answer (demo_pending b) (demo_frame b) demo_session = Inr (demo_answer b)"
  unfolding check_answer_iff
  by (simp add: demo_frame_decodes demo_session_def suitable_for_authorization_def demo_pending_def
      demo_answer_def authorizes_def answers_def)

lemma demo_burned:
  "burned [AnswerArrives (demo_pending b) (demo_frame b) demo_session t] = [demo_id b]"
  by (simp add: demo_check_answer) (simp add: demo_pending_def demo_request_simps)

lemma demo_after_one:
  "snd (accept toy_p256 (demo_pending b) (demo_frame b) demo_session t v)
    = v\<lparr>vf_replay := snd (consume (demo_id b) (vf_replay v))\<rparr>"
  by (simp add: accept_eq demo_check_answer) (simp add: demo_pending_def demo_request_simps)

lemma demo_evicting:
  "request_id (pa_request (demo_pending 7)) \<notin>
    set (burned [AnswerArrives (demo_pending 8) (demo_frame 8) demo_session 1600])"
  "vf_store (verifier_run toy_p256 demo_serde [AnswerArrives (demo_pending 8) (demo_frame 8) demo_session 1600]
    (snd (accept toy_p256 (demo_pending 7) (demo_frame 7) demo_session 1500 (demo_verifier 1))))
    = vf_store (demo_verifier 1)"
  "rg_capacity (vf_replay (demo_verifier 1)) \<le> length (accepted_keys consume
    (burned [AnswerArrives (demo_pending 8) (demo_frame 8) demo_session 1600])
    (vf_replay (snd (accept toy_p256 (demo_pending 7) (demo_frame 7) demo_session 1500 (demo_verifier 1)))))"
  unfolding demo_burned verifier_run_def fold.simps o_def id_apply verifier_step.simps demo_after_one
  using demo_ids_differ
  by (simp_all add: demo_pending_def demo_request_simps demo_verifier_def with_capacity_def consume_def)

subsection \<open>The paired store and its file\<close>

definition demo_world :: world where
  "demo_world = \<lparr>w_files = (\<lambda>_. None), w_new_mode = 420, w_faults = []\<rparr>"

lemma demo_history: "store_history demo_serde ''pairings.json'' demo_store"
proof -
  let ?fresh = "\<lparr>ps_path = ''pairings.json'', ps_devices = bt_empty\<rparr>"
  have "fst (snd (insert_device demo_serde demo_device ?fresh demo_world)) = demo_store"
    unfolding insert_device_store
    by (simp add: no_conflict_def find_credential_def bt_values_def put_device_def merge_credentials_def
        demo_store_def bt_get_def bt_empty_def demo_device_def)
  then show ?thesis
    using store_history.inserted [OF store_history.fresh_store, of demo_serde demo_device "''pairings.json''" demo_world]
    by (metis prod.collapse)
qed

text \<open>Another device that claims the credential of the first under a key of its own.\<close>

definition demo_rival :: paired_device where
  "demo_rival = demo_device\<lparr>pd_device_id := ''rival'', pd_credentials := [demo_credential\<lparr>pc_public_key := [6]\<rparr>]\<rparr>"

definition demo_file :: store_file where
  "demo_file = \<lparr>sf_version = 1, sf_devices = map serialize_device (bt_values (ps_devices demo_store))\<rparr>"

definition demo_loading_serde :: serde where
  "demo_loading_serde = \<lparr>to_vec_pretty = (\<lambda>f. if f = demo_file then Some [1] else None),
    from_slice = (\<lambda>b. if b = [1] then Some demo_file else None)\<rparr>"

lemma demo_store_path: "ps_path demo_store \<noteq> []"
  by (simp add: demo_store_def)

lemma demo_json: "json_of demo_loading_serde demo_store = Some [1]"
  by (simp add: json_of_def demo_loading_serde_def demo_file_def)

text \<open>The length prefix of a frame of two bytes.\<close>

lemma demo_prefix: "to_be_bytes 4 (2 :: u64) = [0, 0, 0, 2]"
  by code_simp

end
