(* ===== verification/Locker_Format.thy ===== *)
theory Locker_Format
  imports Protocol_Base File_System
begin

text \<open>
  The bytes of a locker container: \<open>phone-auth-locker/src/format.rs\<close>, with the errors of
  \<open>lib.rs\<close>. A container is a magic, a public header, the wrapped copies of its data key, an
  encrypted metadata block and encrypted chunks.
\<close>

datatype wrapper_kind = PhoneWrapper | RecoveryWrapper

text \<open>\<open>Panicked\<close> is not an error of the code: it marks the branch where the code panics.\<close>

datatype locker_error =
  LockerIo io_error | NotAContainer | UnsupportedContainer u8 | MalformedContainer string
  | SectionTooLarge string nat | Corrupt | NoWrapper wrapper_kind | BadRecoveryCode | UnsafeName
  | NotARegularFile string | SharedOriginal | DestinationExists path | InputChanged
  | LockerDenied string | Panicked

definition MAGIC_PREFIX :: bytes where "MAGIC_PREFIX = as_bytes ''BIOALCK''"
definition CONTAINER_VERSION :: u8 where "CONTAINER_VERSION = 1"
definition CIPHER_CHACHA20_POLY1305 :: u64 where "CIPHER_CHACHA20_POLY1305 = 1"
definition CHUNK_SIZE :: u32 where "CHUNK_SIZE = 64 * 1024"
definition MIN_CHUNK_SIZE :: u32 where "MIN_CHUNK_SIZE = 4 * 1024"
definition MAX_CHUNK_SIZE :: u32 where "MAX_CHUNK_SIZE = 1024 * 1024"
definition TAG_LEN :: nat where "TAG_LEN = 16"
definition NONCE_PREFIX_LEN :: nat where "NONCE_PREFIX_LEN = 7"
definition SALT_LEN :: nat where "SALT_LEN = 32"
definition NONCE_LEN :: nat where "NONCE_LEN = 12"
definition MAX_CHUNK_INDEX :: u64 where "MAX_CHUNK_INDEX = 0xFFFFFFFF - 1"
definition MAX_CORE_BYTES :: nat where "MAX_CORE_BYTES = 4096"
definition MAX_WRAPPER_SECTION :: nat where "MAX_WRAPPER_SECTION = 8192"
definition MAX_METADATA_BYTES :: nat where "MAX_METADATA_BYTES = 4096"
definition MAX_WRAPPERS :: nat where "MAX_WRAPPERS = 8"
definition MAX_WRAPPER_CIPHERTEXT :: nat where "MAX_WRAPPER_CIPHERTEXT = 512"
definition LOCKER_NAME_UNITS :: nat where "LOCKER_NAME_UNITS = 255"
definition LOCKER_ID_UNITS :: nat where "LOCKER_ID_UNITS = 64"
definition LOCKER_EXTENSION :: string where "LOCKER_EXTENSION = ''balock''"
definition LOCKER_BINDING_DOMAIN :: bytes where "LOCKER_BINDING_DOMAIN = as_bytes ''bioauth-locker-binding-v1''"
definition WRAPPER_DOMAIN :: bytes where "WRAPPER_DOMAIN = as_bytes ''bioauth-locker-wrapper-v1''"
definition CONTENT_INFO :: bytes where "CONTENT_INFO = as_bytes ''bioauth-locker-content-v1''"
definition METADATA_INFO :: bytes where "METADATA_INFO = as_bytes ''bioauth-locker-metadata-v1''"
definition RECOVERY_INFO :: bytes where "RECOVERY_INFO = as_bytes ''bioauth-locker-recovery-v1''"
definition CORE_FIELDS :: u64 where "CORE_FIELDS = 6"
definition WRAPPER_FIELDS :: u64 where "WRAPPER_FIELDS = 5"
definition METADATA_FIELDS :: u64 where "METADATA_FIELDS = 5"
definition METADATA_SCHEMA :: u64 where "METADATA_SCHEMA = 1"

lemmas locker_consts = NONCE_PREFIX_LEN_def SALT_LEN_def NONCE_LEN_def MAX_CORE_BYTES_def
  MAX_WRAPPER_SECTION_def MAX_METADATA_BYTES_def MAX_WRAPPERS_def MAX_WRAPPER_CIPHERTEXT_def
  LOCKER_NAME_UNITS_def LOCKER_ID_UNITS_def TAG_LEN_def

text \<open>The \<open>?\<close> that turns a CBOR error into a locker error.\<close>

definition then_locker :: "cbor_error + 'a \<Rightarrow> ('a \<Rightarrow> locker_error + 'b) \<Rightarrow> locker_error + 'b" where
  "then_locker m k = (case m of Inl _ \<Rightarrow> Inl (MalformedContainer ''invalid CBOR'') | Inr x \<Rightarrow> k x)"

lemma then_locker_simps [simp]:
  "then_locker (Inl e) k = Inl (MalformedContainer ''invalid CBOR'')"
  "then_locker (Inr x) k = k x"
  by (simp_all add: then_locker_def)

lemma then_locker_eq_Inr: "then_locker m k = Inr y \<longleftrightarrow> (\<exists>x. m = Inr x \<and> k x = Inr y)"
  by (cases m) auto

subsection \<open>The public header\<close>

record core_header =
  co_container_version :: u8
  co_chunk_size :: u32
  co_nonce_prefix :: bytes
  co_content_salt :: bytes
  co_plaintext_len :: u64

text \<open>The 39 random bytes are an argument.\<close>

definition core_fresh :: "bytes \<Rightarrow> u64 \<Rightarrow> core_header" where
  "core_fresh random plaintext_len =
    \<lparr>co_container_version = CONTAINER_VERSION, co_chunk_size = CHUNK_SIZE,
     co_nonce_prefix = take NONCE_PREFIX_LEN random, co_content_salt = drop NONCE_PREFIX_LEN random,
     co_plaintext_len = plaintext_len\<rparr>"

definition div_ceil_u64 :: "u64 \<Rightarrow> u64 \<Rightarrow> u64" where
  "div_ceil_u64 a b = (if a mod b > 0 then a div b + 1 else a div b)"

definition chunk_count :: "core_header \<Rightarrow> u64" where
  "chunk_count h =
    (if co_plaintext_len h = 0 then 1
     else div_ceil_u64 (co_plaintext_len h) (ucast (co_chunk_size h)))"

definition is_power_of_two :: "u32 \<Rightarrow> bool" where
  "is_power_of_two n \<longleftrightarrow> n \<noteq> 0 \<and> n AND (n - 1) = 0"

definition validate_core :: "core_header \<Rightarrow> locker_error + unit" where
  "validate_core h =
    (if co_container_version h \<noteq> CONTAINER_VERSION
     then Inl (UnsupportedContainer (co_container_version h))
     else if \<not> (MIN_CHUNK_SIZE \<le> co_chunk_size h \<and> co_chunk_size h \<le> MAX_CHUNK_SIZE)
       \<or> \<not> is_power_of_two (co_chunk_size h)
     then Inl (MalformedContainer ''chunk size'')
     else if chunk_count h > MAX_CHUNK_INDEX then Inl (MalformedContainer ''plaintext length'')
     else Inr ())"

definition encode_core :: "core_header \<Rightarrow> bytes" where
  "encode_core h =
    (let w = writer_new;
         w = w_array CORE_FIELDS w;
         w = w_uint (ucast (co_container_version h)) w;
         w = w_uint CIPHER_CHACHA20_POLY1305 w;
         w = w_uint (ucast (co_chunk_size h)) w;
         w = w_bytes (co_nonce_prefix h) w;
         w = w_bytes (co_content_salt h) w;
         w = w_uint (co_plaintext_len h) w
     in w)"

definition u8_try_from :: "u64 \<Rightarrow> u8 option" where
  "u8_try_from v = (if v \<le> 0xFF then Some (ucast v) else None)"

definition u32_try_from :: "u64 \<Rightarrow> u32 option" where
  "u32_try_from v = (if v \<le> 0xFFFFFFFF then Some (ucast v) else None)"

definition or_malformed :: "'a option \<Rightarrow> string \<Rightarrow> locker_error + 'a" where
  "or_malformed x what = (case x of None \<Rightarrow> Inl (MalformedContainer what) | Some y \<Rightarrow> Inr y)"

definition fixed_field :: "nat \<Rightarrow> bytes \<Rightarrow> string \<Rightarrow> locker_error + bytes" where
  "fixed_field n value field =
    (if length value = n then Inr value else Inl (MalformedContainer field))"

definition decode_core :: "bytes \<Rightarrow> locker_error + core_header" where
  "decode_core bs =
    (if length bs > MAX_CORE_BYTES then Inl (SectionTooLarge ''header'' MAX_CORE_BYTES) else
     let r = reader_new bs in
     then_locker (r_array r) (\<lambda>(count, r).
     if count \<noteq> CORE_FIELDS then Inl (MalformedContainer ''header shape'') else
     then_locker (r_uint r) (\<lambda>(v, r).
     then_ok (or_malformed (u8_try_from v) ''container version'') (\<lambda>version.
     if version \<noteq> CONTAINER_VERSION then Inl (UnsupportedContainer version) else
     then_locker (r_uint r) (\<lambda>(cipher, r).
     if cipher \<noteq> CIPHER_CHACHA20_POLY1305 then Inl (MalformedContainer ''cipher'') else
     then_locker (r_uint r) (\<lambda>(size, r).
     then_ok (or_malformed (u32_try_from size) ''chunk size'') (\<lambda>size.
     then_locker (r_bytes r) (\<lambda>(prefix, r).
     then_ok (fixed_field NONCE_PREFIX_LEN prefix ''nonce prefix'') (\<lambda>prefix.
     then_locker (r_bytes r) (\<lambda>(salt, r).
     then_ok (fixed_field SALT_LEN salt ''content salt'') (\<lambda>salt.
     then_locker (r_uint r) (\<lambda>(len, r).
     let header = \<lparr>co_container_version = version, co_chunk_size = size, co_nonce_prefix = prefix,
           co_content_salt = salt, co_plaintext_len = len\<rparr> in
     then_locker (r_finish r) (\<lambda>_.
     then_ok (validate_core header) (\<lambda>_.
     if encode_core header \<noteq> bs then Inl (MalformedContainer ''header is not canonical'')
     else Inr header))))))))))))))"

definition chunk_nonce :: "core_header \<Rightarrow> u64 \<Rightarrow> bool \<Rightarrow> bytes" where
  "chunk_nonce h index final_chunk =
    co_nonce_prefix h @ to_be_bytes 4 (ucast (ucast index :: u32)) @ [if final_chunk then 1 else 0]"

definition metadata_nonce :: "core_header \<Rightarrow> bytes" where
  "metadata_nonce h = co_nonce_prefix h @ to_be_bytes 4 0xFFFFFFFF @ [2]"

definition magic :: bytes where "magic = MAGIC_PREFIX @ [CONTAINER_VERSION]"

lemma or_malformed_eq [simp]: "or_malformed x w = Inr y \<longleftrightarrow> x = Some y"
  by (simp add: or_malformed_def split: option.split)

lemma fixed_field_eq [simp]: "fixed_field n v f = Inr w \<longleftrightarrow> length v = n \<and> w = v"
  by (auto simp: fixed_field_def)

lemma or_malformed_Some [codec]: "or_malformed (Some y) w = Inr y"
  by simp

lemma fixed_field_ok [codec]: "length v = n \<Longrightarrow> fixed_field n v f = Inr v"
  by simp

lemma unat_ucast_small: "unat (ucast (x :: u8) :: u64) = unat x" "unat (ucast (y :: u32) :: u64) = unat y"
  using unsigned_less [of x, where ?'a = nat] unsigned_less [of y, where ?'a = nat]
  by (simp_all add: unsigned_ucast_eq take_bit_nat_eq_self)

lemma try_from_ucast [simp]:
  "u8_try_from (ucast x) = Some x" "u32_try_from (ucast y) = Some y"
proof -
  have "unat x \<le> 255" "unat y \<le> 4294967295"
    using unsigned_less [of x, where ?'a = nat] unsigned_less [of y, where ?'a = nat] by simp_all
  moreover have "ucast (ucast x :: u64) = x" "ucast (ucast y :: u64) = y"
    by (rule bit_word_eqI, auto simp: bit_simps)+
  ultimately show "u8_try_from (ucast x) = Some x" "u32_try_from (ucast y) = Some y"
    by (simp_all add: u8_try_from_def u32_try_from_def word_le_nat_alt unat_ucast_small)
qed

lemma try_from_Some:
  "u8_try_from v = Some x \<Longrightarrow> ucast x = v" "u32_try_from v = Some y \<Longrightarrow> ucast y = v"
proof -
  have small: "unat (ucast v :: 'a :: len word) = unat v" if "unat v < 2 ^ LENGTH('a)"
    using that by (simp add: unsigned_ucast_eq take_bit_nat_eq_self)
  show "u8_try_from v = Some x \<Longrightarrow> ucast x = v"
    by (auto simp: u8_try_from_def word_le_nat_alt word_unat_eq_iff unat_ucast_small small split: if_splits)
  show "u32_try_from v = Some y \<Longrightarrow> ucast y = v"
    by (auto simp: u32_try_from_def word_le_nat_alt word_unat_eq_iff unat_ucast_small small split: if_splits)
qed

definition core_typed :: "core_header \<Rightarrow> bool" where
  "core_typed h \<longleftrightarrow> length (co_nonce_prefix h) = NONCE_PREFIX_LEN \<and> length (co_content_salt h) = SALT_LEN"

lemma encode_core_eq: "encode_core h =
    enc_array CORE_FIELDS @ enc_uint (ucast (co_container_version h)) @ enc_uint CIPHER_CHACHA20_POLY1305
    @ enc_uint (ucast (co_chunk_size h)) @ enc_bytes (co_nonce_prefix h) @ enc_bytes (co_content_salt h)
    @ enc_uint (co_plaintext_len h)"
  by (simp add: encode_core_def Let_def writer_new_def w_append)

lemma length_encode_core:
  assumes "core_typed h"
  shows "length (encode_core h) \<le> 102"
  using assms length_enc(1) [of CORE_FIELDS] length_enc(2) [of "ucast (co_container_version h)"]
    length_enc(2) [of CIPHER_CHACHA20_POLY1305] length_enc(2) [of "ucast (co_chunk_size h)"]
    length_enc(5) [of "co_nonce_prefix h"] length_enc(5) [of "co_content_salt h"]
    length_enc(2) [of "co_plaintext_len h"]
  by (simp add: encode_core_eq core_typed_def locker_consts)

lemma section_slice_ok: "length bs \<le> MAX_WRAPPER_SECTION \<Longrightarrow> slice_ok bs"
  by (rule slice_okI [of _ MAX_WRAPPER_SECTION]) (simp_all add: MAX_WRAPPER_SECTION_def)

lemma validate_core_version: "validate_core h = Inr u \<Longrightarrow> co_container_version h = CONTAINER_VERSION"
  by (auto simp: validate_core_def split: if_splits)

lemma decode_core_encode:
  assumes "core_typed h" and "validate_core h = Inr ()"
  shows "decode_core (encode_core h) = Inr h"
proof -
  have l: "length (encode_core h) \<le> MAX_CORE_BYTES" "slice_ok (encode_core h)"
    using length_encode_core [OF assms(1)] section_slice_ok [of "encode_core h"] by (simp_all add: locker_consts)
  then show ?thesis
    using assms validate_core_version [OF assms(2)]
    by (cases h) (simp add: decode_core_def Let_def reader_new_at core_typed_def encode_core_eq codec)
qed

lemma decode_core_sound:
  assumes "decode_core bs = Inr h"
  shows "bs = encode_core h \<and> core_typed h \<and> validate_core h = Inr ()"
  using assms
  by (auto simp: decode_core_def Let_def core_typed_def then_ok_eq_Inr then_locker_eq_Inr split: if_splits)

lemma decode_core_iff: "decode_core bs = Inr h \<longleftrightarrow> bs = encode_core h \<and> core_typed h \<and> validate_core h = Inr ()"
  using decode_core_sound decode_core_encode by blast

subsection \<open>Nonces\<close>

lemma be4_inject:
  fixes i j :: u64
  assumes "unat i < 2 ^ 32" and "unat j < 2 ^ 32"
  shows "to_be_bytes 4 (ucast (ucast i :: u32)) = to_be_bytes 4 (ucast (ucast j :: u32)) \<longleftrightarrow> i = j"
proof -
  have u: "unat (ucast (ucast k :: u32) :: u64) = unat k" if "unat k < 2 ^ 32" for k :: u64
    using that by (simp add: unsigned_ucast_eq unsigned_take_bit_eq take_bit_nat_eq_self)
  have t: "take_bit 32 (ucast (ucast k :: u32) :: u64) = ucast (ucast k :: u32)" for k :: u64
    by (rule bit_word_eqI) (auto simp: bit_simps)
  have inj: "x = y" if "to_be_bytes 4 x = to_be_bytes 4 y" "take_bit 32 x = x" "take_bit 32 y = y" for x y
    using arg_cong [OF that(1), of from_be_bytes] that(2,3) by simp
  have "to_be_bytes 4 (ucast (ucast i :: u32)) = to_be_bytes 4 (ucast (ucast j :: u32))
      \<longleftrightarrow> (ucast (ucast i :: u32) :: u64) = ucast (ucast j :: u32)"
    by (rule iffI, erule inj [OF _ t t], simp)
  also have "\<dots> \<longleftrightarrow> i = j"
    using u assms by (metis word_unat_eq_iff)
  finally show ?thesis .
qed

text \<open>No two chunks of a container, and no chunk and the metadata, share a nonce.\<close>

lemma chunk_nonce_inject:
  assumes "unat i < 2 ^ 32" and "unat j < 2 ^ 32"
  shows "chunk_nonce h i a = chunk_nonce h j b \<longleftrightarrow> i = j \<and> a = b"
  using be4_inject [OF assms] by (auto simp: chunk_nonce_def)

lemma chunk_nonce_not_metadata: "chunk_nonce h i a \<noteq> metadata_nonce h"
  by (auto simp: chunk_nonce_def metadata_nonce_def)

lemma length_nonces [simp]:
  assumes "core_typed h"
  shows "length (chunk_nonce h i a) = NONCE_LEN" and "length (metadata_nonce h) = NONCE_LEN"
  using assms by (simp_all add: chunk_nonce_def metadata_nonce_def core_typed_def locker_consts)

subsection \<open>Wrapped keys\<close>

text \<open>
  The primitives the container uses, as the crates provide them: SHA-256, HKDF-SHA256 with 32
  bytes of output, and ChaCha20-Poly1305 under a key, a nonce and additional data.
\<close>

record locker_crypto =
  lc_sha256 :: "bytes \<Rightarrow> bytes"
  lc_hkdf :: "bytes \<Rightarrow> bytes \<Rightarrow> bytes \<Rightarrow> bytes"
  lc_encrypt :: "bytes \<Rightarrow> bytes \<Rightarrow> bytes \<Rightarrow> bytes \<Rightarrow> bytes"
  lc_decrypt :: "bytes \<Rightarrow> bytes \<Rightarrow> bytes \<Rightarrow> bytes \<Rightarrow> bytes option"

text \<open>What the container relies on: opening undoes sealing, nothing else opens, a tag has its
  length.\<close>

definition locker_crypto_ok :: "locker_crypto \<Rightarrow> bool" where
  "locker_crypto_ok lc \<longleftrightarrow>
    (\<forall>k n a m c. lc_decrypt lc k n a c = Some m \<longleftrightarrow> c = lc_encrypt lc k n a m)
    \<and> (\<forall>k n a m. length (lc_encrypt lc k n a m) = length m + TAG_LEN)"

definition locker_binding_of :: "locker_crypto \<Rightarrow> bytes \<Rightarrow> bytes" where
  "locker_binding_of lc core = lc_sha256 lc (LOCKER_BINDING_DOMAIN @ magic @ core)"

fun wrapper_kind_wire :: "wrapper_kind \<Rightarrow> u64" where
  "wrapper_kind_wire PhoneWrapper = 0"
| "wrapper_kind_wire RecoveryWrapper = 1"

definition wrapper_kind_from_wire :: "u64 \<Rightarrow> locker_error + wrapper_kind" where
  "wrapper_kind_from_wire value =
    (if value = 0 then Inr PhoneWrapper else if value = 1 then Inr RecoveryWrapper
     else Inl (MalformedContainer ''wrapper kind''))"

definition wrapper_aad :: "locker_crypto \<Rightarrow> bytes \<Rightarrow> wrapper_kind \<Rightarrow> string \<Rightarrow> bytes" where
  "wrapper_aad lc binding kind wid =
    lc_sha256 lc (WRAPPER_DOMAIN @ binding @ [ucast (wrapper_kind_wire kind)] @ as_bytes wid)"

record wrapper =
  wr_kind :: wrapper_kind
  wr_id :: string
  wr_salt :: bytes
  wr_nonce :: bytes
  wr_ciphertext :: bytes

definition validate_wrapper :: "wrapper \<Rightarrow> locker_error + unit" where
  "validate_wrapper w =
    (if utf16_len (wr_id w) > LOCKER_ID_UNITS then Inl (MalformedContainer ''wrapper id'')
     else if wr_ciphertext w = [] \<or> length (wr_ciphertext w) > MAX_WRAPPER_CIPHERTEXT
     then Inl (MalformedContainer ''wrapper ciphertext'')
     else
       let (salt, nonce) = (case wr_kind w of
             PhoneWrapper \<Rightarrow> (0, 0)
           | RecoveryWrapper \<Rightarrow> (SALT_LEN, NONCE_LEN))
       in if length (wr_salt w) \<noteq> salt \<or> length (wr_nonce w) \<noteq> nonce
          then Inl (MalformedContainer ''wrapper salt or nonce'') else Inr ())"

definition write_wrapper :: "wrapper \<Rightarrow> writer \<Rightarrow> writer" where
  "write_wrapper x w =
    (let w = w_array WRAPPER_FIELDS w;
         w = w_uint (wrapper_kind_wire (wr_kind x)) w;
         w = w_text (wr_id x) w;
         w = w_bytes (wr_salt x) w;
         w = w_bytes (wr_nonce x) w;
         w = w_bytes (wr_ciphertext x) w
     in w)"

fun write_wrappers :: "wrapper list \<Rightarrow> writer \<Rightarrow> locker_error + writer" where
  "write_wrappers [] w = Inr w"
| "write_wrappers (x # xs) w =
    then_ok (validate_wrapper x) (\<lambda>_. write_wrappers xs (write_wrapper x w))"

definition encode_wrappers :: "wrapper list \<Rightarrow> locker_error + bytes" where
  "encode_wrappers wrappers =
    (if wrappers = [] \<or> length wrappers > MAX_WRAPPERS
     then Inl (MalformedContainer ''wrapper count'')
     else
       then_ok (write_wrappers wrappers (w_array (word_of_nat (length wrappers)) writer_new)) (\<lambda>encoded.
       if length encoded > MAX_WRAPPER_SECTION
       then Inl (SectionTooLarge ''wrappers'' MAX_WRAPPER_SECTION) else Inr encoded))"

definition read_wrapper :: "reader \<Rightarrow> locker_error + (wrapper \<times> reader)" where
  "read_wrapper r =
    then_locker (r_array r) (\<lambda>(count, r).
    if count \<noteq> WRAPPER_FIELDS then Inl (MalformedContainer ''wrapper shape'') else
    then_locker (r_uint r) (\<lambda>(k, r).
    then_ok (wrapper_kind_from_wire k) (\<lambda>k.
    then_locker (r_text r) (\<lambda>(i, r).
    then_locker (r_bytes r) (\<lambda>(s, r).
    then_locker (r_bytes r) (\<lambda>(n, r).
    then_locker (r_bytes r) (\<lambda>(c, r).
    let w = \<lparr>wr_kind = k, wr_id = i, wr_salt = s, wr_nonce = n, wr_ciphertext = c\<rparr> in
    then_ok (validate_wrapper w) (\<lambda>_. Inr (w, r)))))))))"

definition decode_wrappers :: "bytes \<Rightarrow> locker_error + wrapper list" where
  "decode_wrappers bs =
    (if length bs > MAX_WRAPPER_SECTION then Inl (SectionTooLarge ''wrappers'' MAX_WRAPPER_SECTION) else
     then_locker (r_array (reader_new bs)) (\<lambda>(count, r).
     if count = 0 \<or> count > word_of_nat MAX_WRAPPERS then Inl (MalformedContainer ''wrapper count'') else
     then_ok (read_many read_wrapper (unat count) r) (\<lambda>(wrappers, r).
     then_locker (r_finish r) (\<lambda>_.
     then_ok (encode_wrappers wrappers) (\<lambda>encoded.
     if encoded \<noteq> bs then Inl (MalformedContainer ''wrappers are not canonical'')
     else Inr wrappers)))))"

definition wrapper_ok :: "wrapper \<Rightarrow> bool" where
  "wrapper_ok w \<longleftrightarrow> is_str (wr_id w) \<and> validate_wrapper w = Inr ()"

definition enc_wrapper :: "wrapper \<Rightarrow> bytes" where
  "enc_wrapper x = enc_array WRAPPER_FIELDS @ enc_uint (wrapper_kind_wire (wr_kind x)) @ enc_text (wr_id x)
    @ enc_bytes (wr_salt x) @ enc_bytes (wr_nonce x) @ enc_bytes (wr_ciphertext x)"

lemma wrapper_kind_at [codec]: "wrapper_kind_from_wire (wrapper_kind_wire k) = Inr k"
  by (cases k) (simp_all add: wrapper_kind_from_wire_def)

lemma wrapper_kind_from_Inr: "wrapper_kind_from_wire v = Inr k \<Longrightarrow> wrapper_kind_wire k = v"
  by (auto simp: wrapper_kind_from_wire_def split: if_splits)

interpretation wrapper_item: wire_item write_wrapper enc_wrapper read_wrapper wrapper_ok
proof unfold_locales
  fix a w
  show "write_wrapper a w = w @ enc_wrapper a"
    by (simp add: write_wrapper_def enc_wrapper_def Let_def w_append)
next
  fix a pre rest
  assume "wrapper_ok a" and "slice_ok (pre @ enc_wrapper a @ rest)"
  then show "read_wrapper (reader_at pre (enc_wrapper a @ rest)) = Inr (a, reader_at (pre @ enc_wrapper a) rest)"
    by (cases a) (simp add: read_wrapper_def enc_wrapper_def wrapper_ok_def Let_def codec)
next
  fix pre bs a r
  assume "read_wrapper (reader_at pre bs) = Inr (a, r)"
  then show "wrapper_ok a \<and> (\<exists>rest. bs = enc_wrapper a @ rest \<and> r = reader_at (pre @ enc_wrapper a) rest)"
    by (auto simp: read_wrapper_def enc_wrapper_def wrapper_ok_def then_locker_eq_Inr then_ok_eq_Inr Let_def
        split: if_splits dest!: strict wrapper_kind_from_Inr)
qed

definition enc_wrappers :: "wrapper list \<Rightarrow> bytes" where
  "enc_wrappers ws = enc_array (word_of_nat (length ws)) @ concat (map enc_wrapper ws)"

definition wrappers_ok :: "wrapper list \<Rightarrow> bool" where
  "wrappers_ok ws \<longleftrightarrow> ws \<noteq> [] \<and> length ws \<le> MAX_WRAPPERS \<and> (\<forall>w \<in> set ws. wrapper_ok w)"

lemma length_enc_wrapper:
  assumes "wrapper_ok w"
  shows "length (enc_wrapper w) \<le> 802"
proof -
  have v: "utf16_len (wr_id w) \<le> LOCKER_ID_UNITS" "length (wr_ciphertext w) \<le> MAX_WRAPPER_CIPHERTEXT"
    "length (wr_salt w) \<le> SALT_LEN" "length (wr_nonce w) \<le> NONCE_LEN" "is_str (wr_id w)"
    using assms by (auto simp: wrapper_ok_def validate_wrapper_def split: if_splits wrapper_kind.splits)
  have "length (wr_id w) \<le> 3 * LOCKER_ID_UNITS" using v by (intro utf16_len_le)
  with v show ?thesis
    using length_enc(1) [of WRAPPER_FIELDS] length_enc(2) [of "wrapper_kind_wire (wr_kind w)"]
      length_enc(4) [of "wr_id w"] length_enc(5) [of "wr_salt w"] length_enc(5) [of "wr_nonce w"]
      length_enc(5) [of "wr_ciphertext w"]
    by (simp add: enc_wrapper_def locker_consts)
qed

text \<open>Eight valid wrappers always fit their section, so its size check never refuses one.\<close>

lemma length_enc_wrappers:
  assumes "wrappers_ok ws"
  shows "length (enc_wrappers ws) \<le> MAX_WRAPPER_SECTION"
proof -
  have "length (concat (map enc_wrapper ws)) \<le> 802 * length ws" if "\<forall>w \<in> set ws. wrapper_ok w" for ws
    using that by (induction ws) (auto dest: length_enc_wrapper)
  with assms show ?thesis
    using length_enc(1) [of "word_of_nat (length ws)"]
    by (fastforce simp: enc_wrappers_def wrappers_ok_def locker_consts)
qed

lemma write_wrappers_eq:
  "(\<And>w. w \<in> set ws \<Longrightarrow> validate_wrapper w = Inr ()) \<Longrightarrow>
    write_wrappers ws w = Inr (w @ concat (map enc_wrapper ws))"
  by (induction ws arbitrary: w) (simp_all add: wrapper_item.put_append)

lemma encode_wrappers_ok: "wrappers_ok ws \<Longrightarrow> encode_wrappers ws = Inr (enc_wrappers ws)"
  using length_enc_wrappers [of ws]
  by (simp add: encode_wrappers_def wrappers_ok_def wrapper_ok_def write_wrappers_eq writer_new_def
      enc_wrappers_def enc_array_def)

lemma decode_wrappers_encode:
  assumes "wrappers_ok ws"
  shows "decode_wrappers (enc_wrappers ws) = Inr ws"
proof -
  have n: "unat (word_of_nat (length ws) :: u64) = length ws"
    using assms by (simp add: wrappers_ok_def MAX_WRAPPERS_def unsigned_of_nat take_bit_nat_eq_self)
  have c: "\<not> (word_of_nat (length ws) = (0 :: u64) \<or> word_of_nat MAX_WRAPPERS < (word_of_nat (length ws) :: u64))"
    using assms by (simp add: wrappers_ok_def MAX_WRAPPERS_def word_less_nat_alt n word_unat_eq_iff)
  have s: "slice_ok (enc_wrappers ws)" by (rule section_slice_ok [OF length_enc_wrappers [OF assms]])
  have m: "read_many read_wrapper (length ws) (reader_at (enc_array (word_of_nat (length ws))) (concat (map enc_wrapper ws)))
      = Inr (ws, reader_at (enc_wrappers ws) [])"
    using wrapper_item.read_many_at [of ws "enc_array (word_of_nat (length ws))" "[]"] assms s
    by (simp add: wrappers_ok_def enc_wrappers_def)
  have a: "r_array (reader_new (enc_wrappers ws))
      = Inr (word_of_nat (length ws), reader_at (enc_array (word_of_nat (length ws))) (concat (map enc_wrapper ws)))"
    using s by (simp add: reader_new_at enc_wrappers_def codec)
  show ?thesis
    using length_enc_wrappers [OF assms] c
    by (simp add: decode_wrappers_def a n m encode_wrappers_ok [OF assms] codec)
qed

lemma decode_wrappers_sound:
  assumes "decode_wrappers bs = Inr ws"
  shows "bs = enc_wrappers ws \<and> wrappers_ok ws"
proof -
  from assms obtain n rest r where bs: "bs = enc_array n @ rest" and n: "n \<noteq> 0" "n \<le> word_of_nat MAX_WRAPPERS"
    and m: "read_many read_wrapper (unat n) (reader_at (enc_array n) rest) = Inr (ws, r)"
    and e: "encode_wrappers ws = Inr bs"
    by (auto simp: decode_wrappers_def reader_new_at then_locker_eq_Inr then_ok_eq_Inr not_less
        split: if_splits dest!: r_strict)
  from wrapper_item.read_many_strict [OF m] have l: "length ws = unat n" and ok: "\<forall>w \<in> set ws. wrapper_ok w"
    by auto
  have "unat n \<le> MAX_WRAPPERS" using n(2) by (simp add: word_le_nat_alt MAX_WRAPPERS_def)
  moreover have "unat n \<noteq> 0" using n(1) by (simp add: unsigned_eq_0_iff)
  ultimately have "wrappers_ok ws" using l ok by (auto simp: wrappers_ok_def)
  with e encode_wrappers_ok [of ws] show ?thesis by simp
qed

lemma decode_wrappers_iff: "decode_wrappers bs = Inr ws \<longleftrightarrow> bs = enc_wrappers ws \<and> wrappers_ok ws"
  using decode_wrappers_sound decode_wrappers_encode by blast

subsection \<open>Metadata\<close>

record locker_metadata =
  lm_original_name :: string
  lm_mode :: u32
  lm_modified_at_ms :: int
  lm_original_len :: u64

definition validate_metadata :: "locker_metadata \<Rightarrow> locker_error + unit" where
  "validate_metadata m =
    (if lm_original_name m = [] \<or> utf16_len (lm_original_name m) > LOCKER_NAME_UNITS
     then Inl UnsafeName else Inr ())"

definition encode_metadata :: "locker_metadata \<Rightarrow> locker_error + bytes" where
  "encode_metadata m =
    then_ok (validate_metadata m) (\<lambda>_.
    let w = writer_new;
        w = w_array METADATA_FIELDS w;
        w = w_uint METADATA_SCHEMA w;
        w = w_text (lm_original_name m) w;
        w = w_uint (ucast (lm_mode m)) w;
        w = w_int (lm_modified_at_ms m) w;
        encoded = w_uint (lm_original_len m) w
    in if length encoded > MAX_METADATA_BYTES
       then Inl (SectionTooLarge ''metadata'' MAX_METADATA_BYTES) else Inr encoded)"

definition decode_metadata :: "bytes \<Rightarrow> locker_error + locker_metadata" where
  "decode_metadata bs =
    (if length bs > MAX_METADATA_BYTES then Inl (SectionTooLarge ''metadata'' MAX_METADATA_BYTES) else
     then_locker (r_array (reader_new bs)) (\<lambda>(count, r).
     if count \<noteq> METADATA_FIELDS then Inl (MalformedContainer ''metadata shape'') else
     then_locker (r_uint r) (\<lambda>(schema, r).
     if schema \<noteq> METADATA_SCHEMA then Inl (MalformedContainer ''metadata schema'') else
     then_locker (r_text r) (\<lambda>(name, r).
     then_locker (r_uint r) (\<lambda>(mode, r).
     then_ok (or_malformed (u32_try_from mode) ''mode'') (\<lambda>mode.
     then_locker (r_int r) (\<lambda>(modified, r).
     then_locker (r_uint r) (\<lambda>(len, r).
     let m = \<lparr>lm_original_name = name, lm_mode = mode, lm_modified_at_ms = modified,
           lm_original_len = len\<rparr> in
     then_locker (r_finish r) (\<lambda>_.
     then_ok (validate_metadata m) (\<lambda>_.
     then_ok (encode_metadata m) (\<lambda>encoded.
     if encoded \<noteq> bs then Inl (MalformedContainer ''metadata is not canonical'') else Inr m)))))))))))"

definition enc_metadata :: "locker_metadata \<Rightarrow> bytes" where
  "enc_metadata m = enc_array METADATA_FIELDS @ enc_uint METADATA_SCHEMA @ enc_text (lm_original_name m)
    @ enc_uint (ucast (lm_mode m)) @ enc_int (lm_modified_at_ms m) @ enc_uint (lm_original_len m)"

definition metadata_typed :: "locker_metadata \<Rightarrow> bool" where
  "metadata_typed m \<longleftrightarrow> is_str (lm_original_name m) \<and> is_i64 (lm_modified_at_ms m)"

definition metadata_ok :: "locker_metadata \<Rightarrow> bool" where
  "metadata_ok m \<longleftrightarrow> metadata_typed m \<and> validate_metadata m = Inr ()"

lemma length_enc_metadata:
  assumes "metadata_ok m"
  shows "length (enc_metadata m) \<le> 819"
proof -
  have "length (lm_original_name m) \<le> 3 * LOCKER_NAME_UNITS"
    using assms by (intro utf16_len_le)
      (auto simp: metadata_ok_def metadata_typed_def validate_metadata_def split: if_splits)
  then show ?thesis
    using length_enc(1) [of METADATA_FIELDS] length_enc(2) [of METADATA_SCHEMA]
      length_enc(4) [of "lm_original_name m"] length_enc(2) [of "ucast (lm_mode m)"]
      length_enc(3) [of "lm_modified_at_ms m"] length_enc(2) [of "lm_original_len m"]
    by (simp add: enc_metadata_def locker_consts)
qed

lemma encode_metadata_ok:
  assumes "metadata_ok m"
  shows "encode_metadata m = Inr (enc_metadata m)"
proof -
  have "length (enc_metadata m) \<le> MAX_METADATA_BYTES"
    using length_enc_metadata [OF assms] by (simp add: MAX_METADATA_BYTES_def)
  then show ?thesis
    using assms by (simp add: encode_metadata_def metadata_ok_def Let_def writer_new_def w_append enc_metadata_def)
qed

lemma decode_metadata_encode:
  assumes "metadata_ok m"
  shows "decode_metadata (enc_metadata m) = Inr m"
proof -
  have l: "length (enc_metadata m) \<le> MAX_METADATA_BYTES" "slice_ok (enc_metadata m)"
    using length_enc_metadata [OF assms] section_slice_ok [of "enc_metadata m"] by (simp_all add: locker_consts)
  then show ?thesis
    using l assms encode_metadata_ok [OF assms]
    by (cases m) (simp add: decode_metadata_def Let_def reader_new_at metadata_ok_def metadata_typed_def
        enc_metadata_def codec)
qed

lemma decode_metadata_sound:
  assumes "decode_metadata bs = Inr m"
  shows "bs = enc_metadata m \<and> metadata_ok m"
proof -
  from assms have m: "metadata_ok m" and e: "encode_metadata m = Inr bs"
    by (auto simp: decode_metadata_def Let_def metadata_ok_def metadata_typed_def reader_new_at then_ok_eq_Inr
        then_locker_eq_Inr split: if_splits dest!: r_strict)
  with encode_metadata_ok [OF m] show ?thesis by simp
qed

lemma decode_metadata_iff: "decode_metadata bs = Inr m \<longleftrightarrow> bs = enc_metadata m \<and> metadata_ok m"
  using decode_metadata_sound decode_metadata_encode by blast

subsection \<open>The restored name\<close>

definition to_ascii_uppercase :: "string \<Rightarrow> string" where
  "to_ascii_uppercase s =
    map (\<lambda>c. if 97 \<le> (of_char c :: nat) \<and> (of_char c :: nat) \<le> 122 then char_of (of_char c - 32 :: nat) else c) s"

text \<open>\<open>&s[..n]\<close>: cutting a scalar value in two panics.\<close>

definition str_prefix :: "nat \<Rightarrow> string \<Rightarrow> string option" where
  "str_prefix n s =
    (if n = length s \<or> n < length s \<and> \<not> continuation (word_of_nat (of_char (s ! n)))
     then Some (take n s) else None)"

definition is_control :: "nat \<Rightarrow> bool" where
  "is_control c \<longleftrightarrow> c < 0x20 \<or> 0x7F \<le> c \<and> c \<le> 0x9F"

text \<open>\<open>None\<close> is the panic of the slice.\<close>

definition reserved_stem :: "string \<Rightarrow> bool option" where
  "reserved_stem stem =
    (if to_ascii_uppercase stem \<in> {''CON'', ''PRN'', ''AUX'', ''NUL''} then Some True
     else if length stem = 4 then
       (case str_prefix 3 (to_ascii_uppercase stem) of
          None \<Rightarrow> None
        | Some p \<Rightarrow> Some (p \<in> {''COM'', ''LPT''} \<and> is_digit (stem ! 3)))
     else Some False)"

definition FORBIDDEN_CHARS :: "nat set" where
  "FORBIDDEN_CHARS = set (map of_char [CHR ''/'', CHR 0x5C, CHR '':'', CHR ''*'', CHR ''?'', CHR 0x22,
    CHR ''<'', CHR ''>'', CHR ''|''])"

definition safe_file_name :: "locker_metadata \<Rightarrow> locker_error + string" where
  "safe_file_name m =
    (let name = lm_original_name m;
         stem = takeWhile (\<lambda>c. c \<noteq> CHR ''.'') name
     in case reserved_stem stem of
          None \<Rightarrow> Inl Panicked
        | Some reserved \<Rightarrow>
            if name = [] \<or> name = ''.'' \<or> name = ''..'' \<or> reserved
              \<or> last name = CHR '' '' \<or> last name = CHR ''.''
              \<or> list_ex (\<lambda>c. c \<in> FORBIDDEN_CHARS \<or> is_control c) (chars name)
            then Inl UnsafeName else Inr name)"

lemma safe_file_name_Inr: "safe_file_name m = Inr n \<Longrightarrow> n = lm_original_name m \<and> n \<noteq> []"
  by (auto simp: safe_file_name_def Let_def split: option.splits if_splits)

lemma utf8_chars_slash:
  "utf8_chars bs = Some cs \<Longrightarrow> b \<in> set bs \<Longrightarrow> unat b < 128 \<Longrightarrow> unat b \<in> set cs"
proof (induction bs arbitrary: cs rule: utf8_chars.induct)
  case 1
  then show ?case by simp
next
  case (2 a bs)
  then obtain c r cs' where n: "utf8_next (a # bs) = Some (c, r)"
    and r: "utf8_chars r = Some cs'" and cs: "cs = c # cs'"
    by (auto split: option.splits simp del: utf8_next.simps)
  have "b \<in> set r \<or> unat b = c"
    using n "2.prems"(2,3)
    by (auto simp: Let_def continuation_def split: if_splits list.splits)
  with "2.IH" [OF n refl r] "2.prems"(3) cs show ?case by auto
qed

text \<open>A name that is accepted has no separator in it, so joining it to a directory stays there.\<close>

lemma safe_file_name_no_separator:
  assumes "is_str (lm_original_name m)" and "safe_file_name m = Inr n"
  shows "CHR ''/'' \<notin> set n \<and> n \<noteq> ''.'' \<and> n \<noteq> ''..''"
proof -
  from safe_file_name_Inr [OF assms(2)] have n: "n = lm_original_name m" by simp
  have bad: "\<not> list_ex (\<lambda>c. c \<in> FORBIDDEN_CHARS \<or> is_control c) (chars n)" and dots: "n \<noteq> ''.''" "n \<noteq> ''..''"
    using assms(2) n by (auto simp: safe_file_name_def Let_def split: option.splits if_splits)
  obtain cs where cs: "utf8_chars (as_bytes n) = Some cs" using assms(1) n by (auto simp: is_str_def)
  have "CHR ''/'' \<notin> set n"
  proof
    assume "CHR ''/'' \<in> set n"
    then have "word_of_nat (of_char CHR ''/'') \<in> set (as_bytes n)" by (force simp: as_bytes_def)
    from utf8_chars_slash [OF cs this] have "47 \<in> set (chars n)" by (simp add: chars_def cs)
    with bad show False by (auto simp: list_ex_iff FORBIDDEN_CHARS_def)
  qed
  with dots show ?thesis by simp
qed

text \<open>
  A name of a file that exists may be refused, and the slice may panic: a device name with an
  extension, and a stem of four bytes whose last character is two bytes long.
\<close>

lemma reserved_examples:
  "reserved_stem ''aux'' = Some True"
  "reserved_stem [CHR ''c'', CHR ''h'', CHR 0xC3, CHR 0xA1] = None"
  by code_simp+

lemma safe_file_name_device: "safe_file_name \<lparr>lm_original_name = ''aux.c'', lm_mode = md,
    lm_modified_at_ms = t, lm_original_len = l\<rparr> = Inl UnsafeName"
  by (simp add: safe_file_name_def reserved_examples)

definition cha_txt :: string where
  "cha_txt = [CHR ''c'', CHR ''h'', CHR 0xC3, CHR 0xA1] @ ''.txt''"

lemma cha_txt_str: "is_str cha_txt"
  by code_simp

lemma safe_file_name_panics: "safe_file_name \<lparr>lm_original_name = cha_txt, lm_mode = md,
    lm_modified_at_ms = t, lm_original_len = l\<rparr> = Inl Panicked"
  by (simp add: safe_file_name_def cha_txt_def reserved_examples)

end
