(* ===== verification/Locker_Keys.thy ===== *)
theory Locker_Keys
  imports Locker_Format
begin

text \<open>
  The keys of a container: the derived keys and the sealing of chunks, metadata and wrapped
  keys (\<open>phone-auth-locker/src/secret.rs\<close>, \<open>stream.rs\<close>), and the recovery code and wrapper
  (\<open>recovery.rs\<close>). A data key is its 32 bytes.
\<close>

definition LOCKER_KEY_LEN :: nat where "LOCKER_KEY_LEN = 32"

definition dek_from_slice :: "bytes \<Rightarrow> bytes option" where
  "dek_from_slice bs = (if length bs = LOCKER_KEY_LEN then Some bs else None)"

text \<open>\<open>derive(ikm, salt, info)\<close>.\<close>

definition locker_derive :: "locker_crypto \<Rightarrow> bytes \<Rightarrow> bytes \<Rightarrow> bytes \<Rightarrow> bytes" where
  "locker_derive lc ikm salt info = lc_hkdf lc ikm salt info"

record container_cipher =
  cc_content :: bytes
  cc_metadata :: bytes
  cc_header :: core_header
  cc_binding :: bytes

definition cipher_new :: "locker_crypto \<Rightarrow> bytes \<Rightarrow> core_header \<Rightarrow> bytes \<Rightarrow> container_cipher" where
  "cipher_new lc dek header binding =
    \<lparr>cc_content = locker_derive lc dek (co_content_salt header) CONTENT_INFO,
     cc_metadata = locker_derive lc dek (co_content_salt header) METADATA_INFO,
     cc_header = header, cc_binding = binding\<rparr>"

definition seal_chunk :: "locker_crypto \<Rightarrow> container_cipher \<Rightarrow> u64 \<Rightarrow> bool \<Rightarrow> bytes \<Rightarrow> bytes" where
  "seal_chunk lc c index last_chunk buffer =
    lc_encrypt lc (cc_content c) (chunk_nonce (cc_header c) index last_chunk) (cc_binding c) buffer"

definition or_corrupt :: "'a option \<Rightarrow> locker_error + 'a" where
  "or_corrupt x = (case x of None \<Rightarrow> Inl Corrupt | Some y \<Rightarrow> Inr y)"

definition open_chunk :: "locker_crypto \<Rightarrow> container_cipher \<Rightarrow> u64 \<Rightarrow> bool \<Rightarrow> bytes \<Rightarrow> locker_error + bytes" where
  "open_chunk lc c index last_chunk buffer =
    or_corrupt (lc_decrypt lc (cc_content c) (chunk_nonce (cc_header c) index last_chunk) (cc_binding c) buffer)"

definition seal_metadata :: "locker_crypto \<Rightarrow> container_cipher \<Rightarrow> bytes \<Rightarrow> bytes" where
  "seal_metadata lc c plaintext =
    lc_encrypt lc (cc_metadata c) (metadata_nonce (cc_header c)) (cc_binding c) plaintext"

definition open_metadata :: "locker_crypto \<Rightarrow> container_cipher \<Rightarrow> bytes \<Rightarrow> locker_error + bytes" where
  "open_metadata lc c ciphertext =
    or_corrupt (lc_decrypt lc (cc_metadata c) (metadata_nonce (cc_header c)) (cc_binding c) ciphertext)"

definition seal_key :: "locker_crypto \<Rightarrow> bytes \<Rightarrow> bytes \<Rightarrow> bytes \<Rightarrow> bytes \<Rightarrow> bytes" where
  "seal_key lc wrapping_key n aad dek = lc_encrypt lc wrapping_key n aad dek"

definition open_key :: "locker_crypto \<Rightarrow> bytes \<Rightarrow> bytes \<Rightarrow> bytes \<Rightarrow> bytes \<Rightarrow> locker_error + bytes" where
  "open_key lc wrapping_key n aad ciphertext =
    then_ok (or_corrupt (lc_decrypt lc wrapping_key n aad ciphertext)) (\<lambda>buffer.
    or_corrupt (dek_from_slice buffer))"

lemma or_corrupt_eq [simp]:
  "or_corrupt x = Inr y \<longleftrightarrow> x = Some y"
  "or_corrupt x = Inl e \<longleftrightarrow> x = None \<and> e = Corrupt"
  by (auto simp: or_corrupt_def split: option.split)

text \<open>What opens is what was sealed, at the same place of the same container.\<close>

lemma open_chunk_iff:
  "locker_crypto_ok lc \<Longrightarrow> open_chunk lc c i a b = Inr m \<longleftrightarrow> b = seal_chunk lc c i a m"
  by (simp add: open_chunk_def seal_chunk_def locker_crypto_ok_def)

lemma open_metadata_iff:
  "locker_crypto_ok lc \<Longrightarrow> open_metadata lc c b = Inr m \<longleftrightarrow> b = seal_metadata lc c m"
  by (simp add: open_metadata_def seal_metadata_def locker_crypto_ok_def)

lemma open_key_iff:
  "locker_crypto_ok lc \<Longrightarrow> open_key lc k n a b = Inr dek \<longleftrightarrow>
    b = seal_key lc k n a dek \<and> length dek = LOCKER_KEY_LEN"
  by (auto simp: open_key_def seal_key_def locker_crypto_ok_def then_ok_eq_Inr dek_from_slice_def split: if_splits)

lemma length_sealed:
  assumes "locker_crypto_ok lc"
  shows "length (seal_chunk lc c i a m) = length m + TAG_LEN" "length (seal_metadata lc c m) = length m + TAG_LEN"
    "length (seal_key lc k n d m) = length m + TAG_LEN"
  using assms by (simp_all add: seal_chunk_def seal_metadata_def seal_key_def locker_crypto_ok_def)

subsection \<open>The recovery code\<close>

definition RECOVERY_ALPHABET :: string where
  "RECOVERY_ALPHABET = ''ABCDEFGHIJKLMNOPQRSTUVWXYZ234567''"

definition RECOVERY_PREFIX :: string where "RECOVERY_PREFIX = ''BAL1''"
definition RECOVERY_GROUP :: nat where "RECOVERY_GROUP = 4"

text \<open>The text so far and the number of digits written.\<close>

type_synonym code_state = "string \<times> nat"

definition push_digit :: "nat \<Rightarrow> code_state \<Rightarrow> code_state" where
  "push_digit index st =
    (case st of (code, written) \<Rightarrow>
      let code = (if written mod RECOVERY_GROUP = 0 then code @ ''-'' else code)
      in (code @ [RECOVERY_ALPHABET ! index], written + 1))"

text \<open>\<open>(accumulator >> bits) as usize & 31\<close>.\<close>

definition low5 :: "u32 \<Rightarrow> nat" where "low5 w = unat w AND 31"

function emit_digits :: "u32 \<Rightarrow> nat \<Rightarrow> code_state \<Rightarrow> nat \<times> code_state" where
  "emit_digits acc bits st =
    (if bits \<ge> 5 then emit_digits acc (bits - 5) (push_digit (low5 (drop_bit (bits - 5) acc)) st)
     else (bits, st))"
  by pat_completeness auto
termination
  by (relation "measure (\<lambda>(acc, bits, st). bits)") auto

declare emit_digits.simps [simp del]

fun format_loop :: "bytes \<Rightarrow> u32 \<Rightarrow> nat \<Rightarrow> code_state \<Rightarrow> u32 \<times> nat \<times> code_state" where
  "format_loop [] acc bits st = (acc, bits, st)"
| "format_loop (b # bs) acc bits st =
    (let acc = push_bit 8 acc OR ucast b;
         (bits, st) = emit_digits acc (bits + 8) st
     in format_loop bs acc bits st)"

definition format_recovery_code :: "bytes \<Rightarrow> string" where
  "format_recovery_code key =
    (let (acc, bits, st) = format_loop key 0 0 (RECOVERY_PREFIX, 0);
         st = (if bits > 0 then push_digit (low5 (push_bit (5 - bits) acc)) st else st)
     in fst st)"

text \<open>\<open>chars().filter(P).collect()\<close> on the bytes of a string.\<close>

function filter_chars :: "(nat \<Rightarrow> bool) \<Rightarrow> bytes \<Rightarrow> bytes" where
  "filter_chars P [] = []"
| "filter_chars P (b # bs) =
    (case utf8_next (b # bs) of
       None \<Rightarrow> []
     | Some (c, r) \<Rightarrow>
         (if P c then take (length (b # bs) - length r) (b # bs) else []) @ filter_chars P r)"
  by pat_completeness auto
termination
  by (relation "measure (\<lambda>(P, bs). length bs)") (auto dest: utf8_next_size(1) simp del: utf8_next.simps)

definition kept_in_code :: "nat \<Rightarrow> bool" where
  "kept_in_code c \<longleftrightarrow> \<not> is_whitespace c \<and> c \<noteq> of_char CHR ''-'' \<and> c \<noteq> of_char CHR ''_''"

definition cleaned_code :: "string \<Rightarrow> string" where
  "cleaned_code code = to_ascii_uppercase (bytes_string (filter_chars kept_in_code (as_bytes code)))"

fun position_of :: "char \<Rightarrow> string \<Rightarrow> nat option" where
  "position_of c [] = None"
| "position_of c (x # xs) = (if x = c then Some 0 else map_option Suc (position_of c xs))"

fun parse_code_loop :: "string \<Rightarrow> u32 \<Rightarrow> nat \<Rightarrow> bytes \<Rightarrow> locker_error + (u32 \<times> nat \<times> bytes)" where
  "parse_code_loop [] acc bits out = Inr (acc, bits, out)"
| "parse_code_loop (c # cs) acc bits out =
    (case position_of c RECOVERY_ALPHABET of
       None \<Rightarrow> Inl BadRecoveryCode
     | Some v \<Rightarrow>
         let acc = push_bit 5 acc OR word_of_nat v;
             bits = bits + 5
         in if bits \<ge> 8 then parse_code_loop cs acc (bits - 8) (out @ [ucast (drop_bit (bits - 8) acc)])
            else parse_code_loop cs acc bits out)"

definition parse_recovery_code :: "string \<Rightarrow> locker_error + bytes" where
  "parse_recovery_code code =
    (case strip_prefix (cleaned_code code) RECOVERY_PREFIX of
       None \<Rightarrow> Inl BadRecoveryCode
     | Some body \<Rightarrow>
         if length body \<noteq> 52 then Inl BadRecoveryCode else
         then_ok (parse_code_loop body 0 0 []) (\<lambda>(acc, bits, out).
         if length out \<noteq> LOCKER_KEY_LEN \<or> acc AND (push_bit bits 1 - 1) \<noteq> 0 then Inl BadRecoveryCode
         else Inr out))"

subsection \<open>The recovery wrapper\<close>

text \<open>The 44 random bytes are an argument.\<close>

definition recovery_wrap_with :: "locker_crypto \<Rightarrow> bytes \<Rightarrow> bytes \<Rightarrow> bytes \<Rightarrow> bytes \<Rightarrow> wrapper" where
  "recovery_wrap_with lc random dek binding key =
    (let salt = take SALT_LEN random; n = drop SALT_LEN random;
         wrapping = locker_derive lc key salt RECOVERY_INFO;
         ciphertext = seal_key lc wrapping n (wrapper_aad lc binding RecoveryWrapper []) dek
     in \<lparr>wr_kind = RecoveryWrapper, wr_id = [], wr_salt = salt, wr_nonce = n, wr_ciphertext = ciphertext\<rparr>)"

definition recovery_wrap :: "locker_crypto \<Rightarrow> bytes \<Rightarrow> bytes \<Rightarrow> bytes \<Rightarrow> bytes \<Rightarrow> wrapper \<times> bytes" where
  "recovery_wrap lc key random dek binding = (recovery_wrap_with lc random dek binding key, key)"

definition recovery_unwrap :: "locker_crypto \<Rightarrow> wrapper \<Rightarrow> bytes \<Rightarrow> bytes \<Rightarrow> locker_error + bytes" where
  "recovery_unwrap lc w key binding =
    (if wr_kind w \<noteq> RecoveryWrapper then Inl (NoWrapper RecoveryWrapper) else
     let wrapping = locker_derive lc key (wr_salt w) RECOVERY_INFO in
     if length (wr_nonce w) \<noteq> NONCE_LEN then Inl (MalformedContainer ''recovery nonce'') else
     open_key lc wrapping (wr_nonce w) (wrapper_aad lc binding RecoveryWrapper (wr_id w)) (wr_ciphertext w))"

lemma recovery_unwrap_wrap:
  assumes "locker_crypto_ok lc" and "length random = SALT_LEN + NONCE_LEN" and "length dek = LOCKER_KEY_LEN"
  shows "recovery_unwrap lc (recovery_wrap_with lc random dek binding key) key binding = Inr dek"
  using assms by (simp add: recovery_unwrap_def recovery_wrap_with_def Let_def open_key_iff)

lemma recovery_wrapper_ok:
  assumes "locker_crypto_ok lc" and "length random = SALT_LEN + NONCE_LEN" and "length dek = LOCKER_KEY_LEN"
  shows "wrapper_ok (recovery_wrap_with lc random dek binding key)"
proof -
  have "length (seal_key lc k n a dek) = 48" for k n a
    using length_sealed(3) [OF assms(1)] assms(3) by (simp add: LOCKER_KEY_LEN_def TAG_LEN_def)
  then show ?thesis
    using assms(2) by (auto simp: wrapper_ok_def validate_wrapper_def recovery_wrap_with_def Let_def
        is_str_ascii ascii_def utf16_len_ascii locker_consts length_0_conv [symmetric] simp del: length_0_conv)
qed

subsection \<open>The recovery code says the key, in one way\<close>

text \<open>The low \<open>n\<close> bits of a number, the highest first.\<close>

definition bits_of :: "nat \<Rightarrow> 'a :: semiring_bit_operations \<Rightarrow> bool list" where
  "bits_of n w = map (bit w) (rev [0 ..< n])"

lemma length_bits_of [simp]: "length (bits_of n w) = n"
  by (simp add: bits_of_def)

lemma bits_of_0 [simp]: "bits_of 0 w = []"
  by (simp add: bits_of_def)

lemma nth_bits_of: "i < n \<Longrightarrow> bits_of n w ! i = bit w (n - 1 - i)"
  by (simp add: bits_of_def rev_nth)

lemma bits_of_inject: "bits_of n v = bits_of n w \<longleftrightarrow> (\<forall>i < n. bit v i = bit w i)"
proof -
  have "bits_of n v = bits_of n w \<longleftrightarrow> (\<forall>i \<in> set (rev [0 ..< n]). bit v i = bit w i)"
    by (auto simp: bits_of_def)
  also have "\<dots> \<longleftrightarrow> (\<forall>i < n. bit v i = bit w i)" by auto
  finally show ?thesis .
qed

lemma bits_of_u8_inject: "bits_of 8 (v :: u8) = bits_of 8 w \<longleftrightarrow> v = w"
  by (auto simp: bits_of_inject bit_eq_iff dest: bit_imp_le_length)

lemma bits_of_digit_inject:
  assumes "v < 32" and "w < (32 :: nat)"
  shows "bits_of 5 v = bits_of 5 w \<longleftrightarrow> v = w"
proof
  assume "bits_of 5 v = bits_of 5 w"
  then have "take_bit 5 v = take_bit 5 w" by (auto simp: bits_of_inject bit_eq_iff bit_take_bit_iff)
  with assms show "v = w" by (simp add: take_bit_nat_eq_self)
qed simp

lemma bits_of_split: "k \<le> n \<Longrightarrow> bits_of n w = bits_of (n - k) (drop_bit k w) @ bits_of k w"
  by (rule nth_equalityI) (auto simp: nth_append nth_bits_of bit_drop_bit_eq)

lemma bits_of_append:
  fixes acc :: u32
  assumes "k + n \<le> 32" and "\<And>i. bit b i \<Longrightarrow> i < k"
  shows "bits_of (k + n) (push_bit k acc OR b) = bits_of n acc @ bits_of k b"
proof -
  have "bits_of n (drop_bit k (push_bit k acc OR b)) = bits_of n acc"
    using assms by (fastforce simp: bits_of_inject bit_simps)
  moreover have "bits_of k (push_bit k acc OR b) = bits_of k b"
    by (auto simp: bits_of_inject bit_simps)
  ultimately show ?thesis using bits_of_split [of k "k + n" "push_bit k acc OR b"] by simp
qed

lemma low5_eq: "low5 w = take_bit 5 (unat w)"
proof -
  have "(31 :: nat) = mask 5" by (simp add: mask_eq_exp_minus_1)
  then show ?thesis by (simp add: low5_def take_bit_eq_mask)
qed

lemma bits_of_low5: "bits_of 5 (low5 w) = bits_of 5 w"
  by (auto simp: bits_of_inject low5_eq bit_simps)

lemma low5_less: "low5 w < 32"
  by (simp add: low5_eq take_bit_eq_mod)

definition bits5 :: "nat list \<Rightarrow> bool list" where "bits5 ds = concat (map (bits_of 5) ds)"
definition bits8 :: "bytes \<Rightarrow> bool list" where "bits8 bs = concat (map (bits_of 8) bs)"
definition digits_ok :: "nat list \<Rightarrow> bool" where "digits_ok ds \<longleftrightarrow> (\<forall>d \<in> set ds. d < 32)"

lemma bits_simps [simp]:
  "bits5 [] = []" "bits5 (ds @ es) = bits5 ds @ bits5 es" "bits5 (d # ds) = bits_of 5 d @ bits5 ds"
  "bits8 [] = []" "bits8 (bs @ cs) = bits8 bs @ bits8 cs" "bits8 (b # bs) = bits_of 8 b @ bits8 bs"
  "digits_ok []" "digits_ok (d # ds) \<longleftrightarrow> d < 32 \<and> digits_ok ds"
  "digits_ok (ds @ es) \<longleftrightarrow> digits_ok ds \<and> digits_ok es"
  by (auto simp: bits5_def bits8_def digits_ok_def)

lemma length_bits5 [simp]: "length (bits5 ds) = 5 * length ds"
  by (induction ds) simp_all

lemma length_bits8 [simp]: "length (bits8 bs) = 8 * length bs"
  by (induction bs) simp_all

lemma bits8_inject: "length bs = length cs \<Longrightarrow> bits8 bs @ x = bits8 cs @ y \<longleftrightarrow> bs = cs \<and> x = y"
  by (induction bs cs rule: list_induct2) (auto simp: bits_of_u8_inject)

lemma bits5_inject:
  "length ds = length es \<Longrightarrow> digits_ok ds \<Longrightarrow> digits_ok es \<Longrightarrow> bits5 ds = bits5 es \<longleftrightarrow> ds = es"
  by (induction ds es rule: list_induct2) (auto simp: bits_of_digit_inject)

lemma bits_of_byte_ucast: "bits_of 8 (ucast (b :: u8) :: u32) = bits_of 8 b"
  by (auto simp: bits_of_inject bit_simps)

lemma bits_of_word_byte: "bits_of 8 (ucast (w :: u32) :: u8) = bits_of 8 w"
  by (auto simp: bits_of_inject bit_simps)

lemma bits_of_word_digit: "d < 32 \<Longrightarrow> bits_of 5 (word_of_nat d :: u32) = bits_of 5 d"
  by (auto simp: bits_of_inject bit_simps)

text \<open>The digits a key is written with, and the text they make.\<close>

definition code_text :: "nat list \<Rightarrow> string" where
  "code_text ds = fst (fold push_digit ds (RECOVERY_PREFIX, 0))"

lemma emit_digits_bits:
  assumes "emit_digits acc bits st = (bits', st')" and "bits \<le> 32"
  shows "\<exists>ds. bits' < 5 \<and> st' = fold push_digit ds st \<and> digits_ok ds
    \<and> bits_of bits acc = bits5 ds @ bits_of bits' acc"
  using assms
proof (induction acc bits st rule: emit_digits.induct)
  case (1 acc bits st)
  show ?case
  proof (cases "bits \<ge> 5")
    case True
    let ?d = "low5 (drop_bit (bits - 5) acc)"
    from True "1.prems" have "emit_digits acc (bits - 5) (push_digit ?d st) = (bits', st')"
      by (subst (asm) emit_digits.simps) simp
    moreover have "bits - 5 \<le> 32" using "1.prems"(2) by simp
    ultimately obtain ds where ds: "bits' < 5"
      "st' = fold push_digit ds (push_digit ?d st)" "digits_ok ds"
      "bits_of (bits - 5) acc = bits5 ds @ bits_of bits' acc" using "1.IH" [OF True] by blast
    have "bits_of bits acc = bits_of 5 ?d @ bits_of (bits - 5) acc"
      using bits_of_split [of "bits - 5" bits acc] True by (simp add: bits_of_low5)
    with ds show ?thesis by (intro exI [of _ "?d # ds"]) (simp add: low5_less)
  next
    case False
    with "1.prems" show ?thesis by (intro exI [of _ "[]"]) (simp add: emit_digits.simps [of acc])
  qed
qed

lemma format_loop_bits:
  assumes "format_loop bs acc bits st = (acc', bits', st')" and "bits < 5"
  shows "\<exists>ds. bits' < 5 \<and> st' = fold push_digit ds st \<and> digits_ok ds
    \<and> bits_of bits acc @ bits8 bs = bits5 ds @ bits_of bits' acc'"
  using assms
proof (induction bs arbitrary: acc bits st)
  case Nil
  then show ?case by (intro exI [of _ "[]"]) simp
next
  case (Cons b bs)
  let ?a = "push_bit 8 acc OR ucast b :: u32"
  obtain n s where e: "emit_digits ?a (bits + 8) st = (n, s)" by (cases "emit_digits ?a (bits + 8) st")
  from emit_digits_bits [OF e] Cons.prems(2) obtain ds where ds: "n < 5" "s = fold push_digit ds st" "digits_ok ds"
    "bits_of (bits + 8) ?a = bits5 ds @ bits_of n ?a" by auto
  from Cons.prems(1) e have "format_loop bs ?a n s = (acc', bits', st')" by (simp add: Let_def)
  from Cons.IH [OF this ds(1)] obtain es where es: "bits' < 5" "st' = fold push_digit es s" "digits_ok es"
    "bits_of n ?a @ bits8 bs = bits5 es @ bits_of bits' acc'" by auto
  have "bits_of (8 + bits) ?a = bits_of bits acc @ bits_of 8 b"
  proof -
    have "i < 8" if "bit (ucast b :: u32) i" for i using that by (auto simp: bit_simps dest: bit_imp_le_length)
    then show ?thesis
      using bits_of_append [of 8 bits "ucast b" acc] Cons.prems(2) by (simp add: bits_of_byte_ucast)
  qed
  with ds(4) have "bits_of bits acc @ bits_of 8 b = bits5 ds @ bits_of n ?a" by (simp add: add.commute)
  from arg_cong [OF this, of "\<lambda>x. x @ bits8 bs"] es(4)
  have "bits_of bits acc @ bits8 (b # bs) = bits5 (ds @ es) @ bits_of bits' acc'" by simp
  with ds es show ?case by (intro exI [of _ "ds @ es"]) simp
qed

lemma format_recovery_code_text:
  assumes "length key = LOCKER_KEY_LEN"
  shows "\<exists>ds. format_recovery_code key = code_text ds \<and> length ds = 52 \<and> digits_ok ds
    \<and> bits5 ds = bits8 key @ replicate 4 False"
proof -
  obtain acc bits st where f: "format_loop key 0 0 (RECOVERY_PREFIX, 0) = (acc, bits, st)"
    by (metis prod.collapse)
  from format_loop_bits [OF f] obtain ds where ds: "bits < 5" "st = fold push_digit ds (RECOVERY_PREFIX, 0)"
    "digits_ok ds" "bits8 key = bits5 ds @ bits_of bits acc" by auto
  have "256 = 5 * length ds + bits"
    using arg_cong [OF ds(4), of length] assms by (simp add: LOCKER_KEY_LEN_def)
  with ds(1) have n: "bits = 1" "length ds = 51" by presburger+
  let ?d = "low5 (push_bit 4 acc)"
  have "bits_of 5 ?d = bits_of 5 (push_bit 4 acc)" by (rule bits_of_low5)
  also have "\<dots> = bits_of 1 acc @ bits_of 4 (0 :: u32)" using bits_of_append [of 4 1 0 acc] by simp
  also have "bits_of 4 (0 :: u32) = replicate 4 False" by (simp add: bits_of_def numeral_eq_Suc)
  finally have d: "bits_of 5 ?d = bits_of 1 acc @ replicate 4 False" .
  with ds n f show ?thesis
    by (intro exI [of _ "ds @ [?d]"])
      (simp add: format_recovery_code_def code_text_def low5_less)
qed

text \<open>Reading a code.\<close>

lemma position_of_Some: "position_of c xs = Some v \<Longrightarrow> v < length xs \<and> xs ! v = c"
  by (induction xs arbitrary: v) (auto split: if_splits)

lemma position_of_digit: "d < 32 \<Longrightarrow> position_of (RECOVERY_ALPHABET ! d) RECOVERY_ALPHABET = Some d"
proof -
  have "list_all (\<lambda>d. position_of (RECOVERY_ALPHABET ! d) RECOVERY_ALPHABET = Some d) [0 ..< 32]" by code_simp
  moreover assume "d < 32"
  ultimately show ?thesis by (simp add: list_all_iff)
qed

definition code_digits :: "nat list \<Rightarrow> string" where
  "code_digits ds = map (\<lambda>d. RECOVERY_ALPHABET ! d) ds"

lemma length_alphabet [simp]: "length RECOVERY_ALPHABET = 32"
  by (simp add: RECOVERY_ALPHABET_def)

lemma parse_code_loop_digits:
  "parse_code_loop s acc bits out = Inr (acc', bits', out') \<Longrightarrow> \<exists>ds. s = code_digits ds \<and> digits_ok ds"
proof (induction s acc bits out rule: parse_code_loop.induct)
  case (1 acc bits out)
  then show ?case by (intro exI [of _ "[]"]) (simp add: code_digits_def)
next
  case (2 c cs acc bits out)
  then obtain v where v: "position_of c RECOVERY_ALPHABET = Some v" by (auto split: option.splits)
  with 2 obtain ds where "cs = code_digits ds" "digits_ok ds"
    by (simp add: Let_def split: if_splits) blast+
  with position_of_Some [OF v] show ?case by (intro exI [of _ "v # ds"]) (simp add: code_digits_def)
qed

lemma parse_code_loop_bits:
  assumes "digits_ok ds" and "bits < 8"
  shows "\<exists>acc' bits' out'. parse_code_loop (code_digits ds) acc bits out = Inr (acc', bits', out') \<and> bits' < 8
    \<and> bits8 out' @ bits_of bits' acc' = bits8 out @ bits_of bits acc @ bits5 ds"
  using assms
proof (induction ds arbitrary: acc bits out)
  case Nil
  then show ?case by (simp add: code_digits_def)
next
  case (Cons d ds)
  let ?a = "push_bit 5 acc OR word_of_nat d :: u32"
  from Cons.prems have d: "d < 32" and ds: "digits_ok ds" by simp_all
  have "i < 5" if "bit (word_of_nat d :: u32) i" for i
  proof -
    have "take_bit 5 d = d" using d by (simp add: take_bit_nat_eq_self)
    then have "bit (take_bit 5 d) i" using that by (simp add: bit_simps)
    then show ?thesis by (simp add: bit_simps)
  qed
  then have step: "bits_of (bits + 5) ?a = bits_of bits acc @ bits_of 5 d"
    using bits_of_append [of 5 bits "word_of_nat d" acc] Cons.prems(2) d
    by (simp add: bits_of_word_digit add.commute)
  show ?case
  proof (cases "bits + 5 \<ge> 8")
    case True
    let ?b = "ucast (drop_bit (bits - 3) ?a) :: u8"
    have "bits_of (bits + 5) ?a = bits_of 8 ?b @ bits_of (bits - 3) ?a"
      using bits_of_split [of "bits - 3" "bits + 5" ?a] True by (simp add: bits_of_word_byte)
    with step have e: "bits_of bits acc @ bits_of 5 d = bits_of 8 ?b @ bits_of (bits - 3) ?a" by simp
    have "bits - 3 < 8" using Cons.prems(2) by simp
    from Cons.IH [OF ds this, of ?a "out @ [?b]"] obtain acc' bits' out' where
      r: "parse_code_loop (code_digits ds) ?a (bits - 3) (out @ [?b]) = Inr (acc', bits', out')" "bits' < 8"
        "bits8 out' @ bits_of bits' acc' = bits8 (out @ [?b]) @ bits_of (bits - 3) ?a @ bits5 ds" by blast
    then have "bits8 out' @ bits_of bits' acc' = bits8 out @ (bits_of bits acc @ bits_of 5 d) @ bits5 ds"
      unfolding e by simp
    with r True d show ?thesis
      by (simp add: code_digits_def position_of_digit Let_def)
  next
    case False
    then have "bits + 5 < 8" by simp
    from Cons.IH [OF ds this, of ?a out] step False d show ?thesis
      by (simp add: code_digits_def position_of_digit Let_def)
  qed
qed

lemma parse_code_body:
  assumes "digits_ok ds" and "length ds = 52" and "length key = LOCKER_KEY_LEN"
  shows "then_ok (parse_code_loop (code_digits ds) 0 0 []) (\<lambda>(acc, bits, out).
      if length out \<noteq> LOCKER_KEY_LEN \<or> acc AND (push_bit bits 1 - 1) \<noteq> 0 then Inl BadRecoveryCode else Inr out)
    = Inr key \<longleftrightarrow> bits5 ds = bits8 key @ replicate 4 False"
proof -
  obtain acc bits out where p: "parse_code_loop (code_digits ds) 0 0 [] = Inr (acc, bits, out)" "bits < 8"
    "bits8 out @ bits_of bits acc = bits5 ds"
    using parse_code_loop_bits [OF assms(1), of 0 0 "[]"] by auto
  have "8 * length out + bits = 260" using arg_cong [OF p(3), of length] assms(2) by simp
  with p(2) have n: "bits = 4" "length out = 32" by presburger+
  have "acc AND (push_bit bits 1 - 1) = take_bit 4 acc" using n by (simp add: take_bit_eq_mask mask_eq_exp_minus_1)
  moreover have "take_bit 4 acc = 0 \<longleftrightarrow> bits_of 4 acc = bits_of 4 (0 :: u32)"
    by (auto simp: bits_of_inject bit_eq_iff bit_take_bit_iff)
  moreover have "bits_of 4 (0 :: u32) = replicate 4 False" by (simp add: bits_of_def numeral_eq_Suc)
  ultimately show ?thesis
    using p n assms(3) bits8_inject [of out key "bits_of 4 acc" "replicate 4 False"]
    by (auto simp: LOCKER_KEY_LEN_def)
qed

text \<open>The text of a code, cleaned.\<close>

lemma filter_chars_ascii:
  "ascii s \<Longrightarrow> filter_chars P (as_bytes s) = as_bytes (filter (\<lambda>c. P (of_char c)) s)"
proof (induction s)
  case Nil
  then show ?case by simp
next
  case (Cons c s)
  then have "utf8_next (as_bytes (c # s)) = Some (of_char c, as_bytes s)"
    by (simp add: ascii_def unat_of_nat)
  with Cons show ?case by (simp add: ascii_def del: utf8_next.simps)
qed

definition CODE_CHARS :: string where "CODE_CHARS = ''-BAL1'' @ RECOVERY_ALPHABET"

lemma code_chars:
  assumes "c \<in> set CODE_CHARS"
  shows "(of_char c :: nat) < 128" and "kept_in_code (of_char c) \<longleftrightarrow> c \<noteq> CHR ''-''" and "to_ascii_uppercase [c] = [c]"
proof -
  have "list_all (\<lambda>c. (of_char c :: nat) < 128 \<and> (kept_in_code (of_char c) \<longleftrightarrow> c \<noteq> CHR ''-'')
      \<and> to_ascii_uppercase [c] = [c]) CODE_CHARS"
    by (simp add: CODE_CHARS_def RECOVERY_ALPHABET_def kept_in_code_def is_whitespace_def to_ascii_uppercase_def)
  with assms show "(of_char c :: nat) < 128" and "kept_in_code (of_char c) \<longleftrightarrow> c \<noteq> CHR ''-''"
    and "to_ascii_uppercase [c] = [c]" by (auto simp: list_all_iff)
qed

lemma cleaned_code_chars:
  assumes "set s \<subseteq> set CODE_CHARS"
  shows "cleaned_code s = filter (\<lambda>c. c \<noteq> CHR ''-'') s"
proof -
  have "ascii s" using assms code_chars(1) by (auto simp: ascii_def)
  then have "cleaned_code s = to_ascii_uppercase (filter (\<lambda>c. kept_in_code (of_char c)) s)"
    by (simp add: cleaned_code_def filter_chars_ascii)
  also have "filter (\<lambda>c. kept_in_code (of_char c)) s = filter (\<lambda>c. c \<noteq> CHR ''-'') s"
    using assms code_chars(2) by (intro filter_cong) auto
  finally have e: "cleaned_code s = to_ascii_uppercase (filter (\<lambda>c. c \<noteq> CHR ''-'') s)" .
  have up: "to_ascii_uppercase t = t" if "set t \<subseteq> set CODE_CHARS" for t
    using that code_chars(3) by (induction t) (auto simp: to_ascii_uppercase_def)
  have "to_ascii_uppercase (filter (\<lambda>c. c \<noteq> CHR ''-'') s) = filter (\<lambda>c. c \<noteq> CHR ''-'') s"
    by (rule up) (use assms in auto)
  with e show ?thesis by simp
qed

lemma digit_char: "d < 32 \<Longrightarrow> RECOVERY_ALPHABET ! d \<in> set CODE_CHARS \<and> RECOVERY_ALPHABET ! d \<noteq> CHR ''-''"
proof -
  assume "d < 32"
  then have "RECOVERY_ALPHABET ! d \<in> set RECOVERY_ALPHABET" by simp
  moreover have "CHR ''-'' \<notin> set RECOVERY_ALPHABET" by (simp add: RECOVERY_ALPHABET_def)
  ultimately show ?thesis by (auto simp: CODE_CHARS_def)
qed

lemma fold_push_digit:
  "digits_ok ds \<Longrightarrow> set (fst st) \<subseteq> set CODE_CHARS \<Longrightarrow>
    set (fst (fold push_digit ds st)) \<subseteq> set CODE_CHARS
    \<and> filter (\<lambda>c. c \<noteq> CHR ''-'') (fst (fold push_digit ds st))
      = filter (\<lambda>c. c \<noteq> CHR ''-'') (fst st) @ code_digits ds"
proof (induction ds arbitrary: st)
  case Nil
  then show ?case by (simp add: code_digits_def)
next
  case (Cons d ds)
  then have d: "RECOVERY_ALPHABET ! d \<in> set CODE_CHARS" "RECOVERY_ALPHABET ! d \<noteq> CHR ''-''"
    using digit_char by auto
  have dash: "CHR ''-'' \<in> set CODE_CHARS" by (simp add: CODE_CHARS_def)
  have "set (fst (push_digit d st)) \<subseteq> set CODE_CHARS"
    and "filter (\<lambda>c. c \<noteq> CHR ''-'') (fst (push_digit d st))
      = filter (\<lambda>c. c \<noteq> CHR ''-'') (fst st) @ [RECOVERY_ALPHABET ! d]"
    using Cons.prems(2) d dash by (auto simp: push_digit_def Let_def split: prod.splits)
  with Cons.IH [of "push_digit d st"] Cons.prems(1) show ?case by (simp add: code_digits_def)
qed

lemma cleaned_code_text: "digits_ok ds \<Longrightarrow> cleaned_code (code_text ds) = RECOVERY_PREFIX @ code_digits ds"
proof -
  assume "digits_ok ds"
  moreover have "set (fst (RECOVERY_PREFIX, 0 :: nat)) \<subseteq> set CODE_CHARS"
    by (simp add: RECOVERY_PREFIX_def CODE_CHARS_def)
  ultimately show ?thesis
    using fold_push_digit [of ds "(RECOVERY_PREFIX, 0)"] cleaned_code_chars [of "code_text ds"]
    by (simp add: code_text_def) (simp add: RECOVERY_PREFIX_def)
qed

text \<open>A code is read as a key exactly when it is the code of that key, up to case, dashes and
  white space.\<close>

lemma parse_recovery_code_iff:
  "parse_recovery_code code = Inr key \<longleftrightarrow>
    length key = LOCKER_KEY_LEN \<and> cleaned_code code = cleaned_code (format_recovery_code key)"
proof
  assume "length key = LOCKER_KEY_LEN \<and> cleaned_code code = cleaned_code (format_recovery_code key)"
  then have k: "length key = LOCKER_KEY_LEN" and c: "cleaned_code code = cleaned_code (format_recovery_code key)"
    by simp_all
  from format_recovery_code_text [OF k] obtain ds where ds: "format_recovery_code key = code_text ds"
    "length ds = 52" "digits_ok ds" "bits5 ds = bits8 key @ replicate 4 False" by blast
  from parse_code_body [OF ds(3,2) k] ds(4) cleaned_code_text [OF ds(3)] ds(1,2) c
  show "parse_recovery_code code = Inr key"
    by (simp add: parse_recovery_code_def code_digits_def)
next
  assume p: "parse_recovery_code code = Inr key"
  then obtain body where b: "strip_prefix (cleaned_code code) RECOVERY_PREFIX = Some body" "length body = 52"
    and l: "then_ok (parse_code_loop body 0 0 []) (\<lambda>(acc, bits, out).
      if length out \<noteq> LOCKER_KEY_LEN \<or> acc AND (push_bit bits 1 - 1) \<noteq> 0 then Inl BadRecoveryCode
      else Inr out) = Inr key"
    by (auto simp: parse_recovery_code_def split: option.splits if_splits)
  from l have k: "length key = LOCKER_KEY_LEN" by (auto simp: then_ok_eq_Inr split: if_splits)
  from l obtain ds where ds: "body = code_digits ds" "digits_ok ds"
    by (auto simp: then_ok_eq_Inr dest: parse_code_loop_digits)
  with b(2) have n: "length ds = 52" by (simp add: code_digits_def)
  have bits: "bits5 ds = bits8 key @ replicate 4 False"
    using parse_code_body [OF ds(2) n k] l ds(1) by simp
  from format_recovery_code_text [OF k] obtain es where es: "format_recovery_code key = code_text es"
    "length es = 52" "digits_ok es" "bits5 es = bits8 key @ replicate 4 False" by blast
  with bits5_inject [of ds es] bits n ds(2) have "ds = es" by simp
  moreover have "cleaned_code code = RECOVERY_PREFIX @ body"
    using b(1) by (auto simp: strip_prefix_def split: if_splits) (metis append_take_drop_id)
  ultimately show "length key = LOCKER_KEY_LEN \<and> cleaned_code code = cleaned_code (format_recovery_code key)"
    using k es cleaned_code_text [OF es(3)] ds(1) by simp
qed

end
