(* ===== verification/Locker_Disk.thy ===== *)
theory Locker_Disk
  imports Locker_Keys
begin

text \<open>
  The part of \<open>std::fs\<close> the locker uses. Unlike the pairing store, the locker looks at what a
  path is: a regular file, possibly with several names, a symbolic link, a directory, or
  something else. As in \<open>File_System\<close>, a list of faults decides which calls fail, and a failing
  write leaves a prefix behind; a run that stops at a failing call is also the run of a
  process killed there.
\<close>

datatype node = FileNode nat | LinkNode path | DirNode | OtherNode

record inode =
  in_content :: bytes
  in_mode :: u32
  in_modified_ms :: int
  in_links :: nat

text \<open>A link names the place where following it ends.\<close>

record disk =
  dk_nodes :: "path \<Rightarrow> node option"
  dk_inodes :: "nat \<Rightarrow> inode"
  dk_next :: nat
  dk_new_mode :: u32
  dk_faults :: "(io_error \<times> nat) option list"

type_synonym ('e, 'a) dio = "(disk, 'e, 'a) io_on"

definition d_call :: "(io_error \<times> nat \<Rightarrow> disk \<Rightarrow> disk) \<Rightarrow> (io_error, 'a) dio \<Rightarrow> (io_error, 'a) dio" where
  "d_call on_fault act d =
    (case dk_faults d of
       [] \<Rightarrow> act d
     | None # fs \<Rightarrow> act (d\<lparr>dk_faults := fs\<rparr>)
     | Some f # fs \<Rightarrow> (Inl (fst f), on_fault f (d\<lparr>dk_faults := fs\<rparr>)))"

definition follow :: "disk \<Rightarrow> path \<Rightarrow> path" where
  "follow d p = (case dk_nodes d p of Some (LinkNode q) \<Rightarrow> q | _ \<Rightarrow> p)"

subsection \<open>Looking\<close>

record file_stat =
  st_node :: node
  st_len :: u64
  st_mode :: u32
  st_modified_ms :: int
  st_links :: nat

definition stat_of :: "disk \<Rightarrow> node \<Rightarrow> file_stat" where
  "stat_of d n = (case n of
     FileNode i \<Rightarrow> \<lparr>st_node = n, st_len = word_of_nat (length (in_content (dk_inodes d i))),
       st_mode = in_mode (dk_inodes d i), st_modified_ms = in_modified_ms (dk_inodes d i),
       st_links = in_links (dk_inodes d i)\<rparr>
   | _ \<Rightarrow> \<lparr>st_node = n, st_len = 0, st_mode = 0, st_modified_ms = 0, st_links = 1\<rparr>)"

definition d_symlink_metadata :: "path \<Rightarrow> (io_error, file_stat) dio" where
  "d_symlink_metadata p = d_call (\<lambda>_ d. d) (\<lambda>d.
    (case dk_nodes d p of None \<Rightarrow> (Inl NotFound, d) | Some n \<Rightarrow> (Inr (stat_of d n), d)))"

definition d_metadata :: "path \<Rightarrow> (io_error, file_stat) dio" where
  "d_metadata p = d_call (\<lambda>_ d. d) (\<lambda>d.
    (case dk_nodes d (follow d p) of None \<Rightarrow> (Inl NotFound, d) | Some n \<Rightarrow> (Inr (stat_of d n), d)))"

subsection \<open>Reading\<close>

text \<open>An open file and the position in it. A directory opens, but does not read.\<close>

record reader_handle =
  rd_inode :: "nat option"
  rd_pos :: nat

definition d_open :: "path \<Rightarrow> (io_error, reader_handle) dio" where
  "d_open p = d_call (\<lambda>_ d. d) (\<lambda>d.
    (case dk_nodes d (follow d p) of
       Some (FileNode i) \<Rightarrow> (Inr \<lparr>rd_inode = Some i, rd_pos = 0\<rparr>, d)
     | Some DirNode \<Rightarrow> (Inr \<lparr>rd_inode = None, rd_pos = 0\<rparr>, d)
     | Some _ \<Rightarrow> (Inl (OtherIo 6), d)
     | None \<Rightarrow> (Inl NotFound, d)))"

definition unread :: "disk \<Rightarrow> reader_handle \<Rightarrow> bytes" where
  "unread d r = (case rd_inode r of
     None \<Rightarrow> [] | Some i \<Rightarrow> drop (rd_pos r) (in_content (dk_inodes d i)))"

definition d_read_exact :: "nat \<Rightarrow> reader_handle \<Rightarrow> (io_error, bytes \<times> reader_handle) dio" where
  "d_read_exact n r d =
    (if n = 0 then (Inr ([], r), d) else
     d_call (\<lambda>_ d. d) (\<lambda>d.
      (if rd_inode r = None then (Inl (OtherIo 21), d)
       else if n \<le> length (unread d r) then (Inr (take n (unread d r), r\<lparr>rd_pos := rd_pos r + n\<rparr>), d)
       else (Inl UnexpectedEof, d))) d)"

text \<open>\<open>read\<close> into a buffer of one byte: what is read, nothing at the end.\<close>

definition d_read_byte :: "reader_handle \<Rightarrow> (io_error, bytes) dio" where
  "d_read_byte r = d_call (\<lambda>_ d. d) (\<lambda>d.
    (if rd_inode r = None then (Inl (OtherIo 21), d) else (Inr (take 1 (unread d r)), d)))"

text \<open>Everything that is left, as \<open>std::io::copy\<close> reads it.\<close>

definition d_read_rest :: "reader_handle \<Rightarrow> (io_error, bytes) dio" where
  "d_read_rest r = d_call (\<lambda>_ d. d) (\<lambda>d.
    (if rd_inode r = None then (Inl (OtherIo 21), d) else (Inr (unread d r), d)))"

subsection \<open>Changing\<close>

definition put_inode :: "nat \<Rightarrow> inode \<Rightarrow> disk \<Rightarrow> disk" where
  "put_inode i x d = d\<lparr>dk_inodes := (dk_inodes d)(i := x)\<rparr>"

definition unlink_node :: "node option \<Rightarrow> disk \<Rightarrow> disk" where
  "unlink_node n d = (case n of
     Some (FileNode i) \<Rightarrow> put_inode i ((dk_inodes d i)\<lparr>in_links := in_links (dk_inodes d i) - 1\<rparr>) d
   | _ \<Rightarrow> d)"

definition d_create_new :: "path \<Rightarrow> (io_error, nat) dio" where
  "d_create_new p = d_call (\<lambda>_ d. d) (\<lambda>d.
    (case dk_nodes d p of
       Some n \<Rightarrow> (Inl AlreadyExists, d)
     | None \<Rightarrow> (Inr (dk_next d),
         put_inode (dk_next d) \<lparr>in_content = [], in_mode = dk_new_mode d, in_modified_ms = 0, in_links = 1\<rparr>
           (d\<lparr>dk_nodes := (dk_nodes d)(p \<mapsto> FileNode (dk_next d)), dk_next := dk_next d + 1\<rparr>))))"

definition d_append :: "nat \<Rightarrow> bytes \<Rightarrow> disk \<Rightarrow> disk" where
  "d_append i bs d = put_inode i ((dk_inodes d i)\<lparr>in_content := in_content (dk_inodes d i) @ bs\<rparr>) d"

definition d_write_all :: "nat \<Rightarrow> bytes \<Rightarrow> (io_error, unit) dio" where
  "d_write_all i bs = d_call (\<lambda>f d. d_append i (take (snd f) bs) d) (\<lambda>d. (Inr (), d_append i bs d))"

definition d_sync_all :: "nat \<Rightarrow> (io_error, unit) dio" where
  "d_sync_all i = d_call (\<lambda>_ d. d) (\<lambda>d. (Inr (), d))"

definition d_sync_directory :: "path \<Rightarrow> (io_error, unit) dio" where
  "d_sync_directory p = d_call (\<lambda>_ d. d) (\<lambda>d. (Inr (), d))"

text \<open>Renaming one name of a file to another name of the same file does nothing.\<close>

definition d_rename :: "path \<Rightarrow> path \<Rightarrow> (io_error, unit) dio" where
  "d_rename a b = d_call (\<lambda>_ d. d) (\<lambda>d.
    (case dk_nodes d a of
       None \<Rightarrow> (Inl NotFound, d)
     | Some n \<Rightarrow>
         if a = b \<or> (case n of FileNode i \<Rightarrow> dk_nodes d b = Some n | _ \<Rightarrow> False) then (Inr (), d)
         else if dk_nodes d b = Some DirNode then (Inl (OtherIo 21), d)
         else (Inr (), unlink_node (dk_nodes d b)
           (d\<lparr>dk_nodes := (dk_nodes d)(a := None, b \<mapsto> n)\<rparr>))))"

definition d_remove_file :: "path \<Rightarrow> (io_error, unit) dio" where
  "d_remove_file p = d_call (\<lambda>_ d. d) (\<lambda>d.
    (case dk_nodes d p of
       None \<Rightarrow> (Inl NotFound, d)
     | Some DirNode \<Rightarrow> (Inl (OtherIo 21), d)
     | Some n \<Rightarrow> (Inr (), unlink_node (Some n) (d\<lparr>dk_nodes := (dk_nodes d)(p := None)\<rparr>))))"

definition d_set_modified :: "path \<Rightarrow> int \<Rightarrow> (io_error, unit) dio" where
  "d_set_modified p ms = d_call (\<lambda>_ d. d) (\<lambda>d.
    (case dk_nodes d (follow d p) of
       Some (FileNode i) \<Rightarrow> (Inr (), put_inode i ((dk_inodes d i)\<lparr>in_modified_ms := ms\<rparr>) d)
     | _ \<Rightarrow> (Inl NotFound, d)))"

definition d_set_permissions :: "path \<Rightarrow> u32 \<Rightarrow> (io_error, unit) dio" where
  "d_set_permissions p mode = d_call (\<lambda>_ d. d) (\<lambda>d.
    (case dk_nodes d (follow d p) of
       Some (FileNode i) \<Rightarrow> (Inr (), put_inode i ((dk_inodes d i)\<lparr>in_mode := mode\<rparr>) d)
     | _ \<Rightarrow> (Inl NotFound, d)))"

text \<open>\<open>let _ = call;\<close>, and what a value dropped on an error path still does.\<close>

definition io_ignore :: "('w, 'e, 'a) io_on \<Rightarrow> ('w, 'f, unit) io_on" where
  "io_ignore m w = (Inr (), snd (m w))"

definition io_on_error :: "('w, 'e, 'a) io_on \<Rightarrow> ('w, 'f, 'b) io_on \<Rightarrow> ('w, 'e, 'a) io_on" where
  "io_on_error m h w = (case m w of (Inl e, w') \<Rightarrow> (Inl e, snd (h w')) | (Inr x, w') \<Rightarrow> (Inr x, w'))"

text \<open>A step that does no I/O.\<close>

definition io_pure :: "'e + 'a \<Rightarrow> ('w, 'e, 'a) io_on" where
  "io_pure r w = (r, w)"

subsection \<open>Paths\<close>

text \<open>\<open>file_name().and_then(to_str)\<close>, for paths without a trailing slash.\<close>

definition path_file_name :: "path \<Rightarrow> string option" where
  "path_file_name p =
    (let n = file_name p in if n \<in> {[], ''.'', ''..''} \<or> \<not> is_str n then None else Some n)"

end
