(* ===== verification/Locker_Engine.thy ===== *)
theory Locker_Engine
  imports Locker_Disk Encoding
begin

text \<open>
  Locking, unlocking, re-keying and looking at a container: \<open>phone-auth-locker/src/engine.rs\<close>.
  Every operation runs over the disk of \<open>Locker_Disk\<close>; the phone is a pair of computations that
  may look at the disk and change it. Buffered writers only delay writes, so each write is one
  call.
\<close>

type_synonym 'a locker_io = "(disk, locker_error, 'a) io_on"

record wrap_ask =
  wa_binding :: bytes
  wa_dek :: bytes
  wa_file_name :: string
  wa_plaintext_len :: u64

record unwrap_ask =
  ua_binding :: bytes
  ua_wrapper :: wrapper
  ua_container_name :: string
  ua_plaintext_len :: u64

record custodian =
  cu_wrap :: "wrap_ask \<Rightarrow> wrapper locker_io"
  cu_unwrap :: "unwrap_ask \<Rightarrow> bytes locker_io"

datatype unlock_key = PhoneKey custodian | RecoveryKey bytes

record lock_plan =
  lp_destination :: "path option"
  lp_remove_original :: bool

definition lock_plan_default :: lock_plan where
  "lock_plan_default = \<lparr>lp_destination = None, lp_remove_original = True\<rparr>"

record lock_outcome =
  lo_container :: path
  lo_recovery_code :: string
  lo_plaintext_len :: u64
  lo_original_removed :: bool

record unlock_outcome =
  uo_restored :: path
  uo_plaintext_len :: u64
  uo_container_removed :: bool

record locker_info =
  li_container_version :: u8
  li_plaintext_len :: u64
  li_chunk_size :: u32
  li_chunk_count :: u64
  li_wrappers :: "(wrapper_kind \<times> string) list"

text \<open>The random bytes one operation draws, in the order it draws them.\<close>

record locker_random =
  lr_header :: bytes
  lr_dek :: bytes
  lr_recovery_key :: bytes
  lr_recovery :: bytes
  lr_suffix :: bytes

definition locker_call :: "(io_error, 'a) dio \<Rightarrow> 'a locker_io" where
  "locker_call m = io_map_err LockerIo m"

subsection \<open>Checks on paths\<close>

definition sole_regular_file :: "path \<Rightarrow> bool \<Rightarrow> file_stat locker_io" where
  "sole_regular_file p sole_name =
    io_bind (locker_call (d_symlink_metadata p)) (\<lambda>st.
    io_bind (case st_node st of
        LinkNode q \<Rightarrow>
          if sole_name then io_fail (NotARegularFile ''a symbolic link'')
          else locker_call (d_metadata p)
      | _ \<Rightarrow> io_return st) (\<lambda>st.
    (case st_node st of
       DirNode \<Rightarrow> io_fail (NotARegularFile ''a directory'')
     | FileNode i \<Rightarrow> if sole_name \<and> st_links st > 1 then io_fail SharedOriginal else io_return st
     | _ \<Rightarrow> io_fail (NotARegularFile ''not a regular file''))))"

definition ensure_sole_regular_file :: "path \<Rightarrow> bool \<Rightarrow> unit locker_io" where
  "ensure_sole_regular_file p will_be_removed =
    io_bind (sole_regular_file p will_be_removed) (\<lambda>_. io_return ())"

definition occupied :: "path \<Rightarrow> bool locker_io" where
  "occupied p = io_match (d_symlink_metadata p) (\<lambda>_. io_return True) (\<lambda>_. io_return False)"

definition suffixed :: "path \<Rightarrow> string \<Rightarrow> path" where
  "suffixed p suffix = p @ ''.'' @ suffix"

definition mode_of :: "file_stat \<Rightarrow> u32" where
  "mode_of st = st_mode st AND 0xFFF"

definition modified_at_ms :: "file_stat \<Rightarrow> int" where
  "modified_at_ms st =
    (if 0 \<le> st_modified_ms st \<and> is_i64 (st_modified_ms st) then st_modified_ms st else 0)"

subsection \<open>A file that appears complete or not at all\<close>

record atomic_file =
  af_temporary :: path
  af_destination :: path
  af_inode :: nat

definition temporary_sibling :: "bytes \<Rightarrow> path \<Rightarrow> locker_error + path" where
  "temporary_sibling suffix destination =
    (let directory = (case parent_of destination of
           Some p \<Rightarrow> if p = [] then ''.'' else p | None \<Rightarrow> ''.'')
     in case path_file_name destination of
          None \<Rightarrow> Inl UnsafeName
        | Some name \<Rightarrow> Inr (path_join directory (''.'' @ name @ ''.'' @ to_hex suffix @ ''.balock-tmp'')))"

definition atomic_create :: "bytes \<Rightarrow> path \<Rightarrow> atomic_file locker_io" where
  "atomic_create suffix destination =
    io_bind (occupied destination) (\<lambda>taken.
    if taken then io_fail (DestinationExists destination) else
    io_bind (io_pure (temporary_sibling suffix destination)) (\<lambda>temporary.
    io_bind (locker_call (d_create_new temporary)) (\<lambda>i.
    io_return \<lparr>af_temporary = temporary, af_destination = destination, af_inode = i\<rparr>)))"

definition sync_directory :: "path \<Rightarrow> unit locker_io" where
  "sync_directory destination =
    (case parent_of destination of
       None \<Rightarrow> io_return ()
     | Some parent \<Rightarrow> io_match (d_open parent) (\<lambda>_. io_ignore (d_sync_directory parent)) (\<lambda>_. io_return ()))"

definition atomic_commit :: "atomic_file \<Rightarrow> unit locker_io" where
  "atomic_commit f =
    io_bind (locker_call (d_sync_all (af_inode f))) (\<lambda>_.
    io_bind (occupied (af_destination f)) (\<lambda>taken.
    if taken then io_fail (DestinationExists (af_destination f)) else
    locker_call (d_rename (af_temporary f) (af_destination f))))"

text \<open>The life of an \<open>AtomicFile\<close>: created, filled, committed; dropped on any error before that.\<close>

definition with_atomic_file :: "bytes \<Rightarrow> path \<Rightarrow> (nat \<Rightarrow> unit locker_io) \<Rightarrow> unit locker_io" where
  "with_atomic_file suffix destination fill =
    io_bind (atomic_create suffix destination) (\<lambda>f.
    io_bind (io_on_error (io_bind (fill (af_inode f)) (\<lambda>_. atomic_commit f))
       (d_remove_file (af_temporary f))) (\<lambda>_.
    sync_directory destination))"

subsection \<open>Sections and chunks\<close>

definition write_section :: "nat \<Rightarrow> bytes \<Rightarrow> unit locker_io" where
  "write_section i section_bytes =
    (if length section_bytes \<ge> 2 ^ 32 then io_fail (SectionTooLarge ''section'' (2 ^ 32 - 1)) else
     io_bind (locker_call (d_write_all i (to_be_bytes 4 (word_of_nat (length section_bytes))))) (\<lambda>_.
     locker_call (d_write_all i section_bytes)))"

definition truncated :: "(io_error, 'a) dio \<Rightarrow> 'a locker_io" where
  "truncated m = io_map_err (\<lambda>_. MalformedContainer ''truncated container'') m"

definition read_section :: "reader_handle \<Rightarrow> string \<Rightarrow> nat \<Rightarrow> (bytes \<times> reader_handle) locker_io" where
  "read_section r name limit =
    io_bind (truncated (d_read_exact 4 r)) (\<lambda>(len, r).
    let n = unat (from_be_bytes len) in
    if n > limit then io_fail (SectionTooLarge name limit) else
    truncated (d_read_exact n r))"

text \<open>\<open>left\<close> counts the chunks still to come; \<open>index + 1 == chunks\<close> is \<open>left = 1\<close>.\<close>

fun encrypt_loop ::
  "locker_crypto \<Rightarrow> container_cipher \<Rightarrow> nat \<Rightarrow> nat \<Rightarrow> nat \<Rightarrow> u64 \<Rightarrow> nat \<Rightarrow> reader_handle \<Rightarrow> reader_handle locker_io" where
  "encrypt_loop lc c i chunk_size 0 index remaining r = io_return r"
| "encrypt_loop lc c i chunk_size (Suc left) index remaining r =
    (let n = min remaining chunk_size in
     io_bind (io_map_err (\<lambda>_. InputChanged) (d_read_exact n r)) (\<lambda>(buffer, r).
     io_bind (locker_call (d_write_all i (seal_chunk lc c index (left = 0) buffer))) (\<lambda>_.
     encrypt_loop lc c i chunk_size left (index + 1) (remaining - n) r)))"

definition encrypt_chunks ::
  "locker_crypto \<Rightarrow> container_cipher \<Rightarrow> core_header \<Rightarrow> nat \<Rightarrow> reader_handle \<Rightarrow> unit locker_io" where
  "encrypt_chunks lc c header i r =
    io_bind (encrypt_loop lc c i (unat (co_chunk_size header)) (unat (chunk_count header)) 0
       (unat (co_plaintext_len header)) r) (\<lambda>r.
    io_bind (locker_call (d_read_byte r)) (\<lambda>extra.
    if extra = [] then io_return () else io_fail InputChanged))"

definition corrupt_if_short :: "io_error \<Rightarrow> locker_error" where
  "corrupt_if_short e = (if e = UnexpectedEof then Corrupt else LockerIo e)"

text \<open>\<open>out\<close> is what is written to: a file, or nothing.\<close>

fun decrypt_loop ::
  "locker_crypto \<Rightarrow> container_cipher \<Rightarrow> (bytes \<Rightarrow> unit locker_io) \<Rightarrow> nat \<Rightarrow> nat \<Rightarrow> u64 \<Rightarrow> nat \<Rightarrow> reader_handle
    \<Rightarrow> reader_handle locker_io" where
  "decrypt_loop lc c out chunk_size 0 index remaining r = io_return r"
| "decrypt_loop lc c out chunk_size (Suc left) index remaining r =
    (let n = min remaining chunk_size in
     io_bind (io_map_err corrupt_if_short (d_read_exact (n + TAG_LEN) r)) (\<lambda>(buffer, r).
     io_bind (io_pure (open_chunk lc c index (left = 0) buffer)) (\<lambda>buffer.
     io_bind (out buffer) (\<lambda>_.
     decrypt_loop lc c out chunk_size left (index + 1) (remaining - n) r))))"

definition decrypt_chunks ::
  "locker_crypto \<Rightarrow> container_cipher \<Rightarrow> (bytes \<Rightarrow> unit locker_io) \<Rightarrow> core_header \<Rightarrow> reader_handle \<Rightarrow> unit locker_io" where
  "decrypt_chunks lc c out header r =
    io_bind (decrypt_loop lc c out (unat (co_chunk_size header)) (unat (chunk_count header)) 0
       (unat (co_plaintext_len header)) r) (\<lambda>r.
    io_bind (locker_call (d_read_byte r)) (\<lambda>extra.
    if extra = [] then io_return () else io_fail Corrupt))"

subsection \<open>The front of a container\<close>

record container_head =
  hd_core :: bytes
  hd_header :: core_header
  hd_binding :: bytes
  hd_wrappers :: "wrapper list"
  hd_metadata :: bytes

definition read_head :: "locker_crypto \<Rightarrow> reader_handle \<Rightarrow> (container_head \<times> reader_handle) locker_io" where
  "read_head lc r =
    io_bind (io_map_err (\<lambda>_. NotAContainer) (d_read_exact 8 r)) (\<lambda>(magic_bytes, r).
    if take 7 magic_bytes \<noteq> MAGIC_PREFIX then io_fail NotAContainer
    else if magic_bytes ! 7 \<noteq> CONTAINER_VERSION then io_fail (UnsupportedContainer (magic_bytes ! 7))
    else
    io_bind (read_section r ''header'' MAX_CORE_BYTES) (\<lambda>(core, r).
    io_bind (io_pure (decode_core core)) (\<lambda>header.
    let binding = locker_binding_of lc core in
    io_bind (read_section r ''wrappers'' MAX_WRAPPER_SECTION) (\<lambda>(section_bytes, r).
    io_bind (io_pure (decode_wrappers section_bytes)) (\<lambda>wrappers.
    io_bind (read_section r ''metadata'' MAX_METADATA_BYTES) (\<lambda>(metadata, r).
    if length metadata \<le> TAG_LEN then io_fail (MalformedContainer ''metadata'') else
    io_return (\<lparr>hd_core = core, hd_header = header, hd_binding = binding, hd_wrappers = wrappers,
      hd_metadata = metadata\<rparr>, r)))))))"

definition head_wrapper :: "container_head \<Rightarrow> wrapper_kind \<Rightarrow> locker_error + wrapper" where
  "head_wrapper h kind =
    (case List.find (\<lambda>w. wr_kind w = kind) (hd_wrappers h) of
       None \<Rightarrow> Inl (NoWrapper kind) | Some w \<Rightarrow> Inr w)"

definition locker_verify :: "locker_crypto \<Rightarrow> path \<Rightarrow> bytes \<Rightarrow> unit locker_io" where
  "locker_verify lc container dek =
    io_bind (locker_call (d_open container)) (\<lambda>r.
    io_bind (read_head lc r) (\<lambda>(h, r).
    let c = cipher_new lc dek (hd_header h) (hd_binding h) in
    io_bind (io_pure (then_ok (open_metadata lc c (hd_metadata h)) decode_metadata)) (\<lambda>_.
    decrypt_chunks lc c (\<lambda>_. io_return ()) (hd_header h) r)))"

subsection \<open>Locking\<close>

definition write_container ::
  "locker_crypto \<Rightarrow> container_cipher \<Rightarrow> core_header \<Rightarrow> wrapper list \<Rightarrow> bytes \<Rightarrow> path \<Rightarrow> nat \<Rightarrow> unit locker_io" where
  "write_container lc c header wrappers metadata_block source i =
    io_bind (locker_call (d_write_all i magic)) (\<lambda>_.
    io_bind (write_section i (encode_core header)) (\<lambda>_.
    io_bind (io_pure (encode_wrappers wrappers)) (\<lambda>section_bytes.
    io_bind (write_section i section_bytes) (\<lambda>_.
    io_bind (write_section i metadata_block) (\<lambda>_.
    io_bind (locker_call (d_open source)) (\<lambda>r.
    encrypt_chunks lc c header i r))))))"

definition lock_file ::
  "locker_crypto \<Rightarrow> locker_random \<Rightarrow> path \<Rightarrow> lock_plan \<Rightarrow> custodian \<Rightarrow> lock_outcome locker_io" where
  "lock_file lc rnd source plan cu =
    io_bind (io_pure (case path_file_name source of None \<Rightarrow> Inl UnsafeName | Some n \<Rightarrow> Inr n)) (\<lambda>name.
    io_bind (sole_regular_file source (lp_remove_original plan)) (\<lambda>st.
    let plaintext_len = st_len st;
        destination = (case lp_destination plan of
          Some p \<Rightarrow> p | None \<Rightarrow> source @ ''.'' @ LOCKER_EXTENSION);
        header = core_fresh (lr_header rnd) plaintext_len in
    io_bind (io_pure (validate_core header)) (\<lambda>_.
    let binding = locker_binding_of lc (encode_core header);
        dek = lr_dek rnd in
    io_bind (cu_wrap cu \<lparr>wa_binding = binding, wa_dek = dek, wa_file_name = name,
       wa_plaintext_len = plaintext_len\<rparr>) (\<lambda>phone.
    if wr_kind phone \<noteq> PhoneWrapper
    then io_fail (MalformedContainer ''phone returned a foreign wrapper'') else
    let (recovery_wrapper, recovery_key) =
          recovery_wrap lc (lr_recovery_key rnd) (lr_recovery rnd) dek binding;
        c = cipher_new lc dek header binding in
    io_bind (io_pure (encode_metadata \<lparr>lm_original_name = name, lm_mode = mode_of st,
       lm_modified_at_ms = modified_at_ms st, lm_original_len = plaintext_len\<rparr>)) (\<lambda>encoded.
    let metadata_block = seal_metadata lc c encoded in
    io_bind (with_atomic_file (lr_suffix rnd) destination
       (write_container lc c header [phone, recovery_wrapper] metadata_block source)) (\<lambda>_.
    io_bind (locker_verify lc destination dek) (\<lambda>_.
    io_bind (if lp_remove_original plan then locker_call (d_remove_file source) else io_return ()) (\<lambda>_.
    io_return \<lparr>lo_container = destination, lo_recovery_code = format_recovery_code recovery_key,
      lo_plaintext_len = plaintext_len, lo_original_removed = lp_remove_original plan\<rparr>))))))))"

subsection \<open>Unlocking\<close>

definition restore_attributes :: "path \<Rightarrow> locker_metadata \<Rightarrow> unit locker_io" where
  "restore_attributes p m =
    io_bind (if lm_modified_at_ms m > 0
       then io_match (d_open p) (\<lambda>_. io_ignore (d_set_modified p (lm_modified_at_ms m))) (\<lambda>_. io_return ())
       else io_return ()) (\<lambda>_.
    if lm_mode m \<noteq> 0 then io_ignore (d_set_permissions p (lm_mode m)) else io_return ())"

definition container_name :: "path \<Rightarrow> string" where
  "container_name container = (case path_file_name container of None \<Rightarrow> [] | Some n \<Rightarrow> n)"

definition unlock_dek :: "locker_crypto \<Rightarrow> unlock_key \<Rightarrow> container_head \<Rightarrow> string \<Rightarrow> bytes locker_io" where
  "unlock_dek lc key h name =
    (case key of
       PhoneKey cu \<Rightarrow>
         io_bind (io_pure (head_wrapper h PhoneWrapper)) (\<lambda>w.
         cu_unwrap cu \<lparr>ua_binding = hd_binding h, ua_wrapper = w, ua_container_name = name,
           ua_plaintext_len = co_plaintext_len (hd_header h)\<rparr>)
     | RecoveryKey recovery_key \<Rightarrow>
         io_pure (then_ok (head_wrapper h RecoveryWrapper) (\<lambda>w.
           recovery_unwrap lc w recovery_key (hd_binding h))))"

definition unlock_file ::
  "locker_crypto \<Rightarrow> locker_random \<Rightarrow> path \<Rightarrow> path option \<Rightarrow> bool \<Rightarrow> unlock_key \<Rightarrow> unlock_outcome locker_io" where
  "unlock_file lc rnd container destination_dir remove_container key =
    io_bind (sole_regular_file container remove_container) (\<lambda>_.
    io_bind (locker_call (d_open container)) (\<lambda>r.
    io_bind (read_head lc r) (\<lambda>(h, r).
    io_bind (unlock_dek lc key h (container_name container)) (\<lambda>dek.
    let c = cipher_new lc dek (hd_header h) (hd_binding h) in
    io_bind (io_pure (then_ok (open_metadata lc c (hd_metadata h)) decode_metadata)) (\<lambda>m.
    if lm_original_len m \<noteq> co_plaintext_len (hd_header h)
    then io_fail (MalformedContainer ''metadata contradicts the header'') else
    let directory = (case destination_dir of
          Some p \<Rightarrow> p
        | None \<Rightarrow> (case parent_of container of Some p \<Rightarrow> p | None \<Rightarrow> ''.'')) in
    io_bind (io_pure (safe_file_name m)) (\<lambda>name.
    let restored = path_join directory name in
    io_bind (with_atomic_file (lr_suffix rnd) restored (\<lambda>i.
       decrypt_chunks lc c (\<lambda>b. locker_call (d_write_all i b)) (hd_header h) r)) (\<lambda>_.
    io_bind (restore_attributes restored m) (\<lambda>_.
    io_bind (if remove_container then locker_call (d_remove_file container) else io_return ()) (\<lambda>_.
    io_return \<lparr>uo_restored = restored, uo_plaintext_len = co_plaintext_len (hd_header h),
      uo_container_removed = remove_container\<rparr>)))))))))"

subsection \<open>Re-keying and looking\<close>

definition rekey_dek ::
  "locker_crypto \<Rightarrow> custodian \<Rightarrow> bytes option \<Rightarrow> container_head \<Rightarrow> string \<Rightarrow> bytes locker_io" where
  "rekey_dek lc cu current_recovery h name =
    (case current_recovery of
       Some recovery_key \<Rightarrow> unlock_dek lc (RecoveryKey recovery_key) h name
     | None \<Rightarrow> unlock_dek lc (PhoneKey cu) h name)"

definition write_rekeyed :: "container_head \<Rightarrow> wrapper list \<Rightarrow> reader_handle \<Rightarrow> nat \<Rightarrow> unit locker_io" where
  "write_rekeyed h wrappers r i =
    io_bind (locker_call (d_write_all i magic)) (\<lambda>_.
    io_bind (write_section i (hd_core h)) (\<lambda>_.
    io_bind (io_pure (encode_wrappers wrappers)) (\<lambda>section_bytes.
    io_bind (write_section i section_bytes) (\<lambda>_.
    io_bind (write_section i (hd_metadata h)) (\<lambda>_.
    io_bind (locker_call (d_read_rest r)) (\<lambda>rest.
    locker_call (d_write_all i rest)))))))"

definition rekey_file ::
  "locker_crypto \<Rightarrow> locker_random \<Rightarrow> path \<Rightarrow> custodian \<Rightarrow> bytes option \<Rightarrow> bool \<Rightarrow> string option locker_io" where
  "rekey_file lc rnd container cu current_recovery new_recovery =
    io_bind (sole_regular_file container True) (\<lambda>_.
    io_bind (locker_call (d_open container)) (\<lambda>r.
    io_bind (read_head lc r) (\<lambda>(h, r).
    let name = container_name container in
    io_bind (rekey_dek lc cu current_recovery h name) (\<lambda>dek.
    io_bind (cu_wrap cu \<lparr>wa_binding = hd_binding h, wa_dek = dek, wa_file_name = name,
       wa_plaintext_len = co_plaintext_len (hd_header h)\<rparr>) (\<lambda>phone.
    if wr_kind phone \<noteq> PhoneWrapper
    then io_fail (MalformedContainer ''phone returned a foreign wrapper'') else
    let (wrappers, code) =
          (if new_recovery
           then (let (w, key) = recovery_wrap lc (lr_recovery_key rnd) (lr_recovery rnd) dek (hd_binding h)
                 in ([phone, w], Some (format_recovery_code key)))
           else (phone # filter (\<lambda>w. wr_kind w = RecoveryWrapper) (hd_wrappers h), None)) in
    if length wrappers > MAX_WRAPPERS then io_fail (MalformedContainer ''wrapper count'') else
    let replacement = suffixed container ''rekey-new'';
        superseded = suffixed container ''rekey-old'' in
    io_bind (with_atomic_file (lr_suffix rnd) replacement (write_rekeyed h wrappers r)) (\<lambda>_.
    io_bind (locker_verify lc replacement dek) (\<lambda>_.
    io_bind (locker_call (d_rename container superseded)) (\<lambda>_.
    io_bind (locker_call (d_rename replacement container)) (\<lambda>_.
    io_bind (io_ignore (d_remove_file superseded)) (\<lambda>_.
    io_return code))))))))))"

definition inspect_container :: "locker_crypto \<Rightarrow> path \<Rightarrow> locker_info locker_io" where
  "inspect_container lc container =
    io_bind (locker_call (d_open container)) (\<lambda>r.
    io_bind (read_head lc r) (\<lambda>(h, r).
    io_return \<lparr>li_container_version = co_container_version (hd_header h),
      li_plaintext_len = co_plaintext_len (hd_header h), li_chunk_size = co_chunk_size (hd_header h),
      li_chunk_count = chunk_count (hd_header h),
      li_wrappers = map (\<lambda>w. (wr_kind w, wr_id w)) (hd_wrappers h)\<rparr>))"

end
