(* ===== verification/Locker_Reading.thy ===== *)
theory Locker_Reading
  imports Locker_Engine
begin

text \<open>
  What reading a container means. A computation that succeeds although some calls may fail does
  the same when none does (\<open>steady\<close>); without faults, reading a container succeeds exactly on the
  bytes that locking writes.
\<close>

subsection \<open>Success does not depend on the faults\<close>

definition settled :: "disk \<Rightarrow> disk" where
  "settled d = d\<lparr>dk_faults := []\<rparr>"

definition steady :: "(disk, 'e, 'a) io_on \<Rightarrow> bool" where
  "steady m \<longleftrightarrow> (\<forall>d x d'. m d = (Inr x, d') \<longrightarrow> m (settled d) = (Inr x, settled d'))"

named_theorems steady_rules "computations whose success does not depend on the faults"

lemma settled_simps [simp]:
  "dk_nodes (settled d) = dk_nodes d" "dk_inodes (settled d) = dk_inodes d" "dk_next (settled d) = dk_next d"
  "dk_new_mode (settled d) = dk_new_mode d" "dk_faults (settled d) = []"
  "follow (settled d) p = follow d p" "stat_of (settled d) n = stat_of d n" "unread (settled d) r = unread d r"
  "settled (d\<lparr>dk_faults := fs\<rparr>) = settled d" "settled (settled d) = settled d"
  "put_inode i x (settled d) = settled (put_inode i x d)"
  "unlink_node k (settled d) = settled (unlink_node k d)"
  by (simp_all add: settled_def follow_def stat_of_def unread_def put_inode_def unlink_node_def
      split: option.split node.split)

lemma steadyD: "steady m \<Longrightarrow> m d = (Inr x, d') \<Longrightarrow> m (settled d) = (Inr x, settled d')"
  by (simp add: steady_def)

lemma steady_return [steady_rules]: "steady (io_return x)"
  by (simp add: steady_def io_return_def)

lemma steady_fail [steady_rules]: "steady (io_fail e)"
  by (simp add: steady_def io_fail_def)

lemma steady_pure [steady_rules]: "steady (io_pure r)"
  by (simp add: steady_def io_pure_def)

lemma io_bind_Inr: "io_bind m k d = (Inr y, d') \<longleftrightarrow> (\<exists>x u. m d = (Inr x, u) \<and> k x u = (Inr y, d'))"
  by (auto simp: io_bind_def split: prod.splits sum.splits)

lemma io_map_err_Inr [simp]: "io_map_err f m d = (Inr x, d') \<longleftrightarrow> m d = (Inr x, d')"
  by (auto simp: io_map_err_def split: prod.splits sum.splits)

lemma locker_call_Inr [simp]: "locker_call m d = (Inr x, d') \<longleftrightarrow> m d = (Inr x, d')"
  by (simp add: locker_call_def)

lemma truncated_Inr [simp]: "truncated m d = (Inr x, d') \<longleftrightarrow> m d = (Inr x, d')"
  by (simp add: truncated_def)

lemma io_pure_Inr [simp]: "io_pure r d = (Inr x, d') \<longleftrightarrow> r = Inr x \<and> d' = d"
  by (auto simp: io_pure_def)

lemma io_return_Inr [simp]: "io_return y d = (Inr x, d') \<longleftrightarrow> x = y \<and> d' = d"
  by (auto simp: io_return_def)

lemma io_fail_Inr [simp]: "io_fail e d \<noteq> (Inr x, d')"
  by (simp add: io_fail_def)

lemma steady_bind [steady_rules]: "steady m \<Longrightarrow> (\<And>x. steady (k x)) \<Longrightarrow> steady (io_bind m k)"
  unfolding steady_def io_bind_Inr by blast

lemma steady_map_err [steady_rules]: "steady m \<Longrightarrow> steady (io_map_err f m)"
  by (simp add: steady_def)

lemma steady_locker_call [steady_rules]: "steady m \<Longrightarrow> steady (locker_call m)"
  by (simp add: steady_def)

lemma steady_truncated [steady_rules]: "steady m \<Longrightarrow> steady (truncated m)"
  by (simp add: steady_def)

lemma d_call_nofault [simp]: "dk_faults d = [] \<Longrightarrow> d_call f act d = act d"
  by (simp add: d_call_def)

lemma steady_call:
  assumes "\<And>d x d'. act d = (Inr x, d') \<Longrightarrow> act (settled d) = (Inr x, settled d')"
  shows "steady (d_call f act)"
  unfolding steady_def
proof (intro allI impI)
  fix d x d' assume "d_call f act d = (Inr x, d')"
  then obtain fs where "act (d\<lparr>dk_faults := fs\<rparr>) = (Inr x, d') \<or> act d = (Inr x, d')"
    by (auto simp: d_call_def split: list.splits option.splits)
  with assms [of "d\<lparr>dk_faults := fs\<rparr>"] assms [of d] show "d_call f act (settled d) = (Inr x, settled d')"
    by auto
qed

lemma steady_calls [steady_rules]:
  "steady (d_symlink_metadata p)" "steady (d_metadata p)" "steady (d_open p)" "steady (d_read_byte r)"
  "steady (d_read_rest r)" "steady (d_sync_all i)" "steady (d_sync_directory p)"
  unfolding d_symlink_metadata_def d_metadata_def d_open_def d_read_byte_def d_read_rest_def d_sync_all_def
    d_sync_directory_def
  by (rule steady_call, auto split: option.splits node.splits if_splits)+

lemma steady_read_exact [steady_rules]: "steady (d_read_exact n r)"
proof -
  have "steady (d_call (\<lambda>_ d. d) (\<lambda>d. if rd_inode r = None then (Inl (OtherIo 21), d)
     else if n \<le> length (unread d r) then (Inr (take n (unread d r), r\<lparr>rd_pos := rd_pos r + n\<rparr>), d)
     else (Inl UnexpectedEof, d)))"
    by (rule steady_call) (auto split: if_splits)
  then show ?thesis by (auto simp: steady_def d_read_exact_def)
qed

lemma steady_write_all [steady_rules]: "steady (d_write_all i b)"
  unfolding d_write_all_def by (rule steady_call) (auto simp: d_append_def)

lemma steady_rename [steady_rules]: "steady (d_rename a b)"
  unfolding d_rename_def
  by (rule steady_call) (auto simp: settled_def unlink_node_def put_inode_def split: option.splits node.splits if_splits)

lemma steady_remove [steady_rules]: "steady (d_remove_file p)"
  unfolding d_remove_file_def
  by (rule steady_call) (auto simp: settled_def unlink_node_def put_inode_def split: option.splits node.splits if_splits)

lemma steady_create [steady_rules]: "steady (d_create_new p)"
  unfolding d_create_new_def
  by (rule steady_call) (auto simp: settled_def put_inode_def split: option.splits)

lemma steady_if [steady_rules]: "steady m \<Longrightarrow> steady n \<Longrightarrow> steady (if b then m else n)"
  by simp

lemma steady_split [steady_rules]: "(\<And>a b. steady (k a b)) \<Longrightarrow> steady (case x of (a, b) \<Rightarrow> k a b)"
  by (cases x) simp

lemma steady_write_section [steady_rules]: "steady (write_section i b)"
  unfolding write_section_def by (intro steady_rules)

lemma steady_read_section [steady_rules]: "steady (read_section r n l)"
  unfolding read_section_def Let_def by (intro steady_rules)

lemma steady_read_head [steady_rules]: "steady (read_head lc r)"
  unfolding read_head_def Let_def by (intro steady_rules)

lemma steady_encrypt_loop [steady_rules]: "steady (encrypt_loop lc c i cs left index remaining r)"
proof (induction left arbitrary: index remaining r)
  case 0
  show ?case by (simp add: steady_rules)
next
  case (Suc left)
  show ?case unfolding encrypt_loop.simps Let_def by (intro steady_rules Suc.IH)
qed

lemma steady_encrypt_chunks [steady_rules]: "steady (encrypt_chunks lc c h i r)"
  unfolding encrypt_chunks_def by (intro steady_rules)

lemma steady_decrypt_loop [steady_rules]:
  "(\<And>b. steady (out b)) \<Longrightarrow> steady (decrypt_loop lc c out cs left index remaining r)"
proof (induction left arbitrary: index remaining r)
  case 0
  show ?case by (simp add: steady_rules)
next
  case (Suc left)
  show ?case unfolding decrypt_loop.simps Let_def by (intro steady_rules Suc)
qed

lemma steady_decrypt_chunks [steady_rules]: "(\<And>b. steady (out b)) \<Longrightarrow> steady (decrypt_chunks lc c out h r)"
  unfolding decrypt_chunks_def by (intro steady_rules)

lemma steady_verify [steady_rules]: "steady (locker_verify lc p dek)"
  unfolding locker_verify_def Let_def by (intro steady_rules)

lemma steady_write_container [steady_rules]: "steady (write_container lc c h ws m s i)"
  unfolding write_container_def by (intro steady_rules)

lemma steady_write_rekeyed [steady_rules]: "steady (write_rekeyed h ws r i)"
  unfolding write_rekeyed_def by (intro steady_rules)

end
