(* ===== verification/Locker_Container.thy ===== *)
theory Locker_Container
  imports Locker_Reading "HOL-Library.Sublist"
begin

text \<open>
  The bytes of a container as one expression, and, for a disk on which no call fails, exactly
  when the reading and writing operations succeed and what they leave.
\<close>

definition sec :: "bytes \<Rightarrow> bytes" where
  "sec b = to_be_bytes 4 (word_of_nat (length b)) @ b"

fun sealed_chunks :: "locker_crypto \<Rightarrow> container_cipher \<Rightarrow> nat \<Rightarrow> nat \<Rightarrow> u64 \<Rightarrow> bytes \<Rightarrow> bytes" where
  "sealed_chunks lc c n 0 index p = []"
| "sealed_chunks lc c n (Suc left) index p =
    seal_chunk lc c index (left = 0) (take n p) @ sealed_chunks lc c n left (index + 1) (drop n p)"

definition locker_cipher :: "locker_crypto \<Rightarrow> bytes \<Rightarrow> core_header \<Rightarrow> container_cipher" where
  "locker_cipher lc dek h = cipher_new lc dek h (locker_binding_of lc (encode_core h))"

definition body_bytes :: "locker_crypto \<Rightarrow> container_cipher \<Rightarrow> core_header \<Rightarrow> bytes \<Rightarrow> bytes" where
  "body_bytes lc c h p = sealed_chunks lc c (unat (co_chunk_size h)) (unat (chunk_count h)) 0 p"

definition head_bytes :: "core_header \<Rightarrow> wrapper list \<Rightarrow> bytes \<Rightarrow> bytes" where
  "head_bytes h ws metadata_block = magic @ sec (encode_core h) @ sec (enc_wrappers ws) @ sec metadata_block"

definition container_bytes ::
  "locker_crypto \<Rightarrow> bytes \<Rightarrow> core_header \<Rightarrow> wrapper list \<Rightarrow> locker_metadata \<Rightarrow> bytes \<Rightarrow> bytes" where
  "container_bytes lc dek h ws m p =
    head_bytes h ws (seal_metadata lc (locker_cipher lc dek h) (enc_metadata m))
    @ body_bytes lc (locker_cipher lc dek h) h p"

text \<open>What a container must satisfy to be read.\<close>

definition container_ok :: "core_header \<Rightarrow> wrapper list \<Rightarrow> locker_metadata \<Rightarrow> bytes \<Rightarrow> bool" where
  "container_ok h ws m p \<longleftrightarrow> core_typed h \<and> validate_core h = Inr () \<and> wrappers_ok ws \<and> metadata_ok m
    \<and> length p = unat (co_plaintext_len h)"

subsection \<open>The chunks cover the plaintext\<close>

lemma validate_core_chunk:
  assumes "validate_core h = Inr ()"
  shows "0 < unat (co_chunk_size h)" and "unat (chunk_count h) < 2 ^ 32"
    and "co_chunk_size h \<le> MAX_CHUNK_SIZE"
proof -
  have "\<not> \<not> (MIN_CHUNK_SIZE \<le> co_chunk_size h \<and> co_chunk_size h \<le> MAX_CHUNK_SIZE)"
    and "chunk_count h \<le> MAX_CHUNK_INDEX"
    using assms by (auto simp: validate_core_def split: if_splits)
  then show "0 < unat (co_chunk_size h)" and "unat (chunk_count h) < 2 ^ 32" "co_chunk_size h \<le> MAX_CHUNK_SIZE"
    by (simp_all add: MIN_CHUNK_SIZE_def MAX_CHUNK_INDEX_def word_le_nat_alt)
qed

lemma unat_chunk_count:
  assumes "0 < unat (co_chunk_size h)"
  shows "unat (chunk_count h) = max 1
    (unat (co_plaintext_len h) div unat (co_chunk_size h)
      + (if unat (co_plaintext_len h) mod unat (co_chunk_size h) = 0 then 0 else 1))"
proof -
  let ?a = "unat (co_plaintext_len h)" and ?b = "unat (co_chunk_size h)"
  have b: "unat (ucast (co_chunk_size h) :: u64) = ?b" by (rule unat_ucast_small)
  have lt: "?a < 2 ^ 64" using unsigned_less [of "co_plaintext_len h", where ?'a = nat] by simp
  have up: "?a div ?b + 1 < 2 ^ 64" if "?a mod ?b \<noteq> 0"
  proof -
    have "?b \<noteq> 1" using that by auto
    with assms have "2 \<le> ?b" by simp
    then have "?a div ?b \<le> ?a div 2" by (rule div_le_mono2 [rotated]) simp
    with lt show ?thesis by simp
  qed
  show ?thesis
  proof (cases "co_plaintext_len h = 0")
    case False
    then have "0 < ?a" by (simp add: unat_gt_0)
    have z: "(ucast (co_chunk_size h) :: u64) \<noteq> 0" using assms b by auto
    have m: "co_plaintext_len h mod ucast (co_chunk_size h) > 0 \<longleftrightarrow> ?a mod ?b \<noteq> 0"
      by (simp add: word_less_nat_alt unat_mod_distrib b)
    have d: "unat (co_plaintext_len h div ucast (co_chunk_size h)) = ?a div ?b"
      by (simp add: unat_div_distrib b)
    have "1 \<le> ?a div ?b" if "?a mod ?b = 0"
      using that \<open>0 < ?a\<close> assms by (metis One_nat_def Suc_leI div_greater_zero_iff dvd_imp_le mod_0_imp_dvd)
    moreover have "unat (co_plaintext_len h div ucast (co_chunk_size h) + 1) = ?a div ?b + 1" if "?a mod ?b \<noteq> 0"
      using up [OF that] by (simp only: unat_word_ariths(1) d) simp
    ultimately show ?thesis
      using False by (auto simp: chunk_count_def div_ceil_u64_def m d)
  qed (simp add: chunk_count_def)
qed

lemma chunks_cover:
  assumes "0 < unat (co_chunk_size h)"
  shows "unat (co_plaintext_len h) \<le> unat (co_chunk_size h) * unat (chunk_count h)"
proof -
  let ?a = "unat (co_plaintext_len h)" and ?b = "unat (co_chunk_size h)"
  have a: "?a = ?b * (?a div ?b) + ?a mod ?b" by simp
  have "?a mod ?b < ?b" using assms by simp
  then have "?a \<le> ?b * (?a div ?b) + (if ?a mod ?b = 0 then 0 else ?b)"
    by (split if_split, intro conjI impI; use a in linarith)
  also have "\<dots> = ?b * (?a div ?b + (if ?a mod ?b = 0 then 0 else 1))" by simp
  also have "\<dots> \<le> ?b * unat (chunk_count h)"
    unfolding unat_chunk_count [OF assms] by (rule mult_le_mono2) simp
  finally show ?thesis .
qed

lemma sealed_chunks_inject:
  assumes "locker_crypto_ok lc" and "length p = length q" and "length p \<le> n * left"
  shows "sealed_chunks lc c n left i p @ x = sealed_chunks lc c n left i q @ y \<longleftrightarrow> p = q \<and> x = y"
  using assms(2-)
proof (induction left arbitrary: i p q)
  case (Suc left)
  have s: "length (take n p) = length (take n q)" using Suc.prems(1) by simp
  have e: "seal_chunk lc c i f a = seal_chunk lc c i f b \<longleftrightarrow> a = b" for f a b
    using open_chunk_iff [OF assms(1)] by (metis sum.inject(2))
  have "length (seal_chunk lc c i (left = 0) (take n p)) = length (seal_chunk lc c i (left = 0) (take n q))"
    using s length_sealed(1) [OF assms(1)] by simp
  then show ?case
    using Suc.IH [of "drop n p" "drop n q" "i + 1"] Suc.prems s
    by (auto simp: e) (metis append_take_drop_id)+
qed simp

subsection \<open>Reading without faults\<close>

definition advance :: "reader_handle \<Rightarrow> nat \<Rightarrow> reader_handle" where
  "advance r n = r\<lparr>rd_pos := rd_pos r + n\<rparr>"

lemma advance_simps [simp]:
  "rd_inode (advance r n) = rd_inode r" "advance r 0 = r" "advance (advance r m) n = advance r (m + n)"
  "unread d (advance r n) = drop n (unread d r)"
  by (simp_all add: advance_def unread_def add.commute split: option.split)

lemma bind_pure: "io_bind (io_pure a) k d = (Inr y, d') \<longleftrightarrow> (\<exists>z. a = Inr z \<and> k z d = (Inr y, d'))"
  by (auto simp: io_bind_Inr)

lemma bind_guard: "(if c then io_fail e else m) d = (Inr y, d') \<longleftrightarrow> \<not> c \<and> m d = (Inr y, d')"
  by simp

lemma prefix_append: "prefix (a @ b) u \<longleftrightarrow> prefix a u \<and> prefix b (drop (length a) u)"
  by (auto simp: prefix_def)

lemma prefix_take: "prefix b u \<longleftrightarrow> length b \<le> length u \<and> b = take (length b) u"
  by (metis append_eq_conv_conj prefix_def prefix_length_le take_is_prefix)

lemma ex_prefix: "(\<exists>b. length b = n \<and> prefix b u \<and> P b) \<longleftrightarrow> n \<le> length u \<and> P (take n u)"
  by (metis length_take min.absorb2 prefix_take take_is_prefix prefix_length_le)

lemma read_exact_iff:
  assumes "dk_faults d = []" and "rd_inode r = Some j"
  shows "d_read_exact n r d = (Inr (b, r'), d') \<longleftrightarrow>
    d' = d \<and> r' = advance r n \<and> length b = n \<and> prefix b (unread d r)"
  using assms by (cases "n = 0") (auto simp: d_read_exact_def advance_def prefix_take)

lemma bind_read_exact:
  assumes "dk_faults d = []" and "rd_inode r = Some j"
  shows "io_bind (io_map_err f (d_read_exact n r)) k d = (Inr y, d') \<longleftrightarrow>
    (\<exists>b. length b = n \<and> prefix b (unread d r) \<and> k (b, advance r n) d = (Inr y, d'))"
  by (auto simp: io_bind_Inr read_exact_iff [OF assms])

lemma from_be_length:
  assumes "length l = 4"
  shows "unat (from_be_bytes l) = n \<and> n < 2 ^ 32 \<longleftrightarrow> n < 2 ^ 32 \<and> l = to_be_bytes 4 (word_of_nat n)"
proof -
  have t: "to_be_bytes 4 (from_be_bytes l) = l" using to_from_be_bytes [of l] assms by simp
  have "unat (take_bit 32 (word_of_nat n :: u64)) = n" if "n < 2 ^ 32"
    using that by (simp add: unsigned_take_bit_eq unsigned_of_nat take_bit_nat_eq_self)
  moreover have "word_of_nat (unat (from_be_bytes l)) = from_be_bytes l" by simp
  ultimately show ?thesis using t by auto
qed

lemma from_be_length_less: "length l = 4 \<Longrightarrow> unat (from_be_bytes l) < 2 ^ 32"
  using unat_from_be_bytes [of l] by simp

lemma length_sec [simp]: "length (sec b) = 4 + length b"
  by (simp add: sec_def)

lemma prefix_sec: "prefix (sec b) u \<longleftrightarrow> prefix (to_be_bytes 4 (word_of_nat (length b))) u \<and> prefix b (drop 4 u)"
  by (simp add: sec_def prefix_append)

lemma read_section_iff:
  assumes "dk_faults d = []" and "rd_inode r = Some j"
  shows "read_section r name limit d = (Inr (b, r'), d') \<longleftrightarrow>
    d' = d \<and> r' = advance r (length (sec b)) \<and> length b \<le> limit \<and> length b < 2 ^ 32 \<and> prefix (sec b) (unread d r)"
proof -
  have "read_section r name limit d = (Inr (b, r'), d') \<longleftrightarrow>
    (\<exists>l. length l = 4 \<and> prefix l (unread d r) \<and> unat (from_be_bytes l) \<le> limit
      \<and> d' = d \<and> r' = advance r (4 + length b) \<and> length b = unat (from_be_bytes l) \<and> prefix b (drop 4 (unread d r)))"
    unfolding read_section_def truncated_def bind_read_exact [OF assms] using assms
    by (intro ex_cong1) (auto simp: Let_def bind_guard read_exact_iff)
  also have "\<dots> \<longleftrightarrow> (\<exists>l. (length b < 2 ^ 32 \<and> l = to_be_bytes 4 (word_of_nat (length b))) \<and> prefix l (unread d r)
      \<and> length b \<le> limit \<and> d' = d \<and> r' = advance r (4 + length b) \<and> prefix b (drop 4 (unread d r)))"
    using from_be_length [of _ "length b"] from_be_length_less by (metis length_to_be_bytes)
  also have "\<dots> \<longleftrightarrow> d' = d \<and> r' = advance r (length (sec b)) \<and> length b \<le> limit \<and> length b < 2 ^ 32
      \<and> prefix (sec b) (unread d r)"
    by (auto simp: prefix_sec)
  finally show ?thesis .
qed

lemma bind_read_section:
  assumes "dk_faults d = []" and "rd_inode r = Some j"
  shows "io_bind (read_section r name limit) k d = (Inr y, d') \<longleftrightarrow>
    (\<exists>b. length b \<le> limit \<and> length b < 2 ^ 32 \<and> prefix (sec b) (unread d r)
      \<and> k (b, advance r (length (sec b))) d = (Inr y, d'))"
  by (auto simp: io_bind_Inr read_section_iff [OF assms])

definition head_of :: "locker_crypto \<Rightarrow> core_header \<Rightarrow> wrapper list \<Rightarrow> bytes \<Rightarrow> container_head" where
  "head_of lc h ws metadata_block =
    \<lparr>hd_core = encode_core h, hd_header = h, hd_binding = locker_binding_of lc (encode_core h),
     hd_wrappers = ws, hd_metadata = metadata_block\<rparr>"

lemma head_of_simps [simp]:
  "hd_core (head_of lc h ws b) = encode_core h" "hd_header (head_of lc h ws b) = h"
  "hd_binding (head_of lc h ws b) = locker_binding_of lc (encode_core h)"
  "hd_wrappers (head_of lc h ws b) = ws" "hd_metadata (head_of lc h ws b) = b"
  by (simp_all add: head_of_def)

lemma length_magic [simp]: "length magic = 8"
  by (simp add: magic_def MAGIC_PREFIX_def as_bytes_def)

lemma magic_iff: "length b = 8 \<and> take 7 b = MAGIC_PREFIX \<and> b ! 7 = CONTAINER_VERSION \<longleftrightarrow> b = magic"
  using length_magic take_Suc_conv_app_nth [of 7 b]
  by (auto simp: magic_def nth_append MAGIC_PREFIX_def as_bytes_def)

definition head_ok :: "core_header \<Rightarrow> wrapper list \<Rightarrow> bytes \<Rightarrow> bool" where
  "head_ok h ws metadata_block \<longleftrightarrow> core_typed h \<and> validate_core h = Inr () \<and> wrappers_ok ws
    \<and> TAG_LEN < length metadata_block \<and> length metadata_block \<le> MAX_METADATA_BYTES"

lemma head_sections:
  "core_typed h \<Longrightarrow> length (encode_core h) \<le> MAX_CORE_BYTES" "core_typed h \<Longrightarrow> length (encode_core h) < 4294967296"
  "wrappers_ok ws \<Longrightarrow> length (enc_wrappers ws) \<le> MAX_WRAPPER_SECTION"
  "wrappers_ok ws \<Longrightarrow> length (enc_wrappers ws) < 4294967296"
  "length (b :: bytes) \<le> MAX_METADATA_BYTES \<Longrightarrow> length b < 4294967296"
  using length_encode_core [of h] length_enc_wrappers [of ws] by (simp_all add: locker_consts)

lemma read_head_iff:
  assumes "dk_faults d = []" and "rd_inode r = Some j"
  shows "read_head lc r d = (Inr (x, r'), d') \<longleftrightarrow> d' = d \<and> (\<exists>h ws b. x = head_of lc h ws b \<and> head_ok h ws b
    \<and> r' = advance r (length (head_bytes h ws b)) \<and> prefix (head_bytes h ws b) (unread d r))"
    (is "?L \<longleftrightarrow> ?R")
proof -
  have "?L \<longleftrightarrow> (\<exists>m. (length m = 8 \<and> take 7 m = MAGIC_PREFIX \<and> m ! 7 = CONTAINER_VERSION) \<and> prefix m (unread d r)
      \<and> (\<exists>core. length core \<le> MAX_CORE_BYTES \<and> length core < 2 ^ 32 \<and> prefix (sec core) (drop 8 (unread d r))
      \<and> (\<exists>h. decode_core core = Inr h
      \<and> (\<exists>sw. length sw \<le> MAX_WRAPPER_SECTION \<and> length sw < 2 ^ 32
          \<and> prefix (sec sw) (drop (8 + length (sec core)) (unread d r))
      \<and> (\<exists>ws. decode_wrappers sw = Inr ws
      \<and> (\<exists>b. length b \<le> MAX_METADATA_BYTES \<and> length b < 2 ^ 32
          \<and> prefix (sec b) (drop (8 + length (sec core) + length (sec sw)) (unread d r))
          \<and> TAG_LEN < length b \<and> d' = d
          \<and> r' = advance r (8 + length (sec core) + length (sec sw) + length (sec b))
          \<and> x = \<lparr>hd_core = core, hd_header = h, hd_binding = locker_binding_of lc core, hd_wrappers = ws,
              hd_metadata = b\<rparr>))))))"
    unfolding read_head_def bind_read_exact [OF assms]
    by (simp add: Let_def bind_pure bind_guard bind_read_section [OF assms(1)] assms(2) not_le conj_ac)
  also have "\<dots> \<longleftrightarrow> ?R"
    unfolding magic_iff decode_core_iff decode_wrappers_iff
    by (auto simp: head_sections head_of_def head_ok_def head_bytes_def prefix_append add.commute add.left_commute)
  finally show ?thesis .
qed


lemma bind_corrupt_open:
  assumes "locker_crypto_ok lc"
  shows "io_bind (io_pure (open_chunk lc c i f b)) k d = (Inr y, d') \<longleftrightarrow>
    (\<exists>m. b = seal_chunk lc c i f m \<and> k m d = (Inr y, d'))"
  by (simp add: bind_pure open_chunk_iff [OF assms])

lemma length_sealed_chunks:
  assumes "locker_crypto_ok lc" and "length p \<le> n * left"
  shows "length (sealed_chunks lc c n left i p) = length p + TAG_LEN * left"
  using assms(2) by (induction left arbitrary: i p) (simp_all add: length_sealed [OF assms(1)] algebra_simps)

text \<open>An output that never fails, leaves the file being read alone, and adds to what it has.\<close>

definition plain_output :: "(bytes \<Rightarrow> unit locker_io) \<Rightarrow> (bytes \<Rightarrow> disk \<Rightarrow> disk) \<Rightarrow> nat \<Rightarrow> bool" where
  "plain_output out g j \<longleftrightarrow>
    (\<forall>b d. dk_faults d = [] \<longrightarrow> out b d = (Inr (), g b d) \<and> dk_faults (g b d) = []
      \<and> dk_inodes (g b d) j = dk_inodes d j)
    \<and> (\<forall>d. g [] d = d) \<and> (\<forall>a b d. g b (g a d) = g (a @ b) d)"

lemma unread_cong: "rd_inode r = Some j \<Longrightarrow> dk_inodes d' j = dk_inodes d j \<Longrightarrow> unread d' r = unread d r"
  by (simp add: unread_def)

lemma decrypt_loop_iff:
  assumes lc: "locker_crypto_ok lc" and out: "plain_output out g j"
    and "dk_faults d = []" and "rd_inode r = Some j" and "remaining \<le> n * left"
  shows "decrypt_loop lc c out n left i remaining r d = (Inr r', d') \<longleftrightarrow>
    (\<exists>p. length p = remaining \<and> prefix (sealed_chunks lc c n left i p) (unread d r)
      \<and> r' = advance r (remaining + TAG_LEN * left) \<and> d' = g p d)"
  using assms(3-)
proof (induction left arbitrary: i remaining r d)
  case 0
  then show ?case using out by (auto simp: plain_output_def)
next
  case (Suc left)
  let ?m = "min remaining n" and ?f = "left = 0"
  have o: "out b d = (Inr (), g b d)" "dk_faults (g b d) = []" "dk_inodes (g b d) j = dk_inodes d j" for b
    using out Suc.prems(1) by (auto simp: plain_output_def)
  let ?r = "advance r (?m + TAG_LEN)"
  have u: "unread (g b d) r = unread d r" for b
    using unread_cong [of r j "g b d" d] Suc.prems(2) o(3) by simp
  have le: "remaining - ?m \<le> n * left" using Suc.prems(3) by auto
  have "g q (g b d) = g (b @ q) d" for b q using out by (simp add: plain_output_def)
  then have ih: "decrypt_loop lc c out n left (i + 1) (remaining - ?m) ?r (g b d) = (Inr r', d') \<longleftrightarrow>
    (\<exists>q. length q = remaining - ?m \<and> prefix (sealed_chunks lc c n left (i + 1) q) (drop (?m + TAG_LEN) (unread d r))
      \<and> r' = advance r (remaining + TAG_LEN * Suc left) \<and> d' = g (b @ q) d)" for b
    using Suc.IH [OF o(2), of ?r "remaining - ?m" "i + 1"] Suc.prems(2) le
    by (simp add: u add.commute add.left_commute)
  have "decrypt_loop lc c out n (Suc left) i remaining r d = (Inr r', d') \<longleftrightarrow>
    (\<exists>b. length (seal_chunk lc c i ?f b) = ?m + TAG_LEN \<and> prefix (seal_chunk lc c i ?f b) (unread d r)
      \<and> decrypt_loop lc c out n left (i + 1) (remaining - ?m) ?r (g b d) = (Inr r', d'))"
    by (auto simp: Let_def bind_read_exact [OF Suc.prems(1,2)] bind_corrupt_open [OF lc]
        io_bind_simps(2) [of "out _" d, OF o(1)])
  also have "\<dots> \<longleftrightarrow> (\<exists>b q. length b = ?m \<and> length q = remaining - ?m \<and> prefix (seal_chunk lc c i ?f b) (unread d r)
      \<and> prefix (sealed_chunks lc c n left (i + 1) q) (drop (?m + TAG_LEN) (unread d r))
      \<and> r' = advance r (remaining + TAG_LEN * Suc left) \<and> d' = g (b @ q) d)"
    unfolding ih by (auto simp: length_sealed(1) [OF lc])
  also have "\<dots> \<longleftrightarrow> (\<exists>p. length p = remaining \<and> prefix (sealed_chunks lc c n (Suc left) i p) (unread d r)
      \<and> r' = advance r (remaining + TAG_LEN * Suc left) \<and> d' = g p d)" (is "?A \<longleftrightarrow> ?B")
  proof
    assume ?A
    then obtain b q where l: "length b = ?m" "length q = remaining - ?m" and "prefix (seal_chunk lc c i ?f b) (unread d r)"
      "prefix (sealed_chunks lc c n left (i + 1) q) (drop (?m + TAG_LEN) (unread d r))"
      "r' = advance r (remaining + TAG_LEN * Suc left)" "d' = g (b @ q) d" by blast
    moreover from l have "take n (b @ q) = b" "drop n (b @ q) = q" by (cases "remaining \<le> n"; simp)+
    ultimately show ?B
      by (intro exI [of _ "b @ q"])
        (simp add: prefix_append length_sealed(1) [OF lc] del: take_append drop_append)
  next
    assume ?B
    then obtain p where "length p = remaining" "prefix (sealed_chunks lc c n (Suc left) i p) (unread d r)"
      "r' = advance r (remaining + TAG_LEN * Suc left)" "d' = g p d" by blast
    then show ?A
      by (intro exI [of _ "take n p"] exI [of _ "drop n p"])
        (simp add: prefix_append length_sealed(1) [OF lc] min.commute)
  qed
  finally show ?case .
qed


subsection \<open>Writing without faults\<close>

lemma d_append_simps [simp]:
  "dk_nodes (d_append i b d) = dk_nodes d" "dk_next (d_append i b d) = dk_next d"
  "dk_faults (d_append i b d) = dk_faults d" "follow (d_append i b d) q = follow d q"
  "j \<noteq> i \<Longrightarrow> dk_inodes (d_append i b d) j = dk_inodes d j"
  "in_content (dk_inodes (d_append i b d) i) = in_content (dk_inodes d i) @ b"
  "d_append i [] d = d" "d_append i b (d_append i a d) = d_append i (a @ b) d"
  by (simp_all add: d_append_def put_inode_def follow_def split: option.split node.split)

lemma unread_append [simp]: "rd_inode r \<noteq> Some i \<Longrightarrow> unread (d_append i b d) r = unread d r"
  by (auto simp: unread_def split: option.split)

lemma write_all_nofault:
  "dk_faults d = [] \<Longrightarrow> locker_call (d_write_all i b) d = (Inr (), d_append i b d)"
  by (simp add: locker_call_def io_map_err_def d_write_all_def)

lemma bind_write_all:
  "dk_faults d = [] \<Longrightarrow> io_bind (locker_call (d_write_all i b)) k d = k () (d_append i b d)"
  by (simp add: io_bind_def write_all_nofault)

lemma write_section_nofault:
  assumes "dk_faults d = []" and "length b < 2 ^ 32"
  shows "write_section i b d = (Inr (), d_append i (sec b) d)"
  using assms by (simp add: write_section_def bind_write_all write_all_nofault sec_def)

lemma encrypt_loop_iff:
  assumes "dk_faults d = []" and "rd_inode r = Some j" and "j \<noteq> i" and "remaining \<le> n * left"
  shows "encrypt_loop lc c i n left index remaining r d = (Inr r', d') \<longleftrightarrow>
    remaining \<le> length (unread d r) \<and> r' = advance r remaining
    \<and> d' = d_append i (sealed_chunks lc c n left index (take remaining (unread d r))) d"
  using assms
proof (induction left arbitrary: index remaining r d)
  case 0
  then show ?case by auto
next
  case (Suc left)
  let ?m = "min remaining n" and ?u = "unread d r"
  let ?s = "\<lambda>b. seal_chunk lc c index (left = 0) b"
  have le: "remaining - ?m \<le> n * left" using Suc.prems(4) by auto
  have ih: "encrypt_loop lc c i n left (index + 1) (remaining - ?m) (advance r ?m) (d_append i (?s b) d) = (Inr r', d')
    \<longleftrightarrow> remaining - ?m \<le> length ?u - ?m \<and> r' = advance r remaining
      \<and> d' = d_append i (?s b @ sealed_chunks lc c n left (index + 1) (take (remaining - ?m) (drop ?m ?u))) d" for b
    using Suc.IH [of "d_append i (?s b) d" "advance r ?m" "remaining - ?m" "index + 1"] Suc.prems le by simp
  have t: "take n (take remaining ?u) = take ?m ?u" by (simp add: min.commute)
  have dr: "drop n (take remaining ?u) = take (remaining - ?m) (drop ?m ?u)"
    by (cases "remaining \<le> n") (simp_all add: drop_take)
  have "encrypt_loop lc c i n (Suc left) index remaining r d = (Inr r', d') \<longleftrightarrow>
    (\<exists>b. length b = ?m \<and> prefix b ?u \<and> remaining - ?m \<le> length ?u - ?m \<and> r' = advance r remaining
      \<and> d' = d_append i (?s b @ sealed_chunks lc c n left (index + 1) (take (remaining - ?m) (drop ?m ?u))) d)"
    by (simp add: Let_def bind_read_exact [OF Suc.prems(1,2)] bind_write_all [OF Suc.prems(1)] ih)
  also have "\<dots> \<longleftrightarrow> remaining \<le> length ?u \<and> r' = advance r remaining
    \<and> d' = d_append i (sealed_chunks lc c n (Suc left) index (take remaining ?u)) d"
    unfolding sealed_chunks.simps t dr ex_prefix by auto
  finally show ?case .
qed

lemma bind_ex:
  assumes "\<And>x w. m d = (Inr x, w) \<longleftrightarrow> (\<exists>p. A p \<and> x = R \<and> w = g p)"
  shows "io_bind m k d = (Inr y, d') \<longleftrightarrow> (\<exists>p. A p \<and> k R (g p) = (Inr y, d'))"
  unfolding io_bind_Inr assms by blast

lemma d_read_byte_end:
  assumes "dk_faults d = []" and "rd_inode r = Some j"
  shows "io_bind (locker_call (d_read_byte r)) (\<lambda>extra. if extra = [] then io_return () else io_fail e) d = (Inr u, d')
    \<longleftrightarrow> unread d r = [] \<and> d' = d"
  using assms by (auto simp: io_bind_Inr d_read_byte_def)

lemma encrypt_chunks_iff:
  assumes "dk_faults d = []" and "rd_inode r = Some j" and "j \<noteq> i" and "validate_core h = Inr ()"
  shows "encrypt_chunks lc c h i r d = (Inr u, d') \<longleftrightarrow>
    length (unread d r) = unat (co_plaintext_len h) \<and> d' = d_append i (body_bytes lc c h (unread d r)) d"
proof -
  note cover = chunks_cover [OF validate_core_chunk(1) [OF assms(4)]]
  have "io_bind (locker_call (d_read_byte r')) (\<lambda>extra. if extra = [] then io_return () else io_fail InputChanged)
      (d_append i b d) = (Inr u, d') \<longleftrightarrow> unread d r' = [] \<and> d' = d_append i b d"
    if "rd_inode r' = Some j" for r' b
    using d_read_byte_end [of "d_append i b d" r' j] that assms(1,3) by simp
  then show ?thesis
    using assms(2) by (auto simp: encrypt_chunks_def io_bind_Inr encrypt_loop_iff [OF assms(1-3) cover] body_bytes_def)
qed

lemma decrypt_chunks_iff:
  assumes "locker_crypto_ok lc" and "plain_output out g j"
    and "dk_faults d = []" and "rd_inode r = Some j" and "validate_core h = Inr ()"
  shows "decrypt_chunks lc c out h r d = (Inr u, d') \<longleftrightarrow>
    (\<exists>p. length p = unat (co_plaintext_len h) \<and> unread d r = body_bytes lc c h p \<and> d' = g p d)"
proof -
  note cover = chunks_cover [OF validate_core_chunk(1) [OF assms(5)]]
  let ?n = "unat (co_plaintext_len h) + TAG_LEN * unat (chunk_count h)"
  let ?r = "advance r ?n"
  have g: "dk_faults (g b d) = []" "dk_inodes (g b d) j = dk_inodes d j" for b
    using assms(2,3) by (auto simp: plain_output_def)
  have "unread (g b d) r = unread d r" for b
    using unread_cong [OF assms(4) g(2)] .
  then have e: "io_bind (locker_call (d_read_byte ?r)) (\<lambda>extra. if extra = [] then io_return () else io_fail Corrupt)
      (g b d) = (Inr (), d') \<longleftrightarrow> length (unread d r) \<le> ?n \<and> d' = g b d" for b
    using d_read_byte_end [OF g(1), of ?r j] assms(4) by simp
  have "decrypt_chunks lc c out h r d = (Inr u, d') \<longleftrightarrow>
    (\<exists>p. length p = unat (co_plaintext_len h) \<and> prefix (body_bytes lc c h p) (unread d r)
      \<and> length (unread d r) \<le> ?n \<and> d' = g p d)"
    unfolding decrypt_chunks_def
    by (subst bind_ex [where A = "\<lambda>p. length p = unat (co_plaintext_len h) \<and> prefix (body_bytes lc c h p) (unread d r)"
          and R = ?r and g = "\<lambda>p. g p d"])
      (simp_all add: decrypt_loop_iff [OF assms(1-4) cover] body_bytes_def e conj_ac)
  also have "\<dots> \<longleftrightarrow> (\<exists>p. length p = unat (co_plaintext_len h) \<and> unread d r = body_bytes lc c h p \<and> d' = g p d)"
    using length_sealed_chunks [OF assms(1), of _ "unat (co_chunk_size h)" "unat (chunk_count h)"] cover
    by (intro ex_cong1) (auto simp: body_bytes_def prefix_def)
  finally show ?thesis .
qed


subsection \<open>Whole containers\<close>

definition holds_file :: "disk \<Rightarrow> path \<Rightarrow> nat \<Rightarrow> bool" where
  "holds_file d p j \<longleftrightarrow> dk_nodes d (follow d p) = Some (FileNode j)"

definition opened :: "nat \<Rightarrow> reader_handle" where
  "opened j = \<lparr>rd_inode = Some j, rd_pos = 0\<rparr>"

lemma opened_simps [simp]: "rd_inode (opened j) = Some j" "unread d (opened j) = in_content (dk_inodes d j)"
  by (simp_all add: opened_def unread_def)

lemma holds_file_simps [simp]:
  "holds_file (d_append i b d) p j = holds_file d p j" "holds_file (settled d) p j = holds_file d p j"
  by (simp_all add: holds_file_def)

lemma bind_open:
  "dk_faults d = [] \<Longrightarrow> holds_file d p j \<Longrightarrow> io_bind (locker_call (d_open p)) k d = k (opened j) d"
  by (simp add: io_bind_def locker_call_def io_map_err_def d_open_def holds_file_def opened_def)

lemma sealed_metadata_bounds:
  assumes "locker_crypto_ok lc" and "metadata_ok m"
  shows "TAG_LEN < length (seal_metadata lc c (enc_metadata m))"
    and "length (seal_metadata lc c (enc_metadata m)) \<le> MAX_METADATA_BYTES"
proof -
  have "enc_metadata m \<noteq> []"
    by (simp add: enc_metadata_def)
  then show "TAG_LEN < length (seal_metadata lc c (enc_metadata m))"
    using length_sealed(2) [OF assms(1)] by simp
  show "length (seal_metadata lc c (enc_metadata m)) \<le> MAX_METADATA_BYTES"
    using length_enc_metadata [OF assms(2)] length_sealed(2) [OF assms(1)] by (simp add: locker_consts)
qed

lemma container_ok_head:
  assumes "locker_crypto_ok lc" and "container_ok h ws m p"
  shows "head_ok h ws (seal_metadata lc c (enc_metadata m))"
  using assms sealed_metadata_bounds by (simp add: container_ok_def head_ok_def)

lemma bind_read_head:
  assumes "dk_faults d = []" and "rd_inode r = Some j"
  shows "io_bind (read_head lc r) k d = (Inr y, d') \<longleftrightarrow> (\<exists>h ws b. head_ok h ws b \<and> prefix (head_bytes h ws b) (unread d r)
    \<and> k (head_of lc h ws b, advance r (length (head_bytes h ws b))) d = (Inr y, d'))"
  by (simp add: io_bind_Inr read_head_iff [OF assms]) blast

text \<open>After the head: the metadata opens, and the rest is the sealed plaintext.\<close>

lemma bind_open_metadata:
  assumes "locker_crypto_ok lc"
  shows "io_bind (io_pure (then_ok (open_metadata lc c b) decode_metadata)) k d = (Inr y, d') \<longleftrightarrow>
    (\<exists>m. metadata_ok m \<and> b = seal_metadata lc c (enc_metadata m) \<and> k m d = (Inr y, d'))"
  by (auto simp: bind_pure then_ok_eq_Inr open_metadata_iff [OF assms] decode_metadata_iff)

lemma locker_verify_iff:
  assumes "locker_crypto_ok lc" and "dk_faults d = []" and "holds_file d p j"
  shows "locker_verify lc p dek d = (Inr u, d') \<longleftrightarrow> d' = d \<and> (\<exists>h ws m plain. container_ok h ws m plain
    \<and> in_content (dk_inodes d j) = container_bytes lc dek h ws m plain)"
proof -
  let ?c = "\<lambda>h. locker_cipher lc dek h"
  have pl: "plain_output (\<lambda>_. io_return ()) (\<lambda>_ d. d) j" by (simp add: plain_output_def)
  have "locker_verify lc p dek d = (Inr u, d') \<longleftrightarrow> (\<exists>h ws b. head_ok h ws b \<and> prefix (head_bytes h ws b) (in_content (dk_inodes d j))
    \<and> (\<exists>m. metadata_ok m \<and> b = seal_metadata lc (?c h) (enc_metadata m)
    \<and> (\<exists>plain. length plain = unat (co_plaintext_len h)
      \<and> drop (length (head_bytes h ws b)) (in_content (dk_inodes d j)) = body_bytes lc (?c h) h plain \<and> d' = d)))"
    unfolding locker_verify_def bind_open [OF assms(2,3)]
    by (subst bind_read_head [OF assms(2), of _ j], simp, intro ex_cong1)
      (simp add: Let_def locker_cipher_def [symmetric] bind_open_metadata [OF assms(1)]
        decrypt_chunks_iff [OF assms(1) pl assms(2)] head_ok_def cong: conj_cong)
  also have "\<dots> \<longleftrightarrow> (\<exists>h ws m plain. head_ok h ws (seal_metadata lc (?c h) (enc_metadata m)) \<and> metadata_ok m
      \<and> length plain = unat (co_plaintext_len h)
      \<and> prefix (head_bytes h ws (seal_metadata lc (?c h) (enc_metadata m))) (in_content (dk_inodes d j))
      \<and> drop (length (head_bytes h ws (seal_metadata lc (?c h) (enc_metadata m)))) (in_content (dk_inodes d j))
        = body_bytes lc (?c h) h plain \<and> d' = d)"
    by blast
  also have "\<dots> \<longleftrightarrow> (\<exists>h ws m plain. d' = d \<and> container_ok h ws m plain
    \<and> in_content (dk_inodes d j) = container_bytes lc dek h ws m plain)"
    by (intro ex_cong1)
      (auto simp: container_bytes_def container_ok_def head_ok_def prefix_def sealed_metadata_bounds [OF assms(1)])
  finally show ?thesis by simp
qed

lemma write_container_iff:
  assumes "dk_faults d = []" and "holds_file d source j" and "j \<noteq> i" and "head_ok h ws b"
  shows "write_container lc c h ws b source i d = (Inr u, d') \<longleftrightarrow>
    length (in_content (dk_inodes d j)) = unat (co_plaintext_len h)
    \<and> d' = d_append i (head_bytes h ws b @ body_bytes lc c h (in_content (dk_inodes d j))) d"
proof -
  have l: "length (encode_core h) < 2 ^ 32" "length (enc_wrappers ws) < 2 ^ 32" "length b < 2 ^ 32"
    using assms(4) head_sections(2,4,5) by (simp_all add: head_ok_def)
  have s: "io_bind (write_section i x) k w = k () (d_append i (sec x) w)"
    if "dk_faults w = []" and "length x < 2 ^ 32" for x k and w
    using write_section_nofault [OF that] by (simp add: io_bind_def)
  have e: "encode_wrappers ws = Inr (enc_wrappers ws)" and v: "validate_core h = Inr ()"
    using assms(4) encode_wrappers_ok by (simp_all add: head_ok_def)
  have p: "io_bind (io_pure (Inr x)) k w = k x w" for x k and w by (simp add: io_bind_def io_pure_def)
  show ?thesis
    using assms(1-3) l
    by (simp add: write_container_def bind_write_all s e p bind_open [where j = j] encrypt_chunks_iff [OF _ _ _ v, of _ _ j]
        head_bytes_def)
qed

text \<open>A container says what it holds, in one way.\<close>

lemma sec_inject:
  assumes "length a < 2 ^ 32" and "length b < 2 ^ 32"
  shows "sec a @ x = sec b @ y \<longleftrightarrow> a = b \<and> x = y"
proof -
  have "length a = length b" if "to_be_bytes 4 (word_of_nat (length a)) = to_be_bytes 4 (word_of_nat (length b))"
    using that from_be_length [of "to_be_bytes 4 (word_of_nat (length a))"] assms by (metis length_to_be_bytes)
  then show ?thesis by (auto simp: sec_def)
qed

lemma head_bytes_inject:
  assumes "head_ok h ws b" and "head_ok h' ws' b'"
  shows "head_bytes h ws b @ x = head_bytes h' ws' b' @ y \<longleftrightarrow> h = h' \<and> ws = ws' \<and> b = b' \<and> x = y"
proof -
  have "encode_core h = encode_core h' \<longleftrightarrow> h = h'" "enc_wrappers ws = enc_wrappers ws' \<longleftrightarrow> ws = ws'"
    using assms decode_core_iff decode_wrappers_iff by (metis head_ok_def sum.inject(2))+
  then show ?thesis
    using assms by (simp add: head_bytes_def sec_inject head_sections head_ok_def)
qed

lemma container_bytes_inject:
  assumes "locker_crypto_ok lc" and "container_ok h ws m p" and "container_ok h' ws' m' p'"
  shows "container_bytes lc dek h ws m p = container_bytes lc dek h' ws' m' p' \<longleftrightarrow> h = h' \<and> ws = ws' \<and> m = m' \<and> p = p'"
proof -
  note ok = assms(2,3) [unfolded container_ok_def]
  have "seal_metadata lc c (enc_metadata m) = seal_metadata lc c (enc_metadata m') \<longleftrightarrow> m = m'" for c
    using open_metadata_iff [OF assms(1)] decode_metadata_iff ok by (metis sum.inject(2))
  moreover have "body_bytes lc c h p = body_bytes lc c h p' \<longleftrightarrow> p = p'" if "h = h'" for c
    using sealed_chunks_inject [OF assms(1), of p p' "unat (co_chunk_size h)" "unat (chunk_count h)" c 0 "[]" "[]"]
      chunks_cover [OF validate_core_chunk(1), of h] ok that by (simp add: body_bytes_def)
  ultimately show ?thesis
    using head_bytes_inject [OF container_ok_head [OF assms(1,2)] container_ok_head [OF assms(1,3)]]
    by (auto simp: container_bytes_def)
qed

text \<open>The wrappers that can be written are the ones that can be read.\<close>

lemma write_wrappers_Inr:
  "write_wrappers ws w = Inr w' \<Longrightarrow> x \<in> set ws \<Longrightarrow> validate_wrapper x = Inr ()"
  by (induction ws arbitrary: w) (auto simp: then_ok_eq_Inr)

lemma encode_wrappers_Inr:
  assumes "encode_wrappers ws = Inr b" and "\<And>w. w \<in> set ws \<Longrightarrow> is_str (wr_id w)"
  shows "wrappers_ok ws" and "b = enc_wrappers ws"
proof -
  show ok: "wrappers_ok ws"
    using assms write_wrappers_Inr
    by (auto simp: encode_wrappers_def wrappers_ok_def wrapper_ok_def then_ok_eq_Inr split: if_splits)
  show "b = enc_wrappers ws" using encode_wrappers_ok [OF ok] assms(1) by simp
qed

end
