(* ===== verification/Locker_Safety.thy ===== *)
theory Locker_Safety
  imports Locker_Container
begin

text \<open>
  No file is lost: whatever calls fail, and wherever an operation stops, the file it works on is
  still there, or a complete replacement is.
\<close>

subsection \<open>What each call leaves alone\<close>

definition intact :: "path \<Rightarrow> nat \<Rightarrow> bytes \<Rightarrow> disk \<Rightarrow> bool" where
  "intact p i c d \<longleftrightarrow> dk_nodes d p = Some (FileNode i) \<and> in_content (dk_inodes d i) = c \<and> i < dk_next d"

definition fault_blind :: "(disk \<Rightarrow> bool) \<Rightarrow> bool" where
  "fault_blind I \<longleftrightarrow> (\<forall>d fs. I (d\<lparr>dk_faults := fs\<rparr>) = I d)"

definition keeps :: "(disk \<Rightarrow> bool) \<Rightarrow> (disk, 'e, 'a) io_on \<Rightarrow> bool" where
  "keeps I m \<longleftrightarrow> io_triple I m (\<lambda>_. I) I"

named_theorems keeps_rules "computations that keep a property of the disk"

lemma intact_faults [simp]: "intact p i c (d\<lparr>dk_faults := fs\<rparr>) = intact p i c d"
  by (simp add: intact_def)

lemma intact_settled [simp]: "intact p i c (settled d) = intact p i c d"
  by (simp add: intact_def)

lemma blind_intact [keeps_rules]: "fault_blind (intact p i c)"
  by (simp add: fault_blind_def)

lemma blind_conj [keeps_rules]: "fault_blind I \<Longrightarrow> fault_blind J \<Longrightarrow> fault_blind (\<lambda>d. I d \<and> J d)"
  by (simp add: fault_blind_def)

lemma blind_ex [keeps_rules]: "(\<And>x. fault_blind (J x)) \<Longrightarrow> fault_blind (\<lambda>d. \<exists>x. J x d)"
  by (simp add: fault_blind_def)

lemma blind_const [keeps_rules]: "fault_blind (\<lambda>_. b)"
  by (simp add: fault_blind_def)

lemma call_triple:
  assumes "fault_blind I" and "\<And>f d. I d \<Longrightarrow> E (on_fault f d)"
    and "\<And>d. I d \<Longrightarrow> (case act d of (Inl e, d') \<Rightarrow> E d' | (Inr x, d') \<Rightarrow> Q x d')"
  shows "io_triple I (d_call on_fault act) Q E"
  unfolding io_triple_def
proof (intro allI impI)
  fix d assume "I d"
  then have I: "I (d\<lparr>dk_faults := fs\<rparr>)" for fs using assms(1) by (simp add: fault_blind_def)
  show "case d_call on_fault act d of (Inl e, d') \<Rightarrow> E d' | (Inr x, d') \<Rightarrow> Q x d'"
    using assms(2) [OF I] assms(3) [OF I] assms(3) [OF \<open>I d\<close>]
    by (auto simp: d_call_def split: list.split option.split)
qed

lemma keeps_iff: "keeps I m \<longleftrightarrow> (\<forall>d. I d \<longrightarrow> I (snd (m d)))"
  unfolding keeps_def io_triple_def
  by (rule all_cong1) (simp add: case_prod_beta split: sum.split)

lemma keeps_bind [keeps_rules]: "keeps I m \<Longrightarrow> (\<And>x. keeps I (k x)) \<Longrightarrow> keeps I (io_bind m k)"
  unfolding keeps_def by (rule io_triple_bind)

lemma keeps_simple [keeps_rules]:
  "keeps I (io_return x)" "keeps I (io_fail e)" "keeps I (io_pure r)"
  by (auto simp: keeps_def io_triple_def io_return_def io_fail_def io_pure_def split: sum.split)

lemma keeps_map_err [keeps_rules]: "keeps I m \<Longrightarrow> keeps I (io_map_err f m)"
  unfolding keeps_def by (rule io_map_err_triple)

lemma keeps_locker_call [keeps_rules]: "keeps I m \<Longrightarrow> keeps I (locker_call m)"
  unfolding locker_call_def by (rule keeps_map_err)

lemma keeps_truncated [keeps_rules]: "keeps I m \<Longrightarrow> keeps I (truncated m)"
  unfolding truncated_def by (rule keeps_map_err)

lemma keeps_match [keeps_rules]:
  "keeps I m \<Longrightarrow> (\<And>x. keeps I (k x)) \<Longrightarrow> (\<And>e. keeps I (h e)) \<Longrightarrow> keeps I (io_match m k h)"
  unfolding keeps_def by (rule io_match_triple)

lemma keeps_ignore [keeps_rules]: "keeps I m \<Longrightarrow> keeps I (io_ignore m)"
  by (simp add: keeps_iff io_ignore_def)

lemma keeps_on_error [keeps_rules]: "keeps I m \<Longrightarrow> keeps I h \<Longrightarrow> keeps I (io_on_error m h)"
  unfolding keeps_iff io_on_error_def by (auto simp: case_prod_beta split: sum.split)

lemma keeps_if [keeps_rules]: "keeps I m \<Longrightarrow> keeps I n \<Longrightarrow> keeps I (if b then m else n)"
  by simp

lemma keeps_split [keeps_rules]: "(\<And>a b. keeps I (k a b)) \<Longrightarrow> keeps I (case x of (a, b) \<Rightarrow> k a b)"
  by (cases x) simp

lemma keeps_cases [keeps_rules]:
  "keeps I a \<Longrightarrow> (\<And>x. keeps I (b x)) \<Longrightarrow> keeps I (case y of None \<Rightarrow> a | Some x \<Rightarrow> b x)"
  "(\<And>j. keeps I (f j)) \<Longrightarrow> (\<And>q. keeps I (l q)) \<Longrightarrow> keeps I r \<Longrightarrow> keeps I o' \<Longrightarrow>
    keeps I (case n of FileNode j \<Rightarrow> f j | LinkNode q \<Rightarrow> l q | DirNode \<Rightarrow> r | OtherNode \<Rightarrow> o')"
  "(\<And>c. keeps I (g c)) \<Longrightarrow> (\<And>r. keeps I (h r)) \<Longrightarrow> keeps I (case key of PhoneKey c \<Rightarrow> g c | RecoveryKey r \<Rightarrow> h r)"
  by (simp_all split: option.split node.split unlock_key.split)

lemma keeps_reading_calls [keeps_rules]:
  assumes "fault_blind I"
  shows "keeps I (d_symlink_metadata p)" "keeps I (d_metadata p)" "keeps I (d_open p)" "keeps I (d_read_byte r)"
    "keeps I (d_read_rest r)" "keeps I (d_sync_all i)" "keeps I (d_sync_directory p)"
  unfolding keeps_def d_symlink_metadata_def d_metadata_def d_open_def d_read_byte_def d_read_rest_def d_sync_all_def
    d_sync_directory_def
  by (rule call_triple [OF assms]; auto split: option.split node.split)+

lemma keeps_read_exact [keeps_rules]:
  assumes "fault_blind I"
  shows "keeps I (d_read_exact n r)"
proof -
  have "io_triple I (d_call (\<lambda>_ d. d) (\<lambda>d. if rd_inode r = None then (Inl (OtherIo 21), d)
     else if n \<le> length (unread d r) then (Inr (take n (unread d r), r\<lparr>rd_pos := rd_pos r + n\<rparr>), d)
     else (Inl UnexpectedEof, d))) (\<lambda>_. I) I"
    by (rule call_triple [OF assms]) auto
  then show ?thesis by (auto simp: keeps_def io_triple_def d_read_exact_def)
qed

lemma keeps_write_all [keeps_rules]: "k \<noteq> i \<Longrightarrow> keeps (intact p i c) (d_write_all k b)"
  unfolding keeps_def d_write_all_def
  by (rule call_triple) (auto simp: intact_def keeps_rules)

lemma keeps_remove [keeps_rules]: "q \<noteq> p \<Longrightarrow> keeps (intact p i c) (d_remove_file q)"
  unfolding keeps_def d_remove_file_def
  by (rule call_triple) (auto simp: intact_def keeps_rules unlink_node_def put_inode_def split: option.split node.split)

lemma keeps_rename [keeps_rules]: "a \<noteq> p \<Longrightarrow> b \<noteq> p \<Longrightarrow> keeps (intact p i c) (d_rename a b)"
  unfolding keeps_def d_rename_def
  by (rule call_triple) (auto simp: intact_def keeps_rules unlink_node_def put_inode_def split: option.split node.split)

lemma keeps_attributes [keeps_rules]:
  "keeps (intact p i c) (d_set_modified q ms)" "keeps (intact p i c) (d_set_permissions q m)"
  unfolding keeps_def d_set_modified_def d_set_permissions_def
  by (rule call_triple; auto simp: intact_def keeps_rules put_inode_def split: option.split node.split)+

subsection \<open>The operations that only read, and the ones that write elsewhere\<close>

lemma keeps_checks [keeps_rules]:
  "fault_blind I \<Longrightarrow> keeps I (sole_regular_file p b)" "fault_blind I \<Longrightarrow> keeps I (occupied p)"
  "fault_blind I \<Longrightarrow> keeps I (sync_directory p)"
  unfolding sole_regular_file_def occupied_def sync_directory_def Let_def by (intro keeps_rules; assumption)+

lemma keeps_read_section [keeps_rules]: "fault_blind I \<Longrightarrow> keeps I (read_section r n l)"
  unfolding read_section_def Let_def by (intro keeps_rules)

lemma keeps_read_head [keeps_rules]: "fault_blind I \<Longrightarrow> keeps I (read_head lc r)"
  unfolding read_head_def Let_def by (intro keeps_rules)

lemma keeps_decrypt_loop [keeps_rules]:
  "fault_blind I \<Longrightarrow> (\<And>b. keeps I (out b)) \<Longrightarrow> keeps I (decrypt_loop lc c out n left i remaining r)"
proof (induction left arbitrary: i remaining r)
  case 0
  show ?case by (simp add: keeps_rules)
next
  case (Suc left)
  show ?case unfolding decrypt_loop.simps Let_def by (intro keeps_rules Suc)
qed

lemma keeps_decrypt_chunks [keeps_rules]:
  "fault_blind I \<Longrightarrow> (\<And>b. keeps I (out b)) \<Longrightarrow> keeps I (decrypt_chunks lc c out h r)"
  unfolding decrypt_chunks_def by (intro keeps_rules)

lemma keeps_verify [keeps_rules]: "fault_blind I \<Longrightarrow> keeps I (locker_verify lc p dek)"
  unfolding locker_verify_def Let_def by (intro keeps_rules)

lemma keeps_write_section [keeps_rules]: "k \<noteq> i \<Longrightarrow> keeps (intact p i c) (write_section k b)"
  unfolding write_section_def by (intro keeps_rules)

lemma keeps_encrypt_loop [keeps_rules]: "k \<noteq> i \<Longrightarrow> keeps (intact p i c) (encrypt_loop lc e k n left x remaining r)"
proof (induction left arbitrary: x remaining r)
  case 0
  show ?case by (simp add: keeps_rules)
next
  case (Suc left)
  show ?case unfolding encrypt_loop.simps Let_def by (intro keeps_rules Suc)
qed

lemma keeps_write_container [keeps_rules]:
  "k \<noteq> i \<Longrightarrow> keeps (intact p i c) (write_container lc e h ws b source k)"
  unfolding write_container_def encrypt_chunks_def by (intro keeps_rules)

lemma keeps_write_rekeyed [keeps_rules]: "k \<noteq> i \<Longrightarrow> keeps (intact p i c) (write_rekeyed h ws r k)"
  unfolding write_rekeyed_def by (intro keeps_rules)

lemma keeps_restore_attributes [keeps_rules]: "keeps (intact p i c) (restore_attributes q m)"
  unfolding restore_attributes_def by (intro keeps_rules)


subsection \<open>A new file is complete when it appears\<close>

lemma triple_conseq:
  assumes "io_triple P m Q E" and "\<And>d. P' d \<Longrightarrow> P d" and "\<And>x d. Q x d \<Longrightarrow> Q' x d" and "\<And>d. E d \<Longrightarrow> E' d"
  shows "io_triple P' m Q' E'"
  by (rule io_tripleI) (use io_tripleD [OF assms(1)] assms(2-) in blast)+

lemma triple_case:
  assumes "io_triple P m Q E" and "P d" and "\<And>d'. E d' \<Longrightarrow> E' d'" and "\<And>x d'. Q x d' \<Longrightarrow> Q' x d'"
  shows "case m d of (Inl e, d') \<Rightarrow> E' d' | (Inr x, d') \<Rightarrow> Q' x d'"
  using io_tripleD [OF assms(1,2)] assms(3,4) by (auto split: prod.split sum.split)

lemma triple_pure:
  assumes "\<phi> \<Longrightarrow> io_triple P m Q E"
  shows "io_triple (\<lambda>d. P d \<and> \<phi>) m Q E"
  using assms by (auto simp: io_triple_def)

lemma triple_keeps: "keeps I m \<Longrightarrow> (\<And>d. I d \<Longrightarrow> E d) \<Longrightarrow> io_triple I m (\<lambda>_. I) E"
  unfolding keeps_def by (erule triple_conseq) auto

lemma triple_on_error:
  assumes "io_triple P m Q E" and "keeps E h"
  shows "io_triple P (io_on_error m h) Q E"
  unfolding io_triple_def
proof (intro allI impI)
  fix d assume "P d"
  with assms(1) have "case m d of (Inl e, d') \<Rightarrow> E d' | (Inr x, d') \<Rightarrow> Q x d'" by (simp add: io_triple_def)
  with assms(2) show "case io_on_error m h d of (Inl e, d') \<Rightarrow> E d' | (Inr x, d') \<Rightarrow> Q x d'"
    by (auto simp: io_on_error_def keeps_iff split: prod.splits sum.splits)
qed

lemma triple_pure_step: "(\<And>x. r = Inr x \<Longrightarrow> io_triple P (k x) Q E) \<Longrightarrow> (\<And>d. P d \<Longrightarrow> E d) \<Longrightarrow> io_triple P (io_bind (io_pure r) k) Q E"
  by (cases r) (auto simp: io_triple_def io_bind_def io_pure_def)

text \<open>A file that is not the one being looked after, and holds what is wanted.\<close>

definition another :: "nat \<Rightarrow> path \<Rightarrow> (bytes \<Rightarrow> bool) \<Rightarrow> disk \<Rightarrow> bool" where
  "another i p \<psi> d \<longleftrightarrow> (\<exists>k B. k \<noteq> i \<and> \<psi> B \<and> intact p k B d)"

lemma blind_another [keeps_rules]: "fault_blind (another i p \<psi>)"
  unfolding another_def by (intro keeps_rules)

lemma keeps_conj: "keeps I m \<Longrightarrow> keeps J m \<Longrightarrow> keeps (\<lambda>d. I d \<and> J d) m"
  by (simp add: keeps_iff)

lemma keeps_another: "(\<And>k B. keeps (intact p k B) m) \<Longrightarrow> keeps (another i p \<psi>) m"
  unfolding keeps_iff another_def by blast

lemma triple_another:
  "(\<And>k B. k \<noteq> i \<Longrightarrow> \<psi> B \<Longrightarrow> io_triple (\<lambda>d. I d \<and> intact q k B d) m Q E) \<Longrightarrow>
    io_triple (\<lambda>d. I d \<and> another i q \<psi> d) m Q E"
  unfolding io_triple_def another_def by (metis (no_types, lifting))

lemma unlink_simps [simp]:
  "dk_nodes (unlink_node n d) = dk_nodes d" "dk_next (unlink_node n d) = dk_next d"
  "in_content (dk_inodes (unlink_node n d) k) = in_content (dk_inodes d k)"
  by (simp_all add: unlink_node_def put_inode_def split: option.split node.split)

lemma create_new_spec:
  "io_triple (intact s i c) (d_create_new t) (\<lambda>k d. (intact s i c d \<and> intact t k [] d) \<and> k \<noteq> i \<and> t \<noteq> s) (intact s i c)"
  unfolding d_create_new_def
  by (rule call_triple) (auto simp: intact_def keeps_rules put_inode_def split: option.split)

lemma atomic_create_spec:
  "io_triple (intact s i c) (atomic_create sfx dest)
    (\<lambda>f d. (intact s i c d \<and> intact (af_temporary f) (af_inode f) [] d) \<and> af_inode f \<noteq> i \<and> af_temporary f \<noteq> s
      \<and> af_destination f = dest) (intact s i c)"
  unfolding atomic_create_def
proof (rule io_triple_bind)
  show "io_triple (intact s i c) (occupied dest) (\<lambda>_. intact s i c) (intact s i c)"
    by (rule keeps_rules [unfolded keeps_def])+
next
  fix taken
  let ?Q = "\<lambda>f d. (intact s i c d \<and> intact (af_temporary f) (af_inode f) [] d) \<and> af_inode f \<noteq> i \<and> af_temporary f \<noteq> s
    \<and> af_destination f = dest"
  have "io_triple (intact s i c) (io_bind (locker_call (d_create_new t))
      (\<lambda>k. io_return \<lparr>af_temporary = t, af_destination = dest, af_inode = k\<rparr>)) ?Q (intact s i c)" for t
    unfolding locker_call_def
    by (rule io_triple_bind [OF io_map_err_triple [OF create_new_spec]]) (auto simp: io_triple_def io_return_def)
  then show "io_triple (intact s i c) (if taken then io_fail (DestinationExists dest) else
     io_bind (io_pure (temporary_sibling sfx dest)) (\<lambda>t. io_bind (locker_call (d_create_new t))
      (\<lambda>k. io_return \<lparr>af_temporary = t, af_destination = dest, af_inode = k\<rparr>))) ?Q (intact s i c)"
    by (cases taken) (auto intro: io_fail_triple triple_pure_step)
qed

lemma commit_spec:
  fixes f :: atomic_file
  assumes "af_inode f \<noteq> i" and "af_temporary f \<noteq> s" and "af_destination f \<noteq> s"
  shows "io_triple (\<lambda>d. intact s i c d \<and> (\<exists>B. \<psi> B \<and> intact (af_temporary f) (af_inode f) B d)) (atomic_commit f)
    (\<lambda>_ d. intact s i c d \<and> another i (af_destination f) \<psi> d) (intact s i c)"
proof -
  let ?P = "\<lambda>d. intact s i c d \<and> (\<exists>B. \<psi> B \<and> intact (af_temporary f) (af_inode f) B d)"
  have b: "fault_blind ?P" by (intro keeps_rules)
  have rename: "io_triple ?P (d_rename (af_temporary f) (af_destination f))
    (\<lambda>_ d. intact s i c d \<and> another i (af_destination f) \<psi> d) (intact s i c)"
    unfolding d_rename_def using assms
    by (intro call_triple [OF b])
      (auto simp: intact_def another_def unlink_node_def put_inode_def split: option.split node.split)
  show ?thesis
    unfolding atomic_commit_def
  proof (rule io_triple_bind)
    show "io_triple ?P (locker_call (d_sync_all (af_inode f))) (\<lambda>_. ?P) (intact s i c)"
      by (rule triple_keeps) (auto intro: keeps_rules b)
  next
    fix u
    show "io_triple ?P (io_bind (occupied (af_destination f)) (\<lambda>taken.
        if taken then io_fail (DestinationExists (af_destination f))
        else locker_call (d_rename (af_temporary f) (af_destination f))))
      (\<lambda>_ d. intact s i c d \<and> another i (af_destination f) \<psi> d) (intact s i c)"
    proof (rule io_triple_bind)
      show "io_triple ?P (occupied (af_destination f)) (\<lambda>_. ?P) (intact s i c)"
        by (rule triple_keeps) (auto intro: keeps_rules b)
      show "io_triple ?P (if taken then io_fail (DestinationExists (af_destination f))
        else locker_call (d_rename (af_temporary f) (af_destination f)))
        (\<lambda>_ d. intact s i c d \<and> another i (af_destination f) \<psi> d) (intact s i c)" for taken
        using rename by (auto simp: locker_call_def io_triple_def io_fail_def intro!: io_map_err_triple [unfolded io_triple_def])
    qed
  qed
qed

lemma with_atomic_file_spec:
  assumes "dest \<noteq> s"
    and fill: "\<And>k t. k \<noteq> i \<Longrightarrow> t \<noteq> s \<Longrightarrow> io_triple (\<lambda>d. intact s i c d \<and> intact t k [] d) (fill k)
      (\<lambda>_ d. intact s i c d \<and> (\<exists>B. \<psi> B \<and> intact t k B d)) (intact s i c)"
  shows "io_triple (intact s i c) (with_atomic_file sfx dest fill)
    (\<lambda>_ d. intact s i c d \<and> another i dest \<psi> d) (intact s i c)"
  unfolding with_atomic_file_def
proof (rule io_triple_bind [OF atomic_create_spec], rule triple_pure, elim conjE)
  fix f :: atomic_file
  assume f: "af_inode f \<noteq> i" "af_temporary f \<noteq> s" "af_destination f = dest"
  let ?Q = "\<lambda>d. intact s i c d \<and> another i dest \<psi> d"
  have "io_triple (\<lambda>d. intact s i c d \<and> intact (af_temporary f) (af_inode f) [] d)
    (io_bind (fill (af_inode f)) (\<lambda>_. atomic_commit f)) (\<lambda>_. ?Q) (intact s i c)"
    using f assms(1) commit_spec [of f i s c \<psi>] by (intro io_triple_bind [OF fill]) auto
  then have "io_triple (\<lambda>d. intact s i c d \<and> intact (af_temporary f) (af_inode f) [] d)
    (io_on_error (io_bind (fill (af_inode f)) (\<lambda>_. atomic_commit f)) (d_remove_file (af_temporary f)))
    (\<lambda>_. ?Q) (intact s i c)"
    using f by (intro triple_on_error) (auto intro: keeps_rules)
  moreover have "io_triple ?Q (sync_directory dest) (\<lambda>_. ?Q) (intact s i c)"
    by (rule triple_keeps) (auto intro!: keeps_rules)
  ultimately show "io_triple (\<lambda>d. intact s i c d \<and> intact (af_temporary f) (af_inode f) [] d)
    (io_bind (io_on_error (io_bind (fill (af_inode f)) (\<lambda>_. atomic_commit f)) (d_remove_file (af_temporary f)))
      (\<lambda>_. sync_directory dest)) (\<lambda>_. ?Q) (intact s i c)"
    by (rule io_triple_bind)
qed


subsection \<open>Locking\<close>

text \<open>The phone does not touch the files, and its wrappers carry text as text.\<close>

definition quiet :: "'a locker_io \<Rightarrow> bool" where
  "quiet m \<longleftrightarrow> (\<forall>d. settled (snd (m d)) = settled d)"

definition custodian_ok :: "custodian \<Rightarrow> bool" where
  "custodian_ok cu \<longleftrightarrow> (\<forall>a b. quiet (cu_wrap cu a) \<and> quiet (cu_unwrap cu b))
    \<and> (\<forall>a d w d'. cu_wrap cu a d = (Inr w, d') \<longrightarrow> is_str (wr_id w))"

definition locker_random_ok :: "locker_random \<Rightarrow> bool" where
  "locker_random_ok rnd \<longleftrightarrow> length (lr_header rnd) = NONCE_PREFIX_LEN + SALT_LEN \<and> length (lr_dek rnd) = LOCKER_KEY_LEN
    \<and> length (lr_recovery_key rnd) = LOCKER_KEY_LEN \<and> length (lr_recovery rnd) = SALT_LEN + NONCE_LEN"

lemma keeps_quiet:
  assumes "fault_blind I" and "quiet m"
  shows "keeps I m"
proof -
  have s: "I (settled d) = I d" for d using assms(1) by (simp add: settled_def fault_blind_def)
  have "settled (snd (m d)) = settled d" for d using assms(2) by (simp add: quiet_def)
  then show ?thesis unfolding keeps_iff by (metis s)
qed

lemma wrap_made:
  assumes "custodian_ok cu" and "fault_blind I"
  shows "io_triple I (cu_wrap cu a) (\<lambda>w d. I d \<and> is_str (wr_id w) \<and> (\<exists>d0 d1. cu_wrap cu a d0 = (Inr w, d1))) I"
proof -
  have k: "keeps I (cu_wrap cu a)" using assms keeps_quiet by (auto simp: custodian_ok_def)
  have "is_str (wr_id w)" if "cu_wrap cu a d = (Inr w, d')" for d w d'
    using assms(1) that unfolding custodian_ok_def by blast
  with k show ?thesis
    unfolding keeps_def io_triple_def by (fastforce split: sum.splits prod.splits)
qed

lemma wrap_spec:
  assumes "custodian_ok cu" and "fault_blind I"
  shows "io_triple I (cu_wrap cu a) (\<lambda>w d. I d \<and> is_str (wr_id w)) I"
  by (rule triple_conseq [OF wrap_made [OF assms]]) auto

lemma sole_regular_file_spec:
  "io_triple (intact s i c) (sole_regular_file s b)
    (\<lambda>st d. intact s i c d \<and> st_node st = FileNode i \<and> st_len st = word_of_nat (length c)) (intact s i c)"
proof -
  have "io_triple (intact s i c) (d_symlink_metadata s)
    (\<lambda>st d. intact s i c d \<and> st_node st = FileNode i \<and> st_len st = word_of_nat (length c)) (intact s i c)"
    unfolding d_symlink_metadata_def
    by (rule call_triple) (auto simp: keeps_rules intact_def stat_of_def)
  then show ?thesis
    unfolding sole_regular_file_def locker_call_def
    by (rule io_triple_bind [OF io_map_err_triple])
      (auto simp: io_triple_def io_bind_def io_return_def io_fail_def)
qed

text \<open>What a successful run does follows from the run without faults.\<close>

lemma reading_spec:
  assumes "keeps I m" and "steady m" and "fault_blind I"
    and "\<And>d d' x. dk_faults d = [] \<Longrightarrow> I d \<Longrightarrow> m d = (Inr x, d') \<Longrightarrow> \<phi> x"
  shows "io_triple I m (\<lambda>x d. I d \<and> \<phi> x) I"
proof (rule io_tripleI)
  fix d e d' assume "I d" and "m d = (Inl e, d')"
  with assms(1) show "I d'" by (auto simp: keeps_iff dest!: spec [of _ d])
next
  fix d x d' assume I: "I d" and m: "m d = (Inr x, d')"
  have "m (settled d) = (Inr x, settled d')" using assms(2) m by (auto simp: steady_def)
  moreover have "I (settled d)" using assms(3) I by (simp add: fault_blind_def settled_def)
  ultimately have "\<phi> x" using assms(4) by (metis settled_simps(5))
  moreover have "I d'" using assms(1) I m by (auto simp: keeps_iff dest!: spec [of _ d])
  ultimately show "I d' \<and> \<phi> x" by simp
qed

lemma fill_spec:
  assumes "keeps (intact s i c) m" and "steady m" and "k \<noteq> i"
    and nofault: "\<And>d d' u. dk_faults d = [] \<Longrightarrow> intact s i c d \<Longrightarrow> m d = (Inr u, d') \<Longrightarrow> \<exists>B. \<psi> B \<and> d' = d_append k B d"
  shows "io_triple (\<lambda>d. intact s i c d \<and> intact t k [] d) m
    (\<lambda>_ d. intact s i c d \<and> (\<exists>B. \<psi> B \<and> intact t k B d)) (intact s i c)"
proof (rule io_tripleI)
  fix d e d' assume "intact s i c d \<and> intact t k [] d" and "m d = (Inl e, d')"
  with assms(1) show "intact s i c d'" by (auto simp: keeps_iff dest!: spec [of _ d])
next
  fix d u d' assume pre: "intact s i c d \<and> intact t k [] d" and m: "m d = (Inr u, d')"
  have "m (settled d) = (Inr u, settled d')" using assms(2) m by (auto simp: steady_def)
  then obtain B where B: "\<psi> B" and d': "settled d' = d_append k B (settled d)"
    using nofault [of "settled d" u "settled d'"] pre by auto
  have "intact t k B (settled d')" and "intact s i c (settled d')"
    using pre assms(3) unfolding d' intact_def by auto
  with B show "intact s i c d' \<and> (\<exists>B. \<psi> B \<and> intact t k B d')" by auto
qed

lemma intact_holds: "intact p i c d \<Longrightarrow> holds_file d p i"
  by (simp add: intact_def holds_file_def follow_def)

lemma write_container_wrappers:
  "write_container lc e h ws b s k d = (Inr u, d') \<Longrightarrow> \<exists>sb. encode_wrappers ws = Inr sb"
  by (auto simp: write_container_def io_bind_Inr)

definition written :: "locker_crypto \<Rightarrow> container_cipher \<Rightarrow> core_header \<Rightarrow> wrapper list \<Rightarrow> bytes \<Rightarrow> bytes \<Rightarrow> bytes \<Rightarrow> bool" where
  "written lc e h ws b c B \<longleftrightarrow> wrappers_ok ws \<and> length c = unat (co_plaintext_len h)
    \<and> B = head_bytes h ws b @ body_bytes lc e h c"

lemma write_container_spec:
  assumes "k \<noteq> i" and "\<And>w. w \<in> set ws \<Longrightarrow> is_str (wr_id w)" and "wrappers_ok ws \<Longrightarrow> head_ok h ws b"
  shows "io_triple (\<lambda>d. intact s i c d \<and> intact t k [] d) (write_container lc e h ws b s k)
    (\<lambda>_ d. intact s i c d \<and> (\<exists>B. written lc e h ws b c B \<and> intact t k B d)) (intact s i c)"
proof (rule fill_spec)
  show "keeps (intact s i c) (write_container lc e h ws b s k)" using assms(1) by (intro keeps_rules)
  fix d u d'
  assume d: "dk_faults d = []" "intact s i c d" and m: "write_container lc e h ws b s k d = (Inr u, d')"
  obtain sb where "encode_wrappers ws = Inr sb" using write_container_wrappers [OF m] by blast
  then have ws: "wrappers_ok ws" using encode_wrappers_Inr assms(2) by blast
  then show "\<exists>B. written lc e h ws b c B \<and> d' = d_append k B d"
    using write_container_iff [of d s i k h ws b lc e u d'] assms(1,3) d m intact_holds
    by (auto simp: intact_def written_def)
qed (use assms(1) in \<open>auto intro: steady_rules\<close>)

lemma remove_spec:
  assumes "q \<noteq> s"
  shows "io_triple (\<lambda>d. intact s i c d \<and> another i q \<psi> d) (d_remove_file s)
    (\<lambda>_ d. another i q \<psi> d \<and> dk_nodes d s = None) (intact s i c)"
  unfolding d_remove_file_def using assms
  by (intro call_triple) (auto simp: intact_def another_def keeps_rules unlink_node_def put_inode_def fault_blind_def)

definition lock_destination :: "path \<Rightarrow> lock_plan \<Rightarrow> path" where
  "lock_destination source plan =
    (case lp_destination plan of Some p \<Rightarrow> p | None \<Rightarrow> source @ ''.'' @ LOCKER_EXTENSION)"

text \<open>What a finished lock leaves at \<open>dest\<close>.\<close>

definition locked_bytes :: "locker_crypto \<Rightarrow> locker_random \<Rightarrow> string \<Rightarrow> bytes \<Rightarrow> bytes \<Rightarrow> bool" where
  "locked_bytes lc rnd name c B \<longleftrightarrow>
    (let h = core_fresh (lr_header rnd) (word_of_nat (length c)) in
     \<exists>phone m. let ws = [phone, recovery_wrap_with lc (lr_recovery rnd) (lr_dek rnd)
           (locker_binding_of lc (encode_core h)) (lr_recovery_key rnd)] in
       wr_kind phone = PhoneWrapper \<and> lm_original_name m = name \<and> container_ok h ws m c
       \<and> B = container_bytes lc (lr_dek rnd) h ws m c)"

lemma locked_bytesI:
  assumes "written lc (cipher_new lc (lr_dek rnd) h (locker_binding_of lc (encode_core h))) h
      [phone, recovery_wrap_with lc (lr_recovery rnd) (lr_dek rnd) (locker_binding_of lc (encode_core h)) (lr_recovery_key rnd)]
      (seal_metadata lc (cipher_new lc (lr_dek rnd) h (locker_binding_of lc (encode_core h))) (enc_metadata m)) c B"
    and "h = core_fresh (lr_header rnd) (word_of_nat (length c))"
    and "wr_kind phone = PhoneWrapper" "lm_original_name m = name" "metadata_ok m" "core_typed h" "validate_core h = Inr ()"
  shows "locked_bytes lc rnd name c B"
  unfolding locked_bytes_def Let_def
  using assms
  by (intro exI [of _ phone] exI [of _ m]) (simp add: written_def container_ok_def container_bytes_def locker_cipher_def)

lemma encode_metadata_Inr:
  "encode_metadata m = Inr b \<Longrightarrow> metadata_typed m \<Longrightarrow> metadata_ok m \<and> b = enc_metadata m"
proof -
  assume e: "encode_metadata m = Inr b" and "metadata_typed m"
  then have "metadata_ok m" by (auto simp: encode_metadata_def metadata_ok_def then_ok_eq_Inr)
  then show ?thesis using encode_metadata_ok e by auto
qed

lemma lock_file_spec:
  assumes lc: "locker_crypto_ok lc" and rnd: "locker_random_ok rnd" and cu: "custodian_ok cu"
    and dest: "lock_destination s plan \<noteq> s"
  shows "io_triple (intact s i c) (lock_file lc rnd s plan cu)
    (\<lambda>out d. lo_container out = lock_destination s plan \<and> lo_plaintext_len out = word_of_nat (length c)
       \<and> lo_recovery_code out = format_recovery_code (lr_recovery_key rnd)
       \<and> lo_original_removed out = lp_remove_original plan
       \<and> (\<exists>k B name. k \<noteq> i \<and> path_file_name s = Some name \<and> locked_bytes lc rnd name c B
            \<and> intact (lock_destination s plan) k B d)
       \<and> (if lp_remove_original plan then dk_nodes d s = None else intact s i c d))
    (intact s i c)"
proof -
  let ?dest = "lock_destination s plan" and ?I = "intact s i c"
  let ?h = "core_fresh (lr_header rnd) (word_of_nat (length c))"
  let ?bind = "locker_binding_of lc (encode_core ?h)"
  let ?rw = "recovery_wrap_with lc (lr_recovery rnd) (lr_dek rnd) ?bind (lr_recovery_key rnd)"
  let ?c = "locker_cipher lc (lr_dek rnd) ?h"
  let ?Q = "\<lambda>out d. lo_container out = ?dest \<and> lo_plaintext_len out = word_of_nat (length c)
       \<and> lo_recovery_code out = format_recovery_code (lr_recovery_key rnd)
       \<and> lo_original_removed out = lp_remove_original plan
       \<and> (\<exists>k B name. k \<noteq> i \<and> path_file_name s = Some name \<and> locked_bytes lc rnd name c B \<and> intact ?dest k B d)
       \<and> (if lp_remove_original plan then dk_nodes d s = None else ?I d)"
  have typed: "core_typed ?h"
    using rnd by (simp add: core_typed_def core_fresh_def locker_random_ok_def)
  have str: "is_str (wr_id ?rw)" by (simp add: recovery_wrap_with_def Let_def is_str_ascii ascii_def)
  have remove: "io_triple (\<lambda>d. ?I d \<and> another i ?dest \<psi> d)
      (io_bind (if lp_remove_original plan then locker_call (d_remove_file s) else io_return ()) (\<lambda>_. io_return out)) ?Q ?I"
    if "\<And>B. \<psi> B \<Longrightarrow> \<exists>name. path_file_name s = Some name \<and> locked_bytes lc rnd name c B"
      and out: "out = \<lparr>lo_container = ?dest, lo_recovery_code = format_recovery_code (lr_recovery_key rnd),
        lo_plaintext_len = word_of_nat (length c), lo_original_removed = lp_remove_original plan\<rparr>" for \<psi> out
  proof (rule io_triple_bind)
    let ?R = "\<lambda>d. another i ?dest \<psi> d \<and> (if lp_remove_original plan then dk_nodes d s = None else ?I d)"
    have "io_triple (\<lambda>d. ?I d \<and> another i ?dest \<psi> d) (d_remove_file s) (\<lambda>_ d. another i ?dest \<psi> d \<and> dk_nodes d s = None) ?I"
      by (rule remove_spec [OF dest])
    then show "io_triple (\<lambda>d. ?I d \<and> another i ?dest \<psi> d)
      (if lp_remove_original plan then locker_call (d_remove_file s) else io_return ()) (\<lambda>_. ?R) ?I"
      by (auto simp: locker_call_def io_map_err_triple) (auto simp: io_triple_def io_return_def)
    show "io_triple ?R (io_return out) ?Q ?I"
      using that by (fastforce simp: io_triple_def io_return_def another_def)
  qed
  have meta: "path_file_name s = Some name \<and> metadata_ok (\<lparr>lm_original_name = name, lm_mode = mode_of st, lm_modified_at_ms = modified_at_ms st,
      lm_original_len = word_of_nat (length c)\<rparr>) \<and> e = enc_metadata (\<lparr>lm_original_name = name, lm_mode = mode_of st,
      lm_modified_at_ms = modified_at_ms st, lm_original_len = word_of_nat (length c)\<rparr>)"
    if "(case path_file_name s of None \<Rightarrow> Inl UnsafeName | Some n \<Rightarrow> Inr n) = Inr name"
      "encode_metadata \<lparr>lm_original_name = name, lm_mode = mode_of st, lm_modified_at_ms = modified_at_ms st,
        lm_original_len = word_of_nat (length c)\<rparr> = Inr e" for name st e
    using that by (intro conjI [OF _ encode_metadata_Inr])
      (auto simp: metadata_typed_def modified_at_ms_def is_i64_def path_file_name_def Let_def split: option.splits if_splits)
  show ?thesis
    unfolding lock_file_def
    apply (rule triple_pure_step)
     apply (rule io_triple_bind [OF sole_regular_file_spec], rule triple_pure, elim conjE)
     apply (simp only: Let_def lock_destination_def [symmetric])
     apply (rule triple_pure_step)
      apply (rule io_triple_bind [OF wrap_spec [OF cu blind_intact]], rule triple_pure)
      apply (split if_split, intro conjI impI)
       apply (rule io_fail_triple)
      apply (simp only: recovery_wrap_def prod.case)
      apply (rule triple_pure_step)
       apply (rule io_triple_bind)
        apply (rule with_atomic_file_spec [OF dest])
        apply (rule write_container_spec)
          apply assumption
         apply (auto simp: str) [1]
        apply (drule (1) meta)
        apply (simp add: head_ok_def typed sealed_metadata_bounds [OF lc])
       apply (rule io_triple_bind)
        apply (rule triple_keeps)
         apply (intro keeps_rules)
        apply simp
       apply (rule remove)
        apply (drule (1) meta)
        apply (elim conjE, intro exI conjI, assumption, rule locked_bytesI)
              apply (simp_all add: typed)
    done
qed


subsection \<open>Unlocking\<close>

lemma open_spec:
  "io_triple (intact p i c) (locker_call (d_open p)) (\<lambda>r d. intact p i c d \<and> r = opened i) (intact p i c)"
proof (rule reading_spec)
  show "x = opened i" if "dk_faults d = []" "intact p i c d" "locker_call (d_open p) d = (Inr x, d')" for x d d'
    using that by (auto simp: d_open_def intact_def follow_def opened_def)
qed (intro keeps_rules steady_rules)+

lemma read_head_spec:
  "io_triple (intact p i c) (read_head lc (opened i)) (\<lambda>x d. intact p i c d \<and> (\<exists>h ws b. head_ok h ws b
    \<and> x = (head_of lc h ws b, advance (opened i) (length (head_bytes h ws b))) \<and> prefix (head_bytes h ws b) c)) (intact p i c)"
proof (rule reading_spec)
  show "\<exists>h ws b. head_ok h ws b \<and> x = (head_of lc h ws b, advance (opened i) (length (head_bytes h ws b)))
    \<and> prefix (head_bytes h ws b) c" if "dk_faults d = []" "intact p i c d" "read_head lc (opened i) d = (Inr x, d')" for x d d'
    using that read_head_iff [OF that(1), of "opened i" i lc "fst x" "snd x" d'] by (cases x) (auto simp: intact_def)
qed (intro keeps_rules steady_rules)+

lemma plain_output_append: "k \<noteq> i \<Longrightarrow> plain_output (\<lambda>b. locker_call (d_write_all k b)) (d_append k) i"
  by (auto simp: plain_output_def write_all_nofault)

lemma decrypt_fill_spec:
  assumes "locker_crypto_ok lc" and "k \<noteq> i" and "validate_core h = Inr ()"
  shows "io_triple (\<lambda>d. intact p i c d \<and> intact t k [] d)
    (decrypt_chunks lc e (\<lambda>b. locker_call (d_write_all k b)) h (advance (opened i) n))
    (\<lambda>_ d. intact p i c d \<and> (\<exists>B. (length B = unat (co_plaintext_len h) \<and> drop n c = body_bytes lc e h B) \<and> intact t k B d))
    (intact p i c)"
  by (rule fill_spec)
    (use assms decrypt_chunks_iff [OF assms(1) plain_output_append [OF assms(2)] _ _ assms(3)] in
      \<open>auto intro: keeps_rules steady_rules simp: intact_def\<close>)

definition unlock_directory :: "path \<Rightarrow> path option \<Rightarrow> path" where
  "unlock_directory container destination_dir = (case destination_dir of
     Some p \<Rightarrow> p | None \<Rightarrow> (case parent_of container of Some p \<Rightarrow> p | None \<Rightarrow> ''.''))"

text \<open>The name sealed in a container is not the name of the container itself.\<close>

definition restores_elsewhere :: "locker_crypto \<Rightarrow> bytes \<Rightarrow> path \<Rightarrow> path \<Rightarrow> bool" where
  "restores_elsewhere lc c directory p \<longleftrightarrow>
    (\<forall>h ws m dek. head_ok h ws (seal_metadata lc (locker_cipher lc dek h) (enc_metadata m)) \<and> metadata_ok m
      \<and> prefix (head_bytes h ws (seal_metadata lc (locker_cipher lc dek h) (enc_metadata m))) c \<longrightarrow>
      path_join directory (lm_original_name m) \<noteq> p)"

lemma keeps_unlock_dek [keeps_rules]:
  assumes "fault_blind I" and "\<And>cu. key = PhoneKey cu \<Longrightarrow> custodian_ok cu"
  shows "keeps I (unlock_dek lc key h name)"
proof (cases key)
  case (PhoneKey cu)
  then have "quiet (cu_unwrap cu b)" for b using assms(2) by (simp add: custodian_ok_def)
  then show ?thesis
    unfolding unlock_dek_def PhoneKey unlock_key.case by (intro keeps_rules keeps_quiet [OF assms(1)])
qed (simp add: unlock_dek_def keeps_rules)

lemma restores_elsewhereD:
  "restores_elsewhere lc c directory p \<Longrightarrow>
    head_ok h ws (seal_metadata lc (locker_cipher lc dek h) (enc_metadata m)) \<Longrightarrow> metadata_ok m \<Longrightarrow>
    prefix (head_bytes h ws (seal_metadata lc (locker_cipher lc dek h) (enc_metadata m))) c \<Longrightarrow>
    path_join directory (lm_original_name m) \<noteq> p"
  by (simp add: restores_elsewhere_def) blast

lemma container_split:
  assumes "head_ok h ws (seal_metadata lc (locker_cipher lc dek h) (enc_metadata m))" and "metadata_ok m"
    and "prefix (head_bytes h ws (seal_metadata lc (locker_cipher lc dek h) (enc_metadata m))) c"
    and "length B = unat (co_plaintext_len h)
      \<and> drop (length (head_bytes h ws (seal_metadata lc (locker_cipher lc dek h) (enc_metadata m)))) c
        = body_bytes lc (locker_cipher lc dek h) h B"
  shows "\<exists>dek h ws. container_ok h ws m B \<and> c = container_bytes lc dek h ws m B"
  using assms by (intro exI [of _ dek] exI [of _ h] exI [of _ ws])
    (auto simp: container_ok_def head_ok_def container_bytes_def prefix_def)

lemma unlock_file_spec:
  assumes lc: "locker_crypto_ok lc" and key: "\<And>cu. key = PhoneKey cu \<Longrightarrow> custodian_ok cu"
    and elsewhere: "restores_elsewhere lc c (unlock_directory p dir) p"
  shows "io_triple (intact p i c) (unlock_file lc rnd p dir rm key)
    (\<lambda>out d. (\<exists>k dek h ws m plain. k \<noteq> i \<and> container_ok h ws m plain \<and> c = container_bytes lc dek h ws m plain
        \<and> uo_restored out = path_join (unlock_directory p dir) (lm_original_name m) \<and> safe_file_name m = Inr (lm_original_name m)
        \<and> intact (uo_restored out) k plain d)
      \<and> uo_container_removed out = rm \<and> (if rm then dk_nodes d p = None else intact p i c d))
    (intact p i c)"
proof -
  let ?I = "intact p i c" and ?dir = "unlock_directory p dir"
  let ?Q = "\<lambda>out d. (\<exists>k dek h ws m plain. k \<noteq> i \<and> container_ok h ws m plain \<and> c = container_bytes lc dek h ws m plain
        \<and> uo_restored out = path_join ?dir (lm_original_name m) \<and> safe_file_name m = Inr (lm_original_name m)
        \<and> intact (uo_restored out) k plain d)
      \<and> uo_container_removed out = rm \<and> (if rm then dk_nodes d p = None else ?I d)"
  have remove: "io_triple (\<lambda>d. ?I d \<and> another i (path_join ?dir (lm_original_name m)) \<psi> d)
      (io_bind (if rm then locker_call (d_remove_file p) else io_return ()) (\<lambda>_. io_return out)) ?Q ?I"
    if ne: "path_join ?dir (lm_original_name m) \<noteq> p" and s: "safe_file_name m = Inr (lm_original_name m)"
      and \<psi>: "\<And>B. \<psi> B \<Longrightarrow> \<exists>dek h ws. container_ok h ws m B \<and> c = container_bytes lc dek h ws m B"
      and out: "uo_restored out = path_join ?dir (lm_original_name m)" "uo_container_removed out = rm" for \<psi> out m
  proof (rule io_triple_bind)
    let ?R = "\<lambda>d. another i (path_join ?dir (lm_original_name m)) \<psi> d \<and> (if rm then dk_nodes d p = None else ?I d)"
    have "io_triple (\<lambda>d. ?I d \<and> another i (path_join ?dir (lm_original_name m)) \<psi> d) (d_remove_file p)
        (\<lambda>_ d. another i (path_join ?dir (lm_original_name m)) \<psi> d \<and> dk_nodes d p = None) ?I"
      by (rule remove_spec [OF ne])
    then show "io_triple (\<lambda>d. ?I d \<and> another i (path_join ?dir (lm_original_name m)) \<psi> d)
      (if rm then locker_call (d_remove_file p) else io_return ()) (\<lambda>_. ?R) ?I"
      by (auto simp: locker_call_def io_map_err_triple) (auto simp: io_triple_def io_return_def)
    show "io_triple ?R (io_return out) ?Q ?I"
      using s \<psi> out by (fastforce simp: io_triple_def io_return_def another_def)
  qed
  show ?thesis
    unfolding unlock_file_def
    apply (rule io_triple_bind [OF triple_keeps])
      apply (intro keeps_rules)
     apply simp
    apply (rule io_triple_bind [OF open_spec], rule triple_pure, simp only: triv_forall_equality)
    apply (rule io_triple_bind [OF read_head_spec], rule triple_pure, elim exE conjE, simp only: prod.case)
    apply (rule io_triple_bind [OF triple_keeps])
      apply (rule keeps_unlock_dek, rule blind_intact, erule key)
     apply simp
    apply (simp only: Let_def head_of_simps unlock_directory_def [symmetric] locker_cipher_def [symmetric])
    apply (rule triple_pure_step)
     apply (simp only: then_ok_eq_Inr open_metadata_iff [OF lc] decode_metadata_iff, elim exE conjE)
     apply (split if_split, intro conjI impI)
      apply (rule io_fail_triple)
     apply (rule triple_pure_step)
      apply (frule safe_file_name_Inr, elim conjE, simp only:)
      apply (rule io_triple_bind)
       apply (rule with_atomic_file_spec)
        apply (rule restores_elsewhereD [OF elsewhere]; assumption)
       apply (rule decrypt_fill_spec [OF lc], assumption, simp add: head_ok_def)
      apply (rule io_triple_bind [OF triple_keeps])
        apply (rule keeps_conj [OF keeps_restore_attributes keeps_another [OF keeps_restore_attributes]])
       apply simp
      apply (rule remove)
          apply (rule restores_elsewhereD [OF elsewhere]; assumption)
         apply assumption
        apply (rule container_split; assumption)
       apply simp_all
    done
qed


subsection \<open>Re-keying\<close>

lemma write_rekeyed_nofault:
  assumes "dk_faults d = []" and "in_content (dk_inodes d i) = c" and "k \<noteq> i" and "head_ok h ws b" "wrappers_ok ws'"
  shows "write_rekeyed (head_of lc h ws b) ws' (advance (opened i) n) k d
    = (Inr (), d_append k (head_bytes h ws' b @ drop n c) d)"
proof -
  have s: "io_bind (write_section k x) f w = f () (d_append k (sec x) w)"
    if "dk_faults w = []" and "length x < 2 ^ 32" for x f and w
    using write_section_nofault [OF that] by (simp add: io_bind_def)
  have p: "io_bind (io_pure (Inr x)) f w = f x w" for x f and w by (simp add: io_bind_def io_pure_def)
  have r: "io_bind (locker_call (d_read_rest (advance (opened i) n))) f w = f (drop n c) w"
    if "dk_faults w = []" and "in_content (dk_inodes w i) = c" for f w
    using that by (simp add: io_bind_def locker_call_def io_map_err_def d_read_rest_def)
  show ?thesis
    using assms head_sections(2) [of h] head_sections(4) [of ws'] head_sections(5) [of b]
    by (simp add: write_rekeyed_def bind_write_all s p r encode_wrappers_ok write_all_nofault head_bytes_def head_ok_def)
qed

lemma write_rekeyed_spec:
  assumes "k \<noteq> i" and "head_ok h ws b" and "\<And>w. w \<in> set ws' \<Longrightarrow> is_str (wr_id w)"
  shows "io_triple (\<lambda>d. intact p i c d \<and> intact t k [] d) (write_rekeyed (head_of lc h ws b) ws' (advance (opened i) n) k)
    (\<lambda>_ d. intact p i c d \<and> (\<exists>B. (wrappers_ok ws' \<and> B = head_bytes h ws' b @ drop n c) \<and> intact t k B d)) (intact p i c)"
proof (rule fill_spec)
  show "keeps (intact p i c) (write_rekeyed (head_of lc h ws b) ws' (advance (opened i) n) k)"
    using assms(1) by (intro keeps_rules)
  fix d u d'
  assume d: "dk_faults d = []" "intact p i c d" and m: "write_rekeyed (head_of lc h ws b) ws' (advance (opened i) n) k d = (Inr u, d')"
  obtain sb where "encode_wrappers ws' = Inr sb" using m by (auto simp: write_rekeyed_def io_bind_Inr)
  then have ok: "wrappers_ok ws'" using encode_wrappers_Inr assms(3) by blast
  with write_rekeyed_nofault [OF d(1) _ assms(1,2) ok] d m
  show "\<exists>B. (wrappers_ok ws' \<and> B = head_bytes h ws' b @ drop n c) \<and> d' = d_append k B d"
    by (auto simp: intact_def)
qed (use assms(1) in \<open>auto intro: steady_rules\<close>)

lemma verify_spec:
  assumes "locker_crypto_ok lc"
  shows "io_triple (\<lambda>d. intact p i c d \<and> another i q \<psi> d) (locker_verify lc q dek)
    (\<lambda>_ d. intact p i c d \<and> another i q (\<lambda>B. \<psi> B \<and> (\<exists>h ws m plain. container_ok h ws m plain
      \<and> B = container_bytes lc dek h ws m plain)) d) (intact p i c)"
proof -
  have v: "io_triple (\<lambda>d. intact p i c d \<and> intact q k B d) (locker_verify lc q dek)
    (\<lambda>_ d. (intact p i c d \<and> intact q k B d) \<and> (\<exists>h ws m plain. container_ok h ws m plain
      \<and> B = container_bytes lc dek h ws m plain)) (\<lambda>d. intact p i c d \<and> intact q k B d)" for k B
  proof (rule reading_spec)
    fix d d' u assume "dk_faults d = []" "intact p i c d \<and> intact q k B d" "locker_verify lc q dek d = (Inr u, d')"
    then show "\<exists>h ws m plain. container_ok h ws m plain \<and> B = container_bytes lc dek h ws m plain"
      using locker_verify_iff [OF assms, of d q k dek u d'] intact_holds [of q k B d] by (auto simp: intact_def)
  qed (intro keeps_rules steady_rules)+
  show ?thesis
    by (rule triple_another, rule triple_conseq [OF v]) (auto simp: another_def, blast)
qed

text \<open>The wrappers of the re-keyed container \<open>p\<close>: first the one the custodian has made for its key, and then,
  of those of the old, at most those for a recovery code.\<close>

definition rekeyed_wrappers ::
    "locker_crypto \<Rightarrow> locker_random \<Rightarrow> custodian \<Rightarrow> path \<Rightarrow> bool \<Rightarrow> bytes \<Rightarrow> core_header \<Rightarrow> wrapper list \<Rightarrow> wrapper list \<Rightarrow> bool" where
  "rekeyed_wrappers lc rnd cu p new_recovery dek h ws ws' \<longleftrightarrow> (\<exists>phone d0 d1.
    cu_wrap cu \<lparr>wa_binding = locker_binding_of lc (encode_core h), wa_dek = dek, wa_file_name = container_name p,
      wa_plaintext_len = co_plaintext_len h\<rparr> d0 = (Inr phone, d1) \<and> wr_kind phone = PhoneWrapper \<and> ws' = phone #
    (if new_recovery
     then [recovery_wrap_with lc (lr_recovery rnd) dek (locker_binding_of lc (encode_core h)) (lr_recovery_key rnd)]
     else filter (\<lambda>w. wr_kind w = RecoveryWrapper) ws))"

lemma rekeyed_same_file:
  assumes "locker_crypto_ok lc" and "head_ok h ws b" and "prefix (head_bytes h ws b) c" and "wrappers_ok ws'"
    and "head_bytes h ws' b @ drop (length (head_bytes h ws b)) c = container_bytes lc dek h2 ws2 m plain"
    and "container_ok h2 ws2 m plain"
  shows "h2 = h \<and> ws2 = ws' \<and> container_ok h ws m plain \<and> c = container_bytes lc dek h ws m plain"
proof -
  have "head_ok h ws' b" using assms(2,4) by (simp add: head_ok_def)
  then have "h = h2 \<and> ws' = ws2 \<and> b = seal_metadata lc (locker_cipher lc dek h2) (enc_metadata m)
    \<and> drop (length (head_bytes h ws b)) c = body_bytes lc (locker_cipher lc dek h2) h2 plain"
    using assms(5) head_bytes_inject [OF _ container_ok_head [OF assms(1,6)]] unfolding container_bytes_def by blast
  then show ?thesis
    using assms(2,3,6) by (auto simp: container_bytes_def container_ok_def head_ok_def prefix_def)
qed

definition rekeyed_code :: "locker_random \<Rightarrow> bool \<Rightarrow> string option" where
  "rekeyed_code rnd new_recovery =
    (if new_recovery then Some (format_recovery_code (lr_recovery_key rnd)) else None)"

definition rekey_old :: "path \<Rightarrow> path" where "rekey_old p = suffixed p ''rekey-old''"
definition rekey_new :: "path \<Rightarrow> path" where "rekey_new p = suffixed p ''rekey-new''"

lemma rekey_paths [simp]: "rekey_old p \<noteq> p" "rekey_new p \<noteq> p" "rekey_old p \<noteq> rekey_new p"
  "p \<noteq> rekey_old p" "p \<noteq> rekey_new p" "rekey_new p \<noteq> rekey_old p"
  by (simp_all add: rekey_old_def rekey_new_def suffixed_def)

text \<open>The exchange of names: the old container is under one of its two names until the new one is in place.\<close>

lemma exchange_spec:
  "io_triple (\<lambda>d. intact p i c d \<and> another i (rekey_new p) \<psi> d)
    (io_bind (locker_call (d_rename p (rekey_old p))) (\<lambda>_.
     io_bind (locker_call (d_rename (rekey_new p) p)) (\<lambda>_.
     io_bind (io_ignore (d_remove_file (rekey_old p))) (\<lambda>_. io_return x))))
    (\<lambda>y d. y = x \<and> another i p \<psi> d)
    (\<lambda>d. intact p i c d \<or> intact (rekey_old p) i c d)"
proof (intro io_triple_bind)
  let ?E = "\<lambda>d. intact p i c d \<or> intact (rekey_old p) i c d"
  let ?A = "\<lambda>d. intact p i c d \<and> another i (rekey_new p) \<psi> d"
  let ?B = "\<lambda>d. intact (rekey_old p) i c d \<and> another i (rekey_new p) \<psi> d"
  have b: "fault_blind ?A" "fault_blind ?B" by (intro keeps_rules)+
  have "io_triple ?A (d_rename p (rekey_old p)) (\<lambda>_. ?B) ?E"
    unfolding d_rename_def
    by (intro call_triple [OF b(1)]) (auto simp: intact_def another_def split: option.split node.split)
  then show "io_triple ?A (locker_call (d_rename p (rekey_old p))) (\<lambda>_. ?B) ?E"
    unfolding locker_call_def by (rule io_map_err_triple)
  have "io_triple ?B (d_rename (rekey_new p) p) (\<lambda>_. another i p \<psi>) ?E"
    unfolding d_rename_def
    by (intro call_triple [OF b(2)]) (auto simp: intact_def another_def split: option.split node.split)
  then show "io_triple ?B (locker_call (d_rename (rekey_new p) p)) (\<lambda>_. another i p \<psi>) ?E"
    unfolding locker_call_def by (rule io_map_err_triple)
  have "keeps (another i p \<psi>) (d_remove_file (rekey_old p))"
    by (intro keeps_another keeps_rules) simp
  then show "io_triple (another i p \<psi>) (io_ignore (d_remove_file (rekey_old p))) (\<lambda>_. another i p \<psi>) ?E"
    by (auto simp: io_triple_def io_ignore_def keeps_iff)
  show "io_triple (another i p \<psi>) (io_return x) (\<lambda>y d. y = x \<and> another i p \<psi> d) ?E"
    by (simp add: io_triple_def io_return_def)
qed

lemma keeps_rekey_dek [keeps_rules]:
  assumes "fault_blind I" and "custodian_ok cu"
  shows "keeps I (rekey_dek lc cu r h name)"
  using assms by (auto simp: rekey_dek_def split: option.split intro!: keeps_unlock_dek)

lemma replace_spec:
  assumes lc: "locker_crypto_ok lc" and h: "head_ok h ws b" "prefix (head_bytes h ws b) c"
    and str: "\<And>w. w \<in> set ws' \<Longrightarrow> is_str (wr_id w)"
  shows "io_triple (intact p i c)
    (io_bind (with_atomic_file sfx (rekey_new p)
       (write_rekeyed (head_of lc h ws b) ws' (advance (opened i) (length (head_bytes h ws b))))) (\<lambda>_.
     io_bind (locker_verify lc (rekey_new p) dek) (\<lambda>_.
     io_bind (locker_call (d_rename p (rekey_old p))) (\<lambda>_.
     io_bind (locker_call (d_rename (rekey_new p) p)) (\<lambda>_.
     io_bind (io_ignore (d_remove_file (rekey_old p))) (\<lambda>_. io_return x))))))
    (\<lambda>y d. y = x \<and> (\<exists>k m plain. container_ok h ws m plain \<and> c = container_bytes lc dek h ws m plain
      \<and> container_ok h ws' m plain \<and> intact p k (container_bytes lc dek h ws' m plain) d))
    (\<lambda>d. intact p i c d \<or> intact (rekey_old p) i c d)"
proof (rule io_triple_bind)
  let ?\<psi> = "\<lambda>B. wrappers_ok ws' \<and> B = head_bytes h ws' b @ drop (length (head_bytes h ws b)) c"
  let ?E = "\<lambda>d. intact p i c d \<or> intact (rekey_old p) i c d"
  show "io_triple (intact p i c) (with_atomic_file sfx (rekey_new p)
       (write_rekeyed (head_of lc h ws b) ws' (advance (opened i) (length (head_bytes h ws b)))))
     (\<lambda>_ d. intact p i c d \<and> another i (rekey_new p) ?\<psi> d) ?E"
    by (rule triple_conseq, rule with_atomic_file_spec [OF _ write_rekeyed_spec]) (auto intro: h str)
  let ?\<chi> = "\<lambda>B. ?\<psi> B \<and> (\<exists>h ws m plain. container_ok h ws m plain \<and> B = container_bytes lc dek h ws m plain)"
  have \<chi>: "\<exists>m plain. container_ok h ws m plain \<and> c = container_bytes lc dek h ws m plain \<and> container_ok h ws' m plain
      \<and> B = container_bytes lc dek h ws' m plain" if "?\<chi> B" for B
    using that rekeyed_same_file [OF lc h, of ws'] by blast
  show "io_triple (\<lambda>d. intact p i c d \<and> another i (rekey_new p) ?\<psi> d)
    (io_bind (locker_verify lc (rekey_new p) dek) (\<lambda>_.
     io_bind (locker_call (d_rename p (rekey_old p))) (\<lambda>_.
     io_bind (locker_call (d_rename (rekey_new p) p)) (\<lambda>_.
     io_bind (io_ignore (d_remove_file (rekey_old p))) (\<lambda>_. io_return x)))))
    (\<lambda>y d. y = x \<and> (\<exists>k m plain. container_ok h ws m plain \<and> c = container_bytes lc dek h ws m plain
      \<and> container_ok h ws' m plain \<and> intact p k (container_bytes lc dek h ws' m plain) d)) ?E"
  proof (rule io_triple_bind)
    show "io_triple (\<lambda>d. intact p i c d \<and> another i (rekey_new p) ?\<psi> d) (locker_verify lc (rekey_new p) dek)
      (\<lambda>_ d. intact p i c d \<and> another i (rekey_new p) ?\<chi> d) ?E"
      by (rule triple_conseq [OF verify_spec [OF lc]]) auto
    show "io_triple (\<lambda>d. intact p i c d \<and> another i (rekey_new p) ?\<chi> d)
     (io_bind (locker_call (d_rename p (rekey_old p))) (\<lambda>_.
     io_bind (locker_call (d_rename (rekey_new p) p)) (\<lambda>_.
     io_bind (io_ignore (d_remove_file (rekey_old p))) (\<lambda>_. io_return x))))
    (\<lambda>y d. y = x \<and> (\<exists>k m plain. container_ok h ws m plain \<and> c = container_bytes lc dek h ws m plain
      \<and> container_ok h ws' m plain \<and> intact p k (container_bytes lc dek h ws' m plain) d)) ?E"
    proof (rule triple_conseq [OF exchange_spec [of p i c ?\<chi>]])
      fix y d assume "y = x \<and> another i p ?\<chi> d"
      then obtain k B where "y = x" "?\<chi> B" "intact p k B d" unfolding another_def by blast
      note k = this
      from \<chi> [OF k(2)] obtain m plain where ok: "container_ok h ws m plain" "c = container_bytes lc dek h ws m plain"
        "container_ok h ws' m plain" and B: "B = container_bytes lc dek h ws' m plain" by (elim exE conjE) rule
      show "y = x \<and> (\<exists>k m plain. container_ok h ws m plain \<and> c = container_bytes lc dek h ws m plain
        \<and> container_ok h ws' m plain \<and> intact p k (container_bytes lc dek h ws' m plain) d)"
        by (intro conjI exI, fact k(1), fact ok(1), fact ok(2), fact ok(3), fact k(3) [unfolded B])
    qed
  qed
qed

lemma rekey_file_spec:
  assumes lc: "locker_crypto_ok lc" and cu: "custodian_ok cu"
  shows "io_triple (intact p i c) (rekey_file lc rnd p cu current new_recovery)
    (\<lambda>code d. code = rekeyed_code rnd new_recovery
      \<and> (\<exists>k dek h ws ws' m plain. container_ok h ws m plain \<and> c = container_bytes lc dek h ws m plain
        \<and> rekeyed_wrappers lc rnd cu p new_recovery dek h ws ws' \<and> container_ok h ws' m plain
        \<and> intact p k (container_bytes lc dek h ws' m plain) d))
    (\<lambda>d. intact p i c d \<or> intact (rekey_old p) i c d)"
proof -
  let ?I = "intact p i c" and ?E = "\<lambda>d. intact p i c d \<or> intact (rekey_old p) i c d"
  have E: "io_triple P m Q ?E" if "io_triple P m Q ?I" for P Q and m :: "(disk, 'e, 'x) io_on"
    using that by (rule triple_conseq) auto
  let ?Q = "\<lambda>new_recovery code d. code = rekeyed_code rnd new_recovery
      \<and> (\<exists>k dek h ws ws' m plain. container_ok h ws m plain \<and> c = container_bytes lc dek h ws m plain
        \<and> rekeyed_wrappers lc rnd cu p new_recovery dek h ws ws' \<and> container_ok h ws' m plain
        \<and> intact p k (container_bytes lc dek h ws' m plain) d)"
  have tail: "io_triple ?I (if length wrs > MAX_WRAPPERS then io_fail (MalformedContainer ''wrapper count'') else
    io_bind (with_atomic_file (lr_suffix rnd) (rekey_new p)
       (write_rekeyed (head_of lc h ws b) wrs (advance (opened i) (length (head_bytes h ws b))))) (\<lambda>_.
     io_bind (locker_verify lc (rekey_new p) dek) (\<lambda>_.
     io_bind (locker_call (d_rename p (rekey_old p))) (\<lambda>_.
     io_bind (locker_call (d_rename (rekey_new p) p)) (\<lambda>_.
     io_bind (io_ignore (d_remove_file (rekey_old p))) (\<lambda>_. io_return code)))))) (?Q nr) ?E"
    if "head_ok h ws b" "prefix (head_bytes h ws b) c" "\<And>w. w \<in> set wrs \<Longrightarrow> is_str (wr_id w)"
      and wrs: "rekeyed_wrappers lc rnd cu p nr dek h ws wrs" "code = rekeyed_code rnd nr" for h ws b wrs code dek nr
  proof (cases "length wrs > MAX_WRAPPERS")
    case False
    then show ?thesis
      unfolding if_not_P [OF False]
      by (intro triple_conseq [OF replace_spec [OF lc that(1-3)]]) (use wrs in blast)+
  qed (simp add: io_triple_def io_fail_def)
  have str: "is_str (wr_id w)" if "head_ok h ws b" "w \<in> set ws" for h ws b w
    using that by (auto simp: head_ok_def wrappers_ok_def wrapper_ok_def)
  have str': "is_str (wr_id (recovery_wrap_with lc r dek bi key))" for r dek bi key
    by (simp add: recovery_wrap_with_def Let_def is_str_ascii ascii_def)
  show ?thesis
    unfolding rekey_file_def
    apply (rule io_triple_bind [OF triple_keeps])
      apply (intro keeps_rules)
     apply simp
    apply (rule io_triple_bind [OF E [OF open_spec]], rule triple_pure, simp only: triv_forall_equality)
    apply (rule io_triple_bind [OF E [OF read_head_spec]], rule triple_pure, elim exE conjE, simp only: prod.case)
    apply (simp only: Let_def)
    apply (rule io_triple_bind [OF triple_keeps])
      apply (rule keeps_rekey_dek [OF blind_intact cu])
     apply simp
    apply (rule io_triple_bind [OF E [OF wrap_made [OF cu blind_intact]]], rule triple_pure)
    apply (split if_split, intro conjI impI)
     apply (simp add: io_triple_def io_fail_def)
    apply (cases new_recovery)
     apply (simp_all only: if_True if_False recovery_wrap_def prod.case rekey_old_def [symmetric]
        rekey_new_def [symmetric] head_of_simps)
     apply (rule tail, assumption+)
       apply (auto simp: str' rekeyed_wrappers_def rekeyed_code_def) [3]
    apply (rule tail, assumption+)
      apply (auto simp: str rekeyed_wrappers_def rekeyed_code_def)
    done
qed

end
