(* ===== verification/Locker_Round_Trip.thy ===== *)
theory Locker_Round_Trip
  imports Locker_Safety
begin

text \<open>
  When no call fails, locking a file and unlocking the container with the recovery code gives
  the file back.
\<close>

subsection \<open>The temporary name is another name\<close>

lemma file_name_no_slash: "CHR ''/'' \<notin> set (file_name p)"
  by (auto simp: file_name_def dest: set_takeWhileD)

lemma file_name_slash: "CHR ''/'' \<notin> set n \<Longrightarrow> file_name (q @ CHR ''/'' # n) = n"
proof -
  assume "CHR ''/'' \<notin> set n"
  then have "takeWhile (\<lambda>c. c \<noteq> CHR ''/'') (rev n @ CHR ''/'' # rev q) = rev n"
    by (subst takeWhile_append2) auto
  then show ?thesis by (simp add: file_name_def)
qed

lemma file_name_plain: "CHR ''/'' \<notin> set n \<Longrightarrow> file_name n = n"
proof -
  assume "CHR ''/'' \<notin> set n"
  then have t: "takeWhile (\<lambda>c. c \<noteq> CHR ''/'') (rev n) = rev n" by (subst takeWhile_eq_all_conv) auto
  show ?thesis by (simp only: file_name_def t rev_rev_ident)
qed

lemma file_name_join: "CHR ''/'' \<notin> set n \<Longrightarrow> file_name (path_join d n) = n"
proof -
  assume n: "CHR ''/'' \<notin> set n"
  have "d @ n = butlast d @ CHR ''/'' # n" if "d \<noteq> []" "last d = CHR ''/''"
    using append_butlast_last_id [OF that(1)] that(2) by (metis append.assoc append_Cons append_Nil)
  then have "file_name (d @ n) = n" if "d \<noteq> []" "last d = CHR ''/''"
    using that file_name_slash [OF n] by metis
  then show ?thesis
    using file_name_slash [OF n] file_name_plain [OF n] by (simp add: path_join_def)
qed

lemma to_hex_no_slash: "CHR ''/'' \<notin> set (to_hex bs)"
proof (induction bs)
  case (Cons b bs)
  have "HEX_DIGITS ! n \<noteq> CHR ''/''" if "n < 16" for n
  proof -
    have "HEX_DIGITS ! n \<in> set HEX_DIGITS" using that by (intro nth_mem) (simp add: HEX_DIGITS_def)
    then show ?thesis by (auto simp: HEX_DIGITS_def)
  qed
  moreover have "unat (drop_bit 4 b) < 16" "unat (b AND 0x0f) < 16"
    using unsigned_less [of b, where ?'a = nat] word_and_le1 [of b "0x0f"]
    by (simp_all add: drop_bit_eq_div unat_div_distrib word_le_nat_alt)
  ultimately show ?case using Cons.IH by (metis set_ConsD to_hex.simps(2))
qed simp

lemma temporary_sibling_facts:
  assumes "temporary_sibling sfx dest = Inr t"
  shows "t \<noteq> dest" and "last t = CHR ''p''"
proof -
  obtain d n where t: "t = path_join d (''.'' @ n @ ''.'' @ to_hex sfx @ ''.balock-tmp'')" and n: "n = file_name dest"
    using assms by (auto simp: temporary_sibling_def path_file_name_def Let_def split: option.splits if_splits)
  have "file_name t = ''.'' @ n @ ''.'' @ to_hex sfx @ ''.balock-tmp''"
    unfolding t using file_name_no_slash [of dest] to_hex_no_slash [of sfx] n by (intro file_name_join) auto
  moreover have "\<dots> \<noteq> file_name dest" by (auto simp: n dest: arg_cong [of _ _ length])
  ultimately show "t \<noteq> dest" by auto
  show "last t = CHR ''p''" by (auto simp: t path_join_def)
qed

subsection \<open>Runs without faults\<close>

lemma bind_Inr: "m d = (Inr x, d') \<Longrightarrow> io_bind m k d = k x d'"
  by (simp add: io_bind_def)

lemma call_Inr: "m d = (Inr x, d') \<Longrightarrow> locker_call m d = (Inr x, d')"
  by (simp add: locker_call_def io_map_err_def)

lemma pure_Inr: "r = Inr x \<Longrightarrow> io_pure r d = (Inr x, d)"
  by (simp add: io_pure_def)

lemma occupied_free: "dk_faults d = [] \<Longrightarrow> dk_nodes d p = None \<Longrightarrow> occupied p d = (Inr False, d)"
  by (simp add: occupied_def io_match_def d_symlink_metadata_def io_return_def)

lemma sole_regular_file_ok:
  assumes "dk_faults d = []" and "intact p i c d" and "in_links (dk_inodes d i) \<le> 1"
  shows "sole_regular_file p b d = (Inr (stat_of d (FileNode i)), d)"
  using assms
  by (simp add: sole_regular_file_def intact_def locker_call_def io_map_err_def d_symlink_metadata_def io_bind_def
      io_return_def stat_of_def)

text \<open>The disk with one more file.\<close>

definition new_file :: "path \<Rightarrow> bytes \<Rightarrow> disk \<Rightarrow> disk" where
  "new_file p B d = put_inode (dk_next d) \<lparr>in_content = B, in_mode = dk_new_mode d, in_modified_ms = 0, in_links = 1\<rparr>
    (d\<lparr>dk_nodes := (dk_nodes d)(p \<mapsto> FileNode (dk_next d)), dk_next := dk_next d + 1\<rparr>)"

lemma new_file_simps [simp]:
  "dk_faults (new_file p B d) = dk_faults d" "dk_nodes (new_file p B d) = (dk_nodes d)(p \<mapsto> FileNode (dk_next d))"
  "dk_next (new_file p B d) = dk_next d + 1" "dk_new_mode (new_file p B d) = dk_new_mode d"
  "i < dk_next d \<Longrightarrow> dk_inodes (new_file p B d) i = dk_inodes d i"
  "dk_inodes (new_file p B d) (dk_next d)
    = \<lparr>in_content = B, in_mode = dk_new_mode d, in_modified_ms = 0, in_links = 1\<rparr>"
  by (simp_all add: new_file_def put_inode_def)

lemma d_append_new_file: "d_append (dk_next d) C (new_file p B d) = new_file p (B @ C) d"
  by (simp add: d_append_def new_file_def put_inode_def)

lemma rename_new_file:
  assumes "dk_faults d = []" "dk_nodes d t = None" "dk_nodes d p = None" "t \<noteq> p" "\<And>q. dk_nodes d q \<noteq> Some (FileNode (dk_next d))"
  shows "d_rename t p (new_file t B d) = (Inr (), new_file p B d)"
  using assms
  by (cases d) (auto simp: d_rename_def new_file_def put_inode_def unlink_node_def fun_upd_twist)

lemma sync_directory_ok: "dk_faults d = [] \<Longrightarrow> sync_directory p d = (Inr (), d)"
  by (auto simp: sync_directory_def io_match_def d_open_def io_ignore_def d_sync_directory_def io_return_def
      split: option.split node.split)

text \<open>Every file number in use is below the next one.\<close>

definition disk_ok :: "disk \<Rightarrow> bool" where
  "disk_ok d \<longleftrightarrow> (\<forall>p i. dk_nodes d p = Some (FileNode i) \<longrightarrow> i < dk_next d)"

lemma disk_ok_next: "disk_ok d \<Longrightarrow> dk_nodes d q \<noteq> Some (FileNode (dk_next d))"
  by (auto simp: disk_ok_def)

lemma disk_ok_new_file: "disk_ok d \<Longrightarrow> disk_ok (new_file p B d)"
  by (auto simp: disk_ok_def less_SucI)

lemma with_atomic_file_ok:
  assumes "dk_faults d = []" "disk_ok d" "dk_nodes d p = None" "temporary_sibling sfx p = Inr t" "dk_nodes d t = None"
    and fill: "fill (dk_next d) (new_file t [] d) = (Inr (), new_file t B d)"
  shows "with_atomic_file sfx p fill d = (Inr (), new_file p B d)"
proof -
  have ne: "t \<noteq> p" using temporary_sibling_facts(1) [OF assms(4)] .
  have "d_create_new t d = (Inr (dk_next d), new_file t [] d)"
    using assms by (simp add: d_create_new_def new_file_def)
  then have create: "atomic_create sfx p d
      = (Inr \<lparr>af_temporary = t, af_destination = p, af_inode = dk_next d\<rparr>, new_file t [] d)"
    using assms
    by (simp add: atomic_create_def io_bind_def occupied_free io_pure_def call_Inr io_return_def)
  have "d_sync_all (dk_next d) (new_file t B d) = (Inr (), new_file t B d)"
    using assms(1) by (simp add: d_sync_all_def)
  moreover have "occupied p (new_file t B d) = (Inr False, new_file t B d)"
    using assms(1,3) ne by (intro occupied_free) auto
  moreover have "locker_call (d_rename t p) (new_file t B d) = (Inr (), new_file p B d)"
    using assms ne disk_ok_next [OF assms(2)] by (intro call_Inr rename_new_file) auto
  ultimately have "atomic_commit \<lparr>af_temporary = t, af_destination = p, af_inode = dk_next d\<rparr> (new_file t B d)
      = (Inr (), new_file p B d)"
    by (simp add: atomic_commit_def io_bind_def call_Inr)
  then show ?thesis
    using assms(1) by (simp add: with_atomic_file_def io_bind_def create io_on_error_def fill sync_directory_ok)
qed


subsection \<open>Locking, then unlocking\<close>

definition removed :: "path \<Rightarrow> disk \<Rightarrow> disk" where
  "removed p d = unlink_node (dk_nodes d p) (d\<lparr>dk_nodes := (dk_nodes d)(p := None)\<rparr>)"

lemma removed_simps [simp]:
  "dk_nodes (removed p d) = (dk_nodes d)(p := None)" "dk_next (removed p d) = dk_next d"
  "dk_faults (removed p d) = dk_faults d" "dk_new_mode (removed p d) = dk_new_mode d"
  by (simp_all add: removed_def unlink_node_def put_inode_def split: option.split node.split)

lemma removed_inode: "dk_nodes d p \<noteq> Some (FileNode k) \<Longrightarrow> dk_inodes (removed p d) k = dk_inodes d k"
  by (simp add: removed_def unlink_node_def put_inode_def split: option.split node.split)

lemma remove_file_ok:
  "dk_faults d = [] \<Longrightarrow> dk_nodes d p = Some (FileNode i) \<Longrightarrow> locker_call (d_remove_file p) d = (Inr (), removed p d)"
  by (simp add: locker_call_def io_map_err_def d_remove_file_def removed_def)

definition lock_header :: "locker_random \<Rightarrow> bytes \<Rightarrow> core_header" where
  "lock_header rnd c = core_fresh (lr_header rnd) (word_of_nat (length c))"

definition lock_binding :: "locker_crypto \<Rightarrow> locker_random \<Rightarrow> bytes \<Rightarrow> bytes" where
  "lock_binding lc rnd c = locker_binding_of lc (encode_core (lock_header rnd c))"

definition lock_wrappers :: "locker_crypto \<Rightarrow> locker_random \<Rightarrow> bytes \<Rightarrow> wrapper \<Rightarrow> wrapper list" where
  "lock_wrappers lc rnd c phone =
    [phone, recovery_wrap_with lc (lr_recovery rnd) (lr_dek rnd) (lock_binding lc rnd c) (lr_recovery_key rnd)]"

definition lock_metadata :: "string \<Rightarrow> file_stat \<Rightarrow> locker_metadata" where
  "lock_metadata name st = \<lparr>lm_original_name = name, lm_mode = mode_of st,
     lm_modified_at_ms = modified_at_ms st, lm_original_len = st_len st\<rparr>"

definition lock_ask :: "locker_crypto \<Rightarrow> locker_random \<Rightarrow> string \<Rightarrow> bytes \<Rightarrow> wrap_ask" where
  "lock_ask lc rnd name c = \<lparr>wa_binding = lock_binding lc rnd c, wa_dek = lr_dek rnd, wa_file_name = name,
     wa_plaintext_len = word_of_nat (length c)\<rparr>"

lemma lock_file_ok:
  assumes lc: "locker_crypto_ok lc" and rnd: "locker_random_ok rnd"
    and d: "dk_faults d = []" "disk_ok d" "intact s i c d" "in_links (dk_inodes d i) \<le> 1"
    and name: "path_file_name s = Some name"
    and free: "dk_nodes d p = None" "temporary_sibling (lr_suffix rnd) p = Inr t" "dk_nodes d t = None"
    and p: "p = s @ ''.'' @ LOCKER_EXTENSION"
    and phone: "cu_wrap cu (lock_ask lc rnd name c) d = (Inr phone, d)" "wr_kind phone = PhoneWrapper"
    and ok: "container_ok (lock_header rnd c) (lock_wrappers lc rnd c phone) (lock_metadata name (stat_of d (FileNode i))) c"
  shows "lock_file lc rnd s lock_plan_default cu d =
    (Inr \<lparr>lo_container = p, lo_recovery_code = format_recovery_code (lr_recovery_key rnd),
       lo_plaintext_len = word_of_nat (length c), lo_original_removed = True\<rparr>,
     removed s (new_file p (container_bytes lc (lr_dek rnd) (lock_header rnd c) (lock_wrappers lc rnd c phone)
       (lock_metadata name (stat_of d (FileNode i))) c) d))"
proof -
  let ?h = "lock_header rnd c" and ?ws = "lock_wrappers lc rnd c phone"
  let ?m = "lock_metadata name (stat_of d (FileNode i))"
  let ?c = "locker_cipher lc (lr_dek rnd) ?h"
  let ?b = "seal_metadata lc ?c (enc_metadata ?m)"
  let ?B = "container_bytes lc (lr_dek rnd) ?h ?ws ?m c"
  let ?d = "new_file p ?B d"
  have node: "dk_nodes d s = Some (FileNode i)" and content: "in_content (dk_inodes d i) = c" and i: "i < dk_next d"
    using d(3) by (simp_all add: intact_def)
  have st: "st_len (stat_of d (FileNode i)) = word_of_nat (length c)" using content by (simp add: stat_of_def)
  have ts: "t \<noteq> s" and ps: "p \<noteq> s" using node free by auto
  have head: "head_ok ?h ?ws ?b" using container_ok_head [OF lc ok] .
  have "write_container lc ?c ?h ?ws ?b s (dk_next d) (new_file t [] d)
      = (Inr (), d_append (dk_next d) (head_bytes ?h ?ws ?b @ body_bytes lc ?c ?h c) (new_file t [] d))"
    using write_container_iff [of "new_file t [] d" s i "dk_next d" ?h ?ws ?b lc ?c "()"] d(1) node ts content i head ok
    by (auto simp: holds_file_def follow_def container_ok_def)
  then have fill: "write_container lc ?c ?h ?ws ?b s (dk_next d) (new_file t [] d) = (Inr (), new_file t ?B d)"
    by (simp add: d_append_new_file container_bytes_def)
  have written: "with_atomic_file (lr_suffix rnd) p (write_container lc ?c ?h ?ws ?b s) d = (Inr (), ?d)"
    by (rule with_atomic_file_ok [OF d(1,2) free, where fill = "write_container lc ?c ?h ?ws ?b s", OF fill])
  have "holds_file ?d p (dk_next d)" by (simp add: holds_file_def follow_def)
  then have verified: "locker_verify lc p (lr_dek rnd) ?d = (Inr (), ?d)"
    using locker_verify_iff [OF lc, of ?d p "dk_next d" "lr_dek rnd" "()" ?d] d(1) ok by auto
  have remove: "locker_call (d_remove_file s) ?d = (Inr (), removed s ?d)"
    using node d(1) ps by (intro remove_file_ok [of _ _ i]) auto
  have meta: "encode_metadata ?m = Inr (enc_metadata ?m)"
    using ok encode_metadata_ok by (simp add: container_ok_def)
  have v: "validate_core ?h = Inr ()" using ok by (simp add: container_ok_def)
  have p': "s @ CHR ''.'' # LOCKER_EXTENSION = p" using p by simp
  show ?thesis
    unfolding lock_file_def Let_def
    using phone written verified remove meta v
    by (simp add: io_bind_def io_pure_def name sole_regular_file_ok [OF d(1,3,4)] st lock_plan_default_def
        recovery_wrap_def io_return_def p' locker_call_def io_map_err_def lock_ask_def lock_metadata_def lock_wrappers_def
        lock_header_def lock_binding_def locker_cipher_def)
qed


text \<open>The restored file: its bytes, and the permissions and time the metadata gives.\<close>

definition restored_inode :: "disk \<Rightarrow> locker_metadata \<Rightarrow> bytes \<Rightarrow> inode" where
  "restored_inode d m B = \<lparr>in_content = B, in_mode = (if lm_mode m \<noteq> 0 then lm_mode m else dk_new_mode d),
     in_modified_ms = (if lm_modified_at_ms m > 0 then lm_modified_at_ms m else 0), in_links = 1\<rparr>"

lemma restore_attributes_ok:
  assumes "dk_faults d = []"
  shows "restore_attributes r m (new_file r B d)
    = (Inr (), put_inode (dk_next d) (restored_inode d m B) (new_file r B d))"
  using assms
  by (simp add: restore_attributes_def io_bind_def io_match_def d_open_def io_ignore_def d_set_modified_def
      d_set_permissions_def io_return_def follow_def put_inode_def restored_inode_def new_file_def)

lemma unlock_file_ok:
  assumes lc: "locker_crypto_ok lc"
    and d: "dk_faults d = []" "disk_ok d" "intact p k C d" "in_links (dk_inodes d k) \<le> 1"
    and C: "C = container_bytes lc dek h ws m plain" "container_ok h ws m plain" "lm_original_len m = co_plaintext_len h"
    and key: "List.find (\<lambda>w. wr_kind w = RecoveryWrapper) ws = Some w"
      "recovery_unwrap lc w key (locker_binding_of lc (encode_core h)) = Inr dek"
    and name: "safe_file_name m = Inr name" "r = path_join (unlock_directory p None) name"
    and free: "dk_nodes d r = None" "temporary_sibling (lr_suffix rnd) r = Inr t" "dk_nodes d t = None"
  shows "unlock_file lc rnd p None True (RecoveryKey key) d =
    (Inr \<lparr>uo_restored = r, uo_plaintext_len = co_plaintext_len h, uo_container_removed = True\<rparr>,
     removed p (put_inode (dk_next d) (restored_inode d m plain) (new_file r plain d)))"
proof -
  let ?c = "locker_cipher lc dek h"
  let ?b = "seal_metadata lc ?c (enc_metadata m)"
  let ?n = "length (head_bytes h ws ?b)"
  let ?rd = "advance (opened k) ?n"
  have node: "dk_nodes d p = Some (FileNode k)" and content: "in_content (dk_inodes d k) = C" and k: "k < dk_next d"
    using d(3) by (simp_all add: intact_def)
  have tp: "t \<noteq> p" and rp: "r \<noteq> p" using node free by auto
  have head: "head_ok h ws ?b" using container_ok_head [OF lc C(2)] .
  have op: "locker_call (d_open p) d = (Inr (opened k), d)"
    using d(1) node by (simp add: d_open_def follow_def opened_def)
  have rh: "read_head lc (opened k) d = (Inr (head_of lc h ws ?b, ?rd), d)"
  proof -
    have "prefix (head_bytes h ws ?b) (unread d (opened k))"
      using content C(1) by (simp add: container_bytes_def)
    with head show ?thesis
      unfolding read_head_iff [OF d(1) opened_simps(1)] by blast
  qed
  have meta: "then_ok (open_metadata lc ?c ?b) decode_metadata = Inr m"
    using C(2) by (simp add: then_ok_eq_Inr open_metadata_iff [OF lc] decode_metadata_iff container_ok_def)
  have hw: "head_wrapper (head_of lc h ws ?b) RecoveryWrapper = Inr w"
    using key(1) by (simp add: head_wrapper_def)
  have v: "validate_core h = Inr ()" using C(2) by (simp add: container_ok_def)
  have out: "plain_output (\<lambda>b. locker_call (d_write_all (dk_next d) b)) (d_append (dk_next d)) k"
    using k by (intro plain_output_append) auto
  have un: "unread (new_file t [] d) ?rd = body_bytes lc ?c h plain"
    using content C(1) k by (simp add: container_bytes_def)
  have "decrypt_chunks lc ?c (\<lambda>b. locker_call (d_write_all (dk_next d) b)) h ?rd (new_file t [] d)
      = (Inr (), d_append (dk_next d) plain (new_file t [] d))"
    using decrypt_chunks_iff [OF lc out _ _ v, of "new_file t [] d" ?rd ?c "()"] d(1) un C(2)
    by (auto simp: container_ok_def)
  then have fill: "decrypt_chunks lc ?c (\<lambda>b. locker_call (d_write_all (dk_next d) b)) h ?rd (new_file t [] d)
      = (Inr (), new_file t plain d)"
    by (simp add: d_append_new_file)
  have written: "with_atomic_file (lr_suffix rnd) r
      (\<lambda>i. decrypt_chunks lc ?c (\<lambda>b. locker_call (d_write_all i b)) h ?rd) d = (Inr (), new_file r plain d)"
    by (rule with_atomic_file_ok [OF d(1,2) free,
          where fill = "\<lambda>i. decrypt_chunks lc ?c (\<lambda>b. locker_call (d_write_all i b)) h ?rd", OF fill])
  have remove: "locker_call (d_remove_file p) (put_inode (dk_next d) (restored_inode d m plain) (new_file r plain d))
      = (Inr (), removed p (put_inode (dk_next d) (restored_inode d m plain) (new_file r plain d)))"
    using node d(1) rp by (intro remove_file_ok [of _ _ k]) (auto simp: put_inode_def)
  have dir: "path_join (case parent_of p of None \<Rightarrow> ''.'' | Some p \<Rightarrow> p) name = r"
    using name(2) by (simp add: unlock_directory_def)
  show ?thesis
    unfolding unlock_file_def Let_def
    using op rh hw key(2) meta C(3) name(1) written remove restore_attributes_ok [OF d(1), of r m plain]
    by (simp add: io_bind_def io_pure_def sole_regular_file_ok [OF d(1,3,4)] unlock_dek_def then_ok_def
        locker_cipher_def io_return_def dir locker_call_def io_map_err_def)
qed


text \<open>Everything a lock of \<open>s\<close>, followed by an unlock with the code it gave, needs.\<close>

definition lock_setting ::
  "locker_crypto \<Rightarrow> locker_random \<Rightarrow> custodian \<Rightarrow> path \<Rightarrow> string \<Rightarrow> nat \<Rightarrow> bytes \<Rightarrow> wrapper \<Rightarrow> disk \<Rightarrow> bool" where
  "lock_setting lc rnd cu s name i c phone d \<longleftrightarrow>
    locker_crypto_ok lc \<and> locker_random_ok rnd \<and> dk_faults d = [] \<and> disk_ok d
    \<and> intact s i c d \<and> in_links (dk_inodes d i) \<le> 1 \<and> path_file_name s = Some name
    \<and> dk_nodes d (s @ ''.balock'') = None
    \<and> (case temporary_sibling (lr_suffix rnd) (s @ ''.balock'') of Inr t \<Rightarrow> dk_nodes d t = None | Inl _ \<Rightarrow> False)
    \<and> cu_wrap cu (lock_ask lc rnd name c) d = (Inr phone, d) \<and> wr_kind phone = PhoneWrapper
    \<and> container_ok (lock_header rnd c) (lock_wrappers lc rnd c phone) (lock_metadata name (stat_of d (FileNode i))) c"

definition locked_disk :: "locker_crypto \<Rightarrow> locker_random \<Rightarrow> path \<Rightarrow> string \<Rightarrow> nat \<Rightarrow> bytes \<Rightarrow> wrapper \<Rightarrow> disk \<Rightarrow> disk" where
  "locked_disk lc rnd s name i c phone d =
    removed s (new_file (s @ ''.balock'') (container_bytes lc (lr_dek rnd) (lock_header rnd c) (lock_wrappers lc rnd c phone)
       (lock_metadata name (stat_of d (FileNode i))) c) d)"

lemma lock_setting_locks:
  assumes "lock_setting lc rnd cu s name i c phone d"
  shows "lock_file lc rnd s lock_plan_default cu d =
    (Inr \<lparr>lo_container = s @ ''.balock'', lo_recovery_code = format_recovery_code (lr_recovery_key rnd),
       lo_plaintext_len = word_of_nat (length c), lo_original_removed = True\<rparr>,
     locked_disk lc rnd s name i c phone d)"
proof -
  obtain t where "temporary_sibling (lr_suffix rnd) (s @ ''.balock'') = Inr t" "dk_nodes d t = None"
    using assms by (auto simp: lock_setting_def split: sum.splits)
  with assms show ?thesis
    unfolding locked_disk_def lock_setting_def
    by (intro lock_file_ok [where t = t]) (auto simp: LOCKER_EXTENSION_def)
qed

lemma locked_disk_facts:
  fixes d :: disk and lc rnd s name i c phone
  defines "d1 \<equiv> locked_disk lc rnd s name i c phone d"
  assumes "lock_setting lc rnd cu s name i c phone d"
  shows "dk_faults d1 = []" "disk_ok d1" "dk_nodes d1 = (dk_nodes d)(s @ ''.balock'' \<mapsto> FileNode (dk_next d), s := None)"
    "intact (s @ ''.balock'') (dk_next d) (container_bytes lc (lr_dek rnd) (lock_header rnd c) (lock_wrappers lc rnd c phone)
       (lock_metadata name (stat_of d (FileNode i))) c) d1"
    "in_links (dk_inodes d1 (dk_next d)) = 1" "dk_next d1 = dk_next d + 1" "dk_new_mode d1 = dk_new_mode d"
proof -
  have i: "dk_nodes d s = Some (FileNode i)" "i < dk_next d" and f: "dk_faults d = []" "disk_ok d"
    using assms(2) by (auto simp: lock_setting_def intact_def)
  show "dk_faults d1 = []" "dk_nodes d1 = (dk_nodes d)(s @ ''.balock'' \<mapsto> FileNode (dk_next d), s := None)"
    "dk_next d1 = dk_next d + 1" "dk_new_mode d1 = dk_new_mode d"
    using f by (simp_all add: d1_def locked_disk_def)
  show "disk_ok d1" using f(2) by (auto simp: d1_def locked_disk_def disk_ok_def less_SucI)
  have "dk_inodes d1 (dk_next d) = \<lparr>in_content = container_bytes lc (lr_dek rnd) (lock_header rnd c)
      (lock_wrappers lc rnd c phone) (lock_metadata name (stat_of d (FileNode i))) c,
      in_mode = dk_new_mode d, in_modified_ms = 0, in_links = 1\<rparr>"
    unfolding d1_def locked_disk_def using i by (subst removed_inode) auto
  then show "intact (s @ ''.balock'') (dk_next d) (container_bytes lc (lr_dek rnd) (lock_header rnd c) (lock_wrappers lc rnd c phone)
       (lock_metadata name (stat_of d (FileNode i))) c) d1" "in_links (dk_inodes d1 (dk_next d)) = 1"
    by (simp_all add: intact_def d1_def locked_disk_def)
qed

lemma lock_keys:
  assumes "lock_setting lc rnd cu s name i c phone d"
  shows "lm_original_len (lock_metadata name (stat_of d (FileNode i))) = co_plaintext_len (lock_header rnd c)"
    and "List.find (\<lambda>w. wr_kind w = RecoveryWrapper) (lock_wrappers lc rnd c phone)
      = Some (recovery_wrap_with lc (lr_recovery rnd) (lr_dek rnd) (lock_binding lc rnd c) (lr_recovery_key rnd))"
    and "recovery_unwrap lc (recovery_wrap_with lc (lr_recovery rnd) (lr_dek rnd) (lock_binding lc rnd c) (lr_recovery_key rnd))
      (lr_recovery_key rnd) (locker_binding_of lc (encode_core (lock_header rnd c))) = Inr (lr_dek rnd)"
    and "parse_recovery_code (format_recovery_code (lr_recovery_key rnd)) = Inr (lr_recovery_key rnd)"
  using assms recovery_unwrap_wrap [of lc "lr_recovery rnd" "lr_dek rnd" "lock_binding lc rnd c" "lr_recovery_key rnd"]
  by (auto simp: lock_setting_def lock_metadata_def stat_of_def lock_header_def core_fresh_def intact_def
      lock_wrappers_def recovery_wrap_with_def Let_def lock_binding_def locker_random_ok_def parse_recovery_code_iff)

lemma lock_then_unlock_disk:
  assumes set: "lock_setting lc rnd cu s name i c phone d"
    and safe: "safe_file_name (lock_metadata name (stat_of d (FileNode i))) = Inr name"
    and dir: "path_join (unlock_directory (s @ ''.balock'') None) name = s"
    and temp: "temporary_sibling (lr_suffix rnd') s = Inr t" "dk_nodes d t = None"
  shows "unlock_file lc rnd' (s @ ''.balock'') None True (RecoveryKey (lr_recovery_key rnd)) (locked_disk lc rnd s name i c phone d) =
    (Inr \<lparr>uo_restored = s, uo_plaintext_len = word_of_nat (length c), uo_container_removed = True\<rparr>,
     removed (s @ ''.balock'') (put_inode (dk_next d + 1)
       (restored_inode d (lock_metadata name (stat_of d (FileNode i))) c)
       (new_file s c (locked_disk lc rnd s name i c phone d))))"
proof -
  note facts = locked_disk_facts [OF set] and keys = lock_keys [OF set]
  have t: "t \<noteq> s @ ''.balock''" using temporary_sibling_facts(2) [OF temp(1)] by auto
  have lc: "locker_crypto_ok lc" and ok: "container_ok (lock_header rnd c) (lock_wrappers lc rnd c phone)
      (lock_metadata name (stat_of d (FileNode i))) c"
    using set by (simp_all add: lock_setting_def)
  have free: "dk_nodes (locked_disk lc rnd s name i c phone d) s = None"
    "dk_nodes (locked_disk lc rnd s name i c phone d) t = None"
    using facts(3) t temp(2) by auto
  have r: "restored_inode (locked_disk lc rnd s name i c phone d) = restored_inode d"
    by (intro ext) (simp add: restored_inode_def facts(7))
  have n: "co_plaintext_len (lock_header rnd c) = word_of_nat (length c)" by (simp add: lock_header_def core_fresh_def)
  show ?thesis
    using unlock_file_ok [OF lc facts(1,2,4) _ refl ok keys(1,2,3) safe dir [symmetric] free(1) temp(1) free(2)]
      facts(5,6) n r by simp
qed


lemma restored_disk_facts:
  assumes set: "lock_setting lc rnd cu s name i c phone d"
  shows "dk_nodes (removed (s @ ''.balock'') (put_inode (dk_next d + 1) x (new_file s c (locked_disk lc rnd s name i c phone d))))
      = (dk_nodes d)(s \<mapsto> FileNode (dk_next d + 1))"
    and "dk_inodes (removed (s @ ''.balock'') (put_inode (dk_next d + 1) x (new_file s c (locked_disk lc rnd s name i c phone d))))
      (dk_next d + 1) = x"
proof -
  note facts = locked_disk_facts [OF set]
  have p: "dk_nodes d (s @ ''.balock'') = None" using set by (simp add: lock_setting_def)
  show "dk_nodes (removed (s @ ''.balock'') (put_inode (dk_next d + 1) x (new_file s c (locked_disk lc rnd s name i c phone d))))
      = (dk_nodes d)(s \<mapsto> FileNode (dk_next d + 1))"
    using p by (auto simp: facts put_inode_def fun_eq_iff)
  show "dk_inodes (removed (s @ ''.balock'') (put_inode (dk_next d + 1) x (new_file s c (locked_disk lc rnd s name i c phone d))))
      (dk_next d + 1) = x"
    by (subst removed_inode) (simp_all add: facts put_inode_def)
qed

subsection \<open>A name that cannot be restored\<close>

text \<open>A container whose sealed name is refused does not unlock, with any directory to put it in.\<close>

lemma unlock_file_refused:
  assumes lc: "locker_crypto_ok lc"
    and d: "dk_faults d = []" "intact p k C d" "in_links (dk_inodes d k) \<le> 1"
    and C: "C = container_bytes lc dek h ws m plain" "container_ok h ws m plain" "lm_original_len m = co_plaintext_len h"
    and key: "List.find (\<lambda>w. wr_kind w = RecoveryWrapper) ws = Some w"
      "recovery_unwrap lc w key (locker_binding_of lc (encode_core h)) = Inr dek"
    and name: "safe_file_name m = Inl e"
  shows "unlock_file lc rnd p dir rm (RecoveryKey key) d = (Inl e, d)"
proof -
  let ?c = "locker_cipher lc dek h"
  let ?b = "seal_metadata lc ?c (enc_metadata m)"
  let ?rd = "advance (opened k) (length (head_bytes h ws ?b))"
  have node: "dk_nodes d p = Some (FileNode k)" and content: "in_content (dk_inodes d k) = C"
    using d(2) by (simp_all add: intact_def)
  have head: "head_ok h ws ?b" using container_ok_head [OF lc C(2)] .
  have op: "locker_call (d_open p) d = (Inr (opened k), d)"
    using d(1) node by (simp add: d_open_def follow_def opened_def)
  have "prefix (head_bytes h ws ?b) (unread d (opened k))"
    using content C(1) by (simp add: container_bytes_def)
  with head have rh: "read_head lc (opened k) d = (Inr (head_of lc h ws ?b, ?rd), d)"
    unfolding read_head_iff [OF d(1) opened_simps(1)] by blast
  have meta: "then_ok (open_metadata lc ?c ?b) decode_metadata = Inr m"
    using C(2) by (simp add: then_ok_eq_Inr open_metadata_iff [OF lc] decode_metadata_iff container_ok_def)
  have hw: "head_wrapper (head_of lc h ws ?b) RecoveryWrapper = Inr w"
    using key(1) by (simp add: head_wrapper_def)
  show ?thesis
    unfolding unlock_file_def Let_def
    using op rh hw key(2) meta C(3) name
    by (simp add: io_bind_def io_pure_def sole_regular_file_ok [OF d] unlock_dek_def then_ok_def
        locker_cipher_def io_return_def locker_call_def io_map_err_def)
qed

lemma lock_then_refused:
  assumes set: "lock_setting lc rnd cu s name i c phone d"
    and unsafe: "safe_file_name (lock_metadata name (stat_of d (FileNode i))) = Inl e"
  shows "unlock_file lc rnd' (s @ ''.balock'') dir rm (RecoveryKey (lr_recovery_key rnd)) (locked_disk lc rnd s name i c phone d)
    = (Inl e, locked_disk lc rnd s name i c phone d)"
proof -
  note facts = locked_disk_facts [OF set] and keys = lock_keys [OF set]
  have lc: "locker_crypto_ok lc" and ok: "container_ok (lock_header rnd c) (lock_wrappers lc rnd c phone)
      (lock_metadata name (stat_of d (FileNode i))) c"
    using set by (simp_all add: lock_setting_def)
  show ?thesis
    using unlock_file_refused [OF lc facts(1,4) _ refl ok keys(1,2,3) unsafe] facts(5) by simp
qed

end
