(* ===== verification/Locker_Examples.thy ===== *)
theory Locker_Examples
  imports Locker_Round_Trip Examples
begin

text \<open>
  A small disk, a toy cipher and a phone that always answers, on which the theorems about the
  file locker are applied.
\<close>

definition toy_locker :: locker_crypto where
  "toy_locker = \<lparr>lc_sha256 = (\<lambda>b. replicate 32 0), lc_hkdf = (\<lambda>k s i. replicate 32 0),
     lc_encrypt = (\<lambda>k n a m. m @ replicate 16 0),
     lc_decrypt = (\<lambda>k n a c. if 16 \<le> length c \<and> drop (length c - 16) c = replicate 16 0
        then Some (take (length c - 16) c) else None)\<rparr>"

lemma toy_locker_ok: "locker_crypto_ok toy_locker"
proof -
  have "c = take (length c - 16) c @ replicate 16 0" if "drop (length c - 16) c = replicate 16 0" for c :: bytes
    using append_take_drop_id [of "length c - 16" c] that by metis
  then show ?thesis by (auto simp: locker_crypto_ok_def toy_locker_def TAG_LEN_def)
qed

definition demo_lock_random :: locker_random where
  "demo_lock_random = \<lparr>lr_header = replicate 39 7, lr_dek = replicate 32 1, lr_recovery_key = replicate 32 2,
     lr_recovery = replicate 44 3, lr_suffix = [0xAB]\<rparr>"

lemma demo_lock_random_ok: "locker_random_ok demo_lock_random"
  by (simp add: locker_random_ok_def demo_lock_random_def locker_consts LOCKER_KEY_LEN_def)

definition demo_wrapper :: wrapper where
  "demo_wrapper = \<lparr>wr_kind = PhoneWrapper, wr_id = ''k'', wr_salt = [], wr_nonce = [], wr_ciphertext = [9]\<rparr>"

definition demo_custodian :: custodian where
  "demo_custodian = \<lparr>cu_wrap = (\<lambda>a. io_return demo_wrapper), cu_unwrap = (\<lambda>a. io_return (replicate 32 1))\<rparr>"

lemma demo_custodian_ok: "custodian_ok demo_custodian"
  by (auto simp: custodian_ok_def demo_custodian_def quiet_def io_return_def demo_wrapper_def is_str_ascii ascii_def)

definition demo_disk :: "string \<Rightarrow> disk" where
  "demo_disk name = \<lparr>dk_nodes = [name \<mapsto> FileNode 0],
     dk_inodes = (\<lambda>i. \<lparr>in_content = [104, 105], in_mode = 0x81A4, in_modified_ms = 5, in_links = 1\<rparr>),
     dk_next = 1, dk_new_mode = 0x180, dk_faults = []\<rparr>"

lemma demo_disk_intact: "intact name 0 [104, 105] (demo_disk name)"
  by (simp add: intact_def demo_disk_def)

lemma demo_disk_faults [simp]: "intact name 0 [104, 105] (demo_disk name\<lparr>dk_faults := fs\<rparr>)"
  by (simp add: demo_disk_intact)

lemma demo_core_valid: "validate_core (core_fresh r (word_of_nat 2)) = Inr ()"
  by (simp add: validate_core_def core_fresh_def CONTAINER_VERSION_def chunk_count_def div_ceil_u64_def
      CHUNK_SIZE_def MIN_CHUNK_SIZE_def MAX_CHUNK_SIZE_def MAX_CHUNK_INDEX_def is_power_of_two_def)

lemma demo_wrapper_valid: "wrapper_ok demo_wrapper"
  by (simp add: wrapper_ok_def validate_wrapper_def demo_wrapper_def is_str_ascii ascii_def utf16_len_ascii locker_consts)

lemma demo_setting:
  assumes n: "name = ''a.txt'' \<or> name = ''aux.c''"
  shows "lock_setting toy_locker demo_lock_random demo_custodian name name 0 [104, 105] demo_wrapper (demo_disk name)"
proof -
  have str: "is_str name" "utf16_len name \<le> 6" using n by (auto simp: is_str_ascii ascii_def utf16_len_ascii)
  have node: "dk_nodes (demo_disk name) q = (if q = name then Some (FileNode 0) else None)" for q
    by (simp add: demo_disk_def)
  have fn: "path_file_name name = Some name" using n by (auto simp: path_file_name_def file_name_def Let_def is_str_ascii ascii_def)
  have t: "\<exists>t. temporary_sibling [0xAB] (name @ ''.balock'') = Inr t \<and> last t = CHR ''p''"
    using n by (auto simp: temporary_sibling_def parent_of_def path_file_name_def file_name_def path_join_def Let_def
        is_str_ascii ascii_def)
  have w: "wrappers_ok (lock_wrappers toy_locker demo_lock_random [104, 105] demo_wrapper)"
    using demo_wrapper_valid recovery_wrapper_ok [OF toy_locker_ok, of "lr_recovery demo_lock_random" "lr_dek demo_lock_random"]
      demo_lock_random_ok
    by (simp add: wrappers_ok_def lock_wrappers_def locker_random_ok_def MAX_WRAPPERS_def)
  have m: "metadata_ok (lock_metadata name (stat_of (demo_disk name) (FileNode 0)))"
    using n str by (auto simp: metadata_ok_def metadata_typed_def lock_metadata_def validate_metadata_def modified_at_ms_def
        is_i64_def locker_consts)
  have "core_typed (lock_header demo_lock_random [104, 105])"
    using demo_lock_random_ok by (simp add: core_typed_def lock_header_def core_fresh_def locker_random_ok_def)
  then have "container_ok (lock_header demo_lock_random [104, 105]) (lock_wrappers toy_locker demo_lock_random [104, 105] demo_wrapper)
      (lock_metadata name (stat_of (demo_disk name) (FileNode 0))) [104, 105]"
    using w m demo_core_valid by (simp add: container_ok_def lock_header_def) (simp add: core_fresh_def)
  then show ?thesis
    using t toy_locker_ok demo_lock_random_ok demo_disk_intact [of name] fn n
    by (auto simp: lock_setting_def node demo_disk_def disk_ok_def demo_custodian_def io_return_def demo_wrapper_def
        demo_lock_random_def split: sum.split)
qed


text \<open>The container of the demo file, and where it restores to.\<close>

definition demo_container :: bytes where
  "demo_container = container_bytes toy_locker (replicate 32 1) (lock_header demo_lock_random [104, 105])
     (lock_wrappers toy_locker demo_lock_random [104, 105] demo_wrapper)
     (lock_metadata ''a.txt'' (stat_of (demo_disk ''a.txt'') (FileNode 0))) [104, 105]"

definition demo_locked :: disk where
  "demo_locked = \<lparr>dk_nodes = [''a.txt.balock'' \<mapsto> FileNode 0],
     dk_inodes = (\<lambda>i. \<lparr>in_content = demo_container, in_mode = 0x8180, in_modified_ms = 6, in_links = 1\<rparr>),
     dk_next = 1, dk_new_mode = 0x180, dk_faults = [None, Some (OtherIo 5, 0)]\<rparr>"

lemma demo_locked_intact: "intact ''a.txt.balock'' 0 demo_container demo_locked"
  by (simp add: intact_def demo_locked_def)

lemma demo_container_ok:
  "container_ok (lock_header demo_lock_random [104, 105]) (lock_wrappers toy_locker demo_lock_random [104, 105] demo_wrapper)
     (lock_metadata ''a.txt'' (stat_of (demo_disk ''a.txt'') (FileNode 0))) [104, 105]"
  using demo_setting [of "''a.txt''"] by (simp add: lock_setting_def)

lemma demo_restores: "restores_elsewhere toy_locker demo_container (unlock_directory ''a.txt.balock'' None) ''a.txt.balock''"
  unfolding restores_elsewhere_def
proof (intro allI impI, elim conjE)
  fix h ws m dek
  let ?b = "\<lambda>h dek m. seal_metadata toy_locker (locker_cipher toy_locker dek h) (enc_metadata m)"
  let ?m = "lock_metadata ''a.txt'' (stat_of (demo_disk ''a.txt'') (FileNode 0))"
  assume h: "head_ok h ws (?b h dek m)" and m: "metadata_ok m" and "prefix (head_bytes h ws (?b h dek m)) demo_container"
  then obtain r where "demo_container = head_bytes h ws (?b h dek m) @ r" by (auto simp: prefix_def)
  then have "?b (lock_header demo_lock_random [104, 105]) (replicate 32 1) ?m = ?b h dek m"
    unfolding demo_container_def container_bytes_def
    using head_bytes_inject [OF container_ok_head [OF toy_locker_ok demo_container_ok] h] by blast
  then have "enc_metadata ?m = enc_metadata m" by (simp add: seal_metadata_def toy_locker_def)
  moreover have "metadata_ok ?m" using demo_container_ok by (simp add: container_ok_def)
  ultimately have "?m = m" using m decode_metadata_encode by (metis sum.inject(2))
  then have "lm_original_name m = ''a.txt''" by (auto simp: lock_metadata_def)
  then show "path_join (unlock_directory ''a.txt.balock'' None) (lm_original_name m) \<noteq> ''a.txt.balock''"
    by (simp add: unlock_directory_def parent_of_def path_join_def)
qed

lemma demo_temporary: "temporary_sibling [0xAB] ''a.txt'' = Inr ''./.a.txt.ab.balock-tmp''"
proof -
  have "to_hex [0xAB] = ''ab''" by code_simp
  then show ?thesis
    by (simp add: temporary_sibling_def parent_of_def path_file_name_def file_name_def path_join_def is_str_ascii ascii_def)
qed

lemma demo_name_safe: "safe_file_name (lock_metadata ''a.txt'' st) = Inr ''a.txt''"
proof -
  have "reserved_stem ''a'' = Some False" "\<not> list_ex (\<lambda>c. c \<in> FORBIDDEN_CHARS \<or> is_control c) (chars ''a.txt'')"
    by code_simp+
  then show ?thesis by (simp add: safe_file_name_def lock_metadata_def)
qed

lemma demo_name_unsafe: "safe_file_name (lock_metadata ''aux.c'' st) = Inl UnsafeName"
  by (simp add: lock_metadata_def safe_file_name_device)

end
