(* ===== verification/Ble_Framing.thy ===== *)
theory Ble_Framing
  imports BTree_Map Framing "HOL-Library.Multiset"
begin

text \<open>
  Frames over Bluetooth characteristic values: \<open>phone-auth-agent/src/ble_framing.rs\<close>. A frame is
  cut into chunks of six bytes of header and some data; chunks may arrive in any order, between
  the chunks of other frames. The hash map of the decoder is a map whose order is never seen.
\<close>

definition HEADER_BYTES :: nat where "HEADER_BYTES = 6"
definition MAX_CHUNKS :: nat where "MAX_CHUNKS = 1024"
definition MAX_PARTIAL_FRAMES :: nat where "MAX_PARTIAL_FRAMES = 4"

datatype ble_error = BleInvalidInput string | BleInvalidData string

definition be16 :: "nat \<Rightarrow> bytes" where
  "be16 n = to_be_bytes 2 (word_of_nat n)"

definition from_be16 :: "bytes \<Rightarrow> nat" where
  "from_be16 bs = unat (from_be_bytes bs)"

subsection \<open>Cutting a frame\<close>

text \<open>\<open>slice::chunks\<close>; the size is not zero.\<close>

function chunks_of :: "nat \<Rightarrow> bytes \<Rightarrow> bytes list" where
  "chunks_of n bs = (if bs = [] \<or> n = 0 then [] else take n bs # chunks_of n (drop n bs))"
  by pat_completeness auto
termination
  by (relation "measure (\<lambda>(n, bs). length bs)") auto

declare chunks_of.simps [simp del]

type_synonym ble_encoder = "16 word"

definition ble_encode :: "bytes \<Rightarrow> nat \<Rightarrow> ble_encoder \<Rightarrow> (ble_error + bytes list) \<times> ble_encoder" where
  "ble_encode frame att_payload_bytes next_frame_id =
    (if frame = [] \<or> length frame > MAX_FRAME
     then (Inl (BleInvalidInput (''refusing to write a '' @ decimal (length frame) @ ''-byte BLE frame'')), next_frame_id)
     else if att_payload_bytes < HEADER_BYTES then (Inl (BleInvalidInput ''BLE MTU is too small''), next_frame_id)
     else
       let data_bytes = att_payload_bytes - HEADER_BYTES in
       if data_bytes = 0 then (Inl (BleInvalidInput ''BLE MTU is too small''), next_frame_id)
       else
         let parts = (length frame + data_bytes - 1) div data_bytes in
         if parts > MAX_CHUNKS then (Inl (BleInvalidInput ''BLE frame needs too many chunks''), next_frame_id)
         else
           (Inr (map (\<lambda>(index, part). be16 (unat next_frame_id) @ be16 index @ be16 parts @ part)
              (List.enumerate 0 (chunks_of data_bytes frame))),
            next_frame_id + 1))"

subsection \<open>Putting it together\<close>

record partial_frame =
  pf_total :: nat
  pf_chunks :: "(nat, bytes) btree_map"
  pf_bytes :: nat

type_synonym ble_decoder = "(nat, partial_frame) btree_map"

definition partial_new :: "nat \<Rightarrow> partial_frame" where
  "partial_new parts = \<lparr>pf_total = parts, pf_chunks = bt_empty, pf_bytes = 0\<rparr>"

fun join_chunks :: "(nat, bytes) btree_map \<Rightarrow> nat list \<Rightarrow> ble_error + bytes" where
  "join_chunks m [] = Inr []"
| "join_chunks m (i # is) =
    (case bt_get i m of
       None \<Rightarrow> Inl (BleInvalidData ''BLE frame is missing a chunk'')
     | Some c \<Rightarrow> then_ok (join_chunks m is) (\<lambda>bs. Inr (c @ bs)))"

definition chunk_frame_id :: "bytes \<Rightarrow> nat" where "chunk_frame_id chunk = from_be16 (take 2 chunk)"
definition chunk_index :: "bytes \<Rightarrow> nat" where "chunk_index chunk = from_be16 (take 2 (drop 2 chunk))"
definition chunk_total :: "bytes \<Rightarrow> nat" where "chunk_total chunk = from_be16 (take 2 (drop 4 chunk))"

definition add_chunk :: "bytes \<Rightarrow> ble_decoder \<Rightarrow> (ble_error + bytes option) \<times> ble_decoder" where
  "add_chunk chunk partials =
    (if length chunk \<le> HEADER_BYTES then (Inl (BleInvalidData ''BLE chunk has no payload''), partials) else
     let frame_id = chunk_frame_id chunk; index = chunk_index chunk; parts = chunk_total chunk in
     if parts = 0 \<or> parts > MAX_CHUNKS \<or> index \<ge> parts
     then (Inl (BleInvalidData ''BLE chunk header is invalid''), partials)
     else if bt_get frame_id partials = None \<and> length partials \<ge> MAX_PARTIAL_FRAMES
     then (Inl (BleInvalidData ''too many partial BLE frames''), partials)
     else
       let frame = (case bt_get frame_id partials of None \<Rightarrow> partial_new parts | Some p \<Rightarrow> p) in
       if pf_total frame \<noteq> parts \<or> bt_get index (pf_chunks frame) \<noteq> None
       then (Inl (BleInvalidData ''inconsistent or duplicate BLE chunk''), bt_remove frame_id partials)
       else
         let frame = frame\<lparr>pf_bytes := pf_bytes frame + (length chunk - HEADER_BYTES)\<rparr> in
         if pf_bytes frame > MAX_FRAME
         then (Inl (BleInvalidData ''BLE frame exceeds the size limit''), bt_remove frame_id partials)
         else
           let frame = frame\<lparr>pf_chunks := bt_insert index (drop HEADER_BYTES chunk) (pf_chunks frame)\<rparr> in
           if length (pf_chunks frame) \<noteq> parts then (Inr None, bt_insert frame_id frame partials)
           else (map_sum id Some (join_chunks (pf_chunks frame) [0 ..< parts]), bt_remove frame_id partials))"

text \<open>Everything that arrives on one connection.\<close>

fun ble_feed :: "bytes list \<Rightarrow> ble_decoder \<Rightarrow> (ble_error + bytes option) list \<times> ble_decoder" where
  "ble_feed [] d = ([], d)"
| "ble_feed (c # cs) d =
    (let (r, d) = add_chunk c d; (rs, d) = ble_feed cs d in (r # rs, d))"

subsection \<open>Chunks\<close>

lemma chunks_of_concat: "0 < n \<Longrightarrow> concat (chunks_of n bs) = bs"
  by (induction n bs rule: chunks_of.induct) (subst chunks_of.simps, simp)

lemma chunks_of_length: "0 < n \<Longrightarrow> length (chunks_of n bs) = (length bs + n - 1) div n"
proof (induction n bs rule: chunks_of.induct)
  case (1 n bs)
  show ?case
  proof (cases "bs = []")
    case False
    then have l: "length (chunks_of n bs) = Suc ((length bs - n + n - 1) div n)"
      using 1 by (subst chunks_of.simps) simp
    have z: "0 < length bs" using False by simp
    show ?thesis
    proof (cases "n \<le> length bs")
      case True
      then show ?thesis using l 1(2) le_div_geq [of n "length bs + n - 1"] by simp
    next
      case small: False
      then have "(length bs - 1 + n) div n = 1" using z 1(2) by (simp add: div_if)
      then show ?thesis using l 1(2) small z by simp
    qed
  qed (simp add: chunks_of.simps 1(2))
qed

lemma chunks_of_parts: "c \<in> set (chunks_of n bs) \<Longrightarrow> c \<noteq> [] \<and> length c \<le> n"
  by (induction n bs rule: chunks_of.induct) (subst (asm) (2) chunks_of.simps, auto split: if_splits)

lemma from_be16_be16: "n < 65536 \<Longrightarrow> from_be16 (be16 n) = n"
  by (simp add: from_be16_def be16_def unsigned_take_bit_eq unsigned_of_nat take_bit_nat_eq_self)

lemma length_be16 [simp]: "length (be16 n) = 2"
  by (simp add: be16_def)


subsection \<open>The decoder's table\<close>

definition ble_ids :: "ble_decoder \<Rightarrow> nat set" where "ble_ids d = fst ` set d"

lemma bt_get_ids: "bt_get f d \<noteq> None \<longleftrightarrow> f \<in> ble_ids d"
  by (simp add: bt_get_def ble_ids_def map_of_eq_None_iff)

lemma ble_ids_insert [simp]: "ble_ids (bt_insert f p d) = insert f (ble_ids d)"
  using bt_keys_insert [of f p d] by (simp add: ble_ids_def)

lemma ble_ids_remove [simp]: "ble_ids (bt_remove f d) = ble_ids d - {f}"
  by (auto simp: ble_ids_def bt_remove_def image_iff)

lemma length_bt: "bt_ok m \<Longrightarrow> length m = card (fst ` set m)"
  using distinct_card [OF bt_ok_distinct, of m] by simp

lemma length_ble: "bt_ok d \<Longrightarrow> length d = card (ble_ids d)"
  by (simp add: length_bt ble_ids_def)

lemma finite_ble_ids [simp]: "finite (ble_ids d)" by (simp add: ble_ids_def)

lemma add_chunk_table:
  assumes "bt_ok d"
  shows "bt_ok (snd (add_chunk c d))"
    and "ble_ids (snd (add_chunk c d)) \<subseteq> insert (chunk_frame_id c) (ble_ids d)"
    and "f \<noteq> chunk_frame_id c \<Longrightarrow> bt_get f (snd (add_chunk c d)) = bt_get f d"
  using assms by (auto simp: add_chunk_def Let_def bt_ok_insert bt_ok_remove bt_get_insert bt_get_remove)

text \<open>What the table holds of one frame of which the chunks \<open>R\<close> have arrived.\<close>

definition arrived :: "bytes list \<Rightarrow> nat set \<Rightarrow> partial_frame option \<Rightarrow> bool" where
  "arrived parts R e \<longleftrightarrow>
    (case e of
       None \<Rightarrow> R = {}
     | Some p \<Rightarrow> pf_total p = length parts \<and> bt_ok (pf_chunks p) \<and>
         (\<forall>i. bt_get i (pf_chunks p) = (if i \<in> R then Some (parts ! i) else None)) \<and>
         pf_bytes p = (\<Sum>i\<in>R. length (parts ! i)))"

definition ble_chunk :: "nat \<Rightarrow> bytes list \<Rightarrow> nat \<Rightarrow> bytes" where
  "ble_chunk f parts i = be16 f @ be16 i @ be16 (length parts) @ parts ! i"

lemma ble_chunk_header:
  assumes "f < 65536" and "i < length parts" and "length parts \<le> MAX_CHUNKS"
  shows "chunk_frame_id (ble_chunk f parts i) = f" and "chunk_index (ble_chunk f parts i) = i"
    and "chunk_total (ble_chunk f parts i) = length parts"
    and "drop HEADER_BYTES (ble_chunk f parts i) = parts ! i"
    and "length (ble_chunk f parts i) = HEADER_BYTES + length (parts ! i)"
  using assms by (simp_all add: ble_chunk_def chunk_frame_id_def chunk_index_def chunk_total_def
      from_be16_be16 MAX_CHUNKS_def HEADER_BYTES_def drop_Cons')

lemma sum_parts: "R \<subseteq> {..<length parts} \<Longrightarrow> (\<Sum>i\<in>R. length (parts ! i)) \<le> length (concat parts)"
proof -
  assume "R \<subseteq> {..<length parts}"
  then have "(\<Sum>i\<in>R. length (parts ! i)) \<le> (\<Sum>i<length parts. length (parts ! i))"
    by (intro sum_mono2) auto
  also have "\<dots> = length (concat parts)"
    by (simp add: length_concat sum_list_sum_nth atLeast0LessThan)
  finally show ?thesis .
qed

lemma join_chunks_all:
  "\<forall>i \<in> set is. bt_get i m = Some (parts ! i) \<Longrightarrow> join_chunks m is = Inr (concat (map ((!) parts) is))"
  by (induction "is") (auto simp: then_ok_def)

lemma add_chunk_arrived:
  assumes f: "f < 65536" and i: "i < length parts" and n: "length parts \<le> MAX_CHUNKS" and new: "i \<notin> R"
    and ne: "parts ! i \<noteq> []" and fits: "length (concat parts) \<le> MAX_FRAME"
    and R: "R \<subseteq> {..<length parts}" and ok: "bt_ok d" and e: "arrived parts R (bt_get f d)"
    and room: "f \<in> ble_ids d \<or> length d < MAX_PARTIAL_FRAMES"
  shows "card (insert i R) < length parts \<Longrightarrow> fst (add_chunk (ble_chunk f parts i) d) = Inr None \<and>
           arrived parts (insert i R) (bt_get f (snd (add_chunk (ble_chunk f parts i) d)))"
    and "card (insert i R) = length parts \<Longrightarrow> fst (add_chunk (ble_chunk f parts i) d) = Inr (Some (concat parts)) \<and>
           bt_get f (snd (add_chunk (ble_chunk f parts i) d)) = None"
proof -
  define p where "p = (case bt_get f d of None \<Rightarrow> partial_new (length parts) | Some p \<Rightarrow> p)"
  define q where "q = p\<lparr>pf_bytes := pf_bytes p + length (parts ! i),
                          pf_chunks := bt_insert i (parts ! i) (pf_chunks p)\<rparr>"
  have p: "pf_total p = length parts" "bt_ok (pf_chunks p)"
      "\<And>j. bt_get j (pf_chunks p) = (if j \<in> R then Some (parts ! j) else None)"
      "pf_bytes p = (\<Sum>i\<in>R. length (parts ! i))"
    using e by (auto simp: p_def arrived_def partial_new_def bt_empty_def bt_ok_def bt_get_def split: option.splits)
  have fin: "finite R" using R finite_subset by blast
  have sum: "pf_bytes p + length (parts ! i) = (\<Sum>j\<in>insert i R. length (parts ! j))"
    using p(4) new fin by simp
  have q: "arrived parts (insert i R) (Some q)"
    using p sum by (simp add: arrived_def q_def bt_ok_insert bt_get_insert)
  have small: "pf_bytes p + length (parts ! i) \<le> MAX_FRAME"
    using sum sum_parts [of "insert i R" parts] R i fits by simp
  have "fst ` set (pf_chunks q) = insert i R"
    using q by (auto simp: arrived_def bt_get_def map_of_eq_None_iff split: if_splits)
      (metis domI domIff dom_map_of_conv_image_fst image_eqI fst_conv option.distinct(1))+
  then have len: "length (pf_chunks q) = card (insert i R)"
    using q length_bt [of "pf_chunks q"] by (simp add: arrived_def)
  have full: "bt_get f d = None \<Longrightarrow> length d < MAX_PARTIAL_FRAMES" using room bt_get_ids [of f d] by auto
  have step: "add_chunk (ble_chunk f parts i) d =
      (if card (insert i R) \<noteq> length parts then (Inr None, bt_insert f q d)
       else (map_sum id Some (join_chunks (pf_chunks q) [0 ..< length parts]), bt_remove f d))"
    using i n ne full small p(1,3) new ble_chunk_header [OF f i n] len
    by (auto simp: add_chunk_def Let_def p_def [symmetric] q_def)
  { assume "card (insert i R) < length parts"
    then show "fst (add_chunk (ble_chunk f parts i) d) = Inr None \<and>
        arrived parts (insert i R) (bt_get f (snd (add_chunk (ble_chunk f parts i) d)))"
      using step q ok by (simp add: bt_get_insert)
  next
    assume c: "card (insert i R) = length parts"
    then have "insert i R = {..<length parts}" using R i by (intro card_subset_eq) auto
    then have "\<forall>j \<in> set [0 ..< length parts]. bt_get j (pf_chunks q) = Some (parts ! j)"
      using q by (auto simp: arrived_def)
    from join_chunks_all [OF this] have "join_chunks (pf_chunks q) [0 ..< length parts] = Inr (concat parts)"
      by (simp add: map_nth)
    then show "fst (add_chunk (ble_chunk f parts i) d) = Inr (Some (concat parts)) \<and>
        bt_get f (snd (add_chunk (ble_chunk f parts i) d)) = None"
      using step c by (simp add: bt_get_remove)
  }
qed

text \<open>The answers to the chunks of one frame, in a run of arrivals.\<close>

fun answers_of :: "nat \<Rightarrow> bytes list \<Rightarrow> (ble_error + bytes option) list \<Rightarrow> (ble_error + bytes option) list" where
  "answers_of f (c # cs) (r # rs) = (if chunk_frame_id c = f then r # answers_of f cs rs else answers_of f cs rs)"
| "answers_of f _ _ = []"

lemma answers_of_none:
  assumes "bt_ok d" and "\<forall>c \<in> set cs. chunk_frame_id c \<noteq> f"
  shows "answers_of f cs (fst (ble_feed cs d)) = [] \<and> bt_get f (snd (ble_feed cs d)) = bt_get f d"
  using assms
proof (induction cs arbitrary: d)
  case (Cons c cs)
  obtain r d' where a: "add_chunk c d = (r, d')" by fastforce
  then have "bt_ok d'" "bt_get f d' = bt_get f d"
    using add_chunk_table(1) [OF Cons.prems(1), of c] add_chunk_table(3) [OF Cons.prems(1), of f c] Cons.prems(2)
    by auto
  with Cons.IH [of d'] Cons.prems(2) a show ?case by (auto simp: Let_def split: prod.splits)
qed simp

lemma feed_rest:
  assumes f: "f < 65536" and n: "length parts \<le> MAX_CHUNKS" and ne: "\<forall>c \<in> set parts. c \<noteq> []"
    and fits: "length (concat parts) \<le> MAX_FRAME" and S: "finite S" "card S \<le> MAX_PARTIAL_FRAMES" "f \<in> S"
  shows "bt_ok d \<Longrightarrow> ble_ids d \<union> chunk_frame_id ` set cs \<subseteq> S \<Longrightarrow> arrived parts R (bt_get f d) \<Longrightarrow>
    distinct js \<Longrightarrow> set js \<inter> R = {} \<Longrightarrow> set js \<union> R = {..<length parts} \<Longrightarrow> js \<noteq> [] \<Longrightarrow>
    filter (\<lambda>c. chunk_frame_id c = f) cs = map (ble_chunk f parts) js \<Longrightarrow>
    answers_of f cs (fst (ble_feed cs d)) = replicate (length js - 1) (Inr None) @ [Inr (Some (concat parts))] \<and>
    bt_get f (snd (ble_feed cs d)) = None"
proof (induction cs arbitrary: d R js)
  case (Cons c cs)
  obtain r d' where a: "add_chunk c d = (r, d')" by fastforce
  have t: "bt_ok d'" "ble_ids d' \<union> chunk_frame_id ` set cs \<subseteq> S"
    using add_chunk_table(1,2) [OF Cons.prems(1), of c] Cons.prems(2) a by auto
  show ?case
  proof (cases "chunk_frame_id c = f")
    case False
    then have "bt_get f d' = bt_get f d" using add_chunk_table(3) [OF Cons.prems(1), of f c] a by simp
    then show ?thesis
      using Cons.IH [OF t(1) t(2) _ Cons.prems(4-7)] Cons.prems(3,8) False a
      by (auto simp: Let_def split: prod.splits)
  next
    case True
    obtain i js' where js: "js = i # js'" using Cons.prems(7) by (cases js) auto
    have c: "c = ble_chunk f parts i" and cs: "filter (\<lambda>c. chunk_frame_id c = f) cs = map (ble_chunk f parts) js'"
      using True js Cons.prems(8) by auto
    have "i \<in> set js \<union> R" using js by simp
    then have il: "i < length parts" using Cons.prems(6) by blast
    then have i: "i < length parts" "i \<notin> R" "parts ! i \<noteq> []" using js Cons.prems(5) ne by simp_all
    have R: "R \<subseteq> {..<length parts}" using Cons.prems(6) by blast
    have "f \<notin> ble_ids d \<Longrightarrow> length d < MAX_PARTIAL_FRAMES"
    proof -
      assume "f \<notin> ble_ids d"
      then have "ble_ids d \<subset> S" using Cons.prems(2) S(3) by blast
      from psubset_card_mono [OF S(1) this] S(2) length_ble [OF Cons.prems(1)]
      show "length d < MAX_PARTIAL_FRAMES" by simp
    qed
    then have "f \<in> ble_ids d \<or> length d < MAX_PARTIAL_FRAMES" by blast
    note step = add_chunk_arrived [OF f i(1) n i(2,3) fits R Cons.prems(1,3) this, folded c]
    have "set js' \<union> insert i R = set js \<union> R" using js by simp
    then have R': "set js' \<union> insert i R = {..<length parts}" "set js' \<inter> insert i R = {}" "distinct js'"
      using js Cons.prems(4-6) by simp_all
    have fin: "finite R" using R finite_subset by blast
    have card: "length js' + card (insert i R) = length parts"
      using R' fin card_Un_disjoint [of "set js'" "insert i R"] distinct_card [OF R'(3)] by simp
    show ?thesis
    proof (cases "js' = []")
      case last: True
      then have "\<forall>c \<in> set cs. chunk_frame_id c \<noteq> f" using cs by (simp add: filter_empty_conv)
      with answers_of_none [OF t(1), of cs f] step(2) card last a js True show ?thesis
        by (auto simp: Let_def split: prod.splits)
    next
      case False
      then have "card (insert i R) < length parts" using card by (cases js') auto
      with Cons.IH [OF t(1) t(2) _ R'(3,2,1) False cs] step(1) a
      have "r = Inr None" "answers_of f cs (fst (ble_feed cs d')) =
          replicate (length js' - 1) (Inr None) @ [Inr (Some (concat parts))]" "bt_get f (snd (ble_feed cs d')) = None"
        by simp_all
      with False a js True show ?thesis by (cases js') (auto simp: Let_def split: prod.splits)
    qed
  qed
qed simp

text \<open>What the encoder emits, as the chunks of its parts.\<close>

lemma ble_encode_chunks:
  assumes "ble_encode frame att n = (Inr chunks, n')"
  obtains parts where "chunks = map (ble_chunk (unat n) parts) [0 ..< length parts]" and "concat parts = frame"
    and "\<forall>c \<in> set parts. c \<noteq> [] \<and> length c + HEADER_BYTES \<le> att" and "length parts \<le> MAX_CHUNKS"
    and "frame \<noteq> []" and "length frame \<le> MAX_FRAME" and "n' = n + 1"
proof -
  let ?parts = "chunks_of (att - HEADER_BYTES) frame"
  have a: "\<not> att < HEADER_BYTES" "0 < att - HEADER_BYTES" "frame \<noteq> []" "length frame \<le> MAX_FRAME"
      "(length frame + (att - HEADER_BYTES) - 1) div (att - HEADER_BYTES) \<le> MAX_CHUNKS" "n' = n + 1"
      "chunks = map (\<lambda>(index, part). be16 (unat n) @ be16 index @
         be16 ((length frame + (att - HEADER_BYTES) - 1) div (att - HEADER_BYTES)) @ part) (List.enumerate 0 ?parts)"
    using assms by (simp_all add: ble_encode_def Let_def split: if_splits)
  have "chunks = map (ble_chunk (unat n) ?parts) [0 ..< length ?parts]"
    by (rule nth_equalityI)
      (simp_all add: a(7) nth_enumerate_eq ble_chunk_def chunks_of_length [OF a(2)])
  moreover have "\<forall>c \<in> set ?parts. c \<noteq> [] \<and> length c + HEADER_BYTES \<le> att"
    using chunks_of_parts a(1) by fastforce
  ultimately show thesis
    using that [of ?parts] a chunks_of_concat [OF a(2)] chunks_of_length [OF a(2)] by simp
qed

lemma permuted_chunks:
  assumes "mset xs = mset (map (ble_chunk f parts) [0 ..< length parts])" and "f < 65536" and "length parts \<le> MAX_CHUNKS"
  shows "\<exists>js. mset js = mset [0 ..< length parts] \<and> xs = map (ble_chunk f parts) js"
proof (intro exI conjI)
  have inv: "chunk_index (ble_chunk f parts i) = i" if "i < length parts" for i
    using ble_chunk_header(2) [OF assms(2) that assms(3)] .
  have "mset (map chunk_index xs) = image_mset chunk_index (mset (map (ble_chunk f parts) [0 ..< length parts]))"
    by (simp only: assms(1) mset_map)
  also have "\<dots> = mset (map (\<lambda>i. chunk_index (ble_chunk f parts i)) [0 ..< length parts])" by (simp only: mset_map [symmetric] map_map comp_def)
  also have "\<dots> = mset [0 ..< length parts]"
    by (rule arg_cong [where f = mset], rule map_idI) (simp add: inv)
  finally show "mset (map chunk_index xs) = mset [0 ..< length parts]" .
  have "set xs = set (map (ble_chunk f parts) [0 ..< length parts])" using assms(1) by (metis set_mset_mset)
  then show "xs = map (ble_chunk f parts) (map chunk_index xs)"
    by (auto simp: inv intro!: map_idI [symmetric])
qed

lemma chunks_in_any_order:
  assumes e: "ble_encode frame att n = (Inr chunks, n')" and ok: "bt_ok d" and new: "bt_get (unat n) d = None"
    and few: "card (insert (unat n) (ble_ids d \<union> chunk_frame_id ` set cs)) \<le> MAX_PARTIAL_FRAMES"
    and all: "mset (filter (\<lambda>c. chunk_frame_id c = unat n) cs) = mset chunks"
  shows "answers_of (unat n) cs (fst (ble_feed cs d)) = replicate (length chunks - 1) (Inr None) @ [Inr (Some frame)] \<and>
    bt_get (unat n) (snd (ble_feed cs d)) = None"
proof -
  obtain parts where p: "chunks = map (ble_chunk (unat n) parts) [0 ..< length parts]" "concat parts = frame"
    "\<forall>c \<in> set parts. c \<noteq> [] \<and> length c + HEADER_BYTES \<le> att" "length parts \<le> MAX_CHUNKS" "frame \<noteq> []"
    "length frame \<le> MAX_FRAME" using ble_encode_chunks [OF e] by metis
  have n: "unat n < 65536" using unsigned_less [of n] by simp
  obtain js where js: "mset js = mset [0 ..< length parts]"
      "filter (\<lambda>c. chunk_frame_id c = unat n) cs = map (ble_chunk (unat n) parts) js"
    using permuted_chunks [OF all [unfolded p(1)] n p(4)] by blast
  have d: "distinct js" "set js = {..<length parts}" "length js = length parts"
    using js(1) by (metis distinct_upt mset_eq_imp_distinct_iff, metis atLeast_upt set_mset_mset,
      metis length_upt mset_eq_length minus_nat.diff_0)
  have "js \<noteq> []" using d(3) p(2,5) by auto
  then show ?thesis
    using feed_rest [OF n p(4) _ _ _ few, of d cs "{}" js] p ok new d js(2)
    by (simp add: arrived_def subset_insertI2)
qed

lemma ble_encode_size:
  assumes "ble_encode frame att n = (Inr chunks, n')"
  shows "list_all (\<lambda>c. length c \<le> att) chunks"
proof -
  obtain parts where p: "chunks = map (ble_chunk (unat n) parts) [0 ..< length parts]"
    "\<forall>c \<in> set parts. c \<noteq> [] \<and> length c + HEADER_BYTES \<le> att" using ble_encode_chunks [OF assms] by metis
  have "length (ble_chunk (unat n) parts i) \<le> att" if i: "i < length parts" for i
  proof -
    have "length (parts ! i) + HEADER_BYTES \<le> att" using p(2) nth_mem [OF i] by blast
    then show ?thesis by (simp add: ble_chunk_def HEADER_BYTES_def)
  qed
  then show ?thesis by (auto simp: p(1) list_all_iff)
qed

end
