(* ===== verification/Ssh_Agent.thy ===== *)
theory Ssh_Agent
  imports Ssh_Keys
begin

text \<open>
  The ssh-agent protocol without a socket, \<open>phone-auth-agent/src/ssh_agent.rs\<close>: what a client asked
  for, and the framed answers.
\<close>

definition SSH_AGENT_FAILURE :: u8 where "SSH_AGENT_FAILURE = 5"
definition SSH_AGENT_SUCCESS :: u8 where "SSH_AGENT_SUCCESS = 6"
definition SSH_AGENTC_REQUEST_IDENTITIES :: u8 where "SSH_AGENTC_REQUEST_IDENTITIES = 11"
definition SSH_AGENT_IDENTITIES_ANSWER :: u8 where "SSH_AGENT_IDENTITIES_ANSWER = 12"
definition SSH_AGENTC_SIGN_REQUEST :: u8 where "SSH_AGENTC_SIGN_REQUEST = 13"
definition SSH_AGENT_SIGN_RESPONSE :: u8 where "SSH_AGENT_SIGN_RESPONSE = 14"
definition SSH_AGENTC_EXTENSION :: u8 where "SSH_AGENTC_EXTENSION = 27"
definition SESSION_BIND :: string where "SESSION_BIND = ''session-bind@openssh.com''"
definition SSH_MSG_USERAUTH_REQUEST :: u8 where "SSH_MSG_USERAUTH_REQUEST = 50"
definition MAX_MESSAGE_BYTES :: nat where "MAX_MESSAGE_BYTES = 256 * 1024"

lemmas ssh_agent_consts = SSH_AGENT_FAILURE_def SSH_AGENT_SUCCESS_def SSH_AGENTC_REQUEST_IDENTITIES_def
  SSH_AGENT_IDENTITIES_ANSWER_def SSH_AGENTC_SIGN_REQUEST_def SSH_AGENT_SIGN_RESPONSE_def
  SSH_AGENTC_EXTENSION_def SSH_MSG_USERAUTH_REQUEST_def

record agent_sign_request =
  as_key_blob :: bytes
  as_data :: bytes
  as_flags :: u32

record sign_context =
  sc_user :: string
  sc_service :: string

record session_bind =
  sb_host_key :: bytes
  sb_forwarding :: bool

datatype ssh_request =
    AskIdentities
  | AskSign agent_sign_request
  | AskSessionBind session_bind
  | AskUnsupported

text \<open>\<open>.ok()?\<close> and \<open>let Ok(x) = \<dots> else\<close>: the value, or the early return.\<close>

definition or_return :: "'e + 'a \<Rightarrow> 'b \<Rightarrow> ('a \<Rightarrow> 'b) \<Rightarrow> 'b" where
  "or_return m early k = (case m of Inl _ \<Rightarrow> early | Inr x \<Rightarrow> k x)"

lemma or_return_simps [simp]: "or_return (Inl e) early k = early" "or_return (Inr x) early k = k x"
  by (simp_all add: or_return_def)

definition describe :: "agent_sign_request \<Rightarrow> sign_context option" where
  "describe request =
    or_return (sr_string (ssh_reader_new (as_data request))) None (\<lambda>(_, reader).
    or_return (sr_u8 reader) None (\<lambda>(tag, reader).
    if tag \<noteq> SSH_MSG_USERAUTH_REQUEST then None else
    or_return (sr_text reader) None (\<lambda>(user, reader).
    or_return (sr_text reader) None (\<lambda>(service, reader).
    or_return (sr_text reader) None (\<lambda>(method, reader).
    if method \<noteq> ''publickey'' then None
    else Some \<lparr>sc_user = user, sc_service = service\<rparr>)))))"

definition ssh_parse :: "bytes \<Rightarrow> ssh_request" where
  "ssh_parse body =
    (case body of
       [] \<Rightarrow> AskUnsupported
     | kind # rest \<Rightarrow>
         if kind = SSH_AGENTC_REQUEST_IDENTITIES \<and> rest = [] then AskIdentities
         else if kind = SSH_AGENTC_SIGN_REQUEST then
           or_return (sr_string (ssh_reader_new rest)) AskUnsupported (\<lambda>(key_blob, reader).
           or_return (sr_string reader) AskUnsupported (\<lambda>(data, reader).
           or_return (sr_u32 reader) AskUnsupported (\<lambda>(flags, reader).
           or_return (sr_finish reader) AskUnsupported (\<lambda>_.
           AskSign \<lparr>as_key_blob = key_blob, as_data = data, as_flags = flags\<rparr>))))
         else if kind = SSH_AGENTC_EXTENSION then
           or_return (sr_text (ssh_reader_new rest)) AskUnsupported (\<lambda>(name, reader).
           if name \<noteq> SESSION_BIND then AskUnsupported else
           or_return (sr_string reader) AskUnsupported (\<lambda>(host_key, reader).
           or_return (sr_string reader) AskUnsupported (\<lambda>(_, reader).
           or_return (sr_string reader) AskUnsupported (\<lambda>(_, reader).
           or_return (sr_u8 reader) AskUnsupported (\<lambda>(forwarding, reader).
           or_return (sr_finish reader) AskUnsupported (\<lambda>_.
           AskSessionBind \<lparr>sb_host_key = host_key, sb_forwarding = (forwarding \<noteq> 0)\<rparr>))))))
         else AskUnsupported)"

subsection \<open>Answers\<close>

definition framed :: "bytes \<Rightarrow> bytes" where
  "framed body = to_be_bytes 4 (ucast (word_of_nat (length body) :: u32)) @ body"

definition identities_answer :: "(bytes \<times> string) list \<Rightarrow> bytes" where
  "identities_answer keys =
    (let writer = sw_u32 (word_of_nat (length keys)) (sw_u8 SSH_AGENT_IDENTITIES_ANSWER []);
         writer = fold (\<lambda>(blob, comment) w. sw_text comment (sw_string blob w)) keys writer
     in framed writer)"

definition agent_sign_response :: "bytes \<Rightarrow> bytes" where
  "agent_sign_response signature_blob = framed (sw_string signature_blob (sw_u8 SSH_AGENT_SIGN_RESPONSE []))"

definition ssh_failure :: bytes where "ssh_failure = framed [SSH_AGENT_FAILURE]"
definition ssh_success :: bytes where "ssh_success = framed [SSH_AGENT_SUCCESS]"

definition announced_length :: "bytes \<Rightarrow> string + nat option" where
  "announced_length input =
    (if length input < 4 then Inr None
     else
       let len = unat (from_be_bytes (take 4 input)) in
       if len = 0 then Inl ''empty agent message''
       else if len > MAX_MESSAGE_BYTES then Inl ''agent message over the size limit''
       else Inr (Some len))"

subsection \<open>What is read\<close>

lemma describe_account: "describe request =
    map_option (\<lambda>(user, service). \<lparr>sc_user = user, sc_service = service\<rparr>) (account_in_request (as_data request))"
  by (auto simp: describe_def account_in_request_def or_return_def then_ok_def SSH_MSG_USERAUTH_REQUEST_def
      split: sum.splits prod.splits)

text \<open>The messages a client writes.\<close>

definition sign_message :: "agent_sign_request \<Rightarrow> bytes" where
  "sign_message r = SSH_AGENTC_SIGN_REQUEST # ssh_enc (as_key_blob r) @ ssh_enc (as_data r) @
     to_be_bytes 4 (ucast (as_flags r))"

definition bind_message :: "bytes \<Rightarrow> bytes \<Rightarrow> bytes \<Rightarrow> u8 \<Rightarrow> bytes" where
  "bind_message host_key session_id signature forwarding = SSH_AGENTC_EXTENSION #
     ssh_enc (as_bytes SESSION_BIND) @ ssh_enc host_key @ ssh_enc session_id @ ssh_enc signature @ [forwarding]"


lemma SESSION_BIND_str [simp]: "is_str SESSION_BIND" "length SESSION_BIND = 24"
  by (simp_all add: SESSION_BIND_def is_str_ascii ascii_def)

lemma or_return_eq: "or_return m early k = y \<longleftrightarrow> (\<exists>e. m = Inl e \<and> y = early) \<or> (\<exists>x. m = Inr x \<and> k x = y)"
  by (cases m) auto

lemma sr_u32_strict [strict]:
  assumes "sr_u32 (ssh_at pre rest) = Inr (v, r)"
  shows "\<exists>rest'. rest = to_be_bytes 4 (ucast v) @ rest' \<and> r = ssh_at (pre @ to_be_bytes 4 (ucast v)) rest'"
proof -
  from assms obtain s where s: "sr_slice 4 (ssh_at pre rest) = Inr (s, r)" "v = ucast (from_be_bytes s)"
    by (auto simp: sr_u32_def then_ok_eq_Inr)
  from sr_slice_strict [OF s(1)] obtain rest' where r: "rest = s @ rest'" "length s = 4" "r = ssh_at (pre @ s) rest'"
    by auto
  have "to_be_bytes 4 (ucast v) = s" using to_be_bytes_length [OF r(2), of "unat v"] s(2) by simp
  then show ?thesis using r by simp
qed

text \<open>A sign request and a session bind are exactly the messages a client writes.\<close>

lemma ssh_parse_sign_iff:
  assumes "slice_ok body"
  shows "ssh_parse body = AskSign r \<longleftrightarrow>
    body = sign_message r \<and> length (as_key_blob r) \<le> MAX_FIELD_BYTES \<and> length (as_data r) \<le> MAX_FIELD_BYTES"
proof
  assume "ssh_parse body = AskSign r"
  then show "body = sign_message r \<and> length (as_key_blob r) \<le> MAX_FIELD_BYTES \<and> length (as_data r) \<le> MAX_FIELD_BYTES"
    by (auto simp: ssh_parse_def ssh_reader_new_at or_return_eq sign_message_def split: list.splits if_splits
        dest!: sr_string_strict sr_u32_strict)
next
  assume "body = sign_message r \<and> length (as_key_blob r) \<le> MAX_FIELD_BYTES \<and> length (as_data r) \<le> MAX_FIELD_BYTES"
  then show "ssh_parse body = AskSign r"
    using assms sr_u32_at [of _ "as_flags r" "[]"]
    by (simp add: ssh_parse_def ssh_reader_new_at sign_message_def ssh_agent_consts codec slice_ok_def)
qed

lemma ssh_parse_bind_iff:
  assumes "slice_ok body"
  shows "ssh_parse body = AskSessionBind b \<longleftrightarrow>
    (\<exists>session_id signature f. body = bind_message (sb_host_key b) session_id signature f \<and> sb_forwarding b = (f \<noteq> 0) \<and>
       length (sb_host_key b) \<le> MAX_FIELD_BYTES \<and> length session_id \<le> MAX_FIELD_BYTES \<and>
       length signature \<le> MAX_FIELD_BYTES)"
    (is "?l \<longleftrightarrow> ?r")
proof
  assume ?l
  then show ?r
    by (auto simp: ssh_parse_def ssh_reader_new_at or_return_eq bind_message_def split: list.splits if_splits
        dest!: sr_string_strict sr_text_strict sr_u8_strict) blast
next
  assume ?r
  then show ?l
    using assms sr_u8_at [where rest = "[]"]
    by (auto simp: ssh_parse_def ssh_reader_new_at bind_message_def ssh_agent_consts codec slice_ok_def MAX_FIELD_BYTES_def)
qed

end
