(* ===== verification/Ssh_Session.thy ===== *)
theory Ssh_Session
  imports Ssh_Agent Encoding
begin

text \<open>
  Whether the phone is asked for an SSH signature and what it is shown
  (\<open>phone-auth-agent/src/ssh_policy.rs\<close>), one connection of the ssh-agent and its framing
  (\<open>ssh_session.rs\<close>). SHA-256 is a parameter; the backend is the record of its two methods.
\<close>

subsection \<open>Fingerprints\<close>

text \<open>The accumulator is a \<open>u32\<close> that is never masked: only its low bits are read.\<close>

definition base64_char :: "u32 \<Rightarrow> char" where
  "base64_char w = BASE64_ALPHABET ! unat (w AND 63)"

function base64_drain :: "u32 \<Rightarrow> nat \<Rightarrow> string \<Rightarrow> string \<times> nat" where
  "base64_drain accumulator bits out =
    (if bits \<ge> 6
     then base64_drain accumulator (bits - 6) (out @ [base64_char (drop_bit (bits - 6) accumulator)])
     else (out, bits))"
  by pat_completeness auto
termination
  by (relation "measure (\<lambda>(_, bits, _). bits)") auto

declare base64_drain.simps [simp del]

fun base64_bytes :: "bytes \<Rightarrow> u32 \<Rightarrow> nat \<Rightarrow> string \<Rightarrow> string \<times> u32 \<times> nat" where
  "base64_bytes [] accumulator bits out = (out, accumulator, bits)"
| "base64_bytes (byte # rest) accumulator bits out =
    (let accumulator = push_bit 8 accumulator OR ucast byte;
         (out, bits) = base64_drain accumulator (bits + 8) out
     in base64_bytes rest accumulator bits out)"

definition base64_unpadded :: "bytes \<Rightarrow> string" where
  "base64_unpadded bs =
    (let (out, accumulator, bits) = base64_bytes bs 0 0 []
     in if bits > 0 then out @ [base64_char (push_bit (6 - bits) accumulator)] else out)"

definition ssh_fingerprint :: "(bytes \<Rightarrow> bytes) \<Rightarrow> bytes \<Rightarrow> string" where
  "ssh_fingerprint sha256 host_key = ''SHA256:'' @ base64_unpadded (sha256 host_key)"

subsection \<open>The decision\<close>

record prompt =
  pr_user :: string
  pr_destination :: "string option"
  pr_forwarded :: bool
  pr_first_time :: bool

datatype ssh_decision = Ask prompt | Refuse string

text \<open>The three \<open>BTreeSet\<close>s; nothing reads their order.\<close>

record ssh_policy =
  sp_known :: "string set"
  sp_forwardable :: "string set"
  sp_restricted_to :: "string set"

definition policy_new :: ssh_policy where
  "policy_new = \<lparr>sp_known = {}, sp_forwardable = {}, sp_restricted_to = {}\<rparr>"

definition restrict_to :: "string list \<Rightarrow> ssh_policy \<Rightarrow> ssh_policy" where
  "restrict_to fingerprints p = p\<lparr>sp_restricted_to := set fingerprints\<rparr>"

definition allow_forwarding_to :: "string \<Rightarrow> ssh_policy \<Rightarrow> ssh_policy" where
  "allow_forwarding_to f p = p\<lparr>sp_forwardable := insert f (sp_forwardable p)\<rparr>"

definition remember :: "string \<Rightarrow> ssh_policy \<Rightarrow> ssh_policy" where
  "remember f p = p\<lparr>sp_known := insert f (sp_known p)\<rparr>"

definition ssh_decide ::
    "(bytes \<Rightarrow> bytes) \<Rightarrow> ssh_policy \<Rightarrow> sign_context option \<Rightarrow> session_bind option \<Rightarrow> ssh_decision" where
  "ssh_decide sha256 p context bind =
    (case context of
       None \<Rightarrow> Refuse ''the sign request is not a readable login''
     | Some context \<Rightarrow>
         if sc_user context = [] then Refuse ''the sign request names no account'' else
         let destination = map_option (\<lambda>b. ssh_fingerprint sha256 (sb_host_key b)) bind;
             forwarded = (case bind of None \<Rightarrow> False | Some b \<Rightarrow> sb_forwarding b);
             ask = Ask \<lparr>pr_user = sc_user context, pr_destination = destination, pr_forwarded = forwarded,
                        pr_first_time = (case destination of None \<Rightarrow> True | Some f \<Rightarrow> f \<notin> sp_known p)\<rparr>
         in case destination of
              Some f \<Rightarrow>
                if sp_restricted_to p \<noteq> {} \<and> f \<notin> sp_restricted_to p
                then Refuse ''this destination is not in the allow-list''
                else if forwarded \<and> f \<notin> sp_forwardable p
                then Refuse ''agent forwarding is not allowed to this host''
                else ask
            | None \<Rightarrow>
                if sp_restricted_to p \<noteq> {} then Refuse ''the client did not name a destination''
                else if forwarded then Refuse ''agent forwarding is not allowed''
                else ask)"

subsection \<open>One connection\<close>

record 'b ssh_backend =
  bk_identities :: "'b \<Rightarrow> (bytes \<times> string) list \<times> 'b"
  bk_sign :: "bytes \<Rightarrow> bytes \<Rightarrow> prompt \<Rightarrow> 'b \<Rightarrow> bytes option \<times> 'b"

record 'b ssh_session =
  ss_backend :: 'b
  ss_policy :: ssh_policy
  ss_bind :: "session_bind option"

definition ssh_session_new :: "'b \<Rightarrow> ssh_policy \<Rightarrow> 'b ssh_session" where
  "ssh_session_new backend p = \<lparr>ss_backend = backend, ss_policy = p, ss_bind = None\<rparr>"

definition ssh_handle_sign ::
    "(bytes \<Rightarrow> bytes) \<Rightarrow> 'b ssh_backend \<Rightarrow> agent_sign_request \<Rightarrow> 'b ssh_session \<Rightarrow> bytes \<times> 'b ssh_session" where
  "ssh_handle_sign sha256 bk request s =
    (case ssh_decide sha256 (ss_policy s) (describe request) (ss_bind s) of
       Refuse _ \<Rightarrow> (ssh_failure, s)
     | Ask p \<Rightarrow>
         let (identities, backend) = bk_identities bk (ss_backend s); s = s\<lparr>ss_backend := backend\<rparr> in
         if \<not> list_ex (\<lambda>(blob, _). blob = as_key_blob request) identities then (ssh_failure, s)
         else
           let (raw, backend) = bk_sign bk (as_key_blob request) (as_data request) p (ss_backend s);
               s = s\<lparr>ss_backend := backend\<rparr> in
           case raw of
             None \<Rightarrow> (ssh_failure, s)
           | Some raw \<Rightarrow>
               (case encode_signature raw of
                  Inl _ \<Rightarrow> (ssh_failure, s)
                | Inr blob \<Rightarrow>
                    (agent_sign_response blob,
                     case pr_destination p of
                       None \<Rightarrow> s
                     | Some d \<Rightarrow> s\<lparr>ss_policy := remember d (ss_policy s)\<rparr>)))"

definition ssh_handle ::
    "(bytes \<Rightarrow> bytes) \<Rightarrow> 'b ssh_backend \<Rightarrow> bytes \<Rightarrow> 'b ssh_session \<Rightarrow> bytes \<times> 'b ssh_session" where
  "ssh_handle sha256 bk body s =
    (case ssh_parse body of
       AskIdentities \<Rightarrow>
         let (identities, backend) = bk_identities bk (ss_backend s)
         in (identities_answer identities, s\<lparr>ss_backend := backend\<rparr>)
     | AskSessionBind b \<Rightarrow> (ssh_success, s\<lparr>ss_bind := Some b\<rparr>)
     | AskSign request \<Rightarrow> ssh_handle_sign sha256 bk request s
     | AskUnsupported \<Rightarrow> (ssh_failure, s))"

definition ssh_destination :: "(bytes \<Rightarrow> bytes) \<Rightarrow> 'b ssh_session \<Rightarrow> string option" where
  "ssh_destination sha256 s = map_option (\<lambda>b. ssh_fingerprint sha256 (sb_host_key b)) (ss_bind s)"

text \<open>The messages of one connection, answered in turn.\<close>

fun ssh_run :: "(bytes \<Rightarrow> bytes) \<Rightarrow> 'b ssh_backend \<Rightarrow> bytes list \<Rightarrow> 'b ssh_session \<Rightarrow> bytes list \<times> 'b ssh_session" where
  "ssh_run sha256 bk [] s = ([], s)"
| "ssh_run sha256 bk (body # bodies) s =
    (let (reply, s) = ssh_handle sha256 bk body s; (replies, s) = ssh_run sha256 bk bodies s
     in (reply # replies, s))"

subsection \<open>Framing\<close>

function ssh_split :: "bytes \<Rightarrow> bytes list \<Rightarrow> (string + bytes list) \<times> bytes" where
  "ssh_split pending out =
    (case announced_length pending of
       Inl e \<Rightarrow> (Inl e, pending)
     | Inr None \<Rightarrow> (Inr out, pending)
     | Inr (Some len) \<Rightarrow>
         if length pending < 4 + len then (Inr out, pending)
         else ssh_split (drop (4 + len) pending) (out @ [take len (drop 4 pending)]))"
  by pat_completeness auto
termination
  by (relation "measure (\<lambda>(pending, _). length pending)")
    (auto simp: announced_length_def Let_def split: if_splits)

declare ssh_split.simps [simp del]

definition ssh_push :: "bytes \<Rightarrow> bytes \<Rightarrow> (string + bytes list) \<times> bytes" where
  "ssh_push input pending = ssh_split (pending @ input) []"

text \<open>The reads of one connection: the messages they finish, or the error that closes it.\<close>

fun ssh_push_all :: "bytes list \<Rightarrow> bytes \<Rightarrow> (string + bytes list) \<times> bytes" where
  "ssh_push_all [] pending = (Inr [], pending)"
| "ssh_push_all (input # inputs) pending =
    (case ssh_push input pending of
       (Inl e, pending) \<Rightarrow> (Inl e, pending)
     | (Inr out, pending) \<Rightarrow>
         (case ssh_push_all inputs pending of
            (Inl e, pending) \<Rightarrow> (Inl e, pending)
          | (Inr out', pending) \<Rightarrow> (Inr (out @ out'), pending)))"

subsection \<open>What the phone was asked\<close>

text \<open>A backend that keeps every question put to it with its answer, oldest first.\<close>

record asked =
  ak_key :: bytes
  ak_data :: bytes
  ak_prompt :: prompt
  ak_answer :: "bytes option"

definition logging :: "'b ssh_backend \<Rightarrow> ('b \<times> asked list) ssh_backend" where
  "logging bk =
    \<lparr>bk_identities = (\<lambda>(b, log). let (ids, b) = bk_identities bk b in (ids, (b, log))),
     bk_sign = (\<lambda>key data p (b, log).
       let (raw, b) = bk_sign bk key data p b
       in (raw, (b, log @ [\<lparr>ak_key = key, ak_data = data, ak_prompt = p, ak_answer = raw\<rparr>])))\<rparr>"

definition signed_blob :: "asked \<Rightarrow> bytes option" where
  "signed_blob e =
    (case ak_answer e of
       None \<Rightarrow> None
     | Some raw \<Rightarrow> (case encode_signature raw of Inl _ \<Rightarrow> None | Inr blob \<Rightarrow> Some blob))"

text \<open>A question the policy lets through: it names the account of the data, and a destination the
  rules of the policy hold for.\<close>

definition allowed_ask :: "ssh_policy \<Rightarrow> asked \<Rightarrow> bool" where
  "allowed_ask p e \<longleftrightarrow>
    (let q = ak_prompt e in
     (case account_in_request (ak_data e) of None \<Rightarrow> False | Some (user, _) \<Rightarrow> user \<noteq> [] \<and> pr_user q = user) \<and>
     (sp_restricted_to p = {} \<or> (case pr_destination q of None \<Rightarrow> False | Some d \<Rightarrow> d \<in> sp_restricted_to p)) \<and>
     (\<not> pr_forwarded q \<or> (case pr_destination q of None \<Rightarrow> False | Some d \<Rightarrow> d \<in> sp_forwardable p)))"

definition same_rules :: "ssh_policy \<Rightarrow> ssh_policy \<Rightarrow> bool" where
  "same_rules p q \<longleftrightarrow> sp_restricted_to p = sp_restricted_to q \<and> sp_forwardable p = sp_forwardable q"

definition is_signature :: "bytes \<Rightarrow> bool" where
  "is_signature reply \<longleftrightarrow> reply ! 4 = SSH_AGENT_SIGN_RESPONSE"

definition routine :: "asked list \<Rightarrow> asked \<Rightarrow> bool" where
  "routine before e \<longleftrightarrow> (\<exists>e' \<in> set before. pr_destination (ak_prompt e') = pr_destination (ak_prompt e) \<and> signed_blob e' \<noteq> None)"

definition known_signed :: "asked list \<Rightarrow> string set" where
  "known_signed log = {d. \<exists>e \<in> set log. pr_destination (ak_prompt e) = Some d \<and> signed_blob e \<noteq> None}"

lemma framed_nth: "framed (b # bs) ! 4 = b"
  by (simp add: framed_def nth_append)

lemma sw_fold_append: "\<exists>t. fold (\<lambda>(blob, comment) w. sw_text comment (sw_string blob w)) keys w = w @ t"
proof (induction keys arbitrary: w)
  case (Cons k keys)
  obtain b c where "k = (b, c)" by (cases k) auto
  with Cons.IH [of "sw_text c (sw_string b w)"] show ?case by (auto simp: sw_string_append sw_text_append)
qed simp

lemma is_signature_answers [simp]:
  "\<not> is_signature ssh_failure" "\<not> is_signature ssh_success" "\<not> is_signature (identities_answer keys)"
  "is_signature (agent_sign_response blob)"
proof -
  obtain t where "fold (\<lambda>(blob, comment) w. sw_text comment (sw_string blob w)) keys
      (sw_u32 (word_of_nat (length keys)) (sw_u8 SSH_AGENT_IDENTITIES_ANSWER [])) =
      sw_u32 (word_of_nat (length keys)) (sw_u8 SSH_AGENT_IDENTITIES_ANSWER []) @ t"
    using sw_fold_append by blast
  then show "\<not> is_signature (identities_answer keys)"
    by (simp add: is_signature_def identities_answer_def sw_u8_def sw_u32_def framed_nth ssh_agent_consts)
qed (simp_all add: is_signature_def ssh_failure_def ssh_success_def agent_sign_response_def framed_nth
      ssh_agent_consts sw_u8_def sw_string_append)

lemma decide_ask:
  assumes "ssh_decide sha256 p (describe r) bind = Ask q"
  shows "allowed_ask p \<lparr>ak_key = k, ak_data = as_data r, ak_prompt = q, ak_answer = a\<rparr>"
    and "pr_first_time q \<or> (\<exists>d. pr_destination q = Some d \<and> d \<in> sp_known p)"
    and "pr_destination q = map_option (\<lambda>b. ssh_fingerprint sha256 (sb_host_key b)) bind"
    and "pr_forwarded q \<longleftrightarrow> (case bind of None \<Rightarrow> False | Some b \<Rightarrow> sb_forwarding b)"
  using assms by (auto simp: ssh_decide_def describe_account allowed_ask_def Let_def
      split: option.splits if_splits)

definition same_session :: "'b ssh_session \<Rightarrow> 'b ssh_session \<Rightarrow> bool" where
  "same_session s s' \<longleftrightarrow> ss_backend s' = ss_backend s \<and> ss_policy s' = ss_policy s"

lemma ssh_handle_log:
  assumes "ssh_handle sha256 (logging bk) body s = (reply, s')" and "ss_backend s = (b, log)"
  obtains (quiet) b' where "ss_backend s' = (b', log)" "ss_policy s' = ss_policy s" "\<not> is_signature reply"
  | (ask) b' e where "ss_backend s' = (b', log @ [e])" "allowed_ask (ss_policy s) e"
      "pr_first_time (ak_prompt e) \<or> (\<exists>d. pr_destination (ak_prompt e) = Some d \<and> d \<in> sp_known (ss_policy s))"
      "signed_blob e = None" "\<not> is_signature reply" "ss_policy s' = ss_policy s"
  | (signed) b' e blob where "ss_backend s' = (b', log @ [e])" "allowed_ask (ss_policy s) e"
      "pr_first_time (ak_prompt e) \<or> (\<exists>d. pr_destination (ak_prompt e) = Some d \<and> d \<in> sp_known (ss_policy s))"
      "signed_blob e = Some blob" "reply = agent_sign_response blob"
      "ss_policy s' = (case pr_destination (ak_prompt e) of None \<Rightarrow> ss_policy s | Some d \<Rightarrow> remember d (ss_policy s))"
proof (cases "ssh_parse body")
  case (AskSign r)
  then have h: "ssh_handle_sign sha256 (logging bk) r s = (reply, s')" using assms(1) by (simp add: ssh_handle_def)
  show thesis
  proof (cases "ssh_decide sha256 (ss_policy s) (describe r) (ss_bind s)")
    case (Refuse why)
    then show thesis using h assms(2) quiet by (simp add: ssh_handle_sign_def)
  next
    case (Ask q)
    obtain ids b1 where ids: "bk_identities bk b = (ids, b1)" by fastforce
    obtain raw b2 where raw: "bk_sign bk (as_key_blob r) (as_data r) q b1 = (raw, b2)" by fastforce
    let ?e = "\<lparr>ak_key = as_key_blob r, ak_data = as_data r, ak_prompt = q, ak_answer = raw\<rparr>"
    note ok = decide_ask(1,2) [OF Ask]
    show thesis
    proof (cases "list_ex (\<lambda>(blob, _). blob = as_key_blob r) ids")
      case False
      then show thesis
        using h assms(2) ids Ask by (intro quiet [of b1]) (auto simp: ssh_handle_sign_def logging_def)
    next
      case True
      note eval = h [unfolded ssh_handle_sign_def Ask ssh_decision.case logging_def] assms(2) ids raw True
      show thesis
      proof (cases "signed_blob ?e")
        case None
        then show thesis
          using eval ok by (intro ask [of b2 ?e]) (auto simp: signed_blob_def Let_def split: option.splits sum.splits)
      next
        case (Some blob)
        then show thesis
          using eval ok by (intro signed [of b2 ?e blob]) (auto simp: signed_blob_def Let_def split: option.splits sum.splits)
      qed
    qed
  qed
next
  case AskIdentities
  obtain ids b1 where "bk_identities bk b = (ids, b1)" by fastforce
  then show thesis
    using assms AskIdentities by (intro quiet [of b1]) (auto simp: ssh_handle_def logging_def)
next
  case AskSessionBind
  then show thesis using assms by (intro quiet [of b]) (auto simp: ssh_handle_def)
next
  case AskUnsupported
  then show thesis using assms by (intro quiet [of b]) (auto simp: ssh_handle_def)
qed

definition routine_log :: "asked list \<Rightarrow> bool" where
  "routine_log log \<longleftrightarrow> (\<forall>i < length log. pr_first_time (ak_prompt (log ! i)) \<or> routine (take i log) (log ! i))"

lemma routine_log_snoc: "routine_log (log @ [e]) \<longleftrightarrow> routine_log log \<and> (pr_first_time (ak_prompt e) \<or> routine log e)"
  by (auto simp: routine_log_def nth_append less_Suc_eq)

lemma allowed_same_rules: "same_rules p q \<Longrightarrow> allowed_ask q e = allowed_ask p e"
  unfolding same_rules_def allowed_ask_def by (elim conjE) (simp only:)

lemma known_signed_snoc: "known_signed (log @ [e]) = known_signed log \<union>
    (case pr_destination (ak_prompt e) of None \<Rightarrow> {} | Some d \<Rightarrow> if signed_blob e = None then {} else {d})"
  by (auto simp: known_signed_def split: option.splits)

text \<open>What a run of messages adds to the log of a session that has not forgotten a question.\<close>

lemma ssh_run_log:
  "ssh_run sha256 (logging bk) bodies s = (replies, s') \<Longrightarrow> ss_backend s = (b, log) \<Longrightarrow>
   sp_known (ss_policy s) \<subseteq> known_signed log \<Longrightarrow> routine_log log \<Longrightarrow>
   \<exists>b' new. ss_backend s' = (b', log @ new) \<and> same_rules (ss_policy s) (ss_policy s') \<and>
     (\<forall>e \<in> set new. allowed_ask (ss_policy s) e) \<and> routine_log (log @ new) \<and>
     filter is_signature replies = map agent_sign_response (List.map_filter signed_blob new)"
proof (induction bodies arbitrary: s b log replies)
  case Nil
  then show ?case by (auto simp: same_rules_def)
next
  case (Cons body bodies)
  obtain reply s1 where h: "ssh_handle sha256 (logging bk) body s = (reply, s1)" by fastforce
  obtain rs where r: "ssh_run sha256 (logging bk) bodies s1 = (rs, s')" "replies = reply # rs"
    using Cons.prems(1) h by (auto split: prod.splits)
  from h Cons.prems(2) show ?case
  proof (cases rule: ssh_handle_log)
    case (quiet b1)
    then show ?thesis using Cons.IH [OF r(1) quiet(1)] Cons.prems(3,4) r(2) by auto
  next
    case (ask b1 e)
    then have "routine_log (log @ [e])" "sp_known (ss_policy s1) \<subseteq> known_signed (log @ [e])"
      using Cons.prems(3,4) by (auto simp: routine_log_snoc routine_def known_signed_snoc known_signed_def)
    from Cons.IH [OF r(1) ask(1) this(2,1)] obtain b' new where n: "ss_backend s' = (b', (log @ [e]) @ new)"
      "same_rules (ss_policy s1) (ss_policy s')" "\<forall>e \<in> set new. allowed_ask (ss_policy s1) e"
      "routine_log ((log @ [e]) @ new)" "filter is_signature rs = map agent_sign_response (List.map_filter signed_blob new)"
      by blast
    then show ?thesis using ask r(2) by (intro exI [of _ b'] exI [of _ "e # new"]) (simp add: map_filter_simps)
  next
    case (signed b1 e blob)
    have same: "same_rules (ss_policy s) (ss_policy s1)"
      using signed(6) by (auto simp: same_rules_def remember_def split: option.splits)
    have "routine_log (log @ [e])" "sp_known (ss_policy s1) \<subseteq> known_signed (log @ [e])"
      using Cons.prems(3,4) signed
      by (auto simp: routine_log_snoc routine_def known_signed_snoc remember_def known_signed_def split: option.splits)
    from Cons.IH [OF r(1) signed(1) this(2,1)] obtain b' new where n: "ss_backend s' = (b', (log @ [e]) @ new)"
      "same_rules (ss_policy s1) (ss_policy s')" "\<forall>e \<in> set new. allowed_ask (ss_policy s1) e"
      "routine_log ((log @ [e]) @ new)" "filter is_signature rs = map agent_sign_response (List.map_filter signed_blob new)"
      by blast
    then show ?thesis using signed r(2) same allowed_same_rules [OF same]
      by (intro exI [of _ b'] exI [of _ "e # new"]) (simp add: map_filter_simps same_rules_def)
  qed
qed

text \<open>A connection from its start.\<close>

lemma ssh_connection_log:
  assumes "ssh_run sha256 (logging bk) bodies (ssh_session_new (b, []) p) = (replies, s')" and "sp_known p = {}"
  shows "(\<forall>e \<in> set (snd (ss_backend s')). allowed_ask p e) \<and> routine_log (snd (ss_backend s')) \<and>
    filter is_signature replies = map agent_sign_response (List.map_filter signed_blob (snd (ss_backend s')))"
  using ssh_run_log [OF assms(1), of b "[]"] assms(2)
  by (auto simp: ssh_session_new_def routine_log_def)

subsection \<open>Any cut of the stream\<close>

lemma announced_length_append:
  "announced_length p = Inl e \<Longrightarrow> announced_length (p @ x) = Inl e"
  "announced_length p = Inr (Some n) \<Longrightarrow> announced_length (p @ x) = Inr (Some n)"
  by (auto simp: announced_length_def Let_def split: if_splits)

lemma ssh_split_append:
  "ssh_split p out = (Inr out', q) \<Longrightarrow> ssh_split (p @ x) out = ssh_split (q @ x) out'"
  "ssh_split p out = (Inl e, q) \<Longrightarrow> ssh_split (p @ x) out = (Inl e, q @ x)"
proof (induction p out rule: ssh_split.induct)
  case (1 p out)
  { case 1
    then show ?case
      using "1.IH"(1) announced_length_append(2) [of p _ x]
      by (subst ssh_split.simps, subst (asm) ssh_split.simps)
        (auto split: sum.splits option.splits if_splits; subst ssh_split.simps; simp)
  next
    case 2
    then show ?case
      using "1.IH"(2) announced_length_append [of p _ x]
      by (subst ssh_split.simps, subst (asm) ssh_split.simps)
        (auto split: sum.splits option.splits if_splits)
  }
qed

lemma ssh_split_out:
  "ssh_split p (a @ b) = (map_sum id ((@) a) (fst (ssh_split p b)), snd (ssh_split p b))"
proof (induction p b rule: ssh_split.induct)
  case (1 p b)
  show ?case
    by (subst (1 2 3) ssh_split.simps) (auto simp: 1 id_def split: sum.splits option.splits)
qed

lemma ssh_split_settled: "ssh_split p out = (Inr out', q) \<Longrightarrow> ssh_split q b = (Inr b, q)"
proof (induction p out rule: ssh_split.induct)
  case (1 p out)
  show ?case
  proof (cases "announced_length p")
    case (Inr a)
    then show ?thesis
      using "1.IH" "1.prems"
      by (cases a; subst (asm) (5) ssh_split.simps) (auto simp: ssh_split.simps [of q b] split: if_splits)
  qed (use "1.prems" in \<open>simp add: ssh_split.simps [of p]\<close>)
qed

lemma ssh_push_all_split:
  "ssh_split p [] = (Inr [], p) \<Longrightarrow> fst (ssh_push_all inputs p) = fst (ssh_split (p @ concat inputs) [])"
proof (induction inputs arbitrary: p)
  case (Cons input inputs)
  obtain r q where r: "ssh_split (p @ input) [] = (r, q)" by fastforce
  show ?case
  proof (cases r)
    case (Inl e)
    then show ?thesis using r ssh_split_append(2) [of "p @ input" "[]" e q "concat inputs"]
      by (simp add: ssh_push_def)
  next
    case (Inr out)
    then have whole: "ssh_split (p @ input @ concat inputs) [] = ssh_split (q @ concat inputs) (out @ [])"
      using r ssh_split_append(1) [of "p @ input" "[]" out q "concat inputs"] by simp
    have "ssh_split q [] = (Inr [], q)" using ssh_split_settled r Inr by metis
    from Cons.IH [OF this] have "fst (ssh_push_all inputs q) = fst (ssh_split (q @ concat inputs) [])" .
    then show ?thesis
      using r Inr ssh_split_out [of "q @ concat inputs" out "[]"]
      by (cases "fst (ssh_split (q @ concat inputs) [])") (auto simp: whole ssh_push_def split: prod.splits)
  qed
qed simp

lemma ssh_split_framed:
  assumes "body \<noteq> []" and "length body \<le> MAX_MESSAGE_BYTES"
  shows "ssh_split (framed body @ rest) out = ssh_split rest (out @ [body])"
proof -
  have "unat (from_be_bytes (take 4 (framed body @ rest))) = length body"
    using assms(2) by (simp add: framed_def unat_of_nat MAX_MESSAGE_BYTES_def unsigned_ucast_eq take_bit_nat_eq_self
        unsigned_take_bit_eq)
  then have "announced_length (framed body @ rest) = Inr (Some (length body))"
    using assms by (simp add: announced_length_def Let_def framed_def)
  then show ?thesis by (subst ssh_split.simps) (simp add: framed_def)
qed

lemma ssh_split_frames:
  assumes "\<forall>body \<in> set bodies. body \<noteq> [] \<and> length body \<le> MAX_MESSAGE_BYTES"
    and "ssh_split rest [] = (Inr [], rest)"
  shows "ssh_split (concat (map framed bodies) @ rest) out = (Inr (out @ bodies), rest)"
  using assms(1)
proof (induction bodies arbitrary: out)
  case Nil
  then show ?case using ssh_split_settled [OF assms(2)] by simp
next
  case (Cons body bodies)
  then show ?case by (simp add: ssh_split_framed)
qed

subsection \<open>Fingerprints, against the padded encoder of the protocol crate\<close>

lemma base64_char_low: "x AND 63 = y AND 63 \<Longrightarrow> base64_char x = base64_char y"
  by (simp add: base64_char_def)

lemma drain_steps [simp]:
  "base64_drain a 8 out = (out @ [base64_char (drop_bit 2 a)], 2)"
  "base64_drain a (Suc (Suc 8)) out = (out @ [base64_char (drop_bit 4 a)], 4)"
  "base64_drain a 10 out = (out @ [base64_char (drop_bit 4 a)], 4)"
  "base64_drain a 12 out = (out @ [base64_char (drop_bit 6 a), base64_char a], 0)"
  by (simp_all add: base64_drain.simps)

lemma base64_charI: "take_bit 6 (drop_bit s x) = take_bit 6 (drop_bit t y) \<Longrightarrow>
    base64_char (drop_bit s x) = base64_digit y t"
  by (simp add: base64_char_def base64_digit_def and_63)

lemma base64_groups:
  fixes a :: u32
  defines "a1 b0 \<equiv> push_bit 8 a OR ucast (b0 :: u8)"
  defines "a2 b0 b1 \<equiv> push_bit 8 (a1 b0) OR ucast (b1 :: u8)"
  defines "a3 b0 b1 b2 \<equiv> push_bit 8 (a2 b0 b1) OR ucast (b2 :: u8)"
  shows "base64_char (drop_bit 2 (a1 b0)) = base64_digit (base64_triple b0 b1 b2) 18"
    and "base64_char (drop_bit 4 (a2 b0 b1)) = base64_digit (base64_triple b0 b1 b2) 12"
    and "base64_char (drop_bit 6 (a3 b0 b1 b2)) = base64_digit (base64_triple b0 b1 b2) 6"
    and "base64_char (drop_bit 0 (a3 b0 b1 b2)) = base64_digit (base64_triple b0 b1 b2) 0"
    and "base64_char (drop_bit 0 (push_bit 4 (a1 b0))) = base64_digit (base64_triple b0 0 0) 12"
    and "base64_char (drop_bit 0 (push_bit 2 (a2 b0 b1))) = base64_digit (base64_triple b0 b1 0) 6"
  unfolding assms
  by (rule base64_charI, rule bit_word_eqI, auto simp: base64_triple_def bit_simps bit_u8_ge; fail)+

lemma base64_three:
  "base64_bytes (b0 # b1 # b2 # bs) a 0 out =
    (let t = base64_triple b0 b1 b2 in
     base64_bytes bs (push_bit 8 (push_bit 8 (push_bit 8 a OR ucast b0) OR ucast b1) OR ucast b2) 0
       (out @ [base64_digit t 18, base64_digit t 12, base64_digit t 6, base64_digit t 0]))"
  using base64_groups(1-4) [where a = a and ?b0.0 = b0 and ?b1.0 = b1 and ?b2.0 = b2] by (simp add: Let_def)

definition url_char :: "char \<Rightarrow> char" where
  "url_char c = (if c = CHR ''+'' then CHR ''-'' else if c = CHR ''/'' then CHR ''_'' else c)"

lemma base64_digits:
  "base64_digit t s \<noteq> CHR ''=''" "url_char (base64_digit t s) = b64_digit t s"
proof -
  have "map url_char BASE64_ALPHABET = BASE64URL" "CHR ''='' \<notin> set BASE64_ALPHABET" "length BASE64_ALPHABET = 64"
    by (simp_all add: BASE64_ALPHABET_def BASE64URL_def url_char_def)
  with sextet [of "drop_bit s t"] show "base64_digit t s \<noteq> CHR ''=''" "url_char (base64_digit t s) = b64_digit t s"
    unfolding base64_digit_def b64_digit_def by (metis nth_mem, metis nth_map)
qed

lemma base64_unpadded_from:
  "(let (out', acc, bits) = base64_bytes bs a 0 out
    in if bits > 0 then out' @ [base64_char (push_bit (6 - bits) acc)] else out')
   = out @ filter (\<lambda>c. c \<noteq> CHR ''='') (base64 bs)"
proof -
  show ?thesis
  proof (induction bs arbitrary: a out rule: base64.induct)
    case (4 b0 b1 b2 rest)
    then show ?case by (simp only: base64_three base64.simps Let_def) (simp add: base64_digits)
  next
    case (2 b0)
    show ?case using base64_groups(1) [where a = a and ?b0.0 = b0 and ?b1.0 = 0 and ?b2.0 = 0]
      base64_groups(5) [where a = a and ?b0.0 = b0]
      by (simp add: Let_def base64_digits)
  next
    case (3 b0 b1)
    show ?case using base64_groups(1,2) [where a = a and ?b0.0 = b0 and ?b1.0 = b1 and ?b2.0 = 0]
      base64_groups(6) [where a = a and ?b0.0 = b0 and ?b1.0 = b1]
      by (simp add: Let_def base64_digits)
  qed simp
qed

lemma base64_unpadded_eq: "base64_unpadded bs = filter (\<lambda>c. c \<noteq> CHR ''='') (base64 bs)"
  using base64_unpadded_from [of bs 0 "[]"] by (simp add: base64_unpadded_def)

lemma base64_unpadded_url: "map url_char (base64_unpadded bs) = to_base64url bs"
  unfolding base64_unpadded_eq
  by (induction bs rule: base64.induct)
    (simp_all add: Let_def base64_digits base64_triple_def b64_group_def)

lemma base64_unpadded_inj: "base64_unpadded a = base64_unpadded b \<longleftrightarrow> a = b"
  by (metis base64_unpadded_url from_to_base64url sum.inject(2))

lemma fingerprint_eq: "ssh_fingerprint sha256 a = ssh_fingerprint sha256 b \<longleftrightarrow> sha256 a = sha256 b"
  by (simp add: ssh_fingerprint_def base64_unpadded_inj)

subsection \<open>The last bind counts\<close>

lemma ssh_handle_bind:
  assumes "length host_key \<le> MAX_FIELD_BYTES" and "length sid \<le> MAX_FIELD_BYTES" and "length sg \<le> MAX_FIELD_BYTES"
  shows "ssh_handle sha256 bk (bind_message host_key sid sg f) s =
    (ssh_success, s\<lparr>ss_bind := Some \<lparr>sb_host_key = host_key, sb_forwarding = (f \<noteq> 0)\<rparr>\<rparr>)"
proof -
  have "slice_ok (bind_message host_key sid sg f)"
    using assms by (simp add: bind_message_def slice_ok_def MAX_FIELD_BYTES_def)
  then have "ssh_parse (bind_message host_key sid sg f) = AskSessionBind \<lparr>sb_host_key = host_key, sb_forwarding = (f \<noteq> 0)\<rparr>"
    using assms by (subst ssh_parse_bind_iff) auto
  then show ?thesis by (simp add: ssh_handle_def)
qed

lemma ssh_parse_sign_message:
  assumes "length (as_key_blob r) \<le> MAX_FIELD_BYTES" and "length (as_data r) \<le> MAX_FIELD_BYTES"
  shows "ssh_parse (sign_message r) = AskSign r"
proof -
  have "slice_ok (sign_message r)" using assms by (simp add: sign_message_def slice_ok_def MAX_FIELD_BYTES_def)
  then show ?thesis using assms by (simp add: ssh_parse_sign_iff)
qed

definition connection_asks ::
    "(bytes \<Rightarrow> bytes) \<Rightarrow> 'b ssh_backend \<Rightarrow> ssh_policy \<Rightarrow> 'b \<Rightarrow> bytes list \<Rightarrow> asked list" where
  "connection_asks sha256 bk p b bodies =
    snd (ss_backend (snd (ssh_run sha256 (logging bk) bodies (ssh_session_new (b, []) p))))"

definition bind_fits :: "bytes \<Rightarrow> bytes \<Rightarrow> bytes \<Rightarrow> bool" where
  "bind_fits host_key sid sg \<longleftrightarrow>
    length host_key \<le> MAX_FIELD_BYTES \<and> length sid \<le> MAX_FIELD_BYTES \<and> length sg \<le> MAX_FIELD_BYTES"

lemma later_bind_asks:
  assumes "bind_fits hop hs hg" and "bind_fits host s g"
    and "length (as_key_blob r) \<le> MAX_FIELD_BYTES" and "length (as_data r) \<le> MAX_FIELD_BYTES"
    and "account_in_request (as_data r) = Some (user, service)" and "user \<noteq> []"
    and "list_ex (\<lambda>(blob, _). blob = as_key_blob r) (fst (bk_identities bk b))"
  shows "connection_asks sha256 bk policy_new b [bind_message hop hs hg 1, sign_message r] = []"
    and "map (\<lambda>e. (ak_data e, ak_prompt e))
        (connection_asks sha256 bk policy_new b [bind_message hop hs hg 1, bind_message host s g 0, sign_message r]) =
      [(as_data r, \<lparr>pr_user = user, pr_destination = Some (ssh_fingerprint sha256 host), pr_forwarded = False,
          pr_first_time = True\<rparr>)]"
  using assms
  by (auto simp: connection_asks_def bind_fits_def ssh_handle_bind ssh_session_new_def
      ssh_handle_def [of _ _ "sign_message r"] ssh_parse_sign_message ssh_handle_sign_def ssh_decide_def
      describe_account policy_new_def Let_def logging_def split: prod.splits option.splits sum.splits)

end
