(* ===== verification/Phone_Exchange.thy ===== *)
theory Phone_Exchange
  imports Verifier Application File_System
begin

text \<open>
  One application request to a phone and its answer, as the clients of the agent make it
  (\<open>vault.rs\<close>, \<open>ssh_client.rs\<close>, \<open>permissions.rs\<close>, \<open>locker.rs\<close> and \<open>luks.rs\<close> of
  \<open>phone-auth-agent/src\<close>). The transport, the clock and the random generator are the operations
  of a link over a world of any type. A buffer that is wiped is one the model no longer reads.
\<close>

subsection \<open>What an error says\<close>

fun cbor_error_text :: "cbor_error \<Rightarrow> string" where
  "cbor_error_text Truncated = ''truncated CBOR item''"
| "cbor_error_text TrailingBytes = ''trailing bytes after CBOR item''"
| "cbor_error_text NonCanonicalInteger = ''non-canonical integer encoding''"
| "cbor_error_text UnsupportedItem = ''unsupported CBOR item''"
| "cbor_error_text UnexpectedType = ''unexpected CBOR major type''"
| "cbor_error_text OutOfRange = ''CBOR value out of range''"
| "cbor_error_text InvalidUtf8 = ''CBOR text string is not valid UTF-8''"

definition format_u64 :: "u64 \<Rightarrow> string" where "format_u64 x = decimal (unat x)"

fun protocol_error_text :: "protocol_error \<Rightarrow> string" where
  "protocol_error_text (Cbor e) = cbor_error_text e"
| "protocol_error_text (FrameSize n) = ''invalid frame size: '' @ decimal n @ '' bytes''"
| "protocol_error_text (FrameShape want got) =
    ''expected a '' @ format_u64 want @ ''-element frame, got '' @ format_u64 got"
| "protocol_error_text (UnsupportedVersion v) = ''unsupported protocol version: '' @ format_u64 v"
| "protocol_error_text (UnexpectedMessageType k) = ''unexpected message type: '' @ format_u64 k"
| "protocol_error_text (FieldEmpty f) = ''field `'' @ f @ ''` is empty''"
| "protocol_error_text (FieldTooLong f most got) =
    ''field `'' @ f @ ''` is '' @ decimal got @ '' units, maximum is '' @ decimal most"
| "protocol_error_text (FieldLength f want got) =
    ''field `'' @ f @ ''` must be '' @ decimal want @ '' bytes, got '' @ decimal got"
| "protocol_error_text ValidityWindow = ''invalid request validity window''"
| "protocol_error_text NotCanonical = ''frame is not canonical CBOR''"
| "protocol_error_text (InvalidDecision v) = ''invalid authorization decision: '' @ format_i64 v"
| "protocol_error_text MissingProof = ''authorized response carried no algorithm or signature''"
| "protocol_error_text (InvalidKeyKind v) = ''invalid key kind: '' @ format_i64 v"
| "protocol_error_text (InvalidPurpose v) = ''invalid credential purpose: '' @ format_i64 v"
| "protocol_error_text (InvalidApplicationKind v) = ''invalid application frame kind: '' @ format_u64 v"
| "protocol_error_text (InvalidApplicationError v) = ''invalid application error code: '' @ format_u64 v"
| "protocol_error_text InvalidOperation = ''invalid application operation''"
| "protocol_error_text UnexpectedEnd = ''input ended inside a length-prefixed field''"
| "protocol_error_text (InvalidText f) = ''field `'' @ f @ ''` is not UTF-8''"
| "protocol_error_text (PayloadSize n) = ''invalid application payload size: '' @ decimal n"
| "protocol_error_text (InvalidReservedField v) = ''reserved field must be zero, got '' @ format_u64 v"
| "protocol_error_text (InvalidItemKind k) = ''unknown vault item kind: '' @ format_u64 k"
| "protocol_error_text InvalidRevision = ''vault revision must start at one''"

datatype vault_error = VaultDeclined | VaultUnavailable | VaultProtocol string

definition vault_protocol :: "protocol_error \<Rightarrow> vault_error" where
  "vault_protocol e = VaultProtocol (protocol_error_text e)"

subsection \<open>The link\<close>

record 'w phone_link =
  pk_send :: "secure_session \<Rightarrow> bytes \<Rightarrow> ('w, io_error, unit) io_on"
  pk_receive :: "secure_session \<Rightarrow> int \<Rightarrow> ('w, io_error, bytes) io_on"
  pk_close :: "secure_session \<Rightarrow> 'w \<Rightarrow> 'w"
  pk_now :: "'w \<Rightarrow> int \<times> 'w"
  pk_random :: "nat \<Rightarrow> 'w \<Rightarrow> bytes \<times> 'w"
  pk_io_text :: "io_error \<Rightarrow> string"

text \<open>Timeouts are in milliseconds. \<open>ANSWER_TRAVEL_MARGIN\<close> is of \<open>phone-auth-agent/src/lib.rs\<close>.\<close>

definition ANSWER_TRAVEL_MARGIN :: int where "ANSWER_TRAVEL_MARGIN = 15000"
definition VAULT_VALIDITY_MS :: int where "VAULT_VALIDITY_MS = 120000"
definition VAULT_RECEIVE_TIMEOUT :: int where "VAULT_RECEIVE_TIMEOUT = VAULT_VALIDITY_MS + ANSWER_TRAVEL_MARGIN"
definition SSH_VALIDITY_MS :: int where "SSH_VALIDITY_MS = 90000"
definition SSH_RECEIVE_TIMEOUT :: int where "SSH_RECEIVE_TIMEOUT = SSH_VALIDITY_MS + ANSWER_TRAVEL_MARGIN"
definition PERMISSIONS_VALIDITY_MS :: int where "PERMISSIONS_VALIDITY_MS = 120000"
definition PERMISSIONS_RECEIVE_TIMEOUT :: int where "PERMISSIONS_RECEIVE_TIMEOUT = 120000"
definition LOCKER_VALIDITY_MS :: int where "LOCKER_VALIDITY_MS = 120000"
definition LOCKER_RECEIVE_TIMEOUT :: int where "LOCKER_RECEIVE_TIMEOUT = LOCKER_VALIDITY_MS + ANSWER_TRAVEL_MARGIN"
definition LUKS_VALIDITY_MS :: int where "LUKS_VALIDITY_MS = 120000"
definition LUKS_RECEIVE_TIMEOUT :: int where "LUKS_RECEIVE_TIMEOUT = LUKS_VALIDITY_MS + ANSWER_TRAVEL_MARGIN"

text \<open>The request literal, the same in all five clients; \<open>random::request_id\<close> draws sixteen bytes.\<close>

definition application_request ::
    "secure_session \<Rightarrow> string \<Rightarrow> bytes \<Rightarrow> int \<Rightarrow> bytes \<Rightarrow> int \<Rightarrow> application_frame" where
  "application_request session operation payload issued id_bytes validity =
    \<lparr>ap_protocol_version = PROTOCOL_VERSION, ap_kind = Request, ap_request_id = random_request_id id_bytes,
     ap_session_binding = se_session_binding session, ap_operation = operation,
     ap_issued_at_ms = issued, ap_expires_at_ms = issued + validity, ap_payload = payload\<rparr>"

definition stamped ::
    "'w phone_link \<Rightarrow> secure_session \<Rightarrow> string \<Rightarrow> bytes \<Rightarrow> int \<Rightarrow> ('w, 'e, application_frame) io_on" where
  "stamped link session operation payload validity =
    io_bind (io_get (pk_now link)) (\<lambda>issued.
    io_bind (io_get (pk_random link 16)) (\<lambda>id_bytes.
    io_return (application_request session operation payload issued id_bytes validity)))"

text \<open>From the send on, with what each client makes of a failure and of the reply.\<close>

record 'e exchange_errors =
  xe_send :: "io_error \<Rightarrow> 'e"
  xe_receive :: "io_error \<Rightarrow> 'e"
  xe_decode :: "protocol_error \<Rightarrow> 'e"
  xe_other :: 'e

definition converse ::
    "'w phone_link \<Rightarrow> secure_session \<Rightarrow> int \<Rightarrow> 'e exchange_errors \<Rightarrow> (application_frame \<Rightarrow> 'e + bytes) \<Rightarrow>
     application_frame \<Rightarrow> ('w, 'e, bytes) io_on" where
  "converse link session timeout errors settle request =
    io_bind (io_map_err (xe_send errors) (pk_send link session (encode_application request))) (\<lambda>_.
    io_bind (io_map_err (xe_receive errors) (pk_receive link session timeout)) (\<lambda>raw.
    io_bind (io_of (map_err (xe_decode errors) (decode_application raw))) (\<lambda>reply.
    io_bind (io_get (pk_now link)) (\<lambda>now.
    if \<not> is_reply_to reply request now then io_fail (xe_other errors)
    else io_of (settle reply)))))"

subsection \<open>The exchanges\<close>

definition vault_errors :: "vault_error exchange_errors" where
  "vault_errors = \<lparr>xe_send = \<lambda>_. VaultUnavailable, xe_receive = \<lambda>_. VaultUnavailable,
     xe_decode = vault_protocol, xe_other = VaultProtocol ''the phone answered a different request''\<rparr>"

definition vault_check :: "secure_session \<Rightarrow> application_frame \<Rightarrow> vault_error + unit" where
  "vault_check session request =
    (if \<not> suitable_for_authorization (se_security session)
     then Inl (VaultProtocol ''the vault needs an authenticated confidential session'')
     else map_err vault_protocol (validate_application request))"

definition vault_settle :: "application_frame \<Rightarrow> vault_error + bytes" where
  "vault_settle reply =
    (if ap_kind reply = Error then
       Inl (case decode_error_code (ap_payload reply) of
              Inr Rejected \<Rightarrow> VaultDeclined
            | Inl _ \<Rightarrow> VaultDeclined
            | Inr Unavailable \<Rightarrow> VaultUnavailable
            | Inr InvalidRequest \<Rightarrow> VaultProtocol ''the phone rejected the request as malformed'')
     else Inr (ap_payload reply))"

definition vault_exchange ::
    "'w phone_link \<Rightarrow> secure_session \<Rightarrow> string \<Rightarrow> bytes \<Rightarrow> ('w, vault_error, bytes) io_on" where
  "vault_exchange link session operation payload =
    io_bind (stamped link session operation payload VAULT_VALIDITY_MS) (\<lambda>request.
    io_bind (io_of (vault_check session request)) (\<lambda>_.
    converse link session VAULT_RECEIVE_TIMEOUT vault_errors vault_settle request))"

definition phone_settle :: "application_frame \<Rightarrow> vault_error + bytes" where
  "phone_settle reply =
    (if ap_kind reply = Error then
       Inl (case decode_error_code (ap_payload reply) of
              Inr Unavailable \<Rightarrow> VaultUnavailable
            | _ \<Rightarrow> VaultDeclined)
     else if ap_kind reply \<noteq> Response then Inl (VaultProtocol ''the phone sent an unexpected frame'')
     else Inr (ap_payload reply))"

definition ssh_exchange ::
    "'w phone_link \<Rightarrow> secure_session \<Rightarrow> string \<Rightarrow> bytes \<Rightarrow> ('w, vault_error, bytes) io_on" where
  "ssh_exchange link session operation payload =
    (if \<not> suitable_for_authorization (se_security session)
     then io_fail (VaultProtocol ''signing needs an authenticated confidential session'')
     else
       io_bind (stamped link session operation payload SSH_VALIDITY_MS) (\<lambda>request.
       io_bind (io_of (map_err vault_protocol (validate_application request))) (\<lambda>_.
       converse link session SSH_RECEIVE_TIMEOUT vault_errors phone_settle request)))"

definition permissions_exchange ::
    "'w phone_link \<Rightarrow> secure_session \<Rightarrow> string \<Rightarrow> bytes \<Rightarrow> ('w, vault_error, bytes) io_on" where
  "permissions_exchange link session operation payload =
    (if \<not> suitable_for_authorization (se_security session)
     then io_fail (VaultProtocol ''permissions need an authenticated confidential session'')
     else
       io_bind (stamped link session operation payload PERMISSIONS_VALIDITY_MS) (\<lambda>request.
       io_bind (io_of (map_err vault_protocol (validate_application request))) (\<lambda>_.
       converse link session PERMISSIONS_RECEIVE_TIMEOUT vault_errors phone_settle request)))"

subsection \<open>The contract of an exchange\<close>

text \<open>What came back for a request that was sent: a response to that request, still valid when it was
  read.\<close>

definition answered ::
    "'w phone_link \<Rightarrow> secure_session \<Rightarrow> int \<Rightarrow> application_frame \<Rightarrow> bytes \<Rightarrow> 'w \<Rightarrow> 'w \<Rightarrow> bool" where
  "answered link session timeout request ans w w' \<longleftrightarrow>
    (\<exists>w1 w2 raw reply now. pk_send link session (encode_application request) w = (Inr (), w1) \<and>
       pk_receive link session timeout w1 = (Inr raw, w2) \<and> decode_application raw = Inr reply \<and>
       pk_now link w2 = (now, w') \<and> is_reply_to reply request now \<and> ap_kind reply = Response \<and>
       ap_payload reply = ans)"

definition answered_by ::
    "'w phone_link \<Rightarrow> secure_session \<Rightarrow> application_frame \<Rightarrow> bytes \<Rightarrow> 'w \<Rightarrow> 'w \<Rightarrow> bool" where
  "answered_by link session request ans w w' \<longleftrightarrow> (\<exists>timeout. answered link session timeout request ans w w')"

locale phone_exchange =
  fixes exchange :: "'w phone_link \<Rightarrow> secure_session \<Rightarrow> string \<Rightarrow> bytes \<Rightarrow> ('w, 'e, bytes) io_on"
    and timeout :: int and validity :: int and guarded :: bool
  assumes exchange_iff: "exchange link session operation payload w = (Inr ans, w') \<longleftrightarrow>
    (guarded \<longrightarrow> suitable_for_authorization (se_security session)) \<and>
    (\<exists>issued id w1 w2. pk_now link w = (issued, w1) \<and> pk_random link 16 w1 = (id, w2) \<and>
       validate_application (application_request session operation payload issued id validity) = Inr () \<and>
       answered link session timeout (application_request session operation payload issued id validity) ans w2 w')"
begin

text \<open>An unguarded channel, or a reply of another exchange, gives nothing.\<close>

lemma needs_session:
  "guarded \<Longrightarrow> \<not> suitable_for_authorization (se_security session) \<Longrightarrow>
    fst (exchange link session operation payload w) \<noteq> Inr ans"
  using exchange_iff by (cases "exchange link session operation payload w") auto

lemma bound:
  assumes "exchange link session operation payload w = (Inr ans, w')"
  obtains reply now where "ap_kind reply = Response" and "ap_operation reply = operation"
    and "ap_session_binding reply = se_session_binding session" and "ap_payload reply = ans"
    and "\<not> application_expired_at reply now" and "\<exists>w2. pk_now link w2 = (now, w')"
    and "ap_expires_at_ms reply = ap_issued_at_ms reply + validity"
    and "\<exists>w1 issued. pk_now link w = (issued, w1) \<and> ap_issued_at_ms reply = issued"
  using assms unfolding exchange_iff answered_def is_reply_to_def application_request_def by auto

text \<open>Both payloads fit an envelope.\<close>

lemma answer_fits:
  assumes "exchange link session operation payload w = (Inr ans, w')"
  shows "length ans \<le> MAX_APPLICATION_PAYLOAD_BYTES" and "length payload \<le> MAX_APPLICATION_PAYLOAD_BYTES"
    and "valid_operation operation"
proof -
  from assms show "length ans \<le> MAX_APPLICATION_PAYLOAD_BYTES"
    unfolding exchange_iff answered_def
    by (auto dest!: decode_application_sound simp: validate_application_def then_ok_eq_Inr split: if_splits)
  from assms show "length payload \<le> MAX_APPLICATION_PAYLOAD_BYTES" "valid_operation operation"
    unfolding exchange_iff
    by (auto simp: validate_application_def application_request_def then_ok_eq_Inr split: if_splits)
qed

end

lemma is_reply_kind: "is_reply_to reply request now \<Longrightarrow> ap_kind reply \<noteq> Error \<longleftrightarrow> ap_kind reply = Response"
  by (auto simp: is_reply_to_def)

lemmas io_steps = io_runs map_err_iff

lemma stamped_iff: "stamped link session operation payload validity w = (Inr request, w') \<longleftrightarrow>
    (\<exists>issued id w1. pk_now link w = (issued, w1) \<and> pk_random link 16 w1 = (id, w') \<and>
       request = application_request session operation payload issued id validity)"
  by (auto simp: stamped_def io_steps)

lemma converse_iff:
  assumes "\<And>reply. ap_kind reply = Response \<Longrightarrow> settle reply = Inr (ap_payload reply)"
    and "\<And>reply. ap_kind reply = Error \<Longrightarrow> \<exists>e. settle reply = Inl e"
  shows "converse link session timeout errors settle request w = (Inr ans, w') \<longleftrightarrow>
    answered link session timeout request ans w w'"
proof -
  have settle: "settle reply = Inr ans \<longleftrightarrow> ap_kind reply = Response \<and> ap_payload reply = ans"
    if "is_reply_to reply request now" for reply now
    using assms [of reply] that by (cases "ap_kind reply") (auto simp: is_reply_to_def)
  show ?thesis
    by (auto simp: converse_def answered_def io_steps settle split: if_splits)
qed

lemma settles [simp]:
  "ap_kind reply = Response \<Longrightarrow> vault_settle reply = Inr (ap_payload reply)"
  "ap_kind reply = Error \<Longrightarrow> \<exists>e. vault_settle reply = Inl e"
  "ap_kind reply = Response \<Longrightarrow> phone_settle reply = Inr (ap_payload reply)"
  "ap_kind reply = Error \<Longrightarrow> \<exists>e. phone_settle reply = Inl e"
  by (simp_all add: vault_settle_def phone_settle_def)

interpretation vault_ex: phone_exchange vault_exchange VAULT_RECEIVE_TIMEOUT VAULT_VALIDITY_MS True
  by unfold_locales (auto simp: vault_exchange_def vault_check_def io_steps stamped_iff converse_iff)

interpretation ssh_ex: phone_exchange ssh_exchange SSH_RECEIVE_TIMEOUT SSH_VALIDITY_MS True
  by unfold_locales (auto simp: ssh_exchange_def io_steps stamped_iff converse_iff)

interpretation permissions_ex: phone_exchange permissions_exchange PERMISSIONS_RECEIVE_TIMEOUT
    PERMISSIONS_VALIDITY_MS True
  by unfold_locales (auto simp: permissions_exchange_def io_steps stamped_iff converse_iff)

end
