(* ===== verification/Phone_Clients.thy ===== *)
theory Phone_Clients
  imports Phone_Exchange Vault_Payloads Permission_Sync Ssh_Wire
begin

text \<open>
  What the agent asks a phone for over an exchange: pages of the vault, one secret, a new item and
  the walk over all pages (\<open>vault.rs\<close>), an SSH signature (\<open>ssh_client.rs\<close>) and the permissions of a
  pairing (\<open>permissions.rs\<close>).
\<close>

text \<open>\<open>r.map_err(|error| VaultError::protocol(error.to_string()))\<close>.\<close>

definition or_protocol :: "protocol_error + 'a \<Rightarrow> ('w, vault_error, 'a) io_on" where
  "or_protocol r = io_of (map_err vault_protocol r)"

subsection \<open>The vault\<close>

definition MAX_ITEMS :: nat where "MAX_ITEMS = 4096"

record new_item =
  ni_kind :: item_kind
  ni_name :: string
  ni_username :: string
  ni_uri :: string
  ni_secret :: string

definition list_page ::
    "'w phone_link \<Rightarrow> string \<Rightarrow> secure_session \<Rightarrow> string \<Rightarrow> ('w, vault_error, list_response) io_on" where
  "list_page link vname session cursor =
    (let request = \<lparr>vl_verifier_name = vname, vl_cursor = cursor\<rparr> in
     io_bind (or_protocol (validate_list_request request)) (\<lambda>_.
     io_bind (vault_exchange link session OPERATION_LIST (encode_list_request request)) (\<lambda>answer.
     or_protocol (decode_list_response answer))))"

definition vault_fetch ::
    "'w phone_link \<Rightarrow> string \<Rightarrow> secure_session \<Rightarrow> string \<Rightarrow> ('w, vault_error, fetch_response) io_on" where
  "vault_fetch link vname session item_id =
    (let request = \<lparr>vf_verifier_name = vname, vf_item_id = item_id\<rparr> in
     io_bind (or_protocol (validate_fetch_request request)) (\<lambda>_.
     io_bind (vault_exchange link session OPERATION_FETCH (encode_fetch_request request)) (\<lambda>answer.
     or_protocol (decode_fetch_response answer))))"

definition vault_create ::
    "'w phone_link \<Rightarrow> string \<Rightarrow> secure_session \<Rightarrow> new_item \<Rightarrow> ('w, vault_error, write_response) io_on" where
  "vault_create link vname session item =
    (let request = \<lparr>vc_verifier_name = vname, vc_kind = ni_kind item, vc_name = ni_name item,
           vc_username = ni_username item, vc_uri = ni_uri item, vc_secret = ni_secret item\<rparr> in
     io_bind (or_protocol (validate_create_request request)) (\<lambda>_.
     io_bind (vault_exchange link session VAULT_OPERATION_CREATE (encode_create_request request)) (\<lambda>answer.
     or_protocol (decode_write_response answer))))"

text \<open>One turn of \<open>list_all\<close>: a session is opened, used for one page and closed, whatever came.\<close>

definition list_one ::
    "'w phone_link \<Rightarrow> string \<Rightarrow> ('w, vault_error, secure_session) io_on \<Rightarrow> string \<Rightarrow>
     ('w, vault_error, list_response) io_on" where
  "list_one link vname open_session cursor =
    io_bind open_session (\<lambda>session w.
      case list_page link vname session cursor w of (page, w) \<Rightarrow> (page, pk_close link session w))"

lemma walk_grows:
  "xs \<noteq> [] \<Longrightarrow> \<not> n < length ys + length xs \<Longrightarrow> Suc n - (length ys + length xs) < Suc n - length ys"
  by (cases xs) auto

function list_walk ::
    "'w phone_link \<Rightarrow> string \<Rightarrow> ('w, vault_error, secure_session) io_on \<Rightarrow> item_summary list \<Rightarrow> string \<Rightarrow>
     string set \<Rightarrow> ('w, vault_error, item_summary list) io_on" where
  "list_walk link vname open_session items cursor seen w =
    (case list_one link vname open_session cursor w of
       (Inl e, w) \<Rightarrow> (Inl e, w)
     | (Inr page, w) \<Rightarrow>
         let carried = length (vp_items page); items' = items @ vp_items page in
         if vp_next_cursor page = [] then (Inr items', w)
         else if vp_next_cursor page \<in> seen then (Inl (VaultProtocol ''the phone repeated a page cursor''), w)
         else if carried = 0 \<or> length items' > MAX_ITEMS
         then (Inl (VaultProtocol ''the vault listing did not end''), w)
         else list_walk link vname open_session items' (vp_next_cursor page)
                (insert (vp_next_cursor page) seen) w)"
  by pat_completeness auto
termination
  by (relation "measure (\<lambda>(_, _, _, items, _, _, _). MAX_ITEMS + 1 - length items)")
    (auto intro: walk_grows)

declare list_walk.simps [simp del]

definition list_all_items ::
    "'w phone_link \<Rightarrow> string \<Rightarrow> ('w, vault_error, secure_session) io_on \<Rightarrow> ('w, vault_error, item_summary list) io_on"
  where
  "list_all_items link vname open_session = list_walk link vname open_session [] [] {}"

subsection \<open>SSH signatures and permissions\<close>

definition phone_sign ::
    "'w phone_link \<Rightarrow> string \<Rightarrow> secure_session \<Rightarrow> bytes \<Rightarrow> string \<Rightarrow> ('w, vault_error, bytes) io_on" where
  "phone_sign link vname session data destination =
    (let request = \<lparr>sg_verifier_name = vname, sg_destination = destination, sg_data = data\<rparr> in
     io_bind (or_protocol (validate_sign_request request)) (\<lambda>_.
     io_bind (ssh_exchange link session OPERATION_SIGN (encode_sign_request request)) (\<lambda>payload.
     io_bind (or_protocol (decode_sign_response payload)) (\<lambda>response.
     io_return (sn_signature response)))))"

definition to_wire :: "permission \<Rightarrow> sync_permission" where
  "to_wire p = \<lparr>sp_service = pm_service p, sp_action = pm_action p, sp_resource = pm_resource p, sp_user = pm_user p\<rparr>"

definition from_wire :: "sync_permission \<Rightarrow> permission" where
  "from_wire p = \<lparr>pm_service = sp_service p, pm_action = sp_action p, pm_resource = sp_resource p, pm_user = sp_user p\<rparr>"

definition phone_sync ::
    "'w phone_link \<Rightarrow> string \<Rightarrow> secure_session \<Rightarrow> u64 \<Rightarrow> permission list \<Rightarrow> ('w, vault_error, sync_response) io_on" where
  "phone_sync link vname session revision permissions =
    (let request = \<lparr>sq_verifier_name = vname, sq_revision = revision,
           sq_permissions = map to_wire permissions\<rparr> in
     io_bind (or_protocol (validate_sync_request request)) (\<lambda>_.
     io_bind (permissions_exchange link session OPERATION_SYNC (encode_sync_request request)) (\<lambda>payload.
     io_bind (or_protocol (decode_sync_response payload)) (\<lambda>response.
     if ss_revision response < revision
     then io_fail (VaultProtocol ''the phone answered with an older permission revision than it was given'')
     else io_return response))))"

lemma wire_round_trip [simp]: "from_wire (to_wire p) = p" "to_wire (from_wire q) = q"
  by (simp_all add: to_wire_def from_wire_def)

lemma or_protocol_iff: "or_protocol r w = (Inr x, w') \<longleftrightarrow> r = Inr x \<and> w' = w"
  by (simp add: or_protocol_def io_steps)

subsection \<open>How much the world moves\<close>

text \<open>A reading of the world that no call of the link raises, such as the number of sessions opened.\<close>

definition never_raises :: "('w \<Rightarrow> nat) \<Rightarrow> ('w, 'e, 'a) io_on \<Rightarrow> bool" where
  "never_raises f m \<longleftrightarrow> (\<forall>w. f (snd (m w)) \<le> f w)"

definition link_never_raises :: "('w \<Rightarrow> nat) \<Rightarrow> 'w phone_link \<Rightarrow> bool" where
  "link_never_raises f link \<longleftrightarrow>
    (\<forall>s b. never_raises f (pk_send link s b)) \<and> (\<forall>s t. never_raises f (pk_receive link s t)) \<and>
    (\<forall>s w. f (pk_close link s w) \<le> f w) \<and> (\<forall>w. f (snd (pk_now link w)) \<le> f w) \<and>
    (\<forall>n w. f (snd (pk_random link n w)) \<le> f w)"

lemma never_raises_bind:
  assumes "never_raises f m" and "\<And>x. never_raises f (k x)"
  shows "never_raises f (io_bind m k)"
  unfolding never_raises_def io_bind_def
proof
  fix w
  obtain r w1 where m: "m w = (r, w1)" by fastforce
  then have "f w1 \<le> f w" using assms(1) unfolding never_raises_def by (metis snd_conv)
  moreover have "f (snd (k x w1)) \<le> f w1" for x using assms(2) unfolding never_raises_def by blast
  ultimately show "f (snd (case m w of (Inl e, w') \<Rightarrow> (Inl e, w') | (Inr x, w') \<Rightarrow> k x w')) \<le> f w"
    using m le_trans [OF _ \<open>f w1 \<le> f w\<close>] by (cases r) auto
qed

lemma never_raises_steps:
  "never_raises f (io_of r)" "never_raises f (io_return x)" "never_raises f (io_fail e)"
  by (simp_all add: never_raises_def io_of_def io_return_def io_fail_def)

lemma never_raises_get: "(\<And>w. f (snd (g w)) \<le> f w) \<Longrightarrow> never_raises f (io_get g)"
  by (simp add: never_raises_def io_get_def split: prod.splits) (metis snd_conv)

lemma never_raises_map_err: "never_raises f m \<Longrightarrow> never_raises f (io_map_err g m)"
  unfolding never_raises_def io_map_err_def by (auto split: prod.splits sum.splits) (metis snd_conv)+

lemma never_raises_vault_exchange:
  assumes "link_never_raises f link"
  shows "never_raises f (vault_exchange link session operation payload)"
  using assms unfolding vault_exchange_def stamped_def converse_def link_never_raises_def
  by (auto intro!: never_raises_bind never_raises_steps never_raises_get never_raises_map_err)

lemma never_raises_list_page:
  assumes "link_never_raises f link"
  shows "never_raises f (list_page link vname session cursor)"
  unfolding list_page_def or_protocol_def Let_def
  by (intro never_raises_bind never_raises_steps never_raises_vault_exchange assms)

lemma list_one_raises:
  assumes "link_never_raises f link" and "\<And>w. f (snd (open_session w)) \<le> f w + 1"
  shows "f (snd (list_one link vname open_session cursor w)) \<le> f w + 1"
proof (cases "open_session w")
  case (Pair r w1)
  then have o: "f w1 \<le> f w + 1" using assms(2) [of w] by simp
  show ?thesis
  proof (cases r)
    case (Inr session)
    obtain page w2 where p: "list_page link vname session cursor w1 = (page, w2)" by fastforce
    then have "f w2 \<le> f w1"
      using never_raises_list_page [OF assms(1)] unfolding never_raises_def by (metis snd_conv)
    moreover have "f (pk_close link session w2) \<le> f w2" using assms(1) by (simp add: link_never_raises_def)
    ultimately show ?thesis using o Pair Inr p by (simp add: list_one_def io_bind_def)
  qed (use o Pair in \<open>simp add: list_one_def io_bind_def\<close>)
qed

lemma list_walk_raises:
  assumes "link_never_raises f link" and "\<And>w. f (snd (open_session w)) \<le> f w + 1"
  shows "f (snd (list_walk link vname open_session items cursor seen w)) \<le> f w + 1 + (MAX_ITEMS - length items)"
  using assms
proof (induction link vname open_session items cursor seen w rule: list_walk.induct)
  case (1 link vname open_session items cursor seen w)
  obtain r w1 where r: "list_one link vname open_session cursor w = (r, w1)" by fastforce
  then have one: "f w1 \<le> f w + 1" using list_one_raises [OF 1(2,3)] by (metis snd_conv)
  show ?case
  proof (cases r)
    case (Inr page)
    let ?items = "items @ vp_items page"
    show ?thesis
    proof (cases "vp_next_cursor page = [] \<or> vp_next_cursor page \<in> seen \<or> length (vp_items page) = 0 \<or> length ?items > MAX_ITEMS")
      case True
      then show ?thesis using one r Inr by (subst list_walk.simps) (auto simp: Let_def)
    next
      case False
      then have "f (snd (list_walk link vname open_session ?items (vp_next_cursor page) (insert (vp_next_cursor page) seen) w1))
          \<le> f w1 + 1 + (MAX_ITEMS - length ?items)"
        using "1.IH" [OF r [symmetric] Inr refl refl] 1(2,3) by auto
      moreover have "0 < length (vp_items page)" "length ?items \<le> MAX_ITEMS" using False by auto
      ultimately have "f (snd (list_walk link vname open_session ?items (vp_next_cursor page) (insert (vp_next_cursor page) seen) w1))
          \<le> f w + 1 + (MAX_ITEMS - length items)"
        using one unfolding length_append by linarith
      then show ?thesis using False r Inr by (subst list_walk.simps) (simp add: Let_def)
    qed
  qed (use one r in \<open>subst list_walk.simps, simp\<close>)
qed

text \<open>A listing holds at most one page more than the ceiling.\<close>

lemma list_page_items: "list_page link vname session cursor w = (Inr page, w') \<Longrightarrow> length (vp_items page) \<le> MAX_PAGE_ITEMS"
  by (auto simp: list_page_def or_protocol_iff io_steps Let_def validate_list_response_def then_ok_eq_Inr
      split: if_splits dest!: decode_list_response_sound)

lemma list_one_iff: "list_one link vname open_session cursor w = (Inr page, w') \<longleftrightarrow>
    (\<exists>session w1 w2. open_session w = (Inr session, w1) \<and> list_page link vname session cursor w1 = (Inr page, w2) \<and>
       w' = pk_close link session w2)"
  unfolding list_one_def io_runs case_prod_beta by (auto simp: prod_eq_iff)

lemma list_one_page: "list_one link vname open_session cursor w = (Inr page, w') \<Longrightarrow> length (vp_items page) \<le> MAX_PAGE_ITEMS"
  unfolding list_one_iff by (elim exE conjE) (rule list_page_items)

lemma list_walk_length:
  "length items \<le> MAX_ITEMS \<Longrightarrow> list_walk link vname open_session items cursor seen w = (Inr all, w') \<Longrightarrow>
    length all \<le> MAX_ITEMS + MAX_PAGE_ITEMS"
proof (induction link vname open_session items cursor seen w rule: list_walk.induct)
  case (1 link vname open_session items cursor seen w)
  obtain r w1 where r: "list_one link vname open_session cursor w = (r, w1)" by fastforce
  with 1(3) obtain page where p: "r = Inr page" by (cases r) (auto simp: list_walk.simps)
  note walk = 1(3) [unfolded list_walk.simps [of link vname open_session items] r p, simplified Let_def]
  have page: "length (vp_items page) \<le> MAX_PAGE_ITEMS" by (rule list_one_page [OF r [unfolded p]])
  show ?case
  proof (cases "vp_next_cursor page = []")
    case True
    then show ?thesis using walk page 1(2) by auto
  next
    case False
    then show ?thesis using walk "1.IH" [OF r [symmetric] p refl refl] by (auto split: if_splits)
  qed
qed

subsection \<open>A phone that serves one snapshot\<close>

fun cursor_of :: "list_response list \<Rightarrow> nat \<Rightarrow> string" where
  "cursor_of pages 0 = []"
| "cursor_of pages (Suc i) = vp_next_cursor (pages ! i)"

text \<open>The pages of a vault within the ceiling: each names the next by a cursor of its own, the last
  none, and only the last may be empty.\<close>

definition snapshot :: "list_response list \<Rightarrow> bool" where
  "snapshot pages \<longleftrightarrow> pages \<noteq> [] \<and> vp_next_cursor (last pages) = [] \<and>
    (\<forall>i < length pages - 1. vp_next_cursor (pages ! i) \<noteq> [] \<and> vp_items (pages ! i) \<noteq> []) \<and>
    distinct (map vp_next_cursor pages) \<and> length (concat (map vp_items (butlast pages))) \<le> MAX_ITEMS"

lemma list_walk_snapshot:
  assumes pages: "snapshot pages"
    and serve: "\<And>i w. i < length pages \<Longrightarrow> ok w \<Longrightarrow>
      \<exists>w'. list_one link vname open_session (cursor_of pages i) w = (Inr (pages ! i), w') \<and> ok w'"
  shows "i < length pages \<Longrightarrow> ok w \<Longrightarrow>
    fst (list_walk link vname open_session (concat (map vp_items (take i pages))) (cursor_of pages i)
      (set (map vp_next_cursor (take i pages))) w) = Inr (concat (map vp_items pages))"
proof (induction "length pages - i" arbitrary: i w rule: less_induct)
  case less
  from serve [OF less(2,3)] obtain w' where one: "list_one link vname open_session (cursor_of pages i) w = (Inr (pages ! i), w')"
    and ok: "ok w'" by blast
  have step: "concat (map vp_items (take i pages)) @ vp_items (pages ! i) = concat (map vp_items (take (Suc i) pages))"
    using less(2) by (simp add: take_Suc_conv_app_nth)
  show ?case
  proof (cases "Suc i = length pages")
    case True
    then have "pages ! i = last pages" using last_conv_nth [of pages]
      by (metis diff_Suc_1 list.size(3) nat.distinct(1))
    then have "vp_next_cursor (pages ! i) = []" using pages by (simp add: snapshot_def)
    then show ?thesis using one step True by (subst list_walk.simps) simp
  next
    case False
    then have i: "i < length pages - 1" using less(2) by simp
    have new: "vp_next_cursor (pages ! i) \<notin> set (map vp_next_cursor (take i pages))"
    proof
      assume "vp_next_cursor (pages ! i) \<in> set (map vp_next_cursor (take i pages))"
      then obtain j where "j < i" "vp_next_cursor (pages ! j) = vp_next_cursor (pages ! i)"
        by (auto simp: in_set_conv_nth)
      then show False using pages less(2) nth_eq_iff_index_eq [of "map vp_next_cursor pages" j i]
        by (auto simp: snapshot_def)
    qed
    have "take (Suc i) pages = take (Suc i) (butlast pages)"
      using i by (simp add: take_butlast)
    then have "length (concat (map vp_items (take (Suc i) pages))) \<le> length (concat (map vp_items (butlast pages)))"
      by (metis append_take_drop_id concat_append le_add1 length_append map_append)
    then have few: "length (concat (map vp_items (take (Suc i) pages))) \<le> MAX_ITEMS"
      using pages by (simp add: snapshot_def)
    have more: "vp_next_cursor (pages ! i) \<noteq> []" "vp_items (pages ! i) \<noteq> []" using pages i by (simp_all add: snapshot_def)
    have seen: "set (map vp_next_cursor (take (Suc i) pages)) =
        insert (vp_next_cursor (pages ! i)) (set (map vp_next_cursor (take i pages)))"
      using less(2) by (simp add: take_Suc_conv_app_nth)
    have "fst (list_walk link vname open_session (concat (map vp_items (take (Suc i) pages))) (cursor_of pages (Suc i))
      (set (map vp_next_cursor (take (Suc i) pages))) w') = Inr (concat (map vp_items pages))"
      using False less(2) ok by (intro less.hyps) auto
    then have "fst (list_walk link vname open_session (concat (map vp_items (take (Suc i) pages))) (vp_next_cursor (pages ! i))
      (insert (vp_next_cursor (pages ! i)) (set (map vp_next_cursor (take i pages)))) w') = Inr (concat (map vp_items pages))"
      unfolding seen by simp
    then show ?thesis
      using one step few more new by (subst list_walk.simps) (simp add: Let_def del: length_concat map_append)
  qed
qed

subsection \<open>A link over more than its world\<close>

text \<open>What a closure keeps goes beside the world; the link does not touch it.\<close>

definition beside :: "'w phone_link \<Rightarrow> ('w \<times> 'x) phone_link" where
  "beside link =
    \<lparr>pk_send = (\<lambda>s b (w, x). case pk_send link s b w of (r, w) \<Rightarrow> (r, (w, x))),
     pk_receive = (\<lambda>s t (w, x). case pk_receive link s t w of (r, w) \<Rightarrow> (r, (w, x))),
     pk_close = (\<lambda>s (w, x). (pk_close link s w, x)),
     pk_now = (\<lambda>(w, x). case pk_now link w of (n, w) \<Rightarrow> (n, (w, x))),
     pk_random = (\<lambda>n (w, x). case pk_random link n w of (b, w) \<Rightarrow> (b, (w, x))),
     pk_io_text = pk_io_text link\<rparr>"

text \<open>\<open>open_session\<close> with a count of its calls.\<close>

definition counting :: "('w, 'e, 'a) io_on \<Rightarrow> ('w \<times> nat, 'e, 'a) io_on" where
  "counting m = (\<lambda>(w, n). case m w of (r, w) \<Rightarrow> (r, (w, n + 1)))"

lemma beside_keeps: "link_never_raises snd (beside link)"
  by (auto simp: link_never_raises_def never_raises_def beside_def split: prod.splits)

lemma counting_counts: "snd (snd (counting m w)) \<le> snd w + 1"
  by (simp add: counting_def split: prod.splits)

end
