(* ===== verification/Phone_Custodian.thy ===== *)
theory Phone_Custodian
  imports Phone_Clients Locker_Safety Locker_Payloads Luks_Payloads
begin

text \<open>
  The phone as the custodian of data keys, \<open>phone-auth-agent/src/locker.rs\<close>, and the enrolment of
  a volume key, \<open>luks.rs\<close>. The custodian is the one the engine of \<open>Locker_Engine\<close> calls, so its
  link runs over the disk the engine runs over.
\<close>

subsection \<open>The locker's exchange\<close>

definition locker_denied :: "protocol_error \<Rightarrow> locker_error" where
  "locker_denied e = LockerDenied (protocol_error_text e)"

definition locker_errors :: "'w phone_link \<Rightarrow> locker_error exchange_errors" where
  "locker_errors link = \<lparr>xe_send = (\<lambda>e. LockerDenied (pk_io_text link e)),
     xe_receive = (\<lambda>e. LockerDenied (pk_io_text link e)),
     xe_decode = locker_denied, xe_other = LockerDenied ''the phone answered a different request''\<rparr>"

definition locker_settle :: "application_frame \<Rightarrow> locker_error + bytes" where
  "locker_settle reply =
    (if ap_kind reply = Error then Inl (LockerDenied ''the phone declined the locker request'')
     else Inr (ap_payload reply))"

definition locker_exchange_on ::
    "'w phone_link \<Rightarrow> secure_session \<Rightarrow> string \<Rightarrow> bytes \<Rightarrow> ('w, locker_error, bytes) io_on" where
  "locker_exchange_on link session operation payload =
    (if \<not> suitable_for_authorization (se_security session)
     then io_fail (LockerDenied ''the locker needs an authenticated confidential session'')
     else
       io_bind (stamped link session operation payload LOCKER_VALIDITY_MS) (\<lambda>request.
       io_bind (io_of (map_err locker_denied (validate_application request))) (\<lambda>_.
       converse link session LOCKER_RECEIVE_TIMEOUT (locker_errors link) locker_settle request)))"

text \<open>A custodian dials the phone again for each request.\<close>

record 'w phone_custodian =
  pc_open :: "('w, locker_error, secure_session) io_on"
  pc_verifier_name :: string
  pc_credential_id :: string
  pc_rekeying :: bool

definition custodian_new :: "('w, locker_error, secure_session) io_on \<Rightarrow> string \<Rightarrow> string \<Rightarrow> 'w phone_custodian" where
  "custodian_new open_session vname cid =
    \<lparr>pc_open = open_session, pc_verifier_name = vname, pc_credential_id = cid, pc_rekeying = False\<rparr>"

definition rekeying :: "'w phone_custodian \<Rightarrow> 'w phone_custodian" where
  "rekeying c = c\<lparr>pc_rekeying := True\<rparr>"

definition locker_exchange ::
    "'w phone_link \<Rightarrow> 'w phone_custodian \<Rightarrow> string \<Rightarrow> bytes \<Rightarrow> ('w, locker_error, bytes) io_on" where
  "locker_exchange link c operation payload =
    io_bind (pc_open c) (\<lambda>session w.
      case locker_exchange_on link session operation payload w of
        (result, w) \<Rightarrow> (result, pk_close link session w))"

definition custodian_wrap ::
    "'w phone_link \<Rightarrow> 'w phone_custodian \<Rightarrow> wrap_ask \<Rightarrow> ('w, locker_error, wrapper) io_on" where
  "custodian_wrap link c ask =
    (let payload = \<lparr>wq_verifier_name = pc_verifier_name c, wq_file_name = wa_file_name ask,
           wq_plaintext_len = wa_plaintext_len ask, wq_container_binding = wa_binding ask,
           wq_data_key = wa_dek ask\<rparr> in
     io_bind (io_of (map_err locker_denied (validate_wrap_request payload))) (\<lambda>_.
     io_bind (locker_exchange link c OPERATION_CREATE (encode_wrap_request payload)) (\<lambda>answer.
     io_bind (io_of (map_err locker_denied (decode_wrap_response answer))) (\<lambda>decoded.
     io_return \<lparr>wr_kind = PhoneWrapper, wr_id = wr_credential_id decoded, wr_salt = [], wr_nonce = [],
                wr_ciphertext = wr_wrapper decoded\<rparr>))))"

definition custodian_unwrap ::
    "'w phone_link \<Rightarrow> 'w phone_custodian \<Rightarrow> unwrap_ask \<Rightarrow> ('w, locker_error, bytes) io_on" where
  "custodian_unwrap link c ask =
    (if wr_kind (ua_wrapper ask) \<noteq> PhoneWrapper then io_fail (NoWrapper PhoneWrapper)
     else
       let payload = \<lparr>uq_verifier_name = pc_verifier_name c, uq_file_name = ua_container_name ask,
             uq_plaintext_len = ua_plaintext_len ask, uq_container_binding = ua_binding ask,
             uq_credential_id = pc_credential_id c, uq_wrapper = wr_ciphertext (ua_wrapper ask)\<rparr> in
       io_bind (io_of (map_err locker_denied (validate_unwrap_request payload))) (\<lambda>_.
       let operation = if pc_rekeying c then OPERATION_REKEY else OPERATION_UNLOCK in
       io_bind (locker_exchange link c operation (encode_unwrap_request payload)) (\<lambda>answer.
       io_bind (io_of (map_err locker_denied (decode_unwrap_response answer))) (\<lambda>decoded.
       io_of (case dek_from_slice (ur_data_key decoded) of None \<Rightarrow> Inl Corrupt | Some dek \<Rightarrow> Inr dek)))))"

text \<open>\<open>impl KeyCustodian for PhoneCustodian\<close>.\<close>

definition as_custodian :: "disk phone_link \<Rightarrow> disk phone_custodian \<Rightarrow> custodian" where
  "as_custodian link c = \<lparr>cu_wrap = custodian_wrap link c, cu_unwrap = custodian_unwrap link c\<rparr>"

subsection \<open>Enrolling a volume key\<close>

record enrollment =
  en_wrapped :: wrapped_volume_key
  en_disk_key :: bytes

definition luks_errors :: "'w phone_link \<Rightarrow> string exchange_errors" where
  "luks_errors link = \<lparr>xe_send = pk_io_text link, xe_receive = pk_io_text link, xe_decode = protocol_error_text,
     xe_other = ''the phone answered a different request''\<rparr>"

definition luks_settle :: "application_frame \<Rightarrow> string + bytes" where
  "luks_settle reply =
    (if ap_kind reply = Error then Inl ''the phone declined the enrollment'' else Inr (ap_payload reply))"

definition luks_exchange ::
    "'w phone_link \<Rightarrow> secure_session \<Rightarrow> string \<Rightarrow> bytes \<Rightarrow> ('w, string, bytes) io_on" where
  "luks_exchange link session operation payload =
    io_bind (stamped link session operation payload LUKS_VALIDITY_MS) (\<lambda>request.
    io_bind (io_of (map_err protocol_error_text (validate_application request))) (\<lambda>_.
    converse link session LUKS_RECEIVE_TIMEOUT (luks_errors link) luks_settle request))"

definition luks_enroll ::
    "'w phone_link \<Rightarrow> secure_session \<Rightarrow> string \<Rightarrow> string \<Rightarrow> ('w, string, enrollment) io_on" where
  "luks_enroll link session vname volume =
    io_bind (io_get (pk_random link DISK_KEY_LEN)) (\<lambda>disk_key.
    io_bind (io_get (pk_random link VOLUME_BINDING_LEN)) (\<lambda>volume_binding.
    let payload = \<lparr>eq_verifier_name = vname, eq_volume_name = volume, eq_volume_binding = volume_binding,
          eq_disk_key = disk_key\<rparr> in
    io_bind (io_of (map_err protocol_error_text (validate_enroll_request payload))) (\<lambda>_.
    io_bind (luks_exchange link session LUKS_OPERATION_ENROLL (encode_enroll_request payload)) (\<lambda>answer.
    io_bind (io_of (map_err protocol_error_text (decode_enroll_response answer))) (\<lambda>response.
    let wrapped = \<lparr>wk_volume_binding = volume_binding, wk_credential_id = er_credential_id response,
          wk_wrapper = er_wrapper response\<rparr> in
    io_bind (io_of (map_err protocol_error_text (validate_wrapped_key wrapped))) (\<lambda>_.
    io_return \<lparr>en_wrapped = wrapped, en_disk_key = disk_key\<rparr>))))))"

subsection \<open>Both keep the contract of an exchange, one of them unguarded\<close>

lemma custodian_settles [simp]:
  "ap_kind reply = Response \<Longrightarrow> locker_settle reply = Inr (ap_payload reply)"
  "ap_kind reply = Error \<Longrightarrow> \<exists>e. locker_settle reply = Inl e"
  "ap_kind reply = Response \<Longrightarrow> luks_settle reply = Inr (ap_payload reply)"
  "ap_kind reply = Error \<Longrightarrow> \<exists>e. luks_settle reply = Inl e"
  by (simp_all add: locker_settle_def luks_settle_def)

interpretation locker_ex: phone_exchange locker_exchange_on LOCKER_RECEIVE_TIMEOUT LOCKER_VALIDITY_MS True
  by unfold_locales (auto simp: locker_exchange_on_def io_steps stamped_iff converse_iff)

interpretation luks_ex: phone_exchange luks_exchange LUKS_RECEIVE_TIMEOUT LUKS_VALIDITY_MS False
  by unfold_locales (auto simp: luks_exchange_def io_steps stamped_iff converse_iff)

lemma locker_exchange_iff: "locker_exchange link c operation payload w = (Inr ans, w') \<longleftrightarrow>
    (\<exists>session w1 w2. pc_open c w = (Inr session, w1) \<and>
       locker_exchange_on link session operation payload w1 = (Inr ans, w2) \<and> w' = pk_close link session w2)"
  unfolding locker_exchange_def io_runs case_prod_beta by (auto simp: prod_eq_iff)

subsection \<open>A custodian the engine may rely on\<close>

text \<open>A link that leaves the settled part of the disk alone.\<close>

definition link_keeps :: "(disk \<Rightarrow> bool) \<Rightarrow> disk phone_link \<Rightarrow> bool" where
  "link_keeps I link \<longleftrightarrow> (\<forall>s b. keeps I (pk_send link s b)) \<and> (\<forall>s t. keeps I (pk_receive link s t)) \<and>
    (\<forall>s d. I d \<longrightarrow> I (pk_close link s d)) \<and> (\<forall>d. I d \<longrightarrow> I (snd (pk_now link d))) \<and>
    (\<forall>n d. I d \<longrightarrow> I (snd (pk_random link n d)))"

definition link_quiet :: "disk phone_link \<Rightarrow> bool" where
  "link_quiet link \<longleftrightarrow> (\<forall>s. link_keeps (\<lambda>d. settled d = s) link)"

lemma keeps_of [keeps_rules]: "keeps I (io_of r)"
  by (auto simp: keeps_def io_triple_def io_of_def split: sum.splits)

lemma keeps_get: "(\<And>d. I d \<Longrightarrow> I (snd (g d))) \<Longrightarrow> keeps I (io_get g)"
  by (auto simp: keeps_def io_triple_def io_get_def split: prod.splits) (metis snd_conv)

lemma keeps_converse:
  assumes "link_keeps I link"
  shows "keeps I (converse link session timeout errors settle request)"
  using assms unfolding converse_def link_keeps_def
  by (auto intro!: keeps_rules keeps_get)

lemma keeps_locker_exchange_on:
  assumes "link_keeps I link"
  shows "keeps I (locker_exchange_on link session operation payload)"
  using assms keeps_converse [OF assms] unfolding locker_exchange_on_def stamped_def link_keeps_def
  by (auto intro!: keeps_rules keeps_get)

lemma keeps_closing:
  assumes "keeps I (m :: (disk, 'e, 'a) io_on)" and "\<And>d. I d \<Longrightarrow> I (g d)"
  shows "keeps I (\<lambda>d. case m d of (r, d) \<Rightarrow> (r, g d))"
  using assms unfolding keeps_def io_triple_def by (auto split: prod.splits sum.splits)

lemma keeps_locker_exchange:
  assumes "link_keeps I link" and "keeps I (pc_open c)"
  shows "keeps I (locker_exchange link c operation payload)"
  unfolding locker_exchange_def
proof (intro keeps_bind assms(2) keeps_closing keeps_locker_exchange_on assms(1))
  show "I (pk_close link s d)" if "I d" for s d using assms(1) that by (simp add: link_keeps_def)
qed

lemma keeps_custodian:
  assumes "link_keeps I link" and "keeps I (pc_open c)"
  shows "keeps I (custodian_wrap link c a)" and "keeps I (custodian_unwrap link c b)"
  using keeps_locker_exchange [OF assms]
  unfolding custodian_wrap_def custodian_unwrap_def Let_def by (auto intro!: keeps_rules)

lemma custodian_wrap_shape:
  "custodian_wrap link c ask w = (Inr x, w') \<Longrightarrow> wr_kind x = PhoneWrapper \<and> is_str (wr_id x) \<and> wr_salt x = [] \<and>
    wr_nonce x = [] \<and> wr_ciphertext x \<noteq> [] \<and> length (wr_ciphertext x) \<le> MAX_WRAPPER_BYTES"
  by (auto simp: custodian_wrap_def Let_def io_steps wrap_response_typed_def validate_wrap_response_def check_wrapper_def
      then_ok_eq_Inr split: if_splits dest!: decode_wrap_response_sound)

lemma custodian_unwrap_shape:
  "custodian_unwrap link c ask w = (Inr dek, w') \<Longrightarrow> wr_kind (ua_wrapper ask) = PhoneWrapper \<and> length dek = DATA_KEY_LEN"
  by (auto simp: custodian_unwrap_def Let_def io_steps dek_from_slice_def validate_unwrap_response_def check_data_key_def
      split: if_splits option.splits dest!: decode_unwrap_response_sound)

lemma phone_custodian_ok:
  assumes "link_quiet link" and "quiet (pc_open c)"
  shows "custodian_ok (as_custodian link c)"
proof -
  have q: "quiet m \<longleftrightarrow> (\<forall>s. keeps (\<lambda>d. settled d = s) m)" for m :: "'a locker_io"
    by (auto simp: quiet_def keeps_iff)
  have "keeps (\<lambda>d. settled d = s) (custodian_wrap link c a)" "keeps (\<lambda>d. settled d = s) (custodian_unwrap link c b)" for s a b
    using assms keeps_custodian [of "\<lambda>d. settled d = s" link c] by (auto simp: link_quiet_def q)
  then show ?thesis by (auto simp: custodian_ok_def as_custodian_def q dest: custodian_wrap_shape)
qed

text \<open>What the phone is asked to wrap is the key of this file, under this name, length and binding.\<close>

lemma custodian_wrap_asks:
  assumes "custodian_wrap link c ask w = (Inr x, w')"
  shows "\<exists>session w1 w2 answer. pc_open c w = (Inr session, w1) \<and>
    locker_exchange_on link session OPERATION_CREATE
      (encode_wrap_request \<lparr>wq_verifier_name = pc_verifier_name c, wq_file_name = wa_file_name ask,
         wq_plaintext_len = wa_plaintext_len ask, wq_container_binding = wa_binding ask, wq_data_key = wa_dek ask\<rparr>)
      w1 = (Inr answer, w2) \<and> decode_wrap_response answer = Inr \<lparr>wr_credential_id = wr_id x, wr_wrapper = wr_ciphertext x\<rparr> \<and>
    suitable_for_authorization (se_security session)"
  using assms locker_ex.exchange_iff by (fastforce simp: custodian_wrap_def Let_def io_steps locker_exchange_iff)

lemma luks_enroll_shape:
  assumes "luks_enroll link session vname volume w = (Inr e, w')"
  shows "\<exists>w1. pk_random link DISK_KEY_LEN w = (en_disk_key e, w1)" and "length (en_disk_key e) = DISK_KEY_LEN"
    and "\<exists>w1 w2. pk_random link VOLUME_BINDING_LEN w1 = (wk_volume_binding (en_wrapped e), w2)"
    and "validate_wrapped_key (en_wrapped e) = Inr ()"
  using assms by (auto simp: luks_enroll_def Let_def io_steps validate_enroll_request_def luks_key_def then_ok_eq_Inr split: if_splits) blast

text \<open>Nothing an enrolment does depends on what the session says of its channel.\<close>

lemma luks_enroll_cong:
  assumes "\<And>b. pk_send link s b = pk_send link s' b" and "\<And>t. pk_receive link s t = pk_receive link s' t"
    and "se_session_binding s = se_session_binding s'"
  shows "luks_enroll link s vname volume w = luks_enroll link s' vname volume w"
  unfolding luks_enroll_def luks_exchange_def converse_def stamped_def application_request_def assms ..

end
