(* ===== verification/Agent_Examples.thy ===== *)
theory Agent_Examples
  imports Examples Ble_Framing Ssh_Session Phone_Custodian
begin

text \<open>Small inputs for the witnesses of the agent's properties.\<close>

subsection \<open>Chunks out of order\<close>

definition demo_ble_frame :: bytes where "demo_ble_frame = [1, 2, 3, 4, 5]"
definition demo_ble_chunks :: "bytes list" where
  "demo_ble_chunks = [[0, 7, 0, 0, 0, 3, 1, 2], [0, 7, 0, 1, 0, 3, 3, 4], [0, 7, 0, 2, 0, 3, 5]]"
definition demo_ble_arrivals :: "bytes list" where
  "demo_ble_arrivals = [[0, 7, 0, 2, 0, 3, 5], [0, 9, 0, 0, 0, 2, 8], [0, 7, 0, 0, 0, 3, 1, 2], [0, 7, 0, 1, 0, 3, 3, 4]]"

lemma demo_ble_encode: "ble_encode demo_ble_frame 8 7 = (Inr demo_ble_chunks, 8)"
  by code_simp

lemma demo_ble_own:
  "card (insert 7 (ble_ids [] \<union> chunk_frame_id ` set demo_ble_arrivals)) \<le> MAX_PARTIAL_FRAMES"
  "mset (filter (\<lambda>c. chunk_frame_id c = 7) demo_ble_arrivals) = mset demo_ble_chunks"
proof -
  have "map chunk_frame_id demo_ble_arrivals = [7, 9, 7, 7]" by code_simp
  then have "chunk_frame_id ` set demo_ble_arrivals = {7, 9}" by (metis image_set list.simps(15) insert_absorb2 insert_commute empty_set)
  then show "card (insert 7 (ble_ids [] \<union> chunk_frame_id ` set demo_ble_arrivals)) \<le> MAX_PARTIAL_FRAMES"
    by (simp add: ble_ids_def MAX_PARTIAL_FRAMES_def)
  have "filter (\<lambda>c. chunk_frame_id c = 7) demo_ble_arrivals = [demo_ble_chunks ! 2, demo_ble_chunks ! 0, demo_ble_chunks ! 1]"
    by code_simp
  then show "mset (filter (\<lambda>c. chunk_frame_id c = 7) demo_ble_arrivals) = mset demo_ble_chunks"
    by (simp add: demo_ble_chunks_def)
qed

subsection \<open>An ssh client\<close>

definition demo_ssh_backend :: "unit ssh_backend" where
  "demo_ssh_backend = \<lparr>bk_identities = (\<lambda>u. ([([9, 9], ''key'')], u)),
    bk_sign = (\<lambda>key data p u. (Some (replicate 64 1), u))\<rparr>"

definition demo_login :: agent_sign_request where
  "demo_login = \<lparr>as_key_blob = [9, 9], as_data = userauth_request [1] ''alice'' ''ssh-connection'' [], as_flags = 0\<rparr>"

definition toy_sha :: "bytes \<Rightarrow> bytes" where "toy_sha b = take 32 (b @ replicate 32 0)"

definition demo_ssh_policy :: ssh_policy where
  "demo_ssh_policy = restrict_to [ssh_fingerprint toy_sha [5]] policy_new"

lemma demo_login_account: "account_in_request (as_data demo_login) = Some (''alice'', ''ssh-connection'')"
proof -
  have "is_str ''alice'' \<and> is_str ''ssh-connection''" by (simp add: is_str_ascii ascii_def)
  then have "slice_ok (as_data demo_login) \<and> account_in_request (as_data demo_login) = Some (''alice'', ''ssh-connection'')"
    unfolding account_in_request_iff
    by (simp add: demo_login_def userauth_request_def slice_ok_def MAX_FIELD_BYTES_def publickey_def)
      (rule exI [of _ "[1]"], rule conjI, simp, rule exI [of _ "[]"], simp)
  then show ?thesis ..
qed

subsection \<open>A phone that answers\<close>

text \<open>The world is the frames sent so far, the last first; the clock stands still. The phone answers
  the last frame with the kind and the payload that \<open>f\<close> gives.\<close>

definition toy_reply :: "(application_frame \<Rightarrow> frame_kind \<times> bytes) \<Rightarrow> application_frame \<Rightarrow> application_frame" where
  "toy_reply f q = q\<lparr>ap_kind := fst (f q), ap_payload := snd (f q)\<rparr>"

definition toy_phone :: "(application_frame \<Rightarrow> frame_kind \<times> bytes) \<Rightarrow> bytes list phone_link" where
  "toy_phone f =
    \<lparr>pk_send = (\<lambda>s b w. (Inr (), b # w)),
     pk_receive = (\<lambda>s t w.
       case w of [] \<Rightarrow> (Inl NotFound, w)
       | b # _ \<Rightarrow> (case decode_application b of Inl _ \<Rightarrow> (Inl NotFound, w)
                   | Inr q \<Rightarrow> (Inr (encode_application (toy_reply f q)), w))),
     pk_close = (\<lambda>s w. w), pk_now = (\<lambda>w. (1000, w)), pk_random = (\<lambda>n w. (replicate n 7, w)),
     pk_io_text = (\<lambda>e. ''broken'')\<rparr>"

definition toy_session :: "bool \<Rightarrow> secure_session" where
  "toy_session safe = \<lparr>se_origin_label = ''phone'', se_session_binding = replicate 32 3,
    se_security = \<lparr>ts_transport_name = ''toy'', ts_confidential = safe, ts_peer_authenticated = safe,
      ts_requires_network = False, ts_proximity_signal = False, ts_is_development = False\<rparr>\<rparr>"

lemma toy_session_suitable [simp]: "suitable_for_authorization (se_security (toy_session safe)) = safe"
  by (simp add: toy_session_def suitable_for_authorization_def)

lemma toy_request_id: "check_text ''requestId'' (to_hex (replicate 16 7)) 64 = Inr ()"
proof (rule check_text_ascii [OF to_hex_ascii])
  have "\<forall>i < 16. \<not> is_whitespace (of_char (HEX_DIGITS ! i))"
    unfolding all_less_16 by (simp add: HEX_DIGITS_def upt_rec nth_Cons' is_whitespace_def)
  with nibbles(1) [of 7] show "\<exists>c \<in> set (to_hex (replicate 16 7)). \<not> is_whitespace (of_char c)"
    by (simp add: numeral_eq_Suc)
qed simp

lemma toy_request_typed:
  fixes safe :: bool
  assumes "is_str operation" and "valid_operation operation" and "length payload \<le> MAX_APPLICATION_PAYLOAD_BYTES"
    and "0 < validity" and "validity \<le> MAX_VALIDITY_MS"
  defines "q \<equiv> application_request (toy_session safe) operation payload 1000 (replicate 16 7) validity"
  shows "application_typed q \<and> validate_application q = Inr ()"
proof -
  have "is_str (ap_request_id q)" "check_text ''requestId'' (ap_request_id q) 64 = Inr ()"
    using is_str_ascii [OF to_hex_ascii [of "replicate 16 7"]] toy_request_id
    by (simp_all add: q_def application_request_def random_request_id_def)
  then show ?thesis
    using assms(1-5) unfolding q_def
    by (simp add: application_typed_def validate_application_def application_request_def toy_session_def
        SESSION_BINDING_LEN_def is_i64_def MAX_VALIDITY_MS_def check_window_iff)
qed

text \<open>The phone's answer, whenever it is one the envelope can carry.\<close>

lemma toy_answered:
  assumes "application_typed q" and "validate_application q = Inr ()" and "ap_kind q = Request"
    and "f q = (Response, ans)" and "length ans \<le> MAX_APPLICATION_PAYLOAD_BYTES" and "1000 < ap_expires_at_ms q"
  shows "answered (toy_phone f) session timeout q ans w (encode_application q # w)"
proof -
  have r: "application_typed (toy_reply f q)" "validate_application (toy_reply f q) = Inr ()"
    using assms by (auto simp: toy_reply_def application_typed_def validate_application_def then_ok_eq_Inr split: if_splits)
  have d: "decode_application (encode_application q) = Inr q" if "application_typed q" "validate_application q = Inr ()" for q
    using application_codec.decode_exactly that by metis
  show ?thesis
    unfolding answered_def using assms d [OF assms(1,2)] d [OF r]
    by (auto simp: toy_phone_def toy_reply_def is_reply_to_def application_expired_at_def)
qed

lemma toy_vault_exchange:
  assumes "is_str operation" and "valid_operation operation" and "length payload \<le> MAX_APPLICATION_PAYLOAD_BYTES"
    and "f (application_request (toy_session True) operation payload 1000 (replicate 16 7) VAULT_VALIDITY_MS) = (Response, ans)"
    and "length ans \<le> MAX_APPLICATION_PAYLOAD_BYTES"
  shows "vault_exchange (toy_phone f) (toy_session True) operation payload w = (Inr ans, encode_application
    (application_request (toy_session True) operation payload 1000 (replicate 16 7) VAULT_VALIDITY_MS) # w)"
proof -
  let ?q = "application_request (toy_session True) operation payload 1000 (replicate 16 7) VAULT_VALIDITY_MS"
  have q: "application_typed ?q \<and> validate_application ?q = Inr ()"
    by (rule toy_request_typed [OF assms(1-3)]) (simp_all add: VAULT_VALIDITY_MS_def MAX_VALIDITY_MS_def)
  have "answered (toy_phone f) (toy_session True) VAULT_RECEIVE_TIMEOUT ?q ans w (encode_application ?q # w)"
    using q assms(4,5) by (intro toy_answered) (simp_all add: application_request_def VAULT_VALIDITY_MS_def)
  then show ?thesis
    unfolding vault_ex.exchange_iff using q by (intro conjI exI [of _ 1000] exI [of _ "replicate 16 7"] exI [of _ w])
      (simp_all add: toy_phone_def)
qed

subsection \<open>A vault of two pages\<close>

definition demo_item :: item_summary where
  "demo_item = \<lparr>su_id = ''a'', su_revision = 1, su_kind = Login, su_name = ''Mail'', su_username = ''ana'',
     su_uri = ''mail.example'', su_updated_at_ms = 5\<rparr>"

definition demo_pages :: "list_response list" where
  "demo_pages = [\<lparr>vp_items = [demo_item], vp_next_cursor = ''n''\<rparr>, \<lparr>vp_items = [], vp_next_cursor = []\<rparr>]"

definition demo_vault :: "application_frame \<Rightarrow> frame_kind \<times> bytes" where
  "demo_vault q = (Response, encode_list_response
     (case decode_list_request (ap_payload q) of
        Inl _ \<Rightarrow> demo_pages ! 1
      | Inr r \<Rightarrow> if vl_cursor r = [] then demo_pages ! 0 else demo_pages ! 1))"

definition demo_open :: "bytes list \<Rightarrow> (vault_error + secure_session) \<times> bytes list" where
  "demo_open w = (Inr (toy_session True), w)"

lemmas demo_text = is_str_ascii ascii_def check_text_ascii is_whitespace_def utf16_len_ascii

lemma demo_page_sizes:
  "length (encode_list_response (demo_pages ! 0)) \<le> MAX_APPLICATION_PAYLOAD_BYTES"
  "length (encode_list_response (demo_pages ! 1)) \<le> MAX_APPLICATION_PAYLOAD_BYTES"
  by code_simp+

lemma demo_pages_valid:
  "list_response_typed (demo_pages ! 0)" "list_response_typed (demo_pages ! 1)"
  "validate_list_response (demo_pages ! 0) = Inr ()" "validate_list_response (demo_pages ! 1) = Inr ()"
  using demo_page_sizes
  by (simp_all add: demo_pages_def demo_item_def list_response_typed_def items_typed_def summary_typed_def is_i64_def
      validate_list_response_def validate_summary_def check_revision_def check_optional_text_def demo_text vault_consts Let_def)

lemma demo_list_request_valid:
  "list_request_typed \<lparr>vl_verifier_name = ''Desk'', vl_cursor = []\<rparr>"
  "list_request_typed \<lparr>vl_verifier_name = ''Desk'', vl_cursor = ''n''\<rparr>"
  "validate_list_request \<lparr>vl_verifier_name = ''Desk'', vl_cursor = []\<rparr> = Inr ()"
  "validate_list_request \<lparr>vl_verifier_name = ''Desk'', vl_cursor = ''n''\<rparr> = Inr ()"
  by (simp_all add: list_request_typed_def validate_list_request_def check_optional_text_def demo_text vault_consts)

lemma demo_snapshot: "snapshot demo_pages"
  by (simp add: snapshot_def demo_pages_def MAX_ITEMS_def)

lemma demo_operation: "is_str OPERATION_LIST" "valid_operation OPERATION_LIST"
  by (simp_all add: OPERATION_LIST_def is_str_ascii ascii_def) code_simp

lemma demo_list_page:
  assumes "i < 2" and "r = \<lparr>vl_verifier_name = ''Desk'', vl_cursor = cursor_of demo_pages i\<rparr>"
  shows "vault_exchange (toy_phone demo_vault) (toy_session True) OPERATION_LIST (encode_list_request r) w
    = (Inr (encode_list_response (demo_pages ! i)), encode_application
      (application_request (toy_session True) OPERATION_LIST (encode_list_request r) 1000 (replicate 16 7) VAULT_VALIDITY_MS) # w)"
proof (rule toy_vault_exchange [OF demo_operation])
  have i: "i = 0 \<or> i = 1" using assms(1) by auto
  have r: "list_request_typed r \<and> validate_list_request r = Inr ()"
    using i assms(2) demo_list_request_valid by (auto simp: demo_pages_def)
  then have "decode_list_request (encode_list_request r) = Inr r"
    by (simp add: list_request_codec.decode_encode)
  then show "demo_vault (application_request (toy_session True) OPERATION_LIST (encode_list_request r) 1000 (replicate 16 7)
      VAULT_VALIDITY_MS) = (Response, encode_list_response (demo_pages ! i))"
    using i assms(2) by (auto simp: demo_vault_def application_request_def demo_pages_def)
  show "length (encode_list_request r) \<le> MAX_APPLICATION_PAYLOAD_BYTES"
    using r list_request_encode_bound by blast
  show "length (encode_list_response (demo_pages ! i)) \<le> MAX_APPLICATION_PAYLOAD_BYTES"
    using i demo_page_sizes by auto
qed

lemma demo_serves:
  assumes "i < length demo_pages"
  shows "\<exists>w'. list_one (toy_phone demo_vault) ''Desk'' demo_open (cursor_of demo_pages i) w = (Inr (demo_pages ! i), w')"
proof -
  have i: "i < 2" "i = 0 \<or> i = 1" using assms by (auto simp: demo_pages_def)
  have v: "validate_list_request \<lparr>vl_verifier_name = ''Desk'', vl_cursor = cursor_of demo_pages i\<rparr> = Inr ()"
    using i(2) demo_list_request_valid by (auto simp: demo_pages_def)
  have d: "decode_list_response (encode_list_response (demo_pages ! i)) = Inr (demo_pages ! i)"
    using i(2) demo_pages_valid by (auto simp: list_response_codec.decode_encode)
  show ?thesis
    unfolding list_one_iff list_page_def or_protocol_iff io_steps Let_def
    using v d demo_list_page [OF i(1) refl] by (auto simp: demo_open_def)
qed

lemma toy_phone_keeps: "link_never_raises (\<lambda>w. 0) (toy_phone f)"
  by (simp add: link_never_raises_def never_raises_def)

subsection \<open>A phone that is out of reach\<close>

definition deaf_phone :: "disk phone_link" where
  "deaf_phone = \<lparr>pk_send = (\<lambda>s b d. (Inr (), d)), pk_receive = (\<lambda>s t d. (Inl NotFound, d)), pk_close = (\<lambda>s d. d),
     pk_now = (\<lambda>d. (1000, d)), pk_random = (\<lambda>n d. (replicate n 7, d)), pk_io_text = (\<lambda>e. ''broken'')\<rparr>"

definition deaf_custodian :: "disk phone_custodian" where
  "deaf_custodian = custodian_new (\<lambda>d. (Inr (toy_session True), d)) ''Desk'' ''cred''"

lemma deaf_quiet: "link_quiet deaf_phone" "quiet (pc_open deaf_custodian)"
  by (simp_all add: link_quiet_def link_keeps_def deaf_phone_def keeps_def io_triple_def quiet_def deaf_custodian_def
      custodian_new_def)

definition demo_first_page :: list_request where
  "demo_first_page = \<lparr>vl_verifier_name = ''Desk'', vl_cursor = []\<rparr>"

definition demo_ask :: wrap_ask where
  "demo_ask = \<lparr>wa_binding = replicate 32 1, wa_dek = replicate 32 2, wa_file_name = ''a.txt'', wa_plaintext_len = 5\<rparr>"

definition demo_unask :: unwrap_ask where
  "demo_unask = \<lparr>ua_binding = replicate 32 1, ua_wrapper = \<lparr>wr_kind = PhoneWrapper, wr_id = ''cred'', wr_salt = [],
     wr_nonce = [], wr_ciphertext = [1]\<rparr>, ua_container_name = ''a.txt'', ua_plaintext_len = 5\<rparr>"

end
