(* ===== verification/Audit_Log.thy ===== *)
theory Audit_Log
  imports Verifier File_System
begin

text \<open>
  The audit log of the agent, \<open>phone-auth-agent/src/audit.rs\<close>: one JSON object per line, appended
  to a private file that is trimmed to its newest entries when it grows. The JSON text of an entry
  is a parameter; reading, appending and trimming run over the files of \<open>File_System\<close>, where every
  call may fail.
\<close>

subsection \<open>Entries\<close>

datatype outcome = Granted | Denied | Failed

record audit_entry =
  au_at_ms :: int
  au_outcome :: outcome
  au_request_id :: string
  au_service :: string
  au_action :: string
  au_resource :: string
  au_user :: string
  au_device_name :: string
  au_origin :: string
  au_detail :: "string option"
  au_development :: bool

definition audit_granted :: "grant \<Rightarrow> bool \<Rightarrow> audit_entry" where
  "audit_granted g development =
    \<lparr>au_at_ms = gr_granted_at_ms g, au_outcome = Granted, au_request_id = gr_request_id g,
     au_service = gr_service g, au_action = gr_action g, au_resource = gr_resource g, au_user = gr_user g,
     au_device_name = gr_device_name g, au_origin = gr_origin g, au_detail = None, au_development = development\<rparr>"

text \<open>\<open>serde_json\<close> for one entry. It writes one line of UTF-8, which it reads back.\<close>

record audit_json =
  aj_to_vec :: "audit_entry \<Rightarrow> bytes option"
  aj_from_str :: "string \<Rightarrow> audit_entry option"

definition audit_json_ok :: "audit_json \<Rightarrow> bool" where
  "audit_json_ok aj \<longleftrightarrow> (\<forall>e t. aj_to_vec aj e = Some t \<longrightarrow>
    t \<noteq> [] \<and> LF \<notin> set t \<and> last t \<noteq> CR \<and> (\<exists>s. from_utf8 t = Some s \<and> aj_from_str aj s = Some e))"

subsection \<open>Reading\<close>

record audit_log =
  al_path :: path
  al_retain :: nat
  al_trim_threshold_bytes :: nat

definition audit_log_new :: "path \<Rightarrow> audit_log" where
  "audit_log_new p = \<lparr>al_path = p, al_retain = 500, al_trim_threshold_bytes = 512 * 1024\<rparr>"

text \<open>
  \<open>lines().map_while(Result::ok).filter_map(...)\<close>: everything after the first line that is not
  UTF-8 is left out, and so is a piece that an error cut short.
\<close>

definition read_entries :: "audit_json \<Rightarrow> bytes \<times> bool \<Rightarrow> audit_entry list" where
  "read_entries aj stream =
    (let pieces = raw_lines (fst stream); pieces = (if snd stream then filter snd pieces else pieces);
         texts = takeWhile (\<lambda>t. t \<noteq> None) (map (\<lambda>l. from_utf8 (strip_return l)) pieces)
     in List.map_filter (\<lambda>t. aj_from_str aj (the t)) texts)"

definition read_all :: "audit_json \<Rightarrow> audit_log \<Rightarrow> world \<Rightarrow> audit_entry list \<times> world" where
  "read_all aj lg w =
    (case fs_open_read (al_path lg) w of
       (Inl e, w) \<Rightarrow> ([], w)
     | (Inr u, w) \<Rightarrow> (case fs_read_stream (al_path lg) w of (stream, w) \<Rightarrow> (read_entries aj stream, w)))"

definition audit_recent :: "audit_json \<Rightarrow> audit_log \<Rightarrow> nat \<Rightarrow> world \<Rightarrow> audit_entry list \<times> world" where
  "audit_recent aj lg limit w = (case read_all aj lg w of (entries, w) \<Rightarrow> (take limit (rev entries), w))"

subsection \<open>Writing\<close>

definition audit_line :: "audit_json \<Rightarrow> audit_entry \<Rightarrow> io_error + bytes" where
  "audit_line aj e = (case aj_to_vec aj e of None \<Rightarrow> Inl invalid_data | Some t \<Rightarrow> Inr (t @ [LF]))"

text \<open>The loop of \<open>trim_if_needed\<close> over the newest entries, with the lines kept and their bytes.\<close>

fun trim_lines ::
    "audit_json \<Rightarrow> nat \<Rightarrow> audit_entry list \<Rightarrow> bytes list \<Rightarrow> nat \<Rightarrow> io_error + bytes list" where
  "trim_lines aj budget [] ls n = Inr ls"
| "trim_lines aj budget (e # es) ls n =
    then_ok (audit_line aj e) (\<lambda>l.
      if ls \<noteq> [] \<and> n + length l > budget then Inr ls
      else trim_lines aj budget es (ls @ [l]) (n + length l))"

definition trim_if_needed :: "audit_json \<Rightarrow> audit_log \<Rightarrow> (io_error, unit) io" where
  "trim_if_needed aj lg =
    io_bind (fs_metadata_len (al_path lg)) (\<lambda>size.
    if size \<le> al_trim_threshold_bytes lg then io_return ()
    else
      io_bind (io_get (read_all aj lg)) (\<lambda>entries.
      let budget = al_trim_threshold_bytes lg div 2 in
      io_bind (io_of (trim_lines aj budget (take (al_retain lg) (rev entries)) [] 0)) (\<lambda>ls.
      if length ls \<ge> length entries then io_return ()
      else
        let buffer = concat (rev ls); temp = with_extension (al_path lg) ''jsonl.tmp'' in
        io_bind (fs_open_truncate temp PRIVATE_MODE) (\<lambda>_.
        io_bind (fs_write_all temp buffer) (\<lambda>_.
        fs_rename temp (al_path lg))))))"

definition audit_append :: "audit_json \<Rightarrow> audit_log \<Rightarrow> audit_entry \<Rightarrow> (io_error, unit) io" where
  "audit_append aj lg entry =
    io_bind (case parent_of (al_path lg) of None \<Rightarrow> io_return () | Some parent \<Rightarrow> fs_create_dir_all parent) (\<lambda>_.
    io_bind (io_of (audit_line aj entry)) (\<lambda>line.
    io_bind (fs_open_append (al_path lg) PRIVATE_MODE) (\<lambda>_.
    io_bind (fs_write_all (al_path lg) line) (\<lambda>_.
    trim_if_needed aj lg))))"

subsection \<open>What a well-formed log reads as\<close>

definition log_of :: "audit_json \<Rightarrow> audit_entry list \<Rightarrow> bytes" where
  "log_of aj es = concat (map (\<lambda>e. the (aj_to_vec aj e) @ [LF]) es)"

definition writable :: "audit_json \<Rightarrow> audit_entry list \<Rightarrow> bool" where
  "writable aj es \<longleftrightarrow> (\<forall>e \<in> set es. aj_to_vec aj e \<noteq> None)"

lemma log_of_simps [simp]:
  "log_of aj [] = []"
  "log_of aj (e # es) = the (aj_to_vec aj e) @ LF # log_of aj es"
  "log_of aj (es @ fs) = log_of aj es @ log_of aj fs"
  by (simp_all add: log_of_def)

lemma read_entries_simps:
  "read_entries aj ([], broken) = []"
  "LF \<notin> set t \<Longrightarrow> read_entries aj (t, True) = []"
  "LF \<notin> set t \<Longrightarrow> from_utf8 (strip_return (t, True)) = None \<Longrightarrow> read_entries aj (t @ LF # rest, broken) = []"
  "LF \<notin> set t \<Longrightarrow> from_utf8 (strip_return (t, True)) = Some s \<Longrightarrow> aj_from_str aj s = Some e \<Longrightarrow>
     read_entries aj (t @ LF # rest, broken) = e # read_entries aj (rest, broken)"
  by (simp_all add: read_entries_def raw_lines_absent raw_lines_ended map_filter_simps Let_def)

lemma read_log_append:
  assumes "audit_json_ok aj"
  shows "writable aj es \<Longrightarrow> read_entries aj (log_of aj es @ rest, broken) = es @ read_entries aj (rest, broken)"
proof (induction es)
  case (Cons e es)
  then obtain t where t: "aj_to_vec aj e = Some t" by (auto simp: writable_def)
  then obtain s where "LF \<notin> set t" "last t \<noteq> CR" "from_utf8 t = Some s" "aj_from_str aj s = Some e"
    using assms unfolding audit_json_ok_def by blast
  then have "read_entries aj (t @ LF # log_of aj es @ rest, broken) = e # read_entries aj (log_of aj es @ rest, broken)"
    by (intro read_entries_simps) (simp_all add: strip_return_def)
  with Cons t show ?case by (simp add: writable_def)
qed simp

lemma read_log:
  assumes "audit_json_ok aj" and "writable aj es"
  shows "read_entries aj (log_of aj es, broken) = es"
  using read_log_append [OF assms, of "[]" broken] by (simp add: read_entries_simps)

text \<open>A reading that an error ends after some bytes gives the entries whose lines were read in full.\<close>

lemma read_log_cut:
  assumes "audit_json_ok aj"
  shows "writable aj es \<Longrightarrow> \<exists>m. read_entries aj (take n (log_of aj es), True) = take m es"
proof (induction es arbitrary: n)
  case (Cons e es)
  then obtain t where t: "aj_to_vec aj e = Some t" by (auto simp: writable_def)
  then have lf: "LF \<notin> set t" using assms by (auto simp: audit_json_ok_def)
  show ?case
  proof (cases "n \<le> length t")
    case True
    then have "read_entries aj (take n (log_of aj (e # es)), True) = []"
      using t read_entries_simps(2) [of "take n t"] lf by (auto dest: in_set_takeD)
    then show ?thesis by (metis take0)
  next
    case False
    then have c: "take n (log_of aj (e # es)) = log_of aj [e] @ take (n - length t - 1) (log_of aj es)"
      using t by (simp add: take_Cons')
    obtain m where "read_entries aj (take (n - length t - 1) (log_of aj es), True) = take m es"
      using Cons by (auto simp: writable_def)
    then have "read_entries aj (take n (log_of aj (e # es)), True) = take (Suc m) (e # es)"
      using read_log_append [OF assms, of "[e]"] Cons.prems unfolding c by (simp add: writable_def)
    then show ?thesis by blast
  qed
qed (simp add: read_entries_simps)

subsection \<open>What trimming keeps\<close>

abbreviation newest :: "nat \<Rightarrow> 'a list \<Rightarrow> 'a list" where
  "newest m xs \<equiv> drop (length xs - m) xs"

lemma log_of_rev: "concat (rev (map (\<lambda>e. the (aj_to_vec aj e) @ [LF]) xs)) = log_of aj (rev xs)"
  by (simp add: log_of_def rev_map)

lemma audit_line_writable: "writable aj (e # es) \<Longrightarrow> audit_line aj e = Inr (the (aj_to_vec aj e) @ [LF])"
  by (auto simp: writable_def audit_line_def)

lemma trim_lines_keeps:
  assumes "writable aj es"
  shows "\<exists>k \<le> length es. trim_lines aj budget es ls n = Inr (ls @ map (\<lambda>e. the (aj_to_vec aj e) @ [LF]) (take k es)) \<and>
    (ls = [] \<and> es \<noteq> [] \<longrightarrow> 0 < k) \<and>
    (n + length (log_of aj (take k es)) \<le> budget \<or> k = 0 \<or> ls = [] \<and> k = 1)"
  using assms
proof (induction es arbitrary: ls n)
  case (Cons e es)
  let ?l = "the (aj_to_vec aj e) @ [LF]"
  note line = audit_line_writable [OF Cons.prems]
  show ?case
  proof (cases "ls \<noteq> [] \<and> n + length ?l > budget")
    case True
    then show ?thesis by (intro exI [of _ 0]) (auto simp: line)
  next
    case False
    obtain k where k: "k \<le> length es" "trim_lines aj budget es (ls @ [?l]) (n + length ?l) =
        Inr ((ls @ [?l]) @ map (\<lambda>e. the (aj_to_vec aj e) @ [LF]) (take k es))"
      "n + length ?l + length (log_of aj (take k es)) \<le> budget \<or> k = 0"
      using Cons.IH [of "ls @ [?l]" "n + length ?l"] Cons.prems by (auto simp: writable_def)
    have "trim_lines aj budget (e # es) ls n
        = Inr (ls @ map (\<lambda>e. the (aj_to_vec aj e) @ [LF]) (take (Suc k) (e # es)))"
      using False k(2) by (simp add: line)
    moreover have "n + length (log_of aj (take (Suc k) (e # es))) \<le> budget \<or> ls = [] \<and> Suc k = 1"
      using k(3) False by auto
    ultimately show ?thesis using k(1) by (intro exI [of _ "Suc k"]) auto
  qed
qed simp

text \<open>The loop over the newest \<open>retain\<close> entries, in file order: a count and what it keeps.\<close>

lemma trim_keeps_newest:
  assumes "writable aj es"
  shows "\<exists>k ls. trim_lines aj budget (take r (rev es)) [] 0 = Inr ls \<and> length ls = k \<and> k \<le> length es \<and> k \<le> r \<and>
    concat (rev ls) = log_of aj (newest k es) \<and> (0 < r \<and> es \<noteq> [] \<longrightarrow> 0 < k) \<and>
    (length (log_of aj (newest k es)) \<le> budget \<or> k \<le> 1)"
proof -
  have "writable aj (take r (rev es))" using assms by (auto simp: writable_def dest: in_set_takeD)
  from trim_lines_keeps [OF this, of budget "[]" 0] obtain k where
    k: "k \<le> length (take r (rev es))" and
    ls: "trim_lines aj budget (take r (rev es)) [] 0 =
      Inr (map (\<lambda>e. the (aj_to_vec aj e) @ [LF]) (take k (take r (rev es))))" and
    pos: "take r (rev es) \<noteq> [] \<longrightarrow> 0 < k" and
    size: "length (log_of aj (take k (take r (rev es)))) \<le> budget \<or> k \<le> 1" by force
  have tk: "take k (take r (rev es)) = take k (rev es)" using k by (simp add: min.absorb1)
  have rv: "rev (take k (rev es)) = newest k es" by (simp add: rev_take)
  have len: "length (log_of aj (take k (rev es))) = length (log_of aj (newest k es))"
    by (simp flip: rv add: log_of_def length_concat rev_map [symmetric] sum_list_rev)
  show ?thesis
    using k ls pos size len rv by (intro exI [of _ k] exI conjI, unfold tk) (auto simp: log_of_rev)
qed

subsection \<open>A log on a disk that works\<close>

definition audit_content :: "audit_log \<Rightarrow> world \<Rightarrow> bytes" where
  "audit_content lg w = (case w_files w (al_path lg) of None \<Rightarrow> [] | Some f \<Rightarrow> fl_content f)"

definition audit_temp :: "audit_log \<Rightarrow> path" where
  "audit_temp lg = with_extension (al_path lg) ''jsonl.tmp''"

lemma audit_temp_neq [simp]: "audit_temp lg \<noteq> al_path lg" "al_path lg \<noteq> audit_temp lg"
  using with_extension_neq [of "''jsonl.tmp''" "al_path lg"] by (auto simp: audit_temp_def)

lemmas fs_defs = w_call_def w_put_def fs_append_def fs_open_append_def fs_open_truncate_def fs_metadata_len_def
  fs_open_read_def fs_read_stream_def fs_write_all_def fs_rename_def fs_create_dir_all_def

lemma read_all_steady:
  "w_faults w = [] \<Longrightarrow> read_all aj lg w = (read_entries aj (audit_content lg w, False), w)"
  by (simp add: read_all_def fs_defs audit_content_def read_entries_simps split: option.splits)

lemma audit_recent_steady:
  "w_faults w = [] \<Longrightarrow> audit_recent aj lg n w = (take n (rev (read_entries aj (audit_content lg w, False))), w)"
  by (simp add: audit_recent_def read_all_steady)

text \<open>An append before it comes to the trimming.\<close>

definition with_line :: "audit_log \<Rightarrow> bytes \<Rightarrow> world \<Rightarrow> world" where
  "with_line lg l w = w_put (al_path lg)
    \<lparr>fl_content = audit_content lg w @ l,
     fl_mode = (case w_files w (al_path lg) of None \<Rightarrow> PRIVATE_MODE AND w_new_mode w | Some f \<Rightarrow> fl_mode f)\<rparr> w"

lemma with_line_simps [simp]:
  "w_faults (with_line lg l w) = w_faults w"
  "audit_content lg (with_line lg l w) = audit_content lg w @ l"
  "w_files (with_line lg l w) (al_path lg) \<noteq> None"
  by (simp_all add: with_line_def w_put_def audit_content_def)

lemma set_content: "f\<lparr>fl_content := c\<rparr> = \<lparr>fl_content = c, fl_mode = fl_mode f\<rparr>"
  by (cases f) simp

lemma audit_append_steady:
  assumes "w_faults w = []" and "writable aj [e]"
  shows "audit_append aj lg e w = trim_if_needed aj lg (with_line lg (log_of aj [e]) w)"
  using assms audit_line_writable [of aj e "[]"]
  by (auto simp: audit_append_def io_defs fs_defs with_line_def audit_content_def set_content split: option.splits)

lemma trim_below:
  assumes "w_faults w = []" and "w_files w (al_path lg) \<noteq> None"
    and "length (audit_content lg w) \<le> al_trim_threshold_bytes lg"
  shows "trim_if_needed aj lg w = (Inr (), w)"
  using assms by (auto simp: trim_if_needed_def io_defs fs_defs audit_content_def)

definition rotate_log :: "audit_log \<Rightarrow> bytes \<Rightarrow> (io_error, unit) io" where
  "rotate_log lg buffer =
    io_bind (fs_open_truncate (audit_temp lg) PRIVATE_MODE) (\<lambda>_.
    io_bind (fs_write_all (audit_temp lg) buffer) (\<lambda>_.
    fs_rename (audit_temp lg) (al_path lg)))"

lemma rotate_log_steady:
  assumes "w_faults w = []"
  shows "\<exists>w'. rotate_log lg buffer w = (Inr (), w') \<and> w_faults w' = [] \<and> audit_content lg w' = buffer"
  using assms by (auto simp: rotate_log_def io_defs fs_defs audit_content_def split: option.splits)

lemma trim_steps: "trim_if_needed aj lg =
    io_bind (fs_metadata_len (al_path lg)) (\<lambda>size.
    if size \<le> al_trim_threshold_bytes lg then io_return ()
    else
      io_bind (io_get (read_all aj lg)) (\<lambda>entries.
      io_bind (io_of (trim_lines aj (al_trim_threshold_bytes lg div 2) (take (al_retain lg) (rev entries)) [] 0)) (\<lambda>ls.
      if length ls \<ge> length entries then io_return () else rotate_log lg (concat (rev ls)))))"
  unfolding trim_if_needed_def rotate_log_def audit_temp_def Let_def ..

lemma trim_above:
  assumes "w_faults w = []" and "w_files w (al_path lg) = Some f" and "fl_content f = log_of aj es"
    and "audit_json_ok aj" and "writable aj es" and "length (log_of aj es) > al_trim_threshold_bytes lg"
    and "trim_lines aj (al_trim_threshold_bytes lg div 2) (take (al_retain lg) (rev es)) [] 0 = Inr ls"
    and "length ls < length es"
  shows "\<exists>w'. trim_if_needed aj lg w = (Inr (), w') \<and> w_faults w' = [] \<and> audit_content lg w' = concat (rev ls)"
  using assms read_log [OF assms(4,5)] rotate_log_steady [OF assms(1), of lg "concat (rev ls)"]
  by (simp add: trim_steps io_defs fs_metadata_len_def w_call_def read_all_steady audit_content_def)

lemma trim_exact:
  assumes "w_faults w = []" and "w_files w (al_path lg) \<noteq> None" and "audit_content lg w = log_of aj es"
    and "audit_json_ok aj" and "writable aj es" and "0 < al_retain lg" and "es \<noteq> []"
  shows "\<exists>m w'. trim_if_needed aj lg w = (Inr (), w') \<and> w_faults w' = [] \<and> 0 < m \<and> m \<le> length es \<and>
    audit_content lg w' = log_of aj (newest m es) \<and>
    (length (log_of aj es) \<le> al_trim_threshold_bytes lg \<longrightarrow> m = length es) \<and>
    (length (log_of aj (newest m es)) \<le> al_trim_threshold_bytes lg \<or> m = 1)"
proof (cases "length (log_of aj es) \<le> al_trim_threshold_bytes lg")
  case True
  then show ?thesis using trim_below [OF assms(1,2), of aj] assms(1,3,7)
    by (intro exI [of _ "length es"] exI [of _ w]) simp
next
  case False
  obtain f where f: "w_files w (al_path lg) = Some f" "fl_content f = log_of aj es"
    using assms(2,3) by (auto simp: audit_content_def)
  obtain k ls where k: "trim_lines aj (al_trim_threshold_bytes lg div 2) (take (al_retain lg) (rev es)) [] 0 = Inr ls"
    "length ls = k" "k \<le> length es" "concat (rev ls) = log_of aj (newest k es)" "0 < k"
    "length (log_of aj (newest k es)) \<le> al_trim_threshold_bytes lg div 2 \<or> k \<le> 1"
    using trim_keeps_newest [OF assms(5), of "al_trim_threshold_bytes lg div 2" "al_retain lg"] assms(6,7) by blast
  show ?thesis
  proof (cases "k < length es")
    case True
    then obtain w' where "trim_if_needed aj lg w = (Inr (), w')" "w_faults w' = []"
      "audit_content lg w' = concat (rev ls)"
      using trim_above [OF assms(1) f assms(4,5) _ k(1)] k(2) False by auto
    then show ?thesis using k False by (intro exI [of _ k] exI [of _ w']) auto
  next
    case all: False
    then have "k = length es" using k(3) by simp
    moreover have "trim_if_needed aj lg w = (Inr (), w)"
      using assms(1) f False k(1,2) \<open>k = length es\<close> read_log [OF assms(4,5)]
      by (simp add: trim_steps io_defs fs_metadata_len_def w_call_def read_all_steady audit_content_def)
    ultimately show ?thesis using k(5,6) False assms(1,3)
      by (intro exI [of _ k] exI [of _ w]) (auto simp: le_Suc_eq)
  qed
qed

lemma audit_append_exact:
  assumes "w_faults w = []" and "audit_content lg w = log_of aj es" and "audit_json_ok aj"
    and "writable aj (es @ [e])" and "0 < al_retain lg"
  shows "\<exists>m w'. audit_append aj lg e w = (Inr (), w') \<and> w_faults w' = [] \<and> 0 < m \<and> m \<le> length (es @ [e]) \<and>
    audit_content lg w' = log_of aj (newest m (es @ [e])) \<and>
    (length (log_of aj (es @ [e])) \<le> al_trim_threshold_bytes lg \<longrightarrow> m = length (es @ [e])) \<and>
    (length (log_of aj (newest m (es @ [e]))) \<le> al_trim_threshold_bytes lg \<or> m = 1)"
proof -
  have e: "writable aj [e]" using assms(4) by (auto simp: writable_def)
  show ?thesis
    unfolding audit_append_steady [OF assms(1) e]
    by (rule trim_exact) (use assms in simp_all)
qed

lemma recent_of_log:
  assumes "audit_json_ok aj" and "writable aj es" and "w_faults w = []" and "audit_content lg w = log_of aj (newest m es)"
  shows "fst (audit_recent aj lg n w) = take (min n m) (rev es)"
proof -
  have "writable aj (newest m es)" using assms(2) by (auto simp: writable_def dest: in_set_dropD)
  then show ?thesis
    by (cases "m \<le> length es") (simp_all add: audit_recent_steady assms(3,4) read_log [OF assms(1)] rev_drop min_def)
qed

subsection \<open>A log on a disk whose calls fail\<close>

text \<open>
  Whatever fails, the file holds the old entries and at most a part of the new line, or, after a
  trim, some of the newest of the entries that trim could read; the log and its temporary file stay
  private.
\<close>

definition audit_left :: "audit_json \<Rightarrow> audit_log \<Rightarrow> audit_entry list \<Rightarrow> audit_entry \<Rightarrow> world \<Rightarrow> bool" where
  "audit_left aj lg es e w \<longleftrightarrow>
    (\<exists>n. audit_content lg w = log_of aj es @ take n (log_of aj [e])) \<or>
    (\<exists>k m. 0 < k \<and> k \<le> al_retain lg \<and> k < m \<and> m \<le> length (es @ [e]) \<and>
      audit_content lg w = log_of aj (newest k (take m (es @ [e]))))"

definition private_at :: "path \<Rightarrow> world \<Rightarrow> bool" where
  "private_at p w \<longleftrightarrow> (\<forall>f. w_files w p = Some f \<longrightarrow> fl_mode f AND 0x3F = 0)"

definition audit_private :: "audit_log \<Rightarrow> world \<Rightarrow> bool" where
  "audit_private lg w \<longleftrightarrow> private_at (al_path lg) w \<and> private_at (audit_temp lg) w"

definition log_state :: "audit_log \<Rightarrow> bytes \<Rightarrow> world \<Rightarrow> bool" where
  "log_state lg c w \<longleftrightarrow> audit_private lg w \<and> audit_content lg w = c"

definition log_open :: "audit_log \<Rightarrow> bytes \<Rightarrow> world \<Rightarrow> bool" where
  "log_open lg c w \<longleftrightarrow> log_state lg c w \<and> w_files w (al_path lg) \<noteq> None"

lemma private_mask: "(PRIVATE_MODE AND x) AND 0x3F = (0 :: nat)"
proof -
  have "(PRIVATE_MODE AND x) AND 0x3F = (PRIVATE_MODE AND 0x3F) AND x" by (simp only: ac_simps)
  also have "PRIVATE_MODE AND 0x3F = 0" by (simp add: PRIVATE_MODE_def)
  finally show ?thesis by simp
qed

lemmas log_state_defs = log_state_def log_open_def audit_private_def private_at_def audit_content_def

lemma log_open_triples:
  "io_triple (log_state lg c) (fs_create_dir_all p) (\<lambda>_. log_state lg c) (log_state lg c)"
  "io_triple (log_state lg c) (fs_open_append (al_path lg) PRIVATE_MODE) (\<lambda>_. log_open lg c) (log_state lg c)"
  "io_triple (log_open lg c) (fs_write_all (al_path lg) l) (\<lambda>_. log_open lg (c @ l))
     (\<lambda>w. \<exists>n. log_state lg (c @ take n l) w)"
  "io_triple (log_open lg c) (fs_open_truncate (audit_temp lg) PRIVATE_MODE)
     (\<lambda>_ w. log_open lg c w \<and> (\<exists>f. w_files w (audit_temp lg) = Some f \<and> fl_content f = [])) (log_state lg c)"
  "io_triple (\<lambda>w. log_open lg c w \<and> (\<exists>f. w_files w (audit_temp lg) = Some f \<and> fl_content f = []))
     (fs_write_all (audit_temp lg) l)
     (\<lambda>_ w. log_open lg c w \<and> (\<exists>f. w_files w (audit_temp lg) = Some f \<and> fl_content f = l)) (log_state lg c)"
  "io_triple (\<lambda>w. log_open lg c w \<and> (\<exists>f. w_files w (audit_temp lg) = Some f \<and> fl_content f = l))
     (fs_rename (audit_temp lg) (al_path lg)) (\<lambda>_. log_state lg l) (log_state lg c)"
  by (rule io_tripleI; auto simp: fs_defs log_state_defs private_mask split: list.splits option.splits if_splits)+

lemma rotate_triple:
  "io_triple (log_open lg c) (rotate_log lg l) (\<lambda>_. log_state lg l) (log_state lg c)"
  unfolding rotate_log_def
  by (rule io_triple_bind [OF log_open_triples(4)], rule io_triple_bind [OF log_open_triples(5)],
      rule log_open_triples(6))

lemma open_read_keeps: "fs_open_read p w = (r, w') \<Longrightarrow> w_files w' = w_files w"
  by (auto simp: fs_open_read_def w_call_def split: list.splits option.splits)

lemma read_stream_keeps:
  assumes "fs_read_stream (al_path lg) w = (stream, w')"
  shows "w_files w' = w_files w \<and>
    (stream = (audit_content lg w, False) \<or> (\<exists>n. stream = (take n (audit_content lg w), True)))"
  using assms
  by (auto simp: fs_read_stream_def audit_content_def Let_def split: list.splits option.splits)

lemma read_all_keeps:
  assumes "read_all aj lg w = (es, w')" and "audit_json_ok aj" and "writable aj xs"
    and "audit_content lg w = log_of aj xs"
  shows "w_files w' = w_files w \<and> (\<exists>m. es = take m xs)"
proof (cases "fs_open_read (al_path lg) w")
  case (Pair r w1)
  have f: "w_files w1 = w_files w" by (rule open_read_keeps [OF Pair])
  then have c: "audit_content lg w1 = log_of aj xs" using assms(4) by (simp add: audit_content_def)
  show ?thesis
  proof (cases r)
    case (Inl e)
    then show ?thesis using assms(1) f Pair by (auto simp: read_all_def intro: exI [of _ 0])
  next
    case (Inr u)
    obtain stream w2 where s: "fs_read_stream (al_path lg) w1 = (stream, w2)" by fastforce
    have "xs = take (length xs) xs" by simp
    then have "\<exists>m. read_entries aj stream = take m xs"
      using read_stream_keeps [OF s] read_log [OF assms(2,3)] read_log_cut [OF assms(2,3)] unfolding c by metis
    then show ?thesis using assms(1) read_stream_keeps [OF s] f by (simp add: read_all_def Pair Inr s)
  qed
qed

lemma read_all_triple:
  assumes "audit_json_ok aj" and "writable aj xs"
  shows "io_triple (log_open lg (log_of aj xs)) (io_get (read_all aj lg))
    (\<lambda>es w. log_open lg (log_of aj xs) w \<and> (\<exists>m. es = take m xs)) E"
proof (rule io_tripleI)
  fix w es w'
  assume p: "log_open lg (log_of aj xs) w" and r: "io_get (read_all aj lg) w = (Inr es, w')"
  have "w_files w' = w_files w \<and> (\<exists>m. es = take m xs)"
    using read_all_keeps [OF _ assms, of lg w es w'] r p by (auto simp: io_get_iff log_open_def log_state_def)
  then show "log_open lg (log_of aj xs) w' \<and> (\<exists>m. es = take m xs)" using p by (simp add: log_state_defs)
qed (simp add: io_get_def split: prod.splits)

lemma metadata_triple: "io_triple (log_open lg c) (fs_metadata_len (al_path lg)) (\<lambda>_. log_open lg c) (log_state lg c)"
  by (rule io_tripleI) (auto simp: fs_defs log_state_defs split: list.splits option.splits)

text \<open>What a trim leaves of these entries: all, or the newest few of those it read.\<close>

definition trim_left :: "audit_json \<Rightarrow> audit_log \<Rightarrow> audit_entry list \<Rightarrow> world \<Rightarrow> bool" where
  "trim_left aj lg xs w \<longleftrightarrow> log_state lg (log_of aj xs) w \<or>
    (\<exists>k m. 0 < k \<and> k \<le> al_retain lg \<and> k < m \<and> m \<le> length xs \<and> log_state lg (log_of aj (newest k (take m xs))) w)"

lemma trim_triple:
  assumes "audit_json_ok aj" and "writable aj xs" and "0 < al_retain lg"
  shows "io_triple (log_open lg (log_of aj xs)) (trim_if_needed aj lg) (\<lambda>_. trim_left aj lg xs) (log_state lg (log_of aj xs))"
    (is "io_triple ?P _ (\<lambda>_. ?Q) ?E")
proof -
  have all: "?Q w" if "log_open lg (log_of aj xs) w" for w
    using that by (simp add: log_open_def trim_left_def)
  have rest: "io_triple (\<lambda>w. ?P w \<and> (\<exists>m. es = take m xs))
     (io_bind (io_of (trim_lines aj (al_trim_threshold_bytes lg div 2) (take (al_retain lg) (rev es)) [] 0)) (\<lambda>ls.
      if length ls \<ge> length es then io_return () else rotate_log lg (concat (rev ls)))) (\<lambda>_. ?Q) ?E" for es
  proof (cases "\<exists>m. es = take m xs")
    case True
    then obtain m where m: "es = take m xs" "m \<le> length xs" by (metis nat_le_linear take_all)
    then have "writable aj es" using assms(2) by (auto simp: writable_def dest: in_set_takeD)
    from trim_keeps_newest [OF this, of "al_trim_threshold_bytes lg div 2" "al_retain lg"] assms(3) obtain k ls where
      ls: "trim_lines aj (al_trim_threshold_bytes lg div 2) (take (al_retain lg) (rev es)) [] 0 = Inr ls"
      and k: "length ls = k" "k \<le> al_retain lg" "concat (rev ls) = log_of aj (newest k es)" "es \<noteq> [] \<longrightarrow> 0 < k" by blast
    have "io_triple ?P (rotate_log lg (concat (rev ls))) (\<lambda>_. ?Q) ?E" if "k < length es"
      unfolding k(3)
    proof (rule io_triple_weaken [OF rotate_triple])
      fix w assume "log_state lg (log_of aj (newest k es)) w"
      with k(2,4) that m show "?Q w" unfolding trim_left_def
        by (intro disjI2 exI [of _ k] exI [of _ m]) auto
    qed
    then show ?thesis
      using True all k(1) by (auto simp: io_triple_def io_bind_def io_of_def ls io_return_def)
  qed (simp add: io_triple_def)
  show ?thesis
    unfolding trim_steps
  proof (rule io_triple_bind [OF metadata_triple])
    fix size
    show "io_triple ?P (if size \<le> al_trim_threshold_bytes lg then io_return () else
      io_bind (io_get (read_all aj lg)) (\<lambda>entries.
      io_bind (io_of (trim_lines aj (al_trim_threshold_bytes lg div 2) (take (al_retain lg) (rev entries)) [] 0)) (\<lambda>ls.
      if length ls \<ge> length entries then io_return () else rotate_log lg (concat (rev ls))))) (\<lambda>_. ?Q) ?E"
      using io_triple_bind [OF read_all_triple [OF assms(1,2)] rest] all by (simp add: io_return_weak)
  qed
qed

lemma audit_append_triple:
  assumes "audit_json_ok aj" and "writable aj (es @ [e])" and "0 < al_retain lg"
  shows "io_triple (log_state lg (log_of aj es)) (audit_append aj lg e)
    (\<lambda>_ w. audit_private lg w \<and> audit_left aj lg es e w) (\<lambda>w. audit_private lg w \<and> audit_left aj lg es e w)"
    (is "io_triple ?P _ ?Q ?E")
proof -
  have line: "audit_line aj e = Inr (log_of aj [e])"
    using assms(2) audit_line_writable [of aj e "[]"] by (simp add: writable_def)
  have old: "log_state lg (log_of aj es) w \<Longrightarrow> ?E w" for w
    unfolding log_state_def audit_left_def by (metis append.right_neutral take0)
  have new: "log_state lg (log_of aj (es @ [e])) w \<Longrightarrow> ?E w" for w
    unfolding log_state_def audit_left_def by (metis log_of_simps(3) order_refl take_all)
  have torn: "\<exists>n. log_state lg (log_of aj es @ take n (log_of aj [e])) w \<Longrightarrow> ?E w" for w
    unfolding log_state_def audit_left_def by blast
  have run: "trim_left aj lg (es @ [e]) w \<Longrightarrow> ?E w" for w
    using new unfolding trim_left_def log_state_def audit_left_def by blast
  have "io_triple (log_open lg (log_of aj (es @ [e]))) (trim_if_needed aj lg) ?Q ?E"
    by (rule io_triple_weaken [OF trim_triple [OF assms]]) (rule run, assumption, rule new)
  moreover have "io_triple (log_open lg (log_of aj es)) (fs_write_all (al_path lg) (log_of aj [e]))
      (\<lambda>_. log_open lg (log_of aj (es @ [e]))) ?E"
    by (rule io_triple_weaken [OF log_open_triples(3)]) (simp, rule torn)
  ultimately have "io_triple (log_open lg (log_of aj es))
      (io_bind (fs_write_all (al_path lg) (log_of aj [e])) (\<lambda>_. trim_if_needed aj lg)) ?Q ?E"
    by (rule io_triple_bind [rotated])
  moreover have "io_triple ?P (fs_open_append (al_path lg) PRIVATE_MODE) (\<lambda>_. log_open lg (log_of aj es)) ?E"
    by (rule io_triple_weaken [OF log_open_triples(2)], assumption, rule old)
  ultimately have "io_triple ?P (io_bind (fs_open_append (al_path lg) PRIVATE_MODE) (\<lambda>_.
      io_bind (fs_write_all (al_path lg) (log_of aj [e])) (\<lambda>_. trim_if_needed aj lg))) ?Q ?E"
    by (rule io_triple_bind [rotated])
  then have body: "io_triple ?P (io_bind (io_of (audit_line aj e)) (\<lambda>line.
      io_bind (fs_open_append (al_path lg) PRIVATE_MODE) (\<lambda>_.
      io_bind (fs_write_all (al_path lg) line) (\<lambda>_. trim_if_needed aj lg)))) ?Q ?E"
    by (simp add: io_triple_def line io_bind_def [of "io_of _"] io_of_def)
  have "io_triple ?P (case parent_of (al_path lg) of None \<Rightarrow> io_return () | Some parent \<Rightarrow> fs_create_dir_all parent)
      (\<lambda>_. ?P) ?E"
  proof (cases "parent_of (al_path lg)")
    case (Some p)
    have "io_triple ?P (fs_create_dir_all p) (\<lambda>_. ?P) ?E"
      by (rule io_triple_weaken [OF log_open_triples(1)], assumption, rule old)
    then show ?thesis by (simp add: Some)
  qed (simp add: io_return_weak)
  from io_triple_bind [OF this body] show ?thesis by (simp add: audit_append_def)
qed

subsection \<open>What a broken line and a broken reading cost\<close>

text \<open>After a line that is not UTF-8 nothing is read, however often the log is appended to.\<close>

fun audit_appends :: "audit_json \<Rightarrow> audit_log \<Rightarrow> audit_entry list \<Rightarrow> world \<Rightarrow> world" where
  "audit_appends aj lg [] w = w"
| "audit_appends aj lg (e # es) w = audit_appends aj lg es (snd (audit_append aj lg e w))"

lemma audit_appends_content:
  assumes "w_faults w = []" and "writable aj es"
    and "length (audit_content lg w) + length (log_of aj es) \<le> al_trim_threshold_bytes lg"
  shows "w_faults (audit_appends aj lg es w) = [] \<and>
    audit_content lg (audit_appends aj lg es w) = audit_content lg w @ log_of aj es"
  using assms
proof (induction es arbitrary: w)
  case (Cons e es)
  have "writable aj [e]" using Cons.prems(2) by (simp add: writable_def)
  from audit_append_steady [OF Cons.prems(1) this, of lg]
  have "audit_append aj lg e w = (Inr (), with_line lg (log_of aj [e]) w)"
    using Cons.prems trim_below [of "with_line lg (log_of aj [e]) w" lg aj] by simp
  then show ?case
    using Cons.IH [of "with_line lg (log_of aj [e]) w"] Cons.prems by (simp add: writable_def)
qed simp

lemma torn_line_blinds:
  assumes "audit_json_ok aj" and "writable aj (es @ e # later)" and "w_faults w = []"
    and "audit_content lg w = log_of aj es @ torn" and "LF \<notin> set torn"
    and "from_utf8 (torn @ the (aj_to_vec aj e)) = None"
    and "length (audit_content lg w) + length (log_of aj (e # later)) \<le> al_trim_threshold_bytes lg"
  shows "fst (audit_recent aj lg n (audit_appends aj lg (e # later) w)) = take n (rev es)"
proof -
  let ?w = "audit_appends aj lg (e # later) w" and ?t = "torn @ the (aj_to_vec aj e)"
  have e: "writable aj es" "writable aj (e # later)" using assms(2) by (auto simp: writable_def)
  have w: "w_faults ?w = []" "audit_content lg ?w = log_of aj es @ ?t @ LF # log_of aj later"
    using audit_appends_content [OF assms(3) e(2) assms(7)] assms(4) by simp_all
  obtain t where t: "aj_to_vec aj e = Some t" using e(2) by (auto simp: writable_def)
  then have lf: "LF \<notin> set ?t" "last ?t \<noteq> CR" "?t \<noteq> []"
    using assms(1,5) by (auto simp: audit_json_ok_def)
  then have "read_entries aj (?t @ LF # log_of aj later, False) = []"
    using assms(6) by (intro read_entries_simps(3)) (simp_all add: strip_return_def)
  then have "read_entries aj (audit_content lg ?w, False) = es"
    unfolding w(2) read_log_append [OF assms(1) e(1)] by simp
  then show ?thesis by (simp only: audit_recent_steady [OF w(1)] fst_conv)
qed

text \<open>An error while the log is read for trimming is taken for its end.\<close>

lemma cut_reading_forgets:
  assumes "audit_json_ok aj" and "writable aj (es @ [e])" and "audit_content lg w = log_of aj es"
    and "parent_of (al_path lg) \<noteq> None" and "m \<le> length es"
    and "w_faults w = replicate 5 None @ [Some (err, length (log_of aj (take m es)))]"
    and "length (log_of aj (es @ [e])) > al_trim_threshold_bytes lg" and "al_retain lg < m"
  shows "\<exists>k w'. audit_append aj lg e w = (Inr (), w') \<and> w_faults w' = [] \<and> k \<le> al_retain lg \<and>
    audit_content lg w' = log_of aj (newest k (take m es))"
proof -
  let ?line = "log_of aj [e]"
  have line: "audit_line aj e = Inr ?line"
    using assms(2) audit_line_writable [of aj e "[]"] by (simp add: writable_def)
  have wm: "writable aj (take m es)" using assms(2) by (auto simp: writable_def dest: in_set_takeD)
  obtain k ls where k: "trim_lines aj (al_trim_threshold_bytes lg div 2) (take (al_retain lg) (rev (take m es))) [] 0 = Inr ls"
    "length ls = k" "k \<le> al_retain lg" "concat (rev ls) = log_of aj (newest k (take m es))"
    using trim_keeps_newest [OF wm] by blast
  have len: "length (take m es) = m" using assms(5) by simp
  define w4 where "w4 = with_line lg ?line (w\<lparr>w_faults := [None, None, Some (err, length (log_of aj (take m es)))]\<rparr>)"
  have w4: "audit_append aj lg e w = trim_if_needed aj lg w4"
    using assms(4,6) line
    by (auto simp: audit_append_def io_defs fs_defs with_line_def audit_content_def set_content w4_def
        numeral_eq_Suc split: option.splits)
  obtain f where f: "w_files w4 (al_path lg) = Some f" "fl_content f = log_of aj (es @ [e])"
    using assms(3) by (simp add: w4_def with_line_def w_put_def audit_content_def)
  have "take (length (log_of aj (take m es))) (log_of aj (es @ [e])) = log_of aj (take m es)"
    by (metis append_eq_conv_conj append_take_drop_id log_of_simps(3) append.assoc)
  then have "read_all aj lg (w4\<lparr>w_faults := [None, Some (err, length (log_of aj (take m es)))]\<rparr>) = (take m es, w4\<lparr>w_faults := []\<rparr>)"
    using f read_log [OF assms(1) wm] by (simp add: read_all_def fs_defs)
  then have "trim_if_needed aj lg w4 = rotate_log lg (concat (rev ls)) (w4\<lparr>w_faults := []\<rparr>)"
    using f assms(7,8) k(1-3) len
    by (simp add: trim_steps io_defs fs_metadata_len_def w_call_def w4_def)
  then show ?thesis
    using w4 k(3,4) rotate_log_steady [of "w4\<lparr>w_faults := []\<rparr>" lg "concat (rev ls)"] by auto
qed

end
