(* ===== verification/Password.thy ===== *)
theory Password
  imports Prelude "HOL-Library.Monad_Syntax"
begin

text \<open>
  The password and passphrase generator of \<open>phone-auth-agent/src/password.rs\<close>. The random generator
  is the list of the 64-bit numbers it is about to give; where the list ends the program panics,
  and \<open>None\<close> stands for that. Every password a policy allows comes from equally many draws.
\<close>

subsection \<open>Policies\<close>

definition LOWERCASE :: string where "LOWERCASE = ''abcdefghijklmnopqrstuvwxyz''"
definition UPPERCASE :: string where "UPPERCASE = ''ABCDEFGHIJKLMNOPQRSTUVWXYZ''"
definition DIGITS :: string where "DIGITS = ''0123456789''"
definition SYMBOLS :: string where "SYMBOLS = ''!#$%&()*+,-.:;<=>?@[]^_{|}~''"
definition MIN_LENGTH :: nat where "MIN_LENGTH = 8"
definition MAX_LENGTH :: nat where "MAX_LENGTH = 128"

record password_policy =
  pp_length :: nat
  pp_lowercase :: bool
  pp_uppercase :: bool
  pp_digits :: bool
  pp_symbols :: bool

definition default_policy :: password_policy where
  "default_policy = \<lparr>pp_length = 20, pp_lowercase = True, pp_uppercase = True, pp_digits = True, pp_symbols = True\<rparr>"

datatype policy_error =
  NoCharacterClasses
  | LengthOutOfRange nat nat
  | TooShortForClasses nat nat

fun policy_error_text :: "policy_error \<Rightarrow> string" where
  "policy_error_text NoCharacterClasses = ''at least one character class is required''"
| "policy_error_text (LengthOutOfRange lo hi) =
    ''length must be between '' @ decimal lo @ '' and '' @ decimal hi"
| "policy_error_text (TooShortForClasses n len) =
    decimal len @ '' characters cannot contain all '' @ decimal n @ '' required classes''"

definition policy_classes :: "password_policy \<Rightarrow> string list" where
  "policy_classes p =
    (if pp_lowercase p then [LOWERCASE] else []) @ (if pp_uppercase p then [UPPERCASE] else []) @
    (if pp_digits p then [DIGITS] else []) @ (if pp_symbols p then [SYMBOLS] else [])"

definition policy_check :: "password_policy \<Rightarrow> policy_error + string list" where
  "policy_check p =
    (let classes = policy_classes p in
     if classes = [] then Inl NoCharacterClasses
     else if pp_length p < MIN_LENGTH \<or> pp_length p > MAX_LENGTH then Inl (LengthOutOfRange MIN_LENGTH MAX_LENGTH)
     else if pp_length p < length classes then Inl (TooShortForClasses (length classes) (pp_length p))
     else Inr classes)"

subsection \<open>Random indices\<close>

type_synonym draws = "u64 list"
type_synonym 'a drawn = "('a \<times> draws) option"

definition index_limit :: "nat \<Rightarrow> u64" where
  "index_limit bound = - 1 - (- 1) mod word_of_nat bound"

fun index_loop :: "nat \<Rightarrow> draws \<Rightarrow> nat drawn" where
  "index_loop bound [] = None"
| "index_loop bound (sample # rs) =
    (if sample < index_limit bound then Some (unat (sample mod word_of_nat bound), rs)
     else index_loop bound rs)"

definition index_below :: "nat \<Rightarrow> draws \<Rightarrow> nat drawn" where
  "index_below bound rs = (if bound = 0 then None else index_loop bound rs)"

subsection \<open>Passwords\<close>

fun draw_candidate :: "string \<Rightarrow> nat \<Rightarrow> draws \<Rightarrow> string drawn" where
  "draw_candidate alphabet 0 rs = Some ([], rs)"
| "draw_candidate alphabet (Suc n) rs =
    do { (i, rs) \<leftarrow> index_below (length alphabet) rs;
         (s, rs) \<leftarrow> draw_candidate alphabet n rs;
         Some (alphabet ! i # s, rs) }"

definition has_classes :: "string list \<Rightarrow> string \<Rightarrow> bool" where
  "has_classes classes s \<longleftrightarrow> list_all (\<lambda>class. list_ex (\<lambda>c. c \<in> set class) s) classes"

partial_function (option) generate_loop :: "string list \<Rightarrow> string \<Rightarrow> nat \<Rightarrow> draws \<Rightarrow> string drawn" where
  "generate_loop classes alphabet n rs =
    do { (s, rs) \<leftarrow> draw_candidate alphabet n rs;
         if has_classes classes s then Some (s, rs) else generate_loop classes alphabet n rs }"

definition generate_password :: "password_policy \<Rightarrow> draws \<Rightarrow> policy_error + string drawn" where
  "generate_password p rs =
    then_ok (policy_check p) (\<lambda>classes. Inr (generate_loop classes (concat classes) (pp_length p) rs))"

subsection \<open>Passphrases\<close>

definition EFF_WORD_COUNT :: nat where "EFF_WORD_COUNT = 7776"
definition EFF_LONGEST_WORD :: nat where "EFF_LONGEST_WORD = 9"

definition TAB :: char where "TAB = CHR 0x09"

text \<open>The word list is the text of \<open>eff_large_wordlist.txt\<close>, an argument.\<close>

definition eff_word :: "string \<Rightarrow> nat \<Rightarrow> string option" where
  "eff_word wordlist i =
    (if i < length (str_lines wordlist) then map_option snd (split_once TAB (str_lines wordlist ! i)) else None)"

fun passphrase_loop :: "string \<Rightarrow> string \<Rightarrow> nat list \<Rightarrow> string \<Rightarrow> draws \<Rightarrow> string drawn" where
  "passphrase_loop wordlist separator [] passphrase rs = Some (passphrase, rs)"
| "passphrase_loop wordlist separator (position # positions) passphrase rs =
    do { (i, rs) \<leftarrow> index_below EFF_WORD_COUNT rs;
         word \<leftarrow> eff_word wordlist i;
         passphrase_loop wordlist separator positions
           ((if position \<noteq> 0 then passphrase @ separator else passphrase) @ word) rs }"

definition generate_passphrase :: "string \<Rightarrow> nat \<Rightarrow> string \<Rightarrow> draws \<Rightarrow> string drawn" where
  "generate_passphrase wordlist word_count separator rs =
    passphrase_loop wordlist separator [0 ..< word_count] [] rs"

definition passphrase_capacity :: "nat \<Rightarrow> string \<Rightarrow> nat" where
  "passphrase_capacity word_count separator =
    word_count * EFF_LONGEST_WORD + (word_count - 1) * length separator"

subsection \<open>Drawing fairly\<close>

text \<open>
  A computation that draws reads its numbers from the front and does not look further. \<open>ways d k x\<close>
  is how many lists of exactly \<open>k\<close> numbers make it give \<open>x\<close>.
\<close>

definition ways :: "(draws \<Rightarrow> 'a drawn) \<Rightarrow> nat \<Rightarrow> 'a \<Rightarrow> nat" where
  "ways d k x = card {rs. length rs = k \<and> d rs = Some (x, [])}"

definition reads_front :: "(draws \<Rightarrow> 'a drawn) \<Rightarrow> bool" where
  "reads_front d \<longleftrightarrow> (\<forall>rs x rest. d rs = Some (x, rest) \<longleftrightarrow> (\<exists>front. rs = front @ rest \<and> d front = Some (x, [])))"

lemma finite_draws: "finite {rs :: draws. length rs = k \<and> P rs}"
  by (rule finite_subset [OF _ finite_lists_length_eq [of UNIV k]]) auto

definition draw_bind :: "(draws \<Rightarrow> 'a drawn) \<Rightarrow> ('a \<Rightarrow> draws \<Rightarrow> 'b drawn) \<Rightarrow> draws \<Rightarrow> 'b drawn" where
  "draw_bind d f rs = do { (x, rs) \<leftarrow> d rs; f x rs }"

lemma draw_bind_Some: "draw_bind d f rs = Some (y, r) \<longleftrightarrow> (\<exists>x r'. d rs = Some (x, r') \<and> f x r' = Some (y, r))"
  by (auto simp: draw_bind_def Option.bind_eq_Some_conv)

lemma reads_front_bind:
  assumes "reads_front d" and "\<And>x. reads_front (f x)"
  shows "reads_front (draw_bind d f)"
proof -
  have d: "d rs = Some (x, rest) \<longleftrightarrow> (\<exists>front. rs = front @ rest \<and> d front = Some (x, []))" for rs x rest
    using assms(1) unfolding reads_front_def by blast
  have f: "f x rs = Some (y, rest) \<longleftrightarrow> (\<exists>front. rs = front @ rest \<and> f x front = Some (y, []))" for x rs y rest
    using assms(2) unfolding reads_front_def by blast
  show ?thesis
    unfolding reads_front_def draw_bind_Some
  proof (intro allI iffI)
    fix rs y rest
    assume "\<exists>x r'. d rs = Some (x, r') \<and> f x r' = Some (y, rest)"
    then obtain x a b where "rs = a @ b @ rest" "d a = Some (x, [])" "f x b = Some (y, [])"
      using d f by metis
    then show "\<exists>front. rs = front @ rest \<and> (\<exists>x r'. d front = Some (x, r') \<and> f x r' = Some (y, []))"
      using d [of "a @ b" x b] by (intro exI [of _ "a @ b"]) auto
  next
    fix rs y rest
    assume "\<exists>front. rs = front @ rest \<and> (\<exists>x r'. d front = Some (x, r') \<and> f x r' = Some (y, []))"
    then obtain x a b where "rs = (a @ b) @ rest" "d a = Some (x, [])" "f x b = Some (y, [])"
      using d by metis
    then show "\<exists>x r'. d rs = Some (x, r') \<and> f x r' = Some (y, rest)"
      using d [of rs x "b @ rest"] f [of x "b @ rest" y rest] by auto
  qed
qed

text \<open>What a computation draws first, and what is left for the rest.\<close>

lemma ways_bind:
  assumes "reads_front d" and "\<And>x. reads_front (f x)" and "finite X"
    and "\<And>rs x r. d rs = Some (x, r) \<Longrightarrow> x \<in> X"
  shows "ways (draw_bind d f) k y = (\<Sum>j \<le> k. \<Sum>x \<in> X. ways d j x * ways (f x) (k - j) y)"
proof -
  have d: "d rs = Some (x, rest) \<longleftrightarrow> (\<exists>front. rs = front @ rest \<and> d front = Some (x, []))" for rs x rest
    using assms(1) unfolding reads_front_def by blast
  define A where "A j x = {rs. length rs = j \<and> d rs = Some (x, [])}" for j x
  define B where "B m x = {rs. length rs = m \<and> f x rs = Some (y, [])}" for m x
  define I where "I = (SIGMA j : {..k}. SIGMA x : X. A j x \<times> B (k - j) x)"
  define g :: "nat \<times> 'a \<times> draws \<times> draws \<Rightarrow> draws" where "g t = (case t of (j, x, a, b) \<Rightarrow> a @ b)" for t
  have inj: "inj_on g I"
  proof (rule inj_onI)
    fix s t assume "s \<in> I" "t \<in> I" "g s = g t"
    then obtain j x a b j' x' a' b' where st: "s = (j, x, a, b)" "t = (j', x', a', b')" "a @ b = a' @ b'"
      "length a = j" "length a' = j'" "d a = Some (x, [])" "d a' = Some (x', [])"
      by (auto simp: I_def A_def B_def g_def)
    then have "d (a @ b) = Some (x, b)" "d (a' @ b') = Some (x', b')" using d by blast+
    then show "s = t" using st by auto
  qed
  have img: "g ` I = {rs. length rs = k \<and> draw_bind d f rs = Some (y, [])}"
  proof (intro subset_antisym subsetI)
    fix rs assume "rs \<in> g ` I"
    then obtain j x a b where "rs = a @ b" "length a = j" "length b = k - j" "j \<le> k" "d a = Some (x, [])"
      "f x b = Some (y, [])" by (auto simp: I_def A_def B_def g_def)
    then show "rs \<in> {rs. length rs = k \<and> draw_bind d f rs = Some (y, [])}"
      using d [of rs x b] by (auto simp: draw_bind_Some)
  next
    fix rs assume "rs \<in> {rs. length rs = k \<and> draw_bind d f rs = Some (y, [])}"
    then obtain x r where r: "length rs = k" "d rs = Some (x, r)" "f x r = Some (y, [])" by (auto simp: draw_bind_Some)
    then obtain a where a: "rs = a @ r" "d a = Some (x, [])" using d by blast
    then have "(length a, x, a, r) \<in> I" using r assms(4) by (auto simp: I_def A_def B_def)
    then show "rs \<in> g ` I" using a by (force simp: g_def)
  qed
  have fin: "finite (A j x)" "finite (B m x)" for j m x unfolding A_def B_def by (rule finite_draws)+
  have "ways (draw_bind d f) k y = card I" using card_image [OF inj] img by (simp add: ways_def)
  also have "\<dots> = (\<Sum>j \<le> k. \<Sum>x \<in> X. card (A j x) * card (B (k - j) x))"
    unfolding I_def using assms(3) fin by (simp add: card_SigmaI card_cartesian_product)
  finally show ?thesis by (simp add: ways_def A_def B_def)
qed

text \<open>
  A fair computation gives each of its outcomes for equally many lists, of every length, and no
  outcome is out of reach.
\<close>

locale fair_draw =
  fixes d :: "draws \<Rightarrow> 'a drawn" and X :: "'a set"
  assumes front: "reads_front d"
    and finite_outcomes: "finite X"
    and outcome: "d rs = Some (x, r) \<Longrightarrow> x \<in> X"
    and fair: "x \<in> X \<Longrightarrow> y \<in> X \<Longrightarrow> ways d k x = ways d k y"
    and reachable: "x \<in> X \<Longrightarrow> \<exists>rs. d rs = Some (x, [])"
begin

lemma outcomes_iff: "x \<in> X \<longleftrightarrow> (\<exists>rs r. d rs = Some (x, r))"
  using outcome reachable by blast

lemma more_draws: "d rs = Some (x, r) \<Longrightarrow> d (rs @ tail) = Some (x, r @ tail)"
  using front unfolding reads_front_def by (metis append.assoc)

lemma reach: "x \<in> X \<Longrightarrow> \<exists>rs. d (rs @ tail) = Some (x, tail)"
  using reachable more_draws by fastforce

end

subsection \<open>Indices are fair\<close>

lemma index_limit_nat:
  assumes "0 < b" and "b < 2 ^ 64"
  shows "unat (index_limit b) = (2 ^ 64 - 1) div b * b"
proof -
  have b: "unat (word_of_nat b :: u64) = b" using assms(2) by (simp add: unat_of_nat)
  have le: "(-1) mod word_of_nat b \<le> (-1 :: u64)" by simp
  have "unat (index_limit b) = unat (-1 :: u64) - unat ((-1 :: u64) mod word_of_nat b)"
    unfolding index_limit_def by (rule unat_sub) simp
  also have "\<dots> = (2 ^ 64 - 1) - (2 ^ 64 - 1) mod b" by (simp add: unat_mod_distrib b unsigned_minus_1_eq_mask mask_eq_exp_minus_1)
  also have "\<dots> = (2 ^ 64 - 1) div b * b" by (metis minus_mod_eq_div_mult)
  finally show ?thesis .
qed

lemma index_below_Some:
  assumes "0 < b" and "b < 2 ^ 64"
  shows "index_below b [r] = Some (i, []) \<longleftrightarrow> unat r < (2 ^ 64 - 1) div b * b \<and> unat r mod b = i"
proof -
  have b: "unat (word_of_nat b :: u64) = b" using assms(2) by (simp add: unat_of_nat)
  show ?thesis
    using assms(1) index_limit_nat [OF assms] by (auto simp: index_below_def word_less_nat_alt unat_mod_distrib b)
qed

lemma front_Cons: "(\<exists>front. r # rs = front @ rest \<and> P front) \<longleftrightarrow>
    rest = r # rs \<and> P [] \<or> (\<exists>front. rs = front @ rest \<and> P (r # front))"
  by (auto simp: Cons_eq_append_conv)

lemma reads_front_index: "reads_front (index_below b)"
proof -
  have front: "index_loop b rs = Some (x, rest) \<longleftrightarrow> (\<exists>front. rs = front @ rest \<and> index_loop b front = Some (x, []))" for rs x rest
  proof (induction rs)
    case (Cons r rs)
    show ?case
    proof (cases "r < index_limit b")
      case True
      then show ?thesis unfolding front_Cons by auto
    next
      case False
      then show ?thesis unfolding front_Cons using Cons by simp
    qed
  qed simp
  show ?thesis
  proof (cases "b = 0")
    case False
    then have "index_below b = index_loop b" by (simp add: fun_eq_iff index_below_def)
    then show ?thesis unfolding reads_front_def by (simp only:) (intro allI front)
  qed (simp add: reads_front_def index_below_def)
qed

lemma residues_count:
  assumes "0 < b" and "i < b" and "q * b \<le> 2 ^ 64 - 1"
  shows "card {r :: u64. unat r < q * b \<and> unat r mod b = i} = card {r :: u64. unat r < q * b \<and> unat r mod b = 0}"
proof (rule bij_betw_same_card [OF bij_betw_byWitness [where f' = "\<lambda>r. r + word_of_nat i" and f = "\<lambda>r. r - word_of_nat i"]])
  have i: "unat (word_of_nat i :: u64) = i" if "i \<le> unat (r :: u64)" for r
    using that unsigned_less [of r, where 'a = nat] by (simp add: unat_of_nat)
  have down: "unat (r - word_of_nat i) = unat r - i" if "unat r mod b = i" for r :: u64
  proof -
    have "i \<le> unat r" using that by (metis mod_less_eq_dividend)
    then show ?thesis by (simp add: unat_sub_if' word_le_nat_alt i)
  qed
  have up: "unat (r + word_of_nat i) = unat r + i \<and> unat r + i < q * b"
    if lt: "unat r < q * b" and md: "unat r mod b = 0" for r :: u64
  proof -
    obtain k where k: "unat r = k * b" using md by (metis mod_0_imp_dvd dvd_def mult.commute)
    then have "k < q" using lt by simp
    then have "Suc k * b \<le> q * b" by (metis Suc_leI mult_le_mono1)
    then have le: "unat r + i < q * b" using k assms(2) by simp
    then have "i < 2 ^ 64" "unat r + i < 2 ^ 64" using assms(3) by linarith+
    then show ?thesis using le by (simp add: unat_word_ariths(1) unat_of_nat)
  qed
  show "\<forall>r \<in> {r :: u64. unat r < q * b \<and> unat r mod b = i}. r - word_of_nat i + word_of_nat i = r" by simp
  show "\<forall>r \<in> {r :: u64. unat r < q * b \<and> unat r mod b = 0}. r + word_of_nat i - word_of_nat i = r" by simp
  show "(\<lambda>r. r - word_of_nat i) ` {r :: u64. unat r < q * b \<and> unat r mod b = i} \<subseteq> {r. unat r < q * b \<and> unat r mod b = 0}"
  proof (rule image_subsetI)
    fix r :: u64 assume r: "r \<in> {r. unat r < q * b \<and> unat r mod b = i}"
    then have "unat (r - word_of_nat i) = unat r - i" using down by simp
    moreover have "unat r - i = unat r div b * b" using r by (auto simp: minus_mod_eq_div_mult)
    ultimately show "r - word_of_nat i \<in> {r. unat r < q * b \<and> unat r mod b = 0}"
      using r by (metis (mono_tags, lifting) diff_le_self le_less_trans mem_Collect_eq mod_mult_self2_is_0)
  qed
  show "(\<lambda>r. r + word_of_nat i) ` {r :: u64. unat r < q * b \<and> unat r mod b = 0} \<subseteq> {r. unat r < q * b \<and> unat r mod b = i}"
    using up assms(2) by (auto simp: mod_add_eq [symmetric])
qed

lemma ways_index_Suc:
  assumes "0 < b"
  shows "ways (index_below b) (Suc (Suc k)) i = card {r :: u64. \<not> r < index_limit b} * ways (index_below b) (Suc k) i"
proof -
  let ?R = "{r :: u64. \<not> r < index_limit b}" and ?S = "{rs. length rs = Suc k \<and> index_below b rs = Some (i, [])}"
  have "{rs. length rs = Suc (Suc k) \<and> index_below b rs = Some (i, [])} = (\<lambda>(r, rs). r # rs) ` (?R \<times> ?S)"
  proof (intro subset_antisym subsetI)
    fix rs assume rs: "rs \<in> {rs. length rs = Suc (Suc k) \<and> index_below b rs = Some (i, [])}"
    then obtain r s where s: "rs = r # s" "length s = Suc k" by (cases rs) auto
    then have "s \<noteq> []" by auto
    with rs s assms have "\<not> r < index_limit b" "index_below b s = Some (i, [])"
      by (auto simp: index_below_def split: if_splits)
    then show "rs \<in> (\<lambda>(r, rs). r # rs) ` (?R \<times> ?S)" using s by force
  qed (use assms in \<open>auto simp: index_below_def\<close>)
  moreover have "inj_on (\<lambda>(r, rs). r # rs) (?R \<times> ?S)" by (auto simp: inj_on_def)
  ultimately show ?thesis by (simp add: ways_def card_image card_cartesian_product)
qed

lemma ways_index_one:
  assumes "0 < b" and "b < 2 ^ 64" and "i < b"
  shows "ways (index_below b) (Suc 0) i = ways (index_below b) (Suc 0) 0"
proof -
  let ?q = "(2 ^ 64 - 1) div b :: nat"
  have "ways (index_below b) (Suc 0) i = card {r :: u64. unat r < ?q * b \<and> unat r mod b = i}" for i
  proof -
    have "{rs. length rs = Suc 0 \<and> index_below b rs = Some (i, [])} = (\<lambda>r. [r]) ` {r :: u64. unat r < ?q * b \<and> unat r mod b = i}"
      using index_below_Some [OF assms(1,2)] by (auto simp: length_Suc_conv)
    then show ?thesis by (simp add: ways_def card_image inj_on_def)
  qed
  then show ?thesis using residues_count [OF assms(1,3), of ?q] by (simp add: div_times_less_eq_dividend)
qed

lemma index_fair:
  assumes "b < 2 ^ 64"
  shows "fair_draw (index_below b) {..<b}"
proof (cases "b = 0")
  case True
  then show ?thesis by unfold_locales (simp_all add: reads_front_index index_below_def)
next
  case False
  show ?thesis
  proof
    show "reads_front (index_below b)" by (rule reads_front_index)
    have "index_loop b rs = Some (x, r) \<Longrightarrow> x < b" for rs x r
    proof (induction rs)
      case (Cons r rs)
      have "unat (word_of_nat b :: u64) = b" using assms by (simp add: unat_of_nat)
      then show ?case using Cons False by (auto simp: unat_mod_distrib split: if_splits)
    qed simp
    then show "index_below b rs = Some (x, r) \<Longrightarrow> x \<in> {..<b}" for rs x r
      by (auto simp: index_below_def split: if_splits)
    have "ways (index_below b) k x = ways (index_below b) k 0" if "x < b" for k x
    proof (cases k)
      case 0
      then show ?thesis by (simp add: ways_def index_below_def cong: conj_cong)
    next
      case (Suc m)
      have b: "0 < b" using False by simp
      show ?thesis unfolding Suc
      proof (induction m)
        case 0
        show ?case by (rule ways_index_one [OF b assms that])
      next
        case (Suc m)
        then show ?case by (simp only: ways_index_Suc [OF b])
      qed
    qed
    then show "ways (index_below b) k x = ways (index_below b) k y" if "x \<in> {..<b}" "y \<in> {..<b}" for x y k
      using that by (metis lessThan_iff)
    show "\<exists>rs. index_below b rs = Some (x, [])" if "x \<in> {..<b}" for x
    proof -
      have x: "unat (word_of_nat x :: u64) = x" using that assms by (simp add: unat_of_nat)
      have "b \<le> 2 ^ 64 - 1" using assms by simp
      then have "0 < (2 ^ 64 - 1 :: nat) div b" using False by (simp add: div_greater_zero_iff)
      then have "b \<le> (2 ^ 64 - 1) div b * b" by (cases "(2 ^ 64 - 1 :: nat) div b") simp_all
      then have "x < (2 ^ 64 - 1) div b * b" using that by (metis lessThan_iff order_less_le_trans)
      then have "index_below b [word_of_nat x] = Some (x, [])"
        using that False assms x by (simp add: index_below_Some)
      then show ?thesis by blast
    qed
  qed simp
qed

subsection \<open>Candidates are fair\<close>

definition strings_over :: "string \<Rightarrow> nat \<Rightarrow> string set" where
  "strings_over alphabet n = {s. length s = n \<and> set s \<subseteq> set alphabet}"

lemma finite_strings_over: "finite (strings_over alphabet n)"
  unfolding strings_over_def
  by (rule finite_subset [OF _ finite_lists_length_eq [of "set alphabet" n]]) auto

definition draw_return :: "'a \<Rightarrow> draws \<Rightarrow> 'a drawn" where
  "draw_return x rs = Some (x, rs)"

lemma reads_front_return: "reads_front (draw_return x)"
  by (auto simp: reads_front_def draw_return_def)

lemma ways_return: "ways (draw_return x) k y = (if k = 0 \<and> x = y then 1 else 0)"
proof -
  have "{rs :: draws. length rs = k \<and> Some (x, rs) = Some (y, [])} = (if k = 0 \<and> x = y then {[]} else {})" by auto
  then show ?thesis unfolding ways_def draw_return_def by simp
qed

definition draw_cons :: "string \<Rightarrow> nat \<Rightarrow> nat \<Rightarrow> draws \<Rightarrow> string drawn" where
  "draw_cons alphabet n i = draw_bind (draw_candidate alphabet n) (\<lambda>s. draw_return (alphabet ! i # s))"

lemma draw_candidate_bind:
  "draw_candidate alphabet (Suc n) = draw_bind (index_below (length alphabet)) (draw_cons alphabet n)"
  by (rule ext) (simp add: draw_bind_def draw_cons_def draw_return_def)

lemma reads_front_candidate: "reads_front (draw_candidate alphabet n)"
proof (induction n)
  case 0
  then show ?case using reads_front_return [of "[] :: string"] by (simp add: reads_front_def draw_return_def)
next
  case (Suc n)
  then have "reads_front (draw_cons alphabet n i)" for i
    unfolding draw_cons_def by (rule reads_front_bind [OF _ reads_front_return])
  then show ?case unfolding draw_candidate_bind by (rule reads_front_bind [OF reads_front_index])
qed

lemma candidate_outcome:
  assumes "length alphabet < 2 ^ 64"
  shows "draw_candidate alphabet n rs = Some (s, r) \<Longrightarrow> s \<in> strings_over alphabet n"
proof (induction n arbitrary: rs s)
  case (Suc n)
  note fd = index_fair [OF assms]
  from Suc.prems obtain i r' t where "index_below (length alphabet) rs = Some (i, r')"
    "draw_candidate alphabet n r' = Some (t, r)" "s = alphabet ! i # t"
    by (auto simp: Option.bind_eq_Some_conv)
  then show ?case using Suc.IH fair_draw.outcome [OF fd] by (fastforce simp: strings_over_def)
qed (simp add: strings_over_def)

lemma ways_cons:
  assumes "length alphabet < 2 ^ 64" and "c # s \<in> strings_over alphabet (Suc n)"
  shows "ways (draw_cons alphabet n i) k (c # s) = (if alphabet ! i = c then ways (draw_candidate alphabet n) k s else 0)"
proof -
  let ?X = "strings_over alphabet n"
  have s: "s \<in> ?X" using assms(2) by (simp add: strings_over_def)
  have "ways (draw_cons alphabet n i) k (c # s)
    = (\<Sum>j \<le> k. \<Sum>x \<in> ?X. ways (draw_candidate alphabet n) j x * ways (draw_return (alphabet ! i # x)) (k - j) (c # s))"
    unfolding draw_cons_def
    by (rule ways_bind [OF reads_front_candidate reads_front_return finite_strings_over candidate_outcome [OF assms(1)]])
  also have "\<dots> = (\<Sum>j \<le> k. if j = k \<and> alphabet ! i = c then ways (draw_candidate alphabet n) k s else 0)"
  proof (rule sum.cong [OF refl])
    fix j assume "j \<in> {..k}"
    then have "(\<Sum>x \<in> ?X. ways (draw_candidate alphabet n) j x * ways (draw_return (alphabet ! i # x)) (k - j) (c # s))
      = (\<Sum>x \<in> ?X. if x = s then (if j = k \<and> alphabet ! i = c then ways (draw_candidate alphabet n) k s else 0) else 0)"
      by (intro sum.cong [OF refl]) (auto simp: ways_return)
    then show "(\<Sum>x \<in> ?X. ways (draw_candidate alphabet n) j x * ways (draw_return (alphabet ! i # x)) (k - j) (c # s))
      = (if j = k \<and> alphabet ! i = c then ways (draw_candidate alphabet n) k s else 0)"
      using s finite_strings_over by simp
  qed
  also have "\<dots> = (if alphabet ! i = c then ways (draw_candidate alphabet n) k s else 0)" by simp
  finally show ?thesis .
qed

lemma ways_candidate_Suc:
  assumes "length alphabet < 2 ^ 64" and "distinct alphabet" and "c # s \<in> strings_over alphabet (Suc n)"
  shows "\<exists>i < length alphabet. ways (draw_candidate alphabet (Suc n)) k (c # s)
    = (\<Sum>j \<le> k. ways (index_below (length alphabet)) j i * ways (draw_candidate alphabet n) (k - j) s)"
proof -
  note fd = index_fair [OF assms(1)]
  obtain i where i: "i < length alphabet" "alphabet ! i = c"
    using assms(3) by (auto simp: strings_over_def in_set_conv_nth)
  have cons: "reads_front (draw_cons alphabet n m)" for m
    unfolding draw_cons_def by (rule reads_front_bind [OF reads_front_candidate reads_front_return])
  have "ways (draw_candidate alphabet (Suc n)) k (c # s)
    = (\<Sum>j \<le> k. \<Sum>m < length alphabet. ways (index_below (length alphabet)) j m * ways (draw_cons alphabet n m) (k - j) (c # s))"
    unfolding draw_candidate_bind by (rule ways_bind [OF reads_front_index cons finite_lessThan fair_draw.outcome [OF fd]])
  also have "\<dots> = (\<Sum>j \<le> k. ways (index_below (length alphabet)) j i * ways (draw_candidate alphabet n) (k - j) s)"
  proof (rule sum.cong [OF refl])
    fix j
    have "(\<Sum>m < length alphabet. ways (index_below (length alphabet)) j m * ways (draw_cons alphabet n m) (k - j) (c # s))
      = (\<Sum>m < length alphabet. if m = i then ways (index_below (length alphabet)) j i * ways (draw_candidate alphabet n) (k - j) s else 0)"
      using i nth_eq_iff_index_eq [OF assms(2)] by (intro sum.cong [OF refl]) (auto simp: ways_cons [OF assms(1,3)])
    then show "(\<Sum>m < length alphabet. ways (index_below (length alphabet)) j m * ways (draw_cons alphabet n m) (k - j) (c # s))
      = ways (index_below (length alphabet)) j i * ways (draw_candidate alphabet n) (k - j) s"
      using i by simp
  qed
  finally show ?thesis using i by blast
qed

lemma candidate_fair:
  assumes "length alphabet < 2 ^ 64" and "distinct alphabet"
  shows "fair_draw (draw_candidate alphabet n) (strings_over alphabet n)"
proof
  note fd = index_fair [OF assms(1)]
  show "reads_front (draw_candidate alphabet n)" by (rule reads_front_candidate)
  show "finite (strings_over alphabet n)" by (rule finite_strings_over)
  show "draw_candidate alphabet n rs = Some (x, r) \<Longrightarrow> x \<in> strings_over alphabet n" for rs x r
    by (rule candidate_outcome [OF assms(1)])
  show "ways (draw_candidate alphabet n) k x = ways (draw_candidate alphabet n) k y"
    if "x \<in> strings_over alphabet n" "y \<in> strings_over alphabet n" for x y k
    using that
  proof (induction n arbitrary: x y k)
    case (Suc n)
    obtain c s d t where xy: "x = c # s" "y = d # t" "s \<in> strings_over alphabet n" "t \<in> strings_over alphabet n"
      using Suc.prems by (auto simp: strings_over_def length_Suc_conv)
    obtain a where a: "a < length alphabet" "ways (draw_candidate alphabet (Suc n)) k x
      = (\<Sum>j \<le> k. ways (index_below (length alphabet)) j a * ways (draw_candidate alphabet n) (k - j) s)"
      using ways_candidate_Suc [OF assms, of c s n k] Suc.prems(1) xy(1) by blast
    obtain b where b: "b < length alphabet" "ways (draw_candidate alphabet (Suc n)) k y
      = (\<Sum>j \<le> k. ways (index_below (length alphabet)) j b * ways (draw_candidate alphabet n) (k - j) t)"
      using ways_candidate_Suc [OF assms, of d t n k] Suc.prems(2) xy(2) by blast
    show ?case
      unfolding a(2) b(2) using a(1) b(1) xy(3,4)
      by (intro sum.cong [OF refl] arg_cong2 [of _ _ _ _ "(*)"] fair_draw.fair [OF fd] Suc.IH) simp_all
  qed (simp add: strings_over_def)
  show "\<exists>rs. draw_candidate alphabet n rs = Some (x, [])" if "x \<in> strings_over alphabet n" for x
    using that
  proof (induction n arbitrary: x)
    case (Suc n)
    then obtain c s where x: "x = c # s" "c \<in> set alphabet" "s \<in> strings_over alphabet n"
      by (auto simp: strings_over_def length_Suc_conv)
    then obtain rs where "draw_candidate alphabet n rs = Some (s, [])" using Suc.IH by blast
    moreover obtain i where "i < length alphabet" "alphabet ! i = c" using x(2) by (auto simp: in_set_conv_nth)
    moreover obtain ds where "index_below (length alphabet) (ds @ rs) = Some (i, rs)"
      using fair_draw.reach [OF fd] calculation(2) by blast
    ultimately show ?case unfolding x(1) by (intro exI [of _ "ds @ rs"]) simp
  qed (auto simp: strings_over_def)
qed

subsection \<open>Passwords are fair\<close>

definition passwords :: "password_policy \<Rightarrow> string set" where
  "passwords p = {s \<in> strings_over (concat (policy_classes p)) (pp_length p). has_classes (policy_classes p) s}"

lemma policy_alphabet:
  "length (concat (policy_classes p)) \<le> 89" "distinct (concat (policy_classes p))"
  "length (policy_classes p) \<le> 4" "class \<in> set (policy_classes p) \<Longrightarrow> class \<noteq> []"
  by (auto simp: policy_classes_def LOWERCASE_def UPPERCASE_def DIGITS_def SYMBOLS_def)

lemma policy_check_Inr: "policy_check p = Inr classes \<longleftrightarrow>
    classes = policy_classes p \<and> classes \<noteq> [] \<and> MIN_LENGTH \<le> pp_length p \<and> pp_length p \<le> MAX_LENGTH"
  using policy_alphabet(3) [of p]
  by (auto simp: policy_check_def Let_def MIN_LENGTH_def MAX_LENGTH_def not_less)

text \<open>The check leaves no policy that no password satisfies.\<close>

lemma passwords_exist:
  assumes "policy_check p = Inr classes"
  shows "passwords p \<noteq> {}"
proof -
  have p: "classes = policy_classes p" "classes \<noteq> []" "length classes \<le> pp_length p"
    using assms policy_alphabet(3) [of p] unfolding policy_check_Inr MIN_LENGTH_def by auto
  let ?s = "map hd classes @ replicate (pp_length p - length classes) (hd (hd classes))"
  have hd: "hd c \<in> set (concat classes)" "hd c \<in> set c" if "c \<in> set classes" for c
    using that policy_alphabet(4) [of c p] p(1) by (auto intro: hd_in_set)
  have "?s \<in> strings_over (concat classes) (pp_length p)"
    using hd p(2,3) by (auto simp: strings_over_def)
  moreover have "has_classes classes ?s" using hd(2) by (auto simp: has_classes_def list_all_iff list_ex_iff)
  ultimately show ?thesis unfolding passwords_def p(1) by blast
qed

definition password_loop :: "password_policy \<Rightarrow> draws \<Rightarrow> string drawn" where
  "password_loop p = (if policy_check p = Inr (policy_classes p)
     then generate_loop (policy_classes p) (concat (policy_classes p)) (pp_length p) else Map.empty)"

definition password_rest :: "password_policy \<Rightarrow> string \<Rightarrow> draws \<Rightarrow> string drawn" where
  "password_rest p s = (if has_classes (policy_classes p) s then draw_return s else password_loop p)"

lemma password_loop_bind:
  assumes "policy_check p = Inr classes"
  shows "password_loop p = draw_bind (draw_candidate (concat (policy_classes p)) (pp_length p)) (password_rest p)"
proof -
  have "policy_check p = Inr (policy_classes p)" using assms by (auto simp: policy_check_Inr)
  then have l: "password_loop p = generate_loop (policy_classes p) (concat (policy_classes p)) (pp_length p)"
    by (simp add: password_loop_def)
  show ?thesis
    by (rule ext, subst l, subst generate_loop.simps, unfold draw_bind_def password_rest_def l)
      (rule arg_cong2 [of _ _ _ _ Option.bind], auto simp: fun_eq_iff draw_return_def)
qed

lemma candidate_shorter:
  "draw_candidate alphabet n rs = Some (s, r) \<Longrightarrow> 0 < n \<Longrightarrow> length r < length rs"
proof -
  assume c: "draw_candidate alphabet n rs = Some (s, r)" "0 < n"
  obtain f where f: "rs = f @ r" "draw_candidate alphabet n f = Some (s, [])"
    using c(1) reads_front_candidate unfolding reads_front_def by metis
  have "index_below b [] = None" for b by (simp add: index_below_def)
  with f(2) c(2) have "f \<noteq> []" by (cases n) auto
  with f(1) show "length r < length rs" by simp
qed

lemma reads_front_password: "reads_front (password_loop p)"
proof (cases "\<exists>classes. policy_check p = Inr classes")
  case True
  then obtain classes where c: "policy_check p = Inr classes" by blast
  then have n: "0 < pp_length p" by (simp add: policy_check_Inr MIN_LENGTH_def)
  let ?d = "draw_candidate (concat (policy_classes p)) (pp_length p)"
  note step = password_loop_bind [OF c]
  have d: "?d rs = Some (x, rest) \<longleftrightarrow> (\<exists>front. rs = front @ rest \<and> ?d front = Some (x, []))" for rs x rest
    using reads_front_candidate unfolding reads_front_def by blast
  have "password_loop p rs = Some (x, rest) \<longleftrightarrow> (\<exists>front. rs = front @ rest \<and> password_loop p front = Some (x, []))" for rs x rest
  proof (induction "length rs" arbitrary: rs x rest rule: less_induct)
    case less
    have rest_iff: "password_rest p s r = Some (x, rest) \<longleftrightarrow> (\<exists>front. r = front @ rest \<and> password_rest p s front = Some (x, []))"
      if "length r < length rs" for s r x rest
      using less [OF that] by (auto simp: password_rest_def draw_return_def)
    show ?case
    proof
      assume "password_loop p rs = Some (x, rest)"
      then obtain s r where r: "?d rs = Some (s, r)" "password_rest p s r = Some (x, rest)"
        unfolding step draw_bind_Some by blast
      obtain a where a: "rs = a @ r" "?d a = Some (s, [])" using d r(1) by blast
      obtain b where b: "r = b @ rest" "password_rest p s b = Some (x, [])"
        using rest_iff [OF candidate_shorter [OF r(1) n]] r(2) by blast
      note ab = a b
      then have "?d (a @ b) = Some (s, b)" using d by blast
      then have "password_loop p (a @ b) = Some (x, [])" unfolding step draw_bind_Some using ab(4) by blast
      then show "\<exists>front. rs = front @ rest \<and> password_loop p front = Some (x, [])" using ab by auto
    next
      assume "\<exists>front. rs = front @ rest \<and> password_loop p front = Some (x, [])"
      then obtain f s r where f: "rs = f @ rest" "?d f = Some (s, r)" "password_rest p s r = Some (x, [])"
        unfolding step draw_bind_Some by blast
      obtain a where a: "f = a @ r" "?d a = Some (s, [])" using d f(2) by blast
      then have "rs = a @ r @ rest" using f(1) by simp
      then have rs: "?d rs = Some (s, r @ rest)" using d a(2) by blast
      have "password_rest p s (r @ rest) = Some (x, rest)"
        using rest_iff [OF candidate_shorter [OF rs n]] f(3) by blast
      then show "password_loop p rs = Some (x, rest)" unfolding step draw_bind_Some using rs by blast
    qed
  qed
  then show ?thesis unfolding reads_front_def by blast
next
  case False
  then show ?thesis by (auto simp: password_loop_def reads_front_def)
qed

lemma password_loop_sound: "password_loop p rs = Some (s, r) \<Longrightarrow> s \<in> passwords p"
proof (induction "length rs" arbitrary: rs rule: less_induct)
  case less
  then obtain classes where c: "policy_check p = Inr classes" by (auto simp: password_loop_def split: if_splits)
  then have n: "0 < pp_length p" by (simp add: policy_check_Inr MIN_LENGTH_def)
  from less.prems obtain t r' where t: "draw_candidate (concat (policy_classes p)) (pp_length p) rs = Some (t, r')"
    "password_rest p t r' = Some (s, r)"
    unfolding password_loop_bind [OF c] draw_bind_Some by blast
  have len: "length (concat (policy_classes p)) < 2 ^ 64" using policy_alphabet(1) [of p] by simp
  show ?case
  proof (cases "has_classes (policy_classes p) t")
    case True
    then show ?thesis using t candidate_outcome [OF len t(1)] by (simp add: password_rest_def draw_return_def passwords_def)
  next
    case False
    then show ?thesis using t less.hyps [OF candidate_shorter [OF t(1) n]] by (simp add: password_rest_def)
  qed
qed

lemma password_reachable:
  assumes c: "policy_check p = Inr classes" and s: "s \<in> passwords p"
  shows "\<exists>rs. password_loop p rs = Some (s, [])"
proof -
  have len: "length (concat (policy_classes p)) < 2 ^ 64" using policy_alphabet(1) [of p] by simp
  note d = candidate_fair [OF len policy_alphabet(2)]
  obtain rs where "draw_candidate (concat (policy_classes p)) (pp_length p) rs = Some (s, [])"
    using fair_draw.reachable [OF d] s by (auto simp: passwords_def)
  then have "password_loop p rs = Some (s, [])"
    unfolding password_loop_bind [OF c] draw_bind_Some using s
    by (auto simp: password_rest_def draw_return_def passwords_def)
  then show ?thesis ..
qed

lemma password_fair:
  assumes c: "policy_check p = Inr classes" and s: "s \<in> passwords p" and t: "t \<in> passwords p"
  shows "ways (password_loop p) k s = ways (password_loop p) k t"
proof (induction k rule: less_induct)
  case (less k)
  have len: "length (concat (policy_classes p)) < 2 ^ 64" using policy_alphabet(1) [of p] by simp
  have n: "0 < pp_length p" using c by (simp add: policy_check_Inr MIN_LENGTH_def)
  let ?d = "draw_candidate (concat (policy_classes p)) (pp_length p)" and
    ?X = "strings_over (concat (policy_classes p)) (pp_length p)"
  note d = candidate_fair [OF len policy_alphabet(2)]
  have rest: "reads_front (password_rest p x)" for x
    by (simp add: password_rest_def reads_front_return reads_front_password)
  have none: "ways ?d 0 x = 0" for x
    using candidate_shorter [of _ _ _ x "[]", OF _ n] by (fastforce simp: ways_def)
  have step: "(\<Sum>x \<in> ?X. ways ?d j x * ways (password_rest p x) (k - j) s)
    = (\<Sum>x \<in> ?X. ways ?d j x * ways (password_rest p x) (k - j) t)" if "j \<le> k" for j
  proof (cases "j = 0")
    case False
    let ?ok = "{x \<in> ?X. has_classes (policy_classes p) x}" and ?no = "{x \<in> ?X. \<not> has_classes (policy_classes p) x}"
    have split: "(\<Sum>x \<in> ?X. h x) = (\<Sum>x \<in> ?ok. h x) + (\<Sum>x \<in> ?no. h x)" for h :: "string \<Rightarrow> nat"
      using fair_draw.finite_outcomes [OF d] by (subst sum.union_disjoint [symmetric]) (auto intro: sum.cong)
    have ok: "(\<Sum>x \<in> ?ok. ways ?d j x * ways (password_rest p x) (k - j) u) = (if j = k then ways ?d j u else 0)"
      if "u \<in> passwords p" for u
    proof -
      have "(\<Sum>x \<in> ?ok. ways ?d j x * ways (password_rest p x) (k - j) u)
        = (\<Sum>x \<in> ?ok. if x = u then (if j = k then ways ?d j u else 0) else 0)"
        using \<open>j \<le> k\<close> by (intro sum.cong [OF refl]) (auto simp: password_rest_def ways_return)
      then show ?thesis using that fair_draw.finite_outcomes [OF d] by (auto simp: passwords_def)
    qed
    have "(\<Sum>x \<in> ?no. ways ?d j x * ways (password_rest p x) (k - j) s)
        = (\<Sum>x \<in> ?no. ways ?d j x * ways (password_rest p x) (k - j) t)"
      using less [of "k - j"] False that by (intro sum.cong [OF refl]) (simp add: password_rest_def)
    moreover have "ways ?d j s = ways ?d j t" using s t by (intro fair_draw.fair [OF d]) (simp_all add: passwords_def)
    ultimately show ?thesis unfolding split using ok [OF s] ok [OF t] by (cases "j = k") simp_all
  qed (simp add: none)
  have "ways (password_loop p) k u = (\<Sum>j \<le> k. \<Sum>x \<in> ?X. ways ?d j x * ways (password_rest p x) (k - j) u)" for u
    unfolding password_loop_bind [OF c] by (rule ways_bind [OF fair_draw.front [OF d] rest fair_draw.finite_outcomes [OF d] fair_draw.outcome [OF d]])
  then show ?case using step by simp
qed

interpretation password: fair_draw "password_loop p" "if policy_check p = Inr (policy_classes p) then passwords p else {}" for p
proof
  show "reads_front (password_loop p)" by (rule reads_front_password)
  show "finite (if policy_check p = Inr (policy_classes p) then passwords p else {})"
    using finite_strings_over by (simp add: passwords_def)
  show "x \<in> (if policy_check p = Inr (policy_classes p) then passwords p else {})"
    if "password_loop p rs = Some (x, r)" for rs x r
    using password_loop_sound [OF that] that by (simp add: password_loop_def split: if_splits)
  show "ways (password_loop p) k x = ways (password_loop p) k y"
    if "x \<in> (if policy_check p = Inr (policy_classes p) then passwords p else {})"
      "y \<in> (if policy_check p = Inr (policy_classes p) then passwords p else {})" for x y k
    using that password_fair by (metis empty_iff)
  show "\<exists>rs. password_loop p rs = Some (x, [])"
    if "x \<in> (if policy_check p = Inr (policy_classes p) then passwords p else {})" for x
    using that password_reachable by (metis empty_iff)
qed

lemma generate_password_loop:
  "policy_check p = Inr classes \<Longrightarrow> generate_password p rs = Inr (password_loop p rs)"
proof -
  assume c: "policy_check p = Inr classes"
  then have "policy_check p = Inr (policy_classes p)" by (auto simp: policy_check_Inr)
  then show "generate_password p rs = Inr (password_loop p rs)"
    by (simp add: generate_password_def password_loop_def)
qed

text \<open>Any numbers drawn so far can be followed by some that end the loop.\<close>

lemma index_fill:
  assumes "0 < b" and "b < 2 ^ 64" and "index_below b rs = None"
  shows "\<exists>ext i. index_below b (rs @ ext) = Some (i, [])"
proof -
  note fd = index_fair [OF assms(2)]
  have "index_loop b rs = None \<Longrightarrow> index_loop b (rs @ ds) = index_loop b ds" for ds
    by (induction rs) (auto split: if_splits)
  moreover obtain ds where "index_below b ds = Some (0, [])" using fair_draw.reachable [OF fd, of 0] assms(1) by auto
  ultimately show ?thesis using assms(1,3) unfolding index_below_def by auto
qed

lemma candidate_fill:
  assumes "alphabet \<noteq> []" and "length alphabet < 2 ^ 64"
  shows "draw_candidate alphabet n rs = None \<Longrightarrow> \<exists>ext s. draw_candidate alphabet n (rs @ ext) = Some (s, [])"
proof (induction n arbitrary: rs)
  case (Suc n)
  note fd = index_fair [OF assms(2)]
  have any: "\<exists>ext s. draw_candidate alphabet n (r @ ext) = Some (s, [])" if "draw_candidate alphabet n r = None \<or> r = []" for r
    using that Suc.IH [of r] by (cases "draw_candidate alphabet n r"; cases n) (auto simp: index_below_def)
  show ?case
  proof (cases "index_below (length alphabet) rs")
    case None
    then obtain e i where "index_below (length alphabet) (rs @ e) = Some (i, [])"
      using index_fill [OF _ assms(2)] assms(1) by blast
    moreover obtain f s where "draw_candidate alphabet n f = Some (s, [])" using any [of "[]"] by auto
    ultimately show ?thesis using fair_draw.more_draws [OF fd, of "rs @ e" i "[]" f] by (intro exI [of _ "e @ f"]) auto
  next
    case (Some m)
    obtain i r where m: "m = (i, r)" by (cases m)
    then have "draw_candidate alphabet n r = None"
      using Some Suc.prems by (cases "draw_candidate alphabet n r") auto
    then obtain f s where "draw_candidate alphabet n (r @ f) = Some (s, [])" using any by blast
    then show ?thesis using Some m fair_draw.more_draws [OF fd, of rs i r f] by (intro exI [of _ f]) auto
  qed
qed simp

lemma password_loop_fill:
  assumes c: "policy_check p = Inr classes"
  shows "\<exists>ext s r. password_loop p (rs @ ext) = Some (s, r)"
proof (induction "length rs" arbitrary: rs rule: less_induct)
  case less
  let ?d = "draw_candidate (concat (policy_classes p)) (pp_length p)"
  have n: "0 < pp_length p" using c by (simp add: policy_check_Inr MIN_LENGTH_def)
  have len: "length (concat (policy_classes p)) < 2 ^ 64" using policy_alphabet(1) [of p] by simp
  have ne: "concat (policy_classes p) \<noteq> []"
    using c policy_alphabet(4) [of "hd (policy_classes p)" p] by (cases "policy_classes p") (auto simp: policy_check_Inr)
  note d = candidate_fair [OF len policy_alphabet(2)]
  obtain g t where g: "password_loop p g = Some (t, [])"
    using passwords_exist [OF c] password_reachable [OF c] by blast
  have good: "\<exists>ext s r. password_loop p (rs @ e @ ext) = Some (s, r)" if "?d (rs @ e) = Some (s, r')" "r' = []" for e s r'
  proof -
    have "?d ((rs @ e) @ g) = Some (s, [] @ g)" using fair_draw.more_draws [OF d] that by blast
    then have "\<exists>s r. password_loop p (rs @ e @ g) = Some (s, r)"
      unfolding password_loop_bind [OF c] draw_bind_Some using g
      by (cases "has_classes (policy_classes p) s") (auto simp: password_rest_def draw_return_def)
    then show ?thesis by blast
  qed
  show ?case
  proof (cases "?d rs")
    case None
    then show ?thesis using candidate_fill [OF ne len] good by (metis append.assoc)
  next
    case (Some m)
    obtain s r where m: "m = (s, r)" by (cases m)
    obtain ext t u where e: "password_loop p (r @ ext) = Some (t, u)"
      using less [of r] candidate_shorter [OF _ n] Some m by blast
    have "?d (rs @ ext) = Some (s, r @ ext)" using fair_draw.more_draws [OF d] Some m by blast
    then have "\<exists>s u. password_loop p (rs @ ext) = Some (s, u)"
      unfolding password_loop_bind [OF c] draw_bind_Some using e
      by (cases "has_classes (policy_classes p) s") (auto simp: password_rest_def draw_return_def)
    then show ?thesis by blast
  qed
qed

subsection \<open>Passphrases fit the buffer that is reserved for them\<close>

definition wordlist_ok :: "string \<Rightarrow> bool" where
  "wordlist_ok wordlist \<longleftrightarrow> (\<forall>i < EFF_WORD_COUNT. \<exists>w. eff_word wordlist i = Some w \<and> length w \<le> EFF_LONGEST_WORD)"

definition joined :: "string \<Rightarrow> string list \<Rightarrow> string" where
  "joined separator ws = (case ws of [] \<Rightarrow> [] | w # ws \<Rightarrow> w @ concat (map (\<lambda>w. separator @ w) ws))"

lemma joined_size:
  assumes "list_all (\<lambda>w. length w \<le> EFF_LONGEST_WORD) ws"
  shows "length (joined separator ws) \<le> passphrase_capacity (length ws) separator"
proof -
  have "list_all (\<lambda>w. length w \<le> k) ws \<Longrightarrow> length (concat (map (\<lambda>w. separator @ w) ws)) \<le> length ws * (k + length separator)"
    for ws k by (induction ws) auto
  then show ?thesis
    using assms by (cases ws) (fastforce simp: joined_def passphrase_capacity_def add_mult_distrib2)+
qed

lemma passphrase_loop_words:
  "passphrase_loop wordlist separator ps acc rs = Some (s, r) \<Longrightarrow> 0 \<notin> set ps \<Longrightarrow>
    \<exists>ws. length ws = length ps \<and> s = acc @ concat (map (\<lambda>w. separator @ w) ws) \<and>
      (\<forall>w \<in> set ws. \<exists>i < EFF_WORD_COUNT. eff_word wordlist i = Some w)"
proof (induction ps arbitrary: acc rs)
  case (Cons p ps)
  have fd: "fair_draw (index_below EFF_WORD_COUNT) {..<EFF_WORD_COUNT}" by (rule index_fair) (simp add: EFF_WORD_COUNT_def)
  from Cons.prems obtain i rs' w where w: "index_below EFF_WORD_COUNT rs = Some (i, rs')" "eff_word wordlist i = Some w"
    "passphrase_loop wordlist separator ps ((acc @ separator) @ w) rs' = Some (s, r)"
    by (auto simp: Option.bind_eq_Some_conv)
  then obtain ws where "length ws = length ps" "s = ((acc @ separator) @ w) @ concat (map (\<lambda>w. separator @ w) ws)"
    "\<forall>w \<in> set ws. \<exists>i < EFF_WORD_COUNT. eff_word wordlist i = Some w"
    using Cons.IH [of "(acc @ separator) @ w" rs'] Cons.prems(2) by auto
  then show ?case using w fair_draw.outcome [OF fd w(1)] by (intro exI [of _ "w # ws"]) auto
qed simp

lemma generate_passphrase_words:
  assumes "generate_passphrase wordlist word_count separator rs = Some (s, r)"
  shows "\<exists>ws. length ws = word_count \<and> s = joined separator ws \<and>
    (\<forall>w \<in> set ws. \<exists>i < EFF_WORD_COUNT. eff_word wordlist i = Some w)"
proof (cases word_count)
  case (Suc n)
  have fd: "fair_draw (index_below EFF_WORD_COUNT) {..<EFF_WORD_COUNT}" by (rule index_fair) (simp add: EFF_WORD_COUNT_def)
  have "[0 ..< word_count] = 0 # [Suc 0 ..< word_count]" using Suc by (simp add: upt_conv_Cons)
  with assms obtain i rs' w where w: "index_below EFF_WORD_COUNT rs = Some (i, rs')" "eff_word wordlist i = Some w"
    "passphrase_loop wordlist separator [Suc 0 ..< word_count] w rs' = Some (s, r)"
    by (auto simp: generate_passphrase_def Option.bind_eq_Some_conv)
  from passphrase_loop_words [OF w(3)] obtain ws where "length ws = n"
    "s = w @ concat (map (\<lambda>w. separator @ w) ws)" "\<forall>w \<in> set ws. \<exists>i < EFF_WORD_COUNT. eff_word wordlist i = Some w"
    using Suc by (auto simp del: upt_Suc)
  then show ?thesis using w(2) fair_draw.outcome [OF fd w(1)] Suc by (intro exI [of _ "w # ws"]) (auto simp: joined_def)
qed (use assms in \<open>simp add: generate_passphrase_def joined_def\<close>)

lemma generate_passphrase_fits:
  assumes "wordlist_ok wordlist" and "generate_passphrase wordlist word_count separator rs = Some (s, r)"
  shows "length s \<le> passphrase_capacity word_count separator"
proof -
  obtain ws where "length ws = word_count" "s = joined separator ws"
    "\<forall>w \<in> set ws. \<exists>i < EFF_WORD_COUNT. eff_word wordlist i = Some w"
    using generate_passphrase_words [OF assms(2)] by blast
  then show ?thesis
    using joined_size [of ws separator] assms(1) by (fastforce simp: wordlist_ok_def list_all_iff)
qed

end
