(* ===== verification/Agent_Files.thy ===== *)
theory Agent_Files
  imports Verifier Audit_Log
begin

text \<open>
  The files the agent keeps, from \<open>phone-auth-agent/src\<close>: private files written beside their place
  and renamed into it (\<open>private_files.rs\<close>, as compiled for Unix), where things are (\<open>paths.rs\<close>, as
  compiled for Linux), the configuration (\<open>config.rs\<close>) and the identity key (\<open>identity.rs\<close>).
  Directories have no entry in the model, so a call that narrows one only takes its turn among the
  calls that may fail. Serde, PKCS8 and the environment are parameters.
\<close>

subsection \<open>Private files\<close>

definition PRIVATE_DIR_MODE :: nat where "PRIVATE_DIR_MODE = 7 * 8 * 8"

definition restrict_file :: "path \<Rightarrow> (io_error, unit) io" where
  "restrict_file p = fs_set_permissions p PRIVATE_MODE"

definition restrict_dir :: "path \<Rightarrow> (io_error, unit) io" where
  "restrict_dir p = w_call (\<lambda>_ w. w) (\<lambda>w. (Inr (), w))"

text \<open>\<open>pid\<close> is \<open>process::id()\<close>, \<open>counter\<close> what the static counter held.\<close>

definition temporary_beside :: "nat \<Rightarrow> nat \<Rightarrow> path \<Rightarrow> path" where
  "temporary_beside pid counter p =
    (let name = (if file_name p \<in> {[], ''.'', ''..''} \<or> \<not> is_str (file_name p) then ''f'' else file_name p)
     in take (length p - length (file_name p)) p @ ''.'' @ name @ ''.'' @ decimal pid @ ''.'' @ decimal counter @ ''.tmp'')"

definition private_write_all :: "path \<Rightarrow> bytes \<Rightarrow> (io_error, unit) io" where
  "private_write_all p contents = io_bind (fs_write_all p contents) (\<lambda>_. fs_sync_all p)"

definition write_private :: "nat \<Rightarrow> nat \<Rightarrow> path \<Rightarrow> bytes \<Rightarrow> (io_error, unit) io" where
  "write_private pid counter p contents =
    (case parent_of p of
       None \<Rightarrow> io_fail (OtherIo 22)
     | Some parent \<Rightarrow>
         io_bind (fs_create_dir_all parent) (\<lambda>_.
         io_bind (restrict_dir parent) (\<lambda>_.
         let temporary = temporary_beside pid counter p in
         io_bind (fs_create_new temporary) (\<lambda>_.
         io_match
           (io_bind (fs_set_permissions temporary PRIVATE_MODE) (\<lambda>_.
            io_bind (private_write_all temporary contents) (\<lambda>_.
            fs_rename temporary p)))
           (\<lambda>_. restrict_file p)
           (\<lambda>e. io_match (fs_remove_file temporary) (\<lambda>_. io_fail e) (\<lambda>_. io_fail e))))))"

subsection \<open>Where things are\<close>

record agent_paths =
  ap_config_dir :: path
  ap_data_dir :: path
  ap_runtime_dir :: path

type_synonym environment = "string \<Rightarrow> string option"

definition or_temp :: "string option \<Rightarrow> path" where
  "or_temp dir = (case dir of None \<Rightarrow> ''/tmp'' | Some d \<Rightarrow> d)"

definition platform_paths :: "environment \<Rightarrow> agent_paths" where
  "platform_paths env =
    (let temp = or_temp (env ''TMPDIR'');
         home = (case env ''HOME'' of None \<Rightarrow> temp | Some h \<Rightarrow> h);
         config_home = (case env ''XDG_CONFIG_HOME'' of None \<Rightarrow> path_join home ''.config'' | Some d \<Rightarrow> d);
         data_home = (case env ''XDG_DATA_HOME'' of None \<Rightarrow> path_join home ''.local/share'' | Some d \<Rightarrow> d);
         runtime_home = (case env ''XDG_RUNTIME_DIR'' of None \<Rightarrow> temp | Some d \<Rightarrow> d)
     in \<lparr>ap_config_dir = path_join config_home ''phone-auth'', ap_data_dir = path_join data_home ''phone-auth'',
         ap_runtime_dir = path_join runtime_home ''phone-auth''\<rparr>)"

definition paths_resolve :: "environment \<Rightarrow> path option \<Rightarrow> agent_paths" where
  "paths_resolve env override_root =
    (case override_root of
       Some root \<Rightarrow> \<lparr>ap_config_dir = path_join root ''config'', ap_data_dir = path_join root ''data'',
         ap_runtime_dir = path_join root ''run''\<rparr>
     | None \<Rightarrow> platform_paths env)"

definition config_file :: "agent_paths \<Rightarrow> path" where "config_file p = path_join (ap_config_dir p) ''agent.json''"
definition pairing_file :: "agent_paths \<Rightarrow> path" where "pairing_file p = path_join (ap_data_dir p) ''devices.json''"
definition audit_file :: "agent_paths \<Rightarrow> path" where "audit_file p = path_join (ap_data_dir p) ''audit.jsonl''"
definition identity_file :: "agent_paths \<Rightarrow> path" where "identity_file p = path_join (ap_data_dir p) ''identity.pkcs8''"
definition endpoint_file :: "agent_paths \<Rightarrow> path" where
  "endpoint_file p = path_join (ap_runtime_dir p) ''agent-endpoint.json''"

fun create_dirs :: "path list \<Rightarrow> (io_error, unit) io" where
  "create_dirs [] = io_return ()"
| "create_dirs (d # ds) = io_bind (fs_create_dir_all d) (\<lambda>_. io_bind (restrict_dir d) (\<lambda>_. create_dirs ds))"

definition create_all :: "agent_paths \<Rightarrow> (io_error, unit) io" where
  "create_all p = create_dirs [ap_config_dir p, ap_data_dir p, ap_runtime_dir p]"

text \<open>A file read as text, for the name of the machine.\<close>

definition named :: "string option \<Rightarrow> string option" where
  "named os = (case os of
     Some n \<Rightarrow> if is_str n \<and> str_trim n \<noteq> [] then Some (str_trim n) else None
   | None \<Rightarrow> None)"

definition hostname :: "environment \<Rightarrow> world \<Rightarrow> string \<times> world" where
  "hostname env w =
    (case named (case env ''COMPUTERNAME'' of None \<Rightarrow> env ''HOSTNAME'' | Some n \<Rightarrow> Some n) of
       Some n \<Rightarrow> (n, w)
     | None \<Rightarrow>
         (case fs_read ''/etc/hostname'' w of
            (Inr bs, w) \<Rightarrow> ((case named (from_utf8 bs) of Some n \<Rightarrow> n | None \<Rightarrow> ''This computer''), w)
          | (Inl e, w) \<Rightarrow> (''This computer'', w)))"

subsection \<open>The configuration\<close>

type_synonym port = "16 word"

record agent_config =
  ac_verifier_id :: string
  ac_verifier_name :: string
  ac_ipc_port :: port
  ac_request_validity_ms :: int
  ac_listen_port :: port

record config_json =
  cj_to_vec_pretty :: "agent_config \<Rightarrow> bytes option"
  cj_from_slice :: "bytes \<Rightarrow> agent_config option"

definition default_validity_ms :: int where "default_validity_ms = 60000"

text \<open>\<open>random\<close> is the sixteen random bytes.\<close>

definition config_fresh :: "bytes \<Rightarrow> string \<Rightarrow> agent_config" where
  "config_fresh random name =
    \<lparr>ac_verifier_id = to_hex random, ac_verifier_name = name, ac_ipc_port = 0,
     ac_request_validity_ms = default_validity_ms, ac_listen_port = 0\<rparr>"

definition config_save :: "config_json \<Rightarrow> path \<Rightarrow> agent_config \<Rightarrow> (io_error, unit) io" where
  "config_save cj p config =
    io_bind (case parent_of p of None \<Rightarrow> io_return () | Some parent \<Rightarrow> fs_create_dir_all parent) (\<lambda>_.
    case cj_to_vec_pretty cj config of
      None \<Rightarrow> io_fail invalid_data
    | Some json \<Rightarrow> fs_write p json)"

definition config_load_or_create :: "config_json \<Rightarrow> environment \<Rightarrow> bytes \<Rightarrow> path \<Rightarrow> (io_error, agent_config) io" where
  "config_load_or_create cj env random p =
    io_match (fs_read p)
      (\<lambda>bs. case cj_from_slice cj bs of None \<Rightarrow> io_fail invalid_data | Some config \<Rightarrow> io_return config)
      (\<lambda>e. if e = NotFound
           then io_bind (io_get (hostname env)) (\<lambda>name.
                let config = config_fresh random name
                in io_bind (config_save cj p config) (\<lambda>_. io_return config))
           else io_fail e)"

text \<open>The configuration is changed before it is saved, and stays so if the saving fails.\<close>

definition remember_listen_port ::
    "config_json \<Rightarrow> port \<Rightarrow> path \<Rightarrow> agent_config \<Rightarrow> world \<Rightarrow> (io_error + unit) \<times> agent_config \<times> world" where
  "remember_listen_port cj port p config w =
    (if ac_listen_port config = port then (Inr (), config, w)
     else let config = config\<lparr>ac_listen_port := port\<rparr>; (r, w) = config_save cj p config w in (r, config, w))"

definition config_validate :: "agent_config \<Rightarrow> string + unit" where
  "config_validate config =
    (if trim (chars (ac_verifier_id config)) = [] \<or> length (ac_verifier_id config) > 64
     then Inl ''verifierId must be 1-64 characters''
     else if trim (chars (ac_verifier_name config)) = [] \<or> utf16_len (ac_verifier_name config) > 128
     then Inl ''verifierName must be 1-128 UTF-16 units''
     else if ac_request_validity_ms config \<le> 0 \<or> ac_request_validity_ms config > MAX_VALIDITY_MS
     then Inl (''requestValidityMs must be between 1 and '' @ format_i64 MAX_VALIDITY_MS)
     else Inr ())"

subsection \<open>The identity key\<close>

text \<open>\<open>IdentityKey::from_pkcs8_der\<close>, \<open>to_pkcs8_der\<close> and \<open>generate\<close>, over keys of any type.\<close>

record 'key identity_codec =
  ik_from_pkcs8 :: "bytes \<Rightarrow> 'key option"
  ik_to_pkcs8 :: "'key \<Rightarrow> bytes option"

definition identity_create :: "'key identity_codec \<Rightarrow> nat \<Rightarrow> nat \<Rightarrow> 'key \<Rightarrow> path \<Rightarrow> (io_error, 'key) io" where
  "identity_create ik pid counter generated p =
    (case ik_to_pkcs8 ik generated of
       None \<Rightarrow> io_fail invalid_data
     | Some encoded \<Rightarrow> io_bind (write_private pid counter p encoded) (\<lambda>_. io_return generated))"

definition identity_load_or_create :: "'key identity_codec \<Rightarrow> nat \<Rightarrow> nat \<Rightarrow> 'key \<Rightarrow> path \<Rightarrow> (io_error, 'key) io" where
  "identity_load_or_create ik pid counter generated p =
    io_match (fs_read p)
      (\<lambda>bs. case ik_from_pkcs8 ik bs of None \<Rightarrow> io_fail invalid_data | Some key \<Rightarrow> io_return key)
      (\<lambda>e. if e = NotFound then identity_create ik pid counter generated p else io_fail e)"

subsection \<open>A private file is replaced as a whole\<close>

lemma ascii_decimal: "ascii (decimal n)"
  unfolding ascii_def
proof
  fix c assume "c \<in> set (decimal n)"
  then have "(of_char c :: nat) \<le> 57" using decimal_digits by (auto simp: is_digit_def)
  then show "(of_char c :: nat) < 128" by simp
qed

lemma ascii_Nil: "ascii []"
  by (simp add: ascii_def)

lemma ascii_Cons: "ascii (c # b) \<longleftrightarrow> (of_char c :: nat) < 128 \<and> ascii b"
  by (auto simp: ascii_def)

lemma temporary_beside_neq: "temporary_beside pid counter p \<noteq> p"
proof
  let ?n = "file_name p" and ?tail = "''.'' @ decimal pid @ ''.'' @ decimal counter @ ''.tmp''"
  let ?name = "if ?n \<in> {[], ''.'', ''..''} \<or> \<not> is_str ?n then ''f'' else ?n"
  assume "temporary_beside pid counter p = p"
  then have "take (length p - length ?n) p @ ''.'' @ ?name @ ?tail = take (length p - length ?n) p @ ?n"
    by (simp add: temporary_beside_def file_name_suffix)
  then have n: "?n = ''.'' @ ?name @ ?tail" by simp
  show False
  proof (cases "?n \<in> {[], ''.'', ''..''} \<or> \<not> is_str ?n")
    case True
    then have n': "?n = ''.f'' @ ?tail" using n by simp
    have "ascii (''.f'' @ ?tail)" by (simp add: ascii_Nil ascii_Cons ascii_decimal)
    then have "is_str ?n" unfolding n' by (rule is_str_ascii)
    moreover have "3 < length ?n" unfolding n' by simp
    ultimately show False using True by auto
  next
    case False
    then have "length ?n = length (''.'' @ ?n @ ?tail)" using n by simp
    then show False by simp
  qed
qed

lemma restrict_dir_triple: "io_triple (only_changes t F) (restrict_dir p) (\<lambda>_. only_changes t F) (only_changes t F)"
  by (rule io_tripleI) (auto simp: restrict_dir_def fs_call_defs split: list.splits option.splits)

text \<open>What the place holds after a write that may have failed anywhere: the old file or the new one.\<close>

definition private_left :: "path \<Rightarrow> path \<Rightarrow> (path \<Rightarrow> fs_file option) \<Rightarrow> bytes \<Rightarrow> world \<Rightarrow> bool" where
  "private_left t p F contents w \<longleftrightarrow>
    only_changes t F w \<or> replaced t p F \<lparr>fl_content = contents, fl_mode = PRIVATE_MODE\<rparr> w"

lemma write_private_triple:
  assumes t_def: "t = temporary_beside pid counter p"
  shows "io_triple (\<lambda>w. w_files w = F) (write_private pid counter p contents)
    (\<lambda>_. replaced t p F \<lparr>fl_content = contents, fl_mode = PRIVATE_MODE\<rparr>) (private_left t p F contents)"
proof (cases "parent_of p")
  case None
  then show ?thesis
    by (auto simp: write_private_def io_triple_def io_fail_def private_left_def only_changes_def)
next
  case (Some parent)
  let ?new = "replaced t p F \<lparr>fl_content = contents, fl_mode = PRIVATE_MODE\<rparr>" and ?E = "private_left t p F contents"
  have t: "t \<noteq> p" "p \<noteq> t" unfolding t_def using temporary_beside_neq by metis+
  have keep: "only_changes t F w \<Longrightarrow> ?E w" and new: "?new w \<Longrightarrow> ?E w" for w by (simp_all add: private_left_def)
  have body: "io_triple (scratch_holds t F (\<lambda>f. fl_content f = []))
      (io_bind (fs_set_permissions t PRIVATE_MODE) (\<lambda>_. io_bind (private_write_all t contents) (\<lambda>_. fs_rename t p)))
      (\<lambda>_. ?new) (only_changes t F)"
  proof (rule io_triple_bind [OF set_permissions_triple])
    have "io_triple (scratch_holds t F (\<lambda>f. fl_content f = [] \<and> fl_mode f = PRIVATE_MODE)) (private_write_all t contents)
        (\<lambda>_. scratch_holds t F (\<lambda>f. f = \<lparr>fl_content = contents, fl_mode = PRIVATE_MODE\<rparr>)) (only_changes t F)"
      unfolding private_write_all_def
      using io_triple_bind [OF write_all_triple [of t F "[]" PRIVATE_MODE contents] sync_all_triple] by simp
    then show "io_triple (scratch_holds t F (\<lambda>f. fl_content f = [] \<and> fl_mode f = PRIVATE_MODE))
        (io_bind (private_write_all t contents) (\<lambda>_. fs_rename t p)) (\<lambda>_. ?new) (only_changes t F)" for x
      by (rule io_triple_bind [OF _ rename_triple])
  qed
  have last: "io_triple ?new (restrict_file p) (\<lambda>_. ?new) ?E"
    using t by (intro io_tripleI) (auto simp: restrict_file_def fs_set_permissions_def fs_call_defs replaced_def
        private_left_def fun_upd_idem split: list.splits option.splits)
  have undo: "io_triple (only_changes t F) (io_match (fs_remove_file t) (\<lambda>_. io_fail e) (\<lambda>_. io_fail e)) (\<lambda>_. ?new) ?E"
    for e :: io_error
    by (rule io_match_triple [OF remove_file_triple])
      (auto simp: io_triple_def io_fail_def keep)
  have all: "io_triple (scratch_holds t F (\<lambda>f. fl_content f = []))
      (io_match (io_bind (fs_set_permissions t PRIVATE_MODE) (\<lambda>_. io_bind (private_write_all t contents) (\<lambda>_. fs_rename t p)))
        (\<lambda>_. restrict_file p) (\<lambda>e. io_match (fs_remove_file t) (\<lambda>_. io_fail e) (\<lambda>_. io_fail e))) (\<lambda>_. ?new) ?E"
    by (rule io_match_triple [OF body last undo])
  have "io_triple (only_changes t F) (fs_create_new t) (\<lambda>_. scratch_holds t F (\<lambda>f. fl_content f = [])) ?E"
    by (rule io_triple_weaken [OF create_new_triple], assumption, rule keep)
  from io_triple_bind [OF this all] have made: "io_triple (only_changes t F) (io_bind (fs_create_new t) (\<lambda>_.
      io_match (io_bind (fs_set_permissions t PRIVATE_MODE) (\<lambda>_. io_bind (private_write_all t contents) (\<lambda>_. fs_rename t p)))
        (\<lambda>_. restrict_file p) (\<lambda>e. io_match (fs_remove_file t) (\<lambda>_. io_fail e) (\<lambda>_. io_fail e)))) (\<lambda>_. ?new) ?E" .
  have dirs: "io_triple (only_changes t F) (fs_create_dir_all parent) (\<lambda>_. only_changes t F) ?E"
    "io_triple (only_changes t F) (restrict_dir parent) (\<lambda>_. only_changes t F) ?E"
    by (rule io_triple_weaken [OF create_dir_all_triple], assumption, erule keep,
        rule io_triple_weaken [OF restrict_dir_triple], assumption, erule keep)
  have "io_triple (only_changes t F) (write_private pid counter p contents) (\<lambda>_. ?new) ?E"
    unfolding write_private_def Some option.case Let_def t_def [symmetric]
    by (rule io_triple_bind [OF dirs(1)], rule io_triple_bind [OF dirs(2)], rule made)
  then show ?thesis by (auto simp: io_triple_def only_changes_def)
qed

subsection \<open>An identity is never replaced\<close>

lemma fs_read_files: "fs_read p w = (r, w') \<Longrightarrow> w_files w' = w_files w"
  by (auto simp: fs_read_def w_call_def split: list.splits option.splits)

text \<open>Whatever is in the file, and whatever fails, the file stays; what cannot be read is an error.\<close>

lemma identity_kept:
  assumes "w_files w p = Some f" and "identity_load_or_create ik pid counter generated p w = (r, w')"
    and "\<not> (\<exists>n fs. w_faults w = Some (NotFound, n) # fs)"
  shows "w_files w' = w_files w \<and> (case r of Inr key \<Rightarrow> ik_from_pkcs8 ik (fl_content f) = Some key | Inl e \<Rightarrow> True)"
proof -
  obtain q w1 where q: "fs_read p w = (q, w1)" by fastforce
  have "q \<noteq> Inl NotFound" "\<And>bs. q = Inr bs \<Longrightarrow> bs = fl_content f"
    using q assms(1,3) by (auto simp: fs_read_def w_call_def split: list.splits option.splits)
  then show ?thesis
    using assms(2) q fs_read_files [OF q]
    by (auto simp: identity_load_or_create_def io_match_def io_fail_def io_return_def split: sum.splits option.splits if_splits)
qed

text \<open>A key that was created is the key that is loaded from then on.\<close>

lemma identity_loads_back:
  assumes "identity_create ik pid counter key p w = (Inr k, w')"
    and "\<And>k bs. ik_to_pkcs8 ik k = Some bs \<Longrightarrow> ik_from_pkcs8 ik bs = Some k" and "w_faults w'' = []"
    and "w_files w'' p = w_files w' p"
  shows "k = key \<and> identity_load_or_create ik pid' counter' other p w'' = (Inr key, w'')"
proof -
  obtain bs where bs: "ik_to_pkcs8 ik key = Some bs" "write_private pid counter p bs w = (Inr (), w')" "k = key"
    using assms(1) by (auto simp: identity_create_def io_bind_iff io_return_iff io_fail_iff split: option.splits)
  have "w_files w' p = Some \<lparr>fl_content = bs, fl_mode = PRIVATE_MODE\<rparr>"
    using io_tripleD(2) [OF write_private_triple [OF refl] refl bs(2)] by (simp add: replaced_def)
  then show ?thesis
    using assms(2) [OF bs(1)] bs(3) assms(3,4)
    by (simp add: identity_load_or_create_def io_match_def fs_read_def w_call_def io_return_def)
qed

subsection \<open>A configuration that is accepted\<close>

lemma utf8_chars_utf16_le: "utf8_chars bs = Some cs \<Longrightarrow> sum_list (map len_utf16 cs) \<le> length bs"
proof (induction bs arbitrary: cs rule: utf8_chars.induct)
  case (2 b bs)
  then obtain c r ds where r: "utf8_next (b # bs) = Some (c, r)" "utf8_chars r = Some ds" "cs = c # ds"
    by (auto split: option.splits prod.splits simp del: utf8_next.simps)
  from 2(1) [OF r(1) refl] r(2) have "sum_list (map len_utf16 ds) \<le> length r" by simp
  then show ?case using utf8_next_size(1,3) [OF r(1)] r(3) by simp
qed simp

lemma utf16_len_bytes: "utf16_len s \<le> length s"
  using utf8_chars_utf16_le [of "as_bytes s"] by (auto simp: utf16_len_def chars_def split: option.splits)

lemma check_hex_id: "length bs = 16 \<Longrightarrow> check_text ''requestId'' (to_hex bs) 64 = Inr ()"
proof (rule check_text_ascii [OF to_hex_ascii])
  assume len: "length bs = 16"
  then obtain b r where bs: "bs = b # r" by (cases bs) auto
  have "\<forall>i < 16. \<not> is_whitespace (of_char (HEX_DIGITS ! i))"
    unfolding all_less_16 by (simp add: HEX_DIGITS_def upt_rec nth_Cons' is_whitespace_def)
  with nibbles(1) [of b] show "\<exists>c \<in> set (to_hex bs). \<not> is_whitespace (of_char c)" by (simp add: bs)
qed simp

text \<open>With an accepted configuration, only the fields a caller chose can make a request invalid.\<close>

lemma valid_config_requests:
  assumes "config_validate config = Inr ()" and "length id_bytes = 16"
    and "vf_identity v = \<lparr>vi_verifier_id = ac_verifier_id config, vi_verifier_name = ac_verifier_name config\<rparr>"
    and "sp_validity_ms spec = ac_request_validity_ms config" and "is_i64 (now_ms + MAX_VALIDITY_MS)" and "is_i64 now_ms"
  shows "validate_request (issued_request spec session now_ms id_bytes challenge_bytes v) =
    for_each_ok (\<lambda>(field, value, n). check_text field value n)
      [(''credentialId'', sp_credential_id spec, 64), (''service'', spec_service spec, 64),
       (''action'', spec_action spec, 128), (''resource'', spec_resource spec, 256), (''user'', spec_user spec, 128)]"
proof -
  have id: "check_text ''verifierId'' (ac_verifier_id config) 64 = Inr ()"
    and name: "check_text ''verifierName'' (ac_verifier_name config) 128 = Inr ()"
    and ms: "0 < ac_request_validity_ms config" "ac_request_validity_ms config \<le> MAX_VALIDITY_MS"
    using assms(1) utf16_len_bytes [of "ac_verifier_id config"]
    by (auto simp: config_validate_def check_text_def Let_def split: if_splits)
  have window: "check_window now_ms (saturating_add_i64 now_ms (clamp_i64 1 MAX_VALIDITY_MS (sp_validity_ms spec))) = Inr ()"
    using ms assms(4-6)
    by (auto simp: check_window_iff saturating_add_i64_def clamp_i64_def is_i64_def)
  have rid: "check_text ''requestId'' (random_request_id id_bytes) 64 = Inr ()"
    using check_hex_id [OF assms(2)] by (simp add: random_request_id_def)
  show ?thesis
    by (simp add: validate_request_def issued_request_def assms(3) rid id name window)
qed

subsection \<open>A configuration that is cut short\<close>

text \<open>Saving writes in place: cut short, it leaves a file that the next start refuses.\<close>

lemma config_torn:
  assumes "parent_of p \<noteq> None" and "w_faults w = [None, None, Some (err, n)]"
    and "cj_to_vec_pretty cj (config\<lparr>ac_listen_port := port\<rparr>) = Some json" and "cj_from_slice cj (take n json) = None"
    and "ac_listen_port config \<noteq> port"
  shows "\<exists>w'. remember_listen_port cj port p config w = (Inl err, config\<lparr>ac_listen_port := port\<rparr>, w') \<and>
    config_load_or_create cj env random p w' = (Inl invalid_data, w')"
  using assms
  by (auto simp: remember_listen_port_def config_save_def fs_write_def config_load_or_create_def io_match_def
      fs_read_def io_defs fs_defs split: option.splits)

end
