(* ===== verification/Transport.thy ===== *)
theory Transport
  imports File_System
begin

text \<open>
  The registry of transports, \<open>phone-auth-agent/src/transport.rs\<close>: which links can open a session
  now, and trying them in order. A transport is a record of its methods over a state \<open>'w\<close>; a
  session is of any type \<open>'s\<close>.
\<close>

datatype transport_availability = Ready | Unavailable string | Unimplemented string

definition is_ready :: "transport_availability \<Rightarrow> bool" where
  "is_ready a \<longleftrightarrow> a = Ready"

record ('w, 's) transport =
  tp_name :: string
  tp_description :: string
  tp_availability :: "'w \<Rightarrow> transport_availability"
  tp_set_known_peers :: "(string \<Rightarrow> bytes option) \<Rightarrow> 'w \<Rightarrow> 'w"
  tp_connect :: "string \<Rightarrow> string \<Rightarrow> ('w, string, 's) io_on"

record transport_status =
  tu_name :: string
  tu_description :: string
  tu_availability :: transport_availability

definition planned_transport :: "string \<Rightarrow> string \<Rightarrow> string \<Rightarrow> ('w, 's) transport" where
  "planned_transport name description blocked_on =
    \<lparr>tp_name = name, tp_description = description, tp_availability = (\<lambda>_. Unimplemented blocked_on),
     tp_set_known_peers = (\<lambda>_ w. w),
     tp_connect = (\<lambda>_ _. io_fail (name @ '' is not implemented: '' @ blocked_on))\<rparr>"

definition registry_new :: "('w, 's) transport list \<Rightarrow> ('w, 's) transport list" where
  "registry_new available =
    (if list_ex (\<lambda>t. tp_name t = ''BleTransport'') available then available
     else available @ [planned_transport ''BleTransport'' ''Bluetooth Low Energy link to a paired phone''
       ''a supported desktop GATT peripheral (Linux BlueZ is implemented)''])"

definition registry_set_known_peers :: "('w, 's) transport list \<Rightarrow> (string \<Rightarrow> bytes option) \<Rightarrow> 'w \<Rightarrow> 'w" where
  "registry_set_known_peers transports peers = fold (\<lambda>t. tp_set_known_peers t peers) transports"

definition registry_status :: "('w, 's) transport list \<Rightarrow> 'w \<Rightarrow> transport_status list" where
  "registry_status transports w =
    map (\<lambda>t. \<lparr>tu_name = tp_name t, tu_description = tp_description t, tu_availability = tp_availability t w\<rparr>)
      transports"

definition has_ready_transport :: "('w, 's) transport list \<Rightarrow> 'w \<Rightarrow> bool" where
  "has_ready_transport transports w \<longleftrightarrow> list_ex (\<lambda>t. is_ready (tp_availability t w)) transports"

fun join :: "string \<Rightarrow> string list \<Rightarrow> string" where
  "join sep [] = []"
| "join sep [x] = x"
| "join sep (x # xs) = x @ sep @ join sep xs"

fun connect_each ::
    "string \<Rightarrow> string \<Rightarrow> string list \<Rightarrow> ('w, 's) transport list \<Rightarrow> ('w, string, 's) io_on" where
  "connect_each device_id credential_id errors [] = io_fail (join ''; '' errors)"
| "connect_each device_id credential_id errors (t # ts) =
    io_match (tp_connect t device_id credential_id)
      io_return
      (\<lambda>error. connect_each device_id credential_id (errors @ [tp_name t @ '': '' @ error]) ts)"

definition registry_connect :: "('w, 's) transport list \<Rightarrow> string \<Rightarrow> string \<Rightarrow> ('w, string, 's) io_on" where
  "registry_connect transports device_id credential_id w =
    (let ready = filter (\<lambda>t. is_ready (tp_availability t w)) transports in
     if ready = [] then
       (Inl ''no transport can reach a phone yet; see `transports` in `phone-auth status`'', w)
     else connect_each device_id credential_id [] ready w)"

subsection \<open>What a registry answers\<close>

text \<open>The failed attempts, in order, and the state they leave.\<close>

inductive attempts_fail ::
    "string \<Rightarrow> string \<Rightarrow> ('w, 's) transport list \<Rightarrow> 'w \<Rightarrow> string list \<Rightarrow> 'w \<Rightarrow> bool" for d c where
  none_left: "attempts_fail d c [] w [] w"
| next_fails: "tp_connect t d c w = (Inl e, w') \<Longrightarrow> attempts_fail d c ts w' es w'' \<Longrightarrow>
    attempts_fail d c (t # ts) w ((tp_name t @ '': '' @ e) # es) w''"

inductive_simps attempts_fail_Nil [simp]: "attempts_fail d c [] w es w'"
inductive_simps attempts_fail_Cons: "attempts_fail d c (t # ts) w es w'"

inductive connects ::
    "string \<Rightarrow> string \<Rightarrow> ('w, 's) transport list \<Rightarrow> 'w \<Rightarrow> string list \<Rightarrow> 's \<Rightarrow> 'w \<Rightarrow> bool" for d c where
  now: "tp_connect t d c w = (Inr s, w') \<Longrightarrow> connects d c (t # ts) w [] s w'"
| later: "tp_connect t d c w = (Inl e, w') \<Longrightarrow> connects d c ts w' es s w'' \<Longrightarrow>
    connects d c (t # ts) w ((tp_name t @ '': '' @ e) # es) s w''"

inductive_simps connects_Nil [simp]: "connects d c [] w es s w'"
inductive_simps connects_Cons: "connects d c (t # ts) w es s w'"

lemma connect_each_Inr: "connect_each d c errors ts w = (Inr s, w') \<longleftrightarrow> (\<exists>es. connects d c ts w es s w')"
proof (induction ts arbitrary: errors w)
  case Nil
  then show ?case by (simp add: io_fail_def)
next
  case (Cons t ts)
  obtain r w1 where r: "tp_connect t d c w = (r, w1)" by fastforce
  then show ?case
    by (cases r) (auto simp: io_match_def io_return_def Cons.IH connects_Cons)
qed

lemma connect_each_Inl:
  "connect_each d c errors ts w = (Inl e, w') \<longleftrightarrow>
    (\<exists>es. attempts_fail d c ts w es w' \<and> e = join ''; '' (errors @ es))"
proof (induction ts arbitrary: errors w)
  case Nil
  then show ?case by (auto simp: io_fail_def)
next
  case (Cons t ts)
  obtain r w1 where r: "tp_connect t d c w = (r, w1)" by fastforce
  then show ?case
    by (cases r) (auto simp: io_match_def io_return_def Cons.IH attempts_fail_Cons)
qed

text \<open>
  What callers rely on. \<open>inv\<close> is what every transport keeps of the shared state, \<open>serves\<close> what it
  promises of a session it hands out for a device and a credential.
\<close>

locale transports =
  fixes ts :: "('w, 's) transport list"
    and inv :: "'w \<Rightarrow> bool"
    and serves :: "'w \<Rightarrow> string \<Rightarrow> string \<Rightarrow> 's \<Rightarrow> bool"
  assumes connect_keeps: "t \<in> set ts \<Longrightarrow> inv w \<Longrightarrow> tp_connect t d c w = (r, w') \<Longrightarrow> inv w'"
    and connect_serves: "t \<in> set ts \<Longrightarrow> inv w \<Longrightarrow> tp_connect t d c w = (Inr s, w') \<Longrightarrow> serves w d c s"
    and failure_changes_nothing_served: "t \<in> set ts \<Longrightarrow> inv w \<Longrightarrow> tp_connect t d c w = (Inl e, w') \<Longrightarrow>
      serves w' d c s \<Longrightarrow> serves w d c s"
begin

lemma attempts_keep:
  "attempts_fail d c us w es w' \<Longrightarrow> set us \<subseteq> set ts \<Longrightarrow> inv w \<Longrightarrow>
    inv w' \<and> (\<forall>s. serves w' d c s \<longrightarrow> serves w d c s)"
proof (induction rule: attempts_fail.induct)
  case (next_fails t w e w' ts' es w'')
  then have "inv w'" using connect_keeps by auto
  with next_fails failure_changes_nothing_served show ?case by fastforce
qed simp

lemma connects_keep:
  "connects d c us w es s w' \<Longrightarrow> set us \<subseteq> set ts \<Longrightarrow> inv w \<Longrightarrow> inv w' \<and> serves w d c s"
proof (induction rule: connects.induct)
  case (now t w s w' us)
  with connect_keeps [of t w d c] connect_serves [of t w d c] show ?case by auto
next
  case (later t w e w' us es s w'')
  then have "inv w'" using connect_keeps by auto
  with later failure_changes_nothing_served show ?case by auto
qed

lemma registry_keeps:
  assumes "inv w" and "registry_connect ts d c w = (r, w')"
  shows "inv w' \<and> (\<forall>s. r = Inr s \<longrightarrow> serves w d c s)"
proof -
  define us where "us = filter (\<lambda>t. is_ready (tp_availability t w)) ts"
  have us: "set us \<subseteq> set ts" by (auto simp: us_def)
  show ?thesis
  proof (cases "us = []")
    case True
    with assms show ?thesis by (auto simp: registry_connect_def us_def Let_def)
  next
    case False
    with assms(2) have c: "connect_each d c [] us w = (r, w')" by (simp add: registry_connect_def us_def Let_def)
    show ?thesis
    proof (cases r)
      case (Inl e)
      with c obtain es where "attempts_fail d c us w es w'" by (auto simp: connect_each_Inl)
      with attempts_keep [OF _ us assms(1)] Inl show ?thesis by auto
    next
      case (Inr s)
      with c obtain es where "connects d c us w es s w'" by (auto simp: connect_each_Inr)
      with connects_keep [OF _ us assms(1)] Inr show ?thesis by auto
    qed
  qed
qed

end

end
