(* ===== verification/Qr_Network.thy ===== *)
theory Qr_Network
  imports Handshake Session_Attach Enrolment Verifier File_System Transport
begin

text \<open>
  The listening transport of the agent, \<open>phone-auth-agent/src/qr_network.rs\<close>: what an inbound
  connection has to prove, the pool of idle sessions it is parked in, and pairing. A socket is what will arrive on it, what was sent and whether sending works. The
  code takes its lock three times while it serves a connection, so serving is split where other
  threads may come in between. An error is kept as what it is and not as its text.
\<close>

subsection \<open>Sockets\<close>

record socket =
  sk_arrivals :: "arrival list"
  sk_sent :: bytes
  sk_works :: bool

definition sock_send :: "bytes \<Rightarrow> (socket, stream_error, unit) io_on" where
  "sock_send frame s =
    (case write_frame (sk_works s) frame (sk_sent s) of
       Inl e \<Rightarrow> (Inl e, s)
     | Inr sent \<Rightarrow> (Inr (), s\<lparr>sk_sent := sent\<rparr>))"

definition sock_receive :: "(socket, stream_error, bytes) io_on" where
  "sock_receive s = (case read_frame (sk_arrivals s) of (r, rest) \<Rightarrow> (r, s\<lparr>sk_arrivals := rest\<rparr>))"

subsection \<open>State\<close>

definition TRANSPORT_NAME :: string where "TRANSPORT_NAME = ''QrNetworkTransport''"
definition SESSION_IDLE_TIMEOUT :: int where "SESSION_IDLE_TIMEOUT = 300000"
definition MAX_SESSIONS_PER_DEVICE :: nat where "MAX_SESSIONS_PER_DEVICE = 8"

record pairing_proposal =
  pg_attempt_id :: string
  pg_device_id :: string
  pg_device_name :: string
  pg_session_identity_spki :: bytes
  pg_credential_id :: string
  pg_algorithm :: string
  pg_credential_public_key :: bytes
  pg_key_kind :: key_kind
  pg_purpose :: credential_purpose
  pg_verification_code :: string

record parked_session =
  qs_channel :: secure_channel
  qs_socket :: socket
  qs_origin :: string
  qs_parked_at :: int

type_synonym session_key = "string \<times> string option"

text \<open>A hash map is a list of its entries, in the order it happens to give them.\<close>

type_synonym session_pool = "(session_key \<times> parked_session) list"

datatype connection_error =
  ConnStream stream_error
  | ConnSession session_error
  | ConnProtocol protocol_error
  | ConnCbor cbor_error
  | NotPaired string
  | WrongPurpose credential_purpose credential_purpose
  | NotAnAttach

record listener =
  ln_sessions :: session_pool
  ln_known_peers :: "string \<Rightarrow> bytes option"
  ln_armed_pairing :: "server_bootstrap option"
  ln_proposal :: "pairing_proposal option"
  ln_listener_error :: "string option"
  ln_last_connection_error :: "connection_error option"

record 'secret listener_config =
  lg_identity :: 'secret
  lg_verifier_id :: string
  lg_is_development :: bool
  lg_idle_timeout :: int

definition listener_new :: listener where
  "listener_new = \<lparr>ln_sessions = [], ln_known_peers = Map.empty, ln_armed_pairing = None, ln_proposal = None,
     ln_listener_error = None, ln_last_connection_error = None\<rparr>"

definition set_known_peers :: "(string \<Rightarrow> bytes option) \<Rightarrow> listener \<Rightarrow> listener" where
  "set_known_peers peers st = st\<lparr>ln_known_peers := peers\<rparr>"

definition arm_pairing :: "server_bootstrap \<Rightarrow> listener \<Rightarrow> listener" where
  "arm_pairing bootstrap st = st\<lparr>ln_proposal := None, ln_armed_pairing := Some bootstrap\<rparr>"

definition transport_cancel_pairing :: "listener \<Rightarrow> listener" where
  "transport_cancel_pairing st = st\<lparr>ln_armed_pairing := None, ln_proposal := None\<rparr>"

definition take_proposal :: "listener \<Rightarrow> pairing_proposal option \<times> listener" where
  "take_proposal st = (ln_proposal st, st\<lparr>ln_proposal := None\<rparr>)"

text \<open>An accept that works clears what an earlier one left; only this decides the availability.\<close>

definition accepted_connection :: "listener \<Rightarrow> listener" where
  "accepted_connection st = st\<lparr>ln_listener_error := None\<rparr>"

definition accept_failed :: "string \<Rightarrow> listener \<Rightarrow> listener" where
  "accept_failed error st = st\<lparr>ln_listener_error := Some (''accept failed: '' @ error)\<rparr>"

definition network_availability :: "listener \<Rightarrow> transport_availability" where
  "network_availability st =
    (case ln_listener_error st of Some error \<Rightarrow> Unavailable error | None \<Rightarrow> Ready)"

text \<open>\<open>TcpListener::bind\<close> on every interface is an argument; port 0 asks for any port.\<close>

datatype bind_error = AddrInUse | BindOther string

definition bind_listener :: "(16 word \<Rightarrow> bind_error + 'listener) \<Rightarrow> 16 word \<Rightarrow> bind_error + 'listener" where
  "bind_listener bind port =
    (case bind port of
       Inl e \<Rightarrow> if port \<noteq> 0 \<and> e = AddrInUse then bind 0 else Inl e
     | Inr l \<Rightarrow> Inr l)"

subsection \<open>The pool\<close>

definition of_device :: "string \<Rightarrow> session_key \<times> parked_session \<Rightarrow> bool" where
  "of_device device_id entry \<longleftrightarrow> fst (fst entry) = device_id"

definition pool_remove :: "session_key \<Rightarrow> session_pool \<Rightarrow> session_pool" where
  "pool_remove key = filter (\<lambda>entry. fst entry \<noteq> key)"

definition discard_sessions :: "string \<Rightarrow> listener \<Rightarrow> listener" where
  "discard_sessions device_id st = st\<lparr>ln_sessions := filter (\<lambda>entry. \<not> of_device device_id entry) (ln_sessions st)\<rparr>"

text \<open>\<open>open_end\<close> is what a peek at each socket says at this moment.\<close>

definition discard_stale :: "int \<Rightarrow> int \<Rightarrow> (parked_session \<Rightarrow> bool) \<Rightarrow> session_pool \<Rightarrow> session_pool" where
  "discard_stale now idle_timeout open_end =
    filter (\<lambda>(key, session). now - qs_parked_at session < idle_timeout \<and> open_end session)"

definition parked_credentials :: "string \<Rightarrow> session_pool \<Rightarrow> string option list" where
  "parked_credentials device_id pool = map (snd \<circ> fst) (filter (of_device device_id) pool)"

fun min_parked :: "session_pool \<Rightarrow> (session_key \<times> parked_session) option" where
  "min_parked [] = None"
| "min_parked (x # xs) =
    (case min_parked xs of
       None \<Rightarrow> Some x
     | Some y \<Rightarrow> if qs_parked_at (snd x) \<le> qs_parked_at (snd y) then Some x else Some y)"

lemma min_parked_None [simp]: "min_parked pool = None \<longleftrightarrow> pool = []"
  by (cases pool) (auto split: option.splits)

lemma min_parked_in: "min_parked pool = Some x \<Longrightarrow> x \<in> set pool"
  by (induction pool arbitrary: x) (auto split: option.splits if_splits)

function enforce_session_cap :: "string \<Rightarrow> session_pool \<Rightarrow> session_pool" where
  "enforce_session_cap device_id pool =
    (if length (filter (of_device device_id) pool) \<ge> MAX_SESSIONS_PER_DEVICE then
       (case min_parked (filter (of_device device_id) pool) of
          None \<Rightarrow> pool
        | Some (oldest, _) \<Rightarrow> enforce_session_cap device_id (pool_remove oldest pool))
     else pool)"
  by pat_completeness auto
termination
proof (relation "measure (length \<circ> snd)", simp)
  fix device_id pool and x :: "session_key \<times> parked_session" and oldest s
  assume "min_parked (filter (of_device device_id) pool) = Some x" and x: "(oldest, s) = x"
  then have "x \<in> set pool" using min_parked_in by fastforce
  then show "((device_id, pool_remove oldest pool), device_id, pool) \<in> measure (length \<circ> snd)"
    using x by (auto simp: pool_remove_def intro!: length_filter_less)
qed

declare enforce_session_cap.simps [simp del]

definition take_matching :: "string \<Rightarrow> string \<Rightarrow> session_pool \<Rightarrow> parked_session option \<times> session_pool" where
  "take_matching device_id cred pool =
    (case map_of pool (device_id, Some cred) of
       Some session \<Rightarrow> (Some session, pool_remove (device_id, Some cred) pool)
     | None \<Rightarrow> (map_of pool (device_id, None), pool_remove (device_id, None) pool))"

definition sweep :: "int \<Rightarrow> int \<Rightarrow> (parked_session \<Rightarrow> bool) \<Rightarrow> listener \<Rightarrow> listener" where
  "sweep now idle_timeout open_end st =
    st\<lparr>ln_sessions := discard_stale now idle_timeout open_end (ln_sessions st)\<rparr>"

subsection \<open>Serving a connection\<close>

text \<open>Nothing is verified here; the id only chooses the stored key.\<close>

definition then_peek :: "cbor_error + 'a \<Rightarrow> ('a \<Rightarrow> connection_error + 'b) \<Rightarrow> connection_error + 'b" where
  "then_peek m k = then_ok (map_err ConnCbor m) k"

definition peek_device_id :: "bytes \<Rightarrow> connection_error + string" where
  "peek_device_id client_frame =
    (let r = reader_new client_frame in
     then_peek (r_array r) (\<lambda>(_, r).
     then_peek (r_bytes r) (\<lambda>(unsigned, _).
     let r = reader_new unsigned in
     then_peek (r_array r) (\<lambda>(_, r).
     then_peek (r_uint r) (\<lambda>(_, r).
     then_peek (r_uint r) (\<lambda>(_, r).
     then_peek (r_text r) (\<lambda>(_, r).
     then_peek (r_bytes r) (\<lambda>(_, r).
     then_peek (r_text r) (\<lambda>(_, r).
     then_peek (r_int r) (\<lambda>(_, r).
     then_peek (r_text r) (\<lambda>(device_id, _). Inr device_id)))))))))))"

text \<open>A record read under the short timeout of \<open>read_attach\<close> and \<open>peek_enrolment\<close>: a timeout is no error.\<close>

definition read_or_silence :: "(socket, connection_error, bytes option) io_on" where
  "read_or_silence =
    io_match sock_receive
      (\<lambda>record. io_return (Some record))
      (\<lambda>e. if e = TimedOut then io_return None else io_fail (ConnStream e))"

definition open_on ::
    "('key, 'sig, 'secret) crypto \<Rightarrow> bytes \<Rightarrow> secure_channel \<Rightarrow> connection_error + bytes \<times> secure_channel" where
  "open_on cr record channel =
    (case open_record cr record channel of
       (Inl e, _) \<Rightarrow> Inl (ConnSession e)
     | (Inr frame, channel) \<Rightarrow> Inr (frame, channel))"

definition decode_enrolment_on ::
    "('key, 'sig, 'secret) crypto \<Rightarrow> bytes \<Rightarrow> secure_channel \<Rightarrow> connection_error + enrolment \<times> secure_channel" where
  "decode_enrolment_on cr record channel =
    then_ok (open_on cr record channel) (\<lambda>(frame, channel).
    then_ok (map_err ConnProtocol (decode_enrolment frame)) (\<lambda>enrolment. Inr (enrolment, channel)))"

definition read_enrolment ::
    "('key, 'sig, 'secret) crypto \<Rightarrow> secure_channel \<Rightarrow>
     (socket, connection_error, enrolment option \<times> secure_channel) io_on" where
  "read_enrolment cr channel =
    io_bind (io_map_err ConnStream sock_receive) (\<lambda>record.
    io_bind (io_of (decode_enrolment_on cr record channel)) (\<lambda>(enrolment, channel).
    io_return (Some enrolment, channel)))"

definition peek_enrolment ::
    "('key, 'sig, 'secret) crypto \<Rightarrow> secure_channel \<Rightarrow>
     (socket, connection_error, enrolment option \<times> secure_channel) io_on" where
  "peek_enrolment cr channel =
    io_bind read_or_silence (\<lambda>record.
    case record of
      None \<Rightarrow> io_return (None, channel)
    | Some record \<Rightarrow>
        io_bind (io_of (decode_enrolment_on cr record channel)) (\<lambda>(enrolment, channel).
        io_return (Some enrolment, channel)))"

definition read_attach ::
    "('key, 'sig, 'secret) crypto \<Rightarrow> secure_channel \<Rightarrow>
     (socket, connection_error, string option \<times> secure_channel) io_on" where
  "read_attach cr channel =
    io_bind read_or_silence (\<lambda>record.
    case record of
      None \<Rightarrow> io_return (None, channel)
    | Some record \<Rightarrow>
        io_of (then_ok (open_on cr record channel) (\<lambda>(frame, channel).
          if \<not> attach_recognizes frame then Inl NotAnAttach
          else then_ok (map_err ConnProtocol (decode_attach frame)) (\<lambda>attach.
            Inr (Some (at_credential_id attach), channel)))))"

record connection_randoms =
  cx_session_id :: string
  cx_nonce :: bytes
  cx_secret :: bytes
  cx_attempt_id :: string

definition connection_bootstrap ::
    "('key, 'sig, 'secret) crypto \<Rightarrow> 'secret listener_config \<Rightarrow> connection_randoms \<Rightarrow> int \<Rightarrow>
     server_bootstrap option \<Rightarrow> connection_error + server_bootstrap" where
  "connection_bootstrap cr cfg rnd now_ms armed =
    (case armed of
       Some bootstrap \<Rightarrow> Inr bootstrap
     | None \<Rightarrow> map_err ConnSession (bootstrap_new cr (cx_nonce rnd) (cx_session_id rnd) (lg_verifier_id cfg) []
         (lg_identity cfg) now_ms DEFAULT_LIFETIME_MS))"

definition connection_enrolment ::
    "('key, 'sig, 'secret) crypto \<Rightarrow> server_bootstrap option \<Rightarrow> handshake_outcome \<Rightarrow>
     (socket, connection_error, enrolment option \<times> secure_channel) io_on" where
  "connection_enrolment cr armed outcome =
    (if ho_was_pairing outcome then read_enrolment cr (ho_channel outcome)
     else if armed \<noteq> None then
       (case ho_intent outcome of
          Some PairIntent \<Rightarrow> read_enrolment cr (ho_channel outcome)
        | Some ResumeIntent \<Rightarrow> io_return (None, ho_channel outcome)
        | None \<Rightarrow> peek_enrolment cr (ho_channel outcome))
     else io_return (None, ho_channel outcome))"

definition proposal_of :: "string \<Rightarrow> handshake_outcome \<Rightarrow> enrolment \<Rightarrow> pairing_proposal" where
  "proposal_of attempt_id outcome enrolment =
    \<lparr>pg_attempt_id = attempt_id, pg_device_id = ho_peer_device_id outcome, pg_device_name = en_device_name enrolment,
     pg_session_identity_spki = ho_peer_identity_spki outcome, pg_credential_id = en_credential_id enrolment,
     pg_algorithm = en_algorithm enrolment, pg_credential_public_key = en_public_key enrolment,
     pg_key_kind = en_key_kind enrolment, pg_purpose = en_purpose enrolment,
     pg_verification_code = ho_verification_code outcome\<rparr>"

datatype accepted =
  Proposes pairing_proposal
  | Parks session_key secure_channel

definition finish_as ::
    "('key, 'sig, 'secret) crypto \<Rightarrow> pending_server_handshake \<Rightarrow> bytes \<Rightarrow> string \<Rightarrow> bytes option \<Rightarrow>
     server_bootstrap option \<Rightarrow> connection_error + handshake_outcome" where
  "finish_as cr pending client_frame claimed known armed =
    (case (known, armed) of
       (Some identity_spki, _) \<Rightarrow>
         map_err ConnSession (finish_handshake cr pending client_frame (PairedPeer claimed identity_spki) TRANSPORT_NAME)
     | (None, Some _) \<Rightarrow> map_err ConnSession (finish_handshake cr pending client_frame PairingPeer TRANSPORT_NAME)
     | (None, None) \<Rightarrow> Inl (NotPaired claimed))"

text \<open>What the channel is for: an enrolment, or a session to park.\<close>

definition connection_accept ::
    "('key, 'sig, 'secret) crypto \<Rightarrow> connection_randoms \<Rightarrow> server_bootstrap option \<Rightarrow> handshake_outcome \<Rightarrow>
     (socket, connection_error, accepted) io_on" where
  "connection_accept cr rnd armed outcome =
    io_bind (connection_enrolment cr armed outcome) (\<lambda>(enrolment, channel).
    case enrolment of
      Some enrolment \<Rightarrow>
        (case armed of
           Some bootstrap \<Rightarrow>
             if en_purpose enrolment \<noteq> sb_purpose bootstrap
             then io_fail (WrongPurpose (en_purpose enrolment) (sb_purpose bootstrap))
             else io_return (Proposes (proposal_of (cx_attempt_id rnd) outcome enrolment))
         | None \<Rightarrow> io_return (Proposes (proposal_of (cx_attempt_id rnd) outcome enrolment)))
    | None \<Rightarrow>
        io_bind (read_attach cr channel) (\<lambda>(cred, channel).
        io_return (Parks (ho_peer_device_id outcome, cred) channel)))"

text \<open>
  From the first lock, which has given \<open>armed\<close>, to the last; \<open>known_peers\<close> is the table as it is
  when the client hello has arrived.
\<close>

definition connection_run ::
    "('key, 'sig, 'secret) crypto \<Rightarrow> 'secret listener_config \<Rightarrow> connection_randoms \<Rightarrow> int \<Rightarrow>
     server_bootstrap option \<Rightarrow> (string \<Rightarrow> bytes option) \<Rightarrow> (socket, connection_error, accepted) io_on" where
  "connection_run cr cfg rnd now_ms armed known_peers =
    io_bind (io_of (connection_bootstrap cr cfg rnd now_ms armed)) (\<lambda>bootstrap.
    io_bind (io_of (map_err ConnSession (begin_handshake cr (cx_secret rnd) bootstrap (lg_identity cfg)))) (\<lambda>(pending, hello).
    io_bind (io_map_err ConnStream (sock_send hello)) (\<lambda>_.
    io_bind (io_map_err ConnStream sock_receive) (\<lambda>client_frame.
    io_bind (io_of (peek_device_id client_frame)) (\<lambda>claimed.
    io_bind (io_of (finish_as cr pending client_frame claimed (known_peers claimed) armed)) (\<lambda>outcome.
    connection_accept cr rnd armed outcome))))))"

definition park ::
    "int \<Rightarrow> int \<Rightarrow> (parked_session \<Rightarrow> bool) \<Rightarrow> session_key \<Rightarrow> parked_session \<Rightarrow> listener \<Rightarrow> listener" where
  "park now idle_timeout open_end key session st =
    (let pool = discard_stale now idle_timeout open_end (ln_sessions st);
         pool = (if map_of pool key = None then enforce_session_cap (fst key) pool else pool)
     in st\<lparr>ln_sessions := (key, session) # pool_remove key pool, ln_last_connection_error := None\<rparr>)"

text \<open>The last lock: \<open>connection_end\<close> is also where the accept loop records a failure.\<close>

definition connection_end ::
    "int \<Rightarrow> int \<Rightarrow> (parked_session \<Rightarrow> bool) \<Rightarrow> string \<Rightarrow> (connection_error + accepted) \<times> socket \<Rightarrow> listener \<Rightarrow> listener" where
  "connection_end now idle_timeout open_end origin result st =
    (case fst result of
       Inl e \<Rightarrow> st\<lparr>ln_last_connection_error := Some e\<rparr>
     | Inr (Proposes proposal) \<Rightarrow>
         st\<lparr>ln_armed_pairing := None, ln_proposal := Some proposal, ln_last_connection_error := None\<rparr>
     | Inr (Parks key channel) \<Rightarrow>
         park now idle_timeout open_end key
           \<lparr>qs_channel = channel, qs_socket = snd result, qs_origin = origin, qs_parked_at = now\<rparr> st)"

text \<open>Without interference.\<close>

definition serve_connection ::
    "('key, 'sig, 'secret) crypto \<Rightarrow> 'secret listener_config \<Rightarrow> connection_randoms \<Rightarrow> int \<Rightarrow> int \<Rightarrow>
     (parked_session \<Rightarrow> bool) \<Rightarrow> string \<Rightarrow> socket \<Rightarrow> listener \<Rightarrow> listener" where
  "serve_connection cr cfg rnd now_ms now open_end peer socket st =
    connection_end now (lg_idle_timeout cfg) open_end (TRANSPORT_NAME @ '' '' @ bytes_string [0xE2, 0x80, 0xA2] @ '' '' @ peer)
      (connection_run cr cfg rnd now_ms (ln_armed_pairing st) (ln_known_peers st) socket) st"

subsection \<open>Waiting\<close>

text \<open>What a thread does to the state while it holds the lock.\<close>

datatype listener_event =
  PeersSet "string \<Rightarrow> bytes option"
  | PairingArmed server_bootstrap
  | PairingCancelled
  | ProposalTaken
  | DeviceDiscarded string
  | Swept int "parked_session \<Rightarrow> bool"
  | SessionTaken string string
  | ConnectionAccepted
  | AcceptFailed string
  | ConnectionEnded int "parked_session \<Rightarrow> bool" string "(connection_error + accepted) \<times> socket"

fun listener_step :: "int \<Rightarrow> listener_event \<Rightarrow> listener \<Rightarrow> listener" where
  "listener_step idle_timeout (PeersSet peers) st = set_known_peers peers st"
| "listener_step idle_timeout (PairingArmed bootstrap) st = arm_pairing bootstrap st"
| "listener_step idle_timeout PairingCancelled st = transport_cancel_pairing st"
| "listener_step idle_timeout ProposalTaken st = snd (take_proposal st)"
| "listener_step idle_timeout (DeviceDiscarded device_id) st = discard_sessions device_id st"
| "listener_step idle_timeout (Swept now open_end) st = sweep now idle_timeout open_end st"
| "listener_step idle_timeout (SessionTaken device_id cred) st =
    st\<lparr>ln_sessions := snd (take_matching device_id cred (ln_sessions st))\<rparr>"
| "listener_step idle_timeout ConnectionAccepted st = accepted_connection st"
| "listener_step idle_timeout (AcceptFailed error) st = accept_failed error st"
| "listener_step idle_timeout (ConnectionEnded now open_end origin result) st =
    connection_end now idle_timeout open_end origin result st"

text \<open>
  One \<open>wake\<close> for each time a waiting thread holds the lock: the clock, what a peek at the sockets
  says, and what the other threads did before.
\<close>

record wake =
  wk_now :: int
  wk_open_end :: "parked_session \<Rightarrow> bool"
  wk_others :: "listener_event list"

fun await_proposal :: "int \<Rightarrow> int \<Rightarrow> wake list \<Rightarrow> listener \<Rightarrow> pairing_proposal option \<times> listener" where
  "await_proposal idle_timeout deadline [] st = (None, st)"
| "await_proposal idle_timeout deadline (wake # wakes) st =
    (let (proposal, st) = take_proposal (fold (listener_step idle_timeout) (wk_others wake) st)
     in if proposal \<noteq> None \<or> wk_now wake \<ge> deadline then (proposal, st)
        else await_proposal idle_timeout deadline wakes st)"

fun take_session ::
    "int \<Rightarrow> string \<Rightarrow> string \<Rightarrow> int \<Rightarrow> wake list \<Rightarrow> listener \<Rightarrow> parked_session option \<times> listener" where
  "take_session idle_timeout device_id cred deadline [] st = (None, st)"
| "take_session idle_timeout device_id cred deadline (wake # wakes) st =
    (let st = fold (listener_step idle_timeout) (wk_others wake) st;
         pool = discard_stale (wk_now wake) idle_timeout (wk_open_end wake) (ln_sessions st);
         (session, pool) = take_matching device_id cred pool;
         st = st\<lparr>ln_sessions := pool\<rparr>
     in if session \<noteq> None \<or> wk_now wake \<ge> deadline then (session, st)
        else take_session idle_timeout device_id cred deadline wakes st)"

subsection \<open>The phone's side\<close>

text \<open>\<open>client::pair\<close> and \<open>client::connect\<close> on an open socket.\<close>

definition client_session ::
    "('key, 'sig, 'secret) crypto \<Rightarrow> bytes \<Rightarrow> verifier_expectation \<Rightarrow> string \<Rightarrow> 'secret \<Rightarrow> bytes \<Rightarrow> int \<Rightarrow>
     (socket, connection_error, secure_channel \<times> string) io_on" where
  "client_session cr secret expectation device_id identity first now_ms =
    io_bind (io_map_err ConnStream sock_receive) (\<lambda>hello.
    io_bind (io_of (map_err ConnSession (respond cr secret hello expectation device_id identity TRANSPORT_NAME now_ms)))
      (\<lambda>(client_frame, outcome).
    io_bind (io_map_err ConnStream (sock_send client_frame)) (\<lambda>_.
    io_bind (io_of (case seal cr first (ho_channel outcome) of
        (Inl e, _) \<Rightarrow> Inl (ConnSession e) | (Inr record, channel) \<Rightarrow> Inr (record, channel))) (\<lambda>(record, channel).
    io_bind (io_map_err ConnStream (sock_send record)) (\<lambda>_.
    io_return (channel, ho_verification_code outcome))))))"

definition client_pair ::
    "('key, 'sig, 'secret) crypto \<Rightarrow> bytes \<Rightarrow> server_bootstrap \<Rightarrow> string \<Rightarrow> 'secret \<Rightarrow> enrolment \<Rightarrow> int \<Rightarrow>
     (socket, connection_error, secure_channel \<times> string) io_on" where
  "client_pair cr secret bootstrap device_id identity enrolment now_ms =
    client_session cr secret (Scanned bootstrap) device_id identity (encode_enrolment enrolment) now_ms"

definition client_connect ::
    "('key, 'sig, 'secret) crypto \<Rightarrow> bytes \<Rightarrow> bytes \<Rightarrow> string \<Rightarrow> 'secret \<Rightarrow> string \<Rightarrow> int \<Rightarrow>
     (socket, connection_error, secure_channel) io_on" where
  "client_connect cr secret verifier_identity_spki device_id identity cred now_ms =
    io_bind (client_session cr secret (PairedVerifier verifier_identity_spki) device_id identity
      (encode_attach (attach_new cred)) now_ms) (\<lambda>(channel, _). io_return channel)"

subsection \<open>The pool is bounded\<close>

definition pool_ok :: "session_pool \<Rightarrow> bool" where
  "pool_ok pool \<longleftrightarrow> distinct (map fst pool)
    \<and> (\<forall>device_id. length (filter (of_device device_id) pool) \<le> MAX_SESSIONS_PER_DEVICE)"

lemma distinct_map_filter': "distinct (map f xs) \<Longrightarrow> distinct (map f (filter P xs))"
  by (induction xs) auto

lemma pool_ok_filter [intro]:
  assumes "pool_ok pool"
  shows "pool_ok (filter P pool)"
proof -
  have "length (filter (of_device d) (filter P pool)) \<le> length (filter (of_device d) pool)" for d
    by (induction pool) auto
  with assms show ?thesis unfolding pool_ok_def
    using distinct_map_filter' le_trans by blast
qed

lemma pool_removals [intro]:
  "pool_ok pool \<Longrightarrow> pool_ok (pool_remove key pool)"
  "pool_ok pool \<Longrightarrow> pool_ok (discard_stale now timeout open_end pool)"
  by (auto simp: pool_remove_def discard_stale_def)

lemma pool_remove_absent [simp]: "map_of (pool_remove key pool) key = None"
  by (induction pool) (auto simp: pool_remove_def)

lemma pool_remove_other: "k \<noteq> key \<Longrightarrow> map_of (pool_remove key pool) k = map_of pool k"
  by (induction pool) (auto simp: pool_remove_def)

text \<open>The cap removes sessions of this device only, and leaves room for one more.\<close>

lemma enforce_session_cap_spec:
  "length (filter (of_device d) (enforce_session_cap d pool)) < MAX_SESSIONS_PER_DEVICE
    \<and> (\<exists>P. enforce_session_cap d pool = filter P pool \<and> (\<forall>e. \<not> of_device d e \<longrightarrow> P e))"
proof (induction d pool rule: enforce_session_cap.induct)
  case (1 d pool)
  let ?mine = "filter (of_device d) pool"
  show ?case
  proof (cases "length ?mine \<ge> MAX_SESSIONS_PER_DEVICE")
    case False
    then show ?thesis by (auto simp: enforce_session_cap.simps intro!: exI [of _ "\<lambda>_. True"])
  next
    case True
    then have "?mine \<noteq> []" by (auto simp: MAX_SESSIONS_PER_DEVICE_def)
    then obtain x where x: "min_parked ?mine = Some x" using min_parked_None by blast
    obtain key s where ks: "x = (key, s)" by (cases x)
    have mine: "fst key = d" using min_parked_in [OF x] ks by (auto simp: of_device_def)
    have e: "enforce_session_cap d pool = enforce_session_cap d (pool_remove key pool)"
      using True x ks by (subst enforce_session_cap.simps) simp
    from "1.IH" [OF True x ks [symmetric]] obtain P where
      l: "length (filter (of_device d) (enforce_session_cap d (pool_remove key pool))) < MAX_SESSIONS_PER_DEVICE"
      and P: "enforce_session_cap d (pool_remove key pool) = filter P (pool_remove key pool)"
        "\<forall>e. \<not> of_device d e \<longrightarrow> P e" by blast
    have "enforce_session_cap d pool = filter (\<lambda>e. fst e \<noteq> key \<and> P e) pool"
      unfolding e P(1) by (simp add: pool_remove_def conj_commute)
    moreover have "\<forall>e. \<not> of_device d e \<longrightarrow> fst e \<noteq> key \<and> P e"
    proof (intro allI impI)
      fix e assume "\<not> of_device d e"
      then show "fst e \<noteq> key \<and> P e" using P(2) mine unfolding of_device_def by metis
    qed
    ultimately show ?thesis using l unfolding e [symmetric] by blast
  qed
qed

lemma min_parked_least: "min_parked pool = Some x \<Longrightarrow> y \<in> set pool \<Longrightarrow> qs_parked_at (snd x) \<le> qs_parked_at (snd y)"
proof (induction pool arbitrary: x y)
  case (Cons a pool)
  show ?case
  proof (cases "min_parked pool")
    case None
    with Cons.prems show ?thesis by auto
  next
    case (Some z)
    with Cons.IH have "\<forall>y \<in> set pool. qs_parked_at (snd z) \<le> qs_parked_at (snd y)" by blast
    with Cons.prems Some show ?thesis by (auto split: if_splits)
  qed
qed simp

text \<open>On a pool that was within its bound at most one session is evicted, one of the oldest.\<close>

lemma cap_evicts_oldest:
  assumes "pool_ok pool"
  shows "enforce_session_cap d pool = pool \<or>
    (\<exists>key s. (key, s) \<in> set pool \<and> fst key = d \<and> enforce_session_cap d pool = pool_remove key pool
      \<and> (\<forall>y \<in> set pool. of_device d y \<longrightarrow> qs_parked_at s \<le> qs_parked_at (snd y)))"
proof (cases "length (filter (of_device d) pool) \<ge> MAX_SESSIONS_PER_DEVICE")
  case False
  then show ?thesis by (simp add: enforce_session_cap.simps)
next
  case True
  let ?mine = "filter (of_device d) pool"
  from True have "?mine \<noteq> []" by (auto simp: MAX_SESSIONS_PER_DEVICE_def)
  then obtain x where x: "min_parked ?mine = Some x" using min_parked_None by blast
  obtain key s where ks: "x = (key, s)" by (cases x)
  have m: "(key, s) \<in> set pool" "fst key = d" using min_parked_in [OF x] ks by (auto simp: of_device_def)
  have "filter (of_device d) (pool_remove key pool) = filter (\<lambda>e. fst e \<noteq> key) ?mine"
    by (auto simp: pool_remove_def intro: filter_cong)
  moreover have "length (filter (\<lambda>e. fst e \<noteq> key) ?mine) < length ?mine"
    using min_parked_in [OF x] ks by (intro length_filter_less [of "(key, s)"]) auto
  moreover have "length ?mine \<le> MAX_SESSIONS_PER_DEVICE" using assms by (simp add: pool_ok_def)
  ultimately have "length (filter (of_device d) (pool_remove key pool)) < MAX_SESSIONS_PER_DEVICE" by simp
  then have "enforce_session_cap d (pool_remove key pool) = pool_remove key pool"
    by (simp add: enforce_session_cap.simps)
  with True x ks have "enforce_session_cap d pool = pool_remove key pool" by (simp add: enforce_session_cap.simps)
  moreover have "\<forall>y \<in> set pool. of_device d y \<longrightarrow> qs_parked_at s \<le> qs_parked_at (snd y)"
    using min_parked_least [OF x] ks by auto
  ultimately show ?thesis using m by blast
qed

lemma park_pool_ok:
  assumes "pool_ok (ln_sessions st)"
  shows "pool_ok (ln_sessions (park now timeout open_end key session st))"
proof -
  define p where "p = discard_stale now timeout open_end (ln_sessions st)"
  define q where "q = (if map_of p key = None then enforce_session_cap (fst key) p else p)"
  have p: "pool_ok p" using assms by (auto simp: p_def)
  have "p = filter (\<lambda>_. True) p" by simp
  then obtain P where P: "q = filter P p" using enforce_session_cap_spec [of "fst key" p] unfolding q_def by metis
  then have q: "pool_ok q" using p by auto
  have "length (filter (of_device (fst key)) (pool_remove key q)) < MAX_SESSIONS_PER_DEVICE"
  proof (cases "map_of p key")
    case None
    then have "length (filter (of_device (fst key)) q) < MAX_SESSIONS_PER_DEVICE"
      using enforce_session_cap_spec by (simp add: q_def)
    moreover have "length (filter (of_device (fst key)) (pool_remove key q)) \<le> length (filter (of_device (fst key)) q)"
      unfolding pool_remove_def by (induction q) auto
    ultimately show ?thesis by simp
  next
    case (Some s)
    then have s: "(key, s) \<in> set q" using map_of_SomeD by (auto simp: q_def)
    have "filter (of_device (fst key)) (pool_remove key q) = filter (\<lambda>e. fst e \<noteq> key) (filter (of_device (fst key)) q)"
      by (auto simp: pool_remove_def intro: filter_cong)
    moreover have "length (filter (\<lambda>e. fst e \<noteq> key) (filter (of_device (fst key)) q)) < length (filter (of_device (fst key)) q)"
      using s by (intro length_filter_less [of "(key, s)"]) (auto simp: of_device_def)
    moreover have "length (filter (of_device (fst key)) q) \<le> MAX_SESSIONS_PER_DEVICE" using q by (simp add: pool_ok_def)
    ultimately show ?thesis by simp
  qed
  moreover have "pool_ok (pool_remove key q)" using q by auto
  moreover have "key \<notin> fst ` set (pool_remove key q)" by (auto simp: pool_remove_def)
  ultimately have "pool_ok ((key, session) # pool_remove key q)"
    by (auto simp: pool_ok_def of_device_def)
  moreover have "ln_sessions (park now timeout open_end key session st) = (key, session) # pool_remove key q"
    unfolding park_def q_def p_def Let_def by simp
  ultimately show ?thesis by simp
qed

text \<open>Parking touches sessions of this device only, but for the stale ones.\<close>

lemma park_others:
  assumes "fst k \<noteq> fst key"
  shows "map_of (ln_sessions (park now timeout open_end key session st)) k
    = map_of (discard_stale now timeout open_end (ln_sessions st)) k"
proof -
  define p where "p = discard_stale now timeout open_end (ln_sessions st)"
  obtain P where P: "enforce_session_cap (fst key) p = filter P p" "\<forall>e. \<not> of_device (fst key) e \<longrightarrow> P e"
    using enforce_session_cap_spec by blast
  from P(2) assms have "map_of (filter P p) k = map_of p k"
    by (induction p) (auto simp: of_device_def)
  with P assms show ?thesis
    by (auto simp: park_def p_def [symmetric] Let_def pool_remove_other)
qed

lemma park_here [simp]: "map_of (ln_sessions (park now timeout open_end key session st)) key = Some session"
  by (simp add: park_def Let_def)

lemma listener_step_pool_ok:
  "pool_ok (ln_sessions st) \<Longrightarrow> pool_ok (ln_sessions (listener_step T ev st))"
proof (cases ev)
  case (ConnectionEnded now open_end origin result)
  assume "pool_ok (ln_sessions st)"
  with ConnectionEnded park_pool_ok show ?thesis
    by (auto simp: connection_end_def split: sum.splits accepted.splits)
qed (auto simp: set_known_peers_def arm_pairing_def transport_cancel_pairing_def take_proposal_def discard_sessions_def
    sweep_def accepted_connection_def accept_failed_def take_matching_def split: option.splits)

lemma listener_steps_pool_ok:
  "pool_ok (ln_sessions st) \<Longrightarrow> pool_ok (ln_sessions (fold (listener_step T) evs st))"
  by (induction evs arbitrary: st) (auto intro: listener_step_pool_ok)

subsection \<open>Taking a session\<close>

lemma pool_remove_id: "map_of pool key = None \<Longrightarrow> pool_remove key pool = pool"
  unfolding pool_remove_def by (induction pool) (auto split: if_splits)

text \<open>Which entry answers for a credential: its own, or failing that the one that named none.\<close>

definition answers_for :: "session_pool \<Rightarrow> string \<Rightarrow> string \<Rightarrow> session_key option" where
  "answers_for pool device_id cred =
    (if map_of pool (device_id, Some cred) \<noteq> None then Some (device_id, Some cred)
     else if map_of pool (device_id, None) \<noteq> None then Some (device_id, None)
     else None)"

lemma take_matching_eq:
  "take_matching d c pool =
    (case answers_for pool d c of
       None \<Rightarrow> (None, pool)
     | Some key \<Rightarrow> (map_of pool key, pool_remove key pool))"
  by (auto simp: take_matching_def answers_for_def pool_remove_id split: option.splits)

lemma answers_for_Some: "answers_for pool d c = Some key \<Longrightarrow>
    (key = (d, Some c) \<or> key = (d, None)) \<and> (\<exists>s. map_of pool key = Some s)"
  by (auto simp: answers_for_def split: if_splits)

lemma answers_for_None: "answers_for pool d c = None \<longleftrightarrow> map_of pool (d, Some c) = None \<and> map_of pool (d, None) = None"
  by (auto simp: answers_for_def split: if_splits)

definition woken :: "int \<Rightarrow> wake \<Rightarrow> listener \<Rightarrow> session_pool" where
  "woken idle_timeout wake st =
    discard_stale (wk_now wake) idle_timeout (wk_open_end wake)
      (ln_sessions (fold (listener_step idle_timeout) (wk_others wake) st))"

lemma woken_fresh: "map_of (woken T wake st) key = Some s \<Longrightarrow> wk_now wake - qs_parked_at s < T \<and> wk_open_end wake s"
  by (auto simp: woken_def discard_stale_def dest!: map_of_SomeD)

lemma woken_pool_ok: "pool_ok (ln_sessions st) \<Longrightarrow> pool_ok (woken T wake st)"
  by (auto simp: woken_def intro: listener_steps_pool_ok)

lemma take_session_Cons:
  "take_session T d c deadline (wake # wakes) st =
    (case answers_for (woken T wake st) d c of
       Some key \<Rightarrow>
         (map_of (woken T wake st) key,
          fold (listener_step T) (wk_others wake) st\<lparr>ln_sessions := pool_remove key (woken T wake st)\<rparr>)
     | None \<Rightarrow>
         let st1 = fold (listener_step T) (wk_others wake) st\<lparr>ln_sessions := woken T wake st\<rparr>
         in if wk_now wake \<ge> deadline then (None, st1) else take_session T d c deadline wakes st1)"
proof -
  have "take_session T d c deadline (wake # wakes) st =
      (case take_matching d c (woken T wake st) of (session, pool) \<Rightarrow>
        if session \<noteq> None \<or> wk_now wake \<ge> deadline
        then (session, fold (listener_step T) (wk_others wake) st\<lparr>ln_sessions := pool\<rparr>)
        else take_session T d c deadline wakes (fold (listener_step T) (wk_others wake) st\<lparr>ln_sessions := pool\<rparr>))"
    unfolding take_session.simps woken_def Let_def ..
  then show ?thesis
    by (cases "answers_for (woken T wake st) d c") (auto simp: take_matching_eq dest: answers_for_Some)
qed

declare take_session.simps(2) [simp del]

lemma take_session_pool_ok:
  "pool_ok (ln_sessions st) \<Longrightarrow> take_session T d c deadline wakes st = (r, st') \<Longrightarrow> pool_ok (ln_sessions st')"
proof (induction wakes arbitrary: st)
  case (Cons wake wakes)
  have w: "pool_ok (woken T wake st)" using woken_pool_ok [OF Cons.prems(1)] .
  show ?case
  proof (cases "answers_for (woken T wake st) d c = None \<and> wk_now wake < deadline")
    case True
    with Cons.prems(2) Cons.IH [of "fold (listener_step T) (wk_others wake) st\<lparr>ln_sessions := woken T wake st\<rparr>"] w
    show ?thesis by (simp add: take_session_Cons Let_def)
  next
    case False
    with Cons.prems(2) w show ?thesis
      by (auto simp: take_session_Cons Let_def split: option.splits if_splits)
  qed
qed simp

text \<open>The listener after these wakes of a wait that found nothing: what the others did, and the sweep.\<close>

fun slept :: "int \<Rightarrow> wake list \<Rightarrow> listener \<Rightarrow> listener" where
  "slept T [] st = st"
| "slept T (wake # wakes) st =
    slept T wakes (fold (listener_step T) (wk_others wake) st\<lparr>ln_sessions := woken T wake st\<rparr>)"

text \<open>None of these wakes found a session for the credential, and all were before the deadline.\<close>

fun waited :: "int \<Rightarrow> string \<Rightarrow> string \<Rightarrow> int \<Rightarrow> wake list \<Rightarrow> listener \<Rightarrow> bool" where
  "waited T d c deadline [] st \<longleftrightarrow> True"
| "waited T d c deadline (wake # wakes) st \<longleftrightarrow>
    map_of (woken T wake st) (d, Some c) = None \<and> map_of (woken T wake st) (d, None) = None
    \<and> wk_now wake < deadline \<and> waited T d c deadline wakes (slept T [wake] st)"

text \<open>The wake at which a session is taken, and what that leaves.\<close>

definition taken_at :: "int \<Rightarrow> string \<Rightarrow> string \<Rightarrow> wake \<Rightarrow> listener \<Rightarrow> parked_session \<Rightarrow> listener \<Rightarrow> bool" where
  "taken_at T d c wake st s st' \<longleftrightarrow>
    (let pool = woken T wake st; key = (if map_of pool (d, Some c) = None then (d, None) else (d, Some c)) in
     map_of pool key = Some s \<and> st' = fold (listener_step T) (wk_others wake) st\<lparr>ln_sessions := pool_remove key pool\<rparr>)"

lemma answers_for_key: "answers_for pool d c = Some key \<longleftrightarrow>
    key = (if map_of pool (d, Some c) = None then (d, None) else (d, Some c)) \<and> map_of pool key \<noteq> None"
  by (auto simp: answers_for_def)

lemma take_session_Some_iff:
  "take_session T d c deadline wakes st = (Some s, st') \<longleftrightarrow>
    (\<exists>before wake after. wakes = before @ wake # after \<and> waited T d c deadline before st
      \<and> taken_at T d c wake (slept T before st) s st')"
proof (induction wakes arbitrary: st)
  case (Cons wake wakes)
  let ?pool = "woken T wake st" and ?next = "slept T [wake] st"
  have split: "(\<exists>before w after. wake # wakes = before @ w # after \<and> P before w) \<longleftrightarrow>
      P [] wake \<or> (\<exists>before w after. wakes = before @ w # after \<and> P (wake # before) w)" (is "?l \<longleftrightarrow> ?r") for P
  proof
    assume ?l
    then obtain before w after where "wake # wakes = before @ w # after" "P before w" by blast
    then show ?r by (cases before) auto
  qed (metis append_Cons append_Nil)
  show ?case
  proof (cases "answers_for ?pool d c")
    case None
    then have "take_session T d c deadline (wake # wakes) st = (Some s, st') \<longleftrightarrow>
        wk_now wake < deadline \<and> take_session T d c deadline wakes ?next = (Some s, st')"
      by (simp add: take_session_Cons Let_def not_le)
    moreover have "\<not> taken_at T d c wake st s st'" using None by (simp add: taken_at_def answers_for_None)
    ultimately show ?thesis
      unfolding split Cons.IH using None by (auto simp: answers_for_None)
  next
    case (Some key)
    then have "(if map_of ?pool (d, Some c) = None then (d, None) else (d, Some c)) = key"
      by (simp add: answers_for_key)
    with Some have "take_session T d c deadline (wake # wakes) st = (Some s, st') \<longleftrightarrow> taken_at T d c wake st s st'"
      by (auto simp: take_session_Cons taken_at_def Let_def)
    moreover have "\<not> waited T d c deadline (wake # before) st" for before
      using Some by (auto simp: answers_for_def split: if_splits)
    ultimately show ?thesis unfolding split by (simp del: waited.simps(2))
  qed
qed simp

lemma taken_at_facts:
  assumes "taken_at T d c wake st s st'"
  shows "wk_now wake - qs_parked_at s < T \<and> wk_open_end wake s"
  using assms woken_fresh [of T wake st] unfolding taken_at_def Let_def by blast

text \<open>Nothing is missed: a wait that gives up saw no entry that answers.\<close>

lemma take_session_None:
  "take_session T d c deadline (wake # wakes) st = (None, st') \<Longrightarrow> answers_for (woken T wake st) d c = None"
  by (auto simp: take_session_Cons split: option.splits dest: answers_for_Some)

subsection \<open>Who is connected\<close>

text \<open>The peek reads the id that the signed hello carries.\<close>

lemma then_peek_simps [simp]:
  "then_peek (Inl e) k = Inl (ConnCbor e)"
  "then_peek (Inr x) k = k x"
  by (simp_all add: then_peek_def map_err_def)

lemma peek_reads_hello:
  assumes "decode_envelope f = Inr (u, s)" and "decode_client_hello u = Inr c"
  shows "peek_device_id f = Inr (cl_device_id c)"
proof -
  from assms(1) obtain r1 r2 where "r_array (reader_new f) = Inr (2, r1)" "r_bytes r1 = Inr (u, r2)"
    by (auto simp: decode_envelope_def then_session_eq_Inr split: if_splits)
  with assms(2) show ?thesis
    by (auto simp: peek_device_id_def decode_client_hello_def Let_def then_session_eq_Inr then_ok_eq_Inr split: if_splits)
qed

lemma finish_proves:
  assumes "finish_handshake cr p f e tn = Inr out"
  shows "ho_was_pairing out \<longleftrightarrow> e = PairingPeer"
    and "e = PairedPeer d spki \<Longrightarrow> ho_peer_device_id out = d \<and> ho_peer_identity_spki out = spki"
    and "peek_device_id f = Inr (ho_peer_device_id out)"
proof -
  from assms obtain u s c w ks where f: "decode_envelope f = Inr (u, s)" "decode_client_hello u = Inr c"
    and e: "check_peer e c = Inr w" and out: "out = server_outcome cr p c ks tn w"
    unfolding finish_handshake_iff by blast
  have o: "ho_peer_device_id out = cl_device_id c" "ho_peer_identity_spki out = cl_identity_spki c" "ho_was_pairing out = w"
    by (simp_all add: out server_outcome_def)
  show "ho_was_pairing out \<longleftrightarrow> e = PairingPeer" using e by (auto simp: o check_peer_iff)
  show "e = PairedPeer d spki \<Longrightarrow> ho_peer_device_id out = d \<and> ho_peer_identity_spki out = spki"
    using e by (auto simp: o check_peer_iff)
  show "peek_device_id f = Inr (ho_peer_device_id out)" using peek_reads_hello [OF f] by (simp add: o)
qed

lemmas connection_runs = io_runs map_err_iff

end
