(* ===== verification/Network_Session.thy ===== *)
theory Network_Session
  imports Qr_Network
begin

text \<open>
  The sessions that \<open>phone-auth-agent/src/qr_network.rs\<close> hands out: \<open>NetworkSession\<close>, and
  \<open>QrNetworkTransport\<close> as a transport of the registry. Frames sealed by one end and cut up by the
  network arrive whole and in order at the other.
\<close>

subsection \<open>Sessions handed out\<close>

record network_session =
  ns_channel :: secure_channel
  ns_socket :: socket
  ns_origin :: string
  ns_security :: transport_security
  ns_closed :: bool
  ns_pending_record :: bytes

definition network_session_of :: "bool \<Rightarrow> parked_session \<Rightarrow> network_session" where
  "network_session_of is_development session =
    \<lparr>ns_channel = qs_channel session, ns_socket = qs_socket session, ns_origin = qs_origin session,
     ns_security = \<lparr>ts_transport_name = TRANSPORT_NAME, ts_confidential = True, ts_peer_authenticated = True,
       ts_requires_network = True, ts_proximity_signal = False, ts_is_development = is_development\<rparr>,
     ns_closed = False, ns_pending_record = []\<rparr>"

text \<open>
  \<open>wakes\<close> are the times the waiting thread holds the lock, at most ten seconds from \<open>now\<close>; how an
  error of a connection prints is an argument.
\<close>

definition network_connect ::
    "(connection_error \<Rightarrow> string) \<Rightarrow> bool \<Rightarrow> int \<Rightarrow> int \<Rightarrow> wake list \<Rightarrow> string \<Rightarrow> string \<Rightarrow>
     (listener, string, network_session) io_on" where
  "network_connect reason is_development idle_timeout now wakes device_id cred st =
    (case take_session idle_timeout device_id cred (now + 10000) wakes st of
       (Some session, st) \<Rightarrow> (Inr (network_session_of is_development session), st)
     | (None, st) \<Rightarrow>
         (Inl (case ln_last_connection_error st of
            Some e \<Rightarrow> ''`'' @ device_id @ ''` is not connected; open PhoneAuth on the phone (the last connection to this desktop failed: ''
              @ reason e @ '')''
          | None \<Rightarrow> ''`'' @ device_id @ ''` is not connected; open PhoneAuth on the phone''), st))"

definition network_transport ::
    "(connection_error \<Rightarrow> string) \<Rightarrow> bool \<Rightarrow> int \<Rightarrow> int \<Rightarrow> wake list \<Rightarrow> (listener, network_session) transport" where
  "network_transport reason is_development idle_timeout now wakes =
    \<lparr>tp_name = TRANSPORT_NAME,
     tp_description = ''QR bootstrap onto an authenticated link over the local network'',
     tp_availability = network_availability,
     tp_set_known_peers = set_known_peers,
     tp_connect = network_connect reason is_development idle_timeout now wakes\<rparr>"

datatype network_error =
  SessionClosed
  | NetSession session_error
  | NetStream stream_error

definition network_send ::
    "('key, 'sig, 'secret) crypto \<Rightarrow> bytes \<Rightarrow> (network_session, network_error, unit) io_on" where
  "network_send cr frame s =
    (if ns_closed s then (Inl SessionClosed, s)
     else
       case seal cr frame (ns_channel s) of
         (Inl e, channel) \<Rightarrow> (Inl (NetSession e), s\<lparr>ns_channel := channel\<rparr>)
       | (Inr record, channel) \<Rightarrow>
           (case sock_send record (ns_socket s) of
              (r, socket) \<Rightarrow> (map_err NetStream r, s\<lparr>ns_channel := channel, ns_socket := socket\<rparr>)))"

definition network_receive ::
    "('key, 'sig, 'secret) crypto \<Rightarrow> (network_session, network_error, bytes) io_on" where
  "network_receive cr s =
    (if ns_closed s then (Inl SessionClosed, s)
     else
       case read_frame_resumable (ns_pending_record s) (sk_arrivals (ns_socket s)) of
         (r, pending, rest) \<Rightarrow>
           let s = s\<lparr>ns_socket := (ns_socket s)\<lparr>sk_arrivals := rest\<rparr>, ns_pending_record := pending\<rparr> in
           (case r of
              Inl e \<Rightarrow> (Inl (NetStream e), s)
            | Inr record \<Rightarrow>
                (case open_record cr record (ns_channel s) of
                   (r, channel) \<Rightarrow> (map_err NetSession r, s\<lparr>ns_channel := channel\<rparr>))))"

definition network_close :: "(network_session, network_error, unit) io_on" where
  "network_close s = (Inr (), s\<lparr>ns_closed := True\<rparr>)"

subsection \<open>As a transport of the registry\<close>

text \<open>Whoever asks the registry gets a session that claims to be private and to know its peer, unused.\<close>

definition session_new_and_private :: "network_session \<Rightarrow> bool" where
  "session_new_and_private s \<longleftrightarrow> ts_confidential (ns_security s) \<and> ts_peer_authenticated (ns_security s)
    \<and> \<not> ts_proximity_signal (ns_security s) \<and> \<not> ns_closed s \<and> ns_pending_record s = []"

lemma network_connect_Inr:
  "network_connect reason dev T now wakes d c st = (Inr s, st') \<longleftrightarrow>
    (\<exists>p. take_session T d c (now + 10000) wakes st = (Some p, st') \<and> s = network_session_of dev p)"
  by (auto simp: network_connect_def split: prod.splits option.splits)

interpretation network: transports "registry_new [network_transport reason dev T now wakes]"
  "\<lambda>st. pool_ok (ln_sessions st)" "\<lambda>_ _ _. session_new_and_private"
proof
  fix t st d c r st'
  assume t: "t \<in> set (registry_new [network_transport reason dev T now wakes])"
    and p: "pool_ok (ln_sessions st)" and r: "tp_connect t d c st = (r, st')"
  show "pool_ok (ln_sessions st')"
  proof (cases "tp_connect t = network_connect reason dev T now wakes")
    case True
    with r obtain q where "take_session T d c (now + 10000) wakes st = (q, st')"
      by (auto simp: network_connect_def split: prod.splits option.splits)
    with take_session_pool_ok [OF p] show ?thesis by blast
  next
    case False
    with t r p show ?thesis
      by (auto simp: registry_new_def network_transport_def planned_transport_def io_fail_def TRANSPORT_NAME_def
          split: if_splits)
  qed
next
  fix t st d c s st'
  assume "t \<in> set (registry_new [network_transport reason dev T now wakes])"
    and "tp_connect t d c st = (Inr s, st')"
  then show "session_new_and_private s"
    by (auto simp: registry_new_def network_transport_def planned_transport_def io_fail_def TRANSPORT_NAME_def
        network_connect_Inr network_session_of_def session_new_and_private_def split: if_splits)
qed simp

subsection \<open>Frames through a session\<close>

text \<open>Asking again after each timeout, until \<open>n\<close> calls are spent.\<close>

fun receive_all ::
    "('key, 'sig, 'secret) crypto \<Rightarrow> nat \<Rightarrow> network_session \<Rightarrow> (network_error + bytes) list \<times> network_session" where
  "receive_all cr 0 s = ([], s)"
| "receive_all cr (Suc n) s =
    (case network_receive cr s of
       (r, s) \<Rightarrow> (case receive_all cr n s of (rs, s) \<Rightarrow> (r # rs, s)))"

fun send_all ::
    "('key, 'sig, 'secret) crypto \<Rightarrow> bytes list \<Rightarrow> (network_session, network_error, unit) io_on" where
  "send_all cr [] = io_return ()"
| "send_all cr (m # ms) = io_bind (network_send cr m) (\<lambda>_. send_all cr ms)"

definition received :: "(network_error + bytes) list \<Rightarrow> bytes list" where
  "received rs = concat (map (\<lambda>r. case r of Inl _ \<Rightarrow> [] | Inr m \<Rightarrow> [m]) rs)"

text \<open>The stream still to come for a session holds these records.\<close>

definition to_come :: "bytes list \<Rightarrow> network_session \<Rightarrow> bool" where
  "to_come rs s \<longleftrightarrow> live (sk_arrivals (ns_socket s)) \<and> \<not> ns_closed s
    \<and> ns_pending_record s @ content (sk_arrivals (ns_socket s)) = concat (map frame_bytes rs)"

lemma seal_length:
  assumes "crypto_ok cr" and "seal cr m a = (Inr r, a')"
  shows "length r = length m + RECORD_OVERHEAD \<and> 0 < length m"
  using assms(2)
proof (rule seal_Inr)
  fix c n assume "cr_encrypt cr (ch_send a) (nonce (ch_send_counter a)) (ch_binding a) m = Some c"
    and r: "r = to_be_bytes 8 (ch_send_counter a) @ c" "m \<noteq> []"
  then have "length c = length m + 16" using assms(1) unfolding crypto_ok_def by blast
  with r show "length r = length m + RECORD_OVERHEAD \<and> 0 < length m" by (simp_all add: RECORD_OVERHEAD_def)
qed

lemma receive_next:
  assumes cr: "crypto_ok cr" and a: "in_step a (ns_channel s)" and m: "seal cr m a = (Inr r, a')"
    and c: "to_come (r # rs) s" and r: "length r \<le> MAX_FRAME"
  obtains s' where "network_receive cr s = (Inr m, s')" and "to_come rs s'" and "in_step a' (ns_channel s')"
      and "stalls (sk_arrivals (ns_socket s')) \<le> stalls (sk_arrivals (ns_socket s))"
    | s' where "network_receive cr s = (Inl (NetStream TimedOut), s')" and "to_come (r # rs) s'"
      and "ns_channel s' = ns_channel s" and "stalls (sk_arrivals (ns_socket s')) < stalls (sk_arrivals (ns_socket s))"
proof -
  let ?p = "ns_pending_record s" and ?q = "sk_arrivals (ns_socket s)"
  have l: "live ?q" and o: "\<not> ns_closed s" and e: "?p @ content ?q = frame_bytes r @ concat (map frame_bytes rs)"
    using c by (simp_all add: to_come_def)
  have ne: "r \<noteq> []" using seal_length [OF cr m] by (auto simp: RECORD_OVERHEAD_def)
  from resumable_progress [OF l e ne r] show thesis
  proof (elim disjE exE conjE)
    fix p' q' assume t: "read_frame_resumable ?p ?q = (Inl TimedOut, p', q')"
    with resumable_timeout [OF t] l o e show thesis
      by (intro that(2) [of "s\<lparr>ns_socket := (ns_socket s)\<lparr>sk_arrivals := q'\<rparr>, ns_pending_record := p'\<rparr>"]) (auto simp: network_receive_def to_come_def Let_def)
  next
    fix p' q' assume t: "read_frame_resumable ?p ?q = (Inr r, p', q')" and rest: "p' @ content q' = concat (map frame_bytes rs)"
    from open_sealed [OF cr a m] obtain b' where "open_record cr r (ns_channel s) = (Inr m, b')" "in_step a' b'" by blast
    with t rest resumable_frame [OF t] l o resumable_stalls [OF t] show thesis
      by (intro that(1) [of "s\<lparr>ns_socket := (ns_socket s)\<lparr>sk_arrivals := q'\<rparr>, ns_pending_record := p', ns_channel := b'\<rparr>"]) (auto simp: network_receive_def to_come_def Let_def map_err_def)
  qed
qed

text \<open>
  However the network cuts the stream up and wherever it stalls, the frames are received in the
  order they were sealed, each once.
\<close>

lemma receive_nothing:
  assumes "to_come [] s"
  shows "\<exists>e s'. network_receive cr s = (Inl e, s') \<and> to_come [] s'"
proof -
  obtain r p' q' where t: "read_frame_resumable (ns_pending_record s) (sk_arrivals (ns_socket s)) = (r, p', q')"
    by (metis prod.exhaust)
  from assms have "ns_pending_record s = []" "content (sk_arrivals (ns_socket s)) = []" "live (sk_arrivals (ns_socket s))"
    "\<not> ns_closed s" by (simp_all add: to_come_def)
  with resumable_empty [of "sk_arrivals (ns_socket s)"] t show ?thesis
    by (auto simp: network_receive_def to_come_def Let_def)
qed

lemma receive_all_nothing: "to_come [] s \<Longrightarrow> received (fst (receive_all cr n s)) = []"
proof (induction n arbitrary: s)
  case (Suc n)
  from receive_nothing [OF Suc.prems] obtain e s' where "network_receive cr s = (Inl e, s')" "to_come [] s'" by blast
  with Suc.IH [of s'] show ?case by (auto simp: received_def split: prod.splits)
qed (simp add: received_def)

lemma receive_all_delivers:
  assumes "crypto_ok cr" and "in_step a (ns_channel s)" and "seal_all cr ms a = Inr rs"
    and "to_come rs s" and "\<forall>m \<in> set ms. length m + RECORD_OVERHEAD \<le> MAX_FRAME"
    and "length ms + stalls (sk_arrivals (ns_socket s)) \<le> n"
  shows "received (fst (receive_all cr n s)) = ms"
  using assms(2-)
proof (induction n arbitrary: a s ms rs)
  case 0
  then show ?case by (simp add: received_def)
next
  case (Suc n)
  show ?case
  proof (cases ms)
    case Nil
    with Suc.prems receive_all_nothing [of s cr "Suc n"] show ?thesis by simp
  next
    case (Cons m ms')
    with Suc.prems(2) obtain r a' rs' where r: "seal cr m a = (Inr r, a')" and rs: "seal_all cr ms' a' = Inr rs'" "rs = r # rs'"
      by (auto simp: then_ok_eq_Inr split: prod.splits sum.splits)
    have l: "length r \<le> MAX_FRAME" using seal_length [OF assms(1) r] Suc.prems(4) Cons by simp
    show ?thesis
    proof (rule receive_next [OF assms(1) Suc.prems(1) r _ l, of rs'])
      show "to_come (r # rs') s" using Suc.prems(3) rs by simp
    next
      fix s' assume g: "network_receive cr s = (Inr m, s')" and t: "to_come rs' s'" and i: "in_step a' (ns_channel s')"
        and st: "stalls (sk_arrivals (ns_socket s')) \<le> stalls (sk_arrivals (ns_socket s))"
      have "length ms' + stalls (sk_arrivals (ns_socket s')) \<le> n" using Suc.prems(5) st Cons by simp
      with Suc.IH [OF i rs(1) t] Suc.prems(4) Cons g show ?thesis
        by (auto simp: received_def split: prod.splits)
    next
      fix s' assume g: "network_receive cr s = (Inl (NetStream TimedOut), s')" and t: "to_come (r # rs') s'"
        and ch: "ns_channel s' = ns_channel s" and st: "stalls (sk_arrivals (ns_socket s')) < stalls (sk_arrivals (ns_socket s))"
      have "length ms + stalls (sk_arrivals (ns_socket s')) \<le> n" using Suc.prems(5) st by simp
      with Suc.IH [of a s' ms rs] Suc.prems ch t rs g show ?thesis
        by (auto simp: received_def split: prod.splits)
    qed
  qed
qed

lemma send_all_sends:
  assumes "crypto_ok cr"
  shows "seal_all cr ms (ns_channel s) = Inr rs \<Longrightarrow> \<forall>m \<in> set ms. length m + RECORD_OVERHEAD \<le> MAX_FRAME \<Longrightarrow>
    \<not> ns_closed s \<Longrightarrow> sk_works (ns_socket s) \<Longrightarrow>
    \<exists>s'. send_all cr ms s = (Inr (), s') \<and> sk_sent (ns_socket s') = sk_sent (ns_socket s) @ concat (map frame_bytes rs)"
proof (induction ms arbitrary: s rs)
  case Nil
  then show ?case by (simp add: io_return_def)
next
  case (Cons m ms)
  then obtain r ch rs' where r: "seal cr m (ns_channel s) = (Inr r, ch)" and rs: "seal_all cr ms ch = Inr rs'" "rs = r # rs'"
    by (auto simp: then_ok_eq_Inr split: prod.splits sum.splits)
  define s1 where "s1 = s\<lparr>ns_channel := ch, ns_socket := (ns_socket s)\<lparr>sk_sent := sk_sent (ns_socket s) @ frame_bytes r\<rparr>\<rparr>"
  have "network_send cr m s = (Inr (), s1)"
    using Cons.prems r seal_length [OF assms r]
    by (auto simp: network_send_def sock_send_def write_frame_def map_err_def s1_def RECORD_OVERHEAD_def)
  moreover from Cons.IH [of s1 rs'] Cons.prems rs obtain s' where
    "send_all cr ms s1 = (Inr (), s')" "sk_sent (ns_socket s') = sk_sent (ns_socket s1) @ concat (map frame_bytes rs')"
    by (auto simp: s1_def)
  ultimately show ?case using rs(2) by (simp add: io_bind_def s1_def)
qed

text \<open>One session's frames reach the other session.\<close>

lemma sent_is_received:
  assumes cr: "crypto_ok cr" and i: "in_step (ns_channel s) (ns_channel t)"
    and sent: "send_all cr ms s = (Inr (), s')" and start: "sk_sent (ns_socket s) = []"
    and live: "live (sk_arrivals (ns_socket t))" "\<not> ns_closed t" "ns_pending_record t = []"
    and link: "content (sk_arrivals (ns_socket t)) = sk_sent (ns_socket s')"
    and n: "length ms + stalls (sk_arrivals (ns_socket t)) \<le> n"
  shows "received (fst (receive_all cr n t)) = ms"
proof -
  have ok: "\<exists>rs. seal_all cr ms (ns_channel s) = Inr rs \<and> (\<forall>m \<in> set ms. length m + RECORD_OVERHEAD \<le> MAX_FRAME)
      \<and> sk_sent (ns_socket s') = sk_sent (ns_socket s) @ concat (map frame_bytes rs)"
    using sent
  proof (induction ms arbitrary: s)
    case Nil
    then show ?case by (simp add: io_return_def)
  next
    case (Cons m ms)
    from Cons.prems obtain s1 where s1: "network_send cr m s = (Inr (), s1)" "send_all cr ms s1 = (Inr (), s')"
      by (auto simp: io_bind_iff)
    from s1(1) obtain r where r: "seal cr m (ns_channel s) = (Inr r, ns_channel s1)"
      and l: "length r \<le> MAX_FRAME" "sk_sent (ns_socket s1) = sk_sent (ns_socket s) @ frame_bytes r"
      by (auto simp: network_send_def sock_send_def write_frame_def map_err_def
          split: if_splits sum.splits prod.splits)
    from Cons.IH [OF s1(2)] obtain rs where "seal_all cr ms (ns_channel s1) = Inr rs"
      "\<forall>m \<in> set ms. length m + RECORD_OVERHEAD \<le> MAX_FRAME"
      "sk_sent (ns_socket s') = sk_sent (ns_socket s1) @ concat (map frame_bytes rs)" by blast
    with r l seal_length [OF cr r] show ?case by (auto intro!: exI [of _ "r # rs"])
  qed
  then obtain rs where rs: "seal_all cr ms (ns_channel s) = Inr rs" "\<forall>m \<in> set ms. length m + RECORD_OVERHEAD \<le> MAX_FRAME"
    "sk_sent (ns_socket s') = concat (map frame_bytes rs)" using start by auto
  show ?thesis
    by (rule receive_all_delivers [OF cr i rs(1) _ rs(2) n]) (use live link rs(3) in \<open>simp add: to_come_def\<close>)
qed

text \<open>
  A frame of the last \<open>RECORD_OVERHEAD\<close> bytes below the limit is sealed, refused by the framing, and
  has used up its counter: what is sent next is a replay to the other end.
\<close>

lemma oversized_send_desyncs:
  assumes cr: "crypto_ok cr" and i: "in_step (ns_channel s) ch"
    and o: "\<not> ns_closed s" "MAX_FRAME - RECORD_OVERHEAD < length m" "length m \<le> MAX_FRAME"
    and m: "seal cr m (ns_channel s) = (Inr r, a)"
    and m': "seal cr m' a = (Inr r', a')"
  shows "\<exists>s'. network_send cr m s = (Inl (NetStream InvalidInput), s') \<and> ns_channel s' = a
    \<and> sk_sent (ns_socket s') = sk_sent (ns_socket s) \<and> (\<exists>e. open_record cr r' ch = (Inl e, ch))"
proof -
  have "length r > MAX_FRAME" using seal_length [OF cr m] o by (simp add: MAX_FRAME_def RECORD_OVERHEAD_def)
  then have "network_send cr m s = (Inl (NetStream InvalidInput), s\<lparr>ns_channel := a\<rparr>)"
    using o m by (simp add: network_send_def sock_send_def write_frame_def map_err_def)
  moreover from m obtain n where n: "checked_add_1 (ch_send_counter (ns_channel s)) = Some n"
    and a: "a = (ns_channel s)\<lparr>ch_send_counter := n\<rparr>" by (rule seal_Inr)
  from m' obtain c where "r' = to_be_bytes 8 (ch_send_counter a) @ c" by (rule seal_Inr)
  then have "from_be_bytes (take 8 r') = n" using a by simp
  moreover have "n \<noteq> ch_receive_counter ch" using checked_add_1_Some [OF n] i by (auto simp: in_step_def)
  ultimately show ?thesis using open_wrong_counter [of r' ch cr] by simp
qed

end
