(* ===== verification/Network_Exchange.thy ===== *)
theory Network_Exchange
  imports Qr_Network
begin

text \<open>
  The two ends of \<open>phone-auth-agent/src/qr_network.rs\<close> against each other, over sockets that cut
  what they carry into any pieces: a pairing phone becomes a proposal with the code both show, a
  paired phone is parked under its credential; and every interleaving of the threads that share
  the listener's state.
\<close>

subsection \<open>Frames that arrive in pieces\<close>

text \<open>Everything has been sent, and arrives in pieces of any size.\<close>

definition arriving :: "bytes \<Rightarrow> arrival list \<Rightarrow> bool" where
  "arriving bs s \<longleftrightarrow> live s \<and> stalls s = 0 \<and> content s = bs"

lemma read_exact_into_arriving:
  "arriving bs s \<Longrightarrow> length got \<le> n \<Longrightarrow> n \<le> length got + length bs \<Longrightarrow>
    \<exists>s'. read_exact_into n got s = (Inr (got @ take (n - length got) bs), s') \<and> arriving (drop (n - length got) bs) s'"
proof (induction n got s arbitrary: bs rule: read_exact_into.induct)
  case (1 n got s)
  show ?case
  proof (cases "length got < n")
    case False
    with "1.prems" show ?thesis by (simp add: read_exact_into.simps)
  next
    case True
    obtain r s' where r: "sock_read (n - length got) s = (r, s')" by fastforce
    show ?thesis
    proof (cases r)
      case (Inl e)
      with r sock_read_Inl [of "n - length got" s e s'] "1.prems"(1) show ?thesis by (simp add: arriving_def)
    next
      case (Inr xs)
      with r sock_read_Inr [of "n - length got" s xs s'] "1.prems"(1) True
      have xs: "bs = xs @ content s'" "length xs \<le> n - length got" "stalls s' = 0" "live s'" "xs = [] \<longrightarrow> s = []"
        by (auto simp: arriving_def)
      from xs(1,5) "1.prems"(1,3) True obtain y ys where y: "xs = y # ys" by (cases xs) (auto simp: arriving_def)
      have "arriving (content s') s'" using xs by (simp add: arriving_def)
      moreover have "length (got @ y # ys) \<le> n" "n \<le> length (got @ y # ys) + length (content s')"
        using xs(1,2) "1.prems"(3) True y by auto
      ultimately obtain s'' where "read_exact_into n (got @ y # ys) s' =
          (Inr ((got @ xs) @ take (n - length (got @ xs)) (content s')), s'')"
        and "arriving (drop (n - length (got @ xs)) (content s')) s''"
        using "1.IH" [OF True r [symmetric] Inr y, of "content s'"] unfolding y by blast
      moreover have "take (n - length got) bs = xs @ take (n - length (got @ xs)) (content s')"
        and "drop (n - length got) bs = drop (n - length (got @ xs)) (content s')"
        using xs(2) unfolding xs(1) by (simp_all add: diff_diff_eq)
      ultimately show ?thesis using True r Inr y by (simp add: read_exact_into.simps [of n got s])
    qed
  qed
qed

lemma read_exact_arriving:
  assumes "arriving (xs @ ys) s"
  shows "\<exists>s'. read_exact (length xs) s = (Inr xs, s') \<and> arriving ys s'"
  using read_exact_into_arriving [OF assms, of "[]" "length xs"] by (simp add: read_exact_def)

lemma read_frame_arriving:
  assumes "arriving (frame_bytes f @ rest) s" and "f \<noteq> []" and "length f \<le> MAX_FRAME"
  obtains s' where "read_frame s = (Inr f, s')" and "arriving rest s'"
proof -
  let ?h = "to_be_bytes 4 (ucast (word_of_nat (length f) :: u32))"
  have "arriving (?h @ f @ rest) s" using assms(1) by (simp add: frame_bytes_def)
  from read_exact_arriving [OF this] obtain s1 where 1: "read_exact PREFIX s = (Inr ?h, s1)" "arriving (f @ rest) s1"
    by (auto simp: PREFIX_def)
  from read_exact_arriving [OF 1(2)] obtain s2 where 2: "read_exact (length f) s1 = (Inr f, s2)" "arriving rest s2"
    by blast
  have "read_frame s = (Inr f, s2)" using 1 2 assms be_u32_length [of f] by (simp add: read_frame_def Let_def)
  with 2 that show thesis by blast
qed

lemma sock_receive_arriving:
  assumes "arriving (frame_bytes f @ rest) (sk_arrivals sk)" and "f \<noteq> []" and "length f \<le> MAX_FRAME"
  obtains as where "sock_receive sk = (Inr f, sk\<lparr>sk_arrivals := as\<rparr>)" and "arriving rest as"
proof -
  obtain as where "read_frame (sk_arrivals sk) = (Inr f, as)" "arriving rest as" by (rule read_frame_arriving [OF assms])
  then show thesis by (intro that [of as]) (simp_all add: sock_receive_def)
qed

lemma sock_send_ok:
  "f \<noteq> [] \<Longrightarrow> length f \<le> MAX_FRAME \<Longrightarrow> sk_works sk \<Longrightarrow>
    sock_send f sk = (Inr (), sk\<lparr>sk_sent := sk_sent sk @ frame_bytes f\<rparr>)"
  by (simp add: sock_send_def write_frame_def)

subsection \<open>A phone that connects\<close>

lemma attach_small:
  assumes "attach_typed m" and "validate_attach m = Inr ()"
  shows "length (encode_attach m) \<le> MAX_FRAME - RECORD_OVERHEAD" and "encode_attach m \<noteq> []"
  using assms
    length_enc(1) [of "ATTACH_FRAME_LEN"] length_enc(2) [of "MESSAGE_TYPE_ATTACH"]
    length_enc(2) [of "(at_protocol_version m)"] length_enc(4) [of "(at_credential_id m)"]
    length_enc(2) [of "0"]
  by (auto simp: encode_attach_eq attach_typed_def validate_attach_def then_ok_eq_Inr MAX_FRAME_def RECORD_OVERHEAD_def
      split: if_splits dest!: check_text_bound)

lemma enrolment_small:
  assumes "enrolment_typed m" and "validate_enrolment m = Inr ()"
  shows "length (encode_enrolment m) \<le> MAX_FRAME - RECORD_OVERHEAD" and "encode_enrolment m \<noteq> []"
  using assms
    length_enc(1) [of "ENROLMENT_FRAME_LEN"] length_enc(2) [of "MESSAGE_TYPE_ENROLMENT"]
    length_enc(2) [of "(en_protocol_version m)"] length_enc(4) [of "(en_device_name m)"]
    length_enc(4) [of "(en_credential_id m)"] length_enc(4) [of "(en_algorithm m)"]
    length_enc(5) [of "(en_public_key m)"] length_enc(2) [of "(key_kind_wire (en_key_kind m))"]
    length_enc(2) [of "(purpose_wire (en_purpose m))"] length_enc(2) [of "0"]
  by (auto simp: encode_enrolment_eq enrolment_typed_def validate_enrolment_def then_ok_eq_Inr MAX_FRAME_def
      RECORD_OVERHEAD_def split: if_splits dest!: check_text_bound)

text \<open>The cipher does not fail on what fits in a record.\<close>

definition encrypts :: "('key, 'sig, 'secret) crypto \<Rightarrow> bool" where
  "encrypts cr \<longleftrightarrow> (\<forall>k n a m. length m \<le> MAX_FRAME \<longrightarrow> cr_encrypt cr k n a m \<noteq> None)"

lemma first_record:
  assumes "crypto_ok cr" and "encrypts cr" and "m \<noteq> []" and "length m \<le> MAX_FRAME - RECORD_OVERHEAD"
    and "ch_send_counter ch = 0"
  obtains r ch' where "seal cr m ch = (Inr r, ch')" and "r \<noteq> []" and "length r \<le> MAX_FRAME"
proof -
  have l: "length m \<le> MAX_FRAME" using assms(4) by simp
  obtain c where c: "cr_encrypt cr (ch_send ch) (nonce 0) (ch_binding ch) m = Some c"
    using assms(2) l unfolding encrypts_def by blast
  then have "length c = length m + 16" using assms(1) unfolding crypto_ok_def by blast
  moreover have "checked_add_1 0 = Some 1" by (simp add: checked_add_1_def)
  ultimately show thesis
    using assms(3-5) c l
    by (intro that [of "to_be_bytes 8 0 @ c" "ch\<lparr>ch_send_counter := 1\<rparr>"])
      (auto simp: seal_def Let_def RECORD_OVERHEAD_def MAX_FRAME_def)
qed

text \<open>A client hello and the record behind it, sent over a socket on which the hello of the desktop arrives.\<close>

lemma client_session_runs:
  assumes "respond cr secret hello ve dev identity TRANSPORT_NAME now = Inr (answer, oc)"
    and "hello \<noteq> []" and "length hello \<le> MAX_FRAME" and "answer \<noteq> []" and "length answer \<le> MAX_FRAME"
    and "seal cr first (ho_channel oc) = (Inr rec, ch)" and "rec \<noteq> []" and "length rec \<le> MAX_FRAME"
    and "arriving (frame_bytes hello) (sk_arrivals sk)" and "sk_works sk"
  shows "\<exists>as. client_session cr secret ve dev identity first now sk =
    (Inr (ch, ho_verification_code oc),
     sk\<lparr>sk_arrivals := as, sk_sent := sk_sent sk @ frame_bytes answer @ frame_bytes rec\<rparr>)"
proof -
  obtain as where r: "sock_receive sk = (Inr hello, sk\<lparr>sk_arrivals := as\<rparr>)"
    using sock_receive_arriving [of hello "[]" sk] assms(2,3,9) by auto
  show ?thesis
    using assms r by (auto simp: client_session_def io_bind_def io_map_err_def io_of_def io_return_def map_err_def sock_send_ok
        intro!: exI [of _ as])
qed

text \<open>The desktop up to the end of the handshake, when both hellos arrive.\<close>

lemma connection_run_step:
  assumes "connection_bootstrap cr cfg rnd now armed = Inr b"
    and "begin_handshake cr (cx_secret rnd) b (lg_identity cfg) = Inr (p, hello)"
    and "hello \<noteq> []" and "length hello \<le> MAX_FRAME" and "answer \<noteq> []" and "length answer \<le> MAX_FRAME"
    and "peek_device_id answer = Inr claimed"
    and "finish_as cr p answer claimed (known claimed) armed = Inr out"
    and "arriving (frame_bytes answer @ rest) (sk_arrivals sk)" and "sk_works sk"
  obtains as where "arriving rest as" and "connection_run cr cfg rnd now armed known sk =
    connection_accept cr rnd armed out (sk\<lparr>sk_sent := sk_sent sk @ frame_bytes hello, sk_arrivals := as\<rparr>)"
proof -
  define sk1 where "sk1 = sk\<lparr>sk_sent := sk_sent sk @ frame_bytes hello\<rparr>"
  obtain as where r: "sock_receive sk1 = (Inr answer, sk1\<lparr>sk_arrivals := as\<rparr>)" and as: "arriving rest as"
    using sock_receive_arriving [of answer rest sk1] assms by (auto simp: sk1_def)
  have "connection_run cr cfg rnd now armed known sk = connection_accept cr rnd armed out (sk1\<lparr>sk_arrivals := as\<rparr>)"
    using assms(1-8,10) r sock_send_ok [of hello sk]
    by (simp add: connection_run_def io_bind_def io_map_err_def io_of_def map_err_def sk1_def)
  with that [OF as] show thesis by (simp add: sk1_def)
qed

text \<open>Whom each end expects: strangers with a code on screen, or a pair that knows each other.\<close>

definition ends_match ::
    "verifier_expectation \<Rightarrow> server_bootstrap option \<Rightarrow> bytes option \<Rightarrow> server_bootstrap \<Rightarrow> bytes \<Rightarrow> bytes \<Rightarrow> bool" where
  "ends_match ve armed known_dev b server_spki client_spki \<longleftrightarrow>
    (ve = Scanned b \<and> armed = Some b \<and> known_dev = None)
    \<or> (ve = PairedVerifier server_spki \<and> known_dev = Some client_spki)"

lemma handshake_over_sockets:
  assumes cr: "crypto_ok cr" "encrypts cr"
    and b: "connection_bootstrap cr cfg rnd now armed = Inr b" and s: "server_ready cr b (lg_identity cfg) server_spki"
    and c: "client_ready cr dev cid client_spki" and x: "ends_match ve armed (known dev) b server_spki client_spki"
    and t: "client_now < sb_expires_at_ms b"
    and first: "first \<noteq> []" "length first \<le> MAX_FRAME - RECORD_OVERHEAD"
  obtains hello to_server and os oc :: handshake_outcome and rec ch where
    "\<And>sk. arriving (frame_bytes hello) (sk_arrivals sk) \<Longrightarrow> sk_works sk \<Longrightarrow>
      \<exists>as. client_session cr csecret ve dev cid first client_now sk =
        (Inr (ch, ho_verification_code os), sk\<lparr>sk_arrivals := as, sk_sent := sk_sent sk @ to_server\<rparr>)"
    and "\<And>sk. arriving to_server (sk_arrivals sk) \<Longrightarrow> sk_works sk \<Longrightarrow>
      \<exists>as. arriving (frame_bytes rec) as \<and> connection_run cr cfg rnd now armed known sk =
        connection_accept cr rnd armed os (sk\<lparr>sk_sent := sk_sent sk @ frame_bytes hello, sk_arrivals := as\<rparr>)"
    and "in_step (ho_channel os) (ho_channel oc)" and "in_step (ho_channel oc) (ho_channel os)"
    and "seal cr first (ho_channel oc) = (Inr rec, ch)" and "rec \<noteq> []" and "length rec \<le> MAX_FRAME"
    and "ho_peer_device_id os = dev" and "ho_peer_identity_spki os = client_spki"
    and "ho_was_pairing os \<longleftrightarrow> ve = Scanned b"
    and "ho_intent os = Some (if ve = Scanned b then PairIntent else ResumeIntent)"
proof -
  define pe where "pe = (if ve = Scanned b then PairingPeer else PairedPeer dev client_spki)"
  have m: "expectations_match ve pe b server_spki dev client_spki"
    using x by (auto simp: expectations_match_def ends_match_def pe_def)
  obtain p hello answer oc os where h:
    "begin_handshake cr (cx_secret rnd) b (lg_identity cfg) = Inr (p, hello)"
    "respond cr csecret hello ve dev cid TRANSPORT_NAME client_now = Inr (answer, oc)"
    "finish_handshake cr p answer pe TRANSPORT_NAME = Inr os"
    and i: "in_step (ho_channel os) (ho_channel oc)" "in_step (ho_channel oc) (ho_channel os)"
    and v: "ho_verification_code os = ho_verification_code oc"
    and d: "ho_peer_identity_spki os = client_spki" "ho_peer_device_id os = dev"
    and w: "ho_was_pairing os = (pe = PairingPeer)" "ho_was_pairing oc = (pe = PairingPeer)" "ho_intent os = ho_intent oc"
    using handshake_completes [OF cr(1) s c m t, of "cx_secret rnd" csecret TRANSPORT_NAME] by blast
  obtain u sg hh hw ks where r: "decode_envelope hello = Inr (u, sg)"
      "oc = client_outcome cr hh (cr_x25519_public cr csecret) ks TRANSPORT_NAME hw"
    using h(2) unfolding respond_iff by blast
  then have hl: "hello \<noteq> []" "length hello \<le> MAX_FRAME"
    by (auto simp: decode_envelope_def MAX_HANDSHAKE_FRAME_def MAX_FRAME_def split: if_splits)
  obtain u' sg' where "decode_envelope answer = Inr (u', sg')" using h(3) unfolding finish_handshake_iff by blast
  then have al: "answer \<noteq> []" "length answer \<le> MAX_FRAME"
    by (auto simp: decode_envelope_def MAX_HANDSHAKE_FRAME_def MAX_FRAME_def split: if_splits)
  have z: "ch_send_counter (ho_channel oc) = 0" using r(2) by (simp add: client_outcome_def channel_new_def)
  obtain rec ch where rec: "seal cr first (ho_channel oc) = (Inr rec, ch)" "rec \<noteq> []" "length rec \<le> MAX_FRAME"
    by (rule first_record [OF cr first z])
  have pw: "(pe = PairingPeer) = (ve = Scanned b)" by (simp add: pe_def)
  have intent: "ho_intent os = Some (if ve = Scanned b then PairIntent else ResumeIntent)"
    using w pw r(2) by (simp add: client_outcome_def)
  have peek: "peek_device_id answer = Inr dev" using finish_proves(3) [OF h(3)] d by simp
  have fin: "finish_as cr p answer dev (known dev) armed = Inr os"
    using x h(3) by (auto simp: finish_as_def ends_match_def pe_def map_err_def split: if_splits)
  have client: "\<exists>as. client_session cr csecret ve dev cid first client_now sk =
        (Inr (ch, ho_verification_code os), sk\<lparr>sk_arrivals := as, sk_sent := sk_sent sk @ (frame_bytes answer @ frame_bytes rec)\<rparr>)"
    if "arriving (frame_bytes hello) (sk_arrivals sk)" "sk_works sk" for sk
    unfolding v using that by (rule client_session_runs [OF h(2) hl al rec])
  have server: "\<exists>as. arriving (frame_bytes rec) as \<and> connection_run cr cfg rnd now armed known sk =
        connection_accept cr rnd armed os (sk\<lparr>sk_sent := sk_sent sk @ frame_bytes hello, sk_arrivals := as\<rparr>)"
    if "arriving (frame_bytes answer @ frame_bytes rec) (sk_arrivals sk)" "sk_works sk" for sk
    using that by (metis connection_run_step [where known = known, OF b h(1) hl al peek fin])
  have pairing: "ho_was_pairing os \<longleftrightarrow> ve = Scanned b" using w pw by simp
  show thesis
    by (rule that [where hello = hello and to_server = "frame_bytes answer @ frame_bytes rec" and os = os and oc = oc
          and rec = rec and ch = ch], erule (1) client, erule (1) server) (fact i rec d pairing intent)+
qed

lemma open_on_sealed:
  assumes "crypto_ok cr" and "in_step a b" and "seal cr m a = (Inr r, a')" and "in_step b a"
  obtains b' where "open_on cr r b = Inr (m, b')" and "in_step a' b'" and "in_step b' a'"
proof -
  from open_sealed [OF assms(1-3)] obtain b' where o: "open_record cr r b = (Inr m, b')" "in_step a' b'"
    "b' = b\<lparr>ch_receive_counter := ch_send_counter a'\<rparr>" by blast
  moreover have "in_step b' a'" using assms(3)
    by (rule seal_Inr) (use assms(4) o(3) in \<open>simp add: in_step_def\<close>)
  ultimately show thesis using that by (simp add: open_on_def)
qed

text \<open>
  A phone that scans the code on screen becomes a proposal: what the user is asked to confirm names
  the phone, its key and its enrolment, and shows the code that the phone shows.
\<close>

lemma code_pairs:
  assumes cr: "crypto_ok cr" "encrypts cr" and s: "server_ready cr b (lg_identity cfg) server_spki"
    and c: "client_ready cr dev cid client_spki" and known: "known dev = None"
    and t: "client_now < sb_expires_at_ms b"
    and en: "enrolment_typed en" "validate_enrolment en = Inr ()" "en_purpose en = sb_purpose b"
  shows "\<exists>to_phone to_desktop. \<forall>phone desktop :: socket.
    arriving to_phone (sk_arrivals phone) \<and> sk_works phone \<and> sk_sent phone = [] \<and>
    arriving to_desktop (sk_arrivals desktop) \<and> sk_works desktop \<and> sk_sent desktop = [] \<longrightarrow>
    (\<exists>ch code phone' desktop' out. client_pair cr csecret b dev cid en client_now phone = (Inr (ch, code), phone')
      \<and> connection_run cr cfg rnd now (Some b) known desktop =
          (Inr (Proposes (proposal_of (cx_attempt_id rnd) out en)), desktop')
      \<and> sk_sent phone' = to_desktop \<and> sk_sent desktop' = to_phone
      \<and> ho_peer_device_id out = dev \<and> ho_peer_identity_spki out = client_spki \<and> ho_verification_code out = code)"
proof -
  have b: "connection_bootstrap cr cfg rnd now (Some b) = Inr b" by (simp add: connection_bootstrap_def)
  have x: "ends_match (Scanned b) (Some b) (known dev) b server_spki client_spki" using known by (simp add: ends_match_def)
  obtain hello to_server and os oc :: handshake_outcome and rec ch where
    client: "\<And>sk. arriving (frame_bytes hello) (sk_arrivals sk) \<Longrightarrow> sk_works sk \<Longrightarrow>
      \<exists>as. client_session cr csecret (Scanned b) dev cid (encode_enrolment en) client_now sk =
        (Inr (ch, ho_verification_code os), sk\<lparr>sk_arrivals := as, sk_sent := sk_sent sk @ to_server\<rparr>)"
    and server: "\<And>sk. arriving to_server (sk_arrivals sk) \<Longrightarrow> sk_works sk \<Longrightarrow>
      \<exists>as. arriving (frame_bytes rec) as \<and> connection_run cr cfg rnd now (Some b) known sk =
        connection_accept cr rnd (Some b) os (sk\<lparr>sk_sent := sk_sent sk @ frame_bytes hello, sk_arrivals := as\<rparr>)"
    and i: "in_step (ho_channel os) (ho_channel oc)" "in_step (ho_channel oc) (ho_channel os)"
    and rec: "seal cr (encode_enrolment en) (ho_channel oc) = (Inr rec, ch)" "rec \<noteq> []" "length rec \<le> MAX_FRAME"
    and d: "ho_peer_device_id os = dev" "ho_peer_identity_spki os = client_spki" "ho_was_pairing os \<longleftrightarrow> Scanned b = Scanned b"
      "ho_intent os = Some (if Scanned b = Scanned b then PairIntent else ResumeIntent)"
    by (rule handshake_over_sockets [where known = known and csecret = csecret and client_now = client_now,
          OF cr b s c x t enrolment_small(2,1) [OF en(1,2)]]) (rule that; assumption)
  obtain ch' where o: "open_on cr rec (ho_channel os) = Inr (encode_enrolment en, ch')"
    by (rule open_on_sealed [OF cr(1) i(2) rec(1) i(1)])
  have de: "decode_enrolment (encode_enrolment en) = Inr en"
    using decode_enrolment_encode [OF en(1,2) enrolment_encode_bound [OF en(1,2)]] .
  have accept: "\<exists>as'. connection_accept cr rnd (Some b) os sk =
      (Inr (Proposes (proposal_of (cx_attempt_id rnd) os en)), sk\<lparr>sk_arrivals := as'\<rparr>)"
    if a: "arriving (frame_bytes rec) (sk_arrivals sk)" for sk
  proof -
    obtain as' where "sock_receive sk = (Inr rec, sk\<lparr>sk_arrivals := as'\<rparr>)"
      using sock_receive_arriving [of rec "[]" sk, OF _ rec(2,3)] a by auto
    then show ?thesis
      using o de d(3) en(3)
      by (simp add: connection_accept_def connection_enrolment_def read_enrolment_def decode_enrolment_on_def
          io_bind_def io_map_err_def io_of_def io_return_def map_err_def exI [of _ as'])
  qed
  show ?thesis
  proof (rule exI [of _ "frame_bytes hello"], rule exI [of _ to_server], intro allI impI, elim conjE)
    fix phone desktop :: socket
    assume p: "arriving (frame_bytes hello) (sk_arrivals phone)" "sk_works phone" "sk_sent phone = []"
      and q: "arriving to_server (sk_arrivals desktop)" "sk_works desktop" "sk_sent desktop = []"
    from server [OF q(1,2)] obtain as where as: "arriving (frame_bytes rec) as"
      "connection_run cr cfg rnd now (Some b) known desktop =
        connection_accept cr rnd (Some b) os (desktop\<lparr>sk_sent := sk_sent desktop @ frame_bytes hello, sk_arrivals := as\<rparr>)"
      by blast
    from client [OF p(1,2)] p(3) have "\<exists>phone'. client_pair cr csecret b dev cid en client_now phone =
        (Inr (ch, ho_verification_code os), phone') \<and> sk_sent phone' = to_server"
      by (auto simp: client_pair_def)
    moreover from accept [of "desktop\<lparr>sk_sent := sk_sent desktop @ frame_bytes hello, sk_arrivals := as\<rparr>"] as q(3)
    have "\<exists>desktop'. connection_run cr cfg rnd now (Some b) known desktop =
        (Inr (Proposes (proposal_of (cx_attempt_id rnd) os en)), desktop') \<and> sk_sent desktop' = frame_bytes hello"
      by auto
    ultimately show "\<exists>ch code phone' desktop' out. client_pair cr csecret b dev cid en client_now phone = (Inr (ch, code), phone')
      \<and> connection_run cr cfg rnd now (Some b) known desktop =
          (Inr (Proposes (proposal_of (cx_attempt_id rnd) out en)), desktop')
      \<and> sk_sent phone' = to_server \<and> sk_sent desktop' = frame_bytes hello
      \<and> ho_peer_device_id out = dev \<and> ho_peer_identity_spki out = client_spki \<and> ho_verification_code out = code"
      using d by blast
  qed
qed

text \<open>
  A paired phone that dials for one of its credentials is parked under it, with a channel in step
  with the phone's, whether or not a code is on screen.
\<close>

lemma connection_parks:
  assumes cr: "crypto_ok cr" "encrypts cr" and b: "connection_bootstrap cr cfg rnd now armed = Inr b"
    and s: "server_ready cr b (lg_identity cfg) server_spki"
    and c: "client_ready cr dev cid client_spki" and known: "known dev = Some client_spki"
    and t: "client_now < sb_expires_at_ms b"
    and cred: "is_str cred" "validate_attach (attach_new cred) = Inr ()"
  shows "\<exists>to_phone to_desktop. \<forall>phone desktop :: socket.
    arriving to_phone (sk_arrivals phone) \<and> sk_works phone \<and> sk_sent phone = [] \<and>
    arriving to_desktop (sk_arrivals desktop) \<and> sk_works desktop \<and> sk_sent desktop = [] \<longrightarrow>
    (\<exists>ch ch' phone' desktop'. client_connect cr csecret server_spki dev cid cred client_now phone = (Inr ch, phone')
      \<and> connection_run cr cfg rnd now armed known desktop = (Inr (Parks (dev, Some cred) ch'), desktop')
      \<and> sk_sent phone' = to_desktop \<and> sk_sent desktop' = to_phone \<and> in_step ch ch' \<and> in_step ch' ch)"
proof -
  let ?first = "encode_attach (attach_new cred)"
  have ty: "attach_typed (attach_new cred)" using cred(1) by (simp add: attach_typed_def attach_new_def)
  have x: "ends_match (PairedVerifier server_spki) armed (known dev) b server_spki client_spki"
    using known by (simp add: ends_match_def)
  obtain hello to_server and os oc :: handshake_outcome and rec ch where
    client: "\<And>sk. arriving (frame_bytes hello) (sk_arrivals sk) \<Longrightarrow> sk_works sk \<Longrightarrow>
      \<exists>as. client_session cr csecret (PairedVerifier server_spki) dev cid ?first client_now sk =
        (Inr (ch, ho_verification_code os), sk\<lparr>sk_arrivals := as, sk_sent := sk_sent sk @ to_server\<rparr>)"
    and server: "\<And>sk. arriving to_server (sk_arrivals sk) \<Longrightarrow> sk_works sk \<Longrightarrow>
      \<exists>as. arriving (frame_bytes rec) as \<and> connection_run cr cfg rnd now armed known sk =
        connection_accept cr rnd armed os (sk\<lparr>sk_sent := sk_sent sk @ frame_bytes hello, sk_arrivals := as\<rparr>)"
    and i: "in_step (ho_channel os) (ho_channel oc)" "in_step (ho_channel oc) (ho_channel os)"
    and rec: "seal cr ?first (ho_channel oc) = (Inr rec, ch)" "rec \<noteq> []" "length rec \<le> MAX_FRAME"
    and d: "ho_peer_device_id os = dev" "ho_peer_identity_spki os = client_spki" "ho_was_pairing os \<longleftrightarrow> PairedVerifier server_spki = Scanned b"
      "ho_intent os = Some (if PairedVerifier server_spki = Scanned b then PairIntent else ResumeIntent)"
    by (rule handshake_over_sockets [where known = known and csecret = csecret and client_now = client_now,
          OF cr b s c x t attach_small(2,1) [OF ty cred(2)]]) (rule that; assumption)
  obtain ch' where o: "open_on cr rec (ho_channel os) = Inr (?first, ch')" and i': "in_step ch ch'" "in_step ch' ch"
    by (rule open_on_sealed [OF cr(1) i(2) rec(1) i(1)])
  have de: "decode_attach ?first = Inr (attach_new cred)"
    using decode_attach_encode [OF ty cred(2) attach_encode_bound [OF ty cred(2)]] .
  have rc: "attach_recognizes ?first"
    using de by (auto simp: attach_recognizes_def decode_attach_def Let_def then_ok_eq_Inr then_cbor_eq_Inr split: if_splits)
  have accept: "\<exists>as'. connection_accept cr rnd armed os sk = (Inr (Parks (dev, Some cred) ch'), sk\<lparr>sk_arrivals := as'\<rparr>)"
    if a: "arriving (frame_bytes rec) (sk_arrivals sk)" for sk
  proof -
    obtain as' where "sock_receive sk = (Inr rec, sk\<lparr>sk_arrivals := as'\<rparr>)"
      using sock_receive_arriving [of rec "[]" sk, OF _ rec(2,3)] a by auto
    then show ?thesis
      using o de d(1,3,4) rc
      by (simp add: connection_accept_def connection_enrolment_def read_attach_def read_or_silence_def io_match_def
          io_bind_def io_map_err_def io_of_def io_return_def map_err_def attach_new_def exI [of _ as'])
  qed
  show ?thesis
  proof (rule exI [of _ "frame_bytes hello"], rule exI [of _ to_server], intro allI impI, elim conjE)
    fix phone desktop :: socket
    assume p: "arriving (frame_bytes hello) (sk_arrivals phone)" "sk_works phone" "sk_sent phone = []"
      and q: "arriving to_server (sk_arrivals desktop)" "sk_works desktop" "sk_sent desktop = []"
    from server [OF q(1,2)] obtain as where as: "arriving (frame_bytes rec) as"
      "connection_run cr cfg rnd now armed known desktop =
        connection_accept cr rnd armed os (desktop\<lparr>sk_sent := sk_sent desktop @ frame_bytes hello, sk_arrivals := as\<rparr>)"
      by blast
    from client [OF p(1,2)] p(3) have "\<exists>phone'. client_connect cr csecret server_spki dev cid cred client_now phone =
        (Inr ch, phone') \<and> sk_sent phone' = to_server"
      by (auto simp: client_connect_def io_bind_def io_return_def)
    moreover from accept [of "desktop\<lparr>sk_sent := sk_sent desktop @ frame_bytes hello, sk_arrivals := as\<rparr>"] as q(3)
    have "\<exists>desktop'. connection_run cr cfg rnd now armed known desktop = (Inr (Parks (dev, Some cred) ch'), desktop')
        \<and> sk_sent desktop' = frame_bytes hello"
      by auto
    ultimately show "\<exists>ch ch' phone' desktop'. client_connect cr csecret server_spki dev cid cred client_now phone = (Inr ch, phone')
      \<and> connection_run cr cfg rnd now armed known desktop = (Inr (Parks (dev, Some cred) ch'), desktop')
      \<and> sk_sent phone' = to_server \<and> sk_sent desktop' = frame_bytes hello \<and> in_step ch ch' \<and> in_step ch' ch"
      using i' by blast
  qed
qed

end
