(* ===== verification/Listener_Runs.thy ===== *)
theory Listener_Runs
  imports Qr_Network
begin

text \<open>
  Every interleaving of the threads that share the listener's state in
  \<open>phone-auth-agent/src/qr_network.rs\<close>. A run is the list of the states so far, the last one first.
  A connection reads the armed code at one of them, the known peers at a later one, and leaves its
  result at the end.
\<close>

fun alone :: "listener_event \<Rightarrow> bool" where
  "alone (ConnectionEnded now open_end origin result) = False"
| "alone ev = True"

inductive listener_runs ::
    "('key, 'sig, 'secret) crypto \<Rightarrow> 'secret listener_config \<Rightarrow> listener list \<Rightarrow> bool" for cr cfg where
  start: "listener_runs cr cfg [listener_new]"
| acts: "listener_runs cr cfg (st # past) \<Longrightarrow> alone ev \<Longrightarrow>
    listener_runs cr cfg (listener_step (lg_idle_timeout cfg) ev st # st # past)"
| serves: "listener_runs cr cfg (st # past) \<Longrightarrow> st # past = later @ st2 # before \<Longrightarrow> st1 \<in> set (st2 # before) \<Longrightarrow>
    connection_run cr cfg rnd now (ln_armed_pairing st1) (ln_known_peers st2) sk = result \<Longrightarrow>
    listener_runs cr cfg (listener_step (lg_idle_timeout cfg) (ConnectionEnded at open_end origin result) st # st # past)"

inductive_cases listener_runs_ConsE: "listener_runs cr cfg (st # past)"

lemma runs_pool_ok: "listener_runs cr cfg past \<Longrightarrow> \<forall>st \<in> set past. pool_ok (ln_sessions st)"
proof (induction rule: listener_runs.induct)
  case start
  then show ?case by (simp add: listener_new_def pool_ok_def)
next
  case (acts st past ev)
  then have "pool_ok (ln_sessions st)" by simp
  with acts.IH listener_step_pool_ok show ?case by simp
next
  case (serves st past later st2 before st1 rnd now sk result at open_end origin)
  from serves.IH have "pool_ok (ln_sessions st)" "\<forall>st' \<in> set (st # past). pool_ok (ln_sessions st')" by simp_all
  with listener_step_pool_ok show ?case by (metis set_ConsD)
qed

subsection \<open>What a connection has proved\<close>

text \<open>
  The hello this connection has received is signed by the key \<open>spki\<close>, names \<open>device_id\<close>, and
  repeats the code and the ephemeral key this connection has sent; \<open>ks\<close> are the keys they agree on.
\<close>

definition proved_to ::
    "('key, 'sig, 'secret) crypto \<Rightarrow> 'secret listener_config \<Rightarrow> connection_randoms \<Rightarrow> int \<Rightarrow> server_bootstrap option \<Rightarrow>
     socket \<Rightarrow> string \<Rightarrow> bytes \<Rightarrow> key_schedule \<Rightarrow> bool" where
  "proved_to cr cfg rnd now armed sk device_id spki ks \<longleftrightarrow>
    (\<exists>b own hello sk1 frame sk2 u sig c.
      connection_bootstrap cr cfg rnd now armed = Inr b \<and> public_key_spki cr (lg_identity cfg) = Inr own
      \<and> sock_send hello sk = (Inr (), sk1) \<and> sock_receive sk1 = (Inr frame, sk2)
      \<and> decode_envelope frame = Inr (u, sig) \<and> signed_by (cr_p256 cr) spki u sig
      \<and> decode_client_hello u = Inr c \<and> cl_device_id c = device_id \<and> cl_identity_spki c = spki
      \<and> cl_session_id c = sb_session_id b \<and> cl_verifier_id c = sb_verifier_id b \<and> cl_nonce c = sb_nonce b
      \<and> cl_expires_at_ms c = sb_expires_at_ms b \<and> cl_server_ephemeral c = cr_x25519_public cr (cx_secret rnd)
      \<and> derive cr (cr_x25519 cr (cx_secret rnd) (cl_ephemeral c))
          (transcript_hash cr (encode_server_hello b own (cr_x25519_public cr (cx_secret rnd))) u) = Inr ks)"

definition same_keys :: "secure_channel \<Rightarrow> secure_channel \<Rightarrow> bool" where
  "same_keys a b \<longleftrightarrow> ch_send a = ch_send b \<and> ch_receive a = ch_receive b \<and> ch_binding a = ch_binding b"

lemma same_keys_refl [simp]: "same_keys a a" by (simp add: same_keys_def)
lemma same_keys_trans [trans]: "same_keys a b \<Longrightarrow> same_keys b c \<Longrightarrow> same_keys a c" by (simp add: same_keys_def)

lemma open_on_keys: "open_on cr record ch = Inr (f, ch') \<Longrightarrow> same_keys ch ch'"
  by (auto simp: open_on_def same_keys_def split: prod.splits sum.splits elim!: open_Inr)

lemma enrolment_keys:
  "connection_enrolment cr armed out sk = (Inr (en, ch), sk') \<Longrightarrow> same_keys (ho_channel out) ch"
  by (auto simp: connection_enrolment_def read_enrolment_def peek_enrolment_def read_or_silence_def decode_enrolment_on_def
      connection_runs then_ok_eq_Inr io_match_def dest: open_on_keys
      split: if_splits option.splits pairing_intent.splits prod.splits sum.splits)

lemma attach_keys: "read_attach cr ch sk = (Inr (cred, ch'), sk') \<Longrightarrow> same_keys ch ch'"
  by (auto simp: read_attach_def read_or_silence_def connection_runs then_ok_eq_Inr io_match_def dest: open_on_keys
      split: if_splits option.splits prod.splits sum.splits)

lemma connection_accept_parks:
  assumes "connection_accept cr rnd armed out sk1 = (Inr (Parks key ch), sk')"
  shows "\<exists>ch1 sk2 cred. connection_enrolment cr armed out sk1 = (Inr (None, ch1), sk2)
    \<and> read_attach cr ch1 sk2 = (Inr (cred, ch), sk') \<and> key = (ho_peer_device_id out, cred)"
proof -
  from assms obtain en ch1 sk2 where en: "connection_enrolment cr armed out sk1 = (Inr (en, ch1), sk2)"
    unfolding connection_accept_def by (auto simp: connection_runs)
  with assms show ?thesis
    by (cases en) (auto simp: connection_accept_def connection_runs split: option.splits if_splits)
qed

lemma connection_accept_proposes:
  assumes "connection_accept cr rnd armed out sk1 = (Inr (Proposes g), sk')"
  shows "\<exists>en ch1. connection_enrolment cr armed out sk1 = (Inr (Some en, ch1), sk')
    \<and> g = proposal_of (cx_attempt_id rnd) out en \<and> (\<forall>code. armed = Some code \<longrightarrow> en_purpose en = sb_purpose code)"
proof -
  from assms obtain en ch1 sk2 where en: "connection_enrolment cr armed out sk1 = (Inr (en, ch1), sk2)"
    unfolding connection_accept_def by (auto simp: connection_runs)
  with assms show ?thesis
    by (cases en; cases armed) (auto simp: connection_accept_def connection_runs split: if_splits)
qed

lemma connection_run_proved:
  assumes "connection_run cr cfg rnd now armed known sk = (Inr a, sk')"
  obtains out ks sk1 where "proved_to cr cfg rnd now armed sk (ho_peer_device_id out) (ho_peer_identity_spki out) ks"
    and "known (ho_peer_device_id out) = (if ho_was_pairing out then None else Some (ho_peer_identity_spki out))"
    and "ho_was_pairing out \<Longrightarrow> armed \<noteq> None"
    and "ch_send (ho_channel out) = ks_server_to_client ks" and "ch_receive (ho_channel out) = ks_client_to_server ks"
    and "ho_verification_code out = verification_code cr (ks_exporter ks)"
    and "connection_accept cr rnd armed out sk1 = (Inr a, sk')"
proof -
  from assms obtain b p hello sk0 f sk1 claimed out where
    b: "connection_bootstrap cr cfg rnd now armed = Inr b"
    and p: "begin_handshake cr (cx_secret rnd) b (lg_identity cfg) = Inr (p, hello)"
    and io: "sock_send hello sk = (Inr (), sk0)" "sock_receive sk0 = (Inr f, sk1)"
    and claimed: "peek_device_id f = Inr claimed"
    and out: "finish_as cr p f claimed (known claimed) armed = Inr out"
    and a: "connection_accept cr rnd armed out sk1 = (Inr a, sk')"
    unfolding connection_run_def by (auto simp: connection_runs)
  from p obtain own where own: "public_key_spki cr (lg_identity cfg) = Inr own" "ph_bootstrap p = b"
      "ph_secret p = cx_secret rnd" "ph_public p = cr_x25519_public cr (cx_secret rnd)"
      "ph_server_unsigned p = encode_server_hello b own (cr_x25519_public cr (cx_secret rnd))"
    by (auto simp: begin_handshake_def then_ok_eq_Inr Let_def split: if_splits)
  from out obtain e where fin: "finish_handshake cr p f e TRANSPORT_NAME = Inr out"
    and e: "e = PairingPeer \<and> known claimed = None \<and> armed \<noteq> None
      \<or> (\<exists>spki. known claimed = Some spki \<and> e = PairedPeer claimed spki)"
    by (auto simp: finish_as_def map_err_iff split: option.splits)
  from finish_proves(3) [OF fin] claimed have d: "ho_peer_device_id out = claimed" by simp
  from fin obtain u s c w ks where f: "decode_envelope f = Inr (u, s)" "decode_client_hello u = Inr c" "echoes c p"
    and g: "signed_by (cr_p256 cr) (cl_identity_spki c) u s"
    and ks: "derive cr (cr_x25519 cr (ph_secret p) (cl_ephemeral c)) (transcript_hash cr (ph_server_unsigned p) u) = Inr ks"
    and o: "out = server_outcome cr p c ks TRANSPORT_NAME w"
    unfolding finish_handshake_iff by blast
  show thesis
  proof (rule that [OF _ _ _ _ _ _ a])
    show "proved_to cr cfg rnd now armed sk (ho_peer_device_id out) (ho_peer_identity_spki out) ks"
      unfolding proved_to_def
      by (intro exI [of _ b] exI [of _ own] exI [of _ hello] exI [of _ sk0] exI [of _ f] exI [of _ sk1] exI [of _ u] exI [of _ s] exI [of _ c])
        (use b own io f g ks o in \<open>simp add: server_outcome_def echoes_def\<close>)
    show "known (ho_peer_device_id out) = (if ho_was_pairing out then None else Some (ho_peer_identity_spki out))"
      "ho_was_pairing out \<Longrightarrow> armed \<noteq> None"
      using e d finish_proves(1,2) [OF fin] by auto
    show "ch_send (ho_channel out) = ks_server_to_client ks" "ch_receive (ho_channel out) = ks_client_to_server ks"
      "ho_verification_code out = verification_code cr (ks_exporter ks)"
      by (simp_all add: o server_outcome_def channel_new_def)
  qed
qed

lemma parks_proved:
  assumes "connection_run cr cfg rnd now armed known sk = (Inr (Parks key ch), sk')"
  shows "\<exists>spki ks. known (fst key) = Some spki \<and> proved_to cr cfg rnd now armed sk (fst key) spki ks
    \<and> ch_send ch = ks_server_to_client ks \<and> ch_receive ch = ks_client_to_server ks"
  using assms
proof (rule connection_run_proved)
  fix out ks sk1
  assume p: "proved_to cr cfg rnd now armed sk (ho_peer_device_id out) (ho_peer_identity_spki out) ks"
    and k: "known (ho_peer_device_id out) = (if ho_was_pairing out then None else Some (ho_peer_identity_spki out))"
    and c: "ch_send (ho_channel out) = ks_server_to_client ks" "ch_receive (ho_channel out) = ks_client_to_server ks"
    and a: "connection_accept cr rnd armed out sk1 = (Inr (Parks key ch), sk')"
  from connection_accept_parks [OF a] obtain ch1 sk2 cred where
    en: "connection_enrolment cr armed out sk1 = (Inr (None, ch1), sk2)"
    and at: "read_attach cr ch1 sk2 = (Inr (cred, ch), sk')" and key: "key = (ho_peer_device_id out, cred)" by blast
  from same_keys_trans [OF enrolment_keys [OF en] attach_keys [OF at]] c
  have "ch_send ch = ks_server_to_client ks" "ch_receive ch = ks_client_to_server ks" by (simp_all add: same_keys_def)
  moreover have "\<not> ho_was_pairing out"
    using en by (auto simp: connection_enrolment_def read_enrolment_def connection_runs)
  ultimately show ?thesis using p k key by auto
qed

lemma proposes_proved:
  assumes "connection_run cr cfg rnd now armed known sk = (Inr (Proposes g), sk')"
  shows "\<exists>code ks. armed = Some code \<and> pg_purpose g = sb_purpose code
    \<and> proved_to cr cfg rnd now armed sk (pg_device_id g) (pg_session_identity_spki g) ks
    \<and> pg_verification_code g = verification_code cr (ks_exporter ks) \<and> pg_attempt_id g = cx_attempt_id rnd"
  using assms
proof (rule connection_run_proved)
  fix out ks sk1
  assume p: "proved_to cr cfg rnd now armed sk (ho_peer_device_id out) (ho_peer_identity_spki out) ks"
    and k: "ho_was_pairing out \<Longrightarrow> armed \<noteq> None"
    and v: "ho_verification_code out = verification_code cr (ks_exporter ks)"
    and a: "connection_accept cr rnd armed out sk1 = (Inr (Proposes g), sk')"
  from connection_accept_proposes [OF a] obtain en ch1 where
    en: "connection_enrolment cr armed out sk1 = (Inr (Some en, ch1), sk')"
    and g: "g = proposal_of (cx_attempt_id rnd) out en" and c: "\<And>code. armed = Some code \<Longrightarrow> en_purpose en = sb_purpose code"
    by blast
  have "armed \<noteq> None" using en k by (auto simp: connection_enrolment_def connection_runs split: if_splits)
  with p v c show ?thesis by (auto simp: g proposal_of_def)
qed

subsection \<open>Where sessions and proposals come from\<close>

lemma step_sessions:
  "alone ev \<Longrightarrow> set (ln_sessions (listener_step T ev st)) \<subseteq> set (ln_sessions st)"
  by (cases ev) (auto simp: set_known_peers_def arm_pairing_def transport_cancel_pairing_def take_proposal_def discard_sessions_def
    sweep_def accepted_connection_def accept_failed_def take_matching_def discard_stale_def pool_remove_def
    split: option.splits)

lemma step_proposal:
  "alone ev \<Longrightarrow> ln_proposal (listener_step T ev st) \<in> {None, ln_proposal st}"
  by (cases ev) (auto simp: set_known_peers_def arm_pairing_def transport_cancel_pairing_def take_proposal_def discard_sessions_def
    sweep_def accepted_connection_def accept_failed_def)

lemma park_sessions:
  "set (ln_sessions (park now T open_end key s st)) \<subseteq> insert (key, s) (set (ln_sessions st))"
proof -
  obtain P where "enforce_session_cap (fst key) (discard_stale now T open_end (ln_sessions st))
      = filter P (discard_stale now T open_end (ln_sessions st))"
    using enforce_session_cap_spec by blast
  then show ?thesis by (auto simp: park_def Let_def pool_remove_def discard_stale_def)
qed

text \<open>The connection that left this session in the pool, and the one that left this proposal.\<close>

definition parked_by ::
    "('key, 'sig, 'secret) crypto \<Rightarrow> 'secret listener_config \<Rightarrow> listener list \<Rightarrow> session_key \<Rightarrow> parked_session \<Rightarrow> bool" where
  "parked_by cr cfg past key s \<longleftrightarrow>
    (\<exists>later st before st1 st2 open_end rnd now sk spki ks.
      past = later @ listener_step (lg_idle_timeout cfg) (ConnectionEnded (qs_parked_at s) open_end (qs_origin s)
          (Inr (Parks key (qs_channel s)), qs_socket s)) st # st # before
      \<and> st1 \<in> set (st # before) \<and> st2 \<in> set (st # before)
      \<and> connection_run cr cfg rnd now (ln_armed_pairing st1) (ln_known_peers st2) sk
          = (Inr (Parks key (qs_channel s)), qs_socket s)
      \<and> ln_known_peers st2 (fst key) = Some spki
      \<and> proved_to cr cfg rnd now (ln_armed_pairing st1) sk (fst key) spki ks
      \<and> ch_send (qs_channel s) = ks_server_to_client ks \<and> ch_receive (qs_channel s) = ks_client_to_server ks)"

definition proposed_by ::
    "('key, 'sig, 'secret) crypto \<Rightarrow> 'secret listener_config \<Rightarrow> listener list \<Rightarrow> pairing_proposal \<Rightarrow> bool" where
  "proposed_by cr cfg past g \<longleftrightarrow>
    (\<exists>later st before st1 st2 at open_end origin rnd now sk sk' code ks.
      past = later @ listener_step (lg_idle_timeout cfg) (ConnectionEnded at open_end origin (Inr (Proposes g), sk')) st
          # st # before
      \<and> st1 \<in> set (st # before) \<and> st2 \<in> set (st # before)
      \<and> connection_run cr cfg rnd now (ln_armed_pairing st1) (ln_known_peers st2) sk = (Inr (Proposes g), sk')
      \<and> ln_armed_pairing st1 = Some code \<and> pg_purpose g = sb_purpose code
      \<and> proved_to cr cfg rnd now (ln_armed_pairing st1) sk (pg_device_id g) (pg_session_identity_spki g) ks
      \<and> pg_verification_code g = verification_code cr (ks_exporter ks) \<and> pg_attempt_id g = cx_attempt_id rnd)"

lemma parked_by_later: "parked_by cr cfg past key s \<Longrightarrow> parked_by cr cfg (st # past) key s"
  unfolding parked_by_def by (metis append_Cons)

lemma proposed_by_later: "proposed_by cr cfg past g \<Longrightarrow> proposed_by cr cfg (st # past) g"
  unfolding proposed_by_def by (metis append_Cons)

lemma runs_parked:
  "listener_runs cr cfg past \<Longrightarrow> (key, s) \<in> set (ln_sessions (hd past)) \<Longrightarrow> parked_by cr cfg past key s"
proof (induction arbitrary: key s rule: listener_runs.induct)
  case start
  then show ?case by (simp add: listener_new_def)
next
  case (acts st past ev)
  from acts.prems step_sessions [OF acts.hyps(2)] have "(key, s) \<in> set (ln_sessions st)" by auto
  with acts.IH [of key s] show ?case by (simp add: parked_by_later)
next
  case (serves st past later st2 before st1 rnd now sk result at open_end origin)
  show ?case
  proof (cases "(key, s) \<in> set (ln_sessions st)")
    case True
    with serves.IH [of key s] show ?thesis by (simp add: parked_by_later)
  next
    case False
    with serves.prems obtain ch sk' where r: "result = (Inr (Parks key ch), sk')"
      and s: "s = \<lparr>qs_channel = ch, qs_socket = sk', qs_origin = origin, qs_parked_at = at\<rparr>"
      using park_sessions by (cases result) (fastforce simp: connection_end_def split: sum.splits accepted.splits)
    from parks_proved [OF serves.hyps(4) [unfolded r]] obtain spki ks where
      p: "ln_known_peers st2 (fst key) = Some spki"
        "proved_to cr cfg rnd now (ln_armed_pairing st1) sk (fst key) spki ks"
        "ch_send ch = ks_server_to_client ks" "ch_receive ch = ks_client_to_server ks" by blast
    have "st1 \<in> set (st # past)" "st2 \<in> set (st # past)" using serves.hyps(2,3) by auto
    with serves.hyps(4) p show ?thesis
      unfolding parked_by_def s
      by (intro exI [of _ "[]"] exI [of _ st] exI [of _ past] exI [of _ st1] exI [of _ st2] exI [of _ open_end]
        exI [of _ rnd] exI [of _ now] exI [of _ sk] exI [of _ spki] exI [of _ ks]) (simp add: r)
  qed
qed

lemma runs_proposed:
  "listener_runs cr cfg past \<Longrightarrow> ln_proposal (hd past) = Some g \<Longrightarrow> proposed_by cr cfg past g"
proof (induction arbitrary: g rule: listener_runs.induct)
  case start
  then show ?case by (simp add: listener_new_def)
next
  case (acts st past ev)
  with step_proposal [OF acts.hyps(2), of "lg_idle_timeout cfg" st] have "ln_proposal st = Some g" by auto
  with acts.IH [of g] show ?case by (simp add: proposed_by_later)
next
  case (serves st past later st2 before st1 rnd now sk result at open_end origin)
  show ?case
  proof (cases "ln_proposal st = Some g")
    case True
    with serves.IH [of g] show ?thesis by (simp add: proposed_by_later)
  next
    case False
    with serves.prems obtain sk' where r: "result = (Inr (Proposes g), sk')"
      by (cases result) (auto simp: connection_end_def park_def Let_def split: sum.splits accepted.splits)
    from proposes_proved [OF serves.hyps(4) [unfolded r]] obtain code ks where
      p: "ln_armed_pairing st1 = Some code" "pg_purpose g = sb_purpose code"
        "proved_to cr cfg rnd now (ln_armed_pairing st1) sk (pg_device_id g) (pg_session_identity_spki g) ks"
        "pg_verification_code g = verification_code cr (ks_exporter ks)" "pg_attempt_id g = cx_attempt_id rnd" by blast
    have "st1 \<in> set (st # past)" "st2 \<in> set (st # past)" using serves.hyps(2,3) by auto
    with serves.hyps(4) p show ?thesis
      unfolding proposed_by_def r
      by (intro exI [of _ "[]"] exI [of _ st] exI [of _ past] exI [of _ st1] exI [of _ st2] exI [of _ at] exI [of _ open_end]
        exI [of _ origin] exI [of _ rnd] exI [of _ now] exI [of _ sk] exI [of _ sk'] exI [of _ code] exI [of _ ks]) (simp add: r)
  qed
qed

subsection \<open>Two races\<close>

lemma runs_act:
  "listener_runs cr cfg (st # past) \<Longrightarrow> alone ev \<Longrightarrow> T = lg_idle_timeout cfg \<Longrightarrow>
    listener_runs cr cfg (listener_step T ev st # st # past)"
  using acts by blast

text \<open>
  A code that was cancelled while a phone was answering it still ends in a proposal, and it is the
  code now on screen that is taken down.
\<close>

lemma cancelled_code_answers:
  assumes "connection_run cr cfg rnd now (Some old) Map.empty sk = (Inr (Proposes g), sk')"
  shows "\<exists>st cancelled armed past. listener_runs cr cfg (st # armed # cancelled # past)
    \<and> ln_armed_pairing cancelled = None \<and> ln_proposal cancelled = None
    \<and> ln_armed_pairing armed = Some new \<and> ln_proposal armed = None
    \<and> ln_proposal st = Some g \<and> ln_armed_pairing st = None"
proof -
  define T where "T = lg_idle_timeout cfg"
  define a where "a = listener_step T (PairingArmed old) listener_new"
  define c where "c = listener_step T PairingCancelled a"
  define b where "b = listener_step T (PairingArmed new) c"
  define st where "st = listener_step T (ConnectionEnded now (\<lambda>_. True) [] (Inr (Proposes g), sk')) b"
  have r: "listener_runs cr cfg [b, c, a, listener_new]"
    unfolding b_def c_def a_def by (intro runs_act start) (simp_all add: T_def)
  have "listener_runs cr cfg (st # [b, c, a, listener_new])"
    unfolding st_def T_def
  proof (rule serves [OF r, of "[b, c]" a "[listener_new]" a])
    show "connection_run cr cfg rnd now (ln_armed_pairing a) (ln_known_peers a) sk = (Inr (Proposes g), sk')"
      using assms by (simp add: a_def arm_pairing_def listener_new_def)
  qed simp_all
  then show ?thesis
    by (intro exI [of _ st] exI [of _ c] exI [of _ b] exI [of _ "[a, listener_new]"])
      (simp add: st_def b_def c_def a_def arm_pairing_def transport_cancel_pairing_def listener_new_def connection_end_def)
qed

text \<open>A phone that is forgotten while it connects is parked after its sessions have been discarded.\<close>

lemma forgotten_phone_parks:
  assumes "connection_run cr cfg rnd now None known sk = (Inr (Parks (d, cred) ch), sk')"
  shows "\<exists>st discarded past. listener_runs cr cfg (st # discarded # past)
    \<and> ln_known_peers discarded = Map.empty \<and> ln_sessions discarded = []
    \<and> (\<exists>s. map_of (ln_sessions st) (d, cred) = Some s \<and> qs_channel s = ch)"
proof -
  define T where "T = lg_idle_timeout cfg"
  define k where "k = listener_step T (PeersSet known) listener_new"
  define f where "f = listener_step T (PeersSet Map.empty) k"
  define e where "e = listener_step T (DeviceDiscarded d) f"
  define st where "st = listener_step T (ConnectionEnded now (\<lambda>_. True) [] (Inr (Parks (d, cred) ch), sk')) e"
  have r: "listener_runs cr cfg [e, f, k, listener_new]"
    unfolding e_def f_def k_def by (intro runs_act start) (simp_all add: T_def)
  have "listener_runs cr cfg (st # [e, f, k, listener_new])"
    unfolding st_def T_def
  proof (rule serves [OF r, of "[e, f]" k "[listener_new]" k])
    show "connection_run cr cfg rnd now (ln_armed_pairing k) (ln_known_peers k) sk = (Inr (Parks (d, cred) ch), sk')"
      using assms by (simp add: k_def set_known_peers_def listener_new_def)
  qed simp_all
  then show ?thesis
    by (intro exI [of _ st] exI [of _ e] exI [of _ "[f, k, listener_new]"])
      (simp add: st_def e_def f_def k_def set_known_peers_def discard_sessions_def listener_new_def connection_end_def)
qed

end
