(* ===== verification/Host_Examples.thy ===== *)
theory Host_Examples
  imports Examples Audit_Log Password Agent_Files Network_Session Network_Exchange
    Listener_Runs
begin

text \<open>Small inputs for the witnesses about the agent's files, passwords and network transport.\<close>

subsection \<open>Audit entries that are a number on a line\<close>

definition demo_entry :: "nat \<Rightarrow> audit_entry" where
  "demo_entry n = \<lparr>au_at_ms = int n, au_outcome = Granted, au_request_id = ''r'', au_service = ''sudo'', au_action = ''run'',
     au_resource = ''*'', au_user = ''u'', au_device_name = ''phone'', au_origin = ''ble'', au_detail = None,
     au_development = False\<rparr>"

definition demo_audit_json :: audit_json where
  "demo_audit_json = \<lparr>aj_to_vec = (\<lambda>e. if e = demo_entry (nat (au_at_ms e)) then Some (as_bytes (decimal (nat (au_at_ms e)))) else None),
     aj_from_str = (\<lambda>s. map_option demo_entry (parse_digits s))\<rparr>"

lemma demo_to_vec [simp]: "aj_to_vec demo_audit_json (demo_entry n) = Some (as_bytes (decimal n))"
  by (simp add: demo_audit_json_def demo_entry_def)

lemma digit_byte: "is_digit c \<Longrightarrow> (word_of_nat (of_char c) :: u8) \<noteq> LF \<and> (word_of_nat (of_char c) :: u8) \<noteq> CR"
proof -
  assume "is_digit c"
  then have c: "48 \<le> (of_char c :: nat)" "(of_char c :: nat) \<le> 57" by (auto simp: is_digit_def)
  have "unat (word_of_nat (of_char c) :: u8) = of_char c" by (simp add: unat_of_nat)
  with c show ?thesis by (auto simp: LF_def CR_def)
qed

lemma demo_audit_json_ok: "audit_json_ok demo_audit_json"
proof -
  have d: "as_bytes (decimal n) \<noteq> []" "LF \<notin> set (as_bytes (decimal n))" "last (as_bytes (decimal n)) \<noteq> CR" for n
  proof -
    have i: "b \<noteq> LF \<and> b \<noteq> CR" if "b \<in> set (as_bytes (decimal n))" for b
      using that digit_byte decimal_digits unfolding as_bytes_def by fastforce
    show ne: "as_bytes (decimal n) \<noteq> []" using decimal_not_Nil [of n] by (cases "decimal n") simp_all
    show "LF \<notin> set (as_bytes (decimal n))" using i by blast
    show "last (as_bytes (decimal n)) \<noteq> CR" using i last_in_set [OF ne] by blast
  qed
  have "ascii (decimal n)" for n
    unfolding ascii_def using decimal_digits by (fastforce simp: is_digit_def)
  then have "from_utf8 (as_bytes (decimal n)) = Some (decimal n)" for n by (simp add: is_str_ascii)
  with d show ?thesis by (auto simp: audit_json_ok_def demo_audit_json_def split: if_splits)
qed

definition demo_log :: "nat \<Rightarrow> nat \<Rightarrow> audit_log" where
  "demo_log threshold retain = \<lparr>al_path = ''s/audit.jsonl'', al_retain = retain, al_trim_threshold_bytes = threshold\<rparr>"

definition demo_files :: "bytes \<Rightarrow> (io_error \<times> nat) option list \<Rightarrow> world" where
  "demo_files log faults = \<lparr>w_files = [''s/audit.jsonl'' \<mapsto> \<lparr>fl_content = log, fl_mode = PRIVATE_MODE\<rparr>],
     w_new_mode = PRIVATE_MODE, w_faults = faults\<rparr>"

lemma demo_writable: "writable demo_audit_json (map demo_entry ns)"
  by (simp add: writable_def)

subsection \<open>A phone on the network\<close>

definition demo_listener :: "bytes listener_config" where
  "demo_listener = \<lparr>lg_identity = [2], lg_verifier_id = ''desk'', lg_is_development = False, lg_idle_timeout = SESSION_IDLE_TIMEOUT\<rparr>"

definition demo_randoms :: connection_randoms where
  "demo_randoms = \<lparr>cx_session_id = ''s1'', cx_nonce = replicate 32 1, cx_secret = [1], cx_attempt_id = ''a1''\<rparr>"

definition demo_enrolment :: enrolment where
  "demo_enrolment = \<lparr>en_protocol_version = PROTOCOL_VERSION, en_device_name = ''phone'', en_credential_id = ''cred'',
    en_algorithm = ''es256'', en_public_key = [4], en_key_kind = StrongBox, en_purpose = Vault\<rparr>"

lemma demo_digit: "n < 10 \<Longrightarrow> length (decimal n) = 1"
  by (simp add: decimal.simps [of n])

lemma demo_encrypts: "encrypts toy_crypto"
  by (simp add: encrypts_def toy_crypto_def)

lemma demo_enrolment_ok: "enrolment_typed demo_enrolment" "validate_enrolment demo_enrolment = Inr ()"
  by (simp_all add: enrolment_typed_def demo_enrolment_def validate_enrolment_def is_str_ascii check_text_ascii ascii_def is_whitespace_def)

lemma demo_attach_ok: "is_str ''cred''" "validate_attach (attach_new ''cred'') = Inr ()"
  by (simp_all add: attach_new_def validate_attach_def is_str_ascii check_text_ascii ascii_def is_whitespace_def)

lemma demo_server_ready_listener: "server_ready toy_crypto demo_bootstrap (lg_identity demo_listener) [2]"
  using demo_server_ready by (simp add: demo_listener_def)

definition demo_socket :: "bytes \<Rightarrow> socket" where
  "demo_socket bs = \<lparr>sk_arrivals = (if bs = [] then [] else [Data bs]), sk_sent = [], sk_works = True\<rparr>"

lemma demo_socket_ok: "arriving bs (sk_arrivals (demo_socket bs))" "sk_works (demo_socket bs)" "sk_sent (demo_socket bs) = []"
  by (simp_all add: demo_socket_def arriving_def live_def stalls_def)

lemma demo_pairs: "\<exists>sk g sk'. connection_run toy_crypto demo_listener demo_randoms 0 (Some demo_bootstrap) Map.empty sk
    = (Inr (Proposes g), sk')"
proof -
  obtain to_phone to_desktop where x: "\<forall>phone desktop :: socket.
    arriving to_phone (sk_arrivals phone) \<and> sk_works phone \<and> sk_sent phone = [] \<and>
    arriving to_desktop (sk_arrivals desktop) \<and> sk_works desktop \<and> sk_sent desktop = [] \<longrightarrow>
    (\<exists>ch code phone' desktop' out. client_pair toy_crypto [3] demo_bootstrap ''phone'' [4] demo_enrolment 0 phone = (Inr (ch, code), phone')
      \<and> connection_run toy_crypto demo_listener demo_randoms 0 (Some demo_bootstrap) Map.empty desktop =
          (Inr (Proposes (proposal_of (cx_attempt_id demo_randoms) out demo_enrolment)), desktop')
      \<and> sk_sent phone' = to_desktop \<and> sk_sent desktop' = to_phone
      \<and> ho_peer_device_id out = ''phone'' \<and> ho_peer_identity_spki out = [4] \<and> ho_verification_code out = code)"
    using code_pairs [OF toy_crypto_ok demo_encrypts demo_server_ready_listener demo_client_ready, of Map.empty 0 demo_enrolment
        "[3]" demo_randoms 0] demo_enrolment_ok
    by (auto simp: demo_bootstrap_def demo_enrolment_def)
  from x [rule_format, of "demo_socket to_phone" "demo_socket to_desktop"] show ?thesis
    using demo_socket_ok by blast
qed

text \<open>The bootstrap made up for a phone that comes back.\<close>

definition demo_return :: server_bootstrap where
  "demo_return = \<lparr>sb_session_id = ''s1'', sb_nonce = replicate 32 1, sb_verifier_id = ''desk'',
    sb_verifier_identity_hash = hash_identity toy_crypto [2], sb_endpoint = [], sb_expires_at_ms = 120000,
    sb_purpose = Authorization\<rparr>"

lemma demo_return_valid: "validate_bootstrap demo_return = Inr ()"
  by (simp add: validate_bootstrap_iff demo_return_def)

lemma demo_return_made: "connection_bootstrap toy_crypto demo_listener demo_randoms 0 None = Inr demo_return"
proof -
  have "public_key_hash toy_crypto [2] = Inr (hash_identity toy_crypto [2])"
    by (simp add: public_key_hash_def public_key_spki_def toy_crypto_def)
  then show ?thesis
    using demo_return_valid
    by (simp add: connection_bootstrap_def bootstrap_new_def bootstrap_for_purpose_def demo_listener_def demo_randoms_def
        demo_return_def map_err_def Let_def saturating_add_i64_def DEFAULT_LIFETIME_MS_def)
qed

lemma demo_return_ready: "server_ready toy_crypto demo_return (lg_identity demo_listener) [2]"
  unfolding server_ready_def using demo_return_valid
  by (simp add: is_str_ascii ascii_def demo_return_def demo_listener_def bootstrap_typed_def hash_identity_def is_i64_def)
    (simp add: toy_crypto_def)

lemma demo_parks: "\<exists>sk ch sk'. connection_run toy_crypto demo_listener demo_randoms 0 None [''phone'' \<mapsto> [4]] sk
    = (Inr (Parks (''phone'', Some ''cred'') ch), sk')"
proof -
  obtain to_phone to_desktop where x: "\<forall>phone desktop :: socket.
    arriving to_phone (sk_arrivals phone) \<and> sk_works phone \<and> sk_sent phone = [] \<and>
    arriving to_desktop (sk_arrivals desktop) \<and> sk_works desktop \<and> sk_sent desktop = [] \<longrightarrow>
    (\<exists>ch ch' phone' desktop'. client_connect toy_crypto [3] [2] ''phone'' [4] ''cred'' 0 phone = (Inr ch, phone')
      \<and> connection_run toy_crypto demo_listener demo_randoms 0 None [''phone'' \<mapsto> [4]] desktop =
          (Inr (Parks (''phone'', Some ''cred'') ch'), desktop')
      \<and> sk_sent phone' = to_desktop \<and> sk_sent desktop' = to_phone \<and> in_step ch ch' \<and> in_step ch' ch)"
    using connection_parks [OF toy_crypto_ok demo_encrypts demo_return_made demo_return_ready demo_client_ready,
        of "[''phone'' \<mapsto> [4]]" 0 "''cred''" "[3]"] demo_attach_ok
    by (auto simp: demo_return_def)
  from x [rule_format, of "demo_socket to_phone" "demo_socket to_desktop"] show ?thesis
    using demo_socket_ok by blast
qed

text \<open>A run in which a phone is parked and a pairing is proposed.\<close>

lemma demo_run: "\<exists>past. listener_runs toy_crypto demo_listener past
    \<and> ln_sessions (hd past) \<noteq> [] \<and> ln_proposal (hd past) \<noteq> None"
proof -
  obtain skp ch skp' where p: "connection_run toy_crypto demo_listener demo_randoms 0 None [''phone'' \<mapsto> [4]] skp
    = (Inr (Parks (''phone'', Some ''cred'') ch), skp')" using demo_parks by blast
  obtain skg g skg' where g: "connection_run toy_crypto demo_listener demo_randoms 0 (Some demo_bootstrap) Map.empty skg
    = (Inr (Proposes g), skg')" using demo_pairs by blast
  define T where "T = lg_idle_timeout demo_listener"
  define a where "a = listener_step T (PairingArmed demo_bootstrap) listener_new"
  define b where "b = listener_step T (ConnectionEnded 0 (\<lambda>_. True) [] (Inr (Proposes g), skg')) a"
  define k where "k = listener_step T (PeersSet [''phone'' \<mapsto> [4]]) b"
  define c where "c = listener_step T (ConnectionEnded 0 (\<lambda>_. True) [] (Inr (Parks (''phone'', Some ''cred'') ch), skp')) k"
  have ra: "listener_runs toy_crypto demo_listener [a, listener_new]"
    unfolding a_def by (intro runs_act start) (simp_all add: T_def)
  have rb: "listener_runs toy_crypto demo_listener [b, a, listener_new]"
    unfolding b_def T_def
    by (rule serves [OF ra, of "[]" a "[listener_new]" a])
      (use g in \<open>simp_all add: a_def arm_pairing_def listener_new_def\<close>)
  have rk: "listener_runs toy_crypto demo_listener [k, b, a, listener_new]"
    unfolding k_def by (intro runs_act rb) (simp_all add: T_def)
  have "listener_runs toy_crypto demo_listener [c, k, b, a, listener_new]"
    unfolding c_def T_def
    by (rule serves [OF rk, of "[]" k "[b, a, listener_new]" k])
      (use p in \<open>simp_all add: k_def b_def a_def arm_pairing_def listener_new_def set_known_peers_def connection_end_def\<close>)
  moreover have "ln_sessions c \<noteq> []" "ln_proposal c \<noteq> None"
    by (simp_all add: c_def k_def b_def connection_end_def park_def Let_def set_known_peers_def)
  ultimately show ?thesis by (intro exI [of _ "[c, k, b, a, listener_new]"]) simp
qed

subsection \<open>A session to hand out\<close>

definition demo_parked :: parked_session where
  "demo_parked = \<lparr>qs_channel = channel_new Server demo_schedule [8], qs_socket = demo_socket [], qs_origin = ''lan'', qs_parked_at = 0\<rparr>"

definition demo_pool :: listener where
  "demo_pool = listener_new\<lparr>ln_sessions := [((''phone'', Some ''cred''), demo_parked)]\<rparr>"

definition demo_wake :: wake where
  "demo_wake = \<lparr>wk_now = 0, wk_open_end = (\<lambda>_. True), wk_others = []\<rparr>"

lemma demo_pool_ok: "pool_ok (ln_sessions demo_pool)"
  by (simp add: demo_pool_def pool_ok_def of_device_def MAX_SESSIONS_PER_DEVICE_def)

lemma demo_taken: "take_session SESSION_IDLE_TIMEOUT ''phone'' ''cred'' 10000 [demo_wake] demo_pool
    = (Some demo_parked, demo_pool\<lparr>ln_sessions := []\<rparr>)"
  by (simp add: take_session_Cons woken_def answers_for_def demo_wake_def demo_pool_def demo_parked_def discard_stale_def
      pool_remove_def SESSION_IDLE_TIMEOUT_def)

definition demo_network_session :: "role \<Rightarrow> bytes \<Rightarrow> network_session" where
  "demo_network_session role bs =
    network_session_of False (demo_parked\<lparr>qs_channel := channel_new role demo_schedule [8], qs_socket := demo_socket bs\<rparr>)"

subsection \<open>A word list of one word\<close>

definition demo_words :: string where
  "demo_words = concat (replicate EFF_WORD_COUNT (''1'' @ TAB # ''ab'' @ [CHR 0x0A]))"

lemma demo_words_lines: "str_lines (concat (replicate n (''1'' @ TAB # ''ab'' @ [CHR 0x0A]))) = replicate n (''1'' @ TAB # ''ab'')"
proof -
  have "raw_lines (as_bytes (concat (replicate n (''1'' @ TAB # ''ab'' @ [CHR 0x0A])))) = replicate n (as_bytes (''1'' @ TAB # ''ab''), True)"
  proof (induction n)
    case (Suc n)
    let ?line = "as_bytes (''1'' @ TAB # ''ab'')" and ?rest = "as_bytes (concat (replicate n (''1'' @ TAB # ''ab'' @ [CHR 0x0A])))"
    have e: "as_bytes (concat (replicate (Suc n) (''1'' @ TAB # ''ab'' @ [CHR 0x0A]))) = ?line @ LF # ?rest"
      by (simp add: LF_def)
    have l: "LF \<notin> set ?line" by (simp add: LF_def TAB_def)
    show ?case unfolding e raw_lines_ended [OF l] Suc.IH by simp
  qed simp
  moreover have "strip_return (as_bytes (''1'' @ TAB # ''ab''), True) = as_bytes (''1'' @ TAB # ''ab'')"
    by (simp add: strip_return_def CR_def TAB_def)
  ultimately show ?thesis by (simp add: str_lines_def del: as_bytes_append as_bytes_Cons)
qed

lemma demo_word: "i < EFF_WORD_COUNT \<Longrightarrow> eff_word demo_words i = Some ''ab''"
proof -
  have "split_once TAB (''1'' @ TAB # ''ab'') = Some (''1'', ''ab'')" by (rule split_once_append) (simp add: TAB_def)
  then show "i < EFF_WORD_COUNT \<Longrightarrow> eff_word demo_words i = Some ''ab''"
    by (simp add: eff_word_def demo_words_def demo_words_lines del: append.simps)
qed

lemma demo_words_ok: "wordlist_ok demo_words"
  using demo_word by (simp add: wordlist_ok_def EFF_LONGEST_WORD_def)

lemma demo_passphrase: "generate_passphrase demo_words 2 ''-'' [0, 1] = Some (''ab-ab'', [])"
proof -
  have "index_below EFF_WORD_COUNT [0, 1] = Some (0, [1])" "index_below EFF_WORD_COUNT [1] = Some (1, [])" by code_simp+
  then show ?thesis using demo_word [of 0] demo_word [of 1]
    by (simp add: generate_passphrase_def EFF_WORD_COUNT_def upt_rec numeral_2_eq_2)
qed

end
