(* ===== verification/Record_Stream.thy ===== *)
theory Record_Stream
  imports Secure_Channel "HOL-Library.Sublist"
begin

text \<open>
  The record layer of \<open>phone-auth-session/src/channel.rs\<close> over a whole connection: one end seals
  messages, some of which it cannot seal, and the other is given records, some of which it cannot
  open. Neither gives up at a failure, and each keeps the channel the failure left.
\<close>

text \<open>The messages that were sealed, each with its record, and the channel afterwards.\<close>

fun seal_run ::
  "('key, 'sig, 'secret) crypto \<Rightarrow> bytes list \<Rightarrow> secure_channel \<Rightarrow> (bytes \<times> bytes) list \<times> secure_channel" where
  "seal_run cr [] ch = ([], ch)"
| "seal_run cr (m # ms) ch =
    (case seal cr m ch of
       (Inl e, ch) \<Rightarrow> seal_run cr ms ch
     | (Inr rec, ch) \<Rightarrow> (let (sent, ch) = seal_run cr ms ch in ((m, rec) # sent, ch)))"

text \<open>The messages the records opened to, and the channel afterwards.\<close>

fun open_run ::
  "('key, 'sig, 'secret) crypto \<Rightarrow> bytes list \<Rightarrow> secure_channel \<Rightarrow> bytes list \<times> secure_channel" where
  "open_run cr [] ch = ([], ch)"
| "open_run cr (rec # recs) ch =
    (case open_record cr rec ch of
       (Inl e, ch) \<Rightarrow> open_run cr recs ch
     | (Inr m, ch) \<Rightarrow> (let (ms, ch) = open_run cr recs ch in (m # ms, ch)))"

lemma seal_failure_keeps_channel: "seal cr m ch = (Inl e, ch') \<Longrightarrow> ch' = ch"
  by (auto simp: seal_def Let_def split: if_splits option.splits)

subsection \<open>The records one end hands out\<close>

text \<open>The counters are consecutive, and each record is its message under its own counter.\<close>

definition sealed_at :: "('key, 'sig, 'secret) crypto \<Rightarrow> secure_channel \<Rightarrow> nat \<Rightarrow> bytes \<times> bytes \<Rightarrow> bool" where
  "sealed_at cr ch n p \<longleftrightarrow> fst (seal cr (fst p) (ch\<lparr>ch_send_counter := word_of_nat n\<rparr>)) = Inr (snd p)"

lemma seal_run_sealed:
  assumes "seal_run cr ms ch = (sent, ch')"
  shows "ch' = ch\<lparr>ch_send_counter := ch_send_counter ch'\<rparr>
    \<and> unat (ch_send_counter ch') = unat (ch_send_counter ch) + length sent
    \<and> (\<forall>i < length sent. sealed_at cr ch (unat (ch_send_counter ch) + i) (sent ! i))
    \<and> subseq (map fst sent) ms"
  using assms
proof (induction ms arbitrary: ch sent)
  case (Cons m ms)
  obtain r ch1 where s: "seal cr m ch = (r, ch1)" by fastforce
  show ?case
  proof (cases r)
    case (Inl e)
    with s seal_failure_keeps_channel have "ch1 = ch" by blast
    with Cons.IH [of ch sent] Cons.prems s Inl show ?thesis by auto
  next
    case (Inr rec)
    with Cons.prems s obtain rest where rest: "seal_run cr ms ch1 = (rest, ch')" "sent = (m, rec) # rest"
      by (auto split: prod.splits)
    from s Inr obtain n where n: "checked_add_1 (ch_send_counter ch) = Some n" "ch1 = ch\<lparr>ch_send_counter := n\<rparr>"
      by (auto elim: seal_Inr)
    from checked_add_1_Some [OF n(1)] have n1: "unat n = unat (ch_send_counter ch) + 1" .
    have first: "sealed_at cr ch (unat (ch_send_counter ch)) (m, rec)" using s Inr by (simp add: sealed_at_def)
    have "sealed_at cr ch (unat (ch_send_counter ch) + i) (sent ! i)" if "i < length sent" for i
      using that Cons.IH [OF rest(1)] first n1 unfolding rest(2) n(2)
      by (cases i) (simp_all add: sealed_at_def)
    with Cons.IH [OF rest(1)] n n1 rest(2) show ?thesis by simp
  qed
qed simp

lemma sealed_at_record:
  assumes "sealed_at cr ch n (m, rec)"
  shows "\<exists>c. rec = to_be_bytes 8 (word_of_nat n :: u64) @ c
    \<and> cr_encrypt cr (ch_send ch) (nonce (word_of_nat n)) (ch_binding ch) m = Some c"
proof -
  obtain ch' where "seal cr m (ch\<lparr>ch_send_counter := word_of_nat n\<rparr>) = (Inr rec, ch')"
    using assms by (cases "seal cr m (ch\<lparr>ch_send_counter := word_of_nat n\<rparr>)") (simp add: sealed_at_def)
  then show ?thesis by (rule seal_Inr) auto
qed

lemma counter_nat: "n < 2 ^ 64 \<Longrightarrow> unat (word_of_nat n :: u64) = n"
  by (simp add: unat_of_nat)

lemma sealed_at_counter:
  assumes "n < 2 ^ 64" and "sealed_at cr ch n p"
  shows "unat (from_be_bytes (take 8 (snd p)) :: u64) = n"
proof -
  from sealed_at_record [of cr ch n "fst p" "snd p"] assms(2)
  obtain c where "snd p = to_be_bytes 8 (word_of_nat n :: u64) @ c" by auto
  then have "(from_be_bytes (take 8 (snd p)) :: u64) = word_of_nat n" by simp
  with counter_nat [OF assms(1)] show ?thesis by metis
qed

lemma run_counters:
  assumes "seal_run cr ms ch = (sent, ch')"
  shows "map (\<lambda>p. unat (from_be_bytes (take 8 (snd p)) :: u64)) sent = [unat (ch_send_counter ch) ..< unat (ch_send_counter ch')]"
proof (rule nth_equalityI)
  note run = seal_run_sealed [OF assms]
  then show "length (map (\<lambda>p. unat (from_be_bytes (take 8 (snd p)) :: u64)) sent) = length [unat (ch_send_counter ch) ..< unat (ch_send_counter ch')]" by simp
  fix i assume i: "i < length (map (\<lambda>p. unat (from_be_bytes (take 8 (snd p)) :: u64)) sent)"
  have "unat (ch_send_counter ch) + i < 2 ^ 64"
    using run i unsigned_less [of "ch_send_counter ch'", where ?'a = nat] by simp
  note counter = sealed_at_counter [OF this, of cr ch "sent ! i"]
  from run i counter show "map (\<lambda>p. unat (from_be_bytes (take 8 (snd p)) :: u64)) sent ! i = [unat (ch_send_counter ch) ..< unat (ch_send_counter ch')] ! i"
    by simp
qed

lemma run_encrypts:
  assumes "seal_run cr ms ch = (sent, ch')" and "(m, rec) \<in> set sent"
  shows "cr_encrypt cr (ch_send ch) (nonce (from_be_bytes (take 8 rec))) (ch_binding ch) m = Some (drop 8 rec)"
proof -
  from assms(2) obtain i where "i < length sent" "sent ! i = (m, rec)" by (meson in_set_conv_nth)
  with seal_run_sealed [OF assms(1)] have "sealed_at cr ch (unat (ch_send_counter ch) + i) (m, rec)" by auto
  from sealed_at_record [OF this] show ?thesis by auto
qed

lemma run_same_keys:
  assumes "seal_run cr ms ch = (sent, ch')"
  shows "ch_send ch' = ch_send ch \<and> ch_binding ch' = ch_binding ch"
proof -
  from seal_run_sealed [OF assms] obtain n where "ch' = ch\<lparr>ch_send_counter := n\<rparr>" by blast
  then show ?thesis by simp
qed

subsection \<open>What the other end opens\<close>

text \<open>
  The encryption is an authenticated one: under the key of this direction nothing decrypts but what
  was encrypted there, under the nonce it was encrypted with.
\<close>

definition unforged :: "('key, 'sig, 'secret) crypto \<Rightarrow> secure_channel \<Rightarrow> (bytes \<times> bytes) list \<Rightarrow> bool" where
  "unforged cr ch sent \<longleftrightarrow> (\<forall>n m c.
    cr_decrypt cr (ch_send ch) (nonce n) (ch_binding ch) c = Some m \<longrightarrow> (m, to_be_bytes 8 n @ c) \<in> set sent)"

text \<open>This end has opened the first so many records.\<close>

definition has_opened :: "secure_channel \<Rightarrow> nat \<Rightarrow> secure_channel \<Rightarrow> bool" where
  "has_opened a k b \<longleftrightarrow> ch_receive b = ch_send a \<and> ch_binding b = ch_binding a
    \<and> unat (ch_receive_counter b) = unat (ch_send_counter a) + k"

lemma has_opened_counter:
  assumes "has_opened a k b"
  shows "ch_receive_counter b = ch_send_counter a + word_of_nat k"
proof -
  have "word_of_nat (unat (ch_receive_counter b)) = (word_of_nat (unat (ch_send_counter a) + k) :: u64)"
    using assms by (simp only: has_opened_def)
  then show ?thesis by simp
qed

lemma due_record_opens:
  assumes cr: "crypto_ok cr" and run: "seal_run cr ms a = (sent, a')" and b: "has_opened a k b"
    and k: "k < length sent"
  shows "\<exists>b'. open_record cr (snd (sent ! k)) b = (Inr (fst (sent ! k)), b') \<and> has_opened a (Suc k) b'
    \<and> ch_send b' = ch_send b \<and> ch_send_counter b' = ch_send_counter b"
proof -
  define ak where "ak = a\<lparr>ch_send_counter := word_of_nat (unat (ch_send_counter a) + k)\<rparr>"
  from seal_run_sealed [OF run] k have "sealed_at cr a (unat (ch_send_counter a) + k) (sent ! k)" by simp
  then obtain ak' where s: "seal cr (fst (sent ! k)) ak = (Inr (snd (sent ! k)), ak')"
    by (cases "seal cr (fst (sent ! k)) ak") (simp add: sealed_at_def ak_def)
  have "in_step ak b"
    using b has_opened_counter [OF b] by (simp add: in_step_def ak_def has_opened_def)
  from open_sealed [OF cr this s] obtain b' where
    b': "open_record cr (snd (sent ! k)) b = (Inr (fst (sent ! k)), b')" "in_step ak' b'"
      "b' = b\<lparr>ch_receive_counter := ch_send_counter ak'\<rparr>" by blast
  from b'(1) obtain n where n: "checked_add_1 (ch_receive_counter b) = Some n" "b' = b\<lparr>ch_receive_counter := n\<rparr>"
    by (rule open_Inr)
  from checked_add_1_Some [OF n(1)] b have "has_opened a (Suc k) b'" by (simp add: n(2) has_opened_def)
  with b'(1) n(2) show ?thesis by simp
qed

lemma opened_is_due:
  assumes run: "seal_run cr ms a = (sent, a')" and b: "has_opened a k b" and u: "unforged cr a sent"
    and opens: "open_record cr rec b = (Inr m, b')"
  shows "k < length sent \<and> sent ! k = (m, rec)"
proof -
  have sent: "(m, rec) \<in> set sent" and counter: "take 8 rec = to_be_bytes 8 (ch_receive_counter b)"
    using u b append_take_drop_id [of 8 rec] unfolding unforged_def has_opened_def
    by (metis open_Inr [OF opens])+
  then obtain i where i: "i < length sent" "sent ! i = (m, rec)" by (meson in_set_conv_nth)
  have "map (\<lambda>p. unat (from_be_bytes (take 8 (snd p)) :: u64)) sent ! i = unat (ch_send_counter a) + i"
    using run_counters [OF run] seal_run_sealed [OF run] i(1) by simp
  with i counter b have "i = k" by (simp add: has_opened_def)
  with i show ?thesis by simp
qed

lemma open_run_prefix:
  assumes cr: "crypto_ok cr" and run: "seal_run cr ms a = (sent, a')" and u: "unforged cr a sent"
  shows "has_opened a k b \<Longrightarrow> k \<le> length sent \<Longrightarrow> open_run cr arrivals b = (ms', b') \<Longrightarrow>
    prefix ms' (map fst (drop k sent)) \<and> has_opened a (k + length ms') b'
    \<and> ch_send b' = ch_send b \<and> ch_send_counter b' = ch_send_counter b
    \<and> (subseq (map snd (drop k sent)) arrivals \<longrightarrow> ms' = map fst (drop k sent))"
proof (induction arrivals arbitrary: b k ms')
  case Nil
  then have end_here: "b' = b" "ms' = []" by simp_all
  have "[] = map fst (drop k sent)" if "subseq (map snd (drop k sent)) []"
    using list_emb_Nil2 [OF that] by simp
  moreover have "prefix [] (map fst (drop k sent)) \<and> has_opened a (k + length ([] :: bytes list)) b" using Nil(1) by simp
  ultimately show ?case unfolding end_here by blast
next
  case (Cons rec arrivals)
  obtain r b1 where o: "open_record cr rec b = (r, b1)" by fastforce
  show ?case
  proof (cases r)
    case (Inl e)
    with o open_failure_keeps_channel have "b1 = b" by blast
    with Cons.prems(3) o Inl have rest: "open_run cr arrivals b = (ms', b')" by simp
    have "subseq (map snd (drop k sent)) arrivals" if "subseq (map snd (drop k sent)) (rec # arrivals)"
    proof (cases "k < length sent")
      case True
      then have d: "drop k sent = sent ! k # drop (Suc k) sent" by (simp add: Cons_nth_drop_Suc)
      have "snd (sent ! k) \<noteq> rec" using due_record_opens [OF cr run Cons.prems(1) True] o Inl by auto
      with that show ?thesis unfolding d by (simp add: subseq_Cons2_iff)
    qed simp
    with Cons.IH [OF Cons.prems(1,2) rest] show ?thesis by blast
  next
    case (Inr m)
    with opened_is_due [OF run Cons.prems(1) u] o have k: "k < length sent" "sent ! k = (m, rec)" by auto
    then have d: "drop k sent = (m, rec) # drop (Suc k) sent" by (metis Cons_nth_drop_Suc)
    from due_record_opens [OF cr run Cons.prems(1) k(1)] o Inr k(2)
    have b1: "has_opened a (Suc k) b1" "ch_send b1 = ch_send b" "ch_send_counter b1 = ch_send_counter b" by auto
    from Cons.prems(3) o Inr obtain ms1 where ms1: "open_run cr arrivals b1 = (ms1, b')" "ms' = m # ms1"
      by (auto split: prod.splits)
    from k(1) have "Suc k \<le> length sent" by simp
    from Cons.IH [OF b1(1) this ms1(1)] b1(2,3) show ?thesis
      unfolding ms1(2) d by (auto simp: subseq_Cons2_iff)
  qed
qed

lemma in_step_opened: "in_step a b \<Longrightarrow> has_opened a 0 b"
  by (simp add: in_step_def has_opened_def)

end
