(* ===== verification/Record_Examples.thy ===== *)
theory Record_Examples
  imports Examples Record_Stream
begin

text \<open>
  A cipher that has encrypted two messages in one direction of a session, and takes nothing else:
  the instance on which the guarantees of \<open>Record_Stream\<close> are seen to hold.
\<close>

definition strict_crypto :: "(bytes, bytes, bytes) crypto" where
  "strict_crypto = toy_crypto\<lparr>
    cr_encrypt := (\<lambda>k n a m. if k = [2] \<and> a = [8] \<and> (n = nonce 0 \<and> m = [1] \<or> n = nonce 1 \<and> m = [2, 3])
      then Some (m @ replicate 16 9) else None),
    cr_decrypt := (\<lambda>k n a c. if k = [2] \<and> a = [8] \<and> (n = nonce 0 \<and> c = [1] @ replicate 16 9 \<or> n = nonce 1 \<and> c = [2, 3] @ replicate 16 9)
      then Some (take (length c - 16) c) else None)\<rparr>"

lemma strict_crypto_ok: "crypto_ok strict_crypto"
proof -
  have "cr_encrypt strict_crypto k n a m = Some c \<longleftrightarrow> cr_decrypt strict_crypto k n a c = Some m" for k n a m c
    by (auto simp: strict_crypto_def)
  moreover have "cr_encrypt strict_crypto k n a m = Some c \<Longrightarrow> length c = length m + 16" for k n a m c
    by (auto simp: strict_crypto_def split: if_splits)
  ultimately show ?thesis using toy_crypto_ok unfolding crypto_ok_def by (simp add: strict_crypto_def)
qed

definition demo_sent :: "(bytes \<times> bytes) list" where
  "demo_sent = [([1], demo_records ! 0), ([2, 3], demo_records ! 1)]"

text \<open>The empty message between the two cannot be sealed.\<close>

lemma nonce_01: "nonce 0 \<noteq> nonce 1" by code_simp

lemma strict_seals: "seal_run strict_crypto [[1], [], [2, 3]] (channel_new Server demo_schedule [8])
    = (demo_sent, channel_new Server demo_schedule [8]\<lparr>ch_send_counter := 2\<rparr>)"
  using nonce_01 by (simp add: seal_def channel_new_def demo_schedule_def strict_crypto_def MAX_FRAME_def checked_add_1_def
      Let_def demo_sent_def demo_records_def)

lemma strict_unforged: "unforged strict_crypto (channel_new Server demo_schedule [8]) demo_sent"
proof -
  have n: "nonce i = nonce j \<Longrightarrow> i = j" for i j :: u64
    by (metis append.assoc append_same_eq counter_bytes nonce_def same_append_eq)
  show ?thesis
    by (auto simp: unforged_def strict_crypto_def channel_new_def demo_schedule_def demo_sent_def demo_records_def
        dest!: n split: if_splits)
qed

end
