(* ===== verification/Ipc_Connection.thy ===== *)
theory Ipc_Connection
  imports Prelude "HOL-Library.Sublist"
begin

text \<open>
  One connection to the agent's loopback socket (\<open>phone-auth-agent/src/ipc.rs\<close>): the token check,
  the reading of a line under a limit and a deadline, and the loop of \<open>serve_connection\<close>. The calls,
  their parser and what serves them are parameters. Times are in milliseconds.
\<close>

definition FIRST_CALL_WINDOW :: nat where "FIRST_CALL_WINDOW = 10000"
definition MAX_CALL_BYTES :: nat where "MAX_CALL_BYTES = 64 * 1024"

definition tokens_match :: "string \<Rightarrow> string \<Rightarrow> bool" where
  "tokens_match left right =
    (if length (as_bytes left) \<noteq> length (as_bytes right) then False
     else fold (\<lambda>(a, b) acc. acc OR (a XOR b)) (zip (as_bytes left) (as_bytes right)) (0 :: u8) = 0)"

subsection \<open>Replies\<close>

record api_error =
  ae_code :: string
  ae_message :: string

record 'json reply =
  rl_id :: u64
  rl_ok :: bool
  rl_result :: "'json option"
  rl_error :: "api_error option"

definition reply_ok :: "u64 \<Rightarrow> 'json \<Rightarrow> 'json reply" where
  "reply_ok i result = \<lparr>rl_id = i, rl_ok = True, rl_result = Some result, rl_error = None\<rparr>"

definition reply_err :: "u64 \<Rightarrow> string \<Rightarrow> string \<Rightarrow> 'json reply" where
  "reply_err i code message =
    \<lparr>rl_id = i, rl_ok = False, rl_result = None, rl_error = Some \<lparr>ae_code = code, ae_message = message\<rparr>\<rparr>"

record 'json call =
  cl_id :: u64
  cl_token :: string
  cl_method :: string
  cl_params :: 'json

subsection \<open>The socket\<close>

text \<open>
  What the peer sends is a list of bytes, each with the time the reader has to wait for it after
  the byte before. After the last one the peer has closed its end (\<open>pr_closes\<close>) or is silent for
  ever. \<open>pr_writes\<close> says which of the coming writes reach it; past its end all do.
\<close>

record peer =
  pr_bytes :: "(nat \<times> u8) list"
  pr_closes :: bool
  pr_writes :: "bool list"

datatype line_end = GotLine bytes | TooSlow | Silent

text \<open>
  \<open>take(limit).read_line(..)\<close> up to and with the newline, the limit or the end of the stream. A read
  that waits as long as the deadline or longer fails.
\<close>

fun read_line_loop :: "nat option \<Rightarrow> bool \<Rightarrow> nat \<Rightarrow> bytes \<Rightarrow> (nat \<times> u8) list \<Rightarrow> line_end \<times> (nat \<times> u8) list" where
  "read_line_loop window closes 0 taken bs = (GotLine taken, bs)"
| "read_line_loop window closes (Suc n) taken [] =
    (if closes then GotLine taken else if window = None then Silent else TooSlow, [])"
| "read_line_loop window closes (Suc n) taken ((gap, b) # bs) =
    (if (case window of None \<Rightarrow> False | Some limit \<Rightarrow> limit \<le> gap) then (TooSlow, bs)
     else if b = 0x0A then (GotLine (taken @ [b]), bs)
     else read_line_loop window closes n (taken @ [b]) bs)"

definition read_line :: "nat option \<Rightarrow> peer \<Rightarrow> line_end \<times> peer" where
  "read_line window p =
    (case read_line_loop window (pr_closes p) (MAX_CALL_BYTES + 1) [] (pr_bytes p) of
       (e, bs) \<Rightarrow> (e, p\<lparr>pr_bytes := bs\<rparr>))"

definition write_reply :: "peer \<Rightarrow> bool \<times> peer" where
  "write_reply p = (case pr_writes p of [] \<Rightarrow> (True, p) | b # bs \<Rightarrow> (b, p\<lparr>pr_writes := bs\<rparr>))"

subsection \<open>Serving\<close>

text \<open>How a connection ends: \<open>Ok(())\<close>, an I/O error, or not at all: a reader waiting for ever on a
  peer it trusts, or a call that never returns.\<close>

datatype ending = Closed | Broken | Waiting | Stuck

record ('json, 's) served =
  sd_ending :: ending
  sd_state :: 's
  sd_subscriptions :: "u64 list"
  sd_calls :: "'json call list"
  sd_replies :: "'json reply list"

text \<open>\<open>dispatch\<close> gives the reply, the subscriptions it made and the new state; \<open>None\<close> is a call that
  never returns.\<close>

type_synonym ('json, 's) dispatcher = "'json call \<Rightarrow> 's \<Rightarrow> ('json reply \<times> u64 list \<times> 's) option"

definition stopped :: "ending \<Rightarrow> 's \<Rightarrow> 'json reply list \<Rightarrow> ('json, 's) served" where
  "stopped e s replies =
    \<lparr>sd_ending = e, sd_state = s, sd_subscriptions = [], sd_calls = [], sd_replies = replies\<rparr>"

lemma read_line_loop_shorter:
  "read_line_loop window closes n taken bs = (GotLine line, bs') \<Longrightarrow>
   length bs' + length line = length bs + length taken"
  by (induction window closes n taken bs rule: read_line_loop.induct) (auto split: if_splits)

lemma read_line_shorter:
  assumes "(GotLine line, p') = read_line window p" and "line \<noteq> []"
  shows "length (pr_bytes p') < length (pr_bytes p)"
proof -
  from assms(1) obtain bs where "read_line_loop window (pr_closes p) (MAX_CALL_BYTES + 1) [] (pr_bytes p) = (GotLine line, bs)"
    and "p' = p\<lparr>pr_bytes := bs\<rparr>" by (auto simp: read_line_def split: prod.splits)
  with read_line_loop_shorter [of window "pr_closes p" "MAX_CALL_BYTES + 1" "[]" "pr_bytes p" line bs] assms(2)
  show ?thesis by (cases line) auto
qed

lemma write_reply_bytes: "write_reply p = (b, p') \<Longrightarrow> pr_bytes p' = pr_bytes p"
  by (auto simp: write_reply_def split: list.splits)

text \<open>One turn of the loop up to the call it serves: an end with its last reply, a blank line, or a
  call that carries the token.\<close>

datatype 'json heard = Hang ending "'json reply list" | Skip peer | Serve "'json call" peer

definition parting :: "'json reply \<Rightarrow> peer \<Rightarrow> 'json heard" where
  "parting reply p = (if fst (write_reply p) then Hang Closed [reply] else Hang Broken [])"

definition hear_text :: "(string \<Rightarrow> string + 'json call) \<Rightarrow> string \<Rightarrow> string \<Rightarrow> peer \<Rightarrow> 'json heard" where
  "hear_text parse token text p =
    (if length text > MAX_CALL_BYTES then parting (reply_err 0 ''bad-request'' ''call exceeds the line limit'') p
     else if str_trim text = [] then Skip p
     else case parse text of
       Inl e \<Rightarrow> parting (reply_err 0 ''bad-request'' e) p
     | Inr call \<Rightarrow>
         if \<not> tokens_match (cl_token call) token
         then parting (reply_err (cl_id call) ''unauthorized'' ''invalid agent token'') p
         else Serve call p)"

definition hear :: "(string \<Rightarrow> string + 'json call) \<Rightarrow> string \<Rightarrow> nat option \<Rightarrow> peer \<Rightarrow> 'json heard" where
  "hear parse token window p =
    (case read_line window p of
       (Silent, _) \<Rightarrow> Hang Waiting []
     | (TooSlow, _) \<Rightarrow> Hang Broken []
     | (GotLine line, p) \<Rightarrow>
         if line = [] then Hang Closed []
         else case from_utf8 line of
           None \<Rightarrow> Hang Broken []
         | Some text \<Rightarrow> hear_text parse token text p)"

lemma hear_text_peer:
  "hear_text parse token text p = Skip q \<Longrightarrow> q = p" "hear_text parse token text p = Serve call q \<Longrightarrow> q = p"
  by (auto simp: hear_text_def parting_def split: sum.splits if_splits)

lemma hear_cases:
  assumes "hear parse token window p = h" and "(\<exists>q. h = Skip q) \<or> (\<exists>call q. h = Serve call q)"
  obtains line str q where "read_line window p = (GotLine line, q)" "line \<noteq> []" "from_utf8 line = Some str"
    "hear_text parse token str q = h"
  using assms by (auto simp: hear_def split: prod.splits line_end.splits if_splits option.splits)

lemma hear_shorter:
  "hear parse token window p = Skip q \<Longrightarrow> length (pr_bytes q) < length (pr_bytes p)"
  "hear parse token window p = Serve call q \<Longrightarrow> length (pr_bytes q) < length (pr_bytes p)"
  by (elim hear_cases; auto dest!: hear_text_peer read_line_shorter [OF sym])+

text \<open>\<open>serve_connection\<close>; the deadline is lifted by the first call that carries the token.\<close>

function (sequential) serve_calls ::
    "(string \<Rightarrow> string + 'json call) \<Rightarrow> ('json, 's) dispatcher \<Rightarrow> string \<Rightarrow> nat \<Rightarrow> bool \<Rightarrow> peer \<Rightarrow> 's \<Rightarrow>
     ('json, 's) served" where
  "serve_calls parse dispatch token window trusted p s =
    (case hear parse token (if trusted then None else Some window) p of
       Hang e replies \<Rightarrow> stopped e s replies
     | Skip p \<Rightarrow> serve_calls parse dispatch token window trusted p s
     | Serve call p \<Rightarrow>
         (case dispatch call s of
            None \<Rightarrow> (stopped Stuck s [])\<lparr>sd_calls := [call]\<rparr>
          | Some (reply, subs, s) \<Rightarrow>
              (case write_reply p of
                 (False, _) \<Rightarrow> (stopped Broken s [])\<lparr>sd_subscriptions := subs, sd_calls := [call]\<rparr>
               | (True, p) \<Rightarrow>
                   (let rest = serve_calls parse dispatch token window True p s in
                    rest\<lparr>sd_subscriptions := subs @ sd_subscriptions rest, sd_calls := call # sd_calls rest,
                         sd_replies := reply # sd_replies rest\<rparr>))))"
  by pat_completeness auto
termination
proof (relation "measure (\<lambda>(_, _, _, _, _, p, _). length (pr_bytes p))", goal_cases)
  case (2 parse dispatch token window trusted p s q)
  then show ?case by (simp add: hear_shorter(1))
next
  case (3 parse dispatch token window trusted p s call q)
  then show ?case by (auto dest!: hear_shorter(2) write_reply_bytes [OF sym])
qed simp

declare serve_calls.simps [simp del]

text \<open>\<open>handle_connection\<close>: whatever happened, the subscriptions go.\<close>

definition handle_connection ::
    "(string \<Rightarrow> string + 'json call) \<Rightarrow> ('json, 's) dispatcher \<Rightarrow> (u64 list \<Rightarrow> 's \<Rightarrow> 's) \<Rightarrow> string \<Rightarrow> nat \<Rightarrow> peer \<Rightarrow> 's \<Rightarrow>
     ('json, 's) served" where
  "handle_connection parse dispatch drop_subscriptions token window p s =
    (let result = serve_calls parse dispatch token window False p s in
     if sd_ending result = Waiting \<or> sd_ending result = Stuck \<or> sd_subscriptions result = [] then result
     else result\<lparr>sd_state := drop_subscriptions (sd_subscriptions result) (sd_state result)\<rparr>)"

subsection \<open>The token\<close>

lemma or_zero_iff: "a OR b = (0 :: u8) \<longleftrightarrow> a = 0 \<and> b = 0"
proof
  assume z: "a OR b = 0"
  have "a = a AND (a OR b)" "b = b AND (a OR b)" by (simp_all add: bit_eq_iff bit_simps)
  with z show "a = 0 \<and> b = 0" by simp
qed simp

lemma xor_zero_iff: "a XOR b = (0 :: u8) \<longleftrightarrow> a = b"
proof
  assume "a XOR b = 0"
  then have "(a XOR b) XOR b = 0 XOR b" by simp
  then show "a = b" by (simp add: xor.assoc)
qed simp

lemma fold_differences:
  assumes "length xs = length ys"
  shows "fold (\<lambda>(a, b) acc. acc OR (a XOR b)) (zip xs ys) (z :: u8) = 0 \<longleftrightarrow> z = 0 \<and> xs = ys"
  using assms
  by (induction xs ys arbitrary: z rule: list_induct2) (auto simp: or_zero_iff xor_zero_iff)

lemma tokens_match_iff: "tokens_match left right \<longleftrightarrow> left = right"
proof (cases "length (as_bytes left) = length (as_bytes right)")
  case True
  with fold_differences [OF True, of 0] show ?thesis by (simp add: tokens_match_def)
next
  case False
  then show ?thesis by (auto simp: tokens_match_def)
qed


subsection \<open>What a connection does\<close>

definition apply_call :: "('json, 's) dispatcher \<Rightarrow> 'json call \<Rightarrow> 's \<Rightarrow> 's" where
  "apply_call dispatch call s = (case dispatch call s of None \<Rightarrow> s | Some (_, _, s') \<Rightarrow> s')"

lemma stopped_simps [simp]:
  "sd_ending (stopped e s rs) = e" "sd_state (stopped e s rs) = s" "sd_subscriptions (stopped e s rs) = []"
  "sd_calls (stopped e s rs) = []" "sd_replies (stopped e s rs) = rs"
  by (simp_all add: stopped_def)

text \<open>
  The calls on these lines, up to the first line that is too long, is no text or no call, or is a call
  without the token. A line has its newline, but for the last one of a stream.
\<close>

fun token_calls :: "(string \<Rightarrow> string + 'json call) \<Rightarrow> string \<Rightarrow> (bytes \<times> bool) list \<Rightarrow> 'json call list" where
  "token_calls parse token [] = []"
| "token_calls parse token ((l, ended) # ls) =
    (let line = l @ (if ended then [LF] else []) in
     if length line > MAX_CALL_BYTES then []
     else case from_utf8 line of None \<Rightarrow> [] | Some text \<Rightarrow>
       if str_trim text = [] then token_calls parse token ls
       else case parse text of Inl e \<Rightarrow> [] | Inr call \<Rightarrow>
         if cl_token call = token then call # token_calls parse token ls else [])"

lemma read_line_loop_wire:
  "read_line_loop window closes n taken bs = (GotLine line, bs') \<Longrightarrow>
   \<exists>us. line = taken @ us \<and> map snd bs = us @ map snd bs' \<and>
     (length us = n \<or> LF \<notin> set us \<and> bs' = [] \<or> (\<exists>l. us = l @ [LF] \<and> LF \<notin> set l))"
proof (induction window closes n taken bs rule: read_line_loop.induct)
  case (3 window closes n taken gap b bs)
  from 3(2) have gap: "\<not> (case window of None \<Rightarrow> False | Some limit \<Rightarrow> limit \<le> gap)" by (auto split: if_splits)
  show ?case
  proof (cases "b = 0x0A")
    case True
    with 3(2) gap show ?thesis by (intro exI [of _ "[b]"]) (auto simp: LF_def split: if_splits)
  next
    case False
    with 3(1) [OF gap False] 3(2) gap obtain us where us: "line = (taken @ [b]) @ us" "map snd bs = us @ map snd bs'"
      "length us = n \<or> LF \<notin> set us \<and> bs' = [] \<or> (\<exists>l. us = l @ [LF] \<and> LF \<notin> set l)" by (auto split: if_splits)
    have "length (b # us) = Suc n \<or> LF \<notin> set (b # us) \<and> bs' = [] \<or> (\<exists>l. b # us = l @ [LF] \<and> LF \<notin> set l)"
      using us(3)
    proof (elim disjE exE)
      fix l assume "us = l @ [LF] \<and> LF \<notin> set l"
      with False have "b # us = (b # l) @ [LF] \<and> LF \<notin> set (b # l)" by (auto simp: LF_def)
      then show ?thesis by blast
    qed (use False in \<open>auto simp: LF_def\<close>)
    with us(1,2) show ?thesis by (intro exI [of _ "b # us"]) simp
  qed
qed (auto split: if_splits)

text \<open>A line that is read is the first line of what was left.\<close>

lemma read_line_lines:
  assumes "read_line window p = (GotLine line, p')" and "line \<noteq> []" and "length line \<le> MAX_CALL_BYTES"
  shows "\<exists>l ended. raw_lines (map snd (pr_bytes p)) = (l, ended) # raw_lines (map snd (pr_bytes p')) \<and>
    line = l @ (if ended then [LF] else [])"
proof -
  from assms(1) obtain bs where "read_line_loop window (pr_closes p) (MAX_CALL_BYTES + 1) [] (pr_bytes p) = (GotLine line, bs)"
    and p': "pr_bytes p' = bs" by (auto simp: read_line_def split: prod.splits)
  from read_line_loop_wire [OF this(1)] assms(3)
  have bs: "map snd (pr_bytes p) = line @ map snd bs" and e: "LF \<notin> set line \<and> bs = [] \<or> (\<exists>l. line = l @ [LF] \<and> LF \<notin> set l)"
    by auto
  from e show ?thesis
  proof (elim disjE exE conjE)
    assume "LF \<notin> set line" "bs = []"
    with bs assms(2) show ?thesis
      by (intro exI [of _ line] exI [of _ False]) (simp add: raw_lines_absent p')
  next
    fix l assume l: "line = l @ [LF]" "LF \<notin> set l"
    with bs have "map snd (pr_bytes p) = l @ LF # map snd bs" by simp
    with l show ?thesis by (intro exI [of _ l] exI [of _ True]) (simp add: raw_lines_ended p')
  qed
qed

definition lines_left :: "peer \<Rightarrow> (bytes \<times> bool) list" where
  "lines_left p = raw_lines (map snd (pr_bytes p))"

lemma hear_lines:
  "hear parse token window p = Skip q \<Longrightarrow> token_calls parse token (lines_left p) = token_calls parse token (lines_left q)"
  "hear parse token window p = Serve call q \<Longrightarrow>
    token_calls parse token (lines_left p) = call # token_calls parse token (lines_left q)"
proof -
  have "case h of Hang e rs \<Rightarrow> True
    | Skip q \<Rightarrow> token_calls parse token (lines_left p) = token_calls parse token (lines_left q)
    | Serve call q \<Rightarrow> token_calls parse token (lines_left p) = call # token_calls parse token (lines_left q)"
    if h: "hear parse token window p = h" "\<And>e rs. h \<noteq> Hang e rs" for h
    using h(1)
  proof (rule hear_cases)
    fix line str q
    assume r: "read_line window p = (GotLine line, q)" and ne: "line \<noteq> []" and t: "from_utf8 line = Some str"
      and h': "hear_text parse token str q = h"
    have len: "length str = length line" using from_utf8_Some [OF t] length_as_bytes by metis
    show ?thesis
    proof (cases "length line \<le> MAX_CALL_BYTES")
      case True
      from read_line_lines [OF r ne True] obtain l ended where
        l: "lines_left p = (l, ended) # lines_left q" "line = l @ (if ended then [LF] else [])" by (auto simp: lines_left_def)
      show ?thesis
        using h' h(2) True len t unfolding l(1)
        by (auto simp: hear_text_def parting_def tokens_match_iff Let_def l(2) [symmetric] split: if_splits sum.splits)
    qed (use h' h(2) len in \<open>auto simp: hear_text_def parting_def split: if_splits\<close>)
  qed (cases h, use h(2) in auto)
  then show "hear parse token window p = Skip q \<Longrightarrow> token_calls parse token (lines_left p) = token_calls parse token (lines_left q)"
    "hear parse token window p = Serve call q \<Longrightarrow>
      token_calls parse token (lines_left p) = call # token_calls parse token (lines_left q)"
    by fastforce+
qed

lemma serve_connection_calls:
  "prefix (sd_calls (serve_calls parse dispatch token window trusted p s)) (token_calls parse token (lines_left p)) \<and>
   sd_state (serve_calls parse dispatch token window trusted p s) =
     fold (apply_call dispatch) (sd_calls (serve_calls parse dispatch token window trusted p s)) s"
proof (induction parse dispatch token window trusted p s rule: serve_calls.induct)
  case (1 parse dispatch token window trusted p s)
  note serve = serve_calls.simps [of parse dispatch token window trusted p s]
  show ?case
  proof (cases "hear parse token (if trusted then None else Some window) p")
    case (Hang e replies)
    then show ?thesis by (simp add: serve)
  next
    case (Skip q)
    with 1(1) [OF Skip] hear_lines(1) [OF Skip] show ?thesis by (simp add: serve)
  next
    case (Serve call q)
    note lines = hear_lines(2) [OF Serve]
    show ?thesis
    proof (cases "dispatch call s")
      case None
      with Serve lines show ?thesis by (simp add: serve apply_call_def)
    next
      case (Some a)
      then obtain reply subs s1 where a: "dispatch call s = Some (reply, subs, s1)" by (cases a) auto
      obtain b p2 where b: "write_reply q = (b, p2)" by fastforce
      show ?thesis
      proof (cases b)
        case True
        with b have b: "write_reply q = (True, p2)" by simp
        have "lines_left p2 = lines_left q" using write_reply_bytes [OF b] by (simp add: lines_left_def)
        with 1(2) [OF Serve a refl refl b [symmetric] refl] Serve a b lines show ?thesis
          by (simp add: serve apply_call_def Let_def)
      qed (use Serve a b lines in \<open>simp add: serve apply_call_def\<close>)
    qed
  qed
qed

lemma token_calls_token: "call \<in> set (token_calls parse token ls) \<Longrightarrow> cl_token call = token"
proof (induction ls)
  case (Cons e ls)
  obtain l ended where e: "e = (l, ended)" by fastforce
  show ?case
    using Cons unfolding e token_calls.simps Let_def by (auto split: if_splits option.splits sum.splits)
qed simp

lemma subscriptions_need_calls:
  "sd_calls (serve_calls parse dispatch token window trusted p s) = [] \<Longrightarrow>
   sd_subscriptions (serve_calls parse dispatch token window trusted p s) = []"
proof (induction parse dispatch token window trusted p s rule: serve_calls.induct)
  case (1 parse dispatch token window trusted p s)
  note serve = serve_calls.simps [of parse dispatch token window trusted p s]
  show ?case
  proof (cases "hear parse token (if trusted then None else Some window) p")
    case (Skip q)
    with 1 show ?thesis by (simp add: serve)
  qed (use 1(3) in \<open>auto simp: serve Let_def split: option.splits prod.splits bool.splits\<close>)
qed

subsection \<open>Blank lines\<close>

definition blank_lines :: "nat \<Rightarrow> nat \<Rightarrow> (nat \<times> u8) list" where
  "blank_lines n gap = replicate n (gap, 0x0A)"

lemma hear_blank:
  assumes "gap < window" and "pr_bytes p = (gap, 0x0A) # bs"
  shows "hear parse token (Some window) p = Skip (p\<lparr>pr_bytes := bs\<rparr>)"
proof -
  have "from_utf8 [0x0A] = Some [CHR 0x0A]" "str_trim [CHR 0x0A] = []" by code_simp+
  moreover have "\<not> length [CHR 0x0A] > MAX_CALL_BYTES" by (simp add: MAX_CALL_BYTES_def)
  ultimately show ?thesis using assms by (simp add: hear_def read_line_def hear_text_def)
qed

lemma blank_lines_skipped:
  assumes "gap < window"
  shows "serve_calls parse dispatch token window False (p\<lparr>pr_bytes := blank_lines n gap @ bs\<rparr>) s =
         serve_calls parse dispatch token window False (p\<lparr>pr_bytes := bs\<rparr>) s"
proof (induction n)
  case (Suc n)
  have "hear parse token (Some window) (p\<lparr>pr_bytes := blank_lines (Suc n) gap @ bs\<rparr>) =
      Skip (p\<lparr>pr_bytes := blank_lines n gap @ bs\<rparr>)"
    using hear_blank [OF assms, where p = "p\<lparr>pr_bytes := blank_lines (Suc n) gap @ bs\<rparr>" and bs = "blank_lines n gap @ bs"
      and parse = parse and token = token] by (simp add: blank_lines_def)
  with Suc show ?case by (simp add: serve_calls.simps [where p = "p\<lparr>pr_bytes := blank_lines (Suc n) gap @ bs\<rparr>"])
qed (simp add: blank_lines_def)

text \<open>The time a peer takes to send what it sends.\<close>

definition spent :: "(nat \<times> u8) list \<Rightarrow> nat" where
  "spent bs = sum_list (map fst bs)"

lemma blank_lines_closed:
  assumes "gap < window"
  shows "serve_calls parse dispatch token window False \<lparr>pr_bytes = blank_lines n gap, pr_closes = True, pr_writes = []\<rparr> s =
    stopped Closed s []"
proof -
  let ?p = "\<lparr>pr_bytes = blank_lines n gap, pr_closes = True, pr_writes = []\<rparr>"
  have "hear parse token (Some window) (?p\<lparr>pr_bytes := []\<rparr>) = Hang Closed []"
    by (simp add: hear_def read_line_def)
  then have "serve_calls parse dispatch token window False (?p\<lparr>pr_bytes := []\<rparr>) s = stopped Closed s []"
    by (simp add: serve_calls.simps)
  with blank_lines_skipped [OF assms, where p = ?p and n = n and bs = "[]" and parse = parse and dispatch = dispatch
      and token = token and s = s]
  show ?thesis by simp
qed

lemma silence_ends:
  assumes "pr_bytes p = []" "\<not> pr_closes p"
  shows "serve_calls parse dispatch token window False p s = stopped Broken s []"
  using assms by (simp add: serve_calls.simps hear_def read_line_def)

end
