(* ===== verification/Service_Base.thy ===== *)
theory Service_Base
  imports Agent_Files Audit_Log Transport Qr_Network Phone_Clients
begin

text \<open>
  The state of the agent's service (\<open>phone-auth-agent/src/service.rs\<close>, with the types of
  \<open>api.rs\<close>), its events, the codes and texts of its errors, what it shows of its state, what
  it writes to the audit log, and how it chooses the credential to ask. The service runs behind
  one mutex, so an operation is a function of the whole state; the phones, the clock and the
  random generator are a world of any type beside it.
\<close>

subsection \<open>Errors\<close>

record service_error =
  sx_code :: string
  sx_message :: string

definition service_error_new :: "string \<Rightarrow> string \<Rightarrow> service_error" where
  "service_error_new code message = \<lparr>sx_code = code, sx_message = message\<rparr>"

definition service_error_text :: "service_error \<Rightarrow> string" where
  "service_error_text e = sx_code e @ '': '' @ sx_message e"

fun signature_error_text :: "signature_error \<Rightarrow> string" where
  "signature_error_text (UnsupportedAlgorithm name) = ''unsupported algorithm `'' @ name @ ''`''"
| "signature_error_text (UnsupportedKeyEncoding name) = ''unsupported key encoding `'' @ name @ ''`''"
| "signature_error_text MalformedPublicKey = ''stored public key is malformed''"
| "signature_error_text MalformedSignature = ''signature is not valid DER''"
| "signature_error_text InvalidSignature = ''signature did not verify''"

text \<open>\<open>{:?}\<close> of the two enums.\<close>

fun purpose_debug :: "purpose \<Rightarrow> string" where
  "purpose_debug ForAuthorization = ''Authorization''"
| "purpose_debug ForDiskUnlock = ''DiskUnlock''"
| "purpose_debug ForWebAuthn = ''WebAuthn''"
| "purpose_debug ForVault = ''Vault''"
| "purpose_debug ForFileLocker = ''FileLocker''"
| "purpose_debug ForSsh = ''Ssh''"

fun key_kind_debug :: "pairing_key_kind \<Rightarrow> string" where
  "key_kind_debug KeyStrongBox = ''StrongBox''"
| "key_kind_debug KeyHardware = ''Hardware''"
| "key_kind_debug KeySoftware = ''Software''"

fun authorization_error_text :: "authorization_error \<Rightarrow> string" where
  "authorization_error_text (ChannelUnsuitable t) =
    ''transport `'' @ t @ ''` is not confidential and peer-authenticated''"
| "authorization_error_text (UnknownCredential cid) = ''no paired credential `'' @ cid @ ''`''"
| "authorization_error_text (PurposeMismatch cid registered requested) =
    ''credential `'' @ cid @ ''` is registered for '' @ purpose_debug registered @ '', not '' @ purpose_debug requested"
| "authorization_error_text (KeyKindUnsuitableForBoot cid) =
    ''credential `'' @ cid @ ''` is not hardware-backed and cannot be used at boot''"
| "authorization_error_text (DevelopmentTransportRefused t) =
    ''`'' @ t @ ''` is a development transport and cannot be used at boot''"
| "authorization_error_text PolicyDenied = ''local policy does not allow this request''"
| "authorization_error_text (ResponseMismatch field) = ''response `'' @ field @ ''` did not match the request''"
| "authorization_error_text SessionBindingMismatch = ''session binding changed between request and response''"
| "authorization_error_text Declined = ''authorization was declined on the phone''"
| "authorization_error_text Expired = ''the request expired before it was answered''"
| "authorization_error_text Replayed = ''this request was already answered''"
| "authorization_error_text (ProtocolFailed e) = ''protocol error: '' @ protocol_error_text e"
| "authorization_error_text (SignatureFailed e) = ''signature check failed: '' @ signature_error_text e"
| "authorization_error_text (Malformed e) = ''built an invalid request: '' @ protocol_error_text e"

fun authorization_code :: "authorization_error \<Rightarrow> string" where
  "authorization_code Declined = ''declined''"
| "authorization_code Expired = ''expired''"
| "authorization_code Replayed = ''replayed''"
| "authorization_code PolicyDenied = ''policy-denied''"
| "authorization_code (UnknownCredential _) = ''unknown-credential''"
| "authorization_code (ChannelUnsuitable _) = ''channel-unsuitable''"
| "authorization_code (PurposeMismatch _ _ _) = ''purpose-mismatch''"
| "authorization_code (KeyKindUnsuitableForBoot _) = ''key-unsuitable-for-boot''"
| "authorization_code (DevelopmentTransportRefused _) = ''development-transport''"
| "authorization_code SessionBindingMismatch = ''session-mismatch''"
| "authorization_code (ResponseMismatch _) = ''response-mismatch''"
| "authorization_code (SignatureFailed _) = ''bad-signature''"
| "authorization_code (ProtocolFailed _) = ''bad-frame''"
| "authorization_code (Malformed _) = ''bad-request''"

definition authorization_service_error :: "authorization_error \<Rightarrow> service_error" where
  "authorization_service_error e = service_error_new (authorization_code e) (authorization_error_text e)"

fun vault_error_text :: "vault_error \<Rightarrow> string" where
  "vault_error_text VaultDeclined = ''the phone declined the vault request''"
| "vault_error_text VaultUnavailable = ''the vault is not available on the phone''"
| "vault_error_text (VaultProtocol reason) = ''vault protocol error: '' @ reason"

fun vault_code :: "vault_error \<Rightarrow> string" where
  "vault_code VaultDeclined = ''declined''"
| "vault_code VaultUnavailable = ''vault-unavailable''"
| "vault_code (VaultProtocol _) = ''protocol-error''"

definition vault_service_error :: "vault_error \<Rightarrow> service_error" where
  "vault_service_error e = service_error_new (vault_code e) (vault_error_text e)"

subsection \<open>Events\<close>

record request_started =
  rq_request_id :: string
  rq_service :: string
  rq_action :: string
  rq_resource :: string
  rq_user :: string
  rq_device_name :: string
  rq_origin :: string
  rq_expires_at_ms :: int
  rq_development :: bool

datatype event =
    RequestStarted request_started
  | RequestFinished string bool "string option"
  | DevicesChanged

text \<open>The two ends of an \<open>mpsc\<close> channel: what has been sent and not read, and whether the receiver
  is gone.\<close>

record event_channel =
  ec_events :: "event list"
  ec_hung_up :: bool

subsection \<open>The state and its surroundings\<close>

record 'w service =
  sv_config :: agent_config
  sv_paths :: agent_paths
  sv_verifier :: verifier
  sv_held_proposal :: "pairing_proposal option"
  sv_audit :: audit_log
  sv_development_mode :: bool
  sv_subscribers :: "(u64 \<times> event_channel) list"
  sv_next_subscriber_id :: u64
  sv_files :: world
  sv_host :: 'w

text \<open>The listening transport, as far as pairing drives it.\<close>

record ('secret, 'w) network_control =
  nc_port :: nat
  nc_identity :: 'secret
  nc_advertised_address :: "('w, string, string) io_on"
  nc_arm_pairing :: "server_bootstrap \<Rightarrow> 'w \<Rightarrow> 'w"
  nc_cancel_pairing :: "'w \<Rightarrow> 'w"
  nc_take_proposal :: "'w \<Rightarrow> pairing_proposal option \<times> 'w"
  nc_discard_sessions :: "string \<Rightarrow> 'w \<Rightarrow> 'w"

record ('key, 'sig, 'secret, 'w) surroundings =
  en_crypto :: "('key, 'sig, 'secret) crypto"
  en_serde :: serde
  en_corrupt_text :: string
  en_audit_json :: audit_json
  en_link :: "'w phone_link"
  en_transports :: "('w, secure_session) transport list"
  en_network :: "('secret, 'w) network_control option"

type_synonym ('w, 'a) service_io = "('w service, service_error, 'a) io_on"

definition on_host :: "('w, 'e, 'a) io_on \<Rightarrow> ('w service, 'e, 'a) io_on" where
  "on_host m sv = (case m (sv_host sv) of (r, w) \<Rightarrow> (r, sv\<lparr>sv_host := w\<rparr>))"

definition sv_do :: "('w service \<Rightarrow> 'w service) \<Rightarrow> ('w service, 'e, unit) io_on" where
  "sv_do f sv = (Inr (), f sv)"

definition host_do :: "('w \<Rightarrow> 'w) \<Rightarrow> 'w service \<Rightarrow> 'w service" where
  "host_do f sv = sv\<lparr>sv_host := f (sv_host sv)\<rparr>"

definition sv_read :: "('w service \<Rightarrow> 'a) \<Rightarrow> ('w service, 'e, 'a) io_on" where
  "sv_read f sv = (Inr (f sv), sv)"

definition sv_store :: "'w service \<Rightarrow> pairing_store" where
  "sv_store sv = vf_store (sv_verifier sv)"

text \<open>An operation of \<open>store_mut()\<close>, which saves to the agent's own files.\<close>

definition on_store ::
    "(pairing_store \<Rightarrow> world \<Rightarrow> ('e + 'a) \<times> pairing_store \<times> world) \<Rightarrow> ('w service, 'e, 'a) io_on" where
  "on_store f sv =
    (case f (sv_store sv) (sv_files sv) of (r, s, w) \<Rightarrow>
      (r, sv\<lparr>sv_verifier := (sv_verifier sv)\<lparr>vf_store := s\<rparr>, sv_files := w\<rparr>))"

definition sv_now :: "('key, 'sig, 'secret, 'w) surroundings \<Rightarrow> ('w service, 'e, int) io_on" where
  "sv_now en = on_host (io_get (pk_now (en_link en)))"

definition sv_random :: "('key, 'sig, 'secret, 'w) surroundings \<Rightarrow> nat \<Rightarrow> ('w service, 'e, bytes) io_on" where
  "sv_random en n = on_host (io_get (pk_random (en_link en) n))"

text \<open>\<open>self.transports.connect(..).map_err(|error| ServiceError::new("no-transport", error))\<close>.\<close>

definition sv_connect ::
    "('key, 'sig, 'secret, 'w) surroundings \<Rightarrow> string \<Rightarrow> string \<Rightarrow> ('w, secure_session) service_io" where
  "sv_connect en device_id cred =
    io_map_err (service_error_new ''no-transport'') (on_host (registry_connect (en_transports en) device_id cred))"

definition sv_close :: "('key, 'sig, 'secret, 'w) surroundings \<Rightarrow> secure_session \<Rightarrow> 'w service \<Rightarrow> 'w service" where
  "sv_close en session = host_do (pk_close (en_link en) session)"

definition pairing_error_text :: "('key, 'sig, 'secret, 'w) surroundings \<Rightarrow> pairing_error \<Rightarrow> string" where
  "pairing_error_text en e =
    (case e of
       PairingIo e \<Rightarrow> ''pairing store I/O failed: '' @ pk_io_text (en_link en) e
     | PairingCorrupt \<Rightarrow> ''pairing store is corrupt: '' @ en_corrupt_text en
     | CredentialConflict cid \<Rightarrow> ''credential `'' @ cid @ ''` is already paired to a different key''
     | UnknownDevice did \<Rightarrow> ''unknown device `'' @ did @ ''`'')"

definition publish_known_peers :: "('key, 'sig, 'secret, 'w) surroundings \<Rightarrow> 'w service \<Rightarrow> 'w service" where
  "publish_known_peers en sv =
    (let peers = map_of (rev (map (\<lambda>d. (pd_device_id d, pd_session_identity_public_key d))
           (bt_values (ps_devices (sv_store sv))))) in
     host_do (registry_set_known_peers (en_transports en) peers) sv)"

text \<open>\<open>transports\<close> is the registry already made, the network first; \<open>w\<close> its state, \<open>files\<close> the
  agent's.\<close>

definition service_new ::
    "('key, 'sig, 'secret, 'w) surroundings \<Rightarrow> agent_config \<Rightarrow> agent_paths \<Rightarrow> bool \<Rightarrow> world \<Rightarrow> 'w \<Rightarrow>
     service_error + 'w service" where
  "service_new en config paths development_mode files w =
    (case load_store (en_serde en) (pairing_file paths) files of
       (Inl e, files) \<Rightarrow> Inl (service_error_new ''store-unreadable'' (pairing_error_text en e))
     | (Inr store, files) \<Rightarrow>
         let identity = \<lparr>vi_verifier_id = ac_verifier_id config, vi_verifier_name = ac_verifier_name config\<rparr> in
         Inr (publish_known_peers en
           \<lparr>sv_config = config, sv_paths = paths, sv_verifier = verifier_new identity store, sv_held_proposal = None,
            sv_audit = audit_log_new (audit_file paths), sv_development_mode = development_mode, sv_subscribers = [],
            sv_next_subscriber_id = 0, sv_files = files, sv_host = w\<rparr>))"

subsection \<open>Subscribers\<close>

definition subscribe :: "'w service \<Rightarrow> u64 \<times> 'w service" where
  "subscribe sv =
    (let i = sv_next_subscriber_id sv in
     (i, sv\<lparr>sv_next_subscriber_id := i + 1,
           sv_subscribers := sv_subscribers sv @ [(i, \<lparr>ec_events = [], ec_hung_up = False\<rparr>)]\<rparr>))"

definition unsubscribe :: "u64 list \<Rightarrow> 'w service \<Rightarrow> 'w service" where
  "unsubscribe ids sv = sv\<lparr>sv_subscribers := filter (\<lambda>(i, _). i \<notin> set ids) (sv_subscribers sv)\<rparr>"

definition broadcast :: "event \<Rightarrow> 'w service \<Rightarrow> 'w service" where
  "broadcast e sv = sv\<lparr>sv_subscribers :=
    map (\<lambda>(i, c). (i, c\<lparr>ec_events := ec_events c @ [e]\<rparr>)) (filter (\<lambda>(_, c). \<not> ec_hung_up c) (sv_subscribers sv))\<rparr>"

subsection \<open>What the service shows of its state\<close>

record permission_summary =
  um_service :: string
  um_action :: string
  um_resource :: string
  um_user :: string

record credential_summary =
  cs_credential_id :: string
  cs_key_kind :: string
  cs_purpose :: string
  cs_permissions :: "permission_summary list"
  cs_permissions_revision :: u64
  cs_usable_at_boot :: bool

record device_summary =
  dm_device_id :: string
  dm_display_name :: string
  dm_paired_at_ms :: int
  dm_credentials :: "credential_summary list"

record status_payload =
  su_verifier_id :: string
  su_verifier_name :: string
  su_development_mode :: bool
  su_paired_devices :: "device_summary list"
  su_transports :: "transport_status list"
  su_can_authorize :: bool
  su_blocked_on :: "string list"

definition usable_at_boot :: "pairing_key_kind \<Rightarrow> purpose \<Rightarrow> bool" where
  "usable_at_boot kind p \<longleftrightarrow> allowed_at_boot kind \<and> p = ForDiskUnlock"

definition permission_summary_of :: "permission \<Rightarrow> permission_summary" where
  "permission_summary_of p =
    \<lparr>um_service = pm_service p, um_action = pm_action p, um_resource = pm_resource p, um_user = pm_user p\<rparr>"

definition credential_summary_of :: "paired_credential \<Rightarrow> credential_summary" where
  "credential_summary_of c =
    \<lparr>cs_credential_id = pc_credential_id c, cs_key_kind = key_kind_debug (pc_key_kind c),
     cs_purpose = purpose_debug (pc_purpose c),
     cs_permissions = map permission_summary_of (pc_permissions c),
     cs_permissions_revision = pc_permissions_revision c,
     cs_usable_at_boot = usable_at_boot (pc_key_kind c) (pc_purpose c)\<rparr>"

definition service_devices :: "'w service \<Rightarrow> device_summary list" where
  "service_devices sv =
    map (\<lambda>d. \<lparr>dm_device_id = pd_device_id d, dm_display_name = pd_display_name d,
        dm_paired_at_ms = pd_paired_at_ms d, dm_credentials = map credential_summary_of (pd_credentials d)\<rparr>)
      (bt_values (ps_devices (sv_store sv)))"

definition service_status :: "('key, 'sig, 'secret, 'w) surroundings \<Rightarrow> 'w service \<Rightarrow> status_payload" where
  "service_status en sv =
    (let transports = registry_status (en_transports en) (sv_host sv);
         blocked_on = List.map_filter (\<lambda>t. case tu_availability t of
             Unimplemented reason \<Rightarrow> Some (tu_name t @ '': '' @ reason) | _ \<Rightarrow> None) transports in
     \<lparr>su_verifier_id = ac_verifier_id (sv_config sv), su_verifier_name = ac_verifier_name (sv_config sv),
      su_development_mode = sv_development_mode sv, su_paired_devices = service_devices sv,
      su_transports = transports,
      su_can_authorize = (has_ready_transport (en_transports en) (sv_host sv) \<and> \<not> store_is_empty (sv_store sv)),
      su_blocked_on = blocked_on\<rparr>)"

definition device_name_of :: "string \<Rightarrow> 'w service \<Rightarrow> string" where
  "device_name_of device_id sv =
    (case store_device device_id (sv_store sv) of Some d \<Rightarrow> pd_display_name d | None \<Rightarrow> device_id)"

subsection \<open>The audit log\<close>

text \<open>A write that fails is only reported on the standard error stream.\<close>

definition sv_append :: "('key, 'sig, 'secret, 'w) surroundings \<Rightarrow> audit_entry \<Rightarrow> 'w service \<Rightarrow> 'w service" where
  "sv_append en entry sv = sv\<lparr>sv_files := snd (audit_append (en_audit_json en) (sv_audit sv) entry (sv_files sv))\<rparr>"

definition service_audit_recent ::
    "('key, 'sig, 'secret, 'w) surroundings \<Rightarrow> nat \<Rightarrow> 'w service \<Rightarrow> audit_entry list \<times> 'w service" where
  "service_audit_recent en limit sv =
    (case audit_recent (en_audit_json en) (sv_audit sv) (min limit 500) (sv_files sv) of
       (es, w) \<Rightarrow> (es, sv\<lparr>sv_files := w\<rparr>))"

text \<open>\<open>None\<close> for a result is \<open>Ok(())\<close>.\<close>

definition application_entry ::
    "int \<Rightarrow> bytes \<Rightarrow> string \<Rightarrow> string \<Rightarrow> string \<Rightarrow> string \<Rightarrow> bool \<Rightarrow> service_error option \<Rightarrow> audit_entry" where
  "application_entry at id_bytes svc act res device_name development result =
    \<lparr>au_at_ms = at,
     au_outcome = (case result of None \<Rightarrow> Audit_Log.Granted
        | Some e \<Rightarrow> if sx_code e = ''declined'' then Audit_Log.Denied else Audit_Log.Failed),
     au_request_id = random_request_id id_bytes, au_service = svc, au_action = act, au_resource = res,
     au_user = [], au_device_name = device_name, au_origin = [],
     au_detail = map_option sx_message result, au_development = development\<rparr>"

definition record_application ::
    "('key, 'sig, 'secret, 'w) surroundings \<Rightarrow> string \<Rightarrow> string \<Rightarrow> string \<Rightarrow> string \<Rightarrow> bool \<Rightarrow>
     service_error option \<Rightarrow> ('w, unit) service_io" where
  "record_application en svc act res device_name development result =
    io_bind (sv_now en) (\<lambda>at.
    io_bind (sv_random en 16) (\<lambda>id_bytes.
    sv_do (sv_append en (application_entry at id_bytes svc act res device_name development result))))"

definition record_vault ::
    "('key, 'sig, 'secret, 'w) surroundings \<Rightarrow> string \<Rightarrow> string \<Rightarrow> string \<Rightarrow> bool \<Rightarrow>
     service_error option \<Rightarrow> ('w, unit) service_io" where
  "record_vault en item_id act device_name development result =
    record_application en ''vault'' act item_id device_name development result"

definition record_generated_copy ::
    "('key, 'sig, 'secret, 'w) surroundings \<Rightarrow> service_error option \<Rightarrow> ('w, unit) service_io" where
  "record_generated_copy en result = record_vault en [] ''generate'' [] False result"

text \<open>The end of every operation that asks a phone: what came is written down, then returned.\<close>

definition recorded ::
    "('key, 'sig, 'secret, 'w) surroundings \<Rightarrow> string \<Rightarrow> string \<Rightarrow> string \<Rightarrow> string \<Rightarrow> bool \<Rightarrow>
     service_error + 'a \<Rightarrow> ('w, 'a) service_io" where
  "recorded en svc act res device_name development result =
    io_bind (record_application en svc act res device_name development
        (case result of Inl e \<Rightarrow> Some e | Inr _ \<Rightarrow> None)) (\<lambda>_. io_of result)"

subsection \<open>Choosing a credential\<close>

definition candidates :: "(paired_credential \<Rightarrow> bool) \<Rightarrow> pairing_store \<Rightarrow> (string \<times> string) list" where
  "candidates ok store =
    concat (map (\<lambda>d. map (\<lambda>c. (pd_device_id d, pc_credential_id c)) (filter ok (pd_credentials d)))
      (bt_values (ps_devices store)))"

definition the_candidate ::
    "pairing_store \<Rightarrow> (string \<times> string) list \<Rightarrow> string \<Rightarrow> string \<Rightarrow> service_error + string \<times> string" where
  "the_candidate store cs none_allowed several =
    (case cs of
       [] \<Rightarrow> if store_is_empty store
             then Inl (service_error_new ''not-paired'' ''no phone is paired with this computer'')
             else Inl (service_error_new ''policy-denied'' none_allowed)
     | [c] \<Rightarrow> Inr c
     | _ \<Rightarrow> Inl (service_error_new ''ambiguous-credential''
              (decimal (length cs) @ '' credentials could '' @ several @ ''; pass credentialId to choose'')))"

record authorize_params =
  az_service :: string
  az_action :: string
  az_resource :: string
  az_user :: string
  az_credential_id :: "string option"

definition select_credential :: "pairing_store \<Rightarrow> authorize_params \<Rightarrow> service_error + string \<times> string" where
  "select_credential store params =
    (let purpose = purpose_for_service (az_service params) in
     case az_credential_id params of
       Some requested \<Rightarrow>
         (case find_credential requested store of
            None \<Rightarrow> Inl (service_error_new ''unknown-credential'' (''no credential `'' @ requested @ ''`''))
          | Some (device, _) \<Rightarrow> Inr (pd_device_id device, requested))
     | None \<Rightarrow>
         the_candidate store
           (candidates (\<lambda>c. pc_purpose c = purpose \<and>
              permits_fields (pc_permissions c) (az_service params) (az_action params) (az_resource params) (az_user params))
             store)
           (''no paired credential is allowed to authorize `'' @ az_service params @ '' / '' @ az_action params @
            ''` for `'' @ az_user params @ ''`'')
           ''authorize this'')"

definition select_service_credential ::
    "pairing_store \<Rightarrow> string \<Rightarrow> string \<Rightarrow> string option \<Rightarrow> service_error + string \<times> string" where
  "select_service_credential store svc label requested =
    (let purpose = purpose_for_service svc in
     case requested of
       Some requested \<Rightarrow>
         (case find_credential requested store of
            None \<Rightarrow> Inl (service_error_new ''unknown-credential'' (''no credential `'' @ requested @ ''`''))
          | Some (device, credential) \<Rightarrow>
              if pc_purpose credential \<noteq> purpose
              then Inl (service_error_new ''policy-denied'' (''credential `'' @ requested @ ''` is not a '' @ label @ '' credential''))
              else Inr (pd_device_id device, requested))
     | None \<Rightarrow>
         the_candidate store (candidates (\<lambda>c. pc_purpose c = purpose) store)
           (''no paired credential is enrolled for the '' @ label) ''open this'')"

definition select_locker_credential :: "pairing_store \<Rightarrow> string option \<Rightarrow> service_error + string \<times> string" where
  "select_locker_credential store = select_service_credential store ''locker'' ''file locker''"

definition select_vault_credential :: "pairing_store \<Rightarrow> string option \<Rightarrow> service_error + string \<times> string" where
  "select_vault_credential store = select_service_credential store ''vault'' ''personal vault''"

definition select_boot_credential :: "pairing_store \<Rightarrow> string option \<Rightarrow> service_error + string \<times> string" where
  "select_boot_credential store requested =
    then_ok (select_service_credential store ''luks'' ''disk unlock'' requested) (\<lambda>(device_id, cred).
    if (case find_credential cred store of Some (_, c) \<Rightarrow> allowed_at_boot (pc_key_kind c) | None \<Rightarrow> False)
    then Inr (device_id, cred)
    else Inl (service_error_new ''policy-denied''
      (''credential `'' @ cred @ ''` is not hardware-backed, and boot unlock only accepts a hardware key'')))"

subsection \<open>Computations that leave the verifier alone\<close>

definition same_verifier :: "('w service, 'e, 'a) io_on \<Rightarrow> bool" where
  "same_verifier m \<longleftrightarrow> (\<forall>sv. sv_verifier (snd (m sv)) = sv_verifier sv)"

text \<open>What holds of the verifier goes on holding, whatever comes of the computation.\<close>

definition verifier_keeps :: "(verifier \<Rightarrow> bool) \<Rightarrow> ('w service, 'e, 'a) io_on \<Rightarrow> bool" where
  "verifier_keeps J m \<longleftrightarrow> (\<forall>sv. J (sv_verifier sv) \<longrightarrow> J (sv_verifier (snd (m sv))))"

named_theorems sv_rules "what computations of the service leave of its verifier"

lemma verifier_keeps_same: "same_verifier m \<Longrightarrow> verifier_keeps J m"
  by (simp add: same_verifier_def verifier_keeps_def)

lemma verifier_keeps_bind [sv_rules]:
  "verifier_keeps J m \<Longrightarrow> (\<And>x. verifier_keeps J (k x)) \<Longrightarrow> verifier_keeps J (io_bind m k)"
  unfolding verifier_keeps_def io_bind_def by (fastforce split: prod.split sum.split)

lemma verifier_keeps_map_err [sv_rules]: "verifier_keeps J m \<Longrightarrow> verifier_keeps J (io_map_err f m)"
  unfolding verifier_keeps_def io_map_err_def by (fastforce split: prod.split sum.split)

lemma same_verifier_bind [sv_rules]:
  "same_verifier m \<Longrightarrow> (\<And>x. same_verifier (k x)) \<Longrightarrow> same_verifier (io_bind m k)"
  unfolding same_verifier_def io_bind_def by (auto split: prod.split sum.split) (metis snd_conv)+

lemma same_verifier_map_err [sv_rules]: "same_verifier m \<Longrightarrow> same_verifier (io_map_err f m)"
  unfolding same_verifier_def io_map_err_def by (auto split: prod.split sum.split) (metis snd_conv)+

lemma same_verifier_steps [sv_rules]:
  "same_verifier (io_return x)" "same_verifier (io_fail e)" "same_verifier (io_of r)"
  "same_verifier (on_host m)" "same_verifier (sv_read g)" "same_verifier (sv_now en)" "same_verifier (sv_random en n)"
  by (simp_all add: same_verifier_def io_defs on_host_def sv_read_def sv_now_def sv_random_def split: prod.split)

lemma same_verifier_do [sv_rules]: "(\<And>sv. sv_verifier (f sv) = sv_verifier sv) \<Longrightarrow> same_verifier (sv_do f)"
  by (simp add: same_verifier_def sv_do_def)

lemma sv_verifier_simps [simp]:
  "sv_verifier (host_do f sv) = sv_verifier sv" "sv_verifier (publish_known_peers en sv) = sv_verifier sv"
  "sv_verifier (broadcast e sv) = sv_verifier sv" "sv_verifier (sv_append en entry sv) = sv_verifier sv"
  "sv_verifier (sv_close en session sv) = sv_verifier sv"
  by (simp_all add: host_do_def publish_known_peers_def broadcast_def sv_append_def sv_close_def Let_def)

lemma same_verifier_connect [sv_rules]: "same_verifier (sv_connect en did cred)"
  unfolding sv_connect_def by (intro sv_rules)

lemma same_verifier_record [sv_rules]:
  "same_verifier (record_application en svc act res device_name development result)"
  "same_verifier (recorded en svc act res device_name development r)"
  unfolding record_application_def recorded_def by (intro sv_rules sv_verifier_simps)+

lemma verifier_keeps_store:
  assumes "\<And>s w. J' s \<Longrightarrow> J' (fst (snd (f s w)))" and "\<And>v s. J v \<Longrightarrow> J' s \<Longrightarrow> J (v\<lparr>vf_store := s\<rparr>)"
    and "\<And>v. J v \<Longrightarrow> J' (vf_store v)"
  shows "verifier_keeps J (on_store f)"
  unfolding verifier_keeps_def on_store_def sv_store_def
  using assms by (auto split: prod.split) (metis fst_conv snd_conv)

subsection \<open>The choice is never a guess\<close>

definition store_unique :: "pairing_store \<Rightarrow> bool" where
  "store_unique s \<longleftrightarrow> store_ok s \<and> (\<forall>d \<in> set (bt_values (ps_devices s)). distinct (map pc_credential_id (pd_credentials d)))"

lemma find_distinct:
  assumes "distinct (map pc_credential_id (pd_credentials d))"
  shows "device_credential cid d = Some c \<longleftrightarrow> c \<in> set (pd_credentials d) \<and> pc_credential_id c = cid"
proof
  assume "device_credential cid d = Some c"
  then show "c \<in> set (pd_credentials d) \<and> pc_credential_id c = cid"
    by (auto simp: device_credential_def find_Some_iff)
next
  assume c: "c \<in> set (pd_credentials d) \<and> pc_credential_id c = cid"
  then obtain c' where c': "device_credential cid d = Some c'" using device_credential_iff [of cid d] by auto
  then have "c' \<in> set (pd_credentials d)" "pc_credential_id c' = cid" by (auto simp: device_credential_def find_Some_iff)
  then have "c' = c" using c assms by (auto simp: distinct_map dest: inj_onD)
  with c' show "device_credential cid d = Some c" by simp
qed

lemma device_ids_keys:
  assumes "store_ok s"
  shows "map pd_device_id (bt_values (ps_devices s)) = map fst (ps_devices s)"
proof -
  have "pd_device_id d = k" if "(k, d) \<in> set (ps_devices s)" for k d
  proof -
    have "bt_get k (ps_devices s) = Some d"
      using assms that bt_ok_distinct by (force simp: store_ok_def bt_get_def)
    then show ?thesis using assms by (simp add: store_ok_def)
  qed
  then show ?thesis by (auto simp: bt_values_def)
qed

lemma found_iff:
  assumes "store_unique s"
  shows "find_credential cid s = Some (d, c) \<longleftrightarrow>
    d \<in> set (bt_values (ps_devices s)) \<and> c \<in> set (pd_credentials d) \<and> pc_credential_id c = cid"
proof -
  have s: "store_ok s" using assms by (simp add: store_unique_def)
  have "bt_get (pd_device_id d) (ps_devices s) = Some d \<longleftrightarrow> d \<in> set (bt_values (ps_devices s))"
    using s btree.set_vals [of "ps_devices s" d] by (auto simp: store_ok_def)
  then show ?thesis
    unfolding find_credential_eq [OF s] using assms find_distinct by (auto simp: store_unique_def)
qed

lemma candidates_in:
  assumes "store_unique s"
  shows "(did, cid) \<in> set (candidates ok s) \<longleftrightarrow>
    (\<exists>d c. find_credential cid s = Some (d, c) \<and> pd_device_id d = did \<and> ok c)"
  unfolding found_iff [OF assms] by (auto simp: candidates_def)

lemma distinct_candidates:
  assumes "store_unique s"
  shows "distinct (candidates ok s)"
proof -
  have "distinct (concat (map (\<lambda>d. map (\<lambda>c. (pd_device_id d, pc_credential_id c)) (filter ok (pd_credentials d))) ds))"
    if "distinct (map pd_device_id ds)" "\<forall>d \<in> set ds. distinct (map pc_credential_id (pd_credentials d))" for ds
    using that
  proof (induction ds)
    case (Cons d ds)
    have "inj_on (\<lambda>c. (pd_device_id d, pc_credential_id c)) (set (pd_credentials d))" "distinct (pd_credentials d)"
      using Cons.prems(2) by (auto simp: distinct_map inj_on_def)
    then have "distinct (map (\<lambda>c. (pd_device_id d, pc_credential_id c)) (filter ok (pd_credentials d)))"
      by (auto simp: distinct_map inj_on_def)
    with Cons show ?case by auto
  qed simp
  moreover have "distinct (map pd_device_id (bt_values (ps_devices s)))"
    using assms bt_ok_distinct [of "ps_devices s"] device_ids_keys [of s] by (simp add: store_unique_def store_ok_def)
  ultimately show ?thesis using assms unfolding candidates_def store_unique_def by blast
qed

lemma singleton_iff: "distinct xs \<Longrightarrow> xs = [x] \<longleftrightarrow> x \<in> set xs \<and> (\<forall>y \<in> set xs. y = x)"
  by (cases xs; cases "tl xs") auto

lemma the_candidate_iff: "the_candidate store cs none_allowed several = Inr x \<longleftrightarrow> cs = [x]"
  by (auto simp: the_candidate_def split: list.splits)

text \<open>The one credential of the store that meets a condition.\<close>

definition only_credential :: "(paired_credential \<Rightarrow> bool) \<Rightarrow> pairing_store \<Rightarrow> string \<Rightarrow> bool" where
  "only_credential ok s cid \<longleftrightarrow>
    (\<forall>other d c. find_credential other s = Some (d, c) \<and> ok c \<longrightarrow> other = cid)"

lemma only_candidate_iff:
  assumes "store_unique s"
  shows "the_candidate store (candidates ok s) none_allowed several = Inr (did, cid) \<longleftrightarrow>
    (\<exists>d c. find_credential cid s = Some (d, c) \<and> pd_device_id d = did \<and> ok c) \<and> only_credential ok s cid"
proof -
  have "(\<forall>y \<in> set (candidates ok s). y = (did, cid)) \<longleftrightarrow> only_credential ok s cid"
    if d: "find_credential cid s = Some (d, c)" "pd_device_id d = did" "ok c" for d c
  proof
    assume "\<forall>y \<in> set (candidates ok s). y = (did, cid)"
    then show "only_credential ok s cid" unfolding only_credential_def using candidates_in [OF assms] by blast
  next
    assume o: "only_credential ok s cid"
    show "\<forall>y \<in> set (candidates ok s). y = (did, cid)"
    proof
      fix y assume y: "y \<in> set (candidates ok s)"
      then obtain d' c' where y': "find_credential (snd y) s = Some (d', c')" "pd_device_id d' = fst y" "ok c'"
        using candidates_in [OF assms, of "fst y" "snd y" ok] by auto
      then have "snd y = cid" using o unfolding only_credential_def by blast
      with y' d show "y = (did, cid)" by (cases y) simp
    qed
  qed
  then show ?thesis
    unfolding the_candidate_iff singleton_iff [OF distinct_candidates [OF assms]] candidates_in [OF assms]
    by (intro iffI conjI; elim conjE exE) (assumption | simp | blast)+
qed

lemma select_service_iff:
  assumes "store_unique s"
  shows "select_service_credential s svc label requested = Inr (did, cid) \<longleftrightarrow>
    (\<exists>d c. find_credential cid s = Some (d, c) \<and> pd_device_id d = did \<and> pc_purpose c = purpose_for_service svc \<and>
      (case requested of Some r \<Rightarrow> r = cid | None \<Rightarrow> only_credential (\<lambda>c. pc_purpose c = purpose_for_service svc) s cid))"
  using only_candidate_iff [OF assms, of s "\<lambda>c. pc_purpose c = purpose_for_service svc"]
  by (auto simp: select_service_credential_def Let_def split: option.splits if_splits)

lemma select_credential_iff:
  assumes "store_unique s"
  shows "select_credential s params = Inr (did, cid) \<longleftrightarrow>
    (\<exists>d c. find_credential cid s = Some (d, c) \<and> pd_device_id d = did \<and>
      (case az_credential_id params of
         Some r \<Rightarrow> r = cid
       | None \<Rightarrow>
           let ok = (\<lambda>c. pc_purpose c = purpose_for_service (az_service params) \<and>
                 permits_fields (pc_permissions c) (az_service params) (az_action params) (az_resource params) (az_user params))
           in ok c \<and> only_credential ok s cid))"
  using only_candidate_iff [OF assms, of s "\<lambda>c. pc_purpose c = purpose_for_service (az_service params) \<and>
      permits_fields (pc_permissions c) (az_service params) (az_action params) (az_resource params) (az_user params)"]
  by (auto simp: select_credential_def Let_def split: option.splits)

lemma select_boot_iff:
  assumes "store_unique s"
  shows "select_boot_credential s requested = Inr (did, cid) \<longleftrightarrow>
    (\<exists>d c. find_credential cid s = Some (d, c) \<and> pd_device_id d = did \<and> pc_purpose c = ForDiskUnlock \<and>
      allowed_at_boot (pc_key_kind c) \<and>
      (case requested of Some r \<Rightarrow> r = cid | None \<Rightarrow> only_credential (\<lambda>c. pc_purpose c = ForDiskUnlock) s cid))"
proof -
  have p: "purpose_for_service ''luks'' = ForDiskUnlock" by (simp add: purpose_for_service_def)
  have "(case find_credential cid s of Some (_, c) \<Rightarrow> allowed_at_boot (pc_key_kind c) | None \<Rightarrow> False) \<longleftrightarrow>
    (\<exists>d c. find_credential cid s = Some (d, c) \<and> allowed_at_boot (pc_key_kind c))"
    by (auto split: option.split)
  then have "select_boot_credential s requested = Inr (did, cid) \<longleftrightarrow>
    select_service_credential s ''luks'' ''disk unlock'' requested = Inr (did, cid) \<and>
    (\<exists>d c. find_credential cid s = Some (d, c) \<and> allowed_at_boot (pc_key_kind c))"
    unfolding select_boot_credential_def then_ok_eq_Inr by (auto split: if_splits)
  then show ?thesis unfolding select_service_iff [OF assms] p by auto
qed

end
