(* ===== verification/Service_Pairing.thy ===== *)
theory Service_Pairing
  imports Service_Base Bootstrap
begin

text \<open>
  What the service does to its pairings (\<open>phone-auth-agent/src/service.rs\<close>): forgetting a device,
  editing permissions and settling them with the phone, and a pairing from the code on screen
  to the record in the store.
\<close>

subsection \<open>Forgetting\<close>

definition forget ::
    "('key, 'sig, 'secret, 'w) surroundings \<Rightarrow> string \<Rightarrow> ('w, unit) service_io" where
  "forget en device_id =
    io_bind (io_map_err (\<lambda>e. service_error_new ''unknown-device'' (pairing_error_text en e))
      (on_store (remove_device (en_serde en) device_id))) (\<lambda>_.
    io_bind (sv_do (publish_known_peers en)) (\<lambda>_.
    io_bind (sv_do (case en_network en of
        None \<Rightarrow> id | Some network \<Rightarrow> host_do (nc_discard_sessions network device_id))) (\<lambda>_.
    sv_do (broadcast DevicesChanged))))"

subsection \<open>Permissions\<close>

text \<open>\<open>iter_mut().find(..)\<close> and an assignment to what it finds.\<close>

fun update_first :: "('a \<Rightarrow> bool) \<Rightarrow> ('a \<Rightarrow> 'a) \<Rightarrow> 'a list \<Rightarrow> 'a list" where
  "update_first P f [] = []"
| "update_first P f (x # xs) = (if P x then f x # xs else x # update_first P f xs)"

definition saturating_succ :: "u64 \<Rightarrow> u64" where
  "saturating_succ n = (if n = - 1 then n else n + 1)"

definition permission_of_summary :: "permission_summary \<Rightarrow> permission" where
  "permission_of_summary p =
    \<lparr>pm_service = um_service p, pm_action = um_action p, pm_resource = um_resource p, pm_user = um_user p\<rparr>"

definition no_device :: "string \<Rightarrow> service_error" where
  "no_device device_id = service_error_new ''unknown-device'' (''no device `'' @ device_id @ ''`'')"

definition no_credential_on :: "string \<Rightarrow> string \<Rightarrow> service_error" where
  "no_credential_on cred device_id =
    service_error_new ''unknown-credential'' (''no credential `'' @ cred @ ''` on `'' @ device_id @ ''`'')"

definition with_permissions :: "string \<Rightarrow> permission list \<Rightarrow> u64 \<Rightarrow> paired_device \<Rightarrow> paired_device" where
  "with_permissions cred ps revision d =
    d\<lparr>pd_credentials := update_first (\<lambda>c. pc_credential_id c = cred)
        (\<lambda>c. c\<lparr>pc_permissions := ps, pc_permissions_revision := revision\<rparr>) (pd_credentials d)\<rparr>"

definition store_insert ::
    "('key, 'sig, 'secret, 'w) surroundings \<Rightarrow> string \<Rightarrow> paired_device \<Rightarrow> ('w, unit) service_io" where
  "store_insert en code device =
    io_map_err (\<lambda>e. service_error_new code (pairing_error_text en e)) (on_store (insert_device (en_serde en) device))"

definition set_permissions ::
    "('key, 'sig, 'secret, 'w) surroundings \<Rightarrow> string \<Rightarrow> string \<Rightarrow> permission_summary list \<Rightarrow>
     ('w, unit) service_io" where
  "set_permissions en device_id cred permissions =
    io_bind (sv_read (\<lambda>sv. store_device device_id (sv_store sv))) (\<lambda>found.
    io_bind (io_of (ok_or found (no_device device_id))) (\<lambda>device.
    io_bind (io_of (ok_or (device_credential cred device) (no_credential_on cred device_id))) (\<lambda>credential.
    let ps = map permission_of_summary permissions in
    io_bind (sv_read (\<lambda>sv. ac_verifier_name (sv_config sv))) (\<lambda>vname.
    io_bind (io_of (map_err (\<lambda>e. service_error_new ''invalid-permissions'' (protocol_error_text e))
        (validate_sync_request \<lparr>sq_verifier_name = vname, sq_revision = 0, sq_permissions = map to_wire ps\<rparr>))) (\<lambda>_.
    io_bind (store_insert en ''store-write-failed''
        (with_permissions cred ps (saturating_succ (pc_permissions_revision credential)) device)) (\<lambda>_.
    sv_do (broadcast DevicesChanged)))))))"

record sync_permissions_result =
  yr_revision :: u64
  yr_granted :: nat
  yr_changed :: bool

definition sync_permissions ::
    "('key, 'sig, 'secret, 'w) surroundings \<Rightarrow> string \<Rightarrow> string \<Rightarrow> ('w, sync_permissions_result) service_io" where
  "sync_permissions en device_id cred =
    io_bind (sv_read (\<lambda>sv. store_device device_id (sv_store sv))) (\<lambda>found.
    io_bind (io_of (ok_or found (no_device device_id))) (\<lambda>device.
    io_bind (io_of (ok_or (device_credential cred device) (no_credential_on cred device_id))) (\<lambda>credential.
    io_bind (sv_connect en device_id cred) (\<lambda>session.
    io_bind (sv_read (device_name_of device_id)) (\<lambda>device_name.
    let development = ts_is_development (se_security session) in
    io_bind (sv_read (\<lambda>sv. ac_verifier_name (sv_config sv))) (\<lambda>vname.
    io_bind (\<lambda>sv. case on_host (phone_sync (en_link en) vname session
          (pc_permissions_revision credential) (pc_permissions credential)) sv of
        (r, sv) \<Rightarrow> (Inr (map_err vault_service_error r), sv_close en session sv)) (\<lambda>reply.
    case reply of
      Inl e \<Rightarrow> recorded en ''permissions'' ''sync'' cred device_name development (Inl e)
    | Inr settlement \<Rightarrow>
        let settled = map from_wire (ss_permissions settlement);
            adopted = (ss_revision settlement \<noteq> pc_permissions_revision credential \<or> settled \<noteq> pc_permissions credential) in
        io_bind (store_insert en ''store-write-failed''
            (with_permissions cred settled (ss_revision settlement) device)) (\<lambda>_.
        io_bind (record_application en ''permissions'' ''sync'' cred device_name development None) (\<lambda>_.
        io_bind (sv_do (broadcast DevicesChanged)) (\<lambda>_.
        io_return \<lparr>yr_revision = ss_revision settlement, yr_granted = length (ss_permissions settlement),
          yr_changed = adopted\<rparr>))))))))))"

subsection \<open>Pairing\<close>

definition PAIRING_WINDOW_MS :: int where "PAIRING_WINDOW_MS = 120000"

fun map_key_kind :: "key_kind \<Rightarrow> pairing_key_kind" where
  "map_key_kind StrongBox = KeyStrongBox"
| "map_key_kind Hardware = KeyHardware"
| "map_key_kind Software = KeySoftware"

fun map_purpose :: "credential_purpose \<Rightarrow> purpose" where
  "map_purpose Authorization = ForAuthorization"
| "map_purpose DiskUnlock = ForDiskUnlock"
| "map_purpose WebAuthn = ForWebAuthn"
| "map_purpose Vault = ForVault"
| "map_purpose FileLocker = ForFileLocker"
| "map_purpose Ssh = ForSsh"

fun wire_purpose :: "purpose \<Rightarrow> credential_purpose" where
  "wire_purpose ForAuthorization = Authorization"
| "wire_purpose ForDiskUnlock = DiskUnlock"
| "wire_purpose ForWebAuthn = WebAuthn"
| "wire_purpose ForVault = Vault"
| "wire_purpose ForFileLocker = FileLocker"
| "wire_purpose ForSsh = Ssh"

fun session_error_text :: "session_error \<Rightarrow> string" where
  "session_error_text (InvalidBootstrap message) = message"
| "session_error_text (InvalidFrame message) = message"
| "session_error_text BootstrapExpired = ''the pairing code has expired''"
| "session_error_text (SessionCbor e) = ''CBOR: '' @ cbor_error_text e"
| "session_error_text IdentityKey = ''invalid P-256 identity key''"
| "session_error_text BadSignature = ''invalid handshake signature''"
| "session_error_text PeerMismatch = ''handshake peer does not match pairing''"
| "session_error_text VerifierIdentityMismatch = ''verifier key does not match the scanned code''"
| "session_error_text Kdf = ''secure-session key derivation failed''"
| "session_error_text Encrypt = ''secure-session record encryption failed''"
| "session_error_text Decrypt = ''secure-session record authentication failed''"
| "session_error_text Replay = ''replayed or out-of-order secure-session record''"
| "session_error_text CounterExhausted = ''secure-session record counter exhausted''"

record pairing_bootstrap =
  pb_protocol_version :: u64
  pb_verifier_id :: string
  pb_verifier_name :: string
  pb_session_id :: string
  pb_nonce :: string
  pb_expires_at_ms :: int
  pb_endpoint :: string
  pb_qr_payload :: string
  pb_service :: string
  pb_blocked_on :: "string option"

definition discard_held_proposal :: "'w service \<Rightarrow> 'w service" where
  "discard_held_proposal sv = sv\<lparr>sv_held_proposal := None\<rparr>"

definition begin_pairing_for ::
    "('key, 'sig, 'secret, 'w) surroundings \<Rightarrow> string \<Rightarrow> ('w, pairing_bootstrap) service_io" where
  "begin_pairing_for en svc =
    (case en_network en of
       None \<Rightarrow> io_fail (service_error_new ''no-transport'' ''no listening transport, so a phone would have nowhere to connect'')
     | Some network \<Rightarrow>
         io_bind (io_map_err (\<lambda>e. service_error_new ''no-address''
             (''this computer has no usable address on the local network, so a phone would have nowhere to connect: '' @ e))
           (on_host (nc_advertised_address network))) (\<lambda>address.
         io_bind (sv_random en 12) (\<lambda>session_bytes.
         io_bind (sv_read (\<lambda>sv. sv_config sv)) (\<lambda>config.
         io_bind (sv_now en) (\<lambda>now.
         io_bind (sv_random en 32) (\<lambda>nonce_bytes.
         io_bind (io_of (map_err (\<lambda>e. service_error_new ''pairing-failed'' (session_error_text e))
           (bootstrap_for_purpose (en_crypto en) nonce_bytes (to_hex session_bytes) (ac_verifier_id config)
             (address @ '':'' @ decimal (nc_port network)) (nc_identity network) now PAIRING_WINDOW_MS
             (wire_purpose (purpose_for_service svc))))) (\<lambda>bootstrap.
         io_bind (sv_do discard_held_proposal) (\<lambda>_.
         io_bind (sv_do (host_do (nc_arm_pairing network bootstrap))) (\<lambda>_.
         io_return \<lparr>pb_protocol_version = PROTOCOL_VERSION, pb_verifier_id = sb_verifier_id bootstrap,
           pb_verifier_name = ac_verifier_name config, pb_session_id = sb_session_id bootstrap,
           pb_nonce = to_base64url (sb_nonce bootstrap), pb_expires_at_ms = sb_expires_at_ms bootstrap,
           pb_endpoint = sb_endpoint bootstrap, pb_qr_payload = to_uri bootstrap, pb_service = svc,
           pb_blocked_on = None\<rparr>)))))))))"

definition begin_pairing ::
    "('key, 'sig, 'secret, 'w) surroundings \<Rightarrow> ('w, pairing_bootstrap) service_io" where
  "begin_pairing en = begin_pairing_for en ''authorization''"

definition cancel_pairing :: "('key, 'sig, 'secret, 'w) surroundings \<Rightarrow> 'w service \<Rightarrow> 'w service" where
  "cancel_pairing en sv =
    discard_held_proposal (case en_network en of None \<Rightarrow> sv | Some network \<Rightarrow> host_do (nc_cancel_pairing network) sv)"

record proposal_summary =
  py_attempt_id :: string
  py_device_id :: string
  py_device_name :: string
  py_credential_id :: string
  py_key_kind :: string
  py_purpose :: string
  py_verification_code :: string
  py_usable_at_boot :: bool

definition summary_of_proposal :: "pairing_proposal \<Rightarrow> proposal_summary" where
  "summary_of_proposal g =
    (let key_kind = map_key_kind (pg_key_kind g); purpose = map_purpose (pg_purpose g) in
     \<lparr>py_attempt_id = pg_attempt_id g, py_device_id = pg_device_id g, py_device_name = pg_device_name g,
      py_credential_id = pg_credential_id g, py_key_kind = key_kind_debug key_kind,
      py_purpose = purpose_debug purpose, py_verification_code = pg_verification_code g,
      py_usable_at_boot = usable_at_boot key_kind purpose\<rparr>)"

definition pending_pairing ::
    "('key, 'sig, 'secret, 'w) surroundings \<Rightarrow> 'w service \<Rightarrow> proposal_summary option \<times> 'w service" where
  "pending_pairing en sv =
    (case sv_held_proposal sv of
       Some held \<Rightarrow> (Some (summary_of_proposal held), sv)
     | None \<Rightarrow>
         (case en_network en of
            None \<Rightarrow> (None, sv)
          | Some network \<Rightarrow>
              (case nc_take_proposal network (sv_host sv) of
                 (None, w) \<Rightarrow> (None, sv\<lparr>sv_host := w\<rparr>)
               | (Some proposal, w) \<Rightarrow>
                   (Some (summary_of_proposal proposal), sv\<lparr>sv_host := w, sv_held_proposal := Some proposal\<rparr>))))"

definition install_pairing ::
    "('key, 'sig, 'secret, 'w) surroundings \<Rightarrow> paired_device \<Rightarrow> ('w, unit) service_io" where
  "install_pairing en device =
    io_bind (store_insert en ''pairing-rejected'' device) (\<lambda>_.
    io_bind (sv_do (publish_known_peers en)) (\<lambda>_.
    sv_do (broadcast DevicesChanged)))"

definition device_of_proposal :: "int \<Rightarrow> pairing_proposal \<Rightarrow> paired_device" where
  "device_of_proposal now g =
    \<lparr>pd_device_id = pg_device_id g, pd_display_name = pg_device_name g, pd_paired_at_ms = now,
     pd_session_identity_public_key = pg_session_identity_spki g,
     pd_credentials = [\<lparr>pc_credential_id = pg_credential_id g, pc_algorithm = pg_algorithm g,
       pc_public_key = pg_credential_public_key g, pc_key_kind = map_key_kind (pg_key_kind g),
       pc_purpose = map_purpose (pg_purpose g), pc_permissions = [], pc_permissions_revision = 0\<rparr>]\<rparr>"

definition confirm_pairing ::
    "('key, 'sig, 'secret, 'w) surroundings \<Rightarrow> string \<Rightarrow> string option \<Rightarrow> ('w, unit) service_io" where
  "confirm_pairing en expected_code attempt_id =
    io_bind (sv_read sv_held_proposal) (\<lambda>held.
    if (case (attempt_id, map_option pg_attempt_id held) of
          (Some quoted, Some current) \<Rightarrow> quoted \<noteq> current | _ \<Rightarrow> False)
    then io_fail (service_error_new ''stale-attempt'' ''that pairing attempt has been replaced; read the new code'')
    else
      io_bind (sv_do discard_held_proposal) (\<lambda>_.
      io_bind (io_of (ok_or held (service_error_new ''no-pairing'' ''no pairing is awaiting confirmation''))) (\<lambda>proposal.
      if pg_verification_code proposal \<noteq> expected_code
      then io_fail (service_error_new ''code-mismatch'' ''the confirmation code does not match the one from the handshake'')
      else
        io_bind (sv_now en) (\<lambda>now. install_pairing en (device_of_proposal now proposal)))))"

subsection \<open>The store stays well formed\<close>

definition verifier_unique :: "verifier \<Rightarrow> bool" where
  "verifier_unique v \<longleftrightarrow> store_unique (vf_store v) \<and> replay_ok (vf_replay v)"

lemma merge_unique:
  assumes "store_unique s" and "distinct (map pc_credential_id (pd_credentials d))"
  shows "distinct (map pc_credential_id (pd_credentials (merge_credentials d s)))"
proof (cases "bt_get (pd_device_id d) (ps_devices s)")
  case None
  then show ?thesis using assms(2) by (simp add: merge_credentials_def)
next
  case (Some e)
  then have "e \<in> set (bt_values (ps_devices s))"
    using assms(1) btree.set_vals [of "ps_devices s" e] by (auto simp: store_unique_def store_ok_def)
  then have "distinct (map pc_credential_id (pd_credentials e))" using assms(1) by (simp add: store_unique_def)
  then have "distinct (map pc_credential_id (filter P (pd_credentials e)))" for P by (rule distinct_map_filter)
  then show ?thesis using assms(2) Some by (auto simp: merge_credentials_def) (metis image_eqI)
qed

lemma put_device_unique:
  assumes s: "store_unique s" and d: "distinct (map pc_credential_id (pd_credentials d))" and n: "no_conflict d s"
  shows "store_unique (put_device d s)"
proof -
  have ok: "store_ok s" "bt_ok (ps_devices s)" using s by (simp_all add: store_unique_def store_ok_def)
  have put: "store_ok (put_device d s)" using ok(1) n by (rule put_device_ok)
  have "distinct (map pc_credential_id (pd_credentials e))" if "e \<in> set (bt_values (ps_devices (put_device d s)))" for e
  proof -
    have "bt_ok (ps_devices (put_device d s))" using put by (simp add: store_ok_def)
    from that [unfolded btree.set_vals [OF this]] obtain k where "bt_get k (ps_devices (put_device d s)) = Some e" ..
    then have "e = merge_credentials d s \<or> bt_get k (ps_devices s) = Some e"
      using btree.get_ins [OF ok(2)] by (auto simp: put_device_def split: if_splits)
    then show ?thesis
    proof
      assume "bt_get k (ps_devices s) = Some e"
      then have "e \<in> set (bt_values (ps_devices s))" using btree.set_vals [OF ok(2)] by blast
      then show ?thesis using s by (simp add: store_unique_def)
    qed (simp add: merge_unique [OF s d])
  qed
  with put show ?thesis by (simp add: store_unique_def)
qed

lemma drop_device_unique: "store_unique s \<Longrightarrow> store_unique (drop_device did s)"
proof -
  assume s: "store_unique s"
  then have ok: "store_ok s" "bt_ok (ps_devices s)" by (simp_all add: store_unique_def store_ok_def)
  have "store_ok (drop_device did s)" using ok(1) by (rule drop_device_ok)
  moreover have "e \<in> set (bt_values (ps_devices s))" if "e \<in> set (bt_values (ps_devices (drop_device did s)))" for e
    using that by (auto simp: drop_device_def bt_values_def bt_remove_def)
  ultimately show "store_unique (drop_device did s)" using s by (auto simp: store_unique_def)
qed

lemma unique_insert [sv_rules]:
  "distinct (map pc_credential_id (pd_credentials d)) \<Longrightarrow> verifier_keeps verifier_unique (on_store (insert_device sd d))"
  by (rule verifier_keeps_store [where J' = store_unique])
    (auto simp: insert_device_store verifier_unique_def put_device_unique)

lemma unique_remove [sv_rules]: "verifier_keeps verifier_unique (on_store (remove_device sd did))"
  by (rule verifier_keeps_store [where J' = store_unique])
    (auto simp: remove_device_store verifier_unique_def drop_device_unique)

lemma update_first_ids: "(\<And>x. h (f x) = h x) \<Longrightarrow> map h (update_first P f xs) = map h xs"
  by (induction xs) auto

lemma with_permissions_ids [simp]:
  "map pc_credential_id (pd_credentials (with_permissions cred ps n d)) = map pc_credential_id (pd_credentials d)"
  by (simp add: with_permissions_def update_first_ids)

lemma verifier_keeps_read:
  "(\<And>sv. J (sv_verifier sv) \<Longrightarrow> verifier_keeps J (k (g sv))) \<Longrightarrow> verifier_keeps J (io_bind (sv_read g) k)"
  by (simp add: verifier_keeps_def io_bind_def sv_read_def)

lemma verifier_keeps_of: "(\<And>x. r = Inr x \<Longrightarrow> verifier_keeps J (k x)) \<Longrightarrow> verifier_keeps J (io_bind (io_of r) k)"
  by (cases r) (simp_all add: verifier_keeps_def io_bind_def io_of_def)

lemma store_device_distinct:
  assumes "verifier_unique (sv_verifier sv)" and "store_device did (sv_store sv) = Some d"
  shows "distinct (map pc_credential_id (pd_credentials d))"
proof -
  have "bt_ok (ps_devices (sv_store sv))" using assms(1) by (simp add: verifier_unique_def sv_store_def store_unique_def store_ok_def)
  from btree.set_vals [OF this, of d] assms(2) have "d \<in> set (bt_values (ps_devices (sv_store sv)))"
    by (auto simp: store_device_def)
  then show ?thesis using assms(1) by (simp add: verifier_unique_def sv_store_def store_unique_def)
qed

lemma unique_store_insert [sv_rules]:
  "distinct (map pc_credential_id (pd_credentials d)) \<Longrightarrow> verifier_keeps verifier_unique (store_insert en code d)"
  unfolding store_insert_def by (intro sv_rules)

lemma unique_forget: "verifier_keeps verifier_unique (forget en did)"
  unfolding forget_def by (intro sv_rules verifier_keeps_same) (simp_all split: option.split)

lemma unique_set_permissions: "verifier_keeps verifier_unique (set_permissions en did cred ps)"
  unfolding set_permissions_def Let_def
  by (rule verifier_keeps_read, rule verifier_keeps_of, rule verifier_keeps_of, rule verifier_keeps_read, rule verifier_keeps_of)
    (intro sv_rules verifier_keeps_same [OF same_verifier_do], simp_all add: store_device_distinct)

lemma same_verifier_fun [sv_rules]:
  "same_verifier m \<Longrightarrow> (\<And>r sv. sv_verifier (g r sv) = sv_verifier sv) \<Longrightarrow>
    same_verifier (\<lambda>sv. case m sv of (r, sv) \<Rightarrow> (h r, g r sv))"
  by (auto simp: same_verifier_def split: prod.split) (metis snd_conv)

lemma unique_install: "distinct (map pc_credential_id (pd_credentials d)) \<Longrightarrow> verifier_keeps verifier_unique (install_pairing en d)"
  unfolding install_pairing_def by (intro sv_rules verifier_keeps_same) simp_all

lemma same_verifier_phone [sv_rules]:
  "same_verifier (\<lambda>sv. case on_host m sv of (r, sv) \<Rightarrow> (Inr (h r), sv_close en session sv))"
  by (auto simp: same_verifier_def on_host_def split: prod.split)

lemma unique_sync: "verifier_keeps verifier_unique (sync_permissions en did cred)"
  unfolding sync_permissions_def Let_def
  by (rule verifier_keeps_read, rule verifier_keeps_of, rule verifier_keeps_of)
    (intro verifier_keeps_bind verifier_keeps_same [OF same_verifier_connect] verifier_keeps_same [OF same_verifier_phone]
        verifier_keeps_same [OF same_verifier_steps(5)],
     auto intro!: sv_rules verifier_keeps_same [OF same_verifier_do] verifier_keeps_same [OF same_verifier_steps(1)]
       verifier_keeps_same [OF same_verifier_record(1)] verifier_keeps_same [OF same_verifier_record(2)]
       dest: store_device_distinct split: sum.split)

lemma same_verifier_begin: "same_verifier (begin_pairing_for en svc)"
  unfolding begin_pairing_for_def
  by (auto simp: discard_held_proposal_def intro!: sv_rules split: option.split)

lemma unique_confirm: "verifier_keeps verifier_unique (confirm_pairing en code attempt)"
proof -
  have "distinct (map pc_credential_id (pd_credentials (device_of_proposal now g)))" for now g
    by (simp add: device_of_proposal_def)
  from unique_install [OF this] show ?thesis
    unfolding confirm_pairing_def
    by (auto simp: discard_held_proposal_def
        intro!: verifier_keeps_bind verifier_keeps_same [OF same_verifier_do] verifier_keeps_same [OF same_verifier_steps(5)]
          verifier_keeps_same [OF same_verifier_steps(2)] verifier_keeps_same [OF same_verifier_steps(3)]
          verifier_keeps_same [OF same_verifier_steps(6)])
qed

subsection \<open>Forgetting, and failing to\<close>

lemma on_store_iff: "on_store f sv = (r, sv') \<longleftrightarrow>
    (\<exists>s w. f (sv_store sv) (sv_files sv) = (r, s, w) \<and>
      sv' = sv\<lparr>sv_verifier := (sv_verifier sv)\<lparr>vf_store := s\<rparr>, sv_files := w\<rparr>)"
  by (auto simp: on_store_def split: prod.split)

lemma sv_store_simps [simp]:
  "sv_store (host_do f sv) = sv_store sv" "sv_store (publish_known_peers en sv) = sv_store sv"
  "sv_store (broadcast e sv) = sv_store sv" "sv_store (sv_append en entry sv) = sv_store sv"
  "sv_store (sv_close en session sv) = sv_store sv" "sv_store (sv\<lparr>sv_files := w\<rparr>) = sv_store sv"
  "sv_store (sv\<lparr>sv_host := x\<rparr>) = sv_store sv" "sv_store (sv\<lparr>sv_held_proposal := g\<rparr>) = sv_store sv"
  "sv_store (sv\<lparr>sv_verifier := v\<rparr>) = vf_store v" "sv_store (discard_held_proposal sv) = sv_store sv"
  by (simp_all add: sv_store_def discard_held_proposal_def)

lemma sv_host_simps [simp]:
  "sv_host (host_do f sv) = f (sv_host sv)" "sv_host (broadcast e sv) = sv_host sv"
  by (simp_all add: host_do_def broadcast_def)

lemma map_of_rev: "distinct (map fst l) \<Longrightarrow> map_of (rev l) = map_of l"
  by (subst map_of_inject_set) (simp_all flip: rev_map)

lemma sv_held_simps [simp]:
  "sv_held_proposal (host_do f sv) = sv_held_proposal sv" "sv_held_proposal (broadcast e sv) = sv_held_proposal sv"
  "sv_held_proposal (publish_known_peers en sv) = sv_held_proposal sv"
  by (simp_all add: host_do_def broadcast_def publish_known_peers_def Let_def)

definition peers_of :: "pairing_store \<Rightarrow> string \<Rightarrow> bytes option" where
  "peers_of s did = map_option pd_session_identity_public_key (store_device did s)"

lemma publish_peers:
  assumes "store_ok (sv_store sv)"
  shows "publish_known_peers en sv = host_do (registry_set_known_peers (en_transports en) (peers_of (sv_store sv))) sv"
proof -
  let ?m = "ps_devices (sv_store sv)"
  let ?l = "map (\<lambda>d. (pd_device_id d, pd_session_identity_public_key d)) (bt_values ?m)"
  have keys: "map pd_device_id (bt_values ?m) = map fst ?m" by (rule device_ids_keys [OF assms])
  have d: "distinct (map fst ?l)"
    using keys assms bt_ok_distinct [of ?m] by (simp add: comp_def store_ok_def)
  have "?l = map (\<lambda>(k, d). (k, pd_session_identity_public_key d)) ?m"
    using keys by (auto simp: bt_values_def)
  then have "map_of ?l = map_option pd_session_identity_public_key \<circ> map_of ?m"
    by (simp add: map_of_map)
  moreover have "map_of (rev ?l) = map_of ?l" by (rule map_of_rev [OF d])
  ultimately have "map_of (rev ?l) = peers_of (sv_store sv)"
    by (simp add: fun_eq_iff peers_of_def store_device_def bt_get_def)
  then show ?thesis unfolding publish_known_peers_def Let_def by simp
qed

text \<open>A device that is forgotten leaves the store, the listener and the pool of sessions.\<close>

lemma forget_Inr:
  assumes "store_ok (sv_store sv)" and "forget en did sv = (Inr (), sv')"
  shows "store_device did (sv_store sv) \<noteq> None \<and> sv_store sv' = drop_device did (sv_store sv) \<and>
    sv_host sv' = (case en_network en of None \<Rightarrow> id | Some network \<Rightarrow> nc_discard_sessions network did)
      (registry_set_known_peers (en_transports en) ((peers_of (sv_store sv))(did := None)) (sv_host sv))"
proof -
  from assms(2) obtain d s w where r: "remove_device (en_serde en) did (sv_store sv) (sv_files sv) = (Inr d, s, w)"
    and sv': "sv' = broadcast DevicesChanged ((case en_network en of None \<Rightarrow> id | Some network \<Rightarrow>
        host_do (nc_discard_sessions network did)) (publish_known_peers en
          (sv\<lparr>sv_verifier := (sv_verifier sv)\<lparr>vf_store := s\<rparr>, sv_files := w\<rparr>)))"
    unfolding forget_def by (auto simp: io_runs on_store_iff sv_do_def)
  have s: "s = drop_device did (sv_store sv)" using remove_device_store [of "en_serde en" did "sv_store sv" "sv_files sv"] r by simp
  have p: "peers_of s = (peers_of (sv_store sv))(did := None)"
    by (simp add: s fun_eq_iff peers_of_def store_device_def drop_device_def bt_get_remove)
  have ok: "store_ok s" unfolding s using assms(1) by (rule drop_device_ok)
  have "store_device did (sv_store sv) \<noteq> None" using r by (auto simp: remove_device_def store_device_def split: option.splits)
  then show ?thesis using s p ok unfolding sv' by (simp add: publish_peers split: option.split)
qed

text \<open>
  When the store cannot be saved the device is gone from memory, but the listener has not been told,
  and asking again does not tell it: the device is unknown by then.
\<close>

lemma forget_fails:
  assumes "persist (en_serde en) (drop_device did (sv_store sv)) (sv_files sv) = (Inl e, w)"
    and "store_device did (sv_store sv) \<noteq> None" and "forget en did sv = (r, sv')"
  shows "r = Inl (service_error_new ''unknown-device'' (pairing_error_text en e))
    \<and> store_device did (sv_store sv') = None \<and> sv_host sv' = sv_host sv
    \<and> forget en did sv' = (Inl (service_error_new ''unknown-device'' (pairing_error_text en (UnknownDevice did))), sv')"
proof -
  obtain d where d: "bt_get did (ps_devices (sv_store sv)) = Some d" using assms(2) by (auto simp: store_device_def)
  let ?s = "drop_device did (sv_store sv)"
  have r: "remove_device (en_serde en) did (sv_store sv) (sv_files sv) = (Inl e, ?s, w)"
    using assms(1) d by (simp add: remove_device_def drop_device_def)
  have f: "r = Inl (service_error_new ''unknown-device'' (pairing_error_text en e))"
    "sv' = sv\<lparr>sv_verifier := (sv_verifier sv)\<lparr>vf_store := ?s\<rparr>, sv_files := w\<rparr>"
    using assms(3) r by (auto simp: forget_def io_bind_def io_map_err_def on_store_def)
  have g: "bt_get did (ps_devices ?s) = None" by (simp add: drop_device_def bt_get_remove)
  then have "remove_device (en_serde en) did ?s w = (Inl (UnknownDevice did), ?s, w)" by (simp add: remove_device_def)
  then have "forget en did sv' = (Inl (service_error_new ''unknown-device'' (pairing_error_text en (UnknownDevice did))), sv')"
    by (simp add: f(2) forget_def io_bind_def io_map_err_def on_store_def)
  then show ?thesis using f g by (simp add: store_device_def)
qed

subsection \<open>Confirming a pairing\<close>

lemma confirm_stale:
  assumes "sv_held_proposal sv = Some g" and "quoted \<noteq> pg_attempt_id g"
  shows "confirm_pairing en code (Some quoted) sv =
    (Inl (service_error_new ''stale-attempt'' ''that pairing attempt has been replaced; read the new code''), sv)"
  using assms by (simp add: confirm_pairing_def io_defs sv_read_def)

lemma confirm_mismatch:
  assumes "sv_held_proposal sv = Some g" and "attempt = None \<or> attempt = Some (pg_attempt_id g)"
    and "code \<noteq> pg_verification_code g"
  shows "confirm_pairing en code attempt sv =
    (Inl (service_error_new ''code-mismatch'' ''the confirmation code does not match the one from the handshake''),
     discard_held_proposal sv)"
  using assms by (auto simp: confirm_pairing_def io_defs sv_read_def sv_do_def ok_or_def)

lemma confirm_nothing:
  assumes "sv_held_proposal sv = None"
  shows "confirm_pairing en code attempt sv =
    (Inl (service_error_new ''no-pairing'' ''no pairing is awaiting confirmation''), discard_held_proposal sv)"
  using assms by (simp add: confirm_pairing_def io_defs sv_read_def sv_do_def ok_or_def split: option.split)

lemma insert_Inr:
  assumes "insert_device sd d s w = (Inr (), s', w')"
  shows "no_conflict d s \<and> s' = put_device d s"
proof -
  have n: "no_conflict d s" using assms insert_device_conflict [of d s sd w] by fastforce
  with insert_device_store [of sd d s w] assms show ?thesis by simp
qed

lemma store_insert_Inr:
  "store_insert en code d sv = (Inr (), sv') \<Longrightarrow>
    no_conflict d (sv_store sv) \<and> sv_store sv' = put_device d (sv_store sv) \<and> sv_host sv' = sv_host sv \<and>
    sv_subscribers sv' = sv_subscribers sv \<and> sv_held_proposal sv' = sv_held_proposal sv"
  unfolding store_insert_def io_map_err_io_iff on_store_iff by (auto dest: insert_Inr)

lemma confirm_Inr:
  assumes "confirm_pairing en code attempt sv = (Inr (), sv')"
  shows "\<exists>g now. sv_held_proposal sv = Some g \<and> pg_verification_code g = code \<and>
    (attempt = None \<or> attempt = Some (pg_attempt_id g)) \<and> sv_held_proposal sv' = None \<and>
    no_conflict (device_of_proposal now g) (sv_store sv) \<and>
    sv_store sv' = put_device (device_of_proposal now g) (sv_store sv)"
proof (cases "sv_held_proposal sv")
  case None
  then show ?thesis using assms confirm_nothing [OF None, of en code attempt] by simp
next
  case (Some g)
  note held = Some
  have a: "attempt = None \<or> attempt = Some (pg_attempt_id g)"
  proof (cases attempt)
    case (Some q)
    then show ?thesis using assms confirm_stale [OF held, of q en code] by auto
  qed simp
  moreover have c: "code = pg_verification_code g" using assms confirm_mismatch [OF held a, of code en] by (cases "code = pg_verification_code g") auto
  ultimately obtain now w where i: "install_pairing en (device_of_proposal now g) (sv\<lparr>sv_held_proposal := None, sv_host := w\<rparr>) = (Inr (), sv')"
    using assms Some by (auto simp: confirm_pairing_def io_runs sv_read_def sv_do_def discard_held_proposal_def
        sv_now_def on_host_def ok_or_def split: prod.splits)
  then obtain sv1 where "store_insert en ''pairing-rejected'' (device_of_proposal now g) (sv\<lparr>sv_held_proposal := None, sv_host := w\<rparr>) = (Inr (), sv1)"
    and "sv' = broadcast DevicesChanged (publish_known_peers en sv1)"
    by (auto simp: install_pairing_def io_runs sv_do_def)
  with store_insert_Inr [OF this(1)] Some a c show ?thesis
    by auto
qed

text \<open>Whatever the phone sent, the credential it enrolled authorizes nothing yet.\<close>

lemma confirmed_is_powerless:
  assumes s: "store_unique (sv_store sv)" and c: "confirm_pairing en code attempt sv = (Inr (), sv')"
    and g: "sv_held_proposal sv = Some g"
  shows "\<exists>d c. find_credential (pg_credential_id g) (sv_store sv') = Some (d, c) \<and> pd_device_id d = pg_device_id g \<and>
    pd_session_identity_public_key d = pg_session_identity_spki g \<and>
    pc_public_key c = pg_credential_public_key g \<and> pc_purpose c = map_purpose (pg_purpose g) \<and> pc_permissions c = []"
proof -
  from confirm_Inr [OF c] g obtain now where n: "no_conflict (device_of_proposal now g) (sv_store sv)"
    and s': "sv_store sv' = put_device (device_of_proposal now g) (sv_store sv)" by auto
  let ?d = "device_of_proposal now g"
  have "device_credential (pg_credential_id g) ?d = Some (hd (pd_credentials ?d))"
    by (simp add: device_credential_def device_of_proposal_def)
  then have m: "device_credential (pg_credential_id g) (merge_credentials ?d (sv_store sv)) = Some (hd (pd_credentials ?d))"
    by (simp add: merge_credential)
  have "pd_session_identity_public_key (merge_credentials ?d (sv_store sv)) = pd_session_identity_public_key ?d"
    by (simp add: merge_credentials_def Let_def split: option.split)
  then show ?thesis
    unfolding s' put_device_find [OF s [unfolded store_unique_def, THEN conjunct1] n] m
    by (simp add: device_of_proposal_def)
qed

lemma issue_needs_permission:
  assumes "find_credential (sp_credential_id spec) (vf_store v) = Some (d, c)" and "pc_permissions c = []"
  shows "\<exists>e. issue spec session now id_bytes challenge_bytes v = Inl e"
proof -
  have "\<not> permits [] q" for q by (simp add: permits_def)
  then have "issue spec session now id_bytes challenge_bytes v \<noteq> Inr pend" for pend
    using assms by (auto simp: issue_def then_ok_eq_Inr Let_def ok_or_def split: if_splits)
  then show ?thesis by (cases "issue spec session now id_bytes challenge_bytes v") auto
qed

subsection \<open>Editing permissions\<close>

lemma update_first_find:
  assumes "\<And>x. h (f x) = h x" and "List.find (\<lambda>x. h x = k) xs = Some x"
  shows "List.find (\<lambda>x. h x = j) (update_first (\<lambda>x. h x = k) f xs) =
    (if j = k then Some (f x) else List.find (\<lambda>x. h x = j) xs)"
  using assms by (induction xs) auto

lemma with_permissions_find:
  assumes "device_credential cred d = Some c"
  shows "device_credential cid (with_permissions cred ps n d) =
    (if cid = cred then Some (c\<lparr>pc_permissions := ps, pc_permissions_revision := n\<rparr>) else device_credential cid d)"
  using assms update_first_find [of pc_credential_id "\<lambda>c. c\<lparr>pc_permissions := ps, pc_permissions_revision := n\<rparr>"
      cred "pd_credentials d" c cid]
  by (simp add: device_credential_def with_permissions_def)

lemma with_permissions_device [simp]: "pd_device_id (with_permissions cred ps n d) = pd_device_id d"
  by (simp add: with_permissions_def)

text \<open>Storing a device with other permissions changes that credential and no other.\<close>

lemma put_permissions_find:
  assumes s: "store_unique s" and d: "store_device did s = Some d" and c: "device_credential cred d = Some c"
    and n: "no_conflict (with_permissions cred ps r d) s"
  shows "map_option snd (find_credential cid (put_device (with_permissions cred ps r d) s)) =
    (if cid = cred then Some (c\<lparr>pc_permissions := ps, pc_permissions_revision := r\<rparr>)
     else map_option snd (find_credential cid s))"
proof -
  have ok: "store_ok s" using s by (simp add: store_unique_def)
  have did: "pd_device_id d = did" "bt_get did (ps_devices s) = Some d" using d ok by (auto simp: store_device_def store_ok_def)
  let ?d = "with_permissions cred ps r d"
  have m: "device_credential cid (merge_credentials ?d s) = device_credential cid ?d"
    using did with_permissions_find [OF c, of cid ps r] by (simp add: merge_credential split: option.split)
  show ?thesis
  proof (cases "device_credential cid ?d")
    case None
    then show ?thesis unfolding put_device_find [OF ok n] m
      using with_permissions_find [OF c, of cid ps r] by (simp split: if_splits)
  next
    case (Some x)
    have "find_credential cid s = Some (d, x)" if "cid \<noteq> cred"
      using find_credential_complete [OF ok did(2)] Some that with_permissions_find [OF c, of cid ps r] by simp
    then show ?thesis unfolding put_device_find [OF ok n] m using Some with_permissions_find [OF c, of cid ps r] by auto
  qed
qed

lemma put_permissions_device:
  assumes "store_ok s" and "store_device did s = Some d" and "device_credential cred d = Some c"
  shows "\<exists>d'. store_device did (put_device (with_permissions cred ps r d) s) = Some d' \<and>
    device_credential cred d' = Some (c\<lparr>pc_permissions := ps, pc_permissions_revision := r\<rparr>)"
proof -
  have "bt_ok (ps_devices s)" "pd_device_id d = did" using assms by (auto simp: store_ok_def store_device_def)
  moreover have "device_credential cred (merge_credentials (with_permissions cred ps r d) s)
      = Some (c\<lparr>pc_permissions := ps, pc_permissions_revision := r\<rparr>)"
    by (simp add: merge_credential with_permissions_find [OF assms(3)])
  ultimately show ?thesis using btree.get_ins [of "ps_devices s"] by (auto simp: store_device_def put_device_def)
qed

lemma stored_distinct:
  assumes "store_unique s" and "store_device did s = Some d"
  shows "distinct (map pc_credential_id (pd_credentials d))" and "pd_device_id d = did"
proof -
  have "bt_ok (ps_devices s)" using assms(1) by (simp add: store_unique_def store_ok_def)
  from btree.set_vals [OF this, of d] show "distinct (map pc_credential_id (pd_credentials d))"
    using assms by (auto simp: store_unique_def store_device_def)
  show "pd_device_id d = did" using assms by (auto simp: store_unique_def store_ok_def store_device_def)
qed

lemma set_permissions_Inr:
  assumes s: "store_unique (sv_store sv)" and r: "set_permissions en did cred ps sv = (Inr (), sv')"
  shows "\<exists>d c c' d'. find_credential cred (sv_store sv) = Some (d, c) \<and> pd_device_id d = did \<and>
    c' = c\<lparr>pc_permissions := map permission_of_summary ps, pc_permissions_revision := saturating_succ (pc_permissions_revision c)\<rparr> \<and>
    validate_sync_request \<lparr>sq_verifier_name = ac_verifier_name (sv_config sv), sq_revision = 0,
      sq_permissions = map (to_wire \<circ> permission_of_summary) ps\<rparr> = Inr () \<and>
    store_device did (sv_store sv') = Some d' \<and> device_credential cred d' = Some c' \<and>
    (\<forall>cid. map_option snd (find_credential cid (sv_store sv')) =
      (if cid = cred then Some c' else map_option snd (find_credential cid (sv_store sv))))"
proof -
  from r obtain d c sv1 where d: "store_device did (sv_store sv) = Some d" and c: "device_credential cred d = Some c"
    and v: "validate_sync_request \<lparr>sq_verifier_name = ac_verifier_name (sv_config sv), sq_revision = 0,
      sq_permissions = map to_wire (map permission_of_summary ps)\<rparr> = Inr ()"
    and i: "store_insert en ''store-write-failed'' (with_permissions cred (map permission_of_summary ps)
      (saturating_succ (pc_permissions_revision c)) d) sv = (Inr (), sv1)" and sv': "sv' = broadcast DevicesChanged sv1"
    by (auto simp: set_permissions_def Let_def io_runs sv_read_def sv_do_def)
  have ok: "store_ok (sv_store sv)" using s by (simp add: store_unique_def)
  have "find_credential cred (sv_store sv) = Some (d, c)"
    using find_credential_complete [OF ok _ c, of did] d by (simp add: store_device_def)
  then show ?thesis
    using v stored_distinct(2) [OF s d] put_permissions_find [OF s d c] store_insert_Inr [OF i] put_permissions_device [OF ok d c]
    by (auto simp: sv')
qed

subsection \<open>An edit that can never be settled\<close>

text \<open>The check before an edit is made with revision zero, which takes one byte; the request that
  settles the edit carries the revision it has by then.\<close>

lemma length_enc_uint:
  "length (enc_uint 0) = 1" "23 < n \<Longrightarrow> 2 \<le> length (enc_uint n)"
  by (auto simp: enc_defs w_defs w_head_def Let_def)

lemma sync_request_grows:
  "length (encode_sync_request \<lparr>sq_verifier_name = vname, sq_revision = n, sq_permissions = ps\<rparr>) + length (enc_uint 0) =
    length (encode_sync_request \<lparr>sq_verifier_name = vname, sq_revision = 0, sq_permissions = ps\<rparr>) + length (enc_uint n)"
  by (simp add: encode_sync_request_eq)

lemma sync_refused:
  assumes "store_device did (sv_store sv) = Some d" and "device_credential cred d = Some c"
    and "validate_sync_request \<lparr>sq_verifier_name = ac_verifier_name (sv_config sv),
      sq_revision = pc_permissions_revision c, sq_permissions = map to_wire (pc_permissions c)\<rparr> = Inl e"
  shows "\<exists>e. fst (sync_permissions en did cred sv) = Inl e"
proof -
  have "fst (sync_permissions en did cred sv) \<noteq> Inr x" for x
  proof
    assume "fst (sync_permissions en did cred sv) = Inr x"
    then obtain sv' where "sync_permissions en did cred sv = (Inr x, sv')" by (metis prod.collapse)
    with assms(1,2) obtain session sv1 w r where conn: "sv_connect en did cred sv = (Inr session, sv1)"
      and "phone_sync (en_link en) (ac_verifier_name (sv_config sv1)) session (pc_permissions_revision c)
        (pc_permissions c) (sv_host sv1) = (r, w)" and r: "\<exists>y. r = Inr y"
      by (auto simp: sync_permissions_def Let_def io_runs sv_read_def recorded_def on_host_def map_err_def
          split: prod.splits sum.splits)
    moreover have "sv_config sv1 = sv_config sv"
      using conn by (auto simp: sv_connect_def io_map_err_def on_host_def split: prod.splits sum.splits)
    ultimately show False using assms(3)
      by (auto simp: phone_sync_def Let_def io_bind_def or_protocol_def io_of_def)
  qed
  then show ?thesis by (cases "fst (sync_permissions en did cred sv)") auto
qed

lemma edit_never_settles:
  assumes s: "store_unique (sv_store sv)" and r: "set_permissions en did cred ps sv = (Inr (), sv')"
    and c: "find_credential cred (sv_store sv) = Some (d, c)" and n: "23 \<le> unat (pc_permissions_revision c)"
    and len: "length (encode_sync_request \<lparr>sq_verifier_name = ac_verifier_name (sv_config sv), sq_revision = 0,
      sq_permissions = map (to_wire \<circ> permission_of_summary) ps\<rparr>) = MAX_APPLICATION_PAYLOAD_BYTES"
    and later: "sv_store sv'' = sv_store sv'" "sv_config sv'' = sv_config sv"
  shows "\<exists>e. fst (sync_permissions en did cred sv'') = Inl e"
proof -
  let ?ps = "map permission_of_summary ps" and ?n = "saturating_succ (pc_permissions_revision c)"
  let ?c = "c\<lparr>pc_permissions := ?ps, pc_permissions_revision := ?n\<rparr>"
  from set_permissions_Inr [OF s r] c obtain d' where d': "store_device did (sv_store sv') = Some d'"
    "device_credential cred d' = Some ?c" by auto
  have "23 < ?n"
  proof (cases "pc_permissions_revision c = - 1")
    case False
    then have "pc_permissions_revision c + 1 \<noteq> 0" by (simp add: eq_neg_iff_add_eq_0)
    then have "unat (pc_permissions_revision c + 1) = Suc (unat (pc_permissions_revision c))" by (metis add.commute unatSuc)
    with False n show ?thesis by (simp add: saturating_succ_def word_less_nat_alt)
  qed (simp add: saturating_succ_def)
  then have "length (encode_sync_request \<lparr>sq_verifier_name = ac_verifier_name (sv_config sv), sq_revision = ?n,
      sq_permissions = map to_wire ?ps\<rparr>) > MAX_APPLICATION_PAYLOAD_BYTES"
    using sync_request_grows [of "ac_verifier_name (sv_config sv)" ?n "map to_wire ?ps"] len
      length_enc_uint(1) length_enc_uint(2) [of ?n] by simp
  then have "validate_sync_request \<lparr>sq_verifier_name = ac_verifier_name (sv_config sv), sq_revision = ?n,
      sq_permissions = map to_wire ?ps\<rparr> \<noteq> Inr ()"
    by (auto simp: validate_sync_request_def check_size_def then_ok_eq_Inr)
  then obtain e where "validate_sync_request \<lparr>sq_verifier_name = ac_verifier_name (sv_config sv), sq_revision = ?n,
      sq_permissions = map to_wire ?ps\<rparr> = Inl e"
    by (metis old.sum.exhaust old.unit.exhaust)
  with sync_refused [of did sv'' d' cred ?c e] d' later show ?thesis by simp
qed

end
