(* ===== verification/Service_Authorize.thy ===== *)
theory Service_Authorize
  imports Service_Pairing
begin

text \<open>
  One authorization as the service runs it (\<open>authorize\<close> and \<open>exchange\<close> of
  \<open>phone-auth-agent/src/service.rs\<close>): a credential is chosen, a session opened, a request issued
  and sent, the answer checked by the verifier, and the outcome written to the audit log and
  told to every subscriber.
\<close>

definition saturating_sub_i64 :: "int \<Rightarrow> int \<Rightarrow> int" where
  "saturating_sub_i64 a b = max (- (2 ^ 63)) (min (2 ^ 63 - 1) (a - b))"

definition transport_failed :: "('key, 'sig, 'secret, 'w) surroundings \<Rightarrow> io_error \<Rightarrow> service_error" where
  "transport_failed en e = service_error_new ''transport-failed'' (pk_io_text (en_link en) e)"

text \<open>The answer and the moment it is looked at.\<close>

definition exchange_answer ::
    "('key, 'sig, 'secret, 'w) surroundings \<Rightarrow> secure_session \<Rightarrow> pending_authorization \<Rightarrow> ('w, bytes \<times> int) service_io" where
  "exchange_answer en session pending =
    io_bind (io_map_err (transport_failed en) (on_host (pk_send (en_link en) session (pending_frame pending)))) (\<lambda>_.
    io_bind (sv_now en) (\<lambda>now.
    let remaining = max 0 (saturating_sub_i64 (expires_at_ms (pa_request pending)) now) in
    io_bind (io_map_err (transport_failed en)
      (on_host (pk_receive (en_link en) session (remaining + ANSWER_TRAVEL_MARGIN)))) (\<lambda>response.
    io_bind (sv_now en) (\<lambda>now. io_return (response, now)))))"

definition exchange ::
    "('key, 'sig, 'secret, 'w) surroundings \<Rightarrow> secure_session \<Rightarrow> pending_authorization \<Rightarrow> ('w, grant) service_io" where
  "exchange en session pending =
    io_bind (exchange_answer en session pending) (\<lambda>(response, now) sv.
      case accept (cr_p256 (en_crypto en)) pending response session now (sv_verifier sv) of
        (r, v) \<Rightarrow> (map_err authorization_service_error r, sv\<lparr>sv_verifier := v\<rparr>))"

record authorize_result =
  ar_granted :: bool
  ar_request_id :: string
  ar_device_name :: string
  ar_origin :: string
  ar_development :: bool

definition started_event :: "pending_authorization \<Rightarrow> string \<Rightarrow> bool \<Rightarrow> event" where
  "started_event pending device_name development =
    (let q = pa_request pending in
     RequestStarted \<lparr>rq_request_id = request_id q, rq_service = service q, rq_action = action q,
       rq_resource = resource q, rq_user = user q, rq_device_name = device_name, rq_origin = pa_origin pending,
       rq_expires_at_ms = expires_at_ms q, rq_development = development\<rparr>)"

definition refused_entry :: "int \<Rightarrow> auth_request \<Rightarrow> string \<Rightarrow> bool \<Rightarrow> service_error \<Rightarrow> audit_entry" where
  "refused_entry at q device_name development e =
    \<lparr>au_at_ms = at, au_outcome = (if sx_code e = ''declined'' then Audit_Log.Denied else Audit_Log.Failed),
     au_request_id = request_id q, au_service = service q, au_action = action q, au_resource = resource q,
     au_user = user q, au_device_name = device_name, au_origin = [], au_detail = Some (sx_message e),
     au_development = development\<rparr>"

text \<open>The two arms of the last \<open>match\<close>.\<close>

definition conclude_granted ::
    "('key, 'sig, 'secret, 'w) surroundings \<Rightarrow> string \<Rightarrow> bool \<Rightarrow> grant \<Rightarrow> ('w, authorize_result) service_io" where
  "conclude_granted en device_name development g =
    io_bind (sv_do (sv_append en (audit_granted g development))) (\<lambda>_.
    io_bind (sv_do (broadcast (RequestFinished (gr_request_id g) True None))) (\<lambda>_.
    io_return \<lparr>ar_granted = True, ar_request_id = gr_request_id g, ar_device_name = device_name,
      ar_origin = gr_origin g, ar_development = development\<rparr>))"

definition conclude_refused ::
    "('key, 'sig, 'secret, 'w) surroundings \<Rightarrow> string \<Rightarrow> bool \<Rightarrow> auth_request \<Rightarrow> service_error \<Rightarrow>
     ('w, authorize_result) service_io" where
  "conclude_refused en device_name development q e =
    io_bind (sv_now en) (\<lambda>at.
    io_bind (sv_do (sv_append en (refused_entry at q device_name development e))) (\<lambda>_.
    io_bind (sv_do (broadcast (RequestFinished (request_id q) False (Some (sx_message e))))) (\<lambda>_.
    io_fail e)))"

definition ask_phone ::
    "('key, 'sig, 'secret, 'w) surroundings \<Rightarrow> string \<Rightarrow> secure_session \<Rightarrow> pending_authorization \<Rightarrow>
     ('w, authorize_result) service_io" where
  "ask_phone en device_name session pending =
    (let development = ts_is_development (se_security session) in
     io_bind (sv_do (broadcast (started_event pending device_name development))) (\<lambda>_.
     io_bind (\<lambda>sv. case exchange en session pending sv of (r, sv) \<Rightarrow> (Inr r, sv_close en session sv)) (\<lambda>outcome.
     case outcome of
       Inr g \<Rightarrow> conclude_granted en device_name development g
     | Inl e \<Rightarrow> conclude_refused en device_name development (pa_request pending) e)))"

text \<open>The random bytes of the request are drawn before the checks of \<open>issue\<close>, not among them.\<close>

definition issue_request ::
    "('key, 'sig, 'secret, 'w) surroundings \<Rightarrow> authorize_params \<Rightarrow> string \<Rightarrow> secure_session \<Rightarrow>
     ('w, pending_authorization) service_io" where
  "issue_request en params cred session =
    io_bind (sv_read (\<lambda>sv. ac_request_validity_ms (sv_config sv))) (\<lambda>validity.
    let spec = with_validity_ms validity
          (request_spec_new cred (az_service params) (az_action params) (az_resource params) (az_user params)) in
    io_bind (sv_now en) (\<lambda>now.
    io_bind (sv_random en 16) (\<lambda>id_bytes.
    io_bind (sv_random en 32) (\<lambda>challenge_bytes.
    io_bind (sv_read (\<lambda>sv. issue spec session now id_bytes challenge_bytes (sv_verifier sv))) (\<lambda>issued.
    io_of (map_err authorization_service_error issued))))))"

definition authorize ::
    "('key, 'sig, 'secret, 'w) surroundings \<Rightarrow> authorize_params \<Rightarrow> ('w, authorize_result) service_io" where
  "authorize en params =
    io_bind (sv_read (\<lambda>sv. select_credential (sv_store sv) params)) (\<lambda>selected.
    io_bind (io_of selected) (\<lambda>(device_id, cred).
    io_bind (sv_connect en device_id cred) (\<lambda>session.
    io_bind (issue_request en params cred session) (\<lambda>pending.
    io_bind (sv_read (device_name_of device_id)) (\<lambda>device_name.
    ask_phone en device_name session pending)))))"

subsection \<open>What the service is told and what it keeps\<close>

text \<open>The parts of the state a phone or a clock cannot change.\<close>

definition same_service :: "'w service \<Rightarrow> 'w service \<Rightarrow> bool" where
  "same_service sv sv' \<longleftrightarrow> (\<exists>w. sv' = sv\<lparr>sv_host := w\<rparr>)"

lemma same_service_refl [simp]: "same_service sv sv" "same_service sv (sv\<lparr>sv_host := w\<rparr>)" "same_service sv (host_do f sv)"
  by (auto simp: same_service_def host_do_def intro: exI [of _ "sv_host sv"])

lemma same_service_trans: "same_service a b \<Longrightarrow> same_service b c \<Longrightarrow> same_service a c"
  by (auto simp: same_service_def)

lemma same_serviceD:
  assumes "same_service sv sv'"
  shows "sv_verifier sv' = sv_verifier sv" "sv_config sv' = sv_config sv" "sv_subscribers sv' = sv_subscribers sv"
    "sv_files sv' = sv_files sv" "sv_audit sv' = sv_audit sv" "sv_held_proposal sv' = sv_held_proposal sv"
    "sv_store sv' = sv_store sv"
  using assms by (auto simp: same_service_def)

definition calm :: "('w service, 'e, 'a) io_on \<Rightarrow> bool" where
  "calm m \<longleftrightarrow> (\<forall>sv. same_service sv (snd (m sv)))"

named_theorems calm_rules "computations that change nothing of the service but its surroundings"

lemma calmD: "calm m \<Longrightarrow> m sv = (r, sv') \<Longrightarrow> same_service sv sv'"
  unfolding calm_def by (metis snd_conv)

lemma calm_bind [calm_rules]:
  assumes "calm m" and "\<And>x. calm (k x)"
  shows "calm (io_bind m k)"
  unfolding calm_def
proof
  fix sv
  obtain r sv1 where m: "m sv = (r, sv1)" by fastforce
  then have a: "same_service sv sv1" using assms(1) calmD by blast
  show "same_service sv (snd (io_bind m k sv))"
  proof (cases r)
    case (Inr x)
    with assms(2) have "same_service sv1 (snd (k x sv1))" by (simp add: calm_def)
    with a m Inr show ?thesis by (simp add: io_bind_def same_service_trans)
  qed (use m a in \<open>simp add: io_bind_def\<close>)
qed

lemma calm_steps [calm_rules]:
  "calm (on_host m)" "calm (io_map_err f (on_host n))" "calm (io_return x)" "calm (io_fail e)" "calm (io_of r)"
  "calm (sv_now en)" "calm (sv_random en i)" "calm (sv_read g)" "calm (sv_connect en did cred)"
  by (simp_all add: calm_def on_host_def io_defs sv_now_def sv_random_def sv_read_def sv_connect_def
      split: prod.split sum.split)

lemma draws_never_fail [simp]: "sv_now en sv \<noteq> (Inl e, sv')" "sv_random en n sv \<noteq> (Inl e, sv')" "sv_read g sv \<noteq> (Inl e, sv')"
  by (simp_all add: sv_now_def sv_random_def sv_read_def on_host_def io_get_def split: prod.split)

lemma calm_answer: "calm (exchange_answer en session pending)"
  unfolding exchange_answer_def Let_def by (intro calm_rules)

lemma calm_issue: "calm (issue_request en params cred session)"
  unfolding issue_request_def Let_def by (intro calm_rules)

lemma io_bind_cases:
  assumes "io_bind m k w = (r, w')"
  obtains (stop) e where "m w = (Inl e, w')" and "r = Inl e"
  | (on) x w1 where "m w = (Inr x, w1)" and "k x w1 = (r, w')"
  using assms by (auto simp: io_bind_def split: prod.splits sum.splits)

text \<open>An exchange reaches the verifier once at most, and touches nothing else.\<close>

lemma exchange_cases:
  assumes "exchange en session pending sv = (r, sv')"
  obtains (unanswered) e where "r = Inl e" and "same_service sv sv'"
  | (judged) frame now a v sv1 where "same_service sv sv1"
      and "accept (cr_p256 (en_crypto en)) pending frame session now (sv_verifier sv) = (a, v)"
      and "r = map_err authorization_service_error a" and "sv' = sv1\<lparr>sv_verifier := v\<rparr>"
proof -
  from assms show thesis unfolding exchange_def
  proof (cases rule: io_bind_cases)
    case (stop e)
    with calmD [OF calm_answer] unanswered show thesis by blast
  next
    case (on x sv1)
    obtain frame now where x: "x = (frame, now)" by fastforce
    have s: "same_service sv sv1" using calmD [OF calm_answer on(1)] .
    obtain a v where a: "accept (cr_p256 (en_crypto en)) pending frame session now (sv_verifier sv1) = (a, v)" by fastforce
    with on(2) x have "r = map_err authorization_service_error a" "sv' = sv1\<lparr>sv_verifier := v\<rparr>" by simp_all
    with s a judged same_serviceD(1) [OF s] show thesis by metis
  qed
qed

text \<open>What a subscriber that is still there has been told.\<close>

definition told :: "event list \<Rightarrow> (u64 \<times> event_channel) list \<Rightarrow> (u64 \<times> event_channel) list" where
  "told es subs = map (\<lambda>(i, c). (i, c\<lparr>ec_events := ec_events c @ es\<rparr>)) (filter (\<lambda>(_, c). \<not> ec_hung_up c) subs)"

lemma told_broadcast: "sv_subscribers (broadcast e sv) = told [e] (sv_subscribers sv)"
  by (simp add: broadcast_def told_def)

lemma told_told [simp]: "told es (told fs subs) = told (fs @ es) subs"
  by (induction subs) (auto simp: told_def)

lemma told_simps [simp]:
  "sv_subscribers (sv_append en entry sv) = sv_subscribers sv" "sv_subscribers (sv_close en session sv) = sv_subscribers sv"
  "sv_files (broadcast e sv) = sv_files sv" "sv_files (sv_close en session sv) = sv_files sv"
  "sv_audit (broadcast e sv) = sv_audit sv" "sv_audit (sv_close en session sv) = sv_audit sv"
  "sv_audit (sv_append en entry sv) = sv_audit sv"
  "sv_files (sv_append en entry sv) = snd (audit_append (en_audit_json en) (sv_audit sv) entry (sv_files sv))"
  "sv_host (sv_append en entry sv) = sv_host sv"
  by (simp_all add: sv_append_def sv_close_def host_do_def broadcast_def)

lemma same_service_told:
  assumes "same_service sv sv'"
  shows "sv_subscribers sv' = sv_subscribers sv" "sv_files sv' = sv_files sv" "sv_audit sv' = sv_audit sv"
    "sv_verifier sv' = sv_verifier sv"
  using same_serviceD [OF assms] by simp_all

lemma exchange_told:
  assumes "exchange en session pending sv = (r, sv')"
  shows "sv_subscribers sv' = sv_subscribers sv \<and> sv_files sv' = sv_files sv \<and> sv_audit sv' = sv_audit sv"
  using assms
proof (cases rule: exchange_cases)
  case (unanswered e)
  then show ?thesis by (simp add: same_service_told)
next
  case (judged frame now a v sv1)
  then show ?thesis by (simp add: same_service_told)
qed

text \<open>The outcome of a question that was put to a phone, as it is written down.\<close>

definition audit_outcome :: "service_error + 'a \<Rightarrow> outcome" where
  "audit_outcome r = (case r of Inr _ \<Rightarrow> Audit_Log.Granted
     | Inl e \<Rightarrow> if sx_code e = ''declined'' then Audit_Log.Denied else Audit_Log.Failed)"

definition finished_event :: "auth_request \<Rightarrow> service_error + 'a \<Rightarrow> event" where
  "finished_event q r = RequestFinished (request_id q) (\<not> isl r) (case r of Inl e \<Rightarrow> Some (sx_message e) | Inr _ \<Rightarrow> None)"

definition entry_for :: "auth_request \<Rightarrow> outcome \<Rightarrow> bool \<Rightarrow> audit_entry \<Rightarrow> bool" where
  "entry_for q result development entry \<longleftrightarrow> au_outcome entry = result \<and> au_request_id entry = request_id q \<and>
    au_service entry = service q \<and> au_action entry = action q \<and> au_resource entry = resource q \<and>
    au_user entry = user q \<and> au_development entry = development"

definition audited ::
    "('key, 'sig, 'secret, 'w) surroundings \<Rightarrow> audit_entry \<Rightarrow> 'w service \<Rightarrow> 'w service \<Rightarrow> bool" where
  "audited en entry sv sv' \<longleftrightarrow>
    sv_files sv' = snd (audit_append (en_audit_json en) (sv_audit sv) entry (sv_files sv))"

lemma ask_phone_outcome:
  assumes "ask_phone en device_name session pending sv = (r, sv')"
  shows "(\<exists>entry. entry_for (pa_request pending) (audit_outcome r) (ts_is_development (se_security session)) entry \<and>
      audited en entry sv sv') \<and>
    sv_subscribers sv' = told [started_event pending device_name (ts_is_development (se_security session)),
      finished_event (pa_request pending) r] (sv_subscribers sv) \<and>
    (\<forall>result. r = Inr result \<longrightarrow> (\<exists>frame now g.
      accept (cr_p256 (en_crypto en)) pending frame session now (sv_verifier sv) = (Inr g, sv_verifier sv') \<and>
      result = \<lparr>ar_granted = True, ar_request_id = request_id (pa_request pending), ar_device_name = device_name,
        ar_origin = pa_origin pending, ar_development = ts_is_development (se_security session)\<rparr>))"
proof -
  let ?dev = "ts_is_development (se_security session)" and ?q = "pa_request pending"
  let ?sv = "broadcast (started_event pending device_name ?dev) sv"
  obtain outcome sv1 where x: "exchange en session pending ?sv = (outcome, sv1)" by fastforce
  have c: "(case outcome of Inr g \<Rightarrow> conclude_granted en device_name ?dev g
      | Inl e \<Rightarrow> conclude_refused en device_name ?dev ?q e) (sv_close en session sv1) = (r, sv')"
    using assms x unfolding ask_phone_def Let_def by (simp add: io_bind_def sv_do_def split: sum.splits)
  show ?thesis
  proof (cases outcome)
    case (Inl e)
    let ?sv2 = "sv_close en session sv1"
    have s: "sv_subscribers ?sv2 = told [started_event pending device_name ?dev] (sv_subscribers sv)"
      "sv_files ?sv2 = sv_files sv" "sv_audit ?sv2 = sv_audit sv"
      using exchange_told [OF x] by (simp_all add: told_broadcast)
    have r: "conclude_refused en device_name ?dev ?q e ?sv2 = (r, sv')" using c Inl by simp
    from r obtain at sv3 where "same_service ?sv2 sv3" and "r = Inl e"
      and "sv' = broadcast (RequestFinished (request_id ?q) False (Some (sx_message e)))
        (sv_append en (refused_entry at ?q device_name ?dev e) sv3)"
      unfolding conclude_refused_def
      by (elim io_bind_cases) (auto simp: sv_do_def io_fail_def dest: calmD [OF calm_steps(6)])
    with s same_service_told [OF this(1)] show ?thesis
      by (intro conjI exI [of _ "refused_entry at ?q device_name ?dev e"]) (auto simp: told_broadcast finished_event_def audited_def entry_for_def audit_outcome_def refused_entry_def)
  next
    case (Inr g)
    from x [unfolded Inr] obtain frame now v sv2 where same: "same_service ?sv sv2"
      and a: "accept (cr_p256 (en_crypto en)) pending frame session now (sv_verifier sv) = (Inr g, v)"
      and sv1: "sv1 = sv2\<lparr>sv_verifier := v\<rparr>"
      by (elim exchange_cases) (auto simp: map_err_def split: sum.splits)
    have g: "\<exists>d. g = grant_for ?q d (pa_origin pending) now"
      using a accept_grant_iff [of "cr_p256 (en_crypto en)" pending frame session now "sv_verifier sv" g] by auto
    have r: "r = Inr \<lparr>ar_granted = True, ar_request_id = gr_request_id g, ar_device_name = device_name,
        ar_origin = gr_origin g, ar_development = ?dev\<rparr>"
      and sv': "sv' = broadcast (RequestFinished (gr_request_id g) True None)
        (sv_append en (audit_granted g ?dev) (sv_close en session sv1))"
      using c Inr by (auto simp: conclude_granted_def io_bind_def sv_do_def io_return_def)
    have "sv_verifier sv' = v" by (simp add: sv' sv1)
    then show ?thesis using g a same_service_told [OF same]
      by (intro conjI exI [of _ "audit_granted g ?dev"]) (auto simp: r sv' sv1 told_broadcast finished_event_def audited_def entry_for_def audit_outcome_def
          audit_granted_def grant_for_def)
  qed
qed

text \<open>An authorization in two halves: what comes before the question, and the question.\<close>

lemma authorize_cases:
  assumes "authorize en params sv = (r, sv')"
  obtains (unasked) e where "r = Inl e" and "same_service sv sv'"
  | (asked) did cred session now id_bytes challenge_bytes pending sv1 where
      "select_credential (sv_store sv) params = Inr (did, cred)" and "same_service sv sv1"
      and "issue (with_validity_ms (ac_request_validity_ms (sv_config sv))
          (request_spec_new cred (az_service params) (az_action params) (az_resource params) (az_user params)))
        session now id_bytes challenge_bytes (sv_verifier sv) = Inr pending"
      and "ask_phone en (device_name_of did sv) session pending sv1 = (r, sv')"
proof -
  from assms show thesis unfolding authorize_def
  proof (cases rule: io_bind_cases)
    case (on sel sv0)
    then have sel: "sel = select_credential (sv_store sv) params" "sv0 = sv" by (auto simp: sv_read_def)
    show thesis
    proof (cases sel)
      case (Inl e)
      with on(2) have "r = Inl e" "sv' = sv0" by (simp_all add: io_bind_def io_of_def)
      with sel(2) have "r = Inl e" "sv' = sv" by simp_all
      then show thesis using unasked by simp
    next
      case (Inr dc)
      obtain did cred where dc: "dc = (did, cred)" by fastforce
      from on(2) [unfolded Inr dc sel(2)] have "io_bind (sv_connect en did cred) (\<lambda>session.
          io_bind (issue_request en params cred session) (\<lambda>pending.
          io_bind (sv_read (device_name_of did)) (\<lambda>device_name. ask_phone en device_name session pending))) sv = (r, sv')"
        by (simp add: io_bind_def io_of_def)
      then show thesis
      proof (cases rule: io_bind_cases)
        case (stop e)
        then show thesis using unasked calmD [OF calm_steps(9)] by blast
      next
        case on1: (on session sv1)
        have s1: "same_service sv sv1" using calmD [OF calm_steps(9) on1(1)] .
        from on1(2) show thesis
        proof (cases rule: io_bind_cases)
          case (stop e)
          then show thesis using unasked same_service_trans [OF s1 calmD [OF calm_issue]] by blast
        next
          case on2: (on pending sv2)
          have s2: "same_service sv sv2" using same_service_trans [OF s1 calmD [OF calm_issue on2(1)]] .
          from on2(2) have ask: "ask_phone en (device_name_of did sv2) session pending sv2 = (r, sv')"
            by (simp add: io_bind_def sv_read_def)
          have n: "device_name_of did sv2 = device_name_of did sv" using same_serviceD(7) [OF s2] by (simp add: device_name_of_def)
          from on2(1) obtain now id_bytes challenge_bytes where
            i: "issue (with_validity_ms (ac_request_validity_ms (sv_config sv1))
              (request_spec_new cred (az_service params) (az_action params) (az_resource params) (az_user params)))
              session now id_bytes challenge_bytes (sv_verifier sv2) = Inr pending"
            unfolding issue_request_def Let_def by (auto simp: io_runs sv_read_def)
          have "sv_config sv1 = sv_config sv" "sv_verifier sv2 = sv_verifier sv"
            using same_serviceD(1,2) [OF s1] same_serviceD(1) [OF s2] by simp_all
          with i sel Inr dc have *: "select_credential (sv_store sv) params = Inr (did, cred)"
            "issue (with_validity_ms (ac_request_validity_ms (sv_config sv))
              (request_spec_new cred (az_service params) (az_action params) (az_resource params) (az_user params)))
              session now id_bytes challenge_bytes (sv_verifier sv) = Inr pending" by simp_all
          from ask n have "ask_phone en (device_name_of did sv) session pending sv2 = (r, sv')" by simp
          from asked [OF *(1) s2 *(2) this] show thesis .
        qed
      qed
    qed
  qed simp
qed


lemma issued_fields:
  assumes "issue (with_validity_ms n (request_spec_new cred svc act res usr)) session now ib cb v = Inr pending"
  shows "credential_id (pa_request pending) = cred \<and> service (pa_request pending) = svc \<and>
    action (pa_request pending) = act \<and> resource (pa_request pending) = res \<and> user (pa_request pending) = usr \<and>
    pa_origin pending = se_origin_label session"
  using assms by (auto simp: issue_iff issued_request_def with_validity_ms_def request_spec_new_def)

text \<open>What an authorization that ends well has done on the host, call by call.\<close>

lemma on_host_iff: "on_host m sv = (Inr x, sv') \<longleftrightarrow> (\<exists>w. m (sv_host sv) = (Inr x, w) \<and> sv' = sv\<lparr>sv_host := w\<rparr>)"
  by (auto simp: on_host_def split: prod.splits)

lemma exchange_answer_Inr:
  assumes "exchange_answer en session pending sv = (Inr (frame, now), sv')"
  shows "\<exists>w1 n w2 timeout w3. pk_send (en_link en) session (pending_frame pending) (sv_host sv) = (Inr (), w1) \<and>
    pk_now (en_link en) w1 = (n, w2) \<and> pk_receive (en_link en) session timeout w2 = (Inr frame, w3) \<and>
    pk_now (en_link en) w3 = (now, sv_host sv')"
proof -
  from assms obtain w1 n w2 timeout w3 w4 where "pk_send (en_link en) session (pending_frame pending) (sv_host sv) = (Inr (), w1)"
    "pk_now (en_link en) w1 = (n, w2)" "pk_receive (en_link en) session timeout w2 = (Inr frame, w3)"
    "pk_now (en_link en) w3 = (now, w4)" "sv_host sv' = w4"
    unfolding exchange_answer_def sv_now_def Let_def by (auto simp: io_runs on_host_iff)
  then show ?thesis by blast
qed

lemma issue_request_Inr:
  assumes "issue_request en params cred session sv = (Inr pending, sv')"
  shows "\<exists>issued w1 id w2 challenge. pk_now (en_link en) (sv_host sv) = (issued, w1) \<and>
    pk_random (en_link en) 16 w1 = (id, w2) \<and> pk_random (en_link en) 32 w2 = (challenge, sv_host sv') \<and>
    issue (with_validity_ms (ac_request_validity_ms (sv_config sv))
        (request_spec_new cred (az_service params) (az_action params) (az_resource params) (az_user params)))
      session issued id challenge (sv_verifier sv) = Inr pending \<and> sv' = sv\<lparr>sv_host := sv_host sv'\<rparr>"
  using assms unfolding issue_request_def sv_now_def sv_random_def sv_read_def Let_def
  by (auto simp: io_runs on_host_iff map_err_iff)

lemma exchange_Inr:
  assumes "exchange en session pending sv = (Inr g, sv')"
  shows "\<exists>frame now sv1. exchange_answer en session pending sv = (Inr (frame, now), sv1) \<and>
    fst (accept (cr_p256 (en_crypto en)) pending frame session now (sv_verifier sv)) = Inr g"
proof -
  from assms obtain frame now sv1 where x: "exchange_answer en session pending sv = (Inr (frame, now), sv1)"
    and a: "(case accept (cr_p256 (en_crypto en)) pending frame session now (sv_verifier sv1) of
      (r, v) \<Rightarrow> (map_err authorization_service_error r, sv1\<lparr>sv_verifier := v\<rparr>)) = (Inr g, sv')"
    unfolding exchange_def by (auto simp: io_bind_iff)
  have "sv_verifier sv1 = sv_verifier sv" using same_serviceD(1) [OF calmD [OF calm_answer x]] .
  with x a show ?thesis by (auto simp: map_err_iff split: prod.splits)
qed

lemma ask_phone_Inr:
  assumes "ask_phone en device_name session pending sv = (Inr result, sv')"
  shows "\<exists>g sv1 sv2. exchange en session pending sv1 = (Inr g, sv2) \<and> sv_host sv1 = sv_host sv \<and> sv_verifier sv1 = sv_verifier sv \<and>
    ar_request_id result = gr_request_id g \<and> ar_device_name result = device_name"
proof -
  let ?sv = "broadcast (started_event pending device_name (ts_is_development (se_security session))) sv"
  obtain outcome sv2 where x: "exchange en session pending ?sv = (outcome, sv2)" by fastforce
  with assms obtain g where "outcome = Inr g" "ar_request_id result = gr_request_id g" "ar_device_name result = device_name"
    unfolding ask_phone_def Let_def
    by (auto simp: io_bind_iff sv_do_def conclude_granted_def conclude_refused_def io_runs split: sum.splits)
  with x show ?thesis by (intro exI [of _ g] exI [of _ ?sv] exI [of _ sv2]) (simp add: broadcast_def)
qed

text \<open>A yes the service reports is a yes the phone signed, for this very request.\<close>

lemma authorize_yes:
  assumes "authorize en params sv = (Inr result, sv')"
  shows "\<exists>did cred session w1 issued w2 id w3 challenge w4 q w5 n w6 timeout frame w7 now w8 response d c.
    select_credential (sv_store sv) params = Inr (did, cred) \<and>
    registry_connect (en_transports en) did cred (sv_host sv) = (Inr session, w1) \<and>
    suitable_for_authorization (se_security session) \<and>
    pk_now (en_link en) w1 = (issued, w2) \<and> pk_random (en_link en) 16 w2 = (id, w3) \<and> pk_random (en_link en) 32 w3 = (challenge, w4) \<and>
    credential_id q = cred \<and> service q = az_service params \<and> action q = az_action params \<and>
    resource q = az_resource params \<and> user q = az_user params \<and> request_id q = random_request_id id \<and>
    auth_request.challenge q = challenge \<and> issued_at_ms q = issued \<and> session_binding q = se_session_binding session \<and>
    pk_send (en_link en) session (encode_request q) w4 = (Inr (), w5) \<and> pk_now (en_link en) w5 = (n, w6) \<and>
    pk_receive (en_link en) session timeout w6 = (Inr frame, w7) \<and> pk_now (en_link en) w7 = (now, w8) \<and>
    decode_response frame = Inr response \<and> rs_decision response = Authorized \<and> answers response q \<and>
    now < expires_at_ms q \<and> request_id q \<notin> rg_seen (vf_replay (sv_verifier sv)) \<and>
    find_credential cred (sv_store sv) = Some (d, c) \<and> pc_purpose c = purpose_for_service (az_service params) \<and>
    permits (pc_permissions c) q \<and>
    signed_by (cr_p256 (en_crypto en)) (pc_public_key c) (encode_request q) (rs_signature response) \<and>
    ar_request_id result = request_id q \<and> ar_device_name result = device_name_of did sv"
proof -
  from assms obtain did cred sv1 session sv2 pending sv3 where
    sel: "select_credential (sv_store sv) params = Inr (did, cred)"
    and conn: "sv_connect en did cred sv = (Inr session, sv1)"
    and iss: "issue_request en params cred session sv1 = (Inr pending, sv2)"
    and ask: "ask_phone en (device_name_of did sv2) session pending sv2 = (Inr result, sv')"
    unfolding authorize_def sv_read_def by (auto simp: io_runs)
  let ?q = "pa_request pending"
  from conn obtain w1 where w1: "registry_connect (en_transports en) did cred (sv_host sv) = (Inr session, w1)" "sv1 = sv\<lparr>sv_host := w1\<rparr>"
    by (auto simp: sv_connect_def io_runs on_host_iff)
  from issue_request_Inr [OF iss] obtain issued w2 id w3 challenge where
    i: "pk_now (en_link en) w1 = (issued, w2)" "pk_random (en_link en) 16 w2 = (id, w3)"
      "pk_random (en_link en) 32 w3 = (challenge, sv_host sv2)"
      "issue (with_validity_ms (ac_request_validity_ms (sv_config sv))
          (request_spec_new cred (az_service params) (az_action params) (az_resource params) (az_user params)))
        session issued id challenge (sv_verifier sv) = Inr pending" "sv2 = sv1\<lparr>sv_host := sv_host sv2\<rparr>"
    unfolding w1(2) by auto
  from i(5) obtain h where h: "sv2 = sv\<lparr>sv_host := h\<rparr>" unfolding w1(2) by simp
  have same: "sv_verifier sv2 = sv_verifier sv" "device_name_of did sv2 = device_name_of did sv"
    using h by (simp_all add: device_name_of_def sv_store_def)
  from ask_phone_Inr [OF ask] obtain g sv4 sv5 where
    x: "exchange en session pending sv4 = (Inr g, sv5)" "sv_host sv4 = sv_host sv2" "sv_verifier sv4 = sv_verifier sv"
    and r: "ar_request_id result = gr_request_id g" "ar_device_name result = device_name_of did sv"
    by (auto simp: same)
  from exchange_Inr [OF x(1)] obtain frame now sv6 where
    a: "exchange_answer en session pending sv4 = (Inr (frame, now), sv6)"
      "fst (accept (cr_p256 (en_crypto en)) pending frame session now (sv_verifier sv)) = Inr g" by (auto simp: x(3))
  from exchange_answer_Inr [OF a(1)] obtain w5 n w6 timeout w7 where
    e: "pk_send (en_link en) session (encode_request ?q) (sv_host sv2) = (Inr (), w5)" "pk_now (en_link en) w5 = (n, w6)"
      "pk_receive (en_link en) session timeout w6 = (Inr frame, w7)" "pk_now (en_link en) w7 = (now, sv_host sv6)"
    by (auto simp: x(2) pending_frame_def)
  have f: "credential_id ?q = cred" "service ?q = az_service params" "action ?q = az_action params"
    "resource ?q = az_resource params" "user ?q = az_user params" "request_id ?q = random_request_id id"
    "auth_request.challenge ?q = challenge" "issued_at_ms ?q = issued" "session_binding ?q = se_session_binding session"
    using i(4) by (auto simp: issue_iff issued_request_def with_validity_ms_def request_spec_new_def)
  from a(2) f(1) obtain resp d c where
    resp: "decode_response frame = Inr resp" "answers resp ?q" "request_id ?q \<notin> rg_seen (vf_replay (sv_verifier sv))"
    "now < expires_at_ms ?q" "rs_decision resp = Authorized" "permits (pc_permissions c) ?q"
    "signed_by (cr_p256 (en_crypto en)) (pc_public_key c) (encode_request ?q) (rs_signature resp)"
    "suitable_for_authorization (se_security session)" "gr_request_id g = request_id ?q" and
    c: "find_credential cred (sv_store sv) = Some (d, c)"
    unfolding accept_grant_iff by (auto simp: sv_store_def grant_for_def)
  from i(4) c have p: "pc_purpose c = purpose_for_service (az_service params)"
    by (auto simp: issue_iff with_validity_ms_def request_spec_new_def sv_store_def)
  show ?thesis
    by (rule exI [of _ did], rule exI [of _ cred], rule exI [of _ session], rule exI [of _ w1], rule exI [of _ issued], rule exI [of _ w2], rule exI [of _ id], rule exI [of _ w3], rule exI [of _ challenge], rule exI [of _ "sv_host sv2"], rule exI [of _ ?q],
      rule exI [of _ w5], rule exI [of _ n], rule exI [of _ w6], rule exI [of _ timeout], rule exI [of _ frame], rule exI [of _ w7], rule exI [of _ now], rule exI [of _ "sv_host sv6"], rule exI [of _ resp], rule exI [of _ d], rule exI [of _ c],
      intro conjI sel w1(1) i(1-3) e f resp(1-8) c p r(2) r(1) [unfolded resp(9)])
qed

text \<open>And whatever the outcome of a question that was put, it is said once and written once.\<close>

lemma authorize_told:
  assumes "authorize en params sv = (r, sv')"
  shows "same_service sv sv' \<and> isl r \<or>
    (\<exists>pending device_name development entry.
      sv_subscribers sv' = told [started_event pending device_name development, finished_event (pa_request pending) r]
        (sv_subscribers sv) \<and>
      entry_for (pa_request pending) (audit_outcome r) development entry \<and> audited en entry sv sv')"
  using assms
proof (cases rule: authorize_cases)
  case (unasked e)
  then show ?thesis by simp
next
  case (asked did cred session now0 ib cb pending sv1)
  let ?dev = "ts_is_development (se_security session)"
  from ask_phone_outcome [OF asked(4)] obtain entry where
    "entry_for (pa_request pending) (audit_outcome r) ?dev entry" and "audited en entry sv sv'" and
    "sv_subscribers sv' = told [started_event pending (device_name_of did sv) ?dev, finished_event (pa_request pending) r]
      (sv_subscribers sv)"
    by (auto simp: audited_def same_service_told [OF asked(2)])
  then show ?thesis by blast
qed

lemma accept_keeps:
  assumes "accept p pending frame session now v = (r, v')"
  shows "vf_store v' = vf_store v" "replay_ok (vf_replay v) \<Longrightarrow> replay_ok (vf_replay v')"
  using assms by (auto simp: accept_eq replay_ok_consume split: sum.splits)

lemma unique_exchange:
  fixes en :: "('key, 'sig, 'secret, 'w) surroundings"
  shows "verifier_keeps verifier_unique (exchange en session pending)"
  unfolding verifier_keeps_def
proof (intro allI impI)
  fix sv :: "'w service" assume u: "verifier_unique (sv_verifier sv)"
  obtain r sv' where x: "exchange en session pending sv = (r, sv')" by fastforce
  from x show "verifier_unique (sv_verifier (snd (exchange en session pending sv)))"
  proof (cases rule: exchange_cases)
    case (judged frame now a v sv1)
    with u accept_keeps [OF judged(2)] x show ?thesis by (simp add: verifier_unique_def)
  qed (use u x in \<open>simp add: same_service_told\<close>)
qed

lemma unique_authorize: "verifier_keeps verifier_unique (authorize en params)"
proof -
  have "verifier_keeps verifier_unique (\<lambda>sv. case exchange en session pending sv of (r, sv) \<Rightarrow> (Inr r, sv_close en session sv))"
    for session pending
    using unique_exchange [of en session pending] by (auto simp: verifier_keeps_def split: prod.split)
  moreover have "same_verifier (conclude_granted en device_name development g)"
    "same_verifier (conclude_refused en device_name development q e)" for device_name development g q e
    unfolding conclude_granted_def conclude_refused_def by (intro sv_rules sv_verifier_simps)+
  ultimately have "verifier_keeps verifier_unique (ask_phone en device_name session pending)" for device_name session pending
    unfolding ask_phone_def Let_def
    by (intro verifier_keeps_bind verifier_keeps_same [OF same_verifier_do])
      (auto intro: verifier_keeps_same split: sum.split)
  moreover have "same_verifier (issue_request en params cred session)" for cred session
    unfolding issue_request_def Let_def by (intro sv_rules)
  ultimately show ?thesis
    unfolding authorize_def
    by (auto intro!: verifier_keeps_bind verifier_keeps_same [OF same_verifier_connect] verifier_keeps_same [OF same_verifier_steps(5)]
        verifier_keeps_same [OF same_verifier_steps(3)] intro: verifier_keeps_same)
qed

end
