(* ===== verification/Web_Origin.thy ===== *)
theory Web_Origin
  imports Prelude
begin

text \<open>
  Which site a password belongs to (\<open>origin_host\<close>, \<open>item_host\<close> and \<open>authority_host\<close> of
  \<open>phone-auth-agent/src/service.rs\<close>). Separators are single ASCII characters, so cutting a text
  at one is cutting its bytes there.
\<close>

definition ascii_lower_char :: "char \<Rightarrow> char" where
  "ascii_lower_char c =
    (let n = of_char c :: nat in if 65 \<le> n \<and> n \<le> 90 then char_of (n + 32) else c)"

definition to_ascii_lowercase :: "string \<Rightarrow> string" where
  "to_ascii_lowercase s = map ascii_lower_char s"

definition ends_with :: "string \<Rightarrow> string \<Rightarrow> bool" where
  "ends_with s t \<longleftrightarrow> length t \<le> length s \<and> drop (length s - length t) s = t"

text \<open>\<open>value.split_once(pattern)\<close>, of which only the second half is used.\<close>

fun after_first :: "string \<Rightarrow> string \<Rightarrow> string option" where
  "after_first pattern [] = strip_prefix [] pattern"
| "after_first pattern (c # s) =
    (case strip_prefix (c # s) pattern of Some rest \<Rightarrow> Some rest | None \<Rightarrow> after_first pattern s)"

definition authority_of :: "string \<Rightarrow> string" where
  "authority_of rest = takeWhile (\<lambda>c. c \<noteq> CHR ''/'' \<and> c \<noteq> CHR ''?'' \<and> c \<noteq> CHR ''#'') rest"

definition without_userinfo :: "string \<Rightarrow> string" where
  "without_userinfo authority = rev (takeWhile (\<lambda>c. c \<noteq> CHR ''@'') (rev authority))"

definition without_port :: "string \<Rightarrow> string" where
  "without_port host = takeWhile (\<lambda>c. c \<noteq> CHR '':'') host"

definition authority_host :: "string \<Rightarrow> string option" where
  "authority_host rest =
    (let host = without_port (without_userinfo (authority_of rest)) in
     if host = [] \<or> list_ex is_whitespace (chars host) then None else Some (to_ascii_lowercase host))"

definition is_loopback_host :: "string \<Rightarrow> bool" where
  "is_loopback_host host \<longleftrightarrow> host = ''localhost'' \<or> ends_with host ''.localhost'' \<or> host = ''127.0.0.1''"

definition origin_host :: "string \<Rightarrow> string option" where
  "origin_host value =
    (case strip_prefix value ''https://'' of
       Some rest \<Rightarrow> authority_host rest
     | None \<Rightarrow>
         (case strip_prefix value ''http://'' of
            None \<Rightarrow> None
          | Some rest \<Rightarrow>
              (case authority_host rest of
                 None \<Rightarrow> None
               | Some host \<Rightarrow> if is_loopback_host host then Some host else None)))"

definition item_host :: "string \<Rightarrow> string option" where
  "item_host value =
    (let value = str_trim value in
     authority_host (case after_first ''://'' value of Some rest \<Rightarrow> rest | None \<Rightarrow> value))"

subsection \<open>What a host is\<close>

text \<open>The characters at which an address is cut.\<close>

definition HOST_ENDS :: "char set" where
  "HOST_ENDS = {CHR ''/'', CHR ''?'', CHR ''#'', CHR ''@'', CHR '':''}"

definition HOST_CUTS :: "char set" where
  "HOST_CUTS = {CHR ''/'', CHR ''?'', CHR ''#''}"

lemma takeWhile_absent: "set w \<inter> S = {} \<Longrightarrow> takeWhile (\<lambda>c. c \<notin> S) (w @ t) = w @ takeWhile (\<lambda>c. c \<notin> S) t"
  by (induction w) auto

lemma authority_eq: "authority_of s = takeWhile (\<lambda>c. c \<notin> HOST_CUTS) s"
  by (simp add: authority_of_def HOST_CUTS_def)

lemma without_userinfo_append:
  "without_userinfo (u @ CHR ''@'' # h) = without_userinfo h"
  by (simp add: without_userinfo_def takeWhile_tail)

lemma without_userinfo_absent: "CHR ''@'' \<notin> set h \<Longrightarrow> without_userinfo h = h"
proof -
  assume "CHR ''@'' \<notin> set h"
  then have "\<forall>c \<in> set (rev h). c \<noteq> CHR ''@''" by auto
  then have "takeWhile (\<lambda>c. c \<noteq> CHR ''@'') (rev h) = rev h" by (simp only: takeWhile_eq_all_conv)
  then show ?thesis by (simp only: without_userinfo_def rev_rev_ident)
qed

lemma authority_append:
  assumes "set w \<inter> HOST_CUTS = {}"
  shows "authority_of (w @ t) = w @ authority_of t"
  unfolding authority_eq using assms by (rule takeWhile_absent)

text \<open>Whatever stands before the last \<open>@\<close> of the authority says nothing about the host.\<close>

lemma authority_host_userinfo:
  assumes "set u \<inter> HOST_CUTS = {}"
  shows "authority_host (u @ CHR ''@'' # rest) = authority_host rest"
proof -
  have "authority_of (u @ CHR ''@'' # rest) = (u @ [CHR ''@'']) @ authority_of rest"
    using authority_append [of "u @ [CHR ''@'']" rest] assms by (simp add: HOST_CUTS_def)
  then show ?thesis using without_userinfo_append [of u "authority_of rest"] by (simp add: authority_host_def)
qed

text \<open>Nor does anything after the port or the path.\<close>

definition host_ends_here :: "string \<Rightarrow> bool" where
  "host_ends_here s \<longleftrightarrow> s = [] \<or> hd s \<in> HOST_CUTS \<or>
    (\<exists>port. hd s = CHR '':'' \<and> CHR ''@'' \<notin> set port \<and> authority_of (tl s) = port)"

lemma authority_host_exact:
  assumes "set h \<inter> HOST_ENDS = {}" and "h \<noteq> []" and "\<not> list_ex is_whitespace (chars h)" and "host_ends_here s"
  shows "authority_host (h @ s) = Some (to_ascii_lowercase h)"
proof -
  have h: "set h \<inter> HOST_CUTS = {}" "CHR ''@'' \<notin> set h" "CHR '':'' \<notin> set h"
    using assms(1) by (auto simp: HOST_ENDS_def HOST_CUTS_def)
  have a: "authority_of (h @ s) = h @ authority_of s" by (rule authority_append [OF h(1)])
  have "CHR ''@'' \<notin> set (authority_of s)" and c: "authority_of s = [] \<or> hd (authority_of s) = CHR '':''"
    using assms(4) by (cases s; auto simp: host_ends_here_def authority_eq HOST_CUTS_def)+
  with h have "without_userinfo (h @ authority_of s) = h @ authority_of s"
    by (intro without_userinfo_absent) simp
  moreover have "without_port (h @ authority_of s) = h"
    using h(3) c takeWhile_absent [of h "{CHR '':''}" "authority_of s"]
    by (cases "authority_of s") (auto simp: without_port_def)
  ultimately show ?thesis using assms(2,3) a by (simp add: authority_host_def)
qed

lemma lower_char_cases:
  "ascii_lower_char c = c \<or> (97 \<le> (of_char (ascii_lower_char c) :: nat) \<and> (of_char (ascii_lower_char c) :: nat) \<le> 122)"
proof -
  have "(of_char c :: nat) + 32 < 256" if "(of_char c :: nat) \<le> 90" using that by simp
  then show ?thesis by (auto simp: ascii_lower_char_def Let_def)
qed

lemma lower_char_ends:
  assumes "c \<notin> HOST_ENDS" shows "ascii_lower_char c \<notin> HOST_ENDS"
  using lower_char_cases [of c] assms by (auto simp: HOST_ENDS_def)

lemma lower_char_idem [simp]: "ascii_lower_char (ascii_lower_char c) = ascii_lower_char c"
proof (cases "ascii_lower_char c = c")
  case False
  with lower_char_cases [of c] have "97 \<le> (of_char (ascii_lower_char c) :: nat)" by simp
  then show ?thesis by (simp add: ascii_lower_char_def [of "ascii_lower_char c"])
qed simp

text \<open>A host is one label sequence: nothing that ends one is in it, and its capitals are small.\<close>

lemma authority_host_shape:
  assumes "authority_host rest = Some h"
  shows "h \<noteq> [] \<and> set h \<inter> HOST_ENDS = {} \<and> to_ascii_lowercase h = h"
proof -
  let ?h = "without_port (without_userinfo (authority_of rest))"
  have h: "h = to_ascii_lowercase ?h" "?h \<noteq> []"
    using assms by (auto simp: authority_host_def Let_def split: if_splits)
  have "set ?h \<subseteq> set (without_userinfo (authority_of rest))" by (auto simp: without_port_def dest: set_takeWhileD)
  moreover have "set (without_userinfo (authority_of rest)) \<subseteq> set (authority_of rest) - {CHR ''@''}"
    by (auto simp: without_userinfo_def dest: set_takeWhileD)
  moreover have "set (authority_of rest) \<inter> HOST_CUTS = {}" by (auto simp: authority_eq dest: set_takeWhileD)
  moreover have "CHR '':'' \<notin> set ?h" by (auto simp: without_port_def dest: set_takeWhileD)
  ultimately have "\<forall>c \<in> set ?h. c \<notin> HOST_ENDS" by (auto simp: HOST_ENDS_def HOST_CUTS_def)
  with h show ?thesis using lower_char_ends by (auto simp: to_ascii_lowercase_def)
qed

text \<open>Plain http is for this machine.\<close>

lemma strip_prefix_iff: "strip_prefix value p = Some rest \<longleftrightarrow> value = p @ rest"
  by (auto simp: strip_prefix_def) (metis append_take_drop_id)+

lemma origin_host_https: "origin_host (''https://'' @ rest) = authority_host rest"
  unfolding origin_host_def strip_prefix_append by simp

lemma origin_host_http:
  "origin_host (''http://'' @ rest) = Some h \<longleftrightarrow> authority_host rest = Some h \<and> is_loopback_host h"
proof -
  have "strip_prefix (''http://'' @ rest) ''https://'' = None" by (simp add: strip_prefix_def)
  then show ?thesis unfolding origin_host_def strip_prefix_append by (auto split: option.splits)
qed

lemma origin_host_cases:
  assumes "origin_host value = Some h"
  obtains (https) rest where "value = ''https://'' @ rest" and "authority_host rest = Some h"
  | (here) rest where "value = ''http://'' @ rest" and "authority_host rest = Some h" and "is_loopback_host h"
proof (cases "strip_prefix value ''https://''")
  case (Some rest)
  then have v: "value = ''https://'' @ rest" unfolding strip_prefix_iff .
  show thesis using https [OF v] assms [unfolded v origin_host_https] by blast
next
  case None
  show thesis
  proof (cases "strip_prefix value ''http://''")
    case (Some rest)
    then have v: "value = ''http://'' @ rest" unfolding strip_prefix_iff .
    show thesis using here [OF v] assms [unfolded v origin_host_http] by blast
  next
    case None': None
    then show thesis using assms None by (simp add: origin_host_def)
  qed
qed

text \<open>A filled page is a host of its own: no userinfo, port, path or fragment reaches the comparison.\<close>

lemma origin_host_shape:
  assumes "origin_host value = Some h"
  shows "h \<noteq> [] \<and> set h \<inter> HOST_ENDS = {} \<and> to_ascii_lowercase h = h"
  using assms by (cases rule: origin_host_cases) (blast dest: authority_host_shape)+

subsection \<open>Addresses as people write them\<close>

lemma after_first_absent:
  assumes "CHR '':'' \<notin> set w"
  shows "after_first ''://'' (w @ CHR '':'' # s) = (case strip_prefix (CHR '':'' # s) ''://'' of
    Some rest \<Rightarrow> Some rest | None \<Rightarrow> after_first ''://'' s)"
  using assms by (induction w) (auto simp: strip_prefix_def)

lemma after_first_scheme: "CHR '':'' \<notin> set w \<Longrightarrow> after_first ''://'' (w @ ''://'' @ s) = Some s"
  using after_first_absent [of w "CHR ''/'' # CHR ''/'' # s"] by (simp add: strip_prefix_def)

lemma after_first_none: "CHR '':'' \<notin> set w \<Longrightarrow> after_first ''://'' w = None"
  by (induction w) (auto simp: strip_prefix_def)

text \<open>An address without a scheme of its own, but with one later, is read from the later one.\<close>

lemma item_host_later_scheme:
  assumes "str_trim (w @ ''://'' @ s) = w @ ''://'' @ s" and "CHR '':'' \<notin> set w"
  shows "item_host (w @ ''://'' @ s) = authority_host s"
  unfolding item_host_def Let_def assms(1) after_first_scheme [OF assms(2)] by simp

lemma str_trim_ascii:
  assumes "ascii s" and "s \<noteq> []" and "\<not> is_whitespace (of_char (hd s))" and "\<not> is_whitespace (of_char (last s))"
  shows "str_trim s = s"
proof -
  let ?ps = "map (\<lambda>c. (of_char c :: nat, as_bytes [c])) s" and ?ws = "\<lambda>piece :: nat \<times> bytes. is_whitespace (fst piece)"
  have d: "dropWhile ?ws xs = xs" if "xs \<noteq> []" "\<not> ?ws (hd xs)" for xs using that by (cases xs) auto
  have "dropWhile ?ws ?ps = ?ps" using assms(2,3) by (intro d) (simp_all add: hd_map)
  moreover have "dropWhile ?ws (rev ?ps) = rev ?ps" using assms(2,4) by (intro d) (simp_all add: hd_rev last_map rev_map [symmetric])
  moreover have "concat (map snd ?ps) = as_bytes s" by (induction s) simp_all
  ultimately show ?thesis by (simp add: str_trim_def utf8_pieces_ascii [OF assms(1)] Let_def)
qed

lemma later_scheme_host:
  assumes "str_trim (w @ ''://'' @ h) = w @ ''://'' @ h" and "CHR '':'' \<notin> set w"
    and "set h \<inter> HOST_ENDS = {}" and "h \<noteq> []" and "\<not> list_ex is_whitespace (chars h)"
  shows "item_host (w @ ''://'' @ h) = Some (to_ascii_lowercase h)"
  using item_host_later_scheme [OF assms(1,2)] authority_host_exact [OF assms(3-5), of "[]"]
  by (simp add: host_ends_here_def)

text \<open>Of an address in brackets only the first group is left.\<close>

lemma authority_host_bracket:
  assumes "CHR ''@'' \<notin> set (authority_of s)" and "set g \<inter> HOST_ENDS = {}" and "ascii g"
    and "\<not> list_ex is_whitespace (map of_char g)"
  shows "authority_host (''['' @ g @ CHR '':'' # s) = Some (to_ascii_lowercase (''['' @ g))"
proof -
  have "ascii (''['' @ g)" using assms(3) by (simp add: ascii_def)
  then have w: "\<not> list_ex is_whitespace (chars (''['' @ g))" using assms(4) by (simp add: chars_ascii is_whitespace_def)
  have "host_ends_here (CHR '':'' # s)" using assms by (simp add: host_ends_here_def)
  from authority_host_exact [OF _ _ w this] show ?thesis
    using assms(2) by (simp add: HOST_ENDS_def)
qed

end
