(* ===== verification/Clipboard.thy ===== *)
theory Clipboard
  imports File_System
begin

text \<open>
  Copying a secret and taking it back (\<open>phone-auth-agent/src/clipboard.rs\<close>): \<open>copy_secret\<close> over any
  platform, and the Windows platform over a clipboard that other programs use between any two
  calls of the agent. Times are in milliseconds.
\<close>

definition MIN_TTL :: nat where "MIN_TTL = 5000"
definition MAX_TTL :: nat where "MAX_TTL = 600000"
definition DEFAULT_TTL :: nat where "DEFAULT_TTL = 45000"

record exclusions =
  ex_history :: bool
  ex_cloud :: bool

record copy_outcome =
  co_clears_at_ms :: int
  co_history_excluded :: bool
  co_cloud_excluded :: bool

datatype clipboard_error =
    ClipboardUnavailable string
  | NotText
  | TtlOutOfRange nat nat
  | ClipboardUnsupported

fun clipboard_error_text :: "clipboard_error \<Rightarrow> string" where
  "clipboard_error_text (ClipboardUnavailable why) = ''clipboard unavailable: '' @ why"
| "clipboard_error_text NotText = ''secret is not valid UTF-8 text''"
| "clipboard_error_text (TtlOutOfRange min_ms max_ms) =
    ''clear timeout must be between '' @ decimal min_ms @ ''ms and '' @ decimal max_ms @ ''ms''"
| "clipboard_error_text ClipboardUnsupported = ''no clipboard integration on this platform''"

text \<open>\<open>mod platform\<close>, whichever it is.\<close>

record 'w clipboard =
  cb_set_text :: "string \<Rightarrow> ('w, clipboard_error, exclusions) io_on"
  cb_claim :: "'w \<Rightarrow> u32 \<times> 'w"
  cb_schedule_clear :: "nat \<Rightarrow> u32 \<Rightarrow> 'w \<Rightarrow> 'w"
  cb_epoch_ms :: "'w \<Rightarrow> int \<times> 'w"

definition copy_secret :: "'w clipboard \<Rightarrow> bytes \<Rightarrow> nat \<Rightarrow> ('w, clipboard_error, copy_outcome) io_on" where
  "copy_secret cb secret ttl =
    (if ttl < MIN_TTL \<or> ttl > MAX_TTL then io_fail (TtlOutOfRange MIN_TTL MAX_TTL)
     else
       io_bind (io_of (case from_utf8 secret of None \<Rightarrow> Inl NotText | Some text \<Rightarrow> Inr text)) (\<lambda>text.
       io_bind (cb_set_text cb text) (\<lambda>excluded.
       io_bind (io_get (cb_claim cb)) (\<lambda>ours.
       io_bind (\<lambda>w. (Inr (), cb_schedule_clear cb ttl ours w)) (\<lambda>_.
       io_bind (io_get (cb_epoch_ms cb)) (\<lambda>now.
       io_return \<lparr>co_clears_at_ms = now + int ttl, co_history_excluded = ex_history excluded,
         co_cloud_excluded = ex_cloud excluded\<rparr>))))))"

subsection \<open>The Windows clipboard\<close>

datatype held = Nothing | Ours string | Theirs

text \<open>What Windows answers to the calls that place an entry.\<close>

record placing =
  pl_memory :: bool
  pl_lock :: bool
  pl_history :: bool
  pl_cloud :: bool
  pl_no_monitor :: bool
  pl_text :: bool

text \<open>
  \<open>bd_others\<close> says what happens before each call of the agent: how often another program has changed
  the contents, and whether one has the clipboard open. \<open>bd_ours\<close> is the static \<open>OURS\<close>.
\<close>

record board =
  bd_held :: held
  bd_sequence :: u32
  bd_ours :: u32
  bd_others :: "(nat \<times> bool) list"
  bd_placing :: placing
  bd_timers :: "(nat \<times> u32) list"
  bd_now :: int

definition turn :: "board \<Rightarrow> bool \<times> board" where
  "turn b =
    (case bd_others b of
       [] \<Rightarrow> (False, b)
     | (n, busy) # rest \<Rightarrow>
         (busy, b\<lparr>bd_others := rest, bd_sequence := bd_sequence b + word_of_nat n,
                 bd_held := (if n = 0 then bd_held b else Theirs)\<rparr>))"

definition win_sequence :: "board \<Rightarrow> u32 \<times> board" where
  "win_sequence b = (case turn b of (_, b) \<Rightarrow> (bd_sequence b, b))"

definition win_claim :: "board \<Rightarrow> u32 \<times> board" where
  "win_claim b = (case win_sequence b of (ours, b) \<Rightarrow> (ours, b\<lparr>bd_ours := ours\<rparr>))"

fun win_open_attempts :: "nat \<Rightarrow> board \<Rightarrow> (clipboard_error + unit) \<times> board" where
  "win_open_attempts 0 b = (Inl (ClipboardUnavailable ''another process held the clipboard open''), b)"
| "win_open_attempts (Suc n) b =
    (case turn b of (busy, b) \<Rightarrow> if busy then win_open_attempts n b else (Inr (), b))"

definition win_open :: "(board, clipboard_error, unit) io_on" where
  "win_open = win_open_attempts 10"

text \<open>While the agent has the clipboard open nobody else changes it. Every change moves the counter.\<close>

definition empty_clipboard :: "board \<Rightarrow> board" where
  "empty_clipboard b = b\<lparr>bd_held := Nothing, bd_sequence := bd_sequence b + 1\<rparr>"

definition set_clipboard_data :: "bool \<Rightarrow> (board \<Rightarrow> board) \<Rightarrow> board \<Rightarrow> board" where
  "set_clipboard_data taken f b = (if taken then f (b\<lparr>bd_sequence := bd_sequence b + 1\<rparr>) else b)"

definition win_set_text :: "string \<Rightarrow> (board, clipboard_error, exclusions) io_on" where
  "win_set_text text =
    io_bind win_open (\<lambda>_ b.
      let p = bd_placing b; b = empty_clipboard b in
      if \<not> pl_memory p then (Inl (ClipboardUnavailable ''could not allocate clipboard memory''), b)
      else if \<not> pl_lock p then (Inl (ClipboardUnavailable ''could not lock clipboard memory''), b)
      else
        let b = set_clipboard_data (pl_history p) id b;
            b = set_clipboard_data (pl_cloud p) id b;
            b = set_clipboard_data (pl_no_monitor p) id b in
        if \<not> pl_text p then (Inl (ClipboardUnavailable ''the clipboard refused the entry''), b)
        else (Inr \<lparr>ex_history = pl_history p, ex_cloud = pl_cloud p\<rparr>,
              set_clipboard_data True (bd_held_update (\<lambda>_. Ours text)) b))"

definition win_clear :: "(board, clipboard_error, unit) io_on" where
  "win_clear b =
    (let ours = bd_ours b in
     if ours = 0 then (Inr (), b)
     else
       case win_sequence b of (now, b) \<Rightarrow>
         if ours \<noteq> now then (Inr (), b)
         else io_bind win_open (\<lambda>_ b. (Inr (), (empty_clipboard b)\<lparr>bd_ours := 0\<rparr>)) b)"

definition CLEAR_ATTEMPTS :: nat where "CLEAR_ATTEMPTS = 8"

text \<open>The thread of \<open>schedule_clear\<close> once it has slept.\<close>

fun expire_attempts :: "nat \<Rightarrow> u32 \<Rightarrow> board \<Rightarrow> board" where
  "expire_attempts 0 ours b = b"
| "expire_attempts (Suc n) ours b =
    (case win_sequence b of (now, b) \<Rightarrow>
       if now \<noteq> ours then b
       else case win_clear b of
         (Inr _, b) \<Rightarrow> b
       | (Inl _, b) \<Rightarrow> expire_attempts n ours b)"

definition win_expire :: "u32 \<Rightarrow> board \<Rightarrow> board" where
  "win_expire = expire_attempts CLEAR_ATTEMPTS"

definition win_schedule_clear :: "nat \<Rightarrow> u32 \<Rightarrow> board \<Rightarrow> board" where
  "win_schedule_clear ttl ours b = b\<lparr>bd_timers := bd_timers b @ [(ttl, ours)]\<rparr>"

definition win_clipboard :: "board clipboard" where
  "win_clipboard = \<lparr>cb_set_text = win_set_text, cb_claim = win_claim, cb_schedule_clear = win_schedule_clear,
     cb_epoch_ms = (\<lambda>b. (bd_now b, b))\<rparr>"

subsection \<open>What is taken back\<close>

text \<open>The clipboard has changed \<open>k\<close> times since the claim, and holds the secret if it has not.\<close>

definition claim_holds :: "nat \<Rightarrow> board \<Rightarrow> bool" where
  "claim_holds k b \<longleftrightarrow> bd_ours b = 0 \<or>
    bd_sequence b = bd_ours b + word_of_nat k \<and> (k = 0 \<longrightarrow> (\<exists>text. bd_held b = Ours text))"

text \<open>How often the clipboard changes before the next call.\<close>

definition next_copies :: "board \<Rightarrow> nat" where
  "next_copies b = (case bd_others b of [] \<Rightarrow> 0 | (n, _) # _ \<Rightarrow> n)"

lemma turn_simps:
  assumes "turn b = (busy, b')"
  shows "bd_ours b' = bd_ours b" "bd_sequence b' = bd_sequence b + word_of_nat (next_copies b)"
    "bd_held b' = (if next_copies b = 0 then bd_held b else Theirs)" "bd_timers b' = bd_timers b"
    "bd_placing b' = bd_placing b" "bd_others b' = tl (bd_others b)"
  using assms by (cases "bd_others b"; force simp: turn_def next_copies_def)+

text \<open>What another program put there by the time of the check stays, and the agent stops caring.\<close>

lemma of_nat_0: "k < 2 ^ 32 \<Longrightarrow> word_of_nat k = (0 :: u32) \<longleftrightarrow> k = 0"
proof
  assume "k < 2 ^ 32" and "word_of_nat k = (0 :: u32)"
  then have "unat (word_of_nat k :: u32) = 0" by simp
  with \<open>k < 2 ^ 32\<close> show "k = 0" by (simp add: unat_of_nat)
qed simp

lemma clear_keeps_theirs:
  assumes c: "claim_holds k b" and k: "k + next_copies b < 2 ^ 32"
    and t: "turn b = (busy, b1)" "bd_held b1 = Theirs" and o: "bd_ours b \<noteq> 0"
  shows "win_clear b = (Inr (), b1)"
proof -
  have "k + next_copies b \<noteq> 0" using turn_simps(3) [OF t(1)] t(2) c o by (auto simp: claim_holds_def split: if_splits)
  with k have "word_of_nat (k + next_copies b) \<noteq> (0 :: u32)" by (simp add: of_nat_0 del: of_nat_add)
  moreover have "bd_sequence b1 = bd_ours b + word_of_nat (k + next_copies b)"
    using turn_simps(2) [OF t(1)] c o by (simp add: claim_holds_def)
  ultimately have "bd_ours b \<noteq> bd_sequence b1" by (simp del: of_nat_add)
  then show ?thesis using o t(1) by (simp add: win_clear_def win_sequence_def)
qed

lemma expire_keeps_theirs:
  assumes c: "claim_holds k b" and k: "k + next_copies b < 2 ^ 32"
    and t: "turn b = (busy, b1)" "bd_held b1 = Theirs" and o: "bd_ours b \<noteq> 0"
  shows "win_expire (bd_ours b) b = b1"
proof -
  have "k + next_copies b \<noteq> 0" using turn_simps(3) [OF t(1)] t(2) c o by (auto simp: claim_holds_def split: if_splits)
  with k have "word_of_nat (k + next_copies b) \<noteq> (0 :: u32)" by (simp add: of_nat_0 del: of_nat_add)
  moreover have "bd_sequence b1 = bd_ours b + word_of_nat (k + next_copies b)"
    using turn_simps(2) [OF t(1)] c o by (simp add: claim_holds_def)
  ultimately have "bd_sequence b1 \<noteq> bd_ours b" by (simp del: of_nat_add)
  then show ?thesis using t(1) by (simp add: win_expire_def CLEAR_ATTEMPTS_def numeral_eq_Suc win_sequence_def)
qed

text \<open>The copy itself: what it leaves when nobody copies in the instant before the claim.\<close>

lemma claim_holds_turn:
  assumes "claim_holds k b" and "turn b = (busy, b')"
  shows "claim_holds (k + next_copies b) b'"
  using assms turn_simps [OF assms(2)] by (auto simp: claim_holds_def)

lemma set_text_Inr:
  assumes "win_set_text text b = (Inr ex, b')"
  shows "bd_held b' = Ours text \<and> bd_placing b' = bd_placing b \<and> bd_timers b' = bd_timers b \<and>
    ex = \<lparr>ex_history = pl_history (bd_placing b), ex_cloud = pl_cloud (bd_placing b)\<rparr>"
proof -
  have o: "bd_placing b2 = bd_placing b1 \<and> bd_timers b2 = bd_timers b1" if "win_open_attempts n b1 = (r, b2)" for n r b1 b2
    using that
  proof (induction n arbitrary: b1)
    case (Suc n)
    obtain busy b3 where "turn b1 = (busy, b3)" by fastforce
    with turn_simps(4,5) [OF this] Suc show ?case by (auto split: if_splits)
  qed simp
  from assms obtain b1 where b1: "win_open b = (Inr (), b1)"
    and "(let p = bd_placing b1; b = empty_clipboard b1 in
      if \<not> pl_memory p then (Inl (ClipboardUnavailable ''could not allocate clipboard memory''), b)
      else if \<not> pl_lock p then (Inl (ClipboardUnavailable ''could not lock clipboard memory''), b)
      else
        let b = set_clipboard_data (pl_history p) id b;
            b = set_clipboard_data (pl_cloud p) id b;
            b = set_clipboard_data (pl_no_monitor p) id b in
        if \<not> pl_text p then (Inl (ClipboardUnavailable ''the clipboard refused the entry''), b)
        else (Inr \<lparr>ex_history = pl_history p, ex_cloud = pl_cloud p\<rparr>,
              set_clipboard_data True (bd_held_update (\<lambda>_. Ours text)) b)) = (Inr ex, b')"
    by (auto simp: win_set_text_def io_bind_iff)
  with o [OF b1 [unfolded win_open_def]] show ?thesis
    by (auto simp: Let_def set_clipboard_data_def empty_clipboard_def split: if_splits)
qed

lemma copy_claims:
  assumes "copy_secret win_clipboard secret ttl b = (Inr out, b')"
  shows "\<exists>text ex b1. from_utf8 secret = Some text \<and> MIN_TTL \<le> ttl \<and> ttl \<le> MAX_TTL \<and>
    win_set_text text b = (Inr ex, b1) \<and> bd_ours b' = bd_sequence b' \<and>
    bd_timers b' = bd_timers b @ [(ttl, bd_ours b')] \<and> co_clears_at_ms out = bd_now b' + int ttl \<and>
    co_history_excluded out = pl_history (bd_placing b) \<and>
    (next_copies b1 = 0 \<longrightarrow> bd_held b' = Ours text \<and> claim_holds 0 b')"
proof -
  from assms obtain tx ex b1 ours b2 where t: "from_utf8 secret = Some tx" "MIN_TTL \<le> ttl" "ttl \<le> MAX_TTL"
    and s: "win_set_text tx b = (Inr ex, b1)" and c: "win_claim b1 = (ours, b2)"
    and b': "b' = win_schedule_clear ttl ours b2"
    and out: "out = \<lparr>co_clears_at_ms = bd_now b' + int ttl, co_history_excluded = ex_history ex, co_cloud_excluded = ex_cloud ex\<rparr>"
    by (auto simp: copy_secret_def io_runs win_clipboard_def split: if_splits option.splits prod.splits)
  obtain busy b3 where tu: "turn b1 = (busy, b3)" by fastforce
  with c have b2: "b2 = b3\<lparr>bd_ours := bd_sequence b3\<rparr>" "ours = bd_sequence b3"
    by (auto simp: win_claim_def win_sequence_def)
  show ?thesis
    using t s set_text_Inr [OF s] turn_simps [OF tu] out
    by (auto simp: b' b2 win_schedule_clear_def claim_holds_def)
qed

text \<open>The timer: nobody copies, and the clipboard can be opened before the attempts run out.\<close>

definition undisturbed :: "board \<Rightarrow> bool" where
  "undisturbed b \<longleftrightarrow> list_all (\<lambda>(k, _). k = 0) (bd_others b)"

lemma turn_undisturbed:
  assumes "undisturbed b" and "turn b = (busy, b')"
  shows "undisturbed b' \<and> bd_held b' = bd_held b \<and> bd_sequence b' = bd_sequence b \<and> bd_ours b' = bd_ours b \<and>
    length (bd_others b') = length (bd_others b) - 1 \<and> (bd_others b = [] \<longrightarrow> \<not> busy)"
  using assms by (cases "bd_others b") (auto simp: undisturbed_def turn_def)

lemma open_undisturbed:
  assumes "undisturbed b" and "win_open_attempts n b = (r, b')"
  shows "undisturbed b' \<and> bd_held b' = bd_held b \<and> bd_sequence b' = bd_sequence b \<and> bd_ours b' = bd_ours b \<and>
    (isl r \<longrightarrow> length (bd_others b') = length (bd_others b) - n \<and> n \<le> length (bd_others b))"
  using assms
proof (induction n arbitrary: b)
  case (Suc n)
  obtain busy b1 where t: "turn b = (busy, b1)" by fastforce
  show ?case
  proof (cases busy)
    case True
    with Suc.prems(2) t have "win_open_attempts n b1 = (r, b')" by simp
    with Suc.IH [of b1] turn_undisturbed [OF Suc.prems(1) t] True show ?thesis by (cases "bd_others b") auto
  qed (use Suc.prems t turn_undisturbed [OF Suc.prems(1) t] in auto)
qed auto

lemma clear_undisturbed:
  assumes u: "undisturbed b" and ours: "bd_ours b = bd_sequence b" "bd_ours b \<noteq> 0" and c: "win_clear b = (r, b')"
  shows "(isl r \<longrightarrow> undisturbed b' \<and> bd_ours b' = bd_ours b \<and> bd_sequence b' = bd_sequence b \<and>
      length (bd_others b') = length (bd_others b) - 11 \<and> 11 \<le> length (bd_others b)) \<and>
    (\<not> isl r \<longrightarrow> bd_held b' = Nothing \<and> bd_ours b' = 0)"
proof -
  obtain busy b1 where t: "turn b = (busy, b1)" by fastforce
  obtain a b2 where p: "win_open b1 = (a, b2)" by fastforce
  have "win_clear b = (case a of Inl e \<Rightarrow> (Inl e, b2) | Inr _ \<Rightarrow> (Inr (), (empty_clipboard b2)\<lparr>bd_ours := 0\<rparr>))"
    using t p ours turn_undisturbed [OF u t] by (simp add: win_clear_def win_sequence_def io_bind_def split: sum.split)
  with c turn_undisturbed [OF u t] open_undisturbed [of b1, OF _ p [unfolded win_open_def]] show ?thesis
    by (cases a) (auto simp: empty_clipboard_def)
qed

lemma expire_clears:
  assumes "undisturbed b" and "bd_ours b = bd_sequence b" and "bd_ours b \<noteq> 0" and "length (bd_others b) < 12 * n"
  shows "bd_held (expire_attempts n (bd_ours b) b) = Nothing"
  using assms
proof (induction n arbitrary: b)
  case (Suc n)
  obtain busy b1 where t: "turn b = (busy, b1)" by fastforce
  note u = turn_undisturbed [OF Suc.prems(1) t]
  obtain r b2 where c: "win_clear b1 = (r, b2)" by fastforce
  have c': "(isl r \<longrightarrow> undisturbed b2 \<and> bd_ours b2 = bd_ours b1 \<and> bd_sequence b2 = bd_sequence b1 \<and>
      length (bd_others b2) = length (bd_others b1) - 11 \<and> 11 \<le> length (bd_others b1)) \<and>
    (\<not> isl r \<longrightarrow> bd_held b2 = Nothing \<and> bd_ours b2 = 0)"
    using clear_undisturbed [OF _ _ _ c] u Suc.prems by simp
  show ?case
  proof (cases r)
    case (Inl e)
    with c' u Suc.prems have "bd_held (expire_attempts n (bd_ours b2) b2) = Nothing" by (intro Suc.IH) auto
    with Inl t c u c' Suc.prems show ?thesis by (simp add: win_sequence_def)
  qed (use t c u c' Suc.prems in \<open>simp add: win_sequence_def\<close>)
qed simp

text \<open>From the copy to the end of its timer, when the clipboard has not changed meanwhile.\<close>

lemma copied_is_taken_back:
  assumes "copy_secret win_clipboard secret ttl b = (Inr out, b')" and "bd_sequence b' \<noteq> 0"
    and "bd_sequence b'' = bd_sequence b'" and "bd_ours b'' = bd_ours b'" and "undisturbed b''"
    and "length (bd_others b'') < 96"
  shows "\<exists>ours. (ttl, ours) \<in> set (bd_timers b') \<and> bd_held (win_expire ours b'') = Nothing"
proof -
  from copy_claims [OF assms(1)] have "bd_ours b' = bd_sequence b'" "(ttl, bd_ours b') \<in> set (bd_timers b')" by auto
  then show ?thesis
    using expire_clears [of b'' 8] assms(2-6) by (auto simp: win_expire_def CLEAR_ATTEMPTS_def)
qed

subsection \<open>Two instants that are not covered\<close>

text \<open>The check of \<open>clear\<close> is made before the clipboard is open, so what arrives in between is lost.\<close>

lemma clear_loses_what_arrives:
  assumes "bd_ours b = bd_sequence b" and "bd_ours b \<noteq> 0" and "bd_others b = (0, busy) # (Suc n, False) # rest"
  shows "\<exists>b1. fst (win_clear b) = Inr () \<and> bd_held (snd (win_clear b)) = Nothing \<and>
    turn (snd (turn b)) = (False, b1) \<and> bd_held b1 = Theirs"
  using assms
  by (simp add: win_clear_def win_sequence_def turn_def io_bind_def win_open_def numeral_eq_Suc empty_clipboard_def)

text \<open>And what arrives between the copy and \<open>claim\<close> is taken for the agent's own.\<close>

lemma claim_takes_what_arrives:
  assumes "win_set_text tx b = (Inr ex, b1)" and "bd_others b1 = [(Suc n, busy)]"
    and "bd_sequence b1 + word_of_nat (Suc n) \<noteq> 0"
  shows "\<exists>ours b'. win_claim b1 = (ours, b') \<and> bd_held b' = Theirs \<and> bd_held (win_expire ours b') = Nothing"
proof -
  obtain ours b' where c: "win_claim b1 = (ours, b')" by fastforce
  then have b': "bd_held b' = Theirs" "bd_ours b' = ours" "bd_sequence b' = ours" "bd_others b' = []" "ours \<noteq> 0"
    using assms(2,3) by (auto simp: win_claim_def win_sequence_def turn_def)
  then have "bd_held (win_expire ours b') = Nothing"
    using expire_clears [of b' 8] by (simp add: undisturbed_def win_expire_def CLEAR_ATTEMPTS_def)
  with c b' show ?thesis by blast
qed

end
