(* ===== verification/Service_Vault.thy ===== *)
theory Service_Vault
  imports Service_Authorize Web_Origin Clipboard Password Ssh_Keys
begin

text \<open>
  The vault and the SSH operations of the service (\<open>phone-auth-agent/src/service.rs\<close>): listing,
  filling, creating and copying items, the identities an ssh client is shown and a signature for
  one of them. The clipboard is a parameter; \<open>locks\<close> says whether a buffer of so many bytes is
  kept out of the page file (\<open>secret_memory.rs\<close>).
\<close>

subsection \<open>Parameters and results\<close>

record vault_item =
  wi_id :: string
  wi_revision :: u64
  wi_kind :: string
  wi_name :: string
  wi_username :: string
  wi_uri :: string
  wi_updated_at_ms :: int

record vault_list_result =
  wl_items :: "vault_item list"
  wl_device_name :: string
  wl_development :: bool

record vault_fill_params =
  vfp_origin :: string
  vfp_credential_id :: "string option"

record vault_fill_result =
  vfr_password :: string
  vfr_username :: string

record vault_create_params =
  vcp_name :: string
  vcp_username :: string
  vcp_uri :: string
  vcp_credential_id :: "string option"
  vcp_length :: "nat option"
  vcp_symbols :: "bool option"

record vault_create_result =
  vcr_item_id :: string
  vcr_revision :: u64
  vcr_length :: nat

record vault_copy_params =
  vpp_item_id :: string
  vpp_expected_revision :: u64
  vpp_credential_id :: "string option"
  vpp_clear_after_ms :: "u64 option"

record vault_copy_result =
  vpr_length :: nat
  vpr_clears_at_ms :: int
  vpr_history_excluded :: bool
  vpr_cloud_excluded :: bool
  vpr_memory_locked :: bool

record ssh_sign_params =
  sgp_data :: bytes
  sgp_destination :: string
  sgp_credential_id :: "string option"

fun item_kind_name :: "item_kind \<Rightarrow> string" where
  "item_kind_name Login = ''login''"
| "item_kind_name Note = ''note''"
| "item_kind_name Totp = ''totp''"

definition vault_item_of :: "item_summary \<Rightarrow> vault_item" where
  "vault_item_of summary =
    \<lparr>wi_id = su_id summary, wi_revision = su_revision summary, wi_kind = item_kind_name (su_kind summary),
     wi_name = su_name summary, wi_username = su_username summary, wi_uri = su_uri summary,
     wi_updated_at_ms = su_updated_at_ms summary\<rparr>"

definition clipboard_ttl :: "u64 option \<Rightarrow> service_error + nat" where
  "clipboard_ttl clear_after_ms =
    (let ttl = (case clear_after_ms of None \<Rightarrow> DEFAULT_TTL | Some ms \<Rightarrow> unat ms) in
     if ttl < MIN_TTL \<or> ttl > MAX_TTL
     then Inl (service_error_new ''bad-params''
       (''clearAfterMs must be between '' @ decimal MIN_TTL @ ''ms and '' @ decimal MAX_TTL @ ''ms''))
     else Inr ttl)"

fun clipboard_code :: "clipboard_error \<Rightarrow> string" where
  "clipboard_code (TtlOutOfRange min_ms max_ms) = ''bad-params''"
| "clipboard_code NotText = ''protocol-error''"
| "clipboard_code (ClipboardUnavailable why) = ''clipboard-unavailable''"
| "clipboard_code ClipboardUnsupported = ''clipboard-unavailable''"

definition clipboard_service_error :: "clipboard_error \<Rightarrow> service_error" where
  "clipboard_service_error e = service_error_new (clipboard_code e) (clipboard_error_text e)"

subsection \<open>The operations\<close>

text \<open>A call whose failure is a value to look at.\<close>

definition io_attempt :: "('w, 'e, 'a) io_on \<Rightarrow> ('w, 'f, 'e + 'a) io_on" where
  "io_attempt m w = (case m w of (r, w') \<Rightarrow> (Inr r, w'))"

text \<open>The start of every operation on a phone: choose, connect, and note whom with.\<close>

definition reach_phone ::
    "('key, 'sig, 'secret, 'w) surroundings \<Rightarrow> (pairing_store \<Rightarrow> service_error + string \<times> string) \<Rightarrow>
     ('w, string \<times> string \<times> secure_session \<times> string) service_io" where
  "reach_phone en select =
    io_bind (sv_read (\<lambda>sv. select (sv_store sv))) (\<lambda>selected.
    io_bind (io_of selected) (\<lambda>(device_id, cred).
    io_bind (sv_connect en device_id cred) (\<lambda>session.
    io_bind (sv_read (device_name_of device_id)) (\<lambda>device_name.
    io_return (device_id, cred, session, device_name)))))"

text \<open>
  \<open>list_all\<close> asks a closure for its sessions, which hands out the one already open and dials after
  that: the state of the closure goes beside the world.
\<close>

definition first_or_dial ::
    "('key, 'sig, 'secret, 'w) surroundings \<Rightarrow> string \<Rightarrow> string \<Rightarrow>
     ('w \<times> secure_session option, vault_error, secure_session) io_on" where
  "first_or_dial en device_id cred = (\<lambda>(w, first).
    case first of
      Some session \<Rightarrow> (Inr session, (w, None))
    | None \<Rightarrow> (case registry_connect (en_transports en) device_id cred w of
        (r, w) \<Rightarrow> (map_err (\<lambda>_. VaultUnavailable) r, (w, None))))"

definition walk_vault ::
    "('key, 'sig, 'secret, 'w) surroundings \<Rightarrow> secure_session \<Rightarrow> string \<Rightarrow> string \<Rightarrow>
     ('w service, vault_error, item_summary list) io_on" where
  "walk_vault en first device_id cred sv =
    (case list_all_items (beside (en_link en)) (ac_verifier_name (sv_config sv)) (first_or_dial en device_id cred)
        (sv_host sv, Some first) of
       (r, (w, _)) \<Rightarrow> (r, sv\<lparr>sv_host := w\<rparr>))"

text \<open>One exchange on a session, which is closed whatever came, with the error as the caller sees it.\<close>

definition on_session ::
    "('key, 'sig, 'secret, 'w) surroundings \<Rightarrow> secure_session \<Rightarrow> (string \<Rightarrow> ('w, vault_error, 'a) io_on) \<Rightarrow>
     ('w, service_error + 'a) service_io" where
  "on_session en session m sv =
    (case on_host (m (ac_verifier_name (sv_config sv))) sv of
      (r, sv) \<Rightarrow> (Inr (map_err vault_service_error r), sv_close en session sv))"

definition vault_list ::
    "('key, 'sig, 'secret, 'w) surroundings \<Rightarrow> string option \<Rightarrow> ('w, vault_list_result) service_io" where
  "vault_list en credential =
    io_bind (reach_phone en (\<lambda>s. select_vault_credential s credential)) (\<lambda>(device_id, cred, session, device_name).
    let development = ts_is_development (se_security session) in
    io_bind (io_attempt (walk_vault en session device_id cred)) (\<lambda>listed.
    recorded en ''vault'' ''list'' [] device_name development
      (map_err vault_service_error (map_sum id (\<lambda>items.
        \<lparr>wl_items = map vault_item_of items, wl_device_name = device_name, wl_development = development\<rparr>) listed))))"

definition ssh_identity :: "paired_device \<Rightarrow> paired_credential \<Rightarrow> (bytes \<times> string) option" where
  "ssh_identity d c =
    (if pc_purpose c \<noteq> ForSsh then None
     else case then_ok (point_from_spki (pc_public_key c)) encode_public_key of
         Inl _ \<Rightarrow> None
       | Inr blob \<Rightarrow> Some (blob, pd_display_name d @ '' ('' @ pc_credential_id c @ '')''))"

definition ssh_identities :: "'w service \<Rightarrow> (bytes \<times> string) list" where
  "ssh_identities sv =
    concat (map (\<lambda>d. List.map_filter (ssh_identity d) (pd_credentials d)) (bt_values (ps_devices (sv_store sv))))"

definition ssh_sign ::
    "('key, 'sig, 'secret, 'w) surroundings \<Rightarrow> ssh_sign_params \<Rightarrow> ('w, bytes) service_io" where
  "ssh_sign en params =
    io_bind (reach_phone en (\<lambda>s. select_service_credential s ''ssh'' ''SSH'' (sgp_credential_id params)))
      (\<lambda>(device_id, cred, session, device_name).
    io_bind (on_session en session (\<lambda>vname. phone_sign (en_link en) vname session (sgp_data params) (sgp_destination params)))
      (\<lambda>signed.
    recorded en ''ssh'' ''sign'' (sgp_destination params) device_name (ts_is_development (se_security session)) signed))"

definition item_for_host :: "string \<Rightarrow> item_summary \<Rightarrow> bool" where
  "item_for_host host item \<longleftrightarrow> su_kind item = Login \<and> item_host (su_uri item) = Some host"

definition the_item :: "item_summary list \<Rightarrow> service_error + item_summary" where
  "the_item matched =
    (case matched of
       [only] \<Rightarrow> Inr only
     | [] \<Rightarrow> Inl (service_error_new ''not-found'' ''no vault item for this site'')
     | several \<Rightarrow> Inl (service_error_new ''ambiguous''
         (decimal (length several) @ '' accounts for this site; copy the one you want from the tray'')))"

definition vault_fill ::
    "('key, 'sig, 'secret, 'w) surroundings \<Rightarrow> vault_fill_params \<Rightarrow> ('w, vault_fill_result) service_io" where
  "vault_fill en params =
    (case origin_host (vfp_origin params) of
       None \<Rightarrow> io_fail (service_error_new ''bad-params'' ''origin is not a fillable origin'')
     | Some host \<Rightarrow>
         io_bind (reach_phone en (\<lambda>s. select_vault_credential s (vfp_credential_id params)))
           (\<lambda>(device_id, cred, session, device_name).
         let development = ts_is_development (se_security session) in
         io_bind (io_attempt (walk_vault en session device_id cred)) (\<lambda>listed.
         case then_ok (map_err vault_service_error listed) (\<lambda>items. the_item (filter (item_for_host host) items)) of
           Inl e \<Rightarrow> recorded en ''vault'' ''fill'' [] device_name development (Inl e)
         | Inr item \<Rightarrow>
             io_bind (sv_connect en device_id cred) (\<lambda>session.
             io_bind (on_session en session (\<lambda>vname. vault_fetch (en_link en) vname session (su_id item))) (\<lambda>fetched.
             recorded en ''vault'' ''fill'' (su_id item) device_name development
               (map_sum id (\<lambda>fetched. \<lparr>vfr_password = vs_secret fetched, vfr_username = su_username item\<rparr>) fetched))))))"

definition create_policy :: "vault_create_params \<Rightarrow> password_policy" where
  "create_policy params = default_policy
    \<lparr>pp_length := (case vcp_length params of None \<Rightarrow> pp_length default_policy | Some n \<Rightarrow> n),
     pp_symbols := (case vcp_symbols params of None \<Rightarrow> pp_symbols default_policy | Some b \<Rightarrow> b)\<rparr>"

definition vault_create_with ::
    "('key, 'sig, 'secret, 'w) surroundings \<Rightarrow> vault_create_params \<Rightarrow> string \<Rightarrow> ('w, vault_create_result) service_io" where
  "vault_create_with en params secret =
    io_bind (reach_phone en (\<lambda>s. select_vault_credential s (vcp_credential_id params)))
      (\<lambda>(device_id, cred, session, device_name).
    let development = ts_is_development (se_security session) in
    io_bind (on_session en session (\<lambda>vname. Phone_Clients.vault_create (en_link en) vname session
        \<lparr>ni_kind = Login, ni_name = vcp_name params, ni_username = vcp_username params, ni_uri = vcp_uri params,
         ni_secret = secret\<rparr>)) (\<lambda>written.
    case written of
      Inl e \<Rightarrow> recorded en ''vault'' ''create'' [] device_name development (Inl e)
    | Inr w \<Rightarrow> recorded en ''vault'' ''create'' (vw_item_id w) device_name development
        (Inr \<lparr>vcr_item_id = vw_item_id w, vcr_revision = vw_revision w, vcr_length = length (chars secret)\<rparr>)))"

text \<open>The generator draws from \<open>draws\<close>; \<open>None\<close> is a generator that has not come to an end on them.\<close>

definition service_vault_create ::
    "('key, 'sig, 'secret, 'w) surroundings \<Rightarrow> vault_create_params \<Rightarrow> draws \<Rightarrow>
     ('w, vault_create_result) service_io option" where
  "service_vault_create en params draws =
    (case generate_password (create_policy params) draws of
       Inl e \<Rightarrow> Some (io_fail (service_error_new ''bad-params'' (policy_error_text e)))
     | Inr None \<Rightarrow> None
     | Inr (Some (secret, _)) \<Rightarrow> Some (vault_create_with en params secret))"

definition copied_result :: "(nat \<Rightarrow> bool) \<Rightarrow> bytes \<Rightarrow> copy_outcome \<Rightarrow> vault_copy_result" where
  "copied_result locks secret out =
    \<lparr>vpr_length = length secret, vpr_clears_at_ms = co_clears_at_ms out, vpr_history_excluded = co_history_excluded out,
     vpr_cloud_excluded = co_cloud_excluded out, vpr_memory_locked = locks (length secret)\<rparr>"

definition put_on_clipboard ::
    "'w clipboard \<Rightarrow> (nat \<Rightarrow> bool) \<Rightarrow> bytes \<Rightarrow> nat \<Rightarrow> ('w, service_error, vault_copy_result) io_on" where
  "put_on_clipboard cb locks secret ttl =
    io_bind (io_map_err clipboard_service_error (copy_secret cb secret ttl)) (\<lambda>out.
    io_return (copied_result locks secret out))"

definition vault_copy ::
    "('key, 'sig, 'secret, 'w) surroundings \<Rightarrow> 'w clipboard \<Rightarrow> (nat \<Rightarrow> bool) \<Rightarrow> vault_copy_params \<Rightarrow>
     ('w, vault_copy_result) service_io" where
  "vault_copy en cb locks params =
    io_bind (io_of (clipboard_ttl (vpp_clear_after_ms params))) (\<lambda>ttl.
    io_bind (reach_phone en (\<lambda>s. select_vault_credential s (vpp_credential_id params)))
      (\<lambda>(device_id, cred, session, device_name).
    let development = ts_is_development (se_security session);
        record = recorded en ''vault'' ''copy'' (vpp_item_id params) device_name development in
    io_bind (on_session en session (\<lambda>vname. vault_fetch (en_link en) vname session (vpp_item_id params))) (\<lambda>fetched.
    case fetched of
      Inl e \<Rightarrow> record (Inl e)
    | Inr fetched \<Rightarrow>
        if vs_revision fetched \<noteq> vpp_expected_revision params
        then record (Inl (service_error_new ''revision-conflict''
          ''the item changed on the phone; refresh the list and copy again''))
        else
          io_bind (io_attempt (on_host (put_on_clipboard cb locks (as_bytes (vs_secret fetched)) ttl))) (\<lambda>outcome.
          record outcome))))"

subsection \<open>What every operation on a phone leaves behind\<close>

definition logged ::
    "('key, 'sig, 'secret, 'w) surroundings \<Rightarrow> string \<Rightarrow> string \<Rightarrow> 'w service \<Rightarrow> service_error + 'a \<Rightarrow> 'w service \<Rightarrow> bool" where
  "logged en svc act sv r sv' \<longleftrightarrow> (\<exists>entry w.
    sv' = sv\<lparr>sv_host := w, sv_files := snd (audit_append (en_audit_json en) (sv_audit sv) entry (sv_files sv))\<rparr> \<and>
    au_service entry = svc \<and> au_action entry = act \<and> au_outcome entry = audit_outcome r \<and>
    au_detail entry = (case r of Inl e \<Rightarrow> Some (sx_message e) | Inr _ \<Rightarrow> None))"

text \<open>Either it failed before it had a phone to speak of, or its outcome is in the log; nothing else of the
  service has changed.\<close>

definition accountable ::
    "('key, 'sig, 'secret, 'w) surroundings \<Rightarrow> string \<Rightarrow> string \<Rightarrow> ('w, 'a) service_io \<Rightarrow> bool" where
  "accountable en svc act m \<longleftrightarrow> (\<forall>sv r sv'. m sv = (r, sv') \<longrightarrow>
    same_service sv sv' \<and> isl r \<or> logged en svc act sv r sv')"

named_theorems accountable_rules "operations whose outcome is in the log"

lemma logged_later:
  assumes "same_service sv sv1" and "logged en svc act sv1 r sv'"
  shows "logged en svc act sv r sv'"
proof -
  from assms(1) obtain w where "sv1 = sv\<lparr>sv_host := w\<rparr>" by (auto simp: same_service_def)
  with assms(2) show ?thesis by (auto simp: logged_def)
qed

lemma accountable_bind [accountable_rules]:
  assumes q: "calm m" and k: "\<And>x. accountable en svc act (k x)"
  shows "accountable en svc act (io_bind m k)"
  unfolding accountable_def
proof (intro allI impI)
  fix sv r sv' assume b: "io_bind m k sv = (r, sv')"
  then show "same_service sv sv' \<and> isl r \<or> logged en svc act sv r sv'"
  proof (cases rule: io_bind_cases)
    case (stop e)
    with calmD [OF q] show ?thesis by auto
  next
    case (on x sv1)
    have s: "same_service sv sv1" using calmD [OF q on(1)] .
    from k [of x] on(2) have "same_service sv1 sv' \<and> isl r \<or> logged en svc act sv1 r sv'"
      by (simp add: accountable_def)
    then show ?thesis using same_service_trans [OF s] logged_later [OF s] by blast
  qed
qed

lemma accountable_fail [accountable_rules]: "accountable en svc act (io_fail e)"
  by (simp add: accountable_def io_fail_def)

lemma recorded_logged:
  assumes m: "recorded en svc act res device_name development result sv = (r, sv')"
  shows "r = result \<and> logged en svc act sv r sv'"
proof -
  let ?e = "case result of Inl e \<Rightarrow> Some e | Inr _ \<Rightarrow> None"
  obtain at w1 id w2 where n: "pk_now (en_link en) (sv_host sv) = (at, w1)" "pk_random (en_link en) 16 w1 = (id, w2)"
    by fastforce
  let ?entry = "application_entry at id svc act res device_name development ?e"
  have r: "r = result" and sv: "sv' = sv_append en ?entry (sv\<lparr>sv_host := w2\<rparr>)"
    using m n by (auto simp: recorded_def record_application_def io_defs sv_now_def sv_random_def on_host_def sv_do_def)
  have "au_service ?entry = svc \<and> au_action ?entry = act \<and> au_outcome ?entry = audit_outcome result \<and>
      au_detail ?entry = (case result of Inl e \<Rightarrow> Some (sx_message e) | Inr _ \<Rightarrow> None)"
    by (simp add: application_entry_def audit_outcome_def split: sum.split)
  then have "logged en svc act sv result sv'"
    unfolding logged_def sv by (intro exI [of _ ?entry] exI [of _ w2]) (simp add: sv_append_def)
  with r show ?thesis by simp
qed

lemma accountable_recorded [accountable_rules]:
  "accountable en svc act (recorded en svc act res device_name development result)"
  unfolding accountable_def using recorded_logged by blast

lemma calm_io_attempt [calm_rules]: "calm m \<Longrightarrow> calm (io_attempt m)"
  by (auto simp: calm_def io_attempt_def split: prod.split) (metis snd_conv)

lemma calm_walk [calm_rules]: "calm (walk_vault en first did cred)"
  by (auto simp: calm_def walk_vault_def split: prod.split)

lemma calm_session [calm_rules]: "calm (on_session en session m)"
  by (auto simp: calm_def on_session_def on_host_def sv_close_def host_do_def same_service_def split: prod.split)

lemma calm_split [calm_rules]: "(\<And>x y. calm (k x y)) \<Longrightarrow> calm (case p of (x, y) \<Rightarrow> k x y)"
  by (simp split: prod.split)

lemma accountable_split [accountable_rules]:
  "(\<And>x y. accountable en svc act (k x y)) \<Longrightarrow> accountable en svc act (case p of (x, y) \<Rightarrow> k x y)"
  by (simp split: prod.split)

lemma calm_reach_phone [calm_rules]: "calm (reach_phone en select)"
  unfolding reach_phone_def by (intro calm_rules)

lemma calm_put [calm_rules]: "calm (on_host m)"
  by (rule calm_steps)

lemma vault_list_accountable: "accountable en ''vault'' ''list'' (vault_list en credential)"
  unfolding vault_list_def Let_def by (intro accountable_rules calm_rules)

lemma ssh_sign_accountable: "accountable en ''ssh'' ''sign'' (ssh_sign en params)"
  unfolding ssh_sign_def by (intro accountable_rules calm_rules)

lemma vault_fill_accountable: "accountable en ''vault'' ''fill'' (vault_fill en params)"
proof (cases "origin_host (vfp_origin params)")
  case None
  then show ?thesis by (simp add: vault_fill_def accountable_rules)
next
  case (Some host)
  have "accountable en ''vault'' ''fill'' (case r of
      Inl e \<Rightarrow> recorded en ''vault'' ''fill'' [] device_name development (Inl e)
    | Inr item \<Rightarrow> io_bind (sv_connect en did cred) (\<lambda>session.
        io_bind (on_session en session (m session item)) (\<lambda>fetched.
        recorded en ''vault'' ''fill'' (su_id item) device_name development (h item fetched))))"
    for r device_name development did cred m and h :: "item_summary \<Rightarrow> service_error + fetch_response \<Rightarrow> service_error + 'x"
    by (cases r) (auto intro!: accountable_rules calm_rules)
  then show ?thesis unfolding vault_fill_def Some by (auto simp: Let_def intro!: accountable_rules calm_rules)
qed

lemma vault_create_accountable: "accountable en ''vault'' ''create'' (vault_create_with en params secret)"
  unfolding vault_create_with_def Let_def
  by (intro accountable_rules calm_rules) (auto intro: accountable_rules split: sum.split)

lemma vault_copy_accountable: "accountable en ''vault'' ''copy'' (vault_copy en cb locks params)"
proof -
  have "accountable en ''vault'' ''copy'' (case r of Inl e \<Rightarrow> recorded en ''vault'' ''copy'' res device_name development (Inl e)
    | Inr fetched \<Rightarrow> if P fetched then recorded en ''vault'' ''copy'' res device_name development (Inl e')
        else io_bind (io_attempt (on_host (put_on_clipboard cb locks (h fetched) ttl)))
          (\<lambda>outcome. recorded en ''vault'' ''copy'' res device_name development outcome))"
    for r :: "service_error + fetch_response" and res device_name development P e' h ttl
    by (cases r) (auto intro!: accountable_rules calm_rules)
  then show ?thesis unfolding vault_copy_def Let_def by (auto intro!: accountable_rules calm_rules)
qed

subsection \<open>What comes back\<close>

lemma io_attempt_Inr: "io_attempt m w = (Inr r, w') \<longleftrightarrow> m w = (r, w')"
  by (auto simp: io_attempt_def split: prod.split)

lemma recorded_Inr: "recorded en svc act res device_name development result sv = (Inr x, sv') \<Longrightarrow> result = Inr x"
  by (auto simp: recorded_def io_runs)

lemma reach_phone_Inr:
  assumes "reach_phone en select sv = (Inr (did, cred, session, device_name), sv1)"
  shows "select (sv_store sv) = Inr (did, cred) \<and> sv_connect en did cred sv = (Inr session, sv1)"
  using assms by (auto simp: reach_phone_def io_runs sv_read_def)

lemma on_session_Inr:
  "on_session en session m sv = (Inr (Inr y), sv') \<Longrightarrow>
    \<exists>w. m (ac_verifier_name (sv_config sv)) (sv_host sv) = (Inr y, w) \<and> sv_host sv' = pk_close (en_link en) session w"
  by (auto simp: on_session_def on_host_def sv_close_def host_do_def map_err_def split: prod.splits sum.splits)

lemma map_sum_Inr: "map_sum f g r = Inr y \<longleftrightarrow> (\<exists>x. r = Inr x \<and> y = g x)"
  by (cases r) auto

lemma the_item_iff: "the_item matched = Inr item \<longleftrightarrow> matched = [item]"
  by (auto simp: the_item_def split: list.splits)

text \<open>A password is filled only when exactly one login of the vault has the page's own host.\<close>

lemma vault_fill_site:
  assumes "vault_fill en params sv = (Inr result, sv')"
  shows "\<exists>host did cred first session items item fetched sv1 sv2 w w'.
    origin_host (vfp_origin params) = Some host \<and>
    select_vault_credential (sv_store sv) (vfp_credential_id params) = Inr (did, cred) \<and>
    walk_vault en first did cred sv1 = (Inr items, sv2) \<and> filter (item_for_host host) items = [item] \<and>
    vault_fetch (en_link en) (ac_verifier_name (sv_config sv)) session (su_id item) w = (Inr fetched, w') \<and>
    result = \<lparr>vfr_password = vs_secret fetched, vfr_username = su_username item\<rparr>"
proof (cases "origin_host (vfp_origin params)")
  case None
  with assms show ?thesis by (simp add: vault_fill_def io_fail_def)
next
  case (Some host)
  let ?rec = "\<lambda>res device_name session. recorded en ''vault'' ''fill'' res device_name (ts_is_development (se_security session))"
  from assms Some obtain did cred first device_name listed sv1 sv2 where
    r: "reach_phone en (\<lambda>s. select_vault_credential s (vfp_credential_id params)) sv = (Inr (did, cred, first, device_name), sv1)"
    and l: "walk_vault en first did cred sv1 = (listed, sv2)"
    and rest: "(case then_ok (map_err vault_service_error listed) (\<lambda>items. the_item (filter (item_for_host host) items)) of
           Inl e \<Rightarrow> ?rec [] device_name first (Inl e)
         | Inr item \<Rightarrow>
             io_bind (sv_connect en did cred) (\<lambda>session.
             io_bind (on_session en session (\<lambda>vname. vault_fetch (en_link en) vname session (su_id item))) (\<lambda>fetched.
             ?rec (su_id item) device_name first
               (map_sum id (\<lambda>fetched. \<lparr>vfr_password = vs_secret fetched, vfr_username = su_username item\<rparr>) fetched)))) sv2
        = (Inr result, sv')"
    by (auto simp: vault_fill_def io_bind_iff io_attempt_Inr Let_def)
  from rest obtain item where i: "then_ok (map_err vault_service_error listed) (\<lambda>items. the_item (filter (item_for_host host) items)) = Inr item"
    by (auto split: sum.splits dest: recorded_Inr)
  from rest [unfolded i] obtain session fetched sv3 sv4 where c: "sv_connect en did cred sv2 = (Inr session, sv3)"
    and f: "on_session en session (\<lambda>vname. vault_fetch (en_link en) vname session (su_id item)) sv3 = (Inr fetched, sv4)"
    and x: "map_sum id (\<lambda>fetched. \<lparr>vfr_password = vs_secret fetched, vfr_username = su_username item\<rparr>) fetched = Inr result"
    by (auto simp: io_bind_iff dest: recorded_Inr)
  from x obtain fr where fr: "fetched = Inr fr" "result = \<lparr>vfr_password = vs_secret fr, vfr_username = su_username item\<rparr>"
    by (auto simp: map_sum_Inr)
  have "same_service sv sv3"
    using calmD [OF calm_reach_phone r] calmD [OF calm_walk l] calmD [OF calm_steps(9) c] by (blast intro: same_service_trans)
  then have v: "ac_verifier_name (sv_config sv3) = ac_verifier_name (sv_config sv)" by (simp add: same_serviceD(2))
  from on_session_Inr [OF f [unfolded fr(1)]] v obtain w where
    "vault_fetch (en_link en) (ac_verifier_name (sv_config sv)) session (su_id item) (sv_host sv3) = (Inr fr, w)"
    by auto
  moreover from i obtain items where "listed = Inr items" "filter (item_for_host host) items = [item]"
    by (auto simp: then_ok_eq_Inr the_item_iff)
  ultimately show ?thesis using Some reach_phone_Inr [OF r] l fr by blast
qed

text \<open>A copy: the item's revision is the one asked for, and what reaches the clipboard is its secret.\<close>

lemma copy_is_what_was_asked:
  assumes "vault_copy en cb locks params sv = (Inr result, sv')"
  shows "\<exists>ttl did cred session fetched w w1 w2 out.
    clipboard_ttl (vpp_clear_after_ms params) = Inr ttl \<and>
    select_vault_credential (sv_store sv) (vpp_credential_id params) = Inr (did, cred) \<and>
    vault_fetch (en_link en) (ac_verifier_name (sv_config sv)) session (vpp_item_id params) w = (Inr fetched, w1) \<and>
    vs_revision fetched = vpp_expected_revision params \<and>
    copy_secret cb (as_bytes (vs_secret fetched)) ttl (pk_close (en_link en) session w1) = (Inr out, w2) \<and>
    result = copied_result locks (as_bytes (vs_secret fetched)) out"
proof -
  let ?sel = "\<lambda>s. select_vault_credential s (vpp_credential_id params)"
  let ?rec = "\<lambda>device_name session. recorded en ''vault'' ''copy'' (vpp_item_id params) device_name (ts_is_development (se_security session))"
  from assms obtain ttl did cred session device_name fetched sv1 sv2 where
    t: "clipboard_ttl (vpp_clear_after_ms params) = Inr ttl"
    and r: "reach_phone en ?sel sv = (Inr (did, cred, session, device_name), sv1)"
    and f: "on_session en session (\<lambda>vname. vault_fetch (en_link en) vname session (vpp_item_id params)) sv1 = (Inr fetched, sv2)"
    and rest: "(case fetched of
      Inl e \<Rightarrow> ?rec device_name session (Inl e)
    | Inr fetched \<Rightarrow>
        if vs_revision fetched \<noteq> vpp_expected_revision params
        then ?rec device_name session (Inl (service_error_new ''revision-conflict''
          ''the item changed on the phone; refresh the list and copy again''))
        else
          io_bind (io_attempt (on_host (put_on_clipboard cb locks (as_bytes (vs_secret fetched)) ttl))) (\<lambda>outcome.
          ?rec device_name session outcome)) sv2 = (Inr result, sv')"
    by (auto simp: vault_copy_def io_bind_iff io_of_iff Let_def)
  from rest obtain fr sv3 where fr: "fetched = Inr fr" "vs_revision fr = vpp_expected_revision params"
    and p: "on_host (put_on_clipboard cb locks (as_bytes (vs_secret fr)) ttl) sv2 = (Inr result, sv3)"
    by (auto simp: io_bind_iff io_attempt_Inr split: sum.splits if_splits dest: recorded_Inr)
  have "sv_config sv1 = sv_config sv" using same_serviceD(2) [OF calmD [OF calm_reach_phone r]] .
  with on_session_Inr [OF f [unfolded fr(1)]] obtain w1 where
    "vault_fetch (en_link en) (ac_verifier_name (sv_config sv)) session (vpp_item_id params) (sv_host sv1) = (Inr fr, w1)"
    and "sv_host sv2 = pk_close (en_link en) session w1"
    by auto
  moreover from p this(2) obtain out w2 where "copy_secret cb (as_bytes (vs_secret fr)) ttl (pk_close (en_link en) session w1) = (Inr out, w2)"
    and "result = copied_result locks (as_bytes (vs_secret fr)) out"
    by (auto simp: on_host_def put_on_clipboard_def io_runs split: prod.splits)
  ultimately show ?thesis using t reach_phone_Inr [OF r] fr(2) by blast
qed

text \<open>The identities an ssh client is shown are the ssh credentials with a point on file.\<close>

lemma ssh_identities_iff:
  assumes "store_unique (sv_store sv)"
  shows "(blob, comment) \<in> set (ssh_identities sv) \<longleftrightarrow>
    (\<exists>cred d c point. find_credential cred (sv_store sv) = Some (d, c) \<and> pc_purpose c = ForSsh \<and>
      point_from_spki (pc_public_key c) = Inr point \<and> encode_public_key point = Inr blob \<and>
      comment = pd_display_name d @ '' ('' @ cred @ '')'')"
proof -
  have m: "y \<in> set (List.map_filter f xs) \<longleftrightarrow> (\<exists>x \<in> set xs. f x = Some y)" for f :: "'x \<Rightarrow> 'y option" and xs y
    by (force simp: List.map_filter_def)
  have "ssh_identity d c = Some (blob, comment) \<longleftrightarrow> pc_purpose c = ForSsh \<and>
      (\<exists>point. point_from_spki (pc_public_key c) = Inr point \<and> encode_public_key point = Inr blob) \<and>
      comment = pd_display_name d @ '' ('' @ pc_credential_id c @ '')''" for d c
    by (auto simp: ssh_identity_def then_ok_eq_Inr split: sum.splits)
  then show ?thesis unfolding found_iff [OF assms] ssh_identities_def by (auto simp: m)
qed

end
