(* ===== verification/Service_WebAuthn.thy ===== *)
theory Service_WebAuthn
  imports Service_Vault Locker_Format Locker_Disk
begin

text \<open>
  Passkeys for the browser: \<open>perform_webauthn\<close>, \<open>webauthn_frame\<close>, \<open>decode_webauthn_response\<close> and
  \<open>browser_facing\<close> of \<open>phone-auth-agent/src/service.rs\<close>, and the table of cancellations of
  \<open>ipc.rs\<close>. The JSON library is a parameter. Times are in milliseconds; \<open>Instant\<close> is a clock of
  its own beside the wall clock.
\<close>

subsection \<open>The JSON library\<close>

record 'json json_lib =
  js_get :: "'json \<Rightarrow> string \<Rightarrow> 'json option"
  js_as_str :: "'json \<Rightarrow> string option"
  js_as_u64 :: "'json \<Rightarrow> u64 option"
  js_as_bool :: "'json \<Rightarrow> bool option"
  js_is_object :: "'json \<Rightarrow> bool"
  js_object :: "(string \<times> 'json) list \<Rightarrow> 'json"
  js_array :: "'json list \<Rightarrow> 'json"
  js_str :: "string \<Rightarrow> 'json"
  js_u64 :: "u64 \<Rightarrow> 'json"
  js_bool :: "bool \<Rightarrow> 'json"
  js_to_vec :: "'json \<Rightarrow> bytes option"
  js_from_slice :: "bytes \<Rightarrow> 'json option"

subsection \<open>Cancellations\<close>

text \<open>A hash map, as the list of its entries in the order it walks them. The clock is read once.\<close>

type_synonym cancellations = "(string \<times> nat) list"

definition take_webauthn_cancellation :: "string \<Rightarrow> cancellations \<Rightarrow> bool \<times> cancellations" where
  "take_webauthn_cancellation rid tab = (map_of tab rid \<noteq> None, filter (\<lambda>(r, _). r \<noteq> rid) tab)"

fun oldest_entry :: "cancellations \<Rightarrow> (string \<times> nat) option" where
  "oldest_entry [] = None"
| "oldest_entry (e # tab) =
    (case oldest_entry tab of None \<Rightarrow> Some e | Some e' \<Rightarrow> Some (if snd e \<le> snd e' then e else e'))"

definition cancel_webauthn :: "string \<Rightarrow> nat \<Rightarrow> cancellations \<Rightarrow> bool \<times> cancellations" where
  "cancel_webauthn rid now tab =
    (let tab = filter (\<lambda>(_, created). now - created < 300000) tab;
         tab = (if 128 \<le> length tab then
                  (case oldest_entry tab of None \<Rightarrow> tab | Some (r, _) \<Rightarrow> filter (\<lambda>(r', _). r' \<noteq> r) tab)
                else tab) in
     (True, (rid, now) # filter (\<lambda>(r, _). r \<noteq> rid) tab))"

lemma oldest_in: "tab \<noteq> [] \<Longrightarrow> \<exists>e \<in> set tab. oldest_entry tab = Some e"
proof (induction tab)
  case (Cons e tab)
  then show ?case by (cases "tab = []") (force split: option.splits)+
qed simp

lemma filter_out_shorter: "e \<in> set xs \<Longrightarrow> \<not> P e \<Longrightarrow> length (filter P xs) < length xs"
  by (rule length_filter_less) auto

lemma cancel_bounded:
  assumes "length tab \<le> 128"
  shows "length (snd (cancel_webauthn rid now tab)) \<le> 128"
proof -
  define kept where "kept = filter (\<lambda>(_, created). now - created < 300000) tab"
  define room where "room = (if 128 \<le> length kept then
      (case oldest_entry kept of None \<Rightarrow> kept | Some (r, _) \<Rightarrow> filter (\<lambda>(r', _). r' \<noteq> r) kept) else kept)"
  have "length kept \<le> 128" unfolding kept_def using assms by (meson le_trans length_filter_le)
  have "length room < 128"
  proof (cases "128 \<le> length kept")
    case True
    then have "kept \<noteq> []" by auto
    from oldest_in [OF this] obtain r t where e: "(r, t) \<in> set kept" "oldest_entry kept = Some (r, t)" by force
    have "length (filter (\<lambda>(r', _). r' \<noteq> r) kept) < length kept" by (rule filter_out_shorter [OF e(1)]) simp
    with e(2) True \<open>length kept \<le> 128\<close> show ?thesis by (simp add: room_def)
  qed (simp add: room_def)
  then have "length (filter (\<lambda>(r, _). r \<noteq> rid) room) < 128" by (rule le_less_trans [OF length_filter_le])
  then have "Suc (length (filter (\<lambda>(r, _). r \<noteq> rid) room)) \<le> 128" by (rule Suc_leI)
  then show ?thesis
    by (simp only: cancel_webauthn_def Let_def kept_def [symmetric] room_def [symmetric] snd_conv list.size(4)
        add_Suc_right add_0_right)
qed

lemma cancel_then_take: "fst (take_webauthn_cancellation rid (snd (cancel_webauthn rid now tab)))"
  by (simp add: cancel_webauthn_def take_webauthn_cancellation_def Let_def)

lemma taken_once: "\<not> fst (take_webauthn_cancellation rid (snd (take_webauthn_cancellation rid tab)))"
proof -
  have "map_of (filter (\<lambda>(r, _). r \<noteq> rid) tab) rid = None" by (simp add: map_of_eq_None_iff image_iff) 
  then show ?thesis by (simp add: take_webauthn_cancellation_def)
qed

subsection \<open>Frames\<close>

definition WEBAUTHN_MAGIC :: bytes where "WEBAUTHN_MAGIC = as_bytes ''BAWA1'' @ [0x0A]"
definition WEBAUTHN_TIMEOUT :: nat where "WEBAUTHN_TIMEOUT = 90000"

definition webauthn_frame :: "'json json_lib \<Rightarrow> 'json \<Rightarrow> service_error + bytes" where
  "webauthn_frame js value =
    (case js_to_vec js value of
       None \<Rightarrow> Inl (service_error_new ''bad-request'' ''could not encode WebAuthn request'')
     | Some written \<Rightarrow>
         let frame = WEBAUTHN_MAGIC @ written in
         if length frame > MAX_FRAME
         then Inl (service_error_new ''bad-request'' ''WebAuthn request exceeds the secure-session frame limit'')
         else Inr frame)"

definition browser_facing :: "service_error \<Rightarrow> service_error" where
  "browser_facing e =
    (if sx_code e = ''declined'' then service_error_new ''declined'' ''passkey operation was cancelled or rejected'' else e)"

text \<open>\<open>chars().filter(..).take(160).collect()\<close>.\<close>

definition printable_160 :: "string \<Rightarrow> string" where
  "printable_160 s =
    bytes_string (concat (map snd (take 160 (filter (\<lambda>p. \<not> is_control (fst p)) (utf8_pieces (as_bytes s))))))"

definition reported_refusal :: "'json json_lib \<Rightarrow> 'json \<Rightarrow> string" where
  "reported_refusal js value =
    (case map_option printable_160 (Option.bind (js_get js value ''error'') (js_as_str js)) of
       Some reason \<Rightarrow> if str_trim reason = [] then ''passkey operation was cancelled or rejected'' else reason
     | None \<Rightarrow> ''passkey operation was cancelled or rejected'')"

definition decode_webauthn_response :: "'json json_lib \<Rightarrow> bytes \<Rightarrow> string \<Rightarrow> service_error + 'json" where
  "decode_webauthn_response js frame expected_request_id =
    (if take (length WEBAUTHN_MAGIC) frame \<noteq> WEBAUTHN_MAGIC
     then Inl (service_error_new ''bad-frame'' ''phone returned an invalid WebAuthn frame'')
     else case js_from_slice js (drop (length WEBAUTHN_MAGIC) frame) of
       None \<Rightarrow> Inl (service_error_new ''bad-frame'' ''phone returned invalid WebAuthn JSON'')
     | Some value \<Rightarrow>
         if Option.bind (js_get js value ''version'') (js_as_u64 js) \<noteq> Some 1
            \<or> Option.bind (js_get js value ''type'') (js_as_str js) \<noteq> Some ''webauthn.response''
            \<or> Option.bind (js_get js value ''requestId'') (js_as_str js) \<noteq> Some expected_request_id
         then Inl (service_error_new ''bad-frame'' ''WebAuthn response did not match the request'')
         else if Option.bind (js_get js value ''ok'') (js_as_bool js) \<noteq> Some True
         then Inl (service_error_new ''declined'' (reported_refusal js value))
         else case js_get js value ''response'' of
           Some response \<Rightarrow>
             if js_is_object js response then Inr response
             else Inl (service_error_new ''bad-frame'' ''phone returned no WebAuthn response'')
         | None \<Rightarrow> Inl (service_error_new ''bad-frame'' ''phone returned no WebAuthn response''))"

subsection \<open>The ceremony\<close>

record 'json webauthn_params =
  wnp_request_id :: string
  wnp_operation :: string
  wnp_origin :: string
  wnp_options :: 'json
  wnp_credential_id :: "string option"

text \<open>What the ceremony shares with the rest of the agent: the table, and the monotonic clock.\<close>

record 'w webauthn_host =
  wh_cancellations :: "'w \<Rightarrow> cancellations"
  wh_put :: "cancellations \<Rightarrow> 'w \<Rightarrow> 'w"
  wh_instant :: "'w \<Rightarrow> nat \<times> 'w"

definition wh_take :: "'w webauthn_host \<Rightarrow> string \<Rightarrow> 'w \<Rightarrow> bool \<times> 'w" where
  "wh_take wh rid w = (case take_webauthn_cancellation rid (wh_cancellations wh w) of (b, tab) \<Rightarrow> (b, wh_put wh tab w))"

definition request_id_char :: "nat \<Rightarrow> bool" where
  "request_id_char c \<longleftrightarrow>
    0x30 \<le> c \<and> c \<le> 0x39 \<or> 0x41 \<le> c \<and> c \<le> 0x5A \<or> 0x61 \<le> c \<and> c \<le> 0x7A \<or> c = 0x2D"

definition webauthn_acceptable :: "'json json_lib \<Rightarrow> 'json webauthn_params \<Rightarrow> bool" where
  "webauthn_acceptable js params \<longleftrightarrow> \<not>
    (wnp_request_id params = [] \<or> length (wnp_request_id params) > 64
     \<or> \<not> list_all request_id_char (chars (wnp_request_id params))
     \<or> \<not> (wnp_operation params = ''create'' \<or> wnp_operation params = ''get'')
     \<or> length (wnp_origin params) > 2048
     \<or> strip_prefix (wnp_origin params) ''https://'' = None
     \<or> list_ex is_whitespace (chars (wnp_origin params))
     \<or> \<not> js_is_object js (wnp_options params))"

definition cancel_message :: "'json json_lib \<Rightarrow> string \<Rightarrow> 'json" where
  "cancel_message js rid = js_object js
    [(''version'', js_u64 js 1), (''type'', js_str js ''webauthn.cancel''), (''requestId'', js_str js rid)]"

definition request_message :: "'json json_lib \<Rightarrow> string \<Rightarrow> 'json webauthn_params \<Rightarrow> 'json" where
  "request_message js vid params = js_object js
    [(''version'', js_u64 js 1), (''type'', js_str js ''webauthn.request''),
     (''requestId'', js_str js (wnp_request_id params)), (''verifierId'', js_str js vid),
     (''operation'', js_str js (wnp_operation params)), (''origin'', js_str js (wnp_origin params)),
     (''options'', wnp_options params)]"

text \<open>A ceremony given up: the phone is told, and whether it heard does not matter.\<close>

definition give_up ::
    "'json json_lib \<Rightarrow> 'w phone_link \<Rightarrow> secure_session \<Rightarrow> string \<Rightarrow> service_error \<Rightarrow> ('w, service_error, 'a) io_on" where
  "give_up js link session rid e =
    io_bind (io_of (webauthn_frame js (cancel_message js rid))) (\<lambda>frame.
    io_bind (io_ignore (pk_send link session frame)) (\<lambda>_. io_fail e))"

text \<open>
  The wait for an answer. \<open>waits\<close> tells the two kinds of error that only mean there is nothing yet
  (\<open>TimedOut\<close> and \<open>WouldBlock\<close>) from the others. The fuel is enough as \<open>wait_ends\<close> shows; \<open>None\<close> is a
  loop that has not ended with it.
\<close>

fun webauthn_wait ::
    "'json json_lib \<Rightarrow> 'w phone_link \<Rightarrow> 'w webauthn_host \<Rightarrow> (io_error \<Rightarrow> bool) \<Rightarrow> secure_session \<Rightarrow> string \<Rightarrow> nat \<Rightarrow>
     nat \<Rightarrow> 'w \<Rightarrow> ((service_error + 'json) \<times> 'w) option" where
  "webauthn_wait js link wh waits session rid deadline 0 w = None"
| "webauthn_wait js link wh waits session rid deadline (Suc fuel) w =
    (case wh_take wh rid w of
       (True, w) \<Rightarrow> Some (give_up js link session rid (service_error_new ''cancelled'' ''WebAuthn request was cancelled'') w)
     | (False, w) \<Rightarrow>
    (case wh_instant wh w of (now, w) \<Rightarrow>
       if now > deadline
       then Some (give_up js link session rid (service_error_new ''timeout'' ''WebAuthn request timed out'') w)
       else case pk_receive link session (int (min (deadline - now) 250)) w of
         (Inr response, w) \<Rightarrow> Some (decode_webauthn_response js response rid, w)
       | (Inl e, w) \<Rightarrow>
           if waits e then webauthn_wait js link wh waits session rid deadline fuel w
           else Some (Inl (service_error_new ''transport-failed'' (pk_io_text link e)), w)))"

text \<open>The closure of \<open>perform_webauthn\<close>.\<close>

definition webauthn_exchange ::
    "'json json_lib \<Rightarrow> 'w phone_link \<Rightarrow> 'w webauthn_host \<Rightarrow> (io_error \<Rightarrow> bool) \<Rightarrow> nat \<Rightarrow> secure_session \<Rightarrow> string \<Rightarrow> bytes \<Rightarrow>
     'w \<Rightarrow> ((service_error + 'json) \<times> 'w) option" where
  "webauthn_exchange js link wh waits fuel session rid frame w =
    (case pk_send link session frame w of
       (Inl e, w) \<Rightarrow> Some (Inl (service_error_new ''transport-failed'' (pk_io_text link e)), w)
     | (Inr _, w) \<Rightarrow>
         (case wh_instant wh w of (now, w) \<Rightarrow>
            webauthn_wait js link wh waits session rid (now + WEBAUTHN_TIMEOUT) fuel w))"

definition webauthn_finish ::
    "('key, 'sig, 'secret, 'w) surroundings \<Rightarrow> 'w webauthn_host \<Rightarrow> 'json webauthn_params \<Rightarrow> secure_session \<Rightarrow> string \<Rightarrow>
     service_error + 'json \<Rightarrow> ('w, 'json) service_io" where
  "webauthn_finish en wh params session device_name result =
    io_bind (sv_do (host_do (\<lambda>w. snd (wh_take wh (wnp_request_id params) w)))) (\<lambda>_.
    io_bind (sv_do (sv_close en session)) (\<lambda>_.
    io_map_err browser_facing (recorded en ''webauthn'' (wnp_operation params) (wnp_origin params) device_name
      (ts_is_development (se_security session)) result)))"

definition webauthn_ceremony ::
    "'json json_lib \<Rightarrow> ('key, 'sig, 'secret, 'w) surroundings \<Rightarrow> 'w webauthn_host \<Rightarrow> (io_error \<Rightarrow> bool) \<Rightarrow> nat \<Rightarrow>
     'json webauthn_params \<Rightarrow> secure_session \<Rightarrow> string \<Rightarrow> bytes \<Rightarrow>
     'w service \<Rightarrow> ((service_error + 'json) \<times> 'w service) option" where
  "webauthn_ceremony js en wh waits fuel params session device_name frame sv =
    (case webauthn_exchange js (en_link en) wh waits fuel session (wnp_request_id params) frame (sv_host sv) of
       None \<Rightarrow> None
     | Some (result, w) \<Rightarrow> Some (webauthn_finish en wh params session device_name result (sv\<lparr>sv_host := w\<rparr>)))"

text \<open>What comes before the phone is asked: the session, its device and the frame to send.\<close>

definition webauthn_opening ::
    "'json json_lib \<Rightarrow> ('key, 'sig, 'secret, 'w) surroundings \<Rightarrow> 'json webauthn_params \<Rightarrow>
     ('w, secure_session \<times> string \<times> bytes) service_io" where
  "webauthn_opening js en params =
    (if \<not> webauthn_acceptable js params then io_fail (service_error_new ''bad-request'' ''invalid WebAuthn request'')
     else case js_to_vec js (wnp_options params) of
       None \<Rightarrow> io_fail (service_error_new ''bad-request'' ''invalid WebAuthn options'')
     | Some encoded \<Rightarrow>
         if length encoded > 6000
         then io_fail (service_error_new ''bad-request'' ''WebAuthn options exceed the relay limit'')
         else
           io_bind (sv_read (\<lambda>sv. select_service_credential (sv_store sv) ''webauthn'' ''passkey relay''
             (wnp_credential_id params))) (\<lambda>selected.
           io_bind (io_of selected) (\<lambda>(device_id, cred).
           io_bind (sv_connect en device_id cred) (\<lambda>session.
           if \<not> suitable_for_authorization (se_security session)
           then io_bind (sv_do (sv_close en session)) (\<lambda>_. io_fail (service_error_new ''channel-unsuitable''
             ''desktop passkeys require an authenticated confidential session''))
           else
             io_bind (sv_read (device_name_of device_id)) (\<lambda>device_name.
             io_bind (sv_read (\<lambda>sv. ac_verifier_id (sv_config sv))) (\<lambda>vid.
             io_bind (io_of (webauthn_frame js (request_message js vid params))) (\<lambda>frame.
             io_return (session, device_name, frame))))))))"

definition perform_webauthn ::
    "'json json_lib \<Rightarrow> ('key, 'sig, 'secret, 'w) surroundings \<Rightarrow> 'w webauthn_host \<Rightarrow> (io_error \<Rightarrow> bool) \<Rightarrow> nat \<Rightarrow>
     'json webauthn_params \<Rightarrow> 'w service \<Rightarrow> ((service_error + 'json) \<times> 'w service) option" where
  "perform_webauthn js en wh waits fuel params sv =
    (case webauthn_opening js en params sv of
       (Inl e, sv) \<Rightarrow> Some (Inl e, sv)
     | (Inr (session, device_name, frame), sv) \<Rightarrow>
         webauthn_ceremony js en wh waits fuel params session device_name frame sv)"


subsection \<open>What the page and the log are told\<close>

definition ticking :: "('w \<Rightarrow> nat) \<Rightarrow> 'w phone_link \<Rightarrow> 'w webauthn_host \<Rightarrow> (io_error \<Rightarrow> bool) \<Rightarrow> bool" where
  "ticking clock link wh waits \<longleftrightarrow>
    (\<forall>w. \<exists>w'. wh_instant wh w = (clock w', w') \<and> clock w \<le> clock w') \<and>
    (\<forall>tab w. clock (wh_put wh tab w) = clock w) \<and>
    (\<forall>session t w e w'. pk_receive link session t w = (Inl e, w') \<longrightarrow> waits e \<longrightarrow> clock w < clock w')"

lemma ticking_instant: "ticking clock link wh waits \<Longrightarrow> wh_instant wh w = (now, w') \<Longrightarrow> now = clock w' \<and> clock w \<le> clock w'"
  unfolding ticking_def by (metis prod.inject)

lemma ticking_take: "ticking clock link wh waits \<Longrightarrow> wh_take wh rid w = (b, w') \<Longrightarrow> clock w' = clock w"
  by (auto simp: ticking_def wh_take_def split: prod.splits)

lemma ticking_receive:
  "ticking clock link wh waits \<Longrightarrow> pk_receive link session t w = (Inl e, w') \<Longrightarrow> waits e \<Longrightarrow> clock w < clock w'"
  unfolding ticking_def by blast

lemma wait_ends:
  assumes tick: "ticking clock link wh waits"
  shows "0 < fuel \<Longrightarrow> deadline + 1 < clock w + fuel \<Longrightarrow> webauthn_wait js link wh waits session rid deadline fuel w \<noteq> None"
proof (induction fuel arbitrary: w)
  case (Suc fuel)
  obtain b w1 where b: "wh_take wh rid w = (b, w1)" by fastforce
  obtain now w2 where n: "wh_instant wh w1 = (now, w2)" by fastforce
  obtain r w3 where r: "pk_receive link session (int (min (deadline - now) 250)) w2 = (r, w3)" by fastforce
  show ?case
  proof (cases "\<not> b \<and> now \<le> deadline \<and> (\<exists>e. r = Inl e \<and> waits e)")
    case True
    then obtain e where e: "r = Inl e" "waits e" by blast
    have "clock w < clock w3" "clock w \<le> now"
      using ticking_take [OF tick b] ticking_instant [OF tick n] ticking_receive [OF tick r [unfolded e(1)] e(2)] by simp_all
    with True Suc.prems have "0 < fuel" "deadline + 1 < clock w3 + fuel" by simp_all
    then have "webauthn_wait js link wh waits session rid deadline fuel w3 \<noteq> None" by (rule Suc.IH)
    with True e b n r show ?thesis by (simp add: not_less [symmetric])
  qed (use b n r in \<open>auto split: bool.splits sum.splits\<close>)
next
  case 0
  then show ?case by simp
qed


lemma webauthn_exchange_ends:
  assumes tick: "ticking clock link wh waits" and fuel: "WEBAUTHN_TIMEOUT + 1 < fuel"
  shows "webauthn_exchange js link wh waits fuel session rid frame w \<noteq> None"
proof -
  obtain r w1 where s: "pk_send link session frame w = (r, w1)" by fastforce
  obtain now w2 where n: "wh_instant wh w1 = (now, w2)" by fastforce
  have "webauthn_wait js link wh waits session rid (now + WEBAUTHN_TIMEOUT) fuel w2 \<noteq> None"
    by (rule wait_ends [OF tick]) (use fuel ticking_instant [OF tick n] in simp_all)
  then show ?thesis using s n by (simp add: webauthn_exchange_def split: sum.split)
qed

lemma webauthn_ends:
  assumes "ticking clock (en_link en) wh waits" and "WEBAUTHN_TIMEOUT + 1 < fuel"
  shows "perform_webauthn js en wh waits fuel params sv \<noteq> None"
proof -
  note ends = webauthn_exchange_ends [OF assms]
  show ?thesis
    unfolding perform_webauthn_def webauthn_ceremony_def by (auto split: sum.split prod.split option.split dest: notE [OF ends])
qed

lemma calm_if [calm_rules]: "(P \<Longrightarrow> calm m) \<Longrightarrow> (\<not> P \<Longrightarrow> calm n) \<Longrightarrow> calm (if P then m else n)"
  by simp

lemma calm_close [calm_rules]: "calm (sv_do (sv_close en session))"
  by (simp add: calm_def sv_do_def sv_close_def)

lemma opening_calm: "calm (webauthn_opening js en params)"
  unfolding webauthn_opening_def
  by (cases "js_to_vec js (wnp_options params)") (auto intro!: calm_rules simp: split_beta)

lemma select_never_declined: "select_service_credential store svc label requested = Inl e \<Longrightarrow> sx_code e \<noteq> ''declined''"
  by (auto simp: select_service_credential_def Let_def the_candidate_def service_error_new_def
      split: option.splits if_splits list.splits prod.splits)

lemma opening_never_declined:
  assumes "webauthn_opening js en params sv = (Inl e, sv')"
  shows "sx_code e \<noteq> ''declined''"
  using assms
  by (auto simp: webauthn_opening_def io_defs sv_read_def sv_connect_def sv_do_def on_host_def webauthn_frame_def Let_def
      service_error_new_def split: if_splits option.splits sum.splits prod.splits dest: select_never_declined)


lemma finish_cases:
  assumes "webauthn_finish en wh params session device_name result sv = (r, sv')"
  shows "r = map_err browser_facing result \<and> logged en ''webauthn'' (wnp_operation params) sv result sv'"
proof -
  define sv1 where "sv1 = sv_close en session (host_do (\<lambda>w. snd (wh_take wh (wnp_request_id params) w)) sv)"
  obtain r1 where f: "recorded en ''webauthn'' (wnp_operation params) (wnp_origin params) device_name
      (ts_is_development (se_security session)) result sv1 = (r1, sv')" and r: "r = map_err browser_facing r1"
    using assms unfolding webauthn_finish_def sv1_def io_bind_def sv_do_def io_map_err_def
    by (auto simp: map_err_def split: prod.splits sum.splits)
  have same: "same_service sv sv1" by (simp add: sv1_def sv_close_def same_service_trans [OF same_service_refl(3) same_service_refl(3)])
  from same r recorded_logged [OF f] show ?thesis by (blast intro: logged_later)
qed

text \<open>Either the phone was never asked, or what came of it is in the log, in the phone's own words.\<close>

lemma webauthn_cases:
  assumes "perform_webauthn js en wh waits fuel params sv = Some (r, sv')"
  obtains (unasked) e where "r = Inl e" "sx_code e \<noteq> ''declined''" "same_service sv sv'"
    "webauthn_opening js en params sv = (Inl e, sv')"
  | (asked) session device_name frame sv1 result w where
    "webauthn_opening js en params sv = (Inr (session, device_name, frame), sv1)"
    "webauthn_exchange js (en_link en) wh waits fuel session (wnp_request_id params) frame (sv_host sv1) = Some (result, w)"
    "r = map_err browser_facing result" "logged en ''webauthn'' (wnp_operation params) sv result sv'"
proof -
  obtain q sv1 where o: "webauthn_opening js en params sv = (q, sv1)" by fastforce
  have same: "same_service sv sv1" by (rule calmD [OF opening_calm o])
  show thesis
  proof (cases q)
    case (Inl e)
    with o assms have "r = Inl e" "sv' = sv1" by (auto simp: perform_webauthn_def)
    with Inl o same opening_never_declined [OF o [unfolded Inl]] show thesis by (intro unasked) auto
  next
    case (Inr t)
    obtain session device_name frame where t: "t = (session, device_name, frame)" by (metis prod_cases3)
    with o Inr assms obtain result w where
      e: "webauthn_exchange js (en_link en) wh waits fuel session (wnp_request_id params) frame (sv_host sv1) = Some (result, w)"
      and f: "webauthn_finish en wh params session device_name result (sv1\<lparr>sv_host := w\<rparr>) = (r, sv')"
      by (auto simp: perform_webauthn_def webauthn_ceremony_def split: option.splits prod.splits)
    from finish_cases [OF f] same_service_trans [OF same same_service_refl(2)] have
      "r = map_err browser_facing result" "logged en ''webauthn'' (wnp_operation params) sv result sv'"
      by (blast intro: logged_later)+
    with o Inr t e show thesis by (intro asked) auto
  qed
qed

lemma webauthn_refusals:
  assumes "perform_webauthn js en wh waits fuel params sv = Some (Inl e, sv')" and "sx_code e = ''declined''"
  shows "sx_message e = ''passkey operation was cancelled or rejected''"
  using assms(1)
proof (cases rule: webauthn_cases)
  case (asked session device_name frame sv1 result w)
  then obtain e0 where "e = browser_facing e0" by (cases result) (auto simp: map_err_def)
  with assms(2) show ?thesis by (auto simp: browser_facing_def service_error_new_def split: if_splits)
qed (use assms(2) in simp)

lemma wait_Inr:
  "webauthn_wait js link wh waits session rid deadline fuel w = Some (Inr response, w') \<Longrightarrow>
   \<exists>frame. decode_webauthn_response js frame rid = Inr response"
proof (induction fuel arbitrary: w)
  case (Suc fuel)
  then show ?case
    by (auto simp: give_up_def io_bind_def io_of_def io_fail_def io_ignore_def
        split: bool.splits prod.splits sum.splits if_splits) 
qed simp

lemma decode_Inr:
  assumes "decode_webauthn_response js frame rid = Inr response"
  shows "js_is_object js response"
  using assms by (auto simp: decode_webauthn_response_def Let_def split: if_splits option.splits)


lemma webauthn_answer:
  assumes "perform_webauthn js en wh waits fuel params sv = Some (Inr response, sv')"
  shows "\<exists>frame. decode_webauthn_response js frame (wnp_request_id params) = Inr response"
  using assms
proof (cases rule: webauthn_cases)
  case (asked session device_name frame sv1 result w)
  from asked(3) have "result = Inr response" by (cases result) (auto simp: map_err_def)
  with asked(2) show ?thesis
    by (auto simp: webauthn_exchange_def split: prod.splits sum.splits dest: wait_Inr)
qed auto

text \<open>What the page hears does not depend on what the phone said when it refused.\<close>

lemma decode_refusal:
  assumes "take (length WEBAUTHN_MAGIC) frame = WEBAUTHN_MAGIC" "js_from_slice js (drop (length WEBAUTHN_MAGIC) frame) = Some value"
    "Option.bind (js_get js value ''version'') (js_as_u64 js) = Some 1"
    "Option.bind (js_get js value ''type'') (js_as_str js) = Some ''webauthn.response''"
    "Option.bind (js_get js value ''requestId'') (js_as_str js) = Some rid"
    "Option.bind (js_get js value ''ok'') (js_as_bool js) \<noteq> Some True"
  shows "map_err browser_facing (decode_webauthn_response js frame rid) =
    Inl (service_error_new ''declined'' ''passkey operation was cancelled or rejected'')"
  using assms by (simp add: decode_webauthn_response_def map_err_def browser_facing_def service_error_new_def)

end
