(* ===== verification/Service_Locker.thy ===== *)
theory Service_Locker
  imports Service_Vault Locker_Safety Phone_Custodian
begin

text \<open>
  The file locker and the enrolment of a volume key as the service runs them
  (\<open>phone-auth-agent/src/service.rs\<close>), over the disk of the locker engine: the surroundings are the
  disk itself, and the agent's own files (its store and its log) are apart from it. A
  \<open>RecoverySlot\<close> is a file claimed before the work, which goes when it is dropped unwritten.
\<close>

subsection \<open>Files claimed in advance\<close>

fun locker_error_text :: "(io_error \<Rightarrow> string) \<Rightarrow> locker_error \<Rightarrow> string" where
  "locker_error_text io_text (LockerIo e) = io_text e"
| "locker_error_text io_text NotAContainer = ''not a locker container''"
| "locker_error_text io_text (UnsupportedContainer version) = ''unsupported container version: '' @ decimal (unat version)"
| "locker_error_text io_text (MalformedContainer reason) = ''malformed container: '' @ reason"
| "locker_error_text io_text (SectionTooLarge section_name limit) =
    ''container '' @ section_name @ '' exceeds the '' @ decimal limit @ '' byte limit''"
| "locker_error_text io_text Corrupt = ''container failed authentication''"
| "locker_error_text io_text (NoWrapper PhoneWrapper) = ''this container has no phone wrapper''"
| "locker_error_text io_text (NoWrapper RecoveryWrapper) = ''this container has no recovery wrapper''"
| "locker_error_text io_text BadRecoveryCode = ''invalid recovery code''"
| "locker_error_text io_text UnsafeName = ''container holds an unusable file name''"
| "locker_error_text io_text (NotARegularFile what) = ''the locker only works on regular files, and this is '' @ what"
| "locker_error_text io_text SharedOriginal =
    ''this file has another name pointing at the same contents; removing this one would leave it readable under the other''"
| "locker_error_text io_text (DestinationExists p) = p @ '' already exists''"
| "locker_error_text io_text InputChanged = ''the file changed while it was being read''"
| "locker_error_text io_text (LockerDenied message) = message"
| "locker_error_text io_text Panicked = []"

fun locker_code :: "locker_error \<Rightarrow> string" where
  "locker_code (LockerDenied _) = ''declined''"
| "locker_code Corrupt = ''corrupt-container''"
| "locker_code NotAContainer = ''not-a-container''"
| "locker_code (UnsupportedContainer _) = ''not-a-container''"
| "locker_code (MalformedContainer _) = ''not-a-container''"
| "locker_code (SectionTooLarge _ _) = ''container-too-large''"
| "locker_code (NoWrapper _) = ''no-wrapper''"
| "locker_code BadRecoveryCode = ''bad-recovery-code''"
| "locker_code UnsafeName = ''unsafe-name''"
| "locker_code (NotARegularFile _) = ''not-a-regular-file''"
| "locker_code SharedOriginal = ''shared-original''"
| "locker_code (DestinationExists _) = ''destination-exists''"
| "locker_code InputChanged = ''input-changed''"
| "locker_code (LockerIo _) = ''io-failed''"
| "locker_code Panicked = []"

definition locker_service_error :: "(io_error \<Rightarrow> string) \<Rightarrow> locker_error \<Rightarrow> service_error" where
  "locker_service_error io_text e = service_error_new (locker_code e) (locker_error_text io_text e)"

definition io_failed :: "(io_error \<Rightarrow> string) \<Rightarrow> io_error \<Rightarrow> service_error" where
  "io_failed io_text e = service_error_new ''io-failed'' (io_text e)"

definition absolute_path :: "string \<Rightarrow> service_error + path" where
  "absolute_path p =
    (if p \<noteq> [] \<and> hd p = CHR ''/'' then Inr p
     else Inl (service_error_new ''bad-request'' ''locker paths must be absolute''))"

text \<open>\<open>set_permissions\<close> of an open file, and \<open>std::fs::write\<close>: opened, emptied, written.\<close>

definition d_restrict :: "nat \<Rightarrow> (io_error, unit) dio" where
  "d_restrict i = d_call (\<lambda>_ d. d) (\<lambda>d. (Inr (), put_inode i ((dk_inodes d i)\<lparr>in_mode := 0x180\<rparr>) d))"

definition d_truncate :: "path \<Rightarrow> (io_error, nat) dio" where
  "d_truncate p = d_call (\<lambda>_ d. d) (\<lambda>d.
    (case dk_nodes d (follow d p) of
       Some (FileNode i) \<Rightarrow> (Inr i, put_inode i ((dk_inodes d i)\<lparr>in_content := []\<rparr>) d)
     | Some DirNode \<Rightarrow> (Inl (OtherIo 21), d)
     | Some _ \<Rightarrow> (Inl (OtherIo 6), d)
     | None \<Rightarrow> (Inr (dk_next d),
         put_inode (dk_next d) \<lparr>in_content = [], in_mode = dk_new_mode d, in_modified_ms = 0, in_links = 1\<rparr>
           (d\<lparr>dk_nodes := (dk_nodes d)(follow d p \<mapsto> FileNode (dk_next d)), dk_next := dk_next d + 1\<rparr>))))"

definition d_write_file :: "path \<Rightarrow> bytes \<Rightarrow> (io_error, unit) dio" where
  "d_write_file p bs = io_bind (d_truncate p) (\<lambda>i. d_write_all i bs)"

definition claim_private_file ::
    "(io_error \<Rightarrow> string) \<Rightarrow> string \<Rightarrow> string \<Rightarrow> path \<Rightarrow> (disk, service_error, unit) io_on" where
  "claim_private_file io_text code message p =
    io_bind (io_map_err (\<lambda>e. if e = AlreadyExists then service_error_new code message else io_failed io_text e)
      (d_create_new p)) (\<lambda>i. io_ignore (d_restrict i))"

definition claim_recovery_file :: "(io_error \<Rightarrow> string) \<Rightarrow> path \<Rightarrow> (disk, service_error, unit) io_on" where
  "claim_recovery_file io_text =
    claim_private_file io_text ''recovery-file-exists'' ''that recovery code file already exists; choose another path''"

definition claim_key_file :: "(io_error \<Rightarrow> string) \<Rightarrow> path \<Rightarrow> (disk, service_error, unit) io_on" where
  "claim_key_file io_text =
    claim_private_file io_text ''key-file-exists'' ''that key file already exists; choose another path''"

text \<open>The work up to the writing of the slot: if it fails the slot is dropped, and its file with it.\<close>

definition with_slot :: "path \<Rightarrow> (disk, 'a) service_io \<Rightarrow> (disk, 'a) service_io" where
  "with_slot p m = io_on_error m (on_host (d_remove_file p) :: (disk service, io_error, unit) io_on)"

definition slot_write :: "(io_error \<Rightarrow> string) \<Rightarrow> path \<Rightarrow> bytes \<Rightarrow> (disk, unit) service_io" where
  "slot_write io_text p bs = on_host (io_map_err (io_failed io_text) (d_write_file p bs))"

definition recovery_line :: "string \<Rightarrow> bytes" where
  "recovery_line code = as_bytes (code @ [CHR 0x0A])"

subsection \<open>Locking\<close>

type_synonym ('key, 'sig, 'secret) locker_surroundings = "('key, 'sig, 'secret, disk) surroundings"

text \<open>
  The closure of \<open>phone_custodian\<close> gives its first caller the session already open and dials for the
  others. Locking and unlocking ask the phone once; a re-key unwraps first and wraps after that.
\<close>

definition dial :: "('key, 'sig, 'secret) locker_surroundings \<Rightarrow> string \<Rightarrow> string \<Rightarrow> (disk, locker_error, secure_session) io_on" where
  "dial en device_id cred = io_map_err LockerDenied (registry_connect (en_transports en) device_id cred)"

definition asking_once ::
    "('key, 'sig, 'secret) locker_surroundings \<Rightarrow> string \<Rightarrow> secure_session \<Rightarrow> string \<Rightarrow> custodian" where
  "asking_once en vname session cred =
    as_custodian (en_link en) (custodian_new (io_return session) vname cred)"

definition asking_twice ::
    "('key, 'sig, 'secret) locker_surroundings \<Rightarrow> string \<Rightarrow> secure_session \<Rightarrow> string \<Rightarrow> string \<Rightarrow> custodian" where
  "asking_twice en vname session device_id cred =
    \<lparr>cu_wrap = custodian_wrap (en_link en) (rekeying (custodian_new (dial en device_id cred) vname cred)),
     cu_unwrap = custodian_unwrap (en_link en) (rekeying (custodian_new (io_return session) vname cred))\<rparr>"

record locker_lock_params =
  klp_path :: string
  klp_recovery_code_path :: string
  klp_keep_original :: bool
  klp_credential_id :: "string option"

record locker_lock_result =
  klr_container :: path
  klr_recovery_code_path :: path
  klr_plaintext_len :: u64
  klr_original_removed :: bool
  klr_device_name :: string
  klr_development :: bool

definition locker_resource :: "path \<Rightarrow> string" where
  "locker_resource p = (case path_file_name p of None \<Rightarrow> [] | Some n \<Rightarrow> n)"

text \<open>An engine call whose failure is logged; its success is not logged yet.\<close>

definition or_recorded ::
    "('key, 'sig, 'secret, 'w) surroundings \<Rightarrow> string \<Rightarrow> string \<Rightarrow> string \<Rightarrow> string \<Rightarrow> bool \<Rightarrow>
     ('w, 'a) service_io \<Rightarrow> ('w, 'a) service_io" where
  "or_recorded en svc act res device_name development m =
    io_bind (io_attempt m) (\<lambda>result.
    case result of
      Inl e \<Rightarrow> recorded en svc act res device_name development (Inl e)
    | Inr x \<Rightarrow> io_return x)"

definition engine :: "('key, 'sig, 'secret) locker_surroundings \<Rightarrow> 'a locker_io \<Rightarrow> (disk, 'a) service_io" where
  "engine en m = on_host (io_map_err (locker_service_error (pk_io_text (en_link en))) m)"

text \<open>What is done while the slot is open, and what is done once it is written.\<close>

definition lock_into_slot ::
    "('key, 'sig, 'secret) locker_surroundings \<Rightarrow> locker_crypto \<Rightarrow> locker_random \<Rightarrow> path \<Rightarrow> path \<Rightarrow> string option \<Rightarrow>
     (disk, lock_outcome \<times> string \<times> bool) service_io" where
  "lock_into_slot en lc rnd source recovery_path credential =
    io_bind (reach_phone en (\<lambda>s. select_locker_credential s credential)) (\<lambda>(device_id, cred, session, device_name).
    let development = ts_is_development (se_security session) in
    io_bind (sv_read (\<lambda>sv. ac_verifier_name (sv_config sv))) (\<lambda>vname.
    io_bind (or_recorded en ''locker'' ''lock'' (locker_resource source) device_name development
      (engine en (lock_file lc rnd source \<lparr>lp_destination = None, lp_remove_original = False\<rparr>
        (asking_once en vname session cred)))) (\<lambda>outcome.
    io_bind (slot_write (pk_io_text (en_link en)) recovery_path (recovery_line (lo_recovery_code outcome))) (\<lambda>_.
    io_return (outcome, device_name, development)))))"

definition remove_original ::
    "('key, 'sig, 'secret) locker_surroundings \<Rightarrow> path \<Rightarrow> bool \<Rightarrow> (disk, bool) service_io" where
  "remove_original en source keep_original =
    (if keep_original then io_return False
     else io_bind (on_host (io_map_err (io_failed (pk_io_text (en_link en))) (d_remove_file source))) (\<lambda>_.
       io_return True))"

definition finish_lock ::
    "('key, 'sig, 'secret) locker_surroundings \<Rightarrow> path \<Rightarrow> path \<Rightarrow> bool \<Rightarrow> lock_outcome \<times> string \<times> bool \<Rightarrow>
     (disk, locker_lock_result) service_io" where
  "finish_lock en source recovery_path keep_original = (\<lambda>(outcome, device_name, development).
    io_bind (remove_original en source keep_original) (\<lambda>original_removed.
    io_bind (record_application en ''locker'' ''lock'' (locker_resource source) device_name development None) (\<lambda>_.
    io_return \<lparr>klr_container = lo_container outcome, klr_recovery_code_path = recovery_path,
      klr_plaintext_len = lo_plaintext_len outcome, klr_original_removed = original_removed,
      klr_device_name = device_name, klr_development = development\<rparr>)))"

definition locker_lock ::
    "('key, 'sig, 'secret) locker_surroundings \<Rightarrow> locker_crypto \<Rightarrow> locker_random \<Rightarrow> locker_lock_params \<Rightarrow>
     (disk, locker_lock_result) service_io" where
  "locker_lock en lc rnd params =
    io_bind (io_of (absolute_path (klp_path params))) (\<lambda>source.
    io_bind (engine en (ensure_sole_regular_file source (\<not> klp_keep_original params))) (\<lambda>_.
    io_bind (io_of (absolute_path (klp_recovery_code_path params))) (\<lambda>recovery_path.
    io_bind (on_host (claim_recovery_file (pk_io_text (en_link en)) recovery_path)) (\<lambda>_.
    io_bind (with_slot recovery_path (lock_into_slot en lc rnd source recovery_path (klp_credential_id params)))
      (finish_lock en source recovery_path (klp_keep_original params))))))"

subsection \<open>Unlocking and re-keying\<close>

record locker_unlock_params =
  kup_path :: string
  kup_destination_dir :: "string option"
  kup_keep_container :: bool
  kup_credential_id :: "string option"

record locker_unlock_result =
  kur_restored :: path
  kur_plaintext_len :: u64
  kur_container_removed :: bool
  kur_device_name :: string
  kur_development :: bool

definition locker_unlock ::
    "('key, 'sig, 'secret) locker_surroundings \<Rightarrow> locker_crypto \<Rightarrow> locker_random \<Rightarrow> locker_unlock_params \<Rightarrow>
     (disk, locker_unlock_result) service_io" where
  "locker_unlock en lc rnd params =
    io_bind (io_of (absolute_path (kup_path params))) (\<lambda>container.
    io_bind (io_of (case kup_destination_dir params of None \<Rightarrow> Inr None | Some d \<Rightarrow> map_sum id Some (absolute_path d)))
      (\<lambda>destination.
    io_bind (reach_phone en (\<lambda>s. select_locker_credential s (kup_credential_id params)))
      (\<lambda>(device_id, cred, session, device_name).
    let development = ts_is_development (se_security session) in
    io_bind (sv_read (\<lambda>sv. ac_verifier_name (sv_config sv))) (\<lambda>vname.
    io_bind (io_attempt (engine en (unlock_file lc rnd container destination (\<not> kup_keep_container params)
      (PhoneKey (asking_once en vname session cred))))) (\<lambda>outcome.
    recorded en ''locker'' ''unlock'' (locker_resource container) device_name development
      (map_sum id (\<lambda>outcome. \<lparr>kur_restored = uo_restored outcome, kur_plaintext_len = uo_plaintext_len outcome,
        kur_container_removed = uo_container_removed outcome, kur_device_name = device_name,
        kur_development = development\<rparr>) outcome))))))"

record locker_rekey_params =
  krp_path :: string
  krp_new_recovery_code :: bool
  krp_recovery_code_path :: "string option"
  krp_credential_id :: "string option"

record locker_rekey_result =
  krr_container :: path
  krr_recovery_code_path :: "path option"
  krr_device_name :: string
  krr_development :: bool

definition with_slot_option :: "path option \<Rightarrow> (disk, 'a) service_io \<Rightarrow> (disk, 'a) service_io" where
  "with_slot_option slot m = (case slot of None \<Rightarrow> m | Some p \<Rightarrow> with_slot p m)"

definition claim_rekey_slot ::
    "('key, 'sig, 'secret) locker_surroundings \<Rightarrow> locker_rekey_params \<Rightarrow> (disk, path option) service_io" where
  "claim_rekey_slot en params =
    (if \<not> krp_new_recovery_code params then io_return None
     else case krp_recovery_code_path params of
       None \<Rightarrow> io_fail (service_error_new ''bad-request'' ''a new recovery code needs a path to be written to'')
     | Some p \<Rightarrow>
         io_bind (io_of (absolute_path p)) (\<lambda>p.
         io_bind (on_host (claim_recovery_file (pk_io_text (en_link en)) p)) (\<lambda>_. io_return (Some p))))"

definition rekey_into_slot ::
    "('key, 'sig, 'secret) locker_surroundings \<Rightarrow> locker_crypto \<Rightarrow> locker_random \<Rightarrow> path \<Rightarrow> path option \<Rightarrow>
     locker_rekey_params \<Rightarrow> (disk, path option \<times> string \<times> bool) service_io" where
  "rekey_into_slot en lc rnd container slot params =
    io_bind (reach_phone en (\<lambda>s. select_locker_credential s (krp_credential_id params)))
      (\<lambda>(device_id, cred, session, device_name).
    let development = ts_is_development (se_security session) in
    io_bind (sv_read (\<lambda>sv. ac_verifier_name (sv_config sv))) (\<lambda>vname.
    io_bind (or_recorded en ''locker'' ''rekey'' (locker_resource container) device_name development
      (engine en (rekey_file lc rnd container (asking_twice en vname session device_id cred) None
        (krp_new_recovery_code params)))) (\<lambda>code.
    io_bind (case (slot, code) of
        (Some p, Some code) \<Rightarrow>
          io_bind (slot_write (pk_io_text (en_link en)) p (recovery_line code)) (\<lambda>_. io_return (Some p))
      | _ \<Rightarrow> io_return None) (\<lambda>recovery_code_path.
    io_return (recovery_code_path, device_name, development)))))"

definition locker_rekey ::
    "('key, 'sig, 'secret) locker_surroundings \<Rightarrow> locker_crypto \<Rightarrow> locker_random \<Rightarrow> locker_rekey_params \<Rightarrow>
     (disk, locker_rekey_result) service_io" where
  "locker_rekey en lc rnd params =
    io_bind (io_of (absolute_path (krp_path params))) (\<lambda>container.
    io_bind (claim_rekey_slot en params) (\<lambda>slot.
    io_bind (with_slot_option slot (rekey_into_slot en lc rnd container slot params))
      (\<lambda>(recovery_code_path, device_name, development).
    io_bind (record_application en ''locker'' ''rekey'' (locker_resource container) device_name development None) (\<lambda>_.
    io_return \<lparr>krr_container = container, krr_recovery_code_path = recovery_code_path, krr_device_name = device_name,
      krr_development = development\<rparr>))))"

subsection \<open>Enrolling a volume key\<close>

record luks_enroll_params =
  lep_volume :: string
  lep_wrapped_key_path :: string
  lep_key_path :: string
  lep_credential_id :: "string option"

record luks_enroll_result =
  ler_volume :: string
  ler_credential_id :: string
  ler_wrapped_key_path :: path
  ler_key_path :: path
  ler_device_name :: string
  ler_development :: bool

definition enroll_into_slot ::
    "('key, 'sig, 'secret) locker_surroundings \<Rightarrow> path \<Rightarrow> luks_enroll_params \<Rightarrow>
     (disk, enrollment \<times> string \<times> string \<times> bool) service_io" where
  "enroll_into_slot en key_path params =
    io_bind (reach_phone en (\<lambda>s. select_boot_credential s (lep_credential_id params)))
      (\<lambda>(device_id, cred, session, device_name).
    let development = ts_is_development (se_security session) in
    io_bind (sv_read (\<lambda>sv. ac_verifier_name (sv_config sv))) (\<lambda>vname.
    io_bind (or_recorded en ''luks'' ''enroll'' (lep_volume params) device_name development
      (on_host (io_map_err (service_error_new ''declined'')
        (luks_enroll (en_link en) session vname (lep_volume params))))) (\<lambda>enrolled.
    if wk_credential_id (en_wrapped enrolled) \<noteq> cred
    then recorded en ''luks'' ''enroll'' (lep_volume params) device_name development
      (Inl (service_error_new ''response-mismatch'' ''the phone wrapped the key with a different credential''))
    else
      io_bind (slot_write (pk_io_text (en_link en)) key_path (en_disk_key enrolled)) (\<lambda>_.
      io_return (enrolled, cred, device_name, development)))))"

definition finish_enroll ::
    "('key, 'sig, 'secret) locker_surroundings \<Rightarrow> path \<Rightarrow> path \<Rightarrow> luks_enroll_params \<Rightarrow>
     enrollment \<times> string \<times> string \<times> bool \<Rightarrow> (disk, luks_enroll_result) service_io" where
  "finish_enroll en wrapped_path key_path params = (\<lambda>(enrolled, cred, device_name, development).
    io_bind (on_host (io_map_err (io_failed (pk_io_text (en_link en)))
      (d_write_file wrapped_path (encode_wrapped_key (en_wrapped enrolled))))) (\<lambda>_.
    io_bind (record_application en ''luks'' ''enroll'' (lep_volume params) device_name development None) (\<lambda>_.
    io_return \<lparr>ler_volume = lep_volume params, ler_credential_id = cred, ler_wrapped_key_path = wrapped_path,
      ler_key_path = key_path, ler_device_name = device_name, ler_development = development\<rparr>)))"

definition service_luks_enroll ::
    "('key, 'sig, 'secret) locker_surroundings \<Rightarrow> luks_enroll_params \<Rightarrow> (disk, luks_enroll_result) service_io" where
  "service_luks_enroll en params =
    (if str_trim (lep_volume params) = []
     then io_fail (service_error_new ''bad-params'' ''the volume needs a name; it is what the phone shows the user'')
     else
       io_bind (io_of (absolute_path (lep_wrapped_key_path params))) (\<lambda>wrapped_path.
       io_bind (io_of (absolute_path (lep_key_path params))) (\<lambda>key_path.
       io_bind (on_host (claim_key_file (pk_io_text (en_link en)) key_path)) (\<lambda>_.
       io_bind (with_slot key_path (enroll_into_slot en key_path params))
         (finish_enroll en wrapped_path key_path params)))))"

subsection \<open>The disk under a service\<close>

definition on_disk :: "(disk \<Rightarrow> bool) \<Rightarrow> disk service \<Rightarrow> bool" where
  "on_disk P sv \<longleftrightarrow> P (sv_host sv)"

text \<open>Phones and transports that leave the settled part of the disk alone.\<close>

definition apart :: "('key, 'sig, 'secret) locker_surroundings \<Rightarrow> bool" where
  "apart en \<longleftrightarrow> link_quiet (en_link en) \<and>
    (\<forall>did cred d. settled (snd (registry_connect (en_transports en) did cred d)) = settled d)"

named_theorems disk_rules "what computations of the service do to the disk"

lemma host_triple:
  assumes "io_triple P m Q E"
  shows "io_triple (on_disk P) (on_host m) (\<lambda>x. on_disk (Q x)) (on_disk E)"
proof (rule io_tripleI)
  fix sv e sv' assume "on_disk P sv" and "on_host m sv = (Inl e, sv')"
  then show "on_disk E sv'"
    using io_tripleD(1) [OF assms, of "sv_host sv" e "sv_host sv'"] by (auto simp: on_disk_def on_host_def split: prod.splits)
next
  fix sv x sv' assume "on_disk P sv" and "on_host m sv = (Inr x, sv')"
  then show "on_disk (Q x) sv'"
    using io_tripleD(2) [OF assms, of "sv_host sv" x "sv_host sv'"] by (auto simp: on_disk_def on_host_def split: prod.splits)
qed

lemma host_keeps: "keeps I m \<Longrightarrow> io_triple (on_disk I) (on_host m) (\<lambda>_. on_disk I) (on_disk I)"
  unfolding keeps_def by (rule host_triple)

lemma settled_keeps:
  assumes "fault_blind I" and "\<And>d. settled (snd (m d)) = settled d"
  shows "I d \<Longrightarrow> I (snd (m d))"
proof -
  have "I (settled d) = I d" for d using assms(1) by (simp add: settled_def fault_blind_def)
  then show "I d \<Longrightarrow> I (snd (m d))" using assms(2) by metis
qed

lemma disk_keeps_now [disk_rules]:
  assumes "apart en" and "fault_blind I"
  shows "io_triple (on_disk I) (sv_now en) (\<lambda>_. on_disk I) (on_disk I)"
    "io_triple (on_disk I) (sv_random en n) (\<lambda>_. on_disk I) (on_disk I)"
    "io_triple (on_disk I) (sv_connect en did cred) (\<lambda>_. on_disk I) (on_disk I)"
proof -
  have l: "link_keeps (\<lambda>d. settled d = s) (en_link en)" for s using assms(1) by (simp add: apart_def link_quiet_def)
  have n: "settled (snd (pk_now (en_link en) d)) = settled d" "settled (snd (pk_random (en_link en) n d)) = settled d" for d
    using l [of "settled d"] by (simp_all add: link_keeps_def)
  have c: "settled (snd (registry_connect (en_transports en) did cred d)) = settled d" for d
    using assms(1) by (simp add: apart_def)
  have "keeps I (io_get (pk_now (en_link en)))" "keeps I (io_get (pk_random (en_link en) n))"
    using settled_keeps [OF assms(2), OF n(1)] settled_keeps [OF assms(2), OF n(2)] by (auto intro: keeps_get)
  then show "io_triple (on_disk I) (sv_now en) (\<lambda>_. on_disk I) (on_disk I)"
    "io_triple (on_disk I) (sv_random en n) (\<lambda>_. on_disk I) (on_disk I)"
    unfolding sv_now_def sv_random_def by (auto intro: host_keeps)
  have "keeps I (registry_connect (en_transports en) did cred)"
    using settled_keeps [OF assms(2), OF c] by (simp add: keeps_iff)
  then show "io_triple (on_disk I) (sv_connect en did cred) (\<lambda>_. on_disk I) (on_disk I)"
    unfolding sv_connect_def by (intro io_map_err_triple host_keeps)
qed

lemma disk_keeps_pure [disk_rules]:
  "io_triple P (io_return x) (\<lambda>_. P) E" "io_triple P (sv_read f) (\<lambda>_. P) E" "io_triple P (io_of r) (\<lambda>_. P) P"
  "io_triple P (io_fail e) Q P"
  by (auto simp: io_triple_def io_return_def sv_read_def io_of_def io_fail_def split: sum.split)

lemma disk_keeps_append [simp]: "on_disk I (sv_append en entry sv) = on_disk I sv"
  by (simp add: on_disk_def)

lemma record_never_fails [simp]: "record_application en svc act res device_name development e sv \<noteq> (Inl x, sv')"
  by (simp add: record_application_def io_bind_def sv_do_def sv_now_def sv_random_def on_host_def io_get_def split: prod.split)

lemma disk_keeps_record:
  assumes "apart en" and "fault_blind I"
  shows "io_triple (on_disk I) (record_application en svc act res device_name development e) (\<lambda>_. on_disk I) (on_disk I)"
    "io_triple (on_disk I) (recorded en svc act res device_name development r) (\<lambda>_. on_disk I) (on_disk I)"
proof -
  show r: "io_triple (on_disk I) (record_application en svc act res device_name development e) (\<lambda>_. on_disk I) (on_disk I)" for e
    unfolding record_application_def
    by (rule io_triple_bind [OF disk_rules(1) [OF assms]], rule io_triple_bind [OF disk_rules(2) [OF assms]])
      (auto simp: io_triple_def sv_do_def)
  show "io_triple (on_disk I) (recorded en svc act res device_name development r) (\<lambda>_. on_disk I) (on_disk I)"
    unfolding recorded_def by (rule io_triple_bind [OF r]) (rule disk_keeps_pure)
qed

lemma disk_keeps_reach:
  assumes "apart en" and "fault_blind I"
  shows "io_triple (on_disk I) (reach_phone en select) (\<lambda>_. on_disk I) (on_disk I)"
  unfolding reach_phone_def
  by (rule io_triple_bind [OF disk_keeps_pure(2)], rule io_triple_bind [OF disk_keeps_pure(3)])
    (auto intro!: io_triple_bind disk_keeps_now [OF assms] disk_keeps_pure split: prod.split)

text \<open>An engine call that failed is logged; the disk is as the engine left it.\<close>

lemma or_recorded_triple:
  fixes m :: "(disk, 'a) service_io" and Q :: "'a \<Rightarrow> disk service \<Rightarrow> bool"
  assumes "apart en" and "fault_blind E" and "io_triple P m Q (on_disk E)"
  shows "io_triple P (or_recorded en svc act res device_name development m) Q (on_disk E)"
proof -
  have "io_triple P (io_attempt m) (\<lambda>r sv. case r of Inl _ \<Rightarrow> on_disk E sv | Inr x \<Rightarrow> Q x sv) (on_disk E)"
    using assms(3) by (auto simp: io_triple_def io_attempt_def split: prod.splits sum.splits)
  then show ?thesis
    unfolding or_recorded_def
  proof (rule io_triple_bind)
    fix r show "io_triple (\<lambda>sv. case r of Inl _ \<Rightarrow> on_disk E sv | Inr x \<Rightarrow> Q x sv)
      (case r of Inl e \<Rightarrow> recorded en svc act res device_name development (Inl e) | Inr x \<Rightarrow> io_return x) Q (on_disk E)"
    proof (cases r)
      case (Inl e)
      have "io_triple (on_disk E) (recorded en svc act res device_name development (Inl e :: service_error + 'a)) Q (on_disk E)"
        using disk_keeps_record(2) [OF assms(1,2), of svc act res device_name development "Inl e :: service_error + 'a"]
        by (auto simp: io_triple_def recorded_def io_bind_def io_of_def split: prod.splits sum.splits)
      with Inl show ?thesis by simp
    qed (simp add: io_triple_def io_return_def)
  qed
qed

text \<open>A slot that is dropped takes its own file and no other.\<close>

lemma with_slot_triple:
  assumes "io_triple P m Q (on_disk (intact s i c))" and "p \<noteq> s"
  shows "io_triple P (with_slot p m) Q (on_disk (intact s i c))"
  unfolding io_triple_def with_slot_def io_on_error_def
proof (intro allI impI)
  fix sv assume "P sv"
  with assms(1) have t: "case m sv of (Inl e, sv') \<Rightarrow> on_disk (intact s i c) sv' | (Inr x, sv') \<Rightarrow> Q x sv'"
    by (auto simp: io_triple_def)
  have "keeps (intact s i c) (d_remove_file p)" by (rule keeps_remove [OF assms(2)])
  then have "intact s i c d \<Longrightarrow> intact s i c (snd (d_remove_file p d))" for d by (simp add: keeps_iff)
  then have k: "on_disk (intact s i c) sv' \<Longrightarrow>
      on_disk (intact s i c) (snd ((on_host (d_remove_file p) :: (disk service, io_error, unit) io_on) sv'))" for sv'
    by (auto simp: on_disk_def on_host_def split: prod.split) (metis snd_conv)
  from t k show "case case m sv of (Inl e, w') \<Rightarrow> (Inl e, snd ((on_host (d_remove_file p) :: (disk service, io_error, unit) io_on) w')) | (Inr x, w') \<Rightarrow> (Inr x, w')
    of (Inl e, sv') \<Rightarrow> on_disk (intact s i c) sv' | (Inr x, sv') \<Rightarrow> Q x sv'"
    by (auto split: prod.splits sum.splits)
qed

subsection \<open>Locking a file never loses it\<close>

lemma keeps_with_atomic:
  assumes "dest \<noteq> p" and "\<And>k. k \<noteq> i \<Longrightarrow> keeps (intact p i c) (fill k)"
  shows "keeps (intact p i c) (with_atomic_file sfx dest fill)"
  unfolding keeps_def with_atomic_file_def
proof (rule io_triple_bind [OF atomic_create_spec], rule io_tripleI)
  fix f :: atomic_file
  let ?m = "io_bind (io_on_error (io_bind (fill (af_inode f)) (\<lambda>_. atomic_commit f)) (d_remove_file (af_temporary f)))
       (\<lambda>_. sync_directory dest)"
  have k: "keeps (intact p i c) ?m" if "af_inode f \<noteq> i" "af_temporary f \<noteq> p" "af_destination f = dest"
    unfolding atomic_commit_def using that assms by (intro keeps_rules) auto
  fix d d'
  assume d: "(intact p i c d \<and> intact (af_temporary f) (af_inode f) [] d) \<and> af_inode f \<noteq> i \<and> af_temporary f \<noteq> p \<and>
      af_destination f = dest"
  show "intact p i c d'" if "?m d = (Inl e, d')" for e
    using k d that by (auto simp: keeps_iff dest!: spec [of _ d])
  show "intact p i c d'" if "?m d = (Inr x, d')" for x
    using k d that by (auto simp: keeps_iff dest!: spec [of _ d])
qed

lemma keeps_lock_file:
  assumes "custodian_ok cu" and "source @ ''.'' @ LOCKER_EXTENSION \<noteq> p"
  shows "keeps (intact p i c) (lock_file lc rnd source \<lparr>lp_destination = None, lp_remove_original = False\<rparr> cu)"
proof -
  have w: "keeps (intact p i c) (cu_wrap cu a)" for a
    using assms(1) by (auto simp: custodian_ok_def intro: keeps_quiet keeps_rules)
  show ?thesis
    unfolding lock_file_def Let_def case_prod_beta using assms(2)
    by (auto intro!: keeps_rules keeps_with_atomic w)
qed

lemma triple_both:
  assumes "io_triple P m Q E" and "keeps J m"
  shows "io_triple (\<lambda>d. P d \<and> J d) m (\<lambda>x d. Q x d \<and> J d) (\<lambda>d. E d \<and> J d)"
proof (rule io_tripleI)
  fix d d' assume P: "P d \<and> J d"
  show "E d' \<and> J d'" if "m d = (Inl e, d')" for e
    using io_tripleD(1) [OF assms(1)] assms(2) P that by (auto simp: keeps_iff dest!: spec [of _ d])
  show "Q x d' \<and> J d'" if "m d = (Inr x, d')" for x
    using io_tripleD(2) [OF assms(1)] assms(2) P that by (auto simp: keeps_iff dest!: spec [of _ d])
qed

text \<open>The file a lock has claimed is another than the source, and empty until its code is written.\<close>

abbreviation slot_holds :: "nat \<Rightarrow> path \<Rightarrow> bytes \<Rightarrow> disk \<Rightarrow> bool" where
  "slot_holds i r b \<equiv> another i r (\<lambda>x. x = b)"

lemma keeps_restrict [keeps_rules]: "keeps (intact p i c) (d_restrict k)"
  unfolding keeps_def d_restrict_def
  by (rule call_triple) (auto simp: intact_def keeps_rules put_inode_def)

lemma claim_triple:
  "io_triple (intact s i c) (claim_recovery_file io_text r) (\<lambda>_ d. (intact s i c d \<and> slot_holds i r [] d) \<and> r \<noteq> s) (intact s i c)"
proof -
  have "io_triple (\<lambda>d. (intact s i c d \<and> intact r k [] d) \<and> k \<noteq> i \<and> r \<noteq> s) (io_ignore (d_restrict k))
      (\<lambda>_ d. (intact s i c d \<and> slot_holds i r [] d) \<and> r \<noteq> s) (intact s i c)" for k
  proof (rule triple_pure, elim conjE)
    assume "k \<noteq> i" and "r \<noteq> s"
    then show "io_triple (\<lambda>d. intact s i c d \<and> intact r k [] d) (io_ignore (d_restrict k))
      (\<lambda>_ d. (intact s i c d \<and> slot_holds i r [] d) \<and> r \<noteq> s) (intact s i c)"
      by (intro triple_conseq [OF triple_keeps [OF keeps_ignore [OF keeps_conj [OF keeps_restrict [of s i c] keeps_restrict [of r k "[]"]]]]])
        (auto simp: another_def)
  qed
  then show ?thesis
    unfolding claim_recovery_file_def claim_private_file_def
    by (rule io_triple_bind [OF io_map_err_triple [OF create_new_spec]])
qed

text \<open>Writing the slot leaves the source alone and, when it works, the code in the slot.\<close>

definition locked_away :: "path \<Rightarrow> nat \<Rightarrow> bytes \<Rightarrow> path \<Rightarrow> nat \<Rightarrow> bytes \<Rightarrow> path \<Rightarrow> nat \<Rightarrow> bytes \<Rightarrow> disk \<Rightarrow> bool" where
  "locked_away s i c dest j B r k b d \<longleftrightarrow> intact s i c d \<and> intact dest j B d \<and> intact r k b d"

lemma blind_locked_away [keeps_rules]: "fault_blind (locked_away s i c dest j B r k b)"
  by (simp add: locked_away_def fault_blind_def)

lemma write_file_triple:
  assumes "k \<noteq> i" and "k \<noteq> j"
  shows "io_triple (locked_away s i c dest j B r k b) (d_write_file r bs) (\<lambda>_. locked_away s i c dest j B r k bs) (intact s i c)"
  unfolding d_write_file_def
proof (rule io_triple_bind)
  show "io_triple (locked_away s i c dest j B r k b) (d_truncate r)
    (\<lambda>l d. locked_away s i c dest j B r k [] d \<and> l = k) (intact s i c)"
    unfolding d_truncate_def using assms
    by (intro call_triple [OF blind_locked_away]) (auto simp: locked_away_def intact_def follow_def put_inode_def)
  have "io_triple (locked_away s i c dest j B r k []) (d_write_all k bs) (\<lambda>_. locked_away s i c dest j B r k bs) (intact s i c)"
    unfolding d_write_all_def using assms
    by (intro call_triple [OF blind_locked_away]) (auto simp: locked_away_def intact_def d_append_def put_inode_def)
  then show "io_triple (\<lambda>d. locked_away s i c dest j B r k [] d \<and> l = k) (d_write_all l bs)
    (\<lambda>_. locked_away s i c dest j B r k bs) (intact s i c)" for l
    by (intro triple_pure) simp
qed

lemma remove_source_triple:
  assumes "s \<noteq> dest" and "s \<noteq> r"
  shows "io_triple (locked_away s i c dest j B r k b) (d_remove_file s)
    (\<lambda>_ d. dk_nodes d s = None \<and> intact dest j B d \<and> intact r k b d) (intact s i c)"
  unfolding d_remove_file_def using assms
  by (intro call_triple [OF blind_locked_away])
    (auto simp: locked_away_def intact_def unlink_node_def put_inode_def)

text \<open>A container is never empty.\<close>

lemma locked_bytes_nonempty: "locked_bytes lc rnd name c B \<Longrightarrow> B \<noteq> []"
  by (auto simp: locked_bytes_def Let_def container_bytes_def head_bytes_def magic_def)

text \<open>The engine's lock, with the slot beside it.\<close>

lemma lock_with_slot:
  assumes lc: "locker_crypto_ok lc" and rnd: "locker_random_ok rnd" and cu: "custodian_ok cu"
    and ne: "s @ ''.'' @ LOCKER_EXTENSION \<noteq> r"
  shows "io_triple (\<lambda>d. intact s i c d \<and> slot_holds i r [] d) (lock_file lc rnd s \<lparr>lp_destination = None, lp_remove_original = False\<rparr> cu)
    (\<lambda>out d. lo_recovery_code out = format_recovery_code (lr_recovery_key rnd) \<and>
      (\<exists>j B k name. k \<noteq> i \<and> k \<noteq> j \<and> path_file_name s = Some name \<and> locked_bytes lc rnd name c B \<and>
        locked_away s i c (s @ ''.'' @ LOCKER_EXTENSION) j B r k [] d)) (intact s i c)"
proof (rule io_tripleI)
  let ?plan = "\<lparr>lp_destination = None, lp_remove_original = False\<rparr>" and ?dest = "s @ ''.'' @ LOCKER_EXTENSION"
  have dest: "lock_destination s ?plan = ?dest" "?dest \<noteq> s" by (simp_all add: lock_destination_def)
  fix d assume "intact s i c d \<and> slot_holds i r [] d"
  then obtain k where k: "intact s i c d" "k \<noteq> i" "intact r k [] d" by (auto simp: another_def)
  from triple_both [OF lock_file_spec [OF lc rnd cu, of s ?plan i c] keeps_lock_file [OF cu ne]] dest
  have t: "io_triple (\<lambda>d. intact s i c d \<and> intact r k [] d) (lock_file lc rnd s ?plan cu)
    (\<lambda>out d. (lo_container out = ?dest \<and> lo_plaintext_len out = word_of_nat (length c)
       \<and> lo_recovery_code out = format_recovery_code (lr_recovery_key rnd)
       \<and> lo_original_removed out = False
       \<and> (\<exists>j B name. j \<noteq> i \<and> path_file_name s = Some name \<and> locked_bytes lc rnd name c B \<and> intact ?dest j B d)
       \<and> intact s i c d) \<and> intact r k [] d) (\<lambda>d. intact s i c d \<and> intact r k [] d)" by simp
  show "intact s i c d'" if "lock_file lc rnd s ?plan cu d = (Inl e, d')" for e d'
    using io_tripleD(1) [OF t] k that by blast
  show "lo_recovery_code out = format_recovery_code (lr_recovery_key rnd) \<and>
      (\<exists>j B k name. k \<noteq> i \<and> k \<noteq> j \<and> path_file_name s = Some name \<and> locked_bytes lc rnd name c B \<and>
        locked_away s i c ?dest j B r k [] d')" if m: "lock_file lc rnd s ?plan cu d = (Inr out, d')" for out d'
  proof -
    from io_tripleD(2) [OF t _ m] k obtain j B name where b: "lo_recovery_code out = format_recovery_code (lr_recovery_key rnd)"
      "path_file_name s = Some name" "locked_bytes lc rnd name c B" "intact ?dest j B d'" "intact s i c d'" "intact r k [] d'"
      by blast
    then have "k \<noteq> j" using locked_bytes_nonempty [OF b(3)] by (auto simp: intact_def)
    with b k(2) show ?thesis unfolding locked_away_def by blast
  qed
qed

text \<open>What a finished lock leaves: the container, the code where it was wanted, and the file unless it was to go.\<close>

definition lock_left ::
    "locker_crypto \<Rightarrow> locker_random \<Rightarrow> path \<Rightarrow> path \<Rightarrow> nat \<Rightarrow> bytes \<Rightarrow> bool \<Rightarrow> disk \<Rightarrow> bool" where
  "lock_left lc rnd s r i c removed d \<longleftrightarrow>
    (\<exists>name j B k. path_file_name s = Some name \<and> locked_bytes lc rnd name c B \<and>
      intact (s @ ''.'' @ LOCKER_EXTENSION) j B d \<and>
      intact r k (recovery_line (format_recovery_code (lr_recovery_key rnd))) d) \<and>
    (if removed then dk_nodes d s = None else intact s i c d)"

lemma blind_lock_left [keeps_rules]: "fault_blind (lock_left lc rnd s r i c removed)"
  by (cases removed) (simp_all add: lock_left_def fault_blind_def)

text \<open>The same while the file is still there: what the removal starts from.\<close>

definition lock_written :: "locker_crypto \<Rightarrow> locker_random \<Rightarrow> path \<Rightarrow> path \<Rightarrow> nat \<Rightarrow> bytes \<Rightarrow> disk \<Rightarrow> bool" where
  "lock_written lc rnd s r i c d \<longleftrightarrow> (\<exists>j B k name. path_file_name s = Some name \<and> locked_bytes lc rnd name c B \<and>
    locked_away s i c (s @ ''.'' @ LOCKER_EXTENSION) j B r k (recovery_line (format_recovery_code (lr_recovery_key rnd))) d)"

lemma lock_work_triple:
  fixes en :: "('key, 'sig, 'secret) locker_surroundings"
  assumes lc: "locker_crypto_ok lc" and rnd: "locker_random_ok rnd" and en: "apart en"
    and ne: "s @ ''.'' @ LOCKER_EXTENSION \<noteq> r"
  shows "io_triple (on_disk (\<lambda>d. intact s i c d \<and> slot_holds i r [] d)) (lock_into_slot en lc rnd s r credential)
    (\<lambda>_. on_disk (lock_written lc rnd s r i c)) (on_disk (intact s i c))"
proof -
  let ?dest = "s @ ''.'' @ LOCKER_EXTENSION" and ?code = "format_recovery_code (lr_recovery_key rnd)"
  let ?P = "\<lambda>d. intact s i c d \<and> slot_holds i r [] d" and ?io = "pk_io_text (en_link en)"
  let ?Q = "\<lambda>out d. lo_recovery_code out = ?code \<and>
      (\<exists>j B k name. k \<noteq> i \<and> k \<noteq> j \<and> path_file_name s = Some name \<and> locked_bytes lc rnd name c B \<and>
        locked_away s i c ?dest j B r k [] d)"
  have b: "fault_blind ?P" by (intro keeps_rules)
  have reached: "io_triple (on_disk ?P) (reach_phone en select) (\<lambda>_. on_disk ?P) (on_disk (intact s i c))" for select
    by (rule triple_conseq [OF disk_keeps_reach [OF en b]]) (auto simp: on_disk_def)
  have cu: "custodian_ok (asking_once en vname session cred)" for vname session cred
    unfolding asking_once_def using en
    by (intro phone_custodian_ok) (auto simp: apart_def custodian_new_def quiet_def io_return_def)
  have lock: "io_triple (on_disk ?P) (or_recorded en ''locker'' ''lock'' (locker_resource s) device_name development
        (engine en (lock_file lc rnd s \<lparr>lp_destination = None, lp_remove_original = False\<rparr>
          (asking_once en vname session cred)))) (\<lambda>out. on_disk (?Q out)) (on_disk (intact s i c))"
    for vname session cred device_name development
    unfolding engine_def
    by (intro or_recorded_triple [OF en blind_intact] host_triple io_map_err_triple lock_with_slot [OF lc rnd cu ne])
  have slot: "io_triple (on_disk (?Q out)) (slot_write ?io r (recovery_line (lo_recovery_code out)))
      (\<lambda>_. on_disk (lock_written lc rnd s r i c)) (on_disk (intact s i c))" for out
    unfolding slot_write_def
  proof (rule host_triple, rule io_map_err_triple, rule io_tripleI)
    fix d assume q: "?Q out d"
    then obtain j B k name where k: "k \<noteq> i" "k \<noteq> j" and n: "path_file_name s = Some name" "locked_bytes lc rnd name c B"
      and a: "locked_away s i c ?dest j B r k [] d" and o: "lo_recovery_code out = ?code" by blast
    note w = write_file_triple [OF k, of s c ?dest B r "[]" "recovery_line ?code"]
    show "intact s i c d'" if "d_write_file r (recovery_line (lo_recovery_code out)) d = (Inl e, d')" for e d'
      using io_tripleD(1) [OF w a] that o by simp
    show "lock_written lc rnd s r i c d'" if "d_write_file r (recovery_line (lo_recovery_code out)) d = (Inr x, d')" for x d'
      using io_tripleD(2) [OF w a] that o n unfolding lock_written_def by auto
  qed
  show ?thesis
    unfolding lock_into_slot_def Let_def case_prod_beta
    by (rule io_triple_bind [OF reached], rule io_triple_bind [OF disk_keeps_pure(2)], rule io_triple_bind [OF lock],
        rule io_triple_bind [OF slot]) (simp add: io_triple_def io_return_def)
qed

lemma remove_original_triple:
  assumes "r \<noteq> s"
  shows "io_triple (on_disk (lock_written lc rnd s r i c)) (remove_original en s keep)
    (\<lambda>removed sv. on_disk (lock_left lc rnd s r i c removed) sv \<and> removed = (\<not> keep)) (on_disk (intact s i c))"
proof (cases keep)
  case True
  then show ?thesis
    by (auto simp: remove_original_def io_triple_def io_return_def on_disk_def lock_left_def lock_written_def locked_away_def)
next
  case False
  let ?line = "recovery_line (format_recovery_code (lr_recovery_key rnd))"
  have "io_triple (lock_written lc rnd s r i c) (d_remove_file s) (\<lambda>_. lock_left lc rnd s r i c True) (intact s i c)"
  proof (rule io_tripleI)
    fix d assume "lock_written lc rnd s r i c d"
    then obtain j B k name where n: "path_file_name s = Some name" "locked_bytes lc rnd name c B"
      and a: "locked_away s i c (s @ ''.'' @ LOCKER_EXTENSION) j B r k ?line d"
      unfolding lock_written_def by blast
    have ns: "s \<noteq> s @ ''.'' @ LOCKER_EXTENSION" "s \<noteq> r" using assms by auto
    note t = remove_source_triple [OF ns, of i c j B k ?line]
    show "intact s i c d'" if "d_remove_file s d = (Inl e, d')" for e d' using io_tripleD(1) [OF t a that] .
    show "lock_left lc rnd s r i c True d'" if "d_remove_file s d = (Inr x, d')" for x d'
      using io_tripleD(2) [OF t a that] n unfolding lock_left_def by auto
  qed
  then have t: "io_triple (on_disk (lock_written lc rnd s r i c)) (on_host (io_map_err (io_failed io_text) (d_remove_file s)))
      (\<lambda>_. on_disk (lock_left lc rnd s r i c True)) (on_disk (intact s i c))" for io_text
    by (intro host_triple io_map_err_triple)
  show ?thesis
    unfolding remove_original_def using False
    by (simp, intro io_triple_bind [OF t]) (simp add: io_triple_def io_return_def)
qed

lemma finish_lock_triple:
  assumes en: "apart en" and ne: "r \<noteq> s"
  shows "io_triple (on_disk (lock_written lc rnd s r i c)) (finish_lock en s r keep out)
    (\<lambda>result sv. on_disk (lock_left lc rnd s r i c (klr_original_removed result)) sv \<and> klr_original_removed result = (\<not> keep))
    (on_disk (intact s i c))"
proof -
  have rec: "io_triple (on_disk (lock_left lc rnd s r i c removed))
      (record_application en ''locker'' ''lock'' (locker_resource s) device_name development None)
      (\<lambda>_. on_disk (lock_left lc rnd s r i c removed)) E" for removed device_name development and E :: "disk service \<Rightarrow> bool"
    using disk_keeps_record(1) [OF en blind_lock_left, of lc rnd s r i c removed "''locker''" "''lock''" "locker_resource s"
        device_name development None]
    by (auto simp: io_triple_def split: prod.splits sum.splits)
  show ?thesis
    unfolding finish_lock_def case_prod_beta
    by (rule io_triple_bind [OF remove_original_triple [OF ne]], rule triple_pure, rule io_triple_bind [OF rec])
      (simp add: io_triple_def io_return_def)
qed

text \<open>Whatever call fails, the file is still there as it was.\<close>

lemma locker_lock_keeps:
  fixes en :: "('key, 'sig, 'secret) locker_surroundings"
  assumes lc: "locker_crypto_ok lc" and rnd: "locker_random_ok rnd" and en: "apart en"
    and ne: "s @ ''.'' @ LOCKER_EXTENSION \<noteq> r" and params: "s = klp_path params" "r = klp_recovery_code_path params"
  shows "io_triple (on_disk (intact s i c)) (locker_lock en lc rnd params)
    (\<lambda>result sv. on_disk (lock_left lc rnd s r i c (klr_original_removed result)) sv \<and>
      klr_original_removed result = (\<not> klp_keep_original params)) (on_disk (intact s i c))"
proof -
  let ?I = "intact s i c" and ?io = "pk_io_text (en_link en)"
  have path: "io_triple (on_disk ?I) (io_bind (io_of (absolute_path p)) k) Q (on_disk ?I)"
    if "io_triple (on_disk ?I) (k p) Q (on_disk ?I)" for p k and Q :: "locker_lock_result \<Rightarrow> disk service \<Rightarrow> bool"
    using that by (auto simp: absolute_path_def io_triple_def io_bind_def io_of_def)
  have check: "io_triple (on_disk ?I) (engine en (ensure_sole_regular_file s b)) (\<lambda>_. on_disk ?I) (on_disk ?I)" for b
    unfolding engine_def ensure_sole_regular_file_def
    by (intro host_keeps keeps_rules)
  have claim: "io_triple (on_disk ?I) (on_host (claim_recovery_file ?io r))
    (\<lambda>_ sv. on_disk (\<lambda>d. ?I d \<and> slot_holds i r [] d) sv \<and> r \<noteq> s) (on_disk ?I)"
    by (rule triple_conseq [OF host_triple [OF claim_triple [of s i c ?io r]]]) (auto simp: on_disk_def)
  show ?thesis
    unfolding locker_lock_def params [symmetric]
    by (rule path, rule io_triple_bind [OF check], rule path, rule io_triple_bind [OF claim], rule triple_pure,
        rule io_triple_bind [OF with_slot_triple [OF lock_work_triple [OF lc rnd en ne]]], assumption,
        rule finish_lock_triple [OF en], assumption)
qed

subsection \<open>Unlocking\<close>

lemma attempt_recorded_triple:
  fixes en :: "('key, 'sig, 'secret) locker_surroundings" and m :: "(disk, 'a) service_io"
  assumes en: "apart en" and m: "io_triple P m (\<lambda>x. on_disk (Q x)) (on_disk E)"
    and blind: "fault_blind E" "\<And>x. fault_blind (Q x)"
  shows "io_triple P (io_bind (io_attempt m) (\<lambda>r. recorded en svc act res device_name development (map_sum id f r)))
    (\<lambda>y sv. \<exists>x. y = f x \<and> on_disk (Q x) sv) (on_disk E)"
proof (rule io_triple_bind)
  show "io_triple P (io_attempt m) (\<lambda>r. on_disk (case r of Inl _ \<Rightarrow> E | Inr x \<Rightarrow> Q x)) (on_disk E)"
  proof (rule io_tripleI)
    show "on_disk (case r of Inl _ \<Rightarrow> E | Inr x \<Rightarrow> Q x) sv'" if "P sv" "io_attempt m sv = (Inr r, sv')" for sv r sv'
      using that io_tripleD [OF m] by (cases r) (auto simp: io_attempt_Inr)
  qed (simp add: io_attempt_def split: prod.splits)
  fix r :: "service_error + 'a"
  have b: "fault_blind (case r of Inl _ \<Rightarrow> E | Inr x \<Rightarrow> Q x)" using blind by (simp split: sum.split)
  show "io_triple (on_disk (case r of Inl _ \<Rightarrow> E | Inr x \<Rightarrow> Q x))
    (recorded en svc act res device_name development (map_sum id f r)) (\<lambda>y sv. \<exists>x. y = f x \<and> on_disk (Q x) sv) (on_disk E)"
    using disk_keeps_record(2) [OF en b, of svc act res device_name development "map_sum id f r"]
    by (cases r) (auto simp: io_triple_def recorded_def io_bind_def io_of_def split: prod.splits sum.splits)
qed

text \<open>A container is gone only when all of what it held is back.\<close>

definition unlock_left ::
    "locker_crypto \<Rightarrow> path \<Rightarrow> nat \<Rightarrow> bytes \<Rightarrow> path \<Rightarrow> bool \<Rightarrow> disk \<Rightarrow> bool" where
  "unlock_left lc p i c restored removed d \<longleftrightarrow>
    (\<exists>k dek h ws m plain. k \<noteq> i \<and> container_ok h ws m plain \<and> c = container_bytes lc dek h ws m plain \<and>
      intact restored k plain d) \<and>
    (if removed then dk_nodes d p = None else intact p i c d)"

lemma blind_unlock_left [keeps_rules]: "fault_blind (unlock_left lc p i c restored removed)"
  by (cases removed) (simp_all add: unlock_left_def fault_blind_def)

lemma locker_unlock_keeps:
  fixes en :: "('key, 'sig, 'secret) locker_surroundings"
  assumes lc: "locker_crypto_ok lc" and en: "apart en" and p: "p = kup_path params"
    and elsewhere: "restores_elsewhere lc c (unlock_directory p (kup_destination_dir params)) p"
  shows "io_triple (on_disk (intact p i c)) (locker_unlock en lc rnd params)
    (\<lambda>result. on_disk (unlock_left lc p i c (kur_restored result) (kur_container_removed result))) (on_disk (intact p i c))"
proof -
  let ?I = "intact p i c" and ?dir = "kup_destination_dir params"
  have cu: "custodian_ok (asking_once en vname session cred)" for vname session cred
    unfolding asking_once_def using en
    by (intro phone_custodian_ok) (auto simp: apart_def custodian_new_def quiet_def io_return_def)
  have unlock: "io_triple (on_disk ?I) (engine en (unlock_file lc rnd p ?dir rm (PhoneKey (asking_once en vname session cred))))
    (\<lambda>out. on_disk (unlock_left lc p i c (uo_restored out) (uo_container_removed out))) (on_disk ?I)" for rm vname session cred
    unfolding engine_def
  proof (rule triple_conseq [OF host_triple [OF io_map_err_triple [OF unlock_file_spec [OF lc _ elsewhere]]]])
    fix out sv
    assume "on_disk (\<lambda>d. (\<exists>k dek h ws m plain. k \<noteq> i \<and> container_ok h ws m plain \<and> c = container_bytes lc dek h ws m plain
        \<and> uo_restored out = path_join (unlock_directory p ?dir) (lm_original_name m) \<and> safe_file_name m = Inr (lm_original_name m)
        \<and> intact (uo_restored out) k plain d)
      \<and> uo_container_removed out = rm \<and> (if rm then dk_nodes d p = None else intact p i c d)) sv"
    then show "on_disk (unlock_left lc p i c (uo_restored out) (uo_container_removed out)) sv"
      unfolding on_disk_def unlock_left_def by blast
  qed (use cu in auto)
  have work: "io_triple (on_disk ?I) (io_bind (io_attempt (engine en (unlock_file lc rnd p ?dir (\<not> kup_keep_container params)
        (PhoneKey (asking_once en vname session cred))))) (\<lambda>outcome.
      recorded en ''locker'' ''unlock'' (locker_resource p) device_name development
        (map_sum id (\<lambda>outcome. \<lparr>kur_restored = uo_restored outcome, kur_plaintext_len = uo_plaintext_len outcome,
          kur_container_removed = uo_container_removed outcome, kur_device_name = device_name,
          kur_development = development\<rparr>) outcome)))
      (\<lambda>result. on_disk (unlock_left lc p i c (kur_restored result) (kur_container_removed result))) (on_disk ?I)"
    for vname session cred device_name development
    by (rule triple_conseq [OF attempt_recorded_triple [OF en unlock]]) (auto intro: keeps_rules)
  have reached: "io_triple (on_disk ?I) (reach_phone en select) (\<lambda>_. on_disk ?I) (on_disk ?I)" for select
    by (rule disk_keeps_reach [OF en blind_intact])
  have rest: "io_triple (on_disk ?I)
     (io_bind (reach_phone en (\<lambda>s. select_locker_credential s (kup_credential_id params)))
      (\<lambda>(device_id, cred, session, device_name).
    let development = ts_is_development (se_security session) in
    io_bind (sv_read (\<lambda>sv. ac_verifier_name (sv_config sv))) (\<lambda>vname.
    io_bind (io_attempt (engine en (unlock_file lc rnd p ?dir (\<not> kup_keep_container params)
      (PhoneKey (asking_once en vname session cred))))) (\<lambda>outcome.
    recorded en ''locker'' ''unlock'' (locker_resource p) device_name development
      (map_sum id (\<lambda>outcome. \<lparr>kur_restored = uo_restored outcome, kur_plaintext_len = uo_plaintext_len outcome,
        kur_container_removed = uo_container_removed outcome, kur_device_name = device_name,
        kur_development = development\<rparr>) outcome)))))
    (\<lambda>result. on_disk (unlock_left lc p i c (kur_restored result) (kur_container_removed result))) (on_disk ?I)"
    unfolding Let_def case_prod_beta
    by (rule io_triple_bind [OF reached], rule io_triple_bind [OF disk_keeps_pure(2)], rule work)
  then show ?thesis
    unfolding locker_unlock_def p [symmetric]
    by (cases "?dir") (auto simp: io_triple_def io_bind_def io_of_def absolute_path_def)
qed

subsection \<open>What is lost after the phone has done its part\<close>

text \<open>The container has its new wrappers when the new code is written; if that fails the slot goes, and with it
  the only copy of the code.\<close>

lemma rekey_loses_its_code:
  assumes "reach_phone en (\<lambda>s. select_locker_credential s (krp_credential_id params)) sv
      = (Inr (did, cred, session, device_name), sv1)"
    and "rekey_file lc rnd p (asking_twice en (ac_verifier_name (sv_config sv1)) session did cred) None
      (krp_new_recovery_code params) (sv_host sv1) = (Inr (Some code), d2)"
    and "d_write_file r (recovery_line code) d2 = (Inl e, d3)"
  shows "with_slot_option (Some r) (rekey_into_slot en lc rnd p (Some r) params) sv =
    (Inl (io_failed (pk_io_text (en_link en)) e), sv1\<lparr>sv_host := snd (d_remove_file r d3)\<rparr>)"
  using assms
  by (simp add: with_slot_option_def with_slot_def io_on_error_def rekey_into_slot_def io_bind_def Let_def sv_read_def
      or_recorded_def io_attempt_def engine_def on_host_def io_map_err_def io_return_def slot_write_def case_prod_beta)

text \<open>A volume key that is already written stays when its wrapper cannot be, and nothing is logged.\<close>

lemma enroll_leaves_its_key:
  assumes "d_write_file wrapped_path (encode_wrapped_key (en_wrapped enrolled)) (sv_host sv) = (Inl e, d)"
  shows "finish_enroll en wrapped_path key_path params (enrolled, cred, device_name, development) sv =
    (Inl (io_failed (pk_io_text (en_link en)) e), sv\<lparr>sv_host := d\<rparr>)"
  using assms by (simp add: finish_enroll_def io_bind_def on_host_def io_map_err_def)

end
