(* ===== verification/Ipc_Dispatch.thy ===== *)
theory Ipc_Dispatch
  imports Ipc_Connection Service_WebAuthn Service_Locker Service_Pairing
begin

text \<open>
  What the agent serves on a connection (\<open>dispatch\<close>, \<open>vault_generate_copy\<close>, \<open>parse\<close> and \<open>to_reply\<close> of
  \<open>phone-auth-agent/src/ipc.rs\<close>): which operation of the service each method is, on which
  parameters, and the reply made of its outcome. The codecs of the parameters and results, which
  \<open>serde\<close> derives from the structs of \<open>api.rs\<close>, are parameters.
\<close>

subsection \<open>Parameters and results\<close>

record generate_copy_params =
  gcp_length :: "nat option"
  gcp_lowercase :: "bool option"
  gcp_uppercase :: "bool option"
  gcp_digits :: "bool option"
  gcp_symbols :: "bool option"
  gcp_clear_after_ms :: "u64 option"

record 'json call_codec =
  jp_forget :: "'json \<Rightarrow> string + string"
  jp_set_permissions :: "'json \<Rightarrow> string + string \<times> string \<times> permission_summary list"
  jp_sync_permissions :: "'json \<Rightarrow> string + string \<times> string"
  jp_confirm :: "'json \<Rightarrow> string + string \<times> string option"
  jp_recent :: "'json \<Rightarrow> string + nat"
  jp_authorize :: "'json \<Rightarrow> string + authorize_params"
  jp_webauthn :: "'json \<Rightarrow> string + 'json webauthn_params"
  jp_webauthn_cancel :: "'json \<Rightarrow> string + string"
  jp_luks_enroll :: "'json \<Rightarrow> string + luks_enroll_params"
  jp_locker_lock :: "'json \<Rightarrow> string + locker_lock_params"
  jp_locker_unlock :: "'json \<Rightarrow> string + locker_unlock_params"
  jp_locker_rekey :: "'json \<Rightarrow> string + locker_rekey_params"
  jp_vault_list :: "'json \<Rightarrow> string + string option"
  jp_vault_create :: "'json \<Rightarrow> string + vault_create_params"
  jp_vault_copy :: "'json \<Rightarrow> string + vault_copy_params"
  jp_vault_fill :: "'json \<Rightarrow> string + vault_fill_params"
  jp_ssh_sign :: "'json \<Rightarrow> string + ssh_sign_params"
  jp_generate_copy :: "'json \<Rightarrow> string + generate_copy_params"

text \<open>What \<open>to_reply\<close> and \<open>json!\<close> are given.\<close>

datatype 'json payload =
    StatusPayload status_payload
  | DevicesPayload "device_summary list"
  | SyncPayload sync_permissions_result
  | BootstrapPayload pairing_bootstrap
  | PendingPayload "proposal_summary option"
  | EntriesPayload "audit_entry list"
  | AuthorizePayload authorize_result
  | WebAuthnPayload 'json
  | EnrollPayload luks_enroll_result
  | LockPayload locker_lock_result
  | UnlockPayload locker_unlock_result
  | RekeyPayload locker_rekey_result
  | ListPayload vault_list_result
  | CreatePayload vault_create_result
  | CopyPayload vault_copy_result
  | FillPayload vault_fill_result
  | SignaturePayload bytes

text \<open>
  What a call uses beside the service. \<open>ag_waits\<close> tells a wait that has run out from other errors,
  \<open>ag_fuel\<close> bounds the wait for a passkey, \<open>ag_draws\<close> and \<open>ag_random\<close> are what the random generator gives in
  a state, and \<open>ag_value\<close> is \<open>serde_json::to_value\<close>.
\<close>

record ('key, 'sig, 'secret, 'json) agent =
  ag_en :: "('key, 'sig, 'secret) locker_surroundings"
  ag_locker :: locker_crypto
  ag_random :: "disk \<Rightarrow> locker_random"
  ag_draws :: "disk \<Rightarrow> draws"
  ag_clipboard :: "disk clipboard"
  ag_locks :: "nat \<Rightarrow> bool"
  ag_webauthn :: "disk webauthn_host"
  ag_waits :: "io_error \<Rightarrow> bool"
  ag_fuel :: nat
  ag_json :: "'json json_lib"
  ag_codec :: "'json call_codec"
  ag_value :: "'json payload \<Rightarrow> string + 'json"

type_synonym 'json outcome_of = "('json reply \<times> u64 list \<times> disk service) option"

subsection \<open>Replies\<close>

definition to_reply :: "('key, 'sig, 'secret, 'json) agent \<Rightarrow> u64 \<Rightarrow> 'json payload \<Rightarrow> 'json reply" where
  "to_reply ag i payload =
    (case ag_value ag payload of
       Inr value \<Rightarrow> reply_ok i value
     | Inl e \<Rightarrow> reply_err i ''internal'' e)"

definition answer :: "u64 \<Rightarrow> ('a \<Rightarrow> 'json reply) \<Rightarrow> (service_error + 'a) \<times> disk service \<Rightarrow> 'json outcome_of" where
  "answer i ok outcome =
    (case outcome of
       (Inr a, sv) \<Rightarrow> Some (ok a, [], sv)
     | (Inl e, sv) \<Rightarrow> Some (reply_err i (sx_code e) (sx_message e), [], sv))"

definition with_params :: "'json call \<Rightarrow> ('json \<Rightarrow> string + 'p) \<Rightarrow> disk service \<Rightarrow> ('p \<Rightarrow> 'json outcome_of) \<Rightarrow> 'json outcome_of" where
  "with_params call parse sv serve =
    (case parse (cl_params call) of
       Inr params \<Rightarrow> serve params
     | Inl e \<Rightarrow> Some (reply_err (cl_id call) ''bad-params'' e, [], sv))"

text \<open>\<open>json!\<close> of one field whose value is serialized: a failure there is a panic, and a \<open>Value\<close>
  serializes to itself.\<close>

definition one_field ::
    "('key, 'sig, 'secret, 'json) agent \<Rightarrow> u64 \<Rightarrow> string \<Rightarrow> 'json payload \<Rightarrow> disk service \<Rightarrow> 'json outcome_of" where
  "one_field ag i key payload sv =
    (case ag_value ag payload of
       Inr value \<Rightarrow> Some (reply_ok i (js_object (ag_json ag) [(key, value)]), [], sv)
     | Inl _ \<Rightarrow> None)"

definition flag_reply :: "('key, 'sig, 'secret, 'json) agent \<Rightarrow> u64 \<Rightarrow> string \<Rightarrow> bool \<Rightarrow> 'json reply" where
  "flag_reply ag i key b = reply_ok i (js_object (ag_json ag) [(key, js_bool (ag_json ag) b)])"

subsection \<open>A generated password\<close>

definition generate_policy :: "generate_copy_params \<Rightarrow> password_policy" where
  "generate_policy params =
    (let d = default_policy in
     d\<lparr>pp_length := (case gcp_length params of None \<Rightarrow> pp_length d | Some n \<Rightarrow> n),
       pp_lowercase := (case gcp_lowercase params of None \<Rightarrow> pp_lowercase d | Some b \<Rightarrow> b),
       pp_uppercase := (case gcp_uppercase params of None \<Rightarrow> pp_uppercase d | Some b \<Rightarrow> b),
       pp_digits := (case gcp_digits params of None \<Rightarrow> pp_digits d | Some b \<Rightarrow> b),
       pp_symbols := (case gcp_symbols params of None \<Rightarrow> pp_symbols d | Some b \<Rightarrow> b)\<rparr>)"

text \<open>\<open>record\<close> and the reply: the outcome is written down whichever it is.\<close>

definition noting ::
    "('key, 'sig, 'secret, 'json) agent \<Rightarrow> (disk, 'a) service_io \<Rightarrow> (disk, 'a) service_io" where
  "noting ag m =
    io_bind (io_attempt m) (\<lambda>outcome.
    io_bind (record_generated_copy (ag_en ag) (case outcome of Inl e \<Rightarrow> Some e | Inr _ \<Rightarrow> None)) (\<lambda>_.
    io_of outcome))"

definition vault_generate_copy ::
    "('key, 'sig, 'secret, 'json) agent \<Rightarrow> u64 \<Rightarrow> generate_copy_params \<Rightarrow> disk service \<Rightarrow> 'json outcome_of" where
  "vault_generate_copy ag i params sv =
    (let reply = answer i (\<lambda>copied. to_reply ag i (CopyPayload copied)) in
     case clipboard_ttl (gcp_clear_after_ms params) of
       Inl e \<Rightarrow> reply (noting ag (io_fail e) sv)
     | Inr ttl \<Rightarrow>
         (case generate_password (generate_policy params) (ag_draws ag (sv_host sv)) of
            Inl e \<Rightarrow> reply (noting ag (io_fail (service_error_new ''bad-params'' (policy_error_text e))) sv)
          | Inr None \<Rightarrow> None
          | Inr (Some (generated, _)) \<Rightarrow>
              reply (noting ag (on_host (put_on_clipboard (ag_clipboard ag) (ag_locks ag) (as_bytes generated) ttl)) sv)))"

subsection \<open>The methods\<close>

definition identity_value :: "('key, 'sig, 'secret, 'json) agent \<Rightarrow> bytes \<times> string \<Rightarrow> 'json" where
  "identity_value ag = (\<lambda>(blob, comment). js_object (ag_json ag)
    [(''blob'', js_str (ag_json ag) (to_hex blob)), (''comment'', js_str (ag_json ag) comment)])"

definition pairing_service :: "('key, 'sig, 'secret, 'json) agent \<Rightarrow> 'json call \<Rightarrow> string" where
  "pairing_service ag call =
    (case Option.bind (js_get (ag_json ag) (cl_params call) ''service'') (js_as_str (ag_json ag)) of
       None \<Rightarrow> ''authorization'' | Some name \<Rightarrow> name)"

definition dispatch_device :: "('key, 'sig, 'secret, 'json) agent \<Rightarrow> 'json call \<Rightarrow> disk service \<Rightarrow> 'json outcome_of option" where
  "dispatch_device ag call sv =
    (let i = cl_id call; en = ag_en ag; co = ag_codec ag; js = ag_json ag; method = cl_method call in
     if method = ''status'' then Some (Some (to_reply ag i (StatusPayload (service_status en sv)), [], sv))
     else if method = ''devices.list'' then Some (one_field ag i ''devices'' (DevicesPayload (service_devices sv)) sv)
     else if method = ''devices.forget'' then Some (with_params call (jp_forget co) sv (\<lambda>device_id.
       answer i (\<lambda>_. reply_ok i (js_object js [(''forgotten'', js_str js device_id)])) (forget en device_id sv)))
     else if method = ''devices.setPermissions'' then Some (with_params call (jp_set_permissions co) sv (\<lambda>(device_id, cred, ps).
       answer i (\<lambda>_. flag_reply ag i ''updated'' True) (set_permissions en device_id cred ps sv)))
     else if method = ''devices.syncPermissions'' then Some (with_params call (jp_sync_permissions co) sv (\<lambda>(device_id, cred).
       case sync_permissions en device_id cred sv of
         (Inl e, sv) \<Rightarrow> Some (reply_err i (sx_code e) (sx_message e), [], sv)
       | (Inr result, sv) \<Rightarrow>
           (case ag_value ag (SyncPayload result) of Inr v \<Rightarrow> Some (reply_ok i v, [], sv) | Inl _ \<Rightarrow> None)))
     else if method = ''pair.begin'' then Some
       (answer i (\<lambda>b. to_reply ag i (BootstrapPayload b)) (begin_pairing_for en (pairing_service ag call) sv))
     else if method = ''pair.cancel'' then Some (Some (flag_reply ag i ''cancelled'' True, [], cancel_pairing en sv))
     else if method = ''pair.pending'' then Some
       (case pending_pairing en sv of (pending, sv) \<Rightarrow> Some (to_reply ag i (PendingPayload pending), [], sv))
     else if method = ''pair.confirm'' then Some (with_params call (jp_confirm co) sv (\<lambda>(code, attempt_id).
       answer i (\<lambda>_. flag_reply ag i ''paired'' True) (confirm_pairing en code attempt_id sv)))
     else if method = ''audit.recent'' then Some (with_params call (jp_recent co) sv (\<lambda>limit.
       case service_audit_recent en limit sv of (entries, sv) \<Rightarrow> one_field ag i ''entries'' (EntriesPayload entries) sv))
     else None)"

definition dispatch_cancel :: "('key, 'sig, 'secret, 'json) agent \<Rightarrow> u64 \<Rightarrow> string \<Rightarrow> disk service \<Rightarrow> 'json outcome_of" where
  "dispatch_cancel ag i rid sv =
    (if rid \<noteq> [] \<and> length rid \<le> 64 then
       (case wh_instant (ag_webauthn ag) (sv_host sv) of (now, w) \<Rightarrow>
        case cancel_webauthn rid now (wh_cancellations (ag_webauthn ag) w) of (b, tab) \<Rightarrow>
          Some (flag_reply ag i ''cancelled'' b, [], sv\<lparr>sv_host := wh_put (ag_webauthn ag) tab w\<rparr>))
     else Some (reply_err i ''bad-request'' ''invalid WebAuthn request id'', [], sv))"

definition dispatch_phone :: "('key, 'sig, 'secret, 'json) agent \<Rightarrow> 'json call \<Rightarrow> disk service \<Rightarrow> 'json outcome_of option" where
  "dispatch_phone ag call sv =
    (let i = cl_id call; en = ag_en ag; co = ag_codec ag; js = ag_json ag; method = cl_method call;
         rnd = ag_random ag (sv_host sv) in
     if method = ''authorize'' then Some (with_params call (jp_authorize co) sv (\<lambda>params.
       answer i (\<lambda>r. to_reply ag i (AuthorizePayload r)) (authorize en params sv)))
     else if method = ''webauthn.perform'' then Some (with_params call (jp_webauthn co) sv (\<lambda>params.
       Option.bind (perform_webauthn js en (ag_webauthn ag) (ag_waits ag) (ag_fuel ag) params sv)
         (answer i (\<lambda>r. to_reply ag i (WebAuthnPayload r)))))
     else if method = ''webauthn.cancel'' then Some (with_params call (jp_webauthn_cancel co) sv (\<lambda>rid.
       dispatch_cancel ag i rid sv))
     else if method = ''luks.enroll'' then Some (with_params call (jp_luks_enroll co) sv (\<lambda>params.
       answer i (\<lambda>r. to_reply ag i (EnrollPayload r)) (service_luks_enroll en params sv)))
     else if method = ''locker.lock'' then Some (with_params call (jp_locker_lock co) sv (\<lambda>params.
       answer i (\<lambda>r. to_reply ag i (LockPayload r)) (locker_lock en (ag_locker ag) rnd params sv)))
     else if method = ''locker.unlock'' then Some (with_params call (jp_locker_unlock co) sv (\<lambda>params.
       answer i (\<lambda>r. to_reply ag i (UnlockPayload r)) (locker_unlock en (ag_locker ag) rnd params sv)))
     else if method = ''locker.rekey'' then Some (with_params call (jp_locker_rekey co) sv (\<lambda>params.
       answer i (\<lambda>r. to_reply ag i (RekeyPayload r)) (locker_rekey en (ag_locker ag) rnd params sv)))
     else None)"

definition dispatch_vault :: "('key, 'sig, 'secret, 'json) agent \<Rightarrow> 'json call \<Rightarrow> disk service \<Rightarrow> 'json outcome_of option" where
  "dispatch_vault ag call sv =
    (let i = cl_id call; en = ag_en ag; co = ag_codec ag; js = ag_json ag; method = cl_method call in
     if method = ''vault.list'' then Some (with_params call (jp_vault_list co) sv (\<lambda>cred.
       answer i (\<lambda>r. to_reply ag i (ListPayload r)) (vault_list en cred sv)))
     else if method = ''vault.create'' then Some (with_params call (jp_vault_create co) sv (\<lambda>params.
       Option.bind (service_vault_create en params (ag_draws ag (sv_host sv))) (\<lambda>m.
       answer i (\<lambda>r. to_reply ag i (CreatePayload r)) (m sv))))
     else if method = ''vault.copy'' then Some (with_params call (jp_vault_copy co) sv (\<lambda>params.
       answer i (\<lambda>r. to_reply ag i (CopyPayload r)) (vault_copy en (ag_clipboard ag) (ag_locks ag) params sv)))
     else if method = ''ssh.identities'' then Some (Some (reply_ok i (js_object js
       [(''identities'', js_array js (map (identity_value ag) (ssh_identities sv)))]), [], sv))
     else if method = ''ssh.sign'' then Some (with_params call (jp_ssh_sign co) sv (\<lambda>params.
       answer i (\<lambda>r. to_reply ag i (SignaturePayload r)) (ssh_sign en params sv)))
     else if method = ''vault.fill'' then Some (with_params call (jp_vault_fill co) sv (\<lambda>params.
       answer i (\<lambda>r. to_reply ag i (FillPayload r)) (vault_fill en params sv)))
     else if method = ''vault.generate-copy'' then Some (with_params call (jp_generate_copy co) sv (\<lambda>params.
       vault_generate_copy ag i params sv))
     else None)"

definition dispatch :: "('key, 'sig, 'secret, 'json) agent \<Rightarrow> ('json, disk service) dispatcher" where
  "dispatch ag call sv =
    (case dispatch_device ag call sv of Some r \<Rightarrow> r | None \<Rightarrow>
    (case dispatch_phone ag call sv of Some r \<Rightarrow> r | None \<Rightarrow>
    (case dispatch_vault ag call sv of Some r \<Rightarrow> r | None \<Rightarrow>
     if cl_method call = ''subscribe'' then
       (case subscribe sv of (i, sv) \<Rightarrow> Some (flag_reply ag (cl_id call) ''subscribed'' True, [i], sv))
     else Some (reply_err (cl_id call) ''unknown-method'' (''unknown method `'' @ cl_method call @ ''`''), [], sv))))"

text \<open>A client of the agent, from the accepted socket to its end.\<close>

definition serve_client ::
    "('key, 'sig, 'secret, 'json) agent \<Rightarrow> (string \<Rightarrow> string + 'json call) \<Rightarrow> string \<Rightarrow> peer \<Rightarrow> disk service \<Rightarrow>
     ('json, disk service) served" where
  "serve_client ag parse_call token =
    handle_connection parse_call (dispatch ag) unsubscribe token FIRST_CALL_WINDOW"

subsection \<open>What no client can break\<close>

definition sound_service :: "disk service \<Rightarrow> bool" where
  "sound_service sv \<longleftrightarrow> verifier_unique (sv_verifier sv)"

lemma keepsD: "verifier_keeps verifier_unique m \<Longrightarrow> m sv = (r, sv') \<Longrightarrow> sound_service sv \<Longrightarrow> sound_service sv'"
  by (auto simp: verifier_keeps_def sound_service_def)

end
