(* ===== verification/Agent_Invariant.thy ===== *)
theory Agent_Invariant
  imports Ipc_Dispatch
begin

text \<open>
  What a client of the agent (\<open>phone-auth-agent/src/ipc.rs\<close>) can and cannot do to its service: every
  call keeps the pairing store sound, every copy of a generated password is written down, and a
  connection takes its subscriptions with it.
\<close>

subsection \<open>Operations that leave the verifier alone\<close>

lemma logged_verifier: "logged en svc act sv r sv' \<Longrightarrow> sv_verifier sv' = sv_verifier sv"
  by (auto simp: logged_def)

lemma same_calm: "calm m \<Longrightarrow> same_verifier m"
  by (simp add: calm_def same_verifier_def same_serviceD(1))

lemma same_accountable: "accountable en svc act m \<Longrightarrow> same_verifier m"
  unfolding accountable_def same_verifier_def by (metis prod.collapse same_serviceD(1) logged_verifier)

lemma same_attempt [sv_rules]: "same_verifier m \<Longrightarrow> same_verifier (io_attempt m)"
  by (auto simp: same_verifier_def io_attempt_def split: prod.split) (metis snd_conv)

lemma same_on_error: "same_verifier m \<Longrightarrow> same_verifier h \<Longrightarrow> same_verifier (io_on_error m h)"
  unfolding same_verifier_def io_on_error_def by (auto split: prod.split sum.split) (metis snd_conv)+

lemma same_case_prod [sv_rules]: "(\<And>x y. same_verifier (k x y)) \<Longrightarrow> same_verifier (case p of (x, y) \<Rightarrow> k x y)"
  by (cases p) simp

lemma same_if [sv_rules]: "same_verifier m \<Longrightarrow> same_verifier n \<Longrightarrow> same_verifier (if P then m else n)"
  by simp

lemma same_with_slot [sv_rules]: "same_verifier m \<Longrightarrow> same_verifier (with_slot p m)" "same_verifier m \<Longrightarrow> same_verifier (with_slot_option s m)"
  unfolding with_slot_option_def with_slot_def by (auto split: option.split intro!: same_on_error sv_rules)

lemma same_or_recorded [sv_rules]: "same_verifier m \<Longrightarrow> same_verifier (or_recorded en svc act res dn dev m)"
  unfolding or_recorded_def by (intro sv_rules) (auto split: sum.split intro!: sv_rules)

lemma same_locker_steps [sv_rules]:
  "same_verifier (engine en m)" "same_verifier (slot_write g p bs)" "same_verifier (reach_phone en sel)"
  "same_verifier (remove_original en src keep)"
  unfolding engine_def slot_write_def reach_phone_def remove_original_def by (intro sv_rules)+

lemma same_finish_lock [sv_rules]: "same_verifier (finish_lock en source p keep x)"
  unfolding finish_lock_def by (intro sv_rules)

lemma same_finish_enroll [sv_rules]: "same_verifier (finish_enroll en w p params x)"
  unfolding finish_enroll_def by (intro sv_rules)

lemma same_lock_into [sv_rules]: "same_verifier (lock_into_slot en lc rnd source p cred)"
  unfolding lock_into_slot_def Let_def by (intro sv_rules)

lemma same_rekey_into [sv_rules]: "same_verifier (rekey_into_slot en lc rnd container slot params)"
  unfolding rekey_into_slot_def Let_def by (intro sv_rules) (auto split: option.split intro!: sv_rules)

lemma same_claim_rekey [sv_rules]: "same_verifier (claim_rekey_slot en params)"
  unfolding claim_rekey_slot_def by (auto split: option.split intro!: sv_rules)

lemma same_enroll_into [sv_rules]: "same_verifier (enroll_into_slot en p params)"
  unfolding enroll_into_slot_def Let_def by (intro sv_rules)

lemma same_locker:
  "same_verifier (locker_lock en lc rnd lock)" "same_verifier (locker_unlock en lc rnd unlock)"
  "same_verifier (locker_rekey en lc rnd rekey)" "same_verifier (service_luks_enroll en enroll)"
  unfolding locker_lock_def locker_unlock_def locker_rekey_def service_luks_enroll_def Let_def
  by (intro sv_rules)+


subsection \<open>The store stays sound\<close>

lemma same_sound: "same_verifier m \<Longrightarrow> m sv = (r, sv') \<Longrightarrow> sound_service sv' = sound_service sv"
  unfolding same_verifier_def sound_service_def by (metis snd_conv)

lemma sound_simps [simp]:
  "sound_service (cancel_pairing en sv) = sound_service sv" "sound_service (sv\<lparr>sv_host := w\<rparr>) = sound_service sv"
  by (auto simp: sound_service_def cancel_pairing_def discard_held_proposal_def host_do_def split: option.split)

lemma sound_pending: "pending_pairing en sv = (r, sv') \<Longrightarrow> sound_service sv' = sound_service sv"
  by (auto simp: pending_pairing_def sound_service_def split: option.splits prod.splits)

lemma sound_recent: "service_audit_recent en n sv = (r, sv') \<Longrightarrow> sound_service sv' = sound_service sv"
  by (auto simp: service_audit_recent_def sound_service_def split: prod.splits)

lemma sound_subscribe: "subscribe sv = (i, sv') \<Longrightarrow> sound_service sv' = sound_service sv"
  by (auto simp: subscribe_def sound_service_def Let_def)

lemma sound_unsubscribe [simp]: "sound_service (unsubscribe ids sv) = sound_service sv"
  by (simp add: unsubscribe_def sound_service_def)

lemma sound_answer:
  "answer i ok outcome = Some (reply, subs, sv') \<Longrightarrow> snd outcome = sv'"
  by (auto simp: answer_def split: prod.splits sum.splits)

text \<open>What a call may make of a sound service.\<close>

definition leaves_sound :: "disk service \<Rightarrow> 'json outcome_of \<Rightarrow> bool" where
  "leaves_sound sv out \<longleftrightarrow> (\<forall>reply subs sv'. out = Some (reply, subs, sv') \<longrightarrow> sound_service sv \<longrightarrow> sound_service sv')"

named_theorems sound_rules "calls that leave a sound service sound"

lemma leaves_simps [sound_rules]: "leaves_sound sv (Some (r, subs, sv))" "leaves_sound sv None"
  by (simp_all add: leaves_sound_def)

lemma leaves_params [sound_rules]: "(\<And>p. leaves_sound sv (serve p)) \<Longrightarrow> leaves_sound sv (with_params call parse sv serve)"
  by (auto simp: with_params_def leaves_sound_def split: sum.splits)

lemma leaves_answer:
  "verifier_keeps verifier_unique m \<Longrightarrow> leaves_sound sv (answer i ok (m sv))"
  unfolding leaves_sound_def by (metis keepsD prod.collapse sound_answer)

lemma leaves_field [sound_rules]: "leaves_sound sv (one_field ag i key payload sv)"
  by (auto simp: one_field_def leaves_sound_def split: sum.splits)

lemma leaves_case_prod [sound_rules]: "(\<And>x y. leaves_sound sv (k x y)) \<Longrightarrow> leaves_sound sv (case p of (x, y) \<Rightarrow> k x y)"
  by (cases p) simp

lemmas answers [sound_rules] =
  leaves_answer [OF unique_forget] leaves_answer [OF unique_set_permissions]
  leaves_answer [OF unique_confirm] leaves_answer [OF unique_authorize]
  leaves_answer [OF verifier_keeps_same [OF same_verifier_begin]]
  leaves_answer [OF verifier_keeps_same [OF same_locker(1)]] leaves_answer [OF verifier_keeps_same [OF same_locker(2)]]
  leaves_answer [OF verifier_keeps_same [OF same_locker(3)]] leaves_answer [OF verifier_keeps_same [OF same_locker(4)]]
  leaves_answer [OF verifier_keeps_same [OF same_accountable [OF vault_list_accountable]]]
  leaves_answer [OF verifier_keeps_same [OF same_accountable [OF vault_create_accountable]]]
  leaves_answer [OF verifier_keeps_same [OF same_accountable [OF vault_copy_accountable]]]
  leaves_answer [OF verifier_keeps_same [OF same_accountable [OF vault_fill_accountable]]]
  leaves_answer [OF verifier_keeps_same [OF same_accountable [OF ssh_sign_accountable]]]

lemma leaves_sync [sound_rules]:
  "leaves_sound sv (case sync_permissions en device_id cred sv of
      (Inl e, sv) \<Rightarrow> Some (f e, [], sv)
    | (Inr result, sv) \<Rightarrow> (case g result of Inr v \<Rightarrow> Some (h v, [], sv) | Inl _ \<Rightarrow> None))"
  unfolding leaves_sound_def using keepsD [OF unique_sync] by (auto split: prod.splits sum.splits)

lemma leaves_pending [sound_rules]: "leaves_sound sv (case pending_pairing en sv of (p, sv) \<Rightarrow> Some (f p, [], sv))"
  by (auto simp: leaves_sound_def sound_pending split: prod.splits)

lemma leaves_recent [sound_rules]:
  "leaves_sound sv (case service_audit_recent en n sv of (p, sv) \<Rightarrow> one_field ag i key (f p) sv)"
  by (auto simp: leaves_sound_def sound_recent one_field_def split: prod.splits sum.splits)

lemma leaves_cancel [sound_rules]:
  "leaves_sound sv (Some (r, [], cancel_pairing en sv))" "leaves_sound sv (dispatch_cancel ag i rid sv)"
  by (auto simp: leaves_sound_def dispatch_cancel_def split: prod.splits if_splits)

lemma leaves_webauthn [sound_rules]:
  "leaves_sound sv (Option.bind (perform_webauthn js en wh waits fuel params sv) (answer i ok))"
proof -
  have "sound_service sv' = sound_service sv" if "perform_webauthn js en wh waits fuel params sv = Some (r, sv')" for r sv'
    using that by (cases rule: webauthn_cases) (simp_all add: sound_service_def same_serviceD(1) logged_verifier)
  then show ?thesis
    unfolding leaves_sound_def by (cases "perform_webauthn js en wh waits fuel params sv") (auto dest: sound_answer)
qed

lemma leaves_create [sound_rules]:
  "leaves_sound sv (Option.bind (service_vault_create en params draws) (\<lambda>m. answer i ok (m sv)))"
proof -
  have "leaves_sound sv (answer i ok (io_fail e sv))" for e
    by (rule leaves_answer [OF verifier_keeps_same]) (intro sv_rules)
  then show ?thesis
    by (auto simp: service_vault_create_def intro: sound_rules split: sum.split option.split)
qed

lemma same_noting: "same_verifier m \<Longrightarrow> same_verifier (noting ag m)"
  unfolding noting_def record_generated_copy_def record_vault_def by (intro sv_rules)

lemma leaves_generate [sound_rules]: "leaves_sound sv (vault_generate_copy ag i params sv)"
  unfolding vault_generate_copy_def Let_def
  by (auto split: sum.split option.split intro!: leaves_answer verifier_keeps_same same_noting sv_rules sound_rules)

lemma leaves_if: "(P \<Longrightarrow> leaves_sound sv m) \<Longrightarrow> (\<not> P \<Longrightarrow> leaves_sound sv n) \<Longrightarrow> leaves_sound sv (if P then m else n)"
  by simp

text \<open>For the three groups of methods, each a list of alternatives.\<close>

definition leaves_any :: "disk service \<Rightarrow> 'json outcome_of option \<Rightarrow> bool" where
  "leaves_any sv out \<longleftrightarrow> (\<forall>r. out = Some r \<longrightarrow> leaves_sound sv r)"

lemma leaves_any_rules:
  "leaves_any sv None" "leaves_sound sv r \<Longrightarrow> leaves_any sv (Some r)"
  "leaves_any sv x \<Longrightarrow> leaves_any sv y \<Longrightarrow> leaves_any sv (if P then x else y)"
  by (simp_all add: leaves_any_def)

lemma device_sound: "leaves_any sv (dispatch_device ag call sv)"
  unfolding dispatch_device_def Let_def by (intro leaves_any_rules sound_rules)

lemma phone_sound: "leaves_any sv (dispatch_phone ag call sv)"
  unfolding dispatch_phone_def Let_def by (intro leaves_any_rules sound_rules)

lemma vault_sound: "leaves_any sv (dispatch_vault ag call sv)"
  unfolding dispatch_vault_def Let_def by (intro leaves_any_rules sound_rules)

lemma dispatch_sound:
  assumes "dispatch ag call sv = Some (reply, subs, sv')" and "sound_service sv"
  shows "sound_service sv'"
proof -
  have "leaves_sound sv (dispatch ag call sv)"
    using device_sound [of sv ag call] phone_sound [of sv ag call] vault_sound [of sv ag call]
    by (auto simp: dispatch_def leaves_any_def leaves_sound_def sound_subscribe split: option.split prod.split)
  with assms show ?thesis by (auto simp: leaves_sound_def)
qed


subsection \<open>Connections\<close>

lemma apply_sound: "sound_service sv \<Longrightarrow> sound_service (fold (apply_call (dispatch ag)) calls sv)"
  by (induction calls arbitrary: sv) (auto simp: apply_call_def dispatch_sound split: option.split prod.split)

text \<open>What a client did is the calls it wrote with the token, in their order, and nothing else.\<close>

lemma unsubscribe_none: "unsubscribe [] sv = sv"
  by (simp add: unsubscribe_def)

lemma serve_client_does:
  "let result = serve_client ag parse_call token p sv;
       served = fold (apply_call (dispatch ag)) (sd_calls result) sv in
   prefix (sd_calls result) (token_calls parse_call token (lines_left p)) \<and>
   list_all (\<lambda>call. cl_token call = token) (sd_calls result) \<and>
   sd_state result = (if sd_ending result = Waiting \<or> sd_ending result = Stuck then served
     else unsubscribe (sd_subscriptions result) served)"
proof -
  note c = serve_connection_calls [of parse_call "dispatch ag" token FIRST_CALL_WINDOW False p sv]
  then have "list_all (\<lambda>call. cl_token call = token) (sd_calls (serve_calls parse_call (dispatch ag) token FIRST_CALL_WINDOW False p sv))"
    using token_calls_token [of _ parse_call token "lines_left p"] set_mono_prefix by (fastforce simp: list_all_iff)
  with c show ?thesis by (auto simp: serve_client_def handle_connection_def Let_def unsubscribe_none)
qed

lemma serve_client_sound:
  assumes "sound_service sv"
  shows "sound_service (sd_state (serve_client ag parse_call token p sv))"
  using serve_client_does [of ag parse_call token p sv] apply_sound [OF assms]
  by (auto simp: Let_def unsubscribe_def sound_service_def)

lemma serve_client_unsubscribes:
  assumes "sd_ending (serve_client ag parse_call token p sv) \<in> {Closed, Broken}"
    and "i \<in> set (sd_subscriptions (serve_client ag parse_call token p sv))"
  shows "i \<notin> fst ` set (sv_subscribers (sd_state (serve_client ag parse_call token p sv)))"
  using assms by (auto simp: serve_client_def handle_connection_def Let_def unsubscribe_def split: if_splits)

subsection \<open>A generated password\<close>

lemma noting_logged:
  assumes "same_service sv (snd (m sv))" and "noting ag m sv = (r, sv')"
  shows "logged (ag_en ag) ''vault'' ''generate'' sv r sv'"
proof -
  obtain q sv1 where m: "m sv = (q, sv1)" by fastforce
  have "recorded (ag_en ag) ''vault'' ''generate'' [] [] False q sv1 = (r, sv')"
    using assms(2) m
    by (simp add: noting_def recorded_def record_generated_copy_def record_vault_def io_bind_def io_attempt_def)
  then show ?thesis using recorded_logged assms(1) m logged_later by fastforce
qed

lemma generate_copy_noted:
  assumes "vault_generate_copy ag i params sv = Some out"
  shows "\<exists>m. same_service sv (snd (m sv)) \<and>
    answer i (\<lambda>copied. to_reply ag i (CopyPayload copied)) (noting ag m sv) = Some out"
proof -
  have fail: "same_service sv (snd (io_fail e sv))" for e by (simp add: io_fail_def)
  have host: "same_service sv (snd (on_host m sv))" for m by (simp add: on_host_def split: prod.split)
  from assms fail host show ?thesis
    unfolding vault_generate_copy_def Let_def by (force split: sum.splits option.splits prod.splits)
qed

lemma generated_copy_is_logged:
  assumes "vault_generate_copy ag i params sv = Some (reply, subs, sv')"
  shows "\<exists>r. logged (ag_en ag) ''vault'' ''generate'' sv r sv' \<and>
    reply = (case r of Inl e \<Rightarrow> reply_err i (sx_code e) (sx_message e) | Inr copied \<Rightarrow> to_reply ag i (CopyPayload copied))"
proof -
  from generate_copy_noted [OF assms] obtain m where same: "same_service sv (snd (m sv))"
    and a: "answer i (\<lambda>copied. to_reply ag i (CopyPayload copied)) (noting ag m sv) = Some (reply, subs, sv')" by blast
  obtain r sv1 where n: "noting ag m sv = (r, sv1)" by fastforce
  with a have "sv1 = sv'"
    "reply = (case r of Inl e \<Rightarrow> reply_err i (sx_code e) (sx_message e) | Inr copied \<Rightarrow> to_reply ag i (CopyPayload copied))"
    by (auto simp: answer_def split: sum.splits)
  with noting_logged [OF same n] show ?thesis by blast
qed

end
