(* ===== verification/Json_Bytes.thy ===== *)
theory Json_Bytes
  imports Encoding
begin

text \<open>
  Bytes inside a JSON call (\<open>base64_bytes\<close> of \<open>phone-auth-agent/src/api.rs\<close>): padded base64 out, and a
  reader that drops every \<open>=\<close> and whatever bits are left over.
\<close>

definition BASE64 :: string where
  "BASE64 = ''ABCDEFGHIJKLMNOPQRSTUVWXYZabcdefghijklmnopqrstuvwxyz0123456789+/''"

definition json_digit :: "u32 \<Rightarrow> nat \<Rightarrow> char" where
  "json_digit triple shift = BASE64 ! unat (drop_bit shift triple AND 63)"

fun base64_bytes_serialize :: "bytes \<Rightarrow> string" where
  "base64_bytes_serialize [] = []"
| "base64_bytes_serialize [b0] =
    (let n = b64_group b0 0 0 in [json_digit n 18, json_digit n 12, CHR ''='', CHR ''=''])"
| "base64_bytes_serialize [b0, b1] =
    (let n = b64_group b0 b1 0 in [json_digit n 18, json_digit n 12, json_digit n 6, CHR ''=''])"
| "base64_bytes_serialize (b0 # b1 # b2 # rest) =
    (let n = b64_group b0 b1 b2 in
     [json_digit n 18, json_digit n 12, json_digit n 6, json_digit n 0] @ base64_bytes_serialize rest)"

text \<open>The loop over the bytes that are not \<open>=\<close>; \<open>None\<close> is \<open>not base64\<close>.\<close>

fun base64_loop :: "u8 list \<Rightarrow> bytes \<Rightarrow> u32 \<Rightarrow> nat \<Rightarrow> bytes option" where
  "base64_loop [] out acc bits = Some out"
| "base64_loop (byte # rest) out acc bits =
    (case position (unat byte) BASE64 of
       None \<Rightarrow> None
     | Some index \<Rightarrow>
        (let acc = push_bit 6 acc OR word_of_nat index; bits = bits + 6 in
         if bits \<ge> 8
         then let bits = bits - 8 in base64_loop rest (out @ [ucast (drop_bit bits acc)]) acc bits
         else base64_loop rest out acc bits))"

definition base64_bytes_deserialize :: "string \<Rightarrow> bytes option" where
  "base64_bytes_deserialize text = base64_loop (filter (\<lambda>b. b \<noteq> 61) (as_bytes text)) [] 0 0"

lemma length_BASE64: "length BASE64 = 64" and distinct_BASE64: "distinct BASE64"
  and set_BASE64: "\<forall>c \<in> set BASE64. of_char c \<noteq> (61 :: nat) \<and> (of_char c :: nat) < 128"
  by (simp_all add: BASE64_def)

lemma position_BASE64:
  assumes "i < 64"
  shows "position (of_char (BASE64 ! i)) BASE64 = Some i"
    and "of_char (BASE64 ! i) \<noteq> (61 :: nat)" and "(of_char (BASE64 ! i) :: nat) < 128"
  using assms set_BASE64 position_nth [OF distinct_BASE64, of i] by (simp_all add: length_BASE64)

lemma json_digit_byte:
  "unat (word_of_nat (of_char (json_digit n s)) :: u8) = of_char (json_digit n s)"
  "(word_of_nat (of_char (json_digit n s)) :: u8) \<noteq> 61"
proof -
  show u: "unat (word_of_nat (of_char (json_digit n s)) :: u8) = of_char (json_digit n s)"
    using position_BASE64(3) [OF sextet [of "drop_bit s n"]] by (simp add: json_digit_def unat_of_nat)
  have "of_char (json_digit n s) \<noteq> (61 :: nat)"
    using position_BASE64(2) [OF sextet [of "drop_bit s n"]] by (simp add: json_digit_def)
  with u have "unat (word_of_nat (of_char (json_digit n s)) :: u8) \<noteq> unat (61 :: u8)" by simp
  then show "(word_of_nat (of_char (json_digit n s)) :: u8) \<noteq> 61" by metis
qed

text \<open>One digit of a group shifts its six bits in, as in the other encoding.\<close>

lemma base64_loop_shift:
  "base64_loop (word_of_nat (of_char (json_digit n s)) # rest) out acc bits =
    (if bits + 6 \<ge> 8
     then base64_loop rest (out @ [ucast (drop_bit (bits + 6 - 8) (shift_in acc n s))]) (shift_in acc n s) (bits + 6 - 8)
     else base64_loop rest out (shift_in acc n s) (bits + 6))"
proof -
  have "position (of_char (json_digit n s)) BASE64 = Some (unat (drop_bit s n AND 63))"
    using position_BASE64(1) [OF sextet [of "drop_bit s n"]] by (simp add: json_digit_def)
  then show ?thesis by (simp add: json_digit_byte shift_in_def Let_def)
qed

lemma base64_loop_serialized:
  "base64_loop (filter (\<lambda>b. b \<noteq> 61) (as_bytes (base64_bytes_serialize bs))) out acc 0 = Some (out @ bs)"
proof (induction bs arbitrary: out acc rule: base64_bytes_serialize.induct)
  case (2 b0)
  show ?case
    by (simp del: base64_loop.simps(2) add: Let_def base64_loop_shift json_digit_byte group_first)
next
  case (3 b0 b1)
  show ?case
    by (simp del: base64_loop.simps(2) add: Let_def base64_loop_shift json_digit_byte group_first group_second)
next
  case (4 b0 b1 b2 rest)
  show ?case
    using "4.IH" [OF refl, of "out @ [b0, b1, b2]"]
    by (simp del: base64_loop.simps(2) add: Let_def base64_loop_shift json_digit_byte group_first group_second group_third)
qed simp

lemma base64_bytes_round_trip: "base64_bytes_deserialize (base64_bytes_serialize bs) = Some bs"
  using base64_loop_serialized [of bs "[]" 0] by (simp add: base64_bytes_deserialize_def)

text \<open>Padding may stand anywhere, or be left out.\<close>

lemma base64_padding_is_free:
  assumes "filter (\<lambda>c. c \<noteq> CHR ''='') s = filter (\<lambda>c. c \<noteq> CHR ''='') t"
  shows "base64_bytes_deserialize s = base64_bytes_deserialize t"
proof -
  have "filter (\<lambda>b. b \<noteq> 61) (as_bytes s) = as_bytes (filter (\<lambda>c. c \<noteq> CHR ''='') s)" for s
  proof (induction s)
    case (Cons c s)
    have "(word_of_nat (of_char c) :: u8) = 61 \<longleftrightarrow> c = CHR ''=''"
    proof
      assume "(word_of_nat (of_char c) :: u8) = 61"
      then have "unat (word_of_nat (of_char c) :: u8) = 61" by simp
      then have "of_char c = (61 :: nat)" by (simp add: unat_of_nat)
      then have "of_char c = (of_char (CHR ''='') :: nat)" by simp
      then show "c = CHR ''=''" by (simp only: of_char_eq_iff)
    qed simp
    with Cons show ?case by simp
  qed simp
  with assms show ?thesis by (simp add: base64_bytes_deserialize_def)
qed

end
