(* ===== verification/Service_Examples.thy ===== *)
theory Service_Examples
  imports Agent_Invariant Json_Bytes Host_Examples Locker_Examples Agent_Examples
begin

text \<open>
  Concrete services, phones, clipboards and connections on which the properties of the agent's service
  are applied.
\<close>

subsection \<open>A service with one phone\<close>

definition demo_config :: agent_config where
  "demo_config = \<lparr>ac_verifier_id = ''desk'', ac_verifier_name = ''Desk'', ac_ipc_port = 0,
    ac_request_validity_ms = 60000, ac_listen_port = 0\<rparr>"

definition demo_paths :: agent_paths where
  "demo_paths = \<lparr>ap_config_dir = ''c'', ap_data_dir = ''d'', ap_runtime_dir = ''r''\<rparr>"

definition demo_service :: "verifier \<Rightarrow> pairing_proposal option \<Rightarrow> 'w \<Rightarrow> 'w service" where
  "demo_service v held w = \<lparr>sv_config = demo_config, sv_paths = demo_paths, sv_verifier = v, sv_held_proposal = held,
    sv_audit = audit_log_new (audit_file demo_paths), sv_development_mode = False, sv_subscribers = [],
    sv_next_subscriber_id = 0, sv_files = demo_world, sv_host = w\<rparr>"

definition demo_desk :: verifier where "demo_desk = demo_verifier 1"

lemma demo_desk_issue: "issue demo_spec demo_session 1000 [b] (replicate 32 6) demo_desk = Inr (demo_pending b)"
  unfolding demo_desk_def by (rule demo_issue)

lemma demo_desk_store: "vf_store demo_desk = demo_store"
  by (simp add: demo_desk_def demo_verifier_def)

text \<open>A phone that gives one answer; \<open>tick\<close> is what a wait does to the world.\<close>

definition demo_link :: "(io_error + bytes) \<Rightarrow> ('w \<Rightarrow> 'w) \<Rightarrow> u8 \<Rightarrow> 'w phone_link" where
  "demo_link frame tick b = \<lparr>pk_send = (\<lambda>s m w. (Inr (), w)), pk_receive = (\<lambda>s t w. (frame, tick w)),
    pk_close = (\<lambda>s w. w), pk_now = (\<lambda>w. (1000, w)),
    pk_random = (\<lambda>n w. (if n = 16 then [b] else replicate n 6, w)), pk_io_text = (\<lambda>e. ''broken'')\<rparr>"

definition demo_transport :: "('w, secure_session) transport" where
  "demo_transport = \<lparr>tp_name = ''ble'', tp_description = [], tp_availability = (\<lambda>_. Ready),
    tp_set_known_peers = (\<lambda>_ w. w), tp_connect = (\<lambda>_ _. io_return demo_session)\<rparr>"

definition demo_surroundings ::
    "'w phone_link \<Rightarrow> serde \<Rightarrow> ('w, secure_session) transport list \<Rightarrow> (bytes, bytes, bytes, 'w) surroundings" where
  "demo_surroundings link sd ts = \<lparr>en_crypto = toy_crypto\<lparr>cr_p256 := toy_p256\<rparr>, en_serde = sd, en_corrupt_text = [],
    en_audit_json = demo_audit_json, en_link = link, en_transports = ts, en_network = None\<rparr>"

definition demo_params :: authorize_params where
  "demo_params = \<lparr>az_service = ''sudo'', az_action = ''run'', az_resource = ''host'', az_user = ''ana'', az_credential_id = None\<rparr>"

definition demo_en :: "u8 \<Rightarrow> (bytes, bytes, bytes, unit) surroundings" where
  "demo_en b = demo_surroundings (demo_link (Inr (demo_frame b)) id b) demo_serde [demo_transport]"

lemma demo_select: "select_credential demo_store demo_params = Inr (''phone'', ''cred'')"
  by (simp add: select_credential_def demo_params_def candidates_def demo_store_def bt_values_def demo_device_def
      demo_credential_def purpose_for_service_def permits_fields_iff permission_service_def WILDCARD_def
      the_candidate_def)

lemma demo_connect: "sv_connect (demo_surroundings link sd [demo_transport]) did cred sv = (Inr demo_session, sv)"
  by (simp add: sv_connect_def io_map_err_def on_host_def registry_connect_def demo_surroundings_def demo_transport_def
      is_ready_def io_match_def io_return_def)

lemma demo_issue_request:
  "issue_request (demo_en b) demo_params ''cred'' demo_session (demo_service demo_desk None ()) =
    (Inr (demo_pending b), demo_service demo_desk None ())"
proof -
  have spec: "with_validity_ms 60000 (request_spec_new ''cred'' ''sudo'' ''run'' ''host'' ''ana'') = demo_spec"
    by (simp add: demo_spec_def with_validity_ms_def request_spec_new_def)
  show ?thesis
    unfolding issue_request_def io_bind_def sv_read_def sv_now_def sv_random_def on_host_def io_get_def io_of_def Let_def
    by (simp add: demo_service_def demo_config_def demo_params_def demo_en_def demo_surroundings_def demo_link_def spec
        demo_desk_issue map_err_def)
qed

lemma demo_grant_now: "\<exists>v. accept toy_p256 (demo_pending b) (demo_frame b) demo_session 1000 demo_desk =
    (Inr (grant_for (demo_request b) demo_device ''ble'' 1000), v)"
  using demo_grant [of b demo_desk 1000]
  by (cases "accept toy_p256 (demo_pending b) (demo_frame b) demo_session 1000 demo_desk")
    (simp add: demo_desk_def demo_verifier_def with_capacity_def)

lemma demo_exchange: "\<exists>sv. exchange (demo_en b) demo_session (demo_pending b) (broadcast e (demo_service demo_desk None ())) =
    (Inr (grant_for (demo_request b) demo_device ''ble'' 1000), sv)"
proof -
  from demo_grant_now obtain v where "accept toy_p256 (demo_pending b) (demo_frame b) demo_session 1000 demo_desk =
    (Inr (grant_for (demo_request b) demo_device ''ble'' 1000), v)" by blast
  then show ?thesis
    by (simp add: exchange_def exchange_answer_def io_bind_def io_map_err_def on_host_def sv_now_def io_get_def
        io_return_def demo_en_def demo_surroundings_def demo_link_def demo_service_def map_err_def broadcast_def Let_def)
qed

lemma demo_authorize: "\<exists>r sv'. authorize (demo_en b) demo_params (demo_service demo_desk None ()) = (Inr r, sv')"
proof -
  let ?sv = "demo_service demo_desk None ()"
  have sel: "select_credential (sv_store ?sv) demo_params = Inr (''phone'', ''cred'')"
    using demo_select by (simp add: demo_service_def sv_store_def demo_desk_store)
  have conn: "sv_connect (demo_en b) did cred sv = (Inr demo_session, sv)" for did cred and sv :: "unit service"
    unfolding demo_en_def by (rule demo_connect)
  obtain sv1 where x: "exchange (demo_en b) demo_session (demo_pending b)
      (broadcast (started_event (demo_pending b) (device_name_of ''phone'' ?sv) (ts_is_development (se_security demo_session))) ?sv) =
    (Inr (grant_for (demo_request b) demo_device ''ble'' 1000), sv1)" using demo_exchange by blast
  show ?thesis
    unfolding authorize_def ask_phone_def conclude_granted_def
    by (simp add: io_bind_def sv_read_def io_of_def sel conn demo_issue_request sv_do_def x io_return_def Let_def)
qed


subsection \<open>Enrolling and forgetting\<close>

lemma demo_store_unique: "store_unique demo_store"
proof -
  have "bt_values (ps_devices demo_store) = [demo_device]" by (simp add: demo_store_def bt_values_def)
  then show ?thesis
    by (auto simp: store_unique_def demo_store_ok demo_device_def demo_credential_def device_credential_def
        find_credential_def)
qed

text \<open>A store that is never written.\<close>

definition demo_memory :: verifier where
  "demo_memory = demo_desk\<lparr>vf_store := demo_store\<lparr>ps_path := []\<rparr>\<rparr>"

lemma demo_memory_unique: "store_unique (sv_store (demo_service demo_memory held w))"
  using demo_store_unique by (simp add: demo_service_def sv_store_def demo_memory_def store_unique_def store_ok_def
    find_credential_def)

definition demo_proposal :: pairing_proposal where
  "demo_proposal = \<lparr>pg_attempt_id = ''a'', pg_device_id = ''watch'', pg_device_name = ''Watch'',
    pg_session_identity_spki = [8], pg_credential_id = ''other'', pg_algorithm = PUBLIC_KEY_EC_P256_SPKI,
    pg_credential_public_key = [9], pg_key_kind = Software, pg_purpose = Vault, pg_verification_code = ''123456''\<rparr>"

lemma demo_confirm: "\<exists>sv'. confirm_pairing (demo_en 1) ''123456'' None (demo_service demo_memory (Some demo_proposal) ()) = (Inr (), sv')"
proof -
  have "check_conflict (device_of_proposal 1000 demo_proposal) (demo_store\<lparr>ps_path := []\<rparr>) c = Inr ()"
    if "c \<in> set (pd_credentials (device_of_proposal 1000 demo_proposal))" for c
    using that by (simp add: check_conflict_def device_of_proposal_def demo_proposal_def find_credential_def demo_store_def
        bt_values_def demo_device_def demo_credential_def device_credential_def)
  then have "for_each_ok (check_conflict (device_of_proposal 1000 demo_proposal) (demo_store\<lparr>ps_path := []\<rparr>))
      (pd_credentials (device_of_proposal 1000 demo_proposal)) = Inr ()"
    by (simp add: for_each_ok_Inr)
  then obtain s w where i: "insert_device demo_serde (device_of_proposal 1000 demo_proposal) (demo_store\<lparr>ps_path := []\<rparr>) demo_world = (Inr (), s, w)"
    unfolding insert_device_def by (simp add: persist_def io_return_def Let_def)
  show ?thesis
    unfolding confirm_pairing_def install_pairing_def store_insert_def
    using i
    by (simp add: io_bind_def sv_read_def io_of_def sv_do_def ok_or_def demo_service_def discard_held_proposal_def
        sv_now_def on_host_def io_get_def io_map_err_def on_store_def sv_store_def demo_memory_def demo_desk_store
        demo_en_def demo_surroundings_def demo_link_def, simp add: demo_proposal_def)
qed

definition broken_serde :: serde where
  "broken_serde = \<lparr>to_vec_pretty = (\<lambda>f. None), from_slice = (\<lambda>b. None)\<rparr>"

lemma demo_persist_fails: "\<exists>w. persist broken_serde (drop_device ''phone'' demo_store) demo_world = (Inl PairingCorrupt, w)"
  by (simp add: persist_def drop_device_def demo_store_def parent_of_def io_return_def io_bind_def io_fail_def broken_serde_def Let_def
      io_map_err_def fs_create_dir_all_def w_call_def demo_world_def)


subsection \<open>A passkey that is refused\<close>

text \<open>JSON values are strings, one of which is the refusal.\<close>

definition toy_json :: "string json_lib" where
  "toy_json = \<lparr>js_get = (\<lambda>v k. if v = ''no'' then map_of [(''version'', ''1''), (''type'', ''webauthn.response''),
      (''requestId'', ''r1''), (''ok'', ''n''), (''error'', ''no such key'')] k else None),
    js_as_str = Some, js_as_u64 = (\<lambda>v. if v = ''1'' then Some 1 else None),
    js_as_bool = (\<lambda>v. if v = ''y'' then Some True else if v = ''n'' then Some False else None),
    js_is_object = (\<lambda>_. True), js_object = (\<lambda>_. ''{}''), js_array = (\<lambda>_. ''[]''), js_str = id, js_u64 = (\<lambda>_. ''1''),
    js_bool = (\<lambda>_. ''y''), js_to_vec = (\<lambda>v. Some (as_bytes v)), js_from_slice = (\<lambda>b. Some (bytes_string b))\<rparr>"

definition demo_passkey :: verifier where
  "demo_passkey = demo_desk\<lparr>vf_store := \<lparr>ps_path = [], ps_devices = [(''phone'',
    demo_device\<lparr>pd_credentials := [demo_credential\<lparr>pc_purpose := ForWebAuthn\<rparr>]\<rparr>)]\<rparr>\<rparr>"

definition demo_passkey_params :: "string webauthn_params" where
  "demo_passkey_params = \<lparr>wnp_request_id = ''r1'', wnp_operation = ''get'', wnp_origin = ''https://a'', wnp_options = ''{}'',
    wnp_credential_id = None\<rparr>"

definition demo_clock :: "nat webauthn_host" where
  "demo_clock = \<lparr>wh_cancellations = (\<lambda>_. []), wh_put = (\<lambda>_ w. w), wh_instant = (\<lambda>w. (w, w))\<rparr>"

definition demo_passkey_en :: "io_error + bytes \<Rightarrow> (bytes, bytes, bytes, nat) surroundings" where
  "demo_passkey_en frame = demo_surroundings (demo_link frame Suc 1) demo_serde [demo_transport]"

lemma demo_acceptable: "webauthn_acceptable toy_json demo_passkey_params"
  by (simp add: webauthn_acceptable_def demo_passkey_params_def toy_json_def chars_ascii ascii_def request_id_char_def
      is_whitespace_def strip_prefix_def)

lemma demo_webauthn_select:
  "select_service_credential (vf_store demo_passkey) ''webauthn'' ''passkey relay'' None = Inr (''phone'', ''cred'')"
  by (simp add: select_service_credential_def candidates_def demo_passkey_def bt_values_def demo_device_def
      demo_credential_def purpose_for_service_def the_candidate_def)

lemma demo_webauthn_frame: "webauthn_frame toy_json v = Inr (WEBAUTHN_MAGIC @ as_bytes v)" if "length v < 60"
  using that by (simp add: webauthn_frame_def toy_json_def WEBAUTHN_MAGIC_def MAX_FRAME_def)

lemma demo_opening:
  "\<exists>frame dn. webauthn_opening toy_json (demo_passkey_en f) demo_passkey_params (demo_service demo_passkey None 0) =
    (Inr (demo_session, dn, frame), demo_service demo_passkey None 0)"
proof -
  have o: "js_to_vec toy_json (wnp_options demo_passkey_params) = Some (as_bytes ''{}'')"
    by (simp add: toy_json_def demo_passkey_params_def)
  have fr: "webauthn_frame toy_json (request_message toy_json vid demo_passkey_params) = Inr (WEBAUTHN_MAGIC @ as_bytes ''{}'')" for vid
    by (simp add: request_message_def toy_json_def demo_webauthn_frame [unfolded toy_json_def])
  have sel: "select_service_credential (sv_store (demo_service demo_passkey None (0 :: nat))) ''webauthn'' ''passkey relay''
      (wnp_credential_id demo_passkey_params) = Inr (''phone'', ''cred'')"
    using demo_webauthn_select by (simp add: demo_service_def sv_store_def demo_passkey_params_def)
  have conn: "sv_connect (demo_passkey_en f) did cred sv = (Inr demo_session, sv)" for did cred and sv :: "nat service"
    unfolding demo_passkey_en_def by (rule demo_connect)
  have "suitable_for_authorization (se_security demo_session)"
    by (simp add: demo_session_def suitable_for_authorization_def)
  then show ?thesis
    unfolding webauthn_opening_def o
    by (simp add: demo_acceptable io_bind_def sv_read_def io_of_def sel conn fr io_return_def)
qed

definition demo_refusal :: "io_error + bytes" where
  "demo_refusal = Inr (WEBAUTHN_MAGIC @ as_bytes ''no'')"

lemma demo_refused:
  "\<exists>e sv'. perform_webauthn toy_json (demo_passkey_en demo_refusal) demo_clock (\<lambda>_. False) 1 demo_passkey_params
      (demo_service demo_passkey None 0) = Some (Inl e, sv') \<and> sx_code e = ''declined''"
proof -
  from demo_opening [of demo_refusal] obtain frame dn where
    o: "webauthn_opening toy_json (demo_passkey_en demo_refusal) demo_passkey_params (demo_service demo_passkey None 0) =
      (Inr (demo_session, dn, frame), demo_service demo_passkey None 0)" by blast
  have v: "js_from_slice toy_json (as_bytes ''no'') = Some ''no''" by (simp add: toy_json_def del: as_bytes_Cons)
  have g: "Option.bind (js_get toy_json ''no'' ''version'') (js_as_u64 toy_json) = Some 1"
    "Option.bind (js_get toy_json ''no'' ''type'') (js_as_str toy_json) = Some ''webauthn.response''"
    "Option.bind (js_get toy_json ''no'' ''requestId'') (js_as_str toy_json) = Some ''r1''"
    "Option.bind (js_get toy_json ''no'' ''ok'') (js_as_bool toy_json) \<noteq> Some True"
    by (simp_all add: toy_json_def)
  have "decode_webauthn_response toy_json (WEBAUTHN_MAGIC @ as_bytes ''no'') ''r1'' =
      Inl (service_error_new ''declined'' (reported_refusal toy_json ''no''))"
    unfolding decode_webauthn_response_def using g by (simp add: v del: as_bytes_Cons)
  then have d: "\<exists>m. decode_webauthn_response toy_json (WEBAUTHN_MAGIC @ as_bytes ''no'') ''r1'' = Inl (service_error_new ''declined'' m)"
    by blast
  then obtain m where x: "webauthn_exchange toy_json (en_link (demo_passkey_en demo_refusal)) demo_clock (\<lambda>_. False) 1
      demo_session ''r1'' frame (sv_host (demo_service demo_passkey None 0)) = Some (Inl (service_error_new ''declined'' m), Suc 0)"
    by (auto simp: webauthn_exchange_def demo_passkey_en_def demo_surroundings_def demo_link_def demo_clock_def wh_take_def
        take_webauthn_cancellation_def demo_refusal_def demo_service_def)
  obtain r sv' where f: "webauthn_finish (demo_passkey_en demo_refusal) demo_clock demo_passkey_params demo_session dn
      (Inl (service_error_new ''declined'' m)) ((demo_service demo_passkey None 0)\<lparr>sv_host := Suc 0\<rparr>) = (r, sv')" by fastforce
  from finish_cases [OF f] have "r = Inl (browser_facing (service_error_new ''declined'' m))" by (simp add: map_err_def)
  moreover have "perform_webauthn toy_json (demo_passkey_en demo_refusal) demo_clock (\<lambda>_. False) 1 demo_passkey_params
      (demo_service demo_passkey None 0) = Some (r, sv')"
    using o x f by (simp add: perform_webauthn_def webauthn_ceremony_def demo_passkey_params_def)
  ultimately show ?thesis by (simp add: browser_facing_def service_error_new_def)
qed

lemma demo_ticking: "ticking id (en_link (demo_passkey_en (Inl NotFound))) demo_clock (\<lambda>_. True)"
  by (auto simp: ticking_def demo_clock_def demo_passkey_en_def demo_surroundings_def demo_link_def)

subsection \<open>A clipboard nobody else uses\<close>

definition demo_board :: "(nat \<times> bool) list \<Rightarrow> board" where
  "demo_board others = \<lparr>bd_held = Theirs, bd_sequence = 5, bd_ours = 0, bd_others = others,
    bd_placing = \<lparr>pl_memory = True, pl_lock = True, pl_history = True, pl_cloud = True, pl_no_monitor = True, pl_text = True\<rparr>,
    bd_timers = [], bd_now = 0\<rparr>"

lemma quiet_open: "bd_others b = [] \<Longrightarrow> win_open b = (Inr (), b)"
  by (simp add: win_open_def numeral_eq_Suc turn_def)

lemma demo_copy: "\<exists>out b'. copy_secret win_clipboard [0x61] 5000 (demo_board []) = (Inr out, b') \<and> bd_sequence b' \<noteq> 0 \<and>
    bd_others b' = []"
proof -
  have "from_utf8 [0x61] = Some ''a''" by code_simp
  then show ?thesis
    by (simp add: copy_secret_def MIN_TTL_def MAX_TTL_def io_bind_def io_of_def win_clipboard_def win_set_text_def
        quiet_open turn_def demo_board_def empty_clipboard_def set_clipboard_data_def Let_def io_get_def win_claim_def
        win_sequence_def win_schedule_clear_def io_return_def)
qed

subsection \<open>Files\<close>

definition demo_locker_en :: "(bytes, bytes, bytes) locker_surroundings" where
  "demo_locker_en = demo_surroundings deaf_phone demo_serde [demo_transport]"

lemma demo_apart: "apart demo_locker_en"
  unfolding apart_def demo_locker_en_def
  by (simp add: demo_surroundings_def deaf_quiet registry_connect_def demo_transport_def is_ready_def io_match_def io_return_def)

end
