(* ===== verification/Spec2Isabelle.thy ===== *)
theory Spec2Isabelle
  imports Application Auth_Request Auth_Response Session_Attach Enrolment Locker_Payloads Luks_Payloads
    Vault_Payloads Permission_Sync Ssh_Keys Encoding Verifier Handshake Framing Examples Locker_Examples Agent_Examples Host_Examples Record_Examples Service_Examples
begin

text \<open>
  PhoneAuth: authorizing actions on a desktop with a key that stays on a phone. This library
  models the Rust side of the repository, \<open>src/desktop/crates\<close>: the wire protocol
  (\<open>phone-auth-protocol\<close>), the secure session between desktop and phone (\<open>phone-auth-session\<close>),
  the verifier that decides what an answer authorizes (\<open>phone-auth-verifier\<close>), the file locker
  (\<open>phone-auth-locker\<close>), and of the desktop agent (\<open>phone-auth-agent\<close>) its Bluetooth framing, its SSH
  agent, its clients of the phone, its network transport, its audit log, its files, its passwords, its
  clipboard, and the service behind its command protocol.

  How the parts interact. A desktop shows a pairing code (\<open>Bootstrap\<close>), a phone scans it, and
  the two run a handshake (\<open>Handshake\<close>) that ends in a channel of encrypted records
  (\<open>Secure_Channel\<close>) and a session binding (\<open>Session_Keys\<close>). The phone enrols a credential
  (\<open>Enrolment\<close>), which the desktop stores (\<open>Pairing\<close>, over \<open>BTree_Map\<close> and \<open>File_System\<close>). To
  authorize an action the verifier issues a request bound to the session, the phone signs the
  frame, and the verifier checks the answer against the request, the replay guard, the stored
  key and the local policy (\<open>Verifier\<close>, with \<open>Auth_Request\<close>, \<open>Auth_Response\<close>, \<open>Replay\<close>, \<open>Policy\<close>,
  \<open>Signature\<close>). Every other operation, on the vault, on locked files, on disk keys, on SSH
  keys and on permissions, travels as a payload inside an application envelope (\<open>Application\<close>,
  \<open>Vault_Payloads\<close>, \<open>Locker_Payloads\<close>, \<open>Luks_Payloads\<close>, \<open>Ssh_Wire\<close>, \<open>Permission_Sync\<close>). Over a stream
  socket, frames have a length prefix (\<open>Framing\<close>).

  A locked file is a container whose data key is wrapped once by the phone and once by a
  recovery code (\<open>Locker_Format\<close>, \<open>Locker_Keys\<close>, \<open>Locker_Engine\<close>). The agent reaches the phone
  over such a session: it stamps an envelope, sends it, and reads one answer (\<open>Phone_Exchange\<close>); the
  vault, SSH and permission clients (\<open>Phone_Clients\<close>), the custodian of the locker and the disk keys
  (\<open>Phone_Custodian\<close>) are built on that. Programs on the desktop ask for all of it with lines of JSON on a
  local socket (\<open>Ipc_Connection\<close>), which the service answers (\<open>Ipc_Dispatch\<close> and the theories \<open>Service_*\<close>).

  The theories, from the bottom:

  \<open>Prelude\<close>: results as \<open>error + value\<close> with \<open>then_ok\<close> for the question mark operator, Rust strings
  as UTF-8 byte lists (\<open>is_str\<close>), big-endian words, decimal text, the collection \<open>codec\<close>.
  \<open>Cbor\<close>: the canonical CBOR writer and reader of \<open>cbor.rs\<close>; \<open>r_strict\<close> says that what a read
  accepts is exactly what the writer writes, and no second spelling of a value is read.
  \<open>Protocol_Base\<close>: constants, errors and checks of \<open>lib.rs\<close>, and the locales \<open>frame_codec\<close> and
  \<open>bounded_frame_codec\<close>: encode, decode, typing and validation of one kind of frame with the laws that
  its decoder undoes its encoder and accepts nothing else. Every frame and payload theory
  interprets one of them on the definitions of the source, and the properties about frames
  are facts of these interpretations.
  \<open>Encoding\<close>, \<open>Ssh_Wire\<close>, \<open>Ssh_Keys\<close>: hex, base64url, and the SSH encodings.
  \<open>BTree_Map\<close>: the map of the Rust library as a sorted association list, an interpretation of the
  locale \<open>keyed_map\<close>.
  \<open>File_System\<close>: the calls of \<open>std::fs\<close> the program makes, on a world whose list of faults
  decides which of them fail and after how many bytes; Hoare triples over it, so that what is
  proved of \<open>persist\<close> holds for every fault, and for a process that stops at any of its calls.
  \<open>Pairing\<close>: the pairing store, its invariant \<open>store_ok\<close> (a credential id belongs to one device),
  the relation \<open>store_history\<close> of the stores that pairing and unpairing reach, and the save path.
  \<open>Replay\<close>: the replay guard, an interpretation of the locale \<open>single_use\<close>, which counts how long an
  accepted id stays refused.
  \<open>Verifier\<close>: issuing and accepting, each characterised on every branch; the events that change a
  verifier and what survives any sequence of them.
  \<open>Session_Keys\<close>, \<open>Secure_Channel\<close>, \<open>Bootstrap\<close>, \<open>Handshake\<close>: the session. \<open>Record_Stream\<close>: whole runs of
  one direction of a channel, with seals and opens that fail among the others. \<open>Examples\<close>: one concrete
  deployment, on which the witnesses of the properties run.
  \<open>Locker_Format\<close>, \<open>Locker_Keys\<close>: the header, wrappers and metadata of a container with their codecs
  (\<open>format.rs\<close>), the keys, the sealing of chunks and the recovery code (\<open>secret.rs\<close>, \<open>stream.rs\<close>,
  \<open>recovery.rs\<close>); each decoder is characterised by an equivalence, as is \<open>parse_recovery_code\<close>.
  \<open>Locker_Disk\<close>: the calls of \<open>std::fs\<close> the locker makes, on names, inodes and links, with faults as
  in \<open>File_System\<close>. \<open>Locker_Engine\<close>: \<open>lock_file\<close>, \<open>unlock_file\<close>, \<open>rekey_file\<close> and \<open>inspect\<close> of \<open>engine.rs\<close>.
  \<open>Locker_Reading\<close> shows that success does not depend on the faults (\<open>steady\<close>); \<open>Locker_Container\<close>
  gives the bytes of a container as one expression (\<open>container_bytes\<close>) and says, for a disk on which
  no call fails, exactly when reading and writing succeed. \<open>Locker_Safety\<close> puts the two together:
  what every operation leaves, whatever fails (\<open>keeps\<close>, \<open>io_triple\<close>). \<open>Locker_Round_Trip\<close>: locking and
  then unlocking. \<open>Locker_Examples\<close>: a small disk and a toy cipher for the witnesses.
  \<open>Ble_Framing\<close>: chunks of a Bluetooth characteristic and the decoder of partial frames (\<open>ble_framing.rs\<close>),
  with what it answers to any interleaving. \<open>Ssh_Agent\<close>: the agent messages and the policy
  (\<open>ssh_agent.rs\<close>, \<open>ssh_policy.rs\<close>); \<open>Ssh_Session\<close>: one connection over any backend, the log of what it
  asked, and the splitting of its stream (\<open>ssh_session.rs\<close>). \<open>Phone_Exchange\<close>: the request and answer of
  \<open>vault.rs\<close>, \<open>ssh_client.rs\<close> and \<open>permissions.rs\<close> over a link of which nothing is assumed, and the locale
  \<open>phone_exchange\<close>: an accepted answer is a response to the very request that was sent, in time. It is
  interpreted for the exchanges of all five clients, \<open>luks_exchange\<close> among them with the flag that says
  the session is not checked. \<open>Phone_Clients\<close>: every operation of the vault, the walk over its pages, SSH
  signing, permissions. \<open>Phone_Custodian\<close>: wrapping and unwrapping of data keys (\<open>locker.rs\<close>), so that the
  phone keeps the contract \<open>custodian_ok\<close> of \<open>Locker_Safety\<close>, and disk keys (\<open>luks.rs\<close>).
  \<open>Agent_Examples\<close>: a phone over a list of frames, and inputs for the witnesses.
  \<open>Agent_Files\<close>: private files, the configuration and the identity key on disk (\<open>private_files.rs\<close>,
  \<open>paths.rs\<close>, \<open>config.rs\<close>, \<open>identity.rs\<close>) over \<open>File_System\<close>. \<open>Audit_Log\<close>: appending to, trimming and reading
  the log (\<open>audit.rs\<close>), with an exact statement for a disk on which nothing fails and a Hoare triple
  for one on which anything may. \<open>Password\<close>: passwords and passphrases from a stream of draws
  (\<open>password.rs\<close>), and the counting of draws (\<open>ways\<close>) behind the statement that they are equally likely.
  \<open>Transport\<close>: the registry of transports (\<open>transport.rs\<close>) with the locale of what a provider of sessions
  promises. \<open>Qr_Network\<close>: the listener (\<open>qr_network.rs\<close>), a state with the code on screen, the proposal, the
  phones on record and the pool of parked sessions; one connection is \<open>connection_run\<close> on a socket,
  followed by \<open>connection_end\<close> on the state it finds by then. \<open>Network_Session\<close>: a session over a socket that
  cuts and stalls, and the interpretation of the registry's locale on it. \<open>Network_Exchange\<close>: both ends
  of a connection together. \<open>Listener_Runs\<close>: every interleaving of connections with the calls of the
  agent, as an inductive relation on the list of past states, with what the connection that left a session
  or a proposal has been shown by the phone (\<open>proved_to\<close>). \<open>Host_Examples\<close>, \<open>Record_Examples\<close>: inputs for the
  witnesses.
  \<open>Service_Base\<close>: the state of the service (\<open>service.rs\<close>), its events, error codes and audit entries, and the
  choice of a credential. \<open>Service_Pairing\<close>: the code, the proposal, confirming it, forgetting, permissions, with
  the invariant of the store for each. \<open>Service_Authorize\<close>: \<open>authorize\<close>, whose yes is traced to the call of the
  link that brought it. \<open>Service_Vault\<close>: listing, filling, copying and creating, over \<open>Web_Origin\<close> (which site an
  item belongs to) and \<open>Clipboard\<close> (\<open>clipboard.rs\<close>). \<open>Service_Locker\<close>: locking, unlocking and re-keying with the file
  for the recovery code, and enrolling a volume. \<open>Service_WebAuthn\<close>: a passkey ceremony, its deadline and
  cancellation, over \<open>Json_Bytes\<close> (\<open>api.rs\<close>). \<open>Ipc_Connection\<close>: one connection of \<open>ipc.rs\<close>, a stream of timed
  bytes, up to a dispatcher of any kind; \<open>Ipc_Dispatch\<close>: every method; \<open>Agent_Invariant\<close>: what no method and no
  connection breaks. \<open>Service_Examples\<close>: a desk with one phone, for the witnesses.

  How the code is read. Structs are records and enums are datatypes. A method that takes
  \<open>&mut self\<close> returns the new state beside its result, so that the state left behind by an error
  is visible. Lengths and indices are natural numbers where the code uses \<open>usize\<close> on data that is
  in memory; \<open>u64\<close> and \<open>u32\<close> values are words, and \<open>i64\<close> times are integers with the saturating
  additions of the code written out and the range stated by \<open>is_i64\<close>. \<open>slice_ok\<close> states that a
  slice is no longer than Rust allows. Random bytes and the clock are arguments. Times may be
  any integers where the code only compares them.

  Parameters. The primitives of the cryptographic crates are the records \<open>p256\<close>, \<open>crypto\<close> and
  \<open>locker_crypto\<close> (the cipher and hashes of the locker, with \<open>locker_crypto_ok\<close>: what opens is what was
  sealed). \<open>crypto_ok\<close> is what the two ends of a session rely on: agreement on the shared secret, a
  signature that verifies under its key, an authenticated cipher that opens exactly what
  sealing made, the lengths of hashes and keys. Only C3 asks more of the cipher, as a hypothesis (\<open>unforged\<close>): nothing
  decrypts but what was encrypted. The
  JSON text of the pairing store is the record \<open>serde\<close>; the conversion between the store and
  the JSON structure is modelled. \<open>Examples\<close> gives instances of all of them.

  Bounds. The loops are structural recursions over the bytes, the pieces of a stream or the
  list of devices, so no fuel is needed, with one exception: \<open>read_retry\<close> calls the frame reader
  again after a timeout, at most \<open>n\<close> times, and the property about it asks for more calls than
  the stream has timeouts, which is enough because each call uses up one. \<open>list_walk\<close> ends because every
  page it goes on from carries an item and it stops above \<open>MAX_ITEMS\<close>; \<open>ssh_split\<close> and \<open>chunks_of\<close> because
  the rest of their input gets shorter; \<open>base64_drain\<close> because the number of bits does.
  \<open>enforce_session_cap\<close> ends because each turn makes the pool smaller. Waiting for a session to be parked is a
  recursion over the list of wakes, each with its clock. The search for a password may go on for ever and
  is a \<open>partial_function\<close>; C24 says that no draws make it so. \<open>receive_all\<close> asks a session \<open>n\<close> times, and C12
  asks for as many calls as there are frames and timeouts.

  Properties C1 to C40 follow, the central ones first; the text before each states it. The
  witness after a property with hypotheses applies it to the inputs of one of the theories of examples.
  Further properties of the same parts come after them.

  Not modelled: of \<open>phone-auth-agent\<close> its process and threads, the calls to the Bluetooth daemon, locked memory,
  native messaging and the tools that reach the clipboard of other platforms than Windows; of \<open>qr_network.rs\<close>
  socket options, the start of threads and the search for the address to advertise; of \<open>ipc.rs\<close> the listening
  socket and the endpoint file; \<open>phone-auth-initrd\<close> and \<open>phone-auth-cli\<close>. In the parts above: wiping
  of memory on drop, the variants of functions for Windows and macOS but for the clipboard, JSON text, the
  estimate of entropy in floating point, the generation and PKCS8 storage of identity keys, and tests.
\<close>

text \<open>C1: Once a request has been granted, no pending value with its id is granted again, whatever answers, pairings and unpairings happen in between, as long as they are fewer than the capacity of the replay guard.\<close>

theorem one_grant_per_request:
  assumes "verifier_ok v" and "fst (accept p pend frame session now_ms v) = Inr g"
    and "length evs < rg_capacity (vf_replay v)"
    and "request_id (pa_request pend') = request_id (pa_request pend)"
  shows "fst (accept p pend' frame' session' now'
    (verifier_run p sd evs (snd (accept p pend frame session now_ms v)))) \<noteq> Inr g'"
  using assms by (rule no_second_grant)

theorem one_grant_per_request_witness:
  "fst (accept toy_p256 (demo_pending 7) (demo_frame 7) demo_session 1700
    (verifier_run toy_p256 demo_serde [AnswerArrives (demo_pending 8) (demo_frame 8) demo_session 1600]
      (snd (accept toy_p256 (demo_pending 7) (demo_frame 7) demo_session 1500 (demo_verifier 2)))))
    \<noteq> Inr (grant_for (demo_request 7) demo_device ''ble'' 1700)"
  by (rule one_grant_per_request [OF demo_verifier_ok demo_grant])
    (simp_all add: demo_verifier_def with_capacity_def)

text \<open>C2: Over sockets that cut what they carry into any pieces, a phone that scans the code on screen and is not known yet becomes a pairing proposal that names the phone, the key it has proved and its enrolment, and carries the very verification code the phone shows; what each side sends is what the other one reads.\<close>

theorem scanned_code_pairs:
  assumes "crypto_ok cr" and "encrypts cr" and "server_ready cr b (lg_identity cfg) server_spki"
    and "client_ready cr dev cid client_spki" and "known dev = None" and "client_now < sb_expires_at_ms b"
    and "enrolment_typed en" and "validate_enrolment en = Inr ()" and "en_purpose en = sb_purpose b"
  shows "\<exists>to_phone to_desktop. \<forall>phone desktop :: socket.
    arriving to_phone (sk_arrivals phone) \<and> sk_works phone \<and> sk_sent phone = [] \<and>
    arriving to_desktop (sk_arrivals desktop) \<and> sk_works desktop \<and> sk_sent desktop = [] \<longrightarrow>
    (\<exists>ch code phone' desktop' out. client_pair cr csecret b dev cid en client_now phone = (Inr (ch, code), phone')
      \<and> connection_run cr cfg rnd now (Some b) known desktop =
          (Inr (Proposes (proposal_of (cx_attempt_id rnd) out en)), desktop')
      \<and> sk_sent phone' = to_desktop \<and> sk_sent desktop' = to_phone
      \<and> ho_peer_device_id out = dev \<and> ho_peer_identity_spki out = client_spki \<and> ho_verification_code out = code)"
  using assms by (rule code_pairs)

theorem scanned_code_pairs_witness:
  "\<exists>to_phone to_desktop. \<forall>phone desktop :: socket.
    arriving to_phone (sk_arrivals phone) \<and> sk_works phone \<and> sk_sent phone = [] \<and>
    arriving to_desktop (sk_arrivals desktop) \<and> sk_works desktop \<and> sk_sent desktop = [] \<longrightarrow>
    (\<exists>ch code phone' desktop' out. client_pair toy_crypto [3] demo_bootstrap ''phone'' [4] demo_enrolment 0 phone = (Inr (ch, code), phone')
      \<and> connection_run toy_crypto demo_listener demo_randoms 0 (Some demo_bootstrap) Map.empty desktop =
          (Inr (Proposes (proposal_of (cx_attempt_id demo_randoms) out demo_enrolment)), desktop')
      \<and> sk_sent phone' = to_desktop \<and> sk_sent desktop' = to_phone
      \<and> ho_peer_device_id out = ''phone'' \<and> ho_peer_identity_spki out = [4] \<and> ho_verification_code out = code)"
  by (rule scanned_code_pairs [OF toy_crypto_ok demo_encrypts demo_server_ready_listener demo_client_ready _ _ demo_enrolment_ok])
    (simp_all add: demo_bootstrap_def demo_enrolment_def)



text \<open>C4: Whichever file-system calls fail while a file is locked, and wherever it stops, the file is still there with its bytes; when locking reports success the container is complete, it holds exactly the bytes of the file under the fresh key, and the recovery code it reports is the one of the second wrapper.\<close>

theorem lock_never_loses_file:
  assumes "locker_crypto_ok lc" and "locker_random_ok rnd" and "custodian_ok cu"
    and "lock_destination s plan \<noteq> s" and "intact s i c d"
  shows "case lock_file lc rnd s plan cu d of
      (Inl e, d') \<Rightarrow> intact s i c d'
    | (Inr out, d') \<Rightarrow> lo_container out = lock_destination s plan
        \<and> parse_recovery_code (lo_recovery_code out) = Inr (lr_recovery_key rnd)
        \<and> (\<exists>k B name. path_file_name s = Some name \<and> locked_bytes lc rnd name c B
             \<and> intact (lock_destination s plan) k B d')
        \<and> (if lp_remove_original plan then dk_nodes d' s = None else intact s i c d')"
  proof (rule triple_case [OF lock_file_spec [OF assms(1-4)] assms(5)])
  have "parse_recovery_code (format_recovery_code (lr_recovery_key rnd)) = Inr (lr_recovery_key rnd)"
    using assms(2) by (simp add: parse_recovery_code_iff locker_random_ok_def)
  then show "lo_container out = lock_destination s plan
        \<and> parse_recovery_code (lo_recovery_code out) = Inr (lr_recovery_key rnd)
        \<and> (\<exists>k B name. path_file_name s = Some name \<and> locked_bytes lc rnd name c B
             \<and> intact (lock_destination s plan) k B d')
        \<and> (if lp_remove_original plan then dk_nodes d' s = None else intact s i c d')"
    if "lo_container out = lock_destination s plan \<and> lo_plaintext_len out = word_of_nat (length c)
       \<and> lo_recovery_code out = format_recovery_code (lr_recovery_key rnd)
       \<and> lo_original_removed out = lp_remove_original plan
       \<and> (\<exists>k B name. k \<noteq> i \<and> path_file_name s = Some name \<and> locked_bytes lc rnd name c B
            \<and> intact (lock_destination s plan) k B d')
       \<and> (if lp_remove_original plan then dk_nodes d' s = None else intact s i c d')" for out d'
    using that by metis
qed

theorem lock_never_loses_file_witness:
  "case lock_file toy_locker demo_lock_random ''a.txt'' lock_plan_default demo_custodian
        (demo_disk ''a.txt''\<lparr>dk_faults := [None, None, None, Some (OtherIo 28, 3)]\<rparr>) of
      (Inl e, d') \<Rightarrow> intact ''a.txt'' 0 [104, 105] d'
    | (Inr out, d') \<Rightarrow> lo_container out = lock_destination ''a.txt'' lock_plan_default
        \<and> parse_recovery_code (lo_recovery_code out) = Inr (lr_recovery_key demo_lock_random)
        \<and> (\<exists>k B name. path_file_name ''a.txt'' = Some name \<and> locked_bytes toy_locker demo_lock_random name [104, 105] B
             \<and> intact (lock_destination ''a.txt'' lock_plan_default) k B d')
        \<and> (if lp_remove_original lock_plan_default then dk_nodes d' ''a.txt'' = None else intact ''a.txt'' 0 [104, 105] d')"
  by (rule lock_never_loses_file [OF toy_locker_ok demo_lock_random_ok demo_custodian_ok _ demo_disk_faults])
    (simp add: lock_destination_def lock_plan_default_def)

text \<open>C5: In every interleaving of connections, pairing, forgetting, sweeping and taking, no phone ever has more than eight parked sessions nor two under one key; every session in the pool was left there by a connection whose phone had its key on record, signed with it a hello that repeats the code and the ephemeral key of that very connection, and shares with it the keys of the channel that was parked; and a proposal was left by a connection to a phone that proved the key it proposes in the same way, for a code that was armed and with its purpose, under the verification code of the keys the two then shared.\<close>

theorem listener_owes_to_the_past:
  assumes "listener_runs cr cfg past"
  shows "(\<forall>st \<in> set past. pool_ok (ln_sessions st))
    \<and> (\<forall>(key, s) \<in> set (ln_sessions (hd past)). parked_by cr cfg past key s)
    \<and> (case ln_proposal (hd past) of None \<Rightarrow> True | Some g \<Rightarrow> proposed_by cr cfg past g)"
  using runs_pool_ok [OF assms] runs_parked [OF assms] runs_proposed [OF assms] by (auto split: option.split)

theorem listener_owes_to_the_past_witness:
  "\<exists>past. ln_sessions (hd past) \<noteq> [] \<and> ln_proposal (hd past) \<noteq> None \<and> (\<forall>st \<in> set past. pool_ok (ln_sessions st))
    \<and> (\<forall>(key, s) \<in> set (ln_sessions (hd past)). parked_by toy_crypto demo_listener past key s)
    \<and> (case ln_proposal (hd past) of None \<Rightarrow> True | Some g \<Rightarrow> proposed_by toy_crypto demo_listener past g)"
  using demo_run listener_owes_to_the_past by blast

text \<open>C6: Whatever the phone and the link do, an answer that the vault, SSH, permission or locker client accepts is the payload of a response that came over a confidential and authenticated session after the request had been sent on it: it names the fresh id of that request, its operation, that session, the moment the request was made and its deadline, and the deadline had not passed when it was read.\<close>

theorem phone_answers_are_for_the_request:
  assumes "vault_exchange link s operation payload w = (Inr ans, w') \<and> validity = VAULT_VALIDITY_MS
    \<or> ssh_exchange link s operation payload w = (Inr ans, w') \<and> validity = SSH_VALIDITY_MS
    \<or> permissions_exchange link s operation payload w = (Inr ans, w') \<and> validity = PERMISSIONS_VALIDITY_MS
    \<or> locker_exchange_on link s operation payload w = (Inr ans, w') \<and> validity = LOCKER_VALIDITY_MS"
  shows "suitable_for_authorization (se_security s) \<and> (\<exists>issued id w1 w2 w3 timeout raw w4 reply now.
      pk_now link w = (issued, w1) \<and> pk_random link 16 w1 = (id, w2)
      \<and> pk_send link s (encode_application \<lparr>ap_protocol_version = PROTOCOL_VERSION, ap_kind = Request,
           ap_request_id = random_request_id id, ap_session_binding = se_session_binding s, ap_operation = operation,
           ap_issued_at_ms = issued, ap_expires_at_ms = issued + validity, ap_payload = payload\<rparr>) w2 = (Inr (), w3)
      \<and> pk_receive link s timeout w3 = (Inr raw, w4) \<and> decode_application raw = Inr reply \<and> pk_now link w4 = (now, w')
      \<and> ap_kind reply = Response \<and> ap_request_id reply = random_request_id id \<and> ap_operation reply = operation
      \<and> ap_session_binding reply = se_session_binding s \<and> ap_issued_at_ms reply = issued
      \<and> ap_expires_at_ms reply = issued + validity \<and> now < issued + validity \<and> ap_payload reply = ans)"
  proof -
  have "suitable_for_authorization (se_security s) \<and> (\<exists>timeout issued id w1 w2. pk_now link w = (issued, w1) \<and> pk_random link 16 w1 = (id, w2)
      \<and> answered link s timeout (application_request s operation payload issued id validity) ans w2 w')"
    using assms by (elim disjE conjE) (auto simp: vault_ex.exchange_iff ssh_ex.exchange_iff permissions_ex.exchange_iff locker_ex.exchange_iff)
  then obtain timeout issued id w1 w2 where
    x: "suitable_for_authorization (se_security s)" "pk_now link w = (issued, w1)" "pk_random link 16 w1 = (id, w2)"
      "answered link s timeout (application_request s operation payload issued id validity) ans w2 w'" by blast
  from x(4) obtain w3 w4 raw reply now where y:
    "pk_send link s (encode_application (application_request s operation payload issued id validity)) w2 = (Inr (), w3)"
    "pk_receive link s timeout w3 = (Inr raw, w4)" "decode_application raw = Inr reply" "pk_now link w4 = (now, w')"
    "is_reply_to reply (application_request s operation payload issued id validity) now" "ap_kind reply = Response" "ap_payload reply = ans"
    unfolding answered_def by blast
  from y(5) have z: "ap_request_id reply = random_request_id id" "ap_operation reply = operation"
    "ap_session_binding reply = se_session_binding s" "ap_issued_at_ms reply = issued" "ap_expires_at_ms reply = issued + validity"
    "now < issued + validity"
    by (auto simp: application_request_def is_reply_to_def application_expired_at_def)
  show ?thesis
    by (rule conjI, rule x(1), rule exI [of _ issued], rule exI [of _ id], rule exI [of _ w1], rule exI [of _ w2], rule exI [of _ w3],
        rule exI [of _ timeout], rule exI [of _ raw], rule exI [of _ w4], rule exI [of _ reply], rule exI [of _ now],
        intro conjI x(2,3) y(1) [unfolded application_request_def] y(2-4,6,7) z)
qed

theorem phone_answers_are_for_the_request_witness:
  "\<exists>issued id w1 w2 w3 timeout raw w4 reply now. pk_now (toy_phone demo_vault) [] = (issued, w1) \<and> pk_random (toy_phone demo_vault) 16 w1 = (id, w2)
      \<and> pk_send (toy_phone demo_vault) (toy_session True) (encode_application \<lparr>ap_protocol_version = PROTOCOL_VERSION, ap_kind = Request,
           ap_request_id = random_request_id id, ap_session_binding = se_session_binding (toy_session True), ap_operation = OPERATION_LIST,
           ap_issued_at_ms = issued, ap_expires_at_ms = issued + VAULT_VALIDITY_MS, ap_payload = encode_list_request demo_first_page\<rparr>) w2 = (Inr (), w3)
      \<and> pk_receive (toy_phone demo_vault) (toy_session True) timeout w3 = (Inr raw, w4) \<and> decode_application raw = Inr reply
      \<and> ap_payload reply = encode_list_response (demo_pages ! 0)"
  proof -
  obtain w' where e: "vault_exchange (toy_phone demo_vault) (toy_session True) OPERATION_LIST (encode_list_request demo_first_page) []
      = (Inr (encode_list_response (demo_pages ! 0)), w')"
    using demo_list_page [of 0 demo_first_page "[]"] by (simp add: demo_first_page_def)
  show ?thesis
    using phone_answers_are_for_the_request [of "toy_phone demo_vault" "toy_session True" OPERATION_LIST "encode_list_request demo_first_page" "[]"
      "encode_list_response (demo_pages ! 0)" w' VAULT_VALIDITY_MS] e by blast
qed

text \<open>C7: An answer is granted exactly when the channel is confidential and authenticated, the session is the one the request was issued in, the response decodes, names the same request, verifier, credential and version, the id has not been used, the deadline has not passed, the phone authorized it, the credential is still paired and still permitted, and the paired key signed the request; and the grant repeats the request.\<close>

theorem grant_exactly_when:
  "fst (accept p pend frame session now_ms v) = Inr g \<longleftrightarrow>
    (\<exists>r d c. suitable_for_authorization (se_security session)
      \<and> se_session_binding session = pa_session_binding pend
      \<and> decode_response frame = Inr r \<and> answers r (pa_request pend)
      \<and> request_id (pa_request pend) \<notin> rg_seen (vf_replay v)
      \<and> now_ms < expires_at_ms (pa_request pend) \<and> rs_decision r = Authorized
      \<and> find_credential (credential_id (pa_request pend)) (vf_store v) = Some (d, c)
      \<and> permits (pc_permissions c) (pa_request pend)
      \<and> rs_algorithm r = ALGORITHM_ECDSA_P256_SHA256 \<and> pc_algorithm c = PUBLIC_KEY_EC_P256_SPKI
      \<and> signed_by p (pc_public_key c) (encode_request (pa_request pend)) (rs_signature r)
      \<and> g = grant_for (pa_request pend) d (pa_origin pend) now_ms)"
  by (rule accept_grant_iff)

text \<open>C8: Waiting for a session of a phone under a credential hands one out exactly at the first wake that finds one: none before found a session parked for that phone under that credential or under none, and all were before the deadline. It is the session parked for that phone under the credential asked for, or under none when there was none for it; it was within its window and its socket open at that moment; and what the others did apart, the pool is left with that one entry gone, so it is never handed out twice.\<close>

theorem session_taken_answers:
  "take_session T d c deadline wakes st = (Some s, st') \<longleftrightarrow>
    (\<exists>before wake after. wakes = before @ wake # after \<and> waited T d c deadline before st
      \<and> (let pool = woken T wake (slept T before st);
             key = (if map_of pool (d, Some c) = None then (d, None) else (d, Some c)) in
         map_of pool key = Some s \<and> wk_now wake - qs_parked_at s < T \<and> wk_open_end wake s
         \<and> st' = fold (listener_step T) (wk_others wake) (slept T before st)\<lparr>ln_sessions := pool_remove key pool\<rparr>
         \<and> map_of (ln_sessions st') key = None))"
  proof -
  have "taken_at T d c wake sl s st' \<longleftrightarrow> (let pool = woken T wake sl;
             key = (if map_of pool (d, Some c) = None then (d, None) else (d, Some c)) in
         map_of pool key = Some s \<and> wk_now wake - qs_parked_at s < T \<and> wk_open_end wake s
         \<and> st' = fold (listener_step T) (wk_others wake) sl\<lparr>ln_sessions := pool_remove key pool\<rparr>
         \<and> map_of (ln_sessions st') key = None)" for wake sl
    using taken_at_facts [of T d c wake sl s st'] by (auto simp: taken_at_def Let_def)
  then show ?thesis unfolding take_session_Some_iff by simp
qed

text \<open>C9: Every password a policy allows is equally likely: for any number of 64-bit draws, exactly as many sequences of draws end in one as in the other.\<close>

theorem passwords_equally_likely:
  assumes "policy_check p = Inr classes" and "s \<in> passwords p" and "t \<in> passwords p"
  shows "generate_password p = (\<lambda>rs. Inr (password_loop p rs)) \<and> ways (password_loop p) k s = ways (password_loop p) k t"
  using generate_password_loop [OF assms(1)] password_fair [OF assms] by (simp add: fun_eq_iff)

theorem passwords_equally_likely_witness:
  "generate_password default_policy = (\<lambda>rs. Inr (password_loop default_policy rs)) \<and>
    ways (password_loop default_policy) 30 (''aB3-'' @ replicate (pp_length default_policy - 4) CHR ''x'')
      = ways (password_loop default_policy) 30 (''zK9-'' @ replicate (pp_length default_policy - 4) CHR ''q'')"
  by (rule passwords_equally_likely [where classes = "policy_classes default_policy"])
    (simp_all add: policy_check_Inr default_policy_def passwords_def strings_over_def has_classes_def policy_classes_def
      LOWERCASE_def UPPERCASE_def DIGITS_def SYMBOLS_def MIN_LENGTH_def MAX_LENGTH_def)

text \<open>C10: When no call fails, a file that is locked and removed comes back from its container with the recovery code that locking reported: under its name, with its bytes, its permissions and its time, and the container is gone.\<close>

theorem lock_then_unlock_restores:
  assumes "lock_setting lc rnd cu s name i c phone d"
    and "safe_file_name (lock_metadata name (stat_of d (FileNode i))) = Inr name"
    and "path_join (unlock_directory (s @ ''.balock'') None) name = s"
    and "temporary_sibling (lr_suffix rnd') s = Inr t" and "dk_nodes d t = None"
  shows "\<exists>out d1 key d2. lock_file lc rnd s lock_plan_default cu d = (Inr out, d1) \<and> dk_nodes d1 s = None
    \<and> parse_recovery_code (lo_recovery_code out) = Inr key
    \<and> unlock_file lc rnd' (lo_container out) None True (RecoveryKey key) d1
      = (Inr \<lparr>uo_restored = s, uo_plaintext_len = word_of_nat (length c), uo_container_removed = True\<rparr>, d2)
    \<and> dk_nodes d2 = (dk_nodes d)(s \<mapsto> FileNode (dk_next d + 1))
    \<and> dk_inodes d2 (dk_next d + 1) = restored_inode d (lock_metadata name (stat_of d (FileNode i))) c"
  using lock_setting_locks [OF assms(1)] lock_then_unlock_disk [OF assms] lock_keys(4) [OF assms(1)]
    locked_disk_facts(3) [OF assms(1)] restored_disk_facts [OF assms(1)]
  by auto

theorem lock_then_unlock_restores_witness:
  "\<exists>out d1 key d2. lock_file toy_locker demo_lock_random ''a.txt'' lock_plan_default demo_custodian (demo_disk ''a.txt'')
      = (Inr out, d1) \<and> dk_nodes d1 ''a.txt'' = None
    \<and> parse_recovery_code (lo_recovery_code out) = Inr key
    \<and> unlock_file toy_locker demo_lock_random (lo_container out) None True (RecoveryKey key) d1
      = (Inr \<lparr>uo_restored = ''a.txt'', uo_plaintext_len = word_of_nat (length [104 :: u8, 105]), uo_container_removed = True\<rparr>, d2)
    \<and> dk_nodes d2 = (dk_nodes (demo_disk ''a.txt''))(''a.txt'' \<mapsto> FileNode (dk_next (demo_disk ''a.txt'') + 1))
    \<and> dk_inodes d2 (dk_next (demo_disk ''a.txt'') + 1)
      = restored_inode (demo_disk ''a.txt'') (lock_metadata ''a.txt'' (stat_of (demo_disk ''a.txt'') (FileNode 0))) [104, 105]"
  by (rule lock_then_unlock_restores [OF demo_setting demo_name_safe, where t = "''./.a.txt.ab.balock-tmp''"])
    (simp_all add: unlock_directory_def parent_of_def path_join_def demo_lock_random_def demo_temporary demo_disk_def)



text \<open>C12: The frames one session sends are received by the session at the other end, whole, in order and each once, however the network cuts the stream and wherever it stalls, as long as the receiver asks again after a timeout.\<close>

theorem sent_frames_arrive:
  assumes "crypto_ok cr" and "in_step (ns_channel s) (ns_channel t)"
    and "send_all cr ms s = (Inr (), s')" and "sk_sent (ns_socket s) = []"
    and "live (sk_arrivals (ns_socket t))" and "\<not> ns_closed t" and "ns_pending_record t = []"
    and "content (sk_arrivals (ns_socket t)) = sk_sent (ns_socket s')"
    and "length ms + stalls (sk_arrivals (ns_socket t)) \<le> n"
  shows "received (fst (receive_all cr n t)) = ms"
  by (rule sent_is_received [OF assms])

theorem sent_frames_arrive_witness:
  "\<exists>s'. send_all toy_crypto [[1], [2, 3]] (demo_network_session Server []) = (Inr (), s')
    \<and> received (fst (receive_all toy_crypto 3 (demo_network_session Client (sk_sent (ns_socket s'))))) = [[1], [2, 3]]"
  proof -
  obtain s' where s': "send_all toy_crypto [[1], [2, 3]] (demo_network_session Server []) = (Inr (), s')"
    "sk_sent (ns_socket s') = concat (map frame_bytes demo_records)"
    using send_all_sends [OF toy_crypto_ok, of "[[1], [2, 3]]" "demo_network_session Server []" demo_records] demo_records_sealed
    by (auto simp: demo_network_session_def network_session_of_def demo_parked_def demo_socket_def RECORD_OVERHEAD_def MAX_FRAME_def)
  have ne: "sk_sent (ns_socket s') \<noteq> []" by (simp add: s'(2) demo_records_def frame_bytes_def)
  have "received (fst (receive_all toy_crypto 3 (demo_network_session Client (sk_sent (ns_socket s'))))) = [[1], [2, 3]]"
    using ne by (intro sent_frames_arrive [OF toy_crypto_ok _ s'(1)])
      (simp_all add: demo_network_session_def network_session_of_def demo_parked_def demo_socket_def live_def stalls_def
        new_channels_in_step)
  with s'(1) show ?thesis by blast
qed

text \<open>C13: The chunks of a frame are within the size a characteristic value carries, and however they arrive, in any order and between the chunks of up to three other frames, every one but the last is taken without a word and the last gives the frame back.\<close>

theorem frames_survive_reordering:
  assumes "ble_encode frame att n = (Inr chunks, n')" and "bt_ok d" and "bt_get (unat n) d = None"
    and "card (insert (unat n) (ble_ids d \<union> chunk_frame_id ` set arrivals)) \<le> MAX_PARTIAL_FRAMES"
    and "mset (filter (\<lambda>c. chunk_frame_id c = unat n) arrivals) = mset chunks"
  shows "list_all (\<lambda>c. length c \<le> att) chunks
    \<and> answers_of (unat n) arrivals (fst (ble_feed arrivals d))
      = replicate (length chunks - 1) (Inr None) @ [Inr (Some frame)]
    \<and> bt_get (unat n) (snd (ble_feed arrivals d)) = None"
  using ble_encode_size [OF assms(1)] chunks_in_any_order [OF assms] by blast

theorem frames_survive_reordering_witness:
  "list_all (\<lambda>c. length c \<le> 8) demo_ble_chunks
    \<and> answers_of (unat (7 :: 16 word)) demo_ble_arrivals (fst (ble_feed demo_ble_arrivals []))
      = replicate (length demo_ble_chunks - 1) (Inr None) @ [Inr (Some demo_ble_frame)]
    \<and> bt_get (unat (7 :: 16 word)) (snd (ble_feed demo_ble_arrivals [])) = None"
  by (rule frames_survive_reordering [OF demo_ble_encode])
    (use demo_ble_own in \<open>simp_all add: bt_ok_def bt_get_def\<close>)

text \<open>C14: Whichever calls fail while an entry is appended, the log and its temporary file stay readable to their owner only, and the log holds what it held followed by a part of the new line, or the newest few, at least one and at most as many as are to be retained, of the entries that trimming could read. When no call fails the append succeeds and the log holds the newest entries, the new one among them, and all of them while they fit.\<close>

theorem audit_log_survives_faults:
  assumes "audit_json_ok aj" and "writable aj (es @ [e])" and "0 < al_retain lg"
    and "audit_private lg w" and "audit_content lg w = log_of aj es" and "audit_append aj lg e w = (r, w')"
  shows "audit_private lg w'
    \<and> ((\<exists>n. audit_content lg w' = log_of aj es @ take n (log_of aj [e]))
      \<or> (\<exists>k m. 0 < k \<and> k \<le> al_retain lg \<and> k < m \<and> m \<le> length (es @ [e])
          \<and> audit_content lg w' = log_of aj (newest k (take m (es @ [e])))))
    \<and> (if w_faults w = [] then r = Inr () \<and> (\<exists>k > 0. k \<le> length (es @ [e])
          \<and> audit_content lg w' = log_of aj (newest k (es @ [e]))
          \<and> (if length (log_of aj (es @ [e])) \<le> al_trim_threshold_bytes lg then k = length (es @ [e]) else True)) else True)"
  proof -
  have "audit_private lg w' \<and> audit_left aj lg es e w'"
  proof (cases r)
    case (Inl x)
    with assms show ?thesis by (intro io_tripleD(1) [OF audit_append_triple [OF assms(1-3)]]) (simp_all add: log_state_def)
  next
    case (Inr x)
    with assms show ?thesis by (intro io_tripleD(2) [OF audit_append_triple [OF assms(1-3)]]) (simp_all add: log_state_def)
  qed
  moreover have "r = Inr () \<and> (\<exists>k > 0. k \<le> length (es @ [e]) \<and> audit_content lg w' = log_of aj (newest k (es @ [e]))
      \<and> (if length (log_of aj (es @ [e])) \<le> al_trim_threshold_bytes lg then k = length (es @ [e]) else True))" if "w_faults w = []"
    using audit_append_exact [OF that assms(5,1,2,3)] assms(6) by auto
  ultimately show ?thesis unfolding audit_left_def by simp
qed

theorem audit_log_survives_faults_witness:
  "\<exists>r w'. audit_append demo_audit_json (demo_log 5 2) (demo_entry 3) (demo_files (log_of demo_audit_json (map demo_entry [1, 2])) [None, None, Some (OtherIo 5, 1)]) = (r, w')
    \<and> audit_private (demo_log 5 2) w'
    \<and> ((\<exists>n. audit_content (demo_log 5 2) w' = log_of demo_audit_json (map demo_entry [1, 2]) @ take n (log_of demo_audit_json [demo_entry 3]))
      \<or> (\<exists>k m. 0 < k \<and> k \<le> al_retain (demo_log 5 2) \<and> k < m \<and> m \<le> length (map demo_entry [1, 2] @ [demo_entry 3])
          \<and> audit_content (demo_log 5 2) w' = log_of demo_audit_json (newest k (take m (map demo_entry [1, 2] @ [demo_entry 3])))))"
  proof -
  obtain r w' where a: "audit_append demo_audit_json (demo_log 5 2) (demo_entry 3)
      (demo_files (log_of demo_audit_json (map demo_entry [1, 2])) [None, None, Some (OtherIo 5, 1)]) = (r, w')" by fastforce
  have p: "audit_private (demo_log 5 2) (demo_files (log_of demo_audit_json (map demo_entry [1, 2])) [None, None, Some (OtherIo 5, 1)])"
    by (auto simp: audit_private_def private_at_def demo_files_def PRIVATE_MODE_def split: if_splits)
  have c: "audit_content (demo_log 5 2) (demo_files (log_of demo_audit_json (map demo_entry [1, 2])) [None, None, Some (OtherIo 5, 1)])
      = log_of demo_audit_json (map demo_entry [1, 2])"
    by (simp add: demo_files_def audit_content_def demo_log_def)
  have w: "writable demo_audit_json (map demo_entry [1, 2] @ [demo_entry 3])" using demo_writable [of "[1, 2, 3]"] by simp
  have r: "0 < al_retain (demo_log 5 2)" by (simp add: demo_log_def)
  show ?thesis
    by (rule exI [of _ r], rule exI [of _ w']) (use audit_log_survives_faults [OF demo_audit_json_ok w r p c a] a in blast)
qed

text \<open>C15: Whichever file-system call fails or is cut short, the saved pairing store is either untouched or completely replaced, private to its owner; only the temporary file beside it can otherwise change.\<close>

theorem saving_is_atomic:
  "case persist sd s w of
      (Inl e, w') \<Rightarrow> (\<forall>q. q = with_extension (ps_path s) ''json.tmp'' \<or> w_files w' q = w_files w q)
    | (Inr u, w') \<Rightarrow> if ps_path s = [] then w' = w
        else (\<exists>json. json_of sd s = Some json
          \<and> w_files w' (ps_path s) = Some \<lparr>fl_content = json, fl_mode = PRIVATE_MODE\<rparr>
          \<and> (\<forall>q. q = ps_path s \<or> q = with_extension (ps_path s) ''json.tmp'' \<or> w_files w' q = w_files w q))
          \<and> with_extension (ps_path s) ''json.tmp'' \<noteq> ps_path s"
  using persist_failed [of sd s w] persist_saved [of s sd w] temp_is_not_the_store [of "ps_path s"]
  by (cases "ps_path s = []") (simp add: persist_def io_return_def, (auto split: prod.split sum.split; blast))

text \<open>C16: In every store reached by pairing and unpairing, a credential id belongs to at most one device, and the search finds exactly the device that holds it.\<close>

theorem credential_names_one_device:
  assumes "store_history sd p s"
  shows "find_credential cid s = Some (d, c) \<longleftrightarrow>
    bt_get (pd_device_id d) (ps_devices s) = Some d \<and> device_credential cid d = Some c"
  by (rule find_credential_eq [OF store_history_ok [OF assms]])

theorem credential_names_one_device_witness:
  "find_credential ''cred'' demo_store = Some (demo_device, demo_credential) \<longleftrightarrow>
    bt_get (pd_device_id demo_device) (ps_devices demo_store) = Some demo_device
    \<and> device_credential ''cred'' demo_device = Some demo_credential"
  by (rule credential_names_one_device [OF demo_history])

text \<open>C17: A yes that the service reports was given by the phone to this very request. The session is the one the registry opened for the credential the choice fell on, confidential and authenticated; on it the service sent one request, made of the call it serves, with an id, a challenge, a moment and a session binding of its own; what then came over that session decodes as an authorization of that request, signed over its frame by the key of that credential, which is registered for the purpose of the service asked for and permitted to answer it; and when it came the deadline had not passed, nor had the id been used before.\<close>

theorem authorize_is_a_signed_yes:
  assumes "authorize en params sv = (Inr result, sv')"
  shows "\<exists>did cred session w1 issued w2 id w3 challenge w4 q w5 n w6 timeout frame w7 now w8 response d c.
    select_credential (sv_store sv) params = Inr (did, cred) \<and>
    registry_connect (en_transports en) did cred (sv_host sv) = (Inr session, w1) \<and>
    suitable_for_authorization (se_security session) \<and>
    pk_now (en_link en) w1 = (issued, w2) \<and> pk_random (en_link en) 16 w2 = (id, w3) \<and> pk_random (en_link en) 32 w3 = (challenge, w4) \<and>
    credential_id q = cred \<and> service q = az_service params \<and> action q = az_action params \<and>
    resource q = az_resource params \<and> user q = az_user params \<and> request_id q = random_request_id id \<and>
    auth_request.challenge q = challenge \<and> issued_at_ms q = issued \<and> session_binding q = se_session_binding session \<and>
    pk_send (en_link en) session (encode_request q) w4 = (Inr (), w5) \<and> pk_now (en_link en) w5 = (n, w6) \<and>
    pk_receive (en_link en) session timeout w6 = (Inr frame, w7) \<and> pk_now (en_link en) w7 = (now, w8) \<and>
    decode_response frame = Inr response \<and> rs_decision response = Authorized \<and> answers response q \<and>
    now < expires_at_ms q \<and> request_id q \<notin> rg_seen (vf_replay (sv_verifier sv)) \<and>
    find_credential cred (sv_store sv) = Some (d, c) \<and> pc_purpose c = purpose_for_service (az_service params) \<and>
    permits (pc_permissions c) q \<and>
    signed_by (cr_p256 (en_crypto en)) (pc_public_key c) (encode_request q) (rs_signature response) \<and>
    ar_request_id result = request_id q \<and> ar_device_name result = device_name_of did sv"
  using assms by (rule authorize_yes)

theorem authorize_is_a_signed_yes_witness:
  "\<exists>q w4 w5 timeout w6 frame w7 response. pk_send (en_link (demo_en 1)) demo_session (encode_request q) w4 = (Inr (), w5) \<and>
    pk_receive (en_link (demo_en 1)) demo_session timeout w6 = (Inr frame, w7) \<and> decode_response frame = Inr response \<and>
    service q = ''sudo'' \<and> credential_id q = ''cred'' \<and> rs_decision response = Authorized \<and> answers response q \<and>
    signed_by (cr_p256 (en_crypto (demo_en 1))) [1, 2, 3] (encode_request q) (rs_signature response)"
  proof -
  let ?sv = "demo_service demo_desk None ()"
  from demo_authorize [of 1] obtain r sv' where a: "authorize (demo_en 1) demo_params ?sv = (Inr r, sv')" by blast
  have sel: "select_credential (sv_store ?sv) demo_params = Inr (''phone'', ''cred'')"
    using demo_select by (simp add: demo_service_def sv_store_def demo_desk_store)
  have f: "find_credential ''cred'' (sv_store ?sv) = Some (demo_device, demo_credential)"
    by (simp add: demo_service_def sv_store_def demo_desk_store demo_store_find)
  have c: "registry_connect (en_transports (demo_en 1)) did cred u = (Inr demo_session, u)" for did cred u
    by (simp add: demo_en_def registry_connect_def demo_surroundings_def demo_transport_def is_ready_def io_match_def io_return_def)
  from authorize_is_a_signed_yes [OF a] obtain did cr session w1 q w4 w5 timeout w6 frame w7 response d c where
    x: "select_credential (sv_store ?sv) demo_params = Inr (did, cr)"
      "registry_connect (en_transports (demo_en 1)) did cr (sv_host ?sv) = (Inr session, w1)"
      "find_credential cr (sv_store ?sv) = Some (d, c)" and
    y: "pk_send (en_link (demo_en 1)) session (encode_request q) w4 = (Inr (), w5)"
      "pk_receive (en_link (demo_en 1)) session timeout w6 = (Inr frame, w7)" "decode_response frame = Inr response"
      "service q = az_service demo_params" "credential_id q = cr" "rs_decision response = Authorized" "answers response q"
      "signed_by (cr_p256 (en_crypto (demo_en 1))) (pc_public_key c) (encode_request q) (rs_signature response)" by blast
  from x(1,2) have z: "cr = ''cred''" "session = demo_session" by (simp_all add: sel c)
  with x(3) f have "c = demo_credential" by simp
  note z = z this
  show ?thesis
    by (intro exI conjI) (use y in \<open>simp_all add: z demo_params_def demo_credential_def\<close>)
qed

text \<open>C18: Whichever calls fail while a container is unlocked, it is still there when unlocking fails; when it succeeds the container was, byte for byte, one that sealing made, and the restored file holds exactly the bytes sealed in it, under the sealed name.\<close>

theorem unlock_yields_what_was_sealed:
  assumes "locker_crypto_ok lc" and "case key of PhoneKey cu \<Rightarrow> custodian_ok cu | RecoveryKey k \<Rightarrow> True"
    and "restores_elsewhere lc c (unlock_directory p dir) p" and "intact p i c d"
  shows "case unlock_file lc rnd p dir rm key d of
      (Inl e, d') \<Rightarrow> intact p i c d'
    | (Inr out, d') \<Rightarrow> (\<exists>k dek h ws m plain. container_ok h ws m plain \<and> c = container_bytes lc dek h ws m plain
          \<and> uo_restored out = path_join (unlock_directory p dir) (lm_original_name m)
          \<and> safe_file_name m = Inr (lm_original_name m) \<and> intact (uo_restored out) k plain d')
        \<and> (if rm then dk_nodes d' p = None else intact p i c d')"
  proof (rule triple_case [OF unlock_file_spec [OF assms(1) _ assms(3)] assms(4)])
  show "custodian_ok cu" if "key = PhoneKey cu" for cu using assms(2) that by simp
qed blast+

theorem unlock_yields_what_was_sealed_witness:
  "case unlock_file toy_locker demo_lock_random ''a.txt.balock'' None True (PhoneKey demo_custodian) demo_locked of
      (Inl e, d') \<Rightarrow> intact ''a.txt.balock'' 0 demo_container d'
    | (Inr out, d') \<Rightarrow> (\<exists>k dek h ws m plain. container_ok h ws m plain \<and> demo_container = container_bytes toy_locker dek h ws m plain
          \<and> uo_restored out = path_join (unlock_directory ''a.txt.balock'' None) (lm_original_name m)
          \<and> safe_file_name m = Inr (lm_original_name m) \<and> intact (uo_restored out) k plain d')
        \<and> (if True then dk_nodes d' ''a.txt.balock'' = None else intact ''a.txt.balock'' 0 demo_container d')"
  by (rule unlock_yields_what_was_sealed [OF toy_locker_ok _ demo_restores demo_locked_intact])
    (simp add: demo_custodian_ok)

text \<open>C19: Whichever calls fail while a container is re-keyed, and wherever it stops, the old container is complete under its own name or under the name it is moved to; when re-keying succeeds the container holds the same header, metadata and contents, under the wrapper the phone has just made for its data key, and beside that under the new recovery code or the recovery wrappers it had: no phone wrapper it had is left.\<close>

theorem rekey_always_leaves_container:
  assumes "locker_crypto_ok lc" and "custodian_ok cu" and "intact p i c d"
  shows "case rekey_file lc rnd p cu current new_recovery d of
      (Inl e, d') \<Rightarrow> intact p i c d' \<or> intact (rekey_old p) i c d'
    | (Inr code, d') \<Rightarrow> code = rekeyed_code rnd new_recovery
        \<and> (\<exists>k dek h ws ws' m plain. container_ok h ws m plain \<and> c = container_bytes lc dek h ws m plain
          \<and> rekeyed_wrappers lc rnd cu p new_recovery dek h ws ws' \<and> container_ok h ws' m plain
          \<and> intact p k (container_bytes lc dek h ws' m plain) d')"
  by (rule triple_case [OF rekey_file_spec [OF assms(1,2)] assms(3)])

theorem rekey_always_leaves_container_witness:
  "case rekey_file toy_locker demo_lock_random ''a.txt.balock'' demo_custodian None True demo_locked of
      (Inl e, d') \<Rightarrow> intact ''a.txt.balock'' 0 demo_container d' \<or> intact (rekey_old ''a.txt.balock'') 0 demo_container d'
    | (Inr code, d') \<Rightarrow> code = rekeyed_code demo_lock_random True
        \<and> (\<exists>k dek h ws ws' m plain. container_ok h ws m plain \<and> demo_container = container_bytes toy_locker dek h ws m plain
          \<and> rekeyed_wrappers toy_locker demo_lock_random demo_custodian ''a.txt.balock'' True dek h ws ws' \<and> container_ok h ws' m plain
          \<and> intact ''a.txt.balock'' k (container_bytes toy_locker dek h ws' m plain) d')"
  by (rule rekey_always_leaves_container [OF toy_locker_ok demo_custodian_ok demo_locked_intact])


text \<open>C21: The verifier accepts a client hello exactly when the frame is an envelope whose body echoes this bootstrap and this ephemeral key, comes from the expected device and identity, and is signed by the identity it presents; the outcome is derived from that hello and nothing else.\<close>

theorem finish_authenticates_peer:
  "finish_handshake cr p frame e tn = Inr out \<longleftrightarrow>
    (\<exists>u s c w ks. decode_envelope frame = Inr (u, s) \<and> decode_client_hello u = Inr c \<and> echoes c p
      \<and> (e = PairingPeer \<and> w \<or> e = PairedPeer (cl_device_id c) (cl_identity_spki c) \<and> w = False)
      \<and> signed_by (cr_p256 cr) (cl_identity_spki c) u s
      \<and> derive cr (cr_x25519 cr (ph_secret p) (cl_ephemeral c)) (transcript_hash cr (ph_server_unsigned p) u) = Inr ks
      \<and> out = server_outcome cr p c ks tn w)"
  unfolding finish_handshake_iff check_peer_iff by simp

text \<open>C22: A paired phone that dials for one of its credentials is parked under that phone and that credential, whether or not a code is on screen, with a channel in step with its own, however the network cuts the stream.\<close>

theorem paired_phone_is_parked:
  assumes "crypto_ok cr" and "encrypts cr" and "connection_bootstrap cr cfg rnd now armed = Inr b"
    and "server_ready cr b (lg_identity cfg) server_spki" and "client_ready cr dev cid client_spki"
    and "known dev = Some client_spki" and "client_now < sb_expires_at_ms b"
    and "is_str cred" and "validate_attach (attach_new cred) = Inr ()"
  shows "\<exists>to_phone to_desktop. \<forall>phone desktop :: socket.
    arriving to_phone (sk_arrivals phone) \<and> sk_works phone \<and> sk_sent phone = [] \<and>
    arriving to_desktop (sk_arrivals desktop) \<and> sk_works desktop \<and> sk_sent desktop = [] \<longrightarrow>
    (\<exists>ch ch' phone' desktop'. client_connect cr csecret server_spki dev cid cred client_now phone = (Inr ch, phone')
      \<and> connection_run cr cfg rnd now armed known desktop = (Inr (Parks (dev, Some cred) ch'), desktop')
      \<and> sk_sent phone' = to_desktop \<and> sk_sent desktop' = to_phone \<and> in_step ch ch' \<and> in_step ch' ch)"
  using assms by (rule connection_parks)

theorem paired_phone_is_parked_witness:
  "\<exists>to_phone to_desktop. \<forall>phone desktop :: socket.
    arriving to_phone (sk_arrivals phone) \<and> sk_works phone \<and> sk_sent phone = [] \<and>
    arriving to_desktop (sk_arrivals desktop) \<and> sk_works desktop \<and> sk_sent desktop = [] \<longrightarrow>
    (\<exists>ch ch' phone' desktop'. client_connect toy_crypto [3] [2] ''phone'' [4] ''cred'' 0 phone = (Inr ch, phone')
      \<and> connection_run toy_crypto demo_listener demo_randoms 0 None [''phone'' \<mapsto> [4]] desktop = (Inr (Parks (''phone'', Some ''cred'') ch'), desktop')
      \<and> sk_sent phone' = to_desktop \<and> sk_sent desktop' = to_phone \<and> in_step ch ch' \<and> in_step ch' ch)"
  by (rule paired_phone_is_parked [OF toy_crypto_ok demo_encrypts demo_return_made demo_return_ready demo_client_ready _ _ demo_attach_ok])
    (simp_all add: demo_return_def)

text \<open>C23: Whatever a client sends and however its connection ends, the pairing store stays well formed: devices under their own ids in order, no credential id in two places, and the replay guard within its bounds.\<close>

theorem no_client_breaks_the_store:
  assumes "sound_service sv"
  shows "sound_service (sd_state (serve_client ag parse_call token p sv))"
  using assms by (rule serve_client_sound)

theorem no_client_breaks_the_store_witness:
  "\<forall>ag :: (bytes, bytes, bytes, string) agent. \<forall>parse_call.
    sound_service (sd_state (serve_client ag parse_call ''t'' \<lparr>pr_bytes = [(0, 0x7B), (0, 0x0A)], pr_closes = True, pr_writes = []\<rparr>
      (demo_service demo_desk None demo_locked)))"
  proof -
  have "sound_service (demo_service demo_desk None demo_locked)"
    using demo_store_unique demo_verifier_ok [of 1]
    by (simp add: sound_service_def verifier_unique_def demo_service_def demo_desk_store demo_desk_def verifier_ok_def demo_verifier_def)
  then show ?thesis by (intro allI no_client_breaks_the_store)
qed

text \<open>C24: The search for a password is never stuck: whatever has been drawn, some further draws end it, and what it ends in has the length of the policy, only characters of its classes, and one of each.\<close>

theorem password_always_possible:
  assumes "policy_check p = Inr classes"
  shows "\<exists>ext s r. generate_password p (rs @ ext) = Inr (Some (s, r)) \<and> s \<in> passwords p"
  proof -
  obtain ext s r where e: "password_loop p (rs @ ext) = Some (s, r)" using password_loop_fill [OF assms] by blast
  then have "s \<in> passwords p" by (rule password_loop_sound)
  with e generate_password_loop [OF assms] show ?thesis by auto
qed

theorem password_always_possible_witness:
  "\<exists>ext s r. generate_password default_policy ([1, 2, 3] @ ext) = Inr (Some (s, r)) \<and> s \<in> passwords default_policy"
  by (rule password_always_possible [where classes = "policy_classes default_policy"])
    (simp add: policy_check_Inr default_policy_def policy_classes_def MIN_LENGTH_def MAX_LENGTH_def)

text \<open>C25: The replay guard implements a window over its history: after any sequence of ids it remembers exactly the last ids it accepted, up to its capacity, and accepts an id exactly when it is not among them.\<close>

theorem replay_guard_remembers_last:
  "rg_order (after_keys consume ks (with_capacity c)) = last_n (max c 1) (accepted_keys consume ks (with_capacity c))
    \<and> rg_seen (after_keys consume ks (with_capacity c)) = set (rg_order (after_keys consume ks (with_capacity c)))
    \<and> fst (consume k (after_keys consume ks (with_capacity c)))
        = (k \<notin> set (last_n (max c 1) (accepted_keys consume ks (with_capacity c))))"
  using guard.memory_after [OF with_capacity_ok, of ks c] guard.after_ok [OF with_capacity_ok, of ks c]
    guard.step_accepts [OF guard.after_ok [OF with_capacity_ok, of ks c], of k]
  by (simp add: replay_ok_def) (simp add: with_capacity_def)

text \<open>C26: A phone reached over a link that leaves the disk alone keeps the contract the locker asks of a custodian of keys; a wrapper it hands out is a phone wrapper around a non-empty ciphertext, and a key it opens has the length of a data key and came from a phone wrapper.\<close>

theorem phone_is_a_custodian:
  assumes "link_quiet link" and "quiet (pc_open c)"
  shows "custodian_ok (as_custodian link c)
    \<and> (case cu_wrap (as_custodian link c) ask d of (Inl e, d') \<Rightarrow> True
       | (Inr x, d') \<Rightarrow> wr_kind x = PhoneWrapper \<and> wr_ciphertext x \<noteq> [] \<and> length (wr_ciphertext x) \<le> MAX_WRAPPER_BYTES)
    \<and> (case cu_unwrap (as_custodian link c) ask' d of (Inl e, d') \<Rightarrow> True
       | (Inr dek, d') \<Rightarrow> wr_kind (ua_wrapper ask') = PhoneWrapper \<and> length dek = DATA_KEY_LEN)"
  using phone_custodian_ok [OF assms]
  by (auto simp: as_custodian_def dest: custodian_wrap_shape custodian_unwrap_shape split: prod.splits sum.splits)

theorem phone_is_a_custodian_witness:
  "custodian_ok (as_custodian deaf_phone deaf_custodian)
    \<and> (case cu_wrap (as_custodian deaf_phone deaf_custodian) demo_ask demo_locked of (Inl e, d') \<Rightarrow> True
       | (Inr x, d') \<Rightarrow> wr_kind x = PhoneWrapper \<and> wr_ciphertext x \<noteq> [] \<and> length (wr_ciphertext x) \<le> MAX_WRAPPER_BYTES)
    \<and> (case cu_unwrap (as_custodian deaf_phone deaf_custodian) demo_unask demo_locked of (Inl e, d') \<Rightarrow> True
       | (Inr dek, d') \<Rightarrow> wr_kind (ua_wrapper demo_unask) = PhoneWrapper \<and> length dek = DATA_KEY_LEN)"
  by (rule phone_is_a_custodian [OF deaf_quiet])

text \<open>C27: A request is issued exactly when the channel is suitable, the credential is paired and registered for the purpose of the service, boot-time unlocking has a hardware key and a real transport, the request built from the specification is valid, and local policy permits it.\<close>

theorem issue_exactly_when:
  "issue spec session now_ms id_bytes challenge_bytes v = Inr pend \<longleftrightarrow>
    suitable_for_authorization (se_security session)
    \<and> (\<exists>d c. find_credential (sp_credential_id spec) (vf_store v) = Some (d, c)
        \<and> pc_purpose c = purpose_for_service (spec_service spec)
        \<and> (if pc_purpose c = ForDiskUnlock
             then allowed_at_boot (pc_key_kind c) \<and> \<not> ts_is_development (se_security session) else True)
        \<and> permits (pc_permissions c) (issued_request spec session now_ms id_bytes challenge_bytes v))
    \<and> validate_request (issued_request spec session now_ms id_bytes challenge_bytes v) = Inr ()
    \<and> pend = \<lparr>pa_request = issued_request spec session now_ms id_bytes challenge_bytes v,
        pa_origin = se_origin_label session, pa_session_binding = se_session_binding session\<rparr>"
  unfolding issue_iff if_True_eq by (rule refl)

text \<open>C28: The frames that decode to a request, a response, an enrolment, an attach or an application envelope are exactly the encodings of valid values: each value has one frame, and a frame that decodes says one thing. Only a response has to fit a frame by itself.\<close>

theorem request_frames_exact:
  "(decode_request f = Inr q \<longleftrightarrow> f = encode_request q \<and> request_typed q \<and> validate_request q = Inr ())
    \<and> (decode_enrolment f = Inr e \<longleftrightarrow> f = encode_enrolment e \<and> enrolment_typed e \<and> validate_enrolment e = Inr ())
    \<and> (decode_attach g = Inr a \<longleftrightarrow> g = encode_attach a \<and> attach_typed a \<and> validate_attach a = Inr ())
    \<and> (decode_application h = Inr p \<longleftrightarrow>
        h = encode_application p \<and> application_typed p \<and> validate_application p = Inr ())
    \<and> (decode_response i = Inr m \<longleftrightarrow> i = encode_response m \<and> response_typed m
        \<and> validate_response m = Inr () \<and> length (encode_response m) \<le> MAX_FRAME_BYTES)"
  by (intro conjI request_codec.decode_exactly enrolment_codec.decode_exactly attach_codec.decode_exactly
    application_codec.decode_exactly response_codec.decode_iff)

text \<open>C29: Once an identity key is on disk, starting the agent never changes it: unless the file system denies that the file is there, the key that is loaded is the one in the file, and a file that does not parse stops the agent instead of being replaced.\<close>

theorem identity_never_replaced:
  assumes "w_files w p = Some f" and "identity_load_or_create ik pid counter generated p w = (r, w')"
    and "\<not> (\<exists>n fs. w_faults w = Some (NotFound, n) # fs)"
  shows "w_files w' = w_files w \<and> (case r of Inr key \<Rightarrow> ik_from_pkcs8 ik (fl_content f) = Some key | Inl e \<Rightarrow> True)"
  by (rule identity_kept [OF assms])

theorem identity_never_replaced_witness:
  "\<exists>r w'. identity_load_or_create \<lparr>ik_from_pkcs8 = Some, ik_to_pkcs8 = Some\<rparr> 1 2 [9] ''s/audit.jsonl'' (demo_files [7] []) = (r, w')
    \<and> w_files w' = w_files (demo_files [7] []) \<and> (case r of Inr key \<Rightarrow> Some [7] = Some key | Inl e \<Rightarrow> True)"
  proof -
  obtain r w' where a: "identity_load_or_create \<lparr>ik_from_pkcs8 = Some, ik_to_pkcs8 = Some\<rparr> 1 2 [9] ''s/audit.jsonl'' (demo_files [7] []) = (r, w')"
    by fastforce
  from identity_never_replaced [OF _ a, of "\<lparr>fl_content = [7], fl_mode = PRIVATE_MODE\<rparr>"] a show ?thesis
    by (auto simp: demo_files_def split: sum.splits)
qed

text \<open>C30: Whichever call fails while a private file is written, the file is untouched, or holds exactly the new contents and is readable to its owner only; when the write succeeds it is the latter, and no temporary file is left.\<close>

theorem private_write_is_atomic:
  assumes "t = temporary_beside pid counter p" and "write_private pid counter p contents w = (r, w')"
  shows "case r of
      Inr _ \<Rightarrow> replaced t p (w_files w) \<lparr>fl_content = contents, fl_mode = PRIVATE_MODE\<rparr> w'
    | Inl _ \<Rightarrow> private_left t p (w_files w) contents w'"
  using io_tripleD [OF write_private_triple [OF assms(1)], of w "w_files w"] assms(2) by (auto split: sum.split)

theorem private_write_is_atomic_witness:
  "\<exists>r w'. write_private 1 2 ''s/id'' [7] (demo_files [] [None, None, None, Some (OtherIo 5, 0)]) = (r, w')
    \<and> (case r of
      Inr _ \<Rightarrow> replaced (temporary_beside 1 2 ''s/id'') ''s/id'' (w_files (demo_files [] [None, None, None, Some (OtherIo 5, 0)])) \<lparr>fl_content = [7], fl_mode = PRIVATE_MODE\<rparr> w'
    | Inl _ \<Rightarrow> private_left (temporary_beside 1 2 ''s/id'') ''s/id'' (w_files (demo_files [] [None, None, None, Some (OtherIo 5, 0)])) [7] w')"
  proof -
  obtain r w' where a: "write_private 1 2 ''s/id'' [7] (demo_files [] [None, None, None, Some (OtherIo 5, 0)]) = (r, w')" by fastforce
  from private_write_is_atomic [OF refl a] a show ?thesis by blast
qed

text \<open>C31: A frame written to a stream is read back whole however the stream is cut into pieces and however often it times out, and the bytes after it are kept for the next frame.\<close>

theorem frames_survive_fragmentation:
  assumes "write_frame True f [] = Inr sent" and "live s" and "content s = sent @ rest" and "stalls s < n"
  shows "\<exists>p' s'. read_retry n [] s = (Inr f, p', s') \<and> p' @ content s' = rest"
  using assms by (rule write_then_read)

theorem frames_survive_fragmentation_witness:
  "\<exists>p' s'. read_retry 2 [] [Data [0, 0], Stall, Data [0, 2, 5], Data [6, 9]] = (Inr [5, 6], p', s')
    \<and> p' @ content s' = [9]"
  by (rule frames_survive_fragmentation [where sent = "frame_bytes [5, 6]"])
    (simp_all add: write_frame_def MAX_FRAME_def live_def stalls_def frame_bytes_def demo_prefix)

text \<open>C32: When no call fails, a store is saved even over a temporary file left by a crash, and loading it gives the same store, keys included.\<close>

theorem saved_store_loads_back:
  assumes "\<And>f bs. to_vec_pretty sd f = Some bs \<Longrightarrow> from_slice sd bs = Some f"
    and "store_ok s" and "ps_path s \<noteq> []" and "w_faults w = []" and "json_of sd s = Some json"
  shows "\<exists>w'. persist sd s w = (Inr (), w') \<and> load_store sd (ps_path s) w' = (Inr s, w')"
  using persist_succeeds [OF assms(4,5)] load_persisted [OF assms(1) assms(2,3)] by blast

theorem saved_store_loads_back_witness:
  "\<exists>w'. persist demo_loading_serde demo_store demo_world = (Inr (), w')
    \<and> load_store demo_loading_serde (ps_path demo_store) w' = (Inr demo_store, w')"
  by (rule saved_store_loads_back [of demo_loading_serde demo_store demo_world "[1]"])
    (simp_all add: demo_json demo_store_ok demo_store_path demo_world_def,
      auto simp: demo_loading_serde_def split: if_splits)

text \<open>C33: However the bytes of an ssh-agent connection are cut into reads, the messages they finish, or the error that closes it, are those of the whole stream; and a stream of framed messages gives back the messages.\<close>

theorem ssh_stream_cut_anyhow:
  assumes "list_all (\<lambda>body. body \<noteq> [] \<and> length body \<le> MAX_MESSAGE_BYTES) bodies"
  shows "fst (ssh_push_all inputs []) = fst (ssh_split (concat inputs) [])
    \<and> ssh_split (concat (map framed bodies)) [] = (Inr bodies, [])"
  using ssh_push_all_split [of "[]" inputs] ssh_split_frames [of bodies "[]" "[]"] assms
  by (simp add: list_all_iff ssh_split.simps [of "[]"] announced_length_def)

theorem ssh_stream_cut_anyhow_witness:
  "fst (ssh_push_all [[0, 0], [0, 1, 11, 0]] []) = fst (ssh_split (concat [[0, 0], [0, 1, 11, 0]]) [])
    \<and> ssh_split (concat (map framed [[11], [27, 1]])) [] = (Inr [[11], [27, 1]], [])"
  by (rule ssh_stream_cut_anyhow) (simp add: MAX_MESSAGE_BYTES_def)

text \<open>C34: Whatever a channel is asked to seal, and whichever of it cannot be sealed, the records it hands out are encrypted under consecutive counters: the counter each record carries is the one its nonce was made of, no two records have the same, and the counter never wraps.\<close>

theorem no_nonce_reused:
  "case seal_run cr ms ch of (sent, ch') \<Rightarrow>
    map (\<lambda>(m, rec). unat (from_be_bytes (take 8 rec) :: u64)) sent = [unat (ch_send_counter ch) ..< unat (ch_send_counter ch')]
    \<and> distinct (map (\<lambda>(m, rec). from_be_bytes (take 8 rec) :: u64) sent)
    \<and> unat (ch_send_counter ch') = unat (ch_send_counter ch) + length sent
    \<and> list_all (\<lambda>(m, rec). cr_encrypt cr (ch_send ch') (nonce (from_be_bytes (take 8 rec))) (ch_binding ch') m = Some (drop 8 rec)) sent"
  proof (cases "seal_run cr ms ch")
  case (Pair sent ch')
  have "distinct (map (\<lambda>p. unat (from_be_bytes (take 8 (snd p)) :: u64)) sent)"
    unfolding run_counters [OF Pair] by simp
  then have "distinct (map unat (map (\<lambda>p. from_be_bytes (take 8 (snd p)) :: u64) sent))" by (simp add: comp_def)
  then have "distinct (map (\<lambda>p. from_be_bytes (take 8 (snd p)) :: u64) sent)" using distinct_map by blast
  then show ?thesis
    using run_counters [OF Pair] seal_run_sealed [OF Pair] run_encrypts [OF Pair] run_same_keys [OF Pair]
    by (simp add: Pair case_prod_beta' list_all_iff)
qed

text \<open>C35: If a write is cut inside a character, the entries appended afterwards are never shown again: reading stops at the torn line without an error, and the log shows only what came before it.\<close>

theorem torn_line_hides_the_log:
  assumes "audit_json_ok aj" and "writable aj (es @ e # later)" and "w_faults w = []"
    and "audit_content lg w = log_of aj es @ torn" and "LF \<notin> set torn"
    and "from_utf8 (torn @ the (aj_to_vec aj e)) = None"
    and "length (audit_content lg w) + length (log_of aj (e # later)) \<le> al_trim_threshold_bytes lg"
  shows "fst (audit_recent aj lg n (audit_appends aj lg (e # later) w)) = take n (rev es)"
  by (rule torn_line_blinds [OF assms])

theorem torn_line_hides_the_log_witness:
  "fst (audit_recent demo_audit_json (demo_log 100 2) 5 (audit_appends demo_audit_json (demo_log 100 2) [demo_entry 2, demo_entry 3]
      (demo_files (log_of demo_audit_json (map demo_entry [1]) @ [0xC3]) []))) = take 5 (rev (map demo_entry [1]))"
  proof (rule torn_line_hides_the_log [OF demo_audit_json_ok])
  show "writable demo_audit_json (map demo_entry [1] @ demo_entry 2 # [demo_entry 3])" using demo_writable [of "[1, 2, 3]"] by simp
  have d: "as_bytes (decimal 2) = [50]" by code_simp
  show "from_utf8 ([0xC3] @ the (aj_to_vec demo_audit_json (demo_entry 2))) = None"
    by (simp add: d) code_simp
  show "length (audit_content (demo_log 100 2) (demo_files (log_of demo_audit_json (map demo_entry [1]) @ [0xC3]) []))
      + length (log_of demo_audit_json (demo_entry 2 # [demo_entry 3])) \<le> al_trim_threshold_bytes (demo_log 100 2)"
    by (simp add: audit_content_def demo_files_def demo_log_def demo_digit)
qed (simp_all add: audit_content_def demo_files_def demo_log_def LF_def)

text \<open>C36: A frame within the protocol limit of 8192 bytes but over 8168 is sealed and then refused by the framing, which takes the record too; nothing is sent, the counter has moved on, and whatever the session sends next is refused at the other end.\<close>

theorem oversized_frame_desyncs:
  assumes "crypto_ok cr" and "in_step (ns_channel s) ch" and "\<not> ns_closed s"
    and "MAX_FRAME - RECORD_OVERHEAD < length m" and "length m \<le> MAX_FRAME"
    and "seal cr m (ns_channel s) = (Inr r, a)" and "seal cr m' a = (Inr r', a')"
  shows "\<exists>s'. network_send cr m s = (Inl (NetStream InvalidInput), s') \<and> ns_channel s' = a
    \<and> sk_sent (ns_socket s') = sk_sent (ns_socket s) \<and> (\<exists>e. open_record cr r' ch = (Inl e, ch))"
  by (rule oversized_send_desyncs [OF assms])

theorem oversized_frame_desyncs_witness:
  "\<exists>s' r' a'. network_send toy_crypto (replicate 8170 1) (demo_network_session Server []) = (Inl (NetStream InvalidInput), s')
    \<and> seal toy_crypto [1] (ns_channel s') = (Inr r', a')
    \<and> (\<exists>e. open_record toy_crypto r' (channel_new Client demo_schedule [8]) = (Inl e, channel_new Client demo_schedule [8]))"
  proof -
  let ?ch = "channel_new Server demo_schedule [8]"
  have l: "length (replicate 8170 1 :: bytes) = 8170" and ne: "replicate 8170 1 \<noteq> ([] :: bytes)" by simp_all
  have m: "seal toy_crypto (replicate 8170 1) ?ch
      = (Inr (to_be_bytes 8 0 @ replicate 8170 1 @ replicate 16 9), ?ch\<lparr>ch_send_counter := 1\<rparr>)"
    unfolding seal_def l MAX_FRAME_def using ne by (simp only: channel_new_def toy_crypto_def Let_def checked_add_1_def) simp
  have m': "seal toy_crypto [1] (?ch\<lparr>ch_send_counter := 1\<rparr>)
      = (Inr (to_be_bytes 8 1 @ 1 # replicate 16 9), ?ch\<lparr>ch_send_counter := 2\<rparr>)"
    by (simp add: seal_def channel_new_def toy_crypto_def checked_add_1_def MAX_FRAME_def)
  have s: "ns_channel (demo_network_session Server []) = ?ch" "\<not> ns_closed (demo_network_session Server [])"
    by (simp_all add: demo_network_session_def network_session_of_def)
  from oversized_frame_desyncs [OF toy_crypto_ok, of "demo_network_session Server []" "channel_new Client demo_schedule [8]"
      "replicate 8170 1", OF _ s(2) _ _ m [folded s(1)] m' [folded s(1)]]
  obtain s' e where n: "network_send toy_crypto (replicate 8170 1) (demo_network_session Server []) = (Inl (NetStream InvalidInput), s')"
    and c: "ns_channel s' = ?ch\<lparr>ch_send_counter := 1\<rparr>"
    and e: "open_record toy_crypto (to_be_bytes 8 1 @ 1 # replicate 16 9) (channel_new Client demo_schedule [8])
      = (Inl e, channel_new Client demo_schedule [8])"
    unfolding l s(1) by (auto simp: new_channels_in_step RECORD_OVERHEAD_def MAX_FRAME_def)
  show ?thesis by (intro exI conjI, rule n, subst c, rule m', rule e)
qed

text \<open>C37: A phone that is answering a code when the user cancels it still ends in a proposal, and the code put on screen since then is the one that is disarmed.\<close>

theorem cancelled_code_still_answers:
  assumes "connection_run cr cfg rnd now (Some old) Map.empty sk = (Inr (Proposes g), sk')"
  shows "\<exists>st cancelled armed past. listener_runs cr cfg (st # armed # cancelled # past)
    \<and> ln_armed_pairing cancelled = None \<and> ln_proposal cancelled = None
    \<and> ln_armed_pairing armed = Some new \<and> ln_proposal armed = None
    \<and> ln_proposal st = Some g \<and> ln_armed_pairing st = None"
  by (rule cancelled_code_answers [OF assms])

theorem cancelled_code_still_answers_witness:
  "\<exists>g st cancelled armed past. listener_runs toy_crypto demo_listener (st # armed # cancelled # past)
    \<and> ln_armed_pairing cancelled = None \<and> ln_proposal cancelled = None
    \<and> ln_armed_pairing armed = Some demo_return \<and> ln_proposal armed = None
    \<and> ln_proposal st = Some g \<and> ln_armed_pairing st = None"
  proof -
  obtain sk g sk' where "connection_run toy_crypto demo_listener demo_randoms 0 (Some demo_bootstrap) Map.empty sk
    = (Inr (Proposes g), sk')" using demo_pairs by blast
  from cancelled_code_still_answers [OF this] show ?thesis by blast
qed

text \<open>C38: A phone that is forgotten while it is connecting is parked after its sessions have been discarded, although no key is on record for it any more.\<close>

theorem forgotten_phone_still_parks:
  assumes "connection_run cr cfg rnd now None known sk = (Inr (Parks (d, cred) ch), sk')"
  shows "\<exists>st discarded past. listener_runs cr cfg (st # discarded # past)
    \<and> ln_known_peers discarded = Map.empty \<and> ln_sessions discarded = []
    \<and> (\<exists>s. map_of (ln_sessions st) (d, cred) = Some s \<and> qs_channel s = ch)"
  by (rule forgotten_phone_parks [OF assms])

theorem forgotten_phone_still_parks_witness:
  "\<exists>ch st discarded past. listener_runs toy_crypto demo_listener (st # discarded # past)
    \<and> ln_known_peers discarded = Map.empty \<and> ln_sessions discarded = []
    \<and> (\<exists>s. map_of (ln_sessions st) (''phone'', Some ''cred'') = Some s \<and> qs_channel s = ch)"
  proof -
  obtain sk ch sk' where "connection_run toy_crypto demo_listener demo_randoms 0 None [''phone'' \<mapsto> [4]] sk
    = (Inr (Parks (''phone'', Some ''cred'') ch), sk')" using demo_parks by blast
  from forgotten_phone_still_parks [OF this] show ?thesis by blast
qed

text \<open>C39: A forwarded connection asks for nothing while its bind is the last one; but one later bind that does not claim forwarding replaces it, and the same login is then put to the phone as a direct one to the host of the second bind.\<close>

theorem later_bind_hides_forwarding:
  assumes "bind_fits hop hs hg" and "bind_fits host s g"
    and "length (as_key_blob r) \<le> MAX_FIELD_BYTES" and "length (as_data r) \<le> MAX_FIELD_BYTES"
    and "account_in_request (as_data r) = Some (account, service_name)" and "account \<noteq> []"
    and "list_ex (\<lambda>(blob, _). blob = as_key_blob r) (fst (bk_identities bk b))"
  shows "connection_asks sha256 bk policy_new b [bind_message hop hs hg 1, sign_message r] = []
    \<and> map (\<lambda>e. (ak_data e, ak_prompt e))
        (connection_asks sha256 bk policy_new b [bind_message hop hs hg 1, bind_message host s g 0, sign_message r])
      = [(as_data r, \<lparr>pr_user = account, pr_destination = Some (ssh_fingerprint sha256 host), pr_forwarded = False,
          pr_first_time = True\<rparr>)]"
  using later_bind_asks [OF assms] by blast

theorem later_bind_hides_forwarding_witness:
  "connection_asks toy_sha demo_ssh_backend policy_new () [bind_message [4] [1] [2] 1, sign_message demo_login] = []
    \<and> map (\<lambda>e. (ak_data e, ak_prompt e))
        (connection_asks toy_sha demo_ssh_backend policy_new () [bind_message [4] [1] [2] 1, bind_message [5] [1] [2] 0, sign_message demo_login])
      = [(as_data demo_login, \<lparr>pr_user = ''alice'', pr_destination = Some (ssh_fingerprint toy_sha [5]), pr_forwarded = False,
          pr_first_time = True\<rparr>)]"
  by (rule later_bind_hides_forwarding [OF _ _ _ _ demo_login_account])
    (simp_all add: bind_fits_def MAX_FIELD_BYTES_def demo_login_def demo_ssh_backend_def userauth_request_def publickey_def)

text \<open>C40: Locking never looks at whether the name can be restored: a file whose name unlocking refuses is locked and removed, and its container then refuses to unlock, into any directory, even with the right recovery code.\<close>

theorem device_name_locks_for_good:
  assumes "lock_setting lc rnd cu s name i c phone d"
    and "safe_file_name (lock_metadata name (stat_of d (FileNode i))) = Inl e"
  shows "\<exists>out d1 key. lock_file lc rnd s lock_plan_default cu d = (Inr out, d1) \<and> dk_nodes d1 s = None
    \<and> parse_recovery_code (lo_recovery_code out) = Inr key
    \<and> unlock_file lc rnd' (lo_container out) dir rm (RecoveryKey key) d1 = (Inl e, d1)"
  using lock_setting_locks [OF assms(1)] lock_then_refused [OF assms] lock_keys(4) [OF assms(1)]
    locked_disk_facts(3) [OF assms(1)]
  by auto

theorem device_name_locks_for_good_witness:
  "\<exists>out d1 key. lock_file toy_locker demo_lock_random ''aux.c'' lock_plan_default demo_custodian (demo_disk ''aux.c'')
      = (Inr out, d1) \<and> dk_nodes d1 ''aux.c'' = None
    \<and> parse_recovery_code (lo_recovery_code out) = Inr key
    \<and> unlock_file toy_locker demo_lock_random (lo_container out) (Some ''restored'') False (RecoveryKey key) d1 = (Inl UnsafeName, d1)"
  by (rule device_name_locks_for_good [OF demo_setting demo_name_unsafe]) simp

section \<open>Further properties\<close>

text \<open>Between honest ends, on first contact by a scanned code or with both keys on file, the handshake completes: each side learns the identity of the other, both show the same verification code, agree on the intent, and each channel opens what the other one seals.\<close>

theorem handshake_reaches_agreement:
  assumes "crypto_ok cr" and "server_ready cr b sid server_spki" and "client_ready cr dev cid client_spki"
    and "expectations_match ve pe b server_spki dev client_spki" and "now_ms < sb_expires_at_ms b"
  shows "\<exists>p hello answer oc os.
    begin_handshake cr server_secret b sid = Inr (p, hello)
    \<and> respond cr client_secret hello ve dev cid tn now_ms = Inr (answer, oc)
    \<and> finish_handshake cr p answer pe tn = Inr os
    \<and> in_step (ho_channel os) (ho_channel oc) \<and> in_step (ho_channel oc) (ho_channel os)
    \<and> ho_verification_code os = ho_verification_code oc
    \<and> ho_peer_identity_spki os = client_spki \<and> ho_peer_device_id os = dev
    \<and> ho_peer_identity_spki oc = server_spki \<and> ho_peer_device_id oc = sb_verifier_id b
    \<and> ho_was_pairing os = (pe = PairingPeer) \<and> ho_was_pairing oc = (pe = PairingPeer)
    \<and> ho_intent os = ho_intent oc"
  using assms by (rule handshake_completes)

theorem handshake_reaches_agreement_witness:
  "\<exists>p hello answer oc os.
    begin_handshake toy_crypto [1] demo_bootstrap [2] = Inr (p, hello)
    \<and> respond toy_crypto [3] hello (Scanned demo_bootstrap) ''phone'' [4] ''ble'' 1000 = Inr (answer, oc)
    \<and> finish_handshake toy_crypto p answer PairingPeer ''ble'' = Inr os
    \<and> in_step (ho_channel os) (ho_channel oc) \<and> in_step (ho_channel oc) (ho_channel os)
    \<and> ho_verification_code os = ho_verification_code oc
    \<and> ho_peer_identity_spki os = [4] \<and> ho_peer_device_id os = ''phone''
    \<and> ho_peer_identity_spki oc = [2] \<and> ho_peer_device_id oc = sb_verifier_id demo_bootstrap
    \<and> ho_was_pairing os = (PairingPeer = PairingPeer) \<and> ho_was_pairing oc = (PairingPeer = PairingPeer)
    \<and> ho_intent os = ho_intent oc"
  by (rule handshake_reaches_agreement [OF toy_crypto_ok demo_server_ready demo_client_ready])
    (simp_all add: expectations_match_def demo_bootstrap_def)

text \<open>When no call fails, reading a container back under a data key succeeds exactly when its bytes are, from the first to the last, what the format makes of some header, wrappers, metadata and contents sealed under that key, and changes nothing. The wrappers are not sealed under that key, so any well-formed ones pass.\<close>

theorem verified_container_exact:
  assumes "locker_crypto_ok lc" and "dk_faults d = []" and "holds_file d p j"
  shows "locker_verify lc p dek d = (Inr (), d') \<longleftrightarrow> d' = d \<and> (\<exists>h ws m plain. container_ok h ws m plain
    \<and> in_content (dk_inodes d j) = container_bytes lc dek h ws m plain)"
  using assms by (rule locker_verify_iff)

theorem verified_container_exact_witness:
  "locker_verify toy_locker ''a.txt.balock'' (replicate 32 1) (demo_locked\<lparr>dk_faults := []\<rparr>)
      = (Inr (), demo_locked\<lparr>dk_faults := []\<rparr>)
    \<longleftrightarrow> demo_locked\<lparr>dk_faults := []\<rparr> = demo_locked\<lparr>dk_faults := []\<rparr> \<and> (\<exists>h ws m plain. container_ok h ws m plain
    \<and> in_content (dk_inodes (demo_locked\<lparr>dk_faults := []\<rparr>) 0) = container_bytes toy_locker (replicate 32 1) h ws m plain)"
  by (rule verified_container_exact [OF toy_locker_ok]) (simp_all add: demo_locked_def holds_file_def follow_def)

text \<open>What one end of a session seals, the other end opens in the same order to the same frames.\<close>

theorem records_open_in_order:
  assumes "crypto_ok cr" and "in_step a b" and "seal_all cr ms a = Inr rs"
  shows "open_all cr rs b = Inr ms"
  using assms by (rule open_seal_all)

theorem records_open_in_order_witness:
  "open_all toy_crypto demo_records (channel_new Client demo_schedule [8]) = Inr [[1], [2, 3]]"
  by (rule records_open_in_order [OF toy_crypto_ok new_channels_in_step(1) demo_records_sealed])

text \<open>Pairing a device, again or for the first time, never changes which device a known credential id belongs to nor its public key; its record is the old one or the one just offered.\<close>

theorem pairing_again_keeps_keys:
  assumes "store_history sd p s" and "insert_device sd d s w = (r, s', w')"
    and "find_credential cid s = Some (e, c)"
  shows "\<exists>e' c'. find_credential cid s' = Some (e', c') \<and> pd_device_id e' = pd_device_id e
    \<and> pc_public_key c' = pc_public_key c \<and> (c' = c \<or> c' \<in> set (pd_credentials d))"
  using put_device_keeps_keys [OF store_history_ok [OF assms(1)] _ assms(3), of d] assms(2,3)
    insert_device_store [of sd d s w]
  by (cases "no_conflict d s") auto

theorem pairing_again_keeps_keys_witness:
  "\<exists>e' c'. find_credential ''cred'' (fst (snd (insert_device demo_serde demo_rival demo_store demo_world))) = Some (e', c')
    \<and> pd_device_id e' = pd_device_id demo_device
    \<and> pc_public_key c' = pc_public_key demo_credential \<and> (c' = demo_credential \<or> c' \<in> set (pd_credentials demo_rival))"
  by (rule pairing_again_keeps_keys [OF demo_history, of demo_rival demo_world
      "fst (insert_device demo_serde demo_rival demo_store demo_world)" _
      "snd (snd (insert_device demo_serde demo_rival demo_store demo_world))"])
    (simp_all add: demo_store_find)

text \<open>A fresh request answered before its deadline over the same session, with a signature by the paired key over the frame that was sent, is granted.\<close>

theorem answered_in_time_is_granted:
  assumes "issue spec session now_ms id_bytes challenge_bytes v = Inr pend"
    and "find_credential (sp_credential_id spec) (vf_store v) = Some (d, c)"
    and "pc_algorithm c = PUBLIC_KEY_EC_P256_SPKI"
    and "signed_by p (pc_public_key c) (pending_frame pend) sig"
    and "decode_response frame = Inr (authorizes (pa_request pend) sig)"
    and "random_request_id id_bytes \<notin> rg_seen (vf_replay v)"
    and "later < expires_at_ms (pa_request pend)"
  shows "fst (accept p pend frame session later v)
    = Inr (grant_for (pa_request pend) d (se_origin_label session) later)"
  using assms by (rule answered_request_granted)

theorem answered_in_time_is_granted_witness:
  "fst (accept toy_p256 (demo_pending 7) (demo_frame 7) demo_session 2000 (demo_verifier 1))
    = Inr (grant_for (pa_request (demo_pending 7)) demo_device (se_origin_label demo_session) 2000)"
  by (rule answered_in_time_is_granted [OF demo_issue, where d = demo_device
      and c = demo_credential and sig = "[1, 2, 3, 7]"])
    (simp_all add: demo_verifier_def demo_spec_def request_spec_new_def demo_store_find demo_credential_def
      signed_by_def toy_p256_def demo_frame_decodes demo_answer_def demo_pending_def demo_request_simps
      with_capacity_def)

text \<open>An answer that passes the checks that change nothing uses the request up, whatever is decided about it afterwards; an answer that fails them leaves the verifier unchanged.\<close>

theorem failed_answer_uses_up_request:
  assumes "verifier_ok v" and "request_id (pa_request pend') = request_id (pa_request pend)"
  shows "case check_answer pend frame session of
      Inl e \<Rightarrow> accept p pend frame session now_ms v = (Inl e, v)
    | Inr r \<Rightarrow> fst (accept p pend' frame' session' now' (snd (accept p pend frame session now_ms v))) \<noteq> Inr g"
  using accept_burns [OF assms(1) _ assms(2)] accept_rejected_early
  by (cases "check_answer pend frame session") fastforce+

theorem failed_answer_uses_up_request_witness:
  "case check_answer (demo_pending 7) (demo_frame 7) demo_session of
      Inl e \<Rightarrow> accept toy_p256 (demo_pending 7) (demo_frame 7) demo_session 99000 (demo_verifier 1) = (Inl e, demo_verifier 1)
    | Inr r \<Rightarrow> fst (accept toy_p256 (demo_pending 7) (demo_frame 7) demo_session 2000
        (snd (accept toy_p256 (demo_pending 7) (demo_frame 7) demo_session 99000 (demo_verifier 1))))
        \<noteq> Inr (grant_for (demo_request 7) demo_device ''ble'' 2000)"
  by (rule failed_answer_uses_up_request [OF demo_verifier_ok refl])

text \<open>The phone answers a server hello exactly when its own device id is well formed, the hello decodes, is the verifier it expects (the stored key, or the scanned code and the key it commits to), has not expired, and is signed by the identity it presents.\<close>

theorem respond_authenticates_verifier:
  "respond cr secret frame e dev identity tn now_ms = Inr (cframe, out) \<longleftrightarrow>
    dev \<noteq> [] \<and> length dev \<le> 64 \<and>
    (\<exists>u s h w spki ks. decode_envelope frame = Inr (u, s) \<and> decode_server_hello u = Inr h
      \<and> (e = PairedVerifier (sh_identity_spki h) \<and> w = False
        \<or> (\<exists>b. e = Scanned b \<and> w \<and> validate_bootstrap b = Inr () \<and> announces h b
            \<and> hash_identity cr (sh_identity_spki h) = sb_verifier_identity_hash b))
      \<and> now_ms < sh_expires_at_ms h
      \<and> signed_by (cr_p256 cr) (sh_identity_spki h) u s \<and> public_key_spki cr identity = Inr spki
      \<and> derive cr (cr_x25519 cr secret (sh_ephemeral h))
           (transcript_hash cr u (client_body h dev (cr_x25519_public cr secret) spki w)) = Inr ks
      \<and> cframe = envelope (client_body h dev (cr_x25519_public cr secret) spki w)
           (cr_sign cr identity (client_body h dev (cr_x25519_public cr secret) spki w))
      \<and> out = client_outcome cr h (cr_x25519_public cr secret) ks tn w)"
  unfolding respond_iff check_verifier_iff by (rule refl)

text \<open>The frame of an issued request decodes on the phone to exactly the request that was issued, bound to the session it was issued in and open for at most the protocol maximum.\<close>

theorem issued_request_reaches_phone:
  assumes "issue spec session now_ms id_bytes challenge_bytes v = Inr pend"
    and "spec_typed spec" "identity_typed (vf_identity v)" "length challenge_bytes = CHALLENGE_LEN"
      "length (se_session_binding session) = SESSION_BINDING_LEN" "is_i64 now_ms"
  shows "decode_request (pending_frame pend) = Inr (pa_request pend)
    \<and> session_binding (pa_request pend) = se_session_binding session
    \<and> expires_at_ms (pa_request pend) - issued_at_ms (pa_request pend) \<le> MAX_VALIDITY_MS"
  using issued_frame_decodes [OF assms] issued_validity [OF assms(1)] by blast

theorem issued_request_reaches_phone_witness:
  "decode_request (pending_frame (demo_pending 7)) = Inr (pa_request (demo_pending 7))
    \<and> session_binding (pa_request (demo_pending 7)) = se_session_binding demo_session
    \<and> expires_at_ms (pa_request (demo_pending 7)) - issued_at_ms (pa_request (demo_pending 7)) \<le> MAX_VALIDITY_MS"
  by (rule issued_request_reaches_phone [OF demo_issue demo_typed])

text \<open>The file-locker, disk-unlock, SSH signing and permission-sync payloads and the stored wrapped key decode exactly from the encodings of valid values: one spelling each, and nothing else is read.\<close>

theorem request_payloads_exact:
  "(decode_wrap_request f = Inr a \<longleftrightarrow> f = encode_wrap_request a \<and> wrap_request_typed a \<and> validate_wrap_request a = Inr ())
    \<and> (decode_wrap_response f = Inr b \<longleftrightarrow> f = encode_wrap_response b \<and> wrap_response_typed b \<and> validate_wrap_response b = Inr ())
    \<and> (decode_unwrap_request f = Inr c \<longleftrightarrow> f = encode_unwrap_request c \<and> unwrap_request_typed c \<and> validate_unwrap_request c = Inr ())
    \<and> (decode_unwrap_response f = Inr d \<longleftrightarrow> f = encode_unwrap_response d \<and> unwrap_response_typed d \<and> validate_unwrap_response d = Inr ())
    \<and> (decode_enroll_request f = Inr k \<longleftrightarrow> f = encode_enroll_request k \<and> enroll_request_typed k \<and> validate_enroll_request k = Inr ())
    \<and> (decode_enroll_response f = Inr l \<longleftrightarrow> f = encode_enroll_response l \<and> enroll_response_typed l \<and> validate_enroll_response l = Inr ())
    \<and> (decode_unlock_request f = Inr m \<longleftrightarrow> f = encode_unlock_request m \<and> unlock_request_typed m \<and> validate_unlock_request m = Inr ())
    \<and> (decode_unlock_response f = Inr n \<longleftrightarrow> f = encode_unlock_response n \<and> unlock_response_typed n \<and> validate_unlock_response n = Inr ())
    \<and> (decode_wrapped_key f = Inr x \<longleftrightarrow> f = encode_wrapped_key x \<and> wrapped_key_typed x \<and> validate_wrapped_key x = Inr ())
    \<and> (decode_sign_request f = Inr q \<longleftrightarrow> f = encode_sign_request q \<and> sign_request_typed q \<and> validate_sign_request q = Inr ())
    \<and> (decode_sign_response f = Inr r \<longleftrightarrow> f = encode_sign_response r \<and> sign_response_typed r \<and> validate_sign_response r = Inr ())
    \<and> (decode_sync_request f = Inr s \<longleftrightarrow> f = encode_sync_request s \<and> sync_request_typed s \<and> validate_sync_request s = Inr ())
    \<and> (decode_sync_response f = Inr t \<longleftrightarrow> f = encode_sync_response t \<and> sync_response_typed t \<and> validate_sync_response t = Inr ())"
  by (intro conjI wrap_request_codec.decode_exactly wrap_response_codec.decode_exactly
    unwrap_request_codec.decode_exactly unwrap_response_codec.decode_exactly
    enroll_request_codec.decode_exactly enroll_response_codec.decode_exactly
    unlock_request_codec.decode_exactly unlock_response_codec.decode_exactly wrapped_key_codec.decode_exactly
    sign_request_codec.decode_exactly sign_response_codec.decode_exactly
    sync_request_codec.decode_exactly sync_response_codec.decode_exactly)

text \<open>The vault payloads decode exactly from the encodings of valid values, pages of summaries included; those that carry a secret only when they fit an application frame, which the others always do.\<close>

theorem vault_payloads_exact:
  "(decode_list_request f = Inr a \<longleftrightarrow> f = encode_list_request a \<and> list_request_typed a \<and> validate_list_request a = Inr ())
    \<and> (decode_list_response f = Inr b \<longleftrightarrow> f = encode_list_response b \<and> list_response_typed b \<and> validate_list_response b = Inr ())
    \<and> (decode_fetch_request f = Inr c \<longleftrightarrow> f = encode_fetch_request c \<and> fetch_request_typed c \<and> validate_fetch_request c = Inr ())
    \<and> (decode_write_response f = Inr d \<longleftrightarrow> f = encode_write_response d \<and> write_response_typed d \<and> validate_write_response d = Inr ())
    \<and> (decode_delete_request f = Inr e \<longleftrightarrow> f = encode_delete_request e \<and> delete_request_typed e \<and> validate_delete_request e = Inr ())
    \<and> (decode_delete_response f = Inr g \<longleftrightarrow> f = encode_delete_response g \<and> delete_response_typed g \<and> validate_delete_response g = Inr ())
    \<and> (decode_fetch_response f = Inr h \<longleftrightarrow> f = encode_fetch_response h \<and> fetch_response_typed h
        \<and> validate_fetch_response h = Inr () \<and> length (encode_fetch_response h) \<le> MAX_APPLICATION_PAYLOAD_BYTES)
    \<and> (decode_create_request f = Inr i \<longleftrightarrow> f = encode_create_request i \<and> create_request_typed i
        \<and> validate_create_request i = Inr () \<and> length (encode_create_request i) \<le> MAX_APPLICATION_PAYLOAD_BYTES)
    \<and> (decode_update_request f = Inr j \<longleftrightarrow> f = encode_update_request j \<and> update_request_typed j
        \<and> validate_update_request j = Inr () \<and> length (encode_update_request j) \<le> MAX_APPLICATION_PAYLOAD_BYTES)"
  by (intro conjI list_request_codec.decode_exactly list_response_codec.decode_exactly fetch_request_codec.decode_exactly
    write_response_codec.decode_exactly delete_request_codec.decode_exactly delete_response_codec.decode_exactly
    fetch_response_codec.decode_iff create_request_codec.decode_iff update_request_codec.decode_iff)

text \<open>There is a fetch response that passes validation and whose own encoding is refused for its size: the bound on a secret counts UTF-16 units, the bound on a payload bytes.\<close>

theorem valid_secret_may_not_come_back:
  "\<exists>m. fetch_response_typed m \<and> validate_fetch_response m = Inr ()
    \<and> decode_fetch_response (encode_fetch_response m) = Inl (PayloadSize (length (encode_fetch_response m)))"
  by (rule fetch_response_too_long)

text \<open>The comparison of a frame with its re-encoding never fails: the strict reader has already refused every other spelling.\<close>

theorem canonical_check_never_fires:
  "decode_request f \<noteq> Inl NotCanonical \<and> decode_response f \<noteq> Inl NotCanonical
    \<and> decode_enrolment f \<noteq> Inl NotCanonical \<and> decode_application f \<noteq> Inl NotCanonical"
  by (intro conjI request_codec.decode_not_canonical response_codec.decode_not_canonical
    enrolment_codec.decode_not_canonical application_codec.decode_not_canonical)

text \<open>The single use of a request lasts only as long as the window of the replay guard: a pending value that is still at hand is granted again once as many other ids as the capacity have been used up.\<close>

theorem second_grant_past_the_window:
  assumes "verifier_ok v" and "fst (accept p pend frame session now_ms v) = Inr g"
    and "vf_store (verifier_run p sd evs (snd (accept p pend frame session now_ms v))) = vf_store v"
    and "rg_capacity (vf_replay v)
      \<le> length (accepted_keys consume (burned evs) (vf_replay (snd (accept p pend frame session now_ms v))))"
    and "request_id (pa_request pend) \<notin> set (burned evs)"
  shows "fst (accept p pend frame session now_ms
    (verifier_run p sd evs (snd (accept p pend frame session now_ms v)))) = Inr g"
  using assms by (rule second_grant_past_window)

theorem second_grant_past_the_window_witness:
  "fst (accept toy_p256 (demo_pending 7) (demo_frame 7) demo_session 1500
    (verifier_run toy_p256 demo_serde [AnswerArrives (demo_pending 8) (demo_frame 8) demo_session 1600]
      (snd (accept toy_p256 (demo_pending 7) (demo_frame 7) demo_session 1500 (demo_verifier 1)))))
    = Inr (grant_for (demo_request 7) demo_device ''ble'' 1500)"
  by (rule second_grant_past_the_window [OF demo_verifier_ok demo_grant demo_evicting(2,3,1)])
    (simp_all add: demo_verifier_def with_capacity_def)

text \<open>A credential covers a request exactly when one of its permissions names the service itself and, for action, resource and user, the value or the wildcard; a wildcard service covers nothing.\<close>

theorem policy_covers:
  "permits ps q \<longleftrightarrow>
    service q \<noteq> WILDCARD \<and> (\<exists>p \<in> set ps. pm_service p = service q \<and> pm_action p \<in> {WILDCARD, action q}
      \<and> pm_resource p \<in> {WILDCARD, resource q} \<and> pm_user p \<in> {WILDCARD, user q})"
  by (rule permits_iff)

text \<open>A pairing code scans back to the bootstrap it was made from, and whatever scans is a complete, valid bootstrap.\<close>

theorem scanned_code_round_trips:
  assumes "bootstrap_typed b" and "validate_bootstrap b = Inr ()"
  shows "from_uri (to_uri b) = Inr b"
  using assms by (rule from_to_uri)

theorem scanned_code_round_trips_witness:
  "from_uri (to_uri demo_bootstrap) = Inr demo_bootstrap"
  by (rule scanned_code_round_trips [OF demo_bootstrap_typed demo_bootstrap_valid])

text \<open>Whatever string is scanned, a bootstrap read from it has every field, within its bounds.\<close>

theorem scanned_code_is_complete:
  assumes "from_uri uri = Inr b"
  shows "bootstrap_typed b \<and> validate_bootstrap b = Inr ()"
  using assms by (rule from_uri_sound)

theorem scanned_code_is_complete_witness:
  "bootstrap_typed demo_bootstrap \<and> validate_bootstrap demo_bootstrap = Inr ()"
  by (rule scanned_code_is_complete [OF demo_bootstrap_scans])

text \<open>Two sets of session-binding inputs are hashed from the same bytes only if they are equal: the length prefixes leave no second reading.\<close>

theorem binding_input_unambiguous:
  assumes "list_all slice_ok (binding_fields i)" and "list_all slice_ok (binding_fields j)"
  shows "binding_preimage i = binding_preimage j \<longleftrightarrow> i = j"
  using binding_preimage_inject [of i j] assms by (auto simp: list_all_iff)

theorem binding_input_unambiguous_witness:
  "binding_preimage (demo_inputs ''ble1'' ''2'') = binding_preimage (demo_inputs ''ble'' ''12'')
    \<longleftrightarrow> demo_inputs ''ble1'' ''2'' = demo_inputs ''ble'' ''12''"
  by (rule binding_input_unambiguous) (simp_all add: demo_inputs_def binding_fields_def slice_ok_def)

text \<open>Whatever follows a padding character in base64url text is dropped without an error, encoded data included.\<close>

theorem base64_drops_after_padding:
  "from_base64url (to_base64url bs @ ''='' @ to_base64url cs) = Inr bs"
  unfolding from_base64url_after_padding by (rule from_to_base64url)

text \<open>Every raw signature of 64 bytes survives the conversion to an SSH signature blob and back, leading zeros and high bits included; anything else is refused.\<close>

theorem ssh_signatures_round_trip:
  "then_ok (encode_signature raw) decode_signature =
    (if length raw = 64 then Inr raw else Inl (FieldLength ''sshSignature'' 64 (length raw)))"
  using decode_encode_signature [of raw] encode_signature_iff [of raw]
  by (cases "encode_signature raw") (auto simp: encode_signature_def ssh_consts split: if_splits)

text \<open>The account read from data to be signed is reported exactly when the data is a publickey userauth request for that account and service.\<close>

theorem ssh_account_is_the_one_signed:
  "slice_ok data \<and> account_in_request data = Some (account, service_name) \<longleftrightarrow>
    slice_ok data \<and> is_str account \<and> is_str service_name
    \<and> length account \<le> MAX_FIELD_BYTES \<and> length service_name \<le> MAX_FIELD_BYTES
    \<and> (\<exists>session rest. length session \<le> MAX_FIELD_BYTES \<and> data = userauth_request session account service_name rest)"
  by (rule account_in_request_iff)

text \<open>A typed recovery code stands for a key exactly when, dashes, spaces and case aside, it is the code printed for that key: no other spelling of a key is accepted.\<close>

theorem recovery_code_names_one_key:
  "parse_recovery_code code = Inr key \<longleftrightarrow>
    length key = LOCKER_KEY_LEN \<and> cleaned_code code = cleaned_code (format_recovery_code key)"
  by (rule parse_recovery_code_iff)

text \<open>The fingerprint shown for a host is SHA256: and the padded base64 of the digest without its padding, although the encoder never masks its accumulator; so two hosts have the same fingerprint only when their digests are equal.\<close>

theorem ssh_fingerprint_is_base64:
  "ssh_fingerprint sha256 a = ''SHA256:'' @ filter (\<lambda>c. c \<noteq> CHR ''='') (base64 (sha256 a))
    \<and> (ssh_fingerprint sha256 a = ssh_fingerprint sha256 b \<longleftrightarrow> sha256 a = sha256 b)"
  by (simp add: fingerprint_eq) (simp add: ssh_fingerprint_def base64_unpadded_eq)

text \<open>The walk over a vault ends whatever cursors the phone makes up: it opens at most 4097 sessions, and a listing it returns has at most one page more than the ceiling of 4096 items.\<close>

theorem listing_ends:
  "case list_all_items (beside link) name (counting open_session) (w, 0) of (r, (w', sessions)) \<Rightarrow>
      sessions \<le> 1 + MAX_ITEMS
      \<and> (case r of Inl e \<Rightarrow> True | Inr items \<Rightarrow> length items \<le> MAX_ITEMS + MAX_PAGE_ITEMS)"
  proof -
  obtain r w' sessions where e: "list_all_items (beside link) name (counting open_session) (w, 0) = (r, (w', sessions))"
    using prod_cases3 by blast
  have "snd (snd (list_all_items (beside link) name (counting open_session) (w, 0))) \<le> snd (w, 0 :: nat) + 1 + (MAX_ITEMS - length ([] :: item_summary list))"
    unfolding list_all_items_def by (rule list_walk_raises [where f = snd]) (rule beside_keeps, rule counting_counts)
  then have "sessions \<le> 1 + MAX_ITEMS" unfolding e by simp
  moreover have "case r of Inl e \<Rightarrow> True | Inr items \<Rightarrow> length items \<le> MAX_ITEMS + MAX_PAGE_ITEMS"
  proof (cases r)
    case (Inr items)
    show ?thesis unfolding Inr sum.case by (rule list_walk_length [OF _ e [unfolded list_all_items_def Inr]]) simp
  qed simp
  ultimately show ?thesis unfolding e prod.case by blast
qed

text \<open>From a phone that serves the pages of one snapshot, each under its own cursor and within the ceiling, the walk returns the items of all pages in order.\<close>

theorem listing_reads_the_snapshot:
  assumes "snapshot pages" and "ok w"
    and "\<And>i w. i < length pages \<Longrightarrow> ok w \<Longrightarrow>
      \<exists>w'. list_one link name open_session (cursor_of pages i) w = (Inr (pages ! i), w') \<and> ok w'"
  shows "fst (list_all_items link name open_session w) = Inr (concat (map vp_items pages))"
  using list_walk_snapshot [OF assms(1,3), of 0 w] assms(1,2)
  by (simp add: list_all_items_def snapshot_def)

theorem listing_reads_the_snapshot_witness:
  "fst (list_all_items (toy_phone demo_vault) ''Desk'' demo_open []) = Inr (concat (map vp_items demo_pages))"
  by (rule listing_reads_the_snapshot [where ok = "\<lambda>_. True", OF demo_snapshot]) (simp_all add: demo_serves)

text \<open>Enrolling a volume key never looks at what the channel guarantees: over two sessions that differ only in that, the same frames are sent, the disk key inside, and the same result comes back; every other client refuses an unsuitable session.\<close>

theorem enrolment_ignores_the_channel:
  assumes "\<And>b. pk_send link s b = pk_send link s' b" and "\<And>t. pk_receive link s t = pk_receive link s' t"
    and "se_session_binding s = se_session_binding s'"
  shows "luks_enroll link s name volume w = luks_enroll link s' name volume w
    \<and> (suitable_for_authorization (se_security s') \<or> (\<forall>operation payload ans.
         fst (vault_exchange link s' operation payload w) \<noteq> Inr ans
         \<and> fst (ssh_exchange link s' operation payload w) \<noteq> Inr ans
         \<and> fst (permissions_exchange link s' operation payload w) \<noteq> Inr ans
         \<and> fst (locker_exchange_on link s' operation payload w) \<noteq> Inr ans))"
  using luks_enroll_cong [OF assms] vault_ex.needs_session ssh_ex.needs_session permissions_ex.needs_session
    locker_ex.needs_session
  by metis

theorem enrolment_ignores_the_channel_witness:
  "luks_enroll (toy_phone demo_vault) (toy_session True) ''Desk'' ''root'' [] = luks_enroll (toy_phone demo_vault) (toy_session False) ''Desk'' ''root'' []
    \<and> (suitable_for_authorization (se_security (toy_session False)) \<or> (\<forall>operation payload ans.
         fst (vault_exchange (toy_phone demo_vault) (toy_session False) operation payload []) \<noteq> Inr ans
         \<and> fst (ssh_exchange (toy_phone demo_vault) (toy_session False) operation payload []) \<noteq> Inr ans
         \<and> fst (permissions_exchange (toy_phone demo_vault) (toy_session False) operation payload []) \<noteq> Inr ans
         \<and> fst (locker_exchange_on (toy_phone demo_vault) (toy_session False) operation payload []) \<noteq> Inr ans))"
  by (rule enrolment_ignores_the_channel) (simp_all add: toy_phone_def toy_session_def)

text \<open>When no call fails, appending to the audit log succeeds and leaves the newest entries, the new one among them: all of them while the log fits its threshold, and otherwise as many as bring it back below the threshold.\<close>

theorem audit_append_is_exact:
  assumes "w_faults w = []" and "audit_content lg w = log_of aj es" and "audit_json_ok aj"
    and "writable aj (es @ [e])" and "0 < al_retain lg"
  shows "\<exists>m w'. audit_append aj lg e w = (Inr (), w') \<and> w_faults w' = [] \<and> 0 < m \<and> m \<le> length (es @ [e]) \<and>
    audit_content lg w' = log_of aj (newest m (es @ [e])) \<and>
    (length (log_of aj (es @ [e])) \<le> al_trim_threshold_bytes lg \<longrightarrow> m = length (es @ [e])) \<and>
    (length (log_of aj (newest m (es @ [e]))) \<le> al_trim_threshold_bytes lg \<or> m = 1)"
  by (rule audit_append_exact [OF assms])

theorem audit_append_is_exact_witness:
  "\<exists>m w'. audit_append demo_audit_json (demo_log 5 2) (demo_entry 3) (demo_files (log_of demo_audit_json (map demo_entry [1, 2])) []) = (Inr (), w')
    \<and> w_faults w' = [] \<and> 0 < m \<and> m \<le> length (map demo_entry [1, 2] @ [demo_entry 3]) \<and>
    audit_content (demo_log 5 2) w' = log_of demo_audit_json (newest m (map demo_entry [1, 2] @ [demo_entry 3])) \<and>
    (length (log_of demo_audit_json (map demo_entry [1, 2] @ [demo_entry 3])) \<le> al_trim_threshold_bytes (demo_log 5 2)
      \<longrightarrow> m = length (map demo_entry [1, 2] @ [demo_entry 3])) \<and>
    (length (log_of demo_audit_json (newest m (map demo_entry [1, 2] @ [demo_entry 3]))) \<le> al_trim_threshold_bytes (demo_log 5 2) \<or> m = 1)"
  by (rule audit_append_is_exact)
    (use demo_audit_json_ok demo_writable [of "[1, 2, 3]"] in \<open>simp_all add: demo_files_def audit_content_def demo_log_def\<close>)

text \<open>If a read fails while the log is trimmed, the entries that were not read, the newest ones, are dropped from the log, and the append reports success.\<close>

theorem failed_read_forgets_entries:
  assumes "audit_json_ok aj" and "writable aj (es @ [e])" and "audit_content lg w = log_of aj es"
    and "parent_of (al_path lg) \<noteq> None" and "m \<le> length es"
    and "w_faults w = replicate 5 None @ [Some (err, length (log_of aj (take m es)))]"
    and "length (log_of aj (es @ [e])) > al_trim_threshold_bytes lg" and "al_retain lg < m"
  shows "\<exists>k w'. audit_append aj lg e w = (Inr (), w') \<and> w_faults w' = [] \<and> k \<le> al_retain lg \<and>
    audit_content lg w' = log_of aj (newest k (take m es))"
  by (rule cut_reading_forgets [OF assms])

theorem failed_read_forgets_entries_witness:
  "\<exists>k w'. audit_append demo_audit_json (demo_log 5 1) (demo_entry 4)
      (demo_files (log_of demo_audit_json (map demo_entry [1, 2, 3])) (replicate 5 None @ [Some (OtherIo 5, length (log_of demo_audit_json (take 2 (map demo_entry [1, 2, 3]))))])) = (Inr (), w')
    \<and> w_faults w' = [] \<and> k \<le> al_retain (demo_log 5 1) \<and>
    audit_content (demo_log 5 1) w' = log_of demo_audit_json (newest k (take 2 (map demo_entry [1, 2, 3])))"
  by (rule failed_read_forgets_entries [OF demo_audit_json_ok])
    (use demo_writable [of "[1, 2, 3, 4]"] in \<open>simp_all add: demo_files_def audit_content_def demo_log_def parent_of_def demo_digit\<close>)

text \<open>A passphrase never outgrows the buffer that was sized for it, whatever its word count, separator and draws, so it is never moved while it is built.\<close>

theorem passphrase_fits_its_buffer:
  assumes "wordlist_ok wordlist" and "generate_passphrase wordlist word_count separator rs = Some (s, r)"
  shows "length s \<le> passphrase_capacity word_count separator"
  by (rule generate_passphrase_fits [OF assms])

theorem passphrase_fits_its_buffer_witness:
  "length ''ab-ab'' \<le> passphrase_capacity 2 ''-''"
  by (rule passphrase_fits_its_buffer [OF demo_words_ok demo_passphrase])

text \<open>A question that was put to a phone is announced to every subscriber when it starts and when it ends, and its outcome is in the audit log, granted, denied or failed as the caller hears it; a call that put none has failed and changed nothing of the service.\<close>

theorem authorization_is_told_once:
    shows "case authorize en params sv of (r, sv') \<Rightarrow> same_service sv sv' \<and> isl r \<or>
    (\<exists>pending device_name development entry.
      sv_subscribers sv' = told [started_event pending device_name development, finished_event (pa_request pending) r]
        (sv_subscribers sv) \<and>
      entry_for (pa_request pending) (audit_outcome r) development entry \<and> audited en entry sv sv')"
  using authorize_told [of en params sv] by (auto split: prod.split)

text \<open>A peer without the token keeps its connection as long as it likes: the deadline for the first call is a deadline for each read and blank lines are skipped, so for any time there is a peer that sends nothing but newlines, is served for that time, and ends it itself.\<close>

theorem newlines_hold_a_connection:
    shows "\<exists>p. T \<le> spent (pr_bytes p) \<and> list_all (\<lambda>(_, b). b = 0x0A) (pr_bytes p) \<and> pr_closes p \<and>
    handle_connection parse_call disp drop_subscriptions token FIRST_CALL_WINDOW p sv = stopped Closed sv []"
  proof -
  let ?p = "\<lparr>pr_bytes = blank_lines T 1, pr_closes = True, pr_writes = []\<rparr>"
  have "T \<le> spent (pr_bytes ?p) \<and> list_all (\<lambda>(_, b). b = 0x0A) (pr_bytes ?p)"
    by (simp add: spent_def blank_lines_def sum_list_replicate list_all_iff)
  moreover have "handle_connection parse_call disp drop_subscriptions token FIRST_CALL_WINDOW ?p sv = stopped Closed sv []"
    using blank_lines_closed [where gap = 1 and window = FIRST_CALL_WINDOW and parse = parse_call and dispatch = disp and token = token and n = T and s = sv]
    by (simp add: handle_connection_def FIRST_CALL_WINDOW_def)
  ultimately show ?thesis by (intro exI [of _ ?p]) simp
qed

text \<open>A pairing that is confirmed puts the phone and the key its handshake proved into the store, under the purpose the code was for, and with no permission: it authorizes nothing until it is given some.\<close>

theorem enrolled_phone_may_nothing:
  assumes "store_unique (sv_store sv)" and "confirm_pairing en code attempt sv = (Inr (), sv')" and "sv_held_proposal sv = Some g"
  shows "\<exists>d c. find_credential (pg_credential_id g) (sv_store sv') = Some (d, c) \<and> pd_device_id d = pg_device_id g \<and>
    pd_session_identity_public_key d = pg_session_identity_spki g \<and> pc_public_key c = pg_credential_public_key g \<and>
    pc_purpose c = map_purpose (pg_purpose g) \<and> pc_permissions c = [] \<and> pg_verification_code g = code"
  using confirmed_is_powerless [OF assms] confirm_Inr [OF assms(2)] assms(3) by auto

theorem enrolled_phone_may_nothing_witness:
  "\<exists>(sv' :: unit service) d c. find_credential ''other'' (sv_store sv') = Some (d, c) \<and> pd_device_id d = ''watch'' \<and> pc_permissions c = []"
  proof -
  from demo_confirm obtain sv' where
    c: "confirm_pairing (demo_en 1) ''123456'' None (demo_service demo_memory (Some demo_proposal) ()) = (Inr (), sv')" by blast
  have h: "sv_held_proposal (demo_service demo_memory (Some demo_proposal) ()) = Some demo_proposal" by (simp add: demo_service_def)
  from enrolled_phone_may_nothing [OF demo_memory_unique c h] show ?thesis by (simp add: demo_proposal_def) blast
qed

text \<open>Forgetting a phone whose removal cannot be saved leaves it out of the store in memory while the listener still takes it for a known one and keeps its sessions; a second try is refused as an unknown device and does not put that right.\<close>

theorem failed_forget_reaches_nobody:
  assumes "persist (en_serde en) (drop_device did (sv_store sv)) (sv_files sv) = (Inl e, w)"
    and "store_device did (sv_store sv) \<noteq> None" and "forget en did sv = (r, sv')"
  shows "r = Inl (service_error_new ''unknown-device'' (pairing_error_text en e))
    \<and> store_device did (sv_store sv') = None \<and> sv_host sv' = sv_host sv
    \<and> forget en did sv' = (Inl (service_error_new ''unknown-device'' (pairing_error_text en (UnknownDevice did))), sv')"
  using assms by (rule forget_fails)

theorem failed_forget_reaches_nobody_witness:
  "\<exists>r sv'. forget (demo_surroundings (demo_link (Inl NotFound) id 1) broken_serde [demo_transport]) ''phone''
      (demo_service demo_desk None ()) = (r, sv') \<and> isl r \<and> store_device ''phone'' (sv_store sv') = None"
  proof -
  let ?en = "demo_surroundings (demo_link (Inl NotFound) id 1) broken_serde [demo_transport] :: (bytes, bytes, bytes, unit) surroundings"
  let ?sv = "demo_service demo_desk None ()"
  obtain r sv' where f: "forget ?en ''phone'' ?sv = (r, sv')" by fastforce
  from demo_persist_fails obtain w where
    w: "persist (en_serde ?en) (drop_device ''phone'' (sv_store ?sv)) (sv_files ?sv) = (Inl PairingCorrupt, w)"
    by (auto simp: demo_surroundings_def demo_service_def sv_store_def demo_desk_store)
  have d: "store_device ''phone'' (sv_store ?sv) \<noteq> None"
    by (simp add: demo_service_def sv_store_def demo_desk_store store_device_def demo_store_get)
  from failed_forget_reaches_nobody [OF w d f] f show ?thesis by auto
qed

text \<open>Locking through the service: whatever call of the disk or the phone fails, the file is still there as it was; when it succeeds the container holds what the file held, the recovery code is in the file the caller named, and the original is gone exactly when it was not to be kept.\<close>

theorem service_lock_keeps_the_file:
    fixes en :: "('key, 'sig, 'secret) locker_surroundings"
  assumes "locker_crypto_ok lc" and "locker_random_ok rnd" and "apart en"
    and "klp_path params @ ''.'' @ LOCKER_EXTENSION \<noteq> klp_recovery_code_path params"
  shows "io_triple (on_disk (intact (klp_path params) i c)) (locker_lock en lc rnd params)
    (\<lambda>result sv. on_disk (lock_left lc rnd (klp_path params) (klp_recovery_code_path params) i c (klr_original_removed result)) sv \<and>
      klr_original_removed result = (\<not> klp_keep_original params)) (on_disk (intact (klp_path params) i c))"
  using locker_lock_keeps [OF assms refl refl] .

theorem service_lock_keeps_the_file_witness:
  "io_triple (on_disk (intact ''/a.txt'' 0 [1])) (locker_lock demo_locker_en toy_locker demo_lock_random
      \<lparr>klp_path = ''/a.txt'', klp_recovery_code_path = ''/code'', klp_keep_original = False, klp_credential_id = None\<rparr>)
    (\<lambda>result sv. on_disk (lock_left toy_locker demo_lock_random ''/a.txt'' ''/code'' 0 [1] (klr_original_removed result)) sv \<and>
      klr_original_removed result = (\<not> False)) (on_disk (intact ''/a.txt'' 0 [1]))"
  using service_lock_keeps_the_file [OF toy_locker_ok demo_lock_random_ok demo_apart,
      of "\<lparr>klp_path = ''/a.txt'', klp_recovery_code_path = ''/code'', klp_keep_original = False, klp_credential_id = None\<rparr>" 0 "[1]"]
  by (simp add: LOCKER_EXTENSION_def)

text \<open>A password is filled into a page only when the origin of the page has a host, exactly one login of the vault has that very host, and the secret comes from the fetch of that item.\<close>

theorem fill_is_for_this_site:
    shows "case vault_fill en params sv of (Inl _, _) \<Rightarrow> True | (Inr result, _) \<Rightarrow>
    (\<exists>host did cred first session items item fetched sv1 sv2 w w'.
    origin_host (vfp_origin params) = Some host \<and>
    select_vault_credential (sv_store sv) (vfp_credential_id params) = Inr (did, cred) \<and>
    walk_vault en first did cred sv1 = (Inr items, sv2) \<and> filter (item_for_host host) items = [item] \<and>
    vault_fetch (en_link en) (ac_verifier_name (sv_config sv)) session (su_id item) w = (Inr fetched, w') \<and>
    result = \<lparr>vfr_password = vs_secret fetched, vfr_username = su_username item\<rparr>)"
  proof (cases "vault_fill en params sv")
  case (Pair r sv')
  show ?thesis
  proof (cases r)
    case (Inr result)
    show ?thesis unfolding Pair Inr prod.case sum.case by (rule vault_fill_site [OF Pair [unfolded Inr]])
  qed (simp add: Pair)
qed

text \<open>A vault item whose address is written without a scheme but carries one later, as in bank.example/?next=https://evil.example, is taken to belong to the later host: it is offered to that site and not to its own.\<close>

theorem later_scheme_names_the_host:
  assumes "str_trim (w @ ''://'' @ h) = w @ ''://'' @ h" and "CHR '':'' \<notin> set w"
    and "set h \<inter> HOST_ENDS = {}" and "h \<noteq> []" and "\<not> list_ex is_whitespace (chars h)"
  shows "item_host (w @ ''://'' @ h) = Some (to_ascii_lowercase h)"
  by (rule later_scheme_host [OF assms])

theorem later_scheme_names_the_host_witness:
  "item_host (''bank.example/?next=https'' @ ''://'' @ ''evil.example'') = Some (to_ascii_lowercase ''evil.example'')"
  proof (rule later_scheme_names_the_host)
  show "\<not> list_ex is_whitespace (chars ''evil.example'')" by (simp add: chars_ascii ascii_def is_whitespace_def)
  show "str_trim (''bank.example/?next=https'' @ ''://'' @ ''evil.example'') = ''bank.example/?next=https'' @ ''://'' @ ''evil.example''"
    by (rule str_trim_ascii) (simp_all add: ascii_def is_whitespace_def)
qed (simp_all add: HOST_ENDS_def)

text \<open>A secret that was copied has a timer for the time asked for, and when the timer runs out with the clipboard as it was, and the clipboard can be opened before the attempts run out, it is empty.\<close>

theorem copied_secret_is_taken_back:
  assumes "copy_secret win_clipboard secret ttl b = (Inr out, b')" and "bd_sequence b' \<noteq> 0"
    and "bd_sequence b'' = bd_sequence b'" and "bd_ours b'' = bd_ours b'" and "undisturbed b''"
    and "length (bd_others b'') < 96"
  shows "\<exists>ours. (ttl, ours) \<in> set (bd_timers b') \<and> bd_held (win_expire ours b'') = Nothing"
  using assms by (rule copied_is_taken_back)

theorem copied_secret_is_taken_back_witness:
  "\<exists>out b' ours. copy_secret win_clipboard [0x61] 5000 (demo_board []) = (Inr out, b') \<and>
    (5000, ours) \<in> set (bd_timers b') \<and> bd_held (win_expire ours b') = Nothing"
  proof -
  from demo_copy obtain out b' where c: "copy_secret win_clipboard [0x61] 5000 (demo_board []) = (Inr out, b')"
    and b: "bd_sequence b' \<noteq> 0" "bd_others b' = []" by blast
  have "undisturbed b'" "length (bd_others b') < 96" by (simp_all add: undisturbed_def b)
  from copied_secret_is_taken_back [OF c b(1) refl refl this] c show ?thesis by blast
qed

text \<open>The check that the clipboard still holds the secret is made before the clipboard is open: what another program puts there in between is thrown away as if it were the secret.\<close>

theorem clear_takes_what_just_arrived:
  assumes "bd_ours b = bd_sequence b" and "bd_ours b \<noteq> 0" and "bd_others b = (0, busy) # (Suc n, False) # rest"
  shows "\<exists>b1. fst (win_clear b) = Inr () \<and> bd_held (snd (win_clear b)) = Nothing \<and>
    turn (snd (turn b)) = (False, b1) \<and> bd_held b1 = Theirs"
  using assms by (rule clear_loses_what_arrives)

theorem clear_takes_what_just_arrived_witness:
  "let b = (demo_board [(0, False), (1, False)])\<lparr>bd_ours := 5\<rparr> in
    bd_held (snd (win_clear b)) = Nothing"
  using clear_takes_what_just_arrived [of "(demo_board [(0, False), (Suc 0, False)])\<lparr>bd_ours := 5\<rparr>" False 0 "[]"]
  by (simp add: demo_board_def Let_def)

text \<open>A page that asks for a passkey and is refused hears one sentence, whatever the phone said and whatever the reason.\<close>

theorem refusals_look_alike:
  assumes "perform_webauthn js en wh waits fuel params sv = Some (Inl e, sv')" and "sx_code e = ''declined''"
  shows "sx_message e = ''passkey operation was cancelled or rejected''"
  using assms by (rule webauthn_refusals)

theorem refusals_look_alike_witness:
  "\<exists>e sv'. perform_webauthn toy_json (demo_passkey_en demo_refusal) demo_clock (\<lambda>_. False) 1 demo_passkey_params
      (demo_service demo_passkey None 0) = Some (Inl e, sv') \<and> sx_message e = ''passkey operation was cancelled or rejected''"
  using demo_refused refusals_look_alike by blast

text \<open>A passkey ceremony comes to an end: when a wait that runs out has taken time, ninety thousand turns of the loop and two more are enough for its ninety seconds, whatever the phone does.\<close>

theorem passkey_wait_ends:
  assumes "ticking clock (en_link en) wh waits" and "WEBAUTHN_TIMEOUT + 1 < fuel"
  shows "perform_webauthn js en wh waits fuel params sv \<noteq> None"
  using assms by (rule webauthn_ends)

theorem passkey_wait_ends_witness:
  "perform_webauthn toy_json (demo_passkey_en (Inl NotFound)) demo_clock (\<lambda>_. True) 90002 demo_passkey_params
      (demo_service demo_passkey None 0) \<noteq> None"
  by (rule passkey_wait_ends [OF demo_ticking]) (simp add: WEBAUTHN_TIMEOUT_def)

text \<open>A password generated for the clipboard always leaves an entry in the audit log, also when the timeout, the policy or the clipboard refuses it, and the reply says of it what the entry says.\<close>

theorem generated_copy_is_written_down:
    shows "case vault_generate_copy ag i params sv of None \<Rightarrow> True | Some (reply, subs, sv') \<Rightarrow>
    (\<exists>r. logged (ag_en ag) ''vault'' ''generate'' sv r sv' \<and>
      reply = (case r of Inl e \<Rightarrow> reply_err i (sx_code e) (sx_message e) | Inr copied \<Rightarrow> to_reply ag i (CopyPayload copied)))"
  using generated_copy_is_logged [of ag i params sv] by (auto split: option.split prod.split)

text \<open>What the API writes of bytes as base64 text is read back as those bytes.\<close>

theorem base64_round_trip:
    shows "base64_bytes_deserialize (base64_bytes_serialize bs) = Some bs"
  by (rule base64_bytes_round_trip)

end
